(* ===== verification/Range_Prelude.thy ===== *)
theory Range_Prelude
  imports Main "HOL-Library.Word" "HOL-Library.Monad_Syntax"
begin

text \<open>
  Shared material of the development: the lemma collections the component
  theories fill, integer widths (\<^verbatim>\<open>IntWidth\<close> of
  \<^verbatim>\<open>include/cangjie/CHIR/Analysis/SInt.h\<close>), the modulus \<open>2 ^ w\<close> and the sign
  threshold \<open>2 ^ (w - 1)\<close> of a width as opaque integers with the few linear facts the
  range proofs need, and generic facts on \<open>mod\<close>, on words and on the option monad.
\<close>

unbundle bit_operations_syntax

named_theorems sint_simps \<open>reading the operations of SInt as integers\<close>
named_theorems sint_wf \<open>operations of SInt keep the value inside its width\<close>
named_theorems sint_width \<open>the width of the result of an operation\<close>
named_theorems cr_wf \<open>operations on ranges keep the constructor's contract\<close>

section \<open>Widths\<close>

datatype IntWidth = I8 | I16 | I32 | I64

fun bw :: "IntWidth \<Rightarrow> nat" where
  "bw I8 = 8"
| "bw I16 = 16"
| "bw I32 = 32"
| "bw I64 = 64"

text \<open>\<^verbatim>\<open>FromUnsigned\<close>: a bit count as a width; the default branch (any other
  count) aborts in a build with assertions and returns \<^term>\<open>I64\<close> otherwise.\<close>

fun FromUnsigned :: "nat \<Rightarrow> IntWidth" where
  "FromUnsigned v =
     (if v = 8 then I8 else if v = 16 then I16 else if v = 32 then I32 else I64)"

lemma FromUnsigned_bw [simp]: "FromUnsigned (bw w) = w"
  by (cases w) simp_all

lemma bw_bounds: "8 \<le> bw w" "bw w \<le> 64" "0 < bw w"
  by (cases w; simp)+

lemma bw_inj: "bw w = bw w' \<longleftrightarrow> w = w'"
  by (cases w; cases w'; simp)

lemma bw_cases: "bw w = 8 \<or> bw w = 16 \<or> bw w = 32 \<or> bw w = 64"
  by (cases w; simp)

instantiation IntWidth :: linorder
begin

definition less_eq_IntWidth :: "IntWidth \<Rightarrow> IntWidth \<Rightarrow> bool" where
  "less_eq_IntWidth a b \<longleftrightarrow> bw a \<le> bw b"

definition less_IntWidth :: "IntWidth \<Rightarrow> IntWidth \<Rightarrow> bool" where
  "less_IntWidth a b \<longleftrightarrow> bw a < bw b"

instance
  by standard (auto simp: less_eq_IntWidth_def less_IntWidth_def bw_inj)

end

definition half :: "IntWidth \<Rightarrow> int" where
  "half w = 2 ^ (bw w - 1)"

definition modulus :: "IntWidth \<Rightarrow> int" where
  "modulus w = 2 ^ bw w"

lemma modulus_half: "modulus w = 2 * half w"
  by (cases w) (simp_all add: modulus_def half_def)

lemma half_ge: "128 \<le> half w"
  by (cases w) (simp_all add: half_def)

lemma half_le: "half w \<le> 9223372036854775808"
  by (cases w) (simp_all add: half_def)

lemma modulus_ge: "256 \<le> modulus w"
  using half_ge [of w] by (simp add: modulus_half)

lemma modulus_le: "modulus w \<le> 18446744073709551616"
  using half_le [of w] by (simp add: modulus_half)

lemma modulus_pos [simp]: "0 < modulus w"
  using modulus_ge [of w] by linarith

lemma half_pos [simp]: "0 < half w"
  using half_ge [of w] by linarith

lemma half_not_le_0 [simp]: "\<not> half w \<le> 0"
  using half_pos [of w] by linarith

lemma half_nonneg [simp]: "0 \<le> half w" "half w \<noteq> 0"
  using half_pos [of w] by linarith+

lemma modulus_nonneg [simp]: "0 \<le> modulus w" "modulus w \<noteq> 0" "\<not> modulus w \<le> 0"
  using modulus_pos [of w] by linarith+

lemma modulus_simps [simp]:
  "modulus I8 = 256" "modulus I16 = 65536" "modulus I32 = 4294967296"
  "modulus I64 = 18446744073709551616"
  by (simp_all add: modulus_def)

lemma half_simps [simp]:
  "half I8 = 128" "half I16 = 32768" "half I32 = 2147483648"
  "half I64 = 9223372036854775808"
  by (simp_all add: half_def)

lemma modulus_dvd_64: "modulus w dvd 18446744073709551616"
  by (cases w) simp_all

lemma modulus_mono: "w \<le> w' \<Longrightarrow> modulus w dvd modulus w'"
  by (cases w; cases w') (simp_all add: less_eq_IntWidth_def)

lemma modulus_strict: "w < w' \<Longrightarrow> modulus w * 256 \<le> modulus w'"
  by (cases w; cases w') (simp_all add: less_IntWidth_def)

section \<open>Integer facts\<close>

lemma mod_once_up:
  fixes a m :: int
  assumes "0 \<le> a" "a < 2 * m"
  shows "a mod m = (if a < m then a else a - m)"
proof (cases "a < m")
  case True
  with assms show ?thesis by simp
next
  case False
  then have "a mod m = (a - m) mod m" by simp
  also have "\<dots> = a - m" using assms False by (intro mod_pos_pos_trivial) auto
  finally show ?thesis using False by simp
qed

lemma mod_once_down:
  fixes a m :: int
  assumes "- m \<le> a" "a < m"
  shows "a mod m = (if a < 0 then a + m else a)"
proof (cases "a < 0")
  case True
  have "a mod m = (a + m) mod m" by simp
  also have "\<dots> = a + m" using assms True by (intro mod_pos_pos_trivial) auto
  finally show ?thesis using True by simp
next
  case False
  with assms show ?thesis by simp
qed

lemma mod_in_range:
  fixes a m :: int
  assumes "0 < m"
  shows "0 \<le> a mod m" "a mod m < m"
  using assms by simp_all

section \<open>Words as integers\<close>

lemma uint64_bounds: "0 \<le> uint (v :: 64 word)" "uint (v :: 64 word) < 18446744073709551616"
  using uint_lt2p [of v] by simp_all

lemma uint_and_mask64:
  "n \<le> 64 \<Longrightarrow> uint ((v :: 64 word) AND mask n) = uint v mod 2 ^ n"
  by (simp only: take_bit_eq_mask [symmetric] unsigned_take_bit_eq) (simp only: take_bit_eq_mod)

lemma minus1_shift_mask:
  "n \<le> 64 \<Longrightarrow> drop_bit (64 - n) (- 1 :: 64 word) = mask n"
proof (rule bit_word_eqI)
  fix i assume "n \<le> 64" "i < LENGTH(64)"
  then show "bit (drop_bit (64 - n) (- 1 :: 64 word)) i = bit (mask n :: 64 word) i"
    by (auto simp: bit_drop_bit_eq bit_mask_iff possible_bit_def)
qed

section \<open>The option monad\<close>

lemma bind_SomeD: "Option.bind m f = Some y \<Longrightarrow> \<exists>x. m = Some x \<and> f x = Some y"
  by (cases m) auto

end
