(* ===== verification/SInt.thy ===== *)
theory SInt
  imports Arith64
begin

text \<open>
  The fixed-width integer \<^verbatim>\<open>SInt\<close> of \<^verbatim>\<open>SInt.h\<close> and \<^verbatim>\<open>SInt.cpp\<close>: a
  width of 8, 16, 32 or 64 bits and a 64-bit value whose bits above the width are zero.
  Every member function is a HOL function of the same name with the prefix \<open>SInt_\<close>; a
  member that changes \<^verbatim>\<open>*this\<close> returns the new value, an out-parameter
  \<^verbatim>\<open>bool& overflow\<close> is the second component of a pair. The model is the build
  without assertions, in which \<^verbatim>\<open>CJC_ASSERT\<close> and \<^verbatim>\<open>CJC_ABORT\<close> do nothing;
  what the assertions require is proved where the ranges rely on it. A division by zero and
  a shift by 64 or more have no value in C++: the operations that can meet them return
  \<open>None\<close> there.
\<close>

record SInt =
  width :: IntWidth
  val :: "64 word"

datatype Radix = R2 | R10 | R16

fun radix_val :: "Radix \<Rightarrow> nat" where
  "radix_val R2 = 2"
| "radix_val R10 = 10"
| "radix_val R16 = 16"

section \<open>Construction and constants\<close>

definition WORD_TYPE_MAX :: "64 word" where
  "WORD_TYPE_MAX = - 1"

definition SInt_ClearUnusedBits :: "SInt \<Rightarrow> SInt" where
  "SInt_ClearUnusedBits x =
     (let wordBits = (bw (width x) - 1) mod 64 + 1;
          msk = drop_bit (64 - wordBits) WORD_TYPE_MAX
      in x\<lparr>val := val x AND msk\<rparr>)"

definition SInt_make :: "IntWidth \<Rightarrow> 64 word \<Rightarrow> SInt" where
  "SInt_make w v = SInt_ClearUnusedBits \<lparr>width = w, val = v\<rparr>"

text \<open>The implicit constructors from \<^verbatim>\<open>unsigned\<close> (32 bits) and \<^verbatim>\<open>unsigned long\<close>,
  \<^verbatim>\<open>unsigned long long\<close> (64 bits).\<close>

definition SInt_from_u32 :: "32 word \<Rightarrow> SInt" where
  "SInt_from_u32 v = SInt_make (FromUnsigned 32) (ucast v)"

definition SInt_from_u64 :: "64 word \<Rightarrow> SInt" where
  "SInt_from_u64 v = SInt_make (FromUnsigned 64) v"

definition SInt_UVal :: "SInt \<Rightarrow> 64 word" where
  "SInt_UVal x = val x"

definition SInt_SVal :: "SInt \<Rightarrow> int" where
  "SInt_SVal x = sint (SignExtend64 (val x) (bw (width x)))"

definition SInt_GetZExtValue :: "SInt \<Rightarrow> 64 word" where
  "SInt_GetZExtValue x = val x"

definition SInt_GetSExtValue :: "SInt \<Rightarrow> int" where
  "SInt_GetSExtValue x = sint (SignExtend64 (val x) (bw (width x)))"

definition SInt_MaskBit :: "nat \<Rightarrow> 64 word" where
  "SInt_MaskBit pos = push_bit pos 1"

definition SInt_SetAllBits :: "SInt \<Rightarrow> SInt" where
  "SInt_SetAllBits x = SInt_ClearUnusedBits (x\<lparr>val := WORD_TYPE_MAX\<rparr>)"

definition SInt_SetBit :: "SInt \<Rightarrow> nat \<Rightarrow> SInt" where
  "SInt_SetBit x pos = x\<lparr>val := val x OR SInt_MaskBit pos\<rparr>"

definition SInt_SetBits :: "SInt \<Rightarrow> nat \<Rightarrow> nat \<Rightarrow> SInt" where
  "SInt_SetBits x lo hi =
     (if lo = hi then x
      else let msk = push_bit lo (drop_bit (64 - hi + lo) WORD_TYPE_MAX)
           in x\<lparr>val := val x OR msk\<rparr>)"

definition SInt_SetLowBits :: "SInt \<Rightarrow> nat \<Rightarrow> SInt" where
  "SInt_SetLowBits x lo = SInt_SetBits x 0 lo"

definition SInt_SetHighBits :: "SInt \<Rightarrow> nat \<Rightarrow> SInt" where
  "SInt_SetHighBits x hi = SInt_SetBits x (usub (bw (width x)) hi) (bw (width x))"

definition SInt_ClearBit :: "SInt \<Rightarrow> nat \<Rightarrow> SInt" where
  "SInt_ClearBit x pos = x\<lparr>val := val x AND NOT (SInt_MaskBit pos)\<rparr>"

definition SInt_Zero :: "IntWidth \<Rightarrow> SInt" where
  "SInt_Zero w = SInt_make w 0"

definition SInt_AllOnes :: "IntWidth \<Rightarrow> SInt" where
  "SInt_AllOnes w = SInt_make w WORD_TYPE_MAX"

definition SInt_UMaxValue :: "IntWidth \<Rightarrow> SInt" where
  "SInt_UMaxValue w = SInt_AllOnes w"

definition SInt_UMinValue :: "IntWidth \<Rightarrow> SInt" where
  "SInt_UMinValue w = SInt_Zero w"

definition SInt_SMaxValue :: "IntWidth \<Rightarrow> SInt" where
  "SInt_SMaxValue w = SInt_ClearBit (SInt_AllOnes w) (bw w - 1)"

definition SInt_SMinValue :: "IntWidth \<Rightarrow> SInt" where
  "SInt_SMinValue w = SInt_SetBit (SInt_Zero w) (bw w - 1)"

definition SInt_BitMask :: "IntWidth \<Rightarrow> nat \<Rightarrow> SInt" where
  "SInt_BitMask w no = SInt_SetBit (SInt_Zero w) no"

definition SInt_GetHighBitsSet :: "IntWidth \<Rightarrow> nat \<Rightarrow> SInt" where
  "SInt_GetHighBitsSet w highBits = SInt_SetHighBits (SInt_make w 0) highBits"

definition SInt_GetLowBitsSet :: "IntWidth \<Rightarrow> nat \<Rightarrow> SInt" where
  "SInt_GetLowBitsSet w lowBits = SInt_SetLowBits (SInt_make w 0) lowBits"

definition SInt_GetOneBitSet :: "IntWidth \<Rightarrow> nat \<Rightarrow> SInt" where
  "SInt_GetOneBitSet w pos = SInt_SetBit (SInt_make w 0) pos"

definition SInt_GetBitsSetFrom :: "IntWidth \<Rightarrow> nat \<Rightarrow> SInt" where
  "SInt_GetBitsSetFrom w lo = SInt_SetBits (SInt_make w 0) lo (bw w)"

section \<open>Tests and counts\<close>

definition SInt_index :: "SInt \<Rightarrow> nat \<Rightarrow> bool" where
  "SInt_index x n \<longleftrightarrow> (SInt_MaskBit n AND val x) \<noteq> 0"

definition SInt_At :: "SInt \<Rightarrow> nat \<Rightarrow> bool" where
  "SInt_At x n \<longleftrightarrow> SInt_index x n"

definition SInt_IsSignBitSet :: "SInt \<Rightarrow> bool" where
  "SInt_IsSignBitSet x \<longleftrightarrow> SInt_At x (bw (width x) - 1)"

definition SInt_IsSignBitClear :: "SInt \<Rightarrow> bool" where
  "SInt_IsSignBitClear x \<longleftrightarrow> \<not> SInt_IsSignBitSet x"

definition SInt_IsNeg :: "SInt \<Rightarrow> bool" where
  "SInt_IsNeg x \<longleftrightarrow> SInt_IsSignBitSet x"

definition SInt_IsNonNeg :: "SInt \<Rightarrow> bool" where
  "SInt_IsNonNeg x \<longleftrightarrow> SInt_IsSignBitClear x"

definition SInt_IsZero :: "SInt \<Rightarrow> bool" where
  "SInt_IsZero x \<longleftrightarrow> val x = 0"

definition SInt_IsOne :: "SInt \<Rightarrow> bool" where
  "SInt_IsOne x \<longleftrightarrow> val x = 1"

definition SInt_IsPositive :: "SInt \<Rightarrow> bool" where
  "SInt_IsPositive x \<longleftrightarrow> SInt_IsNonNeg x \<and> \<not> SInt_IsZero x"

definition SInt_Popcnt :: "SInt \<Rightarrow> nat" where
  "SInt_Popcnt x = Popcnt (val x)"

definition SInt_IsOneBitSet :: "SInt \<Rightarrow> nat \<Rightarrow> bool" where
  "SInt_IsOneBitSet x no \<longleftrightarrow> SInt_At x no \<and> SInt_Popcnt x = 1"

definition SInt_IsAllOnes :: "SInt \<Rightarrow> bool" where
  "SInt_IsAllOnes x \<longleftrightarrow> val x = drop_bit (64 - bw (width x)) WORD_TYPE_MAX"

definition SInt_IsUMaxValue :: "SInt \<Rightarrow> bool" where
  "SInt_IsUMaxValue x \<longleftrightarrow> SInt_IsAllOnes x"

definition SInt_IsUMinValue :: "SInt \<Rightarrow> bool" where
  "SInt_IsUMinValue x \<longleftrightarrow> SInt_IsZero x"

definition SInt_IsSMaxValue :: "SInt \<Rightarrow> bool" where
  "SInt_IsSMaxValue x \<longleftrightarrow> val x = push_bit (bw (width x) - 1) 1 - 1"

definition SInt_IsSMinValue :: "SInt \<Rightarrow> bool" where
  "SInt_IsSMinValue x \<longleftrightarrow> val x = push_bit (bw (width x) - 1) 1"

definition SInt_IsSignMask :: "SInt \<Rightarrow> bool" where
  "SInt_IsSignMask x \<longleftrightarrow> SInt_IsSMinValue x"

definition SInt_ToBool :: "SInt \<Rightarrow> bool" where
  "SInt_ToBool x \<longleftrightarrow> \<not> SInt_IsZero x"

definition SInt_not :: "SInt \<Rightarrow> bool" where
  "SInt_not x \<longleftrightarrow> SInt_IsZero x"

definition SInt_Clz :: "SInt \<Rightarrow> nat" where
  "SInt_Clz x = usub (Clz (val x)) (64 - bw (width x))"

definition SInt_Clo :: "SInt \<Rightarrow> nat" where
  "SInt_Clo x = Clo (push_bit (64 - bw (width x)) (val x))"

definition SInt_GetNumSignBits :: "SInt \<Rightarrow> nat" where
  "SInt_GetNumSignBits x = (if SInt_IsNeg x then SInt_Clo x else SInt_Clz x)"

definition SInt_Ctz :: "SInt \<Rightarrow> nat" where
  "SInt_Ctz x = min (Ctz (val x)) (bw (width x))"

definition SInt_Cto :: "SInt \<Rightarrow> nat" where
  "SInt_Cto x = Cto (val x)"

definition SInt_ActiveBits :: "SInt \<Rightarrow> nat" where
  "SInt_ActiveBits x = usub (bw (width x)) (SInt_Clz x)"

definition SInt_SignificantBits :: "SInt \<Rightarrow> nat" where
  "SInt_SignificantBits x = usub (bw (width x)) (SInt_GetNumSignBits x) + 1"

definition SInt_IsUIntN :: "SInt \<Rightarrow> nat \<Rightarrow> bool" where
  "SInt_IsUIntN x n \<longleftrightarrow> SInt_ActiveBits x \<le> n"

definition SInt_IsSIntN :: "SInt \<Rightarrow> nat \<Rightarrow> bool" where
  "SInt_IsSIntN x n \<longleftrightarrow> SInt_SignificantBits x \<le> n"

definition SInt_IsPowerOf2 :: "SInt \<Rightarrow> bool" where
  "SInt_IsPowerOf2 x \<longleftrightarrow> IsPowerOf2 (val x)"

definition SInt_IsNegatedPowerOf2 :: "SInt \<Rightarrow> bool" where
  "SInt_IsNegatedPowerOf2 x \<longleftrightarrow>
     (if SInt_IsNonNeg x then False else SInt_Clo x + SInt_Ctz x = bw (width x))"

text \<open>\<^verbatim>\<open>IsMask\<close> shifts by \<open>64 - bits\<close>: no value for \<open>bits = 0\<close> or above 64.\<close>

definition SInt_IsMask :: "SInt \<Rightarrow> nat \<Rightarrow> bool option" where
  "SInt_IsMask x bits =
     (if bits = 0 \<or> bits > 64 then None
      else Some (val x = drop_bit (64 - bits) WORD_TYPE_MAX))"

section \<open>Comparison\<close>

definition SInt_eq :: "SInt \<Rightarrow> SInt \<Rightarrow> bool" where
  "SInt_eq x y \<longleftrightarrow> val x = val y"

definition SInt_eq_u :: "SInt \<Rightarrow> 64 word \<Rightarrow> bool" where
  "SInt_eq_u x r \<longleftrightarrow> SInt_GetZExtValue x = r"

definition SInt_ne :: "SInt \<Rightarrow> SInt \<Rightarrow> bool" where
  "SInt_ne x y \<longleftrightarrow> \<not> SInt_eq x y"

definition SInt_ne_u :: "SInt \<Rightarrow> 64 word \<Rightarrow> bool" where
  "SInt_ne_u x r \<longleftrightarrow> SInt_GetZExtValue x \<noteq> r"

definition SInt_UCmp :: "SInt \<Rightarrow> SInt \<Rightarrow> int" where
  "SInt_UCmp x y = (if val x < val y then - 1 else of_bool (val x > val y))"

definition SInt_SCmp :: "SInt \<Rightarrow> SInt \<Rightarrow> int" where
  "SInt_SCmp x y =
     (let lext = SInt_GetSExtValue x; rext = SInt_GetSExtValue y
      in if lext < rext then - 1 else of_bool (lext > rext))"

definition SInt_Ult :: "SInt \<Rightarrow> SInt \<Rightarrow> bool" where
  "SInt_Ult x y \<longleftrightarrow> SInt_UCmp x y < 0"

definition SInt_Ule :: "SInt \<Rightarrow> SInt \<Rightarrow> bool" where
  "SInt_Ule x y \<longleftrightarrow> SInt_UCmp x y \<le> 0"

definition SInt_Ugt :: "SInt \<Rightarrow> SInt \<Rightarrow> bool" where
  "SInt_Ugt x y \<longleftrightarrow> \<not> SInt_Ule x y"

definition SInt_Uge :: "SInt \<Rightarrow> SInt \<Rightarrow> bool" where
  "SInt_Uge x y \<longleftrightarrow> \<not> SInt_Ult x y"

definition SInt_Slt :: "SInt \<Rightarrow> SInt \<Rightarrow> bool" where
  "SInt_Slt x y \<longleftrightarrow> SInt_SCmp x y < 0"

definition SInt_Sle :: "SInt \<Rightarrow> SInt \<Rightarrow> bool" where
  "SInt_Sle x y \<longleftrightarrow> SInt_SCmp x y \<le> 0"

definition SInt_Sgt :: "SInt \<Rightarrow> SInt \<Rightarrow> bool" where
  "SInt_Sgt x y \<longleftrightarrow> \<not> SInt_Sle x y"

definition SInt_Sge :: "SInt \<Rightarrow> SInt \<Rightarrow> bool" where
  "SInt_Sge x y \<longleftrightarrow> \<not> SInt_Slt x y"

definition SInt_Ult_u :: "SInt \<Rightarrow> 64 word \<Rightarrow> bool" where
  "SInt_Ult_u x r \<longleftrightarrow> SInt_GetZExtValue x < r"

definition SInt_Ugt_u :: "SInt \<Rightarrow> 64 word \<Rightarrow> bool" where
  "SInt_Ugt_u x r \<longleftrightarrow> SInt_GetZExtValue x > r"

definition SInt_Ule_u :: "SInt \<Rightarrow> 64 word \<Rightarrow> bool" where
  "SInt_Ule_u x r \<longleftrightarrow> \<not> SInt_Ugt_u x r"

definition SInt_Uge_u :: "SInt \<Rightarrow> 64 word \<Rightarrow> bool" where
  "SInt_Uge_u x r \<longleftrightarrow> \<not> SInt_Ult_u x r"

text \<open>The overloads that take an \<^verbatim>\<open>int64_t\<close> read it as the integer it is.\<close>

definition SInt_Slt_i :: "SInt \<Rightarrow> int \<Rightarrow> bool" where
  "SInt_Slt_i x r \<longleftrightarrow> SInt_GetSExtValue x < r"

definition SInt_Sgt_i :: "SInt \<Rightarrow> int \<Rightarrow> bool" where
  "SInt_Sgt_i x r \<longleftrightarrow> SInt_GetSExtValue x > r"

definition SInt_Sle_i :: "SInt \<Rightarrow> int \<Rightarrow> bool" where
  "SInt_Sle_i x r \<longleftrightarrow> \<not> SInt_Sgt_i x r"

definition SInt_Sge_i :: "SInt \<Rightarrow> int \<Rightarrow> bool" where
  "SInt_Sge_i x r \<longleftrightarrow> \<not> SInt_Slt_i x r"

definition SInt_UMin :: "SInt \<Rightarrow> SInt \<Rightarrow> SInt" where
  "SInt_UMin x y = (if SInt_Ule x y then x else y)"

definition SInt_SMin :: "SInt \<Rightarrow> SInt \<Rightarrow> SInt" where
  "SInt_SMin x y = (if SInt_Sle x y then x else y)"

definition SInt_UMax :: "SInt \<Rightarrow> SInt \<Rightarrow> SInt" where
  "SInt_UMax x y = (if SInt_Ule x y then y else x)"

definition SInt_SMax :: "SInt \<Rightarrow> SInt \<Rightarrow> SInt" where
  "SInt_SMax x y = (if SInt_Sle x y then y else x)"

definition SInt_Intersects :: "SInt \<Rightarrow> SInt \<Rightarrow> bool" where
  "SInt_Intersects x y \<longleftrightarrow> (val x AND val y) \<noteq> 0"

definition SInt_IsSubsetOf :: "SInt \<Rightarrow> SInt \<Rightarrow> bool" where
  "SInt_IsSubsetOf x y \<longleftrightarrow> (val x AND NOT (val y)) \<noteq> 0"

definition SInt_GetULimitedValue :: "SInt \<Rightarrow> 64 word \<Rightarrow> 64 word" where
  "SInt_GetULimitedValue x maxv = (if SInt_Ugt_u x maxv then maxv else SInt_GetZExtValue x)"

section \<open>Assignment, increment, bitwise and linear arithmetic\<close>

definition SInt_assign :: "SInt \<Rightarrow> SInt \<Rightarrow> SInt" where
  "SInt_assign x y = x\<lparr>val := val y, width := width y\<rparr>"

definition SInt_assign_u :: "SInt \<Rightarrow> 64 word \<Rightarrow> SInt" where
  "SInt_assign_u x v = SInt_ClearUnusedBits (x\<lparr>val := v\<rparr>)"

definition SInt_inc :: "SInt \<Rightarrow> SInt" where
  "SInt_inc x = SInt_ClearUnusedBits (x\<lparr>val := val x + 1\<rparr>)"

definition SInt_dec :: "SInt \<Rightarrow> SInt" where
  "SInt_dec x = SInt_ClearUnusedBits (x\<lparr>val := val x - 1\<rparr>)"

text \<open>The postfix forms return the old value next to the new one.\<close>

definition SInt_post_inc :: "SInt \<Rightarrow> SInt \<times> SInt" where
  "SInt_post_inc x = (x, SInt_inc x)"

definition SInt_post_dec :: "SInt \<Rightarrow> SInt \<times> SInt" where
  "SInt_post_dec x = (x, SInt_dec x)"

definition SInt_and_u :: "SInt \<Rightarrow> 64 word \<Rightarrow> SInt" where
  "SInt_and_u x v = x\<lparr>val := val x AND v\<rparr>"

definition SInt_or_u :: "SInt \<Rightarrow> 64 word \<Rightarrow> SInt" where
  "SInt_or_u x v = x\<lparr>val := val x OR v\<rparr>"

definition SInt_xor_u :: "SInt \<Rightarrow> 64 word \<Rightarrow> SInt" where
  "SInt_xor_u x v = x\<lparr>val := val x XOR v\<rparr>"

definition SInt_and :: "SInt \<Rightarrow> SInt \<Rightarrow> SInt" where
  "SInt_and x y = SInt_and_u x (val y)"

definition SInt_or :: "SInt \<Rightarrow> SInt \<Rightarrow> SInt" where
  "SInt_or x y = SInt_or_u x (val y)"

definition SInt_xor :: "SInt \<Rightarrow> SInt \<Rightarrow> SInt" where
  "SInt_xor x y = SInt_xor_u x (val y)"

definition SInt_mul :: "SInt \<Rightarrow> SInt \<Rightarrow> SInt" where
  "SInt_mul x y = SInt_make (width x) (val x * val y)"

definition SInt_mul_assign :: "SInt \<Rightarrow> SInt \<Rightarrow> SInt" where
  "SInt_mul_assign x y = SInt_assign x (SInt_mul x y)"

definition SInt_mul_u :: "SInt \<Rightarrow> 64 word \<Rightarrow> SInt" where
  "SInt_mul_u x v = SInt_ClearUnusedBits (x\<lparr>val := val x * v\<rparr>)"

definition SInt_add :: "SInt \<Rightarrow> SInt \<Rightarrow> SInt" where
  "SInt_add x y = SInt_ClearUnusedBits (x\<lparr>val := val x + val y\<rparr>)"

definition SInt_add_u :: "SInt \<Rightarrow> 64 word \<Rightarrow> SInt" where
  "SInt_add_u x v = SInt_ClearUnusedBits (x\<lparr>val := val x + v\<rparr>)"

definition SInt_sub :: "SInt \<Rightarrow> SInt \<Rightarrow> SInt" where
  "SInt_sub x y = SInt_ClearUnusedBits (x\<lparr>val := val x - val y\<rparr>)"

definition SInt_sub_u :: "SInt \<Rightarrow> 64 word \<Rightarrow> SInt" where
  "SInt_sub_u x v = SInt_ClearUnusedBits (x\<lparr>val := val x - v\<rparr>)"

definition SInt_FlipAllBits :: "SInt \<Rightarrow> SInt" where
  "SInt_FlipAllBits x = SInt_ClearUnusedBits (x\<lparr>val := val x XOR WORD_TYPE_MAX\<rparr>)"

definition SInt_Neg :: "SInt \<Rightarrow> SInt" where
  "SInt_Neg x = SInt_inc (SInt_FlipAllBits x)"

text \<open>The overloads for a right operand that is a temporary reuse its storage, and those
  with the machine integer on the left.\<close>

definition SInt_add_rv :: "SInt \<Rightarrow> SInt \<Rightarrow> SInt" where
  "SInt_add_rv x y = SInt_add y x"

definition SInt_sub_rv :: "SInt \<Rightarrow> SInt \<Rightarrow> SInt" where
  "SInt_sub_rv x y = SInt_add (SInt_Neg y) x"

definition SInt_u_sub :: "64 word \<Rightarrow> SInt \<Rightarrow> SInt" where
  "SInt_u_sub v y = SInt_add_u (SInt_Neg y) v"

section \<open>Shifts, widths, concatenation\<close>

definition SInt_shl_assign :: "SInt \<Rightarrow> nat \<Rightarrow> SInt option" where
  "SInt_shl_assign x count =
     (if count = bw (width x) then Some (SInt_ClearUnusedBits (x\<lparr>val := 0\<rparr>))
      else if 64 \<le> count then None
      else Some (SInt_ClearUnusedBits (x\<lparr>val := push_bit count (val x)\<rparr>)))"

definition SInt_shl_assign_s :: "SInt \<Rightarrow> SInt \<Rightarrow> SInt option" where
  "SInt_shl_assign_s x count =
     SInt_shl_assign x (unat (SInt_GetULimitedValue count (of_nat (bw (width x)))))"

definition SInt_Shl :: "SInt \<Rightarrow> nat \<Rightarrow> SInt option" where
  "SInt_Shl x count = SInt_shl_assign x count"

definition SInt_Shl_s :: "SInt \<Rightarrow> SInt \<Rightarrow> SInt option" where
  "SInt_Shl_s x count = SInt_shl_assign_s x count"

definition SInt_AShr :: "SInt \<Rightarrow> nat \<Rightarrow> SInt option" where
  "SInt_AShr x count =
     (let sextVal = SignExtend64 (val x) (bw (width x))
      in if count = bw (width x)
         then Some (SInt_ClearUnusedBits (x\<lparr>val := signed_drop_bit 63 sextVal\<rparr>))
         else if 64 \<le> count then None
         else Some (SInt_ClearUnusedBits (x\<lparr>val := signed_drop_bit count sextVal\<rparr>)))"

definition SInt_LShr :: "SInt \<Rightarrow> nat \<Rightarrow> SInt option" where
  "SInt_LShr x count =
     (if count = bw (width x) then Some (x\<lparr>val := 0\<rparr>)
      else if 64 \<le> count then None
      else Some (x\<lparr>val := drop_bit count (val x)\<rparr>))"

definition SInt_Ashr_s :: "SInt \<Rightarrow> SInt \<Rightarrow> SInt option" where
  "SInt_Ashr_s x count = SInt_AShr x (unat (val count) mod 2 ^ 32)"

definition SInt_LShr_s :: "SInt \<Rightarrow> SInt \<Rightarrow> SInt option" where
  "SInt_LShr_s x count =
     SInt_LShr x (unat (SInt_GetULimitedValue count (of_nat (bw (width x)))))"

text \<open>\<^verbatim>\<open>Concat\<close> shifts by the width of the right operand: no value when that is 64.\<close>

definition SInt_Concat :: "SInt \<Rightarrow> SInt \<Rightarrow> SInt option" where
  "SInt_Concat x y =
     (if bw (width y) = 64 then None
      else Some (SInt_make (FromUnsigned (bw (width x) + bw (width y)))
                  (push_bit (bw (width y)) (val x) OR val y)))"

definition SInt_Trunc :: "SInt \<Rightarrow> IntWidth \<Rightarrow> SInt" where
  "SInt_Trunc x w = SInt_make w (val x)"

definition SInt_TruncUSat :: "SInt \<Rightarrow> IntWidth \<Rightarrow> SInt" where
  "SInt_TruncUSat x w = (if SInt_IsUIntN x (bw w) then SInt_Trunc x w else SInt_UMaxValue w)"

definition SInt_TruncSSat :: "SInt \<Rightarrow> IntWidth \<Rightarrow> SInt" where
  "SInt_TruncSSat x w =
     (if SInt_IsSIntN x (bw w) then SInt_Trunc x w
      else if SInt_IsNeg x then SInt_SMinValue w else SInt_SMaxValue w)"

definition SInt_ZExt :: "SInt \<Rightarrow> IntWidth \<Rightarrow> SInt" where
  "SInt_ZExt x w = SInt_make w (val x)"

definition SInt_SExt :: "SInt \<Rightarrow> IntWidth \<Rightarrow> SInt" where
  "SInt_SExt x w = SInt_make w (SignExtend64 (val x) (bw (width x)))"

section \<open>Division\<close>

definition SInt_UDiv_u :: "SInt \<Rightarrow> 64 word \<Rightarrow> SInt option" where
  "SInt_UDiv_u x r = (if r = 0 then None else Some (SInt_make (width x) (val x div r)))"

definition SInt_UDiv :: "SInt \<Rightarrow> SInt \<Rightarrow> SInt option" where
  "SInt_UDiv x y = SInt_UDiv_u x (val y)"

definition SInt_URem_u :: "SInt \<Rightarrow> 64 word \<Rightarrow> SInt option" where
  "SInt_URem_u x r = (if r = 0 then None else Some (SInt_make (width x) (val x mod r)))"

definition SInt_URem :: "SInt \<Rightarrow> SInt \<Rightarrow> SInt option" where
  "SInt_URem x y = SInt_URem_u x (val y)"

definition SInt_SDiv :: "SInt \<Rightarrow> SInt \<Rightarrow> SInt option" where
  "SInt_SDiv x y =
     (if SInt_IsNeg x then
        (if SInt_IsNeg y then SInt_UDiv (SInt_Neg x) (SInt_Neg y)
         else map_option SInt_Neg (SInt_UDiv (SInt_Neg x) y))
      else if SInt_IsNeg y then map_option SInt_Neg (SInt_UDiv x (SInt_Neg y))
      else SInt_UDiv x y)"

definition SInt_SRem :: "SInt \<Rightarrow> SInt \<Rightarrow> SInt option" where
  "SInt_SRem x y =
     (if SInt_IsNeg x then
        (if SInt_IsNeg y then map_option SInt_Neg (SInt_URem (SInt_Neg x) (SInt_Neg y))
         else map_option SInt_Neg (SInt_URem (SInt_Neg x) y))
      else if SInt_IsNeg y then SInt_URem x (SInt_Neg y)
      else SInt_URem x y)"

text \<open>The overloads with an \<^verbatim>\<open>int64_t\<close> divisor \<open>r\<close>, a 64-bit word read by \<open>sint\<close>;
  \<^verbatim>\<open>-rhs\<close> of the least value has no value in C++.\<close>

definition SInt_SDiv_i :: "SInt \<Rightarrow> 64 word \<Rightarrow> SInt option" where
  "SInt_SDiv_i x r =
     (if sint r = - (2 ^ 63) then None
      else if SInt_IsNeg x then
        (if sint r < 0 then SInt_UDiv_u (SInt_Neg x) (- r)
         else map_option SInt_Neg (SInt_UDiv_u (SInt_Neg x) r))
      else if sint r < 0 then map_option SInt_Neg (SInt_UDiv_u x (- r))
      else SInt_UDiv_u x r)"

definition SInt_SRem_i :: "SInt \<Rightarrow> 64 word \<Rightarrow> SInt option" where
  "SInt_SRem_i x r =
     (if sint r = - (2 ^ 63) then None
      else if SInt_IsNeg x then
        (if sint r < 0 then map_option SInt_Neg (SInt_URem_u (SInt_Neg x) (- r))
         else map_option SInt_Neg (SInt_URem_u (SInt_Neg x) r))
      else if sint r < 0 then SInt_URem_u x (- r)
      else SInt_URem_u x r)"

section \<open>Arithmetic with an overflow flag\<close>

definition SInt_SAddOvf :: "SInt \<Rightarrow> SInt \<Rightarrow> SInt \<times> bool" where
  "SInt_SAddOvf x y =
     (let res = SInt_add x y
      in (res, SInt_IsNonNeg x = SInt_IsNonNeg y \<and> SInt_IsNonNeg res \<noteq> SInt_IsNonNeg x))"

definition SInt_UAddOvf :: "SInt \<Rightarrow> SInt \<Rightarrow> SInt \<times> bool" where
  "SInt_UAddOvf x y = (let res = SInt_add x y in (res, SInt_Ult res y))"

definition SInt_SSubOvf :: "SInt \<Rightarrow> SInt \<Rightarrow> SInt \<times> bool" where
  "SInt_SSubOvf x y =
     (let res = SInt_sub x y
      in (res, SInt_IsNonNeg x \<noteq> SInt_IsNonNeg y \<and> SInt_IsNonNeg res \<noteq> SInt_IsNonNeg x))"

definition SInt_USubOvf :: "SInt \<Rightarrow> SInt \<Rightarrow> SInt \<times> bool" where
  "SInt_USubOvf x y = (let res = SInt_sub x y in (res, SInt_Ugt res x))"

definition SInt_SMulOvf :: "SInt \<Rightarrow> SInt \<Rightarrow> (SInt \<times> bool) option" where
  "SInt_SMulOvf x y =
     (let res = SInt_mul x y
      in if SInt_ne_u y 0 then do {
           q \<leftarrow> SInt_SDiv res y;
           Some (res, SInt_ne q x \<or> (SInt_IsSMinValue x \<and> SInt_IsAllOnes y))
         } else Some (res, False))"

definition SInt_UMulOvf :: "SInt \<Rightarrow> SInt \<Rightarrow> (SInt \<times> bool) option" where
  "SInt_UMulOvf x y =
     (if SInt_Clz x + SInt_Clz y + 2 \<le> bw (width x) then Some (SInt_mul x y, True)
      else do {
        h \<leftarrow> SInt_LShr x 1;
        let res = SInt_mul h y;
        let overflow = SInt_IsNeg res;
        res2 \<leftarrow> SInt_shl_assign res 1;
        if SInt_index x 0 then
          let res3 = SInt_add res2 y
          in Some (res3, if SInt_Ult res3 y then True else overflow)
        else Some (res2, overflow)
      })"

definition SInt_SShlOvf :: "SInt \<Rightarrow> SInt \<Rightarrow> (SInt \<times> bool) option" where
  "SInt_SShlOvf x count =
     (if SInt_Uge_u count (of_nat (bw (width x))) then Some (SInt_make (width x) 0, True)
      else do {
        let overflow =
          (if SInt_IsNonNeg x then SInt_Uge_u count (of_nat (SInt_Clz x))
           else SInt_Uge_u count (of_nat (SInt_Clo x)));
        res \<leftarrow> SInt_Shl_s x count;
        Some (res, overflow)
      })"

definition SInt_UShlOvf :: "SInt \<Rightarrow> SInt \<Rightarrow> (SInt \<times> bool) option" where
  "SInt_UShlOvf x count =
     (if SInt_Uge_u count (of_nat (bw (width x))) then Some (SInt_make (width x) 0, True)
      else do {
        let overflow = SInt_Ugt_u count (of_nat (SInt_Clz x));
        res \<leftarrow> SInt_Shl_s x count;
        Some (res, overflow)
      })"

section \<open>Saturating arithmetic\<close>

definition SInt_SAddSat :: "SInt \<Rightarrow> SInt \<Rightarrow> SInt" where
  "SInt_SAddSat x y =
     (case SInt_SAddOvf x y of (res, overflow) \<Rightarrow>
        if \<not> overflow then res
        else if SInt_IsNeg x then SInt_SMinValue (width x) else SInt_SMaxValue (width x))"

definition SInt_UAddSat :: "SInt \<Rightarrow> SInt \<Rightarrow> SInt" where
  "SInt_UAddSat x y =
     (case SInt_UAddOvf x y of (res, overflow) \<Rightarrow>
        if \<not> overflow then res else SInt_UMaxValue (width x))"

definition SInt_SSubSat :: "SInt \<Rightarrow> SInt \<Rightarrow> SInt" where
  "SInt_SSubSat x y =
     (case SInt_SSubOvf x y of (res, overflow) \<Rightarrow>
        if \<not> overflow then res
        else if SInt_IsNeg x then SInt_SMinValue (width x) else SInt_SMaxValue (width x))"

definition SInt_USubSat :: "SInt \<Rightarrow> SInt \<Rightarrow> SInt" where
  "SInt_USubSat x y =
     (case SInt_USubOvf x y of (res, overflow) \<Rightarrow>
        if overflow then SInt_UMinValue (width x) else res)"

definition SInt_SMulSat :: "SInt \<Rightarrow> SInt \<Rightarrow> SInt option" where
  "SInt_SMulSat x y = do {
     (res, overflow) \<leftarrow> SInt_SMulOvf x y;
     Some (if \<not> overflow then res
           else if SInt_IsNeg x \<noteq> SInt_IsNeg y then SInt_SMinValue (width x)
           else SInt_SMaxValue (width x))
   }"

definition SInt_UMulSat :: "SInt \<Rightarrow> SInt \<Rightarrow> SInt option" where
  "SInt_UMulSat x y = do {
     (res, overflow) \<leftarrow> SInt_UMulOvf x y;
     Some (if overflow then SInt_UMaxValue (width x) else res)
   }"

definition SInt_SDivSat :: "SInt \<Rightarrow> SInt \<Rightarrow> SInt option" where
  "SInt_SDivSat x y =
     (if SInt_SVal y = - 1 \<and> SInt_IsSMinValue x then Some (SInt_SMaxValue (width x))
      else SInt_SDiv x y)"

definition SInt_SShlSat :: "SInt \<Rightarrow> SInt \<Rightarrow> SInt option" where
  "SInt_SShlSat x y = do {
     (res, overflow) \<leftarrow> SInt_SShlOvf x y;
     Some (if \<not> overflow then res
           else if SInt_IsNeg x then SInt_SMinValue (width x) else SInt_SMaxValue (width x))
   }"

definition SInt_UShlSat :: "SInt \<Rightarrow> SInt \<Rightarrow> SInt option" where
  "SInt_UShlSat x y = do {
     (res, overflow) \<leftarrow> SInt_UShlOvf x y;
     Some (if overflow then SInt_UMaxValue (width x) else res)
   }"

section \<open>Reading a number from a string\<close>

text \<open>\<^verbatim>\<open>GetDigit\<close> computes in 32-bit \<^verbatim>\<open>unsigned\<close>, so a character below the
  subtracted one wraps to a large value; \<^verbatim>\<open>UINT_MAX\<close> means no digit.\<close>

definition GetDigit :: "char \<Rightarrow> Radix \<Rightarrow> 32 word" where
  "GetDigit d radix =
     (let c = of_char d :: 32 word; n = of_nat (radix_val radix) :: 32 word;
          dec = c - of_char (CHR ''0'')
      in if radix = R16 then
           (if dec < 10 then dec
            else let up = c - of_char (CHR ''A'') in
              if up \<le> n - 11 then up + 10
              else let low = c - of_char (CHR ''a'') in
                if low \<le> n - 11 then low + 10
                else if dec < 10 then dec else - 1)
         else if dec < n then dec else - 1)"

fun FromString_loop :: "Radix \<Rightarrow> nat \<Rightarrow> string \<Rightarrow> 64 word \<Rightarrow> 64 word" where
  "FromString_loop radix slen [] v = v"
| "FromString_loop radix slen (c # cs) v =
     (let shift = (case radix of R16 \<Rightarrow> 4 | R2 \<Rightarrow> 1 | R10 \<Rightarrow> 0);
          scaled = (if slen > 1 then
                      (if shift \<noteq> 0 then push_bit shift v else v * of_nat (radix_val radix))
                    else v)
      in FromString_loop radix slen cs (scaled + ucast (GetDigit c radix)))"

text \<open>An empty string is read through its terminator, which is neither sign nor digit.\<close>

definition SInt_FromString :: "IntWidth \<Rightarrow> string \<Rightarrow> Radix \<Rightarrow> SInt" where
  "SInt_FromString w str radix =
     (let isNeg = (str \<noteq> [] \<and> hd str = CHR ''-'');
          digits = (if str \<noteq> [] \<and> (hd str = CHR ''-'' \<or> hd str = CHR ''+'') then tl str else str);
          x = \<lparr>width = w, val = FromString_loop radix (length digits) digits 0\<rparr>
      in if isNeg then SInt_Neg x else x)"

end
