(* ===== verification/ConstantRange.thy ===== *)
theory ConstantRange
  imports SInt
begin

text \<open>
  The wrapping interval \<^verbatim>\<open>ConstantRange\<close> of \<^verbatim>\<open>ConstantRange.h\<close> and
  \<^verbatim>\<open>ConstantRange.cpp\<close>: a half-open interval \<open>[lower, upper)\<close> of machine
  integers that may wrap around, with \<open>lower = upper\<close> standing for the full set at the
  greatest unsigned value and for the empty set at zero. Every member function is a HOL
  function of the same name with the prefix \<open>CR_\<close>. Operations that reach a division or a
  checked multiplication of \<^verbatim>\<open>SInt\<close> return an option, as those do.
\<close>

record ConstantRange =
  lower :: SInt
  upper :: SInt

datatype PreferredRangeType = Smallest | Unsigned | Signed

datatype RelationalOperation = LT | LE | EQ | GT | GE | NE

definition PreferFromBool :: "bool \<Rightarrow> PreferredRangeType" where
  "PreferFromBool useUnsigned = (if useUnsigned then Unsigned else Signed)"

section \<open>Construction\<close>

definition CR_const :: "IntWidth \<Rightarrow> bool \<Rightarrow> ConstantRange" where
  "CR_const w full =
     (let l = (if full then SInt_UMaxValue w else SInt_UMinValue w)
      in \<lparr>lower = l, upper = l\<rparr>)"

definition CR_single :: "SInt \<Rightarrow> ConstantRange" where
  "CR_single v = \<lparr>lower = v, upper = SInt_add_u v 1\<rparr>"

definition CR_make :: "SInt \<Rightarrow> SInt \<Rightarrow> ConstantRange" where
  "CR_make l u = \<lparr>lower = l, upper = u\<rparr>"

definition CR_Empty :: "IntWidth \<Rightarrow> ConstantRange" where
  "CR_Empty w = CR_const w False"

definition CR_Full :: "IntWidth \<Rightarrow> ConstantRange" where
  "CR_Full w = CR_const w True"

definition CR_From :: "RelationalOperation \<Rightarrow> SInt \<Rightarrow> bool \<Rightarrow> ConstantRange" where
  "CR_From rel v isSigned =
     (let w = width v;
          isMin = (isSigned \<and> SInt_IsSMinValue v \<or> \<not> isSigned \<and> SInt_IsUMinValue v);
          isMax = (isSigned \<and> SInt_IsSMaxValue v \<or> \<not> isSigned \<and> SInt_IsUMaxValue v)
      in if rel = LT \<and> isMin \<or> rel = GT \<and> isMax then CR_Empty w
         else if rel = LE \<and> isMax \<or> rel = GE \<and> isMin then CR_Full w
         else
           let maxVal = (if isSigned then SInt_SMaxValue w else SInt_UMaxValue w);
               minVal = (if isSigned then SInt_SMinValue w else SInt_UMinValue w)
           in case rel of
                EQ \<Rightarrow> CR_single v
              | NE \<Rightarrow> CR_make (SInt_add_u v 1) v
              | GE \<Rightarrow> CR_make v (SInt_add_u maxVal 1)
              | GT \<Rightarrow> CR_make (SInt_add_u v 1) (SInt_add_u maxVal 1)
              | LE \<Rightarrow> CR_make minVal (SInt_add_u v 1)
              | LT \<Rightarrow> CR_make minVal v)"

definition CR_NonEmpty :: "SInt \<Rightarrow> SInt \<Rightarrow> ConstantRange" where
  "CR_NonEmpty l r = (if SInt_eq l r then CR_Full (width l) else CR_make l r)"

section \<open>Queries\<close>

definition CR_Lower :: "ConstantRange \<Rightarrow> SInt" where
  "CR_Lower r = lower r"

definition CR_Upper :: "ConstantRange \<Rightarrow> SInt" where
  "CR_Upper r = upper r"

definition CR_Width :: "ConstantRange \<Rightarrow> IntWidth" where
  "CR_Width r = width (lower r)"

definition CR_IsFullSet :: "ConstantRange \<Rightarrow> bool" where
  "CR_IsFullSet r \<longleftrightarrow> SInt_eq (lower r) (upper r) \<and> SInt_IsUMaxValue (lower r)"

definition CR_IsEmptySet :: "ConstantRange \<Rightarrow> bool" where
  "CR_IsEmptySet r \<longleftrightarrow> SInt_eq (lower r) (upper r) \<and> SInt_IsUMinValue (lower r)"

definition CR_IsNotEmptySet :: "ConstantRange \<Rightarrow> bool" where
  "CR_IsNotEmptySet r \<longleftrightarrow> \<not> CR_IsEmptySet r"

definition CR_IsNonTrivial :: "ConstantRange \<Rightarrow> bool" where
  "CR_IsNonTrivial r \<longleftrightarrow> \<not> CR_IsFullSet r"

definition CR_IsWrappedSet :: "ConstantRange \<Rightarrow> bool" where
  "CR_IsWrappedSet r \<longleftrightarrow> SInt_Ugt (lower r) (upper r) \<and> \<not> SInt_IsZero (upper r)"

definition CR_IsUpperWrapped :: "ConstantRange \<Rightarrow> bool" where
  "CR_IsUpperWrapped r \<longleftrightarrow> SInt_Ugt (lower r) (upper r)"

definition CR_IsSignWrappedSet :: "ConstantRange \<Rightarrow> bool" where
  "CR_IsSignWrappedSet r \<longleftrightarrow> SInt_Sgt (lower r) (upper r) \<and> \<not> SInt_IsSMinValue (upper r)"

definition CR_IsUpperSignWrapped :: "ConstantRange \<Rightarrow> bool" where
  "CR_IsUpperSignWrapped r \<longleftrightarrow> SInt_Sgt (lower r) (upper r)"

definition CR_Contains :: "ConstantRange \<Rightarrow> SInt \<Rightarrow> bool" where
  "CR_Contains r v \<longleftrightarrow>
     (if SInt_eq (lower r) (upper r) then CR_IsFullSet r
      else if \<not> CR_IsUpperWrapped r then SInt_Ule (lower r) v \<and> SInt_Ult v (upper r)
      else SInt_Ule (lower r) v \<or> SInt_Ult v (upper r))"

definition CR_GetSingleElement :: "ConstantRange \<Rightarrow> SInt" where
  "CR_GetSingleElement r = lower r"

definition CR_IsSingleElement :: "ConstantRange \<Rightarrow> bool" where
  "CR_IsSingleElement r \<longleftrightarrow> SInt_eq (upper r) (SInt_add_u (lower r) 1)"

definition CR_IsSizeStrictlySmallerThan :: "ConstantRange \<Rightarrow> ConstantRange \<Rightarrow> bool" where
  "CR_IsSizeStrictlySmallerThan a b \<longleftrightarrow>
     (if CR_IsFullSet a then False
      else if CR_IsFullSet b then True
      else SInt_Ult (SInt_sub (upper a) (lower a)) (SInt_sub (upper b) (lower b)))"

definition CR_UMaxValue :: "ConstantRange \<Rightarrow> SInt" where
  "CR_UMaxValue r =
     (if CR_IsFullSet r \<or> CR_IsUpperWrapped r then SInt_UMaxValue (CR_Width r)
      else SInt_sub_u (CR_Upper r) 1)"

definition CR_UMinValue :: "ConstantRange \<Rightarrow> SInt" where
  "CR_UMinValue r =
     (if CR_IsFullSet r \<or> CR_IsWrappedSet r then SInt_UMinValue (CR_Width r)
      else CR_Lower r)"

definition CR_SMaxValue :: "ConstantRange \<Rightarrow> SInt" where
  "CR_SMaxValue r =
     (if CR_IsFullSet r \<or> CR_IsUpperSignWrapped r then SInt_SMaxValue (CR_Width r)
      else SInt_sub_u (CR_Upper r) 1)"

definition CR_SMinValue :: "ConstantRange \<Rightarrow> SInt" where
  "CR_SMinValue r =
     (if CR_IsFullSet r \<or> CR_IsSignWrappedSet r then SInt_SMinValue (CR_Width r)
      else CR_Lower r)"

definition CR_MaxValue :: "ConstantRange \<Rightarrow> bool \<Rightarrow> SInt" where
  "CR_MaxValue r isUnsigned = (if isUnsigned then CR_UMaxValue r else CR_SMaxValue r)"

definition CR_MinValue :: "ConstantRange \<Rightarrow> bool \<Rightarrow> SInt" where
  "CR_MinValue r isUnsigned = (if isUnsigned then CR_UMinValue r else CR_SMinValue r)"

definition CR_eq :: "ConstantRange \<Rightarrow> ConstantRange \<Rightarrow> bool" where
  "CR_eq a b \<longleftrightarrow> SInt_eq (lower a) (lower b) \<and> SInt_eq (upper a) (upper b)"

definition CR_ne :: "ConstantRange \<Rightarrow> ConstantRange \<Rightarrow> bool" where
  "CR_ne a b \<longleftrightarrow> \<not> CR_eq a b"

definition CR_Inverse :: "ConstantRange \<Rightarrow> ConstantRange" where
  "CR_Inverse r =
     (if CR_IsFullSet r then CR_Empty (CR_Width r)
      else if CR_IsEmptySet r then CR_Full (CR_Width r)
      else CR_make (upper r) (lower r))"

definition CR_Subtract :: "ConstantRange \<Rightarrow> SInt \<Rightarrow> ConstantRange" where
  "CR_Subtract r v =
     (if SInt_eq (lower r) (upper r) then r
      else CR_make (SInt_sub (lower r) v) (SInt_sub (upper r) v))"

section \<open>Intersection and union\<close>

definition GetPreferredRange ::
  "ConstantRange \<Rightarrow> ConstantRange \<Rightarrow> PreferredRangeType \<Rightarrow> ConstantRange" where
  "GetPreferredRange a b type =
     (if type = Unsigned \<and> \<not> CR_IsWrappedSet a \<and> CR_IsWrappedSet b then a
      else if type = Unsigned \<and> CR_IsWrappedSet a \<and> \<not> CR_IsWrappedSet b then b
      else if type = Signed \<and> \<not> CR_IsSignWrappedSet a \<and> CR_IsSignWrappedSet b then a
      else if type = Signed \<and> CR_IsSignWrappedSet a \<and> \<not> CR_IsSignWrappedSet b then b
      else if CR_IsSizeStrictlySmallerThan a b then a else b)"

definition CR_IntersectBothWrapped ::
  "ConstantRange \<Rightarrow> ConstantRange \<Rightarrow> PreferredRangeType \<Rightarrow> ConstantRange" where
  "CR_IntersectBothWrapped a b type =
     (if SInt_Ult (upper b) (upper a) then
        (if SInt_Ult (lower b) (upper a) then GetPreferredRange a b type
         else if SInt_Ult (lower b) (lower a) then CR_make (lower a) (upper b)
         else b)
      else if SInt_Ule (upper b) (lower a) then
        (if SInt_Ult (lower b) (lower a) then a else CR_make (lower b) (upper a))
      else GetPreferredRange a b type)"

definition CR_IntersectWrappedWithUnwrapped ::
  "ConstantRange \<Rightarrow> ConstantRange \<Rightarrow> PreferredRangeType \<Rightarrow> ConstantRange" where
  "CR_IntersectWrappedWithUnwrapped a b type =
     (if SInt_Ult (lower b) (upper a) then
        (if SInt_Ult (upper b) (upper a) then b
         else if SInt_Ule (upper b) (lower a) then CR_make (lower b) (upper a)
         else GetPreferredRange a b type)
      else if SInt_Ult (lower b) (lower a) then
        (if SInt_Ule (upper b) (lower a) then CR_Empty (CR_Width a)
         else CR_make (lower a) (upper b))
      else b)"

definition CR_IntersectBothUnwrapped :: "ConstantRange \<Rightarrow> ConstantRange \<Rightarrow> ConstantRange" where
  "CR_IntersectBothUnwrapped a b =
     (if SInt_Ult (lower a) (lower b) then
        (if SInt_Ule (upper a) (lower b) then CR_Empty (CR_Width a)
         else if SInt_Ult (upper a) (upper b) then CR_make (lower b) (upper a)
         else b)
      else
        (if SInt_Ule (upper b) (lower a) then CR_Empty (CR_Width a)
         else if SInt_Ult (upper b) (upper a) then CR_make (lower a) (upper b)
         else a))"

text \<open>The one recursive call swaps the operands, and only when exactly the second one
  wraps, so it happens at most once.\<close>

function CR_IntersectWith ::
  "ConstantRange \<Rightarrow> ConstantRange \<Rightarrow> PreferredRangeType \<Rightarrow> ConstantRange" where
  "CR_IntersectWith a b type =
     (if CR_IsEmptySet a \<or> CR_IsFullSet b then a
      else if CR_IsEmptySet b \<or> CR_IsFullSet a then b
      else
        let aw = CR_IsUpperWrapped a; bw = CR_IsUpperWrapped b
        in if \<not> aw \<and> bw then CR_IntersectWith b a type
           else if \<not> aw \<and> \<not> bw then CR_IntersectBothUnwrapped a b
           else if aw \<and> \<not> bw then CR_IntersectWrappedWithUnwrapped a b type
           else CR_IntersectBothWrapped a b type)"
  by auto
termination
  by (relation "measure (\<lambda>(a, b, type). if CR_IsUpperWrapped a then 0 else 1)") auto

declare CR_IntersectWith.simps [simp del]

definition CR_Difference :: "ConstantRange \<Rightarrow> ConstantRange \<Rightarrow> ConstantRange" where
  "CR_Difference a b = CR_IntersectWith a (CR_Inverse b) Smallest"

definition CR_UnionBothWrapped :: "ConstantRange \<Rightarrow> ConstantRange \<Rightarrow> ConstantRange" where
  "CR_UnionBothWrapped a b =
     (if SInt_Ule (lower b) (upper a) \<or> SInt_Ule (lower a) (upper b) then CR_Full (CR_Width a)
      else
        let newLower = (if SInt_Ult (lower b) (lower a) then lower b else lower a);
            newUpper = (if SInt_Ugt (upper b) (upper a) then upper b else upper a)
        in CR_make newLower newUpper)"

definition CR_UnionWrappedWithUnwrapped ::
  "ConstantRange \<Rightarrow> ConstantRange \<Rightarrow> PreferredRangeType \<Rightarrow> ConstantRange" where
  "CR_UnionWrappedWithUnwrapped a b type =
     (if SInt_Ule (lower b) (upper a) then
        (if SInt_Ult (upper b) (upper a) then a
         else if SInt_Ult (upper b) (lower a) then CR_make (lower a) (upper b)
         else CR_Full (CR_Width a))
      else if SInt_Ult (lower b) (lower a) then
        (if SInt_Ult (upper b) (lower a) then
           GetPreferredRange (CR_make (lower a) (upper b)) (CR_make (lower b) (upper a)) type
         else CR_make (lower b) (upper a))
      else a)"

definition CR_UnionBothUnwrapped ::
  "ConstantRange \<Rightarrow> ConstantRange \<Rightarrow> PreferredRangeType \<Rightarrow> ConstantRange" where
  "CR_UnionBothUnwrapped a b type =
     (if SInt_Ult (upper b) (lower a) \<or> SInt_Ult (upper a) (lower b) then
        GetPreferredRange (CR_make (lower a) (upper b)) (CR_make (lower b) (upper a)) type
      else
        let newLower = (if SInt_Ult (lower b) (lower a) then lower b else lower a);
            newUpper = (if SInt_Ugt (SInt_sub_u (upper b) 1) (SInt_sub_u (upper a) 1)
                        then upper b else upper a)
        in if SInt_IsZero newLower \<and> SInt_IsZero newUpper then CR_Full (CR_Width a)
           else CR_make newLower newUpper)"

function CR_UnionWith ::
  "ConstantRange \<Rightarrow> ConstantRange \<Rightarrow> PreferredRangeType \<Rightarrow> ConstantRange" where
  "CR_UnionWith a b type =
     (if CR_IsFullSet a \<or> CR_IsEmptySet b then a
      else if CR_IsFullSet b \<or> CR_IsEmptySet a then b
      else
        let aw = CR_IsUpperWrapped a; bw = CR_IsUpperWrapped b
        in if aw then
             (if bw then CR_UnionBothWrapped a b else CR_UnionWrappedWithUnwrapped a b type)
           else
             (if bw then CR_UnionWith b a type else CR_UnionBothUnwrapped a b type))"
  by auto
termination
  by (relation "measure (\<lambda>(a, b, type). if CR_IsUpperWrapped a then 0 else 1)") auto

declare CR_UnionWith.simps [simp del]

section \<open>Changing the width\<close>

definition CR_ZeroExtend :: "ConstantRange \<Rightarrow> IntWidth \<Rightarrow> ConstantRange" where
  "CR_ZeroExtend r w =
     (if CR_IsEmptySet r then CR_Empty w
      else if CR_IsFullSet r \<or> CR_IsWrappedSet r then
        CR_make (SInt_make w 0) (SInt_GetOneBitSet w (bw (CR_Width r)))
      else if SInt_IsUMinValue (upper r) then
        CR_make (SInt_ZExt (lower r) w) (SInt_GetOneBitSet w (bw (CR_Width r)))
      else CR_make (SInt_ZExt (lower r) w) (SInt_ZExt (upper r) w))"

definition CR_SignExtend :: "ConstantRange \<Rightarrow> IntWidth \<Rightarrow> ConstantRange" where
  "CR_SignExtend r w =
     (if CR_IsEmptySet r then CR_Empty w
      else if CR_IsFullSet r \<or> CR_IsSignWrappedSet r then
        let lowerWidth = bw (CR_Width r);
            lo = SInt_GetHighBitsSet w (usub (bw w) lowerWidth + 1);
            up = SInt_add_u (SInt_GetLowBitsSet w (lowerWidth - 1)) 1
        in CR_make lo up
      else if SInt_IsSMinValue (upper r) then
        CR_make (SInt_SExt (lower r) w) (SInt_ZExt (upper r) w)
      else CR_make (SInt_SExt (lower r) w) (SInt_SExt (upper r) w))"

definition CR_SplitWrapping :: "ConstantRange \<Rightarrow> bool \<Rightarrow> ConstantRange \<times> ConstantRange" where
  "CR_SplitWrapping r asUnsigned =
     (CR_From LT (upper r) (\<not> asUnsigned), CR_From GE (lower r) (\<not> asUnsigned))"

text \<open>The part of \<^verbatim>\<open>Truncate\<close> after the wrapped piece has been split off.\<close>

definition CR_Truncate_normal ::
  "SInt \<Rightarrow> SInt \<Rightarrow> ConstantRange \<Rightarrow> IntWidth \<Rightarrow> IntWidth \<Rightarrow> ConstantRange" where
  "CR_Truncate_normal lowerDiv0 upperDiv0 wrappedPart w dstWidth =
     (let cut = SInt_ActiveBits lowerDiv0 > bw dstWidth;
          adjust = SInt_and lowerDiv0 (SInt_GetBitsSetFrom w (bw dstWidth));
          lowerDiv = (if cut then SInt_sub lowerDiv0 adjust else lowerDiv0);
          upperDiv = (if cut then SInt_sub upperDiv0 adjust else upperDiv0);
          upperDivWidth = SInt_ActiveBits upperDiv
      in if upperDivWidth \<le> bw dstWidth then
           CR_UnionWith (CR_make (SInt_Trunc lowerDiv dstWidth) (SInt_Trunc upperDiv dstWidth))
             wrappedPart Smallest
         else if upperDivWidth = bw dstWidth + 1 then
           let upperDiv2 = SInt_ClearBit upperDiv (bw dstWidth)
           in if SInt_Ult upperDiv2 lowerDiv then
                CR_UnionWith (CR_make (SInt_Trunc lowerDiv dstWidth) (SInt_Trunc upperDiv2 dstWidth))
                  wrappedPart Smallest
              else CR_Full dstWidth
         else CR_Full dstWidth)"

definition CR_Truncate :: "ConstantRange \<Rightarrow> IntWidth \<Rightarrow> ConstantRange" where
  "CR_Truncate r dstWidth =
     (if CR_IsEmptySet r then CR_Empty dstWidth
      else if CR_IsFullSet r then CR_Full dstWidth
      else if CR_IsUpperWrapped r then
        let dstMaxVal = SInt_UMaxValue dstWidth
        in if SInt_Uge (upper r) (SInt_ZExt dstMaxVal (CR_Width r)) then CR_Full dstWidth
           else
             let wrappedPart = CR_make dstMaxVal (SInt_Trunc (upper r) dstWidth)
             in if SInt_IsUMaxValue (lower r) then wrappedPart
                else CR_Truncate_normal (lower r) (SInt_SetAllBits (upper r)) wrappedPart
                       (CR_Width r) dstWidth
      else CR_Truncate_normal (lower r) (upper r) (CR_const dstWidth False) (CR_Width r) dstWidth)"

section \<open>Wrapping arithmetic\<close>

definition CR_Add :: "ConstantRange \<Rightarrow> ConstantRange \<Rightarrow> ConstantRange" where
  "CR_Add a b =
     (if CR_IsEmptySet a \<or> CR_IsEmptySet b then CR_Empty (CR_Width a)
      else if CR_IsFullSet a \<or> CR_IsFullSet b then CR_Full (CR_Width a)
      else
        let newLower = SInt_add (CR_Lower a) (CR_Lower b);
            newUpper = SInt_sub_u (SInt_add (CR_Upper a) (CR_Upper b)) 1
        in if SInt_eq newLower newUpper then CR_Full (CR_Width a)
           else
             let res = CR_make newLower newUpper
             in if CR_IsSizeStrictlySmallerThan res a \<or> CR_IsSizeStrictlySmallerThan res b
                then CR_Full (CR_Width a)
                else res)"

definition CR_Sub :: "ConstantRange \<Rightarrow> ConstantRange \<Rightarrow> ConstantRange" where
  "CR_Sub a b =
     (if CR_IsEmptySet a \<or> CR_IsEmptySet b then CR_Empty (CR_Width a)
      else if CR_IsFullSet a \<or> CR_IsFullSet b then CR_Full (CR_Width a)
      else
        let newLower = SInt_add_u (SInt_sub (CR_Lower a) (CR_Upper b)) 1;
            newUpper = SInt_sub (CR_Upper a) (CR_Lower b)
        in if SInt_eq newLower newUpper then CR_Full (CR_Width a)
           else
             let res = CR_make newLower newUpper
             in if CR_IsSizeStrictlySmallerThan res a \<or> CR_IsSizeStrictlySmallerThan res b
                then CR_Full (CR_Width a)
                else res)"

definition CR_UMul :: "ConstantRange \<Rightarrow> ConstantRange \<Rightarrow> ConstantRange option" where
  "CR_UMul a b =
     (if CR_IsEmptySet a \<or> CR_IsEmptySet b then Some (CR_Empty (CR_Width a))
      else do {
        (lo, ovf1) \<leftarrow> SInt_UMulOvf (CR_UMinValue a) (CR_UMinValue b);
        (hi, ovf2) \<leftarrow> SInt_UMulOvf (CR_UMaxValue a) (CR_UMaxValue b);
        Some (if ovf1 \<or> ovf2 then CR_Full (CR_Width a) else CR_NonEmpty lo (SInt_add_u hi 1))
      })"

text \<open>\<^verbatim>\<open>std::min\<close> and \<^verbatim>\<open>std::max\<close> on a non-empty list with a comparison: the
  leftmost least and the leftmost greatest element.\<close>

definition std_min :: "('a \<Rightarrow> 'a \<Rightarrow> bool) \<Rightarrow> 'a \<Rightarrow> 'a list \<Rightarrow> 'a" where
  "std_min cmp x xs = foldl (\<lambda>m y. if cmp y m then y else m) x xs"

definition std_max :: "('a \<Rightarrow> 'a \<Rightarrow> bool) \<Rightarrow> 'a \<Rightarrow> 'a list \<Rightarrow> 'a" where
  "std_max cmp x xs = foldl (\<lambda>m y. if cmp m y then y else m) x xs"

definition CR_SMul :: "ConstantRange \<Rightarrow> ConstantRange \<Rightarrow> ConstantRange option" where
  "CR_SMul a b =
     (if CR_IsEmptySet a \<or> CR_IsEmptySet b then Some (CR_Empty (CR_Width a))
      else do {
        (p1, ovf1) \<leftarrow> SInt_SMulOvf (CR_SMinValue a) (CR_SMinValue b);
        (p2, ovf2) \<leftarrow> SInt_SMulOvf (CR_SMinValue a) (CR_SMaxValue b);
        (p3, ovf3) \<leftarrow> SInt_SMulOvf (CR_SMaxValue a) (CR_SMinValue b);
        (p4, ovf4) \<leftarrow> SInt_SMulOvf (CR_SMaxValue a) (CR_SMaxValue b);
        Some (if ovf1 \<or> ovf2 \<or> ovf3 \<or> ovf4 then CR_Full (CR_Width a)
              else CR_NonEmpty (std_min SInt_Slt p1 [p2, p3, p4])
                     (SInt_add_u (std_max SInt_Slt p1 [p2, p3, p4]) 1))
      })"

section \<open>Division and remainder\<close>

definition CR_UDiv :: "ConstantRange \<Rightarrow> ConstantRange \<Rightarrow> ConstantRange option" where
  "CR_UDiv a b =
     (if CR_IsEmptySet a \<or> CR_IsEmptySet b \<or> SInt_IsZero (CR_UMaxValue b)
      then Some (CR_Empty (CR_Width a))
      else do {
        newLower \<leftarrow> SInt_UDiv (CR_UMinValue a) (CR_UMaxValue b);
        let rhsUMin = CR_UMinValue b;
        let rhsUMin' =
          (if SInt_IsZero rhsUMin then
             (if SInt_eq_u (CR_Upper b) 1 then CR_Lower b else SInt_assign_u rhsUMin 1)
           else rhsUMin);
        q \<leftarrow> SInt_UDiv (CR_UMaxValue a) rhsUMin';
        Some (CR_NonEmpty newLower (SInt_add_u q 1))
      })"

text \<open>The quotient of the negative parts, with the least value and \<open>-1\<close> excluded from
  meeting each other; \<open>a\<close> and \<open>b\<close> are the operands before they were split by sign.\<close>

definition CR_negDivNeg ::
  "(SInt \<Rightarrow> SInt \<Rightarrow> SInt option) \<Rightarrow> ConstantRange \<Rightarrow> ConstantRange \<Rightarrow>
   ConstantRange \<Rightarrow> ConstantRange \<Rightarrow> ConstantRange option" where
  "CR_negDivNeg div_op a b negL negR = do {
     lo \<leftarrow> div_op (SInt_sub_u (upper negL) 1) (lower negR);
     q \<leftarrow> div_op (lower negL) (SInt_sub_u (upper negR) 1);
     let up = SInt_add_u q 1;
     let signedMin = SInt_SMinValue (CR_Width a);
     let tricky = (SInt_IsSMinValue (lower negL) \<and> SInt_IsZero (upper negR));
     up1 \<leftarrow> (if tricky \<and> \<not> SInt_IsAllOnes (lower negR) then do {
              let adjNegRUpper =
                (if SInt_IsAllOnes (lower b) then upper b else SInt_sub_u (upper negR) 1);
              q1 \<leftarrow> div_op (lower negL) (SInt_sub_u adjNegRUpper 1);
              Some (SInt_add_u q1 1)
            } else Some up);
     up2 \<leftarrow> (if tricky \<and> SInt_ne (upper negL) (SInt_add_u signedMin 1) then do {
              let adjNegLLower =
                (if SInt_eq (upper a) (SInt_add_u signedMin 1) then lower a
                 else SInt_add_u (lower negL) 1);
              q2 \<leftarrow> div_op adjNegLLower (SInt_sub_u (upper negR) 1);
              Some (SInt_add_u q2 1)
            } else Some up1);
     Some (CR_make lo up2)
   }"

definition CR_SDivImpl ::
  "(SInt \<Rightarrow> SInt \<Rightarrow> SInt option) \<Rightarrow> ConstantRange \<Rightarrow> ConstantRange \<Rightarrow> ConstantRange option" where
  "CR_SDivImpl div_op a b = do {
     let w = CR_Width a;
     let zero = SInt_Zero w;
     let signedMin = SInt_SMinValue w;
     let posFilter = CR_make (SInt_make w 1) signedMin;
     let negFilter = CR_make signedMin zero;
     let posL = CR_IntersectWith a posFilter Smallest;
     let negL = CR_IntersectWith a negFilter Smallest;
     let posR = CR_IntersectWith b posFilter Smallest;
     let negR = CR_IntersectWith b negFilter Smallest;
     posDivPosRes \<leftarrow>
       (if \<not> CR_IsEmptySet posL \<and> \<not> CR_IsEmptySet posR then do {
          lo \<leftarrow> div_op (lower posL) (SInt_sub_u (upper posR) 1);
          q \<leftarrow> div_op (SInt_sub_u (upper posL) 1) (lower posR);
          Some (CR_make lo (SInt_add_u q 1))
        } else Some (CR_Empty w));
     negDivNegRes \<leftarrow>
       (if \<not> CR_IsEmptySet negL \<and> \<not> CR_IsEmptySet negR
        then CR_negDivNeg div_op a b negL negR
        else Some (CR_Empty w));
     let posRes = CR_UnionWith posDivPosRes negDivNegRes Smallest;
     posDivNegRes \<leftarrow>
       (if \<not> CR_IsEmptySet posL \<and> \<not> CR_IsEmptySet negR then do {
          lo \<leftarrow> div_op (SInt_sub_u (upper posL) 1) (SInt_sub_u (upper negR) 1);
          q \<leftarrow> div_op (lower posL) (lower negR);
          Some (CR_make lo (SInt_add_u q 1))
        } else Some (CR_Empty w));
     negDivPosRes \<leftarrow>
       (if \<not> CR_IsEmptySet negL \<and> \<not> CR_IsEmptySet posR then do {
          lo \<leftarrow> div_op (lower negL) (lower posR);
          q \<leftarrow> div_op (SInt_sub_u (upper negL) 1) (SInt_sub_u (upper posR) 1);
          Some (CR_make lo (SInt_add_u q 1))
        } else Some (CR_Empty w));
     let negRes = CR_UnionWith posDivNegRes negDivPosRes Smallest;
     let res = CR_UnionWith negRes posRes Signed;
     Some (if CR_Contains a zero \<and> (\<not> CR_IsEmptySet posR \<or> \<not> CR_IsEmptySet negR)
           then CR_UnionWith res (CR_single zero) Smallest
           else res)
   }"

definition CR_SDivSat :: "ConstantRange \<Rightarrow> ConstantRange \<Rightarrow> ConstantRange option" where
  "CR_SDivSat a b = CR_SDivImpl SInt_SDivSat a b"

definition CR_SDiv :: "ConstantRange \<Rightarrow> ConstantRange \<Rightarrow> ConstantRange option" where
  "CR_SDiv a b = CR_SDivImpl SInt_SDiv a b"

definition CR_URem :: "ConstantRange \<Rightarrow> ConstantRange \<Rightarrow> ConstantRange option" where
  "CR_URem a b =
     (if CR_IsEmptySet a \<or> CR_IsEmptySet b \<or> SInt_IsZero (CR_UMaxValue b)
      then Some (CR_Empty (CR_Width a))
      else if CR_IsSingleElement b \<and> SInt_IsZero (CR_GetSingleElement b)
      then Some (CR_Empty (CR_Width a))
      else if CR_IsSingleElement b \<and> CR_IsSingleElement a
      then map_option CR_single (SInt_URem (CR_GetSingleElement a) (CR_GetSingleElement b))
      else if SInt_Ult (CR_UMaxValue a) (CR_UMinValue b) then Some a
      else Some (CR_NonEmpty (SInt_Zero (CR_Width a))
                  (SInt_add_u (SInt_UMin (CR_UMaxValue a) (SInt_sub_u (CR_UMaxValue b) 1)) 1)))"

definition CR_Abs :: "ConstantRange \<Rightarrow> bool \<Rightarrow> ConstantRange" where
  "CR_Abs r intMinIsPoison =
     (let w = CR_Width r
      in if CR_IsEmptySet r then CR_Empty w
         else if CR_IsSignWrappedSet r then
           let lo = (if SInt_IsPositive (upper r) \<or> \<not> SInt_IsPositive (lower r) then SInt_Zero w
                     else SInt_UMin (lower r) (SInt_add_u (SInt_Neg (upper r)) 1))
           in if intMinIsPoison then CR_make lo (SInt_SMinValue w)
              else CR_make lo (SInt_add_u (SInt_SMinValue w) 1)
         else
           let sMin0 = CR_SMinValue r; sMax = CR_SMaxValue r;
               bump = (intMinIsPoison \<and> SInt_IsSMinValue sMin0)
           in if bump \<and> SInt_IsSMinValue sMax then CR_Empty w
              else
                let sMin = (if bump then SInt_inc sMin0 else sMin0)
                in if SInt_IsNonNeg sMin then r
                   else if SInt_IsNeg sMax then
                     CR_make (SInt_Neg sMax) (SInt_add_u (SInt_Neg sMin) 1)
                   else CR_make (SInt_Zero w) (SInt_add_u (SInt_UMax (SInt_Neg sMin) sMax) 1))"

definition CR_SRem :: "ConstantRange \<Rightarrow> ConstantRange \<Rightarrow> ConstantRange option" where
  "CR_SRem a b =
     (let w = CR_Width a
      in if CR_IsEmptySet a \<or> CR_IsEmptySet b then Some (CR_Empty w)
         else if CR_IsSingleElement b \<and> SInt_IsZero (CR_GetSingleElement b) then Some (CR_Empty w)
         else if CR_IsSingleElement b \<and> CR_IsSingleElement a
         then map_option CR_single (SInt_SRem (CR_GetSingleElement a) (CR_GetSingleElement b))
         else
           let absRhs = CR_Abs b False;
               maxAbsRhs = CR_UMaxValue absRhs
           in if SInt_IsZero maxAbsRhs then Some (CR_Empty w)
              else
                let minAbsRhs = (if SInt_IsZero (CR_UMinValue absRhs)
                                 then SInt_inc (CR_UMinValue absRhs) else CR_UMinValue absRhs);
                    minLhs = CR_SMinValue a; maxLhs = CR_SMaxValue a
                in if SInt_IsNonNeg minLhs then
                     (if SInt_Ult maxLhs minAbsRhs then Some a
                      else Some (CR_make (SInt_Zero w)
                             (SInt_add_u (SInt_UMin maxLhs (SInt_sub_u maxAbsRhs 1)) 1)))
                   else if SInt_IsNeg maxLhs then
                     (if SInt_Ugt minLhs (SInt_Neg minAbsRhs) then Some a
                      else Some (CR_make (SInt_UMax minLhs (SInt_add_u (SInt_Neg maxAbsRhs) 1))
                             (SInt_make w 1)))
                   else Some (CR_make (SInt_UMax minLhs (SInt_add_u (SInt_Neg maxAbsRhs) 1))
                          (SInt_add_u (SInt_UMin maxLhs (SInt_sub_u maxAbsRhs 1)) 1)))"

section \<open>Saturating arithmetic\<close>

definition CR_UAddSat :: "ConstantRange \<Rightarrow> ConstantRange \<Rightarrow> ConstantRange" where
  "CR_UAddSat a b =
     (if CR_IsEmptySet a \<or> CR_IsEmptySet b then CR_Empty (CR_Width a)
      else CR_NonEmpty (SInt_UAddSat (CR_UMinValue a) (CR_UMinValue b))
             (SInt_add_u (SInt_UAddSat (CR_UMaxValue a) (CR_UMaxValue b)) 1))"

definition CR_SAddSat :: "ConstantRange \<Rightarrow> ConstantRange \<Rightarrow> ConstantRange" where
  "CR_SAddSat a b =
     (if CR_IsEmptySet a \<or> CR_IsEmptySet b then CR_Empty (CR_Width a)
      else CR_NonEmpty (SInt_SAddSat (CR_SMinValue a) (CR_SMinValue b))
             (SInt_add_u (SInt_SAddSat (CR_SMaxValue a) (CR_SMaxValue b)) 1))"

definition CR_USubSat :: "ConstantRange \<Rightarrow> ConstantRange \<Rightarrow> ConstantRange" where
  "CR_USubSat a b =
     (if CR_IsEmptySet a \<or> CR_IsEmptySet b then CR_Empty (CR_Width a)
      else CR_NonEmpty (SInt_USubSat (CR_UMinValue a) (CR_UMaxValue b))
             (SInt_add_u (SInt_USubSat (CR_UMaxValue a) (CR_UMinValue b)) 1))"

definition CR_SSubSat :: "ConstantRange \<Rightarrow> ConstantRange \<Rightarrow> ConstantRange" where
  "CR_SSubSat a b =
     (if CR_IsEmptySet a \<or> CR_IsEmptySet b then CR_Empty (CR_Width a)
      else CR_NonEmpty (SInt_SSubSat (CR_SMinValue a) (CR_SMaxValue b))
             (SInt_add_u (SInt_SSubSat (CR_SMaxValue a) (CR_SMinValue b)) 1))"

definition CR_UMulSat :: "ConstantRange \<Rightarrow> ConstantRange \<Rightarrow> ConstantRange option" where
  "CR_UMulSat a b =
     (if CR_IsEmptySet a \<or> CR_IsEmptySet b then Some (CR_Empty (CR_Width a))
      else do {
        lo \<leftarrow> SInt_UMulSat (CR_UMinValue a) (CR_UMinValue b);
        hi \<leftarrow> SInt_UMulSat (CR_UMaxValue a) (CR_UMaxValue b);
        Some (CR_NonEmpty lo (SInt_add_u hi 1))
      })"

definition CR_SMulSat :: "ConstantRange \<Rightarrow> ConstantRange \<Rightarrow> ConstantRange option" where
  "CR_SMulSat a b =
     (if CR_IsEmptySet a \<or> CR_IsEmptySet b then Some (CR_Empty (CR_Width a))
      else do {
        p1 \<leftarrow> SInt_SMulSat (CR_SMinValue a) (CR_SMinValue b);
        p2 \<leftarrow> SInt_SMulSat (CR_SMinValue a) (CR_SMaxValue b);
        p3 \<leftarrow> SInt_SMulSat (CR_SMaxValue a) (CR_SMinValue b);
        p4 \<leftarrow> SInt_SMulSat (CR_SMaxValue a) (CR_SMaxValue b);
        Some (CR_NonEmpty (std_min SInt_Slt p1 [p2, p3, p4])
               (SInt_add_u (std_max SInt_Slt p1 [p2, p3, p4]) 1))
      })"

definition CR_Negate :: "ConstantRange \<Rightarrow> ConstantRange" where
  "CR_Negate r =
     (if CR_IsEmptySet r \<or> CR_IsFullSet r then r
      else
        let lo = SInt_Neg (SInt_sub_u (upper r) 1);
            up = (if SInt_IsSMinValue (lower r) then lower r
                  else SInt_add_u (SInt_Neg (lower r)) 1)
        in CR_make lo up)"

end
