(* ===== verification/SInt_Facts.thy ===== *)
theory SInt_Facts
  imports SInt "HOL-Library.Signed_Division"
begin

text \<open>
  The two readings of a value of \<^verbatim>\<open>SInt\<close> as an integer, \<open>uv\<close> unsigned and \<open>sv\<close>
  signed, the representation invariant \<open>SInt_wf\<close> (no bit above the width), and what every
  operation does to the readings and to the invariant.
\<close>

definition uv :: "SInt \<Rightarrow> int" where
  "uv x = uint (val x)"

definition sv :: "SInt \<Rightarrow> int" where
  "sv x = (if uv x < half (width x) then uv x else uv x - modulus (width x))"

definition SInt_wf :: "SInt \<Rightarrow> bool" where
  "SInt_wf x \<longleftrightarrow> uv x < modulus (width x)"

lemma SInt_ext: "width x = width y \<Longrightarrow> uv x = uv y \<Longrightarrow> x = y"
  by (simp add: word_uint_eq_iff uv_def)

lemma uv_nonneg: "0 \<le> uv x"
  by (simp add: uv_def)

lemma uv_lt: "SInt_wf x \<Longrightarrow> uv x < modulus (width x)"
  by (simp add: SInt_wf_def)

lemma sv_lo: "- half (width x) \<le> sv x"
proof -
  have "sv x = uv x \<or> sv x = uv x - 2 * half (width x) \<and> half (width x) \<le> uv x"
    by (auto simp: sv_def modulus_half)
  moreover have "0 \<le> uv x" by (rule uv_nonneg)
  ultimately show ?thesis using half_pos [of "width x"] by linarith
qed

lemma sv_hi: "SInt_wf x \<Longrightarrow> sv x < half (width x)"
  using half_pos [of "width x"] by (auto simp: sv_def modulus_half SInt_wf_def)

lemma sv_mod: "SInt_wf x \<Longrightarrow> sv x mod modulus (width x) = uv x"
  using uv_nonneg [of x] by (auto simp: sv_def SInt_wf_def)

lemma uv_mod_self: "SInt_wf x \<Longrightarrow> uv x mod modulus (width x) = uv x"
  using uv_nonneg [of x] by (simp add: SInt_wf_def)

lemma sv_inj: "SInt_wf x \<Longrightarrow> SInt_wf y \<Longrightarrow> width x = width y \<Longrightarrow> sv x = sv y \<Longrightarrow> x = y"
  by (rule SInt_ext) (simp_all flip: sv_mod)

lemma uv_sv: "SInt_wf x \<Longrightarrow> uv x = (if sv x < 0 then sv x + modulus (width x) else sv x)"
  using uv_nonneg [of x] by (auto simp: sv_def SInt_wf_def)

lemma mask_uv: "uint (v AND drop_bit (64 - bw w) (WORD_TYPE_MAX)) = uint v mod modulus w"
  using bw_bounds [of w]
  by (simp only: WORD_TYPE_MAX_def minus1_shift_mask uint_and_mask64 modulus_def)

lemma ClearUnusedBits_width [sint_width, simp]: "width (SInt_ClearUnusedBits x) = width x"
  by (simp add: SInt_ClearUnusedBits_def Let_def)

lemma ClearUnusedBits_uv [sint_simps]:
  "uv (SInt_ClearUnusedBits x) = uv x mod modulus (width x)"
proof -
  have "(bw (width x) - 1) mod 64 + 1 = bw (width x)"
    by (cases "width x") simp_all
  then show ?thesis
    by (simp add: SInt_ClearUnusedBits_def Let_def mask_uv uv_def)
qed

lemma ClearUnusedBits_wf [sint_wf, simp]: "SInt_wf (SInt_ClearUnusedBits x)"
  by (simp add: SInt_wf_def ClearUnusedBits_uv)

lemma make_width [sint_width, simp]: "width (SInt_make w v) = w"
  by (simp add: SInt_make_def)

lemma make_wf [sint_wf, simp]: "SInt_wf (SInt_make w v)"
  by (simp add: SInt_make_def)

lemma make_uv [sint_simps]: "uv (SInt_make w v) = uint v mod modulus w"
  by (simp add: SInt_make_def ClearUnusedBits_uv) (simp add: uv_def)

lemma uint_mod_64: "(uint (v :: 64 word) + k) mod 18446744073709551616 mod modulus w
   = (uint v + k) mod modulus w"
  using modulus_dvd_64 by (simp add: mod_mod_cancel)

lemma mod64_mod: "(k :: int) mod 18446744073709551616 mod modulus w = k mod modulus w"
  using modulus_dvd_64 by (simp add: mod_mod_cancel)

lemma Zero_simps [simp, sint_simps]:
  "uv (SInt_Zero w) = 0" "width (SInt_Zero w) = w" "SInt_wf (SInt_Zero w)"
  by (simp_all add: SInt_Zero_def make_uv)

lemma val_eq_iff: "val x = v \<longleftrightarrow> uv x = uint v"
  by (simp add: uv_def word_uint_eq_iff)

lemma val_Zero [simp]: "val (SInt_Zero w) = 0"
  by (simp add: val_eq_iff)

lemma val_make_0 [simp]: "val (SInt_make w 0) = 0"
  by (simp add: val_eq_iff make_uv)

lemma val_AllOnes: "val (SInt_AllOnes w) = mask (bw w)"
proof -
  have "(bw w - 1) mod 64 + 1 = bw w"
    by (cases w) simp_all
  then show ?thesis
    using bw_bounds [of w]
    by (simp add: SInt_AllOnes_def SInt_make_def SInt_ClearUnusedBits_def WORD_TYPE_MAX_def
      minus1_shift_mask)
qed

lemma uint_mask64: "n \<le> 64 \<Longrightarrow> uint (mask n :: 64 word) = 2 ^ n - 1"
  by (simp only: uint_mask_eq) (simp add: mask_eq_exp_minus_1)

lemma uint_pow64: "n < 64 \<Longrightarrow> uint (2 ^ n :: 64 word) = 2 ^ n"
proof -
  assume n: "n < 64"
  then have lt: "(2 :: int) ^ n < 2 ^ 64" by (intro power_strict_increasing) auto
  have "uint (2 ^ n :: 64 word) = uint (push_bit n 1 :: 64 word)" by simp
  also have "\<dots> = 2 ^ n" unfolding uint_push_bit64 using lt by simp
  finally show ?thesis .
qed

lemma AllOnes_uv [sint_simps]: "uv (SInt_AllOnes w) = modulus w - 1"
  using bw_bounds [of w] by (simp add: uv_def val_AllOnes uint_mask64 modulus_def)

lemma AllOnes_width [simp, sint_width]: "width (SInt_AllOnes w) = w" and
  AllOnes_wf [simp, sint_wf]: "SInt_wf (SInt_AllOnes w)"
  by (simp_all add: SInt_AllOnes_def)

lemma UMaxValue_simps [simp, sint_simps]:
  "uv (SInt_UMaxValue w) = modulus w - 1" "width (SInt_UMaxValue w) = w"
  "SInt_wf (SInt_UMaxValue w)"
  by (simp_all add: SInt_UMaxValue_def AllOnes_uv)

lemma UMinValue_simps [simp, sint_simps]:
  "uv (SInt_UMinValue w) = 0" "width (SInt_UMinValue w) = w" "SInt_wf (SInt_UMinValue w)"
  by (simp_all add: SInt_UMinValue_def)

lemma val_SMaxValue: "val (SInt_SMaxValue w) = mask (bw w - 1)"
proof -
  have "mask (bw w) AND NOT (push_bit (bw w - 1) 1) = (mask (bw w - 1) :: 64 word)"
    by (rule bit_word_eqI) (auto simp: bit_simps)
  then show ?thesis
    by (simp add: SInt_SMaxValue_def SInt_ClearBit_def SInt_MaskBit_def val_AllOnes)
qed

lemma SMaxValue_simps [simp, sint_simps]:
  "uv (SInt_SMaxValue w) = half w - 1" "width (SInt_SMaxValue w) = w"
  "SInt_wf (SInt_SMaxValue w)"
proof -
  show uv: "uv (SInt_SMaxValue w) = half w - 1"
    using bw_bounds [of w] by (simp add: uv_def val_SMaxValue uint_mask64 half_def)
  show wi: "width (SInt_SMaxValue w) = w"
    by (simp add: SInt_SMaxValue_def SInt_ClearBit_def)
  show "SInt_wf (SInt_SMaxValue w)"
    using half_ge [of w] by (simp add: SInt_wf_def uv wi modulus_half)
qed

lemma SMinValue_simps [simp, sint_simps]:
  "uv (SInt_SMinValue w) = half w" "width (SInt_SMinValue w) = w"
  "SInt_wf (SInt_SMinValue w)"
proof -
  show uv: "uv (SInt_SMinValue w) = half w"
    using bw_bounds [of w]
    by (simp add: uv_def SInt_SMinValue_def SInt_SetBit_def SInt_MaskBit_def uint_pow64 half_def)
  show wi: "width (SInt_SMinValue w) = w"
    by (simp add: SInt_SMinValue_def SInt_SetBit_def)
  show "SInt_wf (SInt_SMinValue w)"
    using half_pos [of w] by (simp add: SInt_wf_def uv wi modulus_half)
qed

section \<open>Tests and comparison\<close>

lemma wf_bit_sign: "SInt_wf x \<Longrightarrow> bit (val x) (bw (width x) - Suc 0) \<longleftrightarrow> half (width x) \<le> uv x"
proof -
  assume wf: "SInt_wf x"
  let ?n = "bw (width x) - Suc 0"
  have "bit (val x) ?n \<longleftrightarrow> odd (uv x div 2 ^ ?n)"
    by (auto simp: uv_def bit_uint_iff simp flip: bit_iff_odd dest: bit_imp_le_length)
  also have "uv x div 2 ^ ?n = (if half (width x) \<le> uv x then 1 else 0)"
  proof (cases "half (width x) \<le> uv x")
    case True
    then have "uv x div half (width x) = 1"
      using wf by (simp add: SInt_wf_def modulus_half int_div_pos_eq [where r = "uv x - half (width x)"])
    then show ?thesis using True by (simp add: half_def)
  next
    case False
    then show ?thesis using uv_nonneg [of x] by (simp add: half_def)
  qed
  finally show ?thesis by simp
qed

lemma index_bit: "SInt_index x n \<longleftrightarrow> bit (val x) n"
proof -
  have "bit v n \<longleftrightarrow> push_bit n 1 AND v \<noteq> 0" for v :: "64 word"
    by (simp only: bit_iff_and_push_bit_not_eq_0 and.commute)
  then show ?thesis
    by (simp add: SInt_index_def SInt_MaskBit_def)
qed

lemma IsNeg_iff [sint_simps]: "SInt_wf x \<Longrightarrow> SInt_IsNeg x \<longleftrightarrow> half (width x) \<le> uv x"
  by (simp add: SInt_IsNeg_def SInt_IsSignBitSet_def SInt_At_def index_bit wf_bit_sign)

lemma IsNeg_sv: "SInt_wf x \<Longrightarrow> SInt_IsNeg x \<longleftrightarrow> sv x < 0"
  using uv_nonneg [of x] by (auto simp: IsNeg_iff sv_def SInt_wf_def not_less)

lemma IsNonNeg_iff [sint_simps]: "SInt_IsNonNeg x \<longleftrightarrow> \<not> SInt_IsNeg x"
  by (simp add: SInt_IsNonNeg_def SInt_IsSignBitClear_def SInt_IsNeg_def)

lemma IsZero_iff [sint_simps]: "SInt_IsZero x \<longleftrightarrow> uv x = 0"
  by (simp add: SInt_IsZero_def val_eq_iff)

lemma IsOne_iff [sint_simps]: "SInt_IsOne x \<longleftrightarrow> uv x = 1"
  by (simp add: SInt_IsOne_def val_eq_iff)

lemma IsAllOnes_iff [sint_simps]: "SInt_IsAllOnes x \<longleftrightarrow> uv x = modulus (width x) - 1"
  using bw_bounds [of "width x"]
  by (simp add: SInt_IsAllOnes_def WORD_TYPE_MAX_def minus1_shift_mask val_eq_iff
      uint_mask64 modulus_def)

lemma IsUMaxValue_iff [sint_simps]: "SInt_IsUMaxValue x \<longleftrightarrow> uv x = modulus (width x) - 1"
  by (simp add: SInt_IsUMaxValue_def IsAllOnes_iff)

lemma IsUMinValue_iff [sint_simps]: "SInt_IsUMinValue x \<longleftrightarrow> uv x = 0"
  by (simp add: SInt_IsUMinValue_def IsZero_iff)

lemma IsSMinValue_iff [sint_simps]: "SInt_IsSMinValue x \<longleftrightarrow> uv x = half (width x)"
  using bw_bounds [of "width x"]
  by (simp add: SInt_IsSMinValue_def val_eq_iff uint_pow64 half_def)

lemma IsSMaxValue_iff [sint_simps]: "SInt_IsSMaxValue x \<longleftrightarrow> uv x = half (width x) - 1"
proof -
  have "push_bit n 1 - 1 = (mask n :: 64 word)" for n
    by (simp add: mask_eq_exp_minus_1 push_bit_eq_mult)
  then show ?thesis using bw_bounds [of "width x"]
    by (simp add: SInt_IsSMaxValue_def val_eq_iff uint_mask64 half_def)
qed

lemma SVal_sv [sint_simps]: "SInt_wf x \<Longrightarrow> SInt_SVal x = sv x"
  by (simp add: SInt_SVal_def sint_SignExtend64 SInt_wf_def sv_def uv_def)

lemma GetSExtValue_sv [sint_simps]: "SInt_wf x \<Longrightarrow> SInt_GetSExtValue x = sv x"
  by (simp add: SInt_GetSExtValue_def sint_SignExtend64 SInt_wf_def sv_def uv_def)

lemma eq_iff_uv [sint_simps]:
  "SInt_eq x y \<longleftrightarrow> uv x = uv y" "SInt_ne x y \<longleftrightarrow> uv x \<noteq> uv y"
  by (simp_all add: SInt_eq_def SInt_ne_def word_uint_eq_iff uv_def)

lemma ucmp_uv [sint_simps]:
  "SInt_Ult x y \<longleftrightarrow> uv x < uv y" "SInt_Ule x y \<longleftrightarrow> uv x \<le> uv y"
  "SInt_Ugt x y \<longleftrightarrow> uv y < uv x" "SInt_Uge x y \<longleftrightarrow> uv y \<le> uv x"
  by (auto simp: SInt_Ult_def SInt_Ule_def SInt_Ugt_def SInt_Uge_def SInt_UCmp_def word_less_def uv_def)

lemma scmp_sv [sint_simps]:
  "SInt_wf x \<Longrightarrow> SInt_wf y \<Longrightarrow> SInt_Slt x y \<longleftrightarrow> sv x < sv y"
  "SInt_wf x \<Longrightarrow> SInt_wf y \<Longrightarrow> SInt_Sle x y \<longleftrightarrow> sv x \<le> sv y"
  "SInt_wf x \<Longrightarrow> SInt_wf y \<Longrightarrow> SInt_Sgt x y \<longleftrightarrow> sv y < sv x"
  "SInt_wf x \<Longrightarrow> SInt_wf y \<Longrightarrow> SInt_Sge x y \<longleftrightarrow> sv y \<le> sv x"
  by (auto simp: SInt_Slt_def SInt_Sle_def SInt_Sgt_def SInt_Sge_def SInt_SCmp_def Let_def
      GetSExtValue_sv)

section \<open>Arithmetic\<close>

lemma uint_word64_arith:
  "uint ((a :: 64 word) + b) = (uint a + uint b) mod 18446744073709551616"
  "uint (a - b) = (uint a - uint b) mod 18446744073709551616"
  "uint (a * b) = (uint a * uint b) mod 18446744073709551616"
  by (simp_all add: uint_word_ariths)

lemma add_uv [sint_simps]: "uv (SInt_add x y) = (uv x + uv y) mod modulus (width x)"
  by (simp add: SInt_add_def ClearUnusedBits_uv) (simp add: uv_def uint_word64_arith mod64_mod)

lemma add_u_uv [sint_simps]: "uv (SInt_add_u x v) = (uv x + uint v) mod modulus (width x)"
  by (simp add: SInt_add_u_def ClearUnusedBits_uv) (simp add: uv_def uint_word64_arith mod64_mod)

lemma sub_uv [sint_simps]: "uv (SInt_sub x y) = (uv x - uv y) mod modulus (width x)"
  by (simp add: SInt_sub_def ClearUnusedBits_uv) (simp add: uv_def uint_word64_arith mod64_mod)

lemma sub_u_uv [sint_simps]: "uv (SInt_sub_u x v) = (uv x - uint v) mod modulus (width x)"
  by (simp add: SInt_sub_u_def ClearUnusedBits_uv) (simp add: uv_def uint_word64_arith mod64_mod)

lemma mul_uv [sint_simps]: "uv (SInt_mul x y) = (uv x * uv y) mod modulus (width x)"
  by (simp add: SInt_mul_def make_uv) (simp add: uv_def uint_word64_arith mod64_mod)

lemma inc_uv [sint_simps]: "uv (SInt_inc x) = (uv x + 1) mod modulus (width x)"
  by (simp add: SInt_inc_def ClearUnusedBits_uv) (simp add: uv_def uint_word64_arith mod64_mod)

lemma dec_uv [sint_simps]: "uv (SInt_dec x) = (uv x - 1) mod modulus (width x)"
  by (simp add: SInt_dec_def ClearUnusedBits_uv) (simp add: uv_def uint_word64_arith mod64_mod)

lemma arith_width [simp, sint_width]:
  "width (SInt_add x y) = width x" "width (SInt_add_u x v) = width x"
  "width (SInt_sub x y) = width x" "width (SInt_sub_u x v) = width x"
  "width (SInt_mul x y) = width x" "width (SInt_inc x) = width x" "width (SInt_dec x) = width x"
  "width (SInt_Neg x) = width x" "width (SInt_FlipAllBits x) = width x"
  by (simp_all add: SInt_add_def SInt_add_u_def SInt_sub_def SInt_sub_u_def SInt_mul_def
      SInt_inc_def SInt_dec_def SInt_Neg_def SInt_FlipAllBits_def)

lemma arith_wf [simp, sint_wf]:
  "SInt_wf (SInt_add x y)" "SInt_wf (SInt_add_u x v)"
  "SInt_wf (SInt_sub x y)" "SInt_wf (SInt_sub_u x v)"
  "SInt_wf (SInt_mul x y)" "SInt_wf (SInt_inc x)" "SInt_wf (SInt_dec x)"
  "SInt_wf (SInt_Neg x)" "SInt_wf (SInt_FlipAllBits x)"
  by (simp_all add: SInt_add_def SInt_add_u_def SInt_sub_def SInt_sub_u_def SInt_mul_def
      SInt_inc_def SInt_dec_def SInt_Neg_def SInt_FlipAllBits_def)

lemma FlipAllBits_uv [sint_simps]:
  "uv (SInt_FlipAllBits x) = (- uv x - 1) mod modulus (width x)"
proof -
  have "val x XOR WORD_TYPE_MAX = - val x - 1"
    by (simp add: WORD_TYPE_MAX_def not_eq_complement)
  then show ?thesis
    by (simp add: SInt_FlipAllBits_def ClearUnusedBits_uv)
      (simp add: uv_def uint_word64_arith mod64_mod uint_word_ariths(4) mod_simps)
qed

lemma Neg_uv [sint_simps]: "uv (SInt_Neg x) = (- uv x) mod modulus (width x)"
  by (simp add: SInt_Neg_def inc_uv FlipAllBits_uv mod_simps)

section \<open>Signed reading of the linear operations\<close>

text \<open>The residue of an integer read as a signed value of the width.\<close>

definition signed_of :: "IntWidth \<Rightarrow> int \<Rightarrow> int" where
  "signed_of w k = (let r = k mod modulus w in if r < half w then r else r - modulus w)"

lemma sv_signed_of: "uv x = k mod modulus (width x) \<Longrightarrow> sv x = signed_of (width x) k"
  by (simp add: sv_def signed_of_def Let_def)

lemma signed_of_id: "- half w \<le> k \<Longrightarrow> k < half w \<Longrightarrow> signed_of w k = k"
  by (simp add: signed_of_def Let_def mod_once_down modulus_half)

lemma signed_of_mod: "signed_of w k mod modulus w = k mod modulus w"
  by (simp add: signed_of_def Let_def mod_simps)

lemma signed_of_cong: "k mod modulus w = l mod modulus w \<Longrightarrow> signed_of w k = signed_of w l"
  by (simp add: signed_of_def)

lemma signed_of_bounds: "- half w \<le> signed_of w k" "signed_of w k < half w"
proof -
  have "0 \<le> k mod modulus w" "k mod modulus w < modulus w" by simp_all
  moreover have "signed_of w k = k mod modulus w \<and> k mod modulus w < half w \<or>
      signed_of w k = k mod modulus w - modulus w \<and> half w \<le> k mod modulus w"
    by (auto simp: signed_of_def Let_def)
  ultimately show "- half w \<le> signed_of w k" "signed_of w k < half w"
    using modulus_half [of w] half_pos [of w] by linarith+
qed

lemma uv_cong_sv: "SInt_wf x \<Longrightarrow> uv x mod modulus (width x) = sv x mod modulus (width x)"
  by (simp add: sv_mod uv_mod_self)

lemma sv_via:
  "uv r = k mod modulus (width r) \<Longrightarrow> k mod modulus (width r) = l mod modulus (width r) \<Longrightarrow>
   sv r = signed_of (width r) l"
  by (simp add: sv_def signed_of_def)

lemma add_sv:
  assumes "SInt_wf x" "SInt_wf y" "width y = width x"
  shows "sv (SInt_add x y) = signed_of (width x) (sv x + sv y)"
proof -
  have "(uv x + uv y) mod modulus (width x) = (sv x + sv y) mod modulus (width x)"
    using uv_cong_sv [of x] uv_cong_sv [of y] assms by (intro mod_add_cong) auto
  then show ?thesis
    using sv_via [of "SInt_add x y" "uv x + uv y" "sv x + sv y"] by (simp add: add_uv)
qed

lemma add_u_sv:
  assumes "SInt_wf x"
  shows "sv (SInt_add_u x v) = signed_of (width x) (sv x + uint v)"
proof -
  have "(uv x + uint v) mod modulus (width x) = (sv x + uint v) mod modulus (width x)"
    using uv_cong_sv [of x] assms by (intro mod_add_cong) auto
  then show ?thesis
    using sv_via [of "SInt_add_u x v" "uv x + uint v" "sv x + uint v"] by (simp add: add_u_uv)
qed

lemma sub_sv:
  assumes "SInt_wf x" "SInt_wf y" "width y = width x"
  shows "sv (SInt_sub x y) = signed_of (width x) (sv x - sv y)"
proof -
  have "(uv x - uv y) mod modulus (width x) = (sv x - sv y) mod modulus (width x)"
    using uv_cong_sv [of x] uv_cong_sv [of y] assms by (intro mod_diff_cong) auto
  then show ?thesis
    using sv_via [of "SInt_sub x y" "uv x - uv y" "sv x - sv y"] by (simp add: sub_uv)
qed

lemma mul_sv:
  assumes "SInt_wf x" "SInt_wf y" "width y = width x"
  shows "sv (SInt_mul x y) = signed_of (width x) (sv x * sv y)"
proof -
  have "(uv x * uv y) mod modulus (width x) = (sv x * sv y) mod modulus (width x)"
    using uv_cong_sv [of x] uv_cong_sv [of y] assms by (intro mod_mult_cong) auto
  then show ?thesis
    using sv_via [of "SInt_mul x y" "uv x * uv y" "sv x * sv y"] by (simp add: mul_uv)
qed

lemma Neg_sv:
  assumes "SInt_wf x"
  shows "sv (SInt_Neg x) = signed_of (width x) (- sv x)"
proof -
  have "(- uv x) mod modulus (width x) = (- sv x) mod modulus (width x)"
    using uv_cong_sv [OF assms] by (metis mod_minus_eq)
  then show ?thesis
    using sv_via [of "SInt_Neg x" "- uv x" "- sv x"] by (simp add: Neg_uv)
qed

text \<open>The overloads agree with the plain operators on operands of one width.\<close>

lemma add_rv_eq: "width x = width y \<Longrightarrow> SInt_add_rv x y = SInt_add x y"
  by (rule SInt_ext) (simp_all add: SInt_add_rv_def add_uv add.commute)

lemma sub_rv_eq: "width x = width y \<Longrightarrow> SInt_sub_rv x y = SInt_sub x y"
  by (rule SInt_ext) (simp_all add: SInt_sub_rv_def add_uv sub_uv Neg_uv mod_simps)

section \<open>Division\<close>

lemma uint_div64: "uint ((a :: 64 word) div b) = uint a div uint b"
  "uint (a mod b) = uint a mod uint b"
  by (simp_all add: uint_div_distrib uint_mod_distrib)

lemma div_in_range:
  fixes a b m :: int
  assumes "0 \<le> a" "a < m" "0 < b"
  shows "0 \<le> a div b" "a div b < m" "0 \<le> a mod b" "a mod b < m"
proof -
  show "0 \<le> a div b" "0 \<le> a mod b" using assms by (simp_all add: pos_imp_zdiv_nonneg_iff)
  have "a div b \<le> a div 1" using assms by (intro zdiv_mono2) linarith+
  then show "a div b < m" using assms by simp
  show "a mod b < m" using assms zmod_le_nonneg_dividend [of a b] by linarith
qed

lemma uv_pos: "uv x \<noteq> 0 \<Longrightarrow> 0 < uv x"
  using uv_nonneg [of x] by linarith

lemma UDiv_Some:
  assumes "SInt_wf x" "uv y \<noteq> 0"
  obtains q where "SInt_UDiv x y = Some q" "SInt_wf q" "width q = width x" "uv q = uv x div uv y"
proof -
  have "uv x div uv y mod modulus (width x) = uv x div uv y"
    using div_in_range [of "uv x" "modulus (width x)" "uv y"] assms uv_pos uv_nonneg
    by (simp add: SInt_wf_def)
  then have "uv (SInt_make (width x) (val x div val y)) = uv x div uv y"
    by (simp add: make_uv uint_div64 flip: uv_def)
  then show thesis using assms that [of "SInt_make (width x) (val x div val y)"]
    by (simp add: SInt_UDiv_def SInt_UDiv_u_def val_eq_iff)
qed

lemma URem_Some:
  assumes "SInt_wf x" "uv y \<noteq> 0"
  obtains q where "SInt_URem x y = Some q" "SInt_wf q" "width q = width x" "uv q = uv x mod uv y"
proof -
  have "uv x mod uv y mod modulus (width x) = uv x mod uv y"
    using div_in_range [of "uv x" "modulus (width x)" "uv y"] assms uv_pos uv_nonneg
    by (simp add: SInt_wf_def)
  then have "uv (SInt_make (width x) (val x mod val y)) = uv x mod uv y"
    by (simp add: make_uv uint_div64 flip: uv_def)
  then show thesis using assms that [of "SInt_make (width x) (val x mod val y)"]
    by (simp add: SInt_URem_def SInt_URem_u_def val_eq_iff)
qed

lemma UDiv_None: "uv y = 0 \<Longrightarrow> SInt_UDiv x y = None"
  and URem_None: "uv y = 0 \<Longrightarrow> SInt_URem x y = None"
  by (simp_all add: SInt_UDiv_def SInt_UDiv_u_def SInt_URem_def SInt_URem_u_def val_eq_iff)

text \<open>The magnitude the code divides: the operand itself, or its negation, which is
  the least value for the least value.\<close>

lemma Neg_abs: "SInt_wf x \<Longrightarrow> sv x < 0 \<Longrightarrow> uv (SInt_Neg x) = \<bar>sv x\<bar>"
proof -
  assume x: "SInt_wf x" "sv x < 0"
  have "uv (SInt_Neg x) = (- sv x) mod modulus (width x)"
    using uv_cong_sv [OF x(1)] by (metis Neg_uv mod_minus_eq)
  also have "\<dots> = - sv x"
    using x sv_lo [of x] half_pos [of "width x"] by (intro mod_pos_pos_trivial) (simp_all add: modulus_half)
  finally show ?thesis using x by simp
qed

lemma nonneg_abs: "SInt_wf x \<Longrightarrow> \<not> sv x < 0 \<Longrightarrow> uv x = \<bar>sv x\<bar>"
  by (simp add: uv_sv)

lemma sv_zero_iff: "SInt_wf x \<Longrightarrow> sv x = 0 \<longleftrightarrow> uv x = 0"
  using half_pos [of "width x"] uv_nonneg [of x] by (auto simp: sv_def SInt_wf_def)

lemma abs_quotient_bound:
  assumes "SInt_wf x"
  shows "0 \<le> \<bar>sv x\<bar>" "\<bar>sv x\<bar> < modulus (width x)"
  using sv_lo [of x] sv_hi [OF assms] half_pos [of "width x"] by (auto simp: modulus_half)

lemma SDiv_Some:
  assumes x: "SInt_wf x" and y: "SInt_wf y" and w: "width y = width x" and nz: "uv y \<noteq> 0"
  obtains q where "SInt_SDiv x y = Some q" "SInt_wf q" "width q = width x"
    "uv q = (sv x sdiv sv y) mod modulus (width x)"
proof -
  define ax where "ax = (if sv x < 0 then SInt_Neg x else x)"
  define ay where "ay = (if sv y < 0 then SInt_Neg y else y)"
  have ax: "SInt_wf ax" "width ax = width x" "uv ax = \<bar>sv x\<bar>"
    using x by (auto simp: ax_def Neg_abs nonneg_abs)
  have ay: "uv ay = \<bar>sv y\<bar>"
    using y by (auto simp: ay_def Neg_abs nonneg_abs)
  have "sv y \<noteq> 0" using y nz by (simp add: sv_zero_iff)
  then have "uv ay \<noteq> 0" using ay by simp
  then obtain q where q: "SInt_UDiv ax ay = Some q" "SInt_wf q" "width q = width x"
    "uv q = \<bar>sv x\<bar> div \<bar>sv y\<bar>"
    using UDiv_Some [of ax ay] ax ay by metis
  show thesis
  proof (cases "(sv x < 0) = (sv y < 0)")
    case True
    then have "SInt_SDiv x y = Some q"
      using q(1) x y by (auto simp: SInt_SDiv_def IsNeg_sv ax_def ay_def)
    moreover have "sv x sdiv sv y = \<bar>sv x\<bar> div \<bar>sv y\<bar>"
      using True \<open>sv y \<noteq> 0\<close> by (auto simp: signed_divide_int_def sgn_if)
    moreover have "(\<bar>sv x\<bar> div \<bar>sv y\<bar>) mod modulus (width x) = uv q"
      using uv_mod_self [OF q(2)] q(3,4) by simp
    ultimately show thesis using that q(2,3) by simp
  next
    case False
    then have "SInt_SDiv x y = Some (SInt_Neg q)"
      using q(1) x y by (auto simp: SInt_SDiv_def IsNeg_sv ax_def ay_def)
    moreover have "sv x sdiv sv y = - (\<bar>sv x\<bar> div \<bar>sv y\<bar>)"
      using False \<open>sv y \<noteq> 0\<close> by (auto simp: signed_divide_int_def sgn_if)
    ultimately show thesis using that [of "SInt_Neg q"] q(3,4) by (simp add: Neg_uv)
  qed
qed

lemma SRem_Some:
  assumes x: "SInt_wf x" and y: "SInt_wf y" and w: "width y = width x" and nz: "uv y \<noteq> 0"
  obtains q where "SInt_SRem x y = Some q" "SInt_wf q" "width q = width x"
    "uv q = (sv x smod sv y) mod modulus (width x)"
proof -
  define ax where "ax = (if sv x < 0 then SInt_Neg x else x)"
  define ay where "ay = (if sv y < 0 then SInt_Neg y else y)"
  have ax: "SInt_wf ax" "width ax = width x" "uv ax = \<bar>sv x\<bar>"
    using x by (auto simp: ax_def Neg_abs nonneg_abs)
  have ay: "uv ay = \<bar>sv y\<bar>"
    using y by (auto simp: ay_def Neg_abs nonneg_abs)
  have "sv y \<noteq> 0" using y nz by (simp add: sv_zero_iff)
  then have "uv ay \<noteq> 0" using ay by simp
  then obtain q where q: "SInt_URem ax ay = Some q" "SInt_wf q" "width q = width x"
    "uv q = \<bar>sv x\<bar> mod \<bar>sv y\<bar>"
    using URem_Some [of ax ay] ax ay by metis
  show thesis
  proof (cases "sv x < 0")
    case False
    then have "SInt_SRem x y = Some q"
      using q(1) x y by (auto simp: SInt_SRem_def IsNeg_sv ax_def ay_def)
    moreover have "sv x smod sv y = \<bar>sv x\<bar> mod \<bar>sv y\<bar>"
      using False by (auto simp: signed_modulo_int_def sgn_if)
    moreover have "(\<bar>sv x\<bar> mod \<bar>sv y\<bar>) mod modulus (width x) = uv q"
      using uv_mod_self [OF q(2)] q(3,4) by simp
    ultimately show thesis using that q(2,3) by simp
  next
    case True
    then have "SInt_SRem x y = Some (SInt_Neg q)"
      using q(1) x y by (auto simp: SInt_SRem_def IsNeg_sv ax_def ay_def)
    moreover have "sv x smod sv y = - (\<bar>sv x\<bar> mod \<bar>sv y\<bar>)"
      using True by (auto simp: signed_modulo_int_def sgn_if)
    ultimately show thesis using that [of "SInt_Neg q"] q(3,4) by (simp add: Neg_uv)
  qed
qed

lemma SDiv_None: "SInt_wf x \<Longrightarrow> SInt_wf y \<Longrightarrow> uv y = 0 \<Longrightarrow> SInt_SDiv x y = None"
  and SRem_None: "SInt_wf x \<Longrightarrow> SInt_wf y \<Longrightarrow> uv y = 0 \<Longrightarrow> SInt_SRem x y = None"
  by (auto simp: SInt_SDiv_def SInt_SRem_def IsNeg_iff UDiv_None URem_None)

section \<open>Bit counts\<close>

lemma bit_top: "uint v < 2 ^ Suc n \<Longrightarrow> n < 64 \<Longrightarrow> bit (v :: 64 word) n \<longleftrightarrow> 2 ^ n \<le> uint v"
proof -
  assume v: "uint v < 2 ^ Suc n" and n: "n < 64"
  have "bit v n \<longleftrightarrow> odd (uint v div 2 ^ n)"
    using n by (auto simp: bit_uint_iff simp flip: bit_iff_odd)
  also have "uint v div 2 ^ n = (if 2 ^ n \<le> uint v then 1 else 0)"
    using v int_div_pos_eq [of "uint v" "2 ^ n" 1 "uint v - 2 ^ n"] by auto
  finally show ?thesis by simp
qed

lemma leading_zeros:
  "n \<le> 64 \<Longrightarrow> k \<le> n \<Longrightarrow> uint (v :: 64 word) < 2 ^ n \<Longrightarrow>
   n - k \<le> length (takeWhile (\<lambda>i. \<not> bit v i) (rev [0..<n])) \<longleftrightarrow> uint v < 2 ^ k"
proof (induction n arbitrary: k)
  case 0
  then show ?case by simp
next
  case (Suc n)
  show ?case
  proof (cases "bit v n")
    case True
    then have ge: "2 ^ n \<le> uint v" using Suc.prems bit_top [of v n] by simp
    show ?thesis
    proof (cases "k = Suc n")
      case True
      then show ?thesis using Suc.prems by simp
    next
      case False
      then have "(2 :: int) ^ k \<le> 2 ^ n" using Suc.prems by (intro power_increasing) auto
      then have "\<not> uint v < 2 ^ k" using ge by linarith
      then show ?thesis using True False Suc.prems by auto
    qed
  next
    case False
    then have lt: "uint v < 2 ^ n" using Suc.prems bit_top [of v n] by simp
    show ?thesis
    proof (cases "k = Suc n")
      case True
      then show ?thesis using Suc.prems by simp
    next
      case neq: False
      then have "Suc n - k = Suc (n - k)" "k \<le> n" using Suc.prems by auto
      then show ?thesis using False Suc.IH [of k] lt Suc.prems(1) by simp
    qed
  qed
qed

lemma Clz_ge: "k \<le> 64 \<Longrightarrow> 64 - k \<le> Clz v \<longleftrightarrow> uint v < 2 ^ k"
proof (cases "v = 0")
  case True
  then show ?thesis by (simp add: Clz_def)
next
  case False
  assume "k \<le> 64"
  then show ?thesis using leading_zeros [of 64 k v] uint64_bounds [of v] False
    by (simp add: Clz_def)
qed

lemma Clz_le_64: "Clz v \<le> 64"
proof -
  have "length (takeWhile P (rev [0..<64])) \<le> 64" for P
    using length_takeWhile_le [of P "rev [0..<64]"] by simp
  then show ?thesis by (simp add: Clz_def)
qed

lemma Clz_width: "SInt_wf x \<Longrightarrow> 64 - bw (width x) \<le> Clz (val x)"
  using bw_bounds [of "width x"] by (simp add: Clz_ge SInt_wf_def modulus_def uv_def)

lemma SInt_Clz_eq: "SInt_wf x \<Longrightarrow> SInt_Clz x = Clz (val x) - (64 - bw (width x))"
  by (simp add: SInt_Clz_def Clz_width)

lemma SInt_Clz_le: "SInt_wf x \<Longrightarrow> SInt_Clz x \<le> bw (width x)"
  using Clz_le_64 [of "val x"] bw_bounds [of "width x"] by (simp add: SInt_Clz_eq)

lemma SInt_Clz_ge:
  assumes "SInt_wf x" "k \<le> bw (width x)"
  shows "bw (width x) - k \<le> SInt_Clz x \<longleftrightarrow> uv x < 2 ^ k"
proof -
  have "bw (width x) - k \<le> SInt_Clz x \<longleftrightarrow> 64 - k \<le> Clz (val x)"
    using assms bw_bounds [of "width x"] Clz_width [of x] by (auto simp: SInt_Clz_eq)
  then show ?thesis using assms bw_bounds [of "width x"] by (simp add: Clz_ge uv_def)
qed

lemma ActiveBits_le:
  assumes "SInt_wf x" "k \<le> bw (width x)"
  shows "SInt_ActiveBits x \<le> k \<longleftrightarrow> uv x < 2 ^ k"
proof -
  have "SInt_ActiveBits x \<le> k \<longleftrightarrow> bw (width x) - k \<le> SInt_Clz x"
    using SInt_Clz_le [OF assms(1)] assms(2) by (auto simp: SInt_ActiveBits_def)
  then show ?thesis by (simp add: SInt_Clz_ge [OF assms])
qed

lemma ActiveBits_bounds:
  assumes "SInt_wf x"
  shows "uv x < 2 ^ SInt_ActiveBits x" "SInt_ActiveBits x \<le> bw (width x)"
proof -
  show le: "SInt_ActiveBits x \<le> bw (width x)"
    using SInt_Clz_le [OF assms] by (simp add: SInt_ActiveBits_def)
  show "uv x < 2 ^ SInt_ActiveBits x"
    using ActiveBits_le [OF assms le] by simp
qed

section \<open>Changing the width\<close>

lemma Trunc_simps [sint_simps, sint_wf, sint_width]:
  "uv (SInt_Trunc x w) = uv x mod modulus w" "width (SInt_Trunc x w) = w"
  "SInt_wf (SInt_Trunc x w)"
  by (simp_all add: SInt_Trunc_def make_uv flip: uv_def)

lemma ZExt_simps:
  assumes "SInt_wf x" "width x \<le> w"
  shows "uv (SInt_ZExt x w) = uv x" "width (SInt_ZExt x w) = w" "SInt_wf (SInt_ZExt x w)"
proof -
  have "modulus (width x) \<le> modulus w"
    using modulus_mono [OF assms(2)] by (rule zdvd_imp_le) simp
  then show "uv (SInt_ZExt x w) = uv x"
    using assms(1) uv_nonneg [of x] by (simp add: SInt_ZExt_def make_uv SInt_wf_def flip: uv_def)
qed (simp_all add: SInt_ZExt_def)

lemma SExt_simps:
  assumes "SInt_wf x"
  shows "uv (SInt_SExt x w) = sv x mod modulus w" "width (SInt_SExt x w) = w"
    "SInt_wf (SInt_SExt x w)"
proof -
  let ?e = "SignExtend64 (val x) (bw (width x))"
  have "sint ?e = sv x" using assms by (simp add: sint_SignExtend64 sv_def SInt_wf_def uv_def)
  moreover have "uint ?e = take_bit LENGTH(64) (sint ?e)"
    by (rule uint_sint)
  ultimately have "uint ?e = sv x mod 18446744073709551616"
    by (simp add: take_bit_eq_mod)
  then show "uv (SInt_SExt x w) = sv x mod modulus w"
    unfolding SInt_SExt_def make_uv by (simp add: mod64_mod)
qed (simp_all add: SInt_SExt_def)

lemma SExt_sv:
  assumes "SInt_wf x" "width x \<le> w"
  shows "sv (SInt_SExt x w) = sv x"
proof -
  have "half (width x) \<le> half w"
    using assms(2) by (cases "width x"; cases w) (simp_all add: less_eq_IntWidth_def)
  then have "signed_of w (sv x) = sv x"
    using sv_lo [of x] sv_hi [OF assms(1)] by (intro signed_of_id) linarith+
  then show ?thesis
    using sv_signed_of [of "SInt_SExt x w" "sv x"] SExt_simps [OF assms(1), of w] by simp
qed

end
