(* ===== verification/SInt_Overflow.thy ===== *)
theory SInt_Overflow
  imports SInt_Facts
begin

text \<open>
  The operations of \<^verbatim>\<open>SInt\<close> that report overflow and the saturating ones, against
  the exact integer result: \<open>fits_u\<close> and \<open>fits_s\<close> say that it is representable, \<open>clamp_u\<close> and
  \<open>clamp_s\<close> give the representable value nearest to it.
\<close>

section \<open>What saturation computes\<close>

definition clamp_u :: "IntWidth \<Rightarrow> int \<Rightarrow> int" where
  "clamp_u w k = (if k < 0 then 0 else if modulus w \<le> k then modulus w - 1 else k)"

definition clamp_s :: "IntWidth \<Rightarrow> int \<Rightarrow> int" where
  "clamp_s w k = (if k < - half w then - half w else if half w \<le> k then half w - 1 else k)"

definition fits_u :: "IntWidth \<Rightarrow> int \<Rightarrow> bool" where
  "fits_u w k \<longleftrightarrow> 0 \<le> k \<and> k < modulus w"

definition fits_s :: "IntWidth \<Rightarrow> int \<Rightarrow> bool" where
  "fits_s w k \<longleftrightarrow> - half w \<le> k \<and> k < half w"

lemma clamp_u_id: "fits_u w k \<Longrightarrow> clamp_u w k = k"
  and clamp_s_id: "fits_s w k \<Longrightarrow> clamp_s w k = k"
  by (simp_all add: fits_u_def clamp_u_def fits_s_def clamp_s_def)

lemma sv_SMax [simp]: "sv (SInt_SMaxValue w) = half w - 1"
  by (simp add: sv_def)

lemma sv_SMin [simp]: "sv (SInt_SMinValue w) = - half w"
  by (simp add: sv_def modulus_half)

lemma IsSMinValue_sv: "SInt_wf x \<Longrightarrow> SInt_IsSMinValue x \<longleftrightarrow> sv x = - half (width x)"
  using half_pos [of "width x"] uv_nonneg [of x]
  by (auto simp: IsSMinValue_iff sv_def modulus_half simp del: uint_ge_0)

lemma IsAllOnes_sv: "SInt_wf x \<Longrightarrow> SInt_IsAllOnes x \<longleftrightarrow> sv x = - 1"
  using half_ge [of "width x"] uv_nonneg [of x]
  by (auto simp: IsAllOnes_iff sv_def modulus_half)

lemma signed_of_fits: "fits_s w k \<longleftrightarrow> signed_of w k = k"
  using signed_of_bounds [of w k] by (auto simp: fits_s_def signed_of_id)

lemma signed_of_over: "half w \<le> k \<Longrightarrow> k < 3 * half w \<Longrightarrow> signed_of w k = k - modulus w"
  using mod_once_up [of k "modulus w"] half_pos [of w]
  by (auto simp: signed_of_def Let_def modulus_half)

lemma signed_of_under: "- (3 * half w) \<le> k \<Longrightarrow> k < - half w \<Longrightarrow> signed_of w k = k + modulus w"
proof -
  assume a: "- (3 * half w) \<le> k" "k < - half w"
  have "signed_of w k = signed_of w (k + modulus w)" by (rule signed_of_cong) simp
  also have "\<dots> = k + modulus w" using a by (intro signed_of_id) (simp_all add: modulus_half)
  finally show ?thesis .
qed

section \<open>Addition and subtraction\<close>

lemma UAddOvf_spec:
  assumes "SInt_wf x" "SInt_wf y" "width y = width x"
  shows "SInt_UAddOvf x y = (SInt_add x y, \<not> fits_u (width x) (uv x + uv y))"
  using assms mod_once_up [of "uv x + uv y" "modulus (width x)"] uv_nonneg [of x] uv_nonneg [of y]
  by (auto simp: SInt_UAddOvf_def ucmp_uv add_uv fits_u_def SInt_wf_def split: if_splits)

lemma USubOvf_spec:
  assumes "SInt_wf x" "SInt_wf y" "width y = width x"
  shows "SInt_USubOvf x y = (SInt_sub x y, \<not> fits_u (width x) (uv x - uv y))"
proof -
  have b: "0 \<le> uv x" "0 \<le> uv y" "uv x < modulus (width x)" "uv y < modulus (width x)"
    using assms uv_nonneg by (simp_all add: SInt_wf_def)
  have "(uv x - uv y) mod modulus (width x) =
      (if uv x - uv y < 0 then uv x - uv y + modulus (width x) else uv x - uv y)"
    using b by (intro mod_once_down) linarith+
  then show ?thesis using b
    by (auto simp: SInt_USubOvf_def ucmp_uv sub_uv fits_u_def)
qed

lemma SAddOvf_spec:
  assumes x: "SInt_wf x" and y: "SInt_wf y" and w: "width y = width x"
  shows "SInt_SAddOvf x y = (SInt_add x y, \<not> fits_s (width x) (sv x + sv y))"
proof -
  let ?k = "sv x + sv y" and ?w = "width x"
  have b: "- half ?w \<le> sv x" "sv x < half ?w" "- half ?w \<le> sv y" "sv y < half ?w"
    using sv_lo [of x] sv_hi [OF x] sv_lo [of y] sv_hi [OF y] w by simp_all
  consider "fits_s ?w ?k" | "half ?w \<le> ?k" | "?k < - half ?w"
    unfolding fits_s_def by linarith
  then have "sv (SInt_add x y) = (if fits_s ?w ?k then ?k
      else if half ?w \<le> ?k then ?k - modulus ?w else ?k + modulus ?w)"
  proof cases
    case 1
    then show ?thesis by (simp add: add_sv x y w signed_of_fits)
  next
    case 2
    then show ?thesis using signed_of_over [of ?w ?k] b
      by (simp add: add_sv x y w fits_s_def)
  next
    case 3
    then show ?thesis using signed_of_under [of ?w ?k] b
      by (simp add: add_sv x y w fits_s_def)
  qed
  then show ?thesis using b half_pos [of ?w] modulus_half [of ?w]
    by (auto simp: SInt_SAddOvf_def Let_def IsNonNeg_iff IsNeg_sv x y fits_s_def split: if_splits)
qed

lemma SSubOvf_spec:
  assumes x: "SInt_wf x" and y: "SInt_wf y" and w: "width y = width x"
  shows "SInt_SSubOvf x y = (SInt_sub x y, \<not> fits_s (width x) (sv x - sv y))"
proof -
  let ?k = "sv x - sv y" and ?w = "width x"
  have b: "- half ?w \<le> sv x" "sv x < half ?w" "- half ?w \<le> sv y" "sv y < half ?w"
    using sv_lo [of x] sv_hi [OF x] sv_lo [of y] sv_hi [OF y] w by simp_all
  consider "fits_s ?w ?k" | "half ?w \<le> ?k" | "?k < - half ?w"
    unfolding fits_s_def by linarith
  then have "sv (SInt_sub x y) = (if fits_s ?w ?k then ?k
      else if half ?w \<le> ?k then ?k - modulus ?w else ?k + modulus ?w)"
  proof cases
    case 1
    then show ?thesis by (simp add: sub_sv x y w signed_of_fits)
  next
    case 2
    then show ?thesis using signed_of_over [of ?w ?k] b
      by (simp add: sub_sv x y w fits_s_def)
  next
    case 3
    then show ?thesis using signed_of_under [of ?w ?k] b
      by (simp add: sub_sv x y w fits_s_def)
  qed
  then show ?thesis using b half_pos [of ?w] modulus_half [of ?w]
    by (auto simp: SInt_SSubOvf_def Let_def IsNonNeg_iff IsNeg_sv x y fits_s_def split: if_splits)
qed

lemma UAddSat_spec:
  assumes "SInt_wf x" "SInt_wf y" "width y = width x"
  shows "SInt_wf (SInt_UAddSat x y)" "width (SInt_UAddSat x y) = width x"
    "uv (SInt_UAddSat x y) = clamp_u (width x) (uv x + uv y)"
  using assms uv_nonneg [of x] uv_nonneg [of y]
  by (auto simp: SInt_UAddSat_def UAddOvf_spec fits_u_def clamp_u_def add_uv)

lemma USubSat_spec:
  assumes "SInt_wf x" "SInt_wf y" "width y = width x"
  shows "SInt_wf (SInt_USubSat x y)" "width (SInt_USubSat x y) = width x"
    "uv (SInt_USubSat x y) = clamp_u (width x) (uv x - uv y)"
  using assms uv_nonneg [of x] uv_nonneg [of y]
  by (auto simp: SInt_USubSat_def USubOvf_spec fits_u_def clamp_u_def sub_uv SInt_wf_def
)

lemma SAddSat_spec:
  assumes x: "SInt_wf x" and y: "SInt_wf y" and w: "width y = width x"
  shows "SInt_wf (SInt_SAddSat x y)" "width (SInt_SAddSat x y) = width x"
    "sv (SInt_SAddSat x y) = clamp_s (width x) (sv x + sv y)"
  using sv_lo [of x] sv_hi [OF x] sv_lo [of y] sv_hi [OF y] w
  by (auto simp: SInt_SAddSat_def SAddOvf_spec x y w fits_s_def clamp_s_def add_sv
      IsNeg_sv signed_of_id)

lemma SSubSat_spec:
  assumes x: "SInt_wf x" and y: "SInt_wf y" and w: "width y = width x"
  shows "SInt_wf (SInt_SSubSat x y)" "width (SInt_SSubSat x y) = width x"
    "sv (SInt_SSubSat x y) = clamp_s (width x) (sv x - sv y)"
  using sv_lo [of x] sv_hi [OF x] sv_lo [of y] sv_hi [OF y] w
  by (auto simp: SInt_SSubSat_def SSubOvf_spec x y w fits_s_def clamp_s_def sub_sv
      IsNeg_sv signed_of_id)

section \<open>Multiplication\<close>

lemma LShr_1: "SInt_LShr x (Suc 0) = Some (x\<lparr>val := drop_bit (Suc 0) (val x)\<rparr>)"
  using bw_bounds [of "width x"] by (simp add: SInt_LShr_def)

lemma shl_1:
  "SInt_shl_assign x (Suc 0) = Some (SInt_ClearUnusedBits (x\<lparr>val := val x * 2\<rparr>))"
  using bw_bounds [of "width x"] by (simp add: SInt_shl_assign_def)

lemma half_uv: "uv (x\<lparr>val := drop_bit (Suc 0) (val x)\<rparr>) = uv x div 2"
  using uint_drop_bit64 [of "Suc 0" "val x"] by (simp add: uv_def)

lemma double_uv:
  "uv (SInt_ClearUnusedBits (x\<lparr>val := val x * 2\<rparr>)) = (2 * uv x) mod modulus (width x)"
  by (simp add: ClearUnusedBits_uv) (simp add: uv_def uint_word64_arith mod64_mod mult.commute)

lemma index_0: "SInt_index x 0 \<longleftrightarrow> odd (uv x)"
proof -
  have "bit (uint (val x)) 0 = bit (val x) 0" by (simp add: bit_uint_iff)
  then show ?thesis unfolding index_bit uv_def by (simp add: bit_0)
qed

lemma leading_zeros_overflow:
  assumes "SInt_wf x" "SInt_wf y" "width y = width x"
    and "SInt_Clz x + SInt_Clz y + 2 \<le> bw (width x)"
  shows "modulus (width x) \<le> uv x * uv y"
proof -
  let ?n = "bw (width x)"
  have "2 ^ (?n - SInt_Clz x - 1) \<le> uv x"
    using SInt_Clz_ge [of x "?n - SInt_Clz x - 1"] assms by auto
  moreover have "2 ^ (?n - SInt_Clz y - 1) \<le> uv y"
    using SInt_Clz_ge [of y "?n - SInt_Clz y - 1"] assms by auto
  ultimately have "(2 :: int) ^ (?n - SInt_Clz x - 1) * 2 ^ (?n - SInt_Clz y - 1) \<le> uv x * uv y"
    by (intro mult_mono) (simp_all add: uv_nonneg)
  moreover have "(2 :: int) ^ ?n \<le> 2 ^ ((?n - SInt_Clz x - 1) + (?n - SInt_Clz y - 1))"
    using assms(4) by (intro power_increasing) auto
  ultimately show ?thesis by (simp add: modulus_def power_add)
qed

lemma leading_zeros_half:
  assumes x: "SInt_wf x" and y: "SInt_wf y" and w: "width y = width x"
    and c: "\<not> SInt_Clz x + SInt_Clz y + 2 \<le> bw (width x)"
  shows "uv x div 2 * uv y < modulus (width x)"
proof (cases "SInt_Clz x = bw (width x)")
  case True
  then have "uv x < 2 ^ 0" using SInt_Clz_ge [OF x, of 0] by simp
  then have "uv x = 0" using uv_nonneg [of x] by simp
  then show ?thesis by simp
next
  case False
  let ?n = "bw (width x)"
  have le: "SInt_Clz x < ?n" "SInt_Clz y \<le> ?n"
    using False SInt_Clz_le [OF x] SInt_Clz_le [OF y] w by auto
  have "uv x < 2 ^ (?n - SInt_Clz x)"
    using SInt_Clz_ge [OF x, of "?n - SInt_Clz x"] le by simp
  also have "(2 :: int) ^ (?n - SInt_Clz x) = 2 * 2 ^ (?n - SInt_Clz x - 1)"
    using le by (simp flip: power_Suc)
  finally have "uv x div 2 < 2 ^ (?n - SInt_Clz x - 1)" by simp
  moreover have "uv y < 2 ^ (?n - SInt_Clz y)"
    using SInt_Clz_ge [OF y, of "?n - SInt_Clz y"] le w by simp
  ultimately have "uv x div 2 * uv y < 2 ^ (?n - SInt_Clz x - 1) * 2 ^ (?n - SInt_Clz y)"
    using uv_nonneg [of x] uv_nonneg [of y] by (intro mult_strict_mono) (auto simp: pos_imp_zdiv_nonneg_iff)
  also have "\<dots> \<le> 2 ^ ?n"
    using c by (subst power_add [symmetric]) (auto intro!: power_increasing)
  finally show ?thesis by (simp add: modulus_def)
qed

lemma UMulOvf_spec:
  assumes x: "SInt_wf x" and y: "SInt_wf y" and w: "width y = width x"
  shows "SInt_UMulOvf x y = Some (SInt_mul x y, \<not> fits_u (width x) (uv x * uv y))"
proof (cases "SInt_Clz x + SInt_Clz y + 2 \<le> bw (width x)")
  case True
  then show ?thesis using leading_zeros_overflow [OF x y w]
    by (simp add: SInt_UMulOvf_def fits_u_def)
next
  case False
  let ?M = "modulus (width x)"
  define h where "h = uv x div 2"
  define p where "p = h * uv y"
  have p: "0 \<le> p" "p < ?M"
    using leading_zeros_half [OF x y w False] uv_nonneg [of x] uv_nonneg [of y]
    by (simp_all add: p_def h_def pos_imp_zdiv_nonneg_iff)
  define res where "res = SInt_mul (x\<lparr>val := drop_bit (Suc 0) (val x)\<rparr>) y"
  define res2 where "res2 = SInt_ClearUnusedBits (res\<lparr>val := val res * 2\<rparr>)"
  have res: "uv res = p" "width res = width x" "SInt_wf res"
    using p by (simp_all add: res_def mul_uv half_uv p_def h_def)
  have res2: "uv res2 = (2 * p) mod ?M" "width res2 = width x" "SInt_wf res2"
    using double_uv [of res] by (simp_all add: res2_def res)
  have code: "SInt_UMulOvf x y =
     (if odd (uv x) then
        Some (SInt_add res2 y, if SInt_Ult (SInt_add res2 y) y then True else SInt_IsNeg res)
      else Some (res2, SInt_IsNeg res))"
    unfolding SInt_UMulOvf_def if_not_P [OF False] One_nat_def LShr_1 index_0 shl_1
    by (simp add: Let_def shl_1 flip: res_def) (simp add: res2_def)
  have M: "?M = 2 * half (width x)" by (rule modulus_half)
  have yb: "0 \<le> uv y" "uv y < ?M" using y w uv_nonneg by (simp_all add: SInt_wf_def)
  show ?thesis
  proof (cases "odd (uv x)")
    case True
    then have X: "uv x = 2 * h + 1" unfolding h_def by (rule odd_two_times_div_two_succ [symmetric])
    have P: "uv x * uv y = 2 * p + uv y" unfolding X p_def by (simp add: algebra_simps)
    have "SInt_add res2 y = SInt_mul x y"
      by (rule SInt_ext) (simp_all add: add_uv mul_uv res2 P mod_simps)
    moreover have "(SInt_Ult (SInt_add res2 y) y \<or> SInt_IsNeg res) \<longleftrightarrow> ?M \<le> 2 * p + uv y"
      using p yb M mod_once_up [of "2 * p + uv y" ?M]
      by (auto simp: ucmp_uv add_uv res2 IsNeg_iff res mod_once_up not_less)
    ultimately show ?thesis using True p yb by (auto simp: code P fits_u_def)
  next
    case False
    then have X: "uv x = 2 * h" unfolding h_def by simp
    have P: "uv x * uv y = 2 * p" unfolding X p_def by simp
    have "res2 = SInt_mul x y"
      by (rule SInt_ext) (simp_all add: mul_uv res2 P)
    moreover have "SInt_IsNeg res \<longleftrightarrow> ?M \<le> 2 * p"
      by (auto simp: IsNeg_iff res M)
    ultimately show ?thesis using False p by (auto simp: code P fits_u_def)
  qed
qed

text \<open>The code finds a signed overflow by dividing the wrapped product by one factor.\<close>

lemma cong_close:
  fixes a b m :: int
  assumes "a mod m = b mod m" "\<bar>a - b\<bar> < m"
  shows "a = b"
proof -
  have "m dvd a - b" using assms(1) by (simp add: mod_eq_dvd_iff)
  then show ?thesis using assms(2) zdvd_not_zless [of "\<bar>a - b\<bar>" m] by fastforce
qed

lemma SMulOvf_division:
  assumes x: "- half w \<le> x" "x < half w" and y: "- half w \<le> y" "y < half w" "y \<noteq> 0"
    and no: "\<not> (x = - half w \<and> y = - 1)"
  shows "(signed_of w (x * y) sdiv y) mod modulus w = x mod modulus w \<longleftrightarrow> fits_s w (x * y)"
proof
  let ?r = "signed_of w (x * y)"
  assume eq: "(?r sdiv y) mod modulus w = x mod modulus w"
  have r: "- half w \<le> ?r" "?r < half w" by (rule signed_of_bounds)+
  have d: "- \<bar>?r\<bar> \<le> ?r sdiv y" "?r sdiv y \<le> \<bar>?r\<bar>"
    using sdiv_int_range [of ?r y] by simp_all
  have "?r sdiv y = x"
  proof (cases "?r sdiv y = half w \<and> x = - half w")
    case True
    then have "?r sdiv y = \<bar>?r\<bar>" "?r = - half w" using d r by linarith+
    then have "?r sdiv y = - ?r" using half_pos [of w] by linarith
    then have "y = - 1" using \<open>?r = - half w\<close> half_pos [of w]
      by (subst (asm) int_sdiv_negated_is_minus1) auto
    then show ?thesis using no True by simp
  next
    case False
    then have "\<bar>?r sdiv y - x\<bar> < modulus w"
      using d r x unfolding modulus_half by linarith
    then show ?thesis by (rule cong_close [OF eq])
  qed
  then have rem: "?r = x * y + ?r smod y"
    using sdiv_mult_smod_eq [of ?r y] by simp
  have smod_bound: "- \<bar>y\<bar> < ?r smod y" "?r smod y < \<bar>y\<bar>"
    using smod_int_range [OF y(3), of ?r] by simp_all
  have "\<bar>?r - x * y\<bar> < modulus w"
    using smod_bound rem y(1,2) unfolding modulus_half by linarith
  then have "?r = x * y" by (rule cong_close [OF signed_of_mod])
  then show "fits_s w (x * y)" by (simp add: signed_of_fits)
next
  assume "fits_s w (x * y)"
  then have "signed_of w (x * y) = x * y" by (simp add: signed_of_fits)
  moreover have "(x * y) smod y = 0" by (simp add: signed_modulo_int_def abs_mult)
  then have "((x * y) sdiv y) * y = x * y"
    using sdiv_mult_smod_eq [of "x * y" y] by simp
  then have "(x * y) sdiv y = x" using y(3) by simp
  ultimately show "(signed_of w (x * y) sdiv y) mod modulus w = x mod modulus w" by simp
qed

lemma SMulOvf_spec:
  assumes x: "SInt_wf x" and y: "SInt_wf y" and w: "width y = width x"
  shows "SInt_SMulOvf x y = Some (SInt_mul x y, \<not> fits_s (width x) (sv x * sv y))"
proof (cases "uv y = 0")
  case True
  then show ?thesis using half_ge [of "width x"] sv_zero_iff [OF y]
    by (simp add: SInt_SMulOvf_def SInt_ne_u_def SInt_GetZExtValue_def val_eq_iff fits_s_def)
next
  case False
  let ?w = "width x"
  obtain q where q: "SInt_SDiv (SInt_mul x y) y = Some q" "SInt_wf q" "width q = ?w"
    "uv q = (signed_of ?w (sv x * sv y) sdiv sv y) mod modulus ?w"
    using SDiv_Some [of "SInt_mul x y" y] False y w mul_sv [OF x y w] by (metis arith_wf(5) arith_width(5))
  have code: "SInt_SMulOvf x y =
      Some (SInt_mul x y, uv q \<noteq> uv x \<or> (sv x = - half ?w \<and> sv y = - 1))"
    using False q(1) w
    by (simp add: SInt_SMulOvf_def SInt_ne_u_def SInt_GetZExtValue_def val_eq_iff eq_iff_uv
      IsSMinValue_sv [OF x] IsAllOnes_sv [OF y])
  have b: "- half ?w \<le> sv x" "sv x < half ?w" "- half ?w \<le> sv y" "sv y < half ?w"
    using sv_lo [of x] sv_hi [OF x] sv_lo [of y] sv_hi [OF y] w by simp_all
  show ?thesis
  proof (cases "sv x = - half ?w \<and> sv y = - 1")
    case True
    then show ?thesis by (simp add: code fits_s_def)
  next
    case no: False
    have "sv y \<noteq> 0" using False y by (simp add: sv_zero_iff)
    then have "uv q = uv x \<longleftrightarrow> fits_s ?w (sv x * sv y)"
      using SMulOvf_division [OF b(1-4) _ no] q(4) sv_mod [OF x] by metis
    then show ?thesis using no by (auto simp: code)
  qed
qed

lemma UMulSat_spec:
  assumes "SInt_wf x" "SInt_wf y" "width y = width x"
  obtains r where "SInt_UMulSat x y = Some r" "SInt_wf r" "width r = width x"
    "uv r = clamp_u (width x) (uv x * uv y)"
proof -
  have "0 \<le> uv x * uv y" by (intro mult_nonneg_nonneg uv_nonneg)
  then show thesis
    using assms that [of "if fits_u (width x) (uv x * uv y) then SInt_mul x y else SInt_UMaxValue (width x)"]
    by (auto simp: SInt_UMulSat_def UMulOvf_spec fits_u_def clamp_u_def mul_uv)
qed

lemma SMulSat_spec:
  assumes x: "SInt_wf x" and y: "SInt_wf y" and w: "width y = width x"
  obtains r where "SInt_SMulSat x y = Some r" "SInt_wf r" "width r = width x"
    "sv r = clamp_s (width x) (sv x * sv y)"
proof -
  let ?k = "sv x * sv y" and ?w = "width x"
  have big: "?k < 0 \<longleftrightarrow> (sv x < 0) \<noteq> (sv y < 0)" if "\<not> fits_s ?w ?k"
  proof -
    have "?k \<noteq> 0" using that half_pos [of ?w] by (auto simp: fits_s_def)
    then show ?thesis by (auto simp: mult_less_0_iff not_less order_le_less)
  qed
  define r where "r = (if fits_s ?w ?k then SInt_mul x y
     else if SInt_IsNeg x \<noteq> SInt_IsNeg y then SInt_SMinValue ?w else SInt_SMaxValue ?w)"
  have "SInt_SMulSat x y = Some r"
    by (simp add: SInt_SMulSat_def SMulOvf_spec x y w r_def)
  moreover have "SInt_wf r" "width r = ?w" by (simp_all add: r_def)
  moreover have "sv r = clamp_s ?w ?k"
  proof (cases "fits_s ?w ?k")
    case True
    then show ?thesis by (simp add: r_def mul_sv x y w clamp_s_id) (simp add: signed_of_fits)
  next
    case False
    then consider "half ?w \<le> ?k" | "?k < - half ?w" unfolding fits_s_def by linarith
    then show ?thesis
    proof cases
      case 1
      then have "\<not> ?k < 0" "\<not> ?k < - half ?w" using half_pos [of ?w] by linarith+
      then show ?thesis using 1 False big by (simp add: r_def IsNeg_sv x y clamp_s_def)
    next
      case 2
      then have "?k < 0" using half_pos [of ?w] by linarith
      then show ?thesis using 2 False big by (simp add: r_def IsNeg_sv x y clamp_s_def)
    qed
  qed
  ultimately show thesis by (rule that)
qed

lemma sdiv_fits:
  assumes x: "SInt_wf x" and no: "\<not> (sv x = - half (width x) \<and> k = - 1)"
  shows "fits_s (width x) (sv x sdiv k)"
proof (cases "sv x = - half (width x) \<and> sv x sdiv k = half (width x)")
  case True
  then have "sv x sdiv k = - sv x" by linarith
  then have "k = - 1" using True half_pos [of "width x"]
    by (subst (asm) int_sdiv_negated_is_minus1) auto
  then show ?thesis using True no by simp
next
  case False
  moreover have "- \<bar>sv x\<bar> \<le> sv x sdiv k" "sv x sdiv k \<le> \<bar>sv x\<bar>"
    using sdiv_int_range [of "sv x" k] by simp_all
  ultimately show ?thesis using sv_lo [of x] sv_hi [OF x]
    unfolding fits_s_def by linarith
qed

lemma SDiv_sv:
  assumes x: "SInt_wf x" and y: "SInt_wf y" and w: "width y = width x" and nz: "sv y \<noteq> 0"
    and no: "\<not> (sv x = - half (width x) \<and> sv y = - 1)" and q: "SInt_SDiv x y = Some q"
  shows "SInt_wf q" "width q = width x" "sv q = sv x sdiv sv y"
proof -
  have "uv y \<noteq> 0" using nz sv_zero_iff [OF y] by simp
  then obtain "SInt_wf q" "width q = width x" "uv q = (sv x sdiv sv y) mod modulus (width x)"
    using SDiv_Some [OF x y w] q by (metis option.inject)
  then show "SInt_wf q" "width q = width x" "sv q = sv x sdiv sv y"
    using sv_signed_of [of q "sv x sdiv sv y"] sdiv_fits [OF x no] by (simp_all add: signed_of_fits)
qed

lemma SDivSat_spec:
  assumes x: "SInt_wf x" and y: "SInt_wf y" and w: "width y = width x" and nz: "uv y \<noteq> 0"
  obtains r where "SInt_SDivSat x y = Some r" "SInt_wf r" "width r = width x"
    "sv r = clamp_s (width x) (sv x sdiv sv y)"
proof (cases "sv y = - 1 \<and> sv x = - half (width x)")
  case True
  then show thesis using that [of "SInt_SMaxValue (width x)"] half_pos [of "width x"]
    by (simp add: SInt_SDivSat_def SVal_sv y IsSMinValue_sv x clamp_s_def)
next
  case False
  let ?w = "width x"
  obtain q where q: "SInt_SDiv x y = Some q" "SInt_wf q" "width q = ?w"
    "uv q = (sv x sdiv sv y) mod modulus ?w"
    using SDiv_Some [OF x y w nz] by metis
  have "fits_s ?w (sv x sdiv sv y)" using sdiv_fits [OF x] False by blast
  then have "sv q = clamp_s ?w (sv x sdiv sv y)"
    using q(3,4) sv_signed_of [of q "sv x sdiv sv y"] by (simp add: clamp_s_id) (simp add: signed_of_fits)
  then show thesis using that q False
    by (simp add: SInt_SDivSat_def SVal_sv y IsSMinValue_sv x)
qed

end
