(* ===== verification/Range_Sets.thy ===== *)
theory Range_Sets
  imports ConstantRange SInt_Overflow
begin

text \<open>
  The set a range stands for, read in the unsigned and in the signed order; the
  constructor's contract \<open>CR_wf\<close> (what the assertions of the constructors demand); the
  queries, the constructors, \<^verbatim>\<open>From\<close>, \<^verbatim>\<open>Inverse\<close> and \<^verbatim>\<open>Subtract\<close>.
\<close>

section \<open>Contract and meaning\<close>

definition CR_wf :: "ConstantRange \<Rightarrow> bool" where
  "CR_wf r \<longleftrightarrow> SInt_wf (lower r) \<and> SInt_wf (upper r) \<and> width (upper r) = width (lower r) \<and>
     (SInt_eq (lower r) (upper r) \<longrightarrow> SInt_IsUMaxValue (lower r) \<or> SInt_IsUMinValue (lower r))"

definition CR_gamma :: "ConstantRange \<Rightarrow> SInt set" where
  "CR_gamma r = {v. SInt_wf v \<and> width v = CR_Width r \<and> CR_Contains r v}"

text \<open>Membership of an interval read on a circle whose positions are compared as integers.\<close>

definition on_arc :: "int \<Rightarrow> int \<Rightarrow> int \<Rightarrow> bool" where
  "on_arc l u k \<longleftrightarrow> (if l < u then l \<le> k \<and> k < u else l \<le> k \<or> k < u)"

lemma CR_wfD:
  assumes "CR_wf r"
  shows "SInt_wf (lower r)" "SInt_wf (upper r)" "width (upper r) = CR_Width r"
    "width (lower r) = CR_Width r"
    "0 \<le> uv (lower r)" "uv (lower r) < modulus (CR_Width r)"
    "0 \<le> uv (upper r)" "uv (upper r) < modulus (CR_Width r)"
    "uv (lower r) = uv (upper r) \<Longrightarrow> uv (lower r) = 0 \<or> uv (lower r) = modulus (CR_Width r) - 1"
  using assms uv_nonneg
  by (auto simp: CR_wf_def CR_Width_def SInt_wf_def eq_iff_uv IsUMaxValue_iff IsUMinValue_iff)

lemma CR_wfI:
  "SInt_wf (lower r) \<Longrightarrow> SInt_wf (upper r) \<Longrightarrow> width (upper r) = width (lower r) \<Longrightarrow>
   (uv (lower r) = uv (upper r) \<Longrightarrow> uv (lower r) = 0 \<or> uv (lower r) = modulus (width (lower r)) - 1) \<Longrightarrow>
   CR_wf r"
  by (auto simp: CR_wf_def eq_iff_uv IsUMaxValue_iff IsUMinValue_iff)

lemma make_simps [simp]:
  "lower (CR_make l u) = l" "upper (CR_make l u) = u" "CR_Width (CR_make l u) = width l"
  by (simp_all add: CR_make_def CR_Width_def)

lemma single_simps [simp]:
  "lower (CR_single v) = v" "upper (CR_single v) = SInt_add_u v 1"
  "CR_Width (CR_single v) = width v"
  by (simp_all add: CR_single_def CR_Width_def)

lemma const_simps [simp]:
  "lower (CR_Full w) = SInt_UMaxValue w" "upper (CR_Full w) = SInt_UMaxValue w"
  "lower (CR_Empty w) = SInt_UMinValue w" "upper (CR_Empty w) = SInt_UMinValue w"
  "CR_Width (CR_Full w) = w" "CR_Width (CR_Empty w) = w"
  by (simp_all add: CR_Full_def CR_Empty_def CR_const_def CR_Width_def Let_def)

lemma IsFullSet_iff:
  "CR_IsFullSet r \<longleftrightarrow> uv (lower r) = uv (upper r) \<and> uv (lower r) = modulus (width (lower r)) - 1"
  by (simp add: CR_IsFullSet_def eq_iff_uv IsUMaxValue_iff)

lemma IsEmptySet_iff: "CR_IsEmptySet r \<longleftrightarrow> uv (lower r) = uv (upper r) \<and> uv (lower r) = 0"
  by (simp add: CR_IsEmptySet_def eq_iff_uv IsUMinValue_iff)

lemma IsUpperWrapped_iff: "CR_IsUpperWrapped r \<longleftrightarrow> uv (upper r) < uv (lower r)"
  by (simp add: CR_IsUpperWrapped_def ucmp_uv)

lemma IsWrappedSet_iff:
  "CR_IsWrappedSet r \<longleftrightarrow> uv (upper r) < uv (lower r) \<and> uv (upper r) \<noteq> 0"
  by (simp add: CR_IsWrappedSet_def ucmp_uv IsZero_iff)

lemma IsUpperSignWrapped_iff:
  "CR_wf r \<Longrightarrow> CR_IsUpperSignWrapped r \<longleftrightarrow> sv (upper r) < sv (lower r)"
  by (simp add: CR_IsUpperSignWrapped_def scmp_sv CR_wfD)

lemma IsSignWrappedSet_iff:
  "CR_wf r \<Longrightarrow> CR_IsSignWrappedSet r \<longleftrightarrow>
     sv (upper r) < sv (lower r) \<and> sv (upper r) \<noteq> - half (CR_Width r)"
  by (simp add: CR_IsSignWrappedSet_def scmp_sv CR_wfD IsSMinValue_sv)

lemma wf_cases:
  assumes "CR_wf r"
  obtains (full) "CR_IsFullSet r" "\<not> CR_IsEmptySet r"
  | (empty) "CR_IsEmptySet r" "\<not> CR_IsFullSet r"
  | (proper) "\<not> CR_IsFullSet r" "\<not> CR_IsEmptySet r" "uv (lower r) \<noteq> uv (upper r)"
  using CR_wfD(9) [OF assms] modulus_ge [of "width (lower r)"]
  by (fastforce simp: IsFullSet_iff IsEmptySet_iff CR_Width_def)

lemma Contains_iff:
  "CR_Contains r v \<longleftrightarrow> CR_IsFullSet r \<or> (uv (lower r) \<noteq> uv (upper r) \<and>
     on_arc (uv (lower r)) (uv (upper r)) (uv v))"
  by (auto simp: CR_Contains_def eq_iff_uv IsUpperWrapped_iff ucmp_uv IsFullSet_iff on_arc_def)

lemma mem_iff:
  "v \<in> CR_gamma r \<longleftrightarrow> SInt_wf v \<and> width v = CR_Width r \<and>
     (CR_IsFullSet r \<or> (uv (lower r) \<noteq> uv (upper r) \<and>
       on_arc (uv (lower r)) (uv (upper r)) (uv v)))"
  by (simp add: CR_gamma_def Contains_iff)

lemma sv_neq_iff:
  "SInt_wf x \<Longrightarrow> SInt_wf y \<Longrightarrow> width x = width y \<Longrightarrow> sv x = sv y \<longleftrightarrow> uv x = uv y"
  using sv_inj SInt_ext by blast

text \<open>A proper interval reads the same in the signed order.\<close>

lemma on_arc_signed:
  assumes "SInt_wf l" "SInt_wf u" "SInt_wf v" "width u = width l" "width v = width l"
    "uv l \<noteq> uv u"
  shows "on_arc (uv l) (uv u) (uv v) \<longleftrightarrow> on_arc (sv l) (sv u) (sv v)"
  using uv_nonneg [of l] uv_nonneg [of u] uv_nonneg [of v] assms
    modulus_half [of "width l"] half_pos [of "width l"]
  unfolding on_arc_def sv_def SInt_wf_def by (auto split: if_splits)

lemma mem_signed_iff:
  assumes "CR_wf r"
  shows "v \<in> CR_gamma r \<longleftrightarrow> SInt_wf v \<and> width v = CR_Width r \<and>
     (CR_IsFullSet r \<or> (sv (lower r) \<noteq> sv (upper r) \<and>
       on_arc (sv (lower r)) (sv (upper r)) (sv v)))"
  using CR_wfD [OF assms] on_arc_signed [of "lower r" "upper r" v]
    sv_neq_iff [of "lower r" "upper r"]
  by (auto simp: mem_iff)

lemma gamma_width: "v \<in> CR_gamma r \<Longrightarrow> width v = CR_Width r"
  and gamma_wf: "v \<in> CR_gamma r \<Longrightarrow> SInt_wf v"
  by (simp_all add: CR_gamma_def)

lemma gamma_bounds: "v \<in> CR_gamma r \<Longrightarrow> 0 \<le> uv v \<and> uv v < modulus (CR_Width r)"
  using uv_nonneg [of v] by (auto simp: CR_gamma_def SInt_wf_def)

lemma gamma_sbounds:
  "v \<in> CR_gamma r \<Longrightarrow> - half (CR_Width r) \<le> sv v \<and> sv v < half (CR_Width r)"
  using sv_lo [of v] sv_hi [of v] by (auto simp: CR_gamma_def)

section \<open>Constants\<close>

lemma Full_wf [simp]: "CR_wf (CR_Full w)" and Empty_wf [simp]: "CR_wf (CR_Empty w)"
  by (simp_all add: CR_wfI)

lemma IsFullSet_const [simp]: "CR_IsFullSet (CR_Full w)" "\<not> CR_IsFullSet (CR_Empty w)"
  "CR_IsEmptySet (CR_Empty w)" "\<not> CR_IsEmptySet (CR_Full w)"
  using modulus_ge [of w] by (simp_all add: IsFullSet_iff IsEmptySet_iff)

lemma mem_Full [simp]: "v \<in> CR_gamma (CR_Full w) \<longleftrightarrow> SInt_wf v \<and> width v = w"
  and mem_Empty [simp]: "v \<notin> CR_gamma (CR_Empty w)"
  by (simp_all add: mem_iff)

lemma mem_FullSet: "CR_IsFullSet r \<Longrightarrow> v \<in> CR_gamma r \<longleftrightarrow> SInt_wf v \<and> width v = CR_Width r"
  by (simp add: mem_iff)

lemma mem_EmptySet: "CR_IsEmptySet r \<Longrightarrow> v \<notin> CR_gamma r"
  using modulus_ge [of "width (lower r)"] by (auto simp: mem_iff IsEmptySet_iff IsFullSet_iff)

lemma mem_make:
  "uv l \<noteq> uv u \<Longrightarrow>
   v \<in> CR_gamma (CR_make l u) \<longleftrightarrow> SInt_wf v \<and> width v = width l \<and> on_arc (uv l) (uv u) (uv v)"
  by (simp add: mem_iff IsFullSet_iff)

lemma mem_make_signed:
  assumes "SInt_wf l" "SInt_wf u" "width u = width l" "sv l \<noteq> sv u"
  shows "v \<in> CR_gamma (CR_make l u) \<longleftrightarrow> SInt_wf v \<and> width v = width l \<and> on_arc (sv l) (sv u) (sv v)"
proof -
  have "uv l \<noteq> uv u" using assms sv_neq_iff [of l u] by auto
  then show ?thesis using assms on_arc_signed [of l u v] by (auto simp: mem_make)
qed

lemma make_CR_wf:
  "SInt_wf l \<Longrightarrow> SInt_wf u \<Longrightarrow> width u = width l \<Longrightarrow> uv l \<noteq> uv u \<Longrightarrow> CR_wf (CR_make l u)"
  by (rule CR_wfI) simp_all

lemma make_CR_wf_signed:
  "SInt_wf l \<Longrightarrow> SInt_wf u \<Longrightarrow> width u = width l \<Longrightarrow> sv l \<noteq> sv u \<Longrightarrow> CR_wf (CR_make l u)"
  by (rule CR_wfI) (auto dest: SInt_ext)

text \<open>A value plus one, in both readings.\<close>

lemma add1_uv: "SInt_wf x \<Longrightarrow> uv (SInt_add_u x 1) = (if uv x = modulus (width x) - 1 then 0 else uv x + 1)"
  using uv_nonneg [of x] mod_once_up [of "uv x + 1" "modulus (width x)"] modulus_ge [of "width x"]
  by (auto simp: add_u_uv SInt_wf_def)

lemma sub1_uv: "SInt_wf x \<Longrightarrow> uv (SInt_sub_u x 1) = (if uv x = 0 then modulus (width x) - 1 else uv x - 1)"
  using uv_nonneg [of x] mod_once_down [of "modulus (width x)" "uv x - 1"] modulus_ge [of "width x"]
  by (auto simp: sub_u_uv SInt_wf_def)

lemma add1_sv: "SInt_wf x \<Longrightarrow> sv (SInt_add_u x 1) =
   (if sv x = half (width x) - 1 then - half (width x) else sv x + 1)"
  using uv_nonneg [of x] half_ge [of "width x"]
  by (auto simp: sv_def add1_uv SInt_wf_def modulus_half)

lemma sub1_sv: "SInt_wf x \<Longrightarrow> sv (SInt_sub_u x 1) =
   (if sv x = - half (width x) then half (width x) - 1 else sv x - 1)"
  using uv_nonneg [of x] half_ge [of "width x"]
  by (auto simp: sv_def sub1_uv SInt_wf_def modulus_half)

lemma single_wf: "SInt_wf v \<Longrightarrow> CR_wf (CR_single v)"
  using modulus_ge [of "width v"] by (intro CR_wfI) (auto simp: add1_uv)

lemma mem_single: "SInt_wf v \<Longrightarrow> x \<in> CR_gamma (CR_single v) \<longleftrightarrow> x = v"
proof -
  assume v: "SInt_wf v"
  have "x = v \<longleftrightarrow> SInt_wf x \<and> width x = width v \<and> uv x = uv v"
    using SInt_ext [of x v] v by auto
  then show ?thesis
    using v uv_nonneg [of x] uv_nonneg [of v] modulus_ge [of "width v"]
    by (auto simp: mem_iff IsFullSet_iff add1_uv on_arc_def SInt_wf_def)
qed

lemma NonEmpty_simps [simp]: "CR_Width (CR_NonEmpty l u) = width l"
  by (simp add: CR_NonEmpty_def)

lemma NonEmpty_wf: "SInt_wf l \<Longrightarrow> SInt_wf u \<Longrightarrow> width u = width l \<Longrightarrow> CR_wf (CR_NonEmpty l u)"
  by (simp add: CR_NonEmpty_def eq_iff_uv make_CR_wf)

text \<open>\<open>NonEmpty l (h + 1)\<close> contains everything between \<open>l\<close> and \<open>h\<close>, in either order.\<close>

lemma mem_NonEmpty_unsigned:
  assumes "SInt_wf l" "SInt_wf h" "width h = width l" "SInt_wf v" "width v = width l"
    "uv l \<le> uv v" "uv v \<le> uv h"
  shows "v \<in> CR_gamma (CR_NonEmpty l (SInt_add_u h 1))"
  using assms uv_nonneg [of v] uv_nonneg [of l]
  by (auto simp: CR_NonEmpty_def eq_iff_uv add1_uv mem_make on_arc_def SInt_wf_def)

lemma mem_NonEmpty_signed:
  assumes "SInt_wf l" "SInt_wf h" "width h = width l" "SInt_wf v" "width v = width l"
    "sv l \<le> sv v" "sv v \<le> sv h"
  shows "v \<in> CR_gamma (CR_NonEmpty l (SInt_add_u h 1))"
proof (cases "uv l = uv (SInt_add_u h 1)")
  case True
  then show ?thesis using assms by (simp add: CR_NonEmpty_def eq_iff_uv)
next
  case False
  then have "sv l \<noteq> sv (SInt_add_u h 1)"
    using assms sv_neq_iff [of l "SInt_add_u h 1"] by auto
  then show ?thesis using False assms sv_lo [of v] sv_hi [of v] sv_hi [of h] sv_lo [of l]
    by (auto simp: CR_NonEmpty_def eq_iff_uv mem_make_signed on_arc_def add1_sv)
qed

section \<open>Least and greatest elements\<close>

lemma minmax_simps [simp]:
  assumes "CR_wf r"
  shows "SInt_wf (CR_UMaxValue r)" "width (CR_UMaxValue r) = CR_Width r"
    "SInt_wf (CR_UMinValue r)" "width (CR_UMinValue r) = CR_Width r"
    "SInt_wf (CR_SMaxValue r)" "width (CR_SMaxValue r) = CR_Width r"
    "SInt_wf (CR_SMinValue r)" "width (CR_SMinValue r) = CR_Width r"
  using CR_wfD [OF assms]
  by (simp_all add: CR_UMaxValue_def CR_UMinValue_def CR_SMaxValue_def CR_SMinValue_def
      CR_Lower_def CR_Upper_def)

lemma UMaxMin_bounds:
  assumes r: "CR_wf r" and v: "v \<in> CR_gamma r"
  shows "uv v \<le> uv (CR_UMaxValue r)" "uv (CR_UMinValue r) \<le> uv v"
proof -
  have d: "SInt_wf v" "width v = CR_Width r" "0 \<le> uv v" "uv v < modulus (CR_Width r)"
    using v gamma_bounds [OF v] by (auto simp: CR_gamma_def)
  show "uv v \<le> uv (CR_UMaxValue r)"
    using v d CR_wfD [OF r]
    by (auto simp: mem_iff CR_UMaxValue_def CR_Upper_def IsUpperWrapped_iff sub1_uv on_arc_def)
  show "uv (CR_UMinValue r) \<le> uv v"
    using v d CR_wfD [OF r]
    by (auto simp: mem_iff CR_UMinValue_def CR_Lower_def IsWrappedSet_iff on_arc_def)
qed

lemma SMaxMin_bounds:
  assumes r: "CR_wf r" and v: "v \<in> CR_gamma r"
  shows "sv v \<le> sv (CR_SMaxValue r)" "sv (CR_SMinValue r) \<le> sv v"
proof -
  have d: "SInt_wf v" "width v = CR_Width r" "- half (CR_Width r) \<le> sv v" "sv v < half (CR_Width r)"
    using v gamma_sbounds [OF v] by (auto simp: CR_gamma_def)
  show "sv v \<le> sv (CR_SMaxValue r)"
    using v d CR_wfD [OF r] sv_lo [of "lower r"]
    by (auto simp: mem_signed_iff [OF r] CR_SMaxValue_def CR_Upper_def IsUpperSignWrapped_iff [OF r]
      sub1_sv on_arc_def)
  show "sv (CR_SMinValue r) \<le> sv v"
    using v d CR_wfD [OF r] sv_lo [of "lower r"]
    by (auto simp: mem_signed_iff [OF r] CR_SMinValue_def CR_Lower_def IsSignWrappedSet_iff [OF r]
      on_arc_def split: if_splits)
qed

lemma UMaxMin_mem:
  assumes r: "CR_wf r" and ne: "\<not> CR_IsEmptySet r"
  shows "CR_UMaxValue r \<in> CR_gamma r" "CR_UMinValue r \<in> CR_gamma r"
proof -
  note d = CR_wfD [OF r] minmax_simps [OF r]
  show "CR_UMaxValue r \<in> CR_gamma r"
    using r
  proof (cases rule: wf_cases)
    case proper
    then show ?thesis using d
      by (auto simp: mem_iff CR_UMaxValue_def CR_Upper_def IsUpperWrapped_iff sub1_uv on_arc_def)
  qed (use ne d in \<open>simp_all add: mem_iff\<close>)
  show "CR_UMinValue r \<in> CR_gamma r"
    using r
  proof (cases rule: wf_cases)
    case proper
    then show ?thesis using d
      by (auto simp: mem_iff CR_UMinValue_def CR_Lower_def IsWrappedSet_iff on_arc_def)
  qed (use ne d in \<open>simp_all add: mem_iff\<close>)
qed

lemma SMaxMin_mem:
  assumes r: "CR_wf r" and ne: "\<not> CR_IsEmptySet r"
  shows "CR_SMaxValue r \<in> CR_gamma r" "CR_SMinValue r \<in> CR_gamma r"
proof -
  note d = CR_wfD [OF r] minmax_simps [OF r]
  have b: "- half (CR_Width r) \<le> sv (lower r)" "sv (lower r) < half (CR_Width r)"
    "- half (CR_Width r) \<le> sv (upper r)" "sv (upper r) < half (CR_Width r)"
    using sv_lo [of "lower r"] sv_hi [OF d(1)] sv_lo [of "upper r"] sv_hi [OF d(2)] d(3,4) by simp_all
  show "CR_SMaxValue r \<in> CR_gamma r"
    using r
  proof (cases rule: wf_cases)
    case proper
    then have "sv (lower r) \<noteq> sv (upper r)" using d sv_neq_iff [of "lower r" "upper r"] by simp
    then show ?thesis using d proper b
      by (auto simp: mem_signed_iff [OF r] CR_SMaxValue_def CR_Upper_def IsUpperSignWrapped_iff [OF r]
        sub1_sv on_arc_def)
  qed (use ne d in \<open>simp_all add: mem_iff\<close>)
  show "CR_SMinValue r \<in> CR_gamma r"
    using r
  proof (cases rule: wf_cases)
    case proper
    then have "sv (lower r) \<noteq> sv (upper r)" using d sv_neq_iff [of "lower r" "upper r"] by simp
    then show ?thesis using d proper b
      by (auto simp: mem_signed_iff [OF r] CR_SMinValue_def CR_Lower_def IsSignWrappedSet_iff [OF r]
        on_arc_def)
  qed (use ne d in \<open>simp_all add: mem_iff\<close>)
qed

section \<open>Building a range from a relation\<close>

definition rd :: "bool \<Rightarrow> SInt \<Rightarrow> int" where
  "rd isSigned x = (if isSigned then sv x else uv x)"

fun rel_holds :: "RelationalOperation \<Rightarrow> int \<Rightarrow> int \<Rightarrow> bool" where
  "rel_holds LT a b \<longleftrightarrow> a < b"
| "rel_holds LE a b \<longleftrightarrow> a \<le> b"
| "rel_holds EQ a b \<longleftrightarrow> a = b"
| "rel_holds GT a b \<longleftrightarrow> a > b"
| "rel_holds GE a b \<longleftrightarrow> a \<ge> b"
| "rel_holds NE a b \<longleftrightarrow> a \<noteq> b"

lemma IsSMaxValue_sv: "SInt_wf x \<Longrightarrow> SInt_IsSMaxValue x \<longleftrightarrow> sv x = half (width x) - 1"
  using half_pos [of "width x"] uv_nonneg [of x]
  by (auto simp: IsSMaxValue_iff sv_def modulus_half SInt_wf_def)

lemma From_width [simp]: "CR_Width (CR_From rel v s) = width v"
  by (cases rel) (simp_all add: CR_From_def Let_def)

lemma From_unsigned:
  assumes v: "SInt_wf v"
  shows "CR_wf (CR_From rel v False) \<and> (x \<in> CR_gamma (CR_From rel v False) \<longleftrightarrow>
    SInt_wf x \<and> width x = width v \<and> rel_holds rel (uv x) (uv v))"
proof -
  have b: "0 \<le> uv v" "uv v < modulus (width v)"
    using v uv_nonneg by (simp_all add: SInt_wf_def)
  have x: "0 \<le> uv x" "SInt_wf x \<Longrightarrow> width x = width v \<Longrightarrow> uv x < modulus (width v)"
    using uv_nonneg by (simp_all add: SInt_wf_def)
  have eq: "x = v \<longleftrightarrow> SInt_wf x \<and> width x = width v \<and> uv x = uv v"
    using SInt_ext [of x v] v by auto
  show ?thesis
    using b x v modulus_ge [of "width v"]
    by (cases rel)
      (auto simp: CR_From_def Let_def IsUMinValue_iff IsUMaxValue_iff add1_uv mem_make on_arc_def
        mem_single eq single_wf make_CR_wf)
qed

lemma From_signed:
  assumes v: "SInt_wf v"
  shows "CR_wf (CR_From rel v True) \<and> (x \<in> CR_gamma (CR_From rel v True) \<longleftrightarrow>
    SInt_wf x \<and> width x = width v \<and> rel_holds rel (sv x) (sv v))"
proof -
  have b: "- half (width v) \<le> sv v" "sv v < half (width v)"
    using v sv_lo [of v] sv_hi [of v] by auto
  have x: "SInt_wf x \<Longrightarrow> width x = width v \<Longrightarrow> - half (width v) \<le> sv x \<and> sv x < half (width v)"
    using sv_lo [of x] sv_hi [of x] by auto
  have eq: "x = v \<longleftrightarrow> SInt_wf x \<and> width x = width v \<and> sv x = sv v"
    using sv_inj [of x v] v by auto
  have m: "sv (SInt_add_u (SInt_SMaxValue (width v)) 1) = - half (width v)"
    by (simp add: add1_sv)
  show ?thesis
    using b x v half_ge [of "width v"]
    by (cases rel)
      (auto simp: CR_From_def Let_def IsSMinValue_sv IsSMaxValue_sv add1_sv m mem_make_signed
        on_arc_def mem_single eq single_wf make_CR_wf_signed)
qed

lemma From_wf: "SInt_wf v \<Longrightarrow> CR_wf (CR_From rel v s)"
  using From_unsigned [of v rel] From_signed [of v rel] by (cases s) auto

lemma mem_From:
  "SInt_wf v \<Longrightarrow> x \<in> CR_gamma (CR_From rel v s) \<longleftrightarrow>
    SInt_wf x \<and> width x = width v \<and> rel_holds rel (rd s x) (rd s v)"
  using From_unsigned [of v rel x] From_signed [of v rel x] by (cases s) (auto simp: rd_def)

section \<open>Complement and translation\<close>

lemma Inverse_wf: "CR_wf r \<Longrightarrow> CR_wf (CR_Inverse r)" and
  Inverse_width [simp]: "CR_wf r \<Longrightarrow> CR_Width (CR_Inverse r) = CR_Width r"
proof -
  assume r: "CR_wf r"
  from r show "CR_wf (CR_Inverse r)"
    using CR_wfD [OF r] by (cases rule: wf_cases) (auto simp: CR_Inverse_def intro!: make_CR_wf)
  from r show "CR_Width (CR_Inverse r) = CR_Width r"
    by (simp add: CR_Inverse_def CR_wfD)
qed

lemma mem_Inverse:
  assumes r: "CR_wf r"
  shows "v \<in> CR_gamma (CR_Inverse r) \<longleftrightarrow> SInt_wf v \<and> width v = CR_Width r \<and> v \<notin> CR_gamma r"
  using r
proof (cases rule: wf_cases)
  case proper
  then show ?thesis using CR_wfD [OF r]
    by (auto simp: CR_Inverse_def mem_make mem_iff [of v r] on_arc_def)
next
  case empty
  then show ?thesis by (auto simp: CR_Inverse_def mem_EmptySet)
qed (auto simp: CR_Inverse_def mem_FullSet)

text \<open>A proper interval as the residues fewer than its length away from its lower bound.\<close>

lemma on_arc_offset:
  fixes l u k m :: int
  assumes "0 \<le> l" "l < m" "0 \<le> u" "u < m" "0 \<le> k" "k < m" "l \<noteq> u"
  shows "on_arc l u k \<longleftrightarrow> (k - l) mod m < (u - l) mod m"
proof -
  have "(k - l) mod m = (if k - l < 0 then k - l + m else k - l)"
    "(u - l) mod m = (if u - l < 0 then u - l + m else u - l)"
    using assms by (intro mod_once_down; linarith)+
  then show ?thesis using assms by (auto simp: on_arc_def)
qed

lemma mem_offset:
  assumes r: "CR_wf r" and p: "uv (lower r) \<noteq> uv (upper r)" and v: "SInt_wf v" "width v = CR_Width r"
  shows "v \<in> CR_gamma r \<longleftrightarrow>
    (uv v - uv (lower r)) mod modulus (CR_Width r) <
    (uv (upper r) - uv (lower r)) mod modulus (CR_Width r)"
  using on_arc_offset [of "uv (lower r)" "modulus (CR_Width r)" "uv (upper r)" "uv v"]
    CR_wfD [OF r] p v uv_nonneg [of v]
  by (auto simp: mem_iff IsFullSet_iff SInt_wf_def)

lemma mod_diff_shift:
  fixes a b c m :: int
  shows "((a - c) mod m - (b - c) mod m) mod m = (a - b) mod m"
  by (simp add: mod_diff_eq)

lemma Subtract_wf: "CR_wf r \<Longrightarrow> CR_wf (CR_Subtract r c)" and
  Subtract_width [simp]: "CR_Width (CR_Subtract r c) = CR_Width r"
proof -
  assume r: "CR_wf r"
  have "uv (SInt_sub (lower r) c) \<noteq> uv (SInt_sub (upper r) c)" if "uv (lower r) \<noteq> uv (upper r)"
  proof
    assume "uv (SInt_sub (lower r) c) = uv (SInt_sub (upper r) c)"
    then have "(uv (lower r) - uv c) mod modulus (CR_Width r) = (uv (upper r) - uv c) mod modulus (CR_Width r)"
      using CR_wfD [OF r] by (simp add: sub_uv)
    then have "uv (lower r) mod modulus (CR_Width r) = uv (upper r) mod modulus (CR_Width r)"
      by (simp add: mod_eq_dvd_iff)
    then show False using that CR_wfD [OF r] by simp
  qed
  then show "CR_wf (CR_Subtract r c)"
    using r CR_wfD [OF r] by (simp add: CR_Subtract_def eq_iff_uv make_CR_wf)
qed (simp add: CR_Subtract_def CR_Width_def)

lemma mem_Subtract:
  assumes r: "CR_wf r" and c: "SInt_wf c" "width c = CR_Width r"
    and v: "SInt_wf v" "width v = CR_Width r"
  shows "SInt_sub v c \<in> CR_gamma (CR_Subtract r c) \<longleftrightarrow> v \<in> CR_gamma r"
proof (cases "uv (lower r) = uv (upper r)")
  case True
  then show ?thesis using v by (simp add: CR_Subtract_def eq_iff_uv mem_iff)
next
  case False
  let ?s = "CR_Subtract r c" and ?m = "modulus (CR_Width r)"
  have s: "?s = CR_make (SInt_sub (lower r) c) (SInt_sub (upper r) c)"
    using False by (simp add: CR_Subtract_def eq_iff_uv)
  note d = CR_wfD [OF r]
  have ne: "uv (lower ?s) \<noteq> uv (upper ?s)"
  proof
    assume "uv (lower ?s) = uv (upper ?s)"
    then have "(uv (lower r) - uv c) mod ?m = (uv (upper r) - uv c) mod ?m"
      using d by (simp add: s sub_uv)
    then have "uv (lower r) mod ?m = uv (upper r) mod ?m" by (simp add: mod_eq_dvd_iff)
    then show False using False d by simp
  qed
  have "SInt_sub v c \<in> CR_gamma ?s \<longleftrightarrow>
     ((uv v - uv c) mod ?m - (uv (lower r) - uv c) mod ?m) mod ?m <
     ((uv (upper r) - uv c) mod ?m - (uv (lower r) - uv c) mod ?m) mod ?m"
    using mem_offset [OF Subtract_wf [OF r] ne, of "SInt_sub v c"] v d
    by (simp add: s sub_uv)
  also have "\<dots> \<longleftrightarrow> (uv v - uv (lower r)) mod ?m < (uv (upper r) - uv (lower r)) mod ?m"
    by (simp only: mod_diff_shift)
  also have "\<dots> \<longleftrightarrow> v \<in> CR_gamma r"
    by (rule mem_offset [OF r False v, symmetric])
  finally show ?thesis .
qed

section \<open>Single elements\<close>

lemma IsSingleElement_iff:
  assumes r: "CR_wf r"
  shows "CR_IsSingleElement r \<longleftrightarrow> CR_gamma r = {CR_GetSingleElement r}"
proof
  note d = CR_wfD [OF r]
  assume "CR_IsSingleElement r"
  then have "uv (upper r) = uv (SInt_add_u (lower r) 1)" by (simp add: CR_IsSingleElement_def eq_iff_uv)
  then have "upper r = SInt_add_u (lower r) 1" using d by (intro SInt_ext) simp_all
  then have "r = CR_single (lower r)" by (simp add: CR_single_def)
  then have "x \<in> CR_gamma r \<longleftrightarrow> x = lower r" for x using mem_single [OF d(1)] by metis
  then show "CR_gamma r = {CR_GetSingleElement r}" by (auto simp: CR_GetSingleElement_def)
next
  note d = CR_wfD [OF r]
  assume g: "CR_gamma r = {CR_GetSingleElement r}"
  have ne: "uv (lower r) \<noteq> uv (upper r)"
  proof
    assume eq: "uv (lower r) = uv (upper r)"
    have "CR_IsFullSet r" using g eq by (auto simp: mem_iff)
    then have "SInt_Zero (CR_Width r) \<in> CR_gamma r" "SInt_UMaxValue (CR_Width r) \<in> CR_gamma r"
      by (simp_all add: mem_iff)
    then have "SInt_Zero (CR_Width r) = SInt_UMaxValue (CR_Width r)" using g by auto
    then have "uv (SInt_Zero (CR_Width r)) = uv (SInt_UMaxValue (CR_Width r))" by simp
    then show False using modulus_ge [of "CR_Width r"] by simp
  qed
  show "CR_IsSingleElement r"
  proof (rule ccontr)
    assume "\<not> CR_IsSingleElement r"
    then have "uv (upper r) \<noteq> uv (SInt_add_u (lower r) 1)"
      by (simp add: CR_IsSingleElement_def eq_iff_uv)
    then have "SInt_add_u (lower r) 1 \<in> CR_gamma r"
      using ne d by (auto simp: mem_iff add1_uv on_arc_def split: if_splits)
    then have "uv (SInt_add_u (lower r) 1) = uv (lower r)"
      using g by (simp add: CR_GetSingleElement_def)
    then show False using d modulus_ge [of "CR_Width r"] by (simp add: add1_uv split: if_splits)
  qed
qed

lemma SingleElement_mem:
  assumes "CR_wf r" "CR_IsSingleElement r" "v \<in> CR_gamma r"
  shows "v = CR_GetSingleElement r"
  using assms IsSingleElement_iff by auto

lemma gamma_empty_iff: "CR_wf r \<Longrightarrow> CR_gamma r = {} \<longleftrightarrow> CR_IsEmptySet r"
  using UMaxMin_mem [of r] mem_EmptySet [of r] by blast

lemma gamma_full_iff:
  assumes r: "CR_wf r"
  shows "CR_gamma r = {v. SInt_wf v \<and> width v = CR_Width r} \<longleftrightarrow> CR_IsFullSet r"
proof
  assume g: "CR_gamma r = {v. SInt_wf v \<and> width v = CR_Width r}"
  note d = CR_wfD [OF r]
  show "CR_IsFullSet r" using r
  proof (cases rule: wf_cases)
    case proper
    then have "upper r \<notin> CR_gamma r" by (auto simp: mem_iff on_arc_def)
    then show ?thesis using g d by simp
  next
    case empty
    then have "CR_gamma r = {}" using gamma_empty_iff [OF r] by simp
    moreover have "SInt_Zero (CR_Width r) \<in> CR_gamma r" unfolding g by simp
    ultimately show ?thesis by simp
  qed
qed (auto simp: mem_iff)

end
