(* ===== verification/Range_Lattice.thy ===== *)
theory Range_Lattice
  imports Range_Sets
begin

text \<open>
  Intersection and union of wrapping intervals: both keep the contract; the intersection
  contains every common element, is one of the operands or exact, and is empty exactly when
  the operands are disjoint; the union contains both operands.
\<close>

section \<open>Preference\<close>

lemma GetPreferredRange_cases:
  obtains "GetPreferredRange a b t = a" | "GetPreferredRange a b t = b"
proof -
  have "GetPreferredRange a b t = a \<or> GetPreferredRange a b t = b"
    by (simp add: GetPreferredRange_def)
  then show thesis using that by blast
qed

lemma GetPreferredRange_wf: "CR_wf a \<Longrightarrow> CR_wf b \<Longrightarrow> CR_wf (GetPreferredRange a b t)"
  by (rule GetPreferredRange_cases [of a b t]) simp_all

lemma GetPreferredRange_width:
  "CR_Width a = w \<Longrightarrow> CR_Width b = w \<Longrightarrow> CR_Width (GetPreferredRange a b t) = w"
  by (rule GetPreferredRange_cases [of a b t]) simp_all

section \<open>Intersection\<close>

text \<open>What every branch of the intersection establishes: the contract, and a result that
  is exact unless the operands overlap at both ends, in which case it is the preferred one of
  them.\<close>

definition overlap_twice :: "ConstantRange \<Rightarrow> ConstantRange \<Rightarrow> bool" where
  "overlap_twice a b \<longleftrightarrow> lower a \<in> CR_gamma b \<and> lower b \<in> CR_gamma a \<and>
     (\<forall>v. SInt_wf v \<longrightarrow> width v = CR_Width a \<longrightarrow> v \<in> CR_gamma a \<or> v \<in> CR_gamma b)"

definition meets ::
  "PreferredRangeType \<Rightarrow> ConstantRange \<Rightarrow> ConstantRange \<Rightarrow> ConstantRange \<Rightarrow> bool" where
  "meets t a b r \<longleftrightarrow> CR_wf r \<and> CR_Width r = CR_Width a \<and> CR_gamma a \<inter> CR_gamma b \<subseteq> CR_gamma r \<and>
     (CR_gamma r = CR_gamma a \<inter> CR_gamma b \<or>
      (r = GetPreferredRange a b t \<or> r = GetPreferredRange b a t) \<and> overlap_twice a b)"

lemma meets_sym: "CR_Width a = CR_Width b \<Longrightarrow> meets t a b r \<Longrightarrow> meets t b a r"
  by (auto simp: meets_def overlap_twice_def)

lemma meets_exact:
  "CR_wf r \<Longrightarrow> CR_Width r = CR_Width a \<Longrightarrow> CR_gamma r = CR_gamma a \<inter> CR_gamma b \<Longrightarrow> meets t a b r"
  by (simp add: meets_def)

lemma meets_preferred:
  assumes "CR_wf a" "CR_wf b" "CR_Width b = CR_Width a" "overlap_twice a b"
  shows "meets t a b (GetPreferredRange a b t)"
  unfolding meets_def
  using assms GetPreferredRange_wf GetPreferredRange_width
  by (rule_tac GetPreferredRange_cases [of a b t]) auto

text \<open>Two proper intervals of one width.\<close>

definition two_proper :: "ConstantRange \<Rightarrow> ConstantRange \<Rightarrow> bool" where
  "two_proper a b \<longleftrightarrow> CR_wf a \<and> CR_wf b \<and> CR_Width b = CR_Width a \<and>
     uv (lower a) \<noteq> uv (upper a) \<and> uv (lower b) \<noteq> uv (upper b)"

lemma two_properD:
  assumes "two_proper a b"
  shows "CR_wf a" "CR_wf b" "CR_Width b = CR_Width a"
    "uv (lower a) \<noteq> uv (upper a)" "uv (lower b) \<noteq> uv (upper b)"
  using assms by (simp_all add: two_proper_def)

lemma tp_bounds:
  assumes "two_proper a b"
  shows "SInt_wf (lower a)" "SInt_wf (upper a)" "width (upper a) = CR_Width a"
    "width (lower a) = CR_Width a" "0 \<le> uv (lower a)" "uv (lower a) < modulus (CR_Width a)"
    "0 \<le> uv (upper a)" "uv (upper a) < modulus (CR_Width a)"
    "SInt_wf (lower b)" "SInt_wf (upper b)" "width (upper b) = CR_Width a"
    "width (lower b) = CR_Width a" "0 \<le> uv (lower b)" "uv (lower b) < modulus (CR_Width a)"
    "0 \<le> uv (upper b)" "uv (upper b) < modulus (CR_Width a)"
  using CR_wfD(1-8) [of a] CR_wfD(1-8) [of b] assms by (simp_all add: two_proper_def)

lemma mem_a:
  assumes "two_proper a b"
  shows "v \<in> CR_gamma a \<longleftrightarrow>
    SInt_wf v \<and> width v = CR_Width a \<and> on_arc (uv (lower a)) (uv (upper a)) (uv v)"
  using two_properD [OF assms] by (simp add: mem_iff IsFullSet_iff)

lemma mem_b:
  assumes "two_proper a b"
  shows "v \<in> CR_gamma b \<longleftrightarrow>
    SInt_wf v \<and> width v = CR_Width a \<and> on_arc (uv (lower b)) (uv (upper b)) (uv v)"
  using two_properD [OF assms] by (simp add: mem_iff IsFullSet_iff)

lemma lower_mem: "two_proper a b \<Longrightarrow> lower a \<in> CR_gamma a" "two_proper a b \<Longrightarrow> lower b \<in> CR_gamma b"
  using tp_bounds [of a b] two_properD(4,5) [of a b] by (auto simp: mem_a mem_b on_arc_def)

lemma v_bounds: "SInt_wf v \<Longrightarrow> width v = w \<Longrightarrow> 0 \<le> uv v \<and> uv v < modulus w"
  using uv_nonneg [of v] by (auto simp: SInt_wf_def)

lemma two_pieces:
  assumes tp: "two_proper a b" and "on_arc (uv (lower a)) (uv (upper a)) (uv (lower b))"
    "on_arc (uv (lower b)) (uv (upper b)) (uv (lower a))"
    and "\<And>k. 0 \<le> k \<Longrightarrow> k < modulus (CR_Width a) \<Longrightarrow>
      on_arc (uv (lower a)) (uv (upper a)) k \<or> on_arc (uv (lower b)) (uv (upper b)) k"
  shows "meets t a b (GetPreferredRange a b t)"
proof (rule meets_preferred [OF two_properD(1-3) [OF tp]])
  show "overlap_twice a b"
    using assms tp_bounds [OF tp] v_bounds by (auto simp: overlap_twice_def mem_a [OF tp] mem_b [OF tp])
qed

lemma meets_make:
  assumes "two_proper a b"
    and "SInt_wf l" "SInt_wf u" "width l = CR_Width a" "width u = CR_Width a" "uv l \<noteq> uv u"
    and "\<And>k. 0 \<le> k \<Longrightarrow> k < modulus (CR_Width a) \<Longrightarrow> on_arc (uv l) (uv u) k \<longleftrightarrow>
      on_arc (uv (lower a)) (uv (upper a)) k \<and> on_arc (uv (lower b)) (uv (upper b)) k"
  shows "meets t a b (CR_make l u)"
proof (rule meets_exact)
  show "CR_gamma (CR_make l u) = CR_gamma a \<inter> CR_gamma b"
    using assms v_bounds by (auto simp: mem_make mem_a mem_b)
qed (use assms in \<open>simp_all add: make_CR_wf\<close>)

lemma meets_left:
  assumes tp: "two_proper a b" and "\<And>k. 0 \<le> k \<Longrightarrow> k < modulus (CR_Width a) \<Longrightarrow>
      on_arc (uv (lower a)) (uv (upper a)) k \<Longrightarrow> on_arc (uv (lower b)) (uv (upper b)) k"
  shows "meets t a b a"
  using assms v_bounds two_properD [OF tp] by (intro meets_exact) (auto simp: mem_a [OF tp] mem_b [OF tp])

lemma meets_right:
  assumes tp: "two_proper a b" and "\<And>k. 0 \<le> k \<Longrightarrow> k < modulus (CR_Width a) \<Longrightarrow>
      on_arc (uv (lower b)) (uv (upper b)) k \<Longrightarrow> on_arc (uv (lower a)) (uv (upper a)) k"
  shows "meets t a b b"
  using assms v_bounds two_properD [OF tp] by (intro meets_exact) (auto simp: mem_a [OF tp] mem_b [OF tp])

lemma meets_none:
  assumes tp: "two_proper a b" and "\<And>k. 0 \<le> k \<Longrightarrow> k < modulus (CR_Width a) \<Longrightarrow>
     on_arc (uv (lower b)) (uv (upper b)) k \<Longrightarrow> \<not> on_arc (uv (lower a)) (uv (upper a)) k"
  shows "meets t a b (CR_Empty (CR_Width a))"
  using assms(2) v_bounds by (intro meets_exact) (auto simp: mem_a [OF tp] mem_b [OF tp])

lemma IntersectBothWrapped_meets:
  assumes tp: "two_proper a b" and "CR_IsUpperWrapped a" "CR_IsUpperWrapped b"
  shows "meets t a b (CR_IntersectBothWrapped a b t)"
proof -
  have w: "uv (upper a) < uv (lower a)" "uv (upper b) < uv (lower b)"
    using assms by (simp_all add: IsUpperWrapped_iff)
  show ?thesis
    using w tp_bounds [OF tp] unfolding CR_IntersectBothWrapped_def ucmp_uv
    by (auto intro!: two_pieces [OF tp] meets_make [OF tp] meets_left [OF tp] meets_right [OF tp]
        simp: on_arc_def)
qed

lemma IntersectWrappedWithUnwrapped_meets:
  assumes tp: "two_proper a b" and "CR_IsUpperWrapped a" "\<not> CR_IsUpperWrapped b"
  shows "meets t a b (CR_IntersectWrappedWithUnwrapped a b t)"
proof -
  have w: "uv (upper a) < uv (lower a)" "uv (lower b) < uv (upper b)"
    using assms two_properD [OF tp] by (simp_all add: IsUpperWrapped_iff)
  show ?thesis
    using w tp_bounds [OF tp] unfolding CR_IntersectWrappedWithUnwrapped_def ucmp_uv
    by (auto intro!: two_pieces [OF tp] meets_make [OF tp] meets_left [OF tp]
        meets_right [OF tp] meets_none [OF tp] simp: on_arc_def)
qed

lemma IntersectBothUnwrapped_meets:
  assumes tp: "two_proper a b" and "\<not> CR_IsUpperWrapped a" "\<not> CR_IsUpperWrapped b"
  shows "meets t a b (CR_IntersectBothUnwrapped a b)"
proof -
  have w: "uv (lower a) < uv (upper a)" "uv (lower b) < uv (upper b)"
    using assms two_properD [OF tp] by (simp_all add: IsUpperWrapped_iff)
  show ?thesis
    using w tp_bounds [OF tp] unfolding CR_IntersectBothUnwrapped_def ucmp_uv
    by (auto intro!: meets_make [OF tp] meets_left [OF tp] meets_right [OF tp] meets_none [OF tp]
        simp: on_arc_def)
qed

lemma proper_pair:
  assumes "CR_wf a" "CR_wf b" "CR_Width b = CR_Width a"
    "\<not> CR_IsEmptySet a" "\<not> CR_IsFullSet a" "\<not> CR_IsEmptySet b" "\<not> CR_IsFullSet b"
  shows "two_proper a b"
  using assms wf_cases [of a] wf_cases [of b] by (metis two_proper_def)

lemma two_proper_sym: "two_proper a b \<Longrightarrow> two_proper b a"
  by (simp add: two_proper_def)

lemma Intersect_step:
  assumes "CR_IsUpperWrapped a \<or> \<not> CR_IsUpperWrapped b" and tp: "two_proper a b"
    and ne: "\<not> CR_IsEmptySet a" "\<not> CR_IsFullSet a" "\<not> CR_IsEmptySet b" "\<not> CR_IsFullSet b"
  shows "meets t a b (CR_IntersectWith a b t)"
  using assms IntersectBothWrapped_meets [OF tp] IntersectWrappedWithUnwrapped_meets [OF tp]
    IntersectBothUnwrapped_meets [OF tp]
  by (subst CR_IntersectWith.simps) (auto simp: Let_def)

lemma IntersectWith_meets:
  assumes a: "CR_wf a" and b: "CR_wf b" and w: "CR_Width b = CR_Width a"
  shows "meets t a b (CR_IntersectWith a b t)"
proof -
  consider (left) "CR_IsEmptySet a \<or> CR_IsFullSet b"
    | (right) "\<not> (CR_IsEmptySet a \<or> CR_IsFullSet b)" "CR_IsEmptySet b \<or> CR_IsFullSet a"
    | (proper) "\<not> CR_IsEmptySet a" "\<not> CR_IsFullSet a" "\<not> CR_IsEmptySet b" "\<not> CR_IsFullSet b"
    by blast
  then show ?thesis
  proof cases
    case left
    then have "CR_gamma a = CR_gamma a \<inter> CR_gamma b"
      using w gamma_wf gamma_width by (auto simp: mem_EmptySet mem_FullSet)
    moreover have "CR_IntersectWith a b t = a" using left by (subst CR_IntersectWith.simps) auto
    ultimately show ?thesis using a by (simp add: meets_exact)
  next
    case right
    then have "CR_gamma b = CR_gamma a \<inter> CR_gamma b"
      using w gamma_wf gamma_width by (auto simp: mem_EmptySet mem_FullSet)
    moreover have "CR_IntersectWith a b t = b" using right by (subst CR_IntersectWith.simps) auto
    ultimately show ?thesis using b w by (simp add: meets_exact)
  next
    case proper
    then have tp: "two_proper a b" using a b w by (intro proper_pair) auto
    show ?thesis
    proof (cases "CR_IsUpperWrapped a \<or> \<not> CR_IsUpperWrapped b")
      case True
      then show ?thesis using Intersect_step [OF _ tp] proper by blast
    next
      case False
      have "CR_IntersectWith a b t = CR_IntersectWith b a t"
        using proper False by (subst CR_IntersectWith.simps) auto
      moreover have "meets t b a (CR_IntersectWith b a t)"
        using Intersect_step [OF _ two_proper_sym [OF tp]] proper False by blast
      ultimately show ?thesis using w by (simp add: meets_sym)
    qed
  qed
qed

lemma IntersectWith_wf: "CR_wf a \<Longrightarrow> CR_wf b \<Longrightarrow> CR_Width b = CR_Width a \<Longrightarrow> CR_wf (CR_IntersectWith a b t)"
  and IntersectWith_width: "CR_wf a \<Longrightarrow> CR_wf b \<Longrightarrow> CR_Width b = CR_Width a \<Longrightarrow>
    CR_Width (CR_IntersectWith a b t) = CR_Width a"
  and IntersectWith_mem: "CR_wf a \<Longrightarrow> CR_wf b \<Longrightarrow> CR_Width b = CR_Width a \<Longrightarrow>
    v \<in> CR_gamma a \<Longrightarrow> v \<in> CR_gamma b \<Longrightarrow> v \<in> CR_gamma (CR_IntersectWith a b t)"
  using IntersectWith_meets [of a b t] by (auto simp: meets_def)

section \<open>Union\<close>

definition joins :: "ConstantRange \<Rightarrow> ConstantRange \<Rightarrow> ConstantRange \<Rightarrow> bool" where
  "joins a b r \<longleftrightarrow> CR_wf r \<and> CR_Width r = CR_Width a \<and> CR_gamma a \<union> CR_gamma b \<subseteq> CR_gamma r \<and>
     (CR_gamma r = CR_gamma a \<union> CR_gamma b \<or> CR_gamma a \<inter> CR_gamma b = {})"

lemma joins_sym: "CR_Width a = CR_Width b \<Longrightarrow> joins a b r \<Longrightarrow> joins b a r"
  by (auto simp: joins_def)

lemma joins_exact:
  "CR_wf r \<Longrightarrow> CR_Width r = CR_Width a \<Longrightarrow> CR_gamma r = CR_gamma a \<union> CR_gamma b \<Longrightarrow> joins a b r"
  by (simp add: joins_def)

lemma joins_make:
  assumes "two_proper a b"
    and "SInt_wf l" "SInt_wf u" "width l = CR_Width a" "width u = CR_Width a" "uv l \<noteq> uv u"
    and "\<And>k. 0 \<le> k \<Longrightarrow> k < modulus (CR_Width a) \<Longrightarrow> on_arc (uv l) (uv u) k \<longleftrightarrow>
      on_arc (uv (lower a)) (uv (upper a)) k \<or> on_arc (uv (lower b)) (uv (upper b)) k"
  shows "joins a b (CR_make l u)"
proof (rule joins_exact)
  show "CR_gamma (CR_make l u) = CR_gamma a \<union> CR_gamma b"
    using assms v_bounds by (auto simp: mem_make mem_a mem_b)
qed (use assms in \<open>simp_all add: make_CR_wf\<close>)

lemma joins_gap:
  assumes tp: "two_proper a b"
    and "SInt_wf l" "SInt_wf u" "width l = CR_Width a" "width u = CR_Width a" "uv l \<noteq> uv u"
    and "\<And>k. 0 \<le> k \<Longrightarrow> k < modulus (CR_Width a) \<Longrightarrow>
      on_arc (uv (lower a)) (uv (upper a)) k \<or> on_arc (uv (lower b)) (uv (upper b)) k \<Longrightarrow>
      on_arc (uv l) (uv u) k"
    and "\<And>k. 0 \<le> k \<Longrightarrow> k < modulus (CR_Width a) \<Longrightarrow>
      on_arc (uv (lower a)) (uv (upper a)) k \<Longrightarrow> \<not> on_arc (uv (lower b)) (uv (upper b)) k"
  shows "joins a b (CR_make l u)"
  using assms v_bounds
  by (auto simp: joins_def make_CR_wf mem_make mem_a [OF tp] mem_b [OF tp])

lemma joins_preferred:
  "joins a b r \<Longrightarrow> joins a b s \<Longrightarrow> joins a b (GetPreferredRange r s t)"
  by (rule GetPreferredRange_cases [of r s t]) simp_all

lemma joins_left:
  assumes tp: "two_proper a b" and "\<And>k. 0 \<le> k \<Longrightarrow> k < modulus (CR_Width a) \<Longrightarrow>
      on_arc (uv (lower b)) (uv (upper b)) k \<Longrightarrow> on_arc (uv (lower a)) (uv (upper a)) k"
  shows "joins a b a"
  using assms v_bounds two_properD [OF tp] by (intro joins_exact) (auto simp: mem_a [OF tp] mem_b [OF tp])

lemma joins_full:
  assumes tp: "two_proper a b" and "\<And>k. 0 \<le> k \<Longrightarrow> k < modulus (CR_Width a) \<Longrightarrow>
      on_arc (uv (lower a)) (uv (upper a)) k \<or> on_arc (uv (lower b)) (uv (upper b)) k"
  shows "joins a b (CR_Full (CR_Width a))"
proof (rule joins_exact)
  have "v \<in> CR_gamma a \<union> CR_gamma b \<longleftrightarrow> SInt_wf v \<and> width v = CR_Width a" for v
    using assms(2) [of "uv v"] v_bounds [of v "CR_Width a"] by (auto simp: mem_a [OF tp] mem_b [OF tp])
  then show "CR_gamma (CR_Full (CR_Width a)) = CR_gamma a \<union> CR_gamma b"
    by (intro set_eqI) (simp only: mem_Full)
qed simp_all

lemma UnionBothWrapped_joins:
  assumes tp: "two_proper a b" and "CR_IsUpperWrapped a" "CR_IsUpperWrapped b"
  shows "joins a b (CR_UnionBothWrapped a b)"
proof -
  have w: "uv (upper a) < uv (lower a)" "uv (upper b) < uv (lower b)"
    using assms by (simp_all add: IsUpperWrapped_iff)
  show ?thesis
    using w tp_bounds [OF tp] unfolding CR_UnionBothWrapped_def ucmp_uv Let_def
    by (auto intro!: joins_full [OF tp] joins_make [OF tp] simp: on_arc_def)
qed

lemma UnionWrappedWithUnwrapped_joins:
  assumes tp: "two_proper a b" and "CR_IsUpperWrapped a" "\<not> CR_IsUpperWrapped b"
  shows "joins a b (CR_UnionWrappedWithUnwrapped a b t)"
proof -
  have w: "uv (upper a) < uv (lower a)" "uv (lower b) < uv (upper b)"
    using assms two_properD [OF tp] by (simp_all add: IsUpperWrapped_iff)
  have gap: "joins a b (GetPreferredRange (CR_make (lower a) (upper b)) (CR_make (lower b) (upper a)) t)"
    if "uv (upper a) < uv (lower b)" "uv (upper b) < uv (lower a)"
    using w that tp_bounds [OF tp] by (auto intro!: joins_preferred joins_gap [OF tp] simp: on_arc_def)
  show ?thesis
    using w gap tp_bounds [OF tp] unfolding CR_UnionWrappedWithUnwrapped_def ucmp_uv
    by (auto intro!: joins_full [OF tp] joins_make [OF tp] joins_left [OF tp]
        simp: on_arc_def)
qed

lemma UnionBothUnwrapped_joins:
  assumes tp: "two_proper a b" and "\<not> CR_IsUpperWrapped a" "\<not> CR_IsUpperWrapped b"
  shows "joins a b (CR_UnionBothUnwrapped a b t)"
proof -
  have w: "uv (lower a) < uv (upper a)" "uv (lower b) < uv (upper b)"
    using assms two_properD [OF tp] by (simp_all add: IsUpperWrapped_iff)
  have up: "uv (SInt_sub_u (upper a) 1) = uv (upper a) - 1" "uv (SInt_sub_u (upper b) 1) = uv (upper b) - 1"
    "uv (upper a) \<noteq> 0" "uv (upper b) \<noteq> 0"
    using w tp_bounds [OF tp] by (simp_all add: sub1_uv)
  have gap: "joins a b (GetPreferredRange (CR_make (lower a) (upper b)) (CR_make (lower b) (upper a)) t)"
    if "uv (upper b) < uv (lower a) \<or> uv (upper a) < uv (lower b)"
    using w that tp_bounds [OF tp] by (auto intro!: joins_preferred joins_gap [OF tp] simp: on_arc_def)
  show ?thesis
    using w gap up tp_bounds [OF tp] unfolding CR_UnionBothUnwrapped_def ucmp_uv Let_def IsZero_iff
    by (auto intro!: joins_make [OF tp] simp: on_arc_def)
qed

lemma Union_step:
  assumes "CR_IsUpperWrapped a \<or> \<not> CR_IsUpperWrapped b" and tp: "two_proper a b"
    and ne: "\<not> CR_IsEmptySet a" "\<not> CR_IsFullSet a" "\<not> CR_IsEmptySet b" "\<not> CR_IsFullSet b"
  shows "joins a b (CR_UnionWith a b t)"
  using assms UnionBothWrapped_joins [OF tp] UnionWrappedWithUnwrapped_joins [OF tp]
    UnionBothUnwrapped_joins [OF tp]
  by (subst CR_UnionWith.simps) (auto simp: Let_def)

lemma UnionWith_joins:
  assumes a: "CR_wf a" and b: "CR_wf b" and w: "CR_Width b = CR_Width a"
  shows "joins a b (CR_UnionWith a b t)"
proof -
  consider (left) "CR_IsFullSet a \<or> CR_IsEmptySet b"
    | (right) "\<not> (CR_IsFullSet a \<or> CR_IsEmptySet b)" "CR_IsFullSet b \<or> CR_IsEmptySet a"
    | (proper) "\<not> CR_IsEmptySet a" "\<not> CR_IsFullSet a" "\<not> CR_IsEmptySet b" "\<not> CR_IsFullSet b"
    by blast
  then show ?thesis
  proof cases
    case left
    then have "CR_gamma a = CR_gamma a \<union> CR_gamma b"
      using w gamma_wf gamma_width by (auto simp: mem_EmptySet mem_FullSet)
    moreover have "CR_UnionWith a b t = a" using left by (subst CR_UnionWith.simps) auto
    ultimately show ?thesis using a by (simp add: joins_exact)
  next
    case right
    then have "CR_gamma b = CR_gamma a \<union> CR_gamma b"
      using w gamma_wf gamma_width by (auto simp: mem_EmptySet mem_FullSet)
    moreover have "CR_UnionWith a b t = b" using right by (subst CR_UnionWith.simps) auto
    ultimately show ?thesis using b w by (simp add: joins_exact)
  next
    case proper
    then have tp: "two_proper a b" using a b w by (intro proper_pair) auto
    show ?thesis
    proof (cases "CR_IsUpperWrapped a \<or> \<not> CR_IsUpperWrapped b")
      case True
      then show ?thesis using Union_step [OF _ tp] proper by blast
    next
      case False
      have "CR_UnionWith a b t = CR_UnionWith b a t"
        using proper False by (subst CR_UnionWith.simps) auto
      moreover have "joins b a (CR_UnionWith b a t)"
        using Union_step [OF _ two_proper_sym [OF tp]] proper False by blast
      ultimately show ?thesis using w by (simp add: joins_sym)
    qed
  qed
qed

lemma UnionWith_wf: "CR_wf a \<Longrightarrow> CR_wf b \<Longrightarrow> CR_Width b = CR_Width a \<Longrightarrow> CR_wf (CR_UnionWith a b t)"
  and UnionWith_width: "CR_wf a \<Longrightarrow> CR_wf b \<Longrightarrow> CR_Width b = CR_Width a \<Longrightarrow>
    CR_Width (CR_UnionWith a b t) = CR_Width a"
  and UnionWith_left: "CR_wf a \<Longrightarrow> CR_wf b \<Longrightarrow> CR_Width b = CR_Width a \<Longrightarrow>
    v \<in> CR_gamma a \<Longrightarrow> v \<in> CR_gamma (CR_UnionWith a b t)"
  and UnionWith_right: "CR_wf a \<Longrightarrow> CR_wf b \<Longrightarrow> CR_Width b = CR_Width a \<Longrightarrow>
    v \<in> CR_gamma b \<Longrightarrow> v \<in> CR_gamma (CR_UnionWith a b t)"
  using UnionWith_joins [of a b t] by (auto simp: joins_def)

lemma Difference_mem:
  assumes a: "CR_wf a" and b: "CR_wf b" and w: "CR_Width b = CR_Width a"
    and v: "v \<in> CR_gamma a" "v \<notin> CR_gamma b"
  shows "v \<in> CR_gamma (CR_Difference a b)"
  unfolding CR_Difference_def
  using a b w v gamma_wf [OF v(1)] gamma_width [OF v(1)]
  by (intro IntersectWith_mem) (simp_all add: Inverse_wf mem_Inverse)

end
