(* ===== verification/Range_Arith.thy ===== *)
theory Range_Arith
  imports Range_Lattice
begin

text \<open>
  Arithmetic on ranges covers arithmetic on their elements: for every operation, the result
  of the machine operation on an element of each operand is an element of the result.
\<close>

section \<open>Addition and subtraction\<close>

definition span :: "ConstantRange \<Rightarrow> int" where
  "span r = (uv (upper r) - uv (lower r)) mod modulus (CR_Width r)"

definition offset :: "ConstantRange \<Rightarrow> SInt \<Rightarrow> int" where
  "offset r v = (uv v - uv (lower r)) mod modulus (CR_Width r)"

lemma mem_span:
  "CR_wf r \<Longrightarrow> uv (lower r) \<noteq> uv (upper r) \<Longrightarrow> SInt_wf v \<Longrightarrow> width v = CR_Width r \<Longrightarrow>
   v \<in> CR_gamma r \<longleftrightarrow> offset r v < span r"
  by (simp add: mem_offset span_def offset_def)

lemma mod_sum_pred:
  fixes p q m :: int
  shows "(p mod m + q mod m - 1) mod m = (p + q - 1) mod m"
proof -
  have "(p mod m + q mod m - 1) mod m = ((p mod m + q mod m) mod m - 1) mod m"
    by (simp only: mod_diff_left_eq)
  then show ?thesis by (simp only: mod_add_eq mod_diff_left_eq)
qed

lemma mod_sum_pred_diff:
  fixes p q r m :: int
  shows "(p mod m + (q mod m - 1 - r mod m)) mod m = (p + q - 1 - r) mod m"
proof -
  have "(p mod m + (q mod m - 1 - r mod m)) mod m = ((p mod m + q mod m - 1) mod m - r mod m) mod m"
    by (simp only: mod_diff_left_eq) (simp add: algebra_simps)
  then show ?thesis by (simp only: mod_sum_pred mod_diff_eq)
qed

lemma IsSizeStrictlySmallerThan_span:
  assumes "CR_wf a" "CR_wf b" "\<not> CR_IsFullSet a" "\<not> CR_IsFullSet b"
  shows "CR_IsSizeStrictlySmallerThan a b \<longleftrightarrow> span a < span b"
  using assms CR_wfD [of a] CR_wfD [of b]
  by (simp add: CR_IsSizeStrictlySmallerThan_def ucmp_uv sub_uv span_def)

text \<open>The code's test for a wrap: the span of the sum, one less than the sum of the spans
  modulo \<open>m\<close>, has become smaller than one of them.\<close>

lemma sum_of_spans:
  fixes i j s t m :: int
  assumes "0 \<le> i" "i < s" "s < m" "0 \<le> j" "j < t" "t < m"
    and "\<not> (s + t - 1) mod m < s"
  shows "(i + j) mod m < (s + t - 1) mod m"
proof -
  have "(s + t - 1) mod m = (if s + t - 1 < m then s + t - 1 else s + t - 1 - m)"
    using assms by (intro mod_once_up) linarith+
  then have "s + t - 1 < m" using assms by (auto split: if_splits)
  then show ?thesis using assms by simp
qed

lemma span_bounds: "0 \<le> span r" "span r < modulus (CR_Width r)"
  "0 \<le> offset r v" "offset r v < modulus (CR_Width r)"
  by (simp_all add: span_def offset_def)

lemma neq_by_span: "CR_wf r \<Longrightarrow> uv (lower r) \<noteq> uv (upper r) \<Longrightarrow> span r \<noteq> 0"
  using CR_wfD [of r] mod_once_down [of "modulus (CR_Width r)" "uv (upper r) - uv (lower r)"]
  by (auto simp: span_def)

text \<open>What addition and subtraction share: from bounds whose span is that of the sum, either
  the full set or the interval between them.\<close>

lemma arc_result:
  assumes a: "CR_wf a" and b: "CR_wf b" and w: "CR_Width b = CR_Width a"
    and fa: "\<not> CR_IsFullSet a" "\<not> CR_IsEmptySet a" and fb: "\<not> CR_IsFullSet b" "\<not> CR_IsEmptySet b"
    and l: "SInt_wf l" "width l = CR_Width a" and u: "SInt_wf u" "width u = CR_Width a"
    and ne: "uv l \<noteq> uv u"
    and span: "(uv u - uv l) mod modulus (CR_Width a) = (span a + span b - 1) mod modulus (CR_Width a)"
    and small: "\<not> CR_IsSizeStrictlySmallerThan (CR_make l u) a"
    and v: "v \<in> CR_gamma a" and x: "x \<in> CR_gamma b" and z: "SInt_wf z" "width z = CR_Width a"
    and off: "(uv z - uv l) mod modulus (CR_Width a) = (offset a v + j) mod modulus (CR_Width a)"
    and j: "0 \<le> j" "j < span b"
  shows "z \<in> CR_gamma (CR_make l u)"
proof -
  let ?r = "CR_make l u" and ?m = "modulus (CR_Width a)"
  have r: "CR_wf ?r" "CR_Width ?r = CR_Width a" using l u ne by (simp_all add: make_CR_wf)
  have pa: "uv (lower a) \<noteq> uv (upper a)" and pb: "uv (lower b) \<noteq> uv (upper b)"
    using proper_pair [OF a b w] fa fb two_properD by blast+
  have "span ?r = (span a + span b - 1) mod ?m" using span l by (simp add: span_def)
  moreover have "\<not> span ?r < span a"
    using small IsSizeStrictlySmallerThan_span [OF r(1) a] fa ne by (auto simp: IsFullSet_iff)
  moreover have "offset a v < span a"
    using mem_span [OF a pa] v gamma_wf [OF v] gamma_width [OF v] by simp
  ultimately have "(offset a v + j) mod ?m < span ?r"
    using sum_of_spans [of "offset a v" "span a" ?m j "span b"] span_bounds [of a] span_bounds [of b]
      j w by simp
  then have "offset ?r z < span ?r" using off l by (simp add: offset_def)
  then show ?thesis using mem_span [of ?r z] r z ne by simp
qed

lemma Add_wf: "CR_wf a \<Longrightarrow> CR_wf b \<Longrightarrow> CR_Width b = CR_Width a \<Longrightarrow> CR_wf (CR_Add a b)"
  using CR_wfD [of a] CR_wfD [of b]
  by (auto simp: CR_Add_def Let_def CR_Lower_def CR_Upper_def eq_iff_uv intro!: make_CR_wf)

lemma Add_width [simp]: "CR_wf a \<Longrightarrow> CR_Width (CR_Add a b) = CR_Width a"
  using CR_wfD [of a] by (simp add: CR_Add_def Let_def CR_Lower_def CR_Upper_def)

lemma Add_sound:
  assumes a: "CR_wf a" and b: "CR_wf b" and w: "CR_Width b = CR_Width a"
    and v: "v \<in> CR_gamma a" and x: "x \<in> CR_gamma b"
  shows "SInt_add v x \<in> CR_gamma (CR_Add a b)"
proof -
  define l where "l = SInt_add (lower a) (lower b)"
  define u where "u = SInt_sub_u (SInt_add (upper a) (upper b)) 1"
  let ?m = "modulus (CR_Width a)"
  note d = CR_wfD [OF a] CR_wfD [OF b]
  have ne: "\<not> CR_IsEmptySet a" "\<not> CR_IsEmptySet b" using v x mem_EmptySet by blast+
  have wf: "SInt_wf l" "width l = CR_Width a" "SInt_wf u" "width u = CR_Width a"
    using d by (simp_all add: l_def u_def)
  have z: "SInt_wf (SInt_add v x)" "width (SInt_add v x) = CR_Width a"
    using gamma_width [OF v] by simp_all
  have span: "(uv u - uv l) mod ?m = (span a + span b - 1) mod ?m"
    using d w by (simp add: u_def l_def add_uv sub_u_uv span_def mod_simps mod_sum_pred)
      (simp add: algebra_simps)
  have off: "(uv (SInt_add v x) - uv l) mod ?m = (offset a v + offset b x) mod ?m"
    using d w gamma_width [OF v] by (simp add: l_def add_uv offset_def mod_simps)
      (simp add: algebra_simps)
  show ?thesis
  proof (cases "CR_Add a b = CR_Full (CR_Width a)")
    case True
    then show ?thesis using z by simp
  next
    case False
    then have code: "CR_Add a b = CR_make l u" "\<not> CR_IsFullSet a" "\<not> CR_IsFullSet b" "uv l \<noteq> uv u"
      "\<not> CR_IsSizeStrictlySmallerThan (CR_make l u) a"
      using ne by (auto simp: CR_Add_def Let_def CR_Lower_def CR_Upper_def eq_iff_uv l_def u_def split: if_splits)
    have "offset b x < span b"
      using mem_span [OF b, of x] two_properD(5) [OF proper_pair [OF a b w ne(1) code(2) ne(2) code(3)]]
        x gamma_wf [OF x] gamma_width [OF x] by simp
    then show ?thesis unfolding code(1)
      using arc_result [OF a b w code(2) ne(1) code(3) ne(2) wf code(4) span code(5) v x z off]
        span_bounds by blast
  qed
qed

lemma Sub_wf: "CR_wf a \<Longrightarrow> CR_wf b \<Longrightarrow> CR_Width b = CR_Width a \<Longrightarrow> CR_wf (CR_Sub a b)"
  using CR_wfD [of a] CR_wfD [of b]
  by (auto simp: CR_Sub_def Let_def CR_Lower_def CR_Upper_def eq_iff_uv intro!: make_CR_wf)

lemma Sub_width [simp]: "CR_wf a \<Longrightarrow> CR_Width (CR_Sub a b) = CR_Width a"
  using CR_wfD [of a] by (simp add: CR_Sub_def Let_def CR_Lower_def CR_Upper_def)

lemma Sub_sound:
  assumes a: "CR_wf a" and b: "CR_wf b" and w: "CR_Width b = CR_Width a"
    and v: "v \<in> CR_gamma a" and x: "x \<in> CR_gamma b"
  shows "SInt_sub v x \<in> CR_gamma (CR_Sub a b)"
proof -
  define l where "l = SInt_add_u (SInt_sub (lower a) (upper b)) 1"
  define u where "u = SInt_sub (upper a) (lower b)"
  let ?m = "modulus (CR_Width a)"
  note d = CR_wfD [OF a] CR_wfD [OF b]
  have ne: "\<not> CR_IsEmptySet a" "\<not> CR_IsEmptySet b" using v x mem_EmptySet by blast+
  have wf: "SInt_wf l" "width l = CR_Width a" "SInt_wf u" "width u = CR_Width a"
    using d by (simp_all add: l_def u_def)
  have z: "SInt_wf (SInt_sub v x)" "width (SInt_sub v x) = CR_Width a"
    using gamma_width [OF v] by simp_all
  have span: "(uv u - uv l) mod ?m = (span a + span b - 1) mod ?m"
    using d w by (simp add: u_def l_def add_u_uv sub_uv span_def mod_simps mod_sum_pred)
      (simp add: algebra_simps)
  have off: "(uv (SInt_sub v x) - uv l) mod ?m = (offset a v + (span b - 1 - offset b x)) mod ?m"
  proof -
    have "(offset a v + (span b - 1 - offset b x)) mod ?m =
        ((uv v - uv (lower a)) + (uv (upper b) - uv (lower b)) - 1 - (uv x - uv (lower b))) mod ?m"
      using w by (simp add: offset_def span_def mod_sum_pred_diff)
    then show ?thesis using d w gamma_width [OF v]
      by (simp add: l_def add_u_uv sub_uv mod_simps) (simp add: algebra_simps)
  qed
  show ?thesis
  proof (cases "CR_Sub a b = CR_Full (CR_Width a)")
    case True
    then show ?thesis using z by simp
  next
    case False
    then have code: "CR_Sub a b = CR_make l u" "\<not> CR_IsFullSet a" "\<not> CR_IsFullSet b" "uv l \<noteq> uv u"
      "\<not> CR_IsSizeStrictlySmallerThan (CR_make l u) a"
      using ne by (auto simp: CR_Sub_def Let_def CR_Lower_def CR_Upper_def eq_iff_uv l_def u_def split: if_splits)
    have "offset b x < span b"
      using mem_span [OF b, of x] two_properD(5) [OF proper_pair [OF a b w ne(1) code(2) ne(2) code(3)]]
        x gamma_wf [OF x] gamma_width [OF x] by simp
    then have "0 \<le> span b - 1 - offset b x" "span b - 1 - offset b x < span b"
      using span_bounds(3) [of b x] by linarith+
    then show ?thesis unfolding code(1)
      using arc_result [OF a b w code(2) ne(1) code(3) ne(2) wf code(4) span code(5) v x z off] by blast
  qed
qed

section \<open>Saturating addition and subtraction\<close>

lemma clamp_u_mono: "j \<le> k \<Longrightarrow> clamp_u w j \<le> clamp_u w k"
  using modulus_ge [of w] by (simp add: clamp_u_def)

lemma clamp_s_mono: "j \<le> k \<Longrightarrow> clamp_s w j \<le> clamp_s w k"
  using half_ge [of w] by (simp add: clamp_s_def)

lemma gamma_not_empty: "v \<in> CR_gamma r \<Longrightarrow> \<not> CR_IsEmptySet r"
  using mem_EmptySet by blast

text \<open>The pattern of the saturating operations: the bounds of the result are the operation
  on bounds of the operands.\<close>

lemma between_unsigned:
  assumes "SInt_wf l" "width l = w" "SInt_wf h" "width h = w" "SInt_wf z" "width z = w"
    and "uv l \<le> uv z" "uv z \<le> uv h"
  shows "z \<in> CR_gamma (CR_NonEmpty l (SInt_add_u h 1))"
  using assms by (intro mem_NonEmpty_unsigned) simp_all

lemma between_signed:
  assumes "SInt_wf l" "width l = w" "SInt_wf h" "width h = w" "SInt_wf z" "width z = w"
    and "sv l \<le> sv z" "sv z \<le> sv h"
  shows "z \<in> CR_gamma (CR_NonEmpty l (SInt_add_u h 1))"
  using assms by (intro mem_NonEmpty_signed) simp_all

lemma UAddSat_range:
  assumes a: "CR_wf a" and b: "CR_wf b" and w: "CR_Width b = CR_Width a"
    and v: "v \<in> CR_gamma a" and x: "x \<in> CR_gamma b"
  shows "SInt_UAddSat v x \<in> CR_gamma (CR_UAddSat a b)"
  using gamma_not_empty [OF v] gamma_not_empty [OF x] minmax_simps [OF a] minmax_simps [OF b] w
    gamma_wf [OF v] gamma_width [OF v] gamma_wf [OF x] gamma_width [OF x]
    UMaxMin_bounds [OF a v] UMaxMin_bounds [OF b x]
  by (auto simp: CR_UAddSat_def UAddSat_spec intro!: between_unsigned clamp_u_mono)

lemma USubSat_range:
  assumes a: "CR_wf a" and b: "CR_wf b" and w: "CR_Width b = CR_Width a"
    and v: "v \<in> CR_gamma a" and x: "x \<in> CR_gamma b"
  shows "SInt_USubSat v x \<in> CR_gamma (CR_USubSat a b)"
  using gamma_not_empty [OF v] gamma_not_empty [OF x] minmax_simps [OF a] minmax_simps [OF b] w
    gamma_wf [OF v] gamma_width [OF v] gamma_wf [OF x] gamma_width [OF x]
    UMaxMin_bounds [OF a v] UMaxMin_bounds [OF b x]
  by (auto simp: CR_USubSat_def USubSat_spec intro!: between_unsigned clamp_u_mono)

lemma SAddSat_range:
  assumes a: "CR_wf a" and b: "CR_wf b" and w: "CR_Width b = CR_Width a"
    and v: "v \<in> CR_gamma a" and x: "x \<in> CR_gamma b"
  shows "SInt_SAddSat v x \<in> CR_gamma (CR_SAddSat a b)"
  using gamma_not_empty [OF v] gamma_not_empty [OF x] minmax_simps [OF a] minmax_simps [OF b] w
    gamma_wf [OF v] gamma_width [OF v] gamma_wf [OF x] gamma_width [OF x]
    SMaxMin_bounds [OF a v] SMaxMin_bounds [OF b x]
  by (auto simp: CR_SAddSat_def SAddSat_spec intro!: between_signed clamp_s_mono)

lemma SSubSat_range:
  assumes a: "CR_wf a" and b: "CR_wf b" and w: "CR_Width b = CR_Width a"
    and v: "v \<in> CR_gamma a" and x: "x \<in> CR_gamma b"
  shows "SInt_SSubSat v x \<in> CR_gamma (CR_SSubSat a b)"
  using gamma_not_empty [OF v] gamma_not_empty [OF x] minmax_simps [OF a] minmax_simps [OF b] w
    gamma_wf [OF v] gamma_width [OF v] gamma_wf [OF x] gamma_width [OF x]
    SMaxMin_bounds [OF a v] SMaxMin_bounds [OF b x]
  by (auto simp: CR_SSubSat_def SSubSat_spec intro!: between_signed clamp_s_mono)

lemma AddSubSat_wf:
  assumes a: "CR_wf a" and b: "CR_wf b" and w: "CR_Width b = CR_Width a"
  shows "CR_wf (CR_UAddSat a b)" "CR_wf (CR_SAddSat a b)" "CR_wf (CR_USubSat a b)" "CR_wf (CR_SSubSat a b)"
    "CR_Width (CR_UAddSat a b) = CR_Width a" "CR_Width (CR_SAddSat a b) = CR_Width a"
    "CR_Width (CR_USubSat a b) = CR_Width a" "CR_Width (CR_SSubSat a b) = CR_Width a"
  using minmax_simps [OF a] minmax_simps [OF b] w
  by (simp_all add: CR_UAddSat_def CR_SAddSat_def CR_USubSat_def CR_SSubSat_def NonEmpty_wf
      UAddSat_spec SAddSat_spec USubSat_spec SSubSat_spec)

end
