(* ===== verification/Range_MulDiv.thy ===== *)
theory Range_MulDiv
  imports Range_Arith
begin

text \<open>
  Multiplication (plain and saturating), unsigned division, absolute value and the
  remainders on ranges: each produces a value (the options are never empty on operands of
  one width) and covers the machine operation on the elements.
\<close>

section \<open>Least and greatest of a list\<close>

lemma std_min_facts:
  assumes "\<And>x y. x \<in> set (p # ps) \<Longrightarrow> y \<in> set (p # ps) \<Longrightarrow> cmp x y \<longleftrightarrow> (f x :: int) < f y"
  shows "std_min cmp p ps \<in> set (p # ps) \<and> (\<forall>x \<in> set (p # ps). f (std_min cmp p ps) \<le> f x)"
  using assms
proof (induction ps arbitrary: p)
  case Nil
  then show ?case by (simp add: std_min_def)
next
  case (Cons q ps)
  let ?m = "if cmp q p then q else p"
  have "std_min cmp p (q # ps) = std_min cmp ?m ps" by (simp add: std_min_def)
  moreover have "std_min cmp ?m ps \<in> set (?m # ps) \<and>
      (\<forall>x \<in> set (?m # ps). f (std_min cmp ?m ps) \<le> f x)"
    using Cons.prems by (intro Cons.IH) auto
  moreover have "f ?m \<le> f p" "f ?m \<le> f q" using Cons.prems by auto
  ultimately show ?case by (auto split: if_splits)
qed

lemma std_max_facts:
  assumes "\<And>x y. x \<in> set (p # ps) \<Longrightarrow> y \<in> set (p # ps) \<Longrightarrow> cmp x y \<longleftrightarrow> (f x :: int) < f y"
  shows "std_max cmp p ps \<in> set (p # ps) \<and> (\<forall>x \<in> set (p # ps). f x \<le> f (std_max cmp p ps))"
  using assms
proof (induction ps arbitrary: p)
  case Nil
  then show ?case by (simp add: std_max_def)
next
  case (Cons q ps)
  let ?m = "if cmp p q then q else p"
  have "std_max cmp p (q # ps) = std_max cmp ?m ps" by (simp add: std_max_def)
  moreover have "std_max cmp ?m ps \<in> set (?m # ps) \<and>
      (\<forall>x \<in> set (?m # ps). f x \<le> f (std_max cmp ?m ps))"
    using Cons.prems by (intro Cons.IH) auto
  moreover have "f p \<le> f ?m" "f q \<le> f ?m" using Cons.prems by auto
  ultimately show ?case by (auto split: if_splits)
qed

lemma std_min_max_signed:
  assumes "\<And>x. x \<in> set (p # ps) \<Longrightarrow> SInt_wf x \<and> width x = w"
  shows "SInt_wf (std_min SInt_Slt p ps)" "width (std_min SInt_Slt p ps) = w"
    "SInt_wf (std_max SInt_Slt p ps)" "width (std_max SInt_Slt p ps) = w"
    "x \<in> set (p # ps) \<Longrightarrow> sv (std_min SInt_Slt p ps) \<le> sv x"
    "x \<in> set (p # ps) \<Longrightarrow> sv x \<le> sv (std_max SInt_Slt p ps)"
proof -
  have cmp: "SInt_Slt x y \<longleftrightarrow> sv x < sv y" if "x \<in> set (p # ps)" "y \<in> set (p # ps)" for x y
    using assms that by (simp add: scmp_sv)
  note mn = std_min_facts [of p ps SInt_Slt sv, OF cmp] and mx = std_max_facts [of p ps SInt_Slt sv, OF cmp]
  show "SInt_wf (std_min SInt_Slt p ps)" "width (std_min SInt_Slt p ps) = w"
    "SInt_wf (std_max SInt_Slt p ps)" "width (std_max SInt_Slt p ps) = w"
    using mn mx assms by blast+
  show "x \<in> set (p # ps) \<Longrightarrow> sv (std_min SInt_Slt p ps) \<le> sv x"
    "x \<in> set (p # ps) \<Longrightarrow> sv x \<le> sv (std_max SInt_Slt p ps)"
    using mn mx by blast+
qed

section \<open>Multiplication\<close>

text \<open>A product over a box lies between products of corners.\<close>

lemma box_product:
  fixes x y a b c d :: int
  assumes "a \<le> x" "x \<le> b" "c \<le> y" "y \<le> d"
  shows "min (min (a * c) (a * d)) (min (b * c) (b * d)) \<le> x * y"
    and "x * y \<le> max (max (a * c) (a * d)) (max (b * c) (b * d))"
proof -
  have x: "min (a * y) (b * y) \<le> x * y" "x * y \<le> max (a * y) (b * y)"
    using assms mult_right_mono [of a x y] mult_right_mono [of x b y]
      mult_right_mono_neg [of a x y] mult_right_mono_neg [of x b y]
    by (cases "0 \<le> y"; auto simp: min_le_iff_disj le_max_iff_disj)+
  have y: "min (k * c) (k * d) \<le> k * y" "k * y \<le> max (k * c) (k * d)" for k
    using assms mult_left_mono [of c y k] mult_left_mono [of y d k]
      mult_left_mono_neg [of c y k] mult_left_mono_neg [of y d k]
    by (cases "0 \<le> k"; auto simp: min_le_iff_disj le_max_iff_disj)+
  show "min (min (a * c) (a * d)) (min (b * c) (b * d)) \<le> x * y"
    using x(1) y(1) [of a] y(1) [of b] by linarith
  show "x * y \<le> max (max (a * c) (a * d)) (max (b * c) (b * d))"
    using x(2) y(2) [of a] y(2) [of b] by linarith
qed

lemma UMul_range:
  assumes a: "CR_wf a" and b: "CR_wf b" and w: "CR_Width b = CR_Width a"
  obtains r where "CR_UMul a b = Some r" "CR_wf r" "CR_Width r = CR_Width a"
    "\<And>v x. v \<in> CR_gamma a \<Longrightarrow> x \<in> CR_gamma b \<Longrightarrow> SInt_mul v x \<in> CR_gamma r"
proof (cases "CR_IsEmptySet a \<or> CR_IsEmptySet b")
  case True
  then show thesis using that [of "CR_Empty (CR_Width a)"] by (auto simp: CR_UMul_def mem_EmptySet)
next
  case False
  let ?m = "modulus (CR_Width a)"
  define lo where "lo = SInt_mul (CR_UMinValue a) (CR_UMinValue b)"
  define hi where "hi = SInt_mul (CR_UMaxValue a) (CR_UMaxValue b)"
  define ovf where "ovf \<longleftrightarrow> \<not> fits_u (CR_Width a) (uv (CR_UMinValue a) * uv (CR_UMinValue b)) \<or>
    \<not> fits_u (CR_Width a) (uv (CR_UMaxValue a) * uv (CR_UMaxValue b))"
  note mm = minmax_simps [OF a] minmax_simps [OF b, unfolded w]
  have code: "CR_UMul a b = Some (if ovf then CR_Full (CR_Width a) else CR_NonEmpty lo (SInt_add_u hi 1))"
    using False mm by (simp add: CR_UMul_def UMulOvf_spec lo_def hi_def ovf_def)
  have wf: "SInt_wf lo" "SInt_wf hi" "width lo = CR_Width a" "width hi = CR_Width a"
    using mm by (simp_all add: lo_def hi_def)
  show thesis
  proof (rule that [OF code])
    fix v x assume v: "v \<in> CR_gamma a" and x: "x \<in> CR_gamma b"
    have z: "SInt_wf (SInt_mul v x)" "width (SInt_mul v x) = CR_Width a"
      using gamma_width [OF v] by simp_all
    have "uv lo \<le> uv (SInt_mul v x) \<and> uv (SInt_mul v x) \<le> uv hi" if "\<not> ovf"
    proof -
      have le: "uv (CR_UMinValue a) * uv (CR_UMinValue b) \<le> uv v * uv x"
        "uv v * uv x \<le> uv (CR_UMaxValue a) * uv (CR_UMaxValue b)"
        using UMaxMin_bounds [OF a v] UMaxMin_bounds [OF b x] uv_nonneg
        by (auto intro!: mult_mono)
      then show ?thesis using that mm gamma_width [OF v]
        by (auto simp: ovf_def fits_u_def lo_def hi_def mul_uv)
    qed
    then show "SInt_mul v x \<in> CR_gamma (if ovf then CR_Full (CR_Width a) else CR_NonEmpty lo (SInt_add_u hi 1))"
      using z wf by (auto intro!: between_unsigned)
  qed (use wf in \<open>auto simp: NonEmpty_wf\<close>)
qed

lemma SMul_range:
  assumes a: "CR_wf a" and b: "CR_wf b" and w: "CR_Width b = CR_Width a"
  obtains r where "CR_SMul a b = Some r" "CR_wf r" "CR_Width r = CR_Width a"
    "\<And>v x. v \<in> CR_gamma a \<Longrightarrow> x \<in> CR_gamma b \<Longrightarrow> SInt_mul v x \<in> CR_gamma r"
proof (cases "CR_IsEmptySet a \<or> CR_IsEmptySet b")
  case True
  then show thesis using that [of "CR_Empty (CR_Width a)"] by (auto simp: CR_SMul_def mem_EmptySet)
next
  case False
  let ?w = "CR_Width a"
  define lA hA lB hB where "lA = CR_SMinValue a" and "hA = CR_SMaxValue a"
    and "lB = CR_SMinValue b" and "hB = CR_SMaxValue b"
  note mm = minmax_simps(5-8) [OF a, folded lA_def hA_def] minmax_simps(5-8) [OF b, unfolded w, folded lB_def hB_def]
  define ps where "ps = [SInt_mul lA hB, SInt_mul hA lB, SInt_mul hA hB]"
  define p where "p = SInt_mul lA lB"
  define ovf where "ovf \<longleftrightarrow> \<not> fits_s ?w (sv lA * sv lB) \<or> \<not> fits_s ?w (sv lA * sv hB) \<or>
     \<not> fits_s ?w (sv hA * sv lB) \<or> \<not> fits_s ?w (sv hA * sv hB)"
  have code: "CR_SMul a b = Some (if ovf then CR_Full ?w
      else CR_NonEmpty (std_min SInt_Slt p ps) (SInt_add_u (std_max SInt_Slt p ps) 1))"
    using False mm
    by (simp add: CR_SMul_def SMulOvf_spec ovf_def p_def ps_def flip: lA_def hA_def lB_def hB_def)
  have ok: "SInt_wf x \<and> width x = ?w" if "x \<in> set (p # ps)" for x
    using that mm by (auto simp: p_def ps_def)
  note mnmx = std_min_max_signed [of p ps "CR_Width a", OF ok]
  have le: "sv (std_min SInt_Slt p ps) \<le> sv y \<and> sv y \<le> sv (std_max SInt_Slt p ps)"
    if "y \<in> set (p # ps)" for y
    using mnmx(5,6) that by blast
  show thesis
  proof (rule that [OF code])
    fix v x assume v: "v \<in> CR_gamma a" and x: "x \<in> CR_gamma b"
    have z: "SInt_wf (SInt_mul v x)" "width (SInt_mul v x) = ?w"
      using gamma_width [OF v] by simp_all
    have "sv (std_min SInt_Slt p ps) \<le> sv (SInt_mul v x) \<and>
        sv (SInt_mul v x) \<le> sv (std_max SInt_Slt p ps)" if no: "\<not> ovf"
    proof -
      note box = box_product [OF SMaxMin_bounds(2,1) [OF a v] SMaxMin_bounds(2,1) [OF b x],
          folded lA_def hA_def lB_def hB_def]
      have c: "sv (SInt_mul lA lB) = sv lA * sv lB" "sv (SInt_mul lA hB) = sv lA * sv hB"
        "sv (SInt_mul hA lB) = sv hA * sv lB" "sv (SInt_mul hA hB) = sv hA * sv hB"
        using no mm by (simp_all add: mul_sv ovf_def) (simp_all add: signed_of_fits)
      have corners: "sv (std_min SInt_Slt p ps) \<le> q \<and> q \<le> sv (std_max SInt_Slt p ps)"
        if "q \<in> {sv lA * sv lB, sv lA * sv hB, sv hA * sv lB, sv hA * sv hB}" for q
        using that le [of "SInt_mul lA lB"] le [of "SInt_mul lA hB"]
          le [of "SInt_mul hA lB"] le [of "SInt_mul hA hB"] c
        by (auto simp: p_def ps_def)
      have between: "sv (std_min SInt_Slt p ps) \<le> sv v * sv x" "sv v * sv x \<le> sv (std_max SInt_Slt p ps)"
        using box corners [of "sv lA * sv lB"] corners [of "sv lA * sv hB"]
          corners [of "sv hA * sv lB"] corners [of "sv hA * sv hB"] by simp_all linarith+
      moreover have "fits_s ?w (sv v * sv x)"
        using between sv_lo [of "std_min SInt_Slt p ps"] sv_hi [OF mnmx(3)] mnmx(2,4)
        unfolding fits_s_def by simp
      then have "sv (SInt_mul v x) = sv v * sv x"
        using gamma_wf [OF v] gamma_wf [OF x] gamma_width [OF v] gamma_width [OF x] w
        by (simp add: mul_sv) (simp add: signed_of_fits)
      ultimately show ?thesis by simp
    qed
    then show "SInt_mul v x \<in> CR_gamma (if ovf then CR_Full ?w
      else CR_NonEmpty (std_min SInt_Slt p ps) (SInt_add_u (std_max SInt_Slt p ps) 1))"
      using z mnmx(1-4) by (auto intro!: between_signed)
  qed (use mnmx(1-4) in \<open>auto simp: NonEmpty_wf\<close>)
qed

lemma UMulSat_range:
  assumes a: "CR_wf a" and b: "CR_wf b" and w: "CR_Width b = CR_Width a"
  obtains r where "CR_UMulSat a b = Some r" "CR_wf r" "CR_Width r = CR_Width a"
    "\<And>v x. v \<in> CR_gamma a \<Longrightarrow> x \<in> CR_gamma b \<Longrightarrow>
       \<exists>z. SInt_UMulSat v x = Some z \<and> z \<in> CR_gamma r"
proof (cases "CR_IsEmptySet a \<or> CR_IsEmptySet b")
  case True
  then show thesis using that [of "CR_Empty (CR_Width a)"] by (auto simp: CR_UMulSat_def mem_EmptySet)
next
  case False
  let ?w = "CR_Width a"
  note mm = minmax_simps [OF a] minmax_simps [OF b, unfolded w]
  obtain lo where lo: "SInt_UMulSat (CR_UMinValue a) (CR_UMinValue b) = Some lo" "SInt_wf lo"
    "width lo = ?w" "uv lo = clamp_u ?w (uv (CR_UMinValue a) * uv (CR_UMinValue b))"
    using UMulSat_spec [of "CR_UMinValue a" "CR_UMinValue b"] mm by metis
  obtain hi where hi: "SInt_UMulSat (CR_UMaxValue a) (CR_UMaxValue b) = Some hi" "SInt_wf hi"
    "width hi = ?w" "uv hi = clamp_u ?w (uv (CR_UMaxValue a) * uv (CR_UMaxValue b))"
    using UMulSat_spec [of "CR_UMaxValue a" "CR_UMaxValue b"] mm by metis
  have code: "CR_UMulSat a b = Some (CR_NonEmpty lo (SInt_add_u hi 1))"
    using False lo(1) hi(1) by (simp add: CR_UMulSat_def)
  show thesis
  proof (rule that [OF code])
    fix v x assume v: "v \<in> CR_gamma a" and x: "x \<in> CR_gamma b"
    obtain z where z: "SInt_UMulSat v x = Some z" "SInt_wf z" "width z = ?w"
      "uv z = clamp_u ?w (uv v * uv x)"
      using UMulSat_spec [of v x] gamma_wf [OF v] gamma_wf [OF x] gamma_width [OF v] gamma_width [OF x] w
      by metis
    have "uv (CR_UMinValue a) * uv (CR_UMinValue b) \<le> uv v * uv x"
      "uv v * uv x \<le> uv (CR_UMaxValue a) * uv (CR_UMaxValue b)"
      using UMaxMin_bounds [OF a v] UMaxMin_bounds [OF b x] uv_nonneg by (auto intro!: mult_mono)
    then have "uv lo \<le> uv z" "uv z \<le> uv hi" using lo(4) hi(4) z(4) by (simp_all add: clamp_u_mono)
    then show "\<exists>z. SInt_UMulSat v x = Some z \<and> z \<in> CR_gamma (CR_NonEmpty lo (SInt_add_u hi 1))"
      using z lo hi between_unsigned [of lo ?w hi z] by simp
  qed (use lo hi in \<open>auto simp: NonEmpty_wf\<close>)
qed

lemma SMulSat_range:
  assumes a: "CR_wf a" and b: "CR_wf b" and w: "CR_Width b = CR_Width a"
  obtains r where "CR_SMulSat a b = Some r" "CR_wf r" "CR_Width r = CR_Width a"
    "\<And>v x. v \<in> CR_gamma a \<Longrightarrow> x \<in> CR_gamma b \<Longrightarrow>
       \<exists>z. SInt_SMulSat v x = Some z \<and> z \<in> CR_gamma r"
proof (cases "CR_IsEmptySet a \<or> CR_IsEmptySet b")
  case True
  then show thesis using that [of "CR_Empty (CR_Width a)"] by (auto simp: CR_SMulSat_def mem_EmptySet)
next
  case False
  let ?w = "CR_Width a"
  define lA hA lB hB where "lA = CR_SMinValue a" and "hA = CR_SMaxValue a"
    and "lB = CR_SMinValue b" and "hB = CR_SMaxValue b"
  note mm = minmax_simps(5-8) [OF a, folded lA_def hA_def] minmax_simps(5-8) [OF b, unfolded w, folded lB_def hB_def]
  have corner: "\<exists>z. SInt_SMulSat x y = Some z \<and> SInt_wf z \<and> width z = ?w \<and> sv z = clamp_s ?w (sv x * sv y)"
    if "SInt_wf x" "width x = ?w" "SInt_wf y" "width y = ?w" for x y
    using SMulSat_spec [of x y] that by metis
  obtain p1 where p1: "SInt_SMulSat lA lB = Some p1" "SInt_wf p1" "width p1 = ?w" "sv p1 = clamp_s ?w (sv lA * sv lB)"
    using corner mm by blast
  obtain p2 where p2: "SInt_SMulSat lA hB = Some p2" "SInt_wf p2" "width p2 = ?w" "sv p2 = clamp_s ?w (sv lA * sv hB)"
    using corner mm by blast
  obtain p3 where p3: "SInt_SMulSat hA lB = Some p3" "SInt_wf p3" "width p3 = ?w" "sv p3 = clamp_s ?w (sv hA * sv lB)"
    using corner mm by blast
  obtain p4 where p4: "SInt_SMulSat hA hB = Some p4" "SInt_wf p4" "width p4 = ?w" "sv p4 = clamp_s ?w (sv hA * sv hB)"
    using corner mm by blast
  define ps where "ps = [p2, p3, p4]"
  have code: "CR_SMulSat a b = Some
      (CR_NonEmpty (std_min SInt_Slt p1 ps) (SInt_add_u (std_max SInt_Slt p1 ps) 1))"
    using False p1(1) p2(1) p3(1) p4(1) by (simp add: CR_SMulSat_def ps_def flip: lA_def hA_def lB_def hB_def)
  have ok: "SInt_wf x \<and> width x = ?w" if "x \<in> set (p1 # ps)" for x
    using that p1 p2 p3 p4 by (auto simp: ps_def)
  note mnmx = std_min_max_signed [of p1 ps "CR_Width a", OF ok]
  show thesis
  proof (rule that [OF code])
    fix v x assume v: "v \<in> CR_gamma a" and x: "x \<in> CR_gamma b"
    obtain z where z: "SInt_SMulSat v x = Some z" "SInt_wf z" "width z = ?w"
      "sv z = clamp_s ?w (sv v * sv x)"
      using corner [of v x] gamma_wf [OF v] gamma_wf [OF x] gamma_width [OF v] gamma_width [OF x] w by metis
    note box = box_product [OF SMaxMin_bounds(2,1) [OF a v] SMaxMin_bounds(2,1) [OF b x],
        folded lA_def hA_def lB_def hB_def]
    have "\<exists>y \<in> set (p1 # ps). sv y \<le> sv z" "\<exists>y \<in> set (p1 # ps). sv z \<le> sv y"
      using box clamp_s_mono [of _ "sv v * sv x" ?w] clamp_s_mono [of "sv v * sv x" _ ?w]
      by (auto simp: ps_def z(4) p1(4) p2(4) p3(4) p4(4) min_le_iff_disj le_max_iff_disj)
    then have "sv (std_min SInt_Slt p1 ps) \<le> sv z" "sv z \<le> sv (std_max SInt_Slt p1 ps)"
      using mnmx(5,6) by (meson order_trans)+
    then have "z \<in> CR_gamma (CR_NonEmpty (std_min SInt_Slt p1 ps) (SInt_add_u (std_max SInt_Slt p1 ps) 1))"
      using z(2,3) mnmx(1-4) by (intro between_signed)
    then show "\<exists>z. SInt_SMulSat v x = Some z \<and>
        z \<in> CR_gamma (CR_NonEmpty (std_min SInt_Slt p1 ps) (SInt_add_u (std_max SInt_Slt p1 ps) 1))"
      using z(1) by blast
  qed (use mnmx(1-4) in \<open>auto simp: NonEmpty_wf\<close>)
qed

section \<open>Unsigned division\<close>

lemma assign_u_1:
  "uv (SInt_assign_u x 1) = 1" "width (SInt_assign_u x 1) = width x" "SInt_wf (SInt_assign_u x 1)"
proof -
  have "SInt_assign_u x 1 = SInt_make (width x) 1"
    by (simp add: SInt_assign_u_def SInt_make_def SInt_ClearUnusedBits_def Let_def)
  then show "uv (SInt_assign_u x 1) = 1" "width (SInt_assign_u x 1) = width x" "SInt_wf (SInt_assign_u x 1)"
    using modulus_ge [of "width x"] by (simp_all add: make_uv)
qed

text \<open>The least non-zero divisor the code picks.\<close>

definition least_divisor :: "ConstantRange \<Rightarrow> SInt" where
  "least_divisor b =
     (if SInt_IsZero (CR_UMinValue b) then
        (if SInt_eq_u (CR_Upper b) 1 then CR_Lower b else SInt_assign_u (CR_UMinValue b) 1)
      else CR_UMinValue b)"

lemma least_divisor:
  assumes b: "CR_wf b" and nz: "\<not> SInt_IsZero (CR_UMaxValue b)"
  shows "SInt_wf (least_divisor b)" "width (least_divisor b) = CR_Width b" "0 < uv (least_divisor b)"
    "\<And>x. x \<in> CR_gamma b \<Longrightarrow> uv x \<noteq> 0 \<Longrightarrow> uv (least_divisor b) \<le> uv x"
proof -
  note d = CR_wfD [OF b] minmax_simps [OF b]
  have u1: "SInt_eq_u (CR_Upper b) 1 \<longleftrightarrow> uv (upper b) = 1"
    by (simp add: SInt_eq_u_def SInt_GetZExtValue_def CR_Upper_def val_eq_iff)
  show "SInt_wf (least_divisor b)" "width (least_divisor b) = CR_Width b"
    using d by (auto simp: least_divisor_def CR_Lower_def assign_u_1)
  show "0 < uv (least_divisor b)"
  proof -
    have "uv (lower b) \<noteq> 0" if "uv (upper b) = 1"
      using that nz d modulus_ge [of "CR_Width b"]
      by (auto simp: IsZero_iff CR_UMaxValue_def IsFullSet_iff IsUpperWrapped_iff CR_Upper_def sub1_uv)
    then show ?thesis
      using uv_nonneg by (auto simp: least_divisor_def u1 CR_Lower_def assign_u_1 IsZero_iff less_le)
  qed
  fix x assume x: "x \<in> CR_gamma b" and x0: "uv x \<noteq> 0"
  have "uv (lower b) \<le> uv x" if "uv (upper b) = 1"
    using that x x0 uv_nonneg [of x] d modulus_ge [of "CR_Width b"]
    by (auto simp: mem_iff IsFullSet_iff on_arc_def split: if_splits)
  then show "uv (least_divisor b) \<le> uv x"
    using UMaxMin_bounds [OF b x] uv_pos [OF x0]
    by (auto simp: least_divisor_def u1 CR_Lower_def assign_u_1)
qed

lemma UDiv_range:
  assumes a: "CR_wf a" and b: "CR_wf b" and w: "CR_Width b = CR_Width a"
  obtains r where "CR_UDiv a b = Some r" "CR_wf r" "CR_Width r = CR_Width a"
    "\<And>v x z. v \<in> CR_gamma a \<Longrightarrow> x \<in> CR_gamma b \<Longrightarrow> SInt_UDiv v x = Some z \<Longrightarrow> z \<in> CR_gamma r"
proof (cases "CR_IsEmptySet a \<or> CR_IsEmptySet b \<or> SInt_IsZero (CR_UMaxValue b)")
  case True
  have no: "SInt_UDiv v x = None" if "v \<in> CR_gamma a" "x \<in> CR_gamma b" for v x
  proof -
    have "SInt_IsZero (CR_UMaxValue b)" using True that mem_EmptySet by blast
    then have "uv x = 0" using UMaxMin_bounds(1) [OF b that(2)] uv_nonneg [of x] by (simp add: IsZero_iff)
    then show ?thesis by (rule UDiv_None)
  qed
  then show thesis using True that [of "CR_Empty (CR_Width a)"] by (auto simp: CR_UDiv_def)
next
  case False
  let ?w = "CR_Width a"
  note mm = minmax_simps [OF a] minmax_simps [OF b, unfolded w]
  note ld = least_divisor [OF b, unfolded w]
  obtain lo where lo: "SInt_UDiv (CR_UMinValue a) (CR_UMaxValue b) = Some lo" "SInt_wf lo"
    "width lo = ?w" "uv lo = uv (CR_UMinValue a) div uv (CR_UMaxValue b)"
    using UDiv_Some [of "CR_UMinValue a" "CR_UMaxValue b"] mm False by (metis IsZero_iff)
  obtain hi where hi: "SInt_UDiv (CR_UMaxValue a) (least_divisor b) = Some hi" "SInt_wf hi"
    "width hi = ?w" "uv hi = uv (CR_UMaxValue a) div uv (least_divisor b)"
    using UDiv_Some [of "CR_UMaxValue a" "least_divisor b"] mm False ld(3) by (metis less_irrefl)
  have code: "CR_UDiv a b = Some (CR_NonEmpty lo (SInt_add_u hi 1))"
    using False lo(1) hi(1) by (simp add: CR_UDiv_def Let_def flip: least_divisor_def)
  show thesis
  proof (rule that [OF code])
    fix v x z assume v: "v \<in> CR_gamma a" and x: "x \<in> CR_gamma b" and z: "SInt_UDiv v x = Some z"
    have x0: "uv x \<noteq> 0" using z UDiv_None [of x v] by auto
    then have zs: "SInt_wf z" "width z = ?w" "uv z = uv v div uv x"
      using UDiv_Some [OF gamma_wf [OF v] x0] z gamma_width [OF v] by (metis option.inject)+
    have le: "uv (CR_UMinValue a) \<le> uv v" "uv v \<le> uv (CR_UMaxValue a)" "0 \<le> uv v"
      "0 < uv x" "uv x \<le> uv (CR_UMaxValue b)" "uv (least_divisor b) \<le> uv x" "0 < uv (least_divisor b)"
      using UMaxMin_bounds [OF a v] UMaxMin_bounds [OF b x] uv_pos [OF x0] uv_nonneg ld(3,4) x x0 False
      by blast+
    have "uv lo \<le> uv (CR_UMinValue a) div uv x"
      using le uv_nonneg [of "CR_UMinValue a"] by (simp add: lo(4) zdiv_mono2)
    also have "\<dots> \<le> uv z" using le by (simp add: zs(3) zdiv_mono1)
    finally have l: "uv lo \<le> uv z" .
    have "uv z \<le> uv v div uv (least_divisor b)" using le by (simp add: zs(3) zdiv_mono2)
    also have "\<dots> \<le> uv hi" using le by (simp add: hi(4) zdiv_mono1)
    finally show "z \<in> CR_gamma (CR_NonEmpty lo (SInt_add_u hi 1))"
      using l lo hi zs by (intro between_unsigned)
  qed (use lo hi in \<open>auto simp: NonEmpty_wf\<close>)
qed

section \<open>Unsigned remainder\<close>

lemma UMin_uv: "uv (SInt_UMin x y) = min (uv x) (uv y)" and
  UMax_uv: "uv (SInt_UMax x y) = max (uv x) (uv y)" and
  UMin_wf: "SInt_wf x \<Longrightarrow> SInt_wf y \<Longrightarrow> SInt_wf (SInt_UMin x y)" and
  UMax_wf: "SInt_wf x \<Longrightarrow> SInt_wf y \<Longrightarrow> SInt_wf (SInt_UMax x y)" and
  UMin_width: "width x = w \<Longrightarrow> width y = w \<Longrightarrow> width (SInt_UMin x y) = w" and
  UMax_width: "width x = w \<Longrightarrow> width y = w \<Longrightarrow> width (SInt_UMax x y) = w"
  by (auto simp: SInt_UMin_def SInt_UMax_def ucmp_uv)

lemma URem_range:
  assumes a: "CR_wf a" and b: "CR_wf b" and w: "CR_Width b = CR_Width a"
  obtains r where "CR_URem a b = Some r" "CR_wf r" "CR_Width r = CR_Width a"
    "\<And>v x z. v \<in> CR_gamma a \<Longrightarrow> x \<in> CR_gamma b \<Longrightarrow> SInt_URem v x = Some z \<Longrightarrow> z \<in> CR_gamma r"
proof -
  let ?w = "CR_Width a"
  note mm = minmax_simps [OF a] minmax_simps [OF b, unfolded w] and d = CR_wfD [OF a] CR_wfD [OF b]
  have zs: "uv x \<noteq> 0 \<and> SInt_wf z \<and> width z = ?w \<and> uv z = uv v mod uv x"
    if v: "v \<in> CR_gamma a" and x: "x \<in> CR_gamma b" and z: "SInt_URem v x = Some z" for v x z
  proof -
    have "uv x \<noteq> 0" using z URem_None [of x v] by auto
    then show ?thesis using URem_Some [OF gamma_wf [OF v]] z gamma_width [OF v] by (metis option.inject)
  qed
  consider (empty) "CR_IsEmptySet a \<or> CR_IsEmptySet b \<or> SInt_IsZero (CR_UMaxValue b) \<or>
      CR_IsSingleElement b \<and> SInt_IsZero (CR_GetSingleElement b)"
    | (single) "CR_IsSingleElement b" "\<not> SInt_IsZero (CR_GetSingleElement b)" "CR_IsSingleElement a"
        "\<not> CR_IsEmptySet a" "\<not> CR_IsEmptySet b" "\<not> SInt_IsZero (CR_UMaxValue b)"
    | (other) "\<not> CR_IsEmptySet a" "\<not> CR_IsEmptySet b" "\<not> SInt_IsZero (CR_UMaxValue b)"
        "\<not> (CR_IsSingleElement b \<and> SInt_IsZero (CR_GetSingleElement b))"
        "\<not> (CR_IsSingleElement b \<and> CR_IsSingleElement a)"
    by blast
  then show thesis
  proof cases
    case empty
    have "uv x = 0" if "v \<in> CR_gamma a" "x \<in> CR_gamma b" for v x
      using empty that mem_EmptySet UMaxMin_bounds(1) [OF b that(2)] uv_nonneg [of x]
        SingleElement_mem [OF b] by (auto simp: IsZero_iff)
    then have none: False if "v \<in> CR_gamma a" "x \<in> CR_gamma b" "SInt_URem v x = Some z" for v x z
      using zs that by blast
    have "CR_URem a b = Some (CR_Empty ?w)" using empty by (auto simp: CR_URem_def)
    then show thesis by (rule that) (use none in simp_all, blast)
  next
    case single
    obtain q where q: "SInt_URem (CR_GetSingleElement a) (CR_GetSingleElement b) = Some q" "SInt_wf q" "width q = ?w"
      using URem_Some [of "CR_GetSingleElement a" "CR_GetSingleElement b"] single d
      by (metis CR_GetSingleElement_def IsZero_iff)
    have "z \<in> CR_gamma (CR_single q)"
      if "v \<in> CR_gamma a" "x \<in> CR_gamma b" "SInt_URem v x = Some z" for v x z
      using that SingleElement_mem [OF a] SingleElement_mem [OF b] single q by (auto simp: mem_single)
    then show thesis using single q that [of "CR_single q"] by (auto simp: CR_URem_def single_wf)
  next
    case other
    show thesis
    proof (cases "SInt_Ult (CR_UMaxValue a) (CR_UMinValue b)")
      case True
      then have lt: "uv (CR_UMaxValue a) < uv (CR_UMinValue b)" by (simp add: ucmp_uv)
      have "z = v" if vxz: "v \<in> CR_gamma a" "x \<in> CR_gamma b" "SInt_URem v x = Some z" for v x z
      proof -
        have "uv v < uv x" using lt UMaxMin_bounds [OF a vxz(1)] UMaxMin_bounds [OF b vxz(2)] by linarith
        then show ?thesis using zs [OF vxz] uv_nonneg [of v] gamma_width [OF vxz(1)]
          by (intro SInt_ext) simp_all
      qed
      then have "z \<in> CR_gamma a" if vxz: "v \<in> CR_gamma a" "x \<in> CR_gamma b" "SInt_URem v x = Some z" for v x z
        using that by metis
      moreover have "CR_URem a b = Some a" using other True by (auto simp: CR_URem_def)
      ultimately show thesis using that [of a] a by blast
    next
      case False
      define hi where "hi = SInt_UMin (CR_UMaxValue a) (SInt_sub_u (CR_UMaxValue b) 1)"
      have hi: "SInt_wf hi" "width hi = ?w" "uv hi = min (uv (CR_UMaxValue a)) (uv (CR_UMaxValue b) - 1)"
        using mm other(3) by (simp_all add: hi_def UMin_wf UMin_width UMin_uv sub1_uv IsZero_iff)
      have code: "CR_URem a b = Some (CR_NonEmpty (SInt_Zero ?w) (SInt_add_u hi 1))"
        using other False by (auto simp: CR_URem_def hi_def)
      show thesis
      proof (rule that [OF code])
        fix v x z assume vxz: "v \<in> CR_gamma a" "x \<in> CR_gamma b" "SInt_URem v x = Some z"
        have p: "0 < uv x" "0 \<le> uv v" using zs [OF vxz] uv_pos [of x] uv_nonneg by blast+
        then have "uv v mod uv x \<le> uv v" "uv v mod uv x < uv x"
          by (simp_all add: zmod_le_nonneg_dividend)
        then have "uv z \<le> uv hi" using zs [OF vxz] hi(3) UMaxMin_bounds(1) [OF a vxz(1)]
            UMaxMin_bounds(1) [OF b vxz(2)] by auto
        then show "z \<in> CR_gamma (CR_NonEmpty (SInt_Zero ?w) (SInt_add_u hi 1))"
          using zs [OF vxz] hi uv_nonneg [of z] by (auto intro!: between_unsigned)
      qed (use hi in \<open>auto simp: NonEmpty_wf\<close>)
    qed
  qed
qed

section \<open>Absolute value\<close>

definition SInt_magnitude :: "SInt \<Rightarrow> SInt" where
  "SInt_magnitude v = (if SInt_IsNeg v then SInt_Neg v else v)"

lemma magnitude_simps:
  assumes "SInt_wf v"
  shows "SInt_wf (SInt_magnitude v)" "width (SInt_magnitude v) = width v"
    "uv (SInt_magnitude v) = \<bar>sv v\<bar>"
  using assms Neg_abs [of v] nonneg_abs [of v] by (auto simp: SInt_magnitude_def IsNeg_sv)

lemma IsPositive_sv: "SInt_wf x \<Longrightarrow> SInt_IsPositive x \<longleftrightarrow> 0 < sv x"
  by (auto simp: SInt_IsPositive_def IsNonNeg_iff IsNeg_sv IsZero_iff simp flip: sv_zero_iff)

lemma Neg_uv_cases:
  assumes "SInt_wf x"
  shows "uv (SInt_Neg x) = (if sv x = 0 then 0 else if sv x < 0 then - sv x else modulus (width x) - sv x)"
proof -
  consider "sv x = 0" | "sv x < 0" | "0 < sv x" by linarith
  then show ?thesis
  proof cases
    case 1
    then have "uv x = 0" using assms sv_zero_iff by blast
    then show ?thesis using 1 by (simp add: Neg_uv)
  next
    case 2
    then show ?thesis using assms by (simp add: Neg_abs)
  next
    case 3
    then have "uv x = sv x" using assms by (simp add: uv_sv)
    moreover have "- sv x mod modulus (width x) = modulus (width x) - sv x"
      using mod_once_down [of "modulus (width x)" "- sv x"] 3 sv_hi [OF assms] half_pos [of "width x"]
      by (simp add: modulus_half)
    ultimately show ?thesis using 3 by (simp add: Neg_uv)
  qed
qed

lemma sv_pos_uv: "SInt_wf x \<Longrightarrow> 0 \<le> sv x \<Longrightarrow> uv x = sv x"
  by (simp add: uv_sv)

lemma sv_neg_uv: "SInt_wf x \<Longrightarrow> sv x < 0 \<Longrightarrow> uv x = sv x + modulus (width x)"
  by (simp add: uv_sv)

lemma sbounds:
  "SInt_wf x \<Longrightarrow> - half (width x) \<le> sv x \<and> sv x < half (width x)"
  using sv_lo [of x] sv_hi [of x] by simp

lemma inc_SMin: "SInt_wf x \<Longrightarrow> sv x = - half (width x) \<Longrightarrow> sv (SInt_inc x) = 1 - half (width x)"
proof -
  assume x: "SInt_wf x" "sv x = - half (width x)"
  have "uv (SInt_inc x) = half (width x) + 1"
    using x half_ge [of "width x"] by (simp add: inc_uv sv_neg_uv modulus_half)
  then show ?thesis by (simp add: sv_def modulus_half)
qed

lemma Abs_width [simp]: "CR_wf r \<Longrightarrow> CR_Width (CR_Abs r p) = CR_Width r"
  using CR_wfD [of r] minmax_simps [of r]
  by (auto simp: CR_Abs_def Let_def SInt_UMin_def)

text \<open>An interval \<open>[l, h + 1)\<close> that does not wrap.\<close>

lemma plain_interval:
  assumes "SInt_wf l" "width l = w" "SInt_wf h" "width h = w" "uv l \<le> uv h" "uv h < modulus w - 1"
  shows "CR_wf (CR_make l (SInt_add_u h 1))"
    and "z \<in> CR_gamma (CR_make l (SInt_add_u h 1)) \<longleftrightarrow>
      SInt_wf z \<and> width z = w \<and> uv l \<le> uv z \<and> uv z \<le> uv h"
  using assms by (auto simp: make_CR_wf mem_make add1_uv on_arc_def)

lemma Abs_wrapped:
  assumes r: "CR_wf r" and sw: "CR_IsSignWrappedSet r" and ne: "\<not> CR_IsEmptySet r"
  shows "CR_wf (CR_Abs r p)"
    and "v \<in> CR_gamma r \<Longrightarrow> \<not> (p \<and> sv v = - half (CR_Width r)) \<Longrightarrow>
      SInt_magnitude v \<in> CR_gamma (CR_Abs r p)"
    and "z \<in> CR_gamma (CR_Abs r p) \<Longrightarrow> uv z \<le> half (CR_Width r)"
proof -
  let ?w = "CR_Width r"
  note d = CR_wfD [OF r]
  define lo where "lo = (if SInt_IsPositive (upper r) \<or> \<not> SInt_IsPositive (lower r) then SInt_Zero ?w
     else SInt_UMin (lower r) (SInt_add_u (SInt_Neg (upper r)) 1))"
  define hi where "hi = (if p then SInt_SMinValue ?w else SInt_add_u (SInt_SMinValue ?w) 1)"
  have code: "CR_Abs r p = CR_make lo hi"
    using ne sw by (auto simp: CR_Abs_def Let_def lo_def hi_def)
  have ord: "sv (upper r) < sv (lower r)" "sv (upper r) \<noteq> - half ?w"
    using sw by (simp_all add: IsSignWrappedSet_iff [OF r])
  have sb: "- half ?w \<le> sv (upper r)" "sv (lower r) < half ?w"
    using sbounds [OF d(2)] sbounds [OF d(1)] d by simp_all
  have M: "modulus ?w = 2 * half ?w" "128 \<le> half ?w" by (rule modulus_half half_ge)+
  have nu: "uv (SInt_add_u (SInt_Neg (upper r)) 1) = 1 - sv (upper r)" if "sv (upper r) \<le> 0"
    using that d sb ord M by (auto simp: add1_uv Neg_uv_cases)
  have lo: "SInt_wf lo" "width lo = ?w" "uv lo = (if 0 < sv (upper r) \<or> sv (lower r) \<le> 0 then 0
      else min (sv (lower r)) (1 - sv (upper r)))"
    using d nu by (auto simp: lo_def UMin_wf UMin_width UMin_uv IsPositive_sv sv_pos_uv)
  have hi: "SInt_wf hi" "width hi = ?w" "uv hi = half ?w + (if p then 0 else 1)"
    using M by (simp_all add: hi_def add1_uv)
  have lt: "uv lo < half ?w" using lo(3) sb M by (auto simp: min_def)
  have lthi: "uv lo < uv hi" using lt hi(3) by simp
  then show "CR_wf (CR_Abs r p)" unfolding code using lo hi by (intro make_CR_wf) simp_all
  show "uv z \<le> half ?w" if "z \<in> CR_gamma (CR_Abs r p)"
    using that lthi hi(3) unfolding code by (auto simp: mem_make on_arc_def split: if_splits)
  assume v: "v \<in> CR_gamma r" and np: "\<not> (p \<and> sv v = - half ?w)"
  have vs: "SInt_wf v" "width v = ?w" using gamma_wf [OF v] gamma_width [OF v] by simp_all
  have arc: "sv (lower r) \<le> sv v \<or> sv v < sv (upper r)"
    using v ord d by (auto simp: mem_signed_iff [OF r] on_arc_def IsFullSet_iff sv_def split: if_splits)
  have "\<bar>sv v\<bar> \<le> half ?w" "p \<Longrightarrow> \<bar>sv v\<bar> < half ?w" using sbounds [OF vs(1)] vs(2) np by auto
  then have "uv lo \<le> \<bar>sv v\<bar> \<and> \<bar>sv v\<bar> < uv hi"
    using arc lo(3) hi(3) by (auto simp: min_def)
  then show "SInt_magnitude v \<in> CR_gamma (CR_Abs r p)"
    unfolding code using lthi lo hi magnitude_simps [OF vs(1)] vs(2) by (auto simp: mem_make on_arc_def)
qed

lemma Abs_unwrapped:
  assumes r: "CR_wf r" and sw: "\<not> CR_IsSignWrappedSet r" and ne: "\<not> CR_IsEmptySet r"
  shows "CR_wf (CR_Abs r p) \<and> (v \<in> CR_gamma r \<and> \<not> (p \<and> sv v = - half (CR_Width r)) \<longrightarrow>
      SInt_magnitude v \<in> CR_gamma (CR_Abs r p)) \<and>
    (z \<in> CR_gamma (CR_Abs r p) \<longrightarrow> uv z \<le> half (CR_Width r))"
proof -
  let ?w = "CR_Width r" and ?z = "SInt_magnitude v"
  note mm = minmax_simps(5-8) [OF r]
  have M: "modulus ?w = 2 * half ?w" "128 \<le> half ?w" by (rule modulus_half half_ge)+
  define bump where "bump \<longleftrightarrow> p \<and> SInt_IsSMinValue (CR_SMinValue r)"
  define sMin where "sMin = (if bump then SInt_inc (CR_SMinValue r) else CR_SMinValue r)"
  let ?sMax = "CR_SMaxValue r"
  have le: "sv (CR_SMinValue r) \<le> sv ?sMax"
    using SMaxMin_bounds [OF r] SMaxMin_mem [OF r ne] by blast
  have bump: "bump \<longleftrightarrow> p \<and> sv (CR_SMinValue r) = - half ?w"
    using mm by (simp add: bump_def IsSMinValue_sv)
  have sMin: "SInt_wf sMin" "width sMin = ?w"
    "sv sMin = (if bump then 1 - half ?w else sv (CR_SMinValue r))"
    using mm bump by (auto simp: sMin_def inc_SMin)
  have vb: "SInt_wf v" "width v = ?w" "sv sMin \<le> sv v" "sv v \<le> sv ?sMax"
    "SInt_wf ?z" "width ?z = ?w" "uv ?z = \<bar>sv v\<bar>"
    if "v \<in> CR_gamma r" "\<not> (p \<and> sv v = - half ?w)"
    using that gamma_wf gamma_width SMaxMin_bounds [OF r that(1)] sMin(3) bump
      sbounds [OF gamma_wf [OF that(1)]] magnitude_simps [OF gamma_wf [OF that(1)]] by auto
  have sb: "- half ?w \<le> sv sMin" "sv ?sMax < half ?w" "- half ?w \<le> sv ?sMax"
    using sbounds [OF sMin(1)] sbounds [of ?sMax] sMin(2) mm by auto
  show ?thesis
  proof (cases "bump \<and> SInt_IsSMinValue ?sMax")
    case True
    then have "sv ?sMax = - half ?w" "sv sMin = 1 - half ?w" using mm sMin by (simp_all add: IsSMinValue_sv)
    then have False if "v \<in> CR_gamma r" "\<not> (p \<and> sv v = - half ?w)"
      using vb(3,4) [OF that] by linarith
    moreover have "CR_Abs r p = CR_Empty ?w"
      using True sw ne by (auto simp: CR_Abs_def Let_def bump_def)
    ultimately show ?thesis using mem_Empty Empty_wf by metis
  next
    case False
    have ord: "sv sMin \<le> sv ?sMax" using False le sMin(3) bump sb mm by (auto simp: IsSMinValue_sv)
    have code: "CR_Abs r p = (if SInt_IsNonNeg sMin then r
      else if SInt_IsNeg ?sMax then CR_make (SInt_Neg ?sMax) (SInt_add_u (SInt_Neg sMin) 1)
      else CR_make (SInt_Zero ?w) (SInt_add_u (SInt_UMax (SInt_Neg sMin) ?sMax) 1))"
      using False sw ne unfolding CR_Abs_def Let_def bump_def [symmetric] sMin_def [symmetric] by auto
    have sgn: "SInt_IsNonNeg sMin \<longleftrightarrow> 0 \<le> sv sMin" "SInt_IsNeg ?sMax \<longleftrightarrow> sv ?sMax < 0"
      using sMin mm by (auto simp: IsNonNeg_iff IsNeg_sv)
    have neg: "uv (SInt_Neg sMin) = - sv sMin" if "sv sMin < 0" using that sMin by (simp add: Neg_abs)
    consider (nonneg) "0 \<le> sv sMin" | (below) "sv sMin < 0" "sv ?sMax < 0" | (cross) "sv sMin < 0" "0 \<le> sv ?sMax"
      by linarith
    then show ?thesis
    proof cases
      case nonneg
      have "\<not> bump" using nonneg sMin(3) M by auto
      then have "uv z \<le> half ?w" if "z \<in> CR_gamma r"
        using nonneg sMin(3) SMaxMin_bounds(2) [OF r that] sbounds [OF gamma_wf [OF that]]
          gamma_wf [OF that] gamma_width [OF that] by (simp add: sv_pos_uv)
      moreover have "CR_Abs r p = r" using code sgn nonneg by simp
      moreover have "?z = v" if "v \<in> CR_gamma r" "\<not> (p \<and> sv v = - half ?w)"
        using vb(1,3) [OF that] nonneg by (simp add: SInt_magnitude_def IsNeg_sv)
      ultimately show ?thesis using r by metis
    next
      case below
      have up: "uv (SInt_Neg ?sMax) = - sv ?sMax" using below mm by (simp add: Neg_abs)
      have iv: "SInt_wf (SInt_Neg ?sMax)" "width (SInt_Neg ?sMax) = ?w" "SInt_wf (SInt_Neg sMin)"
        "width (SInt_Neg sMin) = ?w" "uv (SInt_Neg ?sMax) \<le> uv (SInt_Neg sMin)"
        "uv (SInt_Neg sMin) < modulus ?w - 1"
        using up neg below ord sb M mm sMin by simp_all
      have eq: "CR_Abs r p = CR_make (SInt_Neg ?sMax) (SInt_add_u (SInt_Neg sMin) 1)"
        using code sgn below by simp
      note iff = plain_interval [OF iv, unfolded up neg [OF below(1)]]
      have A: "- sv ?sMax \<le> \<bar>sv v\<bar> \<and> \<bar>sv v\<bar> \<le> - sv sMin"
        if "v \<in> CR_gamma r" "\<not> (p \<and> sv v = - half ?w)"
        using vb(3,4) [OF that] below by linarith
      have B: "uv z \<le> half ?w" if "uv z \<le> - sv sMin" using sb that by linarith
      show ?thesis unfolding eq iff(2) using iff(1) vb(5-7) A B by simp
    next
      case cross
      have up: "uv (SInt_UMax (SInt_Neg sMin) ?sMax) = max (- sv sMin) (sv ?sMax)"
        using cross mm neg by (simp add: UMax_uv sv_pos_uv)
      have iv: "SInt_wf (SInt_Zero ?w)" "width (SInt_Zero ?w) = ?w"
        "SInt_wf (SInt_UMax (SInt_Neg sMin) ?sMax)" "width (SInt_UMax (SInt_Neg sMin) ?sMax) = ?w"
        "uv (SInt_Zero ?w) \<le> uv (SInt_UMax (SInt_Neg sMin) ?sMax)"
        "uv (SInt_UMax (SInt_Neg sMin) ?sMax) < modulus ?w - 1"
        using up cross sb M mm sMin by (simp_all add: UMax_wf UMax_width)
      have eq: "CR_Abs r p = CR_make (SInt_Zero ?w) (SInt_add_u (SInt_UMax (SInt_Neg sMin) ?sMax) 1)"
        using code sgn cross by simp
      note iff = plain_interval [OF iv, unfolded up Zero_simps(1)]
      have A: "\<bar>sv v\<bar> \<le> max (- sv sMin) (sv ?sMax)"
        if "v \<in> CR_gamma r" "\<not> (p \<and> sv v = - half ?w)"
        using vb(3,4) [OF that] by linarith
      have B: "uv z \<le> half ?w" if "uv z \<le> max (- sv sMin) (sv ?sMax)" using sb that by linarith
      show ?thesis unfolding eq iff(2) using iff(1) vb(5-7) A B by simp
    qed
  qed
qed

lemma Abs_range:
  assumes r: "CR_wf r"
  shows "CR_wf (CR_Abs r p)"
    and "v \<in> CR_gamma r \<Longrightarrow> \<not> (p \<and> sv v = - half (CR_Width r)) \<Longrightarrow>
      SInt_magnitude v \<in> CR_gamma (CR_Abs r p)"
    and "z \<in> CR_gamma (CR_Abs r p) \<Longrightarrow> uv z \<le> half (CR_Width r)"
proof -
  have e: "CR_Abs r p = CR_Empty (CR_Width r)" if "CR_IsEmptySet r"
    using that by (simp add: CR_Abs_def Let_def)
  show "CR_wf (CR_Abs r p)"
    using Abs_wrapped(1) [OF r] Abs_unwrapped [OF r] e by (metis Empty_wf)
  show "SInt_magnitude v \<in> CR_gamma (CR_Abs r p)"
    if "v \<in> CR_gamma r" "\<not> (p \<and> sv v = - half (CR_Width r))"
    using Abs_wrapped(2) [OF r] Abs_unwrapped [OF r] gamma_not_empty [OF that(1)] that by blast
  show "uv z \<le> half (CR_Width r)" if "z \<in> CR_gamma (CR_Abs r p)"
    using Abs_wrapped(3) [OF r] Abs_unwrapped [OF r] e that mem_Empty by metis
qed

section \<open>Signed remainder\<close>

lemma smod_facts:
  fixes v x :: int
  assumes "x \<noteq> 0"
  shows "\<bar>v smod x\<bar> < \<bar>x\<bar>" "\<bar>v smod x\<bar> \<le> \<bar>v\<bar>" "0 \<le> v \<Longrightarrow> 0 \<le> v smod x" "v \<le> 0 \<Longrightarrow> v smod x \<le> 0"
    "\<bar>v\<bar> < \<bar>x\<bar> \<Longrightarrow> v smod x = v"
proof -
  have m: "0 \<le> \<bar>v\<bar> mod \<bar>x\<bar>" "\<bar>v\<bar> mod \<bar>x\<bar> < \<bar>x\<bar>" "\<bar>v\<bar> mod \<bar>x\<bar> \<le> \<bar>v\<bar>"
    using assms by (simp_all add: zmod_le_nonneg_dividend)
  then show "\<bar>v smod x\<bar> < \<bar>x\<bar>" "\<bar>v smod x\<bar> \<le> \<bar>v\<bar>" "0 \<le> v \<Longrightarrow> 0 \<le> v smod x" "v \<le> 0 \<Longrightarrow> v smod x \<le> 0"
    using assms by (auto simp: signed_modulo_int_def abs_mult sgn_if)
  show "v smod x = v" if "\<bar>v\<bar> < \<bar>x\<bar>"
    using that by (simp add: signed_modulo_int_def sgn_mult_abs)
qed

lemma SRem_sv:
  assumes v: "SInt_wf v" and x: "SInt_wf x" and w: "width x = width v" and z: "SInt_SRem v x = Some z"
  shows "sv x \<noteq> 0" "SInt_wf z" "width z = width v" "sv z = sv v smod sv x"
proof -
  have nz: "uv x \<noteq> 0" using z SRem_None [OF v x] by auto
  then show x0: "sv x \<noteq> 0" using sv_zero_iff [OF x] by simp
  obtain "SInt_wf z" "width z = width v" and uz: "uv z = (sv v smod sv x) mod modulus (width v)"
    using SRem_Some [OF v x w nz] z by (metis option.inject)
  then show "SInt_wf z" "width z = width v" by simp_all
  have "fits_s (width v) (sv v smod sv x)"
    using smod_facts(1) [OF x0, of "sv v"] sbounds [OF x] w unfolding fits_s_def by auto
  then show "sv z = sv v smod sv x"
    using sv_signed_of [of z "sv v smod sv x"] uz \<open>width z = width v\<close> by (simp add: signed_of_fits)
qed

lemma SRem_range:
  assumes a: "CR_wf a" and b: "CR_wf b" and w: "CR_Width b = CR_Width a"
  obtains r where "CR_SRem a b = Some r" "CR_wf r" "CR_Width r = CR_Width a"
    "\<And>v x z. v \<in> CR_gamma a \<Longrightarrow> x \<in> CR_gamma b \<Longrightarrow> SInt_SRem v x = Some z \<Longrightarrow> z \<in> CR_gamma r"
proof -
  let ?w = "CR_Width a"
  define ab where "ab = CR_Abs b False"
  have ab: "CR_wf ab" "CR_Width ab = ?w" using Abs_range(1) [OF b] w b by (simp_all add: ab_def)
  define maxA minA0 where "maxA = CR_UMaxValue ab" and "minA0 = CR_UMinValue ab"
  define minA where "minA = (if SInt_IsZero minA0 then SInt_inc minA0 else minA0)"
  let ?lo = "CR_SMinValue a" and ?hi = "CR_SMaxValue a"
  note mm = minmax_simps(5-8) [OF a] and d = CR_wfD [OF a] CR_wfD [OF b]
  have M: "modulus ?w = 2 * half ?w" "128 \<le> half ?w" by (rule modulus_half half_ge)+
  have zs: "sv x \<noteq> 0 \<and> SInt_wf z \<and> width z = ?w \<and> sv z = sv v smod sv x"
    if "v \<in> CR_gamma a" "x \<in> CR_gamma b" "SInt_SRem v x = Some z" for v x z
    using SRem_sv [of v x z] that gamma_wf gamma_width w by metis
  have mag: "uv minA0 \<le> \<bar>sv x\<bar>" "\<bar>sv x\<bar> \<le> uv maxA" if "x \<in> CR_gamma b" for x
  proof -
    have "SInt_magnitude x \<in> CR_gamma ab" using Abs_range(2) [OF b that] by (simp add: ab_def)
    then show "uv minA0 \<le> \<bar>sv x\<bar>" "\<bar>sv x\<bar> \<le> uv maxA"
      using UMaxMin_bounds [OF ab(1)] magnitude_simps(3) [OF gamma_wf [OF that]]
      by (metis maxA_def minA0_def)+
  qed
  have wfA: "SInt_wf maxA" "width maxA = ?w" "SInt_wf minA0" "width minA0 = ?w" "SInt_wf minA" "width minA = ?w"
    using minmax_simps [OF ab(1)] ab(2) by (simp_all add: maxA_def minA0_def minA_def)
  have minA: "uv minA = (if uv minA0 = 0 then 1 else uv minA0)"
    using wfA M by (simp add: minA_def IsZero_iff inc_uv)
  consider (empty) "CR_IsEmptySet a \<or> CR_IsEmptySet b \<or>
      CR_IsSingleElement b \<and> SInt_IsZero (CR_GetSingleElement b) \<or> SInt_IsZero maxA \<and> \<not> (CR_IsSingleElement b \<and> CR_IsSingleElement a)"
    | (single) "CR_IsSingleElement b" "\<not> SInt_IsZero (CR_GetSingleElement b)" "CR_IsSingleElement a"
        "\<not> CR_IsEmptySet a" "\<not> CR_IsEmptySet b"
    | (other) "\<not> CR_IsEmptySet a" "\<not> CR_IsEmptySet b" "\<not> SInt_IsZero maxA"
        "\<not> (CR_IsSingleElement b \<and> SInt_IsZero (CR_GetSingleElement b))"
        "\<not> (CR_IsSingleElement b \<and> CR_IsSingleElement a)"
    by blast
  then show thesis
  proof cases
    case empty
    have none: False if vxz: "v \<in> CR_gamma a" "x \<in> CR_gamma b" "SInt_SRem v x = Some z" for v x z
    proof -
      have "sv x = 0"
        using empty vxz mem_EmptySet mag [OF vxz(2)] SingleElement_mem [OF b]
          sv_zero_iff [OF gamma_wf [OF vxz(2)]] by (auto simp: IsZero_iff)
      then show False using zs [OF vxz] by simp
    qed
    have "CR_SRem a b = Some (CR_Empty ?w)"
      using empty by (auto simp: CR_SRem_def Let_def simp flip: ab_def maxA_def)
    then show thesis by (rule that) (use none in simp_all, blast)
  next
    case single
    obtain q where q: "SInt_SRem (CR_GetSingleElement a) (CR_GetSingleElement b) = Some q" "SInt_wf q" "width q = ?w"
      using SRem_Some [of "CR_GetSingleElement a" "CR_GetSingleElement b"] single d w
      by (metis CR_GetSingleElement_def IsZero_iff)
    have "z \<in> CR_gamma (CR_single q)"
      if "v \<in> CR_gamma a" "x \<in> CR_gamma b" "SInt_SRem v x = Some z" for v x z
      using that SingleElement_mem [OF a] SingleElement_mem [OF b] single q by (auto simp: mem_single)
    then show thesis using single q that [of "CR_single q"] by (auto simp: CR_SRem_def Let_def single_wf)
  next
    case other
    have abne: "\<not> CR_IsEmptySet ab"
    proof
      assume "CR_IsEmptySet ab"
      then have "CR_gamma b = {}" using Abs_range(2) [OF b, of _ False] mem_EmptySet [of ab] by (auto simp: ab_def)
      then show False using gamma_empty_iff [OF b] other by simp
    qed
    have maxA: "0 < uv maxA" "uv maxA \<le> half ?w"
      using other(3) uv_pos [of maxA] Abs_range(3) [OF b, of maxA False] UMaxMin_mem [OF ab(1) abne] w
      by (simp_all add: IsZero_iff maxA_def ab_def)
    have minA_le: "uv minA \<le> uv maxA" "0 < uv minA"
      using minA maxA(1) UMaxMin_bounds(1) [OF ab(1), of minA0] UMaxMin_mem [OF ab(1) abne] uv_pos [of minA0]
      by (auto simp: minA0_def maxA_def)
    have minA_x: "uv minA \<le> \<bar>sv x\<bar>" if "x \<in> CR_gamma b" "sv x \<noteq> 0" for x
      using mag [OF that(1)] that(2) minA by auto
    have nmin: "uv (SInt_Neg minA) = modulus ?w - uv minA" and nmax: "uv (SInt_Neg maxA) = modulus ?w - uv maxA"
      using mod_once_down [of "modulus ?w" "- uv minA"] mod_once_down [of "modulus ?w" "- uv maxA"]
        minA_le maxA M wfA by (simp_all add: Neg_uv)
    have bnd: "- half ?w \<le> sv ?lo" "sv ?lo \<le> sv ?hi" "sv ?hi < half ?w"
      using sbounds [of ?lo] sbounds [of ?hi] mm SMaxMin_bounds [OF a] SMaxMin_mem [OF a other(1)] by auto
    define hh where "hh = SInt_UMin ?hi (SInt_sub_u maxA 1)"
    define ll where "ll = SInt_UMax ?lo (SInt_add_u (SInt_Neg maxA) 1)"
    have hh: "SInt_wf hh" "width hh = ?w" "0 \<le> sv ?hi \<Longrightarrow> uv hh = min (sv ?hi) (uv maxA - 1)"
      using mm wfA maxA by (auto simp: hh_def UMin_wf UMin_width UMin_uv sub1_uv sv_pos_uv)
    have ll: "SInt_wf ll" "width ll = ?w" "sv ?lo < 0 \<Longrightarrow>
        uv ll = (if uv maxA = 1 then sv ?lo + modulus ?w else max (sv ?lo) (1 - uv maxA) + modulus ?w)"
      using mm wfA maxA nmax bnd M
      by (auto simp: ll_def UMax_wf UMax_width UMax_uv add1_uv sv_neg_uv max_def)
    have small: "z = v" if vxz: "v \<in> CR_gamma a" "x \<in> CR_gamma b" "SInt_SRem v x = Some z"
        and lt: "\<bar>sv v\<bar> < uv minA" for v x z
    proof -
      have "sv z = sv v"
        using zs [OF vxz] lt minA_x [OF vxz(2)] smod_facts(5) [of "sv x" "sv v"] by simp
      then show ?thesis using zs [OF vxz] gamma_wf [OF vxz(1)] gamma_width [OF vxz(1)] by (intro sv_inj) auto
    qed
    have sz: "SInt_wf z" "width z = ?w" "sv ?lo \<le> sv v" "sv v \<le> sv ?hi" "\<bar>sv z\<bar> \<le> \<bar>sv v\<bar>"
      "\<bar>sv z\<bar> < uv maxA" "0 \<le> sv v \<Longrightarrow> 0 \<le> sv z" "sv v \<le> 0 \<Longrightarrow> sv z \<le> 0"
      if vxz: "v \<in> CR_gamma a" "x \<in> CR_gamma b" "SInt_SRem v x = Some z" for v x z
      using zs [OF vxz] smod_facts [of "sv x" "sv v"] mag(2) [OF vxz(2)] SMaxMin_bounds [OF a vxz(1)] by auto
    have code: "CR_SRem a b =
       (if 0 \<le> sv ?lo then (if SInt_Ult ?hi minA then Some a else Some (CR_make (SInt_Zero ?w) (SInt_add_u hh 1)))
        else if sv ?hi < 0 then (if SInt_Ugt ?lo (SInt_Neg minA) then Some a else Some (CR_make ll (SInt_make ?w 1)))
        else Some (CR_make ll (SInt_add_u hh 1)))"
      using other mm unfolding CR_SRem_def Let_def ab_def [symmetric] maxA_def [symmetric] minA0_def [symmetric]
        minA_def [symmetric] hh_def [symmetric] ll_def [symmetric]
      by (auto simp: IsNonNeg_iff IsNeg_sv)
    consider (same_nonneg) "0 \<le> sv ?lo" "uv ?hi < uv minA" | (nonneg) "0 \<le> sv ?lo" "\<not> uv ?hi < uv minA"
      | (same_neg) "sv ?lo < 0" "sv ?hi < 0" "uv (SInt_Neg minA) < uv ?lo"
      | (neg) "sv ?lo < 0" "sv ?hi < 0" "\<not> uv (SInt_Neg minA) < uv ?lo"
      | (cross) "sv ?lo < 0" "0 \<le> sv ?hi"
      by linarith
    then show thesis
    proof cases
      case same_nonneg
      have "z \<in> CR_gamma a" if vxz: "v \<in> CR_gamma a" "x \<in> CR_gamma b" "SInt_SRem v x = Some z" for v x z
        using small [OF vxz] sz [OF vxz] same_nonneg vxz(1) mm bnd by (simp add: sv_pos_uv)
      moreover have "CR_SRem a b = Some a" using same_nonneg code by (simp add: ucmp_uv)
      ultimately show thesis using that [of a] a by blast
    next
      case same_neg
      have "z \<in> CR_gamma a" if vxz: "v \<in> CR_gamma a" "x \<in> CR_gamma b" "SInt_SRem v x = Some z" for v x z
        using small [OF vxz] sz [OF vxz] same_neg vxz(1) mm bnd nmin by (simp add: sv_neg_uv)
      moreover have "CR_SRem a b = Some a" using same_neg code by (simp add: ucmp_uv)
      ultimately show thesis using that [of a] a by blast
    next
      case nonneg
      have iv: "SInt_wf (SInt_Zero ?w)" "width (SInt_Zero ?w) = ?w" "SInt_wf hh" "width hh = ?w"
        "uv (SInt_Zero ?w) \<le> uv hh" "uv hh < modulus ?w - 1"
        using hh nonneg bnd maxA M by auto
      have code': "CR_SRem a b = Some (CR_make (SInt_Zero ?w) (SInt_add_u hh 1))"
        using nonneg code by (simp add: ucmp_uv)
      show thesis
      proof (rule that [OF code' plain_interval(1) [OF iv]])
        fix v x z assume vxz: "v \<in> CR_gamma a" "x \<in> CR_gamma b" "SInt_SRem v x = Some z"
        show "z \<in> CR_gamma (CR_make (SInt_Zero ?w) (SInt_add_u hh 1))"
          using plain_interval(2) [OF iv, of z] sz [OF vxz] nonneg hh(3) bnd by (simp add: sv_pos_uv)
      qed simp
    next
      case neg
      have ne: "uv ll > 1" using ll(3) neg bnd maxA M by auto
      have code': "CR_SRem a b = Some (CR_make ll (SInt_make ?w 1))" using neg code by (simp add: ucmp_uv)
      show thesis
      proof (rule that [OF code'])
        show "CR_wf (CR_make ll (SInt_make ?w 1))" using ll ne M by (intro make_CR_wf) (auto simp: make_uv)
        fix v x z assume vxz: "v \<in> CR_gamma a" "x \<in> CR_gamma b" "SInt_SRem v x = Some z"
        have "uv z = 0 \<or> uv ll \<le> uv z"
          using sz [OF vxz] neg ll(3) by (cases "sv z = 0") (auto simp: sv_pos_uv sv_neg_uv)
        then show "z \<in> CR_gamma (CR_make ll (SInt_make ?w 1))"
          using ne sz(1,2) [OF vxz] ll M by (auto simp: mem_make make_uv on_arc_def)
      qed (use ll in simp)
    next
      case cross
      have hu: "uv (SInt_add_u hh 1) = uv hh + 1" "uv hh < half ?w"
        using hh cross bnd M by (auto simp: add1_uv)
      have ne: "uv hh + 1 < uv ll" using ll(3) hh(3) cross bnd maxA M by (auto simp: min_def max_def)
      have code': "CR_SRem a b = Some (CR_make ll (SInt_add_u hh 1))" using cross code by simp
      show thesis
      proof (rule that [OF code'])
        show "CR_wf (CR_make ll (SInt_add_u hh 1))" using ll hh hu ne by (intro make_CR_wf) auto
        fix v x z assume vxz: "v \<in> CR_gamma a" "x \<in> CR_gamma b" "SInt_SRem v x = Some z"
        have "uv z \<le> uv hh \<or> uv ll \<le> uv z"
        proof (cases "sv z < 0")
          case True
          then have "sv v < 0" "\<not> 0 \<le> sv z" using sz(7) [OF vxz] by linarith+
          then have "sv ?lo \<le> sv z" "1 - uv maxA \<le> sv z"
            using sz(3,5,6) [OF vxz] by linarith+
          then show ?thesis using True sz(1,2) [OF vxz] ll(3) cross by (simp add: sv_neg_uv)
        next
          case False
          have "sv z \<le> sv ?hi"
          proof (cases "sv v \<le> 0")
            case True
            then show ?thesis using sz(8) [OF vxz] cross by linarith
          next
            case no: False
            then show ?thesis using False sz(4,5) [OF vxz] by linarith
          qed
          then show ?thesis using False sz(1,2,6) [OF vxz] hh(3) cross by (simp add: sv_pos_uv)
        qed
        then show "z \<in> CR_gamma (CR_make ll (SInt_add_u hh 1))"
          using ne hu sz(1,2) [OF vxz] ll by (auto simp: mem_make on_arc_def)
      qed (use ll in simp)
    qed
  qed
qed

end
