(* ===== verification/Bit_Counters.thy ===== *)
theory Bit_Counters
  imports Arith64
begin

text \<open>
  The portable bit counters of \<^verbatim>\<open>Arithmetic.h\<close>: the two bisections compute the
  counts the compiler builtins compute.
\<close>

section \<open>The highest and the lowest set bit\<close>

definition top_bit :: "64 word \<Rightarrow> nat \<Rightarrow> bool" where
  "top_bit v k \<longleftrightarrow> bit v k \<and> (\<forall>i > k. \<not> bit v i)"

definition low_bit :: "64 word \<Rightarrow> nat \<Rightarrow> bool" where
  "low_bit v k \<longleftrightarrow> bit v k \<and> (\<forall>i < k. \<not> bit v i)"

lemma bit_lt: "bit (v :: 64 word) k \<Longrightarrow> k < 64"
  using bit_imp_le_length [of v k] by simp

lemma some_bit: "(v :: 64 word) \<noteq> 0 \<Longrightarrow> \<exists>i. bit v i"
  by (rule ccontr) (auto intro: bit_word_eqI)

lemma top_exists: "v \<noteq> 0 \<Longrightarrow> \<exists>k. top_bit v k"
proof -
  assume "v \<noteq> 0"
  then obtain i where i: "bit v i" using some_bit by blast
  have "{i. bit v i} \<subseteq> {..<64}" using bit_lt by auto
  then have fin: "finite {i. bit v i}" by (rule finite_subset) simp
  then have "bit v (Max {i. bit v i})" using Max_in [OF fin] i by blast
  moreover have "\<not> bit v j" if "j > Max {i. bit v i}" for j
    using Max_ge [OF fin, of j] that by (metis mem_Collect_eq not_le)
  ultimately show ?thesis unfolding top_bit_def by blast
qed

lemma low_exists: "v \<noteq> 0 \<Longrightarrow> \<exists>k. low_bit v k"
proof -
  assume "v \<noteq> 0"
  then obtain i where "bit v i" using some_bit by blast
  then show ?thesis
    using LeastI [of "bit v" i] not_less_Least [of _ "bit v"] unfolding low_bit_def by blast
qed

lemma takeWhile_rev_upt:
  "P k \<Longrightarrow> k < n \<Longrightarrow> (\<And>i. k < i \<Longrightarrow> i < n \<Longrightarrow> \<not> P i) \<Longrightarrow>
   length (takeWhile (\<lambda>i. \<not> P i) (rev [0..<n])) = n - 1 - k"
proof (induction n)
  case (Suc n)
  show ?case
  proof (cases "k = n")
    case False
    then have "k < n" "\<not> P n" using Suc.prems by auto
    then show ?thesis using Suc by simp
  qed (use Suc.prems in simp)
qed simp

lemma takeWhile_upt:
  "P k \<Longrightarrow> k < n \<Longrightarrow> (\<And>i. i < k \<Longrightarrow> \<not> P i) \<Longrightarrow> length (takeWhile (\<lambda>i. \<not> P i) [0..<n]) = k"
proof -
  assume P: "P k" "k < n" "\<And>i. i < k \<Longrightarrow> \<not> P i"
  have "[0..<n] = [0..<k] @ k # [Suc k..<n]"
    using P(2) by (metis less_imp_le_nat upt_add_eq_append upt_conv_Cons le0 le_add_diff_inverse)
  then show ?thesis using P by (simp add: takeWhile_append)
qed

lemma Clz_top: "top_bit v k \<Longrightarrow> Clz v = 63 - k"
  using takeWhile_rev_upt [of "bit v" k 64] bit_lt [of v k] by (auto simp: Clz_def top_bit_def)

lemma Ctz_low: "low_bit v k \<Longrightarrow> Ctz v = k"
  using takeWhile_upt [of "bit v" k 64] bit_lt [of v k] by (auto simp: Ctz_def low_bit_def)

section \<open>Bisection\<close>

fun powers_down :: "nat \<Rightarrow> nat list" where
  "powers_down 0 = []"
| "powers_down (Suc n) = 2 ^ n # powers_down n"

lemma or_pow2: "2 ^ Suc n dvd (z :: nat) \<Longrightarrow> z OR 2 ^ n = z + 2 ^ n"
proof -
  assume "2 ^ Suc n dvd z"
  then obtain c where c: "z = 2 ^ n * (2 * c)" by (metis dvd_def power_Suc2 mult.assoc)
  then have "even (z div 2 ^ n)" by simp
  then have "\<not> bit z n" by (simp add: bit_iff_odd)
  then show ?thesis by (intro disjunctive_add [symmetric]) (auto simp: bit_exp_iff)
qed

lemma clz_loop_powers:
  "top_bit v k \<Longrightarrow> k < 2 ^ n \<Longrightarrow> 2 ^ n dvd z \<Longrightarrow> clz_loop (powers_down n) v z = z + (2 ^ n - 1 - k)"
proof (induction n arbitrary: v k z)
  case (Suc n)
  have d: "2 ^ n dvd z" using Suc.prems(3) by (metis dvd_mult_right power_Suc)
  show ?case
  proof (cases "2 ^ n \<le> k")
    case True
    have t: "top_bit (drop_bit (2 ^ n) v) (k - 2 ^ n)"
      using Suc.prems(1) True by (simp add: top_bit_def bit_drop_bit_eq)
    then have "drop_bit (2 ^ n) v \<noteq> 0" unfolding top_bit_def by (metis bit_0_eq bot_apply bot_bool_def)
    then show ?thesis using Suc.IH [OF t _ d] Suc.prems True by (simp add: Let_def)
  next
    case False
    have "drop_bit (2 ^ n) v = 0"
    proof (rule bit_word_eqI)
      fix i
      have "\<not> bit v (2 ^ n + i)" using Suc.prems(1) False unfolding top_bit_def by simp
      then show "bit (drop_bit (2 ^ n) v) i = bit (0 :: 64 word) i" by (simp add: bit_drop_bit_eq)
    qed
    moreover have "2 ^ n dvd z + 2 ^ n" using d by simp
    ultimately show ?thesis using Suc.IH [OF Suc.prems(1), of "z + 2 ^ n"] Suc.prems(2,3) False
      by (simp add: Let_def or_pow2)
  qed
qed simp

lemma low_and_mask:
  assumes "low_bit v k"
  shows "v AND mask m = 0 \<longleftrightarrow> m \<le> k"
proof
  assume "v AND mask m = 0"
  then have "\<not> bit (v AND mask m) k" by simp
  then show "m \<le> k" using assms bit_lt [of v k] by (auto simp: low_bit_def bit_and_iff bit_mask_iff)
next
  assume "m \<le> k"
  then show "v AND mask m = 0"
    using assms by (intro bit_word_eqI) (auto simp: low_bit_def bit_and_iff bit_mask_iff)
qed

lemma ctz_loop_powers:
  "low_bit v k \<Longrightarrow> k < 2 ^ n \<Longrightarrow> 2 ^ n dvd z \<Longrightarrow> n \<le> 6 \<Longrightarrow>
   ctz_loop (powers_down n) v (mask (2 ^ (n - 1))) z = z + k"
proof (induction n arbitrary: v k z)
  case (Suc n)
  have d: "2 ^ n dvd z" using Suc.prems(3) by (metis dvd_mult_right power_Suc)
  have n: "n \<in> {0, 1, 2, 3, 4, 5}" using Suc.prems(4) by auto
  have m: "ctz_loop (powers_down n) x (drop_bit (2 ^ n div 2) (mask (2 ^ n))) y =
      ctz_loop (powers_down n) x (mask (2 ^ (n - 1))) y" for x y
    using n by (elim insertE) (simp_all add: mask_eq_exp_minus_1)
  show ?case
  proof (cases "2 ^ n \<le> k")
    case True
    have t: "low_bit (drop_bit (2 ^ n) v) (k - 2 ^ n)"
      using Suc.prems(1) True by (simp add: low_bit_def bit_drop_bit_eq)
    have "2 ^ n dvd z + 2 ^ n" using d by simp
    then show ?thesis using Suc.IH [OF t, of "z + 2 ^ n"] Suc.prems True m low_and_mask [OF Suc.prems(1), of "2 ^ n"]
      by (simp add: or_pow2)
  next
    case False
    then show ?thesis using Suc.IH [OF Suc.prems(1) _ d] Suc.prems(4) m low_and_mask [OF Suc.prems(1), of "2 ^ n"]
      by simp
  qed
qed simp

lemma LeadingZeroes_bisection: "v \<noteq> 0 \<Longrightarrow> LeadingZeroesCounter_Count v = Clz v"
proof -
  assume "v \<noteq> 0"
  then obtain k where k: "top_bit v k" using top_exists by blast
  have "powers_down 6 = [32, 16, 8, 4, 2, 1]" by code_simp
  then show ?thesis using clz_loop_powers [OF k, of 6 0] Clz_top [OF k] bit_lt [of v k] k
    by (simp add: LeadingZeroesCounter_Count_def top_bit_def)
qed

lemma TrailingZeroes_bisection: "v \<noteq> 0 \<Longrightarrow> TrailingZeroesCounter_Count v = Ctz v"
proof -
  assume "v \<noteq> 0"
  then obtain k where k: "low_bit v k" using low_exists by blast
  have p: "powers_down 6 = [32, 16, 8, 4, 2, 1]" by code_simp
  have odd: "v AND 1 \<noteq> 0 \<longleftrightarrow> k = 0"
    using low_and_mask [OF k, of 1] by (auto simp: mask_eq_exp_minus_1)
  show ?thesis
  proof (cases "k = 0")
    case True
    then show ?thesis using odd Ctz_low [OF k] by (simp add: TrailingZeroesCounter_Count_def)
  next
    case False
    have "drop_bit 32 (- 1) = (mask 32 :: 64 word)" by code_simp
    then show ?thesis using False odd ctz_loop_powers [OF k, of 6 0] Ctz_low [OF k] bit_lt [of v k] k
      by (simp add: TrailingZeroesCounter_Count_def p low_bit_def)
  qed
qed

end
