(* ===== verification/SInt_Properties.thy ===== *)
theory SInt_Properties
  imports Range_MulDiv Bit_Counters
begin

text \<open>
  The properties of the fixed-width integer \<^verbatim>\<open>SInt\<close> and of the 64-bit helpers it
  is built on, with an instance of each theorem that has hypotheses.
\<close>

section \<open>Wrapping arithmetic and comparison\<close>

text \<open>C40: Addition, subtraction, multiplication, negation and the increments are arithmetic
  modulo the width, whatever the operands, and leave no bit set above the width.\<close>

theorem arithmetic_modular:
  "uv (SInt_add x y) = (uv x + uv y) mod modulus (width x) \<and>
   uv (SInt_sub x y) = (uv x - uv y) mod modulus (width x) \<and>
   uv (SInt_mul x y) = (uv x * uv y) mod modulus (width x) \<and>
   uv (SInt_Neg x) = (- uv x) mod modulus (width x) \<and>
   uv (SInt_inc x) = (uv x + 1) mod modulus (width x) \<and>
   uv (SInt_dec x) = (uv x - 1) mod modulus (width x) \<and>
   list_all SInt_wf [SInt_add x y, SInt_sub x y, SInt_mul x y, SInt_Neg x, SInt_inc x, SInt_dec x]"
  by (simp add: add_uv sub_uv mul_uv Neg_uv inc_uv dec_uv)

text \<open>The sixteen comparisons of two values of one width are the comparisons of their
  unsigned and of their signed readings.\<close>

theorem comparison_orders:
  assumes "SInt_wf x" "SInt_wf y" "width y = width x"
  shows "(SInt_Ult x y \<longleftrightarrow> uv x < uv y) \<and> (SInt_Ule x y \<longleftrightarrow> uv x \<le> uv y) \<and>
    (SInt_Ugt x y \<longleftrightarrow> uv x > uv y) \<and> (SInt_Uge x y \<longleftrightarrow> uv x \<ge> uv y) \<and>
    (SInt_Slt x y \<longleftrightarrow> sv x < sv y) \<and> (SInt_Sle x y \<longleftrightarrow> sv x \<le> sv y) \<and>
    (SInt_Sgt x y \<longleftrightarrow> sv x > sv y) \<and> (SInt_Sge x y \<longleftrightarrow> sv x \<ge> sv y) \<and>
    (SInt_eq x y \<longleftrightarrow> x = y) \<and> (SInt_ne x y \<longleftrightarrow> x \<noteq> y)"
  using assms SInt_ext [of x y] by (auto simp: ucmp_uv scmp_sv eq_iff_uv)

theorem comparison_orders_witness:
  "SInt_Ult (SInt_make I8 3) (SInt_make I8 200) \<and> SInt_Sgt (SInt_make I8 3) (SInt_make I8 200)"
proof -
  have h: "SInt_wf (SInt_make I8 3)" "SInt_wf (SInt_make I8 200)" "width (SInt_make I8 200) = width (SInt_make I8 3)"
    by simp_all
  have "uv (SInt_make I8 3) < uv (SInt_make I8 200)" "sv (SInt_make I8 3) > sv (SInt_make I8 200)" by code_simp+
  then show ?thesis using comparison_orders [OF h] by blast
qed

section \<open>Overflow and saturation\<close>

text \<open>Each of the six operations that report overflow returns the wrapped result, and the
  flag is set exactly when the integer result does not fit the width; the multiplications
  never hit a division by zero or an oversized shift on the way.\<close>

theorem overflow_flags_exact:
  assumes "SInt_wf x" "SInt_wf y" "width y = width x"
  shows "SInt_UAddOvf x y = (SInt_add x y, \<not> fits_u (width x) (uv x + uv y)) \<and>
    SInt_USubOvf x y = (SInt_sub x y, \<not> fits_u (width x) (uv x - uv y)) \<and>
    SInt_SAddOvf x y = (SInt_add x y, \<not> fits_s (width x) (sv x + sv y)) \<and>
    SInt_SSubOvf x y = (SInt_sub x y, \<not> fits_s (width x) (sv x - sv y)) \<and>
    SInt_UMulOvf x y = Some (SInt_mul x y, \<not> fits_u (width x) (uv x * uv y)) \<and>
    SInt_SMulOvf x y = Some (SInt_mul x y, \<not> fits_s (width x) (sv x * sv y))"
  using UAddOvf_spec [OF assms] USubOvf_spec [OF assms] SAddOvf_spec [OF assms] SSubOvf_spec [OF assms]
    UMulOvf_spec [OF assms] SMulOvf_spec [OF assms] by blast

theorem overflow_flags_exact_witness:
  "SInt_SAddOvf (SInt_make I8 100) (SInt_make I8 50) = (SInt_make I8 150, True) \<and>
   SInt_UAddOvf (SInt_make I8 100) (SInt_make I8 50) = (SInt_make I8 150, False)"
proof -
  have h: "SInt_wf (SInt_make I8 100)" "SInt_wf (SInt_make I8 50)" "width (SInt_make I8 50) = width (SInt_make I8 100)"
    by simp_all
  have "SInt_add (SInt_make I8 100) (SInt_make I8 50) = SInt_make I8 150"
    "\<not> fits_s (width (SInt_make I8 100)) (sv (SInt_make I8 100) + sv (SInt_make I8 50))"
    "fits_u (width (SInt_make I8 100)) (uv (SInt_make I8 100) + uv (SInt_make I8 50))" by code_simp+
  then show ?thesis using overflow_flags_exact [OF h] by simp
qed

text \<open>The saturating additions, subtractions and multiplications return the value of the
  width that is nearest to the integer result; so does the saturating signed division, whose
  divisor must not be zero.\<close>

theorem saturation_clamps:
  assumes "SInt_wf x" "SInt_wf y" "width y = width x"
  shows "uv (SInt_UAddSat x y) = clamp_u (width x) (uv x + uv y) \<and>
    uv (SInt_USubSat x y) = clamp_u (width x) (uv x - uv y) \<and>
    sv (SInt_SAddSat x y) = clamp_s (width x) (sv x + sv y) \<and>
    sv (SInt_SSubSat x y) = clamp_s (width x) (sv x - sv y) \<and>
    map_option uv (SInt_UMulSat x y) = Some (clamp_u (width x) (uv x * uv y)) \<and>
    map_option sv (SInt_SMulSat x y) = Some (clamp_s (width x) (sv x * sv y)) \<and>
    (uv y \<noteq> 0 \<longrightarrow> map_option sv (SInt_SDivSat x y) = Some (clamp_s (width x) (sv x sdiv sv y)))"
proof -
  have "map_option uv (SInt_UMulSat x y) = Some (clamp_u (width x) (uv x * uv y))"
    by (rule UMulSat_spec [OF assms]) simp
  moreover have "map_option sv (SInt_SMulSat x y) = Some (clamp_s (width x) (sv x * sv y))"
    by (rule SMulSat_spec [OF assms]) simp
  moreover have "map_option sv (SInt_SDivSat x y) = Some (clamp_s (width x) (sv x sdiv sv y))" if "uv y \<noteq> 0"
    by (rule SDivSat_spec [OF assms that]) simp
  ultimately show ?thesis
    using UAddSat_spec(3) [OF assms] USubSat_spec(3) [OF assms] SAddSat_spec(3) [OF assms] SSubSat_spec(3) [OF assms]
    by blast
qed

theorem saturation_clamps_witness:
  "sv (SInt_SSubSat (SInt_make I8 156) (SInt_make I8 50)) = - 128 \<and>
   map_option sv (SInt_SDivSat (SInt_make I8 128) (SInt_make I8 255)) = Some 127"
proof -
  have h: "SInt_wf (SInt_make I8 156)" "SInt_wf (SInt_make I8 50)" "width (SInt_make I8 50) = width (SInt_make I8 156)"
    and h2: "SInt_wf (SInt_make I8 128)" "SInt_wf (SInt_make I8 255)" "width (SInt_make I8 255) = width (SInt_make I8 128)"
    by simp_all
  have e: "clamp_s (width (SInt_make I8 156)) (sv (SInt_make I8 156) - sv (SInt_make I8 50)) = - 128"
    "clamp_s (width (SInt_make I8 128)) (sv (SInt_make I8 128) sdiv sv (SInt_make I8 255)) = 127"
    "uv (SInt_make I8 255) \<noteq> 0" by code_simp+
  show ?thesis using saturation_clamps [OF h] saturation_clamps [OF h2] e by simp
qed

section \<open>Division and casts\<close>

text \<open>C38: Division and remainder have no result exactly when the divisor is zero. Otherwise the
  unsigned ones are integer division and remainder, and the signed ones truncate toward zero
  and are taken modulo the width, which shows only for the least value divided by -1.\<close>

theorem division_truncates:
  assumes "SInt_wf x" "SInt_wf y" "width y = width x"
  shows "if uv y = 0 then SInt_UDiv x y = None \<and> SInt_URem x y = None \<and> SInt_SDiv x y = None \<and> SInt_SRem x y = None
    else \<exists>q r s t. SInt_UDiv x y = Some q \<and> SInt_URem x y = Some r \<and> SInt_SDiv x y = Some s \<and> SInt_SRem x y = Some t \<and>
      uv q = uv x div uv y \<and> uv r = uv x mod uv y \<and> uv s = (sv x sdiv sv y) mod modulus (width x) \<and>
      sv t = sv x smod sv y"
proof (cases "uv y = 0")
  case True
  then show ?thesis using UDiv_None URem_None SDiv_None [OF assms(1,2)] SRem_None [OF assms(1,2)] by simp
next
  case False
  obtain q r s t where z: "SInt_UDiv x y = Some q" "SInt_URem x y = Some r" "SInt_SDiv x y = Some s"
    "SInt_SRem x y = Some t" "uv q = uv x div uv y" "uv r = uv x mod uv y"
    "uv s = (sv x sdiv sv y) mod modulus (width x)"
    using UDiv_Some [OF assms(1) False] URem_Some [OF assms(1) False] SDiv_Some [OF assms False] SRem_Some [OF assms False]
    by metis
  then show ?thesis using False SRem_sv(4) [OF assms z(4)] by simp
qed

theorem division_truncates_witness:
  "SInt_SDiv (SInt_make I8 249) (SInt_make I8 2) = Some (SInt_make I8 253) \<and>
   (\<exists>t. SInt_SRem (SInt_make I8 249) (SInt_make I8 2) = Some t \<and> sv t = - 1) \<and>
   SInt_SDiv (SInt_make I8 249) (SInt_make I8 0) = None"
proof -
  have h: "SInt_wf (SInt_make I8 249)" "SInt_wf (SInt_make I8 2)" "width (SInt_make I8 2) = width (SInt_make I8 249)"
    and h0: "SInt_wf (SInt_make I8 249)" "SInt_wf (SInt_make I8 0)" "width (SInt_make I8 0) = width (SInt_make I8 249)"
    by simp_all
  have e: "uv (SInt_make I8 2) \<noteq> 0" "uv (SInt_make I8 0) = 0" "sv (SInt_make I8 249) smod sv (SInt_make I8 2) = - 1"
    "SInt_SDiv (SInt_make I8 249) (SInt_make I8 2) = Some (SInt_make I8 253)" by code_simp+
  show ?thesis using division_truncates [OF h] division_truncates [OF h0] e by (simp, metis)
qed

text \<open>C39: Truncating a value that was extended, with zeroes or with its sign, gives the value
  back, and the extensions keep the unsigned and the signed reading.\<close>

theorem extend_truncate:
  assumes "SInt_wf x" "width x \<le> w"
  shows "SInt_Trunc (SInt_ZExt x w) (width x) = x \<and> SInt_Trunc (SInt_SExt x w) (width x) = x \<and>
    uv (SInt_ZExt x w) = uv x \<and> sv (SInt_SExt x w) = sv x"
proof -
  note z = ZExt_simps [OF assms] and s = SExt_simps [OF assms(1), of w] SExt_sv [OF assms]
  have "(sv x mod modulus w) mod modulus (width x) = uv x"
    using mod_mod_cancel [OF modulus_mono [OF assms(2)], of "sv x"] sv_mod [OF assms(1)] by simp
  then have "SInt_Trunc (SInt_SExt x w) (width x) = x"
    using s by (intro SInt_ext) (simp_all add: Trunc_simps)
  moreover have "SInt_Trunc (SInt_ZExt x w) (width x) = x"
    using z uv_mod_self [OF assms(1)] by (intro SInt_ext) (simp_all add: Trunc_simps)
  ultimately show ?thesis using z(1) s(4) by blast
qed

theorem extend_truncate_witness:
  "SInt_SExt (SInt_make I8 200) I32 = SInt_make I32 4294967240 \<and>
   SInt_Trunc (SInt_SExt (SInt_make I8 200) I32) I8 = SInt_make I8 200"
proof -
  have h: "SInt_wf (SInt_make I8 200)" "width (SInt_make I8 200) \<le> I32" by code_simp+
  have "SInt_SExt (SInt_make I8 200) I32 = SInt_make I32 4294967240" by code_simp
  then show ?thesis using extend_truncate [OF h] by simp
qed

section \<open>Bit counts\<close>

text \<open>The two bisections of the portable bit counters compute, for every 64-bit operand
  other than zero, the number of zero bits above the highest and below the lowest set bit.\<close>

theorem bisection_counts:
  assumes "v \<noteq> 0"
  shows "LeadingZeroesCounter_Count v = Clz v \<and> TrailingZeroesCounter_Count v = Ctz v"
  using LeadingZeroes_bisection [OF assms] TrailingZeroes_bisection [OF assms] by blast

theorem bisection_counts_witness:
  "LeadingZeroesCounter_Count 40 = 58 \<and> TrailingZeroesCounter_Count 40 = 3"
proof -
  have "Clz 40 = 58" "Ctz 40 = 3" by code_simp+
  then show ?thesis using bisection_counts [of 40] by simp
qed

text \<open>\<^verbatim>\<open>IsSubsetOf\<close> answers the opposite of what its documentation says: it
  holds of two values exactly when some bit set in the first is not set in the second.\<close>

theorem IsSubsetOf_inverted:
  "SInt_IsSubsetOf x y \<longleftrightarrow> (\<exists>i. bit (val x) i \<and> \<not> bit (val y) i)"
proof -
  have "val x AND NOT (val y) \<noteq> 0 \<longleftrightarrow> (\<exists>i. bit (val x AND NOT (val y)) i)"
    using some_bit by auto
  then show ?thesis by (auto simp: SInt_IsSubsetOf_def bit_and_iff bit_not_iff possible_bit_def dest: bit_lt)
qed

end
