(* ===== verification/Range_SDiv.thy ===== *)
theory Range_SDiv
  imports Range_MulDiv
begin

text \<open>
  Signed division of ranges. The code splits both operands by sign, divides the bounds of
  the parts and joins the results. \<open>SDivImpl_range\<close> shows that the result covers every quotient
  that does not overflow, except for one shape of the dividend, for which
  \<open>SDivImpl_gap\<close> gives the quotient that is lost.
\<close>

section \<open>The parts of one sign\<close>

definition posFilter :: "IntWidth \<Rightarrow> ConstantRange" where
  "posFilter w = CR_make (SInt_make w 1) (SInt_SMinValue w)"

definition negFilter :: "IntWidth \<Rightarrow> ConstantRange" where
  "negFilter w = CR_make (SInt_SMinValue w) (SInt_Zero w)"

lemma make_1 [simp]: "uv (SInt_make w 1) = 1" "sv (SInt_make w 1) = 1"
  using modulus_ge [of w] half_ge [of w] by (simp_all add: make_uv sv_def)

lemma sv_Zero [simp]: "sv (SInt_Zero w) = 0"
  by (simp add: sv_def)

lemma filters:
  "CR_wf (posFilter w)" "CR_Width (posFilter w) = w" "CR_wf (negFilter w)" "CR_Width (negFilter w) = w"
  "v \<in> CR_gamma (posFilter w) \<longleftrightarrow> SInt_wf v \<and> width v = w \<and> 0 < sv v"
  "v \<in> CR_gamma (negFilter w) \<longleftrightarrow> SInt_wf v \<and> width v = w \<and> sv v < 0"
proof -
  have h: "half w \<noteq> 1" "half w \<noteq> 0" "1 < half w" using half_ge [of w] by simp_all
  show "CR_wf (posFilter w)" "CR_Width (posFilter w) = w" "CR_wf (negFilter w)" "CR_Width (negFilter w) = w"
    using h by (simp_all add: posFilter_def negFilter_def make_CR_wf)
  show "v \<in> CR_gamma (posFilter w) \<longleftrightarrow> SInt_wf v \<and> width v = w \<and> 0 < sv v"
    using h sbounds [of v] by (auto simp: posFilter_def mem_make_signed on_arc_def)
  show "v \<in> CR_gamma (negFilter w) \<longleftrightarrow> SInt_wf v \<and> width v = w \<and> sv v < 0"
    using h sbounds [of v] by (auto simp: negFilter_def mem_make_signed on_arc_def)
qed

text \<open>A range that overlaps a sign class at both ends is larger than the class, so the
  class is the smaller of the two, and the part never leaves it.\<close>

lemma smaller_filter:
  assumes r: "CR_wf r" and f: "f = posFilter (CR_Width r) \<or> f = negFilter (CR_Width r)"
    and two: "overlap_twice r f" and nf: "\<not> CR_IsFullSet r"
  shows "CR_IsSizeStrictlySmallerThan f r" "\<not> CR_IsSizeStrictlySmallerThan r f"
proof -
  let ?w = "CR_Width r"
  note d = CR_wfD [OF r]
  have M: "modulus ?w = 2 * half ?w" "128 \<le> half ?w" by (rule modulus_half half_ge)+
  have fwf: "CR_wf f" using f filters by auto
  have ff: "\<not> CR_IsFullSet f" "span f \<le> half ?w"
    using f M mod_once_down [of "2 * half ?w" "- half ?w"]
    by (auto simp: posFilter_def negFilter_def IsFullSet_iff span_def)
  have ne: "\<not> CR_IsEmptySet r" using two gamma_not_empty by (auto simp: overlap_twice_def)
  then have p: "uv (lower r) \<noteq> uv (upper r)" using wf_cases [OF r] nf by metis
  have out: "upper r \<notin> CR_gamma r" using p by (auto simp: mem_iff IsFullSet_iff on_arc_def)
  then have uf: "upper r \<in> CR_gamma f" using two d by (auto simp: overlap_twice_def)
  have lf: "lower r \<in> CR_gamma f" and fl: "lower f \<in> CR_gamma r"
    using two by (auto simp: overlap_twice_def)
  have s: "span r = (if uv (upper r) < uv (lower r) then uv (upper r) - uv (lower r) + modulus ?w
      else uv (upper r) - uv (lower r))"
    unfolding span_def using d by (subst mod_once_down) auto
  have "SInt_Zero ?w \<in> CR_gamma r"
    using two [unfolded overlap_twice_def] f filters(5,6) [of "SInt_Zero ?w"] Zero_simps(2,3) [of ?w]
    by (metis less_irrefl sv_Zero)
  then have arc: "on_arc (uv (lower r)) (uv (upper r)) 0" using nf by (simp add: mem_iff)
  have "half ?w < span r" using f
  proof
    assume f: "f = posFilter ?w"
    then have "0 < sv (lower r)" "0 < sv (upper r)" using lf uf by (auto simp: filters)
    then have "0 < uv (lower r)" "uv (lower r) < half ?w" "0 < uv (upper r)" "uv (upper r) < half ?w"
      using d sbounds [OF d(1)] sbounds [OF d(2)] by (auto simp: sv_pos_uv)
    then show ?thesis using p arc s M by (auto simp: on_arc_def split: if_splits)
  next
    assume f: "f = negFilter ?w"
    then have "sv (lower r) < 0" "sv (upper r) < 0" using lf uf by (auto simp: filters)
    then have "half ?w \<le> uv (lower r)" "half ?w \<le> uv (upper r)"
      using d sbounds [OF d(1)] sbounds [OF d(2)] M by (auto simp: sv_neg_uv)
    then show ?thesis using p arc s M d by (auto simp: on_arc_def split: if_splits)
  qed
  then show "CR_IsSizeStrictlySmallerThan f r" "\<not> CR_IsSizeStrictlySmallerThan r f"
    using IsSizeStrictlySmallerThan_span [OF fwf r ff(1) nf] IsSizeStrictlySmallerThan_span [OF r fwf nf ff(1)] ff(2)
    by simp_all
qed

lemma part_cases:
  assumes r: "CR_wf r" and f: "f = posFilter (CR_Width r) \<or> f = negFilter (CR_Width r)"
  shows "CR_gamma (CR_IntersectWith r f Smallest) = CR_gamma r \<inter> CR_gamma f \<or>
    CR_IntersectWith r f Smallest = f \<and> overlap_twice r f"
proof -
  let ?i = "CR_IntersectWith r f Smallest"
  have fwf: "CR_wf f" "CR_Width f = CR_Width r" using f filters by auto
  have m: "meets Smallest r f ?i" using IntersectWith_meets [OF r fwf] .
  show ?thesis
  proof (cases "CR_gamma ?i = CR_gamma r \<inter> CR_gamma f")
    case False
    then have two: "overlap_twice r f" and i: "?i = GetPreferredRange r f Smallest \<or> ?i = GetPreferredRange f r Smallest"
      using m by (auto simp: meets_def)
    show ?thesis
    proof (cases "CR_IsFullSet r")
      case True
      then have "CR_gamma r \<inter> CR_gamma f = CR_gamma f"
        using gamma_wf gamma_width fwf(2) by (auto simp: mem_FullSet)
      moreover have "?i = f"
      proof -
        have "\<not> CR_IsFullSet f" using f half_ge [of "CR_Width r"] modulus_half [of "CR_Width r"]
          by (auto simp: posFilter_def negFilter_def IsFullSet_iff)
        moreover have "\<not> CR_IsEmptySet r" "\<not> CR_IsEmptySet f"
          using two gamma_not_empty by (auto simp: overlap_twice_def)
        ultimately show ?thesis using True by (subst CR_IntersectWith.simps) simp
      qed
      ultimately show ?thesis by simp
    next
      case False
      then show ?thesis using smaller_filter [OF r f two] i two by (auto simp: GetPreferredRange_def)
    qed
  qed simp
qed

text \<open>An interval that avoids one end of the signed order is sorted: its bounds are its
  least and its greatest element.\<close>

definition CR_last :: "ConstantRange \<Rightarrow> SInt" where
  "CR_last r = SInt_sub_u (upper r) 1"

lemma sorted_interval:
  assumes r: "CR_wf r" and ne: "\<not> CR_IsEmptySet r"
    and avoid: "SInt_SMinValue (CR_Width r) \<notin> CR_gamma r \<or> SInt_SMaxValue (CR_Width r) \<notin> CR_gamma r"
  shows "lower r \<in> CR_gamma r" "CR_last r \<in> CR_gamma r"
    "\<And>v. v \<in> CR_gamma r \<Longrightarrow> sv (lower r) \<le> sv v \<and> sv v \<le> sv (CR_last r)"
proof -
  let ?w = "CR_Width r"
  note d = CR_wfD [OF r]
  have nf: "\<not> CR_IsFullSet r" using avoid by (auto simp: mem_FullSet)
  have p: "uv (lower r) \<noteq> uv (upper r)" using wf_cases [OF r] nf ne by metis
  have sp: "sv (lower r) \<noteq> sv (upper r)" using p sv_neq_iff [of "lower r" "upper r"] d by auto
  have mem: "v \<in> CR_gamma r \<longleftrightarrow> SInt_wf v \<and> width v = ?w \<and> on_arc (sv (lower r)) (sv (upper r)) (sv v)" for v
    using mem_signed_iff [OF r] nf sp by auto
  have b: "- half ?w \<le> sv (lower r)" "sv (lower r) < half ?w" "- half ?w \<le> sv (upper r)" "sv (upper r) < half ?w"
    using sbounds [OF d(1)] sbounds [OF d(2)] d(3,4) by auto
  have l: "SInt_wf (CR_last r)" "width (CR_last r) = ?w"
    "sv (CR_last r) = (if sv (upper r) = - half ?w then half ?w - 1 else sv (upper r) - 1)"
    using d by (simp_all add: CR_last_def sub1_sv)
  have h: "0 < half ?w" by simp
  have sort: "sv (lower r) < sv (upper r) \<or> sv (upper r) = - half ?w"
  proof (rule ccontr)
    assume "\<not> ?thesis"
    then have "sv (upper r) < sv (lower r)" "- half ?w < sv (upper r)" using sp b by auto
    then have "SInt_SMinValue ?w \<in> CR_gamma r" "SInt_SMaxValue ?w \<in> CR_gamma r"
      using b by (auto simp: mem on_arc_def)
    then show False using avoid by blast
  qed
  show "lower r \<in> CR_gamma r" using d sp by (auto simp: mem on_arc_def)
  show "CR_last r \<in> CR_gamma r" using sort sp l b by (auto simp: mem on_arc_def)
  fix v assume "v \<in> CR_gamma r"
  then have v: "SInt_wf v" "width v = ?w" "on_arc (sv (lower r)) (sv (upper r)) (sv v)" by (simp_all add: mem)
  have "- half ?w \<le> sv v" "sv v < half ?w" using sbounds [OF v(1)] v(2) by auto
  then show "sv (lower r) \<le> sv v \<and> sv v \<le> sv (CR_last r)"
    using v(3) sort b l(3) by (auto simp: on_arc_def split: if_splits)
qed

lemma part_facts:
  assumes r: "CR_wf r" and f: "f = posFilter (CR_Width r) \<or> f = negFilter (CR_Width r)"
  defines "i \<equiv> CR_IntersectWith r f Smallest"
  shows "CR_wf i" "CR_Width i = CR_Width r" "CR_gamma i \<subseteq> CR_gamma f"
    "CR_gamma r \<inter> CR_gamma f \<subseteq> CR_gamma i"
    "\<not> CR_IsEmptySet i \<Longrightarrow> lower i \<in> CR_gamma i \<and> CR_last i \<in> CR_gamma i"
    "v \<in> CR_gamma i \<Longrightarrow> sv (lower i) \<le> sv v \<and> sv v \<le> sv (CR_last i)"
proof -
  have fwf: "CR_wf f" "CR_Width f = CR_Width r" using f filters by auto
  show i: "CR_wf i" "CR_Width i = CR_Width r" "CR_gamma r \<inter> CR_gamma f \<subseteq> CR_gamma i"
    using IntersectWith_meets [OF r fwf, of Smallest] by (simp_all add: meets_def i_def)
  show sub: "CR_gamma i \<subseteq> CR_gamma f" using part_cases [OF r f] by (auto simp: i_def)
  have "SInt_SMinValue (CR_Width i) \<notin> CR_gamma i \<or> SInt_SMaxValue (CR_Width i) \<notin> CR_gamma i"
    using sub f i(2) half_ge [of "CR_Width r"] filters(5) [of "SInt_SMinValue (CR_Width r)" "CR_Width r"]
      filters(6) [of "SInt_SMaxValue (CR_Width r)" "CR_Width r"] by auto
  note sorted = sorted_interval [OF i(1) _ this]
  show "\<not> CR_IsEmptySet i \<Longrightarrow> lower i \<in> CR_gamma i \<and> CR_last i \<in> CR_gamma i" using sorted by blast
  show "v \<in> CR_gamma i \<Longrightarrow> sv (lower i) \<le> sv v \<and> sv v \<le> sv (CR_last i)"
    using sorted(3) gamma_not_empty by blast
qed

section \<open>Quotients of bounds\<close>

lemma sdiv_signs:
  fixes x y :: int
  shows "0 \<le> x \<Longrightarrow> 0 < y \<Longrightarrow> x sdiv y = x div y"
    "x \<le> 0 \<Longrightarrow> y < 0 \<Longrightarrow> x sdiv y = (- x) div (- y)"
    "0 \<le> x \<Longrightarrow> y < 0 \<Longrightarrow> x sdiv y = - (x div (- y))"
    "x \<le> 0 \<Longrightarrow> 0 < y \<Longrightarrow> x sdiv y = - ((- x) div y)"
  by (auto simp: signed_divide_int_def sgn_if)

lemma quot_box:
  fixes x y lx hx ly hy :: int
  assumes "0 \<le> lx" "lx \<le> x" "x \<le> hx" "0 < ly" "ly \<le> y" "y \<le> hy"
  shows "0 \<le> lx div hy" "lx div hy \<le> x div y" "x div y \<le> hx div ly" "hx div ly \<le> hx"
proof -
  show "0 \<le> lx div hy" using assms by (simp add: pos_imp_zdiv_nonneg_iff)
  have "lx div hy \<le> lx div y" using assms by (intro zdiv_mono2) linarith+
  also have "\<dots> \<le> x div y" using assms by (intro zdiv_mono1) linarith+
  finally show "lx div hy \<le> x div y" .
  have "x div y \<le> hx div y" using assms by (intro zdiv_mono1) linarith+
  also have "\<dots> \<le> hx div ly" using assms by (intro zdiv_mono2) linarith+
  finally show "x div y \<le> hx div ly" .
  have "hx div ly \<le> hx div 1" using assms by (intro zdiv_mono2) linarith+
  then show "hx div ly \<le> hx" by simp
qed

lemma signed_interval:
  assumes "SInt_wf l" "width l = w" "SInt_wf h" "width h = w" "sv l \<le> sv h"
    "\<not> (sv l = - half w \<and> sv h = half w - 1)"
  shows "CR_wf (CR_make l (SInt_add_u h 1))"
    and "z \<in> CR_gamma (CR_make l (SInt_add_u h 1)) \<longleftrightarrow>
      SInt_wf z \<and> width z = w \<and> sv l \<le> sv z \<and> sv z \<le> sv h"
proof -
  have b: "- half w \<le> sv l" "sv l < half w" "- half w \<le> sv h" "sv h < half w"
    using sbounds [OF assms(1)] sbounds [OF assms(3)] assms by auto
  have u: "sv (SInt_add_u h 1) = (if sv h = half w - 1 then - half w else sv h + 1)"
    using assms by (simp add: add1_sv)
  have ne: "sv l \<noteq> sv (SInt_add_u h 1)" using u b assms by auto
  then show "CR_wf (CR_make l (SInt_add_u h 1))" using assms by (intro make_CR_wf_signed) simp_all
  have bz: "SInt_wf z \<Longrightarrow> width z = w \<Longrightarrow> - half w \<le> sv z \<and> sv z < half w"
    using sbounds [of z] by auto
  show "z \<in> CR_gamma (CR_make l (SInt_add_u h 1)) \<longleftrightarrow>
      SInt_wf z \<and> width z = w \<and> sv l \<le> sv z \<and> sv z \<le> sv h"
    using assms ne u b bz by (subst mem_make_signed) (auto simp: on_arc_def)
qed

definition overflows :: "SInt \<Rightarrow> SInt \<Rightarrow> bool" where
  "overflows x y \<longleftrightarrow> sv x = - half (width x) \<and> sv y = - 1"

text \<open>What \<^verbatim>\<open>SDivImpl\<close> relies on in the division it is given.\<close>

locale signed_divider =
  fixes div_op :: "SInt \<Rightarrow> SInt \<Rightarrow> SInt option"
  assumes defined: "SInt_wf x \<Longrightarrow> SInt_wf y \<Longrightarrow> width y = width x \<Longrightarrow> sv y \<noteq> 0 \<Longrightarrow>
      \<exists>q. div_op x y = Some q \<and> SInt_wf q \<and> width q = width x"
    and quotient: "SInt_wf x \<Longrightarrow> SInt_wf y \<Longrightarrow> width y = width x \<Longrightarrow> sv y \<noteq> 0 \<Longrightarrow>
      \<not> overflows x y \<Longrightarrow> div_op x y = Some q \<Longrightarrow> sv q = sv x sdiv sv y"
begin

lemma quotient_interval:
  assumes n1: "SInt_wf n1" "width n1 = w" and d1: "SInt_wf d1" "width d1 = w" "sv d1 \<noteq> 0"
    and n2: "SInt_wf n2" "width n2 = w" and d2: "SInt_wf d2" "width d2 = w" "sv d2 \<noteq> 0"
    and no: "\<not> overflows n1 d1" "\<not> overflows n2 d2"
    and le: "sv n1 sdiv sv d1 \<le> sv n2 sdiv sv d2"
    and nf: "\<not> (sv n1 sdiv sv d1 = - half w \<and> sv n2 sdiv sv d2 = half w - 1)"
  obtains lo q where "div_op n1 d1 = Some lo" "div_op n2 d2 = Some q"
    "CR_wf (CR_make lo (SInt_add_u q 1))" "width lo = w"
    "\<And>z. SInt_wf z \<Longrightarrow> width z = w \<Longrightarrow> sv n1 sdiv sv d1 \<le> sv z \<Longrightarrow> sv z \<le> sv n2 sdiv sv d2 \<Longrightarrow>
      z \<in> CR_gamma (CR_make lo (SInt_add_u q 1))"
proof -
  obtain lo where lo: "div_op n1 d1 = Some lo" "SInt_wf lo" "width lo = w"
    using defined [OF n1(1) d1(1) _ d1(3)] n1(2) d1(2) by metis
  obtain q where q: "div_op n2 d2 = Some q" "SInt_wf q" "width q = w"
    using defined [OF n2(1) d2(1) _ d2(3)] n2(2) d2(2) by metis
  have v: "sv lo = sv n1 sdiv sv d1" "sv q = sv n2 sdiv sv d2"
    using quotient [OF n1(1) d1(1) _ d1(3) no(1) lo(1)] quotient [OF n2(1) d2(1) _ d2(3) no(2) q(1)]
      n1(2) d1(2) n2(2) d2(2) by simp_all
  note si = signed_interval [OF lo(2,3) q(2,3), unfolded v, OF le nf]
  show thesis using that [OF lo(1) q(1) si(1) lo(3)] si(2) by blast
qed

end

text \<open>The part of an operand with one sign, with its bounds.\<close>

definition is_part :: "ConstantRange \<Rightarrow> ConstantRange \<Rightarrow> bool" where
  "is_part f i \<longleftrightarrow> CR_wf i \<and> CR_Width i = CR_Width f \<and> CR_gamma i \<subseteq> CR_gamma f \<and>
     (\<not> CR_IsEmptySet i \<longrightarrow> lower i \<in> CR_gamma i \<and> CR_last i \<in> CR_gamma i) \<and>
     (\<forall>v \<in> CR_gamma i. sv (lower i) \<le> sv v \<and> sv v \<le> sv (CR_last i))"

lemma posPart:
  assumes "is_part (posFilter w) i" "\<not> CR_IsEmptySet i"
  shows "SInt_wf (lower i)" "width (lower i) = w" "SInt_wf (CR_last i)" "width (CR_last i) = w"
    "0 < sv (lower i)" "sv (lower i) \<le> sv (CR_last i)" "sv (CR_last i) < half w"
    "v \<in> CR_gamma i \<Longrightarrow> sv (lower i) \<le> sv v \<and> sv v \<le> sv (CR_last i)"
  using assms filters(5) [of "lower i" w] filters(5) [of "CR_last i" w] filters(2) [of w]
    sbounds [of "CR_last i"] by (auto simp: is_part_def)

lemma negPart:
  assumes "is_part (negFilter w) i" "\<not> CR_IsEmptySet i"
  shows "SInt_wf (lower i)" "width (lower i) = w" "SInt_wf (CR_last i)" "width (CR_last i) = w"
    "sv (CR_last i) < 0" "sv (lower i) \<le> sv (CR_last i)" "- half w \<le> sv (lower i)"
    "v \<in> CR_gamma i \<Longrightarrow> sv (lower i) \<le> sv v \<and> sv v \<le> sv (CR_last i)"
  using assms filters(6) [of "lower i" w] filters(6) [of "CR_last i" w] filters(4) [of w]
    sbounds [of "lower i"] by (auto simp: is_part_def)

context signed_divider
begin

lemma pos_pos:
  assumes l: "is_part (posFilter w) L" "\<not> CR_IsEmptySet L" and r: "is_part (posFilter w) R" "\<not> CR_IsEmptySet R"
  obtains lo q where "div_op (lower L) (CR_last R) = Some lo" "div_op (CR_last L) (lower R) = Some q"
    "CR_wf (CR_make lo (SInt_add_u q 1))" "width lo = w"
    "\<And>v x z. v \<in> CR_gamma L \<Longrightarrow> x \<in> CR_gamma R \<Longrightarrow> SInt_wf z \<Longrightarrow> width z = w \<Longrightarrow>
      sv z = sv v sdiv sv x \<Longrightarrow> z \<in> CR_gamma (CR_make lo (SInt_add_u q 1))"
proof -
  note L = posPart [OF l] and R = posPart [OF r]
  have h: "0 < half w" by simp
  have box: "sv (lower L) sdiv sv (CR_last R) \<le> x sdiv y \<and> x sdiv y \<le> sv (CR_last L) sdiv sv (lower R)"
    if "sv (lower L) \<le> x" "x \<le> sv (CR_last L)" "sv (lower R) \<le> y" "y \<le> sv (CR_last R)" for x y
    using quot_box [of "sv (lower L)" x "sv (CR_last L)" "sv (lower R)" y "sv (CR_last R)"] that L(1-7) R(1-7)
    by (simp add: sdiv_signs)
  have nn: "0 \<le> sv (lower L) sdiv sv (CR_last R)" using L(1-7) R(1-7) by (simp add: sdiv_signs pos_imp_zdiv_nonneg_iff)
  show thesis
  proof (rule quotient_interval [of "lower L" w "CR_last R" "CR_last L" "lower R"])
    fix lo q
    assume q: "div_op (lower L) (CR_last R) = Some lo" "div_op (CR_last L) (lower R) = Some q"
      "CR_wf (CR_make lo (SInt_add_u q 1))" "width lo = w"
      "\<And>z. SInt_wf z \<Longrightarrow> width z = w \<Longrightarrow> sv (lower L) sdiv sv (CR_last R) \<le> sv z \<Longrightarrow>
         sv z \<le> sv (CR_last L) sdiv sv (lower R) \<Longrightarrow> z \<in> CR_gamma (CR_make lo (SInt_add_u q 1))"
    show thesis
    proof (rule that [OF q(1-4)])
      fix v x z
      assume "v \<in> CR_gamma L" "x \<in> CR_gamma R" and z: "SInt_wf z" "width z = w" "sv z = sv v sdiv sv x"
      then show "z \<in> CR_gamma (CR_make lo (SInt_add_u q 1))"
        using box [of "sv v" "sv x"] L(8) [of v] R(8) [of x] by (intro q(5)) simp_all
    qed
  next
    show "sv (lower L) sdiv sv (CR_last R) \<le> sv (CR_last L) sdiv sv (lower R)"
      using box [of "sv (lower L)" "sv (lower R)"] L(6) R(6) by simp
  qed (use L(1-7) R(1-7) h nn in \<open>auto simp: overflows_def\<close>)
qed

lemma pos_neg:
  assumes l: "is_part (posFilter w) L" "\<not> CR_IsEmptySet L" and r: "is_part (negFilter w) R" "\<not> CR_IsEmptySet R"
  obtains lo q where "div_op (CR_last L) (CR_last R) = Some lo" "div_op (lower L) (lower R) = Some q"
    "CR_wf (CR_make lo (SInt_add_u q 1))" "width lo = w"
    "\<And>v x z. v \<in> CR_gamma L \<Longrightarrow> x \<in> CR_gamma R \<Longrightarrow> SInt_wf z \<Longrightarrow> width z = w \<Longrightarrow>
      sv z = sv v sdiv sv x \<Longrightarrow> z \<in> CR_gamma (CR_make lo (SInt_add_u q 1))"
proof -
  note L = posPart [OF l] and R = negPart [OF r]
  have h: "1 < half w" using half_ge [of w] by simp
  have box: "sv (CR_last L) sdiv sv (CR_last R) \<le> x sdiv y \<and> x sdiv y \<le> sv (lower L) sdiv sv (lower R)"
    if "sv (lower L) \<le> x" "x \<le> sv (CR_last L)" "sv (lower R) \<le> y" "y \<le> sv (CR_last R)" for x y
    using quot_box [of "sv (lower L)" x "sv (CR_last L)" "- sv (CR_last R)" "- y" "- sv (lower R)"] that L(1-7) R(1-7)
    by (simp add: sdiv_signs)
  have np: "sv (lower L) sdiv sv (lower R) \<le> 0" using L(1-7) R(1-7) by (simp add: sdiv_signs pos_imp_zdiv_nonneg_iff)
  show thesis
  proof (rule quotient_interval [of "CR_last L" w "CR_last R" "lower L" "lower R"])
    fix lo q
    assume q: "div_op (CR_last L) (CR_last R) = Some lo" "div_op (lower L) (lower R) = Some q"
      "CR_wf (CR_make lo (SInt_add_u q 1))" "width lo = w"
      "\<And>z. SInt_wf z \<Longrightarrow> width z = w \<Longrightarrow> sv (CR_last L) sdiv sv (CR_last R) \<le> sv z \<Longrightarrow>
         sv z \<le> sv (lower L) sdiv sv (lower R) \<Longrightarrow> z \<in> CR_gamma (CR_make lo (SInt_add_u q 1))"
    show thesis
    proof (rule that [OF q(1-4)])
      fix v x z
      assume "v \<in> CR_gamma L" "x \<in> CR_gamma R" and z: "SInt_wf z" "width z = w" "sv z = sv v sdiv sv x"
      then show "z \<in> CR_gamma (CR_make lo (SInt_add_u q 1))"
        using box [of "sv v" "sv x"] L(8) [of v] R(8) [of x] by (intro q(5)) simp_all
    qed
  next
    show "sv (CR_last L) sdiv sv (CR_last R) \<le> sv (lower L) sdiv sv (lower R)"
      using box [of "sv (lower L)" "sv (lower R)"] L(6) R(6) by simp
  qed (use L(1-7) R(1-7) h np in \<open>auto simp: overflows_def\<close>)
qed

lemma neg_pos:
  assumes l: "is_part (negFilter w) L" "\<not> CR_IsEmptySet L" and r: "is_part (posFilter w) R" "\<not> CR_IsEmptySet R"
  obtains lo q where "div_op (lower L) (lower R) = Some lo" "div_op (CR_last L) (CR_last R) = Some q"
    "CR_wf (CR_make lo (SInt_add_u q 1))" "width lo = w"
    "\<And>v x z. v \<in> CR_gamma L \<Longrightarrow> x \<in> CR_gamma R \<Longrightarrow> SInt_wf z \<Longrightarrow> width z = w \<Longrightarrow>
      sv z = sv v sdiv sv x \<Longrightarrow> z \<in> CR_gamma (CR_make lo (SInt_add_u q 1))"
proof -
  note L = negPart [OF l] and R = posPart [OF r]
  have h: "1 < half w" using half_ge [of w] by simp
  have box: "sv (lower L) sdiv sv (lower R) \<le> x sdiv y \<and> x sdiv y \<le> sv (CR_last L) sdiv sv (CR_last R)"
    if "sv (lower L) \<le> x" "x \<le> sv (CR_last L)" "sv (lower R) \<le> y" "y \<le> sv (CR_last R)" for x y
    using quot_box [of "- sv (CR_last L)" "- x" "- sv (lower L)" "sv (lower R)" y "sv (CR_last R)"] that L(1-7) R(1-7)
    by (simp add: sdiv_signs)
  have np: "sv (CR_last L) sdiv sv (CR_last R) \<le> 0" using L(1-7) R(1-7) by (simp add: sdiv_signs pos_imp_zdiv_nonneg_iff)
  show thesis
  proof (rule quotient_interval [of "lower L" w "lower R" "CR_last L" "CR_last R"])
    fix lo q
    assume q: "div_op (lower L) (lower R) = Some lo" "div_op (CR_last L) (CR_last R) = Some q"
      "CR_wf (CR_make lo (SInt_add_u q 1))" "width lo = w"
      "\<And>z. SInt_wf z \<Longrightarrow> width z = w \<Longrightarrow> sv (lower L) sdiv sv (lower R) \<le> sv z \<Longrightarrow>
         sv z \<le> sv (CR_last L) sdiv sv (CR_last R) \<Longrightarrow> z \<in> CR_gamma (CR_make lo (SInt_add_u q 1))"
    show thesis
    proof (rule that [OF q(1-4)])
      fix v x z
      assume "v \<in> CR_gamma L" "x \<in> CR_gamma R" and z: "SInt_wf z" "width z = w" "sv z = sv v sdiv sv x"
      then show "z \<in> CR_gamma (CR_make lo (SInt_add_u q 1))"
        using box [of "sv v" "sv x"] L(8) [of v] R(8) [of x] by (intro q(5)) simp_all
    qed
  next
    show "sv (lower L) sdiv sv (lower R) \<le> sv (CR_last L) sdiv sv (CR_last R)"
      using box [of "sv (lower L)" "sv (lower R)"] L(6) R(6) by simp
  qed (use L(1-7) R(1-7) h np in \<open>auto simp: overflows_def\<close>)
qed

end

text \<open>The divisor the code takes once \<open>-1\<close> is dropped is the greatest remaining one.\<close>

definition adjusted_divisor :: "ConstantRange \<Rightarrow> ConstantRange \<Rightarrow> SInt" where
  "adjusted_divisor b negR =
     SInt_sub_u (if SInt_IsAllOnes (lower b) then upper b else SInt_sub_u (upper negR) 1) 1"

lemma lower_negPart:
  assumes r: "CR_wf r" and ne: "\<not> CR_IsEmptySet i"
    and i: "i = CR_IntersectWith r (negFilter (CR_Width r)) Smallest"
  shows "lower i \<in> CR_gamma r" "sv (lower i) < 0"
proof -
  have m: "lower i \<in> CR_gamma i" using part_facts(5) [OF r disjI2 [OF refl]] ne i by blast
  then show "lower i \<in> CR_gamma r"
    using part_cases [OF r disjI2 [OF refl]] i by (auto simp: overlap_twice_def)
  show "sv (lower i) < 0" using m part_facts(3) [OF r disjI2 [OF refl]] i filters(6) by blast
qed

lemma adjusted_divisor:
  assumes b: "CR_wf b" and R: "R = CR_IntersectWith b (negFilter (CR_Width b)) Smallest"
    and ne: "\<not> CR_IsEmptySet R" and last: "sv (CR_last R) = - 1" and low: "sv (lower R) \<noteq> - 1"
  shows "SInt_wf (adjusted_divisor b R)" "width (adjusted_divisor b R) = CR_Width b"
    "sv (adjusted_divisor b R) \<le> - 2" "sv (lower R) \<le> sv (adjusted_divisor b R)"
    "x \<in> CR_gamma b \<Longrightarrow> sv x < 0 \<Longrightarrow> sv x \<noteq> - 1 \<Longrightarrow> sv x \<le> sv (adjusted_divisor b R)"
proof -
  let ?w = "CR_Width b" and ?e = "adjusted_divisor b R"
  note d = CR_wfD [OF b]
  have h: "128 \<le> half ?w" by (rule half_ge)
  note lowR = lower_negPart [OF b ne R]
  have Rw: "CR_wf R" "CR_Width R = ?w" using part_facts(1,2) [OF b disjI2 [OF refl]] R by auto
  note dR = CR_wfD [OF Rw(1), unfolded Rw(2)]
  show wf: "SInt_wf ?e" "width ?e = ?w" using d dR by (simp_all add: adjusted_divisor_def)
  have minus2: "sv ?e = - 2" if "?e = SInt_sub_u y 1" "SInt_wf y" "width y = ?w" "sv y = - 1" for y
    using that h by (simp add: sub1_sv)
  have main: "sv ?e \<le> - 2 \<and> (\<forall>x \<in> CR_gamma b. sv x < 0 \<longrightarrow> sv x \<noteq> - 1 \<longrightarrow> sv x \<le> sv ?e)"
  proof (cases "SInt_IsAllOnes (lower b)")
    case False
    then have "?e = SInt_sub_u (CR_last R) 1" by (simp add: adjusted_divisor_def CR_last_def)
    then have "sv ?e = - 2" using dR last by (intro minus2) (simp_all add: CR_last_def)
    then show ?thesis by auto
  next
    case True
    then have l: "sv (lower b) = - 1" using d IsAllOnes_sv by blast
    have e: "?e = SInt_sub_u (upper b) 1" using True by (simp add: adjusted_divisor_def)
    show ?thesis
    proof (cases "CR_IsFullSet b")
      case True
      then have "upper b = lower b" using d by (intro SInt_ext) (simp_all add: IsFullSet_iff)
      then have "sv ?e = - 2" using e d l by (intro minus2) simp_all
      then show ?thesis by auto
    next
      case False
      have arc: "v \<in> CR_gamma b \<longleftrightarrow> SInt_wf v \<and> width v = ?w \<and> sv (lower b) \<noteq> sv (upper b) \<and>
          on_arc (- 1) (sv (upper b)) (sv v)" for v
        using mem_signed_iff [OF b] False l by auto
      have b2: "- half ?w \<le> sv (upper b)" "sv (upper b) < half ?w" "- half ?w \<le> sv (lower R)"
        using sbounds [OF d(2)] sbounds [OF dR(1)] d dR by auto
      have "sv (upper b) < - 1" "sv (upper b) \<noteq> - half ?w"
        using lowR low b2 l by (auto simp: arc on_arc_def split: if_splits)
      moreover from this have "sv ?e = sv (upper b) - 1" using e d by (simp add: sub1_sv)
      ultimately show ?thesis by (auto simp: arc on_arc_def)
    qed
  qed
  then show "sv ?e \<le> - 2" "sv (lower R) \<le> sv ?e" using lowR low by auto
  show "x \<in> CR_gamma b \<Longrightarrow> sv x < 0 \<Longrightarrow> sv x \<noteq> - 1 \<Longrightarrow> sv x \<le> sv ?e" using main by blast
qed

text \<open>The dividend for which the code loses quotients: \<open>[l, min + 1)\<close> with \<open>l\<close> negative, that
  is the least value and everything from \<open>l\<close> up.\<close>

definition lossy_dividend :: "ConstantRange \<Rightarrow> bool" where
  "lossy_dividend a \<longleftrightarrow>
     SInt_eq (upper a) (SInt_add_u (SInt_SMinValue (CR_Width a)) 1) \<and>
     SInt_IsNeg (lower a) \<and> \<not> SInt_IsSMinValue (lower a)"

lemma not_lossy_upper:
  assumes a: "CR_wf a" and nl: "\<not> lossy_dividend a"
    and L: "L = CR_IntersectWith a (negFilter (CR_Width a)) Smallest"
    and ne: "\<not> CR_IsEmptySet L" and more: "sv (CR_last L) \<noteq> - half (CR_Width a)"
  shows "\<not> SInt_eq (upper a) (SInt_add_u (SInt_SMinValue (CR_Width a)) 1)"
proof
  let ?w = "CR_Width a"
  note d = CR_wfD [OF a]
  have h: "128 \<le> half ?w" by (rule half_ge)
  assume u: "SInt_eq (upper a) (SInt_add_u (SInt_SMinValue ?w) 1)"
  then have su: "sv (upper a) = 1 - half ?w"
    using d h sv_neq_iff [of "upper a" "SInt_add_u (SInt_SMinValue ?w) 1"]
    by (simp add: eq_iff_uv add1_sv)
  have sl: "sv (lower a) = - half ?w \<or> 0 \<le> sv (lower a)"
    using nl u d by (auto simp: lossy_dividend_def IsNeg_sv IsSMinValue_sv)
  then have p: "sv (lower a) \<noteq> sv (upper a)" using su h by auto
  then have nf: "\<not> CR_IsFullSet a" using d sv_neq_iff [of "lower a" "upper a"] by (auto simp: IsFullSet_iff)
  have arc: "v \<in> CR_gamma a \<longleftrightarrow> SInt_wf v \<and> width v = ?w \<and> on_arc (sv (lower a)) (1 - half ?w) (sv v)" for v
    using mem_signed_iff [OF a] nf su p by auto
  have only: "sv v = - half ?w" if "v \<in> CR_gamma a" "sv v < 0" for v
    using that sl sbounds [of v] h by (auto simp: arc on_arc_def split: if_splits)
  have lastL: "CR_last L \<in> CR_gamma L" using part_facts(5) [OF a disjI2 [OF refl]] ne L by blast
  have "CR_gamma L = CR_gamma a \<inter> CR_gamma (negFilter ?w)"
  proof (rule ccontr)
    assume "\<not> ?thesis"
    then have two: "overlap_twice a (negFilter ?w)" using part_cases [OF a disjI2 [OF refl]] L by blast
    then have "SInt_Zero ?w \<in> CR_gamma a" "sv (lower a) < 0"
      using two [unfolded overlap_twice_def] filters(6) [of "SInt_Zero ?w" ?w] filters(6) [of "lower a" ?w]
        Zero_simps(2,3) [of ?w] sv_Zero [of ?w] by (metis less_irrefl)+
    then show False using sl h by (auto simp: arc on_arc_def split: if_splits)
  qed
  then show False using lastL only [of "CR_last L"] more filters(6) by blast
qed

context signed_divider
begin

lemma neg_neg:
  assumes a: "CR_wf a" and b: "CR_wf b" and w: "CR_Width a = w" "CR_Width b = w"
    and nl: "\<not> lossy_dividend a"
    and L: "L = CR_IntersectWith a (negFilter w) Smallest" "\<not> CR_IsEmptySet L"
    and R: "R = CR_IntersectWith b (negFilter w) Smallest" "\<not> CR_IsEmptySet R"
  obtains r where "CR_negDivNeg div_op a b L R = Some r" "CR_wf r" "CR_Width r = w"
    "\<And>v x z. v \<in> CR_gamma a \<Longrightarrow> x \<in> CR_gamma b \<Longrightarrow> sv v < 0 \<Longrightarrow> sv x < 0 \<Longrightarrow> \<not> overflows v x \<Longrightarrow>
      SInt_wf z \<Longrightarrow> width z = w \<Longrightarrow> sv z = sv v sdiv sv x \<Longrightarrow> z \<in> CR_gamma r"
proof -
  have pl: "is_part (negFilter w) L" and pr: "is_part (negFilter w) R"
    using part_facts [OF a disjI2 [OF refl]] part_facts [OF b disjI2 [OF refl]] L R w filters(4)
    by (auto simp: is_part_def)
  note fl = negPart(1-7) [OF pl L(2)] and fr = negPart(1-7) [OF pr R(2)]
  have h: "128 \<le> half w" by (rule half_ge)
  have inL: "sv (lower L) \<le> sv v \<and> sv v \<le> sv (CR_last L)" if "v \<in> CR_gamma a" "sv v < 0" for v
  proof -
    have "v \<in> CR_gamma L"
      using part_facts(4) [OF a disjI2 [OF refl]] that gamma_wf [OF that(1)] gamma_width [OF that(1)]
        filters(6) [of v w] L w by auto
    then show ?thesis using negPart(8) [OF pl L(2)] by blast
  qed
  have inR: "sv (lower R) \<le> sv v \<and> sv v \<le> sv (CR_last R)" if "v \<in> CR_gamma b" "sv v < 0" for v
  proof -
    have "v \<in> CR_gamma R"
      using part_facts(4) [OF b disjI2 [OF refl]] that gamma_wf [OF that(1)] gamma_width [OF that(1)]
        filters(6) [of v w] R w by auto
    then show ?thesis using negPart(8) [OF pr R(2)] by blast
  qed
  note result = that
  define e where "e = adjusted_divisor b R"
  define tricky where "tricky \<longleftrightarrow> SInt_IsSMinValue (lower L) \<and> SInt_IsZero (upper R)"
  have tr: "tricky \<longleftrightarrow> sv (lower L) = - half w \<and> sv (CR_last R) = - 1"
  proof -
    have "uv (upper R) = 0 \<longleftrightarrow> sv (CR_last R) = - 1"
      using pr CR_wfD [of R] filters(4) [of w] sv_zero_iff [of "upper R"] sbounds [of "upper R"] h
      by (auto simp: is_part_def CR_last_def sub1_sv)
    then show ?thesis using fl by (simp add: tricky_def IsSMinValue_sv IsZero_iff)
  qed
  have A: "SInt_IsAllOnes (lower R) \<longleftrightarrow> sv (lower R) = - 1" using fr IsAllOnes_sv by blast
  have B: "SInt_ne (upper L) (SInt_add_u (SInt_SMinValue (CR_Width a)) 1) \<longleftrightarrow> sv (CR_last L) \<noteq> - half w"
  proof -
    have "uv (CR_last L) = uv (SInt_SMinValue w) \<longleftrightarrow> uv (upper L) = uv (SInt_add_u (SInt_SMinValue w) 1)"
      using pl CR_wfD [of L] filters(4) [of w] h modulus_half [of w]
      by (auto simp: is_part_def CR_last_def sub1_uv add1_uv)
    then show ?thesis using fl w sv_neq_iff [of "CR_last L" "SInt_SMinValue w"] by (simp add: eq_iff_uv)
  qed
  have single: "tricky \<Longrightarrow> sv (lower R) = - 1 \<Longrightarrow> sv (CR_last L) = - half w \<Longrightarrow>
      v \<in> CR_gamma a \<Longrightarrow> x \<in> CR_gamma b \<Longrightarrow> sv v < 0 \<Longrightarrow> sv x < 0 \<Longrightarrow> overflows v x" for v x
    using inL [of v] inR [of x] tr gamma_width [of v a] w by (auto simp: overflows_def)
  have lowbox: "sv (CR_last L) sdiv sv (lower R) \<le> y sdiv x \<and> y sdiv x \<le> - y" "0 \<le> sv (CR_last L) sdiv sv (lower R)"
    if "sv (lower L) \<le> y" "y \<le> sv (CR_last L)" "sv (lower R) \<le> x" "x \<le> sv (CR_last R)" for y x
  proof -
    note q = quot_box [of "- sv (CR_last L)" "- y" "- y" "- x" "- x" "- sv (lower R)"]
    show "sv (CR_last L) sdiv sv (lower R) \<le> y sdiv x \<and> y sdiv x \<le> - y"
      "0 \<le> sv (CR_last L) sdiv sv (lower R)"
      using q that fl(5) fr(5) by (simp_all add: sdiv_signs)
  qed
  text \<open>The three ways the upper bound is found: from a dividend \<open>n\<close> and a divisor \<open>d\<close>.\<close>
  have finish: thesis
    if n: "SInt_wf n" "width n = w" "sv (lower L) \<le> sv n" "sv n \<le> sv (CR_last L)"
      and dd: "SInt_wf d" "width d = w" "sv (lower R) \<le> sv d" "sv d \<le> sv (CR_last R)"
      and no: "\<not> overflows n d" "\<not> overflows (CR_last L) (lower R)"
      and code: "\<And>lo q. div_op (CR_last L) (lower R) = Some lo \<Longrightarrow> div_op n d = Some q \<Longrightarrow>
        CR_negDivNeg div_op a b L R = Some (CR_make lo (SInt_add_u q 1))"
      and le: "sv (CR_last L) sdiv sv (lower R) \<le> sv n sdiv sv d"
      and cover: "\<And>v x. v \<in> CR_gamma a \<Longrightarrow> x \<in> CR_gamma b \<Longrightarrow> sv v < 0 \<Longrightarrow> sv x < 0 \<Longrightarrow>
        \<not> overflows v x \<Longrightarrow> sv v sdiv sv x \<le> sv n sdiv sv d" for n d
  proof (rule quotient_interval [of "CR_last L" w "lower R" n d])
    fix lo q
    assume q: "div_op (CR_last L) (lower R) = Some lo" "div_op n d = Some q"
      "CR_wf (CR_make lo (SInt_add_u q 1))" "width lo = w"
      "\<And>z. SInt_wf z \<Longrightarrow> width z = w \<Longrightarrow> sv (CR_last L) sdiv sv (lower R) \<le> sv z \<Longrightarrow>
         sv z \<le> sv n sdiv sv d \<Longrightarrow> z \<in> CR_gamma (CR_make lo (SInt_add_u q 1))"
    show thesis
    proof (rule result [OF code [OF q(1,2)] q(3)])
      fix v x z
      assume vx: "v \<in> CR_gamma a" "x \<in> CR_gamma b" "sv v < 0" "sv x < 0" "\<not> overflows v x"
        and z: "SInt_wf z" "width z = w" "sv z = sv v sdiv sv x"
      show "z \<in> CR_gamma (CR_make lo (SInt_add_u q 1))"
        using cover [OF vx] inL [OF vx(1,3)] inR [OF vx(2,4)] lowbox(1) z by (intro q(5)) simp_all
    qed (use q(4) in simp)
  next
    have "0 \<le> sv (CR_last L) sdiv sv (lower R)"
      using lowbox(2) [of "sv (lower L)" "sv (lower R)"] fl(6) fr(6) by simp
    then show "\<not> (sv (CR_last L) sdiv sv (lower R) = - half w \<and> sv n sdiv sv d = half w - 1)"
      using h by simp
  qed (use n dd no le fl fr in simp_all)
  show thesis
  proof (cases tricky)
    case False
    have "\<not> overflows (lower L) (CR_last R)" "\<not> overflows (CR_last L) (lower R)"
      using False tr fl fr by (auto simp: overflows_def)
    moreover have "CR_negDivNeg div_op a b L R = Some (CR_make lo (SInt_add_u q 1))"
      if "div_op (CR_last L) (lower R) = Some lo" "div_op (lower L) (CR_last R) = Some q" for lo q
      using that False unfolding CR_negDivNeg_def Let_def tricky_def [symmetric] CR_last_def [symmetric] by simp
    moreover have box: "sv v sdiv sv x \<le> sv (lower L) sdiv sv (CR_last R)"
      if "sv (lower L) \<le> sv v" "sv v \<le> sv (CR_last L)" "sv (lower R) \<le> sv x" "sv x \<le> sv (CR_last R)" for v x
      using quot_box [of "- sv v" "- sv v" "- sv (lower L)" "- sv (CR_last R)" "- sv x" "- sv x"] that fl fr
      by (simp add: sdiv_signs)
    ultimately show thesis
      using fl fr inL inR by (intro finish [of "lower L" "CR_last R"]) simp_all
  next
    case True
    show thesis
    proof (cases "sv (CR_last L) = - half w")
      case False
      text \<open>The least value is dropped from the dividend.\<close>
      define n where "n = SInt_add_u (lower L) 1"
      have n: "SInt_wf n" "width n = w" "sv n = 1 - half w"
        using fl True tr h by (simp_all add: n_def add1_sv)
      have q2: "sv n sdiv sv (CR_last R) = half w - 1" using n True tr h by (simp add: sdiv_signs)
      have nu: "\<not> SInt_eq (upper a) (SInt_add_u (SInt_SMinValue (CR_Width a)) 1)"
        using not_lossy_upper [OF a nl, of L] L w False by simp
      have "\<not> overflows n (CR_last R)" "\<not> overflows (CR_last L) (lower R)"
        using n False fl by (auto simp: overflows_def)
      moreover have "CR_negDivNeg div_op a b L R = Some (CR_make lo (SInt_add_u q 1))"
        if "div_op (CR_last L) (lower R) = Some lo" "div_op n (CR_last R) = Some q" for lo q
      proof -
        have "\<exists>q. div_op (lower L) (CR_last R) = Some q" using defined [of "lower L" "CR_last R"] fl fr by auto
        moreover have "\<exists>q. div_op (lower L) e = Some q" if "sv (lower R) \<noteq> - 1"
          using adjusted_divisor [OF b, of R] R w True tr that defined [of "lower L" e] fl by (auto simp: e_def)
        ultimately show ?thesis
          using that True False B A nu unfolding CR_negDivNeg_def Let_def tricky_def [symmetric]
            CR_last_def [symmetric] n_def [symmetric]
          by (auto simp: e_def adjusted_divisor_def CR_last_def)
      qed
      moreover have "sv v sdiv sv x \<le> half w - 1"
        if "v \<in> CR_gamma a" "x \<in> CR_gamma b" "sv v < 0" "sv x < 0" "\<not> overflows v x" for v x
      proof (cases "sv x = - 1")
        case True
        then show ?thesis using that sbounds [OF gamma_wf [OF that(1)]] gamma_width [OF that(1)] w
          by (auto simp: overflows_def)
      next
        case False
        then have "sv v sdiv sv x \<le> (- sv v) div 2"
          using quot_box [of "- sv v" "- sv v" "- sv v" 2 "- sv x" "- sv x"] that by (simp add: sdiv_signs)
        then show ?thesis using sbounds [OF gamma_wf [OF that(1)]] gamma_width [OF that(1)] w h by auto
      qed
      moreover have "sv (CR_last L) sdiv sv (lower R) \<le> half w - 1"
        using lowbox(1) [of "sv (CR_last L)" "sv (lower R)"] fl fr False by auto
      ultimately show thesis using n fl fr True tr False q2
        by (intro finish [of n "CR_last R"]) simp_all
    next
      case lastL: True
      show thesis
      proof (cases "sv (lower R) = - 1")
        case False
        text \<open>\<open>-1\<close> is dropped from the divisor.\<close>
        have e: "SInt_wf e" "width e = w" "sv e \<le> - 2" "sv (lower R) \<le> sv e"
          "\<And>x. x \<in> CR_gamma b \<Longrightarrow> sv x < 0 \<Longrightarrow> sv x \<noteq> - 1 \<Longrightarrow> sv x \<le> sv e"
          using adjusted_divisor [OF b, of R] R w True tr False by (auto simp: e_def)
        have "\<not> overflows (lower L) e" "\<not> overflows (CR_last L) (lower R)"
          using e False by (auto simp: overflows_def)
        moreover have "CR_negDivNeg div_op a b L R = Some (CR_make lo (SInt_add_u q 1))"
          if "div_op (CR_last L) (lower R) = Some lo" "div_op (lower L) e = Some q" for lo q
        proof -
          have "\<exists>q. div_op (lower L) (CR_last R) = Some q" using defined [of "lower L" "CR_last R"] fl fr by auto
          then show ?thesis
            using that True False lastL B A unfolding CR_negDivNeg_def Let_def tricky_def [symmetric]
            by (auto simp: e_def adjusted_divisor_def CR_last_def)
        qed
        moreover have "sv v sdiv sv x \<le> sv (lower L) sdiv sv e"
          if "v \<in> CR_gamma a" "x \<in> CR_gamma b" "sv v < 0" "sv x < 0" "\<not> overflows v x" for v x
        proof -
          have "sv v = sv (lower L)" using inL [OF that(1,3)] True tr lastL by simp
          moreover from this have "sv x \<noteq> - 1"
            using that True tr gamma_width [OF that(1)] w by (auto simp: overflows_def)
          then have "sv x \<le> sv e" using e(5) that by blast
          ultimately show ?thesis
            using quot_box [of "- sv v" "- sv v" "- sv v" "- sv e" "- sv x" "- sv x"] that e(3) by (simp add: sdiv_signs)
        qed
        moreover have "sv (CR_last L) sdiv sv (lower R) \<le> sv (lower L) sdiv sv e"
          using quot_box [of "half w" "half w" "half w" "- sv e" "- sv (lower R)" "- sv (lower R)"]
            True tr lastL e(3,4) h by (simp add: sdiv_signs)
        ultimately show thesis using e fl fr True tr
          by (intro finish [of "lower L" e]) simp_all
      next
        case lowR: True
        text \<open>Only the overflowing pair is left: nothing to cover.\<close>
        have "lower L = CR_last L" "lower R = CR_last R"
          using True tr lastL lowR fl fr by (auto intro: sv_inj)
        moreover obtain lo where lo: "div_op (CR_last L) (lower R) = Some lo" "SInt_wf lo" "width lo = w"
          using defined [of "CR_last L" "lower R"] fl fr by auto
        ultimately have "CR_negDivNeg div_op a b L R = Some (CR_single lo)"
          using True lastL lowR A B unfolding CR_negDivNeg_def Let_def tricky_def [symmetric]
            CR_last_def [symmetric] by (simp add: CR_single_def CR_make_def)
        then show thesis
          using lo single [OF True lowR lastL]
          by (intro result [of "CR_single lo"]) (auto simp: single_wf)
      qed
    qed
  qed
qed

end

text \<open>One of the four quotients of parts, or nothing when a part is empty.\<close>

lemma part_or_empty:
  assumes "\<not> CR_IsEmptySet L \<Longrightarrow> \<not> CR_IsEmptySet R \<Longrightarrow>
      \<exists>r. m = Some r \<and> CR_wf r \<and> CR_Width r = w \<and> P r"
    and "CR_IsEmptySet L \<or> CR_IsEmptySet R \<Longrightarrow> P (CR_Empty w)"
  obtains r where "(if \<not> CR_IsEmptySet L \<and> \<not> CR_IsEmptySet R then m else Some (CR_Empty w)) = Some r"
    "CR_wf r" "CR_Width r = w" "P r"
  using assms by (cases "CR_IsEmptySet L \<or> CR_IsEmptySet R") auto

definition covers :: "IntWidth \<Rightarrow> (SInt \<Rightarrow> SInt \<Rightarrow> bool) \<Rightarrow> ConstantRange \<Rightarrow> bool" where
  "covers w D r \<longleftrightarrow> (\<forall>v x z. D v x \<longrightarrow> SInt_wf z \<longrightarrow> width z = w \<longrightarrow> sv z = sv v sdiv sv x \<longrightarrow> z \<in> CR_gamma r)"

lemma covers_part:
  assumes "\<And>v x z. v \<in> CR_gamma L \<Longrightarrow> x \<in> CR_gamma R \<Longrightarrow> SInt_wf z \<Longrightarrow> width z = w \<Longrightarrow>
      sv z = sv v sdiv sv x \<Longrightarrow> z \<in> CR_gamma r"
    and "\<And>v x. D v x \<Longrightarrow> v \<in> CR_gamma L \<and> x \<in> CR_gamma R"
  shows "covers w D r"
  unfolding covers_def using assms by blast

context signed_divider
begin

lemma SDivImpl_covers:
  assumes a: "CR_wf a" and b: "CR_wf b" and w: "CR_Width b = CR_Width a" and nl: "\<not> lossy_dividend a"
  obtains r where "CR_SDivImpl div_op a b = Some r" "CR_wf r" "CR_Width r = CR_Width a"
    "covers (CR_Width a) (\<lambda>v x. v \<in> CR_gamma a \<and> x \<in> CR_gamma b \<and> sv x \<noteq> 0 \<and> \<not> overflows v x) r"
proof -
  let ?w = "CR_Width a"
  define pL nL pR nR where "pL = CR_IntersectWith a (posFilter ?w) Smallest"
    and "nL = CR_IntersectWith a (negFilter ?w) Smallest"
    and "pR = CR_IntersectWith b (posFilter ?w) Smallest"
    and "nR = CR_IntersectWith b (negFilter ?w) Smallest"
  let ?D = "\<lambda>P Q v x. v \<in> CR_gamma a \<and> x \<in> CR_gamma b \<and> P (sv v) \<and> Q (sv x) \<and> \<not> overflows v x"
  let ?pos = "\<lambda>k. 0 < (k :: int)" and ?neg = "\<lambda>k. (k :: int) < 0"
  note fa = part_facts [OF a disjI1 [OF refl]] part_facts [OF a disjI2 [OF refl]]
    and fb = part_facts [OF b disjI1 [OF refl], unfolded w] part_facts [OF b disjI2 [OF refl], unfolded w]
  have parts: "is_part (posFilter ?w) pL" "is_part (negFilter ?w) nL" "is_part (posFilter ?w) pR" "is_part (negFilter ?w) nR"
    using fa fb filters(2,4) by (auto simp: is_part_def pL_def nL_def pR_def nR_def)
  have inp: "v \<in> CR_gamma pL" if "v \<in> CR_gamma a" "0 < sv v" for v
    using fa(4) that gamma_wf [OF that(1)] gamma_width [OF that(1)] filters(5) [of v ?w] by (auto simp: pL_def)
  have inn: "v \<in> CR_gamma nL" if "v \<in> CR_gamma a" "sv v < 0" for v
    using fa(10) that gamma_wf [OF that(1)] gamma_width [OF that(1)] filters(6) [of v ?w] by (auto simp: nL_def)
  have inp': "v \<in> CR_gamma pR" if "v \<in> CR_gamma b" "0 < sv v" for v
    using fb(4) that gamma_wf [OF that(1)] gamma_width [OF that(1)] filters(5) [of v ?w] w by (auto simp: pR_def)
  have inn': "v \<in> CR_gamma nR" if "v \<in> CR_gamma b" "sv v < 0" for v
    using fb(10) that gamma_wf [OF that(1)] gamma_width [OF that(1)] filters(6) [of v ?w] w by (auto simp: nR_def)
  note ins = inp inn inp' inn'
  obtain pp where pp: "(if \<not> CR_IsEmptySet pL \<and> \<not> CR_IsEmptySet pR then do {
        lo \<leftarrow> div_op (lower pL) (CR_last pR); q \<leftarrow> div_op (CR_last pL) (lower pR);
        Some (CR_make lo (SInt_add_u q 1)) } else Some (CR_Empty ?w)) = Some pp"
    "CR_wf pp" "CR_Width pp = ?w" "covers ?w (?D ?pos ?pos) pp"
  proof (rule part_or_empty)
    assume ne: "\<not> CR_IsEmptySet pL" "\<not> CR_IsEmptySet pR"
    show "\<exists>r. do { lo \<leftarrow> div_op (lower pL) (CR_last pR); q \<leftarrow> div_op (CR_last pL) (lower pR);
        Some (CR_make lo (SInt_add_u q 1)) } = Some r \<and> CR_wf r \<and> CR_Width r = ?w \<and> covers ?w (?D ?pos ?pos) r"
    proof (rule pos_pos [OF parts(1) ne(1) parts(3) ne(2)])
      fix lo q
      assume q: "div_op (lower pL) (CR_last pR) = Some lo" "div_op (CR_last pL) (lower pR) = Some q"
        "CR_wf (CR_make lo (SInt_add_u q 1))" "width lo = ?w"
        and cov: "\<And>v x z. v \<in> CR_gamma pL \<Longrightarrow> x \<in> CR_gamma pR \<Longrightarrow> SInt_wf z \<Longrightarrow> width z = ?w \<Longrightarrow>
          sv z = sv v sdiv sv x \<Longrightarrow> z \<in> CR_gamma (CR_make lo (SInt_add_u q 1))"
      show ?thesis using q covers_part [OF cov, where D = "?D ?pos ?pos"] inp inp' by auto
    qed
  next
    assume "CR_IsEmptySet pL \<or> CR_IsEmptySet pR"
    then show "covers ?w (?D ?pos ?pos) (CR_Empty ?w)" using ins mem_EmptySet unfolding covers_def by blast
  qed
  obtain nn where nn: "(if \<not> CR_IsEmptySet nL \<and> \<not> CR_IsEmptySet nR then CR_negDivNeg div_op a b nL nR
      else Some (CR_Empty ?w)) = Some nn"
    "CR_wf nn" "CR_Width nn = ?w" "covers ?w (?D ?neg ?neg) nn"
  proof (rule part_or_empty)
    assume ne: "\<not> CR_IsEmptySet nL" "\<not> CR_IsEmptySet nR"
    show "\<exists>r. CR_negDivNeg div_op a b nL nR = Some r \<and> CR_wf r \<and> CR_Width r = ?w \<and> covers ?w (?D ?neg ?neg) r"
      by (rule neg_neg [OF a b refl w nl nL_def ne(1) nR_def ne(2)]) (auto simp: covers_def)
  next
    assume "CR_IsEmptySet nL \<or> CR_IsEmptySet nR"
    then show "covers ?w (?D ?neg ?neg) (CR_Empty ?w)" using ins mem_EmptySet unfolding covers_def by blast
  qed
  obtain pn where pn: "(if \<not> CR_IsEmptySet pL \<and> \<not> CR_IsEmptySet nR then do {
        lo \<leftarrow> div_op (CR_last pL) (CR_last nR); q \<leftarrow> div_op (lower pL) (lower nR);
        Some (CR_make lo (SInt_add_u q 1)) } else Some (CR_Empty ?w)) = Some pn"
    "CR_wf pn" "CR_Width pn = ?w" "covers ?w (?D ?pos ?neg) pn"
  proof (rule part_or_empty)
    assume ne: "\<not> CR_IsEmptySet pL" "\<not> CR_IsEmptySet nR"
    show "\<exists>r. do { lo \<leftarrow> div_op (CR_last pL) (CR_last nR); q \<leftarrow> div_op (lower pL) (lower nR);
        Some (CR_make lo (SInt_add_u q 1)) } = Some r \<and> CR_wf r \<and> CR_Width r = ?w \<and> covers ?w (?D ?pos ?neg) r"
    proof (rule pos_neg [OF parts(1) ne(1) parts(4) ne(2)])
      fix lo q
      assume q: "div_op (CR_last pL) (CR_last nR) = Some lo" "div_op (lower pL) (lower nR) = Some q"
        "CR_wf (CR_make lo (SInt_add_u q 1))" "width lo = ?w"
        and cov: "\<And>v x z. v \<in> CR_gamma pL \<Longrightarrow> x \<in> CR_gamma nR \<Longrightarrow> SInt_wf z \<Longrightarrow> width z = ?w \<Longrightarrow>
          sv z = sv v sdiv sv x \<Longrightarrow> z \<in> CR_gamma (CR_make lo (SInt_add_u q 1))"
      show ?thesis using q covers_part [OF cov, where D = "?D ?pos ?neg"] inp inn' by auto
    qed
  next
    assume "CR_IsEmptySet pL \<or> CR_IsEmptySet nR"
    then show "covers ?w (?D ?pos ?neg) (CR_Empty ?w)" using ins mem_EmptySet unfolding covers_def by blast
  qed
  obtain np where np: "(if \<not> CR_IsEmptySet nL \<and> \<not> CR_IsEmptySet pR then do {
        lo \<leftarrow> div_op (lower nL) (lower pR); q \<leftarrow> div_op (CR_last nL) (CR_last pR);
        Some (CR_make lo (SInt_add_u q 1)) } else Some (CR_Empty ?w)) = Some np"
    "CR_wf np" "CR_Width np = ?w" "covers ?w (?D ?neg ?pos) np"
  proof (rule part_or_empty)
    assume ne: "\<not> CR_IsEmptySet nL" "\<not> CR_IsEmptySet pR"
    show "\<exists>r. do { lo \<leftarrow> div_op (lower nL) (lower pR); q \<leftarrow> div_op (CR_last nL) (CR_last pR);
        Some (CR_make lo (SInt_add_u q 1)) } = Some r \<and> CR_wf r \<and> CR_Width r = ?w \<and> covers ?w (?D ?neg ?pos) r"
    proof (rule neg_pos [OF parts(2) ne(1) parts(3) ne(2)])
      fix lo q
      assume q: "div_op (lower nL) (lower pR) = Some lo" "div_op (CR_last nL) (CR_last pR) = Some q"
        "CR_wf (CR_make lo (SInt_add_u q 1))" "width lo = ?w"
        and cov: "\<And>v x z. v \<in> CR_gamma nL \<Longrightarrow> x \<in> CR_gamma pR \<Longrightarrow> SInt_wf z \<Longrightarrow> width z = ?w \<Longrightarrow>
          sv z = sv v sdiv sv x \<Longrightarrow> z \<in> CR_gamma (CR_make lo (SInt_add_u q 1))"
      show ?thesis using q covers_part [OF cov, where D = "?D ?neg ?pos"] inn inp' by auto
    qed
  next
    assume "CR_IsEmptySet nL \<or> CR_IsEmptySet pR"
    then show "covers ?w (?D ?neg ?pos) (CR_Empty ?w)" using ins mem_EmptySet unfolding covers_def by blast
  qed
  define posRes negRes res res' where "posRes = CR_UnionWith pp nn Smallest"
    and "negRes = CR_UnionWith pn np Smallest" and "res = CR_UnionWith negRes posRes Signed"
    and "res' = (if CR_Contains a (SInt_Zero ?w) \<and> (\<not> CR_IsEmptySet pR \<or> \<not> CR_IsEmptySet nR)
        then CR_UnionWith res (CR_single (SInt_Zero ?w)) Smallest else res)"
  note sub = filters(1,3) [unfolded posFilter_def negFilter_def]
  have code: "CR_SDivImpl div_op a b = Some res'"
    unfolding CR_SDivImpl_def Let_def posFilter_def [symmetric] negFilter_def [symmetric]
      pL_def [symmetric] nL_def [symmetric] pR_def [symmetric] nR_def [symmetric] CR_last_def [symmetric]
      pp(1) nn(1) pn(1) np(1)
    by (auto simp: posRes_def negRes_def res_def res'_def)
  note uw = UnionWith_wf UnionWith_width
  have r1: "CR_wf posRes" "CR_Width posRes = ?w" "CR_wf negRes" "CR_Width negRes = ?w"
    using pp nn pn np by (simp_all add: posRes_def negRes_def uw)
  have r2: "CR_wf res" "CR_Width res = ?w" using r1 by (simp_all add: res_def uw)
  have z: "CR_wf (CR_single (SInt_Zero ?w))" "CR_Width (CR_single (SInt_Zero ?w)) = ?w"
    by (simp_all add: single_wf)
  have r3: "CR_wf res'" "CR_Width res' = ?w" using r2 z by (simp_all add: res'_def uw)
  have up: "u \<in> CR_gamma res'" if "u \<in> CR_gamma pp \<or> u \<in> CR_gamma nn \<or> u \<in> CR_gamma pn \<or> u \<in> CR_gamma np" for u
  proof -
    have "u \<in> CR_gamma posRes \<or> u \<in> CR_gamma negRes"
      using that pp nn pn np by (auto simp: posRes_def negRes_def intro: UnionWith_left UnionWith_right)
    then have "u \<in> CR_gamma res" using r1 by (auto simp: res_def intro: UnionWith_left UnionWith_right)
    then show ?thesis using r2 z by (auto simp: res'_def intro: UnionWith_left)
  qed
  have "covers ?w (\<lambda>v x. v \<in> CR_gamma a \<and> x \<in> CR_gamma b \<and> sv x \<noteq> 0 \<and> \<not> overflows v x) res'"
    unfolding covers_def
  proof (intro allI impI)
    fix v x u
    assume vx: "v \<in> CR_gamma a \<and> x \<in> CR_gamma b \<and> sv x \<noteq> 0 \<and> \<not> overflows v x"
      and u: "SInt_wf u" "width u = ?w" "sv u = sv v sdiv sv x"
    show "u \<in> CR_gamma res'"
    proof (cases "sv v = 0")
      case True
      then have "uv v = 0" using vx gamma_wf sv_zero_iff by blast
      then have "v = SInt_Zero ?w" using vx gamma_width by (intro SInt_ext) auto
      then have "CR_Contains a (SInt_Zero ?w)" using vx by (simp add: CR_gamma_def)
      moreover have "\<not> CR_IsEmptySet pR \<or> \<not> CR_IsEmptySet nR"
        using vx ins(3,4) [of x] mem_EmptySet by (metis linorder_neqE_linordered_idom)
      moreover have "u = SInt_Zero ?w" using u True by (intro sv_inj) simp_all
      ultimately show ?thesis using r2 z by (simp add: res'_def UnionWith_right mem_single)
    next
      case False
      then consider "0 < sv v" "0 < sv x" | "sv v < 0" "sv x < 0" | "0 < sv v" "sv x < 0" | "sv v < 0" "0 < sv x"
        using vx by linarith
      then show ?thesis
      proof cases
        case 1
        then have "u \<in> CR_gamma pp" using pp(4) vx u unfolding covers_def by blast
        then show ?thesis using up by blast
      next
        case 2
        then have "u \<in> CR_gamma nn" using nn(4) vx u unfolding covers_def by blast
        then show ?thesis using up by blast
      next
        case 3
        then have "u \<in> CR_gamma pn" using pn(4) vx u unfolding covers_def by blast
        then show ?thesis using up by blast
      next
        case 4
        then have "u \<in> CR_gamma np" using np(4) vx u unfolding covers_def by blast
        then show ?thesis using up by blast
      qed
    qed
  qed
  then show thesis by (rule that [OF code r3])
qed

end

text \<open>Both divisions of the machine integer satisfy the contract.\<close>

interpretation sdiv: signed_divider SInt_SDiv
proof
  fix x y q assume xy: "SInt_wf x" "SInt_wf y" "width y = width x" "sv y \<noteq> 0"
  have nz: "uv y \<noteq> 0" using xy sv_zero_iff by blast
  show "\<exists>q. SInt_SDiv x y = Some q \<and> SInt_wf q \<and> width q = width x"
    using SDiv_Some [OF xy(1-3) nz] by metis
  assume no: "\<not> overflows x y" and q: "SInt_SDiv x y = Some q"
  then show "sv q = sv x sdiv sv y" using SDiv_sv [OF xy _ q] by (simp add: overflows_def)
qed

interpretation sdivsat: signed_divider SInt_SDivSat
proof
  fix x y q assume xy: "SInt_wf x" "SInt_wf y" "width y = width x" "sv y \<noteq> 0"
  have nz: "uv y \<noteq> 0" using xy sv_zero_iff by blast
  show "\<exists>q. SInt_SDivSat x y = Some q \<and> SInt_wf q \<and> width q = width x"
    using SDivSat_spec [OF xy(1-3) nz] by metis
  assume no: "\<not> overflows x y" and q: "SInt_SDivSat x y = Some q"
  obtain "sv q = clamp_s (width x) (sv x sdiv sv y)"
    using SDivSat_spec [OF xy(1-3) nz] q by (metis option.inject)
  then show "sv q = sv x sdiv sv y"
    using sdiv_fits [OF xy(1), of "sv y"] no by (simp add: overflows_def clamp_s_id)
qed

lemma SDiv_range:
  assumes a: "CR_wf a" and b: "CR_wf b" and w: "CR_Width b = CR_Width a" and nl: "\<not> lossy_dividend a"
  obtains r where "CR_SDiv a b = Some r" "CR_wf r" "CR_Width r = CR_Width a"
    "\<And>v x z. v \<in> CR_gamma a \<Longrightarrow> x \<in> CR_gamma b \<Longrightarrow> \<not> overflows v x \<Longrightarrow> SInt_SDiv v x = Some z \<Longrightarrow> z \<in> CR_gamma r"
proof (rule sdiv.SDivImpl_covers [OF assms])
  fix r assume r: "CR_SDivImpl SInt_SDiv a b = Some r" "CR_wf r" "CR_Width r = CR_Width a"
    "covers (CR_Width a) (\<lambda>v x. v \<in> CR_gamma a \<and> x \<in> CR_gamma b \<and> sv x \<noteq> 0 \<and> \<not> overflows v x) r"
  show thesis
  proof (rule that [OF _ r(2,3)])
    show "CR_SDiv a b = Some r" using r(1) by (simp add: CR_SDiv_def)
    fix v x z assume vx: "v \<in> CR_gamma a" "x \<in> CR_gamma b" "\<not> overflows v x" and z: "SInt_SDiv v x = Some z"
    note f = gamma_wf [OF vx(1)] gamma_wf [OF vx(2)] gamma_width [OF vx(1)] gamma_width [OF vx(2)]
    have nz: "sv x \<noteq> 0" using z SDiv_None [of v x] f sv_zero_iff by force
    have "SInt_wf z" "width z = CR_Width a" "sv z = sv v sdiv sv x"
      using vx SDiv_sv [OF f(1,2) _ nz _ z] f w by (simp_all add: overflows_def)
    then show "z \<in> CR_gamma r" using r(4) vx nz unfolding covers_def by blast
  qed
qed

lemma SDivSat_range:
  assumes a: "CR_wf a" and b: "CR_wf b" and w: "CR_Width b = CR_Width a" and nl: "\<not> lossy_dividend a"
  obtains r where "CR_SDivSat a b = Some r" "CR_wf r" "CR_Width r = CR_Width a"
    "\<And>v x z. v \<in> CR_gamma a \<Longrightarrow> x \<in> CR_gamma b \<Longrightarrow> sv x \<noteq> 0 \<Longrightarrow> \<not> overflows v x \<Longrightarrow>
      SInt_SDivSat v x = Some z \<Longrightarrow> z \<in> CR_gamma r"
proof (rule sdivsat.SDivImpl_covers [OF assms])
  fix r assume r: "CR_SDivImpl SInt_SDivSat a b = Some r" "CR_wf r" "CR_Width r = CR_Width a"
    "covers (CR_Width a) (\<lambda>v x. v \<in> CR_gamma a \<and> x \<in> CR_gamma b \<and> sv x \<noteq> 0 \<and> \<not> overflows v x) r"
  show thesis
  proof (rule that [OF _ r(2,3)])
    show "CR_SDivSat a b = Some r" using r(1) by (simp add: CR_SDivSat_def)
    fix v x z assume vx: "v \<in> CR_gamma a" "x \<in> CR_gamma b" "sv x \<noteq> 0" "\<not> overflows v x"
      and z: "SInt_SDivSat v x = Some z"
    note f = gamma_wf [OF vx(1)] gamma_wf [OF vx(2)] gamma_width [OF vx(1)] gamma_width [OF vx(2)]
    have q: "sv z = sv v sdiv sv x" using sdivsat.quotient [OF f(1,2) _ vx(3,4) z] f w by simp
    have "SInt_wf z" "width z = CR_Width a"
      using sdivsat.defined [OF f(1,2) _ vx(3)] z f w by auto
    then show "z \<in> CR_gamma r" using r(4) vx q unfolding covers_def by blast
  qed
qed

end
