(* ===== verification/Range_Casts.thy ===== *)
theory Range_Casts
  imports Range_MulDiv
begin

text \<open>
  Changing the width of a range: zero extension, sign extension and truncation cover the
  converted elements; splitting a wrapped range gives its two pieces; negation.
\<close>

section \<open>Bit-set constants\<close>

lemma OneBitSet_uv:
  assumes "w < w'"
  shows "uv (SInt_GetOneBitSet w' (bw w)) = modulus w" "width (SInt_GetOneBitSet w' (bw w)) = w'"
    "SInt_wf (SInt_GetOneBitSet w' (bw w))"
proof -
  have "uint (val (SInt_GetOneBitSet w' (bw w))) = modulus w"
    using assms by (cases w; cases w') (simp_all add: SInt_GetOneBitSet_def SInt_SetBit_def SInt_MaskBit_def less_IntWidth_def)
  then show u: "uv (SInt_GetOneBitSet w' (bw w)) = modulus w" by (simp add: uv_def)
  show wd: "width (SInt_GetOneBitSet w' (bw w)) = w'"
    by (simp add: SInt_GetOneBitSet_def SInt_SetBit_def)
  show "SInt_wf (SInt_GetOneBitSet w' (bw w))"
    using modulus_strict [OF assms] modulus_pos [of w] unfolding SInt_wf_def u wd by linarith
qed

lemma HighBits_uv:
  assumes "w < w'"
  shows "uv (SInt_GetHighBitsSet w' (usub (bw w') (bw w) + 1)) = modulus w' - half w"
    "width (SInt_GetHighBitsSet w' (usub (bw w') (bw w) + 1)) = w'"
    "SInt_wf (SInt_GetHighBitsSet w' (usub (bw w') (bw w) + 1))"
proof -
  have "uint (val (SInt_GetHighBitsSet w' (usub (bw w') (bw w) + 1))) = modulus w' - half w"
    using assms by (cases w; cases w') (simp_all add: less_IntWidth_def, code_simp+)
  then show u: "uv (SInt_GetHighBitsSet w' (usub (bw w') (bw w) + 1)) = modulus w' - half w" by (simp add: uv_def)
  show wd: "width (SInt_GetHighBitsSet w' (usub (bw w') (bw w) + 1)) = w'"
    by (simp add: SInt_GetHighBitsSet_def SInt_SetHighBits_def SInt_SetBits_def Let_def)
  show "SInt_wf (SInt_GetHighBitsSet w' (usub (bw w') (bw w) + 1))"
    unfolding SInt_wf_def u wd by simp
qed

lemma LowBits_uv:
  assumes "w < w'"
  shows "uv (SInt_GetLowBitsSet w' (bw w - 1)) = half w - 1"
    "width (SInt_GetLowBitsSet w' (bw w - 1)) = w'"
    "SInt_wf (SInt_GetLowBitsSet w' (bw w - 1))"
proof -
  have "uint (val (SInt_GetLowBitsSet w' (bw w - 1))) = half w - 1"
    using assms by (cases w; cases w') (simp_all add: less_IntWidth_def, code_simp+)
  then show u: "uv (SInt_GetLowBitsSet w' (bw w - 1)) = half w - 1" by (simp add: uv_def)
  show wd: "width (SInt_GetLowBitsSet w' (bw w - 1)) = w'"
    by (simp add: SInt_GetLowBitsSet_def SInt_SetLowBits_def SInt_SetBits_def Let_def)
  show "SInt_wf (SInt_GetLowBitsSet w' (bw w - 1))"
    using modulus_strict [OF assms] half_pos [of w] modulus_half [of w] unfolding SInt_wf_def u wd by linarith
qed

lemma SetAllBits_uv: "uv (SInt_SetAllBits x) = modulus (width x) - 1" "width (SInt_SetAllBits x) = width x"
  "SInt_wf (SInt_SetAllBits x)"
proof -
  have "SInt_SetAllBits x = SInt_AllOnes (width x)"
    by (simp add: SInt_SetAllBits_def SInt_AllOnes_def SInt_make_def SInt_ClearUnusedBits_def Let_def)
  then show "uv (SInt_SetAllBits x) = modulus (width x) - 1" "width (SInt_SetAllBits x) = width x"
    "SInt_wf (SInt_SetAllBits x)" by (simp_all add: AllOnes_uv)
qed

text \<open>Clearing the top bit and cutting the low bits off.\<close>

lemma uint_take_bit: "uint (take_bit n (v :: 64 word)) = uint v mod 2 ^ n"
  by (simp only: unsigned_take_bit_eq) (simp only: take_bit_eq_mod)

lemma high_bits_zero: "uint v < 2 ^ n \<Longrightarrow> n \<le> i \<Longrightarrow> \<not> bit (v :: 64 word) i"
proof
  assume v: "uint v < 2 ^ n" "n \<le> i" and b: "bit v i"
  have "(2 :: int) ^ n \<le> 2 ^ i" using v(2) by (intro power_increasing) auto
  then have "uint v < 2 ^ i" using v(1) by linarith
  then have "uint v div 2 ^ i = 0" by simp
  then have "\<not> bit (uint v) i" by (simp add: bit_iff_odd)
  then show False using b bit_imp_le_length [OF b] by (simp add: bit_uint_iff)
qed

lemma ClearBit_uv:
  assumes "n < 64" "uv x < 2 ^ (n + 1)"
  shows "uv (SInt_ClearBit x n) = uv x mod 2 ^ n" "width (SInt_ClearBit x n) = width x"
proof -
  have "val x AND NOT (push_bit n 1) = take_bit n (val x)"
  proof (rule bit_word_eqI)
    fix i assume "i < LENGTH(64)"
    then show "bit (val x AND NOT (push_bit n 1)) i = bit (take_bit n (val x)) i"
      using high_bits_zero [of "val x" "n + 1" i] assms(2)
      by (cases i n rule: linorder_cases) (auto simp: bit_simps uv_def)
  qed
  then show "uv (SInt_ClearBit x n) = uv x mod 2 ^ n"
    by (simp add: SInt_ClearBit_def SInt_MaskBit_def uv_def uint_take_bit)
  show "width (SInt_ClearBit x n) = width x" by (simp add: SInt_ClearBit_def)
qed

lemma word_low_high: "uint ((v :: 64 word) AND NOT (mask n)) = uint v - uint v mod 2 ^ n"
proof -
  have "v AND NOT (mask n) = push_bit n (drop_bit n v)"
    by (rule bit_word_eqI) (auto simp: bit_simps)
  moreover have "uint v div 2 ^ n * 2 ^ n = uint v - uint v mod 2 ^ n"
    by (simp add: minus_mod_eq_div_mult)
  moreover have "0 \<le> uint v mod 2 ^ n" "uint v mod 2 ^ n \<le> uint v"
    by (simp_all add: zmod_le_nonneg_dividend)
  then have "(uint v - uint v mod 2 ^ n) mod 18446744073709551616 = uint v - uint v mod 2 ^ n"
    using uint64_bounds [of v] by (intro mod_pos_pos_trivial) linarith+
  ultimately show ?thesis by (simp add: uint_push_bit64 uint_drop_bit64)
qed

lemma cut_high_bits:
  assumes "SInt_wf x" "w \<le> width x"
  shows "uv (SInt_and x (SInt_GetBitsSetFrom (width x) (bw w))) = uv x - uv x mod modulus w"
    "width (SInt_and x (SInt_GetBitsSetFrom (width x) (bw w))) = width x"
proof -
  have "val x AND val (SInt_GetBitsSetFrom (width x) (bw w)) = val x AND NOT (mask (bw w))"
  proof (rule bit_word_eqI)
    fix i assume i: "i < LENGTH(64)"
    have hi: "\<not> bit (val x) i" if "bw (width x) \<le> i"
      using high_bits_zero [OF _ that] assms(1) by (simp add: SInt_wf_def modulus_def uv_def)
    have "bit (val (SInt_GetBitsSetFrom (width x) (bw w))) i \<longleftrightarrow> bw w \<le> i \<and> i < bw (width x)"
    proof -
      have le: "bw w \<le> bw (width x)" "bw (width x) \<le> 64"
        using assms(2) bw_bounds by (simp_all add: less_eq_IntWidth_def)
      then show ?thesis using i
        by (auto simp: SInt_GetBitsSetFrom_def SInt_SetBits_def Let_def WORD_TYPE_MAX_def bit_simps)
    qed
    then show "bit (val x AND val (SInt_GetBitsSetFrom (width x) (bw w))) i =
        bit (val x AND NOT (mask (bw w))) i"
      using hi i by (auto simp: bit_simps not_le)
  qed
  then show "uv (SInt_and x (SInt_GetBitsSetFrom (width x) (bw w))) = uv x - uv x mod modulus w"
    by (simp add: SInt_and_def SInt_and_u_def uv_def word_low_high modulus_def)
  show "width (SInt_and x (SInt_GetBitsSetFrom (width x) (bw w))) = width x"
    by (simp add: SInt_and_def SInt_and_u_def)
qed

section \<open>Extension\<close>

lemma ZeroExtend_range:
  assumes r: "CR_wf r" and w: "CR_Width r < w"
  shows "CR_wf (CR_ZeroExtend r w)" "CR_Width (CR_ZeroExtend r w) = w"
    "v \<in> CR_gamma r \<Longrightarrow> SInt_ZExt v w \<in> CR_gamma (CR_ZeroExtend r w)"
proof -
  let ?m = "modulus (CR_Width r)"
  note d = CR_wfD [OF r] and o1 = OneBitSet_uv [OF w]
  have wle: "CR_Width r \<le> w" using w by simp
  have z: "SInt_wf x \<Longrightarrow> width x = CR_Width r \<Longrightarrow>
      uv (SInt_ZExt x w) = uv x \<and> width (SInt_ZExt x w) = w \<and> SInt_wf (SInt_ZExt x w)" for x
    using ZExt_simps [of x w] wle by simp
  note zl = z [OF d(1,4)] and zu = z [OF d(2,3)]
  have M: "0 < ?m" "0 < modulus w" by simp_all
  have ne: "uv (lower r) \<noteq> ?m" "uv (upper r) \<noteq> ?m" using d by auto
  show "CR_wf (CR_ZeroExtend r w)"
    using r
  proof (cases rule: wf_cases)
    case proper
    then show ?thesis using o1 zl zu ne M
      by (auto simp: CR_ZeroExtend_def make_CR_wf make_uv IsUMinValue_iff)
  qed (use o1 M in \<open>auto simp: CR_ZeroExtend_def make_CR_wf make_uv\<close>)
  show "CR_Width (CR_ZeroExtend r w) = w" using zl by (simp add: CR_ZeroExtend_def)
  assume v: "v \<in> CR_gamma r"
  note zv = z [OF gamma_wf [OF v] gamma_width [OF v]] and bv = gamma_bounds [OF v]
  have ne0: "\<not> CR_IsEmptySet r" using gamma_not_empty [OF v] .
  show "SInt_ZExt v w \<in> CR_gamma (CR_ZeroExtend r w)"
  proof (cases "CR_IsFullSet r \<or> CR_IsWrappedSet r")
    case True
    then show ?thesis using ne0 o1 zv bv M by (simp add: CR_ZeroExtend_def mem_make make_uv on_arc_def)
  next
    case False
    then have "uv (lower r) \<le> uv v" "uv (upper r) = 0 \<or> uv v < uv (upper r)" "uv (lower r) \<noteq> uv (upper r)"
      using v bv by (auto simp: mem_iff on_arc_def IsWrappedSet_iff split: if_splits)
    then show ?thesis using False ne0 o1 zv zl zu bv ne
      by (auto simp: CR_ZeroExtend_def mem_make on_arc_def IsUMinValue_iff)
  qed
qed

lemma half_mono: "w < w' \<Longrightarrow> 2 * half w \<le> half w'"
  using modulus_strict [of w w'] half_pos [of w] unfolding modulus_half by linarith

lemma SignExtend_range:
  assumes r: "CR_wf r" and w: "CR_Width r < w"
  shows "CR_wf (CR_SignExtend r w)" "CR_Width (CR_SignExtend r w) = w"
    "v \<in> CR_gamma r \<Longrightarrow> SInt_SExt v w \<in> CR_gamma (CR_SignExtend r w)"
proof -
  let ?w = "CR_Width r"
  note d = CR_wfD [OF r]
  have wle: "?w \<le> w" using w by simp
  have h: "2 * half ?w \<le> half w" "128 \<le> half ?w" using half_mono [OF w] half_ge by simp_all
  have s: "SInt_wf x \<Longrightarrow> width x = ?w \<Longrightarrow>
      sv (SInt_SExt x w) = sv x \<and> width (SInt_SExt x w) = w \<and> SInt_wf (SInt_SExt x w)" for x
    using SExt_sv [of x w] SExt_simps(2,3) [of x w] wle by simp
  note sl = s [OF d(1,4)] and su = s [OF d(2,3)]
  define lo where "lo = SInt_GetHighBitsSet w (usub (bw w) (bw ?w) + 1)"
  define hi where "hi = SInt_add_u (SInt_GetLowBitsSet w (bw ?w - 1)) 1"
  have lo: "SInt_wf lo" "width lo = w" "sv lo = - half ?w"
  proof -
    note hb = HighBits_uv [OF w, folded lo_def]
    show "SInt_wf lo" "width lo = w" using hb by simp_all
    show "sv lo = - half ?w" using hb h modulus_half [of w] by (simp add: sv_def)
  qed
  have hi: "SInt_wf hi" "width hi = w" "sv hi = half ?w"
  proof -
    note lb = LowBits_uv [OF w]
    show "SInt_wf hi" "width hi = w" using lb by (simp_all add: hi_def)
    have "uv hi = half ?w" using lb h modulus_half [of w] by (simp add: hi_def add1_uv)
    then show "sv hi = half ?w" using \<open>width hi = w\<close> h by (simp add: sv_def)
  qed
  have zu: "SInt_wf (SInt_ZExt (upper r) w)" "width (SInt_ZExt (upper r) w) = w"
    "sv (upper r) = - half ?w \<Longrightarrow> sv (SInt_ZExt (upper r) w) = half ?w"
  proof -
    note z = ZExt_simps [of "upper r" w]
    show "SInt_wf (SInt_ZExt (upper r) w)" "width (SInt_ZExt (upper r) w) = w" using z d wle by simp_all
    assume "sv (upper r) = - half ?w"
    then have "uv (upper r) = half ?w" using d h modulus_half [of ?w] by (simp add: sv_neg_uv)
    then show "sv (SInt_ZExt (upper r) w) = half ?w" using z d wle h by (simp add: sv_def)
  qed
  have code: "CR_SignExtend r w = (if CR_IsEmptySet r then CR_Empty w
      else if CR_IsFullSet r \<or> CR_IsSignWrappedSet r then CR_make lo hi
      else if sv (upper r) = - half ?w then CR_make (SInt_SExt (lower r) w) (SInt_ZExt (upper r) w)
      else CR_make (SInt_SExt (lower r) w) (SInt_SExt (upper r) w))"
    using d by (simp add: CR_SignExtend_def Let_def lo_def hi_def IsSMinValue_sv)
  have b: "- half ?w \<le> sv (lower r)" "sv (lower r) < half ?w" "- half ?w \<le> sv (upper r)"
    using sbounds [OF d(1)] sbounds [OF d(2)] d by auto
  have p: "\<not> CR_IsFullSet r \<Longrightarrow> \<not> CR_IsEmptySet r \<Longrightarrow> sv (lower r) \<noteq> sv (upper r)"
    using wf_cases [OF r] sv_neq_iff [of "lower r" "upper r"] d by metis
  show "CR_wf (CR_SignExtend r w)"
    using p sl su lo hi zu b h by (auto simp: code intro!: make_CR_wf_signed)
  show "CR_Width (CR_SignExtend r w) = w" using sl lo by (simp add: code)
  assume v: "v \<in> CR_gamma r"
  note sv = s [OF gamma_wf [OF v] gamma_width [OF v]] and bv = gamma_sbounds [OF v]
  have ne0: "\<not> CR_IsEmptySet r" using gamma_not_empty [OF v] .
  show "SInt_SExt v w \<in> CR_gamma (CR_SignExtend r w)"
  proof (cases "CR_IsFullSet r \<or> CR_IsSignWrappedSet r")
    case True
    then show ?thesis using ne0 lo hi sv bv h by (auto simp: code mem_make_signed on_arc_def)
  next
    case False
    then have "sv (lower r) \<le> sv v" "sv (upper r) = - half ?w \<or> sv v < sv (upper r)"
      using v bv b by (auto simp: mem_signed_iff [OF r] on_arc_def IsSignWrappedSet_iff [OF r] split: if_splits)
    then show ?thesis using False ne0 sv sl su zu bv p b h
      by (auto simp: code mem_make_signed on_arc_def)
  qed
qed

section \<open>Truncation\<close>

text \<open>The piece that does not wrap: both bounds moved down by the multiple of the target
  modulus below the lower one.\<close>

lemma Truncate_normal_range:
  fixes l u :: SInt
  assumes l: "SInt_wf l" "width l = w" and u: "SInt_wf u" "width u = w" and lt: "uv l < uv u"
    and w: "w' < w" and p: "CR_wf p" "CR_Width p = w'"
  shows "CR_wf (CR_Truncate_normal l u p w w')" "CR_Width (CR_Truncate_normal l u p w w') = w'"
    "x \<in> CR_gamma p \<Longrightarrow> x \<in> CR_gamma (CR_Truncate_normal l u p w w')"
    "SInt_wf v \<Longrightarrow> width v = w \<Longrightarrow> uv l \<le> uv v \<Longrightarrow> uv v < uv u \<Longrightarrow>
      SInt_Trunc v w' \<in> CR_gamma (CR_Truncate_normal l u p w w')"
proof -
  let ?m = "modulus w'"
  define adj where "adj = SInt_and l (SInt_GetBitsSetFrom w (bw w'))"
  define cut where "cut \<longleftrightarrow> bw w' < SInt_ActiveBits l"
  define l' where "l' = (if cut then SInt_sub l adj else l)"
  define u' where "u' = (if cut then SInt_sub u adj else u)"
  define k where "k = uv l - uv l mod ?m"
  have wle: "w' \<le> w" "bw w' \<le> bw w" "bw w' < 64"
    using w bw_bounds [of w] by (auto simp: less_IntWidth_def less_eq_IntWidth_def)
  have M: "?m * 256 \<le> modulus w" "0 < ?m" using modulus_strict [OF w] by simp_all
  have adj: "uv adj = k" using cut_high_bits [OF l(1), of w'] l(2) wle by (simp add: adj_def k_def)
  have bounds: "0 \<le> uv l" "uv l < modulus w" "uv u < modulus w"
    using l u uv_nonneg by (simp_all add: SInt_wf_def)
  have k: "0 \<le> k" "k \<le> uv l" "k mod ?m = 0"
    using bounds by (auto simp: k_def zmod_le_nonneg_dividend mod_diff_left_eq mod_diff_eq)
  have cut: "cut \<longleftrightarrow> ?m \<le> uv l"
    using ActiveBits_le [OF l(1), of "bw w'"] l(2) wle by (auto simp: cut_def modulus_def)
  have kz: "\<not> cut \<Longrightarrow> k = 0" using cut bounds by (simp add: k_def)
  have sub: "(uv x - k) mod modulus w = uv x - k" if "SInt_wf x" "width x = w" "uv l \<le> uv x" for x
    using that k by (intro mod_pos_pos_trivial) (auto simp: SInt_wf_def)
  have l': "SInt_wf l'" "width l' = w" "uv l' = uv l mod ?m"
    using l kz sub [OF l] adj by (auto simp: l'_def sub_uv k_def)
  have u': "SInt_wf u'" "width u' = w" "uv u' = uv u - k"
    using u kz sub [OF u] adj lt by (auto simp: u'_def sub_uv)
  have lu: "uv l' < uv u'" using l'(3) u'(3) lt by (simp add: k_def)
  have l'm: "0 \<le> uv l'" "uv l' < ?m" using l'(3) by simp_all
  have ab1: "SInt_ActiveBits u' \<le> bw w' \<longleftrightarrow> uv u' < ?m"
    using ActiveBits_le [OF u'(1), of "bw w'"] u'(2) wle by (simp add: modulus_def)
  have ab2: "SInt_ActiveBits u' \<le> bw w' + 1 \<longleftrightarrow> uv u' < 2 * ?m"
    using ActiveBits_le [OF u'(1), of "bw w' + 1"] u'(2) w by (simp add: modulus_def less_IntWidth_def)
  define u2 where "u2 = SInt_ClearBit u' (bw w')"
  have u2: "uv u2 = uv u' - ?m" if "?m \<le> uv u'" "uv u' < 2 * ?m"
    using ClearBit_uv [of "bw w'" u'] that wle mod_once_up [of "uv u'" ?m] uv_nonneg [of u']
    by (simp add: u2_def modulus_def)
  define A where "A = CR_make (SInt_Trunc l' w') (SInt_Trunc u' w')"
  define B where "B = CR_make (SInt_Trunc l' w') (SInt_Trunc u2 w')"
  have code: "CR_Truncate_normal l u p w w' =
     (if uv u' < ?m then CR_UnionWith A p Smallest
      else if uv u' < 2 * ?m \<and> uv u2 < uv l' then CR_UnionWith B p Smallest
      else CR_Full w')"
    using ab1 ab2 unfolding CR_Truncate_normal_def Let_def adj_def [symmetric] cut_def [symmetric]
      l'_def [symmetric] u'_def [symmetric] u2_def [symmetric] A_def B_def
    by (auto simp: ucmp_uv)
  have t: "uv (SInt_Trunc x w') = uv x mod ?m" "width (SInt_Trunc x w') = w'" "SInt_wf (SInt_Trunc x w')" for x
    by (simp_all add: Trunc_simps)
  have tl: "uv (SInt_Trunc l' w') = uv l'" using l'm by (simp add: t)
  have tu: "uv u' < ?m \<Longrightarrow> uv (SInt_Trunc u' w') = uv u'" using uv_nonneg [of u'] by (simp add: t)
  have t2: "?m \<le> uv u' \<Longrightarrow> uv u' < 2 * ?m \<Longrightarrow> uv (SInt_Trunc u2 w') = uv u' - ?m"
    using u2 mod_once_up [of "uv u'" ?m] uv_nonneg [of u'] by (simp add: t)
  have A: "uv u' < ?m \<Longrightarrow> CR_wf A \<and> CR_Width A = w'"
    using lu by (simp add: A_def make_CR_wf t(2,3) tl tu)
  have B: "?m \<le> uv u' \<Longrightarrow> uv u' < 2 * ?m \<Longrightarrow> uv u2 < uv l' \<Longrightarrow> CR_wf B \<and> CR_Width B = w'"
    using u2 by (simp add: B_def make_CR_wf t(2,3) tl t2)
  consider (A) "uv u' < ?m" "CR_Truncate_normal l u p w w' = CR_UnionWith A p Smallest"
    | (B) "?m \<le> uv u'" "uv u' < 2 * ?m" "uv u2 < uv l'" "CR_Truncate_normal l u p w w' = CR_UnionWith B p Smallest"
    | (F) "CR_Truncate_normal l u p w w' = CR_Full w'"
    using code by (metis not_less)
  note split = this
  show "CR_wf (CR_Truncate_normal l u p w w')"
    by (rule split) (simp_all add: A B p UnionWith_wf)
  show "CR_Width (CR_Truncate_normal l u p w w') = w'"
    by (rule split) (simp_all add: A B p UnionWith_width)
  show "x \<in> CR_gamma (CR_Truncate_normal l u p w w')" if "x \<in> CR_gamma p"
    by (rule split) (simp_all add: A B p that UnionWith_right gamma_wf [OF that] gamma_width [OF that])
  assume v: "SInt_wf v" "width v = w" "uv l \<le> uv v" "uv v < uv u"
  define v' where "v' = uv v - k"
  have v': "uv l' \<le> v'" "v' < uv u'" "v' mod ?m = uv v mod ?m"
  proof -
    show "uv l' \<le> v'" "v' < uv u'" using v l'(3) u'(3) by (simp_all add: v'_def k_def)
    have "v' mod ?m = (uv v - k mod ?m) mod ?m" unfolding v'_def by (simp only: mod_diff_right_eq)
    then show "v' mod ?m = uv v mod ?m" by (simp add: k(3))
  qed
  have tv: "uv (SInt_Trunc v w') = v' mod ?m" unfolding t(1) v'(3) by (rule refl)
  have inA: "SInt_Trunc v w' \<in> CR_gamma A" if u'm: "uv u' < ?m"
  proof -
    have "v' mod ?m = v'" using v'(1,2) l'm u'm by (intro mod_pos_pos_trivial) linarith+
    then have "on_arc (uv l') (uv u') (uv (SInt_Trunc v w'))" unfolding tv on_arc_def using v'(1,2) lu by simp
    then show ?thesis
      unfolding A_def using lu by (subst mem_make) (simp_all only: t(2,3) tl tu [OF u'm])
  qed
  have inB: "SInt_Trunc v w' \<in> CR_gamma B" if u'm: "?m \<le> uv u'" "uv u' < 2 * ?m" "uv u2 < uv l'"
  proof -
    have "v' mod ?m = (if v' < ?m then v' else v' - ?m)"
      using v'(1,2) l'm u'm by (intro mod_once_up) linarith+
    then have "on_arc (uv l') (uv u2) (uv (SInt_Trunc v w'))"
      unfolding tv on_arc_def using v'(1,2) u2 [OF u'm(1,2)] u'm(3) by simp
    then show ?thesis
      unfolding B_def using u'm(3) u2 [OF u'm(1,2)]
      by (subst mem_make) (simp_all only: t(2,3) tl t2 [OF u'm(1,2)])
  qed
  show "SInt_Trunc v w' \<in> CR_gamma (CR_Truncate_normal l u p w w')"
    by (rule split) (simp_all add: A B p inA inB UnionWith_left t(2,3))
qed

lemma Truncate_range:
  assumes r: "CR_wf r" and w: "w' < CR_Width r"
  shows "CR_wf (CR_Truncate r w')" "CR_Width (CR_Truncate r w') = w'"
    "v \<in> CR_gamma r \<Longrightarrow> SInt_Trunc v w' \<in> CR_gamma (CR_Truncate r w')"
proof -
  let ?w = "CR_Width r" and ?m = "modulus w'" and ?t = "CR_Truncate r w'"
  note d = CR_wfD [OF r]
  have M: "?m * 256 \<le> modulus ?w" "256 \<le> ?m" using modulus_strict [OF w] modulus_ge by simp_all
  have t: "uv (SInt_Trunc x w') = uv x mod ?m" "width (SInt_Trunc x w') = w'" "SInt_wf (SInt_Trunc x w')" for x
    by (simp_all add: Trunc_simps)
  have z: "uv (SInt_ZExt (SInt_UMaxValue w') ?w) = ?m - 1"
    using ZExt_simps(1) [of "SInt_UMaxValue w'" ?w] w by simp
  have "CR_wf ?t \<and> CR_Width ?t = w' \<and> (\<forall>v \<in> CR_gamma r. SInt_Trunc v w' \<in> CR_gamma ?t)"
    using r
  proof (cases rule: wf_cases)
    case full
    then show ?thesis by (simp add: CR_Truncate_def t)
  next
    case empty
    then show ?thesis using mem_EmptySet by (simp add: CR_Truncate_def)
  next
    case proper
    have mem: "v \<in> CR_gamma r \<longleftrightarrow> SInt_wf v \<and> width v = ?w \<and> on_arc (uv (lower r)) (uv (upper r)) (uv v)" for v
      using proper by (auto simp: mem_iff)
    show ?thesis
    proof (cases "CR_IsUpperWrapped r")
      case False
      then have lt: "uv (lower r) < uv (upper r)" using proper by (simp add: IsUpperWrapped_iff)
      have "?t = CR_Truncate_normal (lower r) (upper r) (CR_Empty w') ?w w'"
        using proper False by (simp add: CR_Truncate_def CR_Empty_def)
      then show ?thesis
        using Truncate_normal_range [OF d(1,4) d(2,3) lt w, of "CR_Empty w'"] lt
        by (auto simp: mem on_arc_def)
    next
      case True
      then have gt: "uv (upper r) < uv (lower r)" by (simp add: IsUpperWrapped_iff)
      show ?thesis
      proof (cases "?m - 1 \<le> uv (upper r)")
        case True
        then have "?t = CR_Full w'" using proper \<open>CR_IsUpperWrapped r\<close> z by (simp add: CR_Truncate_def Let_def ucmp_uv)
        then show ?thesis by (simp add: t)
      next
        case False
        define p where "p = CR_make (SInt_UMaxValue w') (SInt_Trunc (upper r) w')"
        have tu: "uv (SInt_Trunc (upper r) w') = uv (upper r)" using False d by (simp add: t)
        have p: "CR_wf p" "CR_Width p = w'" using False by (simp_all add: p_def make_CR_wf t(2,3) tu)
        have inp: "SInt_Trunc v w' \<in> CR_gamma p"
          if "SInt_wf v" "width v = ?w" "uv v < uv (upper r) \<or> uv v = modulus ?w - 1" for v
        proof -
          have "(modulus ?w - 1) mod ?m = ?m - 1"
          proof -
            have "?m dvd modulus ?w" using w by (intro modulus_mono) simp
            then have "(modulus ?w - 1) mod ?m = (- 1) mod ?m"
              by (metis dvd_eq_mod_eq_0 diff_0 mod_diff_left_eq)
            then show ?thesis using mod_once_down [of ?m "- 1"] M by simp
          qed
          then have "uv v mod ?m < uv (upper r) \<or> uv v mod ?m = ?m - 1"
            using that False uv_nonneg [of v] by auto
          moreover have "uv (SInt_UMaxValue w') \<noteq> uv (SInt_Trunc (upper r) w')" using False by (simp add: tu)
          ultimately show ?thesis using False unfolding p_def by (subst mem_make) (auto simp: t tu [unfolded t(1)] on_arc_def)
        qed
        show ?thesis
        proof (cases "uv (lower r) = modulus ?w - 1")
          case True
          then have "?t = p"
            using proper \<open>CR_IsUpperWrapped r\<close> False z d
            by (simp add: CR_Truncate_def Let_def ucmp_uv p_def IsUMaxValue_iff)
          moreover have "uv v < uv (upper r) \<or> uv v = modulus ?w - 1" if "v \<in> CR_gamma r" for v
            using that True gt gamma_bounds [OF that] by (auto simp: mem on_arc_def)
          ultimately show ?thesis using p inp by (auto simp: mem)
        next
          case lower: False
          have code: "?t = CR_Truncate_normal (lower r) (SInt_SetAllBits (upper r)) p ?w w'"
            using proper \<open>CR_IsUpperWrapped r\<close> False lower z d
            by (simp add: CR_Truncate_def Let_def ucmp_uv p_def IsUMaxValue_iff)
          have sab: "SInt_wf (SInt_SetAllBits (upper r))" "width (SInt_SetAllBits (upper r)) = ?w"
            "uv (SInt_SetAllBits (upper r)) = modulus ?w - 1"
            using d by (simp_all add: SetAllBits_uv)
          have lt: "uv (lower r) < uv (SInt_SetAllBits (upper r))" using lower d sab by simp
          note n = Truncate_normal_range [OF d(1,4) sab(1,2) lt w p]
          have "SInt_Trunc v w' \<in> CR_gamma ?t" if "v \<in> CR_gamma r" for v
          proof (cases "uv v < uv (upper r) \<or> uv v = modulus ?w - 1")
            case True
            then show ?thesis using inp [of v] that n(3) by (simp add: code mem)
          next
            case no: False
            then have "uv (lower r) \<le> uv v" "uv v < modulus ?w - 1"
              using that gt gamma_bounds [OF that] by (auto simp: mem on_arc_def)
            then show ?thesis using n(4) [of v] that sab(3) by (simp add: code mem)
          qed
          then show ?thesis using n(1,2) by (simp add: code)
        qed
      qed
    qed
  qed
  then show "CR_wf ?t" "CR_Width ?t = w'" "v \<in> CR_gamma r \<Longrightarrow> SInt_Trunc v w' \<in> CR_gamma ?t" by blast+
qed

section \<open>Splitting and negation\<close>

lemma SplitWrapping_exact:
  assumes r: "CR_wf r" and wrapped: "if asUnsigned then CR_IsWrappedSet r else CR_IsSignWrappedSet r"
    and s: "CR_SplitWrapping r asUnsigned = (lo, hi)"
  shows "CR_wf lo" "CR_wf hi" "CR_gamma lo \<union> CR_gamma hi = CR_gamma r" "CR_gamma lo \<inter> CR_gamma hi = {}"
proof -
  note d = CR_wfD [OF r]
  have eq: "lo = CR_From LT (upper r) (\<not> asUnsigned)" "hi = CR_From GE (lower r) (\<not> asUnsigned)"
    using s by (simp_all add: CR_SplitWrapping_def)
  show "CR_wf lo" "CR_wf hi" using d by (simp_all add: eq From_wf)
  have lh: "x \<in> CR_gamma lo \<longleftrightarrow> SInt_wf x \<and> width x = CR_Width r \<and> rd (\<not> asUnsigned) x < rd (\<not> asUnsigned) (upper r)"
    "x \<in> CR_gamma hi \<longleftrightarrow> SInt_wf x \<and> width x = CR_Width r \<and> rd (\<not> asUnsigned) (lower r) \<le> rd (\<not> asUnsigned) x" for x
    using d by (auto simp: eq mem_From)
  have ord: "rd (\<not> asUnsigned) (upper r) < rd (\<not> asUnsigned) (lower r)"
    using wrapped by (simp add: rd_def IsWrappedSet_iff IsSignWrappedSet_iff [OF r] split: if_splits)
  have nf: "\<not> CR_IsFullSet r"
  proof
    assume "CR_IsFullSet r"
    then have "upper r = lower r" using d by (intro SInt_ext) (simp_all add: IsFullSet_iff)
    then show False using ord by simp
  qed
  have mem: "x \<in> CR_gamma r \<longleftrightarrow> SInt_wf x \<and> width x = CR_Width r \<and>
      on_arc (rd (\<not> asUnsigned) (lower r)) (rd (\<not> asUnsigned) (upper r)) (rd (\<not> asUnsigned) x)" for x
    using nf ord mem_iff [of x r] mem_signed_iff [OF r, of x] by (auto simp: rd_def split: if_splits)
  show "CR_gamma lo \<union> CR_gamma hi = CR_gamma r"
    using ord by (auto simp: lh mem on_arc_def)
  show "CR_gamma lo \<inter> CR_gamma hi = {}" using ord by (auto simp: lh)
qed

lemma Negate_exact:
  assumes r: "CR_wf r" and l: "sv (lower r) \<noteq> - half (CR_Width r)" and v: "SInt_wf v" "width v = CR_Width r"
  shows "CR_wf (CR_Negate r)" "CR_Width (CR_Negate r) = CR_Width r"
    "SInt_Neg v \<in> CR_gamma (CR_Negate r) \<longleftrightarrow> v \<in> CR_gamma r"
proof -
  let ?m = "modulus (CR_Width r)" and ?n = "CR_Negate r"
  note d = CR_wfD [OF r]
  have "CR_wf ?n \<and> CR_Width ?n = CR_Width r \<and> (SInt_Neg v \<in> CR_gamma ?n \<longleftrightarrow> v \<in> CR_gamma r)"
    using r
  proof (cases rule: wf_cases)
    case full
    then show ?thesis using r v by (simp add: CR_Negate_def mem_FullSet)
  next
    case empty
    then show ?thesis using r by (simp add: CR_Negate_def mem_EmptySet)
  next
    case proper
    define lo hi where "lo = SInt_Neg (SInt_sub_u (upper r) 1)" and "hi = SInt_add_u (SInt_Neg (lower r)) 1"
    have code: "?n = CR_make lo hi"
      using proper l d by (simp add: CR_Negate_def Let_def lo_def hi_def IsSMinValue_sv)
    have wf: "SInt_wf lo" "width lo = CR_Width r" "SInt_wf hi" "width hi = CR_Width r"
      using d by (simp_all add: lo_def hi_def)
    have lo: "uv lo = (1 - uv (upper r)) mod ?m"
      using d by (simp add: lo_def Neg_uv sub_u_uv mod_simps)
    have hi: "uv hi = (1 - uv (lower r)) mod ?m"
      using d by (simp add: hi_def Neg_uv add_u_uv mod_simps)
    have ne: "uv lo \<noteq> uv hi"
    proof
      assume "uv lo = uv hi"
      then have "(1 - uv (upper r)) mod ?m = (1 - uv (lower r)) mod ?m" using lo hi by simp
      then have "(1 - (1 - uv (upper r)) mod ?m) mod ?m = (1 - (1 - uv (lower r)) mod ?m) mod ?m" by simp
      then have "uv (upper r) mod ?m = uv (lower r) mod ?m" by (simp add: mod_simps)
      then show False using proper(3) d by simp
    qed
    have wfn: "CR_wf ?n" "CR_Width ?n = CR_Width r" using wf ne by (simp_all add: code make_CR_wf)
    define s o1 where "s = (uv (upper r) - uv (lower r)) mod ?m" and "o1 = (uv v - uv (lower r)) mod ?m"
    have b: "0 \<le> s" "s < ?m" "0 \<le> o1" "o1 < ?m" by (simp_all add: s_def o1_def)
    have "(uv (SInt_Neg v) - uv lo) mod ?m = (uv (upper r) - 1 - uv v) mod ?m"
    proof -
      have "(uv (SInt_Neg v) - uv lo) mod ?m = (- uv v - (1 - uv (upper r))) mod ?m"
        unfolding lo Neg_uv v(2) by (rule mod_diff_eq)
      then show ?thesis by (simp add: algebra_simps)
    qed
    also have "\<dots> = (s - o1 - 1) mod ?m"
    proof -
      have "(s - o1 - 1) mod ?m = ((s - o1) mod ?m - 1) mod ?m" by (simp only: mod_diff_left_eq)
      also have "(s - o1) mod ?m = (uv (upper r) - uv (lower r) - (uv v - uv (lower r))) mod ?m"
        unfolding s_def o1_def by (rule mod_diff_eq)
      finally show ?thesis by (simp only: mod_diff_left_eq) (simp add: algebra_simps)
    qed
    finally have off: "(uv (SInt_Neg v) - uv lo) mod ?m = (s - o1 - 1) mod ?m" .
    have len: "(uv hi - uv lo) mod ?m = s" using lo hi by (simp add: s_def mod_simps)
    have "SInt_Neg v \<in> CR_gamma ?n \<longleftrightarrow> (s - o1 - 1) mod ?m < s"
      using mem_offset [OF wfn(1), of "SInt_Neg v"] ne v wf off len by (simp add: code)
    also have "\<dots> \<longleftrightarrow> o1 < s"
      using mod_once_down [of ?m "s - o1 - 1"] b by auto
    also have "\<dots> \<longleftrightarrow> v \<in> CR_gamma r"
      using mem_offset [OF r proper(3) v] by (simp add: s_def o1_def)
    finally show ?thesis using wfn by blast
  qed
  then show "CR_wf ?n" "CR_Width ?n = CR_Width r" "SInt_Neg v \<in> CR_gamma ?n \<longleftrightarrow> v \<in> CR_gamma r"
    by blast+
qed

text \<open>A range that starts at the least value: its other elements are negated.\<close>

lemma negated_offset:
  fixes a b h :: int
  assumes "0 < h" "0 \<le> a" "a < 2 * h" "a \<noteq> h" "0 \<le> b" "b < 2 * h" "(a - h) mod (2 * h) < (b - h) mod (2 * h)"
  shows "(b - 1 - a) mod (2 * h) < (b - 1 + h) mod (2 * h)"
proof -
  have "(a - h) mod (2 * h) = (if a - h < 0 then a + h else a - h)" "(b - h) mod (2 * h) = (if b - h < 0 then b + h else b - h)"
    using assms mod_once_down [where a = "a - h" and m = "2 * h"] mod_once_down [where a = "b - h" and m = "2 * h"] by simp_all
  moreover have "(b - 1 - a) mod (2 * h) = (if b - 1 - a < 0 then b - 1 - a + 2 * h else b - 1 - a)"
    using assms by (intro mod_once_down) simp_all
  moreover have "(b - 1 + h) mod (2 * h) = (if b - 1 + h < 2 * h then b - 1 + h else b - 1 + h - 2 * h)"
    using assms by (intro mod_once_up) simp_all
  ultimately show ?thesis using assms by (auto split: if_splits)
qed

lemma next_negation:
  fixes b h :: int
  assumes "1 < h" "0 \<le> b" "b < 2 * h" "(1 - b) mod (2 * h) = h"
  shows "b = h + 1"
proof (cases "b = 0")
  case False
  then have "(1 - b) mod (2 * h) = (if 1 - b < 0 then 1 - b + 2 * h else 1 - b)"
    using assms by (intro mod_once_down) simp_all
  then show ?thesis using assms by (auto split: if_splits)
next
  case True
  then show ?thesis using assms by simp
qed

lemma Negate_least:
  assumes r: "CR_wf r" and l: "sv (lower r) = - half (CR_Width r)" and s: "\<not> CR_IsSingleElement r"
    and v: "v \<in> CR_gamma r" "sv v \<noteq> - half (CR_Width r)"
  shows "CR_wf (CR_Negate r)" "CR_Width (CR_Negate r) = CR_Width r" "SInt_Neg v \<in> CR_gamma (CR_Negate r)"
proof -
  let ?m = "modulus (CR_Width r)" and ?n = "CR_Negate r" and ?h = "half (CR_Width r)"
  note d = CR_wfD [OF r]
  have vw: "SInt_wf v" "width v = CR_Width r" using gamma_wf [OF v(1)] gamma_width [OF v(1)] by simp_all
  have "CR_wf ?n \<and> CR_Width ?n = CR_Width r \<and> SInt_Neg v \<in> CR_gamma ?n"
    using r
  proof (cases rule: wf_cases)
    case full
    then show ?thesis using r vw by (simp add: CR_Negate_def mem_FullSet)
  next
    case empty
    then show ?thesis using v(1) mem_EmptySet by blast
  next
    case proper
    define lo where "lo = SInt_Neg (SInt_sub_u (upper r) 1)"
    have code: "?n = CR_make lo (lower r)"
      using proper l d by (simp add: CR_Negate_def Let_def lo_def IsSMinValue_sv)
    have wf: "SInt_wf lo" "width lo = CR_Width r" using d by (simp_all add: lo_def)
    have lo: "uv lo = (1 - uv (upper r)) mod ?m" using d by (simp add: lo_def Neg_uv sub_u_uv mod_simps)
    have low: "uv (lower r) = ?h" using l d half_pos [of "CR_Width r"] by (simp add: uv_sv modulus_half)
    have ub: "0 \<le> uv (upper r)" "uv (upper r) < ?m" using d uv_nonneg uv_lt [of "upper r"] by simp_all
    have ne: "uv lo \<noteq> uv (lower r)"
    proof
      assume "uv lo = uv (lower r)"
      then have u: "uv (upper r) = ?h + 1"
        using lo low ub next_negation [of ?h "uv (upper r)"] half_ge [of "CR_Width r"] unfolding modulus_half by simp
      have "uv (SInt_add_u (lower r) 1) = (?h + 1) mod ?m" using d low by (simp add: add_u_uv)
      also have "\<dots> = ?h + 1" using half_ge [of "CR_Width r"] by (simp add: modulus_half)
      finally show False using s d u by (simp add: CR_IsSingleElement_def eq_iff_uv)
    qed
    have wfn: "CR_wf ?n" "CR_Width ?n = CR_Width r" using wf ne d by (simp_all add: code make_CR_wf)
    have lu: "lower ?n = lo" "upper ?n = lower r" by (simp_all add: code)
    have vb: "0 \<le> uv v" "uv v < ?m" "uv v \<noteq> ?h" using vw v(2) uv_nonneg uv_lt [of v] half_pos [of "CR_Width r"]
      by (auto simp: sv_def modulus_half)
    have mem: "(uv v - ?h) mod ?m < (uv (upper r) - ?h) mod ?m"
      using mem_offset [OF r proper(3) vw] v(1) low by simp
    have off: "(uv (SInt_Neg v) - uv lo) mod ?m = (uv (upper r) - 1 - uv v) mod ?m"
      unfolding lo Neg_uv vw(2) by (simp add: mod_diff_eq algebra_simps)
    have len: "(uv (lower r) - uv lo) mod ?m = (uv (upper r) - 1 + ?h) mod ?m"
      unfolding lo low by (simp add: mod_diff_right_eq algebra_simps)
    have "(uv (upper r) - 1 - uv v) mod ?m < (uv (upper r) - 1 + ?h) mod ?m"
      using negated_offset [of ?h "uv v" "uv (upper r)"] vb ub mem unfolding modulus_half by simp
    then have "SInt_Neg v \<in> CR_gamma ?n"
      using mem_offset [OF wfn(1), of "SInt_Neg v", unfolded wfn(2)] lu ne vw off len by simp
    then show ?thesis using wfn by blast
  qed
  then show "CR_wf ?n" "CR_Width ?n = CR_Width r" "SInt_Neg v \<in> CR_gamma ?n" by blast+
qed

end
