(* ===== verification/BoolDomain.thy ===== *)
theory BoolDomain
  imports Range_Prelude
begin

text \<open>
  The abstract booleans \<^verbatim>\<open>BoolDomain\<close> of \<^verbatim>\<open>BoolDomain.h\<close> and
  \<^verbatim>\<open>BoolDomain.cpp\<close>: an unsigned code (none, false, true, any) with operations given by
  tables. The tables are translated as they stand and shown to be the set image of the
  boolean operation they name.
\<close>

record BoolDomain =
  code :: nat

definition BD_N :: nat where "BD_N = 0"
definition BD_F :: nat where "BD_F = 1"
definition BD_T :: nat where "BD_T = 2"
definition BD_A :: nat where "BD_A = 3"

definition BD_make :: "nat \<Rightarrow> BoolDomain" where
  "BD_make v = \<lparr>code = v\<rparr>"

definition BD_Bottom :: BoolDomain where "BD_Bottom = BD_make BD_N"
definition BD_False :: BoolDomain where "BD_False = BD_make BD_F"
definition BD_True :: BoolDomain where "BD_True = BD_make BD_T"
definition BD_Top :: BoolDomain where "BD_Top = BD_make BD_A"

definition BD_IsTrue :: "BoolDomain \<Rightarrow> bool" where
  "BD_IsTrue b \<longleftrightarrow> code b = BD_T"

definition BD_IsFalse :: "BoolDomain \<Rightarrow> bool" where
  "BD_IsFalse b \<longleftrightarrow> code b = BD_F"

definition BD_IsTop :: "BoolDomain \<Rightarrow> bool" where
  "BD_IsTop b \<longleftrightarrow> code b = BD_A"

definition BD_IsBottom :: "BoolDomain \<Rightarrow> bool" where
  "BD_IsBottom b \<longleftrightarrow> code b = BD_N"

definition BD_IsNonTrivial :: "BoolDomain \<Rightarrow> bool" where
  "BD_IsNonTrivial b \<longleftrightarrow> \<not> BD_IsTop b"

definition BD_IsSingleValue :: "BoolDomain \<Rightarrow> bool" where
  "BD_IsSingleValue b \<longleftrightarrow> code b = BD_T \<or> code b = BD_F"

definition BD_GetSingleValue :: "BoolDomain \<Rightarrow> bool" where
  "BD_GetSingleValue b \<longleftrightarrow> code b = BD_T"

definition BD_FromBool :: "bool \<Rightarrow> BoolDomain" where
  "BD_FromBool v = (if v then BD_make BD_T else BD_make BD_F)"

definition BD_LogicalAnd :: "BoolDomain \<Rightarrow> BoolDomain \<Rightarrow> BoolDomain" where
  "BD_LogicalAnd a b =
     (let logicalAndTable =
        [[BD_N, BD_N, BD_N, BD_N],
         [BD_N, BD_F, BD_F, BD_F],
         [BD_N, BD_F, BD_T, BD_A],
         [BD_N, BD_F, BD_A, BD_A]]
      in BD_make (logicalAndTable ! code a ! code b))"

definition BD_LogicalOr :: "BoolDomain \<Rightarrow> BoolDomain \<Rightarrow> BoolDomain" where
  "BD_LogicalOr a b =
     (let logicalOrTable =
        [[BD_N, BD_N, BD_N, BD_N],
         [BD_N, BD_F, BD_T, BD_A],
         [BD_N, BD_T, BD_T, BD_T],
         [BD_N, BD_A, BD_T, BD_A]]
      in BD_make (logicalOrTable ! code a ! code b))"

definition BD_and :: "BoolDomain \<Rightarrow> BoolDomain \<Rightarrow> BoolDomain" where
  "BD_and a b = BD_make (code a AND code b)"

definition BD_or :: "BoolDomain \<Rightarrow> BoolDomain \<Rightarrow> BoolDomain" where
  "BD_or a b = BD_make (code a OR code b)"

definition BD_not :: "BoolDomain \<Rightarrow> BoolDomain" where
  "BD_not b = (let logicalNotTable = [BD_N, BD_T, BD_F, BD_A] in BD_make (logicalNotTable ! code b))"

definition BD_ToString :: "BoolDomain \<Rightarrow> string" where
  "BD_ToString b = [''<>'', ''false'', ''true'', ''<t,f>''] ! code b"

definition BD_Union :: "BoolDomain \<Rightarrow> BoolDomain \<Rightarrow> BoolDomain" where
  "BD_Union a b = BD_or a b"

definition BD_IsSame :: "BoolDomain \<Rightarrow> BoolDomain \<Rightarrow> bool" where
  "BD_IsSame a b \<longleftrightarrow> code a = code b"

section \<open>The booleans a code stands for\<close>

text \<open>Every public constructor yields one of the four codes.\<close>

definition BD_wf :: "BoolDomain \<Rightarrow> bool" where
  "BD_wf b \<longleftrightarrow> code b < 4"

definition BD_gamma :: "BoolDomain \<Rightarrow> bool set" where
  "BD_gamma b = {x. if x then code b = BD_T \<or> code b = BD_A else code b = BD_F \<or> code b = BD_A}"

lemmas BD_codes = BD_N_def BD_F_def BD_T_def BD_A_def

lemma BD_wf_cases:
  assumes "BD_wf b"
  obtains "b = BD_Bottom" | "b = BD_False" | "b = BD_True" | "b = BD_Top"
proof -
  have "code b = 0 \<or> code b = 1 \<or> code b = 2 \<or> code b = 3"
    using assms unfolding BD_wf_def by linarith
  then show thesis using that
    by (cases b) (auto simp: BD_Bottom_def BD_False_def BD_True_def BD_Top_def BD_make_def BD_codes)
qed

lemmas BD_consts = BD_Bottom_def BD_False_def BD_True_def BD_Top_def BD_make_def BD_codes

lemma BD_const_facts [simp]:
  "BD_wf BD_Bottom" "BD_wf BD_False" "BD_wf BD_True" "BD_wf BD_Top"
  "BD_gamma BD_Bottom = {}" "BD_gamma BD_False = {False}" "BD_gamma BD_True = {True}"
  "BD_gamma BD_Top = UNIV"
  by (auto simp: BD_wf_def BD_gamma_def BD_consts split: if_splits)

lemma FromBool_facts [simp]: "BD_wf (BD_FromBool v)" "BD_gamma (BD_FromBool v) = {v}"
  by (auto simp: BD_FromBool_def BD_wf_def BD_gamma_def BD_consts split: if_splits)

lemma bool_set_eq: "(A :: bool set) = B \<longleftrightarrow> (True \<in> A \<longleftrightarrow> True \<in> B) \<and> (False \<in> A \<longleftrightarrow> False \<in> B)"
  using UNIV_bool by (metis (full_types) set_eqI)

lemma gamma_mem:
  "True \<in> BD_gamma b \<longleftrightarrow> code b = BD_T \<or> code b = BD_A"
  "False \<in> BD_gamma b \<longleftrightarrow> code b = BD_F \<or> code b = BD_A"
  by (simp_all add: BD_gamma_def)

lemma gamma_query:
  assumes "BD_wf b"
  shows "BD_IsTrue b \<longleftrightarrow> BD_gamma b = {True}" "BD_IsFalse b \<longleftrightarrow> BD_gamma b = {False}"
    "BD_IsTop b \<longleftrightarrow> BD_gamma b = UNIV" "BD_IsBottom b \<longleftrightarrow> BD_gamma b = {}"
    "BD_IsSingleValue b \<longleftrightarrow> BD_gamma b = {BD_GetSingleValue b}"
  by (rule BD_wf_cases [OF assms];
      simp add: bool_set_eq gamma_mem BD_IsTrue_def BD_IsFalse_def BD_IsTop_def BD_IsBottom_def
        BD_IsSingleValue_def BD_GetSingleValue_def BD_consts)+

lemmas BD_ops = BD_LogicalAnd_def BD_LogicalOr_def BD_and_def BD_or_def BD_not_def

lemma not_table:
  "BD_not BD_Bottom = BD_Bottom" "BD_not BD_False = BD_True" "BD_not BD_True = BD_False" "BD_not BD_Top = BD_Top"
  by (simp_all add: BD_ops BD_consts)

lemma and_table:
  "BD_LogicalAnd BD_Bottom BD_Bottom = BD_Bottom" "BD_LogicalAnd BD_Bottom BD_False = BD_Bottom"
  "BD_LogicalAnd BD_Bottom BD_True = BD_Bottom" "BD_LogicalAnd BD_Bottom BD_Top = BD_Bottom"
  "BD_LogicalAnd BD_False BD_Bottom = BD_Bottom" "BD_LogicalAnd BD_False BD_False = BD_False"
  "BD_LogicalAnd BD_False BD_True = BD_False" "BD_LogicalAnd BD_False BD_Top = BD_False"
  "BD_LogicalAnd BD_True BD_Bottom = BD_Bottom" "BD_LogicalAnd BD_True BD_False = BD_False"
  "BD_LogicalAnd BD_True BD_True = BD_True" "BD_LogicalAnd BD_True BD_Top = BD_Top"
  "BD_LogicalAnd BD_Top BD_Bottom = BD_Bottom" "BD_LogicalAnd BD_Top BD_False = BD_False"
  "BD_LogicalAnd BD_Top BD_True = BD_Top" "BD_LogicalAnd BD_Top BD_Top = BD_Top"
  by (simp_all add: BD_ops BD_consts)

lemma or_table:
  "BD_LogicalOr BD_Bottom BD_Bottom = BD_Bottom" "BD_LogicalOr BD_Bottom BD_False = BD_Bottom"
  "BD_LogicalOr BD_Bottom BD_True = BD_Bottom" "BD_LogicalOr BD_Bottom BD_Top = BD_Bottom"
  "BD_LogicalOr BD_False BD_Bottom = BD_Bottom" "BD_LogicalOr BD_False BD_False = BD_False"
  "BD_LogicalOr BD_False BD_True = BD_True" "BD_LogicalOr BD_False BD_Top = BD_Top"
  "BD_LogicalOr BD_True BD_Bottom = BD_Bottom" "BD_LogicalOr BD_True BD_False = BD_True"
  "BD_LogicalOr BD_True BD_True = BD_True" "BD_LogicalOr BD_True BD_Top = BD_True"
  "BD_LogicalOr BD_Top BD_Bottom = BD_Bottom" "BD_LogicalOr BD_Top BD_False = BD_Top"
  "BD_LogicalOr BD_Top BD_True = BD_True" "BD_LogicalOr BD_Top BD_Top = BD_Top"
  by (simp_all add: BD_ops BD_consts)

lemma LogicalAnd_facts:
  assumes "BD_wf a" "BD_wf b"
  shows "BD_wf (BD_LogicalAnd a b) \<and>
    BD_gamma (BD_LogicalAnd a b) = {x \<and> y |x y. x \<in> BD_gamma a \<and> y \<in> BD_gamma b}"
  by (rule BD_wf_cases [OF assms(1)]; rule BD_wf_cases [OF assms(2)]; simp add: and_table bool_set_eq ex_bool_eq)

lemma LogicalOr_facts:
  assumes "BD_wf a" "BD_wf b"
  shows "BD_wf (BD_LogicalOr a b) \<and>
    BD_gamma (BD_LogicalOr a b) = {x \<or> y |x y. x \<in> BD_gamma a \<and> y \<in> BD_gamma b}"
  by (rule BD_wf_cases [OF assms(1)]; rule BD_wf_cases [OF assms(2)]; simp add: or_table bool_set_eq ex_bool_eq)

lemma not_facts:
  assumes "BD_wf a"
  shows "BD_wf (BD_not a) \<and> BD_gamma (BD_not a) = {\<not> x |x. x \<in> BD_gamma a}"
  by (rule BD_wf_cases [OF assms]; simp add: not_table bool_set_eq ex_bool_eq)

lemma meet_join_facts:
  assumes "BD_wf a" "BD_wf b"
  shows "BD_wf (BD_and a b)" "BD_wf (BD_or a b)"
    "BD_gamma (BD_and a b) = BD_gamma a \<inter> BD_gamma b"
    "BD_gamma (BD_or a b) = BD_gamma a \<union> BD_gamma b"
proof -
  have "BD_wf (BD_and a b) \<and> BD_gamma (BD_and a b) = BD_gamma a \<inter> BD_gamma b"
    by (rule BD_wf_cases [OF assms(1)]; rule BD_wf_cases [OF assms(2)];
        simp add: BD_and_def BD_wf_def bool_set_eq gamma_mem BD_consts)
  moreover have "BD_wf (BD_or a b) \<and> BD_gamma (BD_or a b) = BD_gamma a \<union> BD_gamma b"
    by (rule BD_wf_cases [OF assms(1)]; rule BD_wf_cases [OF assms(2)];
        simp add: BD_or_def BD_wf_def bool_set_eq gamma_mem BD_consts)
  ultimately show "BD_wf (BD_and a b)" "BD_wf (BD_or a b)"
    "BD_gamma (BD_and a b) = BD_gamma a \<inter> BD_gamma b"
    "BD_gamma (BD_or a b) = BD_gamma a \<union> BD_gamma b" by blast+
qed

end
