(* ===== verification/SIntDomain.thy ===== *)
theory SIntDomain
  imports ConstantRange BoolDomain
begin

text \<open>
  The integer domain \<^verbatim>\<open>SIntDomain\<close> of \<^verbatim>\<open>SIntDomain.h\<close> and
  \<^verbatim>\<open>SIntDomain.cpp\<close>: a numeric range together with a map from symbols to ranges that
  bound the difference to the symbol. The map is the sorted list of its entries, in the
  order of the symbols' addresses, as \<^verbatim>\<open>std::map\<close> keeps it. The transfer functions of
  the binary operators, the comparison of two domains, and intersection and union.
\<close>

datatype TypeKind =
    TYPE_INVALID | TYPE_INT8 | TYPE_INT16 | TYPE_INT32 | TYPE_INT64 | TYPE_INT_NATIVE
  | TYPE_UINT8 | TYPE_UINT16 | TYPE_UINT32 | TYPE_UINT64 | TYPE_UINT_NATIVE
  | TYPE_FLOAT16 | TYPE_FLOAT32 | TYPE_FLOAT64
  | TYPE_RUNE | TYPE_BOOLEAN | TYPE_UNIT | TYPE_NOTHING | TYPE_VOID
  | TYPE_TUPLE | TYPE_STRUCT | TYPE_ENUM | TYPE_FUNC | TYPE_CLASS
  | TYPE_RAWARRAY | TYPE_VARRAY | TYPE_CPOINTER | TYPE_CSTRING
  | TYPE_GENERIC | TYPE_REFTYPE | TYPE_BOXTYPE | TYPE_THIS | MAX_TYPE_KIND

definition IsUnsignedInteger :: "TypeKind \<Rightarrow> bool" where
  "IsUnsignedInteger k \<longleftrightarrow>
     k = TYPE_UINT8 \<or> k = TYPE_UINT16 \<or> k = TYPE_UINT32 \<or> k = TYPE_UINT64 \<or> k = TYPE_UINT_NATIVE"

text \<open>A symbol is a pointer to a value of the program; of the value only the kind of its
  type is read.\<close>

record PtrSymbol =
  address :: nat
  kind :: TypeKind

datatype OverflowStrategy = OV_NA | CHECKED | WRAPPING | THROWING | SATURATING | OVERFLOW_STRATEGY_END

text \<open>The unary and binary operators among the expression kinds; \<open>EK_OTHER\<close> is any other kind.\<close>

datatype ExprKind =
    EK_NEG | EK_NOT | EK_BITNOT | EK_ADD | EK_SUB | EK_MUL | EK_DIV | EK_MOD | EK_EXP
  | EK_LSHIFT | EK_RSHIFT | EK_BITAND | EK_BITOR | EK_BITXOR
  | EK_LT | EK_GT | EK_LE | EK_GE | EK_EQUAL | EK_NOTEQUAL | EK_AND | EK_OR | EK_OTHER

type_synonym SymbolicBoundsMap = "(PtrSymbol \<times> ConstantRange) list"

record SIntDomain =
  numeric :: ConstantRange
  symbolics :: SymbolicBoundsMap
  unsignedFlag :: bool

text \<open>\<^verbatim>\<open>std::map::emplace\<close> keeps the entry that is there; \<^verbatim>\<open>find\<close>.\<close>

fun map_emplace :: "PtrSymbol \<Rightarrow> 'b \<Rightarrow> (PtrSymbol \<times> 'b) list \<Rightarrow> (PtrSymbol \<times> 'b) list" where
  "map_emplace k b [] = [(k, b)]"
| "map_emplace k b ((k', b') # m) =
     (if address k < address k' then (k, b) # (k', b') # m
      else if address k = address k' then (k', b') # m
      else (k', b') # map_emplace k b m)"

fun map_find :: "PtrSymbol \<Rightarrow> (PtrSymbol \<times> 'b) list \<Rightarrow> 'b option" where
  "map_find k [] = None"
| "map_find k ((k', b') # m) = (if address k = address k' then Some b' else map_find k m)"

section \<open>Construction and queries\<close>

definition SD_make :: "ConstantRange \<Rightarrow> bool \<Rightarrow> SIntDomain" where
  "SD_make n uns = \<lparr>numeric = n, symbolics = [], unsignedFlag = uns\<rparr>"

definition SD_make_map :: "ConstantRange \<Rightarrow> SymbolicBoundsMap \<Rightarrow> bool \<Rightarrow> SIntDomain" where
  "SD_make_map n m uns = \<lparr>numeric = n, symbolics = m, unsignedFlag = uns\<rparr>"

definition SD_make_symbol :: "ConstantRange \<Rightarrow> PtrSymbol \<Rightarrow> ConstantRange \<Rightarrow> SIntDomain" where
  "SD_make_symbol n symbol bound =
     \<lparr>numeric = n, symbolics = map_emplace symbol bound [],
      unsignedFlag = IsUnsignedInteger (kind symbol)\<rparr>"

definition SD_IsTop :: "SIntDomain \<Rightarrow> bool" where
  "SD_IsTop d \<longleftrightarrow> CR_IsFullSet (numeric d) \<and> symbolics d = []"

definition SD_IsNonTrivial :: "SIntDomain \<Rightarrow> bool" where
  "SD_IsNonTrivial d \<longleftrightarrow> \<not> SD_IsTop d"

definition SD_IsBottom :: "SIntDomain \<Rightarrow> bool" where
  "SD_IsBottom d \<longleftrightarrow> CR_IsEmptySet (numeric d)"

definition SD_Width :: "SIntDomain \<Rightarrow> IntWidth" where
  "SD_Width d = CR_Width (numeric d)"

definition SD_IsUnsigned :: "SIntDomain \<Rightarrow> bool" where
  "SD_IsUnsigned d = unsignedFlag d"

definition SD_NumericBound :: "SIntDomain \<Rightarrow> ConstantRange" where
  "SD_NumericBound d = numeric d"

definition SD_SymbolicBounds :: "SIntDomain \<Rightarrow> SymbolicBoundsMap" where
  "SD_SymbolicBounds d = symbolics d"

definition SD_FindSymbolicBound :: "SIntDomain \<Rightarrow> PtrSymbol \<Rightarrow> ConstantRange option" where
  "SD_FindSymbolicBound d symbol = map_find symbol (symbolics d)"

definition SD_IsSingleValue :: "SIntDomain \<Rightarrow> bool" where
  "SD_IsSingleValue d \<longleftrightarrow> CR_IsSingleElement (SD_NumericBound d)"

definition SD_IsSame :: "SIntDomain \<Rightarrow> SIntDomain \<Rightarrow> bool" where
  "SD_IsSame d e \<longleftrightarrow> CR_eq (numeric d) (numeric e)"

definition SD_ToWidth :: "TypeKind \<Rightarrow> IntWidth" where
  "SD_ToWidth k =
     (case k of
        TYPE_INT8 \<Rightarrow> I8 | TYPE_UINT8 \<Rightarrow> I8
      | TYPE_INT16 \<Rightarrow> I16 | TYPE_UINT16 \<Rightarrow> I16
      | TYPE_INT32 \<Rightarrow> I32 | TYPE_UINT32 \<Rightarrow> I32
      | _ \<Rightarrow> I64)"

text \<open>\<^verbatim>\<open>From\<close> a literal: its type, whether it is a signed literal, and its 64 bits.\<close>

definition SD_From :: "TypeKind \<Rightarrow> bool \<Rightarrow> 64 word \<Rightarrow> SIntDomain" where
  "SD_From k isSigned v = SD_make (CR_single (SInt_make (SD_ToWidth k) v)) (\<not> isSigned)"

definition SD_FromNumeric :: "RelationalOperation \<Rightarrow> SInt \<Rightarrow> bool \<Rightarrow> SIntDomain" where
  "SD_FromNumeric rel v isUnsigned = SD_make (CR_From rel v (\<not> isUnsigned)) isUnsigned"

definition SD_FromSymbolic :: "RelationalOperation \<Rightarrow> PtrSymbol \<Rightarrow> IntWidth \<Rightarrow> bool \<Rightarrow> SIntDomain" where
  "SD_FromSymbolic rel symbol w isUnsigned =
     (let res = SD_make (CR_Full w) isUnsigned
      in if rel = NE then res
         else res\<lparr>symbolics := map_emplace symbol (CR_From rel (SInt_make w 0) (\<not> isUnsigned)) (symbolics res)\<rparr>)"

definition SD_Top :: "IntWidth \<Rightarrow> bool \<Rightarrow> SIntDomain" where
  "SD_Top w isUnsigned = SD_make (CR_Full w) isUnsigned"

definition SD_Bottom :: "IntWidth \<Rightarrow> bool \<Rightarrow> SIntDomain" where
  "SD_Bottom w isUnsigned = SD_make (CR_Empty w) isUnsigned"

section \<open>Relations\<close>

fun RelFrom :: "ExprKind \<Rightarrow> RelationalOperation" where
  "RelFrom EK_EQUAL = EQ"
| "RelFrom EK_LE = LE"
| "RelFrom EK_LT = LT"
| "RelFrom EK_GT = GT"
| "RelFrom EK_GE = GE"
| "RelFrom EK_NOTEQUAL = NE"
| "RelFrom _ = LE"

fun SymbolicNeg :: "RelationalOperation \<Rightarrow> RelationalOperation" where
  "SymbolicNeg LT = GT"
| "SymbolicNeg LE = GE"
| "SymbolicNeg EQ = EQ"
| "SymbolicNeg GE = LE"
| "SymbolicNeg GT = LT"
| "SymbolicNeg NE = NE"

definition IsSaturating :: "OverflowStrategy \<Rightarrow> bool" where
  "IsSaturating ov \<longleftrightarrow> ov = SATURATING"

section \<open>Comparison of ranges\<close>

datatype CompareResult = UNO | C_TRUE | C_FALSE

definition ToBool :: "CompareResult \<Rightarrow> bool" where
  "ToBool r \<longleftrightarrow> r = C_TRUE"

fun NegResult :: "CompareResult \<Rightarrow> CompareResult" where
  "NegResult UNO = UNO"
| "NegResult C_TRUE = C_FALSE"
| "NegResult C_FALSE = C_TRUE"

definition Unless :: "bool \<Rightarrow> CompareResult" where
  "Unless e = (if e then C_TRUE else UNO)"

definition RangeLt :: "ConstantRange \<Rightarrow> ConstantRange \<Rightarrow> bool \<Rightarrow> CompareResult" where
  "RangeLt a b isUnsigned =
     Unless (if isUnsigned then SInt_Ult (CR_UMaxValue a) (CR_UMinValue b)
             else SInt_Slt (CR_SMaxValue a) (CR_SMinValue b))"

definition RangeLe :: "ConstantRange \<Rightarrow> ConstantRange \<Rightarrow> bool \<Rightarrow> CompareResult" where
  "RangeLe a b isUnsigned =
     Unless (if isUnsigned then SInt_Ule (CR_UMaxValue a) (CR_UMinValue b)
             else SInt_Sle (CR_SMaxValue a) (CR_SMinValue b))"

definition RangeGe :: "ConstantRange \<Rightarrow> ConstantRange \<Rightarrow> bool \<Rightarrow> CompareResult" where
  "RangeGe a b isUnsigned =
     Unless (if isUnsigned then SInt_Uge (CR_UMinValue a) (CR_UMaxValue b)
             else SInt_Sge (CR_SMinValue a) (CR_SMaxValue b))"

definition RangeGt :: "ConstantRange \<Rightarrow> ConstantRange \<Rightarrow> bool \<Rightarrow> CompareResult" where
  "RangeGt a b isUnsigned =
     Unless (if isUnsigned then SInt_Ugt (CR_UMinValue a) (CR_UMaxValue b)
             else SInt_Sgt (CR_SMinValue a) (CR_SMaxValue b))"

definition UnlessBothUnordered :: "CompareResult \<Rightarrow> CompareResult \<Rightarrow> CompareResult" where
  "UnlessBothUnordered a b = (if a \<noteq> UNO then a else b)"

fun NegRel :: "RelationalOperation \<Rightarrow> RelationalOperation" where
  "NegRel LT = GE"
| "NegRel LE = GT"
| "NegRel EQ = NE"
| "NegRel GE = LT"
| "NegRel GT = LE"
| "NegRel NE = EQ"

definition PartialCompare ::
  "RelationalOperation \<Rightarrow> ConstantRange \<Rightarrow> ConstantRange \<Rightarrow> bool \<Rightarrow> CompareResult" where
  "PartialCompare compare a b isUnsigned =
     (if isUnsigned \<and> (CR_IsWrappedSet a \<or> CR_IsWrappedSet b) then UNO
      else if \<not> isUnsigned \<and> (CR_IsSignWrappedSet a \<or> CR_IsSignWrappedSet b) then UNO
      else case compare of
          LE \<Rightarrow> RangeLe a b isUnsigned
        | LT \<Rightarrow> RangeLt a b isUnsigned
        | GT \<Rightarrow> RangeGt a b isUnsigned
        | GE \<Rightarrow> RangeGe a b isUnsigned
        | _ \<Rightarrow> C_FALSE)"

definition IsUnsignedCompareToZero :: "ConstantRange \<Rightarrow> bool" where
  "IsUnsignedCompareToZero a \<longleftrightarrow> CR_IsSingleElement a \<and> SInt_eq_u (CR_GetSingleElement a) 0"

definition Compare ::
  "RelationalOperation \<Rightarrow> ConstantRange \<Rightarrow> ConstantRange \<Rightarrow> bool \<Rightarrow> CompareResult" where
  "Compare compare a b isUnsigned =
     (if CR_IsEmptySet a \<or> CR_IsEmptySet b then UNO
      else if (CR_IsFullSet a \<and> \<not> IsUnsignedCompareToZero b) \<or>
              (CR_IsFullSet b \<and> \<not> IsUnsignedCompareToZero a) then UNO
      else UnlessBothUnordered (PartialCompare compare a b isUnsigned)
             (NegResult (PartialCompare (NegRel compare) a b isUnsigned)))"

section \<open>Relational operators on domains\<close>

text \<open>The walk over two symbolic maps: the first decisive comparison of bounds against a
  common symbol.\<close>

fun CompareCommonSymbols ::
  "RelationalOperation \<Rightarrow> SymbolicBoundsMap \<Rightarrow> SymbolicBoundsMap \<Rightarrow> BoolDomain" where
  "CompareCommonSymbols rel ((ka, sa) # ma) ((kb, sb) # mb) =
     (if address ka < address kb then CompareCommonSymbols rel ma ((kb, sb) # mb)
      else if address ka > address kb then CompareCommonSymbols rel ((ka, sa) # ma) mb
      else
        let r = Compare rel sa sb False
        in if r \<noteq> UNO then BD_FromBool (ToBool r) else CompareCommonSymbols rel ma mb)"
| "CompareCommonSymbols rel [] mb = BD_Top"
| "CompareCommonSymbols rel ma [] = BD_Top"

definition ComputeTotalOrderingIntBinop ::
  "SIntDomain \<Rightarrow> SIntDomain \<Rightarrow> PtrSymbol \<Rightarrow> PtrSymbol \<Rightarrow> ExprKind \<Rightarrow> bool \<Rightarrow> BoolDomain" where
  "ComputeTotalOrderingIntBinop ia ib a b ek uns =
     (let rel = RelFrom ek
      in if SD_IsBottom ia \<or> SD_IsBottom ib then BD_Bottom
         else
           let w = SD_Width ia; zero = CR_single (SInt_make w 0);
               r1 = Compare rel (SD_NumericBound ia) (SD_NumericBound ib) uns;
               r2 = (case SD_FindSymbolicBound ia b of None \<Rightarrow> UNO
                     | Some ibs \<Rightarrow> Compare rel ibs zero False);
               r3 = (case SD_FindSymbolicBound ib a of None \<Rightarrow> UNO
                     | Some ias \<Rightarrow> Compare (SymbolicNeg rel) ias zero False)
           in if r1 \<noteq> UNO then BD_FromBool (ToBool r1)
              else if r2 \<noteq> UNO then BD_FromBool (ToBool r2)
              else if r3 \<noteq> UNO then BD_FromBool (ToBool r3)
              else CompareCommonSymbols rel (SD_SymbolicBounds ia) (SD_SymbolicBounds ib))"

fun CompareTransitiveEquality :: "SymbolicBoundsMap \<Rightarrow> SymbolicBoundsMap \<Rightarrow> bool \<Rightarrow> BoolDomain" where
  "CompareTransitiveEquality ((ka, sa) # ma) ((kb, sb) # mb) cne =
     (if address ka < address kb then CompareTransitiveEquality ma ((kb, sb) # mb) cne
      else if address ka > address kb then CompareTransitiveEquality ((ka, sa) # ma) mb cne
      else if CR_IsSingleElement sa \<and> CR_IsSingleElement sb then
        BD_FromBool (SInt_eq (CR_GetSingleElement sa) (CR_GetSingleElement sb) \<noteq> cne)
      else if CR_IsEmptySet (CR_IntersectWith sa sb Signed) then BD_FromBool cne
      else CompareTransitiveEquality ma mb cne)"
| "CompareTransitiveEquality [] mb cne = BD_Top"
| "CompareTransitiveEquality ma [] cne = BD_Top"

definition ComputeEqualityIntBinop ::
  "SIntDomain \<Rightarrow> SIntDomain \<Rightarrow> PtrSymbol \<Rightarrow> PtrSymbol \<Rightarrow> bool \<Rightarrow> BoolDomain" where
  "ComputeEqualityIntBinop ia ib a b cne =
     (if SD_IsBottom ia \<or> SD_IsBottom ib then BD_Bottom
      else if CR_IsSingleElement (SD_NumericBound ia) \<and> CR_IsSingleElement (SD_NumericBound ib) then
        BD_FromBool (SInt_eq (CR_GetSingleElement (SD_NumericBound ia))
          (CR_GetSingleElement (SD_NumericBound ib)) \<noteq> cne)
      else if CR_IsEmptySet (CR_IntersectWith (SD_NumericBound ia) (SD_NumericBound ib)
          (PreferFromBool (SD_IsUnsigned ia))) then BD_FromBool cne
      else
        let fromA =
              (case SD_FindSymbolicBound ia b of None \<Rightarrow> None
               | Some ibs \<Rightarrow>
                   if CR_IsSingleElement ibs then
                     (if CR_IsSingleElement ibs then
                        Some (BD_FromBool (SInt_eq_u (CR_GetSingleElement ibs) 0 \<noteq> cne))
                      else if \<not> CR_Contains ibs (SInt_Zero (SD_Width ia)) then Some (BD_FromBool cne)
                      else None)
                   else None);
            fromB =
              (case SD_FindSymbolicBound ib a of None \<Rightarrow> None
               | Some ias \<Rightarrow>
                   if CR_IsSingleElement ias then
                     Some (BD_FromBool (SInt_eq_u (CR_GetSingleElement ias) 0 \<noteq> cne))
                   else if \<not> CR_Contains ias (SInt_Zero (SD_Width ia)) then Some (BD_FromBool cne)
                   else None)
        in case fromA of Some r \<Rightarrow> r
           | None \<Rightarrow>
             (case fromB of Some r \<Rightarrow> r
              | None \<Rightarrow>
                let transitiveRes =
                  CompareTransitiveEquality (SD_SymbolicBounds ia) (SD_SymbolicBounds ib) cne
                in if BD_IsNonTrivial transitiveRes then transitiveRes else BD_Top))"

definition TrueOnSameSymbol :: "ExprKind \<Rightarrow> bool" where
  "TrueOnSameSymbol ek \<longleftrightarrow> (case ek of EK_EQUAL \<Rightarrow> True | EK_LE \<Rightarrow> True | EK_GE \<Rightarrow> True | _ \<Rightarrow> False)"

definition ComputeRelIntBinop ::
  "SIntDomain \<Rightarrow> SIntDomain \<Rightarrow> PtrSymbol \<Rightarrow> PtrSymbol \<Rightarrow> ExprKind \<Rightarrow> bool \<Rightarrow> BoolDomain" where
  "ComputeRelIntBinop ia ib l r ek uns =
     (if address l = address r then BD_FromBool (TrueOnSameSymbol ek)
      else
        let rel = RelFrom ek
        in if rel = EQ \<or> rel = NE then ComputeEqualityIntBinop ia ib l r (ek = EK_NOTEQUAL)
           else ComputeTotalOrderingIntBinop ia ib l r ek uns)"

definition ComputeEqualityBoolBinop :: "BoolDomain \<Rightarrow> BoolDomain \<Rightarrow> ExprKind \<Rightarrow> BoolDomain" where
  "ComputeEqualityBoolBinop a b ek =
     (if BD_IsBottom a \<or> BD_IsBottom b then BD_Bottom
      else if BD_IsSingleValue a \<and> BD_IsSingleValue b then
        BD_FromBool ((BD_GetSingleValue a = BD_GetSingleValue b) \<noteq> (ek = EK_NOTEQUAL))
      else BD_Top)"

section \<open>Intersection and union of domains\<close>

text \<open>The functors take pointers, null for a missing bound; both null does not occur and
  would be a null dereference.\<close>

fun ConjunctionInternalMergeFun :: "ConstantRange option \<Rightarrow> ConstantRange option \<Rightarrow> ConstantRange option" where
  "ConjunctionInternalMergeFun None b = b"
| "ConjunctionInternalMergeFun (Some a) None = Some a"
| "ConjunctionInternalMergeFun (Some a) (Some b) = Some (CR_IntersectWith a b Smallest)"

fun DisjunctionInternalMergeFun :: "ConstantRange option \<Rightarrow> ConstantRange option \<Rightarrow> ConstantRange option" where
  "DisjunctionInternalMergeFun None b = map_option (\<lambda>b. CR_Full (CR_Width b)) b"
| "DisjunctionInternalMergeFun (Some a) None = Some (CR_Full (CR_Width a))"
| "DisjunctionInternalMergeFun (Some a) (Some b) = Some (CR_UnionWith a b Smallest)"

type_synonym OptionalMergeFun = "ConstantRange option \<Rightarrow> ConstantRange option \<Rightarrow> ConstantRange option"

definition MergeNumericRanges :: "SIntDomain \<Rightarrow> SIntDomain \<Rightarrow> OptionalMergeFun \<Rightarrow> ConstantRange option" where
  "MergeNumericRanges a b mergeFunc =
     mergeFunc (Some (SD_NumericBound a)) (Some (SD_NumericBound b))"

fun MergeSymbolicRanges ::
  "SymbolicBoundsMap \<Rightarrow> SymbolicBoundsMap \<Rightarrow> OptionalMergeFun \<Rightarrow> SymbolicBoundsMap option" where
  "MergeSymbolicRanges ((ka, sa) # ma) ((kb, sb) # mb) f =
     (if address ka < address kb then do {
        r \<leftarrow> f (Some sa) None; rest \<leftarrow> MergeSymbolicRanges ma ((kb, sb) # mb) f; Some ((ka, r) # rest)
      } else if address kb < address ka then do {
        r \<leftarrow> f None (Some sb); rest \<leftarrow> MergeSymbolicRanges ((ka, sa) # ma) mb f; Some ((kb, r) # rest)
      } else do {
        r \<leftarrow> f (Some sa) (Some sb); rest \<leftarrow> MergeSymbolicRanges ma mb f; Some ((ka, r) # rest)
      })"
| "MergeSymbolicRanges ((ka, sa) # ma) [] f = do {
     r \<leftarrow> f (Some sa) None; rest \<leftarrow> MergeSymbolicRanges ma [] f; Some ((ka, r) # rest)
   }"
| "MergeSymbolicRanges [] ((kb, sb) # mb) f = do {
     r \<leftarrow> f None (Some sb); rest \<leftarrow> MergeSymbolicRanges [] mb f; Some ((kb, r) # rest)
   }"
| "MergeSymbolicRanges [] [] f = Some []"

text \<open>The loop over the merged bounds: an empty bound makes the whole domain bottom, a full
  one is left out.\<close>

fun KeepNonTrivial :: "SymbolicBoundsMap \<Rightarrow> SymbolicBoundsMap \<Rightarrow> SymbolicBoundsMap option" where
  "KeepNonTrivial [] m = Some m"
| "KeepNonTrivial ((symbol, bound) # rest) m =
     (if CR_IsEmptySet bound then None
      else KeepNonTrivial rest (if CR_IsNonTrivial bound then map_emplace symbol bound m else m))"

definition MergeRangesForLogicalOperation ::
  "SIntDomain \<Rightarrow> SIntDomain \<Rightarrow> OptionalMergeFun \<Rightarrow> SIntDomain option" where
  "MergeRangesForLogicalOperation a b mergeFunc = do {
     n \<leftarrow> MergeNumericRanges a b mergeFunc;
     if CR_IsEmptySet n then Some (SD_Bottom (SD_Width a) (SD_IsUnsigned a))
     else do {
       mergeTmps \<leftarrow> MergeSymbolicRanges (SD_SymbolicBounds a) (SD_SymbolicBounds b) mergeFunc;
       Some (case KeepNonTrivial mergeTmps [] of
               None \<Rightarrow> SD_Bottom (SD_Width a) (SD_IsUnsigned a)
             | Some m \<Rightarrow> SD_make_map n m (SD_IsUnsigned a))
     }
   }"

definition SD_Intersects :: "SIntDomain \<Rightarrow> SIntDomain \<Rightarrow> SIntDomain option" where
  "SD_Intersects a b = MergeRangesForLogicalOperation a b ConjunctionInternalMergeFun"

definition SD_Unions :: "SIntDomain \<Rightarrow> SIntDomain \<Rightarrow> SIntDomain option" where
  "SD_Unions a b = MergeRangesForLogicalOperation a b DisjunctionInternalMergeFun"

section \<open>Conversion between widths and signedness\<close>

definition NCSameSignessInner ::
  "ConstantRange \<Rightarrow> IntWidth \<Rightarrow> bool \<Rightarrow> OverflowStrategy \<Rightarrow> ConstantRange" where
  "NCSameSignessInner src dstSize isUnsigned ov =
     (let srcSize = CR_Width src
      in if CR_IsFullSet src then CR_Full dstSize
         else if CR_IsEmptySet src then CR_Empty dstSize
         else
           let higherPart = CR_IntersectWith
                 (if isUnsigned then CR_From GE (SInt_ZExt (SInt_UMinValue dstSize) srcSize) False
                  else CR_From GE (SInt_SExt (SInt_SMinValue dstSize) srcSize) True)
                 src (PreferFromBool isUnsigned);
               unchangedPart = CR_IntersectWith
                 (if isUnsigned then CR_From LE (SInt_ZExt (SInt_UMaxValue dstSize) srcSize) False
                  else CR_From LE (SInt_SExt (SInt_SMaxValue dstSize) srcSize) True)
                 higherPart (PreferFromBool isUnsigned);
               res = CR_Truncate unchangedPart dstSize
           in if CR_eq src unchangedPart \<or> ov = THROWING then res
              else if ov = WRAPPING then CR_Full dstSize
              else
                let res1 =
                      (if CR_IsNotEmptySet (CR_Difference src higherPart) then
                         CR_UnionWith res
                           (CR_single (if isUnsigned then SInt_UMinValue dstSize else SInt_SMinValue dstSize))
                           (PreferFromBool isUnsigned)
                       else res)
                in if CR_IsNotEmptySet (CR_Difference higherPart unchangedPart) then
                     CR_UnionWith res1
                       (CR_single (if isUnsigned then SInt_UMaxValue dstSize else SInt_SMaxValue dstSize))
                       (PreferFromBool isUnsigned)
                   else res1)"

definition NumericConversionWithSameSigness ::
  "ConstantRange \<Rightarrow> IntWidth \<Rightarrow> bool \<Rightarrow> OverflowStrategy \<Rightarrow> ConstantRange" where
  "NumericConversionWithSameSigness src dstSize isUnsigned ov =
     (let srcSize = CR_Width src
      in if srcSize = dstSize then src
         else if srcSize < dstSize then
           (if isUnsigned then CR_ZeroExtend src dstSize else CR_SignExtend src dstSize)
         else if (if isUnsigned then CR_IsWrappedSet src else CR_IsSignWrappedSet src) then
           (case CR_SplitWrapping src isUnsigned of (l, r) \<Rightarrow>
              CR_UnionWith (NCSameSignessInner l dstSize isUnsigned ov)
                (NCSameSignessInner r dstSize isUnsigned ov) (PreferFromBool isUnsigned))
         else NCSameSignessInner src dstSize isUnsigned ov)"

definition TruncWithUpperWrapped :: "ConstantRange \<Rightarrow> bool \<Rightarrow> IntWidth \<Rightarrow> ConstantRange" where
  "TruncWithUpperWrapped src dstUnsigned dstSize =
     (if SInt_eq (CR_Upper src)
          (SInt_add_u
            (if dstUnsigned then SInt_ZExt (SInt_UMaxValue dstSize) (CR_Width src)
             else SInt_ZExt (SInt_SMaxValue dstSize) (CR_Width src)) 1) then
        let l = SInt_Trunc (CR_Lower src) dstSize;
            u = SInt_add_u (SInt_Trunc (SInt_sub_u (CR_Upper src) 1) dstSize) 1
        in if SInt_eq l u then CR_Full dstSize else CR_make l u
      else CR_Truncate src dstSize)"

definition NCU2SInner :: "ConstantRange \<Rightarrow> IntWidth \<Rightarrow> OverflowStrategy \<Rightarrow> ConstantRange" where
  "NCU2SInner src dstSize ov =
     (let srcSize = CR_Width src;
          dstMax = (if dstSize < srcSize then SInt_SExt (SInt_SMaxValue dstSize) srcSize
                    else SInt_SMaxValue dstSize)
      in if CR_IsEmptySet src then CR_Empty dstSize
         else
           let unchangedRange = CR_IntersectWith (CR_From LE dstMax False) src Unsigned
           in if CR_eq unchangedRange src \<or> ov = THROWING then
                (if dstSize < srcSize then TruncWithUpperWrapped unchangedRange False dstSize
                 else unchangedRange)
              else if ov = SATURATING then
                let ans = CR_UnionWith unchangedRange (CR_single dstMax) Signed
                in if dstSize < srcSize then TruncWithUpperWrapped ans False dstSize else ans
              else if srcSize = dstSize then src
              else CR_Full dstSize)"

definition NumericConversionU2S :: "ConstantRange \<Rightarrow> IntWidth \<Rightarrow> OverflowStrategy \<Rightarrow> ConstantRange" where
  "NumericConversionU2S src dstSize ov =
     (let srcSize = CR_Width src
      in if srcSize < dstSize then CR_ZeroExtend src dstSize
         else if \<not> CR_IsWrappedSet src then NCU2SInner src dstSize ov
         else (case CR_SplitWrapping src True of (l, r) \<Rightarrow>
                 CR_UnionWith (NCU2SInner l dstSize ov) (NCU2SInner r dstSize ov) Signed))"

definition NumericConversionU2SSameWidth :: "ConstantRange \<Rightarrow> ConstantRange" where
  "NumericConversionU2SSameWidth src = NumericConversionU2S src (CR_Width src) THROWING"

definition NCS2UInnerTrunc :: "ConstantRange \<Rightarrow> IntWidth \<Rightarrow> OverflowStrategy \<Rightarrow> ConstantRange" where
  "NCS2UInnerTrunc src dstSize ov =
     (if CR_IsEmptySet src then CR_Empty dstSize
      else
        let srcSize = CR_Width src;
            nonNegRange = CR_IntersectWith src (CR_From GE (SInt_Zero srcSize) True) Signed;
            negRange = CR_Difference src nonNegRange;
            dstMax = SInt_ZExt (SInt_UMaxValue dstSize) srcSize;
            unchangedRange = CR_IntersectWith nonNegRange (CR_From LE dstMax True) Smallest
        in if CR_eq unchangedRange src \<or> ov = THROWING then
             TruncWithUpperWrapped unchangedRange True dstSize
           else if ov = SATURATING then
             let res1 = (if CR_IsNotEmptySet negRange
                         then CR_UnionWith unchangedRange (CR_single (SInt_Zero srcSize)) Unsigned
                         else unchangedRange);
                 res2 = (if CR_ne unchangedRange nonNegRange
                         then CR_UnionWith res1 (CR_single dstMax) Unsigned else res1)
             in TruncWithUpperWrapped res2 True dstSize
           else CR_Full dstSize)"

definition NCS2UInnerExtend :: "ConstantRange \<Rightarrow> IntWidth \<Rightarrow> OverflowStrategy \<Rightarrow> ConstantRange" where
  "NCS2UInnerExtend src dstSize ov =
     (if CR_IsEmptySet src then CR_Empty dstSize
      else
        let srcSize = CR_Width src;
            nonNegRange = CR_IntersectWith src (CR_From GE (SInt_Zero srcSize) True) Signed;
            negRange = CR_Difference src nonNegRange;
            extend = (\<lambda>r. if srcSize = dstSize then r else CR_ZeroExtend r dstSize)
        in if CR_eq nonNegRange src \<or> ov = THROWING then extend nonNegRange
           else if ov = SATURATING then
             extend (if CR_IsNotEmptySet negRange
                     then CR_UnionWith nonNegRange (CR_single (SInt_UMinValue srcSize)) Smallest
                     else nonNegRange)
           else
             let negOverflowRange = CR_make (SInt_SExt (CR_SMinValue negRange) dstSize)
                   (SInt_add_u (SInt_SExt (CR_SMaxValue negRange) dstSize) 1)
             in CR_UnionWith negOverflowRange (extend nonNegRange) Unsigned)"

definition NumericConversionS2U :: "ConstantRange \<Rightarrow> IntWidth \<Rightarrow> OverflowStrategy \<Rightarrow> ConstantRange" where
  "NumericConversionS2U src dstSize ov =
     (let srcSize = CR_Width src
      in if dstSize < srcSize then
           (if CR_IsSignWrappedSet src then
              (case CR_SplitWrapping src False of (l, r) \<Rightarrow>
                 CR_UnionWith (NCS2UInnerTrunc l dstSize ov) (NCS2UInnerTrunc r dstSize ov) Unsigned)
            else NCS2UInnerTrunc src dstSize ov)
         else NCS2UInnerExtend src dstSize ov)"

definition NumericConversion ::
  "ConstantRange \<Rightarrow> IntWidth \<Rightarrow> bool \<Rightarrow> bool \<Rightarrow> OverflowStrategy \<Rightarrow> ConstantRange" where
  "NumericConversion src dstSize srcUnsigned dstUnsigned ov =
     (if srcUnsigned = dstUnsigned then NumericConversionWithSameSigness src dstSize srcUnsigned ov
      else if srcUnsigned then NumericConversionU2S src dstSize ov
      else NumericConversionS2U src dstSize ov)"

definition ComputeTypeCastNumericBound ::
  "SIntDomain \<Rightarrow> IntWidth \<Rightarrow> bool \<Rightarrow> OverflowStrategy \<Rightarrow> ConstantRange" where
  "ComputeTypeCastNumericBound v dstSize dstUnsigned ov =
     (if SD_IsBottom v then CR_Empty dstSize
      else NumericConversion (SD_NumericBound v) dstSize (SD_IsUnsigned v) dstUnsigned ov)"

section \<open>Arithmetic operators on domains\<close>

definition NumericBoundToSignedSymbolicBound :: "ConstantRange \<Rightarrow> bool \<Rightarrow> ConstantRange option" where
  "NumericBoundToSignedSymbolicBound origin isUnsigned =
     (if \<not> isUnsigned then Some origin
      else
        let res = NumericConversionU2SSameWidth origin
        in if CR_eq res origin then Some res else None)"

definition ComputeAdd ::
  "SIntDomain \<Rightarrow> SIntDomain \<Rightarrow> PtrSymbol \<Rightarrow> PtrSymbol \<Rightarrow> OverflowStrategy \<Rightarrow> bool \<Rightarrow> SIntDomain" where
  "ComputeAdd lhs rhs l r ov isUnsigned =
     (let ln = SD_NumericBound lhs; rn = SD_NumericBound rhs;
          n = (if \<not> IsSaturating ov then CR_Add ln rn
               else if isUnsigned then CR_UAddSat ln rn else CR_SAddSat ln rn)
      in if CR_IsEmptySet n \<or> ov \<noteq> THROWING then SD_make n isUnsigned
         else
           let mp1 = (if \<not> CR_IsSingleElement ln \<and> CR_IsNonTrivial rn then
                        (case NumericBoundToSignedSymbolicBound rn isUnsigned of
                           None \<Rightarrow> [] | Some b \<Rightarrow> map_emplace l b [])
                      else []);
               mp2 = (if \<not> CR_IsSingleElement rn \<and> CR_IsNonTrivial ln then
                        (case NumericBoundToSignedSymbolicBound ln isUnsigned of
                           None \<Rightarrow> mp1 | Some b \<Rightarrow> map_emplace r b mp1)
                      else mp1)
           in SD_make_map n mp2 isUnsigned)"

definition ComputeSub ::
  "SIntDomain \<Rightarrow> SIntDomain \<Rightarrow> PtrSymbol \<Rightarrow> PtrSymbol \<Rightarrow> OverflowStrategy \<Rightarrow> bool \<Rightarrow> SIntDomain" where
  "ComputeSub lhs rhs l r ov uns =
     (let ln = SD_NumericBound lhs; rn = SD_NumericBound rhs;
          n0 = (if \<not> IsSaturating ov then CR_Sub ln rn
                else if uns then CR_USubSat ln rn else CR_SSubSat ln rn)
      in if CR_IsEmptySet n0 \<or> ov \<noteq> THROWING then SD_make n0 uns
         else
           let n1 = (if \<not> uns then
                       (case SD_FindSymbolicBound lhs r of None \<Rightarrow> n0
                        | Some direct \<Rightarrow> CR_IntersectWith n0 direct Signed)
                     else n0);
               n2 = (if \<not> uns then
                       (case SD_FindSymbolicBound rhs l of None \<Rightarrow> n1
                        | Some reverse \<Rightarrow> CR_IntersectWith n1 (CR_Negate reverse) Signed)
                     else n1)
           in if \<not> uns \<and> CR_IsEmptySet n2 then SD_make n2 uns
              else if \<not> CR_IsSingleElement ln \<and> CR_IsNonTrivial rn \<and>
                      CR_ne rn (CR_single (SInt_SMinValue (CR_Width rn)))
              then SD_make_symbol n2 l (CR_Negate rn)
              else SD_make n2 uns)"

definition ComputeMul :: "SIntDomain \<Rightarrow> SIntDomain \<Rightarrow> OverflowStrategy \<Rightarrow> bool \<Rightarrow> SIntDomain option" where
  "ComputeMul lhs rhs ov isUnsigned =
     (let ln = SD_NumericBound lhs; rn = SD_NumericBound rhs
      in map_option (\<lambda>r. SD_make r isUnsigned)
           (if \<not> IsSaturating ov then (if isUnsigned then CR_UMul ln rn else CR_SMul ln rn)
            else (if isUnsigned then CR_UMulSat ln rn else CR_SMulSat ln rn)))"

definition ComputeDiv :: "SIntDomain \<Rightarrow> SIntDomain \<Rightarrow> OverflowStrategy \<Rightarrow> bool \<Rightarrow> SIntDomain option" where
  "ComputeDiv lhs rhs ov uns =
     (let ln = SD_NumericBound lhs; rn = SD_NumericBound rhs
      in if CR_Contains rn (SInt_Zero (CR_Width rn)) then Some (SD_make (CR_Full (CR_Width ln)) uns)
         else map_option (\<lambda>r. SD_make r uns)
           (if uns then CR_UDiv ln rn
            else if IsSaturating ov then CR_SDivSat ln rn else CR_SDiv ln rn))"

definition ComputeMod :: "SIntDomain \<Rightarrow> SIntDomain \<Rightarrow> bool \<Rightarrow> SIntDomain option" where
  "ComputeMod lhs rhs uns =
     (let ln = SD_NumericBound lhs; rn = SD_NumericBound rhs
      in if uns then map_option (\<lambda>r. SD_make r True) (CR_URem ln rn)
         else map_option (\<lambda>r. SD_make r False) (CR_SRem ln rn))"

definition ComputeArithmeticBinop ::
  "SIntDomain \<Rightarrow> SIntDomain \<Rightarrow> PtrSymbol \<Rightarrow> PtrSymbol \<Rightarrow> ExprKind \<Rightarrow> OverflowStrategy \<Rightarrow> bool \<Rightarrow>
   SIntDomain option" where
  "ComputeArithmeticBinop ld rd l r ek ov uns =
     (case ek of
        EK_ADD \<Rightarrow> Some (ComputeAdd ld rd l r ov uns)
      | EK_SUB \<Rightarrow> Some (ComputeSub ld rd l r ov uns)
      | EK_MUL \<Rightarrow> ComputeMul ld rd ov uns
      | EK_DIV \<Rightarrow> ComputeDiv ld rd ov uns
      | EK_MOD \<Rightarrow> ComputeMod ld rd uns
      | _ \<Rightarrow> Some (SD_make (CR_single (SInt_make (SD_ToWidth (kind l)) 0)) uns))"

end
