(* ===== verification/Sample_Values.thy ===== *)
theory Sample_Values
  imports SIntDomain
begin

text \<open>8-bit integers, ranges and symbols, for the instances of the properties.\<close>

definition byte :: "64 word \<Rightarrow> SInt" where
  "byte v = SInt_make I8 v"

definition bytes :: "64 word \<Rightarrow> 64 word \<Rightarrow> ConstantRange" where
  "bytes l u = CR_make (byte l) (byte u)"

definition sym8 :: "nat \<Rightarrow> PtrSymbol" where
  "sym8 n = \<lparr>address = n, kind = TYPE_INT8\<rparr>"

definition usym8 :: "nat \<Rightarrow> PtrSymbol" where
  "usym8 n = \<lparr>address = n, kind = TYPE_UINT8\<rparr>"

end
