(* ===== verification/Range_Properties.thy ===== *)
theory Range_Properties
  imports Range_SDiv Range_Casts Sample_Values
begin

text \<open>
  The properties of \<^verbatim>\<open>ConstantRange\<close>: every operation of the class against the set
  of machine integers a range stands for. Each theorem with hypotheses is followed by an
  instance on concrete 8-bit ranges, written with \<open>byte\<close> and \<open>bytes\<close>.
\<close>

section \<open>The lattice operations\<close>

text \<open>C33: The intersection of two well-formed ranges of one width is well-formed, keeps
  every common value, and is exactly the common values unless the two arcs overlap at both
  ends, in which case it is the preferred one of the operands.\<close>

theorem IntersectWith_correct:
  assumes "CR_wf a" "CR_wf b" "CR_Width b = CR_Width a"
  shows "CR_wf (CR_IntersectWith a b t) \<and> CR_Width (CR_IntersectWith a b t) = CR_Width a \<and>
    CR_gamma a \<inter> CR_gamma b \<subseteq> CR_gamma (CR_IntersectWith a b t) \<and>
    (CR_gamma (CR_IntersectWith a b t) = CR_gamma a \<inter> CR_gamma b \<or>
     CR_IntersectWith a b t \<in> {GetPreferredRange a b t, GetPreferredRange b a t} \<and> overlap_twice a b)"
  using IntersectWith_meets [OF assms, of t] by (auto simp: meets_def)

theorem IntersectWith_correct_witness:
  "CR_IntersectWith (bytes 10 40) (bytes 20 250) Unsigned = bytes 20 40 \<and> CR_wf (bytes 20 40)"
proof -
  have h: "CR_wf (bytes 10 40)" "CR_wf (bytes 20 250)" "CR_Width (bytes 20 250) = CR_Width (bytes 10 40)"
    by code_simp+
  have "CR_IntersectWith (bytes 10 40) (bytes 20 250) Unsigned = bytes 20 40" by code_simp
  then show ?thesis using IntersectWith_correct [OF h, of Unsigned] by simp
qed

text \<open>C34: The union of two well-formed ranges of one width is well-formed, contains both,
  and adds a value of neither only when the two are disjoint.\<close>

theorem UnionWith_correct:
  assumes "CR_wf a" "CR_wf b" "CR_Width b = CR_Width a"
  shows "CR_wf (CR_UnionWith a b t) \<and> CR_Width (CR_UnionWith a b t) = CR_Width a \<and>
    CR_gamma a \<union> CR_gamma b \<subseteq> CR_gamma (CR_UnionWith a b t) \<and>
    (CR_gamma (CR_UnionWith a b t) = CR_gamma a \<union> CR_gamma b \<or> CR_gamma a \<inter> CR_gamma b = {})"
  using UnionWith_joins [OF assms, of t] by (simp add: joins_def)

theorem UnionWith_correct_witness:
  "CR_UnionWith (bytes 10 40) (bytes 20 250) Smallest = bytes 10 250 \<and> CR_wf (bytes 10 250)"
proof -
  have h: "CR_wf (bytes 10 40)" "CR_wf (bytes 20 250)" "CR_Width (bytes 20 250) = CR_Width (bytes 10 40)"
    by code_simp+
  have "CR_UnionWith (bytes 10 40) (bytes 20 250) Smallest = bytes 10 250" by code_simp
  then show ?thesis using UnionWith_correct [OF h, of Smallest] by simp
qed

text \<open>\<^verbatim>\<open>Inverse\<close> is the complement at the width, and \<^verbatim>\<open>Difference\<close>
  keeps every value of the first range that is not in the second.\<close>

theorem Inverse_Difference_correct:
  assumes "CR_wf a" "CR_wf b" "CR_Width b = CR_Width a"
  shows "CR_wf (CR_Inverse b) \<and>
    (\<forall>v. v \<in> CR_gamma (CR_Inverse b) \<longleftrightarrow> SInt_wf v \<and> width v = CR_Width b \<and> v \<notin> CR_gamma b) \<and>
    CR_wf (CR_Difference a b) \<and> CR_gamma a - CR_gamma b \<subseteq> CR_gamma (CR_Difference a b)"
  using assms mem_Inverse [OF assms(2)] Inverse_wf [OF assms(2)] Inverse_width [OF assms(2)]
    IntersectWith_wf [of a "CR_Inverse b" Smallest] Difference_mem [OF assms]
  by (auto simp: CR_Difference_def)

theorem Inverse_Difference_correct_witness:
  "CR_Inverse (bytes 20 250) = bytes 250 20 \<and> CR_Difference (bytes 10 40) (bytes 20 250) = bytes 10 20 \<and>
   CR_gamma (bytes 10 40) - CR_gamma (bytes 20 250) \<subseteq> CR_gamma (bytes 10 20)"
proof -
  have h: "CR_wf (bytes 10 40)" "CR_wf (bytes 20 250)" "CR_Width (bytes 20 250) = CR_Width (bytes 10 40)"
    by code_simp+
  have "CR_Inverse (bytes 20 250) = bytes 250 20" "CR_Difference (bytes 10 40) (bytes 20 250) = bytes 10 20"
    by code_simp+
  then show ?thesis using Inverse_Difference_correct [OF h] by simp
qed

section \<open>Construction and queries\<close>

text \<open>\<^verbatim>\<open>From\<close> builds exactly the values that stand in the relation to the
  given one, in the reading asked for.\<close>

theorem From_exact:
  assumes "SInt_wf v"
  shows "CR_wf (CR_From rel v isSigned) \<and>
    CR_gamma (CR_From rel v isSigned) =
      {x. SInt_wf x \<and> width x = width v \<and> rel_holds rel (rd isSigned x) (rd isSigned v)}"
  using From_wf [OF assms] mem_From [OF assms] by blast

theorem From_exact_witness:
  "CR_From GE (byte 200) True = bytes 200 128 \<and> CR_wf (bytes 200 128)"
proof -
  have h: "SInt_wf (byte 200)" by code_simp
  have "CR_From GE (byte 200) True = bytes 200 128" by code_simp
  then show ?thesis using From_exact [OF h, of GE True] by simp
qed

text \<open>The four extreme values of a range that is not empty are members of it and bound
  every member in their order.\<close>

theorem extreme_values:
  assumes "CR_wf r" "\<not> CR_IsEmptySet r"
  shows "CR_UMaxValue r \<in> CR_gamma r \<and> CR_UMinValue r \<in> CR_gamma r \<and>
    CR_SMaxValue r \<in> CR_gamma r \<and> CR_SMinValue r \<in> CR_gamma r \<and>
    (\<forall>v \<in> CR_gamma r. uv (CR_UMinValue r) \<le> uv v \<and> uv v \<le> uv (CR_UMaxValue r) \<and>
      sv (CR_SMinValue r) \<le> sv v \<and> sv v \<le> sv (CR_SMaxValue r))"
  using UMaxMin_mem [OF assms] SMaxMin_mem [OF assms] UMaxMin_bounds [OF assms(1)] SMaxMin_bounds [OF assms(1)]
  by blast

theorem extreme_values_witness:
  "CR_SMinValue (bytes 250 20) = byte 250 \<and> CR_UMaxValue (bytes 250 20) = byte 255 \<and>
   byte 255 \<in> CR_gamma (bytes 250 20)"
proof -
  have h: "CR_wf (bytes 250 20)" "\<not> CR_IsEmptySet (bytes 250 20)" by code_simp+
  have "CR_SMinValue (bytes 250 20) = byte 250" "CR_UMaxValue (bytes 250 20) = byte 255" by code_simp+
  then show ?thesis using extreme_values [OF h] by simp
qed

text \<open>The queries for the empty set, the full set and a single element decide exactly
  those facts of the set a range stands for.\<close>

theorem queries_decide:
  assumes "CR_wf r"
  shows "(CR_IsEmptySet r \<longleftrightarrow> CR_gamma r = {}) \<and>
    (CR_IsFullSet r \<longleftrightarrow> CR_gamma r = {v. SInt_wf v \<and> width v = CR_Width r}) \<and>
    (CR_IsSingleElement r \<longleftrightarrow> CR_gamma r = {CR_GetSingleElement r})"
  using gamma_empty_iff [OF assms] gamma_full_iff [OF assms] IsSingleElement_iff [OF assms] by blast

theorem queries_decide_witness:
  "CR_gamma (bytes 7 8) = {byte 7} \<and> CR_gamma (bytes 7 8) \<noteq> {}"
proof -
  have h: "CR_wf (bytes 7 8)" by code_simp
  have "CR_IsSingleElement (bytes 7 8)" "CR_GetSingleElement (bytes 7 8) = byte 7" by code_simp+
  then show ?thesis using queries_decide [OF h] by simp
qed

section \<open>Arithmetic\<close>

text \<open>Addition and subtraction of ranges are well-formed and contain the wrapped sum
  and difference of every pair of members.\<close>

theorem Add_Sub_sound:
  assumes "CR_wf a" "CR_wf b" "CR_Width b = CR_Width a"
  shows "CR_wf (CR_Add a b) \<and> CR_wf (CR_Sub a b) \<and>
    (\<forall>v \<in> CR_gamma a. \<forall>x \<in> CR_gamma b.
      SInt_add v x \<in> CR_gamma (CR_Add a b) \<and> SInt_sub v x \<in> CR_gamma (CR_Sub a b))"
  using Add_wf [OF assms] Sub_wf [OF assms] Add_sound [OF assms] Sub_sound [OF assms] by blast

theorem Add_Sub_sound_witness:
  "CR_Add (bytes 250 4) (bytes 3 6) = bytes 253 9 \<and>
   SInt_add (byte 255) (byte 5) \<in> CR_gamma (bytes 253 9)"
proof -
  have h: "CR_wf (bytes 250 4)" "CR_wf (bytes 3 6)" "CR_Width (bytes 3 6) = CR_Width (bytes 250 4)" by code_simp+
  have m: "byte 255 \<in> CR_gamma (bytes 250 4)" "byte 5 \<in> CR_gamma (bytes 3 6)"
    unfolding CR_gamma_def by (simp_all only: mem_Collect_eq) code_simp+
  have "CR_Add (bytes 250 4) (bytes 3 6) = bytes 253 9" by code_simp
  then show ?thesis using Add_Sub_sound [OF h] m by simp
qed

text \<open>C37: Signed and unsigned multiplication of ranges never fail, and contain the wrapped
  product of every pair of members.\<close>

theorem Mul_sound:
  assumes "CR_wf a" "CR_wf b" "CR_Width b = CR_Width a"
  shows "\<exists>r s. CR_UMul a b = Some r \<and> CR_SMul a b = Some s \<and> CR_wf r \<and> CR_wf s \<and>
    (\<forall>v \<in> CR_gamma a. \<forall>x \<in> CR_gamma b. SInt_mul v x \<in> CR_gamma r \<and> SInt_mul v x \<in> CR_gamma s)"
proof (rule UMul_range [OF assms])
  fix r assume r: "CR_UMul a b = Some r" "CR_wf r" "\<And>v x. v \<in> CR_gamma a \<Longrightarrow> x \<in> CR_gamma b \<Longrightarrow> SInt_mul v x \<in> CR_gamma r"
  show ?thesis by (rule SMul_range [OF assms]) (use r in blast)
qed

theorem Mul_sound_witness:
  "CR_SMul (bytes 254 3) (bytes 3 6) = Some (bytes 246 11) \<and>
   SInt_mul (byte 255) (byte 5) \<in> CR_gamma (bytes 246 11)"
proof -
  have h: "CR_wf (bytes 254 3)" "CR_wf (bytes 3 6)" "CR_Width (bytes 3 6) = CR_Width (bytes 254 3)" by code_simp+
  have m: "byte 255 \<in> CR_gamma (bytes 254 3)" "byte 5 \<in> CR_gamma (bytes 3 6)"
    unfolding CR_gamma_def by (simp_all only: mem_Collect_eq) code_simp+
  have "CR_SMul (bytes 254 3) (bytes 3 6) = Some (bytes 246 11)" by code_simp
  then show ?thesis using Mul_sound [OF h] m by auto
qed

text \<open>C36: Unsigned division and both remainders of ranges never fail, and contain the result
  of every pair of members the operation is defined on, that is, whose divisor is not zero.\<close>

theorem UDiv_Rem_sound:
  assumes "CR_wf a" "CR_wf b" "CR_Width b = CR_Width a"
  shows "\<exists>q r s. CR_UDiv a b = Some q \<and> CR_URem a b = Some r \<and> CR_SRem a b = Some s \<and>
    CR_wf q \<and> CR_wf r \<and> CR_wf s \<and>
    (\<forall>v \<in> CR_gamma a. \<forall>x \<in> CR_gamma b. uv x \<noteq> 0 \<longrightarrow>
      (\<exists>z. SInt_UDiv v x = Some z \<and> uv z = uv v div uv x \<and> z \<in> CR_gamma q) \<and>
      (\<exists>z. SInt_URem v x = Some z \<and> uv z = uv v mod uv x \<and> z \<in> CR_gamma r) \<and>
      (\<exists>z. SInt_SRem v x = Some z \<and> sv z = sv v smod sv x \<and> z \<in> CR_gamma s))"
proof (rule UDiv_range [OF assms], rule URem_range [OF assms], rule SRem_range [OF assms])
  fix q r s
  assume q: "CR_UDiv a b = Some q" "CR_wf q" "\<And>v x z. v \<in> CR_gamma a \<Longrightarrow> x \<in> CR_gamma b \<Longrightarrow> SInt_UDiv v x = Some z \<Longrightarrow> z \<in> CR_gamma q"
    and r: "CR_URem a b = Some r" "CR_wf r" "\<And>v x z. v \<in> CR_gamma a \<Longrightarrow> x \<in> CR_gamma b \<Longrightarrow> SInt_URem v x = Some z \<Longrightarrow> z \<in> CR_gamma r"
    and s: "CR_SRem a b = Some s" "CR_wf s" "\<And>v x z. v \<in> CR_gamma a \<Longrightarrow> x \<in> CR_gamma b \<Longrightarrow> SInt_SRem v x = Some z \<Longrightarrow> z \<in> CR_gamma s"
  have "(\<exists>z. SInt_UDiv v x = Some z \<and> uv z = uv v div uv x \<and> z \<in> CR_gamma q) \<and>
      (\<exists>z. SInt_URem v x = Some z \<and> uv z = uv v mod uv x \<and> z \<in> CR_gamma r) \<and>
      (\<exists>z. SInt_SRem v x = Some z \<and> sv z = sv v smod sv x \<and> z \<in> CR_gamma s)"
    if v: "v \<in> CR_gamma a" and x: "x \<in> CR_gamma b" and nz: "uv x \<noteq> 0" for v x
  proof -
    note f = gamma_wf [OF v] gamma_wf [OF x]
    have w: "width x = width v" using gamma_width [OF v] gamma_width [OF x] assms(3) by simp
    obtain z1 z2 z3 where z: "SInt_UDiv v x = Some z1" "uv z1 = uv v div uv x" "SInt_URem v x = Some z2"
      "uv z2 = uv v mod uv x" "SInt_SRem v x = Some z3"
      using UDiv_Some [OF f(1) nz] URem_Some [OF f(1) nz] SRem_Some [OF f w nz] by metis
    then show ?thesis using q(3) [OF v x] r(3) [OF v x] s(3) [OF v x] SRem_sv(4) [OF f w z(5)] by simp
  qed
  then show ?thesis using q(1,2) r(1,2) s(1,2) by blast
qed

theorem UDiv_Rem_sound_witness:
  "CR_UDiv (bytes 100 110) (bytes 0 6) = Some (bytes 20 110) \<and>
   SInt_UDiv (byte 101) (byte 5) = Some (byte 20) \<and> byte 20 \<in> CR_gamma (bytes 20 110)"
proof -
  have h: "CR_wf (bytes 100 110)" "CR_wf (bytes 0 6)" "CR_Width (bytes 0 6) = CR_Width (bytes 100 110)" by code_simp+
  have m: "byte 101 \<in> CR_gamma (bytes 100 110)" "byte 5 \<in> CR_gamma (bytes 0 6)" "uv (byte 5) \<noteq> 0"
    unfolding CR_gamma_def by (simp_all only: mem_Collect_eq) code_simp+
  have e: "CR_UDiv (bytes 100 110) (bytes 0 6) = Some (bytes 20 110)" "SInt_UDiv (byte 101) (byte 5) = Some (byte 20)"
    by code_simp+
  then show ?thesis using UDiv_Rem_sound [OF h] m by fastforce
qed

text \<open>C35: Signed division of ranges never fails, and contains the quotient of every pair of
  members that has one and does not overflow, unless the dividend is one of the ranges from a
  negative value up to exactly the least value, on which the code loses quotients.\<close>

theorem SDiv_sound:
  assumes "CR_wf a" "CR_wf b" "CR_Width b = CR_Width a" "\<not> lossy_dividend a"
  shows "\<exists>r. CR_SDiv a b = Some r \<and> CR_wf r \<and> CR_Width r = CR_Width a \<and>
    (\<forall>v \<in> CR_gamma a. \<forall>x \<in> CR_gamma b. sv x \<noteq> 0 \<longrightarrow> \<not> overflows v x \<longrightarrow>
      (\<exists>z. SInt_SDiv v x = Some z \<and> sv z = sv v sdiv sv x \<and> z \<in> CR_gamma r))"
proof (rule SDiv_range [OF assms])
  fix r
  assume r: "CR_SDiv a b = Some r" "CR_wf r" "CR_Width r = CR_Width a"
    "\<And>v x z. v \<in> CR_gamma a \<Longrightarrow> x \<in> CR_gamma b \<Longrightarrow> \<not> overflows v x \<Longrightarrow> SInt_SDiv v x = Some z \<Longrightarrow> z \<in> CR_gamma r"
  have "\<exists>z. SInt_SDiv v x = Some z \<and> sv z = sv v sdiv sv x \<and> z \<in> CR_gamma r"
    if v: "v \<in> CR_gamma a" and x: "x \<in> CR_gamma b" and nz: "sv x \<noteq> 0" and no: "\<not> overflows v x" for v x
  proof -
    note f = gamma_wf [OF v] gamma_wf [OF x]
    have w: "width x = width v" using gamma_width [OF v] gamma_width [OF x] assms(3) by simp
    obtain z where z: "SInt_SDiv v x = Some z" using sdiv.defined [OF f w nz] by blast
    then show ?thesis using r(4) [OF v x no z] SDiv_sv(3) [OF f w nz _ z] no by (simp add: overflows_def)
  qed
  then show ?thesis using r(1-3) by blast
qed

theorem SDiv_sound_witness:
  "CR_SDiv (bytes 246 21) (bytes 2 4) = Some (bytes 251 11) \<and>
   SInt_SDiv (byte 247) (byte 2) = Some (byte 252) \<and> byte 252 \<in> CR_gamma (bytes 251 11)"
proof -
  have h: "CR_wf (bytes 246 21)" "CR_wf (bytes 2 4)" "CR_Width (bytes 2 4) = CR_Width (bytes 246 21)"
    "\<not> lossy_dividend (bytes 246 21)" by code_simp+
  have m: "byte 247 \<in> CR_gamma (bytes 246 21)" "byte 2 \<in> CR_gamma (bytes 2 4)" "sv (byte 2) \<noteq> 0"
    "\<not> overflows (byte 247) (byte 2)"
    unfolding CR_gamma_def by (simp_all only: mem_Collect_eq) code_simp+
  have e: "CR_SDiv (bytes 246 21) (bytes 2 4) = Some (bytes 251 11)" "SInt_SDiv (byte 247) (byte 2) = Some (byte 252)"
    by code_simp+
  then show ?thesis using SDiv_sound [OF h] m by fastforce
qed

text \<open>The excluded case is a defect of the code: the signed division of \<open>[-3, -127)\<close>, which
  contains -128, by \<open>[-2, 0)\<close> does not contain -128 / -2 = 64.\<close>

theorem SDiv_misses_quotient:
  "CR_Contains (bytes 253 129) (byte 128) \<and> CR_Contains (bytes 254 0) (byte 254) \<and>
   SInt_SDiv (byte 128) (byte 254) = Some (byte 64) \<and>
   map_option (\<lambda>r. CR_Contains r (byte 64)) (CR_SDiv (bytes 253 129) (bytes 254 0)) = Some False"
  by code_simp

text \<open>The saturating additions and subtractions of ranges contain the clamped result of
  every pair of members.\<close>

theorem AddSub_saturating_sound:
  assumes "CR_wf a" "CR_wf b" "CR_Width b = CR_Width a"
  shows "\<forall>v \<in> CR_gamma a. \<forall>x \<in> CR_gamma b.
    (\<exists>z \<in> CR_gamma (CR_UAddSat a b). uv z = clamp_u (CR_Width a) (uv v + uv x)) \<and>
    (\<exists>z \<in> CR_gamma (CR_SAddSat a b). sv z = clamp_s (CR_Width a) (sv v + sv x)) \<and>
    (\<exists>z \<in> CR_gamma (CR_USubSat a b). uv z = clamp_u (CR_Width a) (uv v - uv x)) \<and>
    (\<exists>z \<in> CR_gamma (CR_SSubSat a b). sv z = clamp_s (CR_Width a) (sv v - sv x))"
proof (intro ballI)
  fix v x assume v: "v \<in> CR_gamma a" and x: "x \<in> CR_gamma b"
  note f = gamma_wf [OF v] gamma_wf [OF x]
  have w: "width x = width v" "width v = CR_Width a" using gamma_width [OF v] gamma_width [OF x] assms(3) by simp_all
  show "(\<exists>z \<in> CR_gamma (CR_UAddSat a b). uv z = clamp_u (CR_Width a) (uv v + uv x)) \<and>
    (\<exists>z \<in> CR_gamma (CR_SAddSat a b). sv z = clamp_s (CR_Width a) (sv v + sv x)) \<and>
    (\<exists>z \<in> CR_gamma (CR_USubSat a b). uv z = clamp_u (CR_Width a) (uv v - uv x)) \<and>
    (\<exists>z \<in> CR_gamma (CR_SSubSat a b). sv z = clamp_s (CR_Width a) (sv v - sv x))"
    using UAddSat_range [OF assms v x] SAddSat_range [OF assms v x] USubSat_range [OF assms v x] SSubSat_range [OF assms v x]
      UAddSat_spec(3) [OF f w(1)] SAddSat_spec(3) [OF f w(1)] USubSat_spec(3) [OF f w(1)] SSubSat_spec(3) [OF f w(1)] w(2)
    by metis
qed

theorem AddSub_saturating_sound_witness:
  "CR_UAddSat (bytes 250 253) (bytes 3 10) = bytes 253 0 \<and>
   (\<exists>z \<in> CR_gamma (bytes 253 0). uv z = 255)"
proof -
  have h: "CR_wf (bytes 250 253)" "CR_wf (bytes 3 10)" "CR_Width (bytes 3 10) = CR_Width (bytes 250 253)" by code_simp+
  have m: "byte 251 \<in> CR_gamma (bytes 250 253)" "byte 9 \<in> CR_gamma (bytes 3 10)"
    unfolding CR_gamma_def by (simp_all only: mem_Collect_eq) code_simp+
  have e: "CR_UAddSat (bytes 250 253) (bytes 3 10) = bytes 253 0"
    "clamp_u (CR_Width (bytes 250 253)) (uv (byte 251) + uv (byte 9)) = 255" by code_simp+
  then show ?thesis using AddSub_saturating_sound [OF h] m by metis
qed

text \<open>The saturating multiplications of ranges never fail, and contain the clamped product
  of every pair of members.\<close>

theorem Mul_saturating_sound:
  assumes "CR_wf a" "CR_wf b" "CR_Width b = CR_Width a"
  shows "\<exists>r s. CR_UMulSat a b = Some r \<and> CR_SMulSat a b = Some s \<and>
    (\<forall>v \<in> CR_gamma a. \<forall>x \<in> CR_gamma b.
      (\<exists>z \<in> CR_gamma r. uv z = clamp_u (CR_Width a) (uv v * uv x)) \<and>
      (\<exists>z \<in> CR_gamma s. sv z = clamp_s (CR_Width a) (sv v * sv x)))"
proof (rule UMulSat_range [OF assms], rule SMulSat_range [OF assms])
  fix r s
  assume r: "CR_UMulSat a b = Some r" "\<And>v x. v \<in> CR_gamma a \<Longrightarrow> x \<in> CR_gamma b \<Longrightarrow> \<exists>z. SInt_UMulSat v x = Some z \<and> z \<in> CR_gamma r"
    and s: "CR_SMulSat a b = Some s" "\<And>v x. v \<in> CR_gamma a \<Longrightarrow> x \<in> CR_gamma b \<Longrightarrow> \<exists>z. SInt_SMulSat v x = Some z \<and> z \<in> CR_gamma s"
  have "(\<exists>z \<in> CR_gamma r. uv z = clamp_u (CR_Width a) (uv v * uv x)) \<and>
      (\<exists>z \<in> CR_gamma s. sv z = clamp_s (CR_Width a) (sv v * sv x))"
    if v: "v \<in> CR_gamma a" and x: "x \<in> CR_gamma b" for v x
  proof -
    note f = gamma_wf [OF v] gamma_wf [OF x]
    have w: "width x = width v" "width v = CR_Width a" using gamma_width [OF v] gamma_width [OF x] assms(3) by simp_all
    show ?thesis
    proof (rule UMulSat_spec [OF f w(1)], rule SMulSat_spec [OF f w(1)])
      fix p q
      assume "SInt_UMulSat v x = Some p" "uv p = clamp_u (width v) (uv v * uv x)"
        "SInt_SMulSat v x = Some q" "sv q = clamp_s (width v) (sv v * sv x)"
      then show ?thesis using r(2) [OF v x] s(2) [OF v x] w(2) by auto
    qed
  qed
  then show ?thesis using r(1) s(1) by blast
qed

theorem Mul_saturating_sound_witness:
  "\<exists>s. CR_SMulSat (bytes 100 105) (bytes 2 4) = Some s \<and> (\<exists>z \<in> CR_gamma s. sv z = 127)"
proof -
  have h: "CR_wf (bytes 100 105)" "CR_wf (bytes 2 4)" "CR_Width (bytes 2 4) = CR_Width (bytes 100 105)" by code_simp+
  have m: "byte 101 \<in> CR_gamma (bytes 100 105)" "byte 3 \<in> CR_gamma (bytes 2 4)"
    unfolding CR_gamma_def by (simp_all only: mem_Collect_eq) code_simp+
  have e: "clamp_s (CR_Width (bytes 100 105)) (sv (byte 101) * sv (byte 3)) = 127" by code_simp
  show ?thesis using Mul_saturating_sound [OF h] m unfolding e [symmetric] by blast
qed

section \<open>Casts, splitting, negation\<close>

text \<open>The casts of a range contain the cast of every member: zero and sign extension to
  a larger width, truncation to a smaller one.\<close>

theorem casts_sound:
  assumes "CR_wf r"
  shows "(CR_Width r < w \<longrightarrow> CR_wf (CR_ZeroExtend r w) \<and> CR_wf (CR_SignExtend r w) \<and>
      (\<forall>v \<in> CR_gamma r. SInt_ZExt v w \<in> CR_gamma (CR_ZeroExtend r w) \<and> SInt_SExt v w \<in> CR_gamma (CR_SignExtend r w))) \<and>
    (w < CR_Width r \<longrightarrow> CR_wf (CR_Truncate r w) \<and> (\<forall>v \<in> CR_gamma r. SInt_Trunc v w \<in> CR_gamma (CR_Truncate r w)))"
  using ZeroExtend_range [OF assms] SignExtend_range [OF assms] Truncate_range [OF assms] by blast

theorem casts_sound_witness:
  "CR_SignExtend (bytes 250 20) I16 = CR_make (SInt_make I16 65530) (SInt_make I16 20) \<and>
   SInt_SExt (byte 255) I16 \<in> CR_gamma (CR_SignExtend (bytes 250 20) I16)"
proof -
  have h: "CR_wf (bytes 250 20)" by code_simp
  have w: "CR_Width (bytes 250 20) < I16" by code_simp
  have m: "byte 255 \<in> CR_gamma (bytes 250 20)"
    unfolding CR_gamma_def by (simp only: mem_Collect_eq) code_simp
  have "CR_SignExtend (bytes 250 20) I16 = CR_make (SInt_make I16 65530) (SInt_make I16 20)" by code_simp
  then show ?thesis using casts_sound [OF h, of I16] w m by blast
qed

text \<open>Splitting a range that wraps gives two well-formed ranges that do not overlap and
  together hold exactly its values.\<close>

theorem SplitWrapping_partition:
  assumes "CR_wf r" "if asUnsigned then CR_IsWrappedSet r else CR_IsSignWrappedSet r"
  shows "case CR_SplitWrapping r asUnsigned of (lo, hi) \<Rightarrow>
    CR_wf lo \<and> CR_wf hi \<and> CR_gamma lo \<union> CR_gamma hi = CR_gamma r \<and> CR_gamma lo \<inter> CR_gamma hi = {}"
  using SplitWrapping_exact [OF assms] by (cases "CR_SplitWrapping r asUnsigned") simp

theorem SplitWrapping_partition_witness:
  "CR_SplitWrapping (bytes 250 20) True = (bytes 0 20, bytes 250 0) \<and>
   CR_gamma (bytes 0 20) \<union> CR_gamma (bytes 250 0) = CR_gamma (bytes 250 20)"
proof -
  have h: "CR_wf (bytes 250 20)" "if True then CR_IsWrappedSet (bytes 250 20) else CR_IsSignWrappedSet (bytes 250 20)"
    by code_simp+
  have "CR_SplitWrapping (bytes 250 20) True = (bytes 0 20, bytes 250 0)" by code_simp
  then show ?thesis using SplitWrapping_partition [OF h] by simp
qed

text \<open>Negation of a range that does not start at the least value is exact: it holds the
  negation of a value if and only if the range holds the value.\<close>

theorem Negate_mirror:
  assumes "CR_wf r" "\<not> SInt_IsSMinValue (lower r)" "SInt_wf v" "width v = CR_Width r"
  shows "CR_wf (CR_Negate r) \<and> (SInt_Neg v \<in> CR_gamma (CR_Negate r) \<longleftrightarrow> v \<in> CR_gamma r)"
proof -
  have "sv (lower r) \<noteq> - half (CR_Width r)" using assms(1,2) by (simp add: IsSMinValue_sv CR_wfD)
  then show ?thesis using Negate_exact [OF assms(1) _ assms(3,4)] by blast
qed

theorem Negate_mirror_witness:
  "CR_Negate (bytes 250 20) = bytes 237 7 \<and> SInt_Neg (byte 251) \<in> CR_gamma (bytes 237 7)"
proof -
  have h: "CR_wf (bytes 250 20)" "\<not> SInt_IsSMinValue (lower (bytes 250 20))" "SInt_wf (byte 251)"
    "width (byte 251) = CR_Width (bytes 250 20)" by code_simp+
  have m: "byte 251 \<in> CR_gamma (bytes 250 20)"
    unfolding CR_gamma_def by (simp only: mem_Collect_eq) code_simp
  have "CR_Negate (bytes 250 20) = bytes 237 7" by code_simp
  then show ?thesis using Negate_mirror [OF h] m by simp
qed

text \<open>On a range that starts at the least value, negation drops that value's negation,
  itself, which the class's documentation says the result contains.\<close>

theorem Negate_drops_least:
  "CR_Contains (bytes 128 3) (byte 128) \<and> SInt_Neg (byte 128) = byte 128 \<and>
   \<not> CR_Contains (CR_Negate (bytes 128 3)) (byte 128)"
  by code_simp

end
