(* ===== verification/Domain_Compare.thy ===== *)
theory Domain_Compare
  imports SIntDomain Range_Lattice
begin

text \<open>
  What an integer domain says of a value, and the soundness of the comparisons of
  \<^verbatim>\<open>SIntDomain.cpp\<close>. The environment gives the integer value of each symbol; a
  domain holds of a value when the value lies in the numeric range and, for every symbolic
  bound, its difference to the symbol is one of the signed integers of the bound.
\<close>

section \<open>Concretization\<close>

definition diff_in :: "ConstantRange \<Rightarrow> int \<Rightarrow> bool" where
  "diff_in b k \<longleftrightarrow> - half (CR_Width b) \<le> k \<and> k < half (CR_Width b) \<and>
     CR_Contains b (SInt_make (CR_Width b) (word_of_int k))"

definition SD_models :: "(nat \<Rightarrow> int) \<Rightarrow> SIntDomain \<Rightarrow> SInt \<Rightarrow> bool" where
  "SD_models \<sigma> d v \<longleftrightarrow> SInt_wf v \<and> width v = SD_Width d \<and> CR_Contains (numeric d) v \<and>
     list_all (\<lambda>(s, b). diff_in b (rd (\<not> unsignedFlag d) v - \<sigma> (address s))) (symbolics d)"

definition map_ok :: "IntWidth \<Rightarrow> SymbolicBoundsMap \<Rightarrow> bool" where
  "map_ok w m \<longleftrightarrow> sorted_wrt (\<lambda>x y. address (fst x) < address (fst y)) m \<and>
     list_all (\<lambda>(s, b). CR_wf b \<and> CR_Width b = w) m"

definition SD_wf :: "SIntDomain \<Rightarrow> bool" where
  "SD_wf d \<longleftrightarrow> CR_wf (numeric d) \<and> map_ok (SD_Width d) (symbolics d)"

definition bounds_hold :: "(nat \<Rightarrow> int) \<Rightarrow> int \<Rightarrow> SymbolicBoundsMap \<Rightarrow> bool" where
  "bounds_hold \<sigma> k m \<longleftrightarrow> (\<forall>(s, b) \<in> set m. diff_in b (k - \<sigma> (address s)))"

lemma make_of_int:
  assumes "- half w \<le> k" "k < half w"
  shows "SInt_wf (SInt_make w (word_of_int k))" "width (SInt_make w (word_of_int k)) = w"
    "sv (SInt_make w (word_of_int k)) = k"
proof -
  have "uint (word_of_int k :: 64 word) mod modulus w = k mod modulus w"
    using mod_mod_cancel [OF modulus_dvd_64 [of w], of k] by (simp add: uint_word_of_int)
  then have "sv (SInt_make w (word_of_int k)) = signed_of w k"
    using sv_signed_of [of "SInt_make w (word_of_int k)" k] by (simp add: make_uv)
  then show "sv (SInt_make w (word_of_int k)) = k" using assms by (simp add: signed_of_id)
qed simp_all

lemma diff_in_iff: "diff_in b k \<longleftrightarrow> (\<exists>d \<in> CR_gamma b. sv d = k)"
proof
  assume "diff_in b k"
  then show "\<exists>d \<in> CR_gamma b. sv d = k"
    using make_of_int [of "CR_Width b" k]
    by (intro bexI [of _ "SInt_make (CR_Width b) (word_of_int k)"]) (auto simp: diff_in_def CR_gamma_def)
next
  assume "\<exists>d \<in> CR_gamma b. sv d = k"
  then obtain d where d: "d \<in> CR_gamma b" "sv d = k" by blast
  have k: "- half (CR_Width b) \<le> k" "k < half (CR_Width b)" using gamma_sbounds [OF d(1)] d(2) by auto
  have "SInt_make (CR_Width b) (word_of_int k) = d"
    using make_of_int [OF k] gamma_wf [OF d(1)] gamma_width [OF d(1)] d(2) by (intro sv_inj) simp_all
  then show "diff_in b k" using k d(1) by (simp add: diff_in_def CR_gamma_def)
qed

lemma diff_inI: "d \<in> CR_gamma b \<Longrightarrow> sv d = k \<Longrightarrow> diff_in b k"
  using diff_in_iff by blast

lemma SD_models_iff:
  "SD_models \<sigma> d v \<longleftrightarrow> v \<in> CR_gamma (numeric d) \<and>
     bounds_hold \<sigma> (rd (\<not> unsignedFlag d) v) (symbolics d)"
  by (auto simp: SD_models_def CR_gamma_def bounds_hold_def list_all_iff SD_Width_def)

lemma map_find_mem: "map_find s m = Some b \<Longrightarrow> \<exists>s'. address s' = address s \<and> (s', b) \<in> set m"
proof (induction m)
  case (Cons e m)
  then show ?case by (cases e) (auto split: if_splits)
qed simp

lemma map_ok_Cons [simp]:
  "map_ok w ((s, b) # m) \<longleftrightarrow> CR_wf b \<and> CR_Width b = w \<and> map_ok w m \<and>
     (\<forall>(s', b') \<in> set m. address s < address s')"
  by (auto simp: map_ok_def)

lemma map_ok_Nil [simp]: "map_ok w []"
  by (simp add: map_ok_def)

lemma map_ok_mem: "map_ok w m \<Longrightarrow> (s, b) \<in> set m \<Longrightarrow> CR_wf b \<and> CR_Width b = w"
  by (auto simp: map_ok_def list_all_iff)

lemma bounds_hold_simps [simp]:
  "bounds_hold \<sigma> k []"
  "bounds_hold \<sigma> k ((s, b) # m) \<longleftrightarrow> diff_in b (k - \<sigma> (address s)) \<and> bounds_hold \<sigma> k m"
  by (auto simp: bounds_hold_def)

lemma find_bound:
  assumes "SD_wf d" "SD_models \<sigma> d v" "SD_FindSymbolicBound d s = Some b"
  shows "CR_wf b" "CR_Width b = SD_Width d" "diff_in b (rd (\<not> unsignedFlag d) v - \<sigma> (address s))"
proof -
  obtain s' where s': "address s' = address s" "(s', b) \<in> set (symbolics d)"
    using map_find_mem [OF assms(3) [unfolded SD_FindSymbolicBound_def]] by blast
  show "CR_wf b" "CR_Width b = SD_Width d"
    using map_ok_mem [OF _ s'(2), of "SD_Width d"] assms(1) by (simp_all add: SD_wf_def)
  show "diff_in b (rd (\<not> unsignedFlag d) v - \<sigma> (address s))"
    using bspec [OF assms(2) [unfolded SD_models_iff bounds_hold_def, THEN conjunct2] s'(2)] s'(1) by simp
qed

section \<open>Comparison of ranges\<close>

definition is_order :: "RelationalOperation \<Rightarrow> bool" where
  "is_order rel \<longleftrightarrow> rel \<noteq> EQ \<and> rel \<noteq> NE"

lemma PartialCompare_sound:
  assumes a: "CR_wf a" and b: "CR_wf b" and v: "v \<in> CR_gamma a" and x: "x \<in> CR_gamma b"
    and rel: "is_order rel"
  shows "PartialCompare rel a b uns \<noteq> C_FALSE"
    "PartialCompare rel a b uns = C_TRUE \<Longrightarrow> rel_holds rel (rd (\<not> uns) v) (rd (\<not> uns) x)"
  using rel UMaxMin_bounds [OF a v] UMaxMin_bounds [OF b x] SMaxMin_bounds [OF a v] SMaxMin_bounds [OF b x]
    minmax_simps [OF a] minmax_simps [OF b]
  by (cases rel; force simp: is_order_def PartialCompare_def RangeLe_def RangeLt_def RangeGe_def RangeGt_def
      Unless_def rd_def ucmp_uv scmp_sv split: if_splits)+

lemma NegRel_holds: "rel_holds (NegRel rel) p q \<longleftrightarrow> \<not> rel_holds rel p q"
  and NegRel_order: "is_order (NegRel rel) \<longleftrightarrow> is_order rel"
  by (cases rel; auto simp: is_order_def)+

lemma Compare_decides:
  assumes "CR_wf a" "CR_wf b" "v \<in> CR_gamma a" "x \<in> CR_gamma b" "is_order rel"
    and "Compare rel a b uns \<noteq> UNO"
  shows "ToBool (Compare rel a b uns) \<longleftrightarrow> rel_holds rel (rd (\<not> uns) v) (rd (\<not> uns) x)"
proof -
  note p = PartialCompare_sound [OF assms(1-4), of rel uns]
    and q = PartialCompare_sound [OF assms(1-4), of "NegRel rel" uns]
  have "Compare rel a b uns = UnlessBothUnordered (PartialCompare rel a b uns)
      (NegResult (PartialCompare (NegRel rel) a b uns))"
    using assms(6) by (auto simp: Compare_def split: if_splits)
  then show ?thesis using assms(5,6) p q
    by (cases "PartialCompare rel a b uns"; cases "PartialCompare (NegRel rel) a b uns")
      (simp_all add: UnlessBothUnordered_def ToBool_def NegRel_holds NegRel_order)
qed

section \<open>Ordering operators\<close>

lemma SymbolicNeg_holds: "rel_holds (SymbolicNeg rel) p 0 \<longleftrightarrow> rel_holds rel 0 p"
  and SymbolicNeg_order: "is_order (SymbolicNeg rel) \<longleftrightarrow> is_order rel"
  by (cases rel; auto simp: is_order_def)+

lemma rel_holds_shift: "rel_holds rel (p - c) (q - c) \<longleftrightarrow> rel_holds rel p q"
  by (cases rel; auto)

lemma zero_single: "d \<in> CR_gamma (CR_single (SInt_make w 0)) \<longleftrightarrow> d = SInt_make w 0"
  "sv (SInt_make w 0) = 0" "CR_wf (CR_single (SInt_make w 0))"
  using make_of_int [of w 0] by (simp_all add: mem_single single_wf)

lemma Compare_diffs:
  assumes "CR_wf a" "CR_wf b" "diff_in a p" "diff_in b q" "is_order rel" "Compare rel a b False \<noteq> UNO"
  shows "ToBool (Compare rel a b False) \<longleftrightarrow> rel_holds rel p q"
  using assms Compare_decides [OF assms(1,2) _ _ assms(5,6)] by (fastforce simp: diff_in_iff rd_def)

lemma Compare_diff_zero:
  assumes "CR_wf a" "diff_in a p" "is_order rel" "Compare rel a (CR_single (SInt_make w 0)) False \<noteq> UNO"
  shows "ToBool (Compare rel a (CR_single (SInt_make w 0)) False) \<longleftrightarrow> rel_holds rel p 0"
proof -
  have "diff_in (CR_single (SInt_make w 0)) 0"
    using zero_single by (intro diff_inI [of "SInt_make w 0"]) simp_all
  then show ?thesis using assms zero_single(3) by (intro Compare_diffs) simp_all
qed

lemma CompareCommonSymbols_sound:
  "map_ok w ma \<Longrightarrow> map_ok w mb \<Longrightarrow> bounds_hold \<sigma> p ma \<Longrightarrow> bounds_hold \<sigma> q mb \<Longrightarrow> is_order rel \<Longrightarrow>
   BD_wf (CompareCommonSymbols rel ma mb) \<and> rel_holds rel p q \<in> BD_gamma (CompareCommonSymbols rel ma mb)"
proof (induction rel ma mb rule: CompareCommonSymbols.induct)
  case (1 rel ka sa ma kb sb mb)
  have eq: "\<sigma> (address ka) = \<sigma> (address kb)"
    if "\<not> address ka < address kb" "\<not> address kb < address ka" using that by simp
  have "ToBool (Compare rel sa sb False) \<longleftrightarrow> rel_holds rel (p - \<sigma> (address ka)) (q - \<sigma> (address kb))"
    if "Compare rel sa sb False \<noteq> UNO"
    using that 1 by (intro Compare_diffs) simp_all
  then show ?case using 1 eq by (simp add: Let_def rel_holds_shift)
qed simp_all

lemma ComputeTotalOrdering_sound:
  assumes wf: "SD_wf ia" "SD_wf ib" and w: "SD_Width ib = SD_Width ia"
    and u: "unsignedFlag ia = uns" "unsignedFlag ib = uns"
    and v: "SD_models \<sigma> ia v" and x: "SD_models \<sigma> ib x"
    and a: "\<sigma> (address a) = rd (\<not> uns) v" and b: "\<sigma> (address b) = rd (\<not> uns) x"
    and ek: "is_order (RelFrom ek)"
  shows "BD_wf (ComputeTotalOrderingIntBinop ia ib a b ek uns) \<and>
    rel_holds (RelFrom ek) (rd (\<not> uns) v) (rd (\<not> uns) x) \<in> BD_gamma (ComputeTotalOrderingIntBinop ia ib a b ek uns)"
proof -
  let ?rel = "RelFrom ek" and ?p = "rd (\<not> uns) v" and ?q = "rd (\<not> uns) x" and ?z = "CR_single (SInt_make (SD_Width ia) 0)"
  have mem: "v \<in> CR_gamma (numeric ia)" "x \<in> CR_gamma (numeric ib)" using v x by (simp_all add: SD_models_iff)
  have nb: "\<not> SD_IsBottom ia" "\<not> SD_IsBottom ib" using mem mem_EmptySet by (auto simp: SD_IsBottom_def)
  have 1: "ToBool (Compare ?rel (numeric ia) (numeric ib) uns) \<longleftrightarrow> rel_holds ?rel ?p ?q"
    if "Compare ?rel (numeric ia) (numeric ib) uns \<noteq> UNO"
    using that wf mem ek by (intro Compare_decides) (simp_all add: SD_wf_def)
  have 2: "ToBool (Compare ?rel bnd ?z False) \<longleftrightarrow> rel_holds ?rel ?p ?q"
    if "SD_FindSymbolicBound ia b = Some bnd" "Compare ?rel bnd ?z False \<noteq> UNO" for bnd
    using that find_bound [OF wf(1) v that(1)] u b ek Compare_diff_zero [of bnd "?p - ?q" ?rel]
      rel_holds_shift [of ?rel ?p ?q ?q] by simp
  have 3: "ToBool (Compare (SymbolicNeg ?rel) bnd ?z False) \<longleftrightarrow> rel_holds ?rel ?p ?q"
    if "SD_FindSymbolicBound ib a = Some bnd" "Compare (SymbolicNeg ?rel) bnd ?z False \<noteq> UNO" for bnd
    using that find_bound [OF wf(2) x that(1)] u a ek Compare_diff_zero [of bnd "?q - ?p" "SymbolicNeg ?rel"]
      rel_holds_shift [of ?rel ?p ?p ?q] SymbolicNeg_order SymbolicNeg_holds by simp
  have 4: "BD_wf (CompareCommonSymbols ?rel (symbolics ia) (symbolics ib)) \<and>
      rel_holds ?rel ?p ?q \<in> BD_gamma (CompareCommonSymbols ?rel (symbolics ia) (symbolics ib))"
    using wf v x ek u w
    by (intro CompareCommonSymbols_sound [of "SD_Width ia" _ _ \<sigma>]) (simp_all add: SD_wf_def SD_models_iff)
  show ?thesis
    using nb 1 2 3 4
    by (simp add: ComputeTotalOrderingIntBinop_def Let_def SD_NumericBound_def SD_SymbolicBounds_def
        split: option.splits)
qed

section \<open>Equality operators\<close>

lemma rd_eq_iff:
  "SInt_wf v \<Longrightarrow> SInt_wf x \<Longrightarrow> width x = width v \<Longrightarrow> SInt_eq v x \<longleftrightarrow> rd s v = rd s x"
  using sv_neq_iff [of v x] by (simp add: rd_def eq_iff_uv)

lemma eq_zero_iff: "SInt_wf d \<Longrightarrow> SInt_eq_u d 0 \<longleftrightarrow> sv d = 0"
  using sv_zero_iff [of d] by (simp add: SInt_eq_u_def SInt_GetZExtValue_def val_eq_iff)

lemma single_diff:
  assumes "CR_wf b" "CR_IsSingleElement b" "diff_in b k"
  shows "SInt_wf (CR_GetSingleElement b)" "width (CR_GetSingleElement b) = CR_Width b"
    "sv (CR_GetSingleElement b) = k"
proof -
  obtain d where d: "d \<in> CR_gamma b" "sv d = k" using assms(3) diff_in_iff by blast
  have "d = CR_GetSingleElement b" using SingleElement_mem [OF assms(1,2) d(1)] .
  then show "SInt_wf (CR_GetSingleElement b)" "width (CR_GetSingleElement b) = CR_Width b"
    "sv (CR_GetSingleElement b) = k" using d gamma_wf [OF d(1)] gamma_width [OF d(1)] by simp_all
qed

lemma disjoint_diffs:
  assumes "CR_wf a" "CR_wf b" "CR_Width b = CR_Width a" "CR_IsEmptySet (CR_IntersectWith a b t)"
    "diff_in a p" "diff_in b q"
  shows "p \<noteq> q"
proof
  assume "p = q"
  obtain d e where d: "d \<in> CR_gamma a" "sv d = p" and e: "e \<in> CR_gamma b" "sv e = q"
    using assms(5,6) diff_in_iff by metis
  then have "d = e" using \<open>p = q\<close> gamma_wf [OF d(1)] gamma_wf [OF e(1)] gamma_width [OF d(1)]
      gamma_width [OF e(1)] assms(3) by (intro sv_inj) simp_all
  then show False using IntersectWith_mem [OF assms(1-3) d(1)] e mem_EmptySet [OF assms(4)] by blast
qed

lemma Contains_zero: "CR_wf b \<Longrightarrow> diff_in b 0 \<Longrightarrow> CR_Contains b (SInt_Zero (CR_Width b))"
proof -
  assume "CR_wf b" "diff_in b 0"
  then show ?thesis by (simp add: diff_in_def SInt_Zero_def)
qed

lemma CompareTransitiveEquality_sound:
  "map_ok w ma \<Longrightarrow> map_ok w mb \<Longrightarrow> bounds_hold \<sigma> p ma \<Longrightarrow> bounds_hold \<sigma> q mb \<Longrightarrow>
   BD_wf (CompareTransitiveEquality ma mb cne) \<and>
   ((p = q) \<noteq> cne) \<in> BD_gamma (CompareTransitiveEquality ma mb cne)"
proof (induction ma mb cne rule: CompareTransitiveEquality.induct)
  case (1 ka sa ma kb sb mb cne)
  have d: "CR_wf sa" "CR_wf sb" "CR_Width sa = w" "CR_Width sb = w"
    "diff_in sa (p - \<sigma> (address ka))" "diff_in sb (q - \<sigma> (address kb))" using 1 by simp_all
  have s: "SInt_eq (CR_GetSingleElement sa) (CR_GetSingleElement sb) \<longleftrightarrow>
      p - \<sigma> (address ka) = q - \<sigma> (address kb)"
    if "CR_IsSingleElement sa" "CR_IsSingleElement sb"
    using single_diff [OF d(1) that(1) d(5)] single_diff [OF d(2) that(2) d(6)] d(3,4)
      rd_eq_iff [of "CR_GetSingleElement sa" "CR_GetSingleElement sb" True] by (simp add: rd_def)
  have n: "p - \<sigma> (address ka) \<noteq> q - \<sigma> (address kb)" if "CR_IsEmptySet (CR_IntersectWith sa sb Signed)"
    using disjoint_diffs [OF d(1,2) _ that d(5,6)] d(3,4) by simp
  have "p \<noteq> q" if "CR_IsEmptySet (CR_IntersectWith sa sb Signed)" "address ka = address kb"
    using n [OF that(1)] that(2) by auto
  then show ?case using 1 s by (auto simp: Let_def)
qed simp_all

lemma ComputeEquality_sound:
  assumes wf: "SD_wf ia" "SD_wf ib" and w: "SD_Width ib = SD_Width ia"
    and u: "unsignedFlag ia = uns" "unsignedFlag ib = uns"
    and v: "SD_models \<sigma> ia v" and x: "SD_models \<sigma> ib x"
    and a: "\<sigma> (address a) = rd (\<not> uns) v" and b: "\<sigma> (address b) = rd (\<not> uns) x"
  shows "BD_wf (ComputeEqualityIntBinop ia ib a b cne) \<and>
    ((rd (\<not> uns) v = rd (\<not> uns) x) \<noteq> cne) \<in> BD_gamma (ComputeEqualityIntBinop ia ib a b cne)"
proof -
  let ?p = "rd (\<not> uns) v" and ?q = "rd (\<not> uns) x" and ?na = "numeric ia" and ?nb = "numeric ib"
  have n: "CR_wf ?na" "CR_wf ?nb" "CR_Width ?nb = CR_Width ?na" using wf w by (simp_all add: SD_wf_def SD_Width_def)
  have mem: "v \<in> CR_gamma ?na" "x \<in> CR_gamma ?nb" using v x by (simp_all add: SD_models_iff)
  have nb: "\<not> SD_IsBottom ia" "\<not> SD_IsBottom ib" using mem mem_EmptySet by (auto simp: SD_IsBottom_def)
  have vx: "SInt_wf v" "SInt_wf x" "width x = width v"
    using gamma_wf [OF mem(1)] gamma_wf [OF mem(2)] gamma_width [OF mem(1)] gamma_width [OF mem(2)] n(3) by simp_all
  have 1: "SInt_eq (CR_GetSingleElement ?na) (CR_GetSingleElement ?nb) \<longleftrightarrow> ?p = ?q"
    if "CR_IsSingleElement ?na" "CR_IsSingleElement ?nb"
    using SingleElement_mem [OF n(1) that(1) mem(1)] SingleElement_mem [OF n(2) that(2) mem(2)]
      rd_eq_iff [OF vx] by simp
  have 2: "?p \<noteq> ?q" if "CR_IsEmptySet (CR_IntersectWith ?na ?nb t)" for t
  proof
    assume "?p = ?q"
    then have "v = x" using rd_eq_iff [OF vx] SInt_ext vx(3) by (metis eq_iff_uv)
    then show False using IntersectWith_mem [OF n mem(1)] mem(2) mem_EmptySet [OF that] by blast
  qed
  have fa: "CR_wf bnd" "CR_Width bnd = SD_Width ia" "diff_in bnd (?p - ?q)"
    if "SD_FindSymbolicBound ia b = Some bnd" for bnd
    using find_bound [OF wf(1) v that] u b by simp_all
  have fb: "CR_wf bnd" "CR_Width bnd = SD_Width ia" "diff_in bnd (?q - ?p)"
    if "SD_FindSymbolicBound ib a = Some bnd" for bnd
    using find_bound [OF wf(2) x that] u a w by simp_all
  have sing: "SInt_eq_u (CR_GetSingleElement bnd) 0 \<longleftrightarrow> k = 0"
    if "CR_wf bnd" "CR_IsSingleElement bnd" "diff_in bnd k" for bnd k
    using single_diff [OF that] eq_zero_iff by simp
  have nz: "k \<noteq> 0" if "CR_wf bnd" "CR_Width bnd = SD_Width ia" "diff_in bnd k"
    "\<not> CR_Contains bnd (SInt_Zero (SD_Width ia))" for bnd k
    using that Contains_zero [of bnd] by metis
  have 4: "BD_wf (CompareTransitiveEquality (symbolics ia) (symbolics ib) cne) \<and>
      ((?p = ?q) \<noteq> cne) \<in> BD_gamma (CompareTransitiveEquality (symbolics ia) (symbolics ib) cne)"
    using wf v x u w
    by (intro CompareTransitiveEquality_sound [of "SD_Width ia" _ _ \<sigma>]) (simp_all add: SD_wf_def SD_models_iff)
  have A: "SInt_eq_u (CR_GetSingleElement bnd) 0 \<longleftrightarrow> ?p = ?q"
    if "SD_FindSymbolicBound ia b = Some bnd" "CR_IsSingleElement bnd" for bnd
    using sing [OF fa(1) [OF that(1)] that(2) fa(3) [OF that(1)]] by simp
  have B: "SInt_eq_u (CR_GetSingleElement bnd) 0 \<longleftrightarrow> ?p = ?q"
    if "SD_FindSymbolicBound ib a = Some bnd" "CR_IsSingleElement bnd" for bnd
    using sing [OF fb(1) [OF that(1)] that(2) fb(3) [OF that(1)]] by auto
  have C: "?p \<noteq> ?q"
    if "SD_FindSymbolicBound ib a = Some bnd" "\<not> CR_Contains bnd (SInt_Zero (SD_Width ia))" for bnd
    using nz [OF fb [OF that(1)] that(2)] by auto
  show ?thesis
    using nb 1 2 A B C 4
    by (simp add: ComputeEqualityIntBinop_def Let_def SD_NumericBound_def SD_SymbolicBounds_def
        split: option.splits)
qed

section \<open>All relational operators\<close>

definition is_relational :: "ExprKind \<Rightarrow> bool" where
  "is_relational ek \<longleftrightarrow> ek \<in> {EK_LT, EK_GT, EK_LE, EK_GE, EK_EQUAL, EK_NOTEQUAL}"

lemma same_symbol: "is_relational ek \<Longrightarrow> TrueOnSameSymbol ek \<longleftrightarrow> rel_holds (RelFrom ek) p p"
  by (auto simp: is_relational_def TrueOnSameSymbol_def)

lemma ComputeRel_sound:
  assumes wf: "SD_wf ia" "SD_wf ib" and w: "SD_Width ib = SD_Width ia"
    and u: "unsignedFlag ia = uns" "unsignedFlag ib = uns"
    and v: "SD_models \<sigma> ia v" and x: "SD_models \<sigma> ib x"
    and a: "\<sigma> (address a) = rd (\<not> uns) v" and b: "\<sigma> (address b) = rd (\<not> uns) x"
    and ek: "is_relational ek"
  shows "BD_wf (ComputeRelIntBinop ia ib a b ek uns) \<and>
    rel_holds (RelFrom ek) (rd (\<not> uns) v) (rd (\<not> uns) x) \<in> BD_gamma (ComputeRelIntBinop ia ib a b ek uns)"
proof (cases "address a = address b")
  case True
  then show ?thesis using a b same_symbol [OF ek] by (simp add: ComputeRelIntBinop_def)
next
  case False
  then show ?thesis
    using ComputeEquality_sound [OF wf w u v x a b, of False] ComputeEquality_sound [OF wf w u v x a b, of True]
      ComputeTotalOrdering_sound [OF wf w u v x a b, of ek] ek
    by (cases ek) (simp_all add: ComputeRelIntBinop_def is_relational_def is_order_def)
qed

end
