(* ===== verification/Domain_Merge.thy ===== *)
theory Domain_Merge
  imports Domain_Compare
begin

text \<open>
  Intersection and union of integer domains (\<^verbatim>\<open>SIntDomain::Intersects\<close>,
  \<^verbatim>\<open>SIntDomain::Unions\<close>). The merge walk over two sorted maps is one function of the
  code, parametric in a functor; the locale states what the walk needs of the functor, and the
  two functors of the code are its instances.
\<close>

section \<open>Sorted maps\<close>

lemma emplace_keys: "fst ` set (map_emplace k b m) \<subseteq> insert k (fst ` set m)"
  by (induction k b m rule: map_emplace.induct) auto

lemma emplace_ok: "map_ok w m \<Longrightarrow> CR_wf b \<Longrightarrow> CR_Width b = w \<Longrightarrow> map_ok w (map_emplace s b m)"
proof (induction s b m rule: map_emplace.induct)
  case (2 s b s' b' m)
  have k: "\<forall>e \<in> set (map_emplace s b m). fst e = s \<or> fst e \<in> fst ` set m"
    using emplace_keys [of s b m] by blast
  show ?case
  proof (cases "address s < address s' \<or> address s = address s'")
    case True
    then show ?thesis using 2 by fastforce
  next
    case False
    then have gt: "address s' < address s" by simp
    have "address s' < address (fst e)" if "e \<in> set (map_emplace s b m)" for e
      using k gt 2(2) that by fastforce
    then show ?thesis using 2 False by (auto simp del: map_emplace.simps simp: map_emplace.simps)
  qed
qed simp

lemma emplace_holds: "bounds_hold \<sigma> k m \<Longrightarrow> diff_in b (k - \<sigma> (address s)) \<Longrightarrow> bounds_hold \<sigma> k (map_emplace s b m)"
  by (induction s b m rule: map_emplace.induct) auto

section \<open>The merge walk\<close>

definition bound_ok :: "IntWidth \<Rightarrow> ConstantRange option \<Rightarrow> bool" where
  "bound_ok w o' \<longleftrightarrow> (\<forall>b. o' = Some b \<longrightarrow> CR_wf b \<and> CR_Width b = w)"

definition says :: "ConstantRange option \<Rightarrow> int \<Rightarrow> bool" where
  "says o' k \<longleftrightarrow> (\<forall>b. o' = Some b \<longrightarrow> diff_in b k)"

lemma bound_ok_simps [simp]: "bound_ok w None" "bound_ok w (Some b) \<longleftrightarrow> CR_wf b \<and> CR_Width b = w"
  by (simp_all add: bound_ok_def)

lemma says_simps [simp]: "says None k" "says (Some b) k \<longleftrightarrow> diff_in b k"
  by (simp_all add: says_def)

text \<open>A merged bound may be full, which says nothing and is left out of the result.\<close>

definition loosely :: "(nat \<Rightarrow> int) \<Rightarrow> int \<Rightarrow> SymbolicBoundsMap \<Rightarrow> bool" where
  "loosely \<sigma> k m \<longleftrightarrow> (\<forall>(s, b) \<in> set m. CR_IsFullSet b \<or> diff_in b (k - \<sigma> (address s)))"

lemma loosely_simps [simp]:
  "loosely \<sigma> k []"
  "loosely \<sigma> k ((s, b) # m) \<longleftrightarrow> (CR_IsFullSet b \<or> diff_in b (k - \<sigma> (address s))) \<and> loosely \<sigma> k m"
  by (auto simp: loosely_def)

lemma KeepNonTrivial_ok:
  "map_ok w acc \<Longrightarrow> \<forall>(s, b) \<in> set m. CR_wf b \<and> CR_Width b = w \<Longrightarrow>
   KeepNonTrivial m acc = Some r \<Longrightarrow> map_ok w r"
  by (induction m acc rule: KeepNonTrivial.induct) (auto split: if_splits intro: emplace_ok)

lemma full_not_empty: "CR_IsFullSet b \<Longrightarrow> \<not> CR_IsEmptySet b"
  using modulus_ge [of "width (lower b)"] by (auto simp: IsFullSet_iff IsEmptySet_iff)

lemma holds_not_empty: "diff_in b k \<Longrightarrow> \<not> CR_IsEmptySet b"
  using diff_in_iff mem_EmptySet by blast

lemma KeepNonTrivial_holds:
  "bounds_hold \<sigma> k acc \<Longrightarrow> loosely \<sigma> k m \<Longrightarrow> \<exists>r. KeepNonTrivial m acc = Some r \<and> bounds_hold \<sigma> k r"
proof (induction m acc rule: KeepNonTrivial.induct)
  case (2 s b rest acc)
  have ne: "\<not> CR_IsEmptySet b"
    using 2(3) holds_not_empty full_not_empty by auto
  have "bounds_hold \<sigma> k (if CR_IsNonTrivial b then map_emplace s b acc else acc)"
    using 2(2,3) emplace_holds by (auto simp: CR_IsNonTrivial_def)
  then show ?case using 2(1) [OF ne] ne 2(3) by simp
qed simp

text \<open>What the walk needs of the functor: a value whenever one side is present, and a bound
  that holds whenever the combination of the two sides does.\<close>

locale merge_functor =
  fixes f :: OptionalMergeFun and combine :: "bool \<Rightarrow> bool \<Rightarrow> bool"
  assumes mono: "combine p q \<Longrightarrow> (p \<Longrightarrow> p') \<Longrightarrow> (q \<Longrightarrow> q') \<Longrightarrow> combine p' q'"
    and total: "bound_ok w x \<Longrightarrow> bound_ok w y \<Longrightarrow> x \<noteq> None \<or> y \<noteq> None \<Longrightarrow>
      \<exists>r. f x y = Some r \<and> CR_wf r \<and> CR_Width r = w"
    and sound: "bound_ok w x \<Longrightarrow> bound_ok w y \<Longrightarrow> f x y = Some r \<Longrightarrow> combine (says x k) (says y k) \<Longrightarrow>
      CR_IsFullSet r \<or> diff_in r k"
    and numeric_sound: "bound_ok w (Some a) \<Longrightarrow> bound_ok w (Some b) \<Longrightarrow> f (Some a) (Some b) = Some r \<Longrightarrow>
      combine (v \<in> CR_gamma a) (v \<in> CR_gamma b) \<Longrightarrow> v \<in> CR_gamma r"
begin

lemma step:
  assumes "bound_ok w x" "bound_ok w y" "x \<noteq> None \<or> y \<noteq> None"
  obtains r where "f x y = Some r" "CR_wf r" "CR_Width r = w"
    "\<And>k. combine (says x k) (says y k) \<Longrightarrow> CR_IsFullSet r \<or> diff_in r k"
  using total [OF assms] sound [OF assms(1,2)] by blast

definition good :: "IntWidth \<Rightarrow> SymbolicBoundsMap \<Rightarrow> SymbolicBoundsMap \<Rightarrow> SymbolicBoundsMap option \<Rightarrow> bool" where
  "good w ma mb res \<longleftrightarrow> (\<exists>m. res = Some m \<and> (\<forall>(s, b) \<in> set m. CR_wf b \<and> CR_Width b = w) \<and>
     (\<forall>\<sigma> k. combine (bounds_hold \<sigma> k ma) (bounds_hold \<sigma> k mb) \<longrightarrow> loosely \<sigma> k m))"

lemma good_Cons:
  assumes rest: "good w ma' mb' res" and x: "bound_ok w x" "bound_ok w y" "x \<noteq> None \<or> y \<noteq> None"
    and a: "\<And>\<sigma> k. bounds_hold \<sigma> k ma \<Longrightarrow> bounds_hold \<sigma> k ma' \<and> says x (k - \<sigma> (address s))"
    and b: "\<And>\<sigma> k. bounds_hold \<sigma> k mb \<Longrightarrow> bounds_hold \<sigma> k mb' \<and> says y (k - \<sigma> (address s))"
  shows "good w ma mb (do { r \<leftarrow> f x y; rest \<leftarrow> res; Some ((s, r) # rest) })"
proof (rule step [OF x])
  fix r
  assume r: "f x y = Some r" "CR_wf r" "CR_Width r = w"
    "\<And>k. combine (says x k) (says y k) \<Longrightarrow> CR_IsFullSet r \<or> diff_in r k"
  obtain m where m: "res = Some m" "\<forall>(s, b) \<in> set m. CR_wf b \<and> CR_Width b = w"
    "\<And>\<sigma> k. combine (bounds_hold \<sigma> k ma') (bounds_hold \<sigma> k mb') \<Longrightarrow> loosely \<sigma> k m"
    using rest unfolding good_def by blast
  have "loosely \<sigma> k ((s, r) # m)" if c: "combine (bounds_hold \<sigma> k ma) (bounds_hold \<sigma> k mb)" for \<sigma> k
  proof -
    have "combine (bounds_hold \<sigma> k ma') (bounds_hold \<sigma> k mb')" using a b by (blast intro: mono [OF c])
    moreover have "combine (says x (k - \<sigma> (address s))) (says y (k - \<sigma> (address s)))"
      using a b by (blast intro: mono [OF c])
    ultimately show ?thesis using m(3) r(4) by simp
  qed
  then show "good w ma mb (do { r \<leftarrow> f x y; rest \<leftarrow> res; Some ((s, r) # rest) })"
    using r m(1,2) by (auto simp: good_def)
qed

lemma walk:
  "g = f \<Longrightarrow> map_ok w ma \<Longrightarrow> map_ok w mb \<Longrightarrow> good w ma mb (MergeSymbolicRanges ma mb g)"
proof (induction ma mb g rule: MergeSymbolicRanges.induct)
  case (1 ka sa ma kb sb mb g)
  have ex: "bound_ok w x \<Longrightarrow> bound_ok w y \<Longrightarrow> x \<noteq> None \<or> y \<noteq> None \<Longrightarrow> \<exists>r. f x y = Some r" for x y
    using total by blast
  consider (lt) "address ka < address kb" | (gt) "address kb < address ka" | (eq) "address ka = address kb" by linarith
  then show ?case
  proof cases
    case lt
    have "good w ma ((kb, sb) # mb) (MergeSymbolicRanges ma ((kb, sb) # mb) f)"
      using "1.IH"(1) "1.prems" lt ex [of "Some sa" None] by auto
    from good_Cons [OF this, of "Some sa" None "(ka, sa) # ma" ka "(kb, sb) # mb"]
    show ?thesis using lt "1.prems" by simp
  next
    case gt
    have "good w ((ka, sa) # ma) mb (MergeSymbolicRanges ((ka, sa) # ma) mb f)"
      using "1.IH"(2) "1.prems" gt ex [of None "Some sb"] by auto
    from good_Cons [OF this, of None "Some sb" "(ka, sa) # ma" kb "(kb, sb) # mb"]
    show ?thesis using gt "1.prems" by simp
  next
    case eq
    have "good w ma mb (MergeSymbolicRanges ma mb f)"
      using "1.IH"(3) "1.prems" eq ex [of "Some sa" "Some sb"] by auto
    from good_Cons [OF this, of "Some sa" "Some sb" "(ka, sa) # ma" ka "(kb, sb) # mb"]
    show ?thesis using eq "1.prems" by simp
  qed
next
  case (2 ka sa ma g)
  have "\<exists>r. f (Some sa) None = Some r" using total [of w "Some sa" None] "2.prems" by auto
  then have "good w ma [] (MergeSymbolicRanges ma [] f)" using 2 by auto
  from good_Cons [OF this, of "Some sa" None "(ka, sa) # ma" ka "[]"] show ?case using 2 by simp
next
  case (3 kb sb mb g)
  have "\<exists>r. f None (Some sb) = Some r" using total [of w None "Some sb"] "3.prems" by auto
  then have "good w [] mb (MergeSymbolicRanges [] mb f)" using 3 by auto
  from good_Cons [OF this, of None "Some sb" "[]" kb "(kb, sb) # mb"] show ?case using 3 by simp
next
  case (4 g)
  then show ?case by (simp add: good_def)
qed

lemma merge:
  assumes wf: "SD_wf a" "SD_wf b" and w: "SD_Width b = SD_Width a" and u: "unsignedFlag b = unsignedFlag a"
  shows "\<exists>d. MergeRangesForLogicalOperation a b f = Some d \<and> SD_wf d \<and> SD_Width d = SD_Width a \<and>
    unsignedFlag d = unsignedFlag a \<and>
    (\<forall>\<sigma> v. combine (SD_models \<sigma> a v) (SD_models \<sigma> b v) \<longrightarrow> SD_models \<sigma> d v)"
proof -
  let ?w = "SD_Width a"
  have ok: "bound_ok ?w (Some (numeric a))" "bound_ok ?w (Some (numeric b))"
    using wf w by (simp_all add: SD_wf_def SD_Width_def)
  obtain n where n: "f (Some (numeric a)) (Some (numeric b)) = Some n" "CR_wf n" "CR_Width n = ?w"
    using total [OF ok] by blast
  have nv: "v \<in> CR_gamma n" if "combine (SD_models \<sigma> a v) (SD_models \<sigma> b v)" for \<sigma> v
    using numeric_sound [OF ok n(1)] mono [OF that] by (simp add: SD_models_iff)
  obtain m where m: "MergeSymbolicRanges (symbolics a) (symbolics b) f = Some m"
      "\<forall>(s, b) \<in> set m. CR_wf b \<and> CR_Width b = ?w"
      "\<And>\<sigma> k. combine (bounds_hold \<sigma> k (symbolics a)) (bounds_hold \<sigma> k (symbolics b)) \<Longrightarrow> loosely \<sigma> k m"
    using walk [OF refl, of ?w "symbolics a" "symbolics b"] wf w by (auto simp: good_def SD_wf_def)
  have hold: "\<exists>r. KeepNonTrivial m [] = Some r \<and> bounds_hold \<sigma> (rd (\<not> unsignedFlag a) v) r"
    if "combine (SD_models \<sigma> a v) (SD_models \<sigma> b v)" for \<sigma> v
    using mono [OF that] u by (intro KeepNonTrivial_holds m(3)) (simp_all add: SD_models_iff)
  have bot: "SD_wf (SD_Bottom ?w (unsignedFlag a))" by (simp add: SD_wf_def SD_Bottom_def SD_make_def)
  have keep: "map_ok ?w r" if "KeepNonTrivial m [] = Some r" for r
    using KeepNonTrivial_ok [OF map_ok_Nil m(2) that] .
  show ?thesis
  proof (cases "CR_IsEmptySet n")
    case True
    then have "\<not> combine (SD_models \<sigma> a v) (SD_models \<sigma> b v)" for \<sigma> v
      using nv mem_EmptySet by blast
    then show ?thesis using True n bot
      by (simp add: MergeRangesForLogicalOperation_def MergeNumericRanges_def SD_NumericBound_def
          SD_IsUnsigned_def SD_Bottom_def SD_make_def SD_Width_def)
  next
    case False
    show ?thesis
    proof (cases "KeepNonTrivial m []")
      case None
      then have "\<not> combine (SD_models \<sigma> a v) (SD_models \<sigma> b v)" for \<sigma> v using hold by fastforce
      then show ?thesis using False None n m(1) bot
        by (simp add: MergeRangesForLogicalOperation_def MergeNumericRanges_def SD_NumericBound_def
            SD_SymbolicBounds_def SD_IsUnsigned_def SD_Bottom_def SD_make_def SD_Width_def)
    next
      case (Some r)
      then have h: "bounds_hold \<sigma> (rd (\<not> unsignedFlag a) v) r"
        if "combine (SD_models \<sigma> a v) (SD_models \<sigma> b v)" for \<sigma> v using hold [OF that] by simp
      show ?thesis using False Some n m(1) keep [OF Some] h nv
        by (simp add: MergeRangesForLogicalOperation_def MergeNumericRanges_def SD_NumericBound_def
            SD_SymbolicBounds_def SD_IsUnsigned_def SD_make_map_def SD_Width_def SD_wf_def SD_models_iff)
    qed
  qed
qed

end

section \<open>The functors of the code\<close>

lemma intersect_diff:
  assumes "CR_wf a" "CR_wf b" "CR_Width b = CR_Width a" "diff_in a k" "diff_in b k"
  shows "diff_in (CR_IntersectWith a b t) k"
proof -
  obtain d e where d: "d \<in> CR_gamma a" "sv d = k" and e: "e \<in> CR_gamma b" "sv e = k"
    using assms(4,5) diff_in_iff by metis
  then have "d = e" using gamma_wf [OF d(1)] gamma_wf [OF e(1)] gamma_width [OF d(1)]
      gamma_width [OF e(1)] assms(3) by (intro sv_inj) simp_all
  then show ?thesis using IntersectWith_mem [OF assms(1-3) d(1)] e by (intro diff_inI) blast+
qed

lemma union_diff:
  assumes "CR_wf a" "CR_wf b" "CR_Width b = CR_Width a" "diff_in a k \<or> diff_in b k"
  shows "diff_in (CR_UnionWith a b t) k"
  using assms(4) UnionWith_left [OF assms(1-3)] UnionWith_right [OF assms(1-3)] unfolding diff_in_iff by blast

interpretation conj: merge_functor ConjunctionInternalMergeFun "(\<and>)"
proof unfold_locales
  fix p q p' q' :: bool
  show "p \<and> q \<Longrightarrow> (p \<Longrightarrow> p') \<Longrightarrow> (q \<Longrightarrow> q') \<Longrightarrow> p' \<and> q'" by blast
next
  fix w x y
  assume "bound_ok w x" "bound_ok w y" "x \<noteq> None \<or> y \<noteq> None"
  then show "\<exists>r. ConjunctionInternalMergeFun x y = Some r \<and> CR_wf r \<and> CR_Width r = w"
    by (cases x; cases y) (auto simp: IntersectWith_wf IntersectWith_width)
next
  fix w x y r k
  assume "bound_ok w x" "bound_ok w y" "ConjunctionInternalMergeFun x y = Some r" "says x k \<and> says y k"
  then show "CR_IsFullSet r \<or> diff_in r k"
    by (cases x; cases y) (auto simp: intersect_diff)
next
  fix w a b r v
  assume "bound_ok w (Some a)" "bound_ok w (Some b)" "ConjunctionInternalMergeFun (Some a) (Some b) = Some r"
    "v \<in> CR_gamma a \<and> v \<in> CR_gamma b"
  then show "v \<in> CR_gamma r" by (auto simp: IntersectWith_mem)
qed

interpretation disj: merge_functor DisjunctionInternalMergeFun "(\<or>)"
proof unfold_locales
  fix p q p' q' :: bool
  show "p \<or> q \<Longrightarrow> (p \<Longrightarrow> p') \<Longrightarrow> (q \<Longrightarrow> q') \<Longrightarrow> p' \<or> q'" by blast
next
  fix w x y
  assume "bound_ok w x" "bound_ok w y" "x \<noteq> None \<or> y \<noteq> None"
  then show "\<exists>r. DisjunctionInternalMergeFun x y = Some r \<and> CR_wf r \<and> CR_Width r = w"
    by (cases x; cases y) (auto simp: UnionWith_wf UnionWith_width)
next
  fix w x y r k
  assume "bound_ok w x" "bound_ok w y" "DisjunctionInternalMergeFun x y = Some r" "says x k \<or> says y k"
  then show "CR_IsFullSet r \<or> diff_in r k"
    by (cases x; cases y) (auto simp: union_diff)
next
  fix w a b r v
  assume "bound_ok w (Some a)" "bound_ok w (Some b)" "DisjunctionInternalMergeFun (Some a) (Some b) = Some r"
    "v \<in> CR_gamma a \<or> v \<in> CR_gamma b"
  then show "v \<in> CR_gamma r" by (auto simp: UnionWith_left UnionWith_right)
qed

lemmas Intersects_merge = conj.merge [folded SD_Intersects_def]
lemmas Unions_merge = disj.merge [folded SD_Unions_def]

end
