(* ===== verification/Domain_Casts.thy ===== *)
theory Domain_Casts
  imports Domain_Compare Range_Casts
begin

text \<open>
  The conversions between integer types (\<^verbatim>\<open>NumericConversion\<close> and its parts in
  \<^verbatim>\<open>SIntDomain.cpp\<close>).
\<close>

section \<open>Unsigned to signed at one width\<close>

lemma eqD: "CR_wf a \<Longrightarrow> CR_wf b \<Longrightarrow> CR_Width a = CR_Width b \<Longrightarrow> CR_eq a b \<Longrightarrow> a = b"
  using SInt_ext [of "lower a" "lower b"] SInt_ext [of "upper a" "upper b"] CR_wfD [of a] CR_wfD [of b]
  by (simp add: CR_eq_def eq_iff_uv)

lemma LE_SMax: "x \<in> CR_gamma (CR_From LE (SInt_SMaxValue w) False) \<longleftrightarrow> SInt_wf x \<and> width x = w \<and> uv x < half w"
  "CR_wf (CR_From LE (SInt_SMaxValue w) False)"
  by (auto simp: mem_From From_wf rd_def)

text \<open>On a range that does not wrap, the lower half is cut out exactly.\<close>

lemma NCU2SInner_exact:
  assumes r: "CR_wf r" and nw: "\<not> CR_IsWrappedSet r"
  shows "CR_wf (NCU2SInner r (CR_Width r) THROWING)" "CR_Width (NCU2SInner r (CR_Width r) THROWING) = CR_Width r"
    "x \<in> CR_gamma (NCU2SInner r (CR_Width r) THROWING) \<longleftrightarrow> x \<in> CR_gamma r \<and> uv x < half (CR_Width r)"
proof -
  let ?w = "CR_Width r" and ?f = "CR_From LE (SInt_SMaxValue (CR_Width r)) False"
  let ?n = "NCU2SInner r (CR_Width r) THROWING"
  have m: "meets Unsigned ?f r (CR_IntersectWith ?f r Unsigned)"
    using r LE_SMax(2) by (intro IntersectWith_meets) simp_all
  have code: "?n = (if CR_IsEmptySet r then CR_Empty ?w else CR_IntersectWith ?f r Unsigned)"
    by (simp add: NCU2SInner_def)
  have no: "\<not> overlap_twice ?f r" if "\<not> CR_IsEmptySet r"
  proof
    assume o: "overlap_twice ?f r"
    note d = CR_wfD [OF r] and M = modulus_half [of ?w] half_ge [of ?w]
    have lf: "lower ?f = SInt_UMinValue ?w"
      using M by (simp add: CR_From_def Let_def IsUMaxValue_iff)
    have zero: "SInt_UMinValue ?w \<in> CR_gamma r" and lo: "uv (lower r) < half ?w"
      using o lf LE_SMax by (simp_all add: overlap_twice_def)
    have max: "SInt_UMaxValue ?w \<in> CR_gamma r"
    proof -
      have "SInt_UMaxValue ?w \<in> CR_gamma ?f \<or> SInt_UMaxValue ?w \<in> CR_gamma r"
        using o by (simp add: overlap_twice_def)
      then show ?thesis using M by (simp add: LE_SMax)
    qed
    show False
    proof (cases "CR_IsFullSet r")
      case True
      then show False using lo d(4) M by (simp add: IsFullSet_iff)
    next
      case False
      then have p: "uv (lower r) \<noteq> uv (upper r)" "on_arc (uv (lower r)) (uv (upper r)) 0"
        "on_arc (uv (lower r)) (uv (upper r)) (modulus ?w - 1)"
        using zero max by (simp_all add: mem_iff)
      then show False using nw d(5-8) by (auto simp: on_arc_def IsWrappedSet_iff split: if_splits)
    qed
  qed
  have "CR_wf ?n \<and> CR_Width ?n = ?w \<and> (x \<in> CR_gamma ?n \<longleftrightarrow> x \<in> CR_gamma r \<and> uv x < half ?w)"
  proof (cases "CR_IsEmptySet r")
    case True
    then show ?thesis using mem_EmptySet by (simp add: code)
  next
    case False
    have "CR_gamma (CR_IntersectWith ?f r Unsigned) = CR_gamma ?f \<inter> CR_gamma r"
      using m no [OF False] by (auto simp: meets_def)
    then show ?thesis using False m gamma_wf [of x r] gamma_width [of x r] by (auto simp: code meets_def LE_SMax)
  qed
  then show "CR_wf ?n" "CR_Width ?n = ?w" "x \<in> CR_gamma ?n \<longleftrightarrow> x \<in> CR_gamma r \<and> uv x < half ?w" by blast+
qed

text \<open>The two halves of a range that wraps.\<close>

lemma split_parts:
  assumes r: "CR_wf r" and w: "CR_IsWrappedSet r"
  defines "lo \<equiv> CR_From LT (upper r) False" and "hi \<equiv> CR_From GE (lower r) False"
  shows "CR_SplitWrapping r True = (lo, hi)" "CR_wf lo" "CR_wf hi" "\<not> CR_IsWrappedSet lo" "\<not> CR_IsWrappedSet hi"
    "CR_Width lo = CR_Width r" "CR_Width hi = CR_Width r"
    "lo = CR_make (SInt_UMinValue (CR_Width r)) (upper r)"
    "hi = CR_make (lower r) (SInt_add_u (SInt_UMaxValue (CR_Width r)) 1)"
proof -
  note d = CR_wfD [OF r] and M = modulus_ge [of "CR_Width r"]
  have u: "uv (upper r) < uv (lower r)" "uv (upper r) \<noteq> 0" using w by (simp_all add: IsWrappedSet_iff)
  have nn: "uv (lower r) \<noteq> 0" using u d(7) by linarith
  show "CR_SplitWrapping r True = (lo, hi)" by (simp add: CR_SplitWrapping_def lo_def hi_def)
  show "CR_wf lo" "CR_wf hi" "CR_Width lo = CR_Width r" "CR_Width hi = CR_Width r"
    using d by (simp_all add: lo_def hi_def From_wf)
  show lo: "lo = CR_make (SInt_UMinValue (CR_Width r)) (upper r)"
    using u d by (simp add: lo_def CR_From_def Let_def IsUMinValue_iff)
  show hi: "hi = CR_make (lower r) (SInt_add_u (SInt_UMaxValue (CR_Width r)) 1)"
    using u nn d by (simp add: hi_def CR_From_def Let_def IsUMinValue_iff)
  show "\<not> CR_IsWrappedSet lo" "\<not> CR_IsWrappedSet hi"
    using d by (simp_all add: lo hi IsWrappedSet_iff add1_uv not_less)
qed

text \<open>A range that wraps keeps its largest value, so the converted range differs from it.\<close>

lemma U2S_wrapped_differs:
  assumes r: "CR_wf r" and w: "CR_IsWrappedSet r"
  shows "\<not> CR_eq (NumericConversionU2SSameWidth r) r"
proof
  assume e: "CR_eq (NumericConversionU2SSameWidth r) r"
  let ?w = "CR_Width r" and ?f = "CR_From LE (SInt_SMaxValue (CR_Width r)) False"
  let ?lo = "CR_From LT (upper r) False" and ?hi = "CR_From GE (lower r) False"
  let ?L = "NCU2SInner ?lo ?w THROWING" and ?H = "NCU2SInner ?hi ?w THROWING"
  note d = CR_wfD [OF r] and M = modulus_half [of ?w] half_ge [of ?w] and s = split_parts [OF r w]
  have u: "uv (upper r) < uv (lower r)" "uv (upper r) \<noteq> 0" using w by (simp_all add: IsWrappedSet_iff)
  have L: "CR_wf ?L" "CR_Width ?L = ?w" "x \<in> CR_gamma ?L \<longleftrightarrow> x \<in> CR_gamma ?lo \<and> uv x < half ?w" for x
    using NCU2SInner_exact(1,2) [OF s(2,4)] NCU2SInner_exact(3) [OF s(2,4)] s(6) by simp_all
  have H: "CR_wf ?H" "CR_Width ?H = ?w" "x \<in> CR_gamma ?H \<longleftrightarrow> x \<in> CR_gamma ?hi \<and> uv x < half ?w" for x
    using NCU2SInner_exact(1,2) [OF s(3,5)] NCU2SInner_exact(3) [OF s(3,5)] s(7) by simp_all
  have res: "NumericConversionU2SSameWidth r = CR_UnionWith ?L ?H Signed"
    using w s(1) by (simp add: NumericConversionU2SSameWidth_def NumericConversionU2S_def)
  have eq: "CR_UnionWith ?L ?H Signed = r"
    using e L H r UnionWith_wf [of ?L ?H Signed] UnionWith_width [of ?L ?H Signed] unfolding res
    by (intro eqD) simp_all
  have max: "SInt_UMaxValue ?w \<in> CR_gamma r"
    using u d by (simp add: mem_iff on_arc_def)
  have maxU: "uv (SInt_UMaxValue ?w) = modulus ?w - 1" by simp
  show False
  proof (cases "half ?w \<le> uv (lower r)")
    case True
    have "CR_gamma ?H = {}" using True d by (auto simp: H(3) mem_From rd_def)
    then have "CR_UnionWith ?L ?H Signed = ?L"
      using gamma_empty_iff [OF H(1)] by (simp add: CR_UnionWith.simps)
    then show False using max L(3) eq maxU M by simp
  next
    case False
    have f: "?f = CR_make (SInt_UMinValue ?w) (SInt_add_u (SInt_SMaxValue ?w) 1)"
      "uv (SInt_add_u (SInt_SMaxValue ?w) 1) = half ?w"
      using M by (simp_all add: CR_From_def Let_def IsUMaxValue_iff add1_uv)
    have top: "uv (SInt_add_u (SInt_UMaxValue ?w) 1) = 0" by (simp add: add1_uv)
    have Le: "?L = CR_make (SInt_UMinValue ?w) (upper r)"
      using u d M False unfolding s(8) NCU2SInner_def
      by (simp add: Let_def CR_IntersectWith.simps CR_IntersectBothUnwrapped_def IsEmptySet_iff IsFullSet_iff
          IsUpperWrapped_iff ucmp_uv f)
    have He: "?H = CR_make (lower r) (SInt_add_u (SInt_SMaxValue ?w) 1)"
      using u d M False top unfolding s(9) NCU2SInner_def
      by (simp add: Let_def CR_IntersectWith.simps CR_IntersectWrappedWithUnwrapped_def IsEmptySet_iff IsFullSet_iff
          IsUpperWrapped_iff ucmp_uv f)
    have sm: "sv (SInt_add_u (SInt_SMaxValue ?w) 1) = - half ?w" by (simp add: add1_sv)
    have "sv (upper r) = uv (upper r)" "sv (lower r) = uv (lower r)" using u False d by (simp_all add: sv_def)
    then have "CR_UnionWith ?L ?H Signed = CR_make (SInt_UMinValue ?w) (SInt_add_u (SInt_SMaxValue ?w) 1)"
      using u d M False sm f(2) unfolding Le He
      by (simp add: CR_UnionWith.simps CR_UnionBothUnwrapped_def IsEmptySet_iff IsFullSet_iff GetPreferredRange_def
          IsUpperWrapped_iff ucmp_uv CR_IsSignWrappedSet_def scmp_sv IsSMinValue_sv)
    then have "uv (lower r) = 0" using eq by (metis make_simps(1) UMinValue_simps(1))
    then show False using u d(7) by linarith
  qed
qed

lemma U2SSameWidth_wf:
  assumes r: "CR_wf r"
  shows "CR_wf (NumericConversionU2SSameWidth r)" "CR_Width (NumericConversionU2SSameWidth r) = CR_Width r"
proof -
  have "CR_wf (NumericConversionU2SSameWidth r) \<and> CR_Width (NumericConversionU2SSameWidth r) = CR_Width r"
  proof (cases "CR_IsWrappedSet r")
    case True
    note s = split_parts [OF r True]
    show ?thesis using NCU2SInner_exact(1,2) [OF s(2,4)] NCU2SInner_exact(1,2) [OF s(3,5)] s(1,6,7) True
      by (simp add: NumericConversionU2SSameWidth_def NumericConversionU2S_def UnionWith_wf UnionWith_width)
  next
    case False
    then show ?thesis using NCU2SInner_exact(1,2) [OF r]
      by (simp add: NumericConversionU2SSameWidth_def NumericConversionU2S_def)
  qed
  then show "CR_wf (NumericConversionU2SSameWidth r)" "CR_Width (NumericConversionU2SSameWidth r) = CR_Width r" by blast+
qed

lemma signed_bound:
  assumes r: "CR_wf r" and b: "NumericBoundToSignedSymbolicBound r uns = Some b"
  shows "b = r" "x \<in> CR_gamma r \<Longrightarrow> rd (\<not> uns) x = sv x"
proof -
  have u: "\<not> CR_IsWrappedSet r \<and> NCU2SInner r (CR_Width r) THROWING = r \<and> b = r" if uns
  proof -
    have eq: "CR_eq (NumericConversionU2SSameWidth r) r" "b = NumericConversionU2SSameWidth r"
      using b that by (simp_all add: NumericBoundToSignedSymbolicBound_def Let_def split: if_splits)
    then show ?thesis
      using U2S_wrapped_differs [OF r] eqD [OF U2SSameWidth_wf(1) [OF r] r U2SSameWidth_wf(2) [OF r] eq(1)]
      by (cases "CR_IsWrappedSet r") (simp_all add: NumericConversionU2SSameWidth_def NumericConversionU2S_def)
  qed
  show "b = r" using u b by (cases uns) (simp_all add: NumericBoundToSignedSymbolicBound_def)
  show "rd (\<not> uns) x = sv x" if "x \<in> CR_gamma r"
  proof (cases uns)
    case True
    then have "uv x < half (CR_Width r)" using NCU2SInner_exact(3) [OF r, of x] u that by simp
    then show ?thesis using True gamma_width [OF that] by (simp add: rd_def sv_def)
  qed (simp add: rd_def)
qed

end
