(* ===== verification/Domain_Arith.thy ===== *)
theory Domain_Arith
  imports Domain_Merge Domain_Casts Range_SDiv
begin

text \<open>
  The transfer functions of the arithmetic operators (\<^verbatim>\<open>ComputeArithmeticBinop\<close> of
  \<^verbatim>\<open>SIntDomain.cpp\<close>) against the integer meaning of the operators: the exact result,
  and what each overflow strategy makes of a result that does not fit.
\<close>

section \<open>The operators on integers\<close>

definition fits_int :: "bool \<Rightarrow> IntWidth \<Rightarrow> int \<Rightarrow> bool" where
  "fits_int uns w k \<longleftrightarrow> (if uns then fits_u w k else fits_s w k)"

definition wrap_int :: "bool \<Rightarrow> IntWidth \<Rightarrow> int \<Rightarrow> int" where
  "wrap_int uns w k = (if uns then k mod modulus w else signed_of w k)"

definition clamp_int :: "bool \<Rightarrow> IntWidth \<Rightarrow> int \<Rightarrow> int" where
  "clamp_int uns w k = (if uns then clamp_u w k else clamp_s w k)"

fun exact_result :: "ExprKind \<Rightarrow> int \<Rightarrow> int \<Rightarrow> int option" where
  "exact_result EK_ADD p q = Some (p + q)"
| "exact_result EK_SUB p q = Some (p - q)"
| "exact_result EK_MUL p q = Some (p * q)"
| "exact_result EK_DIV p q = (if q = 0 then None else Some (p sdiv q))"
| "exact_result EK_MOD p q = (if q = 0 then None else Some (p smod q))"
| "exact_result _ p q = None"

definition outcome :: "OverflowStrategy \<Rightarrow> bool \<Rightarrow> IntWidth \<Rightarrow> int \<Rightarrow> int option" where
  "outcome ov uns w k =
     (if fits_int uns w k then Some k
      else case ov of THROWING \<Rightarrow> None | SATURATING \<Rightarrow> Some (clamp_int uns w k) | _ \<Rightarrow> Some (wrap_int uns w k))"

text \<open>\<open>z\<close> is a value the operator can have on \<open>v\<close> and \<open>x\<close>.\<close>

definition computes ::
  "ExprKind \<Rightarrow> OverflowStrategy \<Rightarrow> bool \<Rightarrow> SInt \<Rightarrow> SInt \<Rightarrow> SInt \<Rightarrow> bool" where
  "computes ek ov uns v x z \<longleftrightarrow> SInt_wf z \<and> width z = width v \<and>
     Option.bind (exact_result ek (rd (\<not> uns) v) (rd (\<not> uns) x)) (outcome ov uns (width v)) =
       Some (rd (\<not> uns) z)"

lemma outcome_cases:
  assumes "outcome ov uns w k = Some j"
  shows "ov \<noteq> SATURATING \<Longrightarrow> j = wrap_int uns w k" "ov = SATURATING \<Longrightarrow> j = clamp_int uns w k"
    "ov = THROWING \<Longrightarrow> j = k"
  using assms by (auto simp: outcome_def wrap_int_def clamp_int_def fits_int_def clamp_u_id clamp_s_id
      fits_u_def fits_s_def signed_of_id split: if_splits OverflowStrategy.splits)

lemma rd_inj: "SInt_wf z \<Longrightarrow> SInt_wf y \<Longrightarrow> width z = width y \<Longrightarrow> rd s z = rd s y \<Longrightarrow> z = y"
  using sv_inj [of z y] SInt_ext [of z y] by (auto simp: rd_def split: if_splits)

lemma computesD:
  assumes "computes ek ov uns v x z"
  obtains k where "exact_result ek (rd (\<not> uns) v) (rd (\<not> uns) x) = Some k"
    "ov \<noteq> SATURATING \<Longrightarrow> rd (\<not> uns) z = wrap_int uns (width v) k"
    "ov = SATURATING \<Longrightarrow> rd (\<not> uns) z = clamp_int uns (width v) k"
    "ov = THROWING \<Longrightarrow> rd (\<not> uns) z = k" "SInt_wf z" "width z = width v"
proof -
  obtain k where k: "exact_result ek (rd (\<not> uns) v) (rd (\<not> uns) x) = Some k"
    "outcome ov uns (width v) k = Some (rd (\<not> uns) z)"
    using assms bind_SomeD unfolding computes_def by metis
  then show thesis using that outcome_cases [OF k(2)] assms unfolding computes_def by blast
qed

section \<open>Numeric ranges\<close>

lemma Add_numeric:
  assumes a: "CR_wf a" and b: "CR_wf b" and w: "CR_Width b = CR_Width a"
    and v: "v \<in> CR_gamma a" and x: "x \<in> CR_gamma b" and z: "computes EK_ADD ov uns v x z"
  shows "z \<in> CR_gamma (if \<not> IsSaturating ov then CR_Add a b else if uns then CR_UAddSat a b else CR_SAddSat a b)"
  using z
proof (rule computesD)
  fix k
  assume k: "exact_result EK_ADD (rd (\<not> uns) v) (rd (\<not> uns) x) = Some k"
    "ov \<noteq> SATURATING \<Longrightarrow> rd (\<not> uns) z = wrap_int uns (width v) k"
    "ov = SATURATING \<Longrightarrow> rd (\<not> uns) z = clamp_int uns (width v) k" "SInt_wf z" "width z = width v"
  note d = gamma_wf [OF v] gamma_wf [OF x] gamma_width [OF v] gamma_width [OF x]
  have vx: "width x = width v" using d w by simp
  have "z = SInt_add v x" if "ov \<noteq> SATURATING"
    using that k d vx by (intro rd_inj [where s = "\<not> uns"]) (auto simp: rd_def wrap_int_def add_uv add_sv)
  moreover have "z = (if uns then SInt_UAddSat v x else SInt_SAddSat v x)" if "ov = SATURATING"
    using that k UAddSat_spec [OF d(1,2) vx] SAddSat_spec [OF d(1,2) vx]
    by (intro rd_inj [where s = "\<not> uns"]) (auto simp: rd_def clamp_int_def)
  ultimately show ?thesis
    using Add_sound [OF a b w v x] UAddSat_range [OF a b w v x] SAddSat_range [OF a b w v x]
    by (auto simp: IsSaturating_def)
qed

lemma Sub_numeric:
  assumes a: "CR_wf a" and b: "CR_wf b" and w: "CR_Width b = CR_Width a"
    and v: "v \<in> CR_gamma a" and x: "x \<in> CR_gamma b" and z: "computes EK_SUB ov uns v x z"
  shows "z \<in> CR_gamma (if \<not> IsSaturating ov then CR_Sub a b else if uns then CR_USubSat a b else CR_SSubSat a b)"
  using z
proof (rule computesD)
  fix k
  assume k: "exact_result EK_SUB (rd (\<not> uns) v) (rd (\<not> uns) x) = Some k"
    "ov \<noteq> SATURATING \<Longrightarrow> rd (\<not> uns) z = wrap_int uns (width v) k"
    "ov = SATURATING \<Longrightarrow> rd (\<not> uns) z = clamp_int uns (width v) k" "SInt_wf z" "width z = width v"
  note d = gamma_wf [OF v] gamma_wf [OF x] gamma_width [OF v] gamma_width [OF x]
  have vx: "width x = width v" using d w by simp
  have "z = SInt_sub v x" if "ov \<noteq> SATURATING"
    using that k d vx by (intro rd_inj [where s = "\<not> uns"]) (auto simp: rd_def wrap_int_def sub_uv sub_sv)
  moreover have "z = (if uns then SInt_USubSat v x else SInt_SSubSat v x)" if "ov = SATURATING"
    using that k USubSat_spec [OF d(1,2) vx] SSubSat_spec [OF d(1,2) vx]
    by (intro rd_inj [where s = "\<not> uns"]) (auto simp: rd_def clamp_int_def)
  ultimately show ?thesis
    using Sub_sound [OF a b w v x] USubSat_range [OF a b w v x] SSubSat_range [OF a b w v x]
    by (auto simp: IsSaturating_def)
qed

lemma Mul_numeric:
  assumes a: "CR_wf a" and b: "CR_wf b" and w: "CR_Width b = CR_Width a"
  obtains r where "(if \<not> IsSaturating ov then (if uns then CR_UMul a b else CR_SMul a b)
      else if uns then CR_UMulSat a b else CR_SMulSat a b) = Some r" "CR_wf r" "CR_Width r = CR_Width a"
    "\<And>v x z. v \<in> CR_gamma a \<Longrightarrow> x \<in> CR_gamma b \<Longrightarrow> computes EK_MUL ov uns v x z \<Longrightarrow> z \<in> CR_gamma r"
proof -
  have wrap: "z = SInt_mul v x"
    if "v \<in> CR_gamma a" "x \<in> CR_gamma b" "computes EK_MUL ov uns v x z" "ov \<noteq> SATURATING" for v x z
    using that(3) gamma_wf [OF that(1)] gamma_wf [OF that(2)] gamma_width [OF that(1)] gamma_width [OF that(2)] w that(4)
    by (elim computesD, intro rd_inj [where s = "\<not> uns"]) (auto simp: rd_def wrap_int_def mul_uv mul_sv)
  have usat: "z = y"
    if "v \<in> CR_gamma a" "x \<in> CR_gamma b" "computes EK_MUL ov True v x z" "ov = SATURATING" "SInt_UMulSat v x = Some y" for v x y z
  proof (rule UMulSat_spec [OF gamma_wf [OF that(1)] gamma_wf [OF that(2)]])
    show "width x = width v" using gamma_width [OF that(1)] gamma_width [OF that(2)] w by simp
    fix r assume "SInt_UMulSat v x = Some r" "SInt_wf r" "width r = width v" "uv r = clamp_u (width v) (uv v * uv x)"
    then show "z = y" using that(3-5)
      by (elim computesD, intro rd_inj [where s = False]) (auto simp: rd_def clamp_int_def)
  qed
  have ssat: "z = y"
    if "v \<in> CR_gamma a" "x \<in> CR_gamma b" "computes EK_MUL ov False v x z" "ov = SATURATING" "SInt_SMulSat v x = Some y" for v x y z
  proof (rule SMulSat_spec [OF gamma_wf [OF that(1)] gamma_wf [OF that(2)]])
    show "width x = width v" using gamma_width [OF that(1)] gamma_width [OF that(2)] w by simp
    fix r assume "SInt_SMulSat v x = Some r" "SInt_wf r" "width r = width v" "sv r = clamp_s (width v) (sv v * sv x)"
    then show "z = y" using that(3-5)
      by (elim computesD, intro rd_inj [where s = True]) (auto simp: rd_def clamp_int_def)
  qed
  show thesis
  proof (cases "ov = SATURATING")
    case False
    show thesis
    proof (cases uns)
      case True
      show thesis
      proof (rule UMul_range [OF a b w])
        fix r assume r: "CR_UMul a b = Some r" "CR_wf r" "CR_Width r = CR_Width a"
          "\<And>v x. v \<in> CR_gamma a \<Longrightarrow> x \<in> CR_gamma b \<Longrightarrow> SInt_mul v x \<in> CR_gamma r"
        show thesis
        proof (rule that [OF _ r(2,3)])
          show "z \<in> CR_gamma r" if "v \<in> CR_gamma a" "x \<in> CR_gamma b" "computes EK_MUL ov uns v x z" for v x z
            using wrap [OF that] False r(4) [OF that(1,2)] by simp
        qed (use False True r in \<open>simp add: IsSaturating_def\<close>)
      qed
    next
      case uf: False
      show thesis
      proof (rule SMul_range [OF a b w])
        fix r assume r: "CR_SMul a b = Some r" "CR_wf r" "CR_Width r = CR_Width a"
          "\<And>v x. v \<in> CR_gamma a \<Longrightarrow> x \<in> CR_gamma b \<Longrightarrow> SInt_mul v x \<in> CR_gamma r"
        show thesis
        proof (rule that [OF _ r(2,3)])
          show "z \<in> CR_gamma r" if "v \<in> CR_gamma a" "x \<in> CR_gamma b" "computes EK_MUL ov uns v x z" for v x z
            using wrap [OF that] False r(4) [OF that(1,2)] by simp
        qed (use False uf r in \<open>simp add: IsSaturating_def\<close>)
      qed
    qed
  next
    case True
    show thesis
    proof (cases uns)
      case ut: True
      show thesis
      proof (rule UMulSat_range [OF a b w])
        fix r assume r: "CR_UMulSat a b = Some r" "CR_wf r" "CR_Width r = CR_Width a"
          "\<And>v x. v \<in> CR_gamma a \<Longrightarrow> x \<in> CR_gamma b \<Longrightarrow> \<exists>z. SInt_UMulSat v x = Some z \<and> z \<in> CR_gamma r"
        show thesis
        proof (rule that [OF _ r(2,3)])
          fix v x z assume m: "v \<in> CR_gamma a" "x \<in> CR_gamma b" "computes EK_MUL ov uns v x z"
          obtain y where "SInt_UMulSat v x = Some y" "y \<in> CR_gamma r" using r(4) [OF m(1,2)] by blast
          then show "z \<in> CR_gamma r" using usat [of v x z y] m True ut by simp
        qed (use True ut r in \<open>simp add: IsSaturating_def\<close>)
      qed
    next
      case uf: False
      show thesis
      proof (rule SMulSat_range [OF a b w])
        fix r assume r: "CR_SMulSat a b = Some r" "CR_wf r" "CR_Width r = CR_Width a"
          "\<And>v x. v \<in> CR_gamma a \<Longrightarrow> x \<in> CR_gamma b \<Longrightarrow> \<exists>z. SInt_SMulSat v x = Some z \<and> z \<in> CR_gamma r"
        show thesis
        proof (rule that [OF _ r(2,3)])
          fix v x z assume m: "v \<in> CR_gamma a" "x \<in> CR_gamma b" "computes EK_MUL ov uns v x z"
          obtain y where "SInt_SMulSat v x = Some y" "y \<in> CR_gamma r" using r(4) [OF m(1,2)] by blast
          then show "z \<in> CR_gamma r" using ssat [of v x z y] m True uf by simp
        qed (use True uf r in \<open>simp add: IsSaturating_def\<close>)
      qed
    qed
  qed
qed

lemma division_exact:
  assumes v: "SInt_wf v" and x: "SInt_wf x" "width x = width v" and z: "computes EK_DIV ov uns v x z"
    and no: "overflows v x \<Longrightarrow> uns \<or> ov = THROWING"
  shows "rd (\<not> uns) x \<noteq> 0" "rd (\<not> uns) z = rd (\<not> uns) v sdiv rd (\<not> uns) x"
    "\<not> uns \<Longrightarrow> \<not> overflows v x"
proof -
  let ?p = "rd (\<not> uns) v" and ?q = "rd (\<not> uns) x"
  have q: "?q \<noteq> 0" and out: "outcome ov uns (width v) (?p sdiv ?q) = Some (rd (\<not> uns) z)"
    using z by (auto simp: computes_def split: if_splits)
  have o1: "\<not> overflows v x" if "\<not> uns"
  proof
    assume ovf: "overflows v x"
    then have "?p sdiv ?q = half (width v)" "ov = THROWING"
      using that no by (simp_all add: overflows_def rd_def signed_divide_int_def)
    then show False using out that by (simp add: outcome_def fits_int_def fits_s_def)
  qed
  have "fits_int uns (width v) (?p sdiv ?q)"
  proof (cases uns)
    case True
    then have "0 < uv x" using q uv_pos by (simp add: rd_def)
    then show ?thesis
      using div_in_range [of "uv v" "modulus (width v)" "uv x"] uv_nonneg [of v] v True sdiv_signs(1) [of "uv v" "uv x"]
      by (simp add: SInt_wf_def fits_int_def fits_u_def rd_def)
  next
    case False
    then show ?thesis using sdiv_fits [OF v] o1 by (simp add: fits_int_def rd_def overflows_def)
  qed
  then show "rd (\<not> uns) z = ?p sdiv ?q" using out by (simp add: outcome_def)
  show "?q \<noteq> 0" "\<not> uns \<Longrightarrow> \<not> overflows v x" using q o1 by blast+
qed

lemma Div_numeric:
  assumes a: "CR_wf a" and b: "CR_wf b" and w: "CR_Width b = CR_Width a" and nl: "uns \<or> \<not> lossy_dividend a"
  obtains r where "(if uns then CR_UDiv a b else if IsSaturating ov then CR_SDivSat a b else CR_SDiv a b) = Some r"
    "CR_wf r" "CR_Width r = CR_Width a"
    "\<And>v x z. v \<in> CR_gamma a \<Longrightarrow> x \<in> CR_gamma b \<Longrightarrow> computes EK_DIV ov uns v x z \<Longrightarrow>
       (overflows v x \<Longrightarrow> uns \<or> ov = THROWING) \<Longrightarrow> z \<in> CR_gamma r"
proof -
  have key: "SInt_wf v \<and> SInt_wf x \<and> width x = width v \<and> SInt_wf z \<and> width z = width v"
    if "v \<in> CR_gamma a" "x \<in> CR_gamma b" "computes EK_DIV ov uns v x z" for v x z
    using gamma_wf [OF that(1)] gamma_wf [OF that(2)] gamma_width [OF that(1)] gamma_width [OF that(2)] w that(3)
    by (simp add: computes_def)
  show thesis
  proof (cases uns)
    case True
    show thesis
    proof (rule UDiv_range [OF a b w])
      fix r assume r: "CR_UDiv a b = Some r" "CR_wf r" "CR_Width r = CR_Width a"
        "\<And>v x z. v \<in> CR_gamma a \<Longrightarrow> x \<in> CR_gamma b \<Longrightarrow> SInt_UDiv v x = Some z \<Longrightarrow> z \<in> CR_gamma r"
      show thesis
      proof (rule that [OF _ r(2,3)])
        fix v x z assume m: "v \<in> CR_gamma a" "x \<in> CR_gamma b" "computes EK_DIV ov uns v x z"
          "overflows v x \<Longrightarrow> uns \<or> ov = THROWING"
        note k = key [OF m(1-3)]
        have e: "uv x \<noteq> 0" "uv z = uv v div uv x"
          using division_exact(1,2) [of v x ov uns z] k m(3,4) True sdiv_signs(1) [of "uv v" "uv x"]
            uv_nonneg [of v] uv_pos [of x] by (simp_all add: rd_def)
        show "z \<in> CR_gamma r"
        proof (rule UDiv_Some [of v x])
          fix q assume "SInt_UDiv v x = Some q" "SInt_wf q" "width q = width v" "uv q = uv v div uv x"
          then show "z \<in> CR_gamma r" using r(4) [OF m(1,2)] e k SInt_ext [of z q] by simp
        qed (use k e in auto)
      qed (use True r in simp)
    qed
  next
    case False
    then have nl: "\<not> lossy_dividend a" using nl by simp
    have e: "sv x \<noteq> 0" "sv z = sv v sdiv sv x" "\<not> overflows v x"
      if "v \<in> CR_gamma a" "x \<in> CR_gamma b" "computes EK_DIV ov uns v x z"
        "overflows v x \<Longrightarrow> uns \<or> ov = THROWING" for v x z
      using division_exact [of v x ov uns z] key [OF that(1-3)] that(3,4) False by (simp_all add: rd_def)
    show thesis
    proof (cases "ov = SATURATING")
      case True
      show thesis
      proof (rule SDivSat_range [OF a b w nl])
        fix r assume r: "CR_SDivSat a b = Some r" "CR_wf r" "CR_Width r = CR_Width a"
          "\<And>v x z. v \<in> CR_gamma a \<Longrightarrow> x \<in> CR_gamma b \<Longrightarrow> sv x \<noteq> 0 \<Longrightarrow> \<not> overflows v x \<Longrightarrow>
            SInt_SDivSat v x = Some z \<Longrightarrow> z \<in> CR_gamma r"
        show thesis
        proof (rule that [OF _ r(2,3)])
          fix v x z assume m: "v \<in> CR_gamma a" "x \<in> CR_gamma b" "computes EK_DIV ov uns v x z"
            "overflows v x \<Longrightarrow> uns \<or> ov = THROWING"
          note k = key [OF m(1-3)] and em = e [OF m]
          show "z \<in> CR_gamma r"
          proof (rule SDivSat_spec [of v x])
            fix q assume q: "SInt_SDivSat v x = Some q" "SInt_wf q" "width q = width v"
              "sv q = clamp_s (width v) (sv v sdiv sv x)"
            then have "sv q = sv v sdiv sv x"
              using sdiv_fits [of v "sv x"] k em(3) by (simp add: clamp_s_id overflows_def)
            then show "z \<in> CR_gamma r"
              using r(4) [OF m(1,2) em(1,3) q(1)] em(2) k q sv_inj [of z q] by simp
          qed (use k em sv_zero_iff [of x] in auto)
        qed (use True False r in \<open>simp add: IsSaturating_def\<close>)
      qed
    next
      case ns: False
      show thesis
      proof (rule SDiv_range [OF a b w nl])
        fix r assume r: "CR_SDiv a b = Some r" "CR_wf r" "CR_Width r = CR_Width a"
          "\<And>v x z. v \<in> CR_gamma a \<Longrightarrow> x \<in> CR_gamma b \<Longrightarrow> \<not> overflows v x \<Longrightarrow>
            SInt_SDiv v x = Some z \<Longrightarrow> z \<in> CR_gamma r"
        show thesis
        proof (rule that [OF _ r(2,3)])
          fix v x z assume m: "v \<in> CR_gamma a" "x \<in> CR_gamma b" "computes EK_DIV ov uns v x z"
            "overflows v x \<Longrightarrow> uns \<or> ov = THROWING"
          note k = key [OF m(1-3)] and em = e [OF m]
          obtain q where q: "SInt_SDiv v x = Some q"
            using sdiv.defined [of v x] k em(1) by blast
          have "sv q = sv v sdiv sv x" "SInt_wf q" "width q = width v"
            using SDiv_sv [of v x q] k em q by (simp_all add: overflows_def)
          then show "z \<in> CR_gamma r"
            using r(4) [OF m(1,2) em(3) q(1)] em(2) k sv_inj [of z q] by simp
        qed (use ns False r in \<open>simp add: IsSaturating_def\<close>)
      qed
    qed
  qed
qed

lemma Mod_numeric:
  assumes a: "CR_wf a" and b: "CR_wf b" and w: "CR_Width b = CR_Width a"
  obtains r where "(if uns then CR_URem a b else CR_SRem a b) = Some r" "CR_wf r" "CR_Width r = CR_Width a"
    "\<And>v x z. v \<in> CR_gamma a \<Longrightarrow> x \<in> CR_gamma b \<Longrightarrow> computes EK_MOD ov uns v x z \<Longrightarrow> z \<in> CR_gamma r"
proof -
  have key: "SInt_wf v \<and> SInt_wf x \<and> width x = width v \<and> SInt_wf z \<and> width z = width v \<and> rd (\<not> uns) x \<noteq> 0 \<and>
      outcome ov uns (width v) (rd (\<not> uns) v smod rd (\<not> uns) x) = Some (rd (\<not> uns) z)"
    if "v \<in> CR_gamma a" "x \<in> CR_gamma b" "computes EK_MOD ov uns v x z" for v x z
    using gamma_wf [OF that(1)] gamma_wf [OF that(2)] gamma_width [OF that(1)] gamma_width [OF that(2)] w that(3)
    by (simp add: computes_def split: if_splits)
  show thesis
  proof (cases uns)
    case True
    show thesis
    proof (rule URem_range [OF a b w])
      fix r assume r: "CR_URem a b = Some r" "CR_wf r" "CR_Width r = CR_Width a"
        "\<And>v x z. v \<in> CR_gamma a \<Longrightarrow> x \<in> CR_gamma b \<Longrightarrow> SInt_URem v x = Some z \<Longrightarrow> z \<in> CR_gamma r"
      show thesis
      proof (rule that [OF _ r(2,3)])
        fix v x z assume m: "v \<in> CR_gamma a" "x \<in> CR_gamma b" "computes EK_MOD ov uns v x z"
        note k = key [OF m]
        have x0: "uv x \<noteq> 0" "0 < uv x" using k True uv_pos by (simp_all add: rd_def)
        have "uv v smod uv x = uv v mod uv x" using uv_nonneg [of v] x0(2)
          by (cases "uv v = 0") (simp_all add: signed_modulo_int_def)
        moreover have "0 \<le> uv v mod uv x" "uv v mod uv x < modulus (width v)"
          using div_in_range [of "uv v" "modulus (width v)" "uv x"] uv_nonneg [of v] x0(2) k by (simp_all add: SInt_wf_def)
        ultimately have "uv z = uv v mod uv x" using k True by (simp add: rd_def outcome_def fits_int_def fits_u_def)
        then have uz: "uv z = uv v mod uv x" .
        show "z \<in> CR_gamma r"
        proof (rule URem_Some [of v x])
          fix q assume "SInt_URem v x = Some q" "SInt_wf q" "width q = width v" "uv q = uv v mod uv x"
          then show "z \<in> CR_gamma r" using r(4) [OF m(1,2)] uz k SInt_ext [of z q] by simp
        qed (use k x0 in auto)
      qed (use True r in simp)
    qed
  next
    case False
    show thesis
    proof (rule SRem_range [OF a b w])
      fix r assume r: "CR_SRem a b = Some r" "CR_wf r" "CR_Width r = CR_Width a"
        "\<And>v x z. v \<in> CR_gamma a \<Longrightarrow> x \<in> CR_gamma b \<Longrightarrow> SInt_SRem v x = Some z \<Longrightarrow> z \<in> CR_gamma r"
      show thesis
      proof (rule that [OF _ r(2,3)])
        fix v x z assume m: "v \<in> CR_gamma a" "x \<in> CR_gamma b" "computes EK_MOD ov uns v x z"
        note k = key [OF m]
        have x0: "uv x \<noteq> 0" using k False sv_zero_iff [of x] by (simp add: rd_def)
        obtain q where q: "SInt_SRem v x = Some q" using SRem_Some [of v x] k x0 by blast
        have sq: "SInt_wf q" "width q = width v" "sv q = sv v smod sv x"
          using SRem_sv(2-4) [of v x q] k q by simp_all
        then have "fits_int uns (width v) (sv v smod sv x)"
          using False sv_lo [of q] sv_hi [of q] by (simp add: fits_int_def fits_s_def)
        then have "sv z = sv v smod sv x" using k False by (simp add: rd_def outcome_def)
        then show "z \<in> CR_gamma r" using k sq r(4) [OF m(1,2) q] sv_inj [of z q] by simp
      qed (use False r in simp)
    qed
  qed
qed

section \<open>Symbolic bounds\<close>

lemma Neg_sv_exact: "SInt_wf x \<Longrightarrow> sv x \<noteq> - half (width x) \<Longrightarrow> sv (SInt_Neg x) = - sv x"
  using uv_nonneg [of x] half_pos [of "width x"] mod_once_down [of "modulus (width x)" "- uv x"]
  by (auto simp: sv_def Neg_uv SInt_wf_def modulus_half split: if_splits)

text \<open>Negating a bound keeps the negation of every difference but the least one, whether or not the
  bound starts at the least value.\<close>

lemma negate_bound:
  assumes b: "CR_wf b" and k: "diff_in b k" "k \<noteq> - half (CR_Width b)"
  shows "CR_wf (CR_Negate b)" "CR_Width (CR_Negate b) = CR_Width b" "diff_in (CR_Negate b) (- k)"
proof -
  obtain d where d: "d \<in> CR_gamma b" "sv d = k" using k(1) diff_in_iff by blast
  note f = gamma_wf [OF d(1)] gamma_width [OF d(1)]
  have n: "CR_wf (CR_Negate b) \<and> CR_Width (CR_Negate b) = CR_Width b \<and> SInt_Neg d \<in> CR_gamma (CR_Negate b)"
  proof (cases "sv (lower b) = - half (CR_Width b)")
    case True
    have "\<not> CR_IsSingleElement b"
    proof
      assume s: "CR_IsSingleElement b"
      then have "d = lower b" using SingleElement_mem [OF b _ d(1)] by (simp add: CR_GetSingleElement_def)
      then show False using True d(2) k(2) by simp
    qed
    then show ?thesis using Negate_least [OF b True _ d(1)] d(2) k(2) by simp
  next
    case False
    then show ?thesis using Negate_exact [OF b False f] d(1) by simp
  qed
  moreover have "sv (SInt_Neg d) = - k" using Neg_sv_exact [OF f(1)] d(2) k(2) f(2) by simp
  ultimately show "CR_wf (CR_Negate b)" "CR_Width (CR_Negate b) = CR_Width b" "diff_in (CR_Negate b) (- k)"
    using diff_inI by blast+
qed

lemma diff_in_signed: "z \<in> CR_gamma b \<longleftrightarrow> SInt_wf z \<and> width z = CR_Width b \<and> diff_in b (sv z)"
proof
  assume "z \<in> CR_gamma b"
  then show "SInt_wf z \<and> width z = CR_Width b \<and> diff_in b (sv z)"
    using gamma_wf gamma_width diff_inI by blast
next
  assume z: "SInt_wf z \<and> width z = CR_Width b \<and> diff_in b (sv z)"
  then obtain d where d: "d \<in> CR_gamma b" "sv d = sv z" using diff_in_iff by blast
  then have "d = z" using z gamma_wf [OF d(1)] gamma_width [OF d(1)] by (intro sv_inj) simp_all
  then show "z \<in> CR_gamma b" using d(1) by simp
qed

section \<open>Addition\<close>

lemma ComputeAdd_models:
  assumes a: "CR_wf (numeric lhs)" and b: "CR_wf (numeric rhs)" and w: "SD_Width rhs = SD_Width lhs"
    and v: "v \<in> CR_gamma (numeric lhs)" and x: "x \<in> CR_gamma (numeric rhs)"
    and l: "\<sigma> (address l) = rd (\<not> uns) v" and r: "\<sigma> (address r) = rd (\<not> uns) x"
    and z: "computes EK_ADD ov uns v x z"
  shows "SD_wf (ComputeAdd lhs rhs l r ov uns) \<and> SD_Width (ComputeAdd lhs rhs l r ov uns) = SD_Width lhs \<and>
    unsignedFlag (ComputeAdd lhs rhs l r ov uns) = uns \<and> SD_models \<sigma> (ComputeAdd lhs rhs l r ov uns) z"
proof -
  let ?ln = "numeric lhs" and ?rn = "numeric rhs" and ?w = "SD_Width lhs"
  define n where "n = (if \<not> IsSaturating ov then CR_Add ?ln ?rn else if uns then CR_UAddSat ?ln ?rn else CR_SAddSat ?ln ?rn)"
  have w': "CR_Width ?rn = CR_Width ?ln" using w by (simp add: SD_Width_def)
  have n: "CR_wf n" "CR_Width n = ?w" "z \<in> CR_gamma n"
    using Add_numeric [OF a b w' v x z] Add_wf [OF a b w'] AddSubSat_wf [OF a b w'] a
    by (simp_all add: n_def SD_Width_def)
  define mp1 where "mp1 = (if \<not> CR_IsSingleElement ?ln \<and> CR_IsNonTrivial ?rn then
      (case NumericBoundToSignedSymbolicBound ?rn uns of None \<Rightarrow> [] | Some b \<Rightarrow> map_emplace l b []) else [])"
  define mp2 where "mp2 = (if \<not> CR_IsSingleElement ?rn \<and> CR_IsNonTrivial ?ln then
      (case NumericBoundToSignedSymbolicBound ?ln uns of None \<Rightarrow> mp1 | Some b \<Rightarrow> map_emplace r b mp1) else mp1)"
  have code: "ComputeAdd lhs rhs l r ov uns = (if CR_IsEmptySet n \<or> ov \<noteq> THROWING then SD_make n uns else SD_make_map n mp2 uns)"
    unfolding ComputeAdd_def Let_def n_def mp1_def mp2_def SD_NumericBound_def by (rule refl)
  have "map_ok ?w mp2 \<and> bounds_hold \<sigma> (rd (\<not> uns) z) mp2" if t: "ov = THROWING"
  proof -
    have zs: "rd (\<not> uns) z = rd (\<not> uns) v + rd (\<not> uns) x"
      using z t by (elim computesD) simp
    have R: "c = ?rn \<and> diff_in c (rd (\<not> uns) z - \<sigma> (address l))" if "NumericBoundToSignedSymbolicBound ?rn uns = Some c" for c
      using signed_bound [OF b that] x zs l diff_inI [OF x] by simp
    have L: "c = ?ln \<and> diff_in c (rd (\<not> uns) z - \<sigma> (address r))" if "NumericBoundToSignedSymbolicBound ?ln uns = Some c" for c
      using signed_bound [OF a that] v zs r diff_inI [OF v] by simp
    have 1: "map_ok ?w mp1 \<and> bounds_hold \<sigma> (rd (\<not> uns) z) mp1"
      using R b w' by (auto simp: mp1_def SD_Width_def split: option.splits)
    show ?thesis
    proof (cases "NumericBoundToSignedSymbolicBound ?ln uns")
      case None
      then show ?thesis using 1 by (simp add: mp2_def)
    next
      case (Some c)
      have "map_ok ?w (map_emplace r c mp1)" "bounds_hold \<sigma> (rd (\<not> uns) z) (map_emplace r c mp1)"
        using 1 L [OF Some] a emplace_ok [of ?w mp1 c r] emplace_holds [of \<sigma> "rd (\<not> uns) z" mp1 c r]
        by (auto simp: SD_Width_def)
      then show ?thesis using 1 Some by (simp add: mp2_def)
    qed
  qed
  then show ?thesis using n by (auto simp: code SD_make_def SD_make_map_def SD_wf_def SD_Width_def SD_models_iff)
qed

section \<open>Subtraction of signed operands\<close>

lemma ComputeSub_numeric_unsigned:
  assumes a: "CR_wf (numeric lhs)" and b: "CR_wf (numeric rhs)" and w: "SD_Width rhs = SD_Width lhs"
    and v: "v \<in> CR_gamma (numeric lhs)" and x: "x \<in> CR_gamma (numeric rhs)" and z: "computes EK_SUB ov True v x z"
  shows "CR_wf (numeric (ComputeSub lhs rhs l r ov True)) \<and> z \<in> CR_gamma (numeric (ComputeSub lhs rhs l r ov True))"
proof -
  have w': "CR_Width (numeric rhs) = CR_Width (numeric lhs)" using w by (simp add: SD_Width_def)
  define n where "n = (if \<not> IsSaturating ov then CR_Sub (numeric lhs) (numeric rhs) else CR_USubSat (numeric lhs) (numeric rhs))"
  have "numeric (ComputeSub lhs rhs l r ov True) = n"
    unfolding ComputeSub_def Let_def SD_NumericBound_def SD_make_def SD_make_symbol_def
    by (simp only: if_False if_True simp_thms n_def [symmetric]) simp
  then show ?thesis
    using Sub_numeric [OF a b w' v x z] Sub_wf [OF a b w'] AddSubSat_wf [OF a b w']
    by (simp add: n_def split: if_splits)
qed

lemma ComputeSub_models:
  assumes wf: "SD_wf lhs" "SD_wf rhs" and w: "SD_Width rhs = SD_Width lhs"
    and s: "\<not> unsignedFlag lhs" "\<not> unsignedFlag rhs" "\<not> IsUnsignedInteger (kind l)"
    and v: "SD_models \<sigma> lhs v" and x: "SD_models \<sigma> rhs x"
    and l: "\<sigma> (address l) = sv v" and r: "\<sigma> (address r) = sv x"
    and z: "computes EK_SUB ov False v x z"
    and least: "sv x = - half (SD_Width rhs) \<Longrightarrow> ov \<noteq> THROWING \<or> CR_IsFullSet (numeric rhs) \<or> CR_IsSingleElement (numeric rhs)"
  shows "SD_wf (ComputeSub lhs rhs l r ov False) \<and> SD_Width (ComputeSub lhs rhs l r ov False) = SD_Width lhs \<and>
    \<not> unsignedFlag (ComputeSub lhs rhs l r ov False) \<and> SD_models \<sigma> (ComputeSub lhs rhs l r ov False) z"
proof -
  let ?ln = "numeric lhs" and ?rn = "numeric rhs" and ?w = "SD_Width lhs"
  have a: "CR_wf ?ln" and b: "CR_wf ?rn" using wf by (simp_all add: SD_wf_def)
  have w': "CR_Width ?rn = CR_Width ?ln" using w by (simp add: SD_Width_def)
  have mem: "v \<in> CR_gamma ?ln" "x \<in> CR_gamma ?rn" using v x by (simp_all add: SD_models_iff)
  have zw: "SInt_wf z" "width z = ?w" using z gamma_width [OF mem(1)] by (simp_all add: computes_def SD_Width_def)
  define n0 where "n0 = (if \<not> IsSaturating ov then CR_Sub ?ln ?rn else CR_SSubSat ?ln ?rn)"
  have n0: "CR_wf n0" "CR_Width n0 = ?w" "z \<in> CR_gamma n0"
    using Sub_numeric [OF a b w' mem z] Sub_wf [OF a b w'] AddSubSat_wf [OF a b w'] a
    by (simp_all add: n0_def SD_Width_def split: if_splits)
  define n1 where "n1 = (case SD_FindSymbolicBound lhs r of None \<Rightarrow> n0 | Some direct \<Rightarrow> CR_IntersectWith n0 direct Signed)"
  define n2 where "n2 = (case SD_FindSymbolicBound rhs l of None \<Rightarrow> n1 | Some rb \<Rightarrow> CR_IntersectWith n1 (CR_Negate rb) Signed)"
  have code: "ComputeSub lhs rhs l r ov False =
      (if CR_IsEmptySet n0 \<or> ov \<noteq> THROWING then SD_make n0 False
       else if CR_IsEmptySet n2 then SD_make n2 False
       else if \<not> CR_IsSingleElement ?ln \<and> CR_IsNonTrivial ?rn \<and> CR_ne ?rn (CR_single (SInt_SMinValue (CR_Width ?rn)))
         then SD_make_symbol n2 l (CR_Negate ?rn) else SD_make n2 False)"
    unfolding ComputeSub_def Let_def n0_def n1_def n2_def SD_NumericBound_def
    by (simp only: if_False if_True not_False_eq_True simp_thms)
  show ?thesis
  proof (cases "ov = THROWING")
    case False
    then show ?thesis using n0 by (simp add: code SD_make_def SD_wf_def SD_Width_def SD_models_iff)
  next
    case True
    have zs: "sv z = sv v - sv x" using z True by (elim computesD) (simp add: rd_def)
    have n1: "CR_wf n1 \<and> CR_Width n1 = ?w \<and> z \<in> CR_gamma n1"
    proof (cases "SD_FindSymbolicBound lhs r")
      case (Some c)
      note f = find_bound [OF wf(1) v Some]
      have "z \<in> CR_gamma c" using f zw zs r s by (simp add: diff_in_signed rd_def)
      then show ?thesis using f n0 Some by (simp add: n1_def IntersectWith_wf IntersectWith_width IntersectWith_mem)
    qed (use n0 in \<open>simp add: n1_def\<close>)
    have n2: "CR_wf n2 \<and> CR_Width n2 = ?w \<and> z \<in> CR_gamma n2"
    proof (cases "SD_FindSymbolicBound rhs l")
      case (Some c)
      note f = find_bound [OF wf(2) x Some]
      have k: "diff_in c (- sv z)" using f(3) zs l s by (simp add: rd_def)
      have "- sv z \<noteq> - half (CR_Width c)" using sv_hi [OF zw(1)] zw(2) f(2) w by simp
      note g = negate_bound [OF f(1) k this]
      have "z \<in> CR_gamma (CR_Negate c)" using g zw f(2) w by (simp add: diff_in_signed)
      then show ?thesis using g f(2) w n1 Some by (simp add: n2_def IntersectWith_wf IntersectWith_width IntersectWith_mem)
    qed (use n1 in \<open>simp add: n2_def\<close>)
    have sym: "CR_wf (CR_Negate ?rn) \<and> CR_Width (CR_Negate ?rn) = ?w \<and> diff_in (CR_Negate ?rn) (sv z - sv v)"
      if c: "CR_IsNonTrivial ?rn" "CR_ne ?rn (CR_single (SInt_SMinValue (CR_Width ?rn)))"
    proof -
      have x0: "sv x \<noteq> - half (CR_Width ?rn)"
      proof
        assume m: "sv x = - half (CR_Width ?rn)"
        then have s: "CR_IsSingleElement ?rn" using least True c(1) by (simp add: CR_IsNonTrivial_def SD_Width_def)
        have "lower ?rn = SInt_SMinValue (CR_Width ?rn)"
          using m SingleElement_mem [OF b s mem(2)] CR_wfD [OF b]
          by (intro sv_inj) (simp_all add: CR_GetSingleElement_def)
        then have "CR_eq ?rn (CR_single (SInt_SMinValue (CR_Width ?rn)))"
          using s by (simp add: CR_eq_def CR_IsSingleElement_def CR_single_def eq_iff_uv)
        then show False using c(2) by (simp add: CR_ne_def)
      qed
      have "diff_in ?rn (sv x)" using diff_inI [OF mem(2)] by simp
      from negate_bound [OF b this x0] show ?thesis using zs w' by (simp add: SD_Width_def)
    qed
    show ?thesis
      using n0 n2 sym True s l unfolding code by (simp add: SD_make_def SD_make_symbol_def SD_wf_def SD_Width_def SD_models_iff rd_def)
  qed
qed

section \<open>Multiplication, division, remainder\<close>

lemma ComputeMul_sound:
  assumes a: "CR_wf (numeric lhs)" and b: "CR_wf (numeric rhs)" and w: "SD_Width rhs = SD_Width lhs"
  obtains d where "ComputeMul lhs rhs ov uns = Some d" "SD_wf d" "SD_Width d = SD_Width lhs" "unsignedFlag d = uns"
    "\<And>v x z \<sigma>. v \<in> CR_gamma (numeric lhs) \<Longrightarrow> x \<in> CR_gamma (numeric rhs) \<Longrightarrow> computes EK_MUL ov uns v x z \<Longrightarrow> SD_models \<sigma> d z"
proof (rule Mul_numeric [OF a b, of ov uns])
  show "CR_Width (numeric rhs) = CR_Width (numeric lhs)" using w by (simp add: SD_Width_def)
  fix r
  assume "(if \<not> IsSaturating ov then (if uns then CR_UMul (numeric lhs) (numeric rhs) else CR_SMul (numeric lhs) (numeric rhs))
      else if uns then CR_UMulSat (numeric lhs) (numeric rhs) else CR_SMulSat (numeric lhs) (numeric rhs)) = Some r"
    "CR_wf r" "CR_Width r = CR_Width (numeric lhs)"
    "\<And>v x z. v \<in> CR_gamma (numeric lhs) \<Longrightarrow> x \<in> CR_gamma (numeric rhs) \<Longrightarrow> computes EK_MUL ov uns v x z \<Longrightarrow> z \<in> CR_gamma r"
  then show thesis
    by (intro that [of "SD_make r uns"])
      (simp_all add: ComputeMul_def Let_def SD_NumericBound_def SD_make_def SD_wf_def SD_Width_def SD_models_iff)
qed

lemma ComputeDiv_sound:
  assumes a: "CR_wf (numeric lhs)" and b: "CR_wf (numeric rhs)" and w: "SD_Width rhs = SD_Width lhs"
    and nl: "uns \<or> \<not> lossy_dividend (numeric lhs)"
  obtains d where "ComputeDiv lhs rhs ov uns = Some d" "SD_wf d" "SD_Width d = SD_Width lhs" "unsignedFlag d = uns"
    "\<And>v x z \<sigma>. v \<in> CR_gamma (numeric lhs) \<Longrightarrow> x \<in> CR_gamma (numeric rhs) \<Longrightarrow> computes EK_DIV ov uns v x z \<Longrightarrow>
       (overflows v x \<Longrightarrow> uns \<or> ov = THROWING) \<Longrightarrow> SD_models \<sigma> d z"
proof (cases "CR_Contains (numeric rhs) (SInt_Zero (CR_Width (numeric rhs)))")
  case True
  show thesis
    using True gamma_width
    by (intro that [of "SD_make (CR_Full (CR_Width (numeric lhs))) uns"])
      (auto simp: ComputeDiv_def Let_def SD_NumericBound_def SD_make_def SD_wf_def SD_Width_def SD_models_iff computes_def)
next
  case False
  have w': "CR_Width (numeric rhs) = CR_Width (numeric lhs)" using w by (simp add: SD_Width_def)
  show thesis
  proof (rule Div_numeric [OF a b w' nl, of ov])
    fix r
    assume "(if uns then CR_UDiv (numeric lhs) (numeric rhs)
        else if IsSaturating ov then CR_SDivSat (numeric lhs) (numeric rhs) else CR_SDiv (numeric lhs) (numeric rhs)) = Some r"
      "CR_wf r" "CR_Width r = CR_Width (numeric lhs)"
      "\<And>v x z. v \<in> CR_gamma (numeric lhs) \<Longrightarrow> x \<in> CR_gamma (numeric rhs) \<Longrightarrow> computes EK_DIV ov uns v x z \<Longrightarrow>
        (overflows v x \<Longrightarrow> uns \<or> ov = THROWING) \<Longrightarrow> z \<in> CR_gamma r"
    then show thesis using False
      by (intro that [of "SD_make r uns"])
        (simp_all add: ComputeDiv_def Let_def SD_NumericBound_def SD_make_def SD_wf_def SD_Width_def SD_models_iff)
  qed
qed

lemma ComputeMod_sound:
  assumes a: "CR_wf (numeric lhs)" and b: "CR_wf (numeric rhs)" and w: "SD_Width rhs = SD_Width lhs"
  obtains d where "ComputeMod lhs rhs uns = Some d" "SD_wf d" "SD_Width d = SD_Width lhs" "unsignedFlag d = uns"
    "\<And>v x z \<sigma>. v \<in> CR_gamma (numeric lhs) \<Longrightarrow> x \<in> CR_gamma (numeric rhs) \<Longrightarrow> computes EK_MOD ov uns v x z \<Longrightarrow> SD_models \<sigma> d z"
proof (rule Mod_numeric [OF a b, of uns ov])
  show "CR_Width (numeric rhs) = CR_Width (numeric lhs)" using w by (simp add: SD_Width_def)
  fix r
  assume "(if uns then CR_URem (numeric lhs) (numeric rhs) else CR_SRem (numeric lhs) (numeric rhs)) = Some r"
    "CR_wf r" "CR_Width r = CR_Width (numeric lhs)"
    "\<And>v x z. v \<in> CR_gamma (numeric lhs) \<Longrightarrow> x \<in> CR_gamma (numeric rhs) \<Longrightarrow> computes EK_MOD ov uns v x z \<Longrightarrow> z \<in> CR_gamma r"
  then show thesis
    by (intro that [of "SD_make r uns"])
      (auto simp: ComputeMod_def Let_def SD_NumericBound_def SD_make_def SD_wf_def SD_Width_def SD_models_iff)
qed

end
