(* ===== verification/Domain_Properties.thy ===== *)
theory Domain_Properties
  imports Domain_Arith Range_Properties
begin

text \<open>
  The properties of the abstract booleans (\<^verbatim>\<open>BoolDomain\<close>) and of the integer
  domain (\<^verbatim>\<open>SIntDomain\<close>), with an instance of each theorem that has hypotheses.
\<close>

section \<open>Abstract booleans\<close>

text \<open>The tables of the abstract conjunction, disjunction and negation are exactly the images
  of the boolean operations on the sets of booleans the codes stand for, and the two bit
  operations are the intersection and union of those sets.\<close>

theorem BoolDomain_exact:
  assumes "BD_wf a" "BD_wf b"
  shows "BD_gamma (BD_LogicalAnd a b) = {x \<and> y |x y. x \<in> BD_gamma a \<and> y \<in> BD_gamma b} \<and>
    BD_gamma (BD_LogicalOr a b) = {x \<or> y |x y. x \<in> BD_gamma a \<and> y \<in> BD_gamma b} \<and>
    BD_gamma (BD_not a) = {\<not> x |x. x \<in> BD_gamma a} \<and>
    BD_gamma (BD_and a b) = BD_gamma a \<inter> BD_gamma b \<and> BD_gamma (BD_Union a b) = BD_gamma a \<union> BD_gamma b \<and>
    list_all BD_wf [BD_LogicalAnd a b, BD_LogicalOr a b, BD_not a, BD_and a b, BD_Union a b]"
  using LogicalAnd_facts [OF assms] LogicalOr_facts [OF assms] not_facts [OF assms(1)] meet_join_facts [OF assms]
  by (simp add: BD_Union_def)

theorem BoolDomain_exact_witness:
  "BD_LogicalAnd BD_Top BD_False = BD_False \<and> BD_gamma (BD_Union BD_True BD_False) = UNIV"
proof -
  have "BD_LogicalAnd BD_Top BD_False = BD_False" by (simp add: and_table)
  moreover have "BD_gamma (BD_Union BD_True BD_False) = {True} \<union> {False}"
    using BoolDomain_exact [of BD_True BD_False] by simp
  ultimately show ?thesis using UNIV_bool by auto
qed

section \<open>Relational operators\<close>

text \<open>C1: The abstract result of a relational operator contains the truth value of the operator
  on any two values the operand domains describe, whether it was decided on the numeric
  ranges, on a bound of one operand against the other, or on bounds against a common symbol.\<close>

theorem ComputeRelIntBinop_sound:
  assumes "SD_wf ia" "SD_wf ib" "SD_Width ib = SD_Width ia" "unsignedFlag ia = uns" "unsignedFlag ib = uns"
    and "SD_models \<sigma> ia v" "SD_models \<sigma> ib x"
    and "\<sigma> (address a) = rd (\<not> uns) v" "\<sigma> (address b) = rd (\<not> uns) x" "is_relational ek"
  shows "rel_holds (RelFrom ek) (rd (\<not> uns) v) (rd (\<not> uns) x) \<in> BD_gamma (ComputeRelIntBinop ia ib a b ek uns)"
  using ComputeRel_sound [OF assms] by blast

theorem ComputeRelIntBinop_sound_witness:
  "ComputeRelIntBinop (SD_make_symbol (CR_Full I8) (sym8 2) (bytes 236 0)) (SD_Top I8 False) (sym8 1) (sym8 2) EK_LT False = BD_True \<and>
   rel_holds LT (sv (byte 12)) (sv (byte 30))"
proof -
  let ?ia = "SD_make_symbol (CR_Full I8) (sym8 2) (bytes 236 0)" and ?ib = "SD_Top I8 False"
    and ?\<sigma> = "\<lambda>s :: nat. if s = 1 then 12 else 30 :: int"
  have h: "SD_wf ?ia" "SD_wf ?ib" "SD_Width ?ib = SD_Width ?ia" "unsignedFlag ?ia = False" "unsignedFlag ?ib = False"
    "SD_models ?\<sigma> ?ia (byte 12)" "SD_models ?\<sigma> ?ib (byte 30)" "?\<sigma> (address (sym8 1)) = rd (\<not> False) (byte 12)"
    "?\<sigma> (address (sym8 2)) = rd (\<not> False) (byte 30)"
    by code_simp+
  have r: "is_relational EK_LT" by (simp add: is_relational_def)
  have e: "ComputeRelIntBinop ?ia ?ib (sym8 1) (sym8 2) EK_LT False = BD_True" by code_simp
  show ?thesis using ComputeRelIntBinop_sound [OF h r] e by (simp add: rd_def)
qed

text \<open>The same comparison on bounds clamped to the width is wrong: the condition \<open>x > y\<close> gives the
  bound \<open>[1, 127]\<close> on \<open>x - y\<close> although the difference of two 8-bit integers may exceed 127, and the
  addition \<open>z = y + 127\<close> gives \<open>127\<close>; from these the code decides \<open>x <= z\<close> to be true, which it is
  not for \<open>x = 100\<close>, \<open>y = -100\<close>, \<open>z = 27\<close>.\<close>

theorem common_symbol_clamped_unsound:
  "ComputeRelIntBinop (SD_FromSymbolic GT (sym8 3) I8 False)
     (ComputeAdd (SD_Top I8 False) (SD_make (CR_single (byte 127)) False) (sym8 3) (sym8 4) THROWING False)
     (sym8 1) (sym8 2) EK_LE False = BD_True \<and>
   rel_holds GT 100 (- 100) \<and> computes EK_ADD THROWING False (byte 156) (byte 127) (byte 27) \<and>
   sv (byte 156) = - 100 \<and> sv (byte 27) = 27 \<and> \<not> rel_holds LE 100 27"
proof -
  have x: "SD_FromSymbolic GT (sym8 3) I8 False = SD_make_symbol (CR_Full I8) (sym8 3) (bytes 1 128)" by code_simp
  have z: "ComputeAdd (SD_Top I8 False) (SD_make (CR_single (byte 127)) False) (sym8 3) (sym8 4) THROWING False =
      SD_make_symbol (CR_Full I8) (sym8 3) (bytes 127 128)" by code_simp
  have r: "ComputeRelIntBinop (SD_make_symbol (CR_Full I8) (sym8 3) (bytes 1 128))
      (SD_make_symbol (CR_Full I8) (sym8 3) (bytes 127 128)) (sym8 1) (sym8 2) EK_LE False = BD_True" by code_simp
  have c: "computes EK_ADD THROWING False (byte 156) (byte 127) (byte 27)" by code_simp
  have v: "sv (byte 156) = - 100" "sv (byte 27) = 27"
    by code_simp+
  show ?thesis unfolding x z using r c v by simp
qed

lemma BD_query_consts:
  "BD_IsBottom BD_Bottom" "\<not> BD_IsBottom BD_False" "\<not> BD_IsBottom BD_True" "\<not> BD_IsBottom BD_Top"
  "\<not> BD_IsSingleValue BD_Bottom" "BD_IsSingleValue BD_False" "BD_IsSingleValue BD_True" "\<not> BD_IsSingleValue BD_Top"
  "BD_GetSingleValue BD_True" "\<not> BD_GetSingleValue BD_False"
  by (simp_all add: BD_IsBottom_def BD_IsSingleValue_def BD_GetSingleValue_def BD_consts)

text \<open>The abstract equality of two booleans contains the truth value on every pair of
  members.\<close>

theorem ComputeEqualityBoolBinop_sound:
  assumes "BD_wf a" "BD_wf b" "x \<in> BD_gamma a" "y \<in> BD_gamma b"
  shows "((x = y) \<noteq> (ek = EK_NOTEQUAL)) \<in> BD_gamma (ComputeEqualityBoolBinop a b ek)"
  by (rule BD_wf_cases [OF assms(1)]; rule BD_wf_cases [OF assms(2)])
    (use assms(3,4) in \<open>simp_all add: ComputeEqualityBoolBinop_def BD_query_consts\<close>)

theorem ComputeEqualityBoolBinop_sound_witness:
  "ComputeEqualityBoolBinop BD_True BD_False EK_NOTEQUAL = BD_True \<and>
   ((True = False) \<noteq> (EK_NOTEQUAL = EK_NOTEQUAL)) \<in> BD_gamma BD_True"
proof -
  have "ComputeEqualityBoolBinop BD_True BD_False EK_NOTEQUAL = BD_True" by code_simp
  then show ?thesis using ComputeEqualityBoolBinop_sound [of BD_True BD_False True False EK_NOTEQUAL] by simp
qed

section \<open>Arithmetic operators\<close>

text \<open>C2: Abstract addition, under every overflow strategy: the result domain is well-formed and
  describes the value of the operation, its numeric range and, when overflow throws, the
  bounds it records against the two operands, signed or unsigned.\<close>

theorem ComputeAdd_sound:
  assumes "SD_wf lhs" "SD_wf rhs" "SD_Width rhs = SD_Width lhs"
    and "SD_models \<sigma> lhs v" "SD_models \<sigma> rhs x"
    and "\<sigma> (address l) = rd (\<not> uns) v" "\<sigma> (address r) = rd (\<not> uns) x" "computes EK_ADD ov uns v x z"
  shows "SD_wf (ComputeAdd lhs rhs l r ov uns) \<and> SD_models \<sigma> (ComputeAdd lhs rhs l r ov uns) z"
proof -
  have "CR_wf (numeric lhs)" "CR_wf (numeric rhs)" "v \<in> CR_gamma (numeric lhs)" "x \<in> CR_gamma (numeric rhs)"
    using assms(1,2,4,5) by (simp_all add: SD_wf_def SD_models_iff)
  then show ?thesis using ComputeAdd_models [of lhs rhs v x \<sigma> l uns r ov z] assms(3,6-8) by blast
qed

theorem ComputeAdd_sound_witness:
  "ComputeAdd (SD_Top I8 True) (SD_make (bytes 3 9) True) (usym8 1) (usym8 2) THROWING True =
     SD_make_symbol (CR_Full I8) (usym8 1) (bytes 3 9) \<and>
   SD_models (\<lambda>s. if s = 1 then 200 else 5) (SD_make_symbol (CR_Full I8) (usym8 1) (bytes 3 9)) (byte 205)"
proof -
  let ?lhs = "SD_Top I8 True" and ?rhs = "SD_make (bytes 3 9) True" and ?\<sigma> = "\<lambda>s :: nat. if s = 1 then 200 else 5 :: int"
  have h: "SD_wf ?lhs" "SD_wf ?rhs" "SD_Width ?rhs = SD_Width ?lhs" "SD_models ?\<sigma> ?lhs (byte 200)"
    "SD_models ?\<sigma> ?rhs (byte 5)" "?\<sigma> (address (usym8 1)) = rd (\<not> True) (byte 200)"
    "?\<sigma> (address (usym8 2)) = rd (\<not> True) (byte 5)" "computes EK_ADD THROWING True (byte 200) (byte 5) (byte 205)"
    by code_simp+
  have "ComputeAdd ?lhs ?rhs (usym8 1) (usym8 2) THROWING True = SD_make_symbol (CR_Full I8) (usym8 1) (bytes 3 9)"
    by code_simp
  then show ?thesis using ComputeAdd_sound [OF h] by simp
qed

text \<open>C3: Abstract subtraction of signed operands, under every overflow strategy: the result domain
  is well-formed and describes the value of the operation, its range refined by the bounds the
  operands have against each other and its bound against the left operand. Excluded is one
  value of the right operand where overflow throws: the least value of the type, whose negation
  is not a value of it, unless the range of the right operand is full (then the code records no
  bound for it) or is that value alone (then the code leaves the bound out).\<close>

theorem ComputeSub_sound:
  assumes "SD_wf lhs" "SD_wf rhs" "SD_Width rhs = SD_Width lhs"
    and "\<not> unsignedFlag lhs" "\<not> unsignedFlag rhs" "\<not> IsUnsignedInteger (kind l)"
    and "SD_models \<sigma> lhs v" "SD_models \<sigma> rhs x" "\<sigma> (address l) = sv v" "\<sigma> (address r) = sv x"
    and "computes EK_SUB ov False v x z"
    and "sv x = - half (SD_Width rhs) \<longrightarrow> ov \<noteq> THROWING \<or> CR_IsFullSet (numeric rhs) \<or> CR_IsSingleElement (numeric rhs)"
  shows "SD_wf (ComputeSub lhs rhs l r ov False) \<and> SD_models \<sigma> (ComputeSub lhs rhs l r ov False) z"
  using ComputeSub_models [OF assms(1-11)] assms(12) by blast

theorem ComputeSub_sound_witness:
  "ComputeSub (SD_Top I8 False) (SD_make (bytes 128 9) False) (sym8 1) (sym8 2) THROWING False =
     SD_make_symbol (CR_Full I8) (sym8 1) (bytes 248 128) \<and>
   SD_models (\<lambda>s. if s = 1 then 100 else 5) (SD_make_symbol (CR_Full I8) (sym8 1) (bytes 248 128)) (byte 95)"
proof -
  let ?lhs = "SD_Top I8 False" and ?rhs = "SD_make (bytes 128 9) False" and ?\<sigma> = "\<lambda>s :: nat. if s = 1 then 100 else 5 :: int"
  have h: "SD_wf ?lhs" "SD_wf ?rhs" "SD_Width ?rhs = SD_Width ?lhs" "\<not> unsignedFlag ?lhs" "\<not> unsignedFlag ?rhs"
    "\<not> IsUnsignedInteger (kind (sym8 1))" "SD_models ?\<sigma> ?lhs (byte 100)"
    "SD_models ?\<sigma> ?rhs (byte 5)" "?\<sigma> (address (sym8 1)) = sv (byte 100)"
    "?\<sigma> (address (sym8 2)) = sv (byte 5)" "computes EK_SUB THROWING False (byte 100) (byte 5) (byte 95)"
    "sv (byte 5) = - half (SD_Width ?rhs) \<longrightarrow> THROWING \<noteq> THROWING \<or> CR_IsFullSet (numeric ?rhs) \<or> CR_IsSingleElement (numeric ?rhs)"
    by code_simp+
  have "ComputeSub ?lhs ?rhs (sym8 1) (sym8 2) THROWING False = SD_make_symbol (CR_Full I8) (sym8 1) (bytes 248 128)"
    by code_simp
  then show ?thesis using ComputeSub_sound [OF h] by simp
qed

text \<open>The excluded value is not described: the bound recorded for \<open>r = a - b\<close> with \<open>b\<close> in
  \<open>[-128, 3)\<close> is \<open>[-2, 127]\<close>, and \<open>r = -100 - (-128) = 28\<close> exceeds \<open>a\<close> by 128.\<close>

theorem ComputeSub_least_unsound:
  "ComputeSub (SD_Top I8 False) (SD_make (bytes 128 3) False) (sym8 1) (sym8 2) THROWING False =
     SD_make_symbol (CR_Full I8) (sym8 1) (bytes 254 128) \<and>
   computes EK_SUB THROWING False (byte 156) (byte 128) (byte 28) \<and>
   \<not> SD_models (\<lambda>s. if s = 1 then - 100 else - 128) (SD_make_symbol (CR_Full I8) (sym8 1) (bytes 254 128)) (byte 28)"
proof -
  have "ComputeSub (SD_Top I8 False) (SD_make (bytes 128 3) False) (sym8 1) (sym8 2) THROWING False =
      SD_make_symbol (CR_Full I8) (sym8 1) (bytes 254 128)" by code_simp
  moreover have "computes EK_SUB THROWING False (byte 156) (byte 128) (byte 28)" by code_simp
  moreover have "\<not> SD_models (\<lambda>s. if s = 1 then - 100 else - 128) (SD_make_symbol (CR_Full I8) (sym8 1) (bytes 254 128)) (byte 28)"
    by code_simp
  ultimately show ?thesis by blast
qed

text \<open>On unsigned operands the bound subtraction records is wrong: the range of the right
  operand is negated without the conversion to signed that addition makes, so that for
  \<open>r = a - b\<close> with \<open>b\<close> in \<open>[200, 210)\<close> the code decides \<open>r > a\<close> to be true.\<close>

theorem ComputeSub_unsigned_unsound:
  "let d = ComputeSub (SD_Top I8 True) (SD_make (bytes 200 210) True) (usym8 1) (usym8 2) THROWING True
   in ComputeRelIntBinop d (SD_Top I8 True) (usym8 3) (usym8 1) EK_GT True = BD_True \<and>
     computes EK_SUB THROWING True (byte 220) (byte 205) (byte 15) \<and> \<not> rel_holds GT (uv (byte 15)) (uv (byte 220))"
proof -
  have d: "ComputeSub (SD_Top I8 True) (SD_make (bytes 200 210) True) (usym8 1) (usym8 2) THROWING True =
      SD_make_symbol (CR_Full I8) (usym8 1) (bytes 47 57)" by code_simp
  have r: "ComputeRelIntBinop (SD_make_symbol (CR_Full I8) (usym8 1) (bytes 47 57)) (SD_Top I8 True) (usym8 3) (usym8 1) EK_GT True = BD_True" by code_simp
  have c: "computes EK_SUB THROWING True (byte 220) (byte 205) (byte 15)" "uv (byte 15) = 15" "uv (byte 220) = 220"
    by code_simp+
  show ?thesis unfolding d using r c by simp
qed

text \<open>C4: Abstract multiplication and remainder, under every overflow strategy, never fail, and the
  result domain is well-formed and describes the value of the operation on any two values the
  operands describe. The same holds of division with two exceptions, both of signed operands: a
  left operand whose range is one signed division loses quotients on (\<open>lossy_dividend\<close>: the least
  value and everything from another negative value up), and the quotient of the least value by
  -1, which is described only where it throws.\<close>

theorem ComputeMul_Div_Mod_sound:
  assumes "SD_wf lhs" "SD_wf rhs" "SD_Width rhs = SD_Width lhs" "ek \<in> {EK_MUL, EK_DIV, EK_MOD}"
    and "ek = EK_DIV \<longrightarrow> uns \<or> \<not> lossy_dividend (numeric lhs)"
  shows "\<exists>d. ComputeArithmeticBinop lhs rhs l r ek ov uns = Some d \<and> SD_wf d \<and>
    (\<forall>\<sigma> v x z. SD_models \<sigma> lhs v \<and> SD_models \<sigma> rhs x \<and> computes ek ov uns v x z \<longrightarrow>
      (ek = EK_DIV \<and> overflows v x \<longrightarrow> uns \<or> ov = THROWING) \<longrightarrow> SD_models \<sigma> d z)"
proof -
  have n: "CR_wf (numeric lhs)" "CR_wf (numeric rhs)" using assms(1,2) by (simp_all add: SD_wf_def)
  have found: ?thesis if "ComputeArithmeticBinop lhs rhs l r ek ov uns = Some d" "SD_wf d"
    "\<And>v x z \<sigma>. v \<in> CR_gamma (numeric lhs) \<Longrightarrow> x \<in> CR_gamma (numeric rhs) \<Longrightarrow> computes ek ov uns v x z \<Longrightarrow>
      (ek = EK_DIV \<Longrightarrow> overflows v x \<Longrightarrow> uns \<or> ov = THROWING) \<Longrightarrow> SD_models \<sigma> d z" for d
  proof (intro exI [of _ d] conjI allI impI that(1,2))
    fix \<sigma> v x z
    assume m: "SD_models \<sigma> lhs v \<and> SD_models \<sigma> rhs x \<and> computes ek ov uns v x z"
      and o: "ek = EK_DIV \<and> overflows v x \<longrightarrow> uns \<or> ov = THROWING"
    have "v \<in> CR_gamma (numeric lhs)" "x \<in> CR_gamma (numeric rhs)" using m by (simp_all add: SD_models_iff)
    then show "SD_models \<sigma> d z" by (rule that(3)) (use m o in simp_all)
  qed
  from assms(4) consider "ek = EK_MUL" | "ek = EK_DIV" | "ek = EK_MOD" by blast
  then show ?thesis
  proof cases
    case eq: 1
    show ?thesis
    proof (rule ComputeMul_sound [OF n assms(3), of ov uns])
      fix d assume d: "ComputeMul lhs rhs ov uns = Some d" "SD_wf d"
        and k: "\<And>v x z \<sigma>. v \<in> CR_gamma (numeric lhs) \<Longrightarrow> x \<in> CR_gamma (numeric rhs) \<Longrightarrow> computes EK_MUL ov uns v x z \<Longrightarrow>
          SD_models \<sigma> d z"
      show ?thesis by (rule found [OF _ d(2)]) (use d(1) k in \<open>simp_all add: eq ComputeArithmeticBinop_def\<close>)
    qed
  next
    case eq: 2
    show ?thesis
    proof (rule ComputeDiv_sound [OF n assms(3) assms(5) [rule_format, OF eq], of ov])
      fix d assume d: "ComputeDiv lhs rhs ov uns = Some d" "SD_wf d"
        and k: "\<And>v x z \<sigma>. v \<in> CR_gamma (numeric lhs) \<Longrightarrow> x \<in> CR_gamma (numeric rhs) \<Longrightarrow> computes EK_DIV ov uns v x z \<Longrightarrow>
          (overflows v x \<Longrightarrow> uns \<or> ov = THROWING) \<Longrightarrow> SD_models \<sigma> d z"
      show ?thesis by (rule found [OF _ d(2)]) (use d(1) k in \<open>simp_all add: eq ComputeArithmeticBinop_def\<close>)
    qed
  next
    case eq: 3
    show ?thesis
    proof (rule ComputeMod_sound [OF n assms(3), of uns ov])
      fix d assume d: "ComputeMod lhs rhs uns = Some d" "SD_wf d"
        and k: "\<And>v x z \<sigma>. v \<in> CR_gamma (numeric lhs) \<Longrightarrow> x \<in> CR_gamma (numeric rhs) \<Longrightarrow> computes EK_MOD ov uns v x z \<Longrightarrow>
          SD_models \<sigma> d z"
      show ?thesis by (rule found [OF _ d(2)]) (use d(1) k in \<open>simp_all add: eq ComputeArithmeticBinop_def\<close>)
    qed
  qed
qed

theorem ComputeMul_Div_Mod_sound_witness:
  "\<exists>d. ComputeArithmeticBinop (SD_make (bytes 246 21) False) (SD_make (bytes 2 4) False) (sym8 1) (sym8 2) EK_DIV THROWING False = Some d \<and>
     SD_wf d \<and> SD_models (\<lambda>_. 0) d (byte 252)"
proof -
  let ?lhs = "SD_make (bytes 246 21) False" and ?rhs = "SD_make (bytes 2 4) False" and ?\<sigma> = "\<lambda>_ :: nat. 0 :: int"
  have h: "SD_wf ?lhs" "SD_wf ?rhs" "SD_Width ?rhs = SD_Width ?lhs" "EK_DIV \<in> {EK_MUL, EK_DIV, EK_MOD}"
    "EK_DIV = EK_DIV \<longrightarrow> False \<or> \<not> lossy_dividend (numeric ?lhs)" by code_simp+
  have c: "SD_models ?\<sigma> ?lhs (byte 247)" "SD_models ?\<sigma> ?rhs (byte 2)" "computes EK_DIV THROWING False (byte 247) (byte 2) (byte 252)"
    by code_simp+
  show ?thesis using ComputeMul_Div_Mod_sound [OF h, of "sym8 1" "sym8 2" THROWING] c by blast
qed

section \<open>Intersection and union of domains\<close>

text \<open>C31: The intersection of two domains always exists, is well-formed, and describes every
  value both domains describe, whatever the values of the symbols.\<close>

theorem Intersects_sound:
  assumes "SD_wf a" "SD_wf b" "SD_Width b = SD_Width a" "unsignedFlag b = unsignedFlag a"
  shows "\<exists>d. SD_Intersects a b = Some d \<and> SD_wf d \<and> SD_Width d = SD_Width a \<and> unsignedFlag d = unsignedFlag a \<and>
    (\<forall>\<sigma> v. SD_models \<sigma> a v \<longrightarrow> SD_models \<sigma> b v \<longrightarrow> SD_models \<sigma> d v)"
  using Intersects_merge [OF assms] by blast

theorem Intersects_sound_witness:
  "SD_Intersects (SD_make (bytes 10 40) False) (SD_make_symbol (bytes 20 100) (sym8 1) (bytes 0 5)) =
     Some (SD_make_symbol (bytes 20 40) (sym8 1) (bytes 0 5)) \<and>
   SD_wf (SD_make_symbol (bytes 20 40) (sym8 1) (bytes 0 5))"
proof -
  let ?a = "SD_make (bytes 10 40) False" and ?b = "SD_make_symbol (bytes 20 100) (sym8 1) (bytes 0 5)"
  have h: "SD_wf ?a" "SD_wf ?b" "SD_Width ?b = SD_Width ?a" "unsignedFlag ?b = unsignedFlag ?a" by code_simp+
  have "SD_Intersects ?a ?b = Some (SD_make_symbol (bytes 20 40) (sym8 1) (bytes 0 5))" by code_simp
  then show ?thesis using Intersects_sound [OF h] by auto
qed

text \<open>C32: The union of two domains always exists, is well-formed, and describes every value
  either domain describes: a bound only one side has, or that the union makes full, is left out.\<close>

theorem Unions_sound:
  assumes "SD_wf a" "SD_wf b" "SD_Width b = SD_Width a" "unsignedFlag b = unsignedFlag a"
  shows "\<exists>d. SD_Unions a b = Some d \<and> SD_wf d \<and> SD_Width d = SD_Width a \<and> unsignedFlag d = unsignedFlag a \<and>
    (\<forall>\<sigma> v. SD_models \<sigma> a v \<or> SD_models \<sigma> b v \<longrightarrow> SD_models \<sigma> d v)"
  using Unions_merge [OF assms] by blast

theorem Unions_sound_witness:
  "SD_Unions (SD_make (bytes 10 40) False) (SD_make_symbol (bytes 20 100) (sym8 1) (bytes 0 5)) =
     Some (SD_make (bytes 10 100) False) \<and> SD_wf (SD_make (bytes 10 100) False)"
proof -
  let ?a = "SD_make (bytes 10 40) False" and ?b = "SD_make_symbol (bytes 20 100) (sym8 1) (bytes 0 5)"
  have h: "SD_wf ?a" "SD_wf ?b" "SD_Width ?b = SD_Width ?a" "unsignedFlag ?b = unsignedFlag ?a" by code_simp+
  have "SD_Unions ?a ?b = Some (SD_make (bytes 10 100) False)" by code_simp
  then show ?thesis using Unions_sound [OF h] by auto
qed

end
