(* ===== verification/SInt_Congruence.thy ===== *)
theory SInt_Congruence
  imports Domain_Merge
begin

text \<open>
  The congruence component of an integer range (\<^verbatim>\<open>SIntCongruence\<close> of
  \<^verbatim>\<open>ValueRangeAnalysis.h\<close>, its functions in \<^verbatim>\<open>ValueRangeAnalysis.cpp\<close>): a stride and a
  residue, read over the integers. A value of \<^verbatim>\<open>__int128\<close> is an \<open>int\<close> and one of
  \<^verbatim>\<open>unsigned __int128\<close> a \<open>nat\<close>: every number the code puts there is the sum or
  difference of at most four 65-bit integers. \<^verbatim>\<open>%\<close> of signed operands truncates (\<open>smod\<close>).
\<close>

record SIntCongruence =
  stride :: "64 word"
  residue :: "64 word"

definition SC_IsUseful :: "SIntCongruence \<Rightarrow> bool" where
  "SC_IsUseful c \<longleftrightarrow> stride c > 1"

section \<open>Integers\<close>

function GcdWide :: "nat \<Rightarrow> nat \<Rightarrow> nat" where
  "GcdWide lhs rhs = (if rhs \<noteq> 0 then GcdWide rhs (lhs mod rhs) else lhs)"
  by pat_completeness auto

termination
  by (relation "measure snd") simp_all

declare GcdWide.simps [simp del]

definition ToMathematicalInteger :: "SInt \<Rightarrow> bool \<Rightarrow> int" where
  "ToMathematicalInteger v isUnsigned = (if isUnsigned then uint (SInt_UVal v) else SInt_SVal v)"

definition AbsoluteDifference :: "int \<Rightarrow> int \<Rightarrow> nat" where
  "AbsoluteDifference lhs rhs = (if lhs \<ge> rhs then nat (lhs - rhs) else nat (rhs - lhs))"

definition CanonicalResidue :: "int \<Rightarrow> 64 word \<Rightarrow> 64 word" where
  "CanonicalResidue v s =
     (let wideStride = uint s;
          remainder = v smod wideStride;
          remainder = (if remainder < 0 then remainder + wideStride else remainder)
      in word_of_int remainder)"

section \<open>Operations\<close>

definition NormalizeCongruence :: "SIntCongruence option \<Rightarrow> SIntCongruence option" where
  "NormalizeCongruence c =
     (case c of None \<Rightarrow> None
      | Some c \<Rightarrow> if \<not> SC_IsUseful c then None else Some (c\<lparr>residue := residue c mod stride c\<rparr>))"

record CongruenceSummary =
  constrained :: bool
  modulo :: nat
  representative :: int

definition NoSummary :: CongruenceSummary where
  "NoSummary = \<lparr>constrained = False, modulo = 1, representative = 0\<rparr>"

definition DescribeCongruence ::
  "SInt list option \<Rightarrow> SIntCongruence option \<Rightarrow> bool \<Rightarrow> CongruenceSummary" where
  "DescribeCongruence exactValues congruence isUnsigned =
     (case exactValues of
        Some (front # others) \<Rightarrow>
          let representative = ToMathematicalInteger front isUnsigned;
              modulo = foldl (\<lambda>m x. GcdWide m
                (AbsoluteDifference representative (ToMathematicalInteger x isUnsigned))) 0 others
          in if modulo = 1 then NoSummary
             else \<lparr>constrained = True, modulo = modulo, representative = representative\<rparr>
      | _ \<Rightarrow>
          (case NormalizeCongruence congruence of
             None \<Rightarrow> NoSummary
           | Some c \<Rightarrow>
               \<lparr>constrained = True, modulo = unat (stride c), representative = uint (residue c)\<rparr>))"

definition InferCongruenceFromExactValues ::
  "SInt list option \<Rightarrow> bool \<Rightarrow> SIntCongruence option" where
  "InferCongruenceFromExactValues exactValues isUnsigned =
     (let summary = DescribeCongruence exactValues None isUnsigned
      in if \<not> constrained summary \<or> modulo summary \<le> 1 \<or> modulo summary > 18446744073709551615 then None
         else
           let s = of_nat (modulo summary)
           in Some \<lparr>stride = s, residue = CanonicalResidue (representative summary) s\<rparr>)"

definition MergeSIntCongruencesForUnion ::
  "SIntDomain \<Rightarrow> SInt list option \<Rightarrow> SIntCongruence option \<Rightarrow>
   SIntDomain \<Rightarrow> SInt list option \<Rightarrow> SIntCongruence option \<Rightarrow> SIntCongruence option" where
  "MergeSIntCongruencesForUnion lhsDomain lhsExact lhsCongruence rhsDomain rhsExact rhsCongruence =
     (if SD_IsBottom lhsDomain then
        case InferCongruenceFromExactValues rhsExact (SD_IsUnsigned rhsDomain) of
          Some c \<Rightarrow> Some c | None \<Rightarrow> NormalizeCongruence rhsCongruence
      else if SD_IsBottom rhsDomain then
        case InferCongruenceFromExactValues lhsExact (SD_IsUnsigned lhsDomain) of
          Some c \<Rightarrow> Some c | None \<Rightarrow> NormalizeCongruence lhsCongruence
      else if SD_Width lhsDomain \<noteq> SD_Width rhsDomain \<or>
        SD_IsUnsigned lhsDomain \<noteq> SD_IsUnsigned rhsDomain then None
      else
        let lhs = DescribeCongruence lhsExact lhsCongruence (SD_IsUnsigned lhsDomain);
            rhs = DescribeCongruence rhsExact rhsCongruence (SD_IsUnsigned rhsDomain)
        in if \<not> constrained lhs \<or> \<not> constrained rhs then None
           else
             let m = GcdWide (modulo lhs) (modulo rhs);
                 m = GcdWide m (AbsoluteDifference (representative lhs) (representative rhs))
             in if m \<le> 1 \<or> m > 18446744073709551615 then None
                else Some \<lparr>stride = of_nat m, residue = CanonicalResidue (representative lhs) (of_nat m)\<rparr>)"

text \<open>The out-parameter \<^verbatim>\<open>compatible\<close> is the second component.\<close>

definition IntersectSIntCongruences ::
  "SIntCongruence option \<Rightarrow> SIntCongruence option \<Rightarrow> SIntCongruence option \<times> bool" where
  "IntersectSIntCongruences lhs rhs =
     (case NormalizeCongruence lhs of
        None \<Rightarrow> (NormalizeCongruence rhs, True)
      | Some l \<Rightarrow>
          (case NormalizeCongruence rhs of
             None \<Rightarrow> (Some l, True)
           | Some r \<Rightarrow>
               let common = of_nat (gcd (unat (stride l)) (unat (stride r)));
                   difference = (if residue l \<ge> residue r then residue l - residue r
                                 else residue r - residue l)
               in if difference mod common \<noteq> 0 then (None, False)
                  else if stride l mod stride r = 0 \<and> residue l mod stride r = residue r then (Some l, True)
                  else if stride r mod stride l = 0 \<and> residue r mod stride l = residue l then (Some r, True)
                  else (Some l, True)))"

section \<open>Facts on the helpers\<close>

lemma GcdWide_gcd: "GcdWide a b = gcd a b"
proof (induction a b rule: GcdWide.induct)
  case (1 a b)
  show ?case
  proof (cases "b = 0")
    case True
    then show ?thesis by (simp add: GcdWide.simps)
  next
    case False
    then have "GcdWide a b = gcd b (a mod b)" using 1 by (subst GcdWide.simps) simp
    then show ?thesis by (simp add: gcd_red_nat [of a b] False)
  qed
qed

lemma ToMathematicalInteger_rd: "SInt_wf v \<Longrightarrow> ToMathematicalInteger v uns = rd (\<not> uns) v"
  by (simp add: ToMathematicalInteger_def rd_def SVal_sv SInt_UVal_def uv_def)

lemma smod_fix:
  fixes k s :: int
  assumes "0 < s"
  shows "(if k smod s < 0 then k smod s + s else k smod s) = k mod s"
proof (cases "0 \<le> k")
  case True
  then have "k smod s = k mod s" using assms by (cases "k = 0") (simp_all add: signed_modulo_int_def)
  then show ?thesis using pos_mod_sign [OF assms, of k] by simp
next
  case False
  then have "k smod s = - ((- k) mod s)" using assms by (simp add: signed_modulo_int_def)
  moreover have "0 \<le> (- k) mod s" "(- k) mod s < s" using assms by simp_all
  moreover have "k mod s = (if (- k) mod s = 0 then 0 else s - (- k) mod s)"
    using zmod_zminus1_eq_if [of "- k" s] by simp
  ultimately show ?thesis by (auto split: if_splits)
qed

lemma uint_CanonicalResidue: "0 < uint s \<Longrightarrow> uint (CanonicalResidue k s) = k mod uint s"
proof -
  assume s: "0 < uint s"
  have "uint (word_of_int (k mod uint s) :: 64 word) = k mod uint s"
    using s uint64_bounds [of s] pos_mod_bound [OF s, of k] pos_mod_sign [OF s, of k]
    by (simp add: uint_word_of_int)
  then show ?thesis using smod_fix [OF s, of k] by (simp add: CanonicalResidue_def Let_def)
qed

lemma int_AbsoluteDifference: "int (AbsoluteDifference a b) = \<bar>a - b\<bar>"
  by (simp add: AbsoluteDifference_def)

lemma AbsoluteDifference_dvd: "m dvd AbsoluteDifference a b \<longleftrightarrow> int m dvd a - b"
  by (simp add: int_AbsoluteDifference flip: int_dvd_int_iff)

lemma of_nat_stride: "m \<le> 18446744073709551615 \<Longrightarrow> uint (of_nat m :: 64 word) = int m"
  by (simp add: uint_nat unat_of_nat)

section \<open>What a congruence says\<close>

definition cong_holds :: "SIntCongruence option \<Rightarrow> int \<Rightarrow> bool" where
  "cong_holds c k \<longleftrightarrow> (case c of None \<Rightarrow> True
     | Some c \<Rightarrow> 1 < uint (stride c) \<longrightarrow> k mod uint (stride c) = uint (residue c) mod uint (stride c))"

definition cong_wf :: "SIntCongruence option \<Rightarrow> bool" where
  "cong_wf c \<longleftrightarrow> (case c of None \<Rightarrow> True
     | Some c \<Rightarrow> 1 < uint (stride c) \<and> uint (residue c) < uint (stride c))"

definition exact_holds :: "SInt list option \<Rightarrow> SInt \<Rightarrow> bool" where
  "exact_holds e v \<longleftrightarrow> (case e of None \<Rightarrow> True | Some vs \<Rightarrow> vs = [] \<or> v \<in> set vs)"

definition summary_holds :: "CongruenceSummary \<Rightarrow> int \<Rightarrow> bool" where
  "summary_holds s k \<longleftrightarrow> (constrained s \<longrightarrow> int (modulo s) dvd k - representative s)"

definition values_ok :: "IntWidth \<Rightarrow> SInt list option \<Rightarrow> bool" where
  "values_ok w e \<longleftrightarrow> (case e of None \<Rightarrow> True | Some vs \<Rightarrow> list_all (\<lambda>v. SInt_wf v \<and> width v = w) vs)"

lemma cong_simps [simp]:
  "cong_holds None k" "cong_wf None"
  "cong_wf (Some c) \<longleftrightarrow> 1 < uint (stride c) \<and> uint (residue c) < uint (stride c)"
  by (simp_all add: cong_holds_def cong_wf_def)

lemma cong_holds_Some:
  "cong_wf (Some c) \<Longrightarrow> cong_holds (Some c) k \<longleftrightarrow> k mod uint (stride c) = uint (residue c)"
  by (simp add: cong_holds_def mod_pos_pos_trivial)

lemma cong_holds_dvd:
  "1 < uint (stride c) \<Longrightarrow> cong_holds (Some c) k \<longleftrightarrow> uint (stride c) dvd k - uint (residue c)"
  by (simp add: cong_holds_def mod_eq_dvd_iff)

lemma values_ok_simps [simp]:
  "values_ok w None" "values_ok w (Some vs) \<longleftrightarrow> (\<forall>v \<in> set vs. SInt_wf v \<and> width v = w)"
  by (auto simp: values_ok_def list_all_iff)

lemma IsUseful_iff: "SC_IsUseful c \<longleftrightarrow> 1 < uint (stride c)"
  by (simp add: SC_IsUseful_def word_less_def)

lemma NormalizeCongruence_wf: "cong_wf (NormalizeCongruence c)"
  by (auto simp: NormalizeCongruence_def IsUseful_iff uint_mod split: option.splits)

lemma NormalizeCongruence_holds: "cong_holds (NormalizeCongruence c) k \<longleftrightarrow> cong_holds c k"
  by (auto simp: NormalizeCongruence_def IsUseful_iff uint_mod cong_holds_def split: option.splits)

lemma NormalizeCongruence_id: "cong_wf c \<Longrightarrow> NormalizeCongruence c = c"
  by (auto simp: NormalizeCongruence_def IsUseful_iff word_uint_eq_iff uint_mod mod_pos_pos_trivial
      intro!: SIntCongruence.equality split: option.splits)

lemma fold_gcd_dvd:
  "foldl (\<lambda>m x. GcdWide m (f x)) m0 xs dvd m0 \<and> (\<forall>x \<in> set xs. foldl (\<lambda>m x. GcdWide m (f x)) m0 xs dvd f x)"
proof (induction xs arbitrary: m0)
  case (Cons x xs)
  then show ?case by (auto simp: GcdWide_gcd intro: dvd_trans)
qed simp

lemma DescribeCongruence_holds:
  assumes "values_ok w e" "SInt_wf v" "exact_holds e v" "cong_holds c (rd (\<not> uns) v)"
  shows "summary_holds (DescribeCongruence e c uns) (rd (\<not> uns) v)"
proof (cases "\<exists>x xs. e = Some (x # xs)")
  case True
  then obtain x xs where e: "e = Some (x # xs)" by blast
  let ?k = "\<lambda>y. ToMathematicalInteger y uns"
  let ?m = "foldl (\<lambda>m y. GcdWide m (AbsoluteDifference (?k x) (?k y))) 0 xs"
  have v: "v = x \<or> v \<in> set xs" using assms(3) e by (simp add: exact_holds_def)
  have "int ?m dvd ?k v - ?k x"
  proof (cases "v = x")
    case False
    then have "v \<in> set xs" using v by simp
    then have "?m dvd AbsoluteDifference (?k x) (?k v)"
      using fold_gcd_dvd [of "\<lambda>y. AbsoluteDifference (?k x) (?k y)" 0 xs] by blast
    then have "int ?m dvd ?k x - ?k v" by (simp add: AbsoluteDifference_dvd)
    then show ?thesis by (simp only: dvd_diff_commute)
  qed simp
  then show ?thesis using assms(2)
    by (simp add: e DescribeCongruence_def summary_holds_def Let_def NoSummary_def ToMathematicalInteger_rd)
next
  case False
  then have "DescribeCongruence e c uns = (case NormalizeCongruence c of None \<Rightarrow> NoSummary
      | Some c \<Rightarrow> \<lparr>constrained = True, modulo = unat (stride c), representative = uint (residue c)\<rparr>)"
    by (auto simp: DescribeCongruence_def split: option.split list.split)
  moreover have "cong_wf (NormalizeCongruence c)" "cong_holds (NormalizeCongruence c) (rd (\<not> uns) v)"
    using assms(4) NormalizeCongruence_wf NormalizeCongruence_holds by auto
  ultimately show ?thesis
    by (cases "NormalizeCongruence c") (simp_all add: summary_holds_def NoSummary_def cong_holds_dvd)
qed

lemma stride_of_modulus:
  assumes "1 < m" "m \<le> 18446744073709551615"
  shows "cong_wf (Some \<lparr>stride = of_nat m, residue = CanonicalResidue r (of_nat m)\<rparr>)"
    "cong_holds (Some \<lparr>stride = of_nat m, residue = CanonicalResidue r (of_nat m)\<rparr>) k \<longleftrightarrow> int m dvd k - r"
  using assms by (simp_all add: of_nat_stride uint_CanonicalResidue cong_holds_def mod_eq_dvd_iff)

lemma InferCongruenceFromExactValues_holds:
  assumes "values_ok w e" "SInt_wf v" "exact_holds e v"
  shows "cong_wf (InferCongruenceFromExactValues e uns)"
    "cong_holds (InferCongruenceFromExactValues e uns) (rd (\<not> uns) v)"
  using DescribeCongruence_holds [OF assms, of None uns]
  by (auto simp: InferCongruenceFromExactValues_def Let_def stride_of_modulus summary_holds_def
      simp del: cong_simps(3))

lemma InferCongruenceFromExactValues_wf: "cong_wf (InferCongruenceFromExactValues e uns)"
  by (auto simp: InferCongruenceFromExactValues_def Let_def stride_of_modulus simp del: cong_simps(3))

text \<open>The merged congruence holds of what either side says.\<close>

definition part_holds :: "SInt list option \<Rightarrow> SIntCongruence option \<Rightarrow> bool \<Rightarrow> SInt \<Rightarrow> bool" where
  "part_holds e c uns v \<longleftrightarrow> SInt_wf v \<and> exact_holds e v \<and> cong_holds c (rd (\<not> uns) v)"

lemma either_part:
  assumes "values_ok w e" "part_holds e c uns v"
  shows "cong_holds (case InferCongruenceFromExactValues e uns of Some c' \<Rightarrow> Some c' | None \<Rightarrow> NormalizeCongruence c)
    (rd (\<not> uns) v)"
  using InferCongruenceFromExactValues_holds(2) [OF assms(1), of v uns] assms(2)
  by (auto simp: part_holds_def NormalizeCongruence_holds split: option.split)

lemma merged_summaries:
  assumes "summary_holds a k \<or> summary_holds b k" "constrained a" "constrained b"
  shows "int (GcdWide (GcdWide (modulo a) (modulo b)) (AbsoluteDifference (representative a) (representative b)))
    dvd k - representative a"
proof -
  let ?g = "gcd (gcd (modulo a) (modulo b)) (AbsoluteDifference (representative a) (representative b))"
  have g: "?g dvd modulo a" "?g dvd modulo b" by (auto intro: dvd_trans)
  have d: "int ?g dvd representative a - representative b"
    unfolding AbsoluteDifference_dvd [symmetric] by (rule gcd_dvd2)
  show ?thesis
  proof (cases "summary_holds a k")
    case True
    then have "int (modulo a) dvd k - representative a" using assms(2) by (simp add: summary_holds_def)
    then show ?thesis using g(1) by (metis GcdWide_gcd dvd_trans int_dvd_int_iff)
  next
    case False
    then have "int (modulo b) dvd k - representative b" using assms by (simp add: summary_holds_def)
    then have "int ?g dvd k - representative b" using g(2) by (meson dvd_trans int_dvd_int_iff)
    then have "int ?g dvd (k - representative b) - (representative a - representative b)"
      using d by (rule dvd_diff)
    then show ?thesis by (simp add: GcdWide_gcd)
  qed
qed

lemma MergeCongruences_wf: "cong_wf (MergeSIntCongruencesForUnion a ea ca b eb cb)"
proof -
  have "cong_wf (case InferCongruenceFromExactValues e u of Some x \<Rightarrow> Some x | None \<Rightarrow> NormalizeCongruence c)" for e u c
    using InferCongruenceFromExactValues_wf [of e u] NormalizeCongruence_wf [of c]
    by (cases "InferCongruenceFromExactValues e u") (simp_all del: cong_simps(3))
  then show ?thesis
    by (simp add: MergeSIntCongruencesForUnion_def Let_def stride_of_modulus del: cong_simps(3))
qed

lemma MergeCongruences_holds:
  assumes e: "values_ok w ea" "values_ok w' eb" and u: "SD_IsUnsigned b = SD_IsUnsigned a"
    and v: "\<not> SD_IsBottom a \<and> part_holds ea ca (SD_IsUnsigned a) v \<or>
      \<not> SD_IsBottom b \<and> part_holds eb cb (SD_IsUnsigned b) v"
  shows "cong_holds (MergeSIntCongruencesForUnion a ea ca b eb cb) (rd (\<not> SD_IsUnsigned a) v)"
proof (cases "SD_IsBottom a \<or> SD_IsBottom b \<or> SD_Width a \<noteq> SD_Width b")
  case True
  note pa = either_part [OF e(1), of ca "SD_IsUnsigned a" v] and pb = either_part [OF e(2), of cb "SD_IsUnsigned b" v]
  consider "SD_IsBottom a" | "\<not> SD_IsBottom a" "SD_IsBottom b" | "\<not> SD_IsBottom a" "\<not> SD_IsBottom b" by blast
  then show ?thesis
  proof cases
    case 1
    then have "part_holds eb cb (SD_IsUnsigned b) v" using v by simp
    from pb [OF this] show ?thesis using 1 u by (simp add: MergeSIntCongruencesForUnion_def)
  next
    case 2
    then have "part_holds ea ca (SD_IsUnsigned a) v" using v by simp
    from pa [OF this] show ?thesis using 2 by (simp add: MergeSIntCongruencesForUnion_def)
  next
    case 3
    then show ?thesis using True by (simp add: MergeSIntCongruencesForUnion_def)
  qed
next
  case False
  let ?a = "DescribeCongruence ea ca (SD_IsUnsigned a)" and ?b = "DescribeCongruence eb cb (SD_IsUnsigned a)"
  have "summary_holds ?a (rd (\<not> SD_IsUnsigned a) v) \<or> summary_holds ?b (rd (\<not> SD_IsUnsigned a) v)"
    using DescribeCongruence_holds [OF e(1), of v ca "SD_IsUnsigned a"]
      DescribeCongruence_holds [OF e(2), of v cb "SD_IsUnsigned b"] v unfolding part_holds_def u by blast
  from merged_summaries [OF this] show ?thesis using False u
    by (auto simp: MergeSIntCongruencesForUnion_def Let_def stride_of_modulus simp del: cong_simps(3))
qed

lemma uint_abs_diff: "uint (if b \<le> a then a - b else b - a :: 64 word) = \<bar>uint a - uint b\<bar>"
  by (auto simp: word_le_def uint_sub_if')

lemma gcd_stride:
  assumes "1 < uint (a :: 64 word)"
  shows "uint (of_nat (gcd (unat a) (unat b)) :: 64 word) = gcd (uint a) (uint b)"
proof -
  have ia: "int (unat a) = uint a" by simp
  then have "0 < unat a" using assms by linarith
  then have "gcd (unat a) (unat b) \<le> unat a" by (intro gcd_le1_nat) simp
  with ia have "gcd (unat a) (unat b) \<le> 18446744073709551615" using uint64_bounds [of a] by linarith
  then show ?thesis by (simp add: of_nat_stride flip: gcd_int_int_eq)
qed

lemma IntersectCongruences_sound:
  assumes "cong_holds l k" "cong_holds r k"
  shows "snd (IntersectSIntCongruences l r)" "cong_holds (fst (IntersectSIntCongruences l r)) k"
proof -
  let ?l = "NormalizeCongruence l" and ?r = "NormalizeCongruence r"
  have h: "cong_wf ?l" "cong_wf ?r" "cong_holds ?l k" "cong_holds ?r k"
    using assms by (simp_all add: NormalizeCongruence_wf NormalizeCongruence_holds)
  have comp: "(if residue a \<ge> residue b then residue a - residue b else residue b - residue a) mod
      of_nat (gcd (unat (stride a)) (unat (stride b))) = 0"
    if ab: "?l = Some a" "?r = Some b" for a b
  proof -
    have s: "1 < uint (stride a)" "1 < uint (stride b)" using h(1,2) ab by simp_all
    have "gcd (uint (stride a)) (uint (stride b)) dvd k - uint (residue a)"
      "gcd (uint (stride a)) (uint (stride b)) dvd k - uint (residue b)"
      using h(3,4) ab s dvd_trans [OF gcd_dvd1] dvd_trans [OF gcd_dvd2] by (simp_all add: cong_holds_dvd)
    then have "gcd (uint (stride a)) (uint (stride b)) dvd \<bar>uint (residue a) - uint (residue b)\<bar>"
      using dvd_diff [of _ "k - uint (residue b)" "k - uint (residue a)"] by simp
    then have "uint ((if residue a \<ge> residue b then residue a - residue b else residue b - residue a) mod
      (of_nat (gcd (unat (stride a)) (unat (stride b))) :: 64 word)) = 0"
      by (simp only: uint_mod uint_abs_diff gcd_stride [OF s(1)]) (rule dvd_imp_mod_0)
    then show ?thesis by (simp add: word_uint_eq_iff)
  qed
  have "snd (IntersectSIntCongruences l r) \<and> cong_holds (fst (IntersectSIntCongruences l r)) k"
  proof (cases "?l = None \<or> ?r = None")
    case True
    then show ?thesis using h(3,4) by (auto simp: IntersectSIntCongruences_def split: option.split)
  next
    case False
    then obtain a b where ab: "?l = Some a" "?r = Some b" by auto
    then show ?thesis using h(3,4) comp [OF ab] by (simp add: IntersectSIntCongruences_def Let_def)
  qed
  then show "snd (IntersectSIntCongruences l r)" "cong_holds (fst (IntersectSIntCongruences l r)) k" by simp_all
qed

lemma IntersectCongruences_wf: "cong_wf (fst (IntersectSIntCongruences l r))"
  using NormalizeCongruence_wf [of l] NormalizeCongruence_wf [of r]
  by (cases "NormalizeCongruence l"; cases "NormalizeCongruence r")
    (simp_all add: IntersectSIntCongruences_def Let_def del: cong_simps(3))

end
