(* ===== verification/SInt_KnownBits.thy ===== *)
theory SInt_KnownBits
  imports SInt_Congruence Bit_Counters
begin

text \<open>
  The known-bits component of an integer range (\<^verbatim>\<open>SIntKnownBits\<close> of
  \<^verbatim>\<open>ValueRangeAnalysis.h\<close>, its functions in \<^verbatim>\<open>ValueRangeAnalysis.cpp\<close>): a mask of the
  bits known to be zero and one of the bits known to be one, inferred from exact values, from
  a congruence and from an interval, met, joined, and turned back into a domain.
\<close>

record SIntKnownBits =
  knownZero :: "64 word"
  knownOne :: "64 word"

definition KB_make :: "64 word \<Rightarrow> 64 word \<Rightarrow> SIntKnownBits" where
  "KB_make z o' = \<lparr>knownZero = z, knownOne = o'\<rparr>"

definition KB_IsUseful :: "SIntKnownBits \<Rightarrow> bool" where
  "KB_IsUseful b \<longleftrightarrow> knownZero b \<noteq> 0 \<or> knownOne b \<noteq> 0"

definition GetSIntWidthMask :: "IntWidth \<Rightarrow> 64 word" where
  "GetSIntWidthMask w = (if w = I64 then - 1 else push_bit (bw w) 1 - 1)"

definition NormalizeKnownBits :: "SIntKnownBits option \<Rightarrow> IntWidth \<Rightarrow> SIntKnownBits option" where
  "NormalizeKnownBits knownBits w =
     (case knownBits of None \<Rightarrow> None
      | Some b \<Rightarrow>
          let msk = GetSIntWidthMask w;
              b = KB_make (knownZero b AND msk) (knownOne b AND msk)
          in if knownZero b AND knownOne b \<noteq> 0 \<or> \<not> KB_IsUseful b then None else Some b)"

section \<open>Inference\<close>

definition InferKnownBitsFromExactValues :: "SInt list option \<Rightarrow> IntWidth \<Rightarrow> SIntKnownBits option" where
  "InferKnownBitsFromExactValues exactValues w =
     (case exactValues of None \<Rightarrow> None
      | Some vs \<Rightarrow>
          if vs = [] then None
          else
            let msk = GetSIntWidthMask w;
                (commonOne, anyOne) =
                  foldl (\<lambda>(commonOne, anyOne) v.
                    let raw = SInt_UVal v AND msk in (commonOne AND raw, anyOne OR raw)) (msk, 0) vs
            in NormalizeKnownBits (Some (KB_make (NOT anyOne AND msk) commonOne)) w)"

definition InferKnownBitsFromCongruence :: "SIntCongruence option \<Rightarrow> IntWidth \<Rightarrow> SIntKnownBits option" where
  "InferKnownBitsFromCongruence congruence w =
     (case NormalizeCongruence congruence of None \<Rightarrow> None
      | Some c \<Rightarrow>
          let fixedLowBits = Ctz (stride c)
          in if fixedLowBits = 0 then None
             else
               let lowMask = push_bit fixedLowBits 1 - 1;
                   one = residue c AND lowMask
               in NormalizeKnownBits (Some (KB_make (NOT one AND lowMask) one)) w)"

text \<open>The bits below the highest one that differs between the two ends of the interval.\<close>

definition smear :: "64 word \<Rightarrow> 64 word" where
  "smear varyingMask =
     (let m = varyingMask;
          m = m OR drop_bit 1 m;
          m = m OR drop_bit 2 m;
          m = m OR drop_bit 4 m;
          m = m OR drop_bit 8 m;
          m = m OR drop_bit 16 m
      in m OR drop_bit 32 m)"

definition KnownBitsBetween :: "64 word \<Rightarrow> 64 word \<Rightarrow> IntWidth \<Rightarrow> SIntKnownBits option" where
  "KnownBitsBetween minimum maximum w =
     (let widthMask = GetSIntWidthMask w;
          minimum = minimum AND widthMask;
          maximum = maximum AND widthMask;
          varyingMask = smear (minimum XOR maximum);
          fixedMask = widthMask AND NOT varyingMask
      in NormalizeKnownBits (Some (KB_make (NOT minimum AND fixedMask) (minimum AND fixedMask))) w)"

definition InferKnownBitsFromInterval :: "SIntDomain \<Rightarrow> SIntKnownBits option" where
  "InferKnownBitsFromInterval d =
     (if SD_IsBottom d then None
      else
        let interval = SD_NumericBound d
        in if SD_IsUnsigned d then
             (if CR_IsWrappedSet interval then None
              else KnownBitsBetween (SInt_UVal (CR_UMinValue interval)) (SInt_UVal (CR_UMaxValue interval))
                (SD_Width d))
           else if CR_IsSignWrappedSet interval then None
           else
             let signedMinimum = CR_SMinValue interval; signedMaximum = CR_SMaxValue interval
             in if SInt_Slt_i signedMinimum 0 \<noteq> SInt_Slt_i signedMaximum 0 then None
                else KnownBitsBetween (SInt_UVal signedMinimum) (SInt_UVal signedMaximum) (SD_Width d))"

definition IntersectSIntKnownBits ::
  "SIntKnownBits option \<Rightarrow> SIntKnownBits option \<Rightarrow> IntWidth \<Rightarrow> SIntKnownBits option \<times> bool" where
  "IntersectSIntKnownBits lhs rhs w =
     (case NormalizeKnownBits lhs w of None \<Rightarrow> (NormalizeKnownBits rhs w, True)
      | Some l \<Rightarrow>
          (case NormalizeKnownBits rhs w of None \<Rightarrow> (Some l, True)
           | Some r \<Rightarrow>
               let result = KB_make (knownZero l OR knownZero r) (knownOne l OR knownOne r)
               in if knownZero result AND knownOne result \<noteq> 0 then (None, False)
                  else (NormalizeKnownBits (Some result) w, True)))"

definition GetEffectiveKnownBits ::
  "SIntDomain \<Rightarrow> SInt list option \<Rightarrow> SIntCongruence option \<Rightarrow> SIntKnownBits option \<Rightarrow> SIntKnownBits option" where
  "GetEffectiveKnownBits d exactValues congruence explicitKnownBits =
     (let w = SD_Width d;
          (result, compatible) =
            IntersectSIntKnownBits explicitKnownBits (InferKnownBitsFromExactValues exactValues w) w
      in if \<not> compatible then None
         else
           let (result, compatible) =
                 IntersectSIntKnownBits result (InferKnownBitsFromCongruence congruence w) w
           in if \<not> compatible then None
              else fst (IntersectSIntKnownBits result (InferKnownBitsFromInterval d) w))"

definition MergeSIntKnownBitsForUnion ::
  "SIntDomain \<Rightarrow> SIntKnownBits option \<Rightarrow> SIntDomain \<Rightarrow> SIntKnownBits option \<Rightarrow> SIntKnownBits option" where
  "MergeSIntKnownBitsForUnion lhsDomain lhs rhsDomain rhs =
     (if SD_IsBottom lhsDomain then NormalizeKnownBits rhs (SD_Width rhsDomain)
      else if SD_IsBottom rhsDomain then NormalizeKnownBits lhs (SD_Width lhsDomain)
      else if SD_Width lhsDomain \<noteq> SD_Width rhsDomain \<or>
        SD_IsUnsigned lhsDomain \<noteq> SD_IsUnsigned rhsDomain then None
      else
        (case (NormalizeKnownBits lhs (SD_Width lhsDomain), NormalizeKnownBits rhs (SD_Width rhsDomain)) of
           (Some l, Some r) \<Rightarrow>
             NormalizeKnownBits (Some (KB_make (knownZero l AND knownZero r) (knownOne l AND knownOne r)))
               (SD_Width lhsDomain)
         | _ \<Rightarrow> None))"

section \<open>From known bits\<close>

function low_fixed_bits :: "64 word \<Rightarrow> IntWidth \<Rightarrow> nat \<Rightarrow> nat" where
  "low_fixed_bits fixed w n =
     (if n < bw w \<and> fixed AND push_bit n 1 \<noteq> 0 then low_fixed_bits fixed w (n + 1) else n)"
  by pat_completeness auto

termination
  by (relation "measure (\<lambda>(fixed, w, n). bw w - n)") auto

declare low_fixed_bits.simps [simp del]

definition InferCongruenceFromKnownBits :: "SIntKnownBits option \<Rightarrow> IntWidth \<Rightarrow> SIntCongruence option" where
  "InferCongruenceFromKnownBits knownBits w =
     (case NormalizeKnownBits knownBits w of None \<Rightarrow> None
      | Some b \<Rightarrow>
          let fixedLowBits = low_fixed_bits (knownZero b OR knownOne b) w 0
          in if fixedLowBits = 0 \<or> fixedLowBits \<ge> 64 then None
             else
               let s = push_bit fixedLowBits 1
               in Some \<lparr>stride = s, residue = knownOne b AND (s - 1)\<rparr>)"

definition DomainFromKnownBits :: "SIntKnownBits option \<Rightarrow> IntWidth \<Rightarrow> bool \<Rightarrow> SIntDomain" where
  "DomainFromKnownBits knownBits w isUnsigned =
     (case NormalizeKnownBits knownBits w of None \<Rightarrow> SD_Top w isUnsigned
      | Some b \<Rightarrow>
          let msk = GetSIntWidthMask w;
              unknown = NOT (knownZero b OR knownOne b) AND msk;
              signBit = push_bit (bw w - 1) 1
          in if \<not> isUnsigned \<and> unknown AND signBit \<noteq> 0 then SD_Top w False
             else
               let minimum = SInt_make w (knownOne b);
                   maximum = SInt_make w (knownOne b OR unknown);
                   lower = CR_From GE minimum (\<not> isUnsigned);
                   upper = CR_From LE maximum (\<not> isUnsigned)
               in SD_make (CR_IntersectWith lower upper (PreferFromBool isUnsigned)) isUnsigned)"

section \<open>What known bits say\<close>

definition bits_hold :: "IntWidth \<Rightarrow> SIntKnownBits option \<Rightarrow> 64 word \<Rightarrow> bool" where
  "bits_hold w b x \<longleftrightarrow> (case b of None \<Rightarrow> True
     | Some b \<Rightarrow> (\<forall>i < bw w. (bit (knownZero b) i \<longrightarrow> \<not> bit x i) \<and> (bit (knownOne b) i \<longrightarrow> bit x i)))"

definition bits_wf :: "IntWidth \<Rightarrow> SIntKnownBits option \<Rightarrow> bool" where
  "bits_wf w b \<longleftrightarrow> NormalizeKnownBits b w = b"

lemma bits_hold_simps [simp]:
  "bits_hold w None x"
  "bits_hold w (Some b) x \<longleftrightarrow>
     (\<forall>i < bw w. (bit (knownZero b) i \<longrightarrow> \<not> bit x i) \<and> (bit (knownOne b) i \<longrightarrow> bit x i))"
  by (simp_all add: bits_hold_def)

lemma KB_make_simps [simp]: "knownZero (KB_make z a) = z" "knownOne (KB_make z a) = a"
  by (simp_all add: KB_make_def)

lemma bit_push1_minus1: "n < 64 \<Longrightarrow> bit (push_bit n 1 - 1 :: 64 word) i \<longleftrightarrow> i < n"
proof -
  assume n: "n < 64"
  have "(push_bit n 1 - 1 :: 64 word) = mask n" by (simp add: mask_eq_decr_exp push_bit_eq_mult)
  then show ?thesis using n by (auto simp: bit_mask_iff possible_bit_def)
qed

lemma WidthMask_mask: "GetSIntWidthMask w = mask (bw w)"
  by (cases w) (simp_all add: GetSIntWidthMask_def mask_eq_decr_exp push_bit_eq_mult)

lemma bit_WidthMask: "bit (GetSIntWidthMask w) i \<longleftrightarrow> i < bw w"
  using bw_bounds [of w] by (auto simp: WidthMask_mask bit_mask_iff possible_bit_def)

lemma wf_bit_width: "SInt_wf v \<Longrightarrow> bit (val v) i \<Longrightarrow> i < bw (width v)"
proof (rule ccontr)
  assume v: "SInt_wf v" "bit (val v) i" "\<not> i < bw (width v)"
  have "take_bit (bw (width v)) (uint (val v)) = uint (val v)"
    using uv_mod_self [OF v(1)] by (simp add: take_bit_eq_mod uv_def modulus_def)
  moreover have "bit (uint (val v)) i" using v(2) bit_lt [OF v(2)] by (simp add: bit_uint_iff)
  ultimately show False using v(3) by (metis bit_take_bit_iff)
qed

lemma NormalizeKnownBits_sound: "bits_hold w b x \<Longrightarrow> bits_hold w (NormalizeKnownBits b w) x"
  by (cases b) (auto simp: NormalizeKnownBits_def Let_def bit_and_iff)

text \<open>Normalisation never adds information that contradicts: it keeps the facts of the width or
  drops them all.\<close>

lemma NormalizeKnownBits_Some:
  assumes "NormalizeKnownBits b w = Some n"
  obtains b' where "b = Some b'" "\<And>i. bit (knownZero n) i \<longleftrightarrow> bit (knownZero b') i \<and> i < bw w"
    "\<And>i. bit (knownOne n) i \<longleftrightarrow> bit (knownOne b') i \<and> i < bw w"
    "\<And>i. \<not> (bit (knownZero n) i \<and> bit (knownOne n) i)"
proof (cases b)
  case (Some b')
  then have n: "n = KB_make (knownZero b' AND GetSIntWidthMask w) (knownOne b' AND GetSIntWidthMask w)"
    "knownZero n AND knownOne n = 0"
    using assms by (auto simp: NormalizeKnownBits_def Let_def split: if_splits)
  have "\<not> (bit (knownZero n) i \<and> bit (knownOne n) i)" for i
    using n(2) by (metis bit_and_iff bit_0_eq bot_apply bot_bool_def)
  then show thesis using that [OF Some] n(1) by (simp add: bit_and_iff bit_WidthMask)
qed (use assms in \<open>simp add: NormalizeKnownBits_def\<close>)

lemma NormalizeKnownBits_idem: "NormalizeKnownBits (NormalizeKnownBits b w) w = NormalizeKnownBits b w"
proof (cases "NormalizeKnownBits b w")
  case (Some n)
  then have "knownZero n AND GetSIntWidthMask w = knownZero n" "knownOne n AND GetSIntWidthMask w = knownOne n"
    "knownZero n AND knownOne n = 0" "KB_IsUseful n"
    by (auto simp: NormalizeKnownBits_def Let_def split: option.splits if_splits)
  then show ?thesis unfolding Some
    by (cases n) (simp add: NormalizeKnownBits_def Let_def KB_make_def)
qed (simp add: NormalizeKnownBits_def)

lemma NormalizeKnownBits_wf: "bits_wf w (NormalizeKnownBits b w)"
  by (simp add: bits_wf_def NormalizeKnownBits_idem)

section \<open>Inference is sound\<close>

lemma exact_bits_fold:
  "foldl (\<lambda>(c, a) v. let raw = SInt_UVal v AND m in (c AND raw, a OR raw)) (c0, a0) vs = (c, a) \<Longrightarrow>
   (bit c i \<longrightarrow> bit c0 i \<and> (\<forall>v \<in> set vs. bit (val v) i)) \<and>
   (bit a0 i \<or> (bit m i \<and> (\<exists>v \<in> set vs. bit (val v) i)) \<longrightarrow> bit a i)"
proof (induction vs arbitrary: c0 a0)
  case (Cons v vs)
  from Cons.prems have "foldl (\<lambda>(c, a) v. let raw = SInt_UVal v AND m in (c AND raw, a OR raw))
      (c0 AND (SInt_UVal v AND m), a0 OR (SInt_UVal v AND m)) vs = (c, a)"
    by (simp add: Let_def)
  from Cons.IH [OF this] show ?case by (auto simp: bit_and_iff bit_or_iff SInt_UVal_def)
qed simp

lemma InferKnownBitsFromExactValues_sound:
  assumes "exact_holds e v"
  shows "bits_hold w (InferKnownBitsFromExactValues e w) (val v)"
proof (cases "e = None \<or> e = Some []")
  case False
  then obtain vs where e: "e = Some vs" "vs \<noteq> []" by auto
  then have v: "v \<in> set vs" using assms by (simp add: exact_holds_def)
  obtain c a where f: "foldl (\<lambda>(c, a) v. let raw = SInt_UVal v AND GetSIntWidthMask w in (c AND raw, a OR raw))
      (GetSIntWidthMask w, 0) vs = (c, a)" by force
  have "bits_hold w (Some (KB_make (NOT a AND GetSIntWidthMask w) c)) (val v)"
    using exact_bits_fold [OF f] v by (auto simp: bit_and_iff bit_not_iff bit_WidthMask)
  then show ?thesis using e f NormalizeKnownBits_sound by (simp add: InferKnownBitsFromExactValues_def Let_def)
qed (auto simp: InferKnownBitsFromExactValues_def)

text \<open>The low bits of an integer are the low bits of any integer congruent to it.\<close>

lemma bits_of_rd:
  assumes "SInt_wf v" "i < bw (width v)"
  shows "bit (val v) i \<longleftrightarrow> bit (rd s v) i"
proof -
  have "take_bit (bw (width v)) (rd s v) = take_bit (bw (width v)) (uint (val v))"
    using sv_mod [OF assms(1)] uv_mod_self [OF assms(1)]
    by (auto simp: rd_def take_bit_eq_mod uv_def modulus_def)
  then have "bit (rd s v) i \<longleftrightarrow> bit (uint (val v)) i"
    using assms(2) by (metis bit_take_bit_iff)
  then show ?thesis using assms(2) bw_bounds [of "width v"] by (simp add: bit_uint_iff)
qed

lemma cong_low_bits:
  fixes k r :: int
  assumes "(2 :: int) ^ n dvd k - r" "i < n"
  shows "bit k i \<longleftrightarrow> bit r i"
proof -
  have "take_bit n k = take_bit n r" using assms(1) by (simp add: take_bit_eq_mod mod_eq_dvd_iff)
  then show ?thesis using assms(2) by (metis bit_take_bit_iff)
qed

lemma Ctz_dvd:
  assumes "s \<noteq> (0 :: 64 word)"
  shows "Ctz s < 64" "(2 :: int) ^ Ctz s dvd uint s"
proof -
  obtain k where k: "low_bit s k" using low_exists [OF assms] by blast
  then have c: "Ctz s = k" "bit s k" "\<And>i. i < k \<Longrightarrow> \<not> bit s i" by (auto simp: Ctz_low low_bit_def)
  show "Ctz s < 64" using c bit_lt by simp
  have "take_bit k s = 0" by (rule bit_word_eqI) (simp add: bit_take_bit_iff c(3))
  then have "take_bit k (uint s) = 0" by (metis unsigned_0 unsigned_take_bit_eq)
  then show "(2 :: int) ^ Ctz s dvd uint s" by (simp add: c(1) take_bit_eq_0_iff)
qed

lemma InferKnownBitsFromCongruence_sound:
  assumes v: "SInt_wf v" "width v = w" and c: "cong_holds c (rd s v)"
  shows "bits_hold w (InferKnownBitsFromCongruence c w) (val v)"
proof (cases "NormalizeCongruence c")
  case (Some n)
  have n: "1 < uint (stride n)" "cong_holds (Some n) (rd s v)"
    using NormalizeCongruence_wf [of c] NormalizeCongruence_holds [of c] c Some by auto
  then have nz: "stride n \<noteq> 0" by auto
  let ?k = "Ctz (stride n)"
  have "(2 :: int) ^ ?k dvd rd s v - uint (residue n)"
    using n Ctz_dvd(2) [OF nz] by (auto simp: cong_holds_dvd intro: dvd_trans)
  then have b: "bit (val v) i \<longleftrightarrow> bit (residue n) i" if "i < ?k" "i < bw w" for i
    using cong_low_bits [OF _ that(1)] bits_of_rd [OF v(1), of i s] that v(2) bw_bounds [of w]
    by (simp add: bit_uint_iff)
  have "bits_hold w (Some (KB_make (NOT (residue n AND (push_bit ?k 1 - 1)) AND (push_bit ?k 1 - 1))
      (residue n AND (push_bit ?k 1 - 1)))) (val v)"
    using b bit_push1_minus1 [OF Ctz_dvd(1) [OF nz]]
    by (simp only: bits_hold_simps KB_make_simps bit_and_iff bit_not_iff) blast
  then show ?thesis using Some NormalizeKnownBits_sound by (simp add: InferKnownBitsFromCongruence_def Let_def)
qed (simp add: InferKnownBitsFromCongruence_def)

text \<open>Smearing sets every bit below a set one.\<close>

lemma smear_step:
  "(\<And>i. bit m i \<longleftrightarrow> (\<exists>d < n. bit x (i + d))) \<Longrightarrow>
   bit (m OR drop_bit n m :: 64 word) i \<longleftrightarrow> (\<exists>d < 2 * n. bit (x :: 64 word) (i + d))"
proof -
  assume m: "\<And>i. bit m i \<longleftrightarrow> (\<exists>d < n. bit x (i + d))"
  have "(\<exists>d < 2 * n. bit x (i + d)) \<longleftrightarrow> (\<exists>d < n. bit x (i + d)) \<or> (\<exists>d < n. bit x (n + i + d))"
  proof
    assume "\<exists>d < 2 * n. bit x (i + d)"
    then obtain d where d: "d < 2 * n" "bit x (i + d)" by blast
    show "(\<exists>d < n. bit x (i + d)) \<or> (\<exists>d < n. bit x (n + i + d))"
    proof (cases "d < n")
      case False
      then have "d - n < n" "bit x (n + i + (d - n))" using d by (simp_all add: add.commute add.left_commute)
      then show ?thesis by blast
    qed (use d in blast)
  next
    assume "(\<exists>d < n. bit x (i + d)) \<or> (\<exists>d < n. bit x (n + i + d))"
    then show "\<exists>d < 2 * n. bit x (i + d)"
    proof (elim disjE exE conjE)
      fix d assume "d < n" "bit x (n + i + d)"
      then show ?thesis by (intro exI [of _ "n + d"]) (simp add: ac_simps)
    next
      fix d assume "d < n" "bit x (i + d)"
      then show ?thesis by (intro exI [of _ d]) simp
    qed
  qed
  then show ?thesis using m by (simp add: bit_or_iff bit_drop_bit_eq)
qed

lemma bit_smear: "bit (smear x) i \<longleftrightarrow> (\<exists>j \<ge> i. bit x j)"
proof -
  have 1: "bit (x OR drop_bit 1 x) i \<longleftrightarrow> (\<exists>d < 2. bit x (i + d))" for i
    using smear_step [of x 1 x] by simp
  note 2 = smear_step [of _ 2, simplified mult_2 numeral_plus_numeral add_num_simps, OF 1]
  note 4 = smear_step [of _ 4, simplified mult_2 numeral_plus_numeral add_num_simps, OF 2]
  note 8 = smear_step [of _ 8, simplified mult_2 numeral_plus_numeral add_num_simps, OF 4]
  note 16 = smear_step [of _ 16, simplified mult_2 numeral_plus_numeral add_num_simps, OF 8]
  note 32 = smear_step [of _ 32, simplified mult_2 numeral_plus_numeral add_num_simps, OF 16]
  have s: "bit (smear x) i \<longleftrightarrow> (\<exists>d < 64. bit x (i + d))"
    unfolding smear_def Let_def by (rule 32)
  show ?thesis
  proof
    assume "\<exists>j \<ge> i. bit x j"
    then obtain j where j: "i \<le> j" "bit x j" by blast
    then have "j - i < 64" "bit x (i + (j - i))" using bit_lt [OF j(2)] by auto
    then show "bit (smear x) i" unfolding s by blast
  next
    assume "bit (smear x) i"
    then show "\<exists>j \<ge> i. bit x j" unfolding s by (auto intro: le_add1)
  qed
qed

lemma between_high_bits:
  assumes "a \<le> x" "x \<le> (b :: 64 word)" "\<And>j. i \<le> j \<Longrightarrow> bit a j = bit b j"
  shows "bit x i = bit a i"
proof -
  have "drop_bit i a = drop_bit i b" by (rule bit_word_eqI) (simp add: bit_drop_bit_eq assms(3))
  then have ab: "uint a div 2 ^ i = uint b div 2 ^ i" by (simp flip: uint_drop_bit64)
  have "uint a div 2 ^ i \<le> uint x div 2 ^ i" "uint x div 2 ^ i \<le> uint b div 2 ^ i"
    using assms(1,2) by (simp_all add: word_le_def zdiv_mono1)
  then have "drop_bit i x = drop_bit i a" using ab by (simp add: word_uint_eq_iff uint_drop_bit64)
  then have "bit (drop_bit i x) 0 = bit (drop_bit i a) 0" by simp
  then show ?thesis by (simp add: bit_drop_bit_eq)
qed

lemma KnownBitsBetween_sound:
  assumes w: "\<And>i. bit a i \<Longrightarrow> i < bw w" "\<And>i. bit b i \<Longrightarrow> i < bw w"
    and x: "uint a \<le> uint x" "uint x \<le> uint b"
  shows "bits_hold w (KnownBitsBetween a b w) x"
proof -
  have m: "a AND GetSIntWidthMask w = a" "b AND GetSIntWidthMask w = b"
    using w by (auto intro!: bit_word_eqI simp: bit_and_iff bit_WidthMask)
  have f: "bit (GetSIntWidthMask w AND NOT (smear (a XOR b))) i \<Longrightarrow> bit x i = bit a i" for i
    using x by (intro between_high_bits [of a x b])
      (auto simp: word_le_def bit_and_iff bit_not_iff bit_smear bit_xor_iff)
  then have "bits_hold w (Some (KB_make (NOT a AND (GetSIntWidthMask w AND NOT (smear (a XOR b))))
      (a AND (GetSIntWidthMask w AND NOT (smear (a XOR b)))))) x"
    by (auto simp: bit_and_iff [of "NOT a"] bit_and_iff [of a] bit_not_iff)
  from NormalizeKnownBits_sound [OF this] show ?thesis by (simp only: KnownBitsBetween_def Let_def m)
qed

lemma Slt_i_zero: "SInt_wf x \<Longrightarrow> SInt_Slt_i x 0 \<longleftrightarrow> sv x < 0"
  by (simp add: SInt_Slt_i_def GetSExtValue_sv)

lemma InferKnownBitsFromInterval_sound:
  assumes d: "CR_wf (numeric d)" and v: "v \<in> CR_gamma (numeric d)"
  shows "bits_hold (SD_Width d) (InferKnownBitsFromInterval d) (val v)"
proof -
  let ?r = "numeric d"
  have w: "SInt_wf v" "width v = SD_Width d" using gamma_wf [OF v] gamma_width [OF v] by (simp_all add: SD_Width_def)
  note m = minmax_simps [OF d] and ub = UMaxMin_bounds [OF d v] and sb = SMaxMin_bounds [OF d v]
  have bits: "\<And>i. bit (val y) i \<Longrightarrow> i < bw (SD_Width d)" if "SInt_wf y" "width y = CR_Width ?r" for y
    using wf_bit_width [OF that(1)] that(2) by (simp add: SD_Width_def)
  have neg: "uv (CR_SMinValue ?r) \<le> uv v \<and> uv v \<le> uv (CR_SMaxValue ?r)"
    if "(sv (CR_SMinValue ?r) < 0) = (sv (CR_SMaxValue ?r) < 0)"
    using that sb m uv_sv [of v] uv_sv [of "CR_SMinValue ?r"] uv_sv [of "CR_SMaxValue ?r"] w
    by (auto simp: SD_Width_def split: if_splits)
  have same: "SInt_Slt_i (CR_SMinValue ?r) 0 = SInt_Slt_i (CR_SMaxValue ?r) 0 \<longleftrightarrow>
      (sv (CR_SMinValue ?r) < 0) = (sv (CR_SMaxValue ?r) < 0)"
    using m by (simp add: Slt_i_zero)
  have b: "bits_hold (SD_Width d) (KnownBitsBetween (val p) (val q) (SD_Width d)) (val v)"
    if "SInt_wf p" "width p = CR_Width ?r" "SInt_wf q" "width q = CR_Width ?r" "uv p \<le> uv v" "uv v \<le> uv q" for p q
    using that bits by (intro KnownBitsBetween_sound) (auto simp flip: uv_def)
  show ?thesis
    using neg b [OF m(3,4,1,2)] b [OF m(7,8,5,6)] ub
    by (simp add: InferKnownBitsFromInterval_def Let_def SD_NumericBound_def SInt_UVal_def same)
qed

section \<open>Meet and join\<close>

lemma IntersectKnownBits_sound:
  assumes "bits_hold w l x" "bits_hold w r x"
  shows "snd (IntersectSIntKnownBits l r w)" "bits_hold w (fst (IntersectSIntKnownBits l r w)) x"
proof -
  let ?l = "NormalizeKnownBits l w" and ?r = "NormalizeKnownBits r w"
  have h: "bits_hold w ?l x" "bits_hold w ?r x" using assms NormalizeKnownBits_sound by auto
  have "snd (IntersectSIntKnownBits l r w) \<and> bits_hold w (fst (IntersectSIntKnownBits l r w)) x"
  proof (cases "?l = None \<or> ?r = None")
    case True
    then show ?thesis using h by (auto simp: IntersectSIntKnownBits_def split: option.split)
  next
    case False
    then obtain a b where ab: "?l = Some a" "?r = Some b" by auto
    have lt: "i < bw w" if "bit (knownZero a) i \<or> bit (knownZero b) i" for i
      using that by (rule disjE) (use ab in \<open>auto elim!: NormalizeKnownBits_Some\<close>)
    have "\<not> bit ((knownZero a OR knownZero b) AND (knownOne a OR knownOne b)) i" for i
      using h ab lt [of i] by (auto simp: bit_and_iff bit_or_iff)
    then have "(knownZero a OR knownZero b) AND (knownOne a OR knownOne b) = 0"
      by (intro bit_word_eqI) auto
    moreover have "bits_hold w (Some (KB_make (knownZero a OR knownZero b) (knownOne a OR knownOne b))) x"
      using h ab by (auto simp: bit_or_iff)
    ultimately show ?thesis using ab NormalizeKnownBits_sound by (simp add: IntersectSIntKnownBits_def Let_def)
  qed
  then show "snd (IntersectSIntKnownBits l r w)" "bits_hold w (fst (IntersectSIntKnownBits l r w)) x" by simp_all
qed

lemma IntersectKnownBits_wf: "bits_wf w (fst (IntersectSIntKnownBits l r w))"
proof (cases "NormalizeKnownBits l w")
  case None
  then show ?thesis using NormalizeKnownBits_wf [of w r] by (simp add: IntersectSIntKnownBits_def)
next
  case (Some a)
  then show ?thesis using NormalizeKnownBits_wf [of w] NormalizeKnownBits_wf [of w l]
    by (cases "NormalizeKnownBits r w")
      (simp_all add: IntersectSIntKnownBits_def Let_def bits_wf_def NormalizeKnownBits_def [of None])
qed

lemma GetEffectiveKnownBits_sound:
  assumes "CR_wf (numeric d)" "v \<in> CR_gamma (numeric d)" "exact_holds e v" "cong_holds c (rd s v)"
    "bits_hold (SD_Width d) b (val v)"
  shows "bits_hold (SD_Width d) (GetEffectiveKnownBits d e c b) (val v)"
proof -
  let ?w = "SD_Width d"
  have v: "SInt_wf v" "width v = ?w"
    using gamma_wf [OF assms(2)] gamma_width [OF assms(2)] by (simp_all add: SD_Width_def)
  obtain r1 k1 where 1: "IntersectSIntKnownBits b (InferKnownBitsFromExactValues e ?w) ?w = (r1, k1)" by force
  obtain r2 k2 where 2: "IntersectSIntKnownBits r1 (InferKnownBitsFromCongruence c ?w) ?w = (r2, k2)" by force
  have "bits_hold ?w r1 (val v)"
    using IntersectKnownBits_sound(2) [OF assms(5) InferKnownBitsFromExactValues_sound [OF assms(3)]] 1 by simp
  then have "bits_hold ?w r2 (val v)"
    using IntersectKnownBits_sound(2) [OF _ InferKnownBitsFromCongruence_sound [OF v assms(4)], of r1] 2 by simp
  then show ?thesis
    using IntersectKnownBits_sound(2) [OF _ InferKnownBitsFromInterval_sound [OF assms(1,2)]] 1 2
    by (simp add: GetEffectiveKnownBits_def Let_def)
qed

lemma MergeKnownBits_sound:
  assumes u: "SD_Width b = SD_Width a"
    and v: "\<not> SD_IsBottom a \<and> bits_hold (SD_Width a) l x \<or> \<not> SD_IsBottom b \<and> bits_hold (SD_Width a) r x"
  shows "bits_hold (SD_Width a) (MergeSIntKnownBitsForUnion a l b r) x"
proof -
  let ?w = "SD_Width a"
  have n: "bits_hold ?w l x \<Longrightarrow> bits_hold ?w (NormalizeKnownBits l ?w) x"
    "bits_hold ?w r x \<Longrightarrow> bits_hold ?w (NormalizeKnownBits r ?w) x" using NormalizeKnownBits_sound by auto
  have j: "bits_hold ?w (NormalizeKnownBits (Some (KB_make (knownZero p AND knownZero q) (knownOne p AND knownOne q))) ?w) x"
    if "bits_hold ?w (Some p) x \<or> bits_hold ?w (Some q) x" for p q
    using that by (intro NormalizeKnownBits_sound) (auto simp: bit_and_iff)
  show ?thesis using v n j u
    by (auto simp: MergeSIntKnownBitsForUnion_def simp del: bits_hold_simps(2) split: option.split)
qed

lemma MergeKnownBits_wf: "SD_Width b = SD_Width a \<Longrightarrow> bits_wf (SD_Width a) (MergeSIntKnownBitsForUnion a l b r)"
  using NormalizeKnownBits_wf by (simp add: MergeSIntKnownBitsForUnion_def bits_wf_def NormalizeKnownBits_idem
      split: option.split) (simp add: NormalizeKnownBits_def)

section \<open>From known bits, soundly\<close>

lemma low_fixed_bits_spec:
  assumes "n \<le> bw w"
  shows "low_fixed_bits fixed w n \<le> bw w \<and> (\<forall>i. n \<le> i \<and> i < low_fixed_bits fixed w n \<longrightarrow> bit fixed i)"
  using assms
proof (induction fixed w n rule: low_fixed_bits.induct)
  case (1 fixed w n)
  have one: "fixed AND push_bit n 1 \<noteq> 0 \<longleftrightarrow> bit fixed n" if "n < bw w"
    using that bw_bounds [of w] by (simp add: bit_iff_and_push_bit_not_eq_0)
  show ?case
  proof (cases "n < bw w \<and> fixed AND push_bit n 1 \<noteq> 0")
    case True
    then have "low_fixed_bits fixed w n = low_fixed_bits fixed w (n + 1)" by (subst low_fixed_bits.simps) simp
    then show ?thesis using 1(1) [OF True] True one by (auto simp: le_Suc_eq Suc_le_eq dest: le_neq_implies_less)
  next
    case False
    then have "low_fixed_bits fixed w n = n" by (subst low_fixed_bits.simps) auto
    then show ?thesis using 1(2) by auto
  qed
qed

lemma uint_pow2: "n < 64 \<Longrightarrow> uint (2 ^ n :: 64 word) = 2 ^ n"
  using power_strict_increasing [of n 64 "2 :: int"] uint_push_bit64 [of n 1] by simp

lemma InferCongruenceFromKnownBits_sound:
  assumes v: "SInt_wf v" "width v = w" and b: "bits_hold w b (val v)"
  shows "cong_wf (InferCongruenceFromKnownBits b w)" "cong_holds (InferCongruenceFromKnownBits b w) (rd s v)"
proof -
  have "cong_wf (InferCongruenceFromKnownBits b w) \<and> cong_holds (InferCongruenceFromKnownBits b w) (rd s v)"
  proof (cases "NormalizeKnownBits b w")
    case (Some n)
    let ?k = "low_fixed_bits (knownZero n OR knownOne n) w 0"
    let ?c = "\<lparr>stride = push_bit ?k 1, residue = knownOne n AND (push_bit ?k 1 - 1)\<rparr>"
    have k: "?k \<le> bw w" "\<And>i. i < ?k \<Longrightarrow> bit (knownZero n) i \<or> bit (knownOne n) i"
      using low_fixed_bits_spec [of 0 w "knownZero n OR knownOne n"] by (auto simp: bit_or_iff)
    have h: "bits_hold w (Some n) (val v)" using NormalizeKnownBits_sound [OF b] Some by simp
    have "cong_wf (Some ?c) \<and> cong_holds (Some ?c) (rd s v)" if "?k \<noteq> 0" "?k < 64"
    proof -
      have m: "(2 ^ ?k - 1 :: 64 word) = mask ?k" by (simp add: mask_eq_decr_exp)
      have r: "uint (knownOne n AND mask ?k) = uint (knownOne n) mod 2 ^ ?k"
        using that by (intro uint_and_mask64) simp
      have "take_bit ?k (rd s v) = take_bit ?k (uint (knownOne n))"
      proof (rule bit_eqI)
        fix i
        have "bit (rd s v) i \<longleftrightarrow> bit (uint (knownOne n)) i" if i: "i < ?k"
        proof -
          have "i < bw w" "i < 64" using i k(1) bw_bounds [of w] by linarith+
          moreover have "bit (val v) i \<longleftrightarrow> bit (knownOne n) i" using k(2) [OF i] h \<open>i < bw w\<close> by auto
          ultimately show ?thesis using bits_of_rd [OF v(1), of i s] v(2) by (simp add: bit_uint_iff)
        qed
        then show "bit (take_bit ?k (rd s v)) i \<longleftrightarrow> bit (take_bit ?k (uint (knownOne n))) i"
          by (auto simp: bit_take_bit_iff)
      qed
      moreover have "(1 :: int) < 2 ^ ?k" using that(1) by simp
      ultimately show ?thesis
        using that by (simp add: m r uint_pow2 cong_holds_def take_bit_eq_mod)
    qed
    then show ?thesis using Some by (simp add: InferCongruenceFromKnownBits_def Let_def del: cong_simps(3))
  qed (simp add: InferCongruenceFromKnownBits_def)
  then show "cong_wf (InferCongruenceFromKnownBits b w)" "cong_holds (InferCongruenceFromKnownBits b w) (rd s v)"
    by simp_all
qed

lemma InferCongruenceFromKnownBits_wf: "cong_wf (InferCongruenceFromKnownBits b w)"
proof (cases "NormalizeKnownBits b w")
  case (Some n)
  let ?k = "low_fixed_bits (knownZero n OR knownOne n) w 0"
  have "cong_wf (Some \<lparr>stride = push_bit ?k 1, residue = knownOne n AND (push_bit ?k 1 - 1)\<rparr>)"
    if k: "?k \<noteq> 0" "?k < 64"
  proof -
    have m: "(2 ^ ?k - 1 :: 64 word) = mask ?k" by (simp add: mask_eq_decr_exp)
    have r: "uint (knownOne n AND mask ?k) = uint (knownOne n) mod 2 ^ ?k" using k by (intro uint_and_mask64) simp
    have "(1 :: int) < 2 ^ ?k" using k(1) by simp
    then show ?thesis using k by (simp add: m r uint_pow2)
  qed
  then show ?thesis using Some by (simp add: InferCongruenceFromKnownBits_def Let_def del: cong_simps(3))
qed (simp add: InferCongruenceFromKnownBits_def)

lemma bits_le: "(\<And>i. bit (a :: 64 word) i \<Longrightarrow> bit b i) \<Longrightarrow> uint a \<le> uint (b :: 64 word)"
proof -
  assume h: "\<And>i. bit a i \<Longrightarrow> bit b i"
  have "a = b AND a" by (rule bit_word_eqI) (auto simp: bit_and_iff h)
  then have "a \<le> b" by (metis word_and_le1 and.commute)
  then show ?thesis by (simp add: word_le_def)
qed

lemma DomainFromKnownBits_simps [simp]:
  "SD_Width (DomainFromKnownBits b w uns) = w" "unsignedFlag (DomainFromKnownBits b w uns) = uns"
  "symbolics (DomainFromKnownBits b w uns) = []" "SD_wf (DomainFromKnownBits b w uns)"
  by (auto simp: DomainFromKnownBits_def SD_Top_def SD_make_def SD_Width_def SD_wf_def Let_def
      IntersectWith_wf IntersectWith_width From_wf split: option.split)

lemma DomainFromKnownBits_sound:
  assumes v: "SInt_wf v" "width v = w" and b: "bits_hold w b (val v)"
  shows "v \<in> CR_gamma (numeric (DomainFromKnownBits b w uns))"
proof (cases "NormalizeKnownBits b w")
  case (Some n)
  let ?u = "NOT (knownZero n OR knownOne n) AND GetSIntWidthMask w"
  let ?lo = "SInt_make w (knownOne n)" and ?hi = "SInt_make w (knownOne n OR ?u)"
  have h: "bits_hold w (Some n) (val v)" using NormalizeKnownBits_sound [OF b] Some by simp
  have one: "i < bw w" if "bit (knownOne n) i" for i using that Some by (auto elim!: NormalizeKnownBits_Some)
  have mk: "val (SInt_make w x) = x" if "\<And>i. bit x i \<Longrightarrow> i < bw w" for x
  proof -
    have "x AND mask (bw w) = x"
      using that bw_bounds [of w] by (intro bit_word_eqI) (auto simp: bit_and_iff bit_mask_iff possible_bit_def)
    then have "uint x mod modulus w = uint x"
      using uint_and_mask64 [of "bw w" x] bw_bounds [of w] by (simp add: modulus_def)
    then show ?thesis by (simp add: val_eq_iff make_uv)
  qed
  have lo: "val ?lo = knownOne n" using one by (rule mk)
  have hi: "val ?hi = knownOne n OR ?u" using one by (intro mk) (auto simp: bit_or_iff bit_and_iff bit_WidthMask)
  have vb: "i < bw w" if "bit (val v) i" for i using wf_bit_width [OF v(1) that] v(2) by simp
  have ule: "uv ?lo \<le> uv v" "uv v \<le> uv ?hi"
  proof -
    have "bit (val v) i" if "bit (knownOne n) i" for i using that one h by simp
    then show "uv ?lo \<le> uv v" unfolding uv_def lo by (rule bits_le)
    have "bit (knownOne n OR ?u) i" if "bit (val v) i" for i
      using that vb [OF that] bit_lt [OF that] h by (auto simp: bit_or_iff bit_and_iff bit_not_iff bit_WidthMask)
    then show "uv v \<le> uv ?hi" unfolding uv_def hi by (rule bits_le)
  qed
  have le: "rd (\<not> uns) ?lo \<le> rd (\<not> uns) v \<and> rd (\<not> uns) v \<le> rd (\<not> uns) ?hi"
    if s: "uns \<or> ?u AND push_bit (bw w - 1) 1 = 0"
  proof (cases uns)
    case False
    let ?t = "bw w - 1"
    have t: "?t < bw w" "?t < 64" using bw_bounds [of w] by auto
    have "\<not> bit ?u ?t"
      using s False t bit_iff_and_push_bit_not_eq_0 [of ?u ?t] by simp
    then have "bit (knownZero n) ?t \<or> bit (knownOne n) ?t"
      using t by (auto simp: bit_and_iff bit_not_iff bit_or_iff bit_WidthMask)
    then have top: "bit (val v) ?t \<longleftrightarrow> bit (val ?lo) ?t" "bit (val v) ?t \<longleftrightarrow> bit (val ?hi) ?t"
      using h t \<open>\<not> bit ?u ?t\<close> unfolding lo hi bit_or_iff [of "knownOne n" ?u] by auto
    have neg: "sv x < 0 \<longleftrightarrow> bit (val x) ?t" if "SInt_wf x" "width x = w" for x
      using IsNeg_sv [OF that(1)] that(2) t
      by (simp add: SInt_IsNeg_def SInt_IsSignBitSet_def SInt_At_def SInt_index_def SInt_MaskBit_def
          bit_iff_and_push_bit_not_eq_0 and.commute)
    show ?thesis using ule top neg [of v] neg [of ?lo] neg [of ?hi] v False
        uv_sv [of v] uv_sv [of ?lo] uv_sv [of ?hi] by (simp add: rd_def split: if_splits)
  qed (use ule in \<open>simp add: rd_def\<close>)
  show ?thesis
  proof (cases "\<not> uns \<and> ?u AND push_bit (bw w - 1) 1 \<noteq> 0")
    case False
    have "v \<in> CR_gamma (CR_IntersectWith (CR_From GE ?lo (\<not> uns)) (CR_From LE ?hi (\<not> uns)) (PreferFromBool uns))"
      using le False v by (intro IntersectWith_mem) (auto simp: From_wf mem_From)
    then show ?thesis using Some False by (auto simp: DomainFromKnownBits_def Let_def SD_make_def)
  qed (use Some v in \<open>simp add: DomainFromKnownBits_def Let_def SD_Top_def SD_make_def\<close>)
qed (use v in \<open>simp add: DomainFromKnownBits_def SD_Top_def SD_make_def\<close>)

end
