(* ===== verification/Std_Algorithms.thy ===== *)
theory Std_Algorithms
  imports Main
begin

text \<open>
  The algorithms of the C++ standard library the range analysis calls on vectors:
  \<^verbatim>\<open>std::sort\<close> with a comparator, \<^verbatim>\<open>std::unique\<close>, \<^verbatim>\<open>std::remove_if\<close> with a predicate
  that may change the element it keeps, and \<^verbatim>\<open>std::find\<close> with an equality. \<^verbatim>\<open>std::sort\<close> may
  order elements the comparator does not separate in any way; the model keeps their order.
\<close>

fun sort_insert :: "('a \<Rightarrow> 'a \<Rightarrow> bool) \<Rightarrow> 'a \<Rightarrow> 'a list \<Rightarrow> 'a list" where
  "sort_insert lt x [] = [x]"
| "sort_insert lt x (y # ys) = (if lt x y then x # y # ys else y # sort_insert lt x ys)"

definition std_sort :: "('a \<Rightarrow> 'a \<Rightarrow> bool) \<Rightarrow> 'a list \<Rightarrow> 'a list" where
  "std_sort lt xs = foldl (\<lambda>acc x. sort_insert lt x acc) [] xs"

fun std_unique :: "('a \<Rightarrow> 'a \<Rightarrow> bool) \<Rightarrow> 'a list \<Rightarrow> 'a list" where
  "std_unique eq (x # y # ys) =
     (if eq x y then std_unique eq (x # ys) else x # std_unique eq (y # ys))"
| "std_unique eq xs = xs"

text \<open>The predicate yields \<open>None\<close> to remove the element and the changed element to keep it.\<close>

definition std_retain :: "('a \<Rightarrow> 'a option) \<Rightarrow> 'a list \<Rightarrow> 'a list" where
  "std_retain f xs = map the (filter (\<lambda>y. y \<noteq> None) (map f xs))"

definition std_contains :: "('a \<Rightarrow> 'a \<Rightarrow> bool) \<Rightarrow> 'a list \<Rightarrow> 'a \<Rightarrow> bool" where
  "std_contains eq xs x \<longleftrightarrow> list_ex (\<lambda>y. eq y x) xs"

section \<open>Facts\<close>

lemma sort_insert_set [simp]: "set (sort_insert lt x ys) = insert x (set ys)"
  by (induction ys) auto

lemma sort_insert_length [simp]: "length (sort_insert lt x ys) = Suc (length ys)"
  by (induction ys) auto

lemma std_sort_fold:
  "set (foldl (\<lambda>acc x. sort_insert lt x acc) acc xs) = set acc \<union> set xs"
  "length (foldl (\<lambda>acc x. sort_insert lt x acc) acc xs) = length acc + length xs"
  by (induction xs arbitrary: acc) auto

lemma std_sort_set [simp]: "set (std_sort lt xs) = set xs"
  by (simp add: std_sort_def std_sort_fold)

lemma std_sort_length [simp]: "length (std_sort lt xs) = length xs"
  by (simp add: std_sort_def std_sort_fold)

text \<open>A comparator that never goes down in a measure sorts by that measure.\<close>

lemma sort_insert_sorted:
  fixes f :: "'a \<Rightarrow> 'b :: linorder"
  assumes "\<And>x y. lt x y \<Longrightarrow> f x \<le> f y" "\<And>x y. \<not> lt x y \<Longrightarrow> f y \<le> f x"
  shows "sorted (map f ys) \<Longrightarrow> sorted (map f (sort_insert lt x ys))"
proof (induction ys)
  case (Cons y ys)
  show ?case
  proof (cases "lt x y")
    case True
    then show ?thesis using Cons.prems assms(1) [OF True] by (auto intro: order_trans)
  next
    case False
    then show ?thesis using Cons assms(2) [OF False] by auto
  qed
qed simp

lemma std_sort_sorted:
  fixes f :: "'a \<Rightarrow> 'b :: linorder"
  assumes "\<And>x y. lt x y \<Longrightarrow> f x \<le> f y" "\<And>x y. \<not> lt x y \<Longrightarrow> f y \<le> f x"
  shows "sorted (map f (std_sort lt xs))"
proof -
  have "sorted (map f acc) \<Longrightarrow> sorted (map f (foldl (\<lambda>acc x. sort_insert lt x acc) acc xs))" for acc
    by (induction xs arbitrary: acc) (auto intro: sort_insert_sorted assms)
  then show ?thesis by (simp add: std_sort_def)
qed

lemma std_unique_subset: "set (std_unique eq xs) \<subseteq> set xs"
  by (induction eq xs rule: std_unique.induct) auto

lemma std_unique_set:
  "\<forall>x \<in> set xs. \<forall>y \<in> set xs. eq x y \<longrightarrow> x = y \<Longrightarrow> set (std_unique eq xs) = set xs"
proof (induction eq xs rule: std_unique.induct)
  case (1 eq x y ys)
  show ?case
  proof (cases "eq x y")
    case True
    then have "x = y" using 1(3) by simp
    moreover have "set (std_unique eq (x # ys)) = set (x # ys)" using 1(3) by (intro 1(1) [OF True]) simp
    ultimately show ?thesis using True by simp
  next
    case False
    have "set (std_unique eq (y # ys)) = set (y # ys)" using 1(3) by (intro 1(2) [OF False]) simp
    then show ?thesis using False by simp
  qed
qed simp_all

text \<open>On a sorted list the kept elements grow strictly.\<close>

lemma std_unique_strict:
  fixes f :: "'a \<Rightarrow> 'b :: linorder"
  shows "(\<And>x y. eq x y \<longleftrightarrow> f x = f y) \<Longrightarrow> sorted (map f xs) \<Longrightarrow> sorted_wrt (<) (map f (std_unique eq xs))"
proof (induction eq xs rule: std_unique.induct)
  case (1 eq x y ys)
  show ?case
  proof (cases "eq x y")
    case True
    then show ?thesis using 1 by simp
  next
    case False
    then have "f x \<noteq> f y" using 1(3) by simp
    moreover have "f x \<le> f y" using 1(4) by simp
    ultimately have "f x < f y" by (rule order_le_neq_trans [rotated])
    moreover have "\<forall>z \<in> set (std_unique eq (y # ys)). f y \<le> f z"
      using std_unique_subset [of eq "y # ys"] 1(4) by auto
    ultimately show ?thesis using 1(2) [OF False 1(3)] 1(4) False by auto
  qed
qed simp_all

lemma std_retain_set: "set (std_retain f xs) = {y. \<exists>x \<in> set xs. f x = Some y}"
  by (force simp: std_retain_def)

end
