(* ===== verification/Range_Config.thy ===== *)
theory Range_Config
  imports Range_Prelude
begin

text \<open>
  The limits of the range analysis (\<^verbatim>\<open>RangeAnalysisConfig\<close> of
  \<^verbatim>\<open>ValueRangeAnalysis.cpp\<close>) and how they are read from the environment.
  \<^verbatim>\<open>getenv\<close> is a parameter; \<^verbatim>\<open>strtoull\<close> with base 10 is modelled as the C standard
  describes it: leading white space, an optional sign, digits; the value of a negated text
  wraps, a value above \<^verbatim>\<open>ULLONG_MAX\<close> sets \<^verbatim>\<open>errno\<close>. The counters of rejected sets, kept
  for statistics only, are left out.
\<close>

record RangeAnalysisConfig =
  loopWideningStartTimes :: nat
  maxInqueueTimes :: nat
  maxContextPerFunction :: nat
  maxTotalContextSummaries :: nat
  maxContextAnalysisDepth :: nat
  maxExactIntSetSize :: nat
  maxBoundedLoopObservations :: nat
  maxRecordedCallContexts :: nat

definition defaultConfig :: RangeAnalysisConfig where
  "defaultConfig =
     \<lparr>loopWideningStartTimes = 3, maxInqueueTimes = 24, maxContextPerFunction = 16,
      maxTotalContextSummaries = 1024, maxContextAnalysisDepth = 24, maxExactIntSetSize = 64,
      maxBoundedLoopObservations = 1024, maxRecordedCallContexts = 8192\<rparr>"

definition MAX_TOTAL_BOUNDED_LOOP_CONTEXT_SUMMARIES :: nat where
  "MAX_TOTAL_BOUNDED_LOOP_CONTEXT_SUMMARIES = 2048"

section \<open>Reading a number\<close>

definition is_space :: "char \<Rightarrow> bool" where
  "is_space c \<longleftrightarrow> (let n = (of_char c :: nat) in n = 32 \<or> 9 \<le> n \<and> n \<le> 13)"

definition is_digit :: "char \<Rightarrow> bool" where
  "is_digit c \<longleftrightarrow> (let n = (of_char c :: nat) in 48 \<le> n \<and> n \<le> 57)"

definition digit_value :: "char \<Rightarrow> nat" where
  "digit_value c = (of_char c :: nat) - 48"

definition decimal_value :: "string \<Rightarrow> nat" where
  "decimal_value ds = foldl (\<lambda>n c. 10 * n + digit_value c) 0 ds"

record ParsedNumber =
  parsed :: nat
  rest :: string
  converted :: bool
  rangeError :: bool

definition strtoull10 :: "string \<Rightarrow> ParsedNumber" where
  "strtoull10 raw =
     (let body = dropWhile is_space raw;
          negative = (case body of c # _ \<Rightarrow> c = CHR ''-'' | [] \<Rightarrow> False);
          digitsOn = (case body of c # cs \<Rightarrow> if c = CHR ''-'' \<or> c = CHR ''+'' then cs else body | [] \<Rightarrow> []);
          ds = takeWhile is_digit digitsOn;
          n = decimal_value ds
      in if ds = [] then \<lparr>parsed = 0, rest = raw, converted = False, rangeError = False\<rparr>
         else if n > 18446744073709551615 then
           \<lparr>parsed = 18446744073709551615, rest = dropWhile is_digit digitsOn, converted = True, rangeError = True\<rparr>
         else
           \<lparr>parsed = (if negative \<and> n \<noteq> 0 then 18446744073709551616 - n else n),
            rest = dropWhile is_digit digitsOn, converted = True, rangeError = False\<rparr>)"

definition ReadRangeAnalysisConfigValue ::
  "(string \<Rightarrow> string option) \<Rightarrow> string \<Rightarrow> nat \<Rightarrow> nat \<Rightarrow> nat \<Rightarrow> nat" where
  "ReadRangeAnalysisConfigValue getenv name defaultValue minimum maximum =
     (case getenv name of
        None \<Rightarrow> defaultValue
      | Some rawValue \<Rightarrow>
          if rawValue = [] then defaultValue
          else
            let r = strtoull10 rawValue
            in if rangeError r \<or> \<not> converted r \<or> rest r \<noteq> [] \<or> parsed r > 18446744073709551615 then defaultValue
               else if parsed r < minimum \<or> parsed r > maximum then defaultValue
               else parsed r)"

definition LoadRangeAnalysisConfig :: "(string \<Rightarrow> string option) \<Rightarrow> RangeAnalysisConfig" where
  "LoadRangeAnalysisConfig getenv =
     (let read = ReadRangeAnalysisConfigValue getenv;
          c0 = defaultConfig;
          c = \<lparr>loopWideningStartTimes = read ''CJ_RA_WIDEN_START'' (loopWideningStartTimes c0) 2 8,
               maxInqueueTimes = read ''CJ_RA_MAX_INQUEUE'' (maxInqueueTimes c0) 16 64,
               maxContextPerFunction = read ''CJ_RA_CONTEXT_PER_FUNCTION'' (maxContextPerFunction c0) 8 64,
               maxTotalContextSummaries = read ''CJ_RA_TOTAL_CONTEXT_SUMMARIES'' (maxTotalContextSummaries c0) 128 1024,
               maxContextAnalysisDepth = read ''CJ_RA_CONTEXT_DEPTH'' (maxContextAnalysisDepth c0) 4 24,
               maxExactIntSetSize = read ''CJ_RA_EXACT_SET_SIZE'' (maxExactIntSetSize c0) 8 128,
               maxBoundedLoopObservations = read ''CJ_RA_LOOP_OBSERVATIONS'' (maxBoundedLoopObservations c0) 512 8192,
               maxRecordedCallContexts = read ''CJ_RA_RECORDED_CONTEXTS'' (maxRecordedCallContexts c0) 1024 8192\<rparr>
      in if maxInqueueTimes c \<le> loopWideningStartTimes c
         then c\<lparr>loopWideningStartTimes := loopWideningStartTimes defaultConfig,
                maxInqueueTimes := maxInqueueTimes defaultConfig\<rparr>
         else c)"

section \<open>Limits\<close>

definition MaxTotalReachableContextSummaries :: "RangeAnalysisConfig \<Rightarrow> nat" where
  "MaxTotalReachableContextSummaries cfg =
     maxTotalContextSummaries cfg + MAX_TOTAL_BOUNDED_LOOP_CONTEXT_SUMMARIES"

definition MaxContextObjectIdentities :: "RangeAnalysisConfig \<Rightarrow> nat" where
  "MaxContextObjectIdentities cfg = maxTotalContextSummaries cfg * 256"

definition ExceedsExactIntSetLimit :: "RangeAnalysisConfig \<Rightarrow> nat \<Rightarrow> bool" where
  "ExceedsExactIntSetLimit cfg n \<longleftrightarrow> \<not> n \<le> maxExactIntSetSize cfg"

definition ReachedExactIntSetLimit :: "RangeAnalysisConfig \<Rightarrow> nat \<Rightarrow> bool" where
  "ReachedExactIntSetLimit cfg n \<longleftrightarrow> \<not> n < maxExactIntSetSize cfg"

definition ExceedsExactIntSetProduct :: "RangeAnalysisConfig \<Rightarrow> nat \<Rightarrow> nat \<Rightarrow> bool" where
  "ExceedsExactIntSetProduct cfg lhsSize rhsSize \<longleftrightarrow>
     \<not> (rhsSize = 0 \<or> lhsSize \<le> maxExactIntSetSize cfg div rhsSize)"

section \<open>Facts\<close>

lemma ReadConfig_bounds:
  assumes "minimum \<le> defaultValue" "defaultValue \<le> maximum"
  shows "minimum \<le> ReadRangeAnalysisConfigValue getenv name defaultValue minimum maximum"
    "ReadRangeAnalysisConfigValue getenv name defaultValue minimum maximum \<le> maximum"
  using assms by (auto simp: ReadRangeAnalysisConfigValue_def Let_def split: option.split)

lemma ExceedsProduct_iff: "ExceedsExactIntSetProduct cfg m n \<longleftrightarrow> maxExactIntSetSize cfg < m * n"
proof (cases "n = 0")
  case False
  then have "m \<le> maxExactIntSetSize cfg div n \<longleftrightarrow> m * n \<le> maxExactIntSetSize cfg"
    by (simp add: less_eq_div_iff_mult_less_eq)
  then show ?thesis using False by (auto simp: ExceedsExactIntSetProduct_def)
qed (simp add: ExceedsExactIntSetProduct_def)

text \<open>The decimal digits of a number, most significant first, as a user writes them.\<close>

fun decimal :: "nat \<Rightarrow> string" where
  "decimal n = (if n < 10 then [char_of (n + 48)] else decimal (n div 10) @ [char_of (n mod 10 + 48)])"

declare decimal.simps [simp del]

lemma of_char_digit: "d < 10 \<Longrightarrow> (of_char (char_of (d + 48) :: char) :: nat) = d + 48"
  by (simp add: of_char_of)

lemma is_digit_of: "d < 10 \<Longrightarrow> is_digit (char_of (d + 48))"
  and digit_value_of: "d < 10 \<Longrightarrow> digit_value (char_of (d + 48)) = d"
  by (simp_all only: is_digit_def digit_value_def Let_def of_char_digit) simp_all

lemma decimal_digits: "list_all is_digit (decimal n) \<and> decimal n \<noteq> [] \<and> decimal_value (decimal n) = n"
proof (induction n rule: decimal.induct)
  case (1 n)
  show ?case
  proof (cases "n < 10")
    case True
    then show ?thesis using is_digit_of [OF True] digit_value_of [OF True]
      by (subst (1 2 3) decimal.simps) (simp add: decimal_value_def)
  next
    case False
    have d: "n mod 10 < 10" by simp
    show ?thesis using 1(1) [OF False] False is_digit_of [OF d] digit_value_of [OF d]
      by (subst (1 2 3) decimal.simps) (simp add: decimal_value_def)
  qed
qed

lemma digit_not_space: "is_digit c \<Longrightarrow> \<not> is_space c \<and> c \<noteq> CHR ''-'' \<and> c \<noteq> CHR ''+''"
  by (auto simp: is_digit_def is_space_def Let_def)

lemma strtoull10_digits:
  assumes "list_all is_digit ds" "ds \<noteq> []" "decimal_value ds \<le> 18446744073709551615"
  shows "strtoull10 ds = \<lparr>parsed = decimal_value ds, rest = [], converted = True, rangeError = False\<rparr>"
proof -
  obtain c cs where ds: "ds = c # cs" "is_digit c" "list_all is_digit cs" using assms by (cases ds) auto
  have t: "takeWhile is_digit cs = cs" "dropWhile is_digit cs = []"
    using ds(3) by (auto simp: list_all_iff)
  show ?thesis using assms(3) ds(1,2) digit_not_space [OF ds(2)] by (simp add: strtoull10_def Let_def t)
qed

end
