(* ===== verification/SInt_Values.thy ===== *)
theory SInt_Values
  imports SInt_KnownBits Std_Algorithms Range_Config
begin

text \<open>
  Finite sets of values in an integer range: the exact values and the excluded values
  (\<^verbatim>\<open>NormalizeExactIntValues\<close> to \<^verbatim>\<open>MergeExcludedSIntValuesForUnion\<close> of
  \<^verbatim>\<open>ValueRangeAnalysis.cpp\<close>). A vector is a list; the equality of the library algorithms
  is \<^verbatim>\<open>operator==\<close> of \<^verbatim>\<open>SInt\<close>, which compares the 64-bit values.
\<close>

section \<open>Domains\<close>

text \<open>Intersection and union are defined on every pair of domains of one width
  (\<open>Intersects_merge\<close>, \<open>Unions_merge\<close>); the callers use the value.\<close>

definition SD_Intersect :: "SIntDomain \<Rightarrow> SIntDomain \<Rightarrow> SIntDomain" where
  "SD_Intersect a b = the (SD_Intersects a b)"

definition SD_Union :: "SIntDomain \<Rightarrow> SIntDomain \<Rightarrow> SIntDomain" where
  "SD_Union a b = the (SD_Unions a b)"

section \<open>Exact values\<close>

definition exact_lt :: "SInt \<Rightarrow> SInt \<Rightarrow> bool" where
  "exact_lt lhs rhs \<longleftrightarrow>
     (if width lhs \<noteq> width rhs then bw (width lhs) < bw (width rhs)
      else SInt_UVal lhs < SInt_UVal rhs)"

definition NormalizeExactIntValues :: "SInt list \<Rightarrow> SInt list" where
  "NormalizeExactIntValues vs = std_unique SInt_eq (std_sort exact_lt vs)"

definition NormalizeExactIntSet :: "RangeAnalysisConfig \<Rightarrow> SInt list \<Rightarrow> SInt list option" where
  "NormalizeExactIntSet cfg vs =
     (let vs = NormalizeExactIntValues vs
      in if vs = [] \<or> ExceedsExactIntSetLimit cfg (length vs) then None else Some vs)"

definition MergeExactIntSets ::
  "RangeAnalysisConfig \<Rightarrow> SInt list option \<Rightarrow> SInt list option \<Rightarrow> SInt list option" where
  "MergeExactIntSets cfg lhs rhs =
     (case (lhs, rhs) of
        (Some l, Some r) \<Rightarrow> NormalizeExactIntSet cfg (l @ r)
      | _ \<Rightarrow> None)"

definition ExactValueSatisfiesDomain :: "SInt \<Rightarrow> SIntDomain \<Rightarrow> bool" where
  "ExactValueSatisfiesDomain v d \<longleftrightarrow>
     (let singleton = SD_make (CR_single v) (SD_IsUnsigned d)
      in \<not> SD_IsBottom (SD_Intersect singleton d))"

definition DomainFromExactIntValues :: "SInt list \<Rightarrow> bool \<Rightarrow> SIntDomain" where
  "DomainFromExactIntValues vs isUnsigned =
     foldl (\<lambda>d v. SD_Union d (SD_make (CR_single v) isUnsigned)) (SD_make (CR_single (hd vs)) isUnsigned) (tl vs)"

section \<open>Excluded values\<close>

definition MAX_EXCLUDED_SINT_VALUES :: nat where
  "MAX_EXCLUDED_SINT_VALUES = 32"

definition NormalizeExcludedSIntValues :: "SInt list \<Rightarrow> SIntDomain \<Rightarrow> SInt list option" where
  "NormalizeExcludedSIntValues vs d =
     (let vs = filter (\<lambda>v. \<not> (width v \<noteq> SD_Width d \<or> \<not> ExactValueSatisfiesDomain v d))
                 (NormalizeExactIntValues vs)
      in if vs = [] \<or> length vs > MAX_EXCLUDED_SINT_VALUES then None else Some vs)"

definition IsExplicitlyExcluded :: "SInt list option \<Rightarrow> SInt \<Rightarrow> bool" where
  "IsExplicitlyExcluded excludedValues v \<longleftrightarrow>
     (case excludedValues of None \<Rightarrow> False | Some xs \<Rightarrow> std_contains SInt_eq xs v)"

definition SIntRangeMayContain :: "SIntDomain \<Rightarrow> SInt list option \<Rightarrow> SInt \<Rightarrow> bool" where
  "SIntRangeMayContain d excludedValues v \<longleftrightarrow>
     ExactValueSatisfiesDomain v d \<and> \<not> IsExplicitlyExcluded excludedValues v"

definition unsupported_bounds :: "SIntDomain \<Rightarrow> bool" where
  "unsupported_bounds d \<longleftrightarrow>
     (if SD_IsUnsigned d then CR_IsWrappedSet (SD_NumericBound d) else CR_IsSignWrappedSet (SD_NumericBound d))"

text \<open>The integers strictly between two intervals; empty when they overlap or touch.\<close>

definition SmallGap :: "int \<Rightarrow> int \<Rightarrow> int \<Rightarrow> int \<Rightarrow> int \<times> int" where
  "SmallGap lhsMin lhsMax rhsMin rhsMax =
     ((if lhsMax < rhsMin then lhsMax + 1 else if rhsMax < lhsMin then rhsMax + 1 else 1),
      (if lhsMax < rhsMin then rhsMin - 1 else if rhsMax < lhsMin then lhsMin - 1 else 0))"

definition AddSmallGapExclusions :: "SIntDomain \<Rightarrow> SIntDomain \<Rightarrow> SInt list \<Rightarrow> SInt list" where
  "AddSmallGapExclusions lhsDomain rhsDomain candidates =
     (let lhs = SD_NumericBound lhsDomain; rhs = SD_NumericBound rhsDomain; uns = SD_IsUnsigned lhsDomain
      in if SD_Width lhsDomain \<noteq> SD_Width rhsDomain \<or> uns \<noteq> SD_IsUnsigned rhsDomain then candidates
         else if CR_IsEmptySet lhs \<or> CR_IsEmptySet rhs \<or> CR_IsFullSet lhs \<or> CR_IsFullSet rhs \<or>
           (if uns then CR_IsWrappedSet lhs \<or> CR_IsWrappedSet rhs
            else CR_IsSignWrappedSet lhs \<or> CR_IsSignWrappedSet rhs) then candidates
         else
           let lhsMin = ToMathematicalInteger (CR_MinValue lhs uns) uns;
               lhsMax = ToMathematicalInteger (CR_MaxValue lhs uns) uns;
               rhsMin = ToMathematicalInteger (CR_MinValue rhs uns) uns;
               rhsMax = ToMathematicalInteger (CR_MaxValue rhs uns) uns;
               (gapLower, gapUpper) = SmallGap lhsMin lhsMax rhsMin rhsMax
           in if gapLower > gapUpper then candidates
              else
                let gapSize = gapUpper - gapLower + 1
                in if gapSize > int MAX_EXCLUDED_SINT_VALUES \<or>
                     length candidates + nat gapSize > MAX_EXCLUDED_SINT_VALUES then candidates
                   else candidates @ map (\<lambda>k. SInt_make (SD_Width lhsDomain) (word_of_int k)) [gapLower..gapUpper])"

definition MergeExcludedSIntValuesForUnion ::
  "SIntDomain \<Rightarrow> SInt list option \<Rightarrow> SIntDomain \<Rightarrow> SInt list option \<Rightarrow> SIntDomain \<Rightarrow> SInt list option" where
  "MergeExcludedSIntValuesForUnion lhsDomain lhsExcluded rhsDomain rhsExcluded joinedDomain =
     (if lhsExcluded = None \<and> rhsExcluded = None then None
      else
        let candidates = (case lhsExcluded of None \<Rightarrow> [] | Some l \<Rightarrow> l) @ (case rhsExcluded of None \<Rightarrow> [] | Some r \<Rightarrow> r);
            candidates = filter (\<lambda>v. \<not> (SIntRangeMayContain lhsDomain lhsExcluded v \<or>
                SIntRangeMayContain rhsDomain rhsExcluded v)) (NormalizeExactIntValues candidates)
        in NormalizeExcludedSIntValues candidates joinedDomain)"

definition FilterExactValuesByExclusions ::
  "RangeAnalysisConfig \<Rightarrow> SInt list option \<Rightarrow> SInt list option \<Rightarrow> SInt list option" where
  "FilterExactValuesByExclusions cfg exactValues excludedValues =
     (case exactValues of None \<Rightarrow> None
      | Some vs \<Rightarrow>
          if excludedValues = None then Some vs
          else
            let vs = filter (\<lambda>v. \<not> IsExplicitlyExcluded excludedValues v) vs
            in if vs = [] then None else NormalizeExactIntSet cfg vs)"

section \<open>Domains, again\<close>

lemma Intersect_facts:
  assumes "SD_wf a" "SD_wf b" "SD_Width b = SD_Width a" "unsignedFlag b = unsignedFlag a"
  shows "SD_wf (SD_Intersect a b)" "SD_Width (SD_Intersect a b) = SD_Width a"
    "unsignedFlag (SD_Intersect a b) = unsignedFlag a"
    "SD_models \<sigma> a v \<Longrightarrow> SD_models \<sigma> b v \<Longrightarrow> SD_models \<sigma> (SD_Intersect a b) v"
  using Intersects_merge [OF assms] by (auto simp: SD_Intersect_def)

lemma Union_facts:
  assumes "SD_wf a" "SD_wf b" "SD_Width b = SD_Width a" "unsignedFlag b = unsignedFlag a"
  shows "SD_wf (SD_Union a b)" "SD_Width (SD_Union a b) = SD_Width a"
    "unsignedFlag (SD_Union a b) = unsignedFlag a"
    "SD_models \<sigma> a v \<or> SD_models \<sigma> b v \<Longrightarrow> SD_models \<sigma> (SD_Union a b) v"
  using Unions_merge [OF assms] by (auto simp: SD_Union_def)

lemma single_domain:
  assumes "SInt_wf v"
  shows "SD_wf (SD_make (CR_single v) u)" "SD_Width (SD_make (CR_single v) u) = width v"
    "unsignedFlag (SD_make (CR_single v) u) = u" "SD_models \<sigma> (SD_make (CR_single v) u) x \<longleftrightarrow> x = v"
  using assms by (simp_all add: SD_make_def SD_wf_def SD_Width_def single_wf SD_models_iff mem_single)

lemma models_not_bottom: "SD_models \<sigma> d v \<Longrightarrow> \<not> SD_IsBottom d"
  using mem_EmptySet by (auto simp: SD_models_iff SD_IsBottom_def)

lemma models_wf: "SD_models \<sigma> d v \<Longrightarrow> SInt_wf v" and models_width: "SD_models \<sigma> d v \<Longrightarrow> width v = SD_Width d"
  by (simp_all add: SD_models_def)

lemma Satisfies_models:
  assumes "SD_wf d" "SD_models \<sigma> d v"
  shows "ExactValueSatisfiesDomain v d"
proof -
  have v: "SInt_wf v" "width v = SD_Width d" using models_wf models_width assms(2) by auto
  have "SD_models \<sigma> (SD_Intersect (SD_make (CR_single v) (unsignedFlag d)) d) v"
    using assms v by (intro Intersect_facts(4)) (simp_all add: single_domain)
  then show ?thesis using models_not_bottom by (simp add: ExactValueSatisfiesDomain_def SD_IsUnsigned_def)
qed

lemma union_fold:
  "SD_wf d \<Longrightarrow> SD_Width d = w \<Longrightarrow> unsignedFlag d = u \<Longrightarrow> values_ok w (Some xs) \<Longrightarrow>
   SD_wf (foldl (\<lambda>d v. SD_Union d (SD_make (CR_single v) u)) d xs) \<and>
   SD_Width (foldl (\<lambda>d v. SD_Union d (SD_make (CR_single v) u)) d xs) = w \<and>
   unsignedFlag (foldl (\<lambda>d v. SD_Union d (SD_make (CR_single v) u)) d xs) = u \<and>
   (SD_models \<sigma> d v \<or> v \<in> set xs \<longrightarrow>
     SD_models \<sigma> (foldl (\<lambda>d v. SD_Union d (SD_make (CR_single v) u)) d xs) v)"
proof (induction xs arbitrary: d)
  case (Cons x xs)
  then have x: "SInt_wf x" "width x = w" by simp_all
  note U = Union_facts [OF Cons.prems(1) single_domain(1) [OF x(1)], of u]
  have u: "SD_wf (SD_Union d (SD_make (CR_single x) u))" "SD_Width (SD_Union d (SD_make (CR_single x) u)) = w"
    "unsignedFlag (SD_Union d (SD_make (CR_single x) u)) = u"
    "SD_models \<sigma> d v \<or> v = x \<Longrightarrow> SD_models \<sigma> (SD_Union d (SD_make (CR_single x) u)) v"
    using U Cons.prems x by (auto simp: single_domain)
  then show ?case using Cons.IH [OF u(1-3)] Cons.prems(4) by auto
qed simp

lemma FromExactIntValues_sound:
  assumes "vs \<noteq> []" "values_ok w (Some vs)"
  shows "SD_wf (DomainFromExactIntValues vs u)" "SD_Width (DomainFromExactIntValues vs u) = w"
    "unsignedFlag (DomainFromExactIntValues vs u) = u"
    "v \<in> set vs \<Longrightarrow> SD_models \<sigma> (DomainFromExactIntValues vs u) v"
proof -
  obtain x xs where vs: "vs = x # xs" using assms(1) by (cases vs) auto
  then have x: "SInt_wf x" "width x = w" "values_ok w (Some xs)" using assms(2) by simp_all
  note f = union_fold [OF single_domain(1) [OF x(1), of u] _ _ x(3), of u \<sigma> v]
  show "SD_wf (DomainFromExactIntValues vs u)" "SD_Width (DomainFromExactIntValues vs u) = w"
    "unsignedFlag (DomainFromExactIntValues vs u) = u"
    "v \<in> set vs \<Longrightarrow> SD_models \<sigma> (DomainFromExactIntValues vs u) v"
    using f x by (auto simp: DomainFromExactIntValues_def vs single_domain)
qed

section \<open>Sets of values\<close>

lemma SInt_eq_iff: "width x = width y \<Longrightarrow> SInt_eq x y \<longleftrightarrow> x = y"
  by (auto simp: SInt_eq_def uv_def intro: SInt_ext)

lemma NormalizeExactIntValues_subset: "set (NormalizeExactIntValues vs) \<subseteq> set vs"
  using std_unique_subset [of SInt_eq "std_sort exact_lt vs"] by (simp add: NormalizeExactIntValues_def)

lemma NormalizeExactIntValues_set:
  "values_ok w (Some vs) \<Longrightarrow> set (NormalizeExactIntValues vs) = set vs"
proof -
  assume "values_ok w (Some vs)"
  then have "\<forall>x \<in> set (std_sort exact_lt vs). \<forall>y \<in> set (std_sort exact_lt vs). SInt_eq x y \<longrightarrow> x = y"
    by (auto simp: SInt_eq_iff)
  from std_unique_set [OF this] show ?thesis by (simp add: NormalizeExactIntValues_def)
qed

lemma values_ok_subset: "values_ok w (Some vs) \<Longrightarrow> set xs \<subseteq> set vs \<Longrightarrow> values_ok w (Some xs)"
  by auto

lemma NormalizeExactIntSet_facts:
  assumes "values_ok w (Some vs)"
  shows "values_ok w (NormalizeExactIntSet cfg vs)" "v \<in> set vs \<Longrightarrow> exact_holds (NormalizeExactIntSet cfg vs) v"
  using assms NormalizeExactIntValues_set [OF assms] NormalizeExactIntValues_subset [of vs]
  by (auto simp: NormalizeExactIntSet_def Let_def exact_holds_def)

lemma MergeExactIntSets_facts:
  assumes "values_ok w l" "values_ok w r"
  shows "values_ok w (MergeExactIntSets cfg l r)"
    "exact_holds l v \<and> l \<noteq> Some [] \<or> exact_holds r v \<and> r \<noteq> Some [] \<Longrightarrow> exact_holds (MergeExactIntSets cfg l r) v"
proof -
  have m: "values_ok w (Some (a @ b))" if "l = Some a" "r = Some b" for a b using assms that by auto
  show "values_ok w (MergeExactIntSets cfg l r)"
    using NormalizeExactIntSet_facts(1) [OF m] by (auto simp: MergeExactIntSets_def split: option.split)
  show "exact_holds (MergeExactIntSets cfg l r) v"
    if "exact_holds l v \<and> l \<noteq> Some [] \<or> exact_holds r v \<and> r \<noteq> Some []"
  proof (cases "l = None \<or> r = None")
    case True
    then show ?thesis by (auto simp: MergeExactIntSets_def exact_holds_def split: option.split)
  next
    case False
    then obtain a b where ab: "l = Some a" "r = Some b" by auto
    then have "v \<in> set (a @ b)" using that by (auto simp: exact_holds_def)
    from NormalizeExactIntSet_facts(2) [OF m [OF ab] this] show ?thesis by (simp add: MergeExactIntSets_def ab)
  qed
qed

section \<open>Exclusions\<close>

definition excl_holds :: "SInt list option \<Rightarrow> SInt \<Rightarrow> bool" where
  "excl_holds ex v \<longleftrightarrow> (case ex of None \<Rightarrow> True | Some xs \<Rightarrow> v \<notin> set xs)"

lemma excl_simps [simp]: "excl_holds None v" "excl_holds (Some xs) v \<longleftrightarrow> v \<notin> set xs"
  by (simp_all add: excl_holds_def)

lemma IsExplicitlyExcluded_iff:
  "values_ok (width v) ex \<Longrightarrow> IsExplicitlyExcluded ex v \<longleftrightarrow> \<not> excl_holds ex v"
  by (cases ex) (auto simp: IsExplicitlyExcluded_def std_contains_def list_ex_iff SInt_eq_iff)

lemma NormalizeExcluded_facts:
  assumes "values_ok w (Some vs)"
  shows "values_ok w (NormalizeExcludedSIntValues vs d)" "v \<notin> set vs \<Longrightarrow> excl_holds (NormalizeExcludedSIntValues vs d) v"
    "\<And>xs. NormalizeExcludedSIntValues vs d = Some xs \<Longrightarrow> xs \<noteq> [] \<and> length xs \<le> 32"
  using assms NormalizeExactIntValues_subset [of vs]
  by (auto simp: NormalizeExcludedSIntValues_def Let_def MAX_EXCLUDED_SINT_VALUES_def split: if_splits)

lemma MayContain_models:
  "SD_wf d \<Longrightarrow> SD_models \<sigma> d v \<Longrightarrow> values_ok (width v) ex \<Longrightarrow> excl_holds ex v \<Longrightarrow> SIntRangeMayContain d ex v"
  by (simp add: SIntRangeMayContain_def Satisfies_models IsExplicitlyExcluded_iff)

lemma MergeExcluded_facts:
  assumes d: "SD_wf a" "SD_wf b" and ex: "values_ok (SD_Width a) la" "values_ok (SD_Width a) lb"
    and w: "SD_Width b = SD_Width a"
  shows "values_ok (SD_Width a) (MergeExcludedSIntValuesForUnion a la b lb j)"
    "SD_models \<sigma> a v \<and> excl_holds la v \<or> SD_models \<sigma> b v \<and> excl_holds lb v \<Longrightarrow>
     excl_holds (MergeExcludedSIntValuesForUnion a la b lb j) v"
proof -
  let ?c = "(case la of None \<Rightarrow> [] | Some l \<Rightarrow> l) @ (case lb of None \<Rightarrow> [] | Some r \<Rightarrow> r)"
  let ?f = "filter (\<lambda>v. \<not> (SIntRangeMayContain a la v \<or> SIntRangeMayContain b lb v)) (NormalizeExactIntValues ?c)"
  have "values_ok (SD_Width a) (Some ?c)" using ex by (auto split: option.splits)
  then have ok: "values_ok (SD_Width a) (Some ?f)"
    by (rule values_ok_subset) (use NormalizeExactIntValues_subset [of ?c] in auto)
  show "values_ok (SD_Width a) (MergeExcludedSIntValuesForUnion a la b lb j)"
    using NormalizeExcluded_facts(1) [OF ok, of j] by (simp add: MergeExcludedSIntValuesForUnion_def Let_def)
  assume v: "SD_models \<sigma> a v \<and> excl_holds la v \<or> SD_models \<sigma> b v \<and> excl_holds lb v"
  then have "width v = SD_Width a" using models_width [of \<sigma> a v] models_width [of \<sigma> b v] w by auto
  then have "SIntRangeMayContain a la v \<or> SIntRangeMayContain b lb v"
    using v ex MayContain_models [OF d(1)] MayContain_models [OF d(2)] by auto
  then have "v \<notin> set ?f" by simp
  then show "excl_holds (MergeExcludedSIntValuesForUnion a la b lb j) v"
    using NormalizeExcluded_facts(2) [OF ok] by (simp add: MergeExcludedSIntValuesForUnion_def Let_def)
qed

lemma FilterExact_facts:
  assumes "values_ok w e" "values_ok w ex"
  shows "values_ok w (FilterExactValuesByExclusions cfg e ex)"
    "exact_holds e v \<Longrightarrow> excl_holds ex v \<Longrightarrow> exact_holds (FilterExactValuesByExclusions cfg e ex) v"
proof -
  have ok: "values_ok w (Some (filter P vs))" if "e = Some vs" for vs P using assms(1) that by auto
  show "values_ok w (FilterExactValuesByExclusions cfg e ex)"
    using assms(1) NormalizeExactIntSet_facts(1) [OF ok]
    by (auto simp: FilterExactValuesByExclusions_def Let_def simp del: values_ok_simps(2) split: option.split)
  assume v: "exact_holds e v" "excl_holds ex v"
  show "exact_holds (FilterExactValuesByExclusions cfg e ex) v"
  proof (cases e)
    case (Some vs)
    let ?vs = "filter (\<lambda>v. \<not> IsExplicitlyExcluded ex v) vs"
    have "v \<in> set ?vs" if "?vs \<noteq> []"
    proof -
      have "vs \<noteq> []" using that by auto
      then have "v \<in> set vs" using v(1) Some by (simp add: exact_holds_def)
      moreover have "width v = w" using assms(1) Some calculation by simp
      ultimately show ?thesis using v(2) assms(2) by (simp add: IsExplicitlyExcluded_iff)
    qed
    then show ?thesis using Some v(1) NormalizeExactIntSet_facts(2) [OF ok [OF Some]]
      by (auto simp: FilterExactValuesByExclusions_def Let_def exact_holds_def [of None])
  qed (simp add: FilterExactValuesByExclusions_def exact_holds_def)
qed

section \<open>Gaps\<close>

lemma MinMaxValue_bounds:
  assumes "CR_wf r" "v \<in> CR_gamma r"
  shows "ToMathematicalInteger (CR_MinValue r u) u \<le> rd (\<not> u) v" "rd (\<not> u) v \<le> ToMathematicalInteger (CR_MaxValue r u) u"
  using UMaxMin_bounds [OF assms] SMaxMin_bounds [OF assms] minmax_simps [OF assms(1)]
  by (auto simp: ToMathematicalInteger_rd CR_MinValue_def CR_MaxValue_def rd_def)

lemma rd_make_of_int:
  assumes "(if s then - half w else 0) \<le> k" "k < (if s then half w else modulus w)"
  shows "rd s (SInt_make w (word_of_int k)) = k"
proof (cases s)
  case True
  then show ?thesis using make_of_int(3) [of w k] assms by (simp add: rd_def)
next
  case False
  then have "uint (word_of_int k :: 64 word) mod modulus w = k mod modulus w"
    using mod_mod_cancel [OF modulus_dvd_64 [of w], of k] by (simp add: uint_word_of_int)
  then show ?thesis using False assms by (simp add: rd_def make_uv)
qed

lemma rd_bounds: "SInt_wf v \<Longrightarrow> (if s then - half (width v) else 0) \<le> rd s v \<and> rd s v < (if s then half (width v) else modulus (width v))"
  using uv_nonneg [of v] uv_lt [of v] sv_lo [of v] sv_hi [of v] by (simp add: rd_def)

text \<open>What lies strictly between two ranges is in neither, and fits the width.\<close>

lemma between_ranges:
  assumes r: "CR_wf p" "CR_wf q" "CR_Width q = CR_Width p"
    and k: "ToMathematicalInteger (CR_MaxValue p u) u < k" "k < ToMathematicalInteger (CR_MinValue q u) u"
    and v: "v \<in> CR_gamma p \<or> v \<in> CR_gamma q"
  shows "v \<noteq> SInt_make (CR_Width p) (word_of_int k)"
proof
  assume e: "v = SInt_make (CR_Width p) (word_of_int k)"
  have m: "SInt_wf (CR_MaxValue p u)" "width (CR_MaxValue p u) = CR_Width p"
    "SInt_wf (CR_MinValue q u)" "width (CR_MinValue q u) = CR_Width p"
    using r by (simp_all add: CR_MaxValue_def CR_MinValue_def)
  have "(if \<not> u then - half (CR_Width p) else 0) \<le> k" "k < (if \<not> u then half (CR_Width p) else modulus (CR_Width p))"
    using rd_bounds [OF m(1), of "\<not> u"] rd_bounds [OF m(3), of "\<not> u"] m k
    by (auto simp: ToMathematicalInteger_rd)
  then have "rd (\<not> u) v = k" unfolding e by (rule rd_make_of_int)
  then show False using k v MinMaxValue_bounds(2) [OF r(1), of v u] MinMaxValue_bounds(1) [OF r(2), of v u] by auto
qed

lemma AddSmallGap_cases:
  obtains "AddSmallGapExclusions a b c = c"
  | l h where "AddSmallGapExclusions a b c = c @ map (\<lambda>k. SInt_make (SD_Width a) (word_of_int k)) [l..h]"
    "\<And>k. l \<le> k \<Longrightarrow> k \<le> h \<Longrightarrow>
      (ToMathematicalInteger (CR_MaxValue (numeric a) (SD_IsUnsigned a)) (SD_IsUnsigned a) < k \<and>
        k < ToMathematicalInteger (CR_MinValue (numeric b) (SD_IsUnsigned a)) (SD_IsUnsigned a)) \<or>
      (ToMathematicalInteger (CR_MaxValue (numeric b) (SD_IsUnsigned a)) (SD_IsUnsigned a) < k \<and>
        k < ToMathematicalInteger (CR_MinValue (numeric a) (SD_IsUnsigned a)) (SD_IsUnsigned a))"
proof -
  let ?M = "\<lambda>d. ToMathematicalInteger (CR_MaxValue (numeric d) (SD_IsUnsigned a)) (SD_IsUnsigned a)"
    and ?m = "\<lambda>d. ToMathematicalInteger (CR_MinValue (numeric d) (SD_IsUnsigned a)) (SD_IsUnsigned a)"
  obtain l h where lh: "SmallGap (?m a) (?M a) (?m b) (?M b) = (l, h)" by force
  have "AddSmallGapExclusions a b c = c \<or>
      AddSmallGapExclusions a b c = c @ map (\<lambda>k. SInt_make (SD_Width a) (word_of_int k)) [l..h]"
    unfolding AddSmallGapExclusions_def Let_def SD_NumericBound_def lh prod.case
    by (simp only: split: if_split) blast
  moreover have "?M a < k \<and> k < ?m b \<or> ?M b < k \<and> k < ?m a" if "l \<le> k" "k \<le> h" for k
    using that lh by (auto simp: SmallGap_def split: if_splits)
  ultimately show thesis using that by blast
qed

lemma AddSmallGap_facts:
  assumes d: "CR_wf (numeric a)" "CR_wf (numeric b)" and w: "SD_Width b = SD_Width a"
    and c: "values_ok (SD_Width a) (Some c)"
  shows "values_ok (SD_Width a) (Some (AddSmallGapExclusions a b c))"
    "v \<in> CR_gamma (numeric a) \<or> v \<in> CR_gamma (numeric b) \<Longrightarrow> v \<notin> set c \<Longrightarrow> v \<notin> set (AddSmallGapExclusions a b c)"
proof -
  show "values_ok (SD_Width a) (Some (AddSmallGapExclusions a b c))"
    using c by (cases a b c rule: AddSmallGap_cases) auto
  assume v: "v \<in> CR_gamma (numeric a) \<or> v \<in> CR_gamma (numeric b)" "v \<notin> set c"
  show "v \<notin> set (AddSmallGapExclusions a b c)"
  proof (cases a b c rule: AddSmallGap_cases)
    case (2 l h)
    have ww: "CR_Width (numeric b) = CR_Width (numeric a)" using w by (simp add: SD_Width_def)
    have "v \<noteq> SInt_make (SD_Width a) (word_of_int k)" if k: "l \<le> k" "k \<le> h" for k
      using 2(2) [OF k] between_ranges [OF d(1,2) ww] between_ranges [OF d(2,1) ww [symmetric]] v(1) ww
      unfolding SD_Width_def by metis
    then have "v \<notin> (\<lambda>k. SInt_make (SD_Width a) (word_of_int k)) ` {l..h}"
      by (meson atLeastAtMost_iff imageE)
    then show ?thesis using 2(1) v(2) by (simp only: set_append set_map set_upto Un_iff) simp
  qed (use v in simp)
qed

end
