(* ===== verification/SInt_Fragments.thy ===== *)
theory SInt_Fragments
  imports SInt_Values
begin

text \<open>
  Interval fragments (\<^verbatim>\<open>SIntIntervalFragment\<close>, \<^verbatim>\<open>NormalizeSIntIntervalFragments\<close> and
  \<^verbatim>\<open>RefineSIntIntervalFragmentsByCongruence\<close> of \<^verbatim>\<open>ValueRangeAnalysis.cpp\<close>): closed,
  strided, non-wrapping intervals whose union is part of what an integer range says. The
  normalisation clamps the fragments to the domain, moves the ends onto the progression, sorts,
  joins neighbours of one progression, drops contained fragments and gives up above four.
\<close>

record SIntIntervalFragment =
  frag_lower :: SInt
  frag_upper :: SInt
  frag_stride :: "64 word"
  frag_residue :: "64 word"

definition SF_make :: "SInt \<Rightarrow> SInt \<Rightarrow> 64 word \<Rightarrow> 64 word \<Rightarrow> SIntIntervalFragment" where
  "SF_make l u s r = \<lparr>frag_lower = l, frag_upper = u, frag_stride = s, frag_residue = r\<rparr>"

definition SF_eq :: "SIntIntervalFragment \<Rightarrow> SIntIntervalFragment \<Rightarrow> bool" where
  "SF_eq a b \<longleftrightarrow> SInt_eq (frag_lower a) (frag_lower b) \<and> SInt_eq (frag_upper a) (frag_upper b) \<and>
     frag_stride a = frag_stride b \<and> frag_residue a = frag_residue b"

definition MAX_DISJOINT_SINT_INTERVALS :: nat where
  "MAX_DISJOINT_SINT_INTERVALS = 4"

section \<open>Bounds of the domain\<close>

definition hasConvexBounds :: "SIntDomain \<Rightarrow> bool" where
  "hasConvexBounds d \<longleftrightarrow>
     (let numeric = SD_NumericBound d
      in CR_IsFullSet numeric \<or>
         \<not> (if SD_IsUnsigned d then CR_IsWrappedSet numeric else CR_IsSignWrappedSet numeric))"

definition domainLower :: "SIntDomain \<Rightarrow> int" where
  "domainLower d =
     (let numeric = SD_NumericBound d
      in if SD_IsUnsigned d
         then uint (SInt_UVal (if CR_IsFullSet numeric then SInt_UMinValue (SD_Width d) else CR_MinValue numeric True))
         else SInt_SVal (if CR_IsFullSet numeric then SInt_SMinValue (SD_Width d) else CR_MinValue numeric False))"

definition domainUpper :: "SIntDomain \<Rightarrow> int" where
  "domainUpper d =
     (let numeric = SD_NumericBound d
      in if SD_IsUnsigned d
         then uint (SInt_UVal (if CR_IsFullSet numeric then SInt_UMaxValue (SD_Width d) else CR_MaxValue numeric True))
         else SInt_SVal (if CR_IsFullSet numeric then SInt_SMaxValue (SD_Width d) else CR_MaxValue numeric False))"

section \<open>The passes\<close>

definition fragment_clamp :: "SIntDomain \<Rightarrow> SIntIntervalFragment \<Rightarrow> SIntIntervalFragment option" where
  "fragment_clamp d fragment =
     (let mathematical = (\<lambda>v. ToMathematicalInteger v (SD_IsUnsigned d));
          fragment =
            (if frag_stride fragment \<le> 1 then fragment\<lparr>frag_stride := 1, frag_residue := 0\<rparr>
             else fragment\<lparr>frag_residue := frag_residue fragment mod frag_stride fragment\<rparr>)
      in if width (frag_lower fragment) \<noteq> SD_Width d \<or> width (frag_upper fragment) \<noteq> SD_Width d \<or>
            mathematical (frag_lower fragment) > mathematical (frag_upper fragment) then None
         else if \<not> hasConvexBounds d then
           (if \<not> ExactValueSatisfiesDomain (frag_lower fragment) d \<or>
               \<not> ExactValueSatisfiesDomain (frag_upper fragment) d then None else Some fragment)
         else
           let lower = max (mathematical (frag_lower fragment)) (domainLower d);
               upper = min (mathematical (frag_upper fragment)) (domainUpper d)
           in if lower > upper then None
              else Some (fragment\<lparr>frag_lower := SInt_make (SD_Width d) (word_of_int lower),
                                  frag_upper := SInt_make (SD_Width d) (word_of_int upper)\<rparr>))"

definition fragment_align :: "SIntDomain \<Rightarrow> SIntIntervalFragment \<Rightarrow> SIntIntervalFragment option" where
  "fragment_align d fragment =
     (if frag_stride fragment = 1 then Some fragment
      else
        let mathematical = (\<lambda>v. ToMathematicalInteger v (SD_IsUnsigned d));
            stride = uint (frag_stride fragment);
            residue = uint (frag_residue fragment);
            lower = mathematical (frag_lower fragment);
            upper = mathematical (frag_upper fragment);
            lowerResidue = lower smod stride;
            lowerResidue = (if lowerResidue < 0 then lowerResidue + stride else lowerResidue);
            upperResidue = upper smod stride;
            upperResidue = (if upperResidue < 0 then upperResidue + stride else upperResidue);
            lower = lower + (residue - lowerResidue + stride) smod stride;
            upper = upper - (upperResidue - residue + stride) smod stride
        in if lower > upper then None
           else Some (fragment\<lparr>frag_lower := SInt_make (SD_Width d) (word_of_int lower),
                               frag_upper := SInt_make (SD_Width d) (word_of_int upper)\<rparr>))"

definition fragment_lt :: "bool \<Rightarrow> SIntIntervalFragment \<Rightarrow> SIntIntervalFragment \<Rightarrow> bool" where
  "fragment_lt uns lhs rhs \<longleftrightarrow>
     (let mathematical = (\<lambda>v. ToMathematicalInteger v uns)
      in if mathematical (frag_lower lhs) \<noteq> mathematical (frag_lower rhs)
         then mathematical (frag_lower lhs) < mathematical (frag_lower rhs)
         else if mathematical (frag_upper lhs) \<noteq> mathematical (frag_upper rhs)
         then mathematical (frag_upper lhs) < mathematical (frag_upper rhs)
         else if frag_stride lhs \<noteq> frag_stride rhs then frag_stride lhs < frag_stride rhs
         else frag_residue lhs < frag_residue rhs)"

definition fragment_join :: "bool \<Rightarrow> SIntIntervalFragment list \<Rightarrow> SIntIntervalFragment \<Rightarrow> SIntIntervalFragment list" where
  "fragment_join uns normalized fragment =
     (let mathematical = (\<lambda>v. ToMathematicalInteger v uns);
          back = last normalized;
          sameProgression = (normalized \<noteq> [] \<and> frag_stride fragment = frag_stride back \<and>
            frag_residue fragment = frag_residue back)
      in if \<not> sameProgression \<or>
            mathematical (frag_lower fragment) > mathematical (frag_upper back) + uint (frag_stride fragment)
         then normalized @ [fragment]
         else if mathematical (frag_upper fragment) > mathematical (frag_upper back)
         then butlast normalized @ [back\<lparr>frag_upper := frag_upper fragment\<rparr>]
         else normalized)"

definition fragment_contains :: "bool \<Rightarrow> SIntIntervalFragment \<Rightarrow> SIntIntervalFragment \<Rightarrow> bool" where
  "fragment_contains uns outer inner \<longleftrightarrow>
     (let mathematical = (\<lambda>v. ToMathematicalInteger v uns)
      in if mathematical (frag_lower outer) > mathematical (frag_lower inner) \<or>
            mathematical (frag_upper outer) < mathematical (frag_upper inner) then False
         else if frag_stride outer = 1 then True
         else if SInt_eq (frag_lower inner) (frag_upper inner)
         then CanonicalResidue (mathematical (frag_lower inner)) (frag_stride outer) = frag_residue outer
         else frag_stride inner mod frag_stride outer = 0 \<and>
              frag_residue inner mod frag_stride outer = frag_residue outer)"

definition fragment_reduce :: "bool \<Rightarrow> SIntIntervalFragment list \<Rightarrow> SIntIntervalFragment \<Rightarrow> SIntIntervalFragment list" where
  "fragment_reduce uns reduced fragment =
     (if list_ex (\<lambda>existing. fragment_contains uns existing fragment) reduced then reduced
      else filter (\<lambda>existing. \<not> fragment_contains uns fragment existing) reduced @ [fragment])"

definition fragment_lower_lt :: "bool \<Rightarrow> SIntIntervalFragment \<Rightarrow> SIntIntervalFragment \<Rightarrow> bool" where
  "fragment_lower_lt uns lhs rhs \<longleftrightarrow>
     ToMathematicalInteger (frag_lower lhs) uns < ToMathematicalInteger (frag_lower rhs) uns"

definition NormalizeSIntIntervalFragments ::
  "SIntIntervalFragment list \<Rightarrow> SIntDomain \<Rightarrow> SIntIntervalFragment list option" where
  "NormalizeSIntIntervalFragments fragments d =
     (if fragments = [] \<or> SD_IsBottom d then None
      else
        let uns = SD_IsUnsigned d;
            fragments = std_retain (fragment_clamp d) fragments;
            fragments = std_retain (fragment_align d) fragments;
            fragments = std_sort (fragment_lt uns) fragments;
            normalized = foldl (fragment_join uns) [] fragments;
            reduced = foldl (fragment_reduce uns) [] normalized;
            reduced = std_sort (fragment_lower_lt uns) reduced
        in if reduced = [] \<or> length reduced > MAX_DISJOINT_SINT_INTERVALS then None else Some reduced)"

definition fragment_refine :: "bool \<Rightarrow> SIntCongruence \<Rightarrow> SIntIntervalFragment \<Rightarrow> SIntIntervalFragment option" where
  "fragment_refine uns c fragment =
     (if SInt_eq (frag_lower fragment) (frag_upper fragment) then
        (if CanonicalResidue (ToMathematicalInteger (frag_lower fragment) uns) (stride c) \<noteq> residue c
         then None else Some fragment)
      else if frag_stride fragment \<le> 1 then
        Some (fragment\<lparr>frag_stride := stride c, frag_residue := residue c\<rparr>)
      else
        let common = of_nat (gcd (unat (frag_stride fragment)) (unat (stride c)));
            difference = (if frag_residue fragment \<ge> residue c then frag_residue fragment - residue c
                          else residue c - frag_residue fragment)
        in if difference mod common \<noteq> 0 then None
           else if stride c mod frag_stride fragment = 0 \<and> residue c mod frag_stride fragment = frag_residue fragment
           then Some (fragment\<lparr>frag_stride := stride c, frag_residue := residue c\<rparr>)
           else Some fragment)"

definition RefineSIntIntervalFragmentsByCongruence ::
  "SIntIntervalFragment list option \<Rightarrow> SIntCongruence option \<Rightarrow> SIntDomain \<Rightarrow> SIntIntervalFragment list option" where
  "RefineSIntIntervalFragmentsByCongruence fragments congruence d =
     (case (fragments, NormalizeCongruence congruence) of
        (Some fs, Some c) \<Rightarrow>
          NormalizeSIntIntervalFragments (std_retain (fragment_refine (SD_IsUnsigned d) c) fs) d
      | _ \<Rightarrow> fragments)"

definition SIntFragmentContainsValue :: "SIntIntervalFragment \<Rightarrow> SInt \<Rightarrow> bool \<Rightarrow> bool" where
  "SIntFragmentContainsValue fragment v isUnsigned \<longleftrightarrow>
     (let mathematical = (\<lambda>x. ToMathematicalInteger x isUnsigned);
          candidate = mathematical v
      in candidate \<ge> mathematical (frag_lower fragment) \<and> candidate \<le> mathematical (frag_upper fragment) \<and>
         (frag_stride fragment \<le> 1 \<or>
          CanonicalResidue candidate (frag_stride fragment) = frag_residue fragment))"

section \<open>What fragments say\<close>

definition on_progression :: "64 word \<Rightarrow> 64 word \<Rightarrow> int \<Rightarrow> bool" where
  "on_progression s r k \<longleftrightarrow> (1 < uint s \<longrightarrow> k mod uint s = uint r mod uint s)"

definition frag_holds :: "bool \<Rightarrow> SIntIntervalFragment \<Rightarrow> int \<Rightarrow> bool" where
  "frag_holds uns f k \<longleftrightarrow> rd (\<not> uns) (frag_lower f) \<le> k \<and> k \<le> rd (\<not> uns) (frag_upper f) \<and>
     on_progression (frag_stride f) (frag_residue f) k"

definition frags_say :: "bool \<Rightarrow> SIntIntervalFragment list \<Rightarrow> int \<Rightarrow> bool" where
  "frags_say uns fs k \<longleftrightarrow> (\<exists>f \<in> set fs. frag_holds uns f k)"

text \<open>Ends of the width; a fragment in normal form.\<close>

definition frag_ends :: "IntWidth \<Rightarrow> SIntIntervalFragment \<Rightarrow> bool" where
  "frag_ends w f \<longleftrightarrow> SInt_wf (frag_lower f) \<and> width (frag_lower f) = w \<and>
     SInt_wf (frag_upper f) \<and> width (frag_upper f) = w"

definition frag_clamped :: "IntWidth \<Rightarrow> bool \<Rightarrow> SIntIntervalFragment \<Rightarrow> bool" where
  "frag_clamped w uns f \<longleftrightarrow> frag_ends w f \<and> rd (\<not> uns) (frag_lower f) \<le> rd (\<not> uns) (frag_upper f) \<and>
     1 \<le> uint (frag_stride f) \<and> uint (frag_residue f) < uint (frag_stride f)"

definition frag_normal :: "IntWidth \<Rightarrow> bool \<Rightarrow> SIntIntervalFragment \<Rightarrow> bool" where
  "frag_normal w uns f \<longleftrightarrow> frag_clamped w uns f \<and>
     on_progression (frag_stride f) (frag_residue f) (rd (\<not> uns) (frag_lower f)) \<and>
     on_progression (frag_stride f) (frag_residue f) (rd (\<not> uns) (frag_upper f))"

definition inside :: "SIntDomain \<Rightarrow> int \<Rightarrow> bool" where
  "inside d k \<longleftrightarrow> domainLower d \<le> k \<and> k \<le> domainUpper d"

lemma frags_say_simps [simp]:
  "\<not> frags_say uns [] k" "frags_say uns (f # fs) k \<longleftrightarrow> frag_holds uns f k \<or> frags_say uns fs k"
  "frags_say uns (fs @ gs) k \<longleftrightarrow> frags_say uns fs k \<or> frags_say uns gs k"
  "frags_say uns (std_sort lt fs) k \<longleftrightarrow> frags_say uns fs k"
  by (auto simp: frags_say_def)

lemma math_rd: "frag_ends w f \<Longrightarrow> ToMathematicalInteger (frag_lower f) uns = rd (\<not> uns) (frag_lower f)"
  "frag_ends w f \<Longrightarrow> ToMathematicalInteger (frag_upper f) uns = rd (\<not> uns) (frag_upper f)"
  by (simp_all add: frag_ends_def ToMathematicalInteger_rd)

lemma on_progression_one [simp]: "on_progression 1 r k"
  by (simp add: on_progression_def)

lemma on_progression_mod [simp]: "on_progression s (r mod s) k \<longleftrightarrow> on_progression s r k"
  by (simp add: on_progression_def uint_mod)

section \<open>The bounds of a convex domain\<close>

lemma domain_ends:
  "domainLower d = ToMathematicalInteger (CR_MinValue (numeric d) (SD_IsUnsigned d)) (SD_IsUnsigned d)"
  "domainUpper d = ToMathematicalInteger (CR_MaxValue (numeric d) (SD_IsUnsigned d)) (SD_IsUnsigned d)"
  by (simp_all add: domainLower_def domainUpper_def Let_def SD_NumericBound_def ToMathematicalInteger_def
      CR_MinValue_def CR_MaxValue_def CR_UMinValue_def CR_UMaxValue_def CR_SMinValue_def CR_SMaxValue_def SD_Width_def)

lemma domain_bounds:
  assumes d: "CR_wf (numeric d)"
  shows "(if SD_IsUnsigned d then 0 else - half (SD_Width d)) \<le> domainLower d"
    "domainUpper d < (if SD_IsUnsigned d then modulus (SD_Width d) else half (SD_Width d))"
    "v \<in> CR_gamma (numeric d) \<Longrightarrow> inside d (rd (\<not> SD_IsUnsigned d) v)"
proof -
  let ?u = "SD_IsUnsigned d"
  have m: "SInt_wf (CR_MinValue (numeric d) ?u)" "width (CR_MinValue (numeric d) ?u) = SD_Width d"
    "SInt_wf (CR_MaxValue (numeric d) ?u)" "width (CR_MaxValue (numeric d) ?u) = SD_Width d"
    using d by (simp_all add: CR_MinValue_def CR_MaxValue_def SD_Width_def)
  show "(if ?u then 0 else - half (SD_Width d)) \<le> domainLower d"
    "domainUpper d < (if ?u then modulus (SD_Width d) else half (SD_Width d))"
    using rd_bounds [OF m(1), of "\<not> ?u"] rd_bounds [OF m(3), of "\<not> ?u"] m
    by (simp_all add: domain_ends ToMathematicalInteger_rd split: if_splits)
  show "inside d (rd (\<not> ?u) v)" if "v \<in> CR_gamma (numeric d)"
    using MinMaxValue_bounds [OF d that] by (simp add: inside_def domain_ends)
qed

text \<open>An integer between two readings of the width is a reading of the width.\<close>

lemma make_between:
  assumes "SInt_wf a" "width a = w" "SInt_wf b" "width b = w" "rd s a \<le> k" "k \<le> rd s b"
  shows "rd s (SInt_make w (word_of_int k)) = k"
  using rd_bounds [OF assms(1), of s] rd_bounds [OF assms(3), of s] assms by (intro rd_make_of_int) auto

section \<open>Clamping\<close>

lemma stride_le_1: "frag_stride f \<le> 1 \<longleftrightarrow> \<not> 1 < uint (frag_stride f)"
  by (simp add: word_le_def not_less)

definition renormal :: "SIntIntervalFragment \<Rightarrow> SIntIntervalFragment" where
  "renormal f = (if frag_stride f \<le> 1 then f\<lparr>frag_stride := 1, frag_residue := 0\<rparr>
     else f\<lparr>frag_residue := frag_residue f mod frag_stride f\<rparr>)"

lemma renormal_facts:
  "frag_lower (renormal f) = frag_lower f" "frag_upper (renormal f) = frag_upper f"
  "on_progression (frag_stride (renormal f)) (frag_residue (renormal f)) k \<longleftrightarrow>
     on_progression (frag_stride f) (frag_residue f) k"
  "1 \<le> uint (frag_stride (renormal f))" "uint (frag_residue (renormal f)) < uint (frag_stride (renormal f))"
  by (auto simp: renormal_def stride_le_1 on_progression_def [of "frag_stride f"] uint_mod)

lemma frag_ends_renormal: "frag_ends w (renormal f) \<longleftrightarrow> frag_ends w f"
  by (simp add: frag_ends_def renormal_facts)

lemma fragment_clamp_eq:
  "fragment_clamp d f =
     (let f = renormal f; lo = ToMathematicalInteger (frag_lower f) (SD_IsUnsigned d);
          hi = ToMathematicalInteger (frag_upper f) (SD_IsUnsigned d)
      in if width (frag_lower f) \<noteq> SD_Width d \<or> width (frag_upper f) \<noteq> SD_Width d \<or> lo > hi then None
         else if \<not> hasConvexBounds d then
           (if \<not> ExactValueSatisfiesDomain (frag_lower f) d \<or> \<not> ExactValueSatisfiesDomain (frag_upper f) d
            then None else Some f)
         else if max lo (domainLower d) > min hi (domainUpper d) then None
         else Some (f\<lparr>frag_lower := SInt_make (SD_Width d) (word_of_int (max lo (domainLower d))),
                      frag_upper := SInt_make (SD_Width d) (word_of_int (min hi (domainUpper d)))\<rparr>))"
  by (simp add: fragment_clamp_def renormal_def Let_def)

lemma clamp_ends:
  assumes d: "CR_wf (numeric d)" and f: "frag_ends (SD_Width d) f"
    and le: "max (rd (\<not> SD_IsUnsigned d) (frag_lower f)) (domainLower d) \<le>
      min (rd (\<not> SD_IsUnsigned d) (frag_upper f)) (domainUpper d)"
  shows "rd (\<not> SD_IsUnsigned d) (SInt_make (SD_Width d) (word_of_int
      (max (rd (\<not> SD_IsUnsigned d) (frag_lower f)) (domainLower d)))) =
      max (rd (\<not> SD_IsUnsigned d) (frag_lower f)) (domainLower d)"
    "rd (\<not> SD_IsUnsigned d) (SInt_make (SD_Width d) (word_of_int
      (min (rd (\<not> SD_IsUnsigned d) (frag_upper f)) (domainUpper d)))) =
      min (rd (\<not> SD_IsUnsigned d) (frag_upper f)) (domainUpper d)"
  using f le by (auto simp: frag_ends_def intro!: make_between [of "frag_lower f" _ "frag_upper f"])

lemma fragment_clamp_normal:
  assumes d: "CR_wf (numeric d)" and f: "frag_ends (SD_Width d) f" and r: "fragment_clamp d f = Some g"
  shows "frag_clamped (SD_Width d) (SD_IsUnsigned d) g"
proof (cases "hasConvexBounds d")
  case True
  let ?lo = "max (rd (\<not> SD_IsUnsigned d) (frag_lower f)) (domainLower d)"
    and ?hi = "min (rd (\<not> SD_IsUnsigned d) (frag_upper f)) (domainUpper d)"
  have m: "ToMathematicalInteger (frag_lower f) (SD_IsUnsigned d) = rd (\<not> SD_IsUnsigned d) (frag_lower f)"
    "ToMathematicalInteger (frag_upper f) (SD_IsUnsigned d) = rd (\<not> SD_IsUnsigned d) (frag_upper f)"
    using f by (simp_all add: math_rd)
  have g: "\<not> ?lo > ?hi" "g = renormal f\<lparr>frag_lower := SInt_make (SD_Width d) (word_of_int ?lo),
      frag_upper := SInt_make (SD_Width d) (word_of_int ?hi)\<rparr>"
    using r True unfolding fragment_clamp_eq Let_def renormal_facts m by (simp_all split: if_splits)
  then show ?thesis using clamp_ends [OF d f] renormal_facts(4,5) [of f]
    by (simp add: frag_clamped_def frag_ends_def not_less)
next
  case False
  then show ?thesis using r f
    by (auto simp: fragment_clamp_eq Let_def frag_clamped_def frag_ends_def renormal_facts ToMathematicalInteger_rd
        split: if_splits)
qed

lemma fragment_clamp_convex:
  assumes d: "CR_wf (numeric d)" "hasConvexBounds d" and f: "frag_ends (SD_Width d) f"
  shows "(\<exists>g. fragment_clamp d f = Some g \<and> frag_holds (SD_IsUnsigned d) g k) \<longleftrightarrow>
    frag_holds (SD_IsUnsigned d) f k \<and> inside d k"
proof -
  let ?lo = "rd (\<not> SD_IsUnsigned d) (frag_lower f)" and ?hi = "rd (\<not> SD_IsUnsigned d) (frag_upper f)"
  show ?thesis
  proof (cases "?lo \<le> ?hi \<and> max ?lo (domainLower d) \<le> min ?hi (domainUpper d)")
    case True
    then show ?thesis using clamp_ends [OF d(1) f] f d(2)
      by (auto simp: fragment_clamp_eq Let_def frag_holds_def inside_def renormal_facts frag_ends_def ToMathematicalInteger_rd)
  next
    case False
    then have "fragment_clamp d f = None"
      using f d(2) by (auto simp: fragment_clamp_eq Let_def renormal_facts frag_ends_def ToMathematicalInteger_rd)
    then show ?thesis using False by (auto simp: frag_holds_def inside_def)
  qed
qed

lemma fragment_clamp_wrapped:
  assumes d: "\<not> hasConvexBounds d" and f: "frag_ends (SD_Width d) f" "frag_holds (SD_IsUnsigned d) f k"
    and sat: "ExactValueSatisfiesDomain (frag_lower f) d" "ExactValueSatisfiesDomain (frag_upper f) d"
  shows "\<exists>g. fragment_clamp d f = Some g \<and> frag_holds (SD_IsUnsigned d) g k"
  using assms by (auto simp: fragment_clamp_eq Let_def renormal_facts frag_ends_def frag_holds_def ToMathematicalInteger_rd)

section \<open>Alignment\<close>

lemma smod_pos: "0 \<le> k \<Longrightarrow> 0 < s \<Longrightarrow> k smod s = k mod (s :: int)"
  by (cases "k = 0") (simp_all add: signed_modulo_int_def)

lemma align_up:
  fixes a r s k :: int
  assumes "0 < s" "0 \<le> r" "r < s"
  defines "a' \<equiv> a + (r - a mod s + s) smod s"
  shows "a' mod s = r" "a \<le> a'" "k mod s = r \<Longrightarrow> a \<le> k \<Longrightarrow> a' \<le> k"
proof -
  have b: "0 \<le> a mod s" "a mod s < s" using assms by simp_all
  then have "(r - a mod s + s) smod s = (r - a mod s + s) mod s"
    using assms by (intro smod_pos) linarith+
  then have a': "a' = a + (r - a) mod s" unfolding a'_def by (simp add: mod_diff_right_eq)
  show "a' mod s = r" unfolding a' using assms by (simp add: mod_add_right_eq)
  show "a \<le> a'" unfolding a' using assms by simp
  show "a' \<le> k" if "k mod s = r" "a \<le> k"
  proof -
    have "(r - a) mod s = (k - a) mod s" using that(1) by (metis mod_diff_left_eq)
    also have "\<dots> \<le> k - a" using that(2) assms by (intro zmod_le_nonneg_dividend) simp
    finally show ?thesis unfolding a' by simp
  qed
qed

lemma align_down:
  fixes a r s k :: int
  assumes "0 < s" "0 \<le> r" "r < s"
  defines "a' \<equiv> a - (a mod s - r + s) smod s"
  shows "a' mod s = r" "a' \<le> a" "k mod s = r \<Longrightarrow> k \<le> a \<Longrightarrow> k \<le> a'"
proof -
  have b: "0 \<le> a mod s" "a mod s < s" using assms by simp_all
  then have "(a mod s - r + s) smod s = (a mod s - r + s) mod s"
    using assms by (intro smod_pos) linarith+
  then have a': "a' = a - (a - r) mod s" unfolding a'_def by (simp add: mod_diff_left_eq)
  show "a' mod s = r" unfolding a' using assms by (simp add: mod_diff_right_eq)
  show "a' \<le> a" unfolding a' using assms by simp
  show "k \<le> a'" if "k mod s = r" "k \<le> a"
  proof -
    have "(a - r) mod s = (a - k) mod s" using that(1) by (metis mod_diff_right_eq)
    also have "\<dots> \<le> a - k" using that(2) assms by (intro zmod_le_nonneg_dividend) simp
    finally show ?thesis unfolding a' by simp
  qed
qed

definition aligned_lower :: "bool \<Rightarrow> SIntIntervalFragment \<Rightarrow> int" where
  "aligned_lower uns f = (let a = rd (\<not> uns) (frag_lower f); s = uint (frag_stride f)
     in a + (uint (frag_residue f) - a mod s + s) smod s)"

definition aligned_upper :: "bool \<Rightarrow> SIntIntervalFragment \<Rightarrow> int" where
  "aligned_upper uns f = (let a = rd (\<not> uns) (frag_upper f); s = uint (frag_stride f)
     in a - (a mod s - uint (frag_residue f) + s) smod s)"

lemma fragment_align_eq:
  assumes "frag_clamped (SD_Width d) (SD_IsUnsigned d) f" "frag_stride f \<noteq> 1"
  shows "fragment_align d f =
    (if aligned_lower (SD_IsUnsigned d) f > aligned_upper (SD_IsUnsigned d) f then None
     else Some (f\<lparr>frag_lower := SInt_make (SD_Width d) (word_of_int (aligned_lower (SD_IsUnsigned d) f)),
       frag_upper := SInt_make (SD_Width d) (word_of_int (aligned_upper (SD_IsUnsigned d) f))\<rparr>))"
proof -
  have s: "0 < uint (frag_stride f)" using assms(1) by (simp add: frag_clamped_def)
  have m: "ToMathematicalInteger (frag_lower f) (SD_IsUnsigned d) = rd (\<not> SD_IsUnsigned d) (frag_lower f)"
    "ToMathematicalInteger (frag_upper f) (SD_IsUnsigned d) = rd (\<not> SD_IsUnsigned d) (frag_upper f)"
    using assms(1) by (simp_all add: frag_clamped_def frag_ends_def ToMathematicalInteger_rd)
  show ?thesis
    unfolding fragment_align_def Let_def smod_fix [OF s] m aligned_lower_def aligned_upper_def
    using assms(2) by (simp only: if_False)
qed

lemma fragment_align_facts:
  assumes f: "frag_clamped (SD_Width d) (SD_IsUnsigned d) f"
  shows "(\<exists>g. fragment_align d f = Some g \<and> frag_holds (SD_IsUnsigned d) g k) \<longleftrightarrow> frag_holds (SD_IsUnsigned d) f k"
    "fragment_align d f = Some g \<Longrightarrow> frag_normal (SD_Width d) (SD_IsUnsigned d) g"
proof -
  let ?u = "SD_IsUnsigned d" and ?s = "uint (frag_stride f)" and ?r = "uint (frag_residue f)"
  have "((\<exists>g. fragment_align d f = Some g \<and> frag_holds ?u g k) \<longleftrightarrow> frag_holds ?u f k) \<and>
    (\<forall>g. fragment_align d f = Some g \<longrightarrow> frag_normal (SD_Width d) ?u g)"
  proof (cases "frag_stride f = 1")
    case True
    then show ?thesis using f by (simp add: fragment_align_def frag_normal_def)
  next
    case False
    have r: "0 < ?s" "0 \<le> ?r" "?r < ?s" "?s \<noteq> 1" using f False by (auto simp: frag_clamped_def word_uint_eq_iff)
    then have "1 < ?s" by linarith
    with r have p: "on_progression (frag_stride f) (frag_residue f) j \<longleftrightarrow> j mod ?s = ?r" for j
      by (auto simp: on_progression_def)
    let ?l = "aligned_lower ?u f" and ?h = "aligned_upper ?u f"
    note lo = align_up [OF r(1-3), where a = "rd (\<not> ?u) (frag_lower f)", folded aligned_lower_def [unfolded Let_def]]
      and hi = align_down [OF r(1-3), where a = "rd (\<not> ?u) (frag_upper f)", folded aligned_upper_def [unfolded Let_def]]
    have e: "rd (\<not> ?u) (SInt_make (SD_Width d) (word_of_int ?l)) = ?l \<and>
        rd (\<not> ?u) (SInt_make (SD_Width d) (word_of_int ?h)) = ?h" if "?l \<le> ?h"
      using f lo(2) hi(2) that
      by (auto simp: frag_clamped_def frag_ends_def intro!: make_between [of "frag_lower f" _ "frag_upper f"])
    have iff: "frag_holds ?u f k \<longleftrightarrow> ?l \<le> k \<and> k \<le> ?h \<and> k mod ?s = ?r"
      using lo(2) lo(3) [of k] hi(2) hi(3) [of k] by (auto simp: frag_holds_def p)
    show ?thesis
    proof (cases "?l \<le> ?h")
      case True
      then show ?thesis using e [OF True] iff f lo(1) hi(1)
        by (auto simp: fragment_align_eq [OF f False] frag_holds_def p frag_normal_def frag_clamped_def frag_ends_def)
    next
      case False
      then show ?thesis using iff by (auto simp: fragment_align_eq [OF f \<open>frag_stride f \<noteq> 1\<close>])
    qed
  qed
  then show "(\<exists>g. fragment_align d f = Some g \<and> frag_holds ?u g k) \<longleftrightarrow> frag_holds ?u f k"
    "fragment_align d f = Some g \<Longrightarrow> frag_normal (SD_Width d) ?u g" by blast+
qed

section \<open>Joining neighbours\<close>

lemma normal_math:
  "frag_normal w uns f \<Longrightarrow> ToMathematicalInteger (frag_lower f) uns = rd (\<not> uns) (frag_lower f)"
  "frag_normal w uns f \<Longrightarrow> ToMathematicalInteger (frag_upper f) uns = rd (\<not> uns) (frag_upper f)"
  using math_rd [of w f uns] by (simp_all add: frag_normal_def frag_clamped_def)

lemma frag_normal_le: "frag_normal w uns f \<Longrightarrow> rd (\<not> uns) (frag_lower f) \<le> rd (\<not> uns) (frag_upper f)"
  by (simp add: frag_normal_def frag_clamped_def)

text \<open>Two members of a progression at most one stride apart have nothing between them.\<close>

lemma progression_gap:
  assumes "on_progression s r a" "on_progression s r k" "1 \<le> uint s" "a < k"
  shows "a + uint s \<le> k"
proof (cases "1 < uint s")
  case True
  then have "uint s dvd k - a" using assms(1,2) by (simp add: on_progression_def mod_eq_dvd_iff [symmetric])
  then show ?thesis using assms(4) zdvd_imp_le [of "uint s" "k - a"] by simp
qed (use assms in simp)

lemma join_neighbours:
  assumes b: "frag_normal w uns b" and f: "frag_normal w uns f"
    and same: "frag_stride f = frag_stride b" "frag_residue f = frag_residue b"
    and lo: "rd (\<not> uns) (frag_lower b) \<le> rd (\<not> uns) (frag_lower f)"
    and near: "rd (\<not> uns) (frag_lower f) \<le> rd (\<not> uns) (frag_upper b) + uint (frag_stride f)"
    and up: "rd (\<not> uns) (frag_upper b) < rd (\<not> uns) (frag_upper f)"
  shows "frag_normal w uns (b\<lparr>frag_upper := frag_upper f\<rparr>)"
    "frag_holds uns (b\<lparr>frag_upper := frag_upper f\<rparr>) k \<longleftrightarrow> frag_holds uns b k \<or> frag_holds uns f k"
proof -
  show "frag_normal w uns (b\<lparr>frag_upper := frag_upper f\<rparr>)"
    using b f same up by (auto simp: frag_normal_def frag_clamped_def frag_ends_def)
  have "rd (\<not> uns) (frag_lower f) \<le> k" if k: "rd (\<not> uns) (frag_upper b) < k" "on_progression (frag_stride f) (frag_residue f) k"
    using progression_gap [of "frag_stride f" "frag_residue f" "rd (\<not> uns) (frag_upper b)" k] k b same near
    by (simp add: frag_normal_def frag_clamped_def)
  then show "frag_holds uns (b\<lparr>frag_upper := frag_upper f\<rparr>) k \<longleftrightarrow> frag_holds uns b k \<or> frag_holds uns f k"
    using lo up same frag_normal_le [OF f]
    by (cases "rd (\<not> uns) (frag_upper b) < k") (auto simp: frag_holds_def)
qed

definition joined_ok :: "IntWidth \<Rightarrow> bool \<Rightarrow> SIntIntervalFragment list \<Rightarrow> SIntIntervalFragment \<Rightarrow> bool" where
  "joined_ok w uns normalized f \<longleftrightarrow> (\<forall>g \<in> set normalized. frag_normal w uns g) \<and>
     (normalized \<noteq> [] \<longrightarrow> rd (\<not> uns) (frag_lower (last normalized)) \<le> rd (\<not> uns) (frag_lower f))"

lemma fragment_join_facts:
  assumes n: "joined_ok w uns normalized f" and f: "frag_normal w uns f"
  shows "\<forall>g \<in> set (fragment_join uns normalized f). frag_normal w uns g"
    "rd (\<not> uns) (frag_lower (last (fragment_join uns normalized f))) \<le> rd (\<not> uns) (frag_lower f)"
    "frags_say uns (fragment_join uns normalized f) k \<longleftrightarrow> frags_say uns normalized k \<or> frag_holds uns f k"
proof -
  have goal: "(\<forall>g \<in> set (fragment_join uns normalized f). frag_normal w uns g) \<and>
    rd (\<not> uns) (frag_lower (last (fragment_join uns normalized f))) \<le> rd (\<not> uns) (frag_lower f) \<and>
    (frags_say uns (fragment_join uns normalized f) k \<longleftrightarrow> frags_say uns normalized k \<or> frag_holds uns f k)"
  proof (cases normalized rule: rev_cases)
    case Nil
    then show ?thesis using f by (simp add: fragment_join_def)
  next
    case (snoc bs b)
    then have b: "frag_normal w uns b" and bs: "\<forall>g \<in> set bs. frag_normal w uns g"
      and lo: "rd (\<not> uns) (frag_lower b) \<le> rd (\<not> uns) (frag_lower f)" using n by (simp_all add: joined_ok_def)
    have m: "ToMathematicalInteger (frag_lower f) uns = rd (\<not> uns) (frag_lower f)"
      "ToMathematicalInteger (frag_upper f) uns = rd (\<not> uns) (frag_upper f)"
      "ToMathematicalInteger (frag_upper b) uns = rd (\<not> uns) (frag_upper b)" using b f by (simp_all add: normal_math)
    have e: "fragment_join uns normalized f =
        (if \<not> (frag_stride f = frag_stride b \<and> frag_residue f = frag_residue b) \<or>
            rd (\<not> uns) (frag_upper b) + uint (frag_stride f) < rd (\<not> uns) (frag_lower f) then normalized @ [f]
         else if rd (\<not> uns) (frag_upper b) < rd (\<not> uns) (frag_upper f)
         then bs @ [b\<lparr>frag_upper := frag_upper f\<rparr>] else normalized)"
      unfolding fragment_join_def Let_def snoc by (simp add: m)
    consider (new) "fragment_join uns normalized f = normalized @ [f]"
      | (grow) "fragment_join uns normalized f = bs @ [b\<lparr>frag_upper := frag_upper f\<rparr>]"
          "frag_stride f = frag_stride b" "frag_residue f = frag_residue b"
          "rd (\<not> uns) (frag_lower f) \<le> rd (\<not> uns) (frag_upper b) + uint (frag_stride f)"
          "rd (\<not> uns) (frag_upper b) < rd (\<not> uns) (frag_upper f)"
      | (skip) "fragment_join uns normalized f = normalized" "frag_stride f = frag_stride b"
          "frag_residue f = frag_residue b" "rd (\<not> uns) (frag_upper f) \<le> rd (\<not> uns) (frag_upper b)"
      using e by (metis not_less)
    then show ?thesis
    proof cases
      case new
      then show ?thesis using snoc bs b f by auto
    next
      case grow
      note j = join_neighbours [OF b f grow(2,3) lo grow(4,5)]
      show ?thesis using grow(1) snoc j(1) j(2) [of k] bs lo by auto
    next
      case skip
      have "frag_holds uns f k \<Longrightarrow> frag_holds uns b k" using skip lo by (auto simp: frag_holds_def)
      then show ?thesis using skip(1) snoc b bs lo by auto
    qed
  qed
  then show "\<forall>g \<in> set (fragment_join uns normalized f). frag_normal w uns g"
    "rd (\<not> uns) (frag_lower (last (fragment_join uns normalized f))) \<le> rd (\<not> uns) (frag_lower f)"
    "frags_say uns (fragment_join uns normalized f) k \<longleftrightarrow> frags_say uns normalized k \<or> frag_holds uns f k"
    by blast+
qed

lemma join_pass:
  assumes "\<forall>f \<in> set fs. frag_normal w uns f" "sorted (map (\<lambda>f. rd (\<not> uns) (frag_lower f)) fs)"
    "\<forall>g \<in> set acc. frag_normal w uns g" "\<forall>f \<in> set fs. joined_ok w uns acc f"
  shows "(\<forall>g \<in> set (foldl (fragment_join uns) acc fs). frag_normal w uns g) \<and>
    (frags_say uns (foldl (fragment_join uns) acc fs) k \<longleftrightarrow> frags_say uns acc k \<or> frags_say uns fs k)"
  using assms
proof (induction fs arbitrary: acc)
  case (Cons f fs)
  have f: "frag_normal w uns f" "joined_ok w uns acc f" using Cons.prems by simp_all
  note j = fragment_join_facts [OF f(2,1)]
  have "joined_ok w uns (fragment_join uns acc f) g" if "g \<in> set fs" for g
    using j(1,2) Cons.prems(2) that by (auto simp: joined_ok_def intro: order_trans)
  then show ?case using Cons.IH [of "fragment_join uns acc f"] Cons.prems j(1) j(3) [of k] by auto
qed simp

section \<open>Dropping contained fragments\<close>

lemma fragment_contains_holds:
  assumes o': "frag_normal w uns a" and i: "frag_normal w uns b" and c: "fragment_contains uns a b" and k: "frag_holds uns b k"
  shows "frag_holds uns a k"
proof -
  let ?s = "uint (frag_stride a)"
  have m: "ToMathematicalInteger (frag_lower a) uns = rd (\<not> uns) (frag_lower a)"
    "ToMathematicalInteger (frag_upper a) uns = rd (\<not> uns) (frag_upper a)"
    "ToMathematicalInteger (frag_lower b) uns = rd (\<not> uns) (frag_lower b)"
    "ToMathematicalInteger (frag_upper b) uns = rd (\<not> uns) (frag_upper b)" using o' i by (simp_all add: normal_math)
  have r: "0 < ?s" "uint (frag_residue a) < ?s" "1 \<le> uint (frag_stride b)"
    using o' i by (simp_all add: frag_normal_def frag_clamped_def)
  have le: "rd (\<not> uns) (frag_lower a) \<le> rd (\<not> uns) (frag_lower b)" "rd (\<not> uns) (frag_upper b) \<le> rd (\<not> uns) (frag_upper a)"
    using c by (auto simp: fragment_contains_def m Let_def split: if_splits)
  have "on_progression (frag_stride a) (frag_residue a) k" if ns: "1 < ?s"
  proof (cases "SInt_eq (frag_lower b) (frag_upper b)")
    case True
    then have "frag_lower b = frag_upper b" using i by (simp add: frag_normal_def frag_clamped_def frag_ends_def SInt_eq_iff)
    then have kb: "k = rd (\<not> uns) (frag_lower b)" using k by (simp add: frag_holds_def)
    have "frag_stride a \<noteq> 1" using ns by (intro notI) simp
    then have "CanonicalResidue k (frag_stride a) = frag_residue a"
      using c True le by (simp add: fragment_contains_def m Let_def kb)
    then have "uint (frag_residue a) = k mod ?s" using uint_CanonicalResidue [OF r(1), of k] by simp
    then show ?thesis using r(1,2) by (simp add: on_progression_def)
  next
    case False
    have "frag_stride a \<noteq> 1" using ns by (intro notI) simp
    then have "frag_stride b mod frag_stride a = 0" "frag_residue b mod frag_stride a = frag_residue a"
      using c False le by (simp_all add: fragment_contains_def m Let_def)
    then have d: "?s dvd uint (frag_stride b)" "uint (frag_residue b) mod ?s = uint (frag_residue a)"
      by (simp_all add: dvd_eq_mod_eq_0 flip: uint_mod)
    have "1 < uint (frag_stride b)" using zdvd_imp_le [OF d(1)] ns r(3) by simp
    then have "k mod uint (frag_stride b) = uint (frag_residue b) mod uint (frag_stride b)"
      using k by (simp add: frag_holds_def on_progression_def)
    then have "k mod uint (frag_stride b) mod ?s = uint (frag_residue b) mod uint (frag_stride b) mod ?s" by simp
    then have "k mod ?s = uint (frag_residue b) mod ?s" by (simp only: mod_mod_cancel [OF d(1)])
    then show ?thesis using d(2) r(1,2) by (simp add: on_progression_def)
  qed
  moreover have "on_progression (frag_stride a) (frag_residue a) k" if "\<not> 1 < ?s"
    using that by (simp add: on_progression_def)
  ultimately show ?thesis using k le by (auto simp: frag_holds_def)
qed

lemma reduce_pass:
  assumes "\<forall>f \<in> set fs. frag_normal w uns f" "\<forall>g \<in> set acc. frag_normal w uns g"
  shows "(\<forall>g \<in> set (foldl (fragment_reduce uns) acc fs). frag_normal w uns g) \<and>
    (frags_say uns (foldl (fragment_reduce uns) acc fs) k \<longleftrightarrow> frags_say uns acc k \<or> frags_say uns fs k)"
  using assms
proof (induction fs arbitrary: acc)
  case (Cons f fs)
  have f: "frag_normal w uns f" using Cons.prems(1) by simp
  have n: "\<forall>g \<in> set (fragment_reduce uns acc f). frag_normal w uns g"
    using Cons.prems(2) f by (auto simp: fragment_reduce_def)
  have "frags_say uns (fragment_reduce uns acc f) k \<longleftrightarrow> frags_say uns acc k \<or> frag_holds uns f k"
  proof (cases "list_ex (\<lambda>g. fragment_contains uns g f) acc")
    case True
    then obtain g where g: "g \<in> set acc" "fragment_contains uns g f" by (auto simp: list_ex_iff)
    then have "frag_holds uns f k \<Longrightarrow> frags_say uns acc k"
      using fragment_contains_holds [of w uns g f k] Cons.prems(2) f by (auto simp: frags_say_def)
    then show ?thesis using True by (auto simp: fragment_reduce_def)
  next
    case False
    have "frag_holds uns f k" if "g \<in> set acc" "fragment_contains uns f g" "frag_holds uns g k" for g
      using fragment_contains_holds [OF f _ that(2,3)] Cons.prems(2) that(1) by blast
    then show ?thesis using False by (auto simp: fragment_reduce_def frags_say_def)
  qed
  then show ?case using Cons.IH [OF _ n] Cons.prems(1) by auto
qed simp

section \<open>Normalisation and refinement\<close>

definition frags_hold :: "bool \<Rightarrow> SIntIntervalFragment list option \<Rightarrow> int \<Rightarrow> bool" where
  "frags_hold uns fs k \<longleftrightarrow> (case fs of None \<Rightarrow> True | Some fs \<Rightarrow> frags_say uns fs k)"

definition frags_wf :: "IntWidth \<Rightarrow> bool \<Rightarrow> SIntIntervalFragment list option \<Rightarrow> bool" where
  "frags_wf w uns fs \<longleftrightarrow> (case fs of None \<Rightarrow> True
     | Some fs \<Rightarrow> fs \<noteq> [] \<and> length fs \<le> 4 \<and> list_all (frag_normal w uns) fs)"

definition frags_ends :: "IntWidth \<Rightarrow> SIntIntervalFragment list option \<Rightarrow> bool" where
  "frags_ends w fs \<longleftrightarrow> (case fs of None \<Rightarrow> True | Some fs \<Rightarrow> list_all (frag_ends w) fs)"

lemma frags_simps [simp]:
  "frags_hold uns None k" "frags_hold uns (Some fs) k \<longleftrightarrow> frags_say uns fs k"
  "frags_wf w uns None"
  "frags_wf w uns (Some fs) \<longleftrightarrow> fs \<noteq> [] \<and> length fs \<le> 4 \<and> (\<forall>f \<in> set fs. frag_normal w uns f)"
  "frags_ends w None" "frags_ends w (Some fs) \<longleftrightarrow> (\<forall>f \<in> set fs. frag_ends w f)"
  by (simp_all add: frags_hold_def frags_wf_def frags_ends_def list_all_iff)

lemma frags_wf_ends: "frags_wf w uns fs \<Longrightarrow> frags_ends w fs"
  by (cases fs) (auto simp: frag_normal_def frag_clamped_def)

lemma fragment_lt_measure:
  "fragment_lt uns f g \<Longrightarrow> ToMathematicalInteger (frag_lower f) uns \<le> ToMathematicalInteger (frag_lower g) uns"
  "\<not> fragment_lt uns f g \<Longrightarrow> ToMathematicalInteger (frag_lower g) uns \<le> ToMathematicalInteger (frag_lower f) uns"
  by (auto simp: fragment_lt_def Let_def split: if_splits)

text \<open>The passes after clamping keep the integers and end in normal fragments.\<close>

lemma after_clamping:
  assumes c: "\<forall>f \<in> set fs. frag_clamped (SD_Width d) (SD_IsUnsigned d) f" and uns: "uns = SD_IsUnsigned d"
    and g: "gs = std_sort (fragment_lower_lt uns) (foldl (fragment_reduce uns) []
      (foldl (fragment_join uns) [] (std_sort (fragment_lt uns) (std_retain (fragment_align d) fs))))"
  shows "\<forall>g \<in> set gs. frag_normal (SD_Width d) uns g" "frags_say uns gs k \<longleftrightarrow> frags_say uns fs k"
proof -
  let ?al = "std_retain (fragment_align d) fs"
  let ?so = "std_sort (fragment_lt uns) ?al"
  have n: "\<forall>f \<in> set ?so. frag_normal (SD_Width d) uns f"
    using c fragment_align_facts(2) by (auto simp: std_retain_set uns)
  have say: "frags_say uns ?al k \<longleftrightarrow> frags_say uns fs k"
    using c fragment_align_facts(1) [of d _ k] by (auto simp: frags_say_def std_retain_set uns) metis+
  have "sorted (map (\<lambda>f. ToMathematicalInteger (frag_lower f) uns) ?so)"
    by (rule std_sort_sorted) (rule fragment_lt_measure, assumption)+
  moreover have "map (\<lambda>f. ToMathematicalInteger (frag_lower f) uns) ?so = map (\<lambda>f. rd (\<not> uns) (frag_lower f)) ?so"
    using n normal_math(1) by (intro map_cong refl) blast
  ultimately have sorted: "sorted (map (\<lambda>f. rd (\<not> uns) (frag_lower f)) ?so)" by simp
  have j: "(\<forall>g \<in> set (foldl (fragment_join uns) [] ?so). frag_normal (SD_Width d) uns g) \<and>
      (frags_say uns (foldl (fragment_join uns) [] ?so) k \<longleftrightarrow> frags_say uns ?al k)"
    using join_pass [OF n sorted, of "[]" k] by (simp add: joined_ok_def)
  show "\<forall>g \<in> set gs. frag_normal (SD_Width d) uns g" "frags_say uns gs k \<longleftrightarrow> frags_say uns fs k"
    using reduce_pass [of "foldl (fragment_join uns) [] ?so" "SD_Width d" uns "[]" k] j say g by auto
qed

lemma Normalize_unfold:
  assumes "NormalizeSIntIntervalFragments fs d = Some gs"
  shows "gs = std_sort (fragment_lower_lt (SD_IsUnsigned d)) (foldl (fragment_reduce (SD_IsUnsigned d)) []
      (foldl (fragment_join (SD_IsUnsigned d)) [] (std_sort (fragment_lt (SD_IsUnsigned d))
        (std_retain (fragment_align d) (std_retain (fragment_clamp d) fs)))))"
    "gs \<noteq> []" "length gs \<le> 4"
  using assms by (auto simp: NormalizeSIntIntervalFragments_def Let_def MAX_DISJOINT_SINT_INTERVALS_def split: if_splits)

lemma clamped_all:
  "CR_wf (numeric d) \<Longrightarrow> \<forall>f \<in> set fs. frag_ends (SD_Width d) f \<Longrightarrow>
   \<forall>f \<in> set (std_retain (fragment_clamp d) fs). frag_clamped (SD_Width d) (SD_IsUnsigned d) f"
  using fragment_clamp_normal by (auto simp: std_retain_set)

lemma Normalize_wf:
  assumes "CR_wf (numeric d)" "\<forall>f \<in> set fs. frag_ends (SD_Width d) f"
  shows "frags_wf (SD_Width d) (SD_IsUnsigned d) (NormalizeSIntIntervalFragments fs d)"
proof (cases "NormalizeSIntIntervalFragments fs d")
  case (Some gs)
  note u = Normalize_unfold [OF Some]
  show ?thesis using after_clamping(1) [OF clamped_all [OF assms] refl u(1)] u(2,3) Some by simp
qed simp

text \<open>On a convex domain the normalised fragments are exactly the part of the given ones
  between the bounds.\<close>

lemma Normalize_exact:
  assumes "CR_wf (numeric d)" "hasConvexBounds d" "\<forall>f \<in> set fs. frag_ends (SD_Width d) f"
    and "NormalizeSIntIntervalFragments fs d = Some gs"
  shows "frags_say (SD_IsUnsigned d) gs k \<longleftrightarrow> frags_say (SD_IsUnsigned d) fs k \<and> inside d k"
proof -
  note u = Normalize_unfold [OF assms(4)]
  have "frags_say (SD_IsUnsigned d) gs k \<longleftrightarrow> frags_say (SD_IsUnsigned d) (std_retain (fragment_clamp d) fs) k"
    by (rule after_clamping(2) [OF clamped_all [OF assms(1,3)] refl u(1)])
  also have "\<dots> \<longleftrightarrow> (\<exists>f \<in> set fs. \<exists>g. fragment_clamp d f = Some g \<and> frag_holds (SD_IsUnsigned d) g k)"
    by (auto simp: frags_say_def std_retain_set)
  also have "\<dots> \<longleftrightarrow> (\<exists>f \<in> set fs. frag_holds (SD_IsUnsigned d) f k \<and> inside d k)"
    using fragment_clamp_convex [OF assms(1,2)] assms(3) by (intro bex_cong refl) blast
  finally show ?thesis by (auto simp: frags_say_def)
qed

text \<open>On a wrapped domain a fragment is kept when the domain holds its ends.\<close>

lemma Normalize_wrapped:
  assumes "CR_wf (numeric d)" "\<not> hasConvexBounds d" "\<forall>f \<in> set fs. frag_ends (SD_Width d) f"
    and "NormalizeSIntIntervalFragments fs d = Some gs" "f \<in> set fs" "frag_holds (SD_IsUnsigned d) f k"
    and "ExactValueSatisfiesDomain (frag_lower f) d" "ExactValueSatisfiesDomain (frag_upper f) d"
  shows "frags_say (SD_IsUnsigned d) gs k"
proof -
  note u = Normalize_unfold [OF assms(4)]
  have "frags_say (SD_IsUnsigned d) (std_retain (fragment_clamp d) fs) k"
    using fragment_clamp_wrapped [OF assms(2) _ assms(6-8)] assms(3,5) by (force simp: frags_say_def std_retain_set)
  then show ?thesis using after_clamping(2) [OF clamped_all [OF assms(1,3)] refl u(1), of k] by simp
qed

lemma find_sorted:
  "sorted_wrt (\<lambda>x y. address (fst x) < address (fst y)) m \<Longrightarrow> (s, b) \<in> set m \<Longrightarrow>
   find (\<lambda>(t, c). address t = address s) m = Some (s, b)"
  by (induction m) auto

lemma Satisfies_member:
  assumes d: "SD_wf d" and m: "SD_models \<sigma> d v0" and v: "v \<in> CR_gamma (numeric d)"
  shows "ExactValueSatisfiesDomain v d"
proof -
  let ?k = "rd (\<not> unsignedFlag d) v"
  have ne: "\<exists>e. diff_in b e" if "(s, b) \<in> set (symbolics d)" for s b
    using that m by (auto simp: SD_models_iff bounds_hold_def)
  define \<tau> where "\<tau> a = (case find (\<lambda>(s, b). address s = a) (symbolics d) of
      None \<Rightarrow> 0 | Some (s, b) \<Rightarrow> ?k - (SOME e. diff_in b e))" for a
  have "diff_in b (?k - \<tau> (address s))" if sb: "(s, b) \<in> set (symbolics d)" for s b
  proof -
    have "find (\<lambda>(t, c). address t = address s) (symbolics d) = Some (s, b)"
      using d sb by (intro find_sorted) (simp_all add: SD_wf_def map_ok_def)
    then show ?thesis using ne [OF sb] by (simp add: \<tau>_def someI_ex)
  qed
  then have "SD_models \<tau> d v" using v by (auto simp: SD_models_iff bounds_hold_def)
  then show ?thesis by (rule Satisfies_models [OF d])
qed

section \<open>Ends inside a wrapped domain\<close>

definition ends_in :: "SIntDomain \<Rightarrow> SIntIntervalFragment \<Rightarrow> bool" where
  "ends_in d f \<longleftrightarrow> frag_lower f \<in> CR_gamma (numeric d) \<and> frag_upper f \<in> CR_gamma (numeric d)"

lemma align_normal:
  assumes f: "frag_normal (SD_Width d) (SD_IsUnsigned d) f" and g: "fragment_align d f = Some g"
  shows "frag_lower g = frag_lower f" "frag_upper g = frag_upper f"
proof -
  let ?u = "SD_IsUnsigned d"
  have c: "frag_clamped (SD_Width d) ?u f" using f by (simp add: frag_normal_def)
  have n: "frag_normal (SD_Width d) ?u g" using fragment_align_facts(2) [OF c g] .
  have same: "frag_holds ?u g k \<longleftrightarrow> frag_holds ?u f k" for k using fragment_align_facts(1) [OF c, of k] g by auto
  have "frag_holds ?u f (rd (\<not> ?u) (frag_lower g))" "frag_holds ?u f (rd (\<not> ?u) (frag_upper g))"
    "frag_holds ?u g (rd (\<not> ?u) (frag_lower f))" "frag_holds ?u g (rd (\<not> ?u) (frag_upper f))"
    using f n frag_normal_le [OF f] frag_normal_le [OF n] same
    by (auto simp flip: same simp: frag_holds_def frag_normal_def)
  then have e: "rd (\<not> ?u) (frag_lower g) = rd (\<not> ?u) (frag_lower f)" "rd (\<not> ?u) (frag_upper g) = rd (\<not> ?u) (frag_upper f)"
    by (auto simp: frag_holds_def)
  have inj: "x = y" if "SInt_wf x" "SInt_wf y" "width x = width y" "rd s x = rd s y" for x y s
    using that sv_inj SInt_ext by (auto simp: rd_def split: if_splits)
  show "frag_lower g = frag_lower f" "frag_upper g = frag_upper f"
    using f n by (auto intro!: inj [OF _ _ _ e(1)] inj [OF _ _ _ e(2)] simp: frag_normal_def frag_clamped_def frag_ends_def)
qed

lemma join_ends:
  assumes "\<forall>g \<in> set acc. ends_in d g" "\<forall>f \<in> set fs. ends_in d f"
  shows "\<forall>g \<in> set (foldl (fragment_join uns) acc fs). ends_in d g"
  using assms
proof (induction fs arbitrary: acc)
  case (Cons f fs)
  have "\<forall>g \<in> set (fragment_join uns acc f). ends_in d g"
  proof (cases acc rule: rev_cases)
    case (snoc bs b)
    then have e: "\<forall>g \<in> set bs. ends_in d g" "ends_in d b" "ends_in d f" using Cons.prems by auto
    then have "ends_in d (b\<lparr>frag_upper := frag_upper f\<rparr>)" by (simp add: ends_in_def)
    then show ?thesis using e by (simp add: fragment_join_def Let_def snoc)
  qed (use Cons.prems in \<open>simp add: fragment_join_def\<close>)
  from Cons.IH [OF this] show ?case using Cons.prems(2) by simp
qed simp

lemma reduce_ends:
  assumes "\<forall>g \<in> set acc. ends_in d g" "\<forall>f \<in> set fs. ends_in d f"
  shows "\<forall>g \<in> set (foldl (fragment_reduce uns) acc fs). ends_in d g"
  using assms
proof (induction fs arbitrary: acc)
  case (Cons f fs)
  have "\<forall>g \<in> set (fragment_reduce uns acc f). ends_in d g"
    using Cons.prems by (auto simp: fragment_reduce_def)
  from Cons.IH [OF this] show ?case using Cons.prems(2) by simp
qed simp

lemma Normalize_ends:
  assumes gs: "NormalizeSIntIntervalFragments fs d = Some gs"
    and a: "\<And>f g h. f \<in> set fs \<Longrightarrow> fragment_clamp d f = Some g \<Longrightarrow> fragment_align d g = Some h \<Longrightarrow> ends_in d h"
  shows "\<forall>g \<in> set gs. ends_in d g"
proof -
  have "\<forall>g \<in> set (std_retain (fragment_align d) (std_retain (fragment_clamp d) fs)). ends_in d g"
    using a by (auto simp: std_retain_set)
  then have "\<forall>g \<in> set (std_sort (fragment_lt (SD_IsUnsigned d))
      (std_retain (fragment_align d) (std_retain (fragment_clamp d) fs))). ends_in d g" by simp
  from reduce_ends [OF _ join_ends [OF _ this, of "[]"], of "[]"] show ?thesis
    unfolding Normalize_unfold(1) [OF gs] by simp
qed

section \<open>Refinement by a congruence\<close>

lemma fragment_refine_holds:
  assumes f: "frag_normal w uns f" and c: "cong_wf (Some c)" "cong_holds (Some c) k" and k: "frag_holds uns f k"
  shows "\<exists>g. fragment_refine uns c f = Some g \<and> frag_holds uns g k"
proof -
  have cs: "1 < uint (stride c)" "uint (residue c) < uint (stride c)" "k mod uint (stride c) = uint (residue c)"
    using c cong_holds_Some [OF c(1)] by simp_all
  then have pc: "on_progression (stride c) (residue c) k" by (simp add: on_progression_def)
  have fr: "1 \<le> uint (frag_stride f)" "uint (frag_residue f) < uint (frag_stride f)"
    using f by (simp_all add: frag_normal_def frag_clamped_def)
  consider (point) "SInt_eq (frag_lower f) (frag_upper f)"
    | (plain) "\<not> SInt_eq (frag_lower f) (frag_upper f)" "frag_stride f \<le> 1"
    | (strided) "\<not> SInt_eq (frag_lower f) (frag_upper f)" "\<not> frag_stride f \<le> 1" by blast
  then show ?thesis
  proof cases
    case point
    then have "frag_lower f = frag_upper f" using f by (simp add: frag_normal_def frag_clamped_def frag_ends_def SInt_eq_iff)
    then have "rd (\<not> uns) (frag_lower f) = k" using k by (simp add: frag_holds_def)
    then have "uint (CanonicalResidue (ToMathematicalInteger (frag_lower f) uns) (stride c)) = uint (residue c)"
      using cs by (simp add: normal_math(1) [OF f] uint_CanonicalResidue)
    then have "CanonicalResidue (ToMathematicalInteger (frag_lower f) uns) (stride c) = residue c"
      by (simp only: word_uint_eq_iff)
    then show ?thesis using point k by (simp add: fragment_refine_def)
  next
    case plain
    then show ?thesis using k pc by (auto simp: fragment_refine_def frag_holds_def)
  next
    case strided
    then have s: "1 < uint (frag_stride f)" by (simp add: stride_le_1)
    then have kf: "k mod uint (frag_stride f) = uint (frag_residue f)"
      using k fr by (simp add: frag_holds_def on_progression_def)
    let ?g = "gcd (uint (frag_stride f)) (uint (stride c))"
    have "?g dvd k - uint (frag_residue f)" "?g dvd k - uint (residue c)"
      using dvd_trans [OF gcd_dvd1] dvd_trans [OF gcd_dvd2] dvd_minus_mod [of "uint (frag_stride f)" k]
        dvd_minus_mod [of "uint (stride c)" k] unfolding kf cs(3) by blast+
    then have "?g dvd \<bar>uint (frag_residue f) - uint (residue c)\<bar>"
      using dvd_diff [of ?g "k - uint (residue c)" "k - uint (frag_residue f)"] by simp
    then have "uint ((if frag_residue f \<ge> residue c then frag_residue f - residue c else residue c - frag_residue f) mod
        (of_nat (gcd (unat (frag_stride f)) (unat (stride c))) :: 64 word)) = 0"
      by (simp only: uint_mod uint_abs_diff gcd_stride [OF s]) (rule dvd_imp_mod_0)
    then have "(if frag_residue f \<ge> residue c then frag_residue f - residue c else residue c - frag_residue f) mod
        (of_nat (gcd (unat (frag_stride f)) (unat (stride c))) :: 64 word) = 0"
      by (simp add: word_uint_eq_iff)
    then show ?thesis using strided k pc by (auto simp: fragment_refine_def Let_def frag_holds_def)
  qed
qed

lemma fragment_refine_ends:
  "fragment_refine uns c f = Some g \<Longrightarrow> frag_lower g = frag_lower f \<and> frag_upper g = frag_upper f"
  by (auto simp: fragment_refine_def Let_def split: if_splits)

lemma Refine_wf:
  assumes d: "CR_wf (numeric d)" and fs: "frags_wf (SD_Width d) (SD_IsUnsigned d) fs"
  shows "frags_wf (SD_Width d) (SD_IsUnsigned d) (RefineSIntIntervalFragmentsByCongruence fs c d)"
proof (cases "fs = None \<or> NormalizeCongruence c = None")
  case False
  then obtain l n where l: "fs = Some l" "NormalizeCongruence c = Some n" by auto
  have "\<forall>f \<in> set (std_retain (fragment_refine (SD_IsUnsigned d) n) l). frag_ends (SD_Width d) f"
    using frags_wf_ends [OF fs] l fragment_refine_ends by (fastforce simp: std_retain_set frag_ends_def)
  then show ?thesis using Normalize_wf [OF d] l by (simp add: RefineSIntIntervalFragmentsByCongruence_def)
qed (use fs in \<open>auto simp: RefineSIntIntervalFragmentsByCongruence_def split: option.split\<close>)

lemma Refine_holds:
  assumes d: "CR_wf (numeric d)" and fs: "frags_wf (SD_Width d) (SD_IsUnsigned d) fs"
    and k: "frags_hold (SD_IsUnsigned d) fs k" "cong_holds c k"
    and dom: "if hasConvexBounds d then inside d k else
      (\<forall>l. fs = Some l \<longrightarrow> (\<forall>f \<in> set l. ExactValueSatisfiesDomain (frag_lower f) d \<and> ExactValueSatisfiesDomain (frag_upper f) d))"
  shows "frags_hold (SD_IsUnsigned d) (RefineSIntIntervalFragmentsByCongruence fs c d) k"
proof (cases "fs = None \<or> NormalizeCongruence c = None")
  case False
  then obtain l n where l: "fs = Some l" "NormalizeCongruence c = Some n" by auto
  let ?r = "std_retain (fragment_refine (SD_IsUnsigned d) n) l"
  have n: "cong_wf (Some n)" "cong_holds (Some n) k"
    using NormalizeCongruence_wf [of c] NormalizeCongruence_holds [of c k] k(2) l(2) by simp_all
  obtain f where f: "f \<in> set l" "frag_holds (SD_IsUnsigned d) f k" using k(1) l(1) by (auto simp: frags_say_def)
  obtain g where g: "fragment_refine (SD_IsUnsigned d) n f = Some g" "frag_holds (SD_IsUnsigned d) g k"
    using fragment_refine_holds [OF _ n f(2)] fs l(1) f(1) by auto
  have gr: "g \<in> set ?r" using f(1) g(1) by (auto simp: std_retain_set)
  have ends: "\<forall>f \<in> set ?r. frag_ends (SD_Width d) f"
    using frags_wf_ends [OF fs] l fragment_refine_ends by (fastforce simp: std_retain_set frag_ends_def)
  show ?thesis
  proof (cases "NormalizeSIntIntervalFragments ?r d")
    case None
    then show ?thesis using l by (simp add: RefineSIntIntervalFragmentsByCongruence_def)
  next
    case (Some gs)
    have "frags_say (SD_IsUnsigned d) gs k"
    proof (cases "hasConvexBounds d")
      case True
      then show ?thesis using Normalize_exact [OF d True ends Some, of k] dom gr g(2) by (auto simp: frags_say_def)
    next
      case False
      then show ?thesis
        using Normalize_wrapped [OF d False ends Some gr g(2)] dom l(1) f(1) fragment_refine_ends [OF g(1)] by simp
    qed
    then show ?thesis using l Some by (simp add: RefineSIntIntervalFragmentsByCongruence_def)
  qed
qed (use k(1) in \<open>auto simp: RefineSIntIntervalFragmentsByCongruence_def split: option.split\<close>)

lemma SIntFragmentContainsValue_iff:
  assumes "frag_normal w uns f" "SInt_wf v"
  shows "SIntFragmentContainsValue f v uns \<longleftrightarrow> frag_holds uns f (rd (\<not> uns) v)"
proof -
  have r: "0 < uint (frag_stride f)" "uint (frag_residue f) < uint (frag_stride f)"
    using assms(1) by (simp_all add: frag_normal_def frag_clamped_def)
  have "CanonicalResidue k (frag_stride f) = frag_residue f \<longleftrightarrow> k mod uint (frag_stride f) = uint (frag_residue f)" for k
    by (simp add: word_uint_eq_iff uint_CanonicalResidue [OF r(1)])
  then show ?thesis using r assms(2)
    by (auto simp: SIntFragmentContainsValue_def Let_def frag_holds_def normal_math [OF assms(1)]
        ToMathematicalInteger_rd on_progression_def stride_le_1)
qed

end
