(* ===== verification/Range_Convex.thy ===== *)
theory Range_Convex
  imports SInt_Fragments
begin

text \<open>
  Which ranges are intervals of the order a domain is read in: the ranges that do not wrap in
  that order. Intersecting with such a range gives one again, or gives back the other operand.
\<close>

definition range_convex :: "bool \<Rightarrow> ConstantRange \<Rightarrow> bool" where
  "range_convex uns r \<longleftrightarrow> CR_IsFullSet r \<or> \<not> (if uns then CR_IsWrappedSet r else CR_IsSignWrappedSet r)"

lemma hasConvexBounds_iff: "hasConvexBounds d \<longleftrightarrow> range_convex (SD_IsUnsigned d) (numeric d)"
  by (simp add: hasConvexBounds_def range_convex_def Let_def SD_NumericBound_def)

lemma range_convex_between:
  assumes r: "CR_wf r" "range_convex uns r" and x: "x \<in> CR_gamma r" and z: "z \<in> CR_gamma r"
    and y: "SInt_wf y" "width y = CR_Width r" "rd (\<not> uns) x \<le> rd (\<not> uns) y" "rd (\<not> uns) y \<le> rd (\<not> uns) z"
  shows "y \<in> CR_gamma r"
proof (cases "CR_IsFullSet r")
  case True
  then show ?thesis using y by (simp add: mem_iff)
next
  case False
  show ?thesis
  proof (cases uns)
    case True
    then have "\<not> CR_IsWrappedSet r" using r(2) False by (simp add: range_convex_def)
    then have w: "\<not> uv (upper r) < uv (lower r) \<or> uv (upper r) = 0" by (simp add: IsWrappedSet_iff)
    have "uv (lower r) \<noteq> uv (upper r) \<and> on_arc (uv (lower r)) (uv (upper r)) (uv x)"
      "on_arc (uv (lower r)) (uv (upper r)) (uv z)" using x z False by (simp_all add: mem_iff)
    then have "on_arc (uv (lower r)) (uv (upper r)) (uv y)" "uv (lower r) \<noteq> uv (upper r)"
      using w y(3,4) True uv_nonneg [of x] uv_nonneg [of y] uv_nonneg [of z]
      by (auto simp: on_arc_def rd_def split: if_splits)
    then show ?thesis using y(1,2) by (simp add: mem_iff)
  next
    case sgn: False
    then have "\<not> CR_IsSignWrappedSet r" using r(2) False by (simp add: range_convex_def)
    then have w: "\<not> sv (upper r) < sv (lower r) \<or> sv (upper r) = - half (CR_Width r)"
      by (simp add: IsSignWrappedSet_iff [OF r(1)])
    have "sv (lower r) \<noteq> sv (upper r) \<and> on_arc (sv (lower r)) (sv (upper r)) (sv x)"
      "on_arc (sv (lower r)) (sv (upper r)) (sv z)" using x z False by (simp_all add: mem_signed_iff [OF r(1)])
    then have "on_arc (sv (lower r)) (sv (upper r)) (sv y)" "sv (lower r) \<noteq> sv (upper r)"
      using w y sgn gamma_sbounds [OF x] gamma_sbounds [OF z]
      by (auto simp: on_arc_def rd_def split: if_splits)
    then show ?thesis using y(1,2) by (simp add: mem_signed_iff [OF r(1)])
  qed
qed

text \<open>A range that wraps holds the least and the greatest value of the order.\<close>

definition least_value :: "bool \<Rightarrow> IntWidth \<Rightarrow> SInt" where
  "least_value uns w = (if uns then SInt_UMinValue w else SInt_SMinValue w)"

definition greatest_value :: "bool \<Rightarrow> IntWidth \<Rightarrow> SInt" where
  "greatest_value uns w = (if uns then SInt_UMaxValue w else SInt_SMaxValue w)"

lemma extreme_facts:
  "SInt_wf (least_value uns w)" "width (least_value uns w) = w"
  "SInt_wf (greatest_value uns w)" "width (greatest_value uns w) = w"
  "rd (\<not> uns) (least_value uns w) = (if uns then 0 else - half w)"
  "rd (\<not> uns) (greatest_value uns w) = (if uns then modulus w - 1 else half w - 1)"
  using half_ge [of w] by (auto simp: least_value_def greatest_value_def rd_def sv_def modulus_half)

lemma wrapped_extremes:
  assumes r: "CR_wf r" "\<not> range_convex uns r"
  shows "least_value uns (CR_Width r) \<in> CR_gamma r" "greatest_value uns (CR_Width r) \<in> CR_gamma r"
proof -
  note d = CR_wfD [OF r(1)] and e = extreme_facts [of uns "CR_Width r"]
  have "least_value uns (CR_Width r) \<in> CR_gamma r \<and> greatest_value uns (CR_Width r) \<in> CR_gamma r"
  proof (cases uns)
    case True
    then have w: "uv (upper r) < uv (lower r)" "0 < uv (upper r)"
      using r(2) uv_nonneg [of "upper r"] by (auto simp: range_convex_def IsWrappedSet_iff)
    then have "on_arc (uv (lower r)) (uv (upper r)) 0" "on_arc (uv (lower r)) (uv (upper r)) (modulus (CR_Width r) - 1)"
      using d by (auto simp: on_arc_def)
    then show ?thesis using w e True by (auto simp: mem_iff rd_def)
  next
    case False
    then have w: "sv (upper r) < sv (lower r)" "sv (upper r) \<noteq> - half (CR_Width r)"
      using r(2) by (auto simp: range_convex_def IsSignWrappedSet_iff [OF r(1)])
    then have "on_arc (sv (lower r)) (sv (upper r)) (- half (CR_Width r))"
      "on_arc (sv (lower r)) (sv (upper r)) (half (CR_Width r) - 1)"
      using d sv_lo [of "upper r"] sv_hi [of "lower r"] by (auto simp: on_arc_def)
    then show ?thesis using w e False by (auto simp: mem_signed_iff [OF r(1)] rd_def)
  qed
  then show "least_value uns (CR_Width r) \<in> CR_gamma r" "greatest_value uns (CR_Width r) \<in> CR_gamma r" by simp_all
qed

lemma extremes_full:
  assumes r: "CR_wf r" "range_convex uns r"
    and m: "least_value uns (CR_Width r) \<in> CR_gamma r" "greatest_value uns (CR_Width r) \<in> CR_gamma r"
  shows "CR_IsFullSet r"
proof -
  have "y \<in> CR_gamma r" if y: "SInt_wf y" "width y = CR_Width r" for y
    using range_convex_between [OF r m y] rd_bounds [OF y(1), of "\<not> uns"] extreme_facts [of uns "CR_Width r"] y(2)
    by (auto split: if_splits)
  then have "CR_gamma r = {v. SInt_wf v \<and> width v = CR_Width r}" by (auto dest: gamma_wf gamma_width)
  then show ?thesis using gamma_full_iff [OF r(1)] by simp
qed

lemma Intersect_convex:
  assumes a: "CR_wf a" "CR_wf b" "CR_Width b = CR_Width a" and c: "range_convex uns b"
  shows "range_convex uns (CR_IntersectWith a b t) \<or> CR_IntersectWith a b t = a"
proof (cases "CR_IsFullSet b")
  case True
  then have "CR_IntersectWith a b t = a" by (subst CR_IntersectWith.simps) simp
  then show ?thesis by simp
next
  case False
  let ?r = "CR_IntersectWith a b t"
  note m = IntersectWith_meets [OF a, of t]
  have wf: "CR_wf ?r" "CR_Width ?r = CR_Width a" using m by (simp_all add: meets_def)
  have "CR_gamma ?r = CR_gamma a \<inter> CR_gamma b \<or> ?r = a \<or> ?r = b"
  proof -
    have "GetPreferredRange a b t = a \<or> GetPreferredRange a b t = b" "GetPreferredRange b a t = a \<or> GetPreferredRange b a t = b"
      unfolding GetPreferredRange_def by (simp_all split: if_split)
    then show ?thesis using m unfolding meets_def by auto
  qed
  then show ?thesis
  proof (elim disjE)
    assume g: "CR_gamma ?r = CR_gamma a \<inter> CR_gamma b"
    show ?thesis
    proof (rule disjI1, rule ccontr)
      assume "\<not> range_convex uns ?r"
      from wrapped_extremes [OF wf(1) this] have "CR_IsFullSet b"
        using g wf(2) a(3) by (intro extremes_full [OF a(2) c]) auto
      then show False using False by simp
    qed
  qed (use c in auto)
qed

lemma order_convex:
  assumes r: "CR_wf r" and ord: "\<And>x y z. x \<in> CR_gamma r \<Longrightarrow> z \<in> CR_gamma r \<Longrightarrow> SInt_wf y \<Longrightarrow> width y = CR_Width r \<Longrightarrow>
    rd (\<not> uns) x \<le> rd (\<not> uns) y \<Longrightarrow> rd (\<not> uns) y \<le> rd (\<not> uns) z \<Longrightarrow> y \<in> CR_gamma r"
  shows "range_convex uns r"
proof (rule ccontr)
  assume n: "\<not> range_convex uns r"
  note m = wrapped_extremes [OF r n]
  have "y \<in> CR_gamma r" if y: "SInt_wf y" "width y = CR_Width r" for y
    using ord [OF m y] rd_bounds [OF y(1), of "\<not> uns"] extreme_facts [of uns "CR_Width r"] y(2)
    by (auto split: if_splits)
  then have "CR_gamma r = {v. SInt_wf v \<and> width v = CR_Width r}" by (auto dest: gamma_wf gamma_width)
  then show False using gamma_full_iff [OF r] n by (simp add: range_convex_def)
qed

lemma From_convex:
  assumes "SInt_wf v" "rel = GE \<or> rel = LE"
  shows "range_convex uns (CR_From rel v (\<not> uns))"
  using assms by (intro order_convex) (auto simp: From_wf mem_From)

lemma DomainFromKnownBits_convex: "range_convex uns (numeric (DomainFromKnownBits b w uns))"
proof -
  have full: "range_convex u (numeric (SD_Top w f))" for u f
    by (simp add: SD_Top_def SD_make_def range_convex_def)
  have "range_convex uns (CR_IntersectWith (CR_From GE x (\<not> uns)) (CR_From LE y (\<not> uns)) t)"
    if "SInt_wf x" "SInt_wf y" "width y = width x" for x y t
    using Intersect_convex [of "CR_From GE x (\<not> uns)" "CR_From LE y (\<not> uns)" uns t] that
      From_convex [of x GE uns] From_convex [of y LE uns] by (auto simp: From_wf)
  then show ?thesis
    by (auto simp: DomainFromKnownBits_def Let_def SD_make_def [of "CR_IntersectWith _ _ _"] full split: option.split)
qed

lemma Intersect_numeric:
  "CR_IsEmptySet (numeric (SD_Intersect a b)) \<or> numeric (SD_Intersect a b) = CR_IntersectWith (numeric a) (numeric b) Smallest"
  if "SD_Intersects a b \<noteq> None"
  using that by (auto simp: SD_Intersect_def SD_Intersects_def MergeRangesForLogicalOperation_def MergeNumericRanges_def
      SD_NumericBound_def SD_Bottom_def SD_make_def SD_make_map_def bind_eq_Some_conv split: if_splits option.splits)

lemma Intersect_domain_convex:
  assumes "SD_wf a" "SD_wf b" "SD_Width b = SD_Width a" "unsignedFlag b = unsignedFlag a"
    and c: "range_convex uns (numeric b)" and m: "SD_models \<sigma> (SD_Intersect a b) v"
  shows "range_convex uns (numeric (SD_Intersect a b)) \<or> numeric (SD_Intersect a b) = numeric a"
proof -
  have "SD_Intersects a b \<noteq> None" using Intersects_merge [OF assms(1-4)] by auto
  moreover have "\<not> CR_IsEmptySet (numeric (SD_Intersect a b))"
    using models_not_bottom [OF m] by (simp add: SD_IsBottom_def)
  ultimately have "numeric (SD_Intersect a b) = CR_IntersectWith (numeric a) (numeric b) Smallest"
    using Intersect_numeric by blast
  then show ?thesis using Intersect_convex [of "numeric a" "numeric b" uns Smallest] assms
    by (auto simp: SD_wf_def SD_Width_def)
qed

text \<open>On a convex domain, an integer between its bounds is the reading of a member.\<close>

lemma inside_member:
  assumes d: "CR_wf (numeric d)" "hasConvexBounds d" "\<not> CR_IsEmptySet (numeric d)"
    and v: "SInt_wf v" "width v = SD_Width d" "inside d (rd (\<not> SD_IsUnsigned d) v)"
  shows "v \<in> CR_gamma (numeric d)"
proof -
  let ?u = "SD_IsUnsigned d"
  have m: "CR_MinValue (numeric d) ?u \<in> CR_gamma (numeric d)" "CR_MaxValue (numeric d) ?u \<in> CR_gamma (numeric d)"
    using UMaxMin_mem [OF d(1,3)] SMaxMin_mem [OF d(1,3)] by (simp_all add: CR_MinValue_def CR_MaxValue_def)
  show ?thesis
    using range_convex_between [OF d(1) _ m, of ?u v] d(2) v gamma_wf [OF m(1)] gamma_wf [OF m(2)]
    by (simp add: hasConvexBounds_iff inside_def domain_ends ToMathematicalInteger_rd SD_Width_def)
qed

end
