(* ===== verification/SIntRange.thy ===== *)
theory SIntRange
  imports Range_Convex
begin

text \<open>
  The product value \<^verbatim>\<open>SIntRange\<close> of \<^verbatim>\<open>ValueRangeAnalysis.h\<close>: an integer domain with
  the exact values, the congruence, the known bits, the excluded values and the interval
  fragments of the previous theories. Its constructor normalises the parts and lets them
  strengthen one another; \<^verbatim>\<open>Join\<close> is the union. The last constructor is the one the others
  delegate to; a null pointer to an optional part is the part that is missing.
\<close>

record SIntRange =
  sr_domain :: SIntDomain
  sr_exact :: "SInt list option"
  sr_congruence :: "SIntCongruence option"
  sr_bits :: "SIntKnownBits option"
  sr_excluded :: "SInt list option"
  sr_fragments :: "SIntIntervalFragment list option"

section \<open>Construction\<close>

definition SIntRange_make ::
  "RangeAnalysisConfig \<Rightarrow> SIntDomain \<Rightarrow> SInt list option \<Rightarrow> SIntCongruence option \<Rightarrow>
   SIntKnownBits option \<Rightarrow> SInt list option \<Rightarrow> SIntIntervalFragment list option \<Rightarrow> SIntRange" where
  "SIntRange_make cfg d exactValues congruence knownBits excludedValues intervalFragments =
     (let exact = (case exactValues of None \<Rightarrow> None | Some vs \<Rightarrow> NormalizeExactIntSet cfg vs);
          cong = NormalizeCongruence congruence;
          bits = NormalizeKnownBits knownBits (SD_Width d);
          exact = (if exact = None \<and> SD_IsSingleValue d
                   then Some [CR_GetSingleElement (SD_NumericBound d)] else exact);
          cong = (if cong = None then InferCongruenceFromExactValues exact (SD_IsUnsigned d) else cong);
          dom = (if bits \<noteq> None
                 then SD_Intersect d (DomainFromKnownBits bits (SD_Width d) (SD_IsUnsigned d)) else d);
          excl = (case excludedValues of None \<Rightarrow> None | Some vs \<Rightarrow> NormalizeExcludedSIntValues vs dom);
          exact = (if excl \<noteq> None then FilterExactValuesByExclusions cfg exact excl else exact);
          exact = (if exact = None \<and> SD_IsSingleValue dom then
                     let singleton = CR_GetSingleElement (SD_NumericBound dom)
                     in if \<not> IsExplicitlyExcluded excl singleton then Some [singleton] else exact
                   else exact);
          cong = (if cong = None then InferCongruenceFromKnownBits bits (SD_Width dom) else cong);
          frags = (case intervalFragments of None \<Rightarrow> None | Some fs \<Rightarrow> NormalizeSIntIntervalFragments fs dom);
          frags = RefineSIntIntervalFragmentsByCongruence frags cong dom
      in \<lparr>sr_domain = dom, sr_exact = exact, sr_congruence = cong, sr_bits = bits,
          sr_excluded = excl, sr_fragments = frags\<rparr>)"

definition SIntRange_of_domain :: "RangeAnalysisConfig \<Rightarrow> SIntDomain \<Rightarrow> SIntRange" where
  "SIntRange_of_domain cfg d = SIntRange_make cfg d None None None None None"

definition SIntRange_of_exact :: "RangeAnalysisConfig \<Rightarrow> SIntDomain \<Rightarrow> SInt list option \<Rightarrow> SIntRange" where
  "SIntRange_of_exact cfg d exactValues = SIntRange_make cfg d exactValues None None None None"

definition SIntRange_of_congruence ::
  "RangeAnalysisConfig \<Rightarrow> SIntDomain \<Rightarrow> SInt list option \<Rightarrow> SIntCongruence option \<Rightarrow> SIntRange" where
  "SIntRange_of_congruence cfg d exactValues congruence =
     SIntRange_make cfg d exactValues congruence None None None"

definition SIntRange_of_bits ::
  "RangeAnalysisConfig \<Rightarrow> SIntDomain \<Rightarrow> SInt list option \<Rightarrow> SIntCongruence option \<Rightarrow>
   SIntKnownBits option \<Rightarrow> SIntRange" where
  "SIntRange_of_bits cfg d exactValues congruence knownBits =
     SIntRange_make cfg d exactValues congruence knownBits None None"

definition SIntRange_Clone :: "RangeAnalysisConfig \<Rightarrow> SIntRange \<Rightarrow> SIntRange" where
  "SIntRange_Clone cfg r = SIntRange_make cfg (sr_domain r) (sr_exact r) (sr_congruence r) (sr_bits r)
     (sr_excluded r) (sr_fragments r)"

definition SIntRange_GetVal :: "SIntRange \<Rightarrow> SIntDomain" where
  "SIntRange_GetVal r = sr_domain r"

definition SIntRange_GetExactValues :: "SIntRange \<Rightarrow> SInt list option" where
  "SIntRange_GetExactValues r = sr_exact r"

definition SIntRange_GetCongruence :: "SIntRange \<Rightarrow> SIntCongruence option" where
  "SIntRange_GetCongruence r = sr_congruence r"

definition SIntRange_GetKnownBits :: "SIntRange \<Rightarrow> SIntKnownBits option" where
  "SIntRange_GetKnownBits r = sr_bits r"

definition SIntRange_GetExcludedValues :: "SIntRange \<Rightarrow> SInt list option" where
  "SIntRange_GetExcludedValues r = sr_excluded r"

definition SIntRange_GetIntervalFragments :: "SIntRange \<Rightarrow> SIntIntervalFragment list option" where
  "SIntRange_GetIntervalFragments r = sr_fragments r"

lemmas SIntRange_getters = SIntRange_GetVal_def SIntRange_GetExactValues_def SIntRange_GetCongruence_def
  SIntRange_GetKnownBits_def SIntRange_GetExcludedValues_def SIntRange_GetIntervalFragments_def

section \<open>Union\<close>

definition GetSIntIntervalFragmentsForUnion :: "SIntRange \<Rightarrow> SIntIntervalFragment list option" where
  "GetSIntIntervalFragmentsForUnion rng =
     (let d = sr_domain rng; numeric = SD_NumericBound d
      in if sr_fragments rng \<noteq> None then sr_fragments rng
         else if SD_IsBottom d then Some []
         else if CR_IsFullSet numeric \<or> CR_IsEmptySet numeric \<or> unsupported_bounds d then None
         else
           (case sr_exact rng of
              Some [v] \<Rightarrow> Some [SF_make v v 1 0]
            | _ \<Rightarrow>
                let lo = CR_MinValue numeric (SD_IsUnsigned d); hi = CR_MaxValue numeric (SD_IsUnsigned d)
                in Some [case NormalizeCongruence (sr_congruence rng) of
                           Some c \<Rightarrow> SF_make lo hi (stride c) (residue c)
                         | None \<Rightarrow> SF_make lo hi 1 0]))"

text \<open>The end of the merge: both fragment lists, normalised in the joined domain.\<close>

definition MergedFragmentLists :: "SIntRange \<Rightarrow> SIntRange \<Rightarrow> SIntDomain \<Rightarrow> SIntIntervalFragment list option" where
  "MergedFragmentLists lhs rhs joinedDomain =
     (case (GetSIntIntervalFragmentsForUnion lhs, GetSIntIntervalFragmentsForUnion rhs) of
        (Some l, Some r) \<Rightarrow> NormalizeSIntIntervalFragments (l @ r) joinedDomain
      | _ \<Rightarrow> None)"

definition MergeSIntIntervalFragmentsForUnion ::
  "SIntRange \<Rightarrow> SIntRange \<Rightarrow> SIntDomain \<Rightarrow> SIntIntervalFragment list option" where
  "MergeSIntIntervalFragmentsForUnion lhs rhs joinedDomain =
     (let lhsDomain = sr_domain lhs; rhsDomain = sr_domain rhs; lhsNumeric = SD_NumericBound lhsDomain; rhsNumeric = SD_NumericBound rhsDomain
      in if SD_IsBottom lhsDomain then sr_fragments rhs
         else if SD_IsBottom rhsDomain then sr_fragments lhs
         else if sr_fragments lhs = None \<and> sr_fragments rhs = None then
           (let lhsUnsupported = (CR_IsFullSet lhsNumeric \<or> CR_IsEmptySet lhsNumeric \<or> unsupported_bounds lhsDomain);
                rhsUnsupported = (CR_IsFullSet rhsNumeric \<or> CR_IsEmptySet rhsNumeric \<or> unsupported_bounds rhsDomain)
            in if lhsUnsupported \<or> rhsUnsupported \<or> SD_Width lhsDomain \<noteq> SD_Width rhsDomain \<or>
                 SD_IsUnsigned lhsDomain \<noteq> SD_IsUnsigned rhsDomain then None
               else
                 let lhsLower = ToMathematicalInteger (CR_MinValue lhsNumeric (SD_IsUnsigned lhsDomain)) (SD_IsUnsigned lhsDomain);
                     lhsUpper = ToMathematicalInteger (CR_MaxValue lhsNumeric (SD_IsUnsigned lhsDomain)) (SD_IsUnsigned lhsDomain);
                     rhsLower = ToMathematicalInteger (CR_MinValue rhsNumeric (SD_IsUnsigned rhsDomain)) (SD_IsUnsigned rhsDomain);
                     rhsUpper = ToMathematicalInteger (CR_MaxValue rhsNumeric (SD_IsUnsigned rhsDomain)) (SD_IsUnsigned rhsDomain)
                 in if lhsLower \<le> rhsUpper + 1 \<and> rhsLower \<le> lhsUpper + 1 then None else MergedFragmentLists lhs rhs joinedDomain)
         else MergedFragmentLists lhs rhs joinedDomain)"

text \<open>Equality of two optional vectors, element by element.\<close>

definition opt_list_eq :: "('a \<Rightarrow> 'a \<Rightarrow> bool) \<Rightarrow> 'a list option \<Rightarrow> 'a list option \<Rightarrow> bool" where
  "opt_list_eq eq a b \<longleftrightarrow>
     (case (a, b) of (None, None) \<Rightarrow> True | (Some xs, Some ys) \<Rightarrow> list_all2 eq xs ys | _ \<Rightarrow> False)"

record JoinedParts =
  jp_domain :: SIntDomain
  jp_exact :: "SInt list option"
  jp_congruence :: "SIntCongruence option"
  jp_bits :: "SIntKnownBits option"
  jp_excluded :: "SInt list option"
  jp_fragments :: "SIntIntervalFragment list option"

text \<open>The parts \<^verbatim>\<open>Join\<close> computes before it decides whether anything changed.\<close>

definition SIntRange_JoinParts :: "RangeAnalysisConfig \<Rightarrow> SIntRange \<Rightarrow> SIntRange \<Rightarrow> JoinedParts" where
  "SIntRange_JoinParts cfg l r =
     (let exact = MergeExactIntSets cfg (sr_exact l) (sr_exact r);
          cong = MergeSIntCongruencesForUnion (sr_domain l) (sr_exact l) (sr_congruence l)
                   (sr_domain r) (sr_exact r) (sr_congruence r);
          someBits = (sr_bits l \<noteq> None \<or> sr_bits r \<noteq> None);
          lhsBits = (if someBits
                     then GetEffectiveKnownBits (sr_domain l) (sr_exact l) (sr_congruence l) (sr_bits l) else sr_bits l);
          rhsBits = (if someBits
                     then GetEffectiveKnownBits (sr_domain r) (sr_exact r) (sr_congruence r) (sr_bits r) else sr_bits r);
          bits = MergeSIntKnownBitsForUnion (sr_domain l) lhsBits (sr_domain r) rhsBits;
          joined = SD_Union (sr_domain l) (sr_domain r);
          excl = MergeExcludedSIntValuesForUnion (sr_domain l) (sr_excluded l) (sr_domain r) (sr_excluded r) joined;
          frags = (if exact \<noteq> None \<or> excl \<noteq> None then None
                   else MergeSIntIntervalFragmentsForUnion l r joined)
      in \<lparr>jp_domain = joined, jp_exact = exact, jp_congruence = cong, jp_bits = bits,
          jp_excluded = excl, jp_fragments = frags\<rparr>)"

definition SIntRange_Join :: "RangeAnalysisConfig \<Rightarrow> SIntRange \<Rightarrow> SIntRange \<Rightarrow> SIntRange option" where
  "SIntRange_Join cfg l r =
     (let p = SIntRange_JoinParts cfg l r
      in if SD_IsSame (sr_domain l) (jp_domain p) \<and> opt_list_eq SInt_eq (sr_exact l) (jp_exact p) \<and>
            sr_congruence l = jp_congruence p \<and> sr_bits l = jp_bits p \<and>
            opt_list_eq SInt_eq (sr_excluded l) (jp_excluded p) \<and>
            opt_list_eq SF_eq (sr_fragments l) (jp_fragments p) \<and>
            \<not> (CR_IsFullSet (SD_NumericBound (sr_domain l)) \<and> SD_SymbolicBounds (sr_domain l) \<noteq> [])
         then None
         else Some (SIntRange_make cfg (jp_domain p) (jp_exact p) (jp_congruence p) (jp_bits p)
                (jp_excluded p) (jp_fragments p)))"

section \<open>Queries\<close>

definition SIntRangeContainsExactValue :: "SIntRange \<Rightarrow> SInt \<Rightarrow> bool" where
  "SIntRangeContainsExactValue rng v \<longleftrightarrow>
     (if width v \<noteq> SD_Width (sr_domain rng) then False
      else case sr_exact rng of
        Some vs \<Rightarrow> std_contains SInt_eq vs v
      | None \<Rightarrow>
          if \<not> SIntRangeMayContain (sr_domain rng) (sr_excluded rng) v then False
          else if (case sr_congruence rng of None \<Rightarrow> False
             | Some c \<Rightarrow> CanonicalResidue (ToMathematicalInteger v (SD_IsUnsigned (sr_domain rng))) (stride c)
                 \<noteq> residue c) then False
          else if (case sr_bits rng of None \<Rightarrow> False
             | Some b \<Rightarrow> SInt_UVal v AND knownZero b \<noteq> 0 \<or> SInt_UVal v AND knownOne b \<noteq> knownOne b) then False
          else case sr_fragments rng of None \<Rightarrow> True
             | Some fs \<Rightarrow> list_ex (\<lambda>f. SIntFragmentContainsValue f v (SD_IsUnsigned (sr_domain rng))) fs)"

definition JoinBoundedLoopObservationRanges :: "RangeAnalysisConfig \<Rightarrow> SIntRange \<Rightarrow> SIntRange \<Rightarrow> SIntRange option" where
  "JoinBoundedLoopObservationRanges cfg current incoming =
     (case SIntRange_Join cfg current incoming of None \<Rightarrow> None
      | Some joined \<Rightarrow>
          if sr_fragments joined \<noteq> None then Some joined
          else if (case sr_congruence joined of None \<Rightarrow> False | Some c \<Rightarrow> stride c > 1) \<or>
            (case sr_bits joined of None \<Rightarrow> False | Some b \<Rightarrow> KB_IsUseful b) then Some joined
          else
            let excluded = (case sr_excluded joined of None \<Rightarrow> [] | Some xs \<Rightarrow> xs);
                excluded = AddSmallGapExclusions (sr_domain current) (sr_domain incoming) excluded;
                excludedValues = NormalizeExcludedSIntValues excluded (sr_domain joined)
            in if opt_list_eq SInt_eq excludedValues (sr_excluded joined) then Some joined
               else Some (SIntRange_make cfg (sr_domain joined) (sr_exact joined) (sr_congruence joined)
                      (sr_bits joined) excludedValues None))"

section \<open>Narrowing\<close>

definition SelectSIntIntervalFragmentsForNarrowing ::
  "SIntRange \<Rightarrow> SIntRange \<Rightarrow> SIntDomain \<Rightarrow> SIntIntervalFragment list option" where
  "SelectSIntIntervalFragmentsForNarrowing current candidate intersection =
     (case sr_fragments candidate of
        Some fs \<Rightarrow> NormalizeSIntIntervalFragments fs intersection
      | None \<Rightarrow>
          (case sr_fragments current of
             Some fs \<Rightarrow> NormalizeSIntIntervalFragments fs intersection
           | None \<Rightarrow> None))"

definition IntersectExcludedSIntValues :: "SIntRange \<Rightarrow> SIntRange \<Rightarrow> SIntDomain \<Rightarrow> SInt list option" where
  "IntersectExcludedSIntValues lhs rhs intersection =
     NormalizeExcludedSIntValues
       ((case sr_excluded lhs of None \<Rightarrow> [] | Some l \<Rightarrow> l) @ (case sr_excluded rhs of None \<Rightarrow> [] | Some r \<Rightarrow> r)) intersection"

definition IntersectExactIntSets ::
  "RangeAnalysisConfig \<Rightarrow> SIntRange \<Rightarrow> SIntRange \<Rightarrow> SIntDomain \<Rightarrow> SInt list option" where
  "IntersectExactIntSets cfg lhs rhs intersection =
     (if sr_exact lhs = None \<and> sr_exact rhs = None then None
      else
        let source = (case sr_exact lhs of Some l \<Rightarrow> l | None \<Rightarrow> the (sr_exact rhs));
            vs = filter (\<lambda>v. ExactValueSatisfiesDomain v intersection \<and>
                   (case sr_exact lhs of None \<Rightarrow> True | Some l \<Rightarrow> std_contains SInt_eq l v) \<and>
                   (case sr_exact rhs of None \<Rightarrow> True | Some r \<Rightarrow> std_contains SInt_eq r v)) source
        in NormalizeExactIntSet cfg vs)"

definition IsUsefulNarrowingSeed :: "SIntRange \<Rightarrow> bool" where
  "IsUsefulNarrowingSeed rng \<longleftrightarrow>
     (let d = sr_domain rng; numeric = SD_NumericBound d
      in if sr_exact rng \<noteq> None \<or> sr_congruence rng \<noteq> None \<or> sr_bits rng \<noteq> None \<or>
            sr_excluded rng \<noteq> None \<or> sr_fragments rng \<noteq> None \<or> SD_IsSingleValue d then True
         else if CR_IsFullSet numeric \<or> CR_IsEmptySet numeric \<or> CR_IsWrappedSet numeric \<or>
            CR_IsSignWrappedSet numeric then False
         else
           let cardinality =
                 (if SD_IsUnsigned d
                  then uint (SInt_UVal (CR_UMaxValue numeric)) - uint (SInt_UVal (CR_UMinValue numeric)) + 1
                  else SInt_SVal (CR_SMaxValue numeric) - SInt_SVal (CR_SMinValue numeric) + 1)
           in cardinality > 0 \<and> cardinality \<le> 2 ^ (bw (SD_Width d) - 2))"

text \<open>The part of \<^verbatim>\<open>NarrowRangeValue\<close> for two integer ranges: the narrowed range, or
  nothing when the current one stays.\<close>

definition NarrowSIntRange :: "RangeAnalysisConfig \<Rightarrow> SIntRange \<Rightarrow> SIntRange \<Rightarrow> SIntRange option" where
  "NarrowSIntRange cfg lhs rhs =
     (if SD_IsTop (sr_domain lhs) \<and> \<not> IsUsefulNarrowingSeed rhs then None
      else
        let intersection = SD_Intersect (sr_domain lhs) (sr_domain rhs)
        in if SD_IsBottom intersection then None
           else
             let exact = IntersectExactIntSets cfg lhs rhs intersection
             in if (sr_exact lhs \<noteq> None \<or> sr_exact rhs \<noteq> None) \<and> exact = None then None
                else
                  let (cong, congruencesCompatible) = IntersectSIntCongruences (sr_congruence lhs) (sr_congruence rhs)
                  in if \<not> congruencesCompatible then None
                     else
                       let (bits, knownBitsCompatible) =
                             IntersectSIntKnownBits (sr_bits lhs) (sr_bits rhs) (SD_Width intersection)
                       in if \<not> knownBitsCompatible then None
                          else
                            let excl = IntersectExcludedSIntValues lhs rhs intersection;
                                exact = FilterExactValuesByExclusions cfg exact excl;
                                frags = SelectSIntIntervalFragmentsForNarrowing lhs rhs intersection
                            in if SD_IsSame (sr_domain lhs) intersection \<and> opt_list_eq SInt_eq (sr_exact lhs) exact \<and>
                                  sr_congruence lhs = cong \<and> sr_bits lhs = bits \<and>
                                  opt_list_eq SInt_eq (sr_excluded lhs) excl \<and>
                                  opt_list_eq SF_eq (sr_fragments lhs) frags then None
                               else Some (SIntRange_make cfg intersection exact cong bits excl frags))"

end
