(* ===== verification/SIntRange_Sound.thy ===== *)
theory SIntRange_Sound
  imports SIntRange
begin

text \<open>
  What an integer range says of a value, and that the constructor, the union, the union of
  loop observations and the narrowing keep every value they have to keep. A wrapped domain
  needs care: its fragments are kept only while the domain holds their ends.
\<close>

section \<open>What the parts say\<close>

definition parts_model ::
  "(nat \<Rightarrow> int) \<Rightarrow> SIntDomain \<Rightarrow> SInt list option \<Rightarrow> SIntCongruence option \<Rightarrow> SIntKnownBits option \<Rightarrow>
   SInt list option \<Rightarrow> SIntIntervalFragment list option \<Rightarrow> SInt \<Rightarrow> bool" where
  "parts_model \<sigma> d e c b x f v \<longleftrightarrow>
     SD_models \<sigma> d v \<and> exact_holds e v \<and> cong_holds c (rd (\<not> unsignedFlag d) v) \<and>
     bits_hold (SD_Width d) b (val v) \<and> excl_holds x v \<and> frags_hold (unsignedFlag d) f (rd (\<not> unsignedFlag d) v)"

definition SR_models :: "(nat \<Rightarrow> int) \<Rightarrow> SIntRange \<Rightarrow> SInt \<Rightarrow> bool" where
  "SR_models \<sigma> r v \<longleftrightarrow> parts_model \<sigma> (sr_domain r) (sr_exact r) (sr_congruence r) (sr_bits r)
     (sr_excluded r) (sr_fragments r) v"

definition parts_ok ::
  "SIntDomain \<Rightarrow> SInt list option \<Rightarrow> SInt list option \<Rightarrow> SIntIntervalFragment list option \<Rightarrow> bool" where
  "parts_ok d e x f \<longleftrightarrow> SD_wf d \<and> values_ok (SD_Width d) e \<and> values_ok (SD_Width d) x \<and> frags_ends (SD_Width d) f"

text \<open>The invariant every constructed range has.\<close>

definition SR_wf :: "SIntRange \<Rightarrow> bool" where
  "SR_wf r \<longleftrightarrow> SD_wf (sr_domain r) \<and> values_ok (SD_Width (sr_domain r)) (sr_exact r) \<and> sr_exact r \<noteq> Some [] \<and>
     cong_wf (sr_congruence r) \<and> bits_wf (SD_Width (sr_domain r)) (sr_bits r) \<and>
     values_ok (SD_Width (sr_domain r)) (sr_excluded r) \<and>
     (\<forall>xs. sr_excluded r = Some xs \<longrightarrow> xs \<noteq> [] \<and> length xs \<le> 32) \<and>
     frags_wf (SD_Width (sr_domain r)) (unsignedFlag (sr_domain r)) (sr_fragments r)"

definition ends_inside :: "SIntDomain \<Rightarrow> SIntIntervalFragment list option \<Rightarrow> bool" where
  "ends_inside d f \<longleftrightarrow> (\<forall>fs. f = Some fs \<longrightarrow> (\<forall>g \<in> set fs. ends_in d g))"

definition SR_ends :: "SIntRange \<Rightarrow> bool" where
  "SR_ends r \<longleftrightarrow> ends_inside (sr_domain r) (sr_fragments r)"

section \<open>Single values\<close>

lemma Satisfies_only_members:
  assumes d: "SD_wf d" and v: "SInt_wf v" "width v = SD_Width d" and s: "ExactValueSatisfiesDomain v d"
  shows "v \<in> CR_gamma (numeric d)"
proof -
  let ?s = "SD_make (CR_single v) (unsignedFlag d)"
  have ok: "SD_wf ?s" "SD_Width d = SD_Width ?s" "unsignedFlag d = unsignedFlag ?s" using v by (simp_all add: single_domain)
  have n: "numeric ?s = CR_single v" by (simp add: SD_make_def)
  have w: "CR_wf (numeric d)" "CR_Width (numeric d) = CR_Width (CR_single v)" using d v by (simp_all add: SD_wf_def SD_Width_def)
  have "SD_Intersects ?s d \<noteq> None" using Intersects_merge [OF ok(1) d ok(2,3)] by blast
  note i = Intersect_numeric [OF this, unfolded n]
  have ne: "\<not> CR_IsEmptySet (numeric (SD_Intersect ?s d))"
    using s by (simp only: ExactValueSatisfiesDomain_def SD_IsBottom_def SD_IsUnsigned_def Let_def not_False_eq_True)
  then have r: "\<not> CR_IsEmptySet (CR_IntersectWith (CR_single v) (numeric d) Smallest)" using i by metis
  have m: "meets Smallest (CR_single v) (numeric d) (CR_IntersectWith (CR_single v) (numeric d) Smallest)"
    using v w by (intro IntersectWith_meets) (simp_all add: single_wf)
  then have "CR_gamma (CR_IntersectWith (CR_single v) (numeric d) Smallest) = CR_gamma (CR_single v) \<inter> CR_gamma (numeric d) \<or>
      overlap_twice (CR_single v) (numeric d)" by (auto simp: meets_def)
  then show ?thesis
  proof
    assume g: "CR_gamma (CR_IntersectWith (CR_single v) (numeric d) Smallest) = CR_gamma (CR_single v) \<inter> CR_gamma (numeric d)"
    have "CR_gamma (CR_IntersectWith (CR_single v) (numeric d) Smallest) \<noteq> {}"
      using gamma_empty_iff [of "CR_IntersectWith (CR_single v) (numeric d) Smallest"] m r by (simp add: meets_def)
    then obtain x where "x \<in> CR_gamma (CR_single v)" "x \<in> CR_gamma (numeric d)" unfolding g by blast
    then show ?thesis using v by (simp add: mem_single)
  qed (simp add: overlap_twice_def)
qed

lemma SingleValue_models:
  assumes "SD_wf d" "SD_IsSingleValue d" "SD_models \<sigma> d v"
  shows "CR_GetSingleElement (SD_NumericBound d) = v"
  using assms SingleElement_mem [of "numeric d" v]
  by (simp add: SD_IsSingleValue_def SD_NumericBound_def SD_models_iff SD_wf_def)

lemma SingleElement_ok:
  assumes "SD_wf d"
  shows "SInt_wf (CR_GetSingleElement (SD_NumericBound d))" "width (CR_GetSingleElement (SD_NumericBound d)) = SD_Width d"
  using assms CR_wfD [of "numeric d"] by (simp_all add: CR_GetSingleElement_def SD_NumericBound_def SD_wf_def SD_Width_def)

section \<open>Fragments in a wrapped domain\<close>

lemma clamp_wrapped_members:
  assumes d: "SD_wf d" "\<not> hasConvexBounds d" and f: "frag_ends (SD_Width d) f" and g: "fragment_clamp d f = Some g"
  shows "ends_in d g" "frag_lower g = frag_lower f" "frag_upper g = frag_upper f"
    "on_progression (frag_stride g) (frag_residue g) k \<longleftrightarrow> on_progression (frag_stride f) (frag_residue f) k"
proof -
  have r: "g = renormal f" "ExactValueSatisfiesDomain (frag_lower f) d" "ExactValueSatisfiesDomain (frag_upper f) d"
    using g d(2) by (auto simp: fragment_clamp_eq Let_def renormal_facts split: if_splits)
  then show "frag_lower g = frag_lower f" "frag_upper g = frag_upper f"
    "on_progression (frag_stride g) (frag_residue g) k \<longleftrightarrow> on_progression (frag_stride f) (frag_residue f) k"
    by (simp_all add: renormal_facts)
  show "ends_in d g" using r f Satisfies_only_members [OF d(1)] by (simp add: ends_in_def renormal_facts frag_ends_def)
qed

text \<open>Ends on the progression stay where they are.\<close>

lemma wrapped_progression_ends:
  assumes d: "SD_wf d" "\<not> hasConvexBounds d" and f: "frag_ends (SD_Width d) f"
    and p: "on_progression (frag_stride f) (frag_residue f) (rd (\<not> SD_IsUnsigned d) (frag_lower f))"
      "on_progression (frag_stride f) (frag_residue f) (rd (\<not> SD_IsUnsigned d) (frag_upper f))"
    and g: "fragment_clamp d f = Some g" and h: "fragment_align d g = Some h"
  shows "ends_in d h"
proof -
  note m = clamp_wrapped_members [OF d f g]
  have "frag_clamped (SD_Width d) (SD_IsUnsigned d) g"
    using fragment_clamp_normal [OF _ f g] d(1) by (simp add: SD_wf_def)
  then have "frag_normal (SD_Width d) (SD_IsUnsigned d) g" using p m by (simp add: frag_normal_def)
  from align_normal [OF this h] m(1) show ?thesis by (simp add: ends_in_def)
qed

text \<open>Ends of a convex part of the domain move inside that part.\<close>

lemma wrapped_convex_ends:
  assumes d: "SD_wf d" "\<not> hasConvexBounds d" and f: "frag_ends (SD_Width d) f"
    and p: "CR_wf p" "range_convex (SD_IsUnsigned d) p" "CR_Width p = SD_Width d" "CR_gamma p \<subseteq> CR_gamma (numeric d)"
      "frag_lower f \<in> CR_gamma p" "frag_upper f \<in> CR_gamma p"
    and g: "fragment_clamp d f = Some g" and h: "fragment_align d g = Some h"
  shows "ends_in d h"
proof -
  let ?u = "SD_IsUnsigned d"
  note m = clamp_wrapped_members [OF d f g]
  have c: "frag_clamped (SD_Width d) ?u g"
    using fragment_clamp_normal [OF _ f g] d(1) by (simp add: SD_wf_def)
  have n: "frag_normal (SD_Width d) ?u h" by (rule fragment_align_facts(2) [OF c h])
  have same: "frag_holds ?u h k \<longleftrightarrow> frag_holds ?u g k" for k using fragment_align_facts(1) [OF c, of k] h by simp
  have "frag_holds ?u g (rd (\<not> ?u) (frag_lower h))" "frag_holds ?u g (rd (\<not> ?u) (frag_upper h))"
    unfolding same [symmetric] using n frag_normal_le [OF n] by (simp_all add: frag_holds_def frag_normal_def)
  then have b: "rd (\<not> ?u) (frag_lower f) \<le> rd (\<not> ?u) (frag_lower h)" "rd (\<not> ?u) (frag_lower h) \<le> rd (\<not> ?u) (frag_upper f)"
    "rd (\<not> ?u) (frag_lower f) \<le> rd (\<not> ?u) (frag_upper h)" "rd (\<not> ?u) (frag_upper h) \<le> rd (\<not> ?u) (frag_upper f)"
    using m(2,3) by (simp_all add: frag_holds_def)
  have e: "frag_ends (SD_Width d) h" using n by (simp add: frag_normal_def frag_clamped_def)
  have "frag_lower h \<in> CR_gamma p" "frag_upper h \<in> CR_gamma p"
    using range_convex_between [OF p(1,2,5,6)] b e p(3) by (simp_all add: frag_ends_def)
  then show ?thesis using p(4) by (auto simp: ends_in_def)
qed

section \<open>The constructor\<close>

text \<open>The two passes over the fragments, on the final domain.\<close>

lemma constructed_fragments:
  assumes d: "SD_wf d" and v: "SD_models \<sigma> d v" and fs: "\<forall>f \<in> set fs. frag_ends (SD_Width d) f"
    and k: "frags_say (unsignedFlag d) fs (rd (\<not> unsignedFlag d) v)" and c: "cong_holds c (rd (\<not> unsignedFlag d) v)"
    and wr: "\<not> hasConvexBounds d \<Longrightarrow> \<forall>f \<in> set fs. frag_normal (SD_Width d) (unsignedFlag d) f \<and> ends_in d f"
  shows "frags_hold (unsignedFlag d)
    (RefineSIntIntervalFragmentsByCongruence (NormalizeSIntIntervalFragments fs d) c d) (rd (\<not> unsignedFlag d) v)"
proof -
  let ?k = "rd (\<not> unsignedFlag d) v"
  have u: "unsignedFlag d = SD_IsUnsigned d" by (simp add: SD_IsUnsigned_def)
  have n: "CR_wf (numeric d)" using d by (simp add: SD_wf_def)
  have vin: "v \<in> CR_gamma (numeric d)" using v by (simp add: SD_models_iff)
  note wf = Normalize_wf [OF n fs]
  show ?thesis
  proof (cases "NormalizeSIntIntervalFragments fs d")
    case None
    then show ?thesis by (simp add: RefineSIntIntervalFragmentsByCongruence_def)
  next
    case (Some gs)
    show ?thesis
    proof (cases "hasConvexBounds d")
      case True
      then have "frags_say (SD_IsUnsigned d) gs ?k"
        using Normalize_exact [OF n True fs Some, of ?k] k domain_bounds(3) [OF n vin] by (simp add: u)
      then show ?thesis using Refine_holds [OF n wf, of ?k c] c True Some domain_bounds(3) [OF n vin] by (simp add: u)
    next
      case False
      note w = wr [OF False]
      have sat: "ExactValueSatisfiesDomain x d" if "x \<in> CR_gamma (numeric d)" for x
        using Satisfies_member [OF d v that] .
      obtain f where f: "f \<in> set fs" "frag_holds (SD_IsUnsigned d) f ?k" using k by (auto simp: frags_say_def u)
      have say: "frags_say (SD_IsUnsigned d) gs ?k"
        using Normalize_wrapped [OF n False fs Some f] w f(1) sat by (simp add: ends_in_def)
      have "ends_in d h" if "f \<in> set fs" "fragment_clamp d f = Some g" "fragment_align d g = Some h" for f g h
        using wrapped_progression_ends [OF d False _ _ _ that(2,3)] w that(1)
        by (simp add: frag_normal_def frag_clamped_def u)
      from Normalize_ends [OF Some this] have "\<forall>g \<in> set gs. ends_in d g" .
      then show ?thesis using Refine_holds [OF n wf, of ?k c] c False Some say sat by (simp add: u ends_in_def)
    qed
  qed
qed

text \<open>The steps of the constructor, named.\<close>

lemma make_unfold:
  obtains e1 c0 b c1 dm x e2 e3 c2 f0 where
    "e1 = (case e of None \<Rightarrow> None | Some vs \<Rightarrow> NormalizeExactIntSet cfg vs)"
    "b = NormalizeKnownBits kb (SD_Width d)"
    "c0 = (if e1 = None \<and> SD_IsSingleValue d then Some [CR_GetSingleElement (SD_NumericBound d)] else e1)"
    "c1 = (if NormalizeCongruence c = None then InferCongruenceFromExactValues c0 (SD_IsUnsigned d)
           else NormalizeCongruence c)"
    "dm = (if b \<noteq> None then SD_Intersect d (DomainFromKnownBits b (SD_Width d) (SD_IsUnsigned d)) else d)"
    "x = (case ex of None \<Rightarrow> None | Some vs \<Rightarrow> NormalizeExcludedSIntValues vs dm)"
    "e2 = (if x \<noteq> None then FilterExactValuesByExclusions cfg c0 x else c0)"
    "e3 = (if e2 = None \<and> SD_IsSingleValue dm
           then (if \<not> IsExplicitlyExcluded x (CR_GetSingleElement (SD_NumericBound dm))
                 then Some [CR_GetSingleElement (SD_NumericBound dm)] else e2) else e2)"
    "c2 = (if c1 = None then InferCongruenceFromKnownBits b (SD_Width dm) else c1)"
    "f0 = (case fs of None \<Rightarrow> None | Some fs \<Rightarrow> NormalizeSIntIntervalFragments fs dm)"
    "SIntRange_make cfg d e c kb ex fs =
       \<lparr>sr_domain = dm, sr_exact = e3, sr_congruence = c2, sr_bits = b, sr_excluded = x,
        sr_fragments = RefineSIntIntervalFragmentsByCongruence f0 c2 dm\<rparr>"
  by (rule that, (rule refl)+, simp only: SIntRange_make_def Let_def)

lemma KnownBits_domain:
  assumes d: "SD_wf d" and b: "b = NormalizeKnownBits kb (SD_Width d)"
    and dm: "dm = (if b \<noteq> None then SD_Intersect d (DomainFromKnownBits b (SD_Width d) (SD_IsUnsigned d)) else d)"
  shows "SD_wf dm" "SD_Width dm = SD_Width d" "unsignedFlag dm = unsignedFlag d"
    "SD_models \<sigma> d v \<Longrightarrow> bits_hold (SD_Width d) kb (val v) \<Longrightarrow> SD_models \<sigma> dm v"
    "SD_models \<sigma> dm v \<Longrightarrow> hasConvexBounds dm \<or> numeric dm = numeric d"
proof -
  let ?b = "DomainFromKnownBits b (SD_Width d) (SD_IsUnsigned d)"
  note I = Intersect_facts [OF d DomainFromKnownBits_simps(4), of b "SD_Width d" "SD_IsUnsigned d"]
  show dw: "SD_wf dm" "SD_Width dm = SD_Width d" "unsignedFlag dm = unsignedFlag d"
    using d I by (simp_all add: dm SD_IsUnsigned_def)
  show "SD_models \<sigma> dm v" if m: "SD_models \<sigma> d v" "bits_hold (SD_Width d) kb (val v)"
  proof (cases "b = None")
    case False
    have "v \<in> CR_gamma (numeric ?b)"
      using models_wf [OF m(1)] models_width [OF m(1)] NormalizeKnownBits_sound [OF m(2)]
      by (intro DomainFromKnownBits_sound) (simp_all add: b)
    then have "SD_models \<sigma> ?b v" by (simp add: SD_models_iff)
    then show ?thesis using False I(4) m(1) by (simp add: dm SD_IsUnsigned_def)
  qed (use m dm in simp)
  show "hasConvexBounds dm \<or> numeric dm = numeric d" if "SD_models \<sigma> dm v"
  proof (cases "b = None")
    case False
    then have e: "dm = SD_Intersect d ?b" by (simp add: dm)
    have "range_convex (SD_IsUnsigned d) (numeric (SD_Intersect d ?b)) \<or> numeric (SD_Intersect d ?b) = numeric d"
      using that unfolding e
      by (intro Intersect_domain_convex [OF d]) (simp_all add: DomainFromKnownBits_convex SD_IsUnsigned_def)
    then show ?thesis using dw(3) by (simp add: hasConvexBounds_iff SD_IsUnsigned_def e)
  qed (use dm in simp)
qed

lemma exact_steps:
  assumes "values_ok w e"
  shows "values_ok w (case e of None \<Rightarrow> None | Some vs \<Rightarrow> NormalizeExactIntSet cfg vs)"
    "(case e of None \<Rightarrow> None | Some vs \<Rightarrow> NormalizeExactIntSet cfg vs) \<noteq> Some []"
    "exact_holds e v \<Longrightarrow> exact_holds (case e of None \<Rightarrow> None | Some vs \<Rightarrow> NormalizeExactIntSet cfg vs) v"
proof -
  have n: "NormalizeExactIntSet cfg [] = None"
    by (simp add: NormalizeExactIntSet_def NormalizeExactIntValues_def std_sort_def)
  show "values_ok w (case e of None \<Rightarrow> None | Some vs \<Rightarrow> NormalizeExactIntSet cfg vs)"
    using assms NormalizeExactIntSet_facts(1) by (cases e) simp_all
  show "(case e of None \<Rightarrow> None | Some vs \<Rightarrow> NormalizeExactIntSet cfg vs) \<noteq> Some []"
    by (simp add: NormalizeExactIntSet_def Let_def split: option.split)
  show "exact_holds e v \<Longrightarrow> exact_holds (case e of None \<Rightarrow> None | Some vs \<Rightarrow> NormalizeExactIntSet cfg vs) v"
    using assms NormalizeExactIntSet_facts(2) n by (auto simp: exact_holds_def [of e] exact_holds_def [of None]
        split: option.split_asm)
qed

lemma Filter_nonempty: "e \<noteq> Some [] \<Longrightarrow> FilterExactValuesByExclusions cfg e x \<noteq> Some []"
  by (auto simp: FilterExactValuesByExclusions_def NormalizeExactIntSet_def Let_def split: option.split)

lemma SIntRange_make_wf:
  assumes "parts_ok d e ex fs"
  shows "SR_wf (SIntRange_make cfg d e c kb ex fs)" "SD_Width (sr_domain (SIntRange_make cfg d e c kb ex fs)) = SD_Width d"
    "unsignedFlag (sr_domain (SIntRange_make cfg d e c kb ex fs)) = unsignedFlag d"
proof -
  let ?r = "SIntRange_make cfg d e c kb ex fs"
  have ok: "SD_wf d" "values_ok (SD_Width d) e" "values_ok (SD_Width d) ex" "frags_ends (SD_Width d) fs"
    using assms by (simp_all add: parts_ok_def)
  have "SR_wf ?r \<and> SD_Width (sr_domain ?r) = SD_Width d \<and> unsignedFlag (sr_domain ?r) = unsignedFlag d"
  proof (rule make_unfold [where e = e and cfg = cfg and kb = kb and d = d and c = c and ex = ex and fs = fs])
    fix e1 c0 b c1 dm x e2 e3 c2 f0
    assume st: "e1 = (case e of None \<Rightarrow> None | Some vs \<Rightarrow> NormalizeExactIntSet cfg vs)"
      "b = NormalizeKnownBits kb (SD_Width d)"
      "c0 = (if e1 = None \<and> SD_IsSingleValue d then Some [CR_GetSingleElement (SD_NumericBound d)] else e1)"
      "c1 = (if NormalizeCongruence c = None then InferCongruenceFromExactValues c0 (SD_IsUnsigned d)
             else NormalizeCongruence c)"
      "dm = (if b \<noteq> None then SD_Intersect d (DomainFromKnownBits b (SD_Width d) (SD_IsUnsigned d)) else d)"
      "x = (case ex of None \<Rightarrow> None | Some vs \<Rightarrow> NormalizeExcludedSIntValues vs dm)"
      "e2 = (if x \<noteq> None then FilterExactValuesByExclusions cfg c0 x else c0)"
      "e3 = (if e2 = None \<and> SD_IsSingleValue dm
             then (if \<not> IsExplicitlyExcluded x (CR_GetSingleElement (SD_NumericBound dm))
                   then Some [CR_GetSingleElement (SD_NumericBound dm)] else e2) else e2)"
      "c2 = (if c1 = None then InferCongruenceFromKnownBits b (SD_Width dm) else c1)"
      "f0 = (case fs of None \<Rightarrow> None | Some fs \<Rightarrow> NormalizeSIntIntervalFragments fs dm)"
      "?r = \<lparr>sr_domain = dm, sr_exact = e3, sr_congruence = c2, sr_bits = b, sr_excluded = x,
        sr_fragments = RefineSIntIntervalFragmentsByCongruence f0 c2 dm\<rparr>"
    note dm = KnownBits_domain(1-3) [OF ok(1) st(2,5)]
    have e1: "values_ok (SD_Width d) e1" "e1 \<noteq> Some []" using exact_steps [OF ok(2)] by (simp_all add: st(1))
    have c0: "values_ok (SD_Width d) c0" "c0 \<noteq> Some []" using e1 SingleElement_ok [OF ok(1)] by (simp_all add: st(3))
    have x: "values_ok (SD_Width d) x" "\<forall>xs. x = Some xs \<longrightarrow> xs \<noteq> [] \<and> length xs \<le> 32"
    proof -
      show "values_ok (SD_Width d) x"
        using NormalizeExcluded_facts(1) ok(3) by (auto simp: st(6) simp del: values_ok_simps(2) split: option.split)
      show "\<forall>xs. x = Some xs \<longrightarrow> xs \<noteq> [] \<and> length xs \<le> 32"
        using NormalizeExcluded_facts(3) ok(3) unfolding st(6) by (metis option.case_eq_if option.collapse option.distinct(1))
    qed
    have e2: "values_ok (SD_Width d) e2" "e2 \<noteq> Some []"
      using FilterExact_facts(1) [OF c0(1) x(1)] c0 Filter_nonempty [OF c0(2)] by (simp_all add: st(7))
    have e3: "values_ok (SD_Width d) e3" "e3 \<noteq> Some []"
      using e2 SingleElement_ok [OF dm(1)] dm(2) by (simp_all add: st(8))
    have c1: "cong_wf c1"
      using InferCongruenceFromExactValues_wf NormalizeCongruence_wf by (simp add: st(4))
    have c2: "cong_wf c2" using c1 InferCongruenceFromKnownBits_wf by (simp add: st(9))
    have b: "bits_wf (SD_Width d) b" using NormalizeKnownBits_wf by (simp add: st(2))
    have n: "CR_wf (numeric dm)" using dm(1) by (simp add: SD_wf_def)
    have f0: "frags_wf (SD_Width dm) (SD_IsUnsigned dm) f0"
      using Normalize_wf [OF n] ok(4) dm(2) by (cases fs) (simp_all add: st(10))
    have f: "frags_wf (SD_Width dm) (unsignedFlag dm) (RefineSIntIntervalFragmentsByCongruence f0 c2 dm)"
      using Refine_wf [OF n f0] by (simp add: SD_IsUnsigned_def)
    show "SR_wf ?r \<and> SD_Width (sr_domain ?r) = SD_Width d \<and> unsignedFlag (sr_domain ?r) = unsignedFlag d"
      unfolding SR_wf_def st(11) using dm e3 c2 b x f by simp
  qed
  then show "SR_wf ?r" "SD_Width (sr_domain ?r) = SD_Width d" "unsignedFlag (sr_domain ?r) = unsignedFlag d"
    by simp_all
qed

lemma SIntRange_make_sound:
  assumes "parts_ok d e ex fs" and v: "parts_model \<sigma> d e c kb ex fs v"
    and wr: "\<not> hasConvexBounds d \<Longrightarrow> frags_wf (SD_Width d) (unsignedFlag d) fs \<and> ends_inside d fs"
  shows "SR_models \<sigma> (SIntRange_make cfg d e c kb ex fs) v"
proof (rule make_unfold [where e = e and cfg = cfg and kb = kb and d = d and c = c and ex = ex and fs = fs])
  let ?r = "SIntRange_make cfg d e c kb ex fs" and ?k = "rd (\<not> unsignedFlag d) v"
  fix e1 c0 b c1 dm x e2 e3 c2 f0
  assume st: "e1 = (case e of None \<Rightarrow> None | Some vs \<Rightarrow> NormalizeExactIntSet cfg vs)"
    "b = NormalizeKnownBits kb (SD_Width d)"
    "c0 = (if e1 = None \<and> SD_IsSingleValue d then Some [CR_GetSingleElement (SD_NumericBound d)] else e1)"
    "c1 = (if NormalizeCongruence c = None then InferCongruenceFromExactValues c0 (SD_IsUnsigned d)
           else NormalizeCongruence c)"
    "dm = (if b \<noteq> None then SD_Intersect d (DomainFromKnownBits b (SD_Width d) (SD_IsUnsigned d)) else d)"
    "x = (case ex of None \<Rightarrow> None | Some vs \<Rightarrow> NormalizeExcludedSIntValues vs dm)"
    "e2 = (if x \<noteq> None then FilterExactValuesByExclusions cfg c0 x else c0)"
    "e3 = (if e2 = None \<and> SD_IsSingleValue dm
           then (if \<not> IsExplicitlyExcluded x (CR_GetSingleElement (SD_NumericBound dm))
                 then Some [CR_GetSingleElement (SD_NumericBound dm)] else e2) else e2)"
    "c2 = (if c1 = None then InferCongruenceFromKnownBits b (SD_Width dm) else c1)"
    "f0 = (case fs of None \<Rightarrow> None | Some fs \<Rightarrow> NormalizeSIntIntervalFragments fs dm)"
    "?r = \<lparr>sr_domain = dm, sr_exact = e3, sr_congruence = c2, sr_bits = b, sr_excluded = x,
      sr_fragments = RefineSIntIntervalFragmentsByCongruence f0 c2 dm\<rparr>"
  have ok: "SD_wf d" "values_ok (SD_Width d) e" "values_ok (SD_Width d) ex" "frags_ends (SD_Width d) fs"
    using assms(1) by (simp_all add: parts_ok_def)
  have m: "SD_models \<sigma> d v" "exact_holds e v" "cong_holds c ?k" "bits_hold (SD_Width d) kb (val v)"
    "excl_holds ex v" "frags_hold (unsignedFlag d) fs ?k"
    using v by (simp_all add: parts_model_def)
  note vw = models_wf [OF m(1)] models_width [OF m(1)]
  note dm = KnownBits_domain [OF ok(1) st(2,5)]
  have dv: "SD_models \<sigma> dm v" using dm(4) m(1,4) by blast
  have e1: "values_ok (SD_Width d) e1" "exact_holds e1 v" using exact_steps [OF ok(2)] m(2) by (simp_all add: st(1))
  have c0: "values_ok (SD_Width d) c0" "exact_holds c0 v"
    using e1 SingleElement_ok [OF ok(1)] SingleValue_models [OF ok(1) _ m(1)] by (auto simp: st(3) exact_holds_def)
  have x: "values_ok (SD_Width d) x" "excl_holds x v"
    using NormalizeExcluded_facts(1,2) [where d = dm] ok(3) m(5)
    by (auto simp: st(6) simp del: values_ok_simps(2) split: option.split)
  have e2: "exact_holds e2 v" using FilterExact_facts(2) [OF c0(1) x(1) c0(2) x(2)] c0 by (simp add: st(7))
  have e3: "exact_holds e3 v" using e2 SingleValue_models [OF dm(1) _ dv] by (auto simp: st(8) exact_holds_def [of "Some _"])
  have c1: "cong_holds c1 ?k"
    using InferCongruenceFromExactValues_holds(2) [OF c0(1) vw(1) c0(2)] NormalizeCongruence_holds [of c ?k] m(3)
    by (simp add: st(4) SD_IsUnsigned_def)
  have b: "bits_hold (SD_Width d) b (val v)" using NormalizeKnownBits_sound [OF m(4)] by (simp add: st(2))
  have c2: "cong_holds c2 ?k"
    using c1 InferCongruenceFromKnownBits_sound(2) [OF vw b] dm(2) by (simp add: st(9))
  have f: "frags_hold (unsignedFlag dm) (RefineSIntIntervalFragmentsByCongruence f0 c2 dm) ?k"
  proof (cases fs)
    case None
    then show ?thesis by (simp add: st(10) RefineSIntIntervalFragmentsByCongruence_def)
  next
    case (Some l)
    have w: "\<forall>f \<in> set l. frag_normal (SD_Width dm) (unsignedFlag dm) f \<and> ends_in dm f" if "\<not> hasConvexBounds dm"
    proof -
      have nn: "numeric dm = numeric d" using dm(5) [OF dv] that by blast
      then have "\<not> hasConvexBounds d" using that dm(3) by (simp add: hasConvexBounds_iff SD_IsUnsigned_def)
      from wr [OF this] show ?thesis using Some nn dm(2,3) by (simp add: ends_inside_def ends_in_def)
    qed
    show ?thesis
      using constructed_fragments [OF dm(1) dv _ _ _ w, of c2] ok(4) m(6) c2 Some dm(2,3) by (simp add: st(10))
  qed
  show "SR_models \<sigma> ?r v"
    unfolding SR_models_def parts_model_def st(11) using dv e3 c2 b x(2) f dm(2,3) by simp
qed

end
