(* ===== verification/SIntRange_Join.thy ===== *)
theory SIntRange_Join
  imports SIntRange_Sound
begin

text \<open>
  The union of two integer ranges keeps every value of either one: first the fragments, whose
  sources are the fragments a range already has or one interval made of its bounds, then the
  product.
\<close>

section \<open>Where the fragments of a union come from\<close>

lemma Union_numeric:
  "CR_IsEmptySet (numeric (SD_Union a b)) \<or> numeric (SD_Union a b) = CR_UnionWith (numeric a) (numeric b) Smallest"
  if "SD_Unions a b \<noteq> None"
  using that by (auto simp: SD_Union_def SD_Unions_def MergeRangesForLogicalOperation_def MergeNumericRanges_def
      SD_NumericBound_def SD_Bottom_def SD_make_def SD_make_map_def bind_eq_Some_conv split: if_splits option.splits)

lemma Union_covers:
  assumes d: "SD_wf a" "SD_wf b" "SD_Width b = SD_Width a" "unsignedFlag b = unsignedFlag a"
    and m: "SD_models \<sigma> a v \<or> SD_models \<sigma> b v"
  shows "CR_gamma (numeric a) \<subseteq> CR_gamma (numeric (SD_Union a b))" "CR_gamma (numeric b) \<subseteq> CR_gamma (numeric (SD_Union a b))"
proof -
  have "SD_Unions a b \<noteq> None" using Unions_merge [OF d] by auto
  moreover have "\<not> CR_IsEmptySet (numeric (SD_Union a b))"
    using models_not_bottom [OF Union_facts(4) [OF d m]] by (simp add: SD_IsBottom_def)
  ultimately have n: "numeric (SD_Union a b) = CR_UnionWith (numeric a) (numeric b) Smallest"
    using Union_numeric by blast
  have w: "CR_wf (numeric a)" "CR_wf (numeric b)" "CR_Width (numeric b) = CR_Width (numeric a)"
    using d by (simp_all add: SD_wf_def SD_Width_def)
  show "CR_gamma (numeric a) \<subseteq> CR_gamma (numeric (SD_Union a b))" "CR_gamma (numeric b) \<subseteq> CR_gamma (numeric (SD_Union a b))"
    using UnionWith_left [OF w] UnionWith_right [OF w] by (auto simp: n)
qed

lemma MinMaxValue_mem:
  assumes "CR_wf r" "\<not> CR_IsEmptySet r"
  shows "CR_MinValue r u \<in> CR_gamma r" "CR_MaxValue r u \<in> CR_gamma r"
  using UMaxMin_mem [OF assms] SMaxMin_mem [OF assms] by (simp_all add: CR_MinValue_def CR_MaxValue_def)

definition fragment_source :: "SIntDomain \<Rightarrow> SIntIntervalFragment \<Rightarrow> bool" where
  "fragment_source d f \<longleftrightarrow> frag_ends (SD_Width d) f \<and>
     (on_progression (frag_stride f) (frag_residue f) (rd (\<not> SD_IsUnsigned d) (frag_lower f)) \<and>
      on_progression (frag_stride f) (frag_residue f) (rd (\<not> SD_IsUnsigned d) (frag_upper f)) \<or>
      range_convex (SD_IsUnsigned d) (numeric d) \<and> ends_in d f)"

lemma fragment_source_ends:
  assumes s: "SD_wf d" "fragment_source d f"
    and j: "SD_wf j" "\<not> hasConvexBounds j" "SD_Width j = SD_Width d" "unsignedFlag j = unsignedFlag d"
    and sub: "CR_gamma (numeric d) \<subseteq> CR_gamma (numeric j)"
    and g: "fragment_clamp j f = Some g" and h: "fragment_align j g = Some h"
  shows "ends_in j h"
proof -
  have e: "frag_ends (SD_Width j) f" using s(2) j(3) by (simp add: fragment_source_def)
  consider (progression) "on_progression (frag_stride f) (frag_residue f) (rd (\<not> SD_IsUnsigned j) (frag_lower f))"
      "on_progression (frag_stride f) (frag_residue f) (rd (\<not> SD_IsUnsigned j) (frag_upper f))"
    | (convex) "range_convex (SD_IsUnsigned j) (numeric d)" "ends_in d f"
    using s(2) j(4) by (auto simp: fragment_source_def SD_IsUnsigned_def)
  then show ?thesis
  proof cases
    case progression
    then show ?thesis using wrapped_progression_ends [OF j(1,2) e _ _ g h] by blast
  next
    case convex
    then show ?thesis using wrapped_convex_ends [OF j(1,2) e _ convex(1) _ sub _ _ g h] s(1) j(3)
      by (simp add: SD_wf_def SD_Width_def ends_in_def)
  qed
qed

lemma frag_holds_whole:
  "frag_holds u (SF_make l h s r) k \<longleftrightarrow> rd (\<not> u) l \<le> k \<and> k \<le> rd (\<not> u) h \<and> on_progression s r k"
  by (simp add: frag_holds_def SF_make_def)

lemma on_progression_1 [simp]: "on_progression 1 r k"
  by (simp add: on_progression_def)

lemma cong_holds_progression: "cong_wf (Some c) \<Longrightarrow> cong_holds (Some c) k \<Longrightarrow> on_progression (stride c) (residue c) k"
  by (simp add: on_progression_def cong_holds_def)

text \<open>The one interval a range without fragments stands for.\<close>

definition whole_fragment :: "SIntRange \<Rightarrow> SIntIntervalFragment" where
  "whole_fragment rng =
     (let lo = CR_MinValue (numeric (sr_domain rng)) (SD_IsUnsigned (sr_domain rng));
          hi = CR_MaxValue (numeric (sr_domain rng)) (SD_IsUnsigned (sr_domain rng))
      in case NormalizeCongruence (sr_congruence rng) of
           Some c \<Rightarrow> SF_make lo hi (stride c) (residue c) | None \<Rightarrow> SF_make lo hi 1 0)"

lemma GetFragments_cases:
  assumes "GetSIntIntervalFragmentsForUnion rng = Some fs"
  obtains (own) "sr_fragments rng = Some fs"
  | (bottom) "sr_fragments rng = None" "SD_IsBottom (sr_domain rng)" "fs = []"
  | (single) v where "sr_exact rng = Some [v]" "fs = [SF_make v v 1 0]"
  | (whole) "range_convex (SD_IsUnsigned (sr_domain rng)) (numeric (sr_domain rng))"
      "\<not> CR_IsEmptySet (numeric (sr_domain rng))" "fs = [whole_fragment rng]"
proof -
  consider "sr_fragments rng = Some fs" | "sr_fragments rng = None" "SD_IsBottom (sr_domain rng)" "fs = []"
    | "sr_fragments rng = None" "\<not> SD_IsBottom (sr_domain rng)" "\<not> unsupported_bounds (sr_domain rng)"
      "\<not> CR_IsEmptySet (numeric (sr_domain rng))"
      "(\<exists>v. sr_exact rng = Some [v] \<and> fs = [SF_make v v 1 0]) \<or> fs = [whole_fragment rng]"
    using assms
    by (auto simp: GetSIntIntervalFragmentsForUnion_def Let_def SD_NumericBound_def whole_fragment_def
        split: if_splits option.splits list.splits)
  then show thesis
  proof cases
    case 3
    then have "range_convex (SD_IsUnsigned (sr_domain rng)) (numeric (sr_domain rng))"
      by (auto simp: unsupported_bounds_def range_convex_def SD_NumericBound_def split: if_splits)
    then show thesis using 3(4,5) single whole by blast
  qed (use own bottom in blast)+
qed

lemma whole_fragment_ends:
  assumes "SD_wf (sr_domain r)"
  shows "frag_ends (SD_Width (sr_domain r)) (whole_fragment r)"
    "\<not> CR_IsEmptySet (numeric (sr_domain r)) \<Longrightarrow> ends_in (sr_domain r) (whole_fragment r)"
proof -
  have w: "CR_wf (numeric (sr_domain r))" using assms by (simp add: SD_wf_def)
  show "frag_ends (SD_Width (sr_domain r)) (whole_fragment r)"
    using minmax_simps [OF w]
    by (auto simp: whole_fragment_def Let_def SF_make_def frag_ends_def SD_Width_def
        CR_MinValue_def CR_MaxValue_def split: option.split)
  show "ends_in (sr_domain r) (whole_fragment r)" if "\<not> CR_IsEmptySet (numeric (sr_domain r))"
    using MinMaxValue_mem [OF w that, of "SD_IsUnsigned (sr_domain r)"]
    by (simp add: whole_fragment_def Let_def SF_make_def ends_in_def split: option.split)
qed

lemma whole_fragment_holds:
  assumes r: "SR_wf r" "SR_models \<sigma> r v"
  shows "frag_holds (SD_IsUnsigned (sr_domain r)) (whole_fragment r) (rd (\<not> SD_IsUnsigned (sr_domain r)) v)"
proof -
  let ?u = "SD_IsUnsigned (sr_domain r)"
  have w: "CR_wf (numeric (sr_domain r))" using r(1) by (simp add: SR_wf_def SD_wf_def)
  have v: "v \<in> CR_gamma (numeric (sr_domain r))" "cong_holds (sr_congruence r) (rd (\<not> ?u) v)"
    using r(2) by (simp_all add: SR_models_def parts_model_def SD_models_iff SD_IsUnsigned_def)
  have e: "SInt_wf (CR_MinValue (numeric (sr_domain r)) ?u)" "SInt_wf (CR_MaxValue (numeric (sr_domain r)) ?u)"
    using minmax_simps [OF w] by (simp_all add: CR_MinValue_def CR_MaxValue_def)
  have "NormalizeCongruence (sr_congruence r) = sr_congruence r"
    using r(1) by (simp add: SR_wf_def NormalizeCongruence_id)
  then show ?thesis using MinMaxValue_bounds [OF w v(1), of ?u] e v(2) r(1)
    by (auto simp: whole_fragment_def Let_def frag_holds_whole ToMathematicalInteger_rd SR_wf_def
        simp del: cong_simps(3) intro: cong_holds_progression split: option.split)
qed

lemma GetFragments_facts:
  assumes r: "SR_wf r" and g: "GetSIntIntervalFragmentsForUnion r = Some fs"
  shows "\<forall>f \<in> set fs. fragment_source (sr_domain r) f"
    "SR_ends r \<Longrightarrow> SR_models \<sigma> r v \<Longrightarrow>
     \<exists>f \<in> set fs. frag_holds (SD_IsUnsigned (sr_domain r)) f (rd (\<not> SD_IsUnsigned (sr_domain r)) v) \<and> ends_in (sr_domain r) f"
proof -
  let ?d = "sr_domain r" and ?k = "rd (\<not> SD_IsUnsigned (sr_domain r)) v"
  have d: "SD_wf ?d" using r by (simp add: SR_wf_def)
  have m: "v \<in> CR_gamma (numeric ?d)" "exact_holds (sr_exact r) v" "frags_hold (SD_IsUnsigned ?d) (sr_fragments r) ?k"
    if "SR_models \<sigma> r v"
    using that by (simp_all add: SR_models_def parts_model_def SD_models_iff SD_IsUnsigned_def)
  show "\<forall>f \<in> set fs. fragment_source ?d f"
    using g
  proof (cases rule: GetFragments_cases)
    case own
    then show ?thesis using r by (auto simp: SR_wf_def fragment_source_def frag_normal_def frag_clamped_def SD_IsUnsigned_def)
  next
    case (single x)
    then show ?thesis using r by (simp add: SR_wf_def fragment_source_def SF_make_def frag_ends_def)
  next
    case whole
    then show ?thesis using whole_fragment_ends [OF d] by (simp add: fragment_source_def)
  qed simp
  assume e: "SR_ends r" and v: "SR_models \<sigma> r v"
  show "\<exists>f \<in> set fs. frag_holds (SD_IsUnsigned ?d) f ?k \<and> ends_in ?d f"
    using g
  proof (cases rule: GetFragments_cases)
    case own
    then show ?thesis using m(3) [OF v] e by (auto simp: SR_ends_def ends_inside_def frags_say_def)
  next
    case bottom
    then show ?thesis using v models_not_bottom by (auto simp: SR_models_def parts_model_def)
  next
    case (single x)
    then have "x = v" using m(2) [OF v] by (simp add: exact_holds_def)
    then show ?thesis using single(2) m(1) [OF v] by (simp add: frag_holds_whole) (simp add: ends_in_def SF_make_def)
  next
    case whole
    then show ?thesis using whole_fragment_ends [OF d] whole_fragment_holds [OF r v] by simp
  qed
qed

section \<open>The fragments of a union\<close>

lemma MergeFragments_cases:
  obtains (left) "SD_IsBottom (sr_domain l)" "MergeSIntIntervalFragmentsForUnion l r j = sr_fragments r"
  | (right) "SD_IsBottom (sr_domain r)" "MergeSIntIntervalFragmentsForUnion l r j = sr_fragments l"
  | (none) "MergeSIntIntervalFragmentsForUnion l r j = None"
  | (both) fs gs where "GetSIntIntervalFragmentsForUnion l = Some fs" "GetSIntIntervalFragmentsForUnion r = Some gs"
      "MergeSIntIntervalFragmentsForUnion l r j = NormalizeSIntIntervalFragments (fs @ gs) j"
proof -
  have "SD_IsBottom (sr_domain l) \<and> MergeSIntIntervalFragmentsForUnion l r j = sr_fragments r \<or>
    SD_IsBottom (sr_domain r) \<and> MergeSIntIntervalFragmentsForUnion l r j = sr_fragments l \<or>
    MergeSIntIntervalFragmentsForUnion l r j = None \<or> MergeSIntIntervalFragmentsForUnion l r j = MergedFragmentLists l r j"
    unfolding MergeSIntIntervalFragmentsForUnion_def Let_def by (simp only: split: if_split) blast
  then show thesis using left right none both
    by (elim disjE conjE) (auto simp: MergedFragmentLists_def split: option.splits)
qed

text \<open>The union only moves fragments of one range into the larger domain.\<close>

lemma frags_ends_inside: "ends_inside d f \<Longrightarrow> CR_gamma (numeric d) \<subseteq> CR_gamma (numeric j) \<Longrightarrow> ends_inside j f"
  by (auto simp: ends_inside_def ends_in_def)

lemma SR_models_domain: "SR_models \<sigma> r v \<Longrightarrow> SD_models \<sigma> (sr_domain r) v"
  by (simp add: SR_models_def parts_model_def)

definition same_shape :: "SIntRange \<Rightarrow> SIntRange \<Rightarrow> bool" where
  "same_shape l r \<longleftrightarrow> SD_Width (sr_domain r) = SD_Width (sr_domain l) \<and>
     unsignedFlag (sr_domain r) = unsignedFlag (sr_domain l)"

lemma MergeFragments_facts:
  assumes l: "SR_wf l" and r: "SR_wf r" and s: "same_shape l r"
  defines "j \<equiv> SD_Union (sr_domain l) (sr_domain r)"
  shows "frags_wf (SD_Width j) (unsignedFlag j) (MergeSIntIntervalFragmentsForUnion l r j)"
    "SR_ends l \<Longrightarrow> SR_ends r \<Longrightarrow> SR_models \<sigma> l v \<or> SR_models \<sigma> r v \<Longrightarrow>
     frags_hold (unsignedFlag j) (MergeSIntIntervalFragmentsForUnion l r j) (rd (\<not> unsignedFlag j) v) \<and>
     (\<not> hasConvexBounds j \<longrightarrow> ends_inside j (MergeSIntIntervalFragmentsForUnion l r j))"
proof -
  let ?f = "MergeSIntIntervalFragmentsForUnion l r j" and ?k = "rd (\<not> unsignedFlag j) v"
  have d: "SD_wf (sr_domain l)" "SD_wf (sr_domain r)" "SD_Width (sr_domain r) = SD_Width (sr_domain l)"
    "unsignedFlag (sr_domain r) = unsignedFlag (sr_domain l)" using l r s by (simp_all add: SR_wf_def same_shape_def)
  note J = Union_facts [OF d, folded j_def]
  have n: "CR_wf (numeric j)" using J(1) by (simp add: SD_wf_def)
  have ends: "\<forall>f \<in> set (fs @ gs). frag_ends (SD_Width j) f"
    if "GetSIntIntervalFragmentsForUnion l = Some fs" "GetSIntIntervalFragmentsForUnion r = Some gs" for fs gs
    using GetFragments_facts(1) [OF l that(1)] GetFragments_facts(1) [OF r that(2)] J(2) d(3)
    by (auto simp: fragment_source_def)
  show "frags_wf (SD_Width j) (unsignedFlag j) ?f"
  proof (cases rule: MergeFragments_cases [of l r j])
    case (both fs gs)
    then show ?thesis using Normalize_wf [OF n ends] by (simp add: SD_IsUnsigned_def)
  qed (use l r d J in \<open>simp_all add: SR_wf_def\<close>)
  assume e: "SR_ends l" "SR_ends r" and v: "SR_models \<sigma> l v \<or> SR_models \<sigma> r v"
  have dv: "SD_models \<sigma> (sr_domain l) v \<or> SD_models \<sigma> (sr_domain r) v" using v SR_models_domain by blast
  note sub = Union_covers [OF d dv, folded j_def]
  have jv: "SD_models \<sigma> j v" using J(4) [OF dv] .
  have lr: "SD_IsBottom (sr_domain l) \<Longrightarrow> SR_models \<sigma> r v" "SD_IsBottom (sr_domain r) \<Longrightarrow> SR_models \<sigma> l v"
    using v SR_models_domain models_not_bottom by blast+
  show "frags_hold (unsignedFlag j) ?f ?k \<and> (\<not> hasConvexBounds j \<longrightarrow> ends_inside j ?f)"
  proof (cases rule: MergeFragments_cases [of l r j])
    case left
    then show ?thesis using lr(1) e(2) frags_ends_inside [OF _ sub(2)] d(4) J(3)
      by (simp add: SR_models_def parts_model_def SR_ends_def)
  next
    case right
    then show ?thesis using lr(2) e(1) frags_ends_inside [OF _ sub(1)] J(3)
      by (simp add: SR_models_def parts_model_def SR_ends_def)
  next
    case none
    then show ?thesis by (simp add: ends_inside_def)
  next
    case (both fs gs)
    note ok = ends [OF both(1,2)]
    have "\<exists>f \<in> set (fs @ gs). frag_holds (unsignedFlag j) f ?k \<and> ends_in j f"
      using v GetFragments_facts(2) [OF l both(1) e(1)] GetFragments_facts(2) [OF r both(2) e(2)] sub d(4) J(3)
      by (fastforce simp: SD_IsUnsigned_def ends_in_def)
    then obtain f where f: "f \<in> set (fs @ gs)" "frag_holds (unsignedFlag j) f ?k" "ends_in j f" by blast
    show ?thesis
    proof (cases "NormalizeSIntIntervalFragments (fs @ gs) j")
      case (Some hs)
      have say: "frags_say (SD_IsUnsigned j) hs ?k"
      proof (cases "hasConvexBounds j")
        case True
        have "frags_say (SD_IsUnsigned j) (fs @ gs) ?k" unfolding frags_say_def using f by (auto simp: SD_IsUnsigned_def)
        moreover have "inside j ?k" using domain_bounds(3) [OF n, of v] jv by (simp add: SD_models_iff SD_IsUnsigned_def)
        ultimately show ?thesis using Normalize_exact [OF n True ok Some] by blast
      next
        case False
        show ?thesis using Normalize_wrapped [OF n False ok Some f(1)] f(2,3) Satisfies_member [OF J(1) jv]
          by (simp add: SD_IsUnsigned_def ends_in_def)
      qed
      have "ends_inside j ?f" if w: "\<not> hasConvexBounds j"
      proof -
        have "ends_in j h" if f: "f \<in> set (fs @ gs)" and g: "fragment_clamp j f = Some g" "fragment_align j g = Some h" for f g h
          using f GetFragments_facts(1) [OF l both(1)] GetFragments_facts(1) [OF r both(2)]
            fragment_source_ends [OF d(1) _ J(1) w J(2,3) sub(1) g] fragment_source_ends [OF d(2) _ J(1) w _ _ sub(2) g] J(2,3) d(3,4)
          by auto
        from Normalize_ends [OF Some this] show ?thesis using both(3) Some by (simp add: ends_inside_def)
      qed
      then show ?thesis using say Some both(3) by (simp add: SD_IsUnsigned_def)
    qed (simp add: both(3) ends_inside_def)
  qed
qed

section \<open>The union\<close>

lemma JoinParts_facts:
  fixes cfg
  assumes l: "SR_wf l" and r: "SR_wf r" and s: "same_shape l r"
  defines "p \<equiv> SIntRange_JoinParts cfg l r"
  shows "parts_ok (jp_domain p) (jp_exact p) (jp_excluded p) (jp_fragments p)"
    "SD_Width (jp_domain p) = SD_Width (sr_domain l)" "unsignedFlag (jp_domain p) = unsignedFlag (sr_domain l)"
    "SR_ends l \<Longrightarrow> SR_ends r \<Longrightarrow> SR_models \<sigma> l v \<or> SR_models \<sigma> r v \<Longrightarrow>
     parts_model \<sigma> (jp_domain p) (jp_exact p) (jp_congruence p) (jp_bits p) (jp_excluded p) (jp_fragments p) v \<and>
     (\<not> hasConvexBounds (jp_domain p) \<longrightarrow>
       frags_wf (SD_Width (jp_domain p)) (unsignedFlag (jp_domain p)) (jp_fragments p) \<and>
       ends_inside (jp_domain p) (jp_fragments p))"
proof -
  let ?a = "sr_domain l" and ?b = "sr_domain r"
  have d: "SD_wf ?a" "SD_wf ?b" "SD_Width ?b = SD_Width ?a" "unsignedFlag ?b = unsignedFlag ?a"
    using l r s by (simp_all add: SR_wf_def same_shape_def)
  have vs: "values_ok (SD_Width ?a) (sr_exact l)" "values_ok (SD_Width ?a) (sr_exact r)" "sr_exact l \<noteq> Some []" "sr_exact r \<noteq> Some []"
    "values_ok (SD_Width ?a) (sr_excluded l)" "values_ok (SD_Width ?a) (sr_excluded r)"
    using l r d(3) by (simp_all add: SR_wf_def)
  note J = Union_facts [OF d]
  note F = MergeFragments_facts [OF l r s]
  have jd: "jp_domain p = SD_Union ?a ?b" "jp_exact p = MergeExactIntSets cfg (sr_exact l) (sr_exact r)"
    "jp_congruence p = MergeSIntCongruencesForUnion ?a (sr_exact l) (sr_congruence l) ?b (sr_exact r) (sr_congruence r)"
    "jp_excluded p = MergeExcludedSIntValuesForUnion ?a (sr_excluded l) ?b (sr_excluded r) (SD_Union ?a ?b)"
    "jp_fragments p = None \<or> jp_fragments p = MergeSIntIntervalFragmentsForUnion l r (SD_Union ?a ?b)"
    by (simp_all add: p_def SIntRange_JoinParts_def Let_def)
  have jb: "jp_bits p = MergeSIntKnownBitsForUnion ?a
      (if sr_bits l \<noteq> None \<or> sr_bits r \<noteq> None then GetEffectiveKnownBits ?a (sr_exact l) (sr_congruence l) (sr_bits l) else sr_bits l)
      ?b (if sr_bits l \<noteq> None \<or> sr_bits r \<noteq> None then GetEffectiveKnownBits ?b (sr_exact r) (sr_congruence r) (sr_bits r) else sr_bits r)"
    by (simp add: p_def SIntRange_JoinParts_def Let_def)
  have fw: "frags_wf (SD_Width (jp_domain p)) (unsignedFlag (jp_domain p)) (jp_fragments p)"
    using F(1) jd(1,5) by auto
  show dom: "SD_Width (jp_domain p) = SD_Width ?a" "unsignedFlag (jp_domain p) = unsignedFlag ?a" using J jd(1) by simp_all
  show "parts_ok (jp_domain p) (jp_exact p) (jp_excluded p) (jp_fragments p)"
    using J jd(1-4) MergeExactIntSets_facts(1) [OF vs(1,2)] MergeExcluded_facts(1) [OF d(1,2) vs(5,6) d(3)]
      frags_wf_ends [OF fw] dom by (simp add: parts_ok_def)
  assume e: "SR_ends l" "SR_ends r" and v: "SR_models \<sigma> l v \<or> SR_models \<sigma> r v"
  have L: "SD_models \<sigma> ?a v" "v \<in> CR_gamma (numeric ?a)" "SInt_wf v" "exact_holds (sr_exact l) v"
      "cong_holds (sr_congruence l) (rd (\<not> unsignedFlag ?a) v)" "bits_hold (SD_Width ?a) (sr_bits l) (val v)"
      "excl_holds (sr_excluded l) v" "\<not> SD_IsBottom ?a" if "SR_models \<sigma> l v"
    using SR_models_domain [OF that] models_not_bottom [OF SR_models_domain [OF that]] models_wf [OF SR_models_domain [OF that]] that
    by (simp_all add: SR_models_def parts_model_def) (simp add: SD_models_iff)
  have R: "SD_models \<sigma> ?b v" "v \<in> CR_gamma (numeric ?b)" "SInt_wf v" "exact_holds (sr_exact r) v"
      "cong_holds (sr_congruence r) (rd (\<not> unsignedFlag ?a) v)" "bits_hold (SD_Width ?b) (sr_bits r) (val v)"
      "excl_holds (sr_excluded r) v" "\<not> SD_IsBottom ?b" if "SR_models \<sigma> r v"
    using SR_models_domain [OF that] models_not_bottom [OF SR_models_domain [OF that]] models_wf [OF SR_models_domain [OF that]] that d(4)
    by (simp_all add: SR_models_def parts_model_def) (simp add: SD_models_iff)
  have ex: "exact_holds (jp_exact p) v"
    unfolding jd(2) using v L(4) R(4) vs(3,4) by (intro MergeExactIntSets_facts(2) [OF vs(1,2)]) blast
  have "cong_holds (jp_congruence p) (rd (\<not> SD_IsUnsigned ?a) v)"
    unfolding jd(3) using v L(3,4,5,8) R(3,4,5,8) d(4)
    by (intro MergeCongruences_holds [OF vs(1,2)]) (auto simp: part_holds_def SD_IsUnsigned_def)
  then have co: "cong_holds (jp_congruence p) (rd (\<not> unsignedFlag (jp_domain p)) v)"
    by (simp add: dom SD_IsUnsigned_def)
  have bi: "bits_hold (SD_Width (jp_domain p)) (jp_bits p) (val v)"
    unfolding jb dom
  proof (rule MergeKnownBits_sound [OF d(3)])
    have n: "CR_wf (numeric ?a)" "CR_wf (numeric ?b)" using d by (simp_all add: SD_wf_def)
    show "\<not> SD_IsBottom ?a \<and> bits_hold (SD_Width ?a) (if sr_bits l \<noteq> None \<or> sr_bits r \<noteq> None
          then GetEffectiveKnownBits ?a (sr_exact l) (sr_congruence l) (sr_bits l) else sr_bits l) (val v) \<or>
        \<not> SD_IsBottom ?b \<and> bits_hold (SD_Width ?a) (if sr_bits l \<noteq> None \<or> sr_bits r \<noteq> None
          then GetEffectiveKnownBits ?b (sr_exact r) (sr_congruence r) (sr_bits r) else sr_bits r) (val v)"
      using v
    proof
      assume "SR_models \<sigma> l v"
      then show ?thesis using L GetEffectiveKnownBits_sound [OF n(1) L(2,4,5,6)] by simp
    next
      assume "SR_models \<sigma> r v"
      then show ?thesis using R GetEffectiveKnownBits_sound [OF n(2) R(2,4,5,6)] d(3) by simp
    qed
  qed
  have xc: "excl_holds (jp_excluded p) v"
    unfolding jd(4) using v L(1,7) R(1,7) by (intro MergeExcluded_facts(2) [OF d(1,2) vs(5,6) d(3)]) blast
  have dm: "SD_models \<sigma> (jp_domain p) v" unfolding jd(1) using v L(1) R(1) by (intro J(4)) blast
  have fr: "frags_hold (unsignedFlag (jp_domain p)) (jp_fragments p) (rd (\<not> unsignedFlag (jp_domain p)) v) \<and>
      (\<not> hasConvexBounds (jp_domain p) \<longrightarrow> ends_inside (jp_domain p) (jp_fragments p))"
    using jd(5) F(2) [OF e v, folded jd(1)]
    by (elim disjE) (simp_all add: ends_inside_def [of _ None] jd(1) [symmetric])
  show "parts_model \<sigma> (jp_domain p) (jp_exact p) (jp_congruence p) (jp_bits p) (jp_excluded p) (jp_fragments p) v \<and>
     (\<not> hasConvexBounds (jp_domain p) \<longrightarrow>
       frags_wf (SD_Width (jp_domain p)) (unsignedFlag (jp_domain p)) (jp_fragments p) \<and>
       ends_inside (jp_domain p) (jp_fragments p))"
    using dm ex co bi xc fr fw by (simp add: parts_model_def)
qed

lemma None_Some_if: "y = (if A then None else Some x) \<Longrightarrow> y = None \<and> A \<or> y = Some x"
  by simp

lemma Join_cases:
  obtains (changed) "SIntRange_Join cfg l r = Some (SIntRange_make cfg (jp_domain (SIntRange_JoinParts cfg l r))
      (jp_exact (SIntRange_JoinParts cfg l r)) (jp_congruence (SIntRange_JoinParts cfg l r)) (jp_bits (SIntRange_JoinParts cfg l r))
      (jp_excluded (SIntRange_JoinParts cfg l r)) (jp_fragments (SIntRange_JoinParts cfg l r)))"
  | (same) "SIntRange_Join cfg l r = None" "SD_IsSame (sr_domain l) (jp_domain (SIntRange_JoinParts cfg l r))"
      "opt_list_eq SInt_eq (sr_exact l) (jp_exact (SIntRange_JoinParts cfg l r))"
      "sr_congruence l = jp_congruence (SIntRange_JoinParts cfg l r)" "sr_bits l = jp_bits (SIntRange_JoinParts cfg l r)"
      "opt_list_eq SInt_eq (sr_excluded l) (jp_excluded (SIntRange_JoinParts cfg l r))"
      "opt_list_eq SF_eq (sr_fragments l) (jp_fragments (SIntRange_JoinParts cfg l r))"
  using None_Some_if [OF SIntRange_Join_def [unfolded Let_def, of cfg l r]] that by blast

lemma Join_changed:
  assumes l: "SR_wf l" and r: "SR_wf r" and s: "same_shape l r" and j: "SIntRange_Join cfg l r = Some j"
  shows "SR_wf j" "same_shape l j" "SR_ends l \<Longrightarrow> SR_ends r \<Longrightarrow> SR_models \<sigma> l v \<or> SR_models \<sigma> r v \<Longrightarrow> SR_models \<sigma> j v"
proof -
  let ?p = "SIntRange_JoinParts cfg l r"
  note P = JoinParts_facts [OF l r s, where cfg = cfg]
  have m: "j = SIntRange_make cfg (jp_domain ?p) (jp_exact ?p) (jp_congruence ?p) (jp_bits ?p) (jp_excluded ?p) (jp_fragments ?p)"
    using j by (cases rule: Join_cases [of cfg l r]) simp_all
  note W = SIntRange_make_wf [OF P(1), of cfg "jp_congruence ?p" "jp_bits ?p", folded m]
  show "SR_wf j" using W(1) .
  show "same_shape l j" using W(2,3) P(2,3) by (simp add: same_shape_def)
  show "SR_models \<sigma> j v" if "SR_ends l" "SR_ends r" "SR_models \<sigma> l v \<or> SR_models \<sigma> r v"
    unfolding m using P(4) [OF that] by (intro SIntRange_make_sound [OF P(1)]) simp_all
qed

text \<open>When nothing is reported to change, only the numeric bound of the domain is kept.\<close>

definition without_symbolics :: "SIntRange \<Rightarrow> SIntRange" where
  "without_symbolics r = r\<lparr>sr_domain := SD_make (numeric (sr_domain r)) (unsignedFlag (sr_domain r))\<rparr>"

lemma opt_list_eq_values:
  assumes "values_ok w a" "values_ok w b" "opt_list_eq SInt_eq a b"
  shows "a = b"
proof (cases a)
  case (Some xs)
  then obtain ys where y: "b = Some ys" "list_all2 SInt_eq xs ys" using assms(3) by (auto simp: opt_list_eq_def split: option.splits)
  have "list_all2 (=) xs ys"
    by (rule list.rel_mono_strong [OF y(2)]) (use assms(1,2) Some y(1) in \<open>simp add: SInt_eq_iff\<close>)
  then show ?thesis using Some y by (simp add: list.rel_eq)
qed (use assms(3) in \<open>auto simp: opt_list_eq_def split: option.splits\<close>)

lemma SF_eq_iff: "frag_ends w f \<Longrightarrow> frag_ends w g \<Longrightarrow> SF_eq f g \<longleftrightarrow> f = g"
  by (cases f; cases g) (auto simp: SF_eq_def frag_ends_def SInt_eq_iff)

lemma opt_list_eq_fragments:
  assumes "frags_ends w a" "frags_ends w b" "opt_list_eq SF_eq a b"
  shows "a = b"
proof (cases a)
  case (Some xs)
  then obtain ys where y: "b = Some ys" "list_all2 SF_eq xs ys" using assms(3) by (auto simp: opt_list_eq_def split: option.splits)
  have "list_all2 (=) xs ys"
    by (rule list.rel_mono_strong [OF y(2)]) (use assms(1,2) Some y(1) in \<open>simp add: SF_eq_iff [of w]\<close>)
  then show ?thesis using Some y by (simp add: list.rel_eq)
qed (use assms(3) in \<open>auto simp: opt_list_eq_def split: option.splits\<close>)

lemma eq_numeric:
  assumes "SD_wf a" "SD_wf b" "SD_Width b = SD_Width a" "SD_IsSame a b"
  shows "numeric b = numeric a"
proof -
  note w = CR_wfD [of "numeric a"] CR_wfD [of "numeric b"]
  have "lower (numeric b) = lower (numeric a)" "upper (numeric b) = upper (numeric a)"
    using assms w by (simp_all add: SD_IsSame_def CR_eq_def SD_wf_def SD_Width_def SInt_eq_iff)
  then show ?thesis by (intro ConstantRange.equality) simp_all
qed

lemma Join_same:
  assumes l: "SR_wf l" and r: "SR_wf r" and s: "same_shape l r" and j: "SIntRange_Join cfg l r = None"
    and v: "SR_ends l" "SR_ends r" "SR_models \<sigma> l v \<or> SR_models \<sigma> r v"
  shows "SR_models \<sigma> (without_symbolics l) v"
proof -
  let ?p = "SIntRange_JoinParts cfg l r"
  note P = JoinParts_facts [OF l r s, where cfg = cfg]
  have m: "parts_model \<sigma> (jp_domain ?p) (jp_exact ?p) (jp_congruence ?p) (jp_bits ?p) (jp_excluded ?p) (jp_fragments ?p) v"
    using P(4) [OF v] by blast
  show ?thesis
  proof (cases rule: Join_cases [of cfg l r])
    case same
    have ok: "SD_wf (jp_domain ?p)" "values_ok (SD_Width (sr_domain l)) (jp_exact ?p)" "values_ok (SD_Width (sr_domain l)) (jp_excluded ?p)"
      "frags_ends (SD_Width (sr_domain l)) (jp_fragments ?p)"
      using P(1,2) by (simp_all add: parts_ok_def)
    have "numeric (jp_domain ?p) = numeric (sr_domain l)"
      using eq_numeric [OF _ ok(1) P(2) same(2)] l by (simp add: SR_wf_def)
    moreover have "sr_exact l = jp_exact ?p" "sr_excluded l = jp_excluded ?p" "sr_fragments l = jp_fragments ?p"
      using opt_list_eq_values [OF _ ok(2) same(3)] opt_list_eq_values [OF _ ok(3) same(6)]
        opt_list_eq_fragments [OF _ ok(4) same(7)] l frags_wf_ends by (auto simp: SR_wf_def)
    ultimately show ?thesis using m same(4,5) P(2,3)
      by (simp add: SR_models_def parts_model_def without_symbolics_def SD_models_iff SD_make_def SD_Width_def)
  qed (use j in simp)
qed

end
