(* ===== verification/SIntRange_Narrow.thy ===== *)
theory SIntRange_Narrow
  imports SIntRange_Join
begin

text \<open>
  Where a constructed range keeps its fragments, the union of loop observations, the membership
  query of the summaries and the narrowing with a candidate.
\<close>

section \<open>Fragments of a convex domain lie inside it\<close>

lemma Normalize_convex_ends:
  assumes d: "SD_wf d" "hasConvexBounds d" "\<not> SD_IsBottom d" and fs: "\<forall>f \<in> set fs. frag_ends (SD_Width d) f"
    and gs: "NormalizeSIntIntervalFragments fs d = Some gs"
  shows "\<forall>g \<in> set gs. ends_in d g"
proof
  fix g assume g: "g \<in> set gs"
  let ?u = "SD_IsUnsigned d"
  have n: "CR_wf (numeric d)" "\<not> CR_IsEmptySet (numeric d)" using d by (simp_all add: SD_wf_def SD_IsBottom_def)
  have w: "frag_normal (SD_Width d) ?u g" using Normalize_wf [OF n(1) fs] gs g by simp
  have "frag_holds ?u g (rd (\<not> ?u) (frag_lower g))" "frag_holds ?u g (rd (\<not> ?u) (frag_upper g))"
    using w frag_normal_le [OF w] by (simp_all add: frag_holds_def frag_normal_def)
  then have "frags_say ?u gs (rd (\<not> ?u) (frag_lower g))" "frags_say ?u gs (rd (\<not> ?u) (frag_upper g))"
    using g by (auto simp: frags_say_def)
  then have "inside d (rd (\<not> ?u) (frag_lower g))" "inside d (rd (\<not> ?u) (frag_upper g))"
    using Normalize_exact [OF n(1) d(2) fs gs] by blast+
  then show "ends_in d g" using inside_member [OF n(1) d(2) n(2)] w
    by (simp add: ends_in_def frag_normal_def frag_clamped_def frag_ends_def)
qed

lemma Refine_convex_ends:
  assumes d: "SD_wf d" "hasConvexBounds d" "\<not> SD_IsBottom d" and f: "frags_wf (SD_Width d) (SD_IsUnsigned d) f" "ends_inside d f"
  shows "ends_inside d (RefineSIntIntervalFragmentsByCongruence f c d)"
proof -
  have "ends_inside d (NormalizeSIntIntervalFragments (std_retain (fragment_refine (SD_IsUnsigned d) c') fs) d)"
    if s: "f = Some fs" for fs c'
  proof -
    have "\<forall>g \<in> set (std_retain (fragment_refine (SD_IsUnsigned d) c') fs). frag_ends (SD_Width d) g"
      using frags_wf_ends [OF f(1)] s fragment_refine_ends by (fastforce simp: std_retain_set frag_ends_def)
    from Normalize_convex_ends [OF d this] show ?thesis by (simp add: ends_inside_def)
  qed
  then show ?thesis using f(2) by (auto simp: RefineSIntIntervalFragmentsByCongruence_def Let_def split: option.split)
qed

lemma make_fragments:
  "\<exists>c2. sr_fragments (SIntRange_make cfg d e c kb ex fs) = RefineSIntIntervalFragmentsByCongruence
     (case fs of None \<Rightarrow> None | Some l \<Rightarrow> NormalizeSIntIntervalFragments l (sr_domain (SIntRange_make cfg d e c kb ex fs)))
     c2 (sr_domain (SIntRange_make cfg d e c kb ex fs))"
proof (rule make_unfold [where e = e and cfg = cfg and kb = kb and d = d and c = c and ex = ex and fs = fs])
  fix dm e3 c2 b x f0
  assume f: "f0 = (case fs of None \<Rightarrow> None | Some fs \<Rightarrow> NormalizeSIntIntervalFragments fs dm)"
    "SIntRange_make cfg d e c kb ex fs = \<lparr>sr_domain = dm, sr_exact = e3, sr_congruence = c2, sr_bits = b, sr_excluded = x,
        sr_fragments = RefineSIntIntervalFragmentsByCongruence f0 c2 dm\<rparr>"
  show ?thesis unfolding f by (rule exI [of _ c2], cases fs) simp_all
qed

lemma SIntRange_make_ends:
  assumes p: "parts_ok d e ex fs"
    and r: "hasConvexBounds (sr_domain (SIntRange_make cfg d e c kb ex fs))" "\<not> SD_IsBottom (sr_domain (SIntRange_make cfg d e c kb ex fs))"
  shows "SR_ends (SIntRange_make cfg d e c kb ex fs)"
proof -
  let ?d = "sr_domain (SIntRange_make cfg d e c kb ex fs)"
  note w = SIntRange_make_wf [OF p, of cfg c kb]
  have d: "SD_wf ?d" using w(1) by (simp add: SR_wf_def)
  obtain f0 c2 where f: "f0 = (case fs of None \<Rightarrow> None | Some l \<Rightarrow> NormalizeSIntIntervalFragments l ?d)"
    "sr_fragments (SIntRange_make cfg d e c kb ex fs) = RefineSIntIntervalFragmentsByCongruence f0 c2 ?d"
    using make_fragments [of cfg d e c kb ex fs] by (elim exE) (rule that [OF refl])
  have ok: "\<forall>f \<in> set l. frag_ends (SD_Width ?d) f" if "fs = Some l" for l
    unfolding w(2) using p that by (simp add: parts_ok_def)
  have n: "CR_wf (numeric ?d)" using d by (simp add: SD_wf_def)
  have "frags_wf (SD_Width ?d) (SD_IsUnsigned ?d) f0"
    using Normalize_wf [OF n ok] by (cases fs) (simp_all add: f(1))
  moreover have "ends_inside ?d f0"
    using Normalize_convex_ends [OF d r ok] by (cases fs) (simp_all add: f(1) ends_inside_def)
  ultimately show ?thesis using Refine_convex_ends [OF d r] by (simp add: SR_ends_def f(2))
qed

lemma Join_ends:
  assumes "SR_wf l" "SR_wf r" "same_shape l r" "SIntRange_Join cfg l r = Some j"
    and "hasConvexBounds (sr_domain j)" "\<not> SD_IsBottom (sr_domain j)"
  shows "SR_ends j"
proof -
  note P = JoinParts_facts(1) [OF assms(1-3), of cfg]
  show ?thesis
    by (cases rule: Join_cases [of cfg l r]) (use assms(4-) SIntRange_make_ends [OF P] in auto)
qed

section \<open>Loop observations\<close>

lemma BoundedLoop_cases:
  assumes "JoinBoundedLoopObservationRanges cfg l r = Some j"
  obtains (joined) "SIntRange_Join cfg l r = Some j"
  | (gaps) j0 xs where "SIntRange_Join cfg l r = Some j0" "sr_fragments j0 = None"
      "xs = NormalizeExcludedSIntValues (AddSmallGapExclusions (sr_domain l) (sr_domain r)
         (case sr_excluded j0 of None \<Rightarrow> [] | Some xs \<Rightarrow> xs)) (sr_domain j0)"
      "j = SIntRange_make cfg (sr_domain j0) (sr_exact j0) (sr_congruence j0) (sr_bits j0) xs None"
proof (cases "SIntRange_Join cfg l r")
  case (Some j0)
  then have "j = j0 \<or> sr_fragments j0 = None \<and> j = SIntRange_make cfg (sr_domain j0) (sr_exact j0) (sr_congruence j0) (sr_bits j0)
      (NormalizeExcludedSIntValues (AddSmallGapExclusions (sr_domain l) (sr_domain r)
         (case sr_excluded j0 of None \<Rightarrow> [] | Some xs \<Rightarrow> xs)) (sr_domain j0)) None"
    using assms by (simp only: JoinBoundedLoopObservationRanges_def Let_def option.case option.inject split: if_split_asm)
      (blast elim: option.inject [THEN iffD1, elim_format])+
  then show thesis using joined gaps Some by blast
qed (use assms in \<open>simp add: JoinBoundedLoopObservationRanges_def\<close>)

lemma BoundedLoop_facts:
  assumes l: "SR_wf l" and r: "SR_wf r" and s: "same_shape l r" and j: "JoinBoundedLoopObservationRanges cfg l r = Some j"
  shows "SR_wf j" "same_shape l j" "SR_ends l \<Longrightarrow> SR_ends r \<Longrightarrow> SR_models \<sigma> l v \<or> SR_models \<sigma> r v \<Longrightarrow> SR_models \<sigma> j v"
proof -
  have "SR_wf j \<and> same_shape l j \<and> (SR_ends l \<longrightarrow> SR_ends r \<longrightarrow> SR_models \<sigma> l v \<or> SR_models \<sigma> r v \<longrightarrow> SR_models \<sigma> j v)"
    using j
  proof (cases rule: BoundedLoop_cases)
    case joined
    then show ?thesis using Join_changed [OF l r s joined] by blast
  next
    case (gaps j0 xs)
    note J = Join_changed [OF l r s gaps(1)]
    let ?e = "case sr_excluded j0 of None \<Rightarrow> [] | Some xs \<Rightarrow> xs"
    have w: "SD_Width (sr_domain j0) = SD_Width (sr_domain l)" "unsignedFlag (sr_domain j0) = unsignedFlag (sr_domain l)"
      using J(2) by (simp_all add: same_shape_def)
    have d: "CR_wf (numeric (sr_domain l))" "CR_wf (numeric (sr_domain r))" "SD_Width (sr_domain r) = SD_Width (sr_domain l)"
      using l r s by (simp_all add: SR_wf_def SD_wf_def same_shape_def)
    have e: "values_ok (SD_Width (sr_domain l)) (Some ?e)" using J(1) w by (cases "sr_excluded j0") (auto simp: SR_wf_def)
    note A = AddSmallGap_facts [OF d e]
    have p: "parts_ok (sr_domain j0) (sr_exact j0) xs None"
      using J(1) w NormalizeExcluded_facts(1) [OF A(1), of "sr_domain j0"] by (simp add: parts_ok_def SR_wf_def gaps(3))
    note M = SIntRange_make_wf [OF p, of cfg "sr_congruence j0" "sr_bits j0", folded gaps(4)]
    have "SR_models \<sigma> j v" if v: "SR_ends l" "SR_ends r" "SR_models \<sigma> l v \<or> SR_models \<sigma> r v"
    proof -
      have m: "SR_models \<sigma> j0 v" using J(3) [OF v] .
      have "v \<in> CR_gamma (numeric (sr_domain l)) \<or> v \<in> CR_gamma (numeric (sr_domain r))"
        using v(3) by (auto simp: SR_models_def parts_model_def SD_models_iff)
      moreover have "v \<notin> set ?e" using m by (cases "sr_excluded j0") (auto simp: SR_models_def parts_model_def)
      ultimately have "excl_holds xs v" using A(2) NormalizeExcluded_facts(2) [OF A(1)] by (simp add: gaps(3))
      then have "parts_model \<sigma> (sr_domain j0) (sr_exact j0) (sr_congruence j0) (sr_bits j0) xs None v"
        using m by (simp add: SR_models_def parts_model_def)
      then show ?thesis unfolding gaps(4) by (intro SIntRange_make_sound [OF p]) (simp_all add: ends_inside_def)
    qed
    then show ?thesis using M w by (simp add: same_shape_def)
  qed
  then show "SR_wf j" "same_shape l j" "SR_ends l \<Longrightarrow> SR_ends r \<Longrightarrow> SR_models \<sigma> l v \<or> SR_models \<sigma> r v \<Longrightarrow> SR_models \<sigma> j v"
    by blast+
qed

section \<open>Membership\<close>

text \<open>The query of the summaries never denies a value of the range.\<close>

lemma ContainsExactValue_complete:
  assumes r: "SR_wf r" and m: "SR_models \<sigma> r v"
  shows "SIntRangeContainsExactValue r v"
proof -
  let ?d = "sr_domain r" and ?u = "SD_IsUnsigned (sr_domain r)"
  have d: "SD_models \<sigma> ?d v" using SR_models_domain [OF m] .
  note w = models_wf [OF d] models_width [OF d]
  have v: "exact_holds (sr_exact r) v" "cong_holds (sr_congruence r) (rd (\<not> ?u) v)" "bits_hold (SD_Width ?d) (sr_bits r) (val v)"
    "excl_holds (sr_excluded r) v" "frags_hold ?u (sr_fragments r) (rd (\<not> ?u) v)"
    using m by (simp_all add: SR_models_def parts_model_def SD_IsUnsigned_def)
  have k: "SD_wf ?d" "values_ok (SD_Width ?d) (sr_exact r)" "sr_exact r \<noteq> Some []" "values_ok (width v) (sr_excluded r)"
    "cong_wf (sr_congruence r)" "frags_wf (SD_Width ?d) ?u (sr_fragments r)"
    using r w(2) by (simp_all add: SR_wf_def SD_IsUnsigned_def)
  have exact: "std_contains SInt_eq vs v" if "sr_exact r = Some vs" for vs
    using v(1) k(2,3) that w by (auto simp: exact_holds_def std_contains_def list_ex_iff SInt_eq_iff)
  have may: "SIntRangeMayContain ?d (sr_excluded r) v" using MayContain_models [OF k(1) d k(4) v(4)] .
  have cong: "CanonicalResidue (ToMathematicalInteger v ?u) (stride c) = residue c" if "sr_congruence r = Some c" for c
  proof -
    have "uint (CanonicalResidue (ToMathematicalInteger v ?u) (stride c)) = uint (residue c)"
      using v(2) k(5) that w(1) by (simp add: cong_holds_def ToMathematicalInteger_rd uint_CanonicalResidue)
    then show ?thesis by (rule word_uint_eq_iff [THEN iffD2])
  qed
  have bits: "val v AND knownZero b = 0 \<and> val v AND knownOne b = knownOne b" if "sr_bits r = Some b" for b
  proof -
    have "NormalizeKnownBits (Some b) (SD_Width ?d) = Some b" using r that by (simp add: SR_wf_def bits_wf_def)
    then have "bit (knownZero b) i \<longrightarrow> i < bw (SD_Width ?d)" "bit (knownOne b) i \<longrightarrow> i < bw (SD_Width ?d)" for i
      by (auto elim!: NormalizeKnownBits_Some)
    then have "bit (knownZero b) i \<longrightarrow> \<not> bit (val v) i" "bit (knownOne b) i \<longrightarrow> bit (val v) i" for i
      using v(3) that by auto
    then show ?thesis by (auto intro!: bit_word_eqI simp: bit_simps)
  qed
  have frag: "list_ex (\<lambda>f. SIntFragmentContainsValue f v ?u) fs" if "sr_fragments r = Some fs" for fs
    using v(5) k(6) that SIntFragmentContainsValue_iff [where w = "SD_Width ?d" and uns = ?u, OF _ w(1)] by (auto simp: list_ex_iff frags_say_def)
  show ?thesis
    using exact may cong bits frag w(2)
    by (auto simp: SIntRangeContainsExactValue_def SInt_UVal_def split: option.split)
qed

section \<open>Narrowing\<close>

lemma IntersectExact_facts:
  assumes e: "values_ok w (sr_exact l)" "values_ok w (sr_exact r)" "sr_exact l \<noteq> Some []" "sr_exact r \<noteq> Some []"
  shows "values_ok w (IntersectExactIntSets cfg l r j)"
    "exact_holds (sr_exact l) v \<Longrightarrow> exact_holds (sr_exact r) v \<Longrightarrow> ExactValueSatisfiesDomain v j \<Longrightarrow>
     exact_holds (IntersectExactIntSets cfg l r j) v"
proof -
  let ?P = "\<lambda>v. ExactValueSatisfiesDomain v j \<and> (case sr_exact l of None \<Rightarrow> True | Some l \<Rightarrow> std_contains SInt_eq l v) \<and>
      (case sr_exact r of None \<Rightarrow> True | Some r \<Rightarrow> std_contains SInt_eq r v)"
    and ?s = "case sr_exact l of Some l \<Rightarrow> l | None \<Rightarrow> the (sr_exact r)"
  have eq: "IntersectExactIntSets cfg l r j = NormalizeExactIntSet cfg (filter ?P ?s)" if "sr_exact l \<noteq> None \<or> sr_exact r \<noteq> None"
    using that by (simp only: IntersectExactIntSets_def Let_def) auto
  have ok: "values_ok w (Some (filter ?P ?s))" if "sr_exact l \<noteq> None \<or> sr_exact r \<noteq> None"
    using that e by (cases "sr_exact l") auto
  show "values_ok w (IntersectExactIntSets cfg l r j)"
    using eq NormalizeExactIntSet_facts(1) [OF ok] by (cases "sr_exact l = None \<and> sr_exact r = None") (auto simp: IntersectExactIntSets_def)
  assume v: "exact_holds (sr_exact l) v" "exact_holds (sr_exact r) v" "ExactValueSatisfiesDomain v j"
  show "exact_holds (IntersectExactIntSets cfg l r j) v"
  proof (cases "sr_exact l = None \<and> sr_exact r = None")
    case False
    then have "width v = w" using v(1,2) e by (auto simp: exact_holds_def split: option.splits)
    then have c: "std_contains SInt_eq vs v" if "v \<in> set vs" "values_ok w (Some vs)" for vs
      using that by (auto simp: std_contains_def list_ex_iff SInt_eq_iff)
    have "v \<in> set (filter ?P ?s)"
      using False v e c by (cases "sr_exact l"; cases "sr_exact r") (auto simp: exact_holds_def)
    then show ?thesis using eq NormalizeExactIntSet_facts(2) [OF ok] False by auto
  qed (simp add: IntersectExactIntSets_def exact_holds_def)
qed

lemma Narrow_cases:
  assumes "NarrowSIntRange cfg l r = Some n"
  obtains e0 c b x where "e0 = IntersectExactIntSets cfg l r (SD_Intersect (sr_domain l) (sr_domain r))"
    "IntersectSIntCongruences (sr_congruence l) (sr_congruence r) = (c, True)"
    "IntersectSIntKnownBits (sr_bits l) (sr_bits r) (SD_Width (SD_Intersect (sr_domain l) (sr_domain r))) = (b, True)"
    "x = IntersectExcludedSIntValues l r (SD_Intersect (sr_domain l) (sr_domain r))"
    "n = SIntRange_make cfg (SD_Intersect (sr_domain l) (sr_domain r)) (FilterExactValuesByExclusions cfg e0 x) c b x
       (SelectSIntIntervalFragmentsForNarrowing l r (SD_Intersect (sr_domain l) (sr_domain r)))"
proof -
  obtain c cc where c: "IntersectSIntCongruences (sr_congruence l) (sr_congruence r) = (c, cc)" by force
  obtain b bb where b: "IntersectSIntKnownBits (sr_bits l) (sr_bits r) (SD_Width (SD_Intersect (sr_domain l) (sr_domain r))) = (b, bb)"
    by force
  have h: "cc \<and> bb \<and> n = SIntRange_make cfg (SD_Intersect (sr_domain l) (sr_domain r))
      (FilterExactValuesByExclusions cfg (IntersectExactIntSets cfg l r (SD_Intersect (sr_domain l) (sr_domain r)))
        (IntersectExcludedSIntValues l r (SD_Intersect (sr_domain l) (sr_domain r)))) c b
      (IntersectExcludedSIntValues l r (SD_Intersect (sr_domain l) (sr_domain r)))
      (SelectSIntIntervalFragmentsForNarrowing l r (SD_Intersect (sr_domain l) (sr_domain r)))"
    using assms unfolding NarrowSIntRange_def Let_def c b prod.case
    by (simp only: option.inject option.distinct not_not split: if_split_asm)
  show thesis by (rule that [OF refl _ _ refl h [THEN conjunct2, THEN conjunct2]]) (use c b h in \<open>simp_all only: simp_thms\<close>)
qed

lemma IntersectExcluded_facts:
  assumes "values_ok w (sr_excluded l)" "values_ok w (sr_excluded r)"
  shows "values_ok w (IntersectExcludedSIntValues l r j)"
    "excl_holds (sr_excluded l) v \<Longrightarrow> excl_holds (sr_excluded r) v \<Longrightarrow> excl_holds (IntersectExcludedSIntValues l r j) v"
proof -
  let ?xs = "(case sr_excluded l of None \<Rightarrow> [] | Some l \<Rightarrow> l) @ (case sr_excluded r of None \<Rightarrow> [] | Some r \<Rightarrow> r)"
  have ok: "values_ok w (Some ?xs)" using assms by (cases "sr_excluded l"; cases "sr_excluded r") auto
  show "values_ok w (IntersectExcludedSIntValues l r j)"
    unfolding IntersectExcludedSIntValues_def by (rule NormalizeExcluded_facts(1) [OF ok])
  show "excl_holds (IntersectExcludedSIntValues l r j) v" if "excl_holds (sr_excluded l) v" "excl_holds (sr_excluded r) v"
    unfolding IntersectExcludedSIntValues_def
    by (rule NormalizeExcluded_facts(2) [OF ok]) (use that in \<open>cases "sr_excluded l"; cases "sr_excluded r"; simp\<close>)
qed

lemma SelectFragments_facts:
  assumes l: "SR_wf l" and r: "SR_wf r" and s: "same_shape l r"
    and d: "SD_wf d" "SD_Width d = SD_Width (sr_domain l)" "unsignedFlag d = unsignedFlag (sr_domain l)"
  shows "frags_wf (SD_Width d) (unsignedFlag d) (SelectSIntIntervalFragmentsForNarrowing l r d)"
    "hasConvexBounds d \<or> sr_fragments l = None \<and> sr_fragments r = None \<Longrightarrow> SD_models \<sigma> d v \<Longrightarrow>
     SR_models \<sigma> l v \<Longrightarrow> SR_models \<sigma> r v \<Longrightarrow>
     frags_hold (unsignedFlag d) (SelectSIntIntervalFragmentsForNarrowing l r d) (rd (\<not> unsignedFlag d) v)"
proof -
  let ?k = "rd (\<not> unsignedFlag d) v"
  have n: "CR_wf (numeric d)" using d by (simp add: SD_wf_def)
  have ends: "\<forall>f \<in> set fs. frag_ends (SD_Width d) f" if "sr_fragments l = Some fs \<or> sr_fragments r = Some fs" for fs
  proof -
    have "frags_ends (SD_Width d) (sr_fragments l)" "frags_ends (SD_Width d) (sr_fragments r)"
      using l r s d by (auto simp: SR_wf_def same_shape_def simp del: frags_simps intro: frags_wf_ends)
    then show ?thesis using that by auto
  qed
  show "frags_wf (SD_Width d) (unsignedFlag d) (SelectSIntIntervalFragmentsForNarrowing l r d)"
    using Normalize_wf [OF n ends]
    by (auto simp: SelectSIntIntervalFragmentsForNarrowing_def SD_IsUnsigned_def split: option.split)
  assume c: "hasConvexBounds d \<or> sr_fragments l = None \<and> sr_fragments r = None" and m: "SD_models \<sigma> d v"
    and v: "SR_models \<sigma> l v" "SR_models \<sigma> r v"
  have i: "inside d ?k" using domain_bounds(3) [OF n, of v] m by (simp add: SD_models_iff SD_IsUnsigned_def)
  have h: "frags_hold (unsignedFlag d) (sr_fragments l) ?k" "frags_hold (unsignedFlag d) (sr_fragments r) ?k"
    using v s d by (simp_all add: SR_models_def parts_model_def same_shape_def)
  have "frags_hold (unsignedFlag d) (NormalizeSIntIntervalFragments fs d) ?k"
    if "sr_fragments l = Some fs \<or> sr_fragments r = Some fs" for fs
  proof (cases "NormalizeSIntIntervalFragments fs d")
    case (Some gs)
    have cv: "hasConvexBounds d" using c that by auto
    have "frags_say (SD_IsUnsigned d) fs ?k" using h that by (auto simp: SD_IsUnsigned_def)
    then show ?thesis using Normalize_exact [OF n cv ends [OF that] Some, of ?k] i Some by (simp add: SD_IsUnsigned_def)
  qed simp
  then show "frags_hold (unsignedFlag d) (SelectSIntIntervalFragmentsForNarrowing l r d) ?k"
    by (auto simp: SelectSIntIntervalFragmentsForNarrowing_def split: option.split)
qed

lemma Narrow_facts:
  assumes l: "SR_wf l" and r: "SR_wf r" and s: "same_shape l r" and n: "NarrowSIntRange cfg l r = Some n"
  defines "d \<equiv> SD_Intersect (sr_domain l) (sr_domain r)"
  shows "SR_wf n" "same_shape l n"
    "hasConvexBounds d \<or> sr_fragments l = None \<and> sr_fragments r = None \<Longrightarrow> SR_models \<sigma> l v \<Longrightarrow> SR_models \<sigma> r v \<Longrightarrow> SR_models \<sigma> n v"
proof -
  obtain e0 c b x where st: "e0 = IntersectExactIntSets cfg l r d" "IntersectSIntCongruences (sr_congruence l) (sr_congruence r) = (c, True)"
    "IntersectSIntKnownBits (sr_bits l) (sr_bits r) (SD_Width d) = (b, True)" "x = IntersectExcludedSIntValues l r d"
    "n = SIntRange_make cfg d (FilterExactValuesByExclusions cfg e0 x) c b x (SelectSIntIntervalFragmentsForNarrowing l r d)"
    using n unfolding d_def by (rule Narrow_cases)
  have w: "SD_wf (sr_domain l)" "SD_wf (sr_domain r)" "SD_Width (sr_domain r) = SD_Width (sr_domain l)"
    "unsignedFlag (sr_domain r) = unsignedFlag (sr_domain l)" using l r s by (simp_all add: SR_wf_def same_shape_def)
  note D = Intersect_facts [OF w, folded d_def]
  have vs: "values_ok (SD_Width (sr_domain l)) (sr_exact l)" "values_ok (SD_Width (sr_domain l)) (sr_exact r)" "sr_exact l \<noteq> Some []" "sr_exact r \<noteq> Some []"
    "values_ok (SD_Width (sr_domain l)) (sr_excluded l)" "values_ok (SD_Width (sr_domain l)) (sr_excluded r)"
    using l r w(3) by (simp_all add: SR_wf_def)
  note E = IntersectExact_facts [OF vs(1-4), where cfg = cfg and j = d, folded st(1)]
  note X = IntersectExcluded_facts [OF vs(5,6), where j = d, folded st(4)]
  note FL = FilterExact_facts [OF E(1) X(1), where cfg = cfg]
  note S = SelectFragments_facts [OF l r s D(1-3)]
  have p: "parts_ok d (FilterExactValuesByExclusions cfg e0 x) x (SelectSIntIntervalFragmentsForNarrowing l r d)"
    using D(1,2) FL(1) X(1) frags_wf_ends [OF S(1)] by (simp add: parts_ok_def)
  note M = SIntRange_make_wf [OF p, of cfg c b, folded st(5)]
  show "SR_wf n" "same_shape l n" using M D(2,3) by (simp_all add: same_shape_def)
  assume cv: "hasConvexBounds d \<or> sr_fragments l = None \<and> sr_fragments r = None" and v: "SR_models \<sigma> l v" "SR_models \<sigma> r v"
  have L: "exact_holds (sr_exact l) v" "cong_holds (sr_congruence l) (rd (\<not> unsignedFlag d) v)"
      "bits_hold (SD_Width d) (sr_bits l) (val v)" "excl_holds (sr_excluded l) v"
    and R: "exact_holds (sr_exact r) v" "cong_holds (sr_congruence r) (rd (\<not> unsignedFlag d) v)"
      "bits_hold (SD_Width d) (sr_bits r) (val v)" "excl_holds (sr_excluded r) v"
    using v w D(2,3) by (simp_all add: SR_models_def parts_model_def)
  have m: "SD_models \<sigma> d v" using D(4) SR_models_domain v by blast
  have "exact_holds (FilterExactValuesByExclusions cfg e0 x) v"
    using FL(2) E(2) [OF L(1) R(1) Satisfies_models [OF D(1) m]] X(2) [OF L(4) R(4)] by blast
  moreover have "cong_holds c (rd (\<not> unsignedFlag d) v)" using IntersectCongruences_sound(2) [OF L(2) R(2)] st(2) by simp
  moreover have "bits_hold (SD_Width d) b (val v)" using IntersectKnownBits_sound(2) [OF L(3) R(3)] st(3) by simp
  ultimately have pm: "parts_model \<sigma> d (FilterExactValuesByExclusions cfg e0 x) c b x (SelectSIntIntervalFragmentsForNarrowing l r d) v"
    using m X(2) [OF L(4) R(4)] S(2) [OF cv m v] by (simp add: parts_model_def)
  have wr: "frags_wf (SD_Width d) (unsignedFlag d) (SelectSIntIntervalFragmentsForNarrowing l r d) \<and>
      ends_inside d (SelectSIntIntervalFragmentsForNarrowing l r d)" if "\<not> hasConvexBounds d"
    using S(1) cv that by (simp add: SelectSIntIntervalFragmentsForNarrowing_def ends_inside_def)
  show "SR_models \<sigma> n v" unfolding st(5) using SIntRange_make_sound [OF p pm wr] .
qed

end
