(* ===== verification/SIntRange_Properties.thy ===== *)
theory SIntRange_Properties
  imports SIntRange_Narrow Sample_Values
begin

text \<open>
  The properties of the integer ranges and of the limits of the analysis, with an instance of
  each theorem that has hypotheses.
\<close>

definition sample_range :: "64 word \<Rightarrow> 64 word \<Rightarrow> SIntRange" where
  "sample_range l u = SIntRange_of_domain defaultConfig (SD_make (bytes l u) True)"

definition sample_fragment :: "64 word \<Rightarrow> 64 word \<Rightarrow> SIntIntervalFragment" where
  "sample_fragment l u = SF_make (byte l) (byte u) 1 0"

section \<open>Construction\<close>

text \<open>C5: From a domain and parts of its width, the constructor establishes the invariant of a range (a well-formed domain, values of its
  width, a canonical congruence, known bits that agree, at most 32 excluded values and at most
  4 fragments in normal form) and keeps width and signedness. It keeps every value that
  satisfies the parts it is given provided that the domain does not wrap
  (\<open>hasConvexBounds\<close>), or that the fragments given, if any, are already in normal form and end
  inside the domain.\<close>

theorem SIntRange_make_correct:
  assumes "parts_ok d e x f"
  shows "SR_wf (SIntRange_make cfg d e c b x f) \<and> SD_Width (sr_domain (SIntRange_make cfg d e c b x f)) = SD_Width d \<and>
    unsignedFlag (sr_domain (SIntRange_make cfg d e c b x f)) = unsignedFlag d \<and>
    (hasConvexBounds d \<or> frags_wf (SD_Width d) (unsignedFlag d) f \<and> ends_inside d f \<longrightarrow>
     parts_model \<sigma> d e c b x f v \<longrightarrow> SR_models \<sigma> (SIntRange_make cfg d e c b x f) v)"
  using SIntRange_make_wf [OF assms] SIntRange_make_sound [OF assms] by blast

theorem SIntRange_make_correct_witness:
  "SR_models (\<lambda>_. 0) (SIntRange_make defaultConfig (SD_make (bytes 0 31) True) None None None (Some [byte 7])
     (Some [sample_fragment 2 9, sample_fragment 20 40])) (byte 25)"
proof -
  let ?d = "SD_make (bytes 0 31) True" and ?f = "Some [sample_fragment 2 9, sample_fragment 20 40]"
  have "SD_wf ?d" "values_ok (SD_Width ?d) (Some [byte 7])" "frags_ends (SD_Width ?d) ?f" by code_simp+
  then have p: "parts_ok ?d None (Some [byte 7]) ?f" by (simp add: parts_ok_def)
  have "SD_models (\<lambda>_. 0) ?d (byte 25)" "byte 25 \<notin> set [byte 7]" "frags_hold True ?f (rd False (byte 25))" "unsignedFlag ?d" by code_simp+
  then have m: "parts_model (\<lambda>_. 0) ?d None None None (Some [byte 7]) ?f (byte 25)"
    by (simp add: parts_model_def exact_holds_def)
  have "hasConvexBounds ?d" by code_simp
  then show ?thesis using SIntRange_make_correct [OF p, of defaultConfig None None "\<lambda>_. 0" "byte 25"] m by simp
qed

text \<open>Counterexample outside that condition: in the wrapped domain 200..10 the constructor drops the
  fragment 0..60 because it ends outside, and keeps 200..250; the value 5, which is in the
  domain and in the fragments given, is lost.\<close>

theorem SIntRange_make_drops_fragment:
  "let d = SD_make (bytes 200 11) True; f = Some [sample_fragment 0 60, sample_fragment 200 250]
   in parts_ok d None None f \<and> parts_model (\<lambda>_. 0) d None None None None f (byte 5) \<and>
      \<not> SR_models (\<lambda>_. 0) (SIntRange_make defaultConfig d None None None None f) (byte 5)"
proof -
  let ?d = "SD_make (bytes 200 11) True" and ?f = "Some [sample_fragment 0 60, sample_fragment 200 250]"
  have "SD_wf ?d" "frags_ends (SD_Width ?d) ?f" by code_simp+
  then have p: "parts_ok ?d None None ?f" by (simp add: parts_ok_def)
  have "SD_models (\<lambda>_. 0) ?d (byte 5)" "frags_hold True ?f (rd False (byte 5))" "unsignedFlag ?d" by code_simp+
  then have m: "parts_model (\<lambda>_. 0) ?d None None None None ?f (byte 5)" by (simp add: parts_model_def exact_holds_def)
  have "\<not> SIntRangeContainsExactValue (SIntRange_make defaultConfig ?d None None None None ?f) (byte 5)" by code_simp
  then have "\<not> SR_models (\<lambda>_. 0) (SIntRange_make defaultConfig ?d None None None None ?f) (byte 5)"
    using ContainsExactValue_complete SIntRange_make_wf [OF p] by blast
  then show ?thesis using p m by (simp add: Let_def)
qed

lemma sample_facts:
  assumes "SD_wf (SD_make (bytes l u) True)"
  shows "SR_wf (sample_range l u)" "SR_ends (sample_range l u)"
    "SD_Width (sr_domain (sample_range l u)) = SD_Width (SD_make (bytes l u) True)" "unsignedFlag (sr_domain (sample_range l u))"
    "SD_models \<sigma> (SD_make (bytes l u) True) v \<Longrightarrow> SR_models \<sigma> (sample_range l u) v"
proof -
  have p: "parts_ok (SD_make (bytes l u) True) None None None" using assms by (simp add: parts_ok_def)
  note m = SIntRange_make_wf [OF p, of defaultConfig None None, folded SIntRange_of_domain_def sample_range_def]
  show "SR_wf (sample_range l u)" "SD_Width (sr_domain (sample_range l u)) = SD_Width (SD_make (bytes l u) True)"
    "unsignedFlag (sr_domain (sample_range l u))" using m by (simp_all add: SD_make_def)
  show "SR_ends (sample_range l u)"
    by (simp add: SR_ends_def ends_inside_def sample_range_def SIntRange_of_domain_def SIntRange_make_def Let_def
        RefineSIntIntervalFragmentsByCongruence_def)
  show "SR_models \<sigma> (sample_range l u) v" if "SD_models \<sigma> (SD_make (bytes l u) True) v"
    unfolding sample_range_def SIntRange_of_domain_def
    by (rule SIntRange_make_sound [OF p]) (use that in \<open>simp_all add: parts_model_def exact_holds_def ends_inside_def\<close>)
qed

section \<open>Union\<close>

text \<open>C6: The union of two ranges of one width and signedness, whose fragments end inside their
  domains: when the code returns a changed range, it satisfies the invariant and describes every
  value of either operand. When the code reports no change, what covers every value of either
  operand is the left range without its symbolic bounds; the symbolic bounds themselves may
  exclude values of the right range.\<close>

theorem SIntRange_Join_sound:
  assumes "SR_wf l" "SR_wf r" "same_shape l r" "SR_ends l" "SR_ends r" "SR_models \<sigma> l v \<or> SR_models \<sigma> r v"
  shows "case SIntRange_Join cfg l r of
      Some j \<Rightarrow> SR_wf j \<and> same_shape l j \<and> SR_models \<sigma> j v
    | None \<Rightarrow> SR_models \<sigma> (without_symbolics l) v"
proof (cases "SIntRange_Join cfg l r")
  case None
  then show ?thesis using Join_same [OF assms(1-3) None assms(4-6)] by simp
next
  case (Some j)
  then show ?thesis using Join_changed [OF assms(1-3) Some] assms(4-6) by simp
qed

theorem SIntRange_Join_sound_witness:
  "map_option sr_fragments (SIntRange_Join defaultConfig (sample_range 0 11) (sample_range 20 31)) =
     Some (Some [sample_fragment 0 10, sample_fragment 20 30]) \<and>
   (case SIntRange_Join defaultConfig (sample_range 0 11) (sample_range 20 31) of
      Some j \<Rightarrow> SR_wf j \<and> same_shape (sample_range 0 11) j \<and> SR_models (\<lambda>_. 0) j (byte 25)
    | None \<Rightarrow> SR_models (\<lambda>_. 0) (without_symbolics (sample_range 0 11)) (byte 25))"
proof -
  have w: "SD_wf (SD_make (bytes 0 11) True)" "SD_wf (SD_make (bytes 20 31) True)"
    "SD_models (\<lambda>_. 0) (SD_make (bytes 20 31) True) (byte 25)" by code_simp+
  have "SD_Width (SD_make (bytes 20 31) True) = SD_Width (SD_make (bytes 0 11) True)" by code_simp
  then have s: "same_shape (sample_range 0 11) (sample_range 20 31)"
    using sample_facts [OF w(1)] sample_facts [OF w(2)] by (simp add: same_shape_def)
  have "map_option sr_fragments (SIntRange_Join defaultConfig (sample_range 0 11) (sample_range 20 31)) =
     Some (Some [sample_fragment 0 10, sample_fragment 20 30])" by code_simp
  then show ?thesis
    using SIntRange_Join_sound [OF sample_facts(1) [OF w(1)] sample_facts(1) [OF w(2)] s sample_facts(2) [OF w(1)]
      sample_facts(2) [OF w(2)], of "\<lambda>_. 0" "byte 25" defaultConfig] sample_facts(5) [OF w(2,3)] by blast
qed

text \<open>Counterexample: no change is reported although the right range holds a value that the
  symbolic bound of the left one excludes, because only the numeric bounds are compared; the
  value is lost from the union.\<close>

theorem SIntRange_Join_keeps_symbolic:
  "SIntRange_Join defaultConfig (SIntRange_of_domain defaultConfig (SD_make_symbol (bytes 0 11) (sym8 3) (bytes 1 3)))
     (SIntRange_of_domain defaultConfig (SD_make (bytes 3 6) False)) = None \<and>
   SD_models (\<lambda>_. 0) (sr_domain (SIntRange_of_domain defaultConfig (SD_make (bytes 3 6) False))) (byte 4) \<and>
   \<not> SD_models (\<lambda>_. 0) (sr_domain (SIntRange_of_domain defaultConfig
        (SD_make_symbol (bytes 0 11) (sym8 3) (bytes 1 3)))) (byte 4)"
  by (intro conjI; code_simp)



section \<open>Narrowing and membership\<close>

text \<open>C7: When narrowing a range with a candidate of its width and signedness returns a range, that
  range satisfies the invariant and, provided that the intersection of the domains does not wrap
  or that neither range has fragments, describes every value that both describe.\<close>

theorem NarrowSIntRange_sound:
  assumes "SR_wf l" "SR_wf r" "same_shape l r" "NarrowSIntRange cfg l r = Some n"
  shows "SR_wf n \<and> same_shape l n \<and>
    (hasConvexBounds (SD_Intersect (sr_domain l) (sr_domain r)) \<or> sr_fragments l = None \<and> sr_fragments r = None \<longrightarrow>
     SR_models \<sigma> l v \<longrightarrow> SR_models \<sigma> r v \<longrightarrow> SR_models \<sigma> n v)"
  using Narrow_facts [OF assms] by blast

theorem NarrowSIntRange_sound_witness:
  "map_option (\<lambda>n. SR_models (\<lambda>_. 0) n (byte 14)) (NarrowSIntRange defaultConfig (sample_range 0 21) (sample_range 13 31)) =
     Some True"
proof -
  have w: "SD_wf (SD_make (bytes 0 21) True)" "SD_wf (SD_make (bytes 13 31) True)"
    "SD_models (\<lambda>_. 0) (SD_make (bytes 0 21) True) (byte 14)" "SD_models (\<lambda>_. 0) (SD_make (bytes 13 31) True) (byte 14)" by code_simp+
  have "SD_Width (SD_make (bytes 13 31) True) = SD_Width (SD_make (bytes 0 21) True)" by code_simp
  then have s: "same_shape (sample_range 0 21) (sample_range 13 31)"
    using sample_facts [OF w(1)] sample_facts [OF w(2)] by (simp add: same_shape_def)
  have "NarrowSIntRange defaultConfig (sample_range 0 21) (sample_range 13 31) \<noteq> None"
    "sr_fragments (sample_range 0 21) = None \<and> sr_fragments (sample_range 13 31) = None" by code_simp+
  then obtain n where n: "NarrowSIntRange defaultConfig (sample_range 0 21) (sample_range 13 31) = Some n"
    "sr_fragments (sample_range 0 21) = None \<and> sr_fragments (sample_range 13 31) = None" by blast
  show ?thesis
    using NarrowSIntRange_sound [OF sample_facts(1) [OF w(1)] sample_facts(1) [OF w(2)] s n(1), of "\<lambda>_. 0" "byte 14"]
      sample_facts(5) [OF w(1,3)] sample_facts(5) [OF w(2,4)] n by simp
qed

text \<open>Counterexample: when the intersection wraps, narrowing drops a fragment of the candidate
  whose end lies outside, although the fragment holds values of the current range: 5 is in
  200..10 and in the fragment 0..60, but not in the narrowed range.\<close>

theorem NarrowSIntRange_drops_fragment:
  "let current = sample_range 200 11;
       candidate = SIntRange_make defaultConfig (SD_make (bytes 100 61) True) None None None None
         (Some [sample_fragment 0 60, sample_fragment 200 250])
   in SIntRangeContainsExactValue current (byte 5) \<and> SIntRangeContainsExactValue candidate (byte 5) \<and>
      map_option (\<lambda>n. SIntRangeContainsExactValue n (byte 5)) (NarrowSIntRange defaultConfig current candidate) = Some False"
  unfolding Let_def by (intro conjI; code_simp)

text \<open>C9: The membership query never denies a value that the range describes.\<close>

theorem SIntRangeContainsExactValue_complete:
  assumes "SR_wf r" "SR_models \<sigma> r v"
  shows "SIntRangeContainsExactValue r v"
  using assms by (rule ContainsExactValue_complete)

theorem SIntRangeContainsExactValue_complete_witness:
  "SIntRangeContainsExactValue (sample_range 0 11) (byte 3) \<and> \<not> SIntRangeContainsExactValue (sample_range 0 11) (byte 12)"
proof
  have w: "SD_wf (SD_make (bytes 0 11) True)" "SD_models (\<lambda>_. 0) (SD_make (bytes 0 11) True) (byte 3)" by code_simp+
  show "SIntRangeContainsExactValue (sample_range 0 11) (byte 3)"
    by (rule SIntRangeContainsExactValue_complete [OF sample_facts(1) [OF w(1)] sample_facts(5) [OF w]])
  show "\<not> SIntRangeContainsExactValue (sample_range 0 11) (byte 12)" by code_simp
qed

section \<open>The parts\<close>

text \<open>C10: In a domain that does not wrap, normalising fragments keeps exactly their members inside the
  domain; the result is at most four fragments in normal form.\<close>

theorem NormalizeFragments_exact:
  assumes "CR_wf (numeric d)" "hasConvexBounds d" "\<forall>f \<in> set fs. frag_ends (SD_Width d) f"
    and "NormalizeSIntIntervalFragments fs d = Some gs"
  shows "gs \<noteq> [] \<and> length gs \<le> 4 \<and> (\<forall>g \<in> set gs. frag_normal (SD_Width d) (SD_IsUnsigned d) g) \<and>
    (\<forall>k. frags_say (SD_IsUnsigned d) gs k \<longleftrightarrow> frags_say (SD_IsUnsigned d) fs k \<and> domainLower d \<le> k \<and> k \<le> domainUpper d)"
  using Normalize_wf [OF assms(1,3)] Normalize_exact [OF assms] assms(4) by (simp add: inside_def)

theorem NormalizeFragments_exact_witness:
  "NormalizeSIntIntervalFragments [sample_fragment 11 20, sample_fragment 0 10] (SD_make (bytes 5 31) True) = Some [sample_fragment 5 20] \<and>
   length [sample_fragment 5 20] \<le> 4"
proof -
  let ?d = "SD_make (bytes 5 31) True" and ?fs = "[sample_fragment 11 20, sample_fragment 0 10]"
  have h: "CR_wf (numeric ?d)" "hasConvexBounds ?d" by code_simp+
  have e: "\<forall>f \<in> set ?fs. frag_ends (SD_Width ?d) f" by code_simp
  have n: "NormalizeSIntIntervalFragments ?fs ?d = Some [sample_fragment 5 20]" by code_simp
  show ?thesis using NormalizeFragments_exact [OF h e n] n by simp
qed

text \<open>Congruences: the union is canonical and holds of every value of a part that is not empty;
  two congruences that share a value are found compatible and their intersection holds of it.\<close>

theorem Congruences_sound:
  assumes "values_ok w ea" "values_ok w eb" "SD_IsUnsigned b = SD_IsUnsigned a"
    and "\<not> SD_IsBottom a \<and> part_holds ea ca (SD_IsUnsigned a) v \<or> \<not> SD_IsBottom b \<and> part_holds eb cb (SD_IsUnsigned b) v"
    and "cong_holds l k" "cong_holds r k"
  shows "cong_wf (MergeSIntCongruencesForUnion a ea ca b eb cb) \<and>
    cong_holds (MergeSIntCongruencesForUnion a ea ca b eb cb) (rd (\<not> SD_IsUnsigned a) v) \<and>
    snd (IntersectSIntCongruences l r) \<and> cong_wf (fst (IntersectSIntCongruences l r)) \<and>
    cong_holds (fst (IntersectSIntCongruences l r)) k"
  using MergeCongruences_wf MergeCongruences_holds [OF assms(1-4)] IntersectCongruences_sound [OF assms(5,6)]
    IntersectCongruences_wf by blast

theorem Congruences_sound_witness:
  "cong_holds (MergeSIntCongruencesForUnion (SD_make (bytes 0 31) True) (Some [byte 2, byte 8]) None
     (SD_make (bytes 0 31) True) (Some [byte 11, byte 14]) None) (rd False (byte 14)) \<and>
   snd (IntersectSIntCongruences (Some \<lparr>stride = 4, residue = 3\<rparr>) (Some \<lparr>stride = 3, residue = 1\<rparr>))"
proof -
  let ?d = "SD_make (bytes 0 31) True"
  have h: "values_ok I8 (Some [byte 2, byte 8])" "values_ok I8 (Some [byte 11, byte 14])" "\<not> SD_IsBottom ?d"
    "SInt_wf (byte 14)" "exact_holds (Some [byte 11, byte 14]) (byte 14)" "SD_IsUnsigned ?d"
    "cong_holds (Some \<lparr>stride = 4, residue = 3\<rparr>) 7" "cong_holds (Some \<lparr>stride = 3, residue = 1\<rparr>) 7" by code_simp+
  have "part_holds (Some [byte 11, byte 14]) None (SD_IsUnsigned ?d) (byte 14)" using h by (simp add: part_holds_def)
  then show ?thesis using Congruences_sound [OF h(1,2) refl [of "SD_IsUnsigned ?d"] _ h(7,8), of None "byte 14" None] h(3,6) by simp
qed

text \<open>Known bits: the interval, the exact values and the congruence each imply bits that hold, the
  union holds of either side's values, and the domain made of known bits contains them.\<close>

theorem KnownBits_sound:
  assumes "CR_wf (numeric a)" "v \<in> CR_gamma (numeric a)" "exact_holds e v" "cong_holds c (rd s v)" "bits_hold (SD_Width a) k (val v)"
    and "SD_Width b = SD_Width a"
  shows "bits_hold (SD_Width a) (GetEffectiveKnownBits a e c k) (val v) \<and>
    bits_hold (SD_Width a) (MergeSIntKnownBitsForUnion a (GetEffectiveKnownBits a e c k) b r) (val v) \<and>
    v \<in> CR_gamma (numeric (DomainFromKnownBits (GetEffectiveKnownBits a e c k) (SD_Width a) u))"
proof -
  have e: "bits_hold (SD_Width a) (GetEffectiveKnownBits a e c k) (val v)"
    using assms(1-5) by (rule GetEffectiveKnownBits_sound)
  have n: "\<not> SD_IsBottom a" "SInt_wf v" "width v = SD_Width a"
    using assms(2) mem_EmptySet by (auto simp: SD_IsBottom_def CR_gamma_def SD_Width_def)
  show ?thesis using e MergeKnownBits_sound [OF assms(6), of _ "val v" r] DomainFromKnownBits_sound [OF n(2,3) e] n(1) by blast
qed

theorem KnownBits_sound_witness:
  "GetEffectiveKnownBits (SD_make (bytes 4 8) True) None None None = Some (KB_make 248 4) \<and>
   bits_hold I8 (Some (KB_make 248 4)) (val (byte 6))"
proof -
  let ?d = "SD_make (bytes 4 8) True"
  have h: "CR_wf (numeric ?d)" "CR_Contains (numeric ?d) (byte 6)" "SD_Width ?d = I8" "SInt_wf (byte 6)" "width (byte 6) = CR_Width (numeric ?d)" by code_simp+
  have m: "byte 6 \<in> CR_gamma (numeric ?d)" using h by (simp add: CR_gamma_def)
  have g: "GetEffectiveKnownBits ?d None None None = Some (KB_make 248 4)" by code_simp
  show ?thesis using KnownBits_sound [OF h(1) m, of None None True None ?d] g h(3) by (simp add: exact_holds_def)
qed

section \<open>Limits\<close>

text \<open>Whatever the environment holds, every limit of the configuration lies between its bounds and the
  work queue limit is larger than the start of widening.\<close>

theorem LoadRangeAnalysisConfig_bounds:
  "let c = LoadRangeAnalysisConfig getenv
   in 2 \<le> loopWideningStartTimes c \<and> loopWideningStartTimes c \<le> 8 \<and>
      loopWideningStartTimes c < maxInqueueTimes c \<and> maxInqueueTimes c \<le> 64 \<and>
      8 \<le> maxContextPerFunction c \<and> maxContextPerFunction c \<le> 64 \<and>
      128 \<le> maxTotalContextSummaries c \<and> maxTotalContextSummaries c \<le> 1024 \<and>
      4 \<le> maxContextAnalysisDepth c \<and> maxContextAnalysisDepth c \<le> 24 \<and>
      8 \<le> maxExactIntSetSize c \<and> maxExactIntSetSize c \<le> 128 \<and>
      512 \<le> maxBoundedLoopObservations c \<and> maxBoundedLoopObservations c \<le> 8192 \<and>
      1024 \<le> maxRecordedCallContexts c \<and> maxRecordedCallContexts c \<le> 8192"
proof -
  note b = ReadConfig_bounds [of _ _ _ getenv]
  show ?thesis
    unfolding LoadRangeAnalysisConfig_def Let_def
    using b [of 2 3 8 "''CJ_RA_WIDEN_START''"] b [of 16 24 64 "''CJ_RA_MAX_INQUEUE''"]
      b [of 8 16 64 "''CJ_RA_CONTEXT_PER_FUNCTION''"] b [of 128 1024 1024 "''CJ_RA_TOTAL_CONTEXT_SUMMARIES''"]
      b [of 4 24 24 "''CJ_RA_CONTEXT_DEPTH''"] b [of 8 64 128 "''CJ_RA_EXACT_SET_SIZE''"]
      b [of 512 1024 8192 "''CJ_RA_LOOP_OBSERVATIONS''"] b [of 1024 8192 8192 "''CJ_RA_RECORDED_CONTEXTS''"]
    by (simp add: defaultConfig_def)
qed

text \<open>A limit written in decimal digits is read back as that number when it is between the bounds,
  and anything outside the bounds gives the default.\<close>

theorem ReadConfig_decimal:
  assumes "getenv name = Some (decimal n)" "n \<le> 18446744073709551615"
  shows "ReadRangeAnalysisConfigValue getenv name defaultValue minimum maximum =
    (if minimum \<le> n \<and> n \<le> maximum then n else defaultValue)"
  using strtoull10_digits [of "decimal n"] decimal_digits [of n] assms
  by (auto simp: ReadRangeAnalysisConfigValue_def Let_def)

theorem ReadConfig_decimal_witness:
  "ReadRangeAnalysisConfigValue (\<lambda>_. Some ''40'') ''CJ_RA_EXACT_SET_SIZE'' 64 8 128 = 40"
proof -
  have "decimal 40 = ''40''" by code_simp
  then show ?thesis using ReadConfig_decimal [of "\<lambda>_. Some ''40''" "''CJ_RA_EXACT_SET_SIZE''" 40 64 8 128] by simp
qed

end
