(* ===== verification/Overflow_Check.thy ===== *)
theory Overflow_Check
  imports Domain_Arith
begin

text \<open>
  The overflow checks of \<^verbatim>\<open>OverflowChecking.h\<close> and \<^verbatim>\<open>OverflowChecking.cpp\<close>. A
  C++ integer type \<^verbatim>\<open>T\<close> is a signedness and a width, a value of it an \<open>int\<close> in its range;
  \<^verbatim>\<open>static_cast\<close> is \<open>wrap_int\<close>. \<^verbatim>\<open>__builtin_add_overflow\<close> and the like store the wrapped
  result and report whether the exact one does not fit. An out-parameter \<^verbatim>\<open>res\<close> is passed in
  and returned, since a branch may leave it alone; a division by zero is \<^term>\<open>None\<close>.
\<close>

definition type_min :: "bool \<Rightarrow> IntWidth \<Rightarrow> int" where
  "type_min uns w = (if uns then 0 else - half w)"

definition type_max :: "bool \<Rightarrow> IntWidth \<Rightarrow> int" where
  "type_max uns w = (if uns then modulus w - 1 else half w - 1)"

section \<open>The checks of one type\<close>

definition IsOverflowAfterAdd :: "bool \<Rightarrow> IntWidth \<Rightarrow> int \<Rightarrow> int \<Rightarrow> OverflowStrategy \<Rightarrow> bool \<times> int" where
  "IsOverflowAfterAdd uns w x y strategy =
     (let res = wrap_int uns w (x + y); isOverflow = (\<not> fits_int uns w (x + y))
      in if isOverflow \<and> strategy = SATURATING
         then (isOverflow, if res > x then type_min uns w else type_max uns w)
         else (isOverflow, res))"

definition IsOverflowAfterSub :: "bool \<Rightarrow> IntWidth \<Rightarrow> int \<Rightarrow> int \<Rightarrow> OverflowStrategy \<Rightarrow> bool \<times> int" where
  "IsOverflowAfterSub uns w x y strategy =
     (let res = wrap_int uns w (x - y); isOverflow = (\<not> fits_int uns w (x - y))
      in if isOverflow \<and> strategy = SATURATING
         then (isOverflow, if res > x then type_min uns w else type_max uns w)
         else (isOverflow, res))"

definition IsOverflowAfterMul :: "bool \<Rightarrow> IntWidth \<Rightarrow> int \<Rightarrow> int \<Rightarrow> OverflowStrategy \<Rightarrow> bool \<times> int" where
  "IsOverflowAfterMul uns w x y strategy =
     (let res = wrap_int uns w (x * y); isOverflow = (\<not> fits_int uns w (x * y))
      in if isOverflow \<and> strategy = SATURATING
         then (isOverflow,
               if x < 0 \<and> y < 0 then type_max uns w
               else if x \<ge> 0 \<and> y \<ge> 0 then type_max uns w
               else type_min uns w)
         else (isOverflow, res))"

definition IsOverflowAfterDiv ::
  "bool \<Rightarrow> IntWidth \<Rightarrow> int \<Rightarrow> int \<Rightarrow> OverflowStrategy \<Rightarrow> int \<Rightarrow> (bool \<times> int) option" where
  "IsOverflowAfterDiv uns w x y strategy res =
     (let isOverflow = (\<not> uns \<and> x = type_min uns w \<and> y = - 1)
      in if isOverflow \<and> strategy = WRAPPING then Some (isOverflow, type_min uns w)
         else if isOverflow \<and> strategy = SATURATING then Some (isOverflow, type_max uns w)
         else if isOverflow then Some (isOverflow, res)
         else if y = 0 then None
         else Some (isOverflow, x sdiv y))"

definition IsOverflowAfterMod :: "bool \<Rightarrow> IntWidth \<Rightarrow> int \<Rightarrow> int \<Rightarrow> (bool \<times> int) option" where
  "IsOverflowAfterMod uns w x y =
     (if \<not> uns \<and> x = type_min uns w \<and> y = - 1 then Some (True, 0)
      else if y = 0 then None
      else Some (False, x smod y))"

definition IsOverflow ::
  "bool \<Rightarrow> IntWidth \<Rightarrow> int \<Rightarrow> int \<Rightarrow> ExprKind \<Rightarrow> OverflowStrategy \<Rightarrow> (bool \<times> int) option" where
  "IsOverflow uns w x y exprKind strategy =
     (case exprKind of
        EK_ADD \<Rightarrow> Some (IsOverflowAfterAdd uns w x y strategy)
      | EK_NEG \<Rightarrow> Some (IsOverflowAfterSub uns w 0 y strategy)
      | EK_SUB \<Rightarrow> Some (IsOverflowAfterSub uns w x y strategy)
      | EK_MUL \<Rightarrow> Some (IsOverflowAfterMul uns w x y strategy)
      | EK_DIV \<Rightarrow> IsOverflowAfterDiv uns w x y strategy 0
      | EK_MOD \<Rightarrow> IsOverflowAfterMod uns w x y
      | _ \<Rightarrow> Some (True, 0))"

text \<open>The dispatch on the kind of the type; the native width is 64 bits.\<close>

fun int_kind :: "TypeKind \<Rightarrow> IntWidth option" where
  "int_kind TYPE_INT8 = Some I8"
| "int_kind TYPE_INT16 = Some I16"
| "int_kind TYPE_INT32 = Some I32"
| "int_kind TYPE_INT64 = Some I64"
| "int_kind TYPE_INT_NATIVE = Some I64"
| "int_kind _ = None"

fun uint_kind :: "TypeKind \<Rightarrow> IntWidth option" where
  "uint_kind TYPE_UINT8 = Some I8"
| "uint_kind TYPE_UINT16 = Some I16"
| "uint_kind TYPE_UINT32 = Some I32"
| "uint_kind TYPE_UINT64 = Some I64"
| "uint_kind TYPE_UINT_NATIVE = Some I64"
| "uint_kind _ = None"

definition IsIntOverflow ::
  "TypeKind \<Rightarrow> ExprKind \<Rightarrow> int \<Rightarrow> int \<Rightarrow> OverflowStrategy \<Rightarrow> int \<Rightarrow> (bool \<times> int) option" where
  "IsIntOverflow typeKind exprKind x y strategy res =
     (case int_kind typeKind of
        Some w \<Rightarrow> IsOverflow False w (wrap_int False w x) (wrap_int False w y) exprKind strategy
      | None \<Rightarrow> Some (True, res))"

definition IsUIntOverflow ::
  "TypeKind \<Rightarrow> ExprKind \<Rightarrow> int \<Rightarrow> int \<Rightarrow> OverflowStrategy \<Rightarrow> int \<Rightarrow> (bool \<times> int) option" where
  "IsUIntOverflow typeKind exprKind x y strategy res =
     (case uint_kind typeKind of
        Some w \<Rightarrow> IsOverflow True w (wrap_int True w x) (wrap_int True w y) exprKind strategy
      | None \<Rightarrow> Some (True, res))"

text \<open>The conversion of a value of the first type to the second.\<close>

definition IsTypecastOverflowForInt ::
  "bool \<Rightarrow> IntWidth \<Rightarrow> bool \<Rightarrow> IntWidth \<Rightarrow> int \<Rightarrow> OverflowStrategy \<Rightarrow> bool \<times> int" where
  "IsTypecastOverflowForInt tu tw ku kw x strategy =
     (let isOverflow =
            (if \<not> tu \<and> ku \<and> x < 0 then True
             else if tu \<and> \<not> ku then x > wrap_int tu tw (type_max ku kw)
             else
               let lu = (if bw tw \<le> bw kw then ku else tu); lw = (if bw tw \<le> bw kw then kw else tw);
                   tmax = wrap_int lu lw (type_max tu tw); kmax = wrap_int lu lw (type_max ku kw)
               in if tmax > kmax
                  then x > wrap_int tu tw (type_max ku kw) \<or> x < wrap_int tu tw (type_min ku kw)
                  else wrap_int ku kw x > type_max ku kw \<or> wrap_int ku kw x < type_min ku kw)
      in (isOverflow,
          if isOverflow \<and> strategy = SATURATING
          then (if x < 0 then type_min ku kw else type_max ku kw)
          else wrap_int ku kw x))"

section \<open>Exponentiation\<close>

text \<open>The loop of \<^verbatim>\<open>Binpow\<close>: the result, the base and the flag while more than one bit of
  the exponent is left.\<close>

fun Binpow_loop :: "int \<Rightarrow> nat \<Rightarrow> int \<Rightarrow> bool \<Rightarrow> int \<times> int \<times> bool" where
  "Binpow_loop a b res isOverflow =
     (if b > 1 then
        let isOverflow1 = (isOverflow \<or> (b mod 2 = 1 \<and> \<not> fits_int False I64 (res * a)));
            res1 = (if b mod 2 = 1 then wrap_int False I64 (res * a) else res)
        in Binpow_loop (wrap_int False I64 (a * a)) (b div 2) res1
             (isOverflow1 \<or> \<not> fits_int False I64 (a * a))
      else (res, a, isOverflow))"

declare Binpow_loop.simps [simp del]

definition Binpow :: "int \<Rightarrow> nat \<Rightarrow> bool \<times> int" where
  "Binpow a b =
     (if b = 0 then (False, 1)
      else case Binpow_loop a b 1 False of (res, a', isOverflow) \<Rightarrow>
        (isOverflow \<or> \<not> fits_int False I64 (res * a'), wrap_int False I64 (res * a')))"

definition IsExpOverflow :: "int \<Rightarrow> nat \<Rightarrow> OverflowStrategy \<Rightarrow> bool \<times> int" where
  "IsExpOverflow x y strategy =
     (case Binpow x y of (isOverflow, res) \<Rightarrow>
        if isOverflow \<and> strategy = SATURATING
        then (isOverflow,
              if x < 0 \<and> y mod 2 = 0 then type_max False I64
              else if x < 0 \<and> y mod 2 = 1 then type_min False I64
              else type_max False I64)
        else (isOverflow, res))"

section \<open>The contract of a check\<close>

text \<open>What a caller relies on: the flag is exact, and the stored result is the exact one when
  it fits, the wrapped or the nearest one under the strategy that asks for it. A caller turns
  the flag of the throwing strategy into the absence of a value.\<close>

definition reports :: "bool \<Rightarrow> IntWidth \<Rightarrow> OverflowStrategy \<Rightarrow> int \<Rightarrow> bool \<times> int \<Rightarrow> bool" where
  "reports uns w ov k p \<longleftrightarrow> fst p = (\<not> fits_int uns w k) \<and> (fits_int uns w k \<longrightarrow> snd p = k) \<and>
     (ov = WRAPPING \<longrightarrow> snd p = wrap_int uns w k) \<and> (ov = SATURATING \<longrightarrow> snd p = clamp_int uns w k)"

definition strategy_result :: "OverflowStrategy \<Rightarrow> bool \<times> int \<Rightarrow> int option" where
  "strategy_result ov p = (if fst p \<and> ov = THROWING then None else Some (snd p))"

definition known_strategy :: "OverflowStrategy \<Rightarrow> bool" where
  "known_strategy ov \<longleftrightarrow> ov = WRAPPING \<or> ov = SATURATING \<or> ov = THROWING"

lemma reports_outcome: "reports uns w ov k p \<Longrightarrow> known_strategy ov \<Longrightarrow> strategy_result ov p = outcome ov uns w k"
  by (auto simp: reports_def strategy_result_def known_strategy_def outcome_def split: OverflowStrategy.splits)

locale overflow_contract =
  fixes uns :: bool and w :: IntWidth
    and check :: "OverflowStrategy \<Rightarrow> int \<Rightarrow> int \<Rightarrow> (bool \<times> int) option"
    and exact :: "int \<Rightarrow> int \<Rightarrow> int option"
  assumes checked: "fits_int uns w x \<Longrightarrow> fits_int uns w y \<Longrightarrow> exact x y = Some k \<Longrightarrow>
      \<exists>p. check ov x y = Some p \<and> reports uns w ov k p"
begin

lemma strategy_outcome:
  assumes "fits_int uns w x" "fits_int uns w y" "exact x y = Some k" "known_strategy ov"
  obtains p where "check ov x y = Some p" "strategy_result ov p = outcome ov uns w k"
  using checked [OF assms(1-3), of ov] reports_outcome [OF _ assms(4)] by blast

lemma fitting:
  assumes "fits_int uns w x" "fits_int uns w y" "exact x y = Some k" "fits_int uns w k"
  shows "check ov x y = Some (False, k)"
  using checked [OF assms(1-3), of ov] assms(4) by (auto simp: reports_def)

end

lemma wrap_fits: "fits_int uns w k \<Longrightarrow> wrap_int uns w k = k"
  using signed_of_fits [of w k] by (auto simp: fits_int_def wrap_int_def fits_u_def)

lemma fits_int_iff: "fits_int uns w k \<longleftrightarrow> type_min uns w \<le> k \<and> k \<le> type_max uns w"
  by (auto simp: fits_int_def fits_u_def fits_s_def type_min_def type_max_def)

lemma clamp_int_cases:
  "clamp_int uns w k = (if k < type_min uns w then type_min uns w else if k > type_max uns w then type_max uns w else k)"
  by (auto simp: clamp_int_def clamp_u_def clamp_s_def type_min_def type_max_def)

lemma type_bounds: "type_min uns w \<le> 0" "0 < type_max uns w" "- type_max uns w - 1 \<le> type_min uns w"
  using half_ge [of w] by (auto simp: type_min_def type_max_def modulus_half)

text \<open>A check that stores the wrapped result, and the bound on the side of the exact one when
  it saturates, keeps the contract.\<close>

lemma reports_wrapped:
  assumes "\<not> fits_int uns w k \<Longrightarrow> ov = SATURATING \<Longrightarrow> b \<longleftrightarrow> k < type_min uns w"
  shows "reports uns w ov k
     (if \<not> fits_int uns w k \<and> ov = SATURATING then (\<not> fits_int uns w k, if b then type_min uns w else type_max uns w)
      else (\<not> fits_int uns w k, wrap_int uns w k))"
  using assms wrap_fits [of uns w k] type_bounds [of uns w]
  by (auto simp: reports_def clamp_int_cases fits_int_iff)

lemma wrapped_side:
  assumes "fits_int uns w x" "fits_int uns w y" "k = x + y \<or> k = x - y" "\<not> fits_int uns w k"
  shows "wrap_int uns w k > x \<longleftrightarrow> k < type_min uns w"
proof (cases uns)
  case True
  then have "wrap_int uns w k = (if k < 0 then k + modulus w else k - modulus w)"
    using assms mod_once_up [of k "modulus w"] mod_once_down [where a = k and m = "modulus w"]
    by (auto simp: fits_int_def fits_u_def wrap_int_def)
  then show ?thesis using assms True by (auto simp: fits_int_def fits_u_def type_min_def)
next
  case False
  then have "wrap_int uns w k = (if k < - half w then k + modulus w else k - modulus w)"
    using assms signed_of_over [of w k] signed_of_under [of w k]
    by (auto simp: fits_int_def fits_s_def wrap_int_def)
  then show ?thesis using assms False
    by (auto simp: fits_int_def fits_s_def type_min_def modulus_half)
qed

lemma Add_reports:
  "fits_int uns w x \<Longrightarrow> fits_int uns w y \<Longrightarrow> reports uns w ov (x + y) (IsOverflowAfterAdd uns w x y ov)"
  unfolding IsOverflowAfterAdd_def Let_def by (rule reports_wrapped) (auto simp: wrapped_side)

lemma Sub_reports:
  "fits_int uns w x \<Longrightarrow> fits_int uns w y \<Longrightarrow> reports uns w ov (x - y) (IsOverflowAfterSub uns w x y ov)"
  unfolding IsOverflowAfterSub_def Let_def by (rule reports_wrapped) (auto simp: wrapped_side)

lemma Mul_reports:
  "reports uns w ov (x * y) (IsOverflowAfterMul uns w x y ov)"
proof -
  have "\<not> (x < 0 \<and> y < 0) \<and> \<not> (0 \<le> x \<and> 0 \<le> y) \<longleftrightarrow> x * y < type_min uns w"
    if "\<not> fits_int uns w (x * y)"
    using that type_bounds [of uns w] zero_le_mult_iff [of x y]
    by (auto simp: fits_int_iff not_less not_le)
  then have "reports uns w ov (x * y)
     (if \<not> fits_int uns w (x * y) \<and> ov = SATURATING
      then (\<not> fits_int uns w (x * y), if \<not> (x < 0 \<and> y < 0) \<and> \<not> (0 \<le> x \<and> 0 \<le> y) then type_min uns w else type_max uns w)
      else (\<not> fits_int uns w (x * y), wrap_int uns w (x * y)))"
    by (intro reports_wrapped) blast
  then show ?thesis by (auto simp: IsOverflowAfterMul_def Let_def split: if_splits)
qed

text \<open>The remainder of the least value by \<open>- 1\<close> is zero, which fits, and is reported as an
  overflow: the one operand pair left out here.\<close>

definition checked_result :: "bool \<Rightarrow> IntWidth \<Rightarrow> ExprKind \<Rightarrow> int \<Rightarrow> int \<Rightarrow> int option" where
  "checked_result uns w ek x y =
     (if ek = EK_NEG then Some (0 - y)
      else if ek = EK_MOD \<and> \<not> uns \<and> x = type_min uns w \<and> y = - 1 then None
      else exact_result ek x y)"

lemma reports_fitting: "fits_int uns w k \<Longrightarrow> reports uns w ov k (False, k)"
  by (auto simp: reports_def wrap_fits clamp_int_cases fits_int_iff)

lemma quotient_fits:
  assumes "fits_int uns w x" "fits_int uns w y" "\<not> (\<not> uns \<and> x = type_min uns w \<and> y = - 1)"
  shows "fits_int uns w (x sdiv y)"
proof (cases uns)
  case True
  then show ?thesis using assms sdiv_signs(1) [of x y] div_in_range [of x "modulus w" y]
    by (cases "y = 0") (auto simp: fits_int_def fits_u_def)
next
  case False
  have "x sdiv y = half w \<Longrightarrow> x = - half w \<Longrightarrow> y = - 1"
    using int_sdiv_negated_is_minus1 [of x y] half_pos [of w] by simp
  then show ?thesis using assms False sdiv_int_range [of x y] half_pos [of w]
    by (fastforce simp: fits_int_def fits_s_def type_min_def)
qed

lemma remainder_fits:
  assumes "fits_int uns w x" "fits_int uns w y" "y \<noteq> 0"
  shows "fits_int uns w (x smod y)"
  using smod_facts(1,2,3) [OF assms(3), of x] assms
  by (auto simp: fits_int_def fits_u_def fits_s_def split: if_splits)

lemma Div_reports:
  assumes "fits_int uns w x" "fits_int uns w y" "y \<noteq> 0"
  shows "\<exists>p. IsOverflowAfterDiv uns w x y ov res = Some p \<and> reports uns w ov (x sdiv y) p"
proof (cases "\<not> uns \<and> x = type_min uns w \<and> y = - 1")
  case True
  then have "x sdiv y = half w" by (simp add: type_min_def)
  moreover have "\<not> half w < 0" using half_pos [of w] by linarith
  ultimately show ?thesis using True
    by (auto simp: IsOverflowAfterDiv_def Let_def reports_def fits_int_def fits_s_def clamp_int_def
        clamp_s_def type_min_def type_max_def wrap_int_def signed_of_over modulus_half)
next
  case False
  then show ?thesis using assms(3) reports_fitting [OF quotient_fits [OF assms(1,2) False], of ov]
    by (auto simp: IsOverflowAfterDiv_def Let_def)
qed

interpretation checked: overflow_contract uns w "\<lambda>ov x y. IsOverflow uns w x y ek ov" "checked_result uns w ek"
  for uns w ek
proof
  fix x y k ov
  assume f: "fits_int uns w x" "fits_int uns w y" and k: "checked_result uns w ek x y = Some k"
  have z: "fits_int uns w 0" using type_bounds [of uns w] by (simp add: fits_int_iff)
  show "\<exists>p. IsOverflow uns w x y ek ov = Some p \<and> reports uns w ov k p"
  proof (cases ek)
    case EK_MOD
    then show ?thesis using k f reports_fitting [OF remainder_fits [OF f]]
      by (auto simp: IsOverflow_def IsOverflowAfterMod_def checked_result_def split: if_splits)
  next
    case EK_DIV
    then show ?thesis using k Div_reports [OF f]
      by (auto simp: IsOverflow_def checked_result_def split: if_splits)
  qed (use k Add_reports [OF f] Sub_reports [OF f] Sub_reports [OF z f(2)] Mul_reports in
      \<open>auto simp: IsOverflow_def checked_result_def\<close>)
qed

lemma IsIntOverflow_at:
  assumes "int_kind tk = Some w" "fits_int False w x" "fits_int False w y"
  shows "IsIntOverflow tk ek x y ov res = IsOverflow False w x y ek ov"
  using assms by (simp add: IsIntOverflow_def wrap_fits)

lemma IsUIntOverflow_at:
  assumes "uint_kind tk = Some w" "fits_int True w x" "fits_int True w y"
  shows "IsUIntOverflow tk ek x y ov res = IsOverflow True w x y ek ov"
  using assms by (simp add: IsUIntOverflow_def wrap_fits)

section \<open>Conversions\<close>

lemma Typecast_flag:
  assumes "fits_int tu tw x"
  shows "fst (IsTypecastOverflowForInt tu tw ku kw x ov) = (\<not> fits_int ku kw x)"
  using assms
  by (cases tu; cases ku; cases tw; cases kw)
    (simp_all add: IsTypecastOverflowForInt_def Let_def fits_int_iff type_min_def type_max_def wrap_int_def signed_of_def,
     (auto simp: mod_once_up mod_once_down split: if_splits)?)

lemma Typecast_reports:
  assumes "fits_int tu tw x"
  shows "reports ku kw ov x (IsTypecastOverflowForInt tu tw ku kw x ov)"
proof -
  have "reports ku kw ov x
     (if \<not> fits_int ku kw x \<and> ov = SATURATING
      then (\<not> fits_int ku kw x, if x < 0 then type_min ku kw else type_max ku kw)
      else (\<not> fits_int ku kw x, wrap_int ku kw x))"
    using type_bounds [of ku kw] by (intro reports_wrapped) (auto simp: fits_int_iff)
  moreover have "IsTypecastOverflowForInt tu tw ku kw x ov =
     (\<not> fits_int ku kw x, snd (IsTypecastOverflowForInt tu tw ku kw x ov))"
    using Typecast_flag [OF assms, of ku kw ov] by (simp add: prod_eq_iff)
  ultimately show ?thesis
    by (auto simp: IsTypecastOverflowForInt_def Let_def split: if_splits)
qed

section \<open>Powers by squaring\<close>

text \<open>Every squaring of the loop is used by the last multiplication, so one that overflows means
  that the power does.\<close>

lemma wrap_mod: "wrap_int uns w k mod modulus w = k mod modulus w"
  by (simp add: wrap_int_def signed_of_mod)

lemma wrap_cong: "k mod modulus w = l mod modulus w \<Longrightarrow> wrap_int uns w k = wrap_int uns w l"
  by (simp only: wrap_int_def signed_of_def)

lemma not_fits_mult:
  assumes k: "\<not> fits_int uns w k" and m: "1 \<le> m"
  shows "\<not> fits_int uns w (k * m)"
proof (cases "k < type_min uns w")
  case True
  then have "k \<le> 0" using type_bounds(1) [of uns w] by linarith
  with m have "k * m \<le> k * 1" by (rule mult_left_mono_neg)
  then show ?thesis using True by (simp only: fits_int_iff) linarith
next
  case False
  then have hi: "type_max uns w < k" using k by (simp only: fits_int_iff) linarith
  then have "0 \<le> k" using type_bounds(2) [of uns w] by linarith
  with m have "k * 1 \<le> k * m" by (rule mult_left_mono)
  then show ?thesis using hi by (simp only: fits_int_iff) linarith
qed

lemma between_squares:
  fixes a c h :: int
  assumes "(c - 1) * (c - 1) < h" "h < c * c" "0 < c"
  shows "a * a \<noteq> h"
proof (cases "\<bar>a\<bar> \<le> c - 1")
  case True
  then have "\<bar>a\<bar> * \<bar>a\<bar> \<le> (c - 1) * (c - 1)" by (intro mult_mono) auto
  then show ?thesis using assms(1) by simp
next
  case False
  then have "c * c \<le> \<bar>a\<bar> * \<bar>a\<bar>" using assms(3) by (intro mult_mono) auto
  then show ?thesis using assms(2) by simp
qed

lemma square_not_half: "a * a \<noteq> half w"
  using between_squares [of 12 128 a] between_squares [of 182 32768 a]
    between_squares [of 46341 2147483648 a] between_squares [of 3037000500 9223372036854775808 a]
  by (cases w) simp_all

lemma square_big:
  assumes a: "\<not> fits_int uns w (a * a)" and m: "m \<noteq> 0" "uns \<longrightarrow> 0 \<le> m"
  shows "\<not> fits_int uns w (a * a * m)"
proof -
  have pos: "0 \<le> a * a" by simp
  have "\<bar>a * a\<bar> * 1 \<le> \<bar>a * a\<bar> * \<bar>m\<bar>" using m by (intro mult_left_mono) auto
  then have le: "a * a \<le> \<bar>a * a * m\<bar>" by (simp add: abs_mult)
  show ?thesis
  proof (cases uns)
    case True
    then have "0 \<le> a * a * m" using m pos by simp
    then have "a * a \<le> a * a * m" using le by simp
    then show ?thesis using a True pos by (auto simp: fits_int_def fits_u_def)
  next
    case False
    then have "half w < a * a" using a pos square_not_half [of a w] half_pos [of w]
      by (auto simp: fits_int_def fits_s_def simp del: zero_le_square)
    then show ?thesis using le False by (auto simp: fits_int_def fits_s_def)
  qed
qed

lemma power_split:
  fixes a :: int
  shows "a ^ b = a ^ (b mod 2) * (a * a) ^ (b div 2)"
proof -
  have "a ^ b = a ^ (b mod 2 + 2 * (b div 2))" by simp
  also have "\<dots> = a ^ (b mod 2) * (a * a) ^ (b div 2)"
    by (simp only: power_add power_mult power2_eq_square)
  finally show ?thesis .
qed

text \<open>One round of squaring on the way to \<open>res * a ^ b\<close>.\<close>

lemma squaring_step:
  fixes a res :: int
  assumes b: "1 < b" and r: "a \<noteq> 0 \<longrightarrow> res \<noteq> 0" and u: "uns \<longrightarrow> 0 \<le> a \<and> 0 \<le> res"
  shows "b mod 2 = 1 \<Longrightarrow> \<not> fits_int uns w (res * a) \<Longrightarrow> \<not> fits_int uns w (res * a ^ b)"
    "\<not> fits_int uns w (a * a) \<Longrightarrow> \<not> fits_int uns w (res * a ^ b)"
    "(if b mod 2 = 1 then res * a else res) * (a * a) ^ (b div 2) = res * a ^ b"
proof -
  have z: "fits_int uns w 0" using type_bounds [of uns w] by (simp add: fits_int_iff)
  show e: "(if b mod 2 = 1 then res * a else res) * (a * a) ^ (b div 2) = res * a ^ b"
    unfolding power_split [of a b] by (cases "b mod 2 = 1") auto
  show "\<not> fits_int uns w (res * a ^ b)" if o: "b mod 2 = 1" "\<not> fits_int uns w (res * a)"
  proof -
    have "a \<noteq> 0" using o(2) z by auto
    then have "0 < a * a" using zero_less_mult_iff [of a a] by linarith
    then have "0 < (a * a) ^ (b div 2)" by simp
    then have m: "1 \<le> (a * a) ^ (b div 2)" by simp
    have "res * a * (a * a) ^ (b div 2) = res * a ^ b"
      using e by (simp only: o(1) if_True simp_thms)
    with not_fits_mult [OF o(2) m] show ?thesis by (simp only: not_False_eq_True)
  qed
  show "\<not> fits_int uns w (res * a ^ b)" if s: "\<not> fits_int uns w (a * a)"
  proof -
    have a0: "a \<noteq> 0" using s z by auto
    have "b = Suc (Suc (b - 2))" using b by simp
    then have "res * a ^ b = a * a * (res * a ^ (b - 2))" by (metis mult.assoc mult.left_commute power_Suc)
    moreover have "res * a ^ (b - 2) \<noteq> 0" using a0 r by simp
    moreover have "uns \<longrightarrow> 0 \<le> res * a ^ (b - 2)" using u by simp
    ultimately show ?thesis using square_big [OF s, of "res * a ^ (b - 2)"] by (simp only: not_False_eq_True)
  qed
qed

lemma Binpow_loop_exact:
  "1 \<le> b \<Longrightarrow> Binpow_loop a b res f = (res', a', f') \<Longrightarrow> (f \<longrightarrow> \<not> fits_int False I64 P) \<Longrightarrow>
   (\<not> f \<longrightarrow> res * a ^ b = P \<and> (a \<noteq> 0 \<longrightarrow> res \<noteq> 0)) \<Longrightarrow>
   (f' \<longrightarrow> \<not> fits_int False I64 P) \<and> (\<not> f' \<longrightarrow> res' * a' = P)"
proof (induction a b res f arbitrary: res' a' f' rule: Binpow_loop.induct)
  case (1 a b res f)
  show ?case
  proof (cases "1 < b")
    case False
    then show ?thesis using "1.prems" by (auto simp: Binpow_loop.simps [of a b])
  next
    case True
    let ?f1 = "f \<or> b mod 2 = 1 \<and> \<not> fits_int False I64 (res * a)"
    let ?r1 = "if b mod 2 = 1 then wrap_int False I64 (res * a) else res"
    let ?a = "wrap_int False I64 (a * a)" and ?f = "?f1 \<or> \<not> fits_int False I64 (a * a)"
    have l: "Binpow_loop ?a (b div 2) ?r1 ?f = (res', a', f')"
      using "1.prems"(2) True by (simp only: Binpow_loop.simps [of a b] Let_def) simp
    have "?f \<longrightarrow> \<not> fits_int False I64 P"
      using "1.prems"(3,4) squaring_step(1,2) [OF True, of a res False I64] by blast
    moreover have "\<not> ?f \<longrightarrow> ?r1 * ?a ^ (b div 2) = P \<and> (?a \<noteq> 0 \<longrightarrow> ?r1 \<noteq> 0)"
      using "1.prems"(4) squaring_step(3) [OF True, of a res False]
      by (auto simp: wrap_fits split: if_splits)
    moreover have "1 \<le> b div 2" using True by simp
    ultimately show ?thesis by (intro "1.IH" [OF True refl refl _ l])
  qed
qed

lemma mod_power_cong:
  fixes a c m :: int
  assumes "c mod m = a mod m" "r mod m = s mod m"
  shows "(r * c ^ n) mod m = (s * a ^ n) mod m"
  using assms by (metis mod_mult_cong power_mod)

lemma Binpow_loop_mod:
  "1 \<le> b \<Longrightarrow> Binpow_loop a b res f = (res', a', f') \<Longrightarrow>
   (res' * a') mod modulus I64 = (res * a ^ b) mod modulus I64"
proof (induction a b res f arbitrary: res' a' f' rule: Binpow_loop.induct)
  case (1 a b res f)
  show ?case
  proof (cases "1 < b")
    case False
    then show ?thesis using "1.prems" by (auto simp: Binpow_loop.simps [of a b])
  next
    case True
    let ?f1 = "f \<or> b mod 2 = 1 \<and> \<not> fits_int False I64 (res * a)"
    let ?r1 = "if b mod 2 = 1 then wrap_int False I64 (res * a) else res"
    let ?a = "wrap_int False I64 (a * a)" and ?f = "?f1 \<or> \<not> fits_int False I64 (a * a)"
    have l: "Binpow_loop ?a (b div 2) ?r1 ?f = (res', a', f')"
      using "1.prems"(2) True by (simp only: Binpow_loop.simps [of a b] Let_def) simp
    have "1 \<le> b div 2" using True by simp
    then have "(res' * a') mod modulus I64 = (?r1 * ?a ^ (b div 2)) mod modulus I64"
      by (intro "1.IH" [OF True refl refl _ l])
    also have "\<dots> = ((if b mod 2 = 1 then res * a else res) * (a * a) ^ (b div 2)) mod modulus I64"
      by (rule mod_power_cong) (cases "b mod 2 = 1"; simp only: wrap_mod if_True if_False simp_thms)+
    also have "\<dots> = (res * a ^ b) mod modulus I64"
      unfolding power_split [of a b] by (cases "b mod 2 = 1") (auto simp: mult.assoc)
    finally show ?thesis .
  qed
qed

lemma Binpow_exact: "Binpow a b = (\<not> fits_int False I64 (a ^ b), wrap_int False I64 (a ^ b))"
proof (cases "b = 0")
  case True
  have one: "fits_int False I64 1" by (simp add: fits_int_def fits_s_def)
  then show ?thesis using True wrap_fits [OF one] by (simp add: Binpow_def)
next
  case False
  then have b: "1 \<le> b" by simp
  obtain r c f where l: "Binpow_loop a b 1 False = (r, c, f)" by (cases "Binpow_loop a b 1 False") auto
  have "(f \<longrightarrow> \<not> fits_int False I64 (a ^ b)) \<and> (\<not> f \<longrightarrow> r * c = a ^ b)"
    by (rule Binpow_loop_exact [OF b l]) simp_all
  moreover have "wrap_int False I64 (r * c) = wrap_int False I64 (a ^ b)"
    using Binpow_loop_mod [OF b l] by (intro wrap_cong) simp
  ultimately show ?thesis using False l by (auto simp: Binpow_def)
qed

lemma power_side:
  assumes "\<not> fits_int uns w (x ^ y)" "uns \<longrightarrow> 0 \<le> x"
  shows "x < 0 \<and> odd y \<longleftrightarrow> x ^ y < type_min uns w"
  using assms type_bounds [of uns w] power_less_zero_eq [of x y] zero_le_power_eq [of x y]
  by (auto simp: fits_int_iff not_le)

lemma Exp_reports: "reports False I64 ov (x ^ y) (IsExpOverflow x y ov)"
proof -
  have "reports False I64 ov (x ^ y)
     (if \<not> fits_int False I64 (x ^ y) \<and> ov = SATURATING
      then (\<not> fits_int False I64 (x ^ y), if x < 0 \<and> odd y then type_min False I64 else type_max False I64)
      else (\<not> fits_int False I64 (x ^ y), wrap_int False I64 (x ^ y)))"
    by (intro reports_wrapped) (simp add: power_side)
  moreover have "Binpow x y = (\<not> fits_int False I64 (x ^ y), wrap_int False I64 (x ^ y))"
    by (rule Binpow_exact)
  ultimately show ?thesis by (auto simp: IsExpOverflow_def odd_iff_mod_2_eq_one split: if_splits)
qed

end
