(* ===== verification/Exact_Arith.thy ===== *)
theory Exact_Arith
  imports SIntRange_Sound Overflow_Check
begin

text \<open>
  Arithmetic on exact values (\<^verbatim>\<open>ApplyExactUnsignedPower\<close> to
  \<^verbatim>\<open>TryComputeExactArithmeticRange\<close> and \<^verbatim>\<open>CheckSingleValueOverflow\<close> of
  \<^verbatim>\<open>ValueRangeAnalysis.cpp\<close>): every pair of operand values is computed, powers by
  squaring, the other operators by the overflow checker; a pair without a result drops the
  whole set. Of a type only its kind is read. A number of \<^verbatim>\<open>__int128\<close> is an \<open>int\<close>:
  factors are 64-bit numbers, so that no product reaches \<open>2 ^ 128\<close>.
\<close>

definition IsBasicArithmeticKind :: "ExprKind \<Rightarrow> bool" where
  "IsBasicArithmeticKind exprKind \<longleftrightarrow>
     exprKind \<in> {EK_ADD, EK_SUB, EK_MUL, EK_DIV, EK_MOD} \<or> exprKind = EK_EXP"

section \<open>Powers\<close>

text \<open>The squaring loops. The first keeps the low bits and a flag, the second, of the wrapping
  signed power, the low bits only; the third computes in \<^verbatim>\<open>__int128\<close> and stops at the first
  product outside \<open>[lo, hi]\<close>.\<close>

fun upow_loop :: "64 word \<Rightarrow> 64 word \<Rightarrow> 64 word \<Rightarrow> nat \<Rightarrow> bool \<Rightarrow> 64 word \<times> bool" where
  "upow_loop msk result base exponent overflow =
     (if exponent \<noteq> 0 then
        let overflow1 = (exponent mod 2 = 1 \<and> uint result * uint base > uint msk \<or> overflow);
            result1 = (if exponent mod 2 = 1 then (result * base) AND msk else result);
            exponent1 = exponent div 2;
            overflow2 = (exponent1 \<noteq> 0 \<and> uint base * uint base > uint msk \<or> overflow1);
            base1 = (if exponent1 \<noteq> 0 then (base * base) AND msk else base)
        in upow_loop msk result1 base1 exponent1 overflow2
      else (result, overflow))"

fun wpow_loop :: "64 word \<Rightarrow> 64 word \<Rightarrow> 64 word \<Rightarrow> nat \<Rightarrow> 64 word" where
  "wpow_loop msk result base exponent =
     (if exponent \<noteq> 0 then
        let result1 = (if exponent mod 2 = 1 then (result * base) AND msk else result);
            exponent1 = exponent div 2;
            base1 = (if exponent1 \<noteq> 0 then (base * base) AND msk else base)
        in wpow_loop msk result1 base1 exponent1
      else result)"

fun spow_loop :: "int \<Rightarrow> int \<Rightarrow> int \<Rightarrow> int \<Rightarrow> nat \<Rightarrow> int option" where
  "spow_loop lo hi result base exponent =
     (if exponent \<noteq> 0 then
        if exponent mod 2 = 1 \<and> (result * base < lo \<or> result * base > hi) then None
        else
          let result1 = (if exponent mod 2 = 1 then result * base else result); exponent1 = exponent div 2
          in if exponent1 \<noteq> 0 \<and> (base * base < lo \<or> base * base > hi) then None
             else spow_loop lo hi result1 (if exponent1 \<noteq> 0 then base * base else base) exponent1
      else Some result)"

declare upow_loop.simps [simp del] wpow_loop.simps [simp del] spow_loop.simps [simp del]

definition ApplyExactUnsignedPower :: "SInt \<Rightarrow> SInt \<Rightarrow> OverflowStrategy \<Rightarrow> SInt option" where
  "ApplyExactUnsignedPower lhs rhs ov =
     (let w = width lhs; msk = SInt_UVal (SInt_UMaxValue w);
          (result, overflow) = upow_loop msk (1 AND msk) (SInt_UVal lhs AND msk) (unat (SInt_UVal rhs)) False
      in if overflow \<and> ov = THROWING then None
         else if overflow \<and> ov = SATURATING then Some (SInt_UMaxValue w)
         else Some (SInt_make w result))"

definition ApplyExactSignedPower :: "SInt \<Rightarrow> SInt \<Rightarrow> OverflowStrategy \<Rightarrow> SInt option" where
  "ApplyExactSignedPower lhs rhs ov =
     (let w = width lhs; exponent = unat (SInt_UVal rhs)
      in if ov = WRAPPING then
           let msk = SInt_UVal (SInt_UMaxValue w)
           in Some (SInt_make w (wpow_loop msk (1 AND msk) (SInt_UVal lhs AND msk) exponent))
         else
           let lo = SInt_SVal (SInt_SMinValue w); hi = SInt_SVal (SInt_SMaxValue w)
           in case spow_loop lo hi 1 (SInt_SVal lhs) exponent of
                Some result \<Rightarrow> Some (SInt_make w (word_of_int result))
              | None \<Rightarrow>
                  if ov = THROWING then None
                  else if ov = SATURATING then
                    (if SInt_Slt_i lhs 0 \<and> exponent mod 2 = 1 then Some (SInt_SMinValue w)
                     else Some (SInt_SMaxValue w))
                  else None)"

definition ApplyExactPower :: "SInt \<Rightarrow> SInt \<Rightarrow> OverflowStrategy \<Rightarrow> bool \<Rightarrow> bool \<Rightarrow> SInt option" where
  "ApplyExactPower lhs rhs ov isUnsigned rhsUnsigned =
     (if \<not> rhsUnsigned \<and> SInt_Slt_i rhs 0 then None
      else if isUnsigned then ApplyExactUnsignedPower lhs rhs ov
      else ApplyExactSignedPower lhs rhs ov)"

section \<open>The other operators\<close>

text \<open>What the callers make of an answer of the checker.\<close>

definition checked_value :: "IntWidth \<Rightarrow> OverflowStrategy \<Rightarrow> (bool \<times> int) option \<Rightarrow> SInt option" where
  "checked_value w ov answer =
     (case answer of None \<Rightarrow> None
      | Some (overflow, result) \<Rightarrow>
          if overflow \<and> ov = THROWING then None else Some (SInt_make w (word_of_int result)))"

definition ApplyExactArithmetic ::
  "ExprKind \<Rightarrow> SInt \<Rightarrow> SInt \<Rightarrow> TypeKind \<Rightarrow> OverflowStrategy \<Rightarrow> bool \<Rightarrow> bool \<Rightarrow> SInt option" where
  "ApplyExactArithmetic exprKind lhs rhs typeKind ov isUnsigned rhsUnsigned =
     (let w = width lhs
      in if exprKind = EK_EXP then ApplyExactPower lhs rhs ov isUnsigned rhsUnsigned
         else if isUnsigned then
           (let lhsValue = uint (SInt_UVal lhs); rhsValue = uint (SInt_UVal rhs)
            in if (exprKind = EK_DIV \<or> exprKind = EK_MOD) \<and> rhsValue = 0 then None
               else checked_value w ov (IsUIntOverflow typeKind exprKind lhsValue rhsValue ov 0))
         else
           (let lhsValue = SInt_SVal lhs; rhsValue = SInt_SVal rhs
            in if (exprKind = EK_DIV \<or> exprKind = EK_MOD) \<and> rhsValue = 0 then None
               else checked_value w ov (IsIntOverflow typeKind exprKind lhsValue rhsValue ov 0)))"

definition ApplyExactNeg :: "SInt \<Rightarrow> TypeKind \<Rightarrow> OverflowStrategy \<Rightarrow> bool \<Rightarrow> SInt option" where
  "ApplyExactNeg v typeKind ov isUnsigned =
     (if isUnsigned then checked_value (width v) ov (IsUIntOverflow typeKind EK_NEG 0 (uint (SInt_UVal v)) ov 0)
      else checked_value (width v) ov (IsIntOverflow typeKind EK_NEG 0 (SInt_SVal v) ov 0))"

definition is_integer_kind :: "TypeKind \<Rightarrow> bool" where
  "is_integer_kind k \<longleftrightarrow> int_kind k \<noteq> None \<or> uint_kind k \<noteq> None"

definition ApplyExactTypeCast :: "SInt \<Rightarrow> TypeKind option \<Rightarrow> TypeKind option \<Rightarrow> OverflowStrategy \<Rightarrow> SInt option" where
  "ApplyExactTypeCast v srcType destType ov =
     (case (srcType, destType) of
        (Some src, Some dest) \<Rightarrow>
          if \<not> is_integer_kind src \<or> \<not> is_integer_kind dest then None
          else
            let sourceDomain = SD_make (CR_single v) (IsUnsignedInteger src);
                numericBound = ComputeTypeCastNumericBound sourceDomain (SD_ToWidth dest) (IsUnsignedInteger dest) ov
            in if CR_IsEmptySet numericBound \<or> \<not> CR_IsSingleElement numericBound then None
               else Some (CR_GetSingleElement numericBound)
      | _ \<Rightarrow> None)"

text \<open>All pairs, in the order of the two loops; nothing if one pair has no result.\<close>

fun all_some :: "'a option list \<Rightarrow> 'a list option" where
  "all_some [] = Some []"
| "all_some (None # xs) = None"
| "all_some (Some x # xs) = map_option ((#) x) (all_some xs)"

definition TryComputeExactArithmeticRange ::
  "RangeAnalysisConfig \<Rightarrow> ExprKind \<Rightarrow> TypeKind option \<Rightarrow> TypeKind option \<Rightarrow> OverflowStrategy \<Rightarrow>
   SInt list option \<Rightarrow> SInt list option \<Rightarrow> bool \<Rightarrow> SIntRange option" where
  "TryComputeExactArithmeticRange cfg exprKind type rhsType ov lhsValues rhsValues isUnsigned =
     (case (type, rhsType, lhsValues, rhsValues) of
        (Some t, Some rt, Some ls, Some rs) \<Rightarrow>
          if \<not> IsBasicArithmeticKind exprKind then None
          else if ExceedsExactIntSetProduct cfg (length ls) (length rs) then None
          else
            (case all_some (map (\<lambda>(l, r). ApplyExactArithmetic exprKind l r t ov isUnsigned (IsUnsignedInteger rt))
                     (List.product ls rs)) of
               None \<Rightarrow> None
             | Some vs \<Rightarrow>
                 (case NormalizeExactIntSet cfg vs of
                    None \<Rightarrow> None
                  | Some exactValues \<Rightarrow>
                      Some (SIntRange_of_exact cfg (DomainFromExactIntValues exactValues isUnsigned) (Some exactValues))))
      | _ \<Rightarrow> None)"

text \<open>A binary expression on two single values: the domain of the result, and the diagnostic
  that is raised.\<close>

datatype RangeDiagnostic = DivisorIsZero | ArithmeticOverflow ExprKind int int

definition CheckDivZero :: "ExprKind \<Rightarrow> int \<Rightarrow> bool" where
  "CheckDivZero exprKind rVal \<longleftrightarrow> rVal = 0 \<and> (exprKind = EK_DIV \<or> exprKind = EK_MOD)"

definition CheckSingleValueOverflow ::
  "SIntDomain \<Rightarrow> SIntDomain \<Rightarrow> TypeKind \<Rightarrow> OverflowStrategy \<Rightarrow> bool \<Rightarrow> ExprKind \<Rightarrow>
   (SIntDomain \<times> RangeDiagnostic option) option" where
  "CheckSingleValueOverflow ld rdm typeKind ov uns exprKind =
     (let w = SD_Width ld;
          a = (if uns then uint (SInt_UVal (CR_Lower (SD_NumericBound ld))) else SInt_SVal (CR_Lower (SD_NumericBound ld)));
          b = (if uns then uint (SInt_UVal (CR_Lower (SD_NumericBound rdm))) else SInt_SVal (CR_Lower (SD_NumericBound rdm)))
      in if CheckDivZero exprKind b then Some (SD_Top w uns, Some DivisorIsZero)
         else
           (case (if uns then IsUIntOverflow typeKind exprKind a b ov 0 else IsIntOverflow typeKind exprKind a b ov 0) of
              None \<Rightarrow> None
            | Some (isOv, res) \<Rightarrow>
                if isOv \<and> ov = THROWING then Some (SD_Top w uns, Some (ArithmeticOverflow exprKind a b))
                else Some (SD_make (CR_single (SInt_make w (word_of_int res))) uns, None)))"

section \<open>Small ranges as sets of values\<close>

text \<open>The loop that lists \<open>first\<close>, \<open>first + stride\<close>, and so on up to the maximum: the code has
  counted its rounds, at least one and at most the limit, before it starts.\<close>

definition ProgressionValues ::
  "RangeAnalysisConfig \<Rightarrow> IntWidth \<Rightarrow> int \<Rightarrow> int \<Rightarrow> int \<Rightarrow> SInt list option" where
  "ProgressionValues cfg w first wideMax strd =
     (if first > wideMax then None
      else
        let count = (wideMax - first) div strd + 1
        in if count \<le> 0 \<or> ExceedsExactIntSetLimit cfg (nat count) then None
           else NormalizeExactIntSet cfg
                  (map (\<lambda>i. SInt_make w (word_of_int (first + int i * strd))) [0..<nat count]))"

definition GetExactValuesOrSmallRange ::
  "RangeAnalysisConfig \<Rightarrow> SIntRange option \<Rightarrow> bool \<Rightarrow> SInt list option" where
  "GetExactValuesOrSmallRange cfg rng asUnsigned =
     (case rng of None \<Rightarrow> None
      | Some r \<Rightarrow>
          if sr_exact r \<noteq> None then sr_exact r
          else
            let d = sr_domain r; n = SD_NumericBound d; w = SD_Width d
            in if SD_IsBottom d \<or> SD_SymbolicBounds d \<noteq> [] then None
               else if CR_IsEmptySet n \<or> CR_IsFullSet n \<and> sr_congruence r = None then None
               else if \<not> CR_IsFullSet n \<and> (if asUnsigned then CR_IsWrappedSet n else CR_IsSignWrappedSet n) then None
               else
                 let strd = (case sr_congruence r of Some c \<Rightarrow> uint (stride c) | None \<Rightarrow> 1);
                     resd = (case sr_congruence r of Some c \<Rightarrow> uint (residue c) | None \<Rightarrow> 0);
                     mn = (if asUnsigned
                           then uint (SInt_UVal (if CR_IsFullSet n then SInt_UMinValue w else CR_UMinValue n))
                           else SInt_SVal (if CR_IsFullSet n then SInt_SMinValue w else CR_SMinValue n));
                     mx = (if asUnsigned
                           then uint (SInt_UVal (if CR_IsFullSet n then SInt_UMaxValue w else CR_UMaxValue n))
                           else SInt_SVal (if CR_IsFullSet n then SInt_SMaxValue w else CR_SMaxValue n))
                 in if mx < mn then None
                    else
                      let minResidue = mn mod strd;
                          first = (if strd > 1 then mn + (resd - minResidue + strd) mod strd else mn)
                      in ProgressionValues cfg w first mx strd)"

section \<open>Integers as signed integers of a width\<close>

lemma rd_make_wrap: "rd (\<not> uns) (SInt_make w (word_of_int k)) = wrap_int uns w k"
proof -
  have u: "uv (SInt_make w (word_of_int k)) = k mod modulus w"
    using mod_mod_cancel [OF modulus_dvd_64 [of w], of k] by (simp add: make_uv uint_word_of_int)
  then show ?thesis
    using sv_signed_of [of "SInt_make w (word_of_int k)" k] by (simp add: rd_def wrap_int_def)
qed

lemma make_wrap: "SInt_make w (word_of_int (wrap_int uns w k)) = SInt_make w (word_of_int k)"
proof (rule rd_inj [where s = "\<not> uns"])
  have "wrap_int uns w (wrap_int uns w k) = wrap_int uns w k" by (rule wrap_cong) (simp add: wrap_mod)
  then show "rd (\<not> uns) (SInt_make w (word_of_int (wrap_int uns w k))) = rd (\<not> uns) (SInt_make w (word_of_int k))"
    by (simp add: rd_make_wrap)
qed simp_all

lemma make_word_eq: "uint r mod modulus w = k mod modulus w \<Longrightarrow> SInt_make w r = SInt_make w (word_of_int k)"
proof (rule SInt_ext)
  assume "uint r mod modulus w = k mod modulus w"
  then have "rd False (SInt_make w r) = rd (\<not> True) (SInt_make w (word_of_int k))"
    unfolding rd_make_wrap by (simp add: rd_def wrap_int_def make_uv)
  then show "uv (SInt_make w r) = uv (SInt_make w (word_of_int k))" by (simp add: rd_def)
qed simp

lemma rd_fits: "SInt_wf v \<Longrightarrow> fits_int uns (width v) (rd (\<not> uns) v)"
  using rd_bounds [of v "\<not> uns"] by (auto simp: fits_int_def fits_u_def fits_s_def)

lemma make_rd: "SInt_wf z \<Longrightarrow> SInt_make (width z) (word_of_int (rd (\<not> uns) z)) = z"
  by (rule rd_inj [where s = "\<not> uns"]) (simp_all add: rd_make_wrap wrap_fits rd_fits)

section \<open>Powers\<close>

abbreviation wmask :: "IntWidth \<Rightarrow> 64 word" where
  "wmask w \<equiv> SInt_UVal (SInt_UMaxValue w)"

lemma uint_wmask: "uint (wmask w) = modulus w - 1"
  using UMaxValue_simps by (simp add: SInt_UVal_def uv_def)

lemma and_wmask: "uint (v AND wmask w) = uint v mod modulus w"
  using uint_and_mask64 [of "bw w" v] bw_bounds [of w]
  by (simp add: SInt_UVal_def SInt_UMaxValue_def val_AllOnes modulus_def)

lemma mult_wmask: "uint ((a * b) AND wmask w) = (uint a * uint b) mod modulus w"
  unfolding and_wmask using mod64_mod [of "uint a * uint b" w] by (simp add: uint_word_ariths)

lemma over_wmask: "uint a * uint b > uint (wmask w) \<longleftrightarrow> \<not> fits_int True w (uint a * uint b)"
  by (auto simp: uint_wmask fits_int_def fits_u_def)

lemma wpow_loop_upow: "wpow_loop m r b e = fst (upow_loop m r b e f)"
proof (induction m r b e arbitrary: f rule: wpow_loop.induct)
  case (1 m r b e)
  show ?case
  proof (cases "e = 0")
    case True
    then show ?thesis by (simp add: wpow_loop.simps upow_loop.simps)
  next
    case False
    show ?thesis
      unfolding wpow_loop.simps [of m r b e] upow_loop.simps [of m r b e f] Let_def
      using "1.IH" [OF False refl refl refl] False by simp
  qed
qed

text \<open>One round of the loops: the product of the bit, the rest of the exponent, and the square
  that is only taken when bits are left.\<close>

lemma power_round:
  fixes r b :: int
  assumes e: "e \<noteq> 0" and r: "b \<noteq> 0 \<longrightarrow> r \<noteq> 0" and u: "uns \<longrightarrow> 0 \<le> b \<and> 0 \<le> r"
  shows "e mod 2 = 1 \<Longrightarrow> \<not> fits_int uns w (r * b) \<Longrightarrow> \<not> fits_int uns w (r * b ^ e)"
    "e div 2 \<noteq> 0 \<Longrightarrow> \<not> fits_int uns w (b * b) \<Longrightarrow> \<not> fits_int uns w (r * b ^ e)"
    "(if e mod 2 = 1 then r * b else r) * (if e div 2 \<noteq> 0 then b * b else b) ^ (e div 2) = r * b ^ e"
proof -
  have one: "e = 1" if "\<not> 1 < e" using e that by simp
  show "e mod 2 = 1 \<Longrightarrow> \<not> fits_int uns w (r * b) \<Longrightarrow> \<not> fits_int uns w (r * b ^ e)"
    using squaring_step(1) [OF _ r u] one by (cases "1 < e") auto
  show "e div 2 \<noteq> 0 \<Longrightarrow> \<not> fits_int uns w (b * b) \<Longrightarrow> \<not> fits_int uns w (r * b ^ e)"
    using squaring_step(2) [OF _ r u] one by (cases "1 < e") auto
  show "(if e mod 2 = 1 then r * b else r) * (if e div 2 \<noteq> 0 then b * b else b) ^ (e div 2) = r * b ^ e"
  proof (cases "1 < e")
    case True
    then have "e div 2 \<noteq> 0" by simp
    then show ?thesis using squaring_step(3) [OF True r u] by (simp only: if_True not_False_eq_True)
  next
    case False
    then show ?thesis using one by simp
  qed
qed

lemma upow_loop_exact:
  "upow_loop (wmask w) r b e f = (r', f') \<Longrightarrow> (f \<longrightarrow> \<not> fits_int True w P) \<Longrightarrow>
   (\<not> f \<longrightarrow> uint r * uint b ^ e = P \<and> (uint b \<noteq> 0 \<longrightarrow> uint r \<noteq> 0)) \<Longrightarrow>
   (f' \<longrightarrow> \<not> fits_int True w P) \<and> (\<not> f' \<longrightarrow> uint r' = P)"
proof (induction "wmask w" r b e f arbitrary: r' f' rule: upow_loop.induct)
  case (1 r b e f)
  show ?case
  proof (cases "e = 0")
    case True
    then show ?thesis using "1.prems" by (auto simp: upow_loop.simps)
  next
    case False
    define f1 where "f1 \<longleftrightarrow> e mod 2 = 1 \<and> uint r * uint b > uint (wmask w) \<or> f"
    define r1 where "r1 = (if e mod 2 = 1 then (r * b) AND wmask w else r)"
    define f2 where "f2 \<longleftrightarrow> e div 2 \<noteq> 0 \<and> uint b * uint b > uint (wmask w) \<or> f1"
    define b1 where "b1 = (if e div 2 \<noteq> 0 then (b * b) AND wmask w else b)"
    have l: "upow_loop (wmask w) r1 b1 (e div 2) f2 = (r', f')"
      using "1.prems"(1) False unfolding upow_loop.simps [of _ r b e f] by (simp add: f1_def f2_def r1_def b1_def Let_def)
    have u: "True \<longrightarrow> 0 \<le> uint b \<and> 0 \<le> uint r" by simp
    have p: "uint r1 = (if e mod 2 = 1 then uint r * uint b else uint r)"
      "uint b1 = (if e div 2 \<noteq> 0 then uint b * uint b else uint b)" if "\<not> f2"
      using that by (auto simp: r1_def b1_def f1_def f2_def mult_wmask uint_wmask)
    note round = power_round(1,2) [OF False _ u, where w = w]
    have "f2 \<longrightarrow> \<not> fits_int True w P"
      using "1.prems"(2,3) round(1,2) unfolding f2_def f1_def over_wmask by blast
    moreover have "\<not> f2 \<longrightarrow> uint r1 * uint b1 ^ (e div 2) = P \<and> (uint b1 \<noteq> 0 \<longrightarrow> uint r1 \<noteq> 0)"
    proof
      assume n: "\<not> f2"
      then have i: "uint r * uint b ^ e = P" "uint b \<noteq> 0 \<longrightarrow> uint r \<noteq> 0" using "1.prems"(3) by (auto simp: f1_def f2_def)
      show "uint r1 * uint b1 ^ (e div 2) = P \<and> (uint b1 \<noteq> 0 \<longrightarrow> uint r1 \<noteq> 0)"
        using power_round(3) [OF False i(2) u] i p [OF n] by (auto split: if_splits)
    qed
    ultimately show ?thesis
      using "1.hyps" [OF False f1_def r1_def refl f2_def b1_def l] by blast
  qed
qed

lemma upow_loop_mod:
  "upow_loop (wmask w) r b e f = (r', f') \<Longrightarrow> uint r' mod modulus w = (uint r * uint b ^ e) mod modulus w"
proof (induction "wmask w" r b e f arbitrary: r' f' rule: upow_loop.induct)
  case (1 r b e f)
  show ?case
  proof (cases "e = 0")
    case True
    then show ?thesis using "1.prems" by (auto simp: upow_loop.simps)
  next
    case False
    define f1 where "f1 \<longleftrightarrow> e mod 2 = 1 \<and> uint r * uint b > uint (wmask w) \<or> f"
    define r1 where "r1 = (if e mod 2 = 1 then (r * b) AND wmask w else r)"
    define f2 where "f2 \<longleftrightarrow> e div 2 \<noteq> 0 \<and> uint b * uint b > uint (wmask w) \<or> f1"
    define b1 where "b1 = (if e div 2 \<noteq> 0 then (b * b) AND wmask w else b)"
    have l: "upow_loop (wmask w) r1 b1 (e div 2) f2 = (r', f')"
      using "1.prems"(1) False unfolding upow_loop.simps [of _ r b e f] by (simp add: f1_def f2_def r1_def b1_def Let_def)
    have "uint r' mod modulus w = (uint r1 * uint b1 ^ (e div 2)) mod modulus w"
      by (rule "1.hyps" [OF False f1_def r1_def refl f2_def b1_def l])
    also have "\<dots> = ((if e mod 2 = 1 then uint r * uint b else uint r) *
        (if e div 2 \<noteq> 0 then uint b * uint b else uint b) ^ (e div 2)) mod modulus w"
      by (rule mod_power_cong) (simp_all add: r1_def b1_def mult_wmask)
    also have "\<dots> = (uint r * uint b ^ e) mod modulus w"
      unfolding power_split [of "uint b" e] using False
      by (cases "e mod 2 = 1"; cases "e div 2 = 0") (auto simp: mult.assoc)
    finally show ?thesis .
  qed
qed

lemma upow_loop_bound:
  "upow_loop (wmask w) r b e f = (r', f') \<Longrightarrow> uint r < modulus w \<Longrightarrow> uint r' < modulus w"
proof (induction "wmask w" r b e f arbitrary: r' f' rule: upow_loop.induct)
  case (1 r b e f)
  show ?case
  proof (cases "e = 0")
    case False
    have "uint (if e mod 2 = 1 then (r * b) AND wmask w else r) < modulus w"
      using "1.prems"(2) by (simp add: and_wmask)
    then show ?thesis
      using "1.prems"(1) "1.hyps" [OF False refl refl refl refl refl] False
      unfolding upow_loop.simps [of _ r b e f] Let_def by simp
  qed (use "1.prems" in \<open>simp add: upow_loop.simps\<close>)
qed

lemma fits_signed: "fits_int False w k \<longleftrightarrow> \<not> (k < - half w \<or> k > half w - 1)"
  by (auto simp: fits_int_def fits_s_def)

lemma spow_loop_exact:
  "fits_int False w r \<Longrightarrow> (b \<noteq> 0 \<longrightarrow> r \<noteq> 0) \<Longrightarrow>
   spow_loop (- half w) (half w - 1) r b e =
     (if fits_int False w (r * b ^ e) then Some (r * b ^ e) else None)"
proof (induction "- half w" "half w - 1" r b e rule: spow_loop.induct)
  case (1 r b e)
  show ?case
  proof (cases "e = 0")
    case True
    then show ?thesis using "1.prems" by (simp add: spow_loop.simps)
  next
    case False
    let ?r1 = "if e mod 2 = 1 then r * b else r" and ?b1 = "if e div 2 \<noteq> 0 then b * b else b"
    note round = power_round(1,2) [OF False "1.prems"(2), where uns = False and w = w]
    have unf: "spow_loop (- half w) (half w - 1) r b e =
        (if e mod 2 = 1 \<and> \<not> fits_int False w (r * b) then None
         else if e div 2 \<noteq> 0 \<and> \<not> fits_int False w (b * b) then None
         else spow_loop (- half w) (half w - 1) ?r1 ?b1 (e div 2))"
      unfolding spow_loop.simps [of _ _ r b e] Let_def fits_signed using False by simp
    show ?thesis
    proof (cases "e mod 2 = 1 \<and> \<not> fits_int False w (r * b) \<or> e div 2 \<noteq> 0 \<and> \<not> fits_int False w (b * b)")
      case True
      then show ?thesis using unf round(1,2) by auto
    next
      case ok: False
      have "fits_int False w ?r1" "?b1 \<noteq> 0 \<longrightarrow> ?r1 \<noteq> 0" using ok "1.prems" by auto
      then have "spow_loop (- half w) (half w - 1) ?r1 ?b1 (e div 2) =
          (if fits_int False w (?r1 * ?b1 ^ (e div 2)) then Some (?r1 * ?b1 ^ (e div 2)) else None)"
        using ok False by (intro "1.hyps") (auto simp: fits_signed)
      moreover have "?r1 * ?b1 ^ (e div 2) = r * b ^ e" by (rule power_round(3) [OF False "1.prems"(2), where uns = False]) simp
      moreover have "spow_loop (- half w) (half w - 1) r b e = spow_loop (- half w) (half w - 1) ?r1 ?b1 (e div 2)"
        using unf ok by argo
      ultimately show ?thesis by (simp only:)
    qed
  qed
qed

text \<open>The value an operator has on two values: the exact result under the strategy. The
  exponent of a power is read in its own type.\<close>

definition exact_value :: "ExprKind \<Rightarrow> bool \<Rightarrow> bool \<Rightarrow> SInt \<Rightarrow> SInt \<Rightarrow> int option" where
  "exact_value ek uns ru v x =
     (if ek = EK_EXP then (if rd (\<not> ru) x < 0 then None else Some (rd (\<not> uns) v ^ nat (rd (\<not> ru) x)))
      else exact_result ek (rd (\<not> uns) v) (rd (\<not> uns) x))"

definition value_of :: "bool \<Rightarrow> IntWidth \<Rightarrow> OverflowStrategy \<Rightarrow> int option \<Rightarrow> SInt option" where
  "value_of uns w ov k = map_option (\<lambda>j. SInt_make w (word_of_int j)) (Option.bind k (outcome ov uns w))"

lemma exponent_nat: "SInt_wf x \<Longrightarrow> \<not> rd s x < 0 \<Longrightarrow> unat (SInt_UVal x) = nat (rd s x)"
  by (cases s) (auto simp: rd_def SInt_UVal_def uv_def uv_sv unat_eq_nat_uint simp flip: uv_def)

lemma UMax_value: "SInt_UMaxValue w = SInt_make w (word_of_int (type_max True w))"
proof (rule rd_inj [where s = False])
  have "fits_int True w (modulus w - 1)" by (simp add: fits_int_def fits_u_def)
  then show "rd False (SInt_UMaxValue w) = rd False (SInt_make w (word_of_int (type_max True w)))"
    using rd_make_wrap [of True w "modulus w - 1"] by (simp add: rd_def UMaxValue_simps type_max_def wrap_fits)
qed simp_all

lemma SMaxMin_value:
  "SInt_SMaxValue w = SInt_make w (word_of_int (type_max False w))"
  "SInt_SMinValue w = SInt_make w (word_of_int (type_min False w))"
  using make_of_int [of w "half w - 1"] make_of_int [of w "- half w"] half_pos [of w]
  by (auto intro!: sv_inj simp: type_max_def type_min_def)

lemma outcome_cases_strategy:
  "known_strategy ov \<Longrightarrow> outcome ov uns w k =
     (if fits_int uns w k then Some k else if ov = THROWING then None
      else if ov = SATURATING then Some (clamp_int uns w k) else Some (wrap_int uns w k))"
  by (auto simp: known_strategy_def outcome_def)

lemma value_of_wrapping: "value_of uns w WRAPPING (Some k) = Some (SInt_make w (word_of_int k))"
  using make_wrap [of w uns k] by (auto simp: value_of_def outcome_def)

lemma UnsignedPower_correct:
  assumes v: "SInt_wf v" and ov: "known_strategy ov"
  shows "ApplyExactUnsignedPower v x ov = value_of True (width v) ov (Some (uv v ^ unat (SInt_UVal x)))"
proof -
  let ?w = "width v" and ?k = "uv v ^ unat (SInt_UVal x)"
  obtain r f where l: "upow_loop (wmask ?w) (1 AND wmask ?w) (SInt_UVal v AND wmask ?w) (unat (SInt_UVal x)) False = (r, f)"
    by (cases "upow_loop (wmask ?w) (1 AND wmask ?w) (SInt_UVal v AND wmask ?w) (unat (SInt_UVal x)) False") auto
  have one: "uint (1 AND wmask ?w) = 1" "uint (SInt_UVal v AND wmask ?w) = uv v"
    unfolding and_wmask using uv_mod_self [OF v] modulus_ge [of ?w] by (simp_all add: SInt_UVal_def uv_def)
  have e: "(f \<longrightarrow> \<not> fits_int True ?w ?k) \<and> (\<not> f \<longrightarrow> uint r = ?k)"
    by (rule upow_loop_exact [OF l]) (simp_all add: one)
  have m: "uint r mod modulus ?w = ?k mod modulus ?w" using upow_loop_mod [OF l] by (simp add: one)
  have "uint r < modulus ?w" by (rule upow_loop_bound [OF l]) (simp add: and_wmask)
  then have f: "f \<longleftrightarrow> \<not> fits_int True ?w ?k" using e uv_nonneg [of v] by (auto simp: fits_int_def fits_u_def)
  have r: "SInt_make ?w r = SInt_make ?w (word_of_int ?k)"
    using m by (rule make_word_eq)
  have c: "clamp_int True ?w ?k = type_max True ?w" if "f"
    using that f uv_nonneg [of v] by (auto simp: clamp_int_cases fits_int_iff type_min_def)
  show ?thesis
    unfolding ApplyExactUnsignedPower_def Let_def l value_of_def outcome_cases_strategy [OF ov]
    using r c f make_wrap [of ?w True ?k] by (auto simp: UMax_value)
qed

lemma SignedPower_correct:
  assumes v: "SInt_wf v" and ov: "known_strategy ov"
  shows "ApplyExactSignedPower v x ov = value_of False (width v) ov (Some (sv v ^ unat (SInt_UVal x)))"
proof (cases "ov = WRAPPING")
  case True
  let ?w = "width v" and ?k = "sv v ^ unat (SInt_UVal x)"
  let ?b = "SInt_UVal v AND wmask ?w" and ?e = "unat (SInt_UVal x)"
  obtain r f where l: "upow_loop (wmask ?w) (1 AND wmask ?w) ?b ?e False = (r, f)"
    by (cases "upow_loop (wmask ?w) (1 AND wmask ?w) ?b ?e False") auto
  have one: "uint (1 AND wmask ?w) = 1" "uint ?b = uv v"
    unfolding and_wmask using uv_mod_self [OF v] modulus_ge [of ?w] by (simp_all add: SInt_UVal_def uv_def)
  have "uint r mod modulus ?w = (1 * uv v ^ ?e) mod modulus ?w" using upow_loop_mod [OF l] by (simp only: one)
  also have "\<dots> = (1 * sv v ^ ?e) mod modulus ?w"
    by (rule mod_power_cong) (simp_all add: uv_cong_sv [OF v])
  finally have "SInt_make ?w r = SInt_make ?w (word_of_int ?k)"
    by (intro make_word_eq) simp
  moreover have "wpow_loop (wmask ?w) (1 AND wmask ?w) ?b ?e = r" using wpow_loop_upow l by (metis fst_conv)
  ultimately show ?thesis
    using True by (simp add: ApplyExactSignedPower_def Let_def value_of_wrapping)
next
  case False
  let ?w = "width v" and ?k = "sv v ^ unat (SInt_UVal x)"
  have l: "spow_loop (SInt_SVal (SInt_SMinValue ?w)) (SInt_SVal (SInt_SMaxValue ?w)) 1 (SInt_SVal v) (unat (SInt_UVal x)) =
      (if fits_int False ?w ?k then Some ?k else None)"
    using spow_loop_exact [of ?w 1 "sv v" "unat (SInt_UVal x)"] half_ge [of ?w] v
    by (simp add: SVal_sv fits_int_def fits_s_def)
  have c: "clamp_int False ?w ?k = (if sv v < 0 \<and> odd (unat (SInt_UVal x)) then type_min False ?w else type_max False ?w)"
    if "\<not> fits_int False ?w ?k"
    using that power_side [OF that] by (auto simp: clamp_int_cases fits_int_iff)
  have n: "SInt_Slt_i v 0 \<longleftrightarrow> sv v < 0" using v by (simp add: SInt_Slt_i_def GetSExtValue_sv)
  show ?thesis
    unfolding ApplyExactSignedPower_def Let_def l value_of_def outcome_cases_strategy [OF ov] n
    using False c ov by (auto simp: SMaxMin_value odd_iff_mod_2_eq_one known_strategy_def)
qed

lemma Power_correct:
  assumes v: "SInt_wf v" and x: "SInt_wf x" and ov: "known_strategy ov"
  shows "ApplyExactPower v x ov uns ru = value_of uns (width v) ov (exact_value EK_EXP uns ru v x)"
proof -
  have n: "\<not> ru \<and> SInt_Slt_i x 0 \<longleftrightarrow> rd (\<not> ru) x < 0"
    using x uv_nonneg [of x] by (auto simp: SInt_Slt_i_def GetSExtValue_sv rd_def not_less)
  show ?thesis
  proof (cases "rd (\<not> ru) x < 0")
    case True
    then show ?thesis using n by (simp add: ApplyExactPower_def exact_value_def value_of_def)
  next
    case False
    then show ?thesis
      using n exponent_nat [OF x False] UnsignedPower_correct [OF v ov, of x] SignedPower_correct [OF v ov, of x]
      by (auto simp: ApplyExactPower_def exact_value_def rd_def)
  qed
qed

section \<open>The other operators\<close>

text \<open>An answer of the checker, made a value, is the value of the operator. The checker is used
  through its contract.\<close>

definition kind_matches :: "TypeKind \<Rightarrow> bool \<Rightarrow> IntWidth \<Rightarrow> bool" where
  "kind_matches k uns w \<longleftrightarrow> (if uns then uint_kind k = Some w else int_kind k = Some w)"

lemma kind_matches_width: "kind_matches k uns w \<Longrightarrow> SD_ToWidth k = w \<and> IsUnsignedInteger k = uns"
  by (cases k) (auto simp: kind_matches_def SD_ToWidth_def IsUnsignedInteger_def split: if_splits)

lemma checked_value_outcome:
  assumes "strategy_result ov p = outcome ov uns w k" "answer = Some p"
  shows "checked_value w ov answer = value_of uns w ov (Some k)"
proof (cases p)
  case (Pair f r)
  then have "outcome ov uns w k = (if f \<and> ov = THROWING then None else Some r)"
    using assms(1) [symmetric] by (simp add: strategy_result_def)
  then show ?thesis using Pair assms(2) by (auto simp: checked_value_def value_of_def)
qed

lemma checker_answer:
  assumes kd: "kind_matches tk uns (width v)" and v: "SInt_wf v" and x: "SInt_wf x" and w: "width x = width v"
    and k: "checked_result uns (width v) ek (rd (\<not> uns) v) (rd (\<not> uns) x) = Some k" and ov: "known_strategy ov"
  shows "checked_value (width v) ov
     (if uns then IsUIntOverflow tk ek (uint (SInt_UVal v)) (uint (SInt_UVal x)) ov 0
      else IsIntOverflow tk ek (SInt_SVal v) (SInt_SVal x) ov 0) = value_of uns (width v) ov (Some k)"
proof -
  have f: "fits_int uns (width v) (rd (\<not> uns) v)" "fits_int uns (width v) (rd (\<not> uns) x)"
    using rd_fits [OF v] rd_fits [OF x] w by metis+
  obtain p where p: "IsOverflow uns (width v) (rd (\<not> uns) v) (rd (\<not> uns) x) ek ov = Some p"
    "strategy_result ov p = outcome ov uns (width v) k"
    by (rule checked.strategy_outcome [OF f k ov])
  have "(if uns then IsUIntOverflow tk ek (uint (SInt_UVal v)) (uint (SInt_UVal x)) ov 0
      else IsIntOverflow tk ek (SInt_SVal v) (SInt_SVal x) ov 0) = Some p"
    using p(1) kd f v x IsUIntOverflow_at [of tk "width v"] IsIntOverflow_at [of tk "width v"]
    by (auto simp: kind_matches_def rd_def SVal_sv SInt_UVal_def simp flip: uv_def)
  from checked_value_outcome [OF p(2) this] show ?thesis .
qed

text \<open>The remainder of the least value by \<open>- 1\<close> under the throwing strategy is the pair the
  checker reports without need.\<close>

definition spurious_mod :: "ExprKind \<Rightarrow> bool \<Rightarrow> OverflowStrategy \<Rightarrow> SInt \<Rightarrow> SInt \<Rightarrow> bool" where
  "spurious_mod ek uns ov v x \<longleftrightarrow>
     ek = EK_MOD \<and> \<not> uns \<and> ov = THROWING \<and> sv v = - half (width v) \<and> sv x = - 1"

lemma mod_minus_one:
  assumes kd: "kind_matches tk False (width v)" and v: "SInt_wf v" and x: "SInt_wf x" and w: "width x = width v"
    and e: "sv v = - half (width v)" "sv x = - 1" and ov: "known_strategy ov"
  shows "checked_value (width v) ov (IsIntOverflow tk EK_MOD (SInt_SVal v) (SInt_SVal x) ov 0) =
    (if ov = THROWING then None else value_of False (width v) ov (Some 0))"
proof -
  have f: "fits_int False (width v) (sv v)" "fits_int False (width v) (sv x)" "fits_int False (width v) 0"
    using e half_ge [of "width v"] by (auto simp: fits_int_def fits_s_def)
  then have "IsIntOverflow tk EK_MOD (SInt_SVal v) (SInt_SVal x) ov 0 = Some (True, 0)"
    using kd e IsIntOverflow_at [of tk "width v" "sv v" "sv x"] v x
    by (auto simp: kind_matches_def SVal_sv IsOverflow_def IsOverflowAfterMod_def type_min_def)
  then show ?thesis using f(3) ov by (auto simp: checked_value_def value_of_def outcome_def)
qed

lemma ApplyExactArithmetic_value:
  assumes kd: "kind_matches tk uns (width v)" and v: "SInt_wf v" and x: "SInt_wf x"
    and w: "ek \<noteq> EK_EXP \<Longrightarrow> width x = width v" and ek: "IsBasicArithmeticKind ek" and ov: "known_strategy ov"
  shows "ApplyExactArithmetic ek v x tk ov uns ru =
    (if spurious_mod ek uns ov v x then None else value_of uns (width v) ov (exact_value ek uns ru v x))"
proof (cases "ek = EK_EXP")
  case True
  then show ?thesis using Power_correct [OF v x ov] by (simp add: ApplyExactArithmetic_def spurious_mod_def)
next
  case False
  let ?a = "rd (\<not> uns) v" and ?b = "rd (\<not> uns) x"
  have c: "ApplyExactArithmetic ek v x tk ov uns ru =
      (if (ek = EK_DIV \<or> ek = EK_MOD) \<and> ?b = 0 then None
       else checked_value (width v) ov
         (if uns then IsUIntOverflow tk ek (uint (SInt_UVal v)) (uint (SInt_UVal x)) ov 0
          else IsIntOverflow tk ek (SInt_SVal v) (SInt_SVal x) ov 0))"
    using False v x by (auto simp: ApplyExactArithmetic_def Let_def rd_def SVal_sv SInt_UVal_def simp flip: uv_def)
  consider "(ek = EK_DIV \<or> ek = EK_MOD) \<and> ?b = 0" | "ek = EK_MOD" "\<not> uns" "sv v = - half (width v)" "sv x = - 1"
    | k where "checked_result uns (width v) ek ?a ?b = Some k" "exact_result ek ?a ?b = Some k" "\<not> spurious_mod ek uns ov v x"
        "\<not> ((ek = EK_DIV \<or> ek = EK_MOD) \<and> ?b = 0)"
  proof (cases "(ek = EK_DIV \<or> ek = EK_MOD) \<and> ?b = 0 \<or> ek = EK_MOD \<and> \<not> uns \<and> sv v = - half (width v) \<and> sv x = - 1")
    case True
    then show thesis using that(1,2) by blast
  next
    case n: False
    then have "checked_result uns (width v) ek ?a ?b = exact_result ek ?a ?b"
      using False ek by (auto simp: checked_result_def rd_def type_min_def IsBasicArithmeticKind_def)
    moreover have "\<exists>k. exact_result ek ?a ?b = Some k" using n ek False by (auto simp: IsBasicArithmeticKind_def)
    ultimately show thesis using that(3) n by (auto simp: spurious_mod_def)
  qed
  then show ?thesis
  proof cases
    case 1
    then have "exact_value ek uns ru v x = None" using False by (auto simp: exact_value_def)
    then show ?thesis using 1 c by (simp add: value_of_def)
  next
    case 2
    then have "exact_value ek uns ru v x = Some 0" by (simp add: exact_value_def rd_def signed_modulo_int_def)
    then show ?thesis
      using c 2 mod_minus_one [OF _ v x w [OF False] 2(3,4) ov, of tk] kd by (simp add: rd_def spurious_mod_def)
  next
    case 3
    then show ?thesis using c checker_answer [OF kd v x w [OF False] 3(1) ov] False by (auto simp: exact_value_def)
  qed
qed

lemma ApplyExactNeg_value:
  assumes kd: "kind_matches tk uns (width v)" and v: "SInt_wf v" and ov: "known_strategy ov"
  shows "ApplyExactNeg v tk ov uns = value_of uns (width v) ov (Some (- rd (\<not> uns) v))"
proof -
  let ?z = "SInt_make (width v) 0"
  have z: "rd (\<not> uns) ?z = 0" "SInt_UVal ?z = 0" "SInt_SVal ?z = 0"
    using make_of_int [of "width v" 0] by (simp_all add: rd_def uv_def SInt_UVal_def SVal_sv)
  show ?thesis
    using checker_answer [where v = ?z and x = v and uns = uns and tk = tk and ek = EK_NEG and k = "- rd (\<not> uns) v" and ov = ov] kd v ov
    by (cases uns) (simp_all add: ApplyExactNeg_def checked_result_def z)
qed

lemma outcome_fits: "outcome ov uns w k = Some j \<Longrightarrow> fits_int uns w j"
proof -
  assume o: "outcome ov uns w k = Some j"
  have "fits_int uns w (wrap_int uns w k)"
    using signed_of_bounds [of w k] by (simp add: fits_int_def fits_u_def fits_s_def wrap_int_def)
  moreover have "fits_int uns w (clamp_int uns w k)"
    using type_bounds [of uns w] by (simp add: clamp_int_cases fits_int_iff)
  moreover have "j = k \<and> fits_int uns w k \<or> j = wrap_int uns w k \<or> j = clamp_int uns w k"
    using o by (cases ov) (auto simp: outcome_def split: if_splits)
  ultimately show ?thesis by auto
qed

lemma make_fits_eq:
  assumes "fits_int uns w j" "SInt_wf z" "width z = w"
  shows "j = rd (\<not> uns) z \<longleftrightarrow> SInt_make w (word_of_int j) = z"
proof
  assume "j = rd (\<not> uns) z"
  then show "SInt_make w (word_of_int j) = z" using make_rd [OF assms(2), of uns] assms(3) by simp
next
  assume "SInt_make w (word_of_int j) = z"
  then show "j = rd (\<not> uns) z" using rd_make_wrap [of uns w j] wrap_fits [OF assms(1)] by simp
qed

lemma computes_value:
  assumes "ek \<noteq> EK_EXP"
  shows "computes ek ov uns v x z \<longleftrightarrow>
    SInt_wf z \<and> width z = width v \<and> value_of uns (width v) ov (exact_value ek uns ru v x) = Some z"
proof -
  have e: "exact_value ek uns ru v x = exact_result ek (rd (\<not> uns) v) (rd (\<not> uns) x)"
    using assms by (simp add: exact_value_def)
  show ?thesis
  proof (cases "Option.bind (exact_result ek (rd (\<not> uns) v) (rd (\<not> uns) x)) (outcome ov uns (width v))")
    case None
    then show ?thesis by (simp only: computes_def value_of_def e) simp
  next
    case (Some j)
    then have "fits_int uns (width v) j" using outcome_fits bind_SomeD by metis
    from make_fits_eq [OF this, of z] Some show ?thesis by (simp only: computes_def value_of_def e) auto
  qed
qed

section \<open>All pairs\<close>

lemma all_some_iff: "all_some xs = Some ys \<longleftrightarrow> xs = map Some ys"
proof (induction xs arbitrary: ys rule: all_some.induct)
  case (3 x xs)
  then show ?case by (cases ys) auto
qed auto

lemma length_NormalizeExact: "length (NormalizeExactIntValues vs) \<le> length vs"
proof -
  have "length (std_unique eq xs) \<le> length xs" for eq :: "SInt \<Rightarrow> SInt \<Rightarrow> bool" and xs
    by (induction eq xs rule: std_unique.induct) auto
  from this [of SInt_eq "std_sort exact_lt vs"] show ?thesis by (simp add: NormalizeExactIntValues_def)
qed

lemma NormalizeExactIntSet_set:
  assumes "values_ok w (Some vs)" "NormalizeExactIntSet cfg vs = Some us"
  shows "set us = set vs" "us \<noteq> []" "length us \<le> maxExactIntSetSize cfg" "values_ok w (Some us)"
  using assms NormalizeExactIntValues_set [OF assms(1)]
  by (auto simp: NormalizeExactIntSet_def Let_def ExceedsExactIntSetLimit_def split: if_splits)

text \<open>A range made of exact values within the limit is their set.\<close>

lemma of_exact_models:
  assumes vs: "values_ok w (Some vs)" "vs \<noteq> []" "length vs \<le> maxExactIntSetSize cfg"
  shows "SR_wf (SIntRange_of_exact cfg (DomainFromExactIntValues vs u) (Some vs))"
    "SD_Width (sr_domain (SIntRange_of_exact cfg (DomainFromExactIntValues vs u) (Some vs))) = w"
    "unsignedFlag (sr_domain (SIntRange_of_exact cfg (DomainFromExactIntValues vs u) (Some vs))) = u"
    "SR_models \<sigma> (SIntRange_of_exact cfg (DomainFromExactIntValues vs u) (Some vs)) z \<longleftrightarrow> z \<in> set vs"
proof -
  let ?d = "DomainFromExactIntValues vs u" and ?r = "SIntRange_of_exact cfg (DomainFromExactIntValues vs u) (Some vs)"
  note d = FromExactIntValues_sound [OF vs(2,1)]
  have p: "parts_ok ?d (Some vs) None None" using d vs by (simp add: parts_ok_def)
  show "SR_wf ?r" "SD_Width (sr_domain ?r) = w" "unsignedFlag (sr_domain ?r) = u"
    using SIntRange_make_wf [OF p] d by (simp_all add: SIntRange_of_exact_def)
  have "SR_models \<sigma> ?r z" if "z \<in> set vs"
    unfolding SIntRange_of_exact_def
    by (rule SIntRange_make_sound [OF p]) (use that d in \<open>simp_all add: parts_model_def exact_holds_def ends_inside_def\<close>)
  moreover have "z \<in> set vs" if "SR_models \<sigma> ?r z"
  proof -
    have s: "set (NormalizeExactIntValues vs) = set vs" by (rule NormalizeExactIntValues_set [OF vs(1)])
    then have "NormalizeExactIntSet cfg vs = Some (NormalizeExactIntValues vs)"
      using vs length_NormalizeExact [of vs] by (auto simp: NormalizeExactIntSet_def Let_def ExceedsExactIntSetLimit_def)
    then have "sr_exact ?r = Some (NormalizeExactIntValues vs)"
      by (simp add: SIntRange_of_exact_def SIntRange_make_def Let_def NormalizeKnownBits_def)
    moreover have "NormalizeExactIntValues vs \<noteq> []" using s vs(2) by auto
    ultimately show ?thesis using that s by (simp add: SR_models_def parts_model_def exact_holds_def)
  qed
  ultimately show "SR_models \<sigma> ?r z \<longleftrightarrow> z \<in> set vs" by blast
qed

text \<open>The set of the results of all pairs, made a range.\<close>

lemma all_pairs_models:
  assumes vs: "all_some (map (\<lambda>(l, r). f l r) (List.product ls rs)) = Some vs"
    and us: "NormalizeExactIntSet cfg vs = Some us" and rng: "rng = SIntRange_of_exact cfg (DomainFromExactIntValues us u) (Some us)"
    and ok: "\<forall>v \<in> set ls. \<forall>x \<in> set rs. \<forall>y. f v x = Some y \<longrightarrow> SInt_wf y \<and> width y = w"
  shows "SR_wf rng" "SD_Width (sr_domain rng) = w" "unsignedFlag (sr_domain rng) = u"
    "SR_models \<sigma> rng z \<longleftrightarrow> (\<exists>v \<in> set ls. \<exists>x \<in> set rs. f v x = Some z)"
    "\<forall>v \<in> set ls. \<forall>x \<in> set rs. f v x \<noteq> None"
proof -
  have "set (map (\<lambda>(l, r). f l r) (List.product ls rs)) = set (map Some vs)"
    using vs unfolding all_some_iff by simp
  then have im: "(\<lambda>(l, r). f l r) ` (set ls \<times> set rs) = Some ` set vs" by simp
  have val: "\<exists>y \<in> set vs. f v x = Some y" if "v \<in> set ls" "x \<in> set rs" for v x
  proof -
    have "(\<lambda>(l, r). f l r) (v, x) \<in> (\<lambda>(l, r). f l r) ` (set ls \<times> set rs)" using that by (intro imageI) simp
    then show ?thesis unfolding im by auto
  qed
  show "\<forall>v \<in> set ls. \<forall>x \<in> set rs. f v x \<noteq> None" using val by (intro ballI) fastforce
  have origin: "\<exists>v \<in> set ls. \<exists>x \<in> set rs. f v x = Some y" if "y \<in> set vs" for y
  proof -
    have "Some y \<in> (\<lambda>(l, r). f l r) ` (set ls \<times> set rs)" unfolding im using that by blast
    then obtain v x where "v \<in> set ls" "x \<in> set rs" "Some y = f v x" by auto
    then show ?thesis by (intro bexI [of _ v] bexI [of _ x]) simp_all
  qed
  have set: "z \<in> set vs \<longleftrightarrow> (\<exists>v \<in> set ls. \<exists>x \<in> set rs. f v x = Some z)" for z
  proof
    assume "\<exists>v \<in> set ls. \<exists>x \<in> set rs. f v x = Some z"
    then obtain v x where "v \<in> set ls" "x \<in> set rs" "f v x = Some z" by blast
    then show "z \<in> set vs" using val [of v x] by auto
  qed (rule origin)
  have "SInt_wf y \<and> width y = w" if "y \<in> set vs" for y using origin [OF that] ok by blast
  then have "values_ok w (Some vs)" by simp
  note n = NormalizeExactIntSet_set [OF this us]
  note m = of_exact_models [OF n(4,2,3), where u = u, folded rng]
  show "SR_wf rng" "SD_Width (sr_domain rng) = w" "unsignedFlag (sr_domain rng) = u" using m by simp_all
  show "SR_models \<sigma> rng z \<longleftrightarrow> (\<exists>v \<in> set ls. \<exists>x \<in> set rs. f v x = Some z)" using m(4) n(1) set by simp
qed

lemma value_of_ok: "value_of uns w ov k = Some z \<Longrightarrow> SInt_wf z \<and> width z = w"
  by (auto simp: value_of_def)

lemma TryComputeExactArithmetic_models:
  assumes kd: "kind_matches tk uns w" and l: "values_ok w (Some ls)" and r: "values_ok w' (Some rs)"
    and w: "ek \<noteq> EK_EXP \<Longrightarrow> w' = w" and ov: "known_strategy ov"
    and c: "TryComputeExactArithmeticRange cfg ek (Some tk) (Some rt) ov (Some ls) (Some rs) uns = Some rng"
  shows "SR_wf rng" "SD_Width (sr_domain rng) = w" "unsignedFlag (sr_domain rng) = uns"
    "SR_models \<sigma> rng z \<longleftrightarrow> (\<exists>v \<in> set ls. \<exists>x \<in> set rs. value_of uns w ov (exact_value ek uns (IsUnsignedInteger rt) v x) = Some z)"
proof -
  let ?f = "\<lambda>l r. ApplyExactArithmetic ek l r tk ov uns (IsUnsignedInteger rt)"
  obtain vs us where b: "IsBasicArithmeticKind ek"
    and vs: "all_some (map (\<lambda>(l, r). ?f l r) (List.product ls rs)) = Some vs"
    and us: "NormalizeExactIntSet cfg vs = Some us" and rng: "rng = SIntRange_of_exact cfg (DomainFromExactIntValues us uns) (Some us)"
    using c by (auto simp: TryComputeExactArithmeticRange_def split: if_splits option.splits)
  have e: "?f v x = (if spurious_mod ek uns ov v x then None else value_of uns w ov (exact_value ek uns (IsUnsignedInteger rt) v x))"
    if "v \<in> set ls" "x \<in> set rs" for v x
    using that l r w ApplyExactArithmetic_value [of tk uns v x ek ov "IsUnsignedInteger rt"] kd b ov by auto
  have ok: "\<forall>v \<in> set ls. \<forall>x \<in> set rs. \<forall>y. ?f v x = Some y \<longrightarrow> SInt_wf y \<and> width y = w"
    using e value_of_ok by (auto split: if_splits)
  note m = all_pairs_models [OF vs us rng ok]
  show "SR_wf rng" "SD_Width (sr_domain rng) = w" "unsignedFlag (sr_domain rng) = uns" using m(1-3) .
  have "?f v x = value_of uns w ov (exact_value ek uns (IsUnsignedInteger rt) v x)" if "v \<in> set ls" "x \<in> set rs" for v x
  proof -
    have "?f v x \<noteq> None" using m(5) that by blast
    then show ?thesis using e [OF that] by (simp split: if_splits)
  qed
  then show "SR_models \<sigma> rng z \<longleftrightarrow> (\<exists>v \<in> set ls. \<exists>x \<in> set rs. value_of uns w ov (exact_value ek uns (IsUnsignedInteger rt) v x) = Some z)"
    unfolding m(4) by (intro bex_cong refl) simp
qed

section \<open>Diagnostics\<close>

text \<open>The diagnosing evaluation of two single values raises an error exactly when the divisor is
  zero or the exact evaluation has no value, and otherwise returns that value.\<close>

lemma CheckSingleValueOverflow_evaluates:
  assumes a: "SD_wf a" and b: "SD_wf b" and w: "SD_Width b = SD_Width a"
    and kd: "kind_matches tk uns (SD_Width a)" and ov: "known_strategy ov"
    and ek: "ek \<in> {EK_ADD, EK_SUB, EK_MUL, EK_DIV, EK_MOD}"
  defines "v \<equiv> CR_Lower (SD_NumericBound a)" and "x \<equiv> CR_Lower (SD_NumericBound b)"
  shows "CheckSingleValueOverflow a b tk ov uns ek = Some
     (if (ek = EK_DIV \<or> ek = EK_MOD) \<and> rd (\<not> uns) x = 0 then (SD_Top (SD_Width a) uns, Some DivisorIsZero)
      else case ApplyExactArithmetic ek v x tk ov uns ru of
        None \<Rightarrow> (SD_Top (SD_Width a) uns, Some (ArithmeticOverflow ek (rd (\<not> uns) v) (rd (\<not> uns) x)))
      | Some z \<Rightarrow> (SD_make (CR_single z) uns, None))"
proof -
  have vx: "SInt_wf v" "SInt_wf x" "width v = SD_Width a" "width x = width v"
    using CR_wfD [of "numeric a"] CR_wfD [of "numeric b"] a b w
    by (simp_all add: v_def x_def SD_wf_def SD_NumericBound_def CR_Lower_def SD_Width_def)
  let ?ans = "if uns then IsUIntOverflow tk ek (rd (\<not> uns) v) (rd (\<not> uns) x) ov 0
      else IsIntOverflow tk ek (rd (\<not> uns) v) (rd (\<not> uns) x) ov 0"
  have r: "rd (\<not> uns) v = (if uns then uint (SInt_UVal v) else SInt_SVal v)"
    "rd (\<not> uns) x = (if uns then uint (SInt_UVal x) else SInt_SVal x)"
    using vx by (simp_all add: rd_def SVal_sv SInt_UVal_def uv_def)
  have unf: "CheckSingleValueOverflow a b tk ov uns ek =
     (if rd (\<not> uns) x = 0 \<and> (ek = EK_DIV \<or> ek = EK_MOD) then Some (SD_Top (SD_Width a) uns, Some DivisorIsZero)
      else case ?ans of None \<Rightarrow> None
         | Some (isOv, res) \<Rightarrow>
             if isOv \<and> ov = THROWING
             then Some (SD_Top (SD_Width a) uns, Some (ArithmeticOverflow ek (rd (\<not> uns) v) (rd (\<not> uns) x)))
             else Some (SD_make (CR_single (SInt_make (SD_Width a) (word_of_int res))) uns, None))"
    unfolding CheckSingleValueOverflow_def Let_def CheckDivZero_def v_def [symmetric] x_def [symmetric] r [symmetric] ..
  show ?thesis
  proof (cases "(ek = EK_DIV \<or> ek = EK_MOD) \<and> rd (\<not> uns) x = 0")
    case True
    then show ?thesis using unf by simp
  next
    case nz: False
    have "\<exists>p. ?ans = Some p"
    proof -
      have f: "fits_int uns (width v) (rd (\<not> uns) v)" "fits_int uns (width v) (rd (\<not> uns) x)"
        using rd_fits [OF vx(1)] rd_fits [OF vx(2)] vx(4) by metis+
      have "\<exists>p. IsOverflow uns (width v) (rd (\<not> uns) v) (rd (\<not> uns) x) ek ov = Some p"
        using ek nz by (auto simp: IsOverflow_def IsOverflowAfterDiv_def IsOverflowAfterMod_def Let_def)
      then show ?thesis
        using kd f r IsUIntOverflow_at [of tk "width v"] IsIntOverflow_at [of tk "width v"] vx(3)
        by (auto simp: kind_matches_def)
    qed
    then obtain f res where p: "?ans = Some (f, res)" by (metis surj_pair)
    have c: "ApplyExactArithmetic ek v x tk ov uns ru = checked_value (width v) ov ?ans"
      using ek nz r by (cases uns) (auto simp: ApplyExactArithmetic_def Let_def)
    then show ?thesis unfolding unf using c p nz vx(3) by (auto simp: checked_value_def)
  qed
qed

section \<open>Small ranges\<close>

lemma progression_first:
  fixes k mn r s :: int
  assumes "1 < s" "0 \<le> r" "r < s" "k mod s = r" "mn \<le> k"
  shows "mn + (r - mn mod s + s) mod s \<le> k" "s dvd k - (mn + (r - mn mod s + s) mod s)"
proof -
  have m: "(r - mn mod s + s) mod s = (k - mn) mod s" using assms(4) by (simp add: mod_simps flip: assms(4))
  have e: "k - (mn + (r - mn mod s + s) mod s) = s * ((k - mn) div s)"
    unfolding m using mult_div_mod_eq [of s "k - mn"] by linarith
  then show "s dvd k - (mn + (r - mn mod s + s) mod s)" by simp
  have "0 \<le> s * ((k - mn) div s)" using assms by (simp add: pos_imp_zdiv_nonneg_iff)
  then show "mn + (r - mn mod s + s) mod s \<le> k" using e by linarith
qed

lemma ProgressionValues_sound:
  assumes v: "SInt_wf v" and k: "f \<le> rd (\<not> uns) v" "rd (\<not> uns) v \<le> m" "s dvd rd (\<not> uns) v - f" "0 < s"
    and c: "ProgressionValues cfg (width v) f m s = Some vs"
  shows "v \<in> set vs" "values_ok (width v) (Some vs)"
proof -
  let ?xs = "map (\<lambda>i. SInt_make (width v) (word_of_int (f + int i * s))) [0..<nat ((m - f) div s + 1)]"
  have n: "NormalizeExactIntSet cfg ?xs = Some vs"
    using c by (auto simp: ProgressionValues_def Let_def split: if_splits)
  have ok: "values_ok (width v) (Some ?xs)" by auto
  obtain i where i: "rd (\<not> uns) v = f + s * i" using k(3) by (metis dvdE add_diff_cancel_left' diff_add_cancel add.commute)
  have "0 \<le> s * i" using i k(1) by linarith
  then have i0: "0 \<le> i" using k(4) by (simp add: zero_le_mult_iff)
  have "s * i \<le> m - f" using i k(2) by linarith
  then have "i \<le> (m - f) div s" using k(4) zdiv_mono1 [of "s * i" "m - f" s] by simp
  then have "nat i \<in> set [0..<nat ((m - f) div s + 1)]" using i0 by simp
  moreover have "SInt_make (width v) (word_of_int (f + int (nat i) * s)) = v"
    using make_rd [OF v, of uns] i i0 by (simp add: mult.commute)
  ultimately have "v \<in> set ?xs" by (metis (mono_tags, lifting) image_eqI set_map)
  then show "v \<in> set vs" using NormalizeExactIntSet_set(1) [OF ok n] by simp
  show "values_ok (width v) (Some vs)" using NormalizeExactIntSet_set(4) [OF ok n] .
qed

lemma GetExactValuesOrSmallRange_sound:
  assumes r: "SR_wf r" and m: "SR_models \<sigma> r v" and u: "uns = unsignedFlag (sr_domain r)"
    and g: "GetExactValuesOrSmallRange cfg (Some r) uns = Some vs"
  shows "v \<in> set vs \<and> values_ok (width v) (Some vs)"
proof (cases "sr_exact r")
  case (Some es)
  then have "vs = es" using g by (simp add: GetExactValuesOrSmallRange_def)
  then show ?thesis using Some r m models_width by (auto simp: SR_wf_def SR_models_def parts_model_def exact_holds_def)
next
  case None
  let ?d = "sr_domain r" and ?k = "rd (\<not> uns) v"
  let ?n = "numeric ?d" and ?w = "SD_Width (sr_domain r)"
  define s where "s = (case sr_congruence r of Some c \<Rightarrow> uint (stride c) | None \<Rightarrow> 1)"
  define q where "q = (case sr_congruence r of Some c \<Rightarrow> uint (residue c) | None \<Rightarrow> 0)"
  define mn where "mn = (if uns then uint (SInt_UVal (if CR_IsFullSet ?n then SInt_UMinValue ?w else CR_UMinValue ?n))
    else SInt_SVal (if CR_IsFullSet ?n then SInt_SMinValue ?w else CR_SMinValue ?n))"
  define mx where "mx = (if uns then uint (SInt_UVal (if CR_IsFullSet ?n then SInt_UMaxValue ?w else CR_UMaxValue ?n))
    else SInt_SVal (if CR_IsFullSet ?n then SInt_SMaxValue ?w else CR_SMaxValue ?n))"
  define f where "f = (if s > 1 then mn + (q - mn mod s + s) mod s else mn)"
  have p: "ProgressionValues cfg ?w f mx s = Some vs"
    using g None by (simp add: GetExactValuesOrSmallRange_def Let_def s_def q_def mn_def mx_def f_def
        SD_NumericBound_def split: if_splits)
  have v: "SInt_wf v" "width v = ?w" "v \<in> CR_gamma ?n" and cg: "cong_holds (sr_congruence r) ?k"
    and wf: "CR_wf ?n" "cong_wf (sr_congruence r)"
    using r m u by (auto simp: SR_wf_def SR_models_def parts_model_def SD_models_iff SD_wf_def gamma_wf gamma_width SD_Width_def)
  have b: "mn \<le> ?k" "?k \<le> mx"
    using UMaxMin_bounds [OF wf(1) v(3)] SMaxMin_bounds [OF wf(1) v(3)] minmax_simps [OF wf(1)] rd_bounds [OF v(1), of "\<not> uns"] v(2)
      UMaxValue_simps UMinValue_simps
    by (auto simp: mn_def mx_def rd_def SVal_sv SInt_UVal_def simp flip: uv_def)
  have s: "0 < s" using wf(2) by (cases "sr_congruence r") (auto simp: s_def)
  have fk: "f \<le> ?k \<and> s dvd ?k - f"
  proof (cases "s > 1")
    case True
    then obtain c where c: "sr_congruence r = Some c" by (cases "sr_congruence r") (auto simp: s_def)
    then have "0 \<le> q" "q < s" "?k mod s = q" using wf(2) cg cong_holds_Some [of c ?k] by (auto simp: s_def q_def)
    from progression_first [OF True this b(1)] show ?thesis using True by (simp add: f_def)
  next
    case False
    then have "s = 1" using s by simp
    then show ?thesis using b by (simp add: f_def)
  qed
  show ?thesis using ProgressionValues_sound [OF v(1) _ b(2) _ s] fk p v(2) by metis
qed

end
