(* ===== verification/Bitwise_Transfer.thy ===== *)
theory Bitwise_Transfer
  imports Exact_Arith
begin

unbundle bit_operations_syntax

text \<open>
  Negation, complement, shifts and bitwise operators on ranges (\<^verbatim>\<open>RangeFromMinMax\<close> to
  \<^verbatim>\<open>ComputeBitNotSIntRange\<close> and \<^verbatim>\<open>TryComputeExactBitwiseRange\<close> of
  \<^verbatim>\<open>ValueRangeAnalysis.cpp\<close>): an interval where one is known, and the known bits of the
  result. A shift by less than the width is always defined, so its value is taken with
  \<^const>\<open>the\<close>; the two operands being the same value of the program is a boolean.
\<close>

definition IsBitwiseBinaryExpr :: "ExprKind \<Rightarrow> bool" where
  "IsBitwiseBinaryExpr exprKind \<longleftrightarrow> exprKind = EK_BITAND \<or> exprKind = EK_BITOR \<or> exprKind = EK_BITXOR"

definition IsShiftBinaryExpr :: "ExprKind \<Rightarrow> bool" where
  "IsShiftBinaryExpr exprKind \<longleftrightarrow> exprKind = EK_LSHIFT \<or> exprKind = EK_RSHIFT"

definition RangeFromMinMax :: "SInt \<Rightarrow> SInt \<Rightarrow> bool \<Rightarrow> ConstantRange" where
  "RangeFromMinMax mn mx isUnsigned =
     CR_IntersectWith (CR_From GE mn (\<not> isUnsigned)) (CR_From LE mx (\<not> isUnsigned)) (PreferFromBool isUnsigned)"

section \<open>Negation and complement\<close>

definition ComputeNegRange :: "SIntDomain \<Rightarrow> TypeKind \<Rightarrow> OverflowStrategy \<Rightarrow> SIntDomain" where
  "ComputeNegRange operand type ov =
     (let w = SD_ToWidth type; isUnsigned = IsUnsignedInteger type
      in if SD_IsBottom operand then SD_Bottom w isUnsigned
         else if SD_IsSingleValue operand then
           (let v = CR_GetSingleElement (SD_NumericBound operand)
            in case checked_value w ov
                   (if isUnsigned then IsUIntOverflow type EK_NEG 0 (uint (SInt_UVal v)) ov 0
                    else IsIntOverflow type EK_NEG 0 (SInt_SVal v) ov 0) of
                 None \<Rightarrow> SD_Top w isUnsigned
               | Some res \<Rightarrow> SD_make (CR_single res) isUnsigned)
         else if ov = SATURATING \<or> ov = CHECKED then SD_Top w isUnsigned
         else SD_make (CR_Negate (SD_NumericBound operand)) isUnsigned)"

definition ComputeBitNotRange :: "SIntDomain \<Rightarrow> bool \<Rightarrow> SIntDomain" where
  "ComputeBitNotRange operand isUnsigned =
     (let w = SD_Width operand
      in if SD_IsBottom operand then SD_Bottom w isUnsigned
         else SD_make (CR_Subtract (CR_Negate (SD_NumericBound operand)) (SInt_make w 1)) isUnsigned)"

section \<open>Exact values\<close>

definition GetShiftAmount :: "SInt \<Rightarrow> bool \<Rightarrow> IntWidth \<Rightarrow> nat option" where
  "GetShiftAmount v isUnsigned lhsWidth =
     (if \<not> isUnsigned \<and> SInt_Slt_i v 0 then None
      else
        let amount = unat (SInt_UVal v)
        in if amount \<ge> bw lhsWidth then None else Some amount)"

definition GetShiftAmount_range :: "SIntDomain \<Rightarrow> bool \<Rightarrow> IntWidth \<Rightarrow> nat option" where
  "GetShiftAmount_range rng isUnsigned lhsWidth =
     (if \<not> SD_IsSingleValue rng then None
      else GetShiftAmount (CR_GetSingleElement (SD_NumericBound rng)) isUnsigned lhsWidth)"

definition ApplyExactShift :: "ExprKind \<Rightarrow> SInt \<Rightarrow> SInt \<Rightarrow> bool \<Rightarrow> bool \<Rightarrow> SInt option" where
  "ApplyExactShift exprKind lhs rhs rhsUnsigned destUnsigned =
     (case GetShiftAmount rhs rhsUnsigned (width lhs) of
        None \<Rightarrow> None
      | Some amount \<Rightarrow>
          Some (if exprKind = EK_LSHIFT then the (SInt_Shl lhs amount)
                else if destUnsigned then the (SInt_LShr lhs amount)
                else the (SInt_AShr lhs amount)))"

definition ApplyExactBitwise :: "ExprKind \<Rightarrow> SInt \<Rightarrow> SInt \<Rightarrow> bool \<Rightarrow> SInt" where
  "ApplyExactBitwise exprKind lhs rhs isUnsigned =
     (case exprKind of
        EK_BITAND \<Rightarrow> SInt_and lhs rhs
      | EK_BITOR \<Rightarrow> SInt_or lhs rhs
      | EK_BITXOR \<Rightarrow> SInt_xor lhs rhs
      | EK_LSHIFT \<Rightarrow> the (SInt_Shl_s lhs rhs)
      | EK_RSHIFT \<Rightarrow> (if isUnsigned then the (SInt_LShr_s lhs rhs) else the (SInt_Ashr_s lhs rhs))
      | _ \<Rightarrow> lhs)"

definition TryComputeExactBitwiseRange ::
  "RangeAnalysisConfig \<Rightarrow> ExprKind \<Rightarrow> SInt list option \<Rightarrow> SInt list option \<Rightarrow> bool \<Rightarrow> bool \<Rightarrow> SIntRange option" where
  "TryComputeExactBitwiseRange cfg exprKind lhsValues rhsValues rhsUnsigned destUnsigned =
     (case (lhsValues, rhsValues) of
        (Some ls, Some rs) \<Rightarrow>
          if \<not> IsBitwiseBinaryExpr exprKind \<and> \<not> IsShiftBinaryExpr exprKind then None
          else if ExceedsExactIntSetProduct cfg (length ls) (length rs) then None
          else
            (case all_some (map (\<lambda>(l, r).
                     if IsShiftBinaryExpr exprKind then ApplyExactShift exprKind l r rhsUnsigned destUnsigned
                     else Some (ApplyExactBitwise exprKind l r destUnsigned)) (List.product ls rs)) of
               None \<Rightarrow> None
             | Some vs \<Rightarrow>
                 (case NormalizeExactIntSet cfg vs of
                    None \<Rightarrow> None
                  | Some exactValues \<Rightarrow>
                      Some (SIntRange_of_exact cfg (DomainFromExactIntValues exactValues destUnsigned) (Some exactValues))))
      | _ \<Rightarrow> None)"

section \<open>Intervals\<close>

definition TryComputeShiftRange ::
  "ExprKind \<Rightarrow> SIntDomain \<Rightarrow> SIntDomain \<Rightarrow> bool \<Rightarrow> bool \<Rightarrow> SIntDomain option" where
  "TryComputeShiftRange exprKind lhs rhs rhsUnsigned destUnsigned =
     (let w = SD_Width lhs
      in case GetShiftAmount_range rhs rhsUnsigned w of
           None \<Rightarrow> Some (SD_Top w destUnsigned)
         | Some amount \<Rightarrow>
             if SD_IsBottom lhs then Some (SD_Bottom w destUnsigned)
             else if SD_IsSingleValue lhs then
               Some (SD_make (CR_single (ApplyExactBitwise exprKind (CR_GetSingleElement (SD_NumericBound lhs))
                       (CR_GetSingleElement (SD_NumericBound rhs)) destUnsigned)) destUnsigned)
             else if amount = 0 then Some (SD_make (SD_NumericBound lhs) destUnsigned)
             else
               let r = SD_NumericBound lhs
               in if exprKind = EK_LSHIFT then
                    (if destUnsigned then
                       (if CR_IsWrappedSet r then None
                        else
                          let mn = CR_UMinValue r; mx = CR_UMaxValue r;
                              maxBeforeShift = the (SInt_LShr (SInt_UMaxValue w) amount)
                          in if SInt_Ugt mx maxBeforeShift then None
                             else Some (SD_make (RangeFromMinMax (the (SInt_Shl mn amount)) (the (SInt_Shl mx amount)) True) True))
                     else if CR_IsSignWrappedSet r then None
                     else
                       let mn = CR_SMinValue r; mx = CR_SMaxValue r;
                           maxBeforeShift = the (SInt_LShr (SInt_SMaxValue w) amount)
                       in if SInt_Slt_i mn 0 \<or> SInt_Sgt mx maxBeforeShift then None
                          else Some (SD_make (RangeFromMinMax (the (SInt_Shl mn amount)) (the (SInt_Shl mx amount)) False) False))
                  else if destUnsigned then
                    (if CR_IsWrappedSet r then None
                     else Some (SD_make (RangeFromMinMax (the (SInt_LShr (CR_UMinValue r) amount))
                                  (the (SInt_LShr (CR_UMaxValue r) amount)) True) True))
                  else if CR_IsSignWrappedSet r then None
                  else Some (SD_make (RangeFromMinMax (the (SInt_AShr (CR_SMinValue r) amount))
                               (the (SInt_AShr (CR_SMaxValue r) amount)) False) False))"

definition TryComputeBitAndWithMask :: "SIntDomain \<Rightarrow> SInt \<Rightarrow> bool \<Rightarrow> SIntDomain option" where
  "TryComputeBitAndWithMask v msk destUnsigned =
     (let w = SD_Width v
      in if SInt_IsZero msk then Some (SD_make (CR_single (SInt_Zero w)) destUnsigned)
         else if SInt_IsAllOnes msk then Some (SD_make (SD_NumericBound v) destUnsigned)
         else if destUnsigned \<or> \<not> SInt_IsSignBitSet msk
         then Some (SD_make (RangeFromMinMax (SInt_Zero w) msk destUnsigned) destUnsigned)
         else None)"

definition TryComputeBitOrWithMask :: "SIntDomain \<Rightarrow> SInt \<Rightarrow> bool \<Rightarrow> SIntDomain option" where
  "TryComputeBitOrWithMask v msk destUnsigned =
     (let w = SD_Width v; r = SD_NumericBound v
      in if SInt_IsZero msk then Some (SD_make r destUnsigned)
         else if destUnsigned then Some (SD_make (RangeFromMinMax msk (SInt_UMaxValue w) True) True)
         else if SInt_IsSignBitSet msk then Some (SD_make (RangeFromMinMax msk (SInt_AllOnes w) False) False)
         else if \<not> CR_IsSignWrappedSet r \<and> SInt_Sge_i (CR_SMinValue r) 0
         then Some (SD_make (RangeFromMinMax msk (SInt_SMaxValue w) False) False)
         else None)"

definition TryComputeBitwiseRange ::
  "ExprKind \<Rightarrow> SIntDomain \<Rightarrow> SIntDomain \<Rightarrow> bool \<Rightarrow> bool \<Rightarrow> bool \<Rightarrow> SIntDomain option" where
  "TryComputeBitwiseRange exprKind lhs rhs sameValue rhsUnsigned destUnsigned =
     (let w = SD_Width lhs; l = CR_GetSingleElement (SD_NumericBound lhs); r = CR_GetSingleElement (SD_NumericBound rhs)
      in if SD_IsBottom lhs \<or> SD_IsBottom rhs then Some (SD_Bottom w destUnsigned)
         else if IsShiftBinaryExpr exprKind then TryComputeShiftRange exprKind lhs rhs rhsUnsigned destUnsigned
         else if SD_IsSingleValue lhs \<and> SD_IsSingleValue rhs
         then Some (SD_make (CR_single (ApplyExactBitwise exprKind l r destUnsigned)) destUnsigned)
         else if sameValue then
           (if exprKind = EK_BITXOR then Some (SD_make (CR_single (SInt_Zero w)) destUnsigned)
            else Some (SD_make (SD_NumericBound lhs) destUnsigned))
         else if SD_IsSingleValue rhs \<and> exprKind = EK_BITAND then TryComputeBitAndWithMask lhs r destUnsigned
         else if SD_IsSingleValue rhs \<and> exprKind = EK_BITOR then TryComputeBitOrWithMask lhs r destUnsigned
         else if SD_IsSingleValue rhs \<and> exprKind = EK_BITXOR \<and> SInt_IsZero r
         then Some (SD_make (SD_NumericBound lhs) destUnsigned)
         else if SD_IsSingleValue lhs \<and> exprKind = EK_BITAND then TryComputeBitAndWithMask rhs l destUnsigned
         else if SD_IsSingleValue lhs \<and> exprKind = EK_BITOR then TryComputeBitOrWithMask rhs l destUnsigned
         else if SD_IsSingleValue lhs \<and> exprKind = EK_BITXOR \<and> SInt_IsZero l
         then Some (SD_make (SD_NumericBound rhs) destUnsigned)
         else None)"

section \<open>Known bits\<close>

definition GetTransferKnownBits :: "SIntRange option \<Rightarrow> SIntDomain \<Rightarrow> SIntKnownBits option" where
  "GetTransferKnownBits rng d =
     (case rng of
        Some r \<Rightarrow> GetEffectiveKnownBits d (sr_exact r) (sr_congruence r) (sr_bits r)
      | None \<Rightarrow> InferKnownBitsFromInterval d)"

definition ShiftedKnownBits :: "ExprKind \<Rightarrow> SIntKnownBits \<Rightarrow> nat \<Rightarrow> IntWidth \<Rightarrow> bool \<Rightarrow> SIntKnownBits option" where
  "ShiftedKnownBits exprKind lhsBits amount w destUnsigned =
     (let msk = GetSIntWidthMask w
      in if amount = 0 then NormalizeKnownBits (Some lhsBits) w
         else if exprKind = EK_LSHIFT then
           (let lowZeros = push_bit amount 1 - 1
            in NormalizeKnownBits
                 (Some (KB_make ((push_bit amount (knownZero lhsBits) OR lowZeros) AND msk)
                          (push_bit amount (knownOne lhsBits) AND msk))) w)
         else
           let remaining = bw w - amount;
               retainedMask = (if remaining = 64 then - 1 else push_bit remaining 1 - 1);
               highMask = msk AND NOT retainedMask;
               kz = drop_bit amount (knownZero lhsBits); ko = drop_bit amount (knownOne lhsBits);
               signBit = push_bit (bw w - 1) 1
           in NormalizeKnownBits
                (Some (if destUnsigned then KB_make (kz OR highMask) ko
                       else if knownZero lhsBits AND signBit \<noteq> 0 then KB_make (kz OR highMask) ko
                       else if knownOne lhsBits AND signBit \<noteq> 0 then KB_make kz (ko OR highMask)
                       else KB_make kz ko)) w)"

definition ComputeBitwiseKnownBits ::
  "ExprKind \<Rightarrow> SIntRange option \<Rightarrow> SIntRange option \<Rightarrow> SIntDomain \<Rightarrow> SIntDomain \<Rightarrow> bool \<Rightarrow> bool \<Rightarrow>
   SIntKnownBits option" where
  "ComputeBitwiseKnownBits exprKind lhsRange rhsRange lhs rhs rhsUnsigned destUnsigned =
     (let w = SD_Width lhs;
          lb = (case GetTransferKnownBits lhsRange lhs of None \<Rightarrow> KB_make 0 0 | Some b \<Rightarrow> b);
          rb = (case GetTransferKnownBits rhsRange rhs of None \<Rightarrow> KB_make 0 0 | Some b \<Rightarrow> b)
      in case exprKind of
           EK_BITAND \<Rightarrow> NormalizeKnownBits
             (Some (KB_make (knownZero lb OR knownZero rb) (knownOne lb AND knownOne rb))) w
         | EK_BITOR \<Rightarrow> NormalizeKnownBits
             (Some (KB_make (knownZero lb AND knownZero rb) (knownOne lb OR knownOne rb))) w
         | EK_BITXOR \<Rightarrow> NormalizeKnownBits
             (Some (KB_make ((knownZero lb AND knownZero rb) OR (knownOne lb AND knownOne rb))
                      ((knownZero lb AND knownOne rb) OR (knownOne lb AND knownZero rb)))) w
         | EK_LSHIFT \<Rightarrow> (case GetShiftAmount_range rhs rhsUnsigned w of None \<Rightarrow> None
             | Some amount \<Rightarrow> ShiftedKnownBits EK_LSHIFT lb amount w destUnsigned)
         | EK_RSHIFT \<Rightarrow> (case GetShiftAmount_range rhs rhsUnsigned w of None \<Rightarrow> None
             | Some amount \<Rightarrow> ShiftedKnownBits EK_RSHIFT lb amount w destUnsigned)
         | _ \<Rightarrow> None)"

definition TryComputeAbstractBitwiseRange ::
  "RangeAnalysisConfig \<Rightarrow> ExprKind \<Rightarrow> SIntRange option \<Rightarrow> SIntRange option \<Rightarrow> SIntDomain \<Rightarrow> SIntDomain \<Rightarrow>
   bool \<Rightarrow> bool \<Rightarrow> bool \<Rightarrow> SIntRange option" where
  "TryComputeAbstractBitwiseRange cfg exprKind lhsRange rhsRange lhs rhs sameValue rhsUnsigned destUnsigned =
     (let interval = TryComputeBitwiseRange exprKind lhs rhs sameValue rhsUnsigned destUnsigned;
          knownBits = ComputeBitwiseKnownBits exprKind lhsRange rhsRange lhs rhs rhsUnsigned destUnsigned
      in if knownBits = None then
           (case interval of None \<Rightarrow> None
            | Some i \<Rightarrow> if \<not> SD_IsNonTrivial i then None else Some (SIntRange_of_domain cfg i))
         else
           let bitsDomain = DomainFromKnownBits knownBits (SD_Width lhs) destUnsigned;
               d = (case interval of Some i \<Rightarrow> SD_Intersect i bitsDomain | None \<Rightarrow> bitsDomain)
           in Some (SIntRange_of_bits cfg d None None knownBits))"

definition ComputeBitNotSIntRange :: "RangeAnalysisConfig \<Rightarrow> SIntRange option \<Rightarrow> SIntDomain \<Rightarrow> bool \<Rightarrow> SIntRange" where
  "ComputeBitNotSIntRange cfg operandRange operand destUnsigned =
     (let d = ComputeBitNotRange operand destUnsigned
      in case GetTransferKnownBits operandRange operand of
           None \<Rightarrow> SIntRange_of_domain cfg d
         | Some sourceBits \<Rightarrow>
             let knownBits = NormalizeKnownBits (Some (KB_make (knownOne sourceBits) (knownZero sourceBits))) (SD_Width operand)
             in SIntRange_of_bits cfg d None None knownBits)"

section \<open>Bits of signed integers\<close>

lemma signed_of_take_bit: "signed_of w k = signed_take_bit (bw w - 1) k"
proof -
  have "signed_take_bit (bw w - 1) k = take_bit (Suc (bw w - 1)) (k + 2 ^ (bw w - 1)) - 2 ^ (bw w - 1)"
    by (rule signed_take_bit_eq_take_bit_shift)
  also have "\<dots> = (k + half w) mod modulus w - half w"
    using bw_bounds [of w] by (simp add: take_bit_eq_mod half_def modulus_def)
  also have "\<dots> = signed_of w k"
  proof -
    let ?r = "k mod modulus w"
    have "(k + half w) mod modulus w = (?r + half w) mod modulus w" by (simp add: mod_simps)
    also have "\<dots> = (if ?r < half w then ?r + half w else ?r - half w)"
    proof -
      have "0 \<le> ?r + half w" "?r + half w < 2 * modulus w" "?r < half w \<longleftrightarrow> ?r + half w < modulus w"
        using mod_in_range [of "modulus w" k] half_pos [of w] unfolding modulus_half [of w] by linarith+
      from mod_once_up [OF this(1,2)] this(3) show ?thesis by (simp add: modulus_half)
    qed
    finally show ?thesis by (simp add: signed_of_def Let_def modulus_half)
  qed
  finally show ?thesis ..
qed

lemma rd_wrap_uv: "SInt_wf v \<Longrightarrow> rd (\<not> uns) v = wrap_int uns (width v) (uv v)"
  using sv_signed_of [of v "uv v"] uv_mod_self [of v] by (auto simp: rd_def wrap_int_def)

lemma signed_take_bit_bits:
  fixes k l :: int
  shows "signed_take_bit n (k AND l) = (signed_take_bit n k AND signed_take_bit n l)"
    "signed_take_bit n (k OR l) = (signed_take_bit n k OR signed_take_bit n l)"
    "signed_take_bit n (k XOR l) = (signed_take_bit n k XOR signed_take_bit n l)"
  by (rule bit_eqI; simp add: bit_signed_take_bit_iff bit_and_iff bit_or_iff bit_xor_iff)+

lemma wrap_int_bits:
  "wrap_int uns w (k AND l) = (wrap_int uns w k AND wrap_int uns w l)"
  "wrap_int uns w (k OR l) = (wrap_int uns w k OR wrap_int uns w l)"
  "wrap_int uns w (k XOR l) = (wrap_int uns w k XOR wrap_int uns w l)"
  by (simp_all add: wrap_int_def signed_of_take_bit modulus_def signed_take_bit_bits
      flip: take_bit_eq_mod)

lemma and_or_xor_wf:
  assumes "SInt_wf v" "SInt_wf x" "width x = width v"
  shows "SInt_wf (SInt_and v x)" "SInt_wf (SInt_or v x)" "SInt_wf (SInt_xor v x)"
proof -
  have "take_bit (bw (width v)) (uv v) = uv v" "take_bit (bw (width v)) (uv x) = uv x"
    using uv_mod_self [OF assms(1)] uv_mod_self [OF assms(2)] assms(3) by (simp_all add: take_bit_eq_mod modulus_def)
  then have "take_bit (bw (width v)) (uv v AND uv x) = uv v AND uv x" "take_bit (bw (width v)) (uv v OR uv x) = uv v OR uv x"
    "take_bit (bw (width v)) (uv v XOR uv x) = uv v XOR uv x" by simp_all
  then have "uv v AND uv x < modulus (width v)" "uv v OR uv x < modulus (width v)" "uv v XOR uv x < modulus (width v)"
    unfolding modulus_def by (metis take_bit_int_less_exp)+
  then show "SInt_wf (SInt_and v x)" "SInt_wf (SInt_or v x)" "SInt_wf (SInt_xor v x)"
    by (simp_all add: SInt_wf_def SInt_and_def SInt_or_def SInt_xor_def SInt_and_u_def SInt_or_u_def SInt_xor_u_def uv_def
        unsigned_and_eq unsigned_or_eq unsigned_xor_eq)
qed

lemma and_or_xor_rd:
  assumes "SInt_wf v" "SInt_wf x" "width x = width v"
  shows "rd (\<not> uns) (SInt_and v x) = (rd (\<not> uns) v AND rd (\<not> uns) x)"
    "rd (\<not> uns) (SInt_or v x) = (rd (\<not> uns) v OR rd (\<not> uns) x)"
    "rd (\<not> uns) (SInt_xor v x) = (rd (\<not> uns) v XOR rd (\<not> uns) x)"
  using and_or_xor_wf [OF assms] assms
  by (simp_all add: rd_wrap_uv wrap_int_bits [symmetric] SInt_and_def SInt_or_def SInt_xor_def SInt_and_u_def SInt_or_u_def
      SInt_xor_u_def uv_def unsigned_and_eq unsigned_or_eq unsigned_xor_eq)

section \<open>Shifts\<close>

lemma Shl_facts:
  assumes "n < bw (width v)"
  obtains z where "SInt_Shl v n = Some z" "SInt_wf z" "width z = width v" "uv z = (uv v * 2 ^ n) mod modulus (width v)"
proof -
  have n: "n \<noteq> bw (width v)" "\<not> 64 \<le> n" using assms bw_bounds [of "width v"] by auto
  have "uint (push_bit n (val v)) mod modulus (width v) = (uv v * 2 ^ n) mod modulus (width v)"
    using mod64_mod [of "uv v * 2 ^ n" "width v"] by (simp add: uint_push_bit64 uv_def)
  then show thesis using that n by (simp add: SInt_Shl_def SInt_shl_assign_def ClearUnusedBits_uv) (simp add: uv_def)
qed

lemma LShr_facts:
  assumes v: "SInt_wf v" and n: "n < bw (width v)"
  obtains z where "SInt_LShr v n = Some z" "SInt_wf z" "width z = width v" "uv z = uv v div 2 ^ n"
proof -
  have c: "n \<noteq> bw (width v)" "\<not> 64 \<le> n" using n bw_bounds [of "width v"] by auto
  let ?z = "v\<lparr>val := drop_bit n (val v)\<rparr>"
  have u: "uv ?z = uv v div 2 ^ n" by (simp add: uv_def flip: uint_drop_bit64)
  have "uv v div 2 ^ n \<le> uv v" using zdiv_mono2 [of "uv v" 1 "2 ^ n"] uv_nonneg [of v] by simp
  then have "SInt_wf ?z" using v u by (simp add: SInt_wf_def)
  then show thesis using that [of ?z] c u by (simp add: SInt_LShr_def)
qed

lemma shift_bounds:
  fixes h k :: int
  assumes "0 < h" "- h \<le> k" "k < h"
  shows "- h \<le> k div 2 ^ n" "k div 2 ^ n < h"
proof -
  have "h \<le> h * 2 ^ n" "h - 1 \<le> (h - 1) * 2 ^ n"
    using assms(1) mult_left_mono [of 1 "2 ^ n" h] mult_left_mono [of 1 "2 ^ n" "h - 1"] by simp_all
  then have a: "(- h) * 2 ^ n \<le> k" "k \<le> (h - 1) * 2 ^ n" using assms(2,3) by (simp_all only: mult_minus_left)
  show "- h \<le> k div 2 ^ n" using zdiv_mono1 [OF a(1), of "2 ^ n"] by (simp only: nonzero_mult_div_cancel_right) simp
  show "k div 2 ^ n < h" using zdiv_mono1 [OF a(2), of "2 ^ n"] by (simp only: nonzero_mult_div_cancel_right) simp
qed

lemma AShr_facts:
  assumes v: "SInt_wf v" and n: "n < bw (width v)"
  obtains z where "SInt_AShr v n = Some z" "SInt_wf z" "width z = width v" "sv z = sv v div 2 ^ n"
proof -
  have c: "n \<noteq> bw (width v)" "\<not> 64 \<le> n" using n bw_bounds [of "width v"] by auto
  let ?s = "signed_drop_bit n (SignExtend64 (val v) (bw (width v)))"
  let ?z = "SInt_ClearUnusedBits (v\<lparr>val := ?s\<rparr>)"
  have s: "sint ?s = sv v div 2 ^ n"
    using SVal_sv [OF v] by (simp add: SInt_SVal_def sint_signed_drop_bit_eq drop_bit_eq_div)
  have "uint ?s mod modulus (width v) = sint ?s mod modulus (width v)"
    using modulus_dvd_64 [of "width v"] by (auto simp: sint64_uint mod_eq_dvd_iff)
  then have "uv ?z = (sv v div 2 ^ n) mod modulus (width ?z)"
    by (simp add: ClearUnusedBits_uv s) (simp add: uv_def s)
  then have "sv ?z = signed_of (width v) (sv v div 2 ^ n)" using sv_signed_of by simp
  moreover have "- half (width v) \<le> sv v div 2 ^ n" "sv v div 2 ^ n < half (width v)"
    using shift_bounds [of "half (width v)" "sv v" n] sv_lo [of v] sv_hi [OF v] by simp_all
  ultimately have "sv ?z = sv v div 2 ^ n" by (simp add: signed_of_id)
  then show thesis using that [of ?z] c by (simp add: SInt_AShr_def Let_def)
qed

section \<open>The exact operators\<close>

text \<open>What the operators mean on integers, in either reading. A shift by a negative count or by
  the whole width has no value.\<close>

definition bit_result :: "ExprKind \<Rightarrow> bool \<Rightarrow> IntWidth \<Rightarrow> int \<Rightarrow> int \<Rightarrow> int option" where
  "bit_result ek uns w p q =
     (case ek of
        EK_BITAND \<Rightarrow> Some (p AND q)
      | EK_BITOR \<Rightarrow> Some (p OR q)
      | EK_BITXOR \<Rightarrow> Some (p XOR q)
      | EK_LSHIFT \<Rightarrow> (if 0 \<le> q \<and> q < int (bw w) then Some (wrap_int uns w (p * 2 ^ nat q)) else None)
      | EK_RSHIFT \<Rightarrow> (if 0 \<le> q \<and> q < int (bw w) then Some (p div 2 ^ nat q) else None)
      | _ \<Rightarrow> None)"

text \<open>\<open>z\<close> is the value of the operator; a shift count is read in its own type.\<close>

definition bit_computes :: "ExprKind \<Rightarrow> bool \<Rightarrow> bool \<Rightarrow> SInt \<Rightarrow> SInt \<Rightarrow> SInt \<Rightarrow> bool" where
  "bit_computes ek uns ru v x z \<longleftrightarrow> SInt_wf z \<and> width z = width v \<and>
     bit_result ek uns (width v) (rd (\<not> uns) v) (rd (\<not> (if IsShiftBinaryExpr ek then ru else uns)) x) =
       Some (rd (\<not> uns) z)"

lemma bit_computes_unique: "bit_computes ek uns ru v x z \<Longrightarrow> bit_computes ek uns ru v x y \<Longrightarrow> y = z"
  by (rule rd_inj [where s = "\<not> uns"]) (auto simp: bit_computes_def)

lemma GetShiftAmount_iff:
  assumes "SInt_wf x"
  shows "GetShiftAmount x ru w = (if 0 \<le> rd (\<not> ru) x \<and> rd (\<not> ru) x < int (bw w) then Some (nat (rd (\<not> ru) x)) else None)"
proof (cases "rd (\<not> ru) x < 0")
  case True
  then have "\<not> ru \<and> SInt_Slt_i x 0" using assms uv_nonneg [of x] by (cases ru) (auto simp: rd_def Slt_i_zero)
  then show ?thesis using True by (simp add: GetShiftAmount_def)
next
  case False
  then have "\<not> (\<not> ru \<and> SInt_Slt_i x 0)" using assms by (auto simp: rd_def Slt_i_zero)
  then show ?thesis using False exponent_nat [OF assms False] by (auto simp: GetShiftAmount_def Let_def)
qed

lemma Shl_computes:
  assumes v: "SInt_wf v" and n: "n < bw (width v)"
  shows "SInt_wf (the (SInt_Shl v n)) \<and> width (the (SInt_Shl v n)) = width v \<and>
    rd (\<not> uns) (the (SInt_Shl v n)) = wrap_int uns (width v) (rd (\<not> uns) v * 2 ^ n)"
proof (rule Shl_facts [OF n])
  fix z assume z: "SInt_Shl v n = Some z" "SInt_wf z" "width z = width v" "uv z = (uv v * 2 ^ n) mod modulus (width v)"
  have "uv z mod modulus (width v) = (rd (\<not> uns) v * 2 ^ n) mod modulus (width v)"
    using z(4) rd_wrap_uv [OF v, of uns] wrap_mod [of uns "width v" "uv v"] by (simp add: mod_simps) (metis mod_mult_left_eq)
  then have "wrap_int uns (width v) (uv z) = wrap_int uns (width v) (rd (\<not> uns) v * 2 ^ n)" by (rule wrap_cong)
  then show ?thesis using z rd_wrap_uv [OF z(2), of uns] by simp
qed

lemma Shr_computes:
  fixes uns :: bool
  assumes v: "SInt_wf v" and n: "n < bw (width v)"
  defines "z \<equiv> (if uns then the (SInt_LShr v n) else the (SInt_AShr v n))"
  shows "SInt_wf z \<and> width z = width v \<and> rd (\<not> uns) z = rd (\<not> uns) v div 2 ^ n"
proof (cases uns)
  case True
  show ?thesis by (rule LShr_facts [OF v n]) (use True in \<open>simp add: z_def rd_def\<close>)
next
  case False
  show ?thesis by (rule AShr_facts [OF v n]) (use False in \<open>simp add: z_def rd_def\<close>)
qed

lemma shifted_computes:
  assumes v: "SInt_wf v" and n: "n < bw (width v)"
    and y: "y = (if ek = EK_LSHIFT then the (SInt_Shl v n) else if uns then the (SInt_LShr v n) else the (SInt_AShr v n))"
  shows "SInt_wf y \<and> width y = width v \<and>
    rd (\<not> uns) y = (if ek = EK_LSHIFT then wrap_int uns (width v) (rd (\<not> uns) v * 2 ^ n) else rd (\<not> uns) v div 2 ^ n)"
proof (cases "ek = EK_LSHIFT")
  case True
  then show ?thesis using Shl_computes [OF v n, of uns] y by (simp only: if_True simp_thms)
next
  case False
  then show ?thesis using Shr_computes [OF v n, of uns] y by (simp only: if_False simp_thms)
qed

lemma ApplyExactShift_computes:
  assumes v: "SInt_wf v" and x: "SInt_wf x" and ek: "IsShiftBinaryExpr ek"
  shows "ApplyExactShift ek v x ru uns = Some z \<longleftrightarrow> bit_computes ek uns ru v x z"
proof -
  let ?q = "rd (\<not> ru) x"
  let ?y = "if ek = EK_LSHIFT then the (SInt_Shl v (nat ?q)) else if uns then the (SInt_LShr v (nat ?q)) else the (SInt_AShr v (nat ?q))"
  let ?r = "if ek = EK_LSHIFT then wrap_int uns (width v) (rd (\<not> uns) v * 2 ^ nat ?q) else rd (\<not> uns) v div 2 ^ nat ?q"
  have b: "bit_computes ek uns ru v x u \<longleftrightarrow> 0 \<le> ?q \<and> ?q < int (bw (width v)) \<and> SInt_wf u \<and> width u = width v \<and> ?r = rd (\<not> uns) u" for u
  proof -
    have "bit_result ek uns (width v) (rd (\<not> uns) v) ?q = (if 0 \<le> ?q \<and> ?q < int (bw (width v)) then Some ?r else None)"
      using ek by (elim disjE [OF iffD1 [OF IsShiftBinaryExpr_def]]) (simp_all only: bit_result_def ExprKind.case ExprKind.distinct if_True if_False refl)
    then show ?thesis using ek by (simp add: bit_computes_def) blast
  qed
  show ?thesis
  proof (cases "0 \<le> ?q \<and> ?q < int (bw (width v))")
    case True
    then have "nat ?q < bw (width v)" using nat_less_iff [of ?q "bw (width v)"] by blast
    from shifted_computes [OF v this refl, of ek uns] have y: "bit_computes ek uns ru v x ?y" using True b by metis
    have "ApplyExactShift ek v x ru uns = Some ?y"
      using True by (simp only: ApplyExactShift_def GetShiftAmount_iff [OF x] if_True option.case simp_thms)
    then show ?thesis using y bit_computes_unique by (metis option.inject)
  next
    case False
    then have "ApplyExactShift ek v x ru uns = None"
      by (simp only: ApplyExactShift_def GetShiftAmount_iff [OF x] if_False option.case)
    then show ?thesis using b [of z] False by (simp only: option.distinct) blast
  qed
qed

lemma ApplyExactBitwise_computes:
  assumes v: "SInt_wf v" and x: "SInt_wf x" and ek: "IsBitwiseBinaryExpr ek" and w: "width x = width v"
  shows "bit_computes ek uns ru v x z \<longleftrightarrow> z = ApplyExactBitwise ek v x uns"
proof -
  have wd: "width (SInt_and v x) = width v" "width (SInt_or v x) = width v" "width (SInt_xor v x) = width v"
    by (simp_all add: SInt_and_def SInt_or_def SInt_xor_def SInt_and_u_def SInt_or_u_def SInt_xor_u_def)
  have "bit_computes ek uns ru v x (ApplyExactBitwise ek v x uns)"
    using ek and_or_xor_wf [OF v x w] and_or_xor_rd [OF v x w, of uns] wd
    by (cases ek) (simp_all add: IsBitwiseBinaryExpr_def IsShiftBinaryExpr_def ApplyExactBitwise_def bit_computes_def bit_result_def)
  then show ?thesis using bit_computes_unique by blast
qed

lemma ApplyExactBitwise_shift:
  assumes x: "SInt_wf x" and ek: "IsShiftBinaryExpr ek" and z: "ApplyExactShift ek v x ru uns = Some z"
  shows "ApplyExactBitwise ek v x uns = z"
proof -
  obtain n where n: "n = unat (val x)" "n < bw (width v)"
    using z by (auto simp: ApplyExactShift_def GetShiftAmount_def Let_def SInt_UVal_def split: option.splits if_splits)
  have b: "n < 2 ^ 32" using n(2) bw_bounds [of "width v"] by simp
  have "unat (of_nat (bw (width v)) :: 64 word) = bw (width v)"
    by (cases "width v") simp_all
  then have "\<not> SInt_Ugt_u x (of_nat (bw (width v)))"
    using n by (simp add: SInt_Ugt_u_def SInt_GetZExtValue_def word_less_nat_alt)
  then have l: "unat (SInt_GetULimitedValue x (of_nat (bw (width v)))) = n"
    using n by (simp add: SInt_GetULimitedValue_def SInt_GetZExtValue_def)
  show ?thesis
    using z ek n b l by (auto simp: ApplyExactShift_def GetShiftAmount_def Let_def SInt_UVal_def ApplyExactBitwise_def
        IsShiftBinaryExpr_def SInt_Shl_s_def SInt_shl_assign_s_def SInt_Shl_def SInt_LShr_s_def SInt_Ashr_s_def
        split: option.splits if_splits)
qed

section \<open>Intervals are sound\<close>

text \<open>A computed domain of the right width and signedness, without symbolic bounds, that holds
  the value.\<close>

definition encloses :: "SIntDomain \<Rightarrow> IntWidth \<Rightarrow> bool \<Rightarrow> SInt \<Rightarrow> bool" where
  "encloses d w u z \<longleftrightarrow> SD_wf d \<and> SD_Width d = w \<and> unsignedFlag d = u \<and> symbolics d = [] \<and> z \<in> CR_gamma (numeric d)"

lemma encloses_make: "CR_wf r \<Longrightarrow> CR_Width r = w \<Longrightarrow> z \<in> CR_gamma r \<Longrightarrow> encloses (SD_make r u) w u z"
  by (simp add: encloses_def SD_make_def SD_wf_def SD_Width_def)

lemma encloses_models: "encloses d w u z \<Longrightarrow> SD_models \<sigma> d z"
  by (simp add: encloses_def SD_models_iff bounds_hold_def)

lemma encloses_single: "SInt_wf z \<Longrightarrow> width z = w \<Longrightarrow> encloses (SD_make (CR_single z) u) w u z"
  by (simp add: encloses_make single_wf mem_single)

lemma encloses_Top: "SInt_wf z \<Longrightarrow> width z = w \<Longrightarrow> encloses (SD_Top w u) w u z"
  by (simp add: SD_Top_def encloses_make mem_Full)

lemma encloses_MinMax:
  assumes "SInt_wf a" "SInt_wf b" "SInt_wf z" "width a = w" "width b = w" "width z = w"
    and "rd (\<not> u) a \<le> rd (\<not> u) z" "rd (\<not> u) z \<le> rd (\<not> u) b"
  shows "encloses (SD_make (RangeFromMinMax a b u) u) w u z"
proof (rule encloses_make)
  have ab: "CR_wf (CR_From GE a (\<not> u))" "CR_wf (CR_From LE b (\<not> u))" "CR_Width (CR_From LE b (\<not> u)) = CR_Width (CR_From GE a (\<not> u))"
    using assms by (simp_all add: From_wf)
  show "CR_wf (RangeFromMinMax a b u)" "CR_Width (RangeFromMinMax a b u) = w"
    using IntersectWith_wf [OF ab] IntersectWith_width [OF ab] assms by (simp_all add: RangeFromMinMax_def)
  show "z \<in> CR_gamma (RangeFromMinMax a b u)"
    unfolding RangeFromMinMax_def using assms by (intro IntersectWith_mem [OF ab]) (simp_all add: mem_From)
qed

lemma single_element:
  assumes "SD_wf d" "SD_IsSingleValue d" "v \<in> CR_gamma (numeric d)"
  shows "CR_GetSingleElement (SD_NumericBound d) = v"
  using assms SingleElement_mem [of "numeric d" v] by (simp add: SD_IsSingleValue_def SD_NumericBound_def SD_wf_def)

lemma not_bottom: "v \<in> CR_gamma (numeric d) \<Longrightarrow> \<not> SD_IsBottom d"
  using mem_EmptySet by (auto simp: SD_IsBottom_def)

lemma MinMax_rd:
  assumes "CR_wf r" "v \<in> CR_gamma r"
  shows "rd (\<not> u) (if u then CR_UMinValue r else CR_SMinValue r) \<le> rd (\<not> u) v"
    "rd (\<not> u) v \<le> rd (\<not> u) (if u then CR_UMaxValue r else CR_SMaxValue r)"
  using UMaxMin_bounds [OF assms] SMaxMin_bounds [OF assms] by (auto simp: rd_def)

lemma shl_monotone:
  fixes a p b :: int
  assumes "0 \<le> a" "a \<le> p" "p \<le> b" "b \<le> type_max u w div 2 ^ n"
  shows "wrap_int u w (a * 2 ^ n) \<le> wrap_int u w (p * 2 ^ n)" "wrap_int u w (p * 2 ^ n) \<le> wrap_int u w (b * 2 ^ n)"
proof -
  have "b * 2 ^ n \<le> type_max u w div 2 ^ n * 2 ^ n" using assms(4) by (intro mult_right_mono) simp_all
  also have "\<dots> \<le> type_max u w" using div_mult_mod_eq [of "type_max u w" "2 ^ n"] by (smt (verit) pos_mod_sign zero_less_power)
  finally have "b * 2 ^ n \<le> type_max u w" .
  moreover have m: "0 \<le> a * 2 ^ n" "a * 2 ^ n \<le> p * 2 ^ n" "p * 2 ^ n \<le> b * 2 ^ n"
    using assms by (auto intro: mult_right_mono)
  ultimately have "fits_int u w (a * 2 ^ n)" "fits_int u w (p * 2 ^ n)" "fits_int u w (b * 2 ^ n)"
    using type_bounds [of u w] unfolding fits_int_iff by linarith+
  then show "wrap_int u w (a * 2 ^ n) \<le> wrap_int u w (p * 2 ^ n)" "wrap_int u w (p * 2 ^ n) \<le> wrap_int u w (b * 2 ^ n)"
    using m by (simp_all add: wrap_fits)
qed

lemma shifted_bound:
  assumes n: "n < bw w"
  shows "rd False (the (SInt_LShr (SInt_UMaxValue w) n)) = type_max True w div 2 ^ n"
    "SInt_wf (the (SInt_LShr (SInt_SMaxValue w) n))"
    "rd True (the (SInt_LShr (SInt_SMaxValue w) n)) = type_max False w div 2 ^ n"
proof -
  show "rd False (the (SInt_LShr (SInt_UMaxValue w) n)) = type_max True w div 2 ^ n"
    using LShr_facts [of "SInt_UMaxValue w" n] n UMaxValue_simps [of w]
    by (metis (no_types) option.sel rd_def type_max_def)
  obtain z where z: "SInt_LShr (SInt_SMaxValue w) n = Some z" "SInt_wf z" "width z = w" "uv z = (half w - 1) div 2 ^ n"
    using LShr_facts [of "SInt_SMaxValue w" n] n SMaxValue_simps [of w] by metis
  have "0 \<le> (half w - 1) div 2 ^ n" "(half w - 1) div 2 ^ n < half w"
    using shift_bounds [of "half w" "half w - 1" n] half_pos [of w] by (auto simp: pos_imp_zdiv_nonneg_iff)
  then have "sv z = uv z" using z by (simp add: sv_def)
  then show "SInt_wf (the (SInt_LShr (SInt_SMaxValue w) n))"
    "rd True (the (SInt_LShr (SInt_SMaxValue w) n)) = type_max False w div 2 ^ n"
    using z by (simp_all add: rd_def type_max_def)
qed

text \<open>Shifting both ends of an interval, in the order of the result.\<close>

lemma shift_interval:
  assumes v: "SInt_wf v" and ab: "SInt_wf a" "SInt_wf b" "width a = width v" "width b = width v"
    and n: "n < bw (width v)" and le: "rd (\<not> u) a \<le> rd (\<not> u) v" "rd (\<not> u) v \<le> rd (\<not> u) b"
    and z: "SInt_wf z" "width z = width v"
  shows "rd (\<not> u) z = rd (\<not> u) v div 2 ^ n \<Longrightarrow>
      encloses (SD_make (RangeFromMinMax (if u then the (SInt_LShr a n) else the (SInt_AShr a n))
        (if u then the (SInt_LShr b n) else the (SInt_AShr b n)) u) u) (width v) u z"
    "rd (\<not> u) z = wrap_int u (width v) (rd (\<not> u) v * 2 ^ n) \<Longrightarrow> 0 \<le> rd (\<not> u) a \<Longrightarrow>
      rd (\<not> u) b \<le> type_max u (width v) div 2 ^ n \<Longrightarrow>
      encloses (SD_make (RangeFromMinMax (the (SInt_Shl a n)) (the (SInt_Shl b n)) u) u) (width v) u z"
proof -
  have na: "n < bw (width a)" and nb: "n < bw (width b)" using n ab by simp_all
  let ?a = "if u then the (SInt_LShr a n) else the (SInt_AShr a n)" and ?b = "if u then the (SInt_LShr b n) else the (SInt_AShr b n)"
  have s: "SInt_wf ?a" "SInt_wf ?b" "width ?a = width v" "width ?b = width v"
    "rd (\<not> u) ?a = rd (\<not> u) a div 2 ^ n" "rd (\<not> u) ?b = rd (\<not> u) b div 2 ^ n"
    using Shr_computes [OF ab(1) na, of u] Shr_computes [OF ab(2) nb, of u] ab(3,4) by presburger+
  show "encloses (SD_make (RangeFromMinMax ?a ?b u) u) (width v) u z" if r: "rd (\<not> u) z = rd (\<not> u) v div 2 ^ n"
    by (rule encloses_MinMax [OF s(1,2) z(1) s(3,4) z(2)]) (simp_all only: s(5,6) r zdiv_mono1 [OF le(1)] zdiv_mono1 [OF le(2)] zero_less_power zero_less_numeral)
  let ?c = "the (SInt_Shl a n)" and ?d = "the (SInt_Shl b n)"
  have l: "SInt_wf ?c" "SInt_wf ?d" "width ?c = width v" "width ?d = width v"
    "rd (\<not> u) ?c = wrap_int u (width v) (rd (\<not> u) a * 2 ^ n)" "rd (\<not> u) ?d = wrap_int u (width v) (rd (\<not> u) b * 2 ^ n)"
    using Shl_computes [OF ab(1) na, of u] Shl_computes [OF ab(2) nb, of u] ab(3,4) by simp_all
  show "encloses (SD_make (RangeFromMinMax ?c ?d u) u) (width v) u z"
    if r: "rd (\<not> u) z = wrap_int u (width v) (rd (\<not> u) v * 2 ^ n)" and a0: "0 \<le> rd (\<not> u) a"
      and b0: "rd (\<not> u) b \<le> type_max u (width v) div 2 ^ n"
    by (rule encloses_MinMax [OF l(1,2) z(1) l(3,4) z(2)]) (simp_all only: l(5,6) r shl_monotone [OF a0 le b0])
qed

lemma TryComputeShiftRange_proper:
  assumes amt: "GetShiftAmount_range rhs ru (SD_Width lhs) = Some n" "n \<noteq> 0" and nb: "\<not> SD_IsBottom lhs" "\<not> SD_IsSingleValue lhs"
    and d: "TryComputeShiftRange ek lhs rhs ru u = Some d"
  defines "a \<equiv> (if u then CR_UMinValue (numeric lhs) else CR_SMinValue (numeric lhs))"
    and "b \<equiv> (if u then CR_UMaxValue (numeric lhs) else CR_SMaxValue (numeric lhs))"
  shows "ek = EK_LSHIFT \<Longrightarrow> d = SD_make (RangeFromMinMax (the (SInt_Shl a n)) (the (SInt_Shl b n)) u) u"
    "ek = EK_LSHIFT \<Longrightarrow> u \<Longrightarrow> \<not> SInt_Ugt b (the (SInt_LShr (SInt_UMaxValue (SD_Width lhs)) n))"
    "ek = EK_LSHIFT \<Longrightarrow> \<not> u \<Longrightarrow> \<not> SInt_Slt_i a 0 \<and> \<not> SInt_Sgt b (the (SInt_LShr (SInt_SMaxValue (SD_Width lhs)) n))"
    "ek \<noteq> EK_LSHIFT \<Longrightarrow> d = SD_make (RangeFromMinMax (if u then the (SInt_LShr a n) else the (SInt_AShr a n))
       (if u then the (SInt_LShr b n) else the (SInt_AShr b n)) u) u"
  using d amt(2) nb unfolding a_def b_def TryComputeShiftRange_def Let_def amt(1) SD_NumericBound_def
  by (cases "ek = EK_LSHIFT"; cases u; simp split: if_splits)+

lemma TryComputeShiftRange_sound:
  assumes l: "SD_wf lhs" "v \<in> CR_gamma (numeric lhs)" and r: "SD_wf rhs" "x \<in> CR_gamma (numeric rhs)"
    and ek: "IsShiftBinaryExpr ek" and z: "bit_computes ek u ru v x z"
    and d: "TryComputeShiftRange ek lhs rhs ru u = Some d"
  shows "encloses d (SD_Width lhs) u z"
proof -
  let ?w = "SD_Width lhs" and ?r = "numeric lhs"
  have v: "SInt_wf v" "width v = ?w" using gamma_wf [OF l(2)] gamma_width [OF l(2)] by (simp_all add: SD_Width_def)
  have x: "SInt_wf x" using gamma_wf [OF r(2)] .
  have rw: "CR_wf ?r" using l(1) by (simp add: SD_wf_def)
  have zw: "SInt_wf z" "width z = ?w" using z v by (simp_all add: bit_computes_def)
  have "encloses d ?w u z" if ns: "GetShiftAmount_range rhs ru ?w = None"
  proof -
    have "d = SD_Top ?w u" using d ns by (simp add: TryComputeShiftRange_def Let_def)
    then show ?thesis using encloses_Top zw by simp
  qed
  moreover have "encloses d ?w u z" if amt: "GetShiftAmount_range rhs ru ?w = Some n" for n
  proof -
    have sx: "SD_IsSingleValue rhs" using amt by (auto simp: GetShiftAmount_range_def split: if_splits)
    then have gx: "CR_GetSingleElement (SD_NumericBound rhs) = x" using single_element [OF r(1) _ r(2)] by simp
    then have "GetShiftAmount x ru ?w = Some n" using amt sx by (simp add: GetShiftAmount_range_def)
    then have n: "n = nat (rd (\<not> ru) x)" "n < bw ?w" "0 \<le> rd (\<not> ru) x"
      using nat_less_iff [of "rd (\<not> ru) x" "bw ?w"] unfolding GetShiftAmount_iff [OF x] by (auto split: if_splits)
    have val: "rd (\<not> u) z = (if ek = EK_LSHIFT then wrap_int u ?w (rd (\<not> u) v * 2 ^ n) else rd (\<not> u) v div 2 ^ n)"
      using z ek n v by (auto simp: bit_computes_def bit_result_def IsShiftBinaryExpr_def split: if_splits)
    have nb: "\<not> SD_IsBottom lhs" using not_bottom [OF l(2)] .
    consider (single) "SD_IsSingleValue lhs" | (zero) "\<not> SD_IsSingleValue lhs" "n = 0" | (proper) "\<not> SD_IsSingleValue lhs" "n \<noteq> 0" by blast
    then show ?thesis
    proof cases
      case single
      have gv: "CR_GetSingleElement (SD_NumericBound lhs) = v" using single_element [OF l(1) single l(2)] .
      have "ApplyExactBitwise ek v x u = z"
        using ApplyExactBitwise_shift [OF x ek] ApplyExactShift_computes [OF v(1) x ek] z by blast
      then have "d = SD_make (CR_single z) u" using d amt nb single by (simp add: TryComputeShiftRange_def Let_def gv gx)
      then show ?thesis using encloses_single [OF zw] by (simp only:)
    next
      case zero
      then have "d = SD_make ?r u" using d amt nb by (simp add: TryComputeShiftRange_def Let_def SD_NumericBound_def)
      moreover have "rd (\<not> u) z = rd (\<not> u) v" using val zero(2) rd_fits [OF v(1), of u] v(2) by (simp add: wrap_fits)
      then have "z = v" using rd_inj [OF zw(1) v(1)] zw v by simp
      ultimately show ?thesis using encloses_make [OF rw] l(2) by (simp add: SD_Width_def)
    next
      case proper
      let ?a = "if u then CR_UMinValue ?r else CR_SMinValue ?r" and ?b = "if u then CR_UMaxValue ?r else CR_SMaxValue ?r"
      have ab: "SInt_wf ?a" "SInt_wf ?b" "width ?a = width v" "width ?b = width v"
        using minmax_simps [OF rw] v(2) by (simp_all add: SD_Width_def)
      have nv: "n < bw (width v)" using n v by simp
      have zv: "SInt_wf z" "width z = width v" using zw v by simp_all
      note si = shift_interval [OF v(1) ab nv MinMax_rd [OF rw l(2)] zv, unfolded v(2)]
      show ?thesis
      proof (cases "ek = EK_LSHIFT")
        case True
        note c = TryComputeShiftRange_proper(1-3) [OF amt proper(2) nb proper(1) d True]
        have "rd (\<not> u) ?b \<le> type_max u ?w div 2 ^ n"
          using c(2,3) shifted_bound [OF n(2)] minmax_simps [OF rw]
          by (cases u) (simp_all add: rd_def ucmp_uv scmp_sv)
        moreover have "0 \<le> rd (\<not> u) ?a"
          using c(3) minmax_simps [OF rw] uv_nonneg by (cases u) (simp_all add: rd_def Slt_i_zero)
        moreover have "rd (\<not> u) z = wrap_int u ?w (rd (\<not> u) v * 2 ^ n)" using val True by simp
        ultimately show ?thesis unfolding c(1) by (intro si(2))
      next
        case False
        have "rd (\<not> u) z = rd (\<not> u) v div 2 ^ n" using val False by simp
        then show ?thesis
          unfolding TryComputeShiftRange_proper(4) [OF amt proper(2) nb proper(1) d False] by (rule si(1))
      qed
    qed
  qed
  ultimately show ?thesis by (cases "GetShiftAmount_range rhs ru ?w") auto
qed

lemma BitAndWithMask_sound:
  assumes d: "SD_wf d" "v \<in> CR_gamma (numeric d)" and m: "SInt_wf m" "width m = SD_Width d"
    and z: "SInt_wf z" "width z = SD_Width d" "\<And>s. rd s z = (rd s v AND rd s m)"
    and c: "TryComputeBitAndWithMask d m u = Some e"
  shows "encloses e (SD_Width d) u z"
proof -
  let ?w = "SD_Width d"
  have rw: "CR_wf (numeric d)" using d(1) by (simp add: SD_wf_def)
  have v: "SInt_wf v" "width v = ?w" using gamma_wf [OF d(2)] gamma_width [OF d(2)] by (simp_all add: SD_Width_def)
  consider (zero) "SInt_IsZero m" | (ones) "\<not> SInt_IsZero m" "SInt_IsAllOnes m"
    | (proper) "\<not> SInt_IsZero m" "\<not> SInt_IsAllOnes m" "u \<or> \<not> SInt_IsSignBitSet m"
    using c by (auto simp: TryComputeBitAndWithMask_def Let_def split: if_splits)
  then show ?thesis
  proof cases
    case zero
    then have "rd False z = 0" using z(3) [of False] by (simp add: IsZero_iff rd_def)
    then have "z = SInt_Zero ?w" using z by (intro SInt_ext) (simp_all add: rd_def)
    then show ?thesis using c zero encloses_single [of "SInt_Zero ?w" ?w u] by (simp add: TryComputeBitAndWithMask_def)
  next
    case ones
    then have "sv m = - 1" using IsAllOnes_sv [OF m(1)] by simp
    then have "sv z = sv v" using z(3) [of True] by (simp add: rd_def)
    then have "z = v" using z v by (intro sv_inj) simp_all
    then show ?thesis using c ones encloses_make [OF rw refl d(2), of u] by (simp add: TryComputeBitAndWithMask_def SD_NumericBound_def SD_Width_def)
  next
    case proper
    have "0 \<le> rd (\<not> u) m"
      using proper(3) uv_nonneg [of m] IsNeg_sv [OF m(1)] by (auto simp: rd_def SInt_IsNeg_def)
    then have "0 \<le> rd (\<not> u) z" "rd (\<not> u) z \<le> rd (\<not> u) m" using z(3) by (simp_all add: AND_upper2)
    moreover have "rd (\<not> u) (SInt_Zero ?w) = 0" by (simp add: rd_def sv_def)
    ultimately have "encloses (SD_make (RangeFromMinMax (SInt_Zero ?w) m u) u) ?w u z"
      using m z by (intro encloses_MinMax) simp_all
    moreover have "e = SD_make (RangeFromMinMax (SInt_Zero ?w) m u) u"
      using c proper by (auto simp: TryComputeBitAndWithMask_def Let_def)
    ultimately show ?thesis by simp
  qed
qed

lemma or_int_lower:
  fixes p q :: int
  assumes "0 \<le> p \<or> q < 0"
  shows "q \<le> p OR q" "q < 0 \<Longrightarrow> p OR q < 0"
proof -
  show "q \<le> p OR q"
  proof (cases "0 \<le> p")
    case True
    then show ?thesis using or_greater_eq [of p q] by (simp add: or.commute)
  next
    case False
    then have "0 \<le> NOT q" using assms by simp
    then have "NOT p AND NOT q \<le> NOT q" by (rule AND_upper2)
    then show ?thesis by (simp add: or_eq_not_not_and not_int_def)
  qed
  show "q < 0 \<Longrightarrow> p OR q < 0" by simp
qed

lemma BitOrWithMask_sound:
  assumes d: "SD_wf d" "v \<in> CR_gamma (numeric d)" and m: "SInt_wf m" "width m = SD_Width d"
    and z: "SInt_wf z" "width z = SD_Width d" "\<And>s. rd s z = (rd s v OR rd s m)"
    and c: "TryComputeBitOrWithMask d m u = Some e"
  shows "encloses e (SD_Width d) u z"
proof -
  let ?w = "SD_Width d" and ?r = "numeric d"
  have rw: "CR_wf ?r" using d(1) by (simp add: SD_wf_def)
  have v: "SInt_wf v" "width v = ?w" using gamma_wf [OF d(2)] gamma_width [OF d(2)] by (simp_all add: SD_Width_def)
  consider (zero) "SInt_IsZero m" "e = SD_make ?r u"
    | (uns) "u" "e = SD_make (RangeFromMinMax m (SInt_UMaxValue ?w) True) True"
    | (neg) "\<not> u" "SInt_IsSignBitSet m" "e = SD_make (RangeFromMinMax m (SInt_AllOnes ?w) False) False"
    | (nonneg) "\<not> u" "\<not> SInt_IsSignBitSet m" "SInt_Sge_i (CR_SMinValue ?r) 0" "e = SD_make (RangeFromMinMax m (SInt_SMaxValue ?w) False) False"
    using c by (auto simp: TryComputeBitOrWithMask_def Let_def SD_NumericBound_def split: if_splits)
  then show ?thesis
  proof cases
    case zero
    then have "rd False z = rd False v" using z(3) [of False] by (simp add: IsZero_iff rd_def)
    then have "z = v" using z v rd_inj by metis
    then show ?thesis using zero encloses_make [OF rw refl d(2), of u] by (simp add: SD_Width_def)
  next
    case uns
    have "uv m \<le> uv z" using z(3) [of False] or_int_lower(1) [of "uv v" "uv m"] uv_nonneg [of v] by (simp add: rd_def)
    moreover have "uv z \<le> uv (SInt_UMaxValue ?w)" using uv_lt [OF z(1)] z(2) UMaxValue_simps by simp
    ultimately have "encloses (SD_make (RangeFromMinMax m (SInt_UMaxValue ?w) True) True) ?w True z"
      using m z(1,2) by (intro encloses_MinMax) (simp_all add: rd_def)
    then show ?thesis using uns by simp
  next
    case neg
    then have "sv m < 0" using IsNeg_sv [OF m(1)] by (simp add: SInt_IsNeg_def)
    then have "sv m \<le> sv z" "sv z < 0" using z(3) [of True] or_int_lower [of "sv v" "sv m"] by (simp_all add: rd_def)
    moreover have "sv (SInt_AllOnes ?w) = - 1" using IsAllOnes_sv [of "SInt_AllOnes ?w"] by (simp add: IsAllOnes_iff AllOnes_uv)
    ultimately have "encloses (SD_make (RangeFromMinMax m (SInt_AllOnes ?w) False) False) ?w False z"
      using m z(1,2) by (intro encloses_MinMax) (simp_all add: rd_def)
    then show ?thesis using neg by simp
  next
    case nonneg
    have "0 \<le> sv (CR_SMinValue ?r)" using nonneg(3) minmax_simps [OF rw] by (simp add: SInt_Sge_i_def SInt_Slt_i_def GetSExtValue_sv)
    then have "0 \<le> sv v" using SMaxMin_bounds [OF rw d(2)] by simp
    then have "sv m \<le> sv z" using z(3) [of True] or_int_lower(1) [of "sv v" "sv m"] by (simp add: rd_def)
    moreover have "sv z \<le> sv (SInt_SMaxValue ?w)" using sv_hi [OF z(1)] z(2) by simp
    ultimately have "encloses (SD_make (RangeFromMinMax m (SInt_SMaxValue ?w) False) False) ?w False z"
      using m z(1,2) by (intro encloses_MinMax) (simp_all add: rd_def)
    then show ?thesis using nonneg by simp
  qed
qed

lemma TryComputeBitwiseRange_sound:
  assumes l: "SD_wf lhs" "v \<in> CR_gamma (numeric lhs)" and r: "SD_wf rhs" "x \<in> CR_gamma (numeric rhs)"
    and w: "\<not> IsShiftBinaryExpr ek \<Longrightarrow> SD_Width rhs = SD_Width lhs"
    and ek: "IsBitwiseBinaryExpr ek \<or> IsShiftBinaryExpr ek" and same: "same \<Longrightarrow> x = v"
    and z: "bit_computes ek u ru v x z"
    and d: "TryComputeBitwiseRange ek lhs rhs same ru u = Some d"
  shows "encloses d (SD_Width lhs) u z"
proof (cases "IsShiftBinaryExpr ek")
  case True
  then have "TryComputeShiftRange ek lhs rhs ru u = Some d"
    using d not_bottom [OF l(2)] not_bottom [OF r(2)] by (simp add: TryComputeBitwiseRange_def Let_def)
  from TryComputeShiftRange_sound [OF l r True z this] show ?thesis .
next
  case False
  let ?w = "SD_Width lhs"
  have b: "IsBitwiseBinaryExpr ek" using ek False by blast
  have v: "SInt_wf v" "width v = ?w" using gamma_wf [OF l(2)] gamma_width [OF l(2)] by (simp_all add: SD_Width_def)
  have x: "SInt_wf x" "width x = ?w" using gamma_wf [OF r(2)] gamma_width [OF r(2)] w [OF False] by (simp_all add: SD_Width_def)
  have zw: "SInt_wf z" "width z = ?w" using z v by (simp_all add: bit_computes_def)
  have za: "z = ApplyExactBitwise ek v x u" using ApplyExactBitwise_computes [OF v(1) x(1) b] v x z by simp
  have xv: "width x = width v" using x v by simp
  note bits = and_or_xor_rd [OF v(1) x(1) xv]
  have zr: "ek = EK_BITAND \<Longrightarrow> rd s z = (rd s v AND rd s x)" "ek = EK_BITOR \<Longrightarrow> rd s z = (rd s v OR rd s x)"
    "ek = EK_BITXOR \<Longrightarrow> rd s z = (rd s v XOR rd s x)" for s
    using bits [of "\<not> s"] za by (simp_all add: ApplyExactBitwise_def)
  have rw: "CR_wf (numeric lhs)" "CR_wf (numeric rhs)" using l r by (simp_all add: SD_wf_def)
  have kept: "encloses (SD_make (SD_NumericBound lhs) u) ?w u v" "encloses (SD_make (SD_NumericBound rhs) u) ?w u x"
    using encloses_make [OF rw(1) _ l(2)] encloses_make [OF rw(2) _ r(2)] w [OF False] by (simp_all add: SD_NumericBound_def SD_Width_def)
  have sl: "SD_IsSingleValue lhs \<Longrightarrow> CR_GetSingleElement (SD_NumericBound lhs) = v"
    and sr: "SD_IsSingleValue rhs \<Longrightarrow> CR_GetSingleElement (SD_NumericBound rhs) = x"
    using single_element [OF l(1) _ l(2)] single_element [OF r(1) _ r(2)] by simp_all
  note code = d [unfolded TryComputeBitwiseRange_def Let_def]
  note nb = not_bottom [OF l(2)] not_bottom [OF r(2)]
  have kd: "ek = EK_BITAND \<or> ek = EK_BITOR \<or> ek = EK_BITXOR" using b by (simp add: IsBitwiseBinaryExpr_def)
  consider (both) "SD_IsSingleValue lhs" "SD_IsSingleValue rhs" "d = SD_make (CR_single (ApplyExactBitwise ek v x u)) u"
    | (xor) "same" "ek = EK_BITXOR" "d = SD_make (CR_single (SInt_Zero ?w)) u"
    | (keep) "same" "ek \<noteq> EK_BITXOR" "d = SD_make (SD_NumericBound lhs) u"
    | (rand) "ek = EK_BITAND" "TryComputeBitAndWithMask lhs x u = Some d"
    | (ror) "ek = EK_BITOR" "TryComputeBitOrWithMask lhs x u = Some d"
    | (rxor) "ek = EK_BITXOR" "SInt_IsZero x" "d = SD_make (SD_NumericBound lhs) u"
    | (land) "ek = EK_BITAND" "TryComputeBitAndWithMask rhs v u = Some d"
    | (lor) "ek = EK_BITOR" "TryComputeBitOrWithMask rhs v u = Some d"
    | (lxor) "ek = EK_BITXOR" "SInt_IsZero v" "d = SD_make (SD_NumericBound rhs) u"
    using code nb False sl sr by (auto split: if_splits)
  then show ?thesis
  proof cases
    case both
    then show ?thesis using za encloses_single [OF zw] by simp
  next
    case xor
    then have "rd False z = 0" using zr(3) [OF xor(2), of False] same by simp
    then have "z = SInt_Zero ?w" using zw by (intro SInt_ext) (simp_all add: rd_def)
    then show ?thesis using xor encloses_single [OF zw] by simp
  next
    case keep
    then have "rd False z = rd False v" using zr(1,2) [of False] kd same by auto
    then have "z = v" using zw v rd_inj by metis
    then show ?thesis using keep kept by simp
  next
    case rand
    from BitAndWithMask_sound [OF l x zw _ rand(2)] zr(1) [OF rand(1)] show ?thesis by blast
  next
    case ror
    from BitOrWithMask_sound [OF l x zw _ ror(2)] zr(2) [OF ror(1)] show ?thesis by blast
  next
    case rxor
    then have "rd False z = rd False v" using zr(3) [OF rxor(1), of False] by (simp add: IsZero_iff rd_def)
    then have "z = v" using zw v rd_inj by metis
    then show ?thesis using rxor kept by simp
  next
    case land
    have "rd s z = (rd s x AND rd s v)" for s using zr(1) [OF land(1)] by (simp add: and.commute)
    from BitAndWithMask_sound [OF r _ _ _ _ this land(2)] show ?thesis using v zw w [OF False] by simp
  next
    case lor
    have "rd s z = (rd s x OR rd s v)" for s using zr(2) [OF lor(1)] by (simp add: or.commute)
    from BitOrWithMask_sound [OF r _ _ _ _ this lor(2)] show ?thesis using v zw w [OF False] by simp
  next
    case lxor
    then have "rd False z = rd False x" using zr(3) [OF lxor(1), of False] by (simp add: IsZero_iff rd_def)
    then have "z = x" using zw x rd_inj by metis
    then show ?thesis using lxor kept by simp
  qed
qed

section \<open>Known bits are sound\<close>

lemma bit_rd: "SInt_wf v \<Longrightarrow> i < bw (width v) \<Longrightarrow> bit (val v) i \<longleftrightarrow> bit (rd s v) i"
  by (rule bits_of_rd)

lemma GetTransferKnownBits_sound:
  assumes d: "SD_wf d" "v \<in> CR_gamma (numeric d)"
    and r: "\<And>r. rng = Some r \<Longrightarrow> SR_models \<sigma> r v \<and> SD_Width (sr_domain r) = SD_Width d"
  shows "bits_hold (SD_Width d) (GetTransferKnownBits rng d) (val v)"
proof (cases rng)
  case None
  then show ?thesis using InferKnownBitsFromInterval_sound d by (simp add: GetTransferKnownBits_def SD_wf_def)
next
  case (Some r)
  then have m: "exact_holds (sr_exact r) v" "cong_holds (sr_congruence r) (rd (\<not> unsignedFlag (sr_domain r)) v)"
    "bits_hold (SD_Width d) (sr_bits r) (val v)"
    using assms(3) [OF Some] unfolding SR_models_def parts_model_def by (metis (no_types))+
  show ?thesis
    using GetEffectiveKnownBits_sound [OF _ d(2) m] d(1) Some by (simp add: GetTransferKnownBits_def SD_wf_def)
qed

lemma Transfer_bits_bound:
  assumes "GetTransferKnownBits rng d = Some b" "bit (knownZero b) i \<or> bit (knownOne b) i"
  shows "i < bw (SD_Width d)"
proof -
  have "bits_wf (SD_Width d) (InferKnownBitsFromInterval d)"
    using NormalizeKnownBits_wf [of "SD_Width d"] by (simp add: InferKnownBitsFromInterval_def KnownBitsBetween_def Let_def bits_wf_def NormalizeKnownBits_idem)
      (simp add: NormalizeKnownBits_def)
  moreover have "bits_wf (SD_Width d) (GetEffectiveKnownBits d e c k)" for e c k
    using IntersectKnownBits_wf [of "SD_Width d"] by (simp add: GetEffectiveKnownBits_def Let_def bits_wf_def split: prod.split)
      (simp add: NormalizeKnownBits_def)
  ultimately have "bits_wf (SD_Width d) (GetTransferKnownBits rng d)"
    by (simp add: GetTransferKnownBits_def split: option.split)
  then have "NormalizeKnownBits (Some b) (SD_Width d) = Some b" using assms(1) by (simp add: bits_wf_def)
  from NormalizeKnownBits_Some [OF this] assms(2) show ?thesis by metis
qed

text \<open>The bits of the result of an operator.\<close>

lemma result_bits:
  assumes v: "SInt_wf v" and x: "SInt_wf x" and z: "bit_computes ek u ru v x z" and i: "i < bw (width v)"
  shows "ek = EK_BITAND \<Longrightarrow> width x = width v \<Longrightarrow> bit (val z) i \<longleftrightarrow> bit (val v) i \<and> bit (val x) i"
    "ek = EK_BITOR \<Longrightarrow> width x = width v \<Longrightarrow> bit (val z) i \<longleftrightarrow> bit (val v) i \<or> bit (val x) i"
    "ek = EK_BITXOR \<Longrightarrow> width x = width v \<Longrightarrow> bit (val z) i \<longleftrightarrow> bit (val v) i \<noteq> bit (val x) i"
    "ek = EK_LSHIFT \<Longrightarrow> nat (rd (\<not> ru) x) = n \<Longrightarrow> bit (val z) i \<longleftrightarrow> n \<le> i \<and> bit (val v) (i - n)"
    "ek = EK_RSHIFT \<Longrightarrow> nat (rd (\<not> ru) x) = n \<Longrightarrow> bit (val z) i \<longleftrightarrow> bit (rd (\<not> u) v) (i + n)"
proof -
  have zw: "SInt_wf z" "width z = width v" and zi: "i < bw (width z)" using z i by (simp_all add: bit_computes_def)
  note bz = bit_rd [OF zw(1) zi, of "\<not> u"] and bv = bit_rd [OF v i, of "\<not> u"]
  show "bit (val z) i \<longleftrightarrow> bit (val v) i \<and> bit (val x) i" if "ek = EK_BITAND" "width x = width v"
  proof -
    have "rd (\<not> u) z = (rd (\<not> u) v AND rd (\<not> u) x)" using that z by (simp add: bit_computes_def bit_result_def IsShiftBinaryExpr_def)
    then show ?thesis using bz bv bit_rd [OF x, of i "\<not> u"] i that(2) by (simp add: bit_and_iff)
  qed
  show "bit (val z) i \<longleftrightarrow> bit (val v) i \<or> bit (val x) i" if "ek = EK_BITOR" "width x = width v"
  proof -
    have "rd (\<not> u) z = (rd (\<not> u) v OR rd (\<not> u) x)" using that z by (simp add: bit_computes_def bit_result_def IsShiftBinaryExpr_def)
    then show ?thesis using bz bv bit_rd [OF x, of i "\<not> u"] i that(2) by (simp add: bit_or_iff)
  qed
  show "bit (val z) i \<longleftrightarrow> bit (val v) i \<noteq> bit (val x) i" if "ek = EK_BITXOR" "width x = width v"
  proof -
    have "rd (\<not> u) z = (rd (\<not> u) v XOR rd (\<not> u) x)" using that z by (simp add: bit_computes_def bit_result_def IsShiftBinaryExpr_def)
    then show ?thesis using bz bv bit_rd [OF x, of i "\<not> u"] i that(2) by (simp add: bit_xor_iff)
  qed
  show "bit (val z) i \<longleftrightarrow> n \<le> i \<and> bit (val v) (i - n)" if "ek = EK_LSHIFT" "nat (rd (\<not> ru) x) = n"
  proof -
    have "rd (\<not> u) z = wrap_int u (width v) (rd (\<not> u) v * 2 ^ n)"
      using that z by (auto simp: bit_computes_def bit_result_def IsShiftBinaryExpr_def split: if_splits)
    then have "rd (\<not> u) z mod modulus (width v) = (rd (\<not> u) v * 2 ^ n) mod modulus (width v)" by (simp only: wrap_mod)
    then have "2 ^ bw (width v) dvd rd (\<not> u) z - rd (\<not> u) v * 2 ^ n" by (simp add: mod_eq_dvd_iff modulus_def)
    from cong_low_bits [OF this i] have "bit (val z) i \<longleftrightarrow> bit (push_bit n (rd (\<not> u) v)) i"
      using bz by (simp add: push_bit_eq_mult)
    then show ?thesis using bit_rd [OF v, of "i - n" "\<not> u"] i by (auto simp: bit_push_bit_iff)
  qed
  show "bit (val z) i \<longleftrightarrow> bit (rd (\<not> u) v) (i + n)" if "ek = EK_RSHIFT" "nat (rd (\<not> ru) x) = n"
  proof -
    have "rd (\<not> u) z = drop_bit n (rd (\<not> u) v)"
      using that z by (auto simp: bit_computes_def bit_result_def IsShiftBinaryExpr_def drop_bit_eq_div split: if_splits)
    then show ?thesis using bz by (simp add: bit_drop_bit_eq add.commute)
  qed
qed

lemma bit_rd_above:
  assumes v: "SInt_wf v" and i: "bw (width v) \<le> i"
  shows "bit (rd True v) i \<longleftrightarrow> bit (val v) (bw (width v) - 1)" "\<not> bit (rd False v) i"
proof -
  have uv: "bit (uv v) j \<longleftrightarrow> bit (val v) j" for j
    using wf_bit_width [OF v, of j] bit_lt [of "val v" j] by (auto simp: uv_def bit_uint_iff)
  show "\<not> bit (rd False v) i" using wf_bit_width [OF v, of i] i by (auto simp: rd_def uv)
  have "rd True v = signed_take_bit (bw (width v) - 1) (uv v)"
    using rd_wrap_uv [OF v, of False] by (simp add: wrap_int_def signed_of_take_bit)
  moreover have "bw (width v) - Suc 0 \<le> i" using i by simp
  ultimately show "bit (rd True v) i \<longleftrightarrow> bit (val v) (bw (width v) - 1)"
    using i bw_bounds [of "width v"] by (simp add: bit_signed_take_bit_iff uv min_def)
qed

lemma ShiftedKnownBits_sound:
  assumes v: "SInt_wf v" and x: "SInt_wf x" and b: "bits_hold (width v) (Some kb) (val v)"
    and bd: "\<And>i. bit (knownZero kb) i \<or> bit (knownOne kb) i \<Longrightarrow> i < bw (width v)"
    and z: "bit_computes ek u ru v x z" and ek: "ek = EK_LSHIFT \<or> ek = EK_RSHIFT" and n: "nat (rd (\<not> ru) x) = n" "n < bw (width v)"
  shows "bits_hold (width v) (ShiftedKnownBits ek kb n (width v) u) (val z)"
proof -
  let ?w = "width v"
  have w64: "bw ?w \<le> 64" using bw_bounds by simp
  note zb = result_bits(4,5) [OF v x z]
  have one: "bit (val v) i" if "bit (knownOne kb) i" for i using that b bd by auto
  have zero: "\<not> bit (val v) i" if "bit (knownZero kb) i" for i using that b bd by auto
  show ?thesis
  proof (cases "n = 0")
    case True
    have "bit (val z) i = bit (val v) i" if "i < bw ?w" for i
      using zb [OF that] ek n(1) True bit_rd [OF v that] by auto
    then have "bits_hold ?w (Some kb) (val z)" using b by simp
    from NormalizeKnownBits_sound [OF this] show ?thesis using True by (simp add: ShiftedKnownBits_def Let_def)
  next
    case n0: False
    show ?thesis
    proof (cases "ek = EK_LSHIFT")
      case True
      define lz :: "64 word" where "lz = push_bit n 1 - 1"
      have lz: "bit lz i \<longleftrightarrow> i < n" for i using bit_push1_minus1 [of n i] n(2) w64 by (simp add: lz_def)
      have "bits_hold ?w (Some (KB_make ((push_bit n (knownZero kb) OR lz) AND GetSIntWidthMask ?w)
          (push_bit n (knownOne kb) AND GetSIntWidthMask ?w))) (val z)"
        using zb(1) [OF _ True n(1)] one zero by (auto simp: bit_and_iff bit_or_iff bit_push_bit_iff lz)
      from NormalizeKnownBits_sound [OF this] show ?thesis using True n0 by (simp add: ShiftedKnownBits_def Let_def lz_def)
    next
      case False
      then have r: "ek = EK_RSHIFT" using ek by simp
      define hm where "hm = GetSIntWidthMask ?w AND NOT (if bw ?w - n = 64 then - 1 else push_bit (bw ?w - n) 1 - 1)"
      have rem: "bw ?w - n < 64" "bw ?w - n \<noteq> 64" using n0 w64 n(2) by auto
      have hm: "bit hm i \<longleftrightarrow> i < bw ?w \<and> bw ?w - n \<le> i" for i
      proof -
        have "bit (push_bit (bw ?w - n) 1 - 1 :: 64 word) i \<longleftrightarrow> i < bw ?w - n" by (rule bit_push1_minus1 [OF rem(1)])
        then show ?thesis using rem(2) w64 by (simp only: hm_def if_False bit_and_iff bit_not_iff bit_WidthMask possible_bit_def) auto
      qed
      have zv: "bit (val z) i \<longleftrightarrow> bit (rd (\<not> u) v) (i + n)" if "i < bw ?w" for i using zb(2) [OF that r n(1)] .
      have low: "bit (rd (\<not> u) v) j \<longleftrightarrow> bit (val v) j" if "j < bw ?w" for j using bit_rd [OF v that] by simp
      have kz: "\<not> bit (val z) i" if "bit (drop_bit n (knownZero kb)) i" for i
        using that zv [of i] low [of "i + n"] zero [of "n + i"] bd [of "n + i"] by (simp add: bit_drop_bit_eq add.commute)
      have ko: "bit (val z) i" if "bit (drop_bit n (knownOne kb)) i" for i
        using that zv [of i] low [of "i + n"] one [of "n + i"] bd [of "n + i"] by (simp add: bit_drop_bit_eq add.commute)
      let ?sg = "push_bit (bw ?w - 1) 1 :: 64 word"
      have sg: "k AND ?sg \<noteq> 0 \<longleftrightarrow> bit k (bw ?w - 1)" for k :: "64 word"
        using and_exp_eq_0_iff_not_bit [of k "bw ?w - 1"] by (simp add: push_bit_of_1)
      have hi: "bit (val z) i \<longleftrightarrow> \<not> u \<and> bit (val v) (bw ?w - 1)" if "bit hm i" for i
      proof -
        have "bw ?w \<le> i + n" "i < bw ?w" using that hm [of i] by auto
        then show ?thesis using zv [of i] bit_rd_above [OF v, of "i + n"] by (cases u) auto
      qed
      let ?kb = "if u then KB_make (drop_bit n (knownZero kb) OR hm) (drop_bit n (knownOne kb))
        else if knownZero kb AND ?sg \<noteq> 0 then KB_make (drop_bit n (knownZero kb) OR hm) (drop_bit n (knownOne kb))
        else if knownOne kb AND ?sg \<noteq> 0 then KB_make (drop_bit n (knownZero kb)) (drop_bit n (knownOne kb) OR hm)
        else KB_make (drop_bit n (knownZero kb)) (drop_bit n (knownOne kb))"
      have "bits_hold ?w (Some ?kb) (val z)"
        using kz ko hi zero [of "bw ?w - 1"] one [of "bw ?w - 1"] unfolding sg by (auto simp: bit_or_iff)
      moreover have "ShiftedKnownBits ek kb n ?w u = NormalizeKnownBits (Some ?kb) ?w"
        using False n0 by (simp only: ShiftedKnownBits_def Let_def hm_def if_False)
      ultimately show ?thesis using NormalizeKnownBits_sound by (simp only:)
    qed
  qed
qed

lemma ComputeBitwiseKnownBits_sound:
  assumes l: "SD_wf lhs" "v \<in> CR_gamma (numeric lhs)" and r: "SD_wf rhs" "x \<in> CR_gamma (numeric rhs)"
    and w: "\<not> IsShiftBinaryExpr ek \<Longrightarrow> SD_Width rhs = SD_Width lhs"
    and lr: "\<And>r. lrng = Some r \<Longrightarrow> SR_models \<sigma> r v \<and> SD_Width (sr_domain r) = SD_Width lhs"
    and rr: "\<And>r. rrng = Some r \<Longrightarrow> SR_models \<sigma> r x \<and> SD_Width (sr_domain r) = SD_Width rhs"
    and z: "bit_computes ek u ru v x z"
  shows "bits_hold (SD_Width lhs) (ComputeBitwiseKnownBits ek lrng rrng lhs rhs ru u) (val z)"
proof -
  let ?w = "SD_Width lhs"
  have v: "SInt_wf v" "width v = ?w" using gamma_wf [OF l(2)] gamma_width [OF l(2)] by (simp_all add: SD_Width_def)
  have x: "SInt_wf x" "width x = SD_Width rhs" using gamma_wf [OF r(2)] gamma_width [OF r(2)] by (simp_all add: SD_Width_def)
  define lb where "lb = (case GetTransferKnownBits lrng lhs of None \<Rightarrow> KB_make 0 0 | Some b \<Rightarrow> b)"
  define rb where "rb = (case GetTransferKnownBits rrng rhs of None \<Rightarrow> KB_make 0 0 | Some b \<Rightarrow> b)"
  have lbh: "bits_hold ?w (Some lb) (val v)"
    using GetTransferKnownBits_sound [where rng = lrng, OF l lr] by (auto simp: lb_def split: option.split)
  have rbh: "bits_hold (SD_Width rhs) (Some rb) (val x)"
    using GetTransferKnownBits_sound [where rng = rrng, OF r rr] by (auto simp: rb_def split: option.split)
  have lbd: "i < bw ?w" if "bit (knownZero lb) i \<or> bit (knownOne lb) i" for i
    using that Transfer_bits_bound [of lrng lhs _ i] by (auto simp: lb_def split: option.splits)
  note code = ComputeBitwiseKnownBits_def [of ek lrng rrng lhs rhs ru u, unfolded Let_def, folded lb_def rb_def]
  show ?thesis
  proof (cases "IsShiftBinaryExpr ek")
    case True
    then have ek: "ek = EK_LSHIFT \<or> ek = EK_RSHIFT" by (simp add: IsShiftBinaryExpr_def)
    show ?thesis
    proof (cases "GetShiftAmount_range rhs ru ?w")
      case None
      then show ?thesis using ek by (auto simp: code)
    next
      case (Some n)
      then have "SD_IsSingleValue rhs" "GetShiftAmount (CR_GetSingleElement (SD_NumericBound rhs)) ru ?w = Some n"
        by (auto simp: GetShiftAmount_range_def split: if_splits)
      then have "GetShiftAmount x ru ?w = Some n" using single_element [OF r(1) _ r(2)] by simp
      then have n: "nat (rd (\<not> ru) x) = n" "n < bw (width v)"
        using nat_less_iff [of "rd (\<not> ru) x" "bw ?w"] v(2) unfolding GetShiftAmount_iff [OF x(1)] by (auto split: if_splits)
      have "bits_hold ?w (ShiftedKnownBits ek lb n ?w u) (val z)"
        using ShiftedKnownBits_sound [OF v(1) x(1) _ _ z ek n, of lb] lbh lbd v(2) by simp
      then show ?thesis using ek Some by (auto simp: code)
    qed
  next
    case False
    have xw: "width x = width v" using x v w [OF False] by simp
    note zb = result_bits(1-3) [OF v(1) x(1) z _ _ xw, unfolded v(2)]
    have h: "(bit (knownZero lb) i \<longrightarrow> \<not> bit (val v) i) \<and> (bit (knownOne lb) i \<longrightarrow> bit (val v) i) \<and>
        (bit (knownZero rb) i \<longrightarrow> \<not> bit (val x) i) \<and> (bit (knownOne rb) i \<longrightarrow> bit (val x) i)" if "i < bw ?w" for i
      using lbh rbh w [OF False] that by simp
    consider "ek = EK_BITAND" | "ek = EK_BITOR" | "ek = EK_BITXOR"
      using z False by (cases ek) (auto simp: bit_computes_def bit_result_def IsShiftBinaryExpr_def)
    then show ?thesis
    proof cases
      case 1
      have "bits_hold ?w (Some (KB_make (knownZero lb OR knownZero rb) (knownOne lb AND knownOne rb))) (val z)"
        using zb(1) 1 h by (auto simp: bit_and_iff bit_or_iff)
      from NormalizeKnownBits_sound [OF this] show ?thesis unfolding code using 1 by simp
    next
      case 2
      have "bits_hold ?w (Some (KB_make (knownZero lb AND knownZero rb) (knownOne lb OR knownOne rb))) (val z)"
        using zb(2) 2 h by (auto simp: bit_and_iff bit_or_iff)
      from NormalizeKnownBits_sound [OF this] show ?thesis unfolding code using 2 by simp
    next
      case 3
      have "bits_hold ?w (Some (KB_make ((knownZero lb AND knownZero rb) OR (knownOne lb AND knownOne rb))
          ((knownZero lb AND knownOne rb) OR (knownOne lb AND knownZero rb)))) (val z)"
        using zb(3) 3 h by (auto simp: bit_and_iff bit_or_iff)
      from NormalizeKnownBits_sound [OF this] show ?thesis unfolding code using 3 by simp
    qed
  qed
qed

section \<open>The product\<close>

text \<open>A range made of a domain and of known bits keeps what satisfies both.\<close>

lemma of_bits_models:
  assumes d: "SD_wf d" "SD_models \<sigma> d z" and b: "bits_hold (SD_Width d) kb (val z)"
  shows "SR_models \<sigma> (SIntRange_of_bits cfg d None None kb) z" "SR_wf (SIntRange_of_bits cfg d None None kb)"
proof -
  have p: "parts_ok d None None None" using d(1) by (simp add: parts_ok_def)
  show "SR_models \<sigma> (SIntRange_of_bits cfg d None None kb) z"
    unfolding SIntRange_of_bits_def
    by (rule SIntRange_make_sound [OF p]) (use d b in \<open>simp_all add: parts_model_def exact_holds_def ends_inside_def\<close>)
  show "SR_wf (SIntRange_of_bits cfg d None None kb)" unfolding SIntRange_of_bits_def by (rule SIntRange_make_wf(1) [OF p])
qed

lemma of_domain_models:
  assumes d: "SD_wf d" "SD_models \<sigma> d z"
  shows "SR_models \<sigma> (SIntRange_of_domain cfg d) z" "SR_wf (SIntRange_of_domain cfg d)"
  using of_bits_models [OF d, of None cfg] by (simp_all add: SIntRange_of_domain_def SIntRange_of_bits_def)

lemma TryComputeAbstractBitwise_sound:
  assumes l: "SD_wf lhs" "v \<in> CR_gamma (numeric lhs)" and r: "SD_wf rhs" "x \<in> CR_gamma (numeric rhs)"
    and w: "\<not> IsShiftBinaryExpr ek \<Longrightarrow> SD_Width rhs = SD_Width lhs"
    and ek: "IsBitwiseBinaryExpr ek \<or> IsShiftBinaryExpr ek" and same: "same \<Longrightarrow> x = v"
    and lr: "\<And>r. lrng = Some r \<Longrightarrow> SR_models \<sigma> r v \<and> SD_Width (sr_domain r) = SD_Width lhs"
    and rr: "\<And>r. rrng = Some r \<Longrightarrow> SR_models \<sigma> r x \<and> SD_Width (sr_domain r) = SD_Width rhs"
    and z: "bit_computes ek u ru v x z"
    and c: "TryComputeAbstractBitwiseRange cfg ek lrng rrng lhs rhs same ru u = Some rng"
  shows "SR_models \<sigma> rng z" "SR_wf rng"
proof -
  let ?w = "SD_Width lhs"
  define i where "i = TryComputeBitwiseRange ek lhs rhs same ru u"
  define b where "b = ComputeBitwiseKnownBits ek lrng rrng lhs rhs ru u"
  have i: "encloses d ?w u z" if "i = Some d" for d
    using TryComputeBitwiseRange_sound [OF l r w ek same z] that by (simp add: i_def)
  have b: "bits_hold ?w b (val z)" unfolding b_def by (rule ComputeBitwiseKnownBits_sound [OF l r w lr rr z])
  have zw: "SInt_wf z" "width z = ?w"
    using z gamma_width [OF l(2)] by (simp_all add: bit_computes_def SD_Width_def)
  note code = c [unfolded TryComputeAbstractBitwiseRange_def Let_def, folded i_def b_def]
  have "SR_models \<sigma> rng z \<and> SR_wf rng"
  proof (cases b)
    case None
    then obtain d where d: "i = Some d" "rng = SIntRange_of_domain cfg d" using code by (auto split: option.splits if_splits)
    then show ?thesis using of_domain_models [of d \<sigma> z cfg] i [OF d(1)] encloses_models by (simp add: encloses_def)
  next
    case (Some kb)
    let ?bd = "DomainFromKnownBits b ?w u"
    have bd: "SD_wf ?bd" "SD_Width ?bd = ?w" "unsignedFlag ?bd = u" "SD_models \<sigma> ?bd z"
      using DomainFromKnownBits_sound [OF zw b] by (simp_all add: SD_models_iff bounds_hold_def)
    define d where "d = (case i of Some i \<Rightarrow> SD_Intersect i ?bd | None \<Rightarrow> ?bd)"
    have rng: "rng = SIntRange_of_bits cfg d None None b" using code Some by (simp add: d_def)
    have "SD_wf d \<and> SD_Width d = ?w \<and> SD_models \<sigma> d z"
    proof (cases i)
      case None
      then show ?thesis using bd by (simp add: d_def)
    next
      case (Some e)
      have e: "SD_wf e" "SD_Width e = ?w" "unsignedFlag e = u" "SD_models \<sigma> e z"
        using i [OF Some] encloses_models [OF i [OF Some]] by (simp_all add: encloses_def)
      show ?thesis using Intersect_facts [OF e(1) bd(1)] e bd Some by (simp add: d_def)
    qed
    then show ?thesis using of_bits_models [of d \<sigma> z b cfg] b rng by simp
  qed
  then show "SR_models \<sigma> rng z" "SR_wf rng" by blast+
qed

end
