(* ===== verification/Bitwise_Ranges.thy ===== *)
theory Bitwise_Ranges
  imports Bitwise_Transfer
begin

unbundle bit_operations_syntax

text \<open>
  The soundness of negation and complement on ranges, and the exactness of the bitwise operators
  on sets of exact values.
\<close>

section \<open>Negation\<close>

lemma of_int_uv: "SInt_make w (word_of_int (- rd (\<not> uns) v)) = SInt_Neg v" if "SInt_wf v" "width v = w"
proof (rule rd_inj [where s = False])
  have "rd False (SInt_make w (word_of_int (- rd (\<not> uns) v))) = (- rd (\<not> uns) v) mod modulus w"
    using rd_make_wrap [of True w "- rd (\<not> uns) v"] by (simp add: wrap_int_def)
  also have "\<dots> = (- uv v) mod modulus w"
    using wrap_mod [of uns w "uv v"] rd_wrap_uv [OF that(1), of uns] that(2) by (metis mod_minus_eq)
  also have "\<dots> = rd False (SInt_Neg v)" using that by (simp add: rd_def Neg_uv)
  finally show "rd False (SInt_make w (word_of_int (- rd (\<not> uns) v))) = rd False (SInt_Neg v)" .
qed (use that in simp_all)

text \<open>Negation keeps every value the operator has, unless a wrapping negation is applied to the least
  value in a range that starts there and has other values.\<close>

lemma ComputeNegRange_sound:
  assumes d: "SD_wf d" "v \<in> CR_gamma (numeric d)" and kd: "kind_matches tk uns (SD_Width d)" and ov: "known_strategy ov"
    and z: "value_of uns (SD_Width d) ov (Some (- rd (\<not> uns) v)) = Some z"
    and low: "ov = WRAPPING \<Longrightarrow> SD_IsSingleValue d \<or> sv (lower (numeric d)) \<noteq> - half (SD_Width d) \<or> sv v \<noteq> - half (SD_Width d)"
  shows "encloses (ComputeNegRange d tk ov) (SD_Width d) uns z"
proof -
  let ?w = "SD_Width d" and ?r = "numeric d"
  have r: "CR_wf ?r" "CR_Width ?r = ?w" using d(1) by (simp_all add: SD_wf_def SD_Width_def)
  have v: "SInt_wf v" "width v = ?w" using gamma_wf [OF d(2)] gamma_width [OF d(2)] r by simp_all
  note tk = kind_matches_width [OF kd]
  have zw: "SInt_wf z" "width z = ?w" using value_of_ok [OF z] by simp_all
  note nb = not_bottom [OF d(2)]
  show ?thesis
  proof (cases "SD_IsSingleValue d")
    case True
    have e: "CR_GetSingleElement (SD_NumericBound d) = v" by (rule single_element [OF d(1) True d(2)])
    have "(if uns then checked_value (width v) ov (IsUIntOverflow tk EK_NEG 0 (uint (SInt_UVal v)) ov 0)
        else checked_value (width v) ov (IsIntOverflow tk EK_NEG 0 (SInt_SVal v) ov 0)) = Some z"
      using ApplyExactNeg_value [of tk uns v ov] kd v z ov by (simp add: ApplyExactNeg_def)
    then have "ComputeNegRange d tk ov = SD_make (CR_single z) uns"
      using True nb tk v by (cases uns) (simp_all add: ComputeNegRange_def Let_def e)
    then show ?thesis using encloses_single zw by simp
  next
    case False
    show ?thesis
    proof (cases "ov = SATURATING \<or> ov = CHECKED")
      case True
      then have "ComputeNegRange d tk ov = SD_Top ?w uns" using False nb tk by (simp add: ComputeNegRange_def Let_def)
      then show ?thesis using encloses_Top zw by simp
    next
      case nsc: False
      then have s: "ov = WRAPPING \<or> ov = THROWING" using ov by (cases ov) (simp_all add: known_strategy_def)
      have code: "ComputeNegRange d tk ov = SD_make (CR_Negate ?r) uns"
        using False nb tk nsc by (simp add: ComputeNegRange_def Let_def SD_NumericBound_def)
      have z': "z = SInt_Neg v" and fit: "ov = THROWING \<Longrightarrow> fits_int uns ?w (- rd (\<not> uns) v)"
        using s z of_int_uv [OF v, of uns] make_wrap [of ?w uns] by (auto simp: value_of_def outcome_def split: if_splits)
      have "CR_wf (CR_Negate ?r) \<and> CR_Width (CR_Negate ?r) = ?w \<and> z \<in> CR_gamma (CR_Negate ?r)"
      proof (cases "sv (lower ?r) = - half (CR_Width ?r)")
        case least: True
        have "sv v \<noteq> - half (CR_Width ?r)"
        proof (cases "ov = WRAPPING")
          case True
          then show ?thesis using low least False r by simp
        next
          case thr: False
          then show ?thesis
            using s fit v r half_pos [of ?w] uv_nonneg [of v]
            by (cases uns) (auto simp: rd_def fits_int_def fits_u_def fits_s_def sv_def modulus_half split: if_splits)
        qed
        then show ?thesis
          using Negate_least [OF r(1) least _ d(2)] False r z' by (simp add: SD_IsSingleValue_def SD_NumericBound_def)
      next
        case False
        then show ?thesis using Negate_exact [OF r(1) False, of v] v d(2) r z' by simp
      qed
      then show ?thesis unfolding code using encloses_make by blast
    qed
  qed
qed

section \<open>Complement\<close>

text \<open>The value of the complement: every bit of the width flipped, which is \<open>- v - 1\<close>.\<close>

definition complement :: "SInt \<Rightarrow> SInt" where
  "complement v = SInt_make (width v) (NOT (val v))"

lemma complement_facts:
  assumes v: "SInt_wf v"
  shows "SInt_wf (complement v)" "width (complement v) = width v"
    "i < bw (width v) \<Longrightarrow> bit (val (complement v)) i \<longleftrightarrow> \<not> bit (val v) i"
    "complement v = SInt_sub (SInt_Neg v) (SInt_make (width v) 1)"
proof -
  let ?c = "complement v" and ?w = "width v"
  show w: "SInt_wf ?c" "width ?c = ?w" by (simp_all add: complement_def)
  have n: "uint (NOT (val v)) mod modulus ?w = (- uv v - 1) mod modulus ?w"
  proof -
    have "NOT (val v) = word_of_int (- uv v - 1)" by (simp add: not_eq_complement uv_def)
    then have "uint (NOT (val v)) = (- uv v - 1) mod 2 ^ 64" by (simp only: uint_word_of_int) simp
    then show ?thesis using mod_mod_cancel [OF modulus_dvd_64 [of ?w], of "- uv v - 1"] by simp
  qed
  then have u: "uv ?c = (- uv v - 1) mod modulus ?w" by (simp add: complement_def make_uv)
  then have "uv ?c = take_bit (bw ?w) (NOT (uv v))" by (simp add: take_bit_eq_mod modulus_def not_int_def)
  then show "i < bw ?w \<Longrightarrow> bit (val ?c) i \<longleftrightarrow> \<not> bit (val v) i"
    using bit_rd [OF w(1), of i False] bit_rd [OF v, of i False] w(2)
    by (simp add: rd_def bit_take_bit_iff bit_not_iff)
  have "uv (SInt_make ?w 1) = 1 mod modulus ?w" by (simp add: make_uv)
  then show "?c = SInt_sub (SInt_Neg v) (SInt_make ?w 1)"
    using v w u by (intro SInt_ext) (simp_all add: sub_uv Neg_uv mod_simps)
qed

lemma ComputeBitNotRange_sound:
  assumes d: "SD_wf d" "v \<in> CR_gamma (numeric d)"
    and low: "sv (lower (numeric d)) \<noteq> - half (SD_Width d) \<or> \<not> SD_IsSingleValue d \<and> sv v \<noteq> - half (SD_Width d)"
  shows "encloses (ComputeBitNotRange d uns) (SD_Width d) uns (complement v)"
proof -
  let ?w = "SD_Width d" and ?r = "numeric d"
  have r: "CR_wf ?r" "CR_Width ?r = ?w" using d(1) by (simp_all add: SD_wf_def SD_Width_def)
  have v: "SInt_wf v" "width v = ?w" using gamma_wf [OF d(2)] gamma_width [OF d(2)] r by simp_all
  have n: "CR_wf (CR_Negate ?r) \<and> CR_Width (CR_Negate ?r) = ?w \<and> SInt_Neg v \<in> CR_gamma (CR_Negate ?r)"
  proof (cases "sv (lower ?r) = - half (CR_Width ?r)")
    case True
    then show ?thesis
      using Negate_least [OF r(1) True _ d(2)] low r by (simp add: SD_IsSingleValue_def SD_NumericBound_def)
  next
    case False
    then show ?thesis using Negate_exact [OF r(1) False, of v] v d(2) r by simp
  qed
  then have "complement v \<in> CR_gamma (CR_Subtract (CR_Negate ?r) (SInt_make ?w 1))"
    using complement_facts(4) [OF v(1)] mem_Subtract [of "CR_Negate ?r" "SInt_make ?w 1" "SInt_Neg v"] v by simp
  then show ?thesis
    using n not_bottom [OF d(2)] by (simp add: ComputeBitNotRange_def Let_def SD_NumericBound_def encloses_make Subtract_wf)
qed

lemma ComputeBitNotSIntRange_sound:
  assumes d: "SD_wf d" "v \<in> CR_gamma (numeric d)"
    and low: "sv (lower (numeric d)) \<noteq> - half (SD_Width d) \<or> \<not> SD_IsSingleValue d \<and> sv v \<noteq> - half (SD_Width d)"
    and r: "\<And>r. rng = Some r \<Longrightarrow> SR_models \<sigma> r v \<and> SD_Width (sr_domain r) = SD_Width d"
  shows "SR_models \<sigma> (ComputeBitNotSIntRange cfg rng d uns) (complement v)"
    "SR_wf (ComputeBitNotSIntRange cfg rng d uns)"
proof -
  let ?w = "SD_Width d" and ?n = "ComputeBitNotRange d uns"
  have v: "SInt_wf v" "width v = ?w" using gamma_wf [OF d(2)] gamma_width [OF d(2)] by (simp_all add: SD_Width_def)
  note e = ComputeBitNotRange_sound [OF d low, of uns]
  have n: "SD_wf ?n" "SD_models \<sigma> ?n (complement v)" "SD_Width ?n = ?w"
    using e encloses_models [OF e] by (simp_all add: encloses_def)
  have "SR_models \<sigma> (ComputeBitNotSIntRange cfg rng d uns) (complement v) \<and> SR_wf (ComputeBitNotSIntRange cfg rng d uns)"
  proof (cases "GetTransferKnownBits rng d")
    case None
    then show ?thesis using of_domain_models [OF n(1,2)] by (simp add: ComputeBitNotSIntRange_def)
  next
    case (Some b)
    have "bits_hold ?w (Some b) (val v)" using GetTransferKnownBits_sound [OF d, of rng] r Some by metis
    then have "bits_hold ?w (Some (KB_make (knownOne b) (knownZero b))) (val (complement v))"
      using complement_facts(3) [OF v(1)] v(2) by (auto simp: bits_hold_def KB_make_def)
    then have "bits_hold (SD_Width ?n) (NormalizeKnownBits (Some (KB_make (knownOne b) (knownZero b))) ?w) (val (complement v))"
      unfolding n(3) by (rule NormalizeKnownBits_sound)
    from of_bits_models [OF n(1,2) this] Some show ?thesis by (simp add: ComputeBitNotSIntRange_def Let_def)
  qed
  then show "SR_models \<sigma> (ComputeBitNotSIntRange cfg rng d uns) (complement v)"
    "SR_wf (ComputeBitNotSIntRange cfg rng d uns)" by blast+
qed

section \<open>Sets of exact values\<close>

text \<open>The range of all pairs of exact values holds exactly the values of the operator.\<close>

lemma TryComputeExactBitwise_models:
  assumes l: "values_ok w (Some ls)" and r: "values_ok w' (Some rs)" and w: "\<not> IsShiftBinaryExpr ek \<Longrightarrow> w' = w"
    and c: "TryComputeExactBitwiseRange cfg ek (Some ls) (Some rs) ru uns = Some rng"
  shows "SR_wf rng" "SD_Width (sr_domain rng) = w" "unsignedFlag (sr_domain rng) = uns"
    "SR_models \<sigma> rng z \<longleftrightarrow> (\<exists>v \<in> set ls. \<exists>x \<in> set rs. bit_computes ek uns ru v x z)"
proof -
  let ?f = "\<lambda>l r. if IsShiftBinaryExpr ek then ApplyExactShift ek l r ru uns else Some (ApplyExactBitwise ek l r uns)"
  obtain vs us where b: "IsBitwiseBinaryExpr ek \<or> IsShiftBinaryExpr ek"
    and vs: "all_some (map (\<lambda>(l, r). ?f l r) (List.product ls rs)) = Some vs"
    and us: "NormalizeExactIntSet cfg vs = Some us" and rng: "rng = SIntRange_of_exact cfg (DomainFromExactIntValues us uns) (Some us)"
    using c by (auto simp: TryComputeExactBitwiseRange_def split: if_splits option.splits)
  have e: "?f v x = Some y \<longleftrightarrow> bit_computes ek uns ru v x y" if "v \<in> set ls" "x \<in> set rs" for v x y
  proof -
    have vx: "SInt_wf v" "SInt_wf x" "\<not> IsShiftBinaryExpr ek \<Longrightarrow> width x = width v" using that l r w by auto
    show ?thesis
      using b ApplyExactShift_computes [OF vx(1,2)] ApplyExactBitwise_computes [OF vx(1,2)] vx(3)
      by (cases "IsShiftBinaryExpr ek") auto
  qed
  have ok: "\<forall>v \<in> set ls. \<forall>x \<in> set rs. \<forall>y. ?f v x = Some y \<longrightarrow> SInt_wf y \<and> width y = w"
    using e l by (auto simp: bit_computes_def)
  note m = all_pairs_models [OF vs us rng ok]
  show "SR_wf rng" "SD_Width (sr_domain rng) = w" "unsignedFlag (sr_domain rng) = uns" using m(1-3) .
  show "SR_models \<sigma> rng z \<longleftrightarrow> (\<exists>v \<in> set ls. \<exists>x \<in> set rs. bit_computes ek uns ru v x z)"
    unfolding m(4) using e by (intro bex_cong refl) simp
qed

end
