(* ===== verification/Arith_Congruence.thy ===== *)
theory Arith_Congruence
  imports Bitwise_Ranges SIntRange_Narrow
begin

text \<open>
  What arithmetic keeps of the congruences and interval fragments of its operands
  (\<^verbatim>\<open>GetMathematicalBounds\<close> to \<^verbatim>\<open>ComputeAffineIntervalFragments\<close> of
  \<^verbatim>\<open>ValueRangeAnalysis.cpp\<close>). The 128-bit numbers of the code are \<open>int\<close> and \<open>nat\<close>: a
  product of two 64-bit magnitudes fits in them. A missing type is \<open>None\<close>.
\<close>

record MathematicalBounds =
  minimum :: int
  maximum :: int

definition GetMathematicalBounds :: "SIntDomain \<Rightarrow> MathematicalBounds option" where
  "GetMathematicalBounds d =
     (let n = SD_NumericBound d
      in if CR_IsEmptySet n \<or> CR_IsFullSet n \<or>
            (if SD_IsUnsigned d then CR_IsWrappedSet n else CR_IsSignWrappedSet n) then None
         else Some \<lparr>minimum = ToMathematicalInteger (CR_MinValue n (SD_IsUnsigned d)) (SD_IsUnsigned d),
                    maximum = ToMathematicalInteger (CR_MaxValue n (SD_IsUnsigned d)) (SD_IsUnsigned d)\<rparr>)"

text \<open>The bounds of the result, from those of the operands.\<close>

definition result_bounds :: "ExprKind \<Rightarrow> MathematicalBounds \<Rightarrow> MathematicalBounds \<Rightarrow> (int \<times> int) option" where
  "result_bounds ek l r =
     (case ek of
        EK_ADD \<Rightarrow> Some (minimum l + minimum r, maximum l + maximum r)
      | EK_SUB \<Rightarrow> Some (minimum l - maximum r, maximum l - minimum r)
      | EK_MUL \<Rightarrow>
          (let p = minimum l * minimum r; q = minimum l * maximum r;
               s = maximum l * minimum r; t = maximum l * maximum r
           in Some (min (min p q) (min s t), max (max p q) (max s t)))
      | _ \<Rightarrow> None)"

definition CanProveNoArithmeticOverflow ::
  "ExprKind \<Rightarrow> SIntDomain \<Rightarrow> SIntDomain \<Rightarrow> IntWidth \<Rightarrow> bool \<Rightarrow> bool" where
  "CanProveNoArithmeticOverflow exprKind lhs rhs resultWidth resultUnsigned =
     (case (GetMathematicalBounds lhs, GetMathematicalBounds rhs) of
        (Some l, Some r) \<Rightarrow>
          if resultUnsigned \<and> SD_IsUnsigned lhs \<and> SD_IsUnsigned rhs then
            (let typeMaximum = uint (SInt_UVal (SInt_UMaxValue resultWidth))
             in case exprKind of
                  EK_ADD \<Rightarrow> maximum l + maximum r \<le> typeMaximum
                | EK_SUB \<Rightarrow> minimum l \<ge> maximum r
                | EK_MUL \<Rightarrow> maximum l * maximum r \<le> typeMaximum
                | _ \<Rightarrow> False)
          else if minimum l < - 9223372036854775808 \<or> maximum l > 9223372036854775807 \<or>
            minimum r < - 9223372036854775808 \<or> maximum r > 9223372036854775807 then False
          else
            (case result_bounds exprKind l r of
               None \<Rightarrow> False
             | Some (resultMin, resultMax) \<Rightarrow>
                 let typeMinimum = (if resultUnsigned then 0 else SInt_SVal (SInt_SMinValue resultWidth));
                     typeMaximum = (if resultUnsigned then uint (SInt_UVal (SInt_UMaxValue resultWidth))
                                    else SInt_SVal (SInt_SMaxValue resultWidth))
                 in resultMin \<ge> typeMinimum \<and> resultMax \<le> typeMaximum)
      | _ \<Rightarrow> False)"

section \<open>The congruence of a result\<close>

definition result_modulus :: "ExprKind \<Rightarrow> CongruenceSummary \<Rightarrow> CongruenceSummary \<Rightarrow> nat option" where
  "result_modulus ek lhs rhs =
     (case ek of
        EK_ADD \<Rightarrow> Some (GcdWide (modulo lhs) (modulo rhs))
      | EK_SUB \<Rightarrow> Some (GcdWide (modulo lhs) (modulo rhs))
      | EK_MUL \<Rightarrow>
          (let lhsMagnitude = nat \<bar>representative lhs\<bar>; rhsMagnitude = nat \<bar>representative rhs\<bar>;
               m = GcdWide (modulo lhs * modulo rhs) (modulo lhs * rhsMagnitude)
           in Some (GcdWide m (modulo rhs * lhsMagnitude)))
      | _ \<Rightarrow> None)"

definition result_residue :: "ExprKind \<Rightarrow> 64 word \<Rightarrow> 64 word \<Rightarrow> 64 word \<Rightarrow> 64 word" where
  "result_residue ek s l r =
     (case ek of
        EK_ADD \<Rightarrow> word_of_int ((uint l + uint r) mod uint s)
      | EK_SUB \<Rightarrow> word_of_int ((uint l + uint s - uint r) mod uint s)
      | _ \<Rightarrow> word_of_int ((uint l * uint r) mod uint s))"

definition ComputeArithmeticCongruence ::
  "ExprKind \<Rightarrow> SIntRange option \<Rightarrow> SIntRange option \<Rightarrow> SIntDomain \<Rightarrow> SIntDomain \<Rightarrow> TypeKind option \<Rightarrow>
   OverflowStrategy \<Rightarrow> SIntCongruence option" where
  "ComputeArithmeticCongruence exprKind lhsRange rhsRange lhsDomain rhsDomain resultType ov =
     (case (lhsRange, rhsRange, resultType) of
        (Some l, Some r, Some tk) \<Rightarrow>
          if \<not> is_integer_kind tk then None
          else
            let lhs = DescribeCongruence (sr_exact l) (sr_congruence l) (SD_IsUnsigned lhsDomain);
                rhs = DescribeCongruence (sr_exact r) (sr_congruence r) (SD_IsUnsigned rhsDomain)
            in (case result_modulus exprKind lhs rhs of
                  None \<Rightarrow> None
                | Some m \<Rightarrow>
                    if m \<le> 1 then None
                    else
                      let w = SD_ToWidth tk;
                          noOverflow = (ov = THROWING \<or>
                            CanProveNoArithmeticOverflow exprKind lhsDomain rhsDomain w (IsUnsignedInteger tk))
                      in if \<not> noOverflow \<and> ov \<noteq> WRAPPING then None
                         else
                           let m = (if noOverflow then m else GcdWide m (2 ^ bw w))
                           in if m \<le> 1 \<or> int m > 18446744073709551615 then None
                              else
                                let s = of_nat m
                                in Some \<lparr>stride = s,
                                     residue = result_residue exprKind s (CanonicalResidue (representative lhs) s)
                                       (CanonicalResidue (representative rhs) s)\<rparr>)
      | _ \<Rightarrow> None)"

section \<open>The fragments of a result\<close>

text \<open>The operand whose fragments are moved, the constant, and whether the operand is subtracted.\<close>

definition affine_source ::
  "ExprKind \<Rightarrow> SIntRange option \<Rightarrow> SIntRange option \<Rightarrow> SIntDomain \<Rightarrow> SIntDomain \<Rightarrow> (SIntRange \<times> int \<times> bool) option" where
  "affine_source ek lhsRange rhsRange lhsDomain rhsDomain =
     (let lhsConstant = ToMathematicalInteger (CR_GetSingleElement (SD_NumericBound lhsDomain)) (SD_IsUnsigned lhsDomain);
          rhsConstant = ToMathematicalInteger (CR_GetSingleElement (SD_NumericBound rhsDomain)) (SD_IsUnsigned rhsDomain);
          hasFragments = (\<lambda>r. case r of Some r \<Rightarrow> sr_fragments r \<noteq> None | None \<Rightarrow> False)
      in if ek = EK_ADD then
           (if SD_IsSingleValue lhsDomain \<and> hasFragments rhsRange then Some (the rhsRange, lhsConstant, False)
            else if SD_IsSingleValue rhsDomain \<and> hasFragments lhsRange then Some (the lhsRange, rhsConstant, False)
            else None)
         else if SD_IsSingleValue rhsDomain \<and> hasFragments lhsRange then Some (the lhsRange, - rhsConstant, False)
         else if SD_IsSingleValue lhsDomain \<and> hasFragments rhsRange then Some (the rhsRange, lhsConstant, True)
         else None)"

definition translate_fragment ::
  "bool \<Rightarrow> IntWidth \<Rightarrow> int \<Rightarrow> bool \<Rightarrow> SIntIntervalFragment \<Rightarrow> SIntIntervalFragment" where
  "translate_fragment sourceUnsigned w constant flip f =
     (let l = ToMathematicalInteger (frag_lower f) sourceUnsigned;
          h = ToMathematicalInteger (frag_upper f) sourceUnsigned;
          translatedLower = (if flip then constant - h else l + constant);
          translatedUpper = (if flip then constant - l else h + constant);
          translatedResidue = (if frag_stride f \<le> 1 then 0
            else CanonicalResidue (if flip then constant - uint (frag_residue f) else uint (frag_residue f) + constant)
                   (frag_stride f))
      in \<lparr>frag_lower = SInt_make w (word_of_int translatedLower), frag_upper = SInt_make w (word_of_int translatedUpper),
          frag_stride = frag_stride f, frag_residue = translatedResidue\<rparr>)"

definition ComputeAffineIntervalFragments ::
  "ExprKind \<Rightarrow> SIntRange option \<Rightarrow> SIntRange option \<Rightarrow> SIntDomain \<Rightarrow> SIntDomain \<Rightarrow> TypeKind option \<Rightarrow>
   OverflowStrategy \<Rightarrow> SIntDomain \<Rightarrow> SIntIntervalFragment list option" where
  "ComputeAffineIntervalFragments exprKind lhsRange rhsRange lhsDomain rhsDomain resultType ov resultDomain =
     (case resultType of
        None \<Rightarrow> None
      | Some tk \<Rightarrow>
          if (exprKind \<noteq> EK_ADD \<and> exprKind \<noteq> EK_SUB) \<or> \<not> is_integer_kind tk \<or>
             \<not> CanProveNoArithmeticOverflow exprKind lhsDomain rhsDomain (SD_ToWidth tk) (IsUnsignedInteger tk) then None
          else
            (case affine_source exprKind lhsRange rhsRange lhsDomain rhsDomain of
               None \<Rightarrow> None
             | Some (source, constant, flip) \<Rightarrow>
                 NormalizeSIntIntervalFragments
                   (map (translate_fragment (SD_IsUnsigned (sr_domain source)) (SD_ToWidth tk) constant flip)
                     (the (sr_fragments source))) resultDomain))"

section \<open>No overflow\<close>

lemma GetMathematicalBounds_sound:
  assumes d: "SD_wf d" "v \<in> CR_gamma (numeric d)" and b: "GetMathematicalBounds d = Some b"
  shows "minimum b \<le> rd (\<not> unsignedFlag d) v" "rd (\<not> unsignedFlag d) v \<le> maximum b"
    "unsignedFlag d \<Longrightarrow> 0 \<le> minimum b"
proof -
  let ?u = "unsignedFlag d" and ?r = "numeric d"
  have r: "CR_wf ?r" using d(1) by (simp add: SD_wf_def)
  have "\<not> CR_IsEmptySet ?r" using d(2) mem_EmptySet by blast
  have mm: "SInt_wf (CR_MinValue ?r ?u)" "SInt_wf (CR_MaxValue ?r ?u)"
    using minmax_simps [OF r] by (simp_all add: CR_MinValue_def CR_MaxValue_def)
  have e: "b = \<lparr>minimum = rd (\<not> ?u) (CR_MinValue ?r ?u), maximum = rd (\<not> ?u) (CR_MaxValue ?r ?u)\<rparr>"
    using b mm by (simp add: GetMathematicalBounds_def Let_def SD_NumericBound_def SD_IsUnsigned_def ToMathematicalInteger_rd split: if_splits)
  show "minimum b \<le> rd (\<not> ?u) v" "rd (\<not> ?u) v \<le> maximum b"
    using MinMax_rd [OF r d(2), of ?u] by (simp_all add: e CR_MinValue_def CR_MaxValue_def)
  show "?u \<Longrightarrow> 0 \<le> minimum b" using uv_nonneg by (simp add: e rd_def)
qed

lemma type_ends:
  "uint (SInt_UVal (SInt_UMaxValue w)) = type_max True w" "SInt_SVal (SInt_SMaxValue w) = type_max False w"
  "SInt_SVal (SInt_SMinValue w) = type_min False w"
  using UMaxValue_simps [of w] SMaxValue_simps [of w] SMinValue_simps [of w]
  by (simp_all add: SInt_UVal_def type_max_def type_min_def SVal_sv flip: uv_def)

lemma result_bounds_sound:
  assumes "result_bounds ek l r = Some (a, b)" "exact_result ek p q = Some k"
    and "minimum l \<le> p" "p \<le> maximum l" "minimum r \<le> q" "q \<le> maximum r"
  shows "a \<le> k \<and> k \<le> b"
proof (cases ek)
  case EK_MUL
  then show ?thesis
    using assms box_product [of "minimum l" p "maximum l" "minimum r" q "maximum r"]
    by (simp add: result_bounds_def Let_def)
qed (use assms in \<open>auto simp: result_bounds_def\<close>)

text \<open>A proof that no result leaves the type is right.\<close>

lemma CanProveNoOverflow_sound:
  assumes l: "SD_wf lhs" "v \<in> CR_gamma (numeric lhs)" and r: "SD_wf rhs" "x \<in> CR_gamma (numeric rhs)"
    and c: "CanProveNoArithmeticOverflow ek lhs rhs w u" and w: "SD_Width lhs = w"
    and k: "exact_result ek (rd (\<not> unsignedFlag lhs) v) (rd (\<not> unsignedFlag rhs) x) = Some k"
  shows "fits_int u w k"
proof -
  obtain a b where ab: "GetMathematicalBounds lhs = Some a" "GetMathematicalBounds rhs = Some b"
    using c by (auto simp: CanProveNoArithmeticOverflow_def split: option.splits)
  note A = GetMathematicalBounds_sound [OF l ab(1)] and B = GetMathematicalBounds_sound [OF r ab(2)]
  show ?thesis
  proof (cases "u \<and> unsignedFlag lhs \<and> unsignedFlag rhs")
    case True
    then have nn: "0 \<le> minimum a" "0 \<le> minimum b" using A(3) B(3) by simp_all
    have top: "rd (\<not> unsignedFlag lhs) v \<le> type_max True w"
      using gamma_bounds [OF l(2)] w True by (simp add: rd_def type_max_def SD_Width_def)
    show ?thesis
    proof (cases ek)
      case EK_MUL
      have "rd (\<not> unsignedFlag lhs) v * rd (\<not> unsignedFlag rhs) x \<le> maximum a * maximum b"
        using A(1,2) B(1,2) nn by (intro mult_mono) simp_all
      moreover have "maximum a * maximum b \<le> type_max True w"
        using EK_MUL True c ab by (simp add: CanProveNoArithmeticOverflow_def SD_IsUnsigned_def Let_def type_ends)
      ultimately show ?thesis using EK_MUL k A(1) B(1) nn True by (auto simp: fits_int_iff type_min_def)
    qed (use c k A B nn top True ab in
        \<open>auto simp: CanProveNoArithmeticOverflow_def SD_IsUnsigned_def Let_def type_ends fits_int_iff type_min_def split: if_splits\<close>)
  next
    case False
    then obtain m n where mn: "result_bounds ek a b = Some (m, n)" "type_min u w \<le> m" "n \<le> type_max u w"
      using c ab by (auto simp: CanProveNoArithmeticOverflow_def SD_IsUnsigned_def Let_def type_ends type_min_def split: if_splits option.splits)
    then show ?thesis using result_bounds_sound [OF mn(1) k A(1,2) B(1,2)] by (simp add: fits_int_iff)
  qed
qed

section \<open>Congruences are kept\<close>

lemma result_modulus_cases:
  assumes "result_modulus ek l r = Some m"
  obtains "ek = EK_ADD" | "ek = EK_SUB" | "ek = EK_MUL"
  using assms by (cases ek) (simp_all add: result_modulus_def)

text \<open>The modulus divides the distance of the result to the result of the representatives.\<close>

lemma result_modulus_dvd:
  assumes m: "result_modulus ek l r = Some m" and k: "exact_result ek p q = Some k"
    and t: "exact_result ek (representative l) (representative r) = Some t"
    and p: "int (modulo l) dvd p - representative l" and q: "int (modulo r) dvd q - representative r"
  shows "int m dvd k - t"
  using m
proof (cases rule: result_modulus_cases)
  case 1
  then have g: "int m dvd p - representative l" "int m dvd q - representative r"
    using m p q by (auto simp: result_modulus_def GcdWide_gcd intro: dvd_trans)
  have "k - t = (p - representative l) + (q - representative r)" using 1 k t by simp
  then show ?thesis using g by simp
next
  case 2
  then have g: "int m dvd p - representative l" "int m dvd q - representative r"
    using m p q by (auto simp: result_modulus_def GcdWide_gcd intro: dvd_trans)
  have "k - t = (p - representative l) - (q - representative r)" using 2 k t by simp
  then show ?thesis using g by (metis dvd_diff)
next
  case 3
  let ?l = "representative l" and ?r = "representative r"
  obtain a b where ab: "p - ?l = int (modulo l) * a" "q - ?r = int (modulo r) * b" using p q by (auto elim!: dvdE)
  have me: "m = gcd (gcd (modulo l * modulo r) (modulo l * nat \<bar>?r\<bar>)) (modulo r * nat \<bar>?l\<bar>)"
    using m 3 by (simp add: result_modulus_def GcdWide_gcd Let_def)
  have "m dvd modulo l * modulo r" "m dvd modulo l * nat \<bar>?r\<bar>" "m dvd modulo r * nat \<bar>?l\<bar>"
    unfolding me by (meson gcd_dvd1 gcd_dvd2 dvd_trans)+
  then have "int m dvd int (modulo l * modulo r)" "int m dvd int (modulo l * nat \<bar>?r\<bar>)" "int m dvd int (modulo r * nat \<bar>?l\<bar>)"
    by (simp_all only: int_dvd_int_iff)
  then have g: "int m dvd int (modulo l) * int (modulo r)" "int m dvd int (modulo l) * ?r" "int m dvd int (modulo r) * ?l"
    by (simp_all add: abs_if split: if_splits)
  have "p = ?l + int (modulo l) * a" "q = ?r + int (modulo r) * b" using ab by simp_all
  then have "k - t = int (modulo l) * int (modulo r) * (a * b) + int (modulo l) * ?r * a + int (modulo r) * ?l * b"
    using 3 k t by (simp add: algebra_simps)
  then show ?thesis using g by (simp add: dvd_add)
qed

lemma result_residue_value:
  assumes s: "0 < uint s" and l: "uint l = i mod uint s" and r: "uint r = j mod uint s"
    and m: "result_modulus ek a b = Some m" and t: "exact_result ek i j = Some t"
  shows "uint (result_residue ek s l r) = t mod uint s"
proof -
  have u: "uint (word_of_int (k mod uint s) :: 64 word) = k mod uint s" for k
    using s uint64_bounds [of s] pos_mod_bound [OF s, of k] pos_mod_sign [OF s, of k]
    by (simp add: uint_word_of_int)
  show ?thesis
    using m
  proof (cases rule: result_modulus_cases)
    case 1
    then show ?thesis using t u by (simp add: result_residue_def l r mod_simps)
  next
    case 2
    have "(i mod uint s + uint s - j mod uint s) mod uint s = (i - j) mod uint s"
      by (metis (no_types) add_diff_eq add.commute mod_add_self1 mod_diff_eq)
    then show ?thesis using 2 t u by (simp add: result_residue_def l r)
  next
    case 3
    then show ?thesis using t u by (simp add: result_residue_def l r mod_simps)
  qed
qed

lemma summary_dvd:
  assumes "values_ok w e" "SInt_wf v" "exact_holds e v" "cong_holds c (rd (\<not> uns) v)"
  shows "int (modulo (DescribeCongruence e c uns)) dvd rd (\<not> uns) v - representative (DescribeCongruence e c uns)"
proof (cases "constrained (DescribeCongruence e c uns)")
  case True
  then show ?thesis using DescribeCongruence_holds [OF assms] by (simp add: summary_holds_def)
next
  case False
  then have "DescribeCongruence e c uns = NoSummary"
    by (auto simp: DescribeCongruence_def NoSummary_def Let_def split: option.splits list.splits if_splits)
  then show ?thesis by (simp add: NoSummary_def)
qed

text \<open>The results of an operator that do not leave the type are the exact ones; wrapped results
  are congruent to them.\<close>

lemma computes_exact:
  assumes z: "computes ek ov u v x z" and f: "\<And>k. exact_result ek (rd (\<not> u) v) (rd (\<not> u) x) = Some k \<Longrightarrow> fits_int u (width v) k"
  shows "exact_result ek (rd (\<not> u) v) (rd (\<not> u) x) = Some (rd (\<not> u) z)"
  using z f by (auto simp: computes_def outcome_def bind_eq_Some_conv)

lemma computes_cong:
  assumes z: "computes ek WRAPPING u v x z" and k: "exact_result ek (rd (\<not> u) v) (rd (\<not> u) x) = Some k"
  shows "int (2 ^ bw (width v)) dvd rd (\<not> u) z - k"
proof -
  have "rd (\<not> u) z = wrap_int u (width v) k"
    using computesD [OF z] k by (metis OverflowStrategy.distinct(1,3,5) option.inject OverflowStrategy.simps)
  then have "rd (\<not> u) z mod modulus (width v) = k mod modulus (width v)" by (simp only: wrap_mod)
  then show ?thesis by (simp add: mod_eq_dvd_iff modulus_def)
qed

lemma ComputeArithmeticCongruence_sound:
  assumes l: "SD_wf ld" "v \<in> CR_gamma (numeric ld)" and r: "SD_wf rd'" "x \<in> CR_gamma (numeric rd')"
    and fl: "unsignedFlag ld = u" "unsignedFlag rd' = u" and w: "SD_Width ld = w" and kd: "kind_matches tk u w"
    and lv: "values_ok w (sr_exact lr)" "exact_holds (sr_exact lr) v" "cong_holds (sr_congruence lr) (rd (\<not> u) v)"
    and rv: "values_ok w' (sr_exact rr)" "exact_holds (sr_exact rr) x" "cong_holds (sr_congruence rr) (rd (\<not> u) x)"
    and z: "computes ek ov u v x z"
  shows "cong_wf (ComputeArithmeticCongruence ek (Some lr) (Some rr) ld rd' (Some tk) ov)"
    "cong_holds (ComputeArithmeticCongruence ek (Some lr) (Some rr) ld rd' (Some tk) ov) (rd (\<not> u) z)"
proof -
  let ?c = "ComputeArithmeticCongruence ek (Some lr) (Some rr) ld rd' (Some tk) ov"
  have "cong_wf ?c \<and> cong_holds ?c (rd (\<not> u) z)"
  proof (cases ?c)
    case (Some c)
    note tk = kind_matches_width [OF kd]
    have vx: "SInt_wf v" "SInt_wf x" "width v = w" using gamma_wf [OF l(2)] gamma_wf [OF r(2)] gamma_width [OF l(2)] w by (simp_all add: SD_Width_def)
    define a where "a = DescribeCongruence (sr_exact lr) (sr_congruence lr) u"
    define b where "b = DescribeCongruence (sr_exact rr) (sr_congruence rr) u"
    define safe where "safe \<longleftrightarrow> ov = THROWING \<or> CanProveNoArithmeticOverflow ek ld rd' w u"
    have p: "int (modulo a) dvd rd (\<not> u) v - representative a" "int (modulo b) dvd rd (\<not> u) x - representative b"
      unfolding a_def b_def using summary_dvd [OF lv(1) vx(1) lv(2,3)] summary_dvd [OF rv(1) vx(2) rv(2,3)] by blast+
    obtain m where m: "result_modulus ek a b = Some m" and code: "safe \<or> ov = WRAPPING"
        "1 < (if safe then m else gcd m (2 ^ bw w))" "(if safe then m else gcd m (2 ^ bw w)) \<le> 18446744073709551615"
        "c = \<lparr>stride = of_nat (if safe then m else gcd m (2 ^ bw w)),
          residue = result_residue ek (of_nat (if safe then m else gcd m (2 ^ bw w)))
            (CanonicalResidue (representative a) (of_nat (if safe then m else gcd m (2 ^ bw w))))
            (CanonicalResidue (representative b) (of_nat (if safe then m else gcd m (2 ^ bw w))))\<rparr>"
      using Some fl tk unfolding ComputeArithmeticCongruence_def Let_def SD_IsUnsigned_def
      by (auto simp: GcdWide_gcd simp flip: a_def b_def safe_def split: option.splits if_splits)
    define g where "g = (if safe then m else gcd m (2 ^ bw w))"
    note code = code [folded g_def]
    define t where "t = the (exact_result ek (representative a) (representative b))"
    have t: "exact_result ek (representative a) (representative b) = Some t"
      unfolding t_def using m by (cases rule: result_modulus_cases) simp_all
    obtain k where k: "exact_result ek (rd (\<not> u) v) (rd (\<not> u) x) = Some k" using z by (auto simp: computes_def bind_eq_Some_conv)
    have kt: "int m dvd k - t" by (rule result_modulus_dvd [OF m k t p])
    have "int g dvd rd (\<not> u) z - t"
    proof (cases safe)
      case True
      have "fits_int u (width v) k \<or> ov = THROWING"
        using True CanProveNoOverflow_sound [OF l r _ w, of ek u k] k fl vx by (auto simp: safe_def)
      then have "rd (\<not> u) z = k" using z k by (auto simp: computes_def outcome_def split: if_splits)
      then show ?thesis using kt True by (simp add: g_def)
    next
      case False
      then have "int (2 ^ bw w) dvd rd (\<not> u) z - k" using computes_cong [of ek u v x z k] z k code(1) vx by simp
      moreover have "int g dvd int m" "int g dvd int (2 ^ bw w)" using False by (simp_all only: g_def if_False int_dvd_int_iff gcd_dvd1 gcd_dvd2)
      ultimately have "int g dvd (rd (\<not> u) z - k) + (k - t)" using kt by (meson dvd_add dvd_trans)
      then show ?thesis by simp
    qed
    moreover have s: "uint (of_nat g :: 64 word) = int g" using code(3) by (rule of_nat_stride)
    then have s0: "0 < uint (of_nat g :: 64 word)" using code(2) by simp
    from result_residue_value [OF s0 uint_CanonicalResidue [OF s0] uint_CanonicalResidue [OF s0] m t]
    have "uint (residue c) = t mod int g" "uint (stride c) = int g" using s by (simp_all add: code(4))
    ultimately show ?thesis using Some code(2) by (simp add: cong_holds_def mod_eq_dvd_iff)
  qed simp
  then show "cong_wf ?c" "cong_holds ?c (rd (\<not> u) z)" by blast+
qed

section \<open>Fragments are kept\<close>

lemma make_fitting: "fits_int u w k \<Longrightarrow> rd (\<not> u) (SInt_make w (word_of_int k)) = k"
  by (simp add: rd_make_wrap wrap_fits)

lemma translated_progression:
  assumes "on_progression (frag_stride f) (frag_residue f) k"
  shows "on_progression (frag_stride f) (frag_residue (translate_fragment su w c flip f)) (if flip then c - k else k + c)"
proof (cases "1 < uint (frag_stride f)")
  case True
  let ?s = "uint (frag_stride f)" and ?r = "uint (frag_residue f)"
  have k: "?s dvd k - ?r" using assms True by (simp add: on_progression_def mod_eq_dvd_iff)
  have "\<not> frag_stride f \<le> 1" using True by (simp add: word_le_def)
  then have e: "uint (frag_residue (translate_fragment su w c flip f)) = (if flip then c - ?r else ?r + c) mod ?s"
    using True by (simp add: translate_fragment_def Let_def uint_CanonicalResidue)
  have "?s dvd (if flip then c - k else k + c) - (if flip then c - ?r else ?r + c)"
    using k by (auto simp: dvd_diff_commute)
  then show ?thesis using True by (simp add: on_progression_def e mod_eq_dvd_iff)
qed (simp add: on_progression_def)

lemma translate_fragment_facts:
  assumes f: "frag_ends w' f" and l: "l = (if flip then c - rd (\<not> u) (frag_upper f) else rd (\<not> u) (frag_lower f) + c)"
    and h: "h = (if flip then c - rd (\<not> u) (frag_lower f) else rd (\<not> u) (frag_upper f) + c)"
    and fits: "fits_int u w l" "fits_int u w h"
  shows "frag_ends w (translate_fragment u w c flip f)"
    "rd (\<not> u) (frag_lower (translate_fragment u w c flip f)) = l" "rd (\<not> u) (frag_upper (translate_fragment u w c flip f)) = h"
    "frag_holds u f k \<Longrightarrow> frag_holds u (translate_fragment u w c flip f) (if flip then c - k else k + c)"
    "frag_normal w' u f \<Longrightarrow> frag_normal w u (translate_fragment u w c flip f)"
proof -
  let ?t = "translate_fragment u w c flip f"
  have e: "frag_lower ?t = SInt_make w (word_of_int l)" "frag_upper ?t = SInt_make w (word_of_int h)" "frag_stride ?t = frag_stride f"
    using math_rd [OF f] by (simp_all add: translate_fragment_def Let_def l h)
  show ends: "frag_ends w ?t" by (simp add: frag_ends_def e)
  show lh: "rd (\<not> u) (frag_lower ?t) = l" "rd (\<not> u) (frag_upper ?t) = h" using fits by (simp_all add: e make_fitting)
  show "frag_holds u f k \<Longrightarrow> frag_holds u ?t (if flip then c - k else k + c)"
    using translated_progression [of f k u w c flip] by (auto simp: frag_holds_def lh e(3)) (auto simp: l h)
  show "frag_normal w u ?t" if n: "frag_normal w' u f"
  proof -
    have s: "1 \<le> uint (frag_stride f)" using n by (simp add: frag_normal_def frag_clamped_def)
    have "uint (frag_residue ?t) < uint (frag_stride f)"
    proof (cases "frag_stride f \<le> 1")
      case True
      then show ?thesis using s by (simp add: translate_fragment_def Let_def)
    next
      case False
      then show ?thesis using s by (simp add: translate_fragment_def Let_def uint_CanonicalResidue)
    qed
    moreover have "on_progression (frag_stride f) (frag_residue ?t) l" "on_progression (frag_stride f) (frag_residue ?t) h"
      using n translated_progression [of f "rd (\<not> u) (frag_lower f)" u w c flip]
        translated_progression [of f "rd (\<not> u) (frag_upper f)" u w c flip] by (auto simp: frag_normal_def l h)
    ultimately show ?thesis using n s ends by (auto simp: frag_normal_def frag_clamped_def e(3) lh) (auto simp: l h)
  qed
qed

text \<open>Fragments of a domain, kept by the normalisation.\<close>

lemma normalized_fragments:
  assumes d: "SD_wf d" and v: "SD_models \<sigma> d v" and fs: "\<forall>f \<in> set fs. frag_normal (SD_Width d) (unsignedFlag d) f \<and> (hasConvexBounds d \<or> ends_in d f)"
    and k: "frags_say (unsignedFlag d) fs (rd (\<not> unsignedFlag d) v)"
  shows "frags_hold (unsignedFlag d) (NormalizeSIntIntervalFragments fs d) (rd (\<not> unsignedFlag d) v)"
    "frags_wf (SD_Width d) (unsignedFlag d) (NormalizeSIntIntervalFragments fs d)"
    "ends_inside d (NormalizeSIntIntervalFragments fs d)"
proof -
  have u: "unsignedFlag d = SD_IsUnsigned d" by (simp add: SD_IsUnsigned_def)
  have n: "CR_wf (numeric d)" using d by (simp add: SD_wf_def)
  have fe: "\<forall>f \<in> set fs. frag_ends (SD_Width d) f" using fs by (simp add: frag_normal_def frag_clamped_def)
  show "frags_wf (SD_Width d) (unsignedFlag d) (NormalizeSIntIntervalFragments fs d)" using Normalize_wf [OF n fe] by (simp add: u)
  have "RefineSIntIntervalFragmentsByCongruence (NormalizeSIntIntervalFragments fs d) None d = NormalizeSIntIntervalFragments fs d"
    by (auto simp: RefineSIntIntervalFragmentsByCongruence_def NormalizeCongruence_def split: option.split)
  then show "frags_hold (unsignedFlag d) (NormalizeSIntIntervalFragments fs d) (rd (\<not> unsignedFlag d) v)"
    using constructed_fragments [OF d v fe k, of None] fs by auto
  have "\<not> SD_IsBottom d" using v not_bottom by (auto simp: SD_models_iff)
  have "\<forall>g \<in> set gs. ends_in d g" if gs: "NormalizeSIntIntervalFragments fs d = Some gs" for gs
  proof (cases "hasConvexBounds d")
    case True
    show ?thesis by (rule Normalize_convex_ends [OF d True \<open>\<not> SD_IsBottom d\<close> fe gs])
  next
    case False
    show ?thesis
    proof (rule Normalize_ends [OF gs])
      fix f g h
      assume f: "f \<in> set fs" "fragment_clamp d f = Some g" "fragment_align d g = Some h"
      then have "frag_normal (SD_Width d) (unsignedFlag d) f" using fs by blast
      then show "ends_in d h"
        using wrapped_progression_ends [OF d False _ _ _ f(2,3)] by (simp add: frag_normal_def frag_clamped_def u)
    qed
  qed
  then show "ends_inside d (NormalizeSIntIntervalFragments fs d)" by (simp add: ends_inside_def)
qed

text \<open>The fragments of an operand, moved.\<close>

lemma moved_fragments:
  assumes s: "SR_wf s" "SR_ends s" "SR_models \<sigma> s y" "unsignedFlag (sr_domain s) = u" "sr_fragments s = Some fs"
    and img: "\<And>y'. y' \<in> CR_gamma (numeric (sr_domain s)) \<Longrightarrow> img y' = (if flip then c - rd (\<not> u) y' else rd (\<not> u) y' + c) \<and>
      fits_int u w (img y') \<and> (hasConvexBounds d \<or> SInt_make w (word_of_int (img y')) \<in> CR_gamma (numeric d))"
    and d: "SD_wf d" "SD_Width d = w" "unsignedFlag d = u" "SD_models \<sigma> d z" and z: "rd (\<not> u) z = img y"
  defines "gs \<equiv> NormalizeSIntIntervalFragments (map (translate_fragment u w c flip) fs) d"
  shows "frags_hold u gs (rd (\<not> u) z)" "frags_wf w u gs" "ends_inside d gs"
proof -
  let ?sd = "sr_domain s" and ?t = "translate_fragment u w c flip"
  have n: "frag_normal (SD_Width ?sd) u f" "ends_in ?sd f" "frag_ends (SD_Width ?sd) f" if "f \<in> set fs" for f
    using s(1,2,4,5) that by (auto simp: SR_wf_def SR_ends_def ends_inside_def list_all_iff frag_normal_def frag_clamped_def)
  have t: "frag_normal w u (?t f)" "hasConvexBounds d \<or> ends_in d (?t f)" "frag_holds u f k \<Longrightarrow> frag_holds u (?t f) (if flip then c - k else k + c)"
    if f: "f \<in> set fs" for f k
  proof -
    define l where "l = (if flip then c - rd (\<not> u) (frag_upper f) else rd (\<not> u) (frag_lower f) + c)"
    define h where "h = (if flip then c - rd (\<not> u) (frag_lower f) else rd (\<not> u) (frag_upper f) + c)"
    have m: "frag_lower f \<in> CR_gamma (numeric ?sd)" "frag_upper f \<in> CR_gamma (numeric ?sd)"
      using n(2) [OF f] by (simp_all add: ends_in_def)
    have lh: "fits_int u w l" "fits_int u w h" "hasConvexBounds d \<or> SInt_make w (word_of_int l) \<in> CR_gamma (numeric d)"
      "hasConvexBounds d \<or> SInt_make w (word_of_int h) \<in> CR_gamma (numeric d)"
      using img [OF m(1)] img [OF m(2)] by (cases flip; simp add: l_def h_def)+
    note facts = translate_fragment_facts [OF n(3) [OF f] l_def h_def lh(1,2)]
    show "frag_normal w u (?t f)" using facts(5) n(1) [OF f] by blast
    show "frag_holds u f k \<Longrightarrow> frag_holds u (?t f) (if flip then c - k else k + c)" by (rule facts(4))
    have "frag_lower (?t f) = SInt_make w (word_of_int l)" "frag_upper (?t f) = SInt_make w (word_of_int h)"
      using math_rd [OF n(3) [OF f]] by (simp_all add: translate_fragment_def Let_def l_def h_def)
    then show "hasConvexBounds d \<or> ends_in d (?t f)" using lh by (auto simp: ends_in_def)
  qed
  have "y \<in> CR_gamma (numeric ?sd)" and "frags_say u fs (rd (\<not> u) y)"
    using s(3,4,5) by (simp_all add: SR_models_def parts_model_def SD_models_iff)
  then have "frags_say u (map ?t fs) (rd (\<not> u) z)" using t(3) img z by (fastforce simp: frags_say_def)
  moreover have "\<forall>g \<in> set (map ?t fs). frag_normal (SD_Width d) (unsignedFlag d) g \<and> (hasConvexBounds d \<or> ends_in d g)" using t(1,2) d by auto
  ultimately show "frags_hold u gs (rd (\<not> u) z)" "frags_wf w u gs" "ends_inside d gs"
    using normalized_fragments [OF d(1,4)] d(2,3) by (simp_all add: gs_def)
qed

lemma ComputeAffineIntervalFragments_sound:
  assumes l: "SD_wf ld" "v \<in> CR_gamma (numeric ld)" and r: "SD_wf rd'" "x \<in> CR_gamma (numeric rd')"
    and fl: "unsignedFlag ld = u" "unsignedFlag rd' = u" and w: "SD_Width ld = w" "SD_Width rd' = w" and kd: "kind_matches tk u w"
    and lr: "\<And>s. lr = Some s \<Longrightarrow> SR_wf s \<and> SR_ends s \<and> SR_models \<sigma> s v \<and> sr_domain s = ld"
    and rr: "\<And>s. rr = Some s \<Longrightarrow> SR_wf s \<and> SR_ends s \<and> SR_models \<sigma> s x \<and> sr_domain s = rd'"
    and z: "computes ek ov u v x z" and d: "SD_wf d" "SD_Width d = w" "unsignedFlag d = u" "SD_models \<sigma> d z"
    and all: "\<And>v x z. \<not> hasConvexBounds d \<Longrightarrow> v \<in> CR_gamma (numeric ld) \<Longrightarrow> x \<in> CR_gamma (numeric rd') \<Longrightarrow>
      computes ek ov u v x z \<Longrightarrow> z \<in> CR_gamma (numeric d)"
  defines "gs \<equiv> ComputeAffineIntervalFragments ek lr rr ld rd' (Some tk) ov d"
  shows "frags_hold u gs (rd (\<not> u) z)" "frags_wf w u gs" "ends_inside d gs"
proof -
  note tk = kind_matches_width [OF kd]
  have "frags_hold u gs (rd (\<not> u) z) \<and> frags_wf w u gs \<and> ends_inside d gs"
  proof (cases "gs = None")
    case True
    then show ?thesis by (simp add: ends_inside_def)
  next
    case False
    then have ek: "ek = EK_ADD \<or> ek = EK_SUB" and safe: "CanProveNoArithmeticOverflow ek ld rd' w u"
      and src: "affine_source ek lr rr ld rd' \<noteq> None"
      using tk by (auto simp: gs_def ComputeAffineIntervalFragments_def split: if_splits option.splits)
    have fit: "fits_int u w k" if "v' \<in> CR_gamma (numeric ld)" "x' \<in> CR_gamma (numeric rd')"
      "exact_result ek (rd (\<not> u) v') (rd (\<not> u) x') = Some k" for v' x' k
      using CanProveNoOverflow_sound [OF l(1) that(1) r(1) that(2) safe w(1)] that(3) fl by simp
    have mem: "hasConvexBounds d \<or> SInt_make w (word_of_int k) \<in> CR_gamma (numeric d)"
      if "v' \<in> CR_gamma (numeric ld)" "x' \<in> CR_gamma (numeric rd')" "exact_result ek (rd (\<not> u) v') (rd (\<not> u) x') = Some k" for v' x' k
      using fit [OF that] make_fitting [OF fit [OF that]] gamma_width [OF that(1)] that(3) w
        all [OF _ that(1,2), of "SInt_make w (word_of_int k)"]
      by (auto simp: computes_def outcome_def SD_Width_def)
    have zk: "exact_result ek (rd (\<not> u) v) (rd (\<not> u) x) = Some (rd (\<not> u) z)"
      using computes_exact [OF z] fit [OF l(2) r(2)] gamma_width [OF l(2)] w by (simp add: SD_Width_def)
    have one: "ToMathematicalInteger (CR_GetSingleElement (SD_NumericBound ld)) u = rd (\<not> u) v" if "SD_IsSingleValue ld"
      using single_element [OF l(1) that l(2)] gamma_wf [OF l(2)] by (simp add: ToMathematicalInteger_rd)
    have two: "ToMathematicalInteger (CR_GetSingleElement (SD_NumericBound rd')) u = rd (\<not> u) x" if "SD_IsSingleValue rd'"
      using single_element [OF r(1) that r(2)] gamma_wf [OF r(2)] by (simp add: ToMathematicalInteger_rd)
    obtain s c flip where s: "affine_source ek lr rr ld rd' = Some (s, c, flip)" using src by auto
    define img where "img = (\<lambda>y'. if flip then c - rd (\<not> u) y' else rd (\<not> u) y' + c)"
    obtain fs where fs: "sr_fragments s = Some fs"
      using s by (auto simp: affine_source_def Let_def split: if_splits option.splits)
    have gs: "gs = NormalizeSIntIntervalFragments (map (translate_fragment (SD_IsUnsigned (sr_domain s)) w c flip) fs) d"
      using False s tk fs by (auto simp: gs_def ComputeAffineIntervalFragments_def split: if_splits)
    consider (right) "rr = Some s" "\<And>x'. exact_result ek (rd (\<not> u) v) (rd (\<not> u) x') = Some (img x')"
      | (left) "lr = Some s" "\<And>v'. exact_result ek (rd (\<not> u) v') (rd (\<not> u) x) = Some (img v')"
      using s ek one two fl unfolding affine_source_def Let_def SD_IsUnsigned_def img_def
      by (fastforce split: if_splits option.splits)
    then show ?thesis
    proof cases
      case right
      note f = rr [OF right(1)]
      have "img y' = (if flip then c - rd (\<not> u) y' else rd (\<not> u) y' + c) \<and> fits_int u w (img y') \<and>
          (hasConvexBounds d \<or> SInt_make w (word_of_int (img y')) \<in> CR_gamma (numeric d))" if "y' \<in> CR_gamma (numeric (sr_domain s))" for y'
        using fit [OF l(2) _ right(2)] mem [OF l(2) _ right(2)] that f by (simp add: img_def)
      from moved_fragments [where y = x, OF _ _ _ _ fs this d] show ?thesis
        using f fl zk right(2) [of x] gs by (simp add: SD_IsUnsigned_def)
    next
      case left
      note f = lr [OF left(1)]
      have "img y' = (if flip then c - rd (\<not> u) y' else rd (\<not> u) y' + c) \<and> fits_int u w (img y') \<and>
          (hasConvexBounds d \<or> SInt_make w (word_of_int (img y')) \<in> CR_gamma (numeric d))" if "y' \<in> CR_gamma (numeric (sr_domain s))" for y'
        using fit [OF _ r(2) left(2)] mem [OF _ r(2) left(2)] that f by (simp add: img_def)
      from moved_fragments [where y = v, OF _ _ _ _ fs this d] show ?thesis
        using f fl zk left(2) [of v] gs by (simp add: SD_IsUnsigned_def)
    qed
  qed
  then show "frags_hold u gs (rd (\<not> u) z)" "frags_wf w u gs" "ends_inside d gs" by blast+
qed

end
