(* ===== verification/Widening.thy ===== *)
theory Widening
  imports Arith_Congruence
begin

text \<open>
  Loop widening (\<^verbatim>\<open>StrictlyLess\<close> to \<^verbatim>\<open>WidenSIntDomain\<close> and the body of \<^verbatim>\<open>ApplyLoopWidening\<close>
  of \<^verbatim>\<open>ValueRangeAnalysis.cpp\<close>): it never loses a value, and repeated widening with
  the same landmarks reaches a range that holds the next image after a number of steps that
  is linear in the landmarks.
\<close>

definition StrictlyLess :: "SInt \<Rightarrow> SInt \<Rightarrow> bool \<Rightarrow> bool" where
  "StrictlyLess lhs rhs isUnsigned = (if isUnsigned then SInt_Ult lhs rhs else SInt_Slt lhs rhs)"

definition StrictlyGreater :: "SInt \<Rightarrow> SInt \<Rightarrow> bool \<Rightarrow> bool" where
  "StrictlyGreater lhs rhs isUnsigned = (if isUnsigned then SInt_Ugt lhs rhs else SInt_Sgt lhs rhs)"

definition FindUpperWideningThreshold :: "SInt list \<Rightarrow> SInt \<Rightarrow> bool \<Rightarrow> SInt option" where
  "FindUpperWideningThreshold thresholds bound isUnsigned =
     foldl (\<lambda>result threshold.
       if width threshold \<noteq> width bound \<or> StrictlyLess threshold bound isUnsigned then result
       else case result of
              None \<Rightarrow> Some threshold
            | Some r \<Rightarrow> if StrictlyLess threshold r isUnsigned then Some threshold else result) None thresholds"

definition FindLowerWideningThreshold :: "SInt list \<Rightarrow> SInt \<Rightarrow> bool \<Rightarrow> SInt option" where
  "FindLowerWideningThreshold thresholds bound isUnsigned =
     foldl (\<lambda>result threshold.
       if width threshold \<noteq> width bound \<or> StrictlyGreater threshold bound isUnsigned then result
       else case result of
              None \<Rightarrow> Some threshold
            | Some r \<Rightarrow> if StrictlyGreater threshold r isUnsigned then Some threshold else result) None thresholds"

definition CrossedUpperWideningThreshold :: "SInt list \<Rightarrow> SInt \<Rightarrow> SInt \<Rightarrow> bool \<Rightarrow> bool" where
  "CrossedUpperWideningThreshold thresholds previousBound currentBound isUnsigned =
     list_ex (\<lambda>threshold. width threshold = width previousBound \<and>
       \<not> StrictlyLess threshold previousBound isUnsigned \<and> StrictlyLess threshold currentBound isUnsigned) thresholds"

definition CrossedLowerWideningThreshold :: "SInt list \<Rightarrow> SInt \<Rightarrow> SInt \<Rightarrow> bool \<Rightarrow> bool" where
  "CrossedLowerWideningThreshold thresholds previousBound currentBound isUnsigned =
     list_ex (\<lambda>threshold. width threshold = width previousBound \<and>
       \<not> StrictlyGreater threshold previousBound isUnsigned \<and> StrictlyGreater threshold currentBound isUnsigned) thresholds"

definition MakeFiniteWideningRange :: "SInt \<Rightarrow> SInt \<Rightarrow> bool \<Rightarrow> SIntDomain" where
  "MakeFiniteWideningRange lo hi isUnsigned =
     SD_Intersect (SD_FromNumeric GE lo isUnsigned) (SD_FromNumeric LE hi isUnsigned)"

definition WidenSIntDomain :: "SIntDomain \<Rightarrow> SIntDomain \<Rightarrow> SInt list \<Rightarrow> SIntDomain" where
  "WidenSIntDomain previous current thresholds =
     (let w = SD_Width current; isUnsigned = SD_IsUnsigned current
      in if SD_Width previous \<noteq> w \<or> SD_IsUnsigned previous \<noteq> isUnsigned then SD_Top w isUnsigned
         else
           let previousNumeric = SD_NumericBound previous; currentNumeric = SD_NumericBound current
           in if CR_IsEmptySet previousNumeric then current
              else
                let joinedNumeric = CR_UnionWith previousNumeric currentNumeric (PreferFromBool isUnsigned)
                in if CR_IsFullSet joinedNumeric \<or> CR_IsWrappedSet joinedNumeric \<or> CR_IsSignWrappedSet joinedNumeric \<or>
                      CR_IsWrappedSet currentNumeric \<or> CR_IsSignWrappedSet currentNumeric \<or>
                      CR_IsWrappedSet previousNumeric \<or> CR_IsSignWrappedSet previousNumeric then SD_Top w isUnsigned
                   else
                     let previousMin = CR_MinValue previousNumeric isUnsigned; previousMax = CR_MaxValue previousNumeric isUnsigned;
                         joinedMin = CR_MinValue joinedNumeric isUnsigned; joinedMax = CR_MaxValue joinedNumeric isUnsigned;
                         lowerMovedDown = StrictlyLess joinedMin previousMin isUnsigned;
                         upperMovedUp = StrictlyGreater joinedMax previousMax isUnsigned;
                         thresholdMin = FindLowerWideningThreshold thresholds joinedMin isUnsigned;
                         thresholdMax = FindUpperWideningThreshold thresholds joinedMax isUnsigned;
                         crossedLower = CrossedLowerWideningThreshold thresholds previousMin joinedMin isUnsigned;
                         crossedUpper = CrossedUpperWideningThreshold thresholds previousMax joinedMax isUnsigned
                     in if lowerMovedDown \<and> upperMovedUp then
                          let lo = (case thresholdMin of Some t \<Rightarrow> t
                                | None \<Rightarrow> if crossedLower then joinedMin
                                    else if isUnsigned then SInt_UMinValue w else SInt_SMinValue w);
                              hi = (case thresholdMax of Some t \<Rightarrow> t
                                | None \<Rightarrow> if crossedUpper then joinedMax
                                    else if isUnsigned then SInt_UMaxValue w else SInt_SMaxValue w)
                          in MakeFiniteWideningRange lo hi isUnsigned
                        else if upperMovedUp then
                          (case thresholdMax of
                             Some t \<Rightarrow> MakeFiniteWideningRange joinedMin t isUnsigned
                           | None \<Rightarrow> if crossedUpper then MakeFiniteWideningRange joinedMin joinedMax isUnsigned
                                else SD_FromNumeric GE joinedMin isUnsigned)
                        else if lowerMovedDown then
                          (case thresholdMin of
                             Some t \<Rightarrow> MakeFiniteWideningRange t joinedMax isUnsigned
                           | None \<Rightarrow> if crossedLower then MakeFiniteWideningRange joinedMin joinedMax isUnsigned
                                else SD_FromNumeric LE joinedMax isUnsigned)
                        else SD_make joinedNumeric isUnsigned)"

section \<open>Intervals\<close>

text \<open>A half-line from below starts at the least value, unless it is everything.\<close>

lemma From_LE_lower:
  assumes b: "SInt_wf b"
  shows "CR_IsFullSet (CR_From LE b s) \<or> rd s (lower (CR_From LE b s)) = rd s (least_value (\<not> s) (width b))"
proof (cases s)
  case True
  then show ?thesis using b by (auto simp: CR_From_def Let_def least_value_def rd_def)
next
  case False
  then show ?thesis using b by (auto simp: CR_From_def Let_def least_value_def rd_def)
qed

lemma rd_least: "SInt_wf v \<Longrightarrow> width v = w \<Longrightarrow> rd (\<not> u) (least_value u w) \<le> rd (\<not> u) v"
  "SInt_wf v \<Longrightarrow> width v = w \<Longrightarrow> rd (\<not> u) v \<le> rd (\<not> u) (greatest_value u w)"
  using rd_bounds [of v "\<not> u"] extreme_facts [of u w] by (auto split: if_splits)

lemma finite_range:
  assumes a: "SInt_wf a" "SInt_wf b" "width a = w" "width b = w" "rd (\<not> u) a \<le> rd (\<not> u) b"
  shows "CR_gamma (CR_IntersectWith (CR_From GE a (\<not> u)) (CR_From LE b (\<not> u)) t) =
    {v. SInt_wf v \<and> width v = w \<and> rd (\<not> u) a \<le> rd (\<not> u) v \<and> rd (\<not> u) v \<le> rd (\<not> u) b}"
proof -
  let ?p = "CR_From GE a (\<not> u)" and ?q = "CR_From LE b (\<not> u)"
  have wf: "CR_wf ?p" "CR_wf ?q" "CR_Width ?q = CR_Width ?p" using a by (simp_all add: From_wf)
  have mem: "CR_gamma ?p \<inter> CR_gamma ?q = {v. SInt_wf v \<and> width v = w \<and> rd (\<not> u) a \<le> rd (\<not> u) v \<and> rd (\<not> u) v \<le> rd (\<not> u) b}"
    by (intro set_eqI) (simp add: mem_From a, blast)
  have ne: "\<not> CR_IsEmptySet ?p" "\<not> CR_IsEmptySet ?q"
    using mem_EmptySet [of ?p a] mem_EmptySet [of ?q b] by (simp_all add: mem_From a) blast+
  have "CR_gamma (CR_IntersectWith ?p ?q t) = CR_gamma ?p \<inter> CR_gamma ?q"
  proof (cases "CR_IsFullSet ?p \<or> CR_IsFullSet ?q")
    case True
    have full: "CR_gamma r = {v. SInt_wf v \<and> width v = w}" if "CR_IsFullSet r" "CR_wf r" "CR_Width r = w" for r
      using gamma_full_iff [OF that(2)] that(1,3) by simp
    have sub: "CR_gamma ?p \<subseteq> {v. SInt_wf v \<and> width v = w}" "CR_gamma ?q \<subseteq> {v. SInt_wf v \<and> width v = w}"
      by (simp_all add: subset_iff mem_From a)
    show ?thesis
    proof (cases "CR_IsFullSet ?q")
      case fq: True
      then have "CR_IntersectWith ?p ?q t = ?p" by (subst CR_IntersectWith.simps) simp
      moreover have "CR_gamma ?q = {v. SInt_wf v \<and> width v = w}" using full [OF fq wf(2)] a by simp
      ultimately show ?thesis using sub(1) by (simp only: Int_absorb2)
    next
      case fq: False
      then have fp: "CR_IsFullSet ?p" using True by blast
      have "CR_IntersectWith ?p ?q t = ?q" using fq fp ne by (subst CR_IntersectWith.simps) simp
      moreover have "CR_gamma ?p = {v. SInt_wf v \<and> width v = w}" using full [OF fp wf(1)] a by simp
      ultimately show ?thesis using sub(2) by (simp only: Int_absorb1)
    qed
  next
    case False
    have "\<not> overlap_twice ?p ?q"
    proof
      assume o: "overlap_twice ?p ?q"
      then have "lower ?q \<in> CR_gamma ?p" by (simp add: overlap_twice_def)
      then have "rd (\<not> u) a \<le> rd (\<not> u) (least_value u w)" using From_LE_lower [OF a(2), of "\<not> u"] False a by (simp add: mem_From)
      then have "rd (\<not> u) a \<le> rd (\<not> u) v" if "SInt_wf v" "width v = w" for v using rd_least(1) [OF that, of u] by linarith
      then have "CR_gamma ?p = {v. SInt_wf v \<and> width v = CR_Width ?p}" using a by (intro set_eqI) (simp add: mem_From, blast)
      then show False using gamma_full_iff [OF wf(1)] False by blast
    qed
    then show ?thesis using IntersectWith_meets [OF wf] by (auto simp: meets_def)
  qed
  then show ?thesis using mem by simp
qed

lemma no_symbols: "SD_wf (SD_FromNumeric rel v u) \<longleftrightarrow> CR_wf (CR_From rel v (\<not> u))" "symbolics (SD_FromNumeric rel v u) = []"
  "SD_Width (SD_FromNumeric rel v u) = width v" "unsignedFlag (SD_FromNumeric rel v u) = u"
  "numeric (SD_FromNumeric rel v u) = CR_From rel v (\<not> u)"
  by (simp_all add: SD_FromNumeric_def SD_make_def SD_wf_def SD_Width_def)

definition between :: "bool \<Rightarrow> IntWidth \<Rightarrow> int \<Rightarrow> int \<Rightarrow> SInt set" where
  "between u w l h = {v. SInt_wf v \<and> width v = w \<and> l \<le> rd (\<not> u) v \<and> rd (\<not> u) v \<le> h}"

lemma MakeFiniteWideningRange_facts:
  assumes a: "SInt_wf a" "SInt_wf b" "width a = w" "width b = w" "rd (\<not> u) a \<le> rd (\<not> u) b"
  shows "SD_wf (MakeFiniteWideningRange a b u)" "SD_Width (MakeFiniteWideningRange a b u) = w"
    "unsignedFlag (MakeFiniteWideningRange a b u) = u" "SD_models \<sigma> (MakeFiniteWideningRange a b u) v \<longleftrightarrow> v \<in> between u w (rd (\<not> u) a) (rd (\<not> u) b)"
    "CR_gamma (numeric (MakeFiniteWideningRange a b u)) = between u w (rd (\<not> u) a) (rd (\<not> u) b)"
proof -
  let ?p = "SD_FromNumeric GE a u" and ?q = "SD_FromNumeric LE b u" and ?m = "MakeFiniteWideningRange a b u"
  have ok: "SD_wf ?p" "SD_wf ?q" "SD_Width ?q = SD_Width ?p" "unsignedFlag ?q = unsignedFlag ?p"
    using a by (simp_all add: no_symbols From_wf)
  note f = Intersect_facts [OF ok, folded MakeFiniteWideningRange_def]
  show "SD_wf ?m" "SD_Width ?m = w" "unsignedFlag ?m = u" using f(1-3) a by (simp_all add: no_symbols)
  have "SD_models (\<lambda>_. 0) ?m a" using a by (intro f(4)) (simp_all add: SD_models_iff bounds_hold_def no_symbols mem_From)
  then have "\<not> CR_IsEmptySet (numeric ?m)" using mem_EmptySet by (auto simp: SD_models_iff)
  moreover have "SD_Intersects ?p ?q \<noteq> None" using Intersects_merge [OF ok] by blast
  ultimately have "numeric ?m = CR_IntersectWith (CR_From GE a (\<not> u)) (CR_From LE b (\<not> u)) Smallest"
    using Intersect_numeric [of ?p ?q] by (simp add: MakeFiniteWideningRange_def no_symbols)
  then show g: "CR_gamma (numeric ?m) = between u w (rd (\<not> u) a) (rd (\<not> u) b)"
    using finite_range [OF a] by (simp add: between_def)
  show "SD_models \<sigma> ?m v \<longleftrightarrow> v \<in> between u w (rd (\<not> u) a) (rd (\<not> u) b)"
  proof
    assume "v \<in> between u w (rd (\<not> u) a) (rd (\<not> u) b)"
    then show "SD_models \<sigma> ?m v" using a
      by (intro f(4)) (simp_all add: SD_models_iff bounds_hold_def no_symbols mem_From between_def)
  qed (simp add: SD_models_iff g)
qed

text \<open>The least and the greatest element in the order of the domain.\<close>

lemma extremes:
  assumes r: "CR_wf r" "\<not> CR_IsEmptySet r"
  shows "SInt_wf (CR_MinValue r u)" "width (CR_MinValue r u) = CR_Width r" "CR_MinValue r u \<in> CR_gamma r"
    "SInt_wf (CR_MaxValue r u)" "width (CR_MaxValue r u) = CR_Width r" "CR_MaxValue r u \<in> CR_gamma r"
    "v \<in> CR_gamma r \<Longrightarrow> rd (\<not> u) (CR_MinValue r u) \<le> rd (\<not> u) v" "v \<in> CR_gamma r \<Longrightarrow> rd (\<not> u) v \<le> rd (\<not> u) (CR_MaxValue r u)"
  using minmax_simps [OF r(1)] UMaxMin_mem [OF r] SMaxMin_mem [OF r] MinMax_rd [OF r(1), of v u]
  by (simp_all add: CR_MinValue_def CR_MaxValue_def)

lemma convex_between:
  assumes r: "CR_wf r" "\<not> CR_IsEmptySet r" "range_convex u r"
  shows "CR_gamma r = between u (CR_Width r) (rd (\<not> u) (CR_MinValue r u)) (rd (\<not> u) (CR_MaxValue r u))"
  using range_convex_between [OF r(1,3) extremes(3,6) [OF r(1,2), of u]] extremes(7,8) [OF r(1,2)] gamma_wf gamma_width
  by (auto simp: between_def)

lemma extremes_between:
  assumes r: "CR_wf r" "CR_gamma r = between u w (rd (\<not> u) a) (rd (\<not> u) b)"
    and a: "SInt_wf a" "SInt_wf b" "width a = w" "width b = w" "rd (\<not> u) a \<le> rd (\<not> u) b"
  shows "\<not> CR_IsEmptySet r" "rd (\<not> u) (CR_MinValue r u) = rd (\<not> u) a" "rd (\<not> u) (CR_MaxValue r u) = rd (\<not> u) b"
proof -
  have m: "a \<in> CR_gamma r" "b \<in> CR_gamma r" using a by (simp_all add: r(2) between_def)
  show ne: "\<not> CR_IsEmptySet r" using m(1) mem_EmptySet by blast
  note e = extremes [OF r(1) ne, where u = u]
  have "CR_MinValue r u \<in> between u w (rd (\<not> u) a) (rd (\<not> u) b)" "CR_MaxValue r u \<in> between u w (rd (\<not> u) a) (rd (\<not> u) b)"
    using e(3,6) r(2) by simp_all
  then show "rd (\<not> u) (CR_MinValue r u) = rd (\<not> u) a" "rd (\<not> u) (CR_MaxValue r u) = rd (\<not> u) b"
    using e(7) [OF m(1)] e(8) [OF m(2)] by (simp_all add: between_def)
qed

section \<open>Landmarks\<close>

definition landmarks :: "bool \<Rightarrow> IntWidth \<Rightarrow> SInt list \<Rightarrow> int set" where
  "landmarks u w ts = rd (\<not> u) ` {t \<in> set ts. width t = w}"

lemma landmarks_finite: "finite (landmarks u w ts)" "card (landmarks u w ts) \<le> length ts"
proof -
  have "card {t \<in> set ts. width t = w} \<le> card (set ts)" by (intro card_mono) auto
  moreover have "card (landmarks u w ts) \<le> card {t \<in> set ts. width t = w}" unfolding landmarks_def by (intro card_image_le) simp
  ultimately show "card (landmarks u w ts) \<le> length ts" using card_length [of ts] by linarith
qed (simp add: landmarks_def)

lemma Strictly_rd:
  assumes "SInt_wf x" "SInt_wf y" "width y = width x"
  shows "StrictlyLess x y u \<longleftrightarrow> rd (\<not> u) x < rd (\<not> u) y" "StrictlyGreater x y u \<longleftrightarrow> rd (\<not> u) y < rd (\<not> u) x"
  using assms by (simp_all add: StrictlyLess_def StrictlyGreater_def ucmp_uv scmp_sv rd_def)

text \<open>The search keeps the best candidate in the order of a key.\<close>

definition found :: "('a \<Rightarrow> bool) \<Rightarrow> ('a \<Rightarrow> int) \<Rightarrow> 'a option \<Rightarrow> 'a list \<Rightarrow> 'a option \<Rightarrow> bool" where
  "found skip key acc ts res \<longleftrightarrow> (case res of
     None \<Rightarrow> acc = None \<and> (\<forall>t \<in> set ts. skip t)
   | Some r \<Rightarrow> (r \<in> set ts \<and> \<not> skip r \<or> acc = Some r) \<and> (\<forall>t \<in> set ts. skip t \<or> key r \<le> key t) \<and> (\<forall>a. acc = Some a \<longrightarrow> key r \<le> key a))"

lemma search_best:
  assumes "\<forall>t \<in> set ts. skip t \<or> ok t" "\<And>a. acc = Some a \<Longrightarrow> ok a" "\<And>t r. ok t \<Longrightarrow> ok r \<Longrightarrow> better t r = (key t < key r)"
  shows "found skip key acc ts (foldl (\<lambda>res t. if skip t then res else case res of None \<Rightarrow> Some t
      | Some r \<Rightarrow> if better t r then Some t else res) acc ts)"
  using assms(1,2)
proof (induction ts arbitrary: acc)
  case Nil
  then show ?case by (auto simp: found_def split: option.split)
next
  case (Cons t ts)
  show ?case
  proof (cases "skip t")
    case True
    then show ?thesis using Cons.IH [of acc] Cons.prems by (auto simp: found_def split: option.split)
  next
    case False
    then have t: "ok t" using Cons.prems by simp
    show ?thesis
    proof (cases acc)
      case None
      then show ?thesis using False t Cons.IH [of "Some t"] Cons.prems by (auto simp: found_def split: option.splits)
    next
      case (Some a)
      then have a: "better t a = (key t < key a)" using assms(3) t Cons.prems(2) by blast
      have "found skip key (Some (if better t a then t else a)) ts (foldl (\<lambda>res t. if skip t then res else case res of None \<Rightarrow> Some t
          | Some r \<Rightarrow> if better t r then Some t else res) (Some (if better t a then t else a)) ts)"
        using Cons.IH [of "Some (if better t a then t else a)"] Cons.prems t Some by simp
      then show ?thesis using Some False a by (cases "key t < key a") (auto simp: found_def split: option.splits)
    qed
  qed
qed

lemma FindUpper_spec:
  assumes ts: "\<forall>t \<in> set ts. SInt_wf t" and b: "SInt_wf b" "width b = w"
  shows "FindUpperWideningThreshold ts b u = Some t \<Longrightarrow> SInt_wf t \<and> width t = w \<and> rd (\<not> u) t \<in> landmarks u w ts \<and> rd (\<not> u) b \<le> rd (\<not> u) t"
    "FindUpperWideningThreshold ts b u = None \<Longrightarrow> \<forall>k \<in> landmarks u w ts. k < rd (\<not> u) b"
proof -
  let ?skip = "\<lambda>t. width t \<noteq> width b \<or> StrictlyLess t b u"
  have c: "found ?skip (rd (\<not> u)) None ts (FindUpperWideningThreshold ts b u)"
    unfolding FindUpperWideningThreshold_def
    by (rule search_best [where ok = "\<lambda>r. SInt_wf r \<and> width r = w"]) (use ts b Strictly_rd in auto)
  show "SInt_wf t \<and> width t = w \<and> rd (\<not> u) t \<in> landmarks u w ts \<and> rd (\<not> u) b \<le> rd (\<not> u) t" if "FindUpperWideningThreshold ts b u = Some t"
    using c [unfolded found_def] that ts b Strictly_rd(1) [of t b u] by (auto simp: landmarks_def)
  show "\<forall>k \<in> landmarks u w ts. k < rd (\<not> u) b" if "FindUpperWideningThreshold ts b u = None"
    using c [unfolded found_def] that ts b Strictly_rd(1) [of _ b u] by (auto simp: landmarks_def)
qed

lemma FindLower_spec:
  assumes ts: "\<forall>t \<in> set ts. SInt_wf t" and b: "SInt_wf b" "width b = w"
  shows "FindLowerWideningThreshold ts b u = Some t \<Longrightarrow> SInt_wf t \<and> width t = w \<and> rd (\<not> u) t \<in> landmarks u w ts \<and> rd (\<not> u) t \<le> rd (\<not> u) b"
    "FindLowerWideningThreshold ts b u = None \<Longrightarrow> \<forall>k \<in> landmarks u w ts. rd (\<not> u) b < k"
proof -
  let ?skip = "\<lambda>t. width t \<noteq> width b \<or> StrictlyGreater t b u"
  have c: "found ?skip (\<lambda>t. - rd (\<not> u) t) None ts (FindLowerWideningThreshold ts b u)"
    unfolding FindLowerWideningThreshold_def
    by (rule search_best [where ok = "\<lambda>r. SInt_wf r \<and> width r = w"]) (use ts b Strictly_rd in auto)
  show "SInt_wf t \<and> width t = w \<and> rd (\<not> u) t \<in> landmarks u w ts \<and> rd (\<not> u) t \<le> rd (\<not> u) b" if "FindLowerWideningThreshold ts b u = Some t"
    using c [unfolded found_def] that ts b Strictly_rd(2) [of t b u] by (auto simp: landmarks_def)
  show "\<forall>k \<in> landmarks u w ts. rd (\<not> u) b < k" if "FindLowerWideningThreshold ts b u = None"
    using c [unfolded found_def] that ts b Strictly_rd(2) [of _ b u] by (auto simp: landmarks_def)
qed

section \<open>Progress\<close>

text \<open>How many steps a bound can still make: past the landmarks, then to the limit of the type.\<close>

definition ahead :: "int set \<Rightarrow> int \<Rightarrow> int \<Rightarrow> nat" where
  "ahead T limit b = card {t \<in> T. b \<le> t} + card {t \<in> T. b < t} + (if b = limit then 0 else 1)"

lemma ahead_bound: "finite T \<Longrightarrow> ahead T limit b \<le> 2 * card T + 1"
proof -
  assume T: "finite T"
  have "card {t \<in> T. b \<le> t} \<le> card T" "card {t \<in> T. b < t} \<le> card T" by (rule card_mono [OF T], blast)+
  moreover have "(if b = limit then 0 else 1 :: nat) \<le> 1" by simp
  ultimately show ?thesis unfolding ahead_def by linarith
qed

lemma ahead_step:
  assumes T: "finite T" and b: "b < j" "j \<le> c" "c \<le> limit"
    and how: "c \<in> T \<or> (\<exists>t \<in> T. b \<le> t \<and> t < j) \<and> (\<forall>t \<in> T. t < j) \<or> c = limit"
  shows "ahead T limit c < ahead T limit b"
proof -
  have fin: "finite {t \<in> T. P t}" for P using T by simp
  have sub: "{t \<in> T. c \<le> t} \<subseteq> {t \<in> T. b \<le> t}" "{t \<in> T. c < t} \<subseteq> {t \<in> T. b < t}" using b(1,2) by force+
  note m = card_mono [OF fin sub(1)] card_mono [OF fin sub(2)]
  have l: "(if b = limit then 0 else 1 :: nat) = 1" "(if c = limit then 0 else 1 :: nat) \<le> 1" using b by simp_all
  from how consider (landmark) "c \<in> T" | (crossed) "\<exists>t \<in> T. b \<le> t \<and> t < j" | (last) "c = limit" by blast
  then show ?thesis
  proof cases
    case landmark
    have "{t \<in> T. c < t} \<noteq> {t \<in> T. b < t}" using landmark b(1,2) by force
    then have "card {t \<in> T. c < t} < card {t \<in> T. b < t}" using sub(2) by (intro psubset_card_mono [OF fin]) blast
    then show ?thesis using m(1) l unfolding ahead_def by linarith
  next
    case crossed
    have "{t \<in> T. c \<le> t} \<noteq> {t \<in> T. b \<le> t}" using crossed b(2) by force
    then have "card {t \<in> T. c \<le> t} < card {t \<in> T. b \<le> t}" using sub(1) by (intro psubset_card_mono [OF fin]) blast
    then show ?thesis using m(2) l unfolding ahead_def by linarith
  next
    case last
    then have "(if c = limit then 0 else 1 :: nat) = 0" by simp
    then show ?thesis using m l(1) unfolding ahead_def by linarith
  qed
qed

text \<open>The bounds a widened interval is given.\<close>

definition upper_choice :: "SInt list \<Rightarrow> SInt \<Rightarrow> SInt \<Rightarrow> bool \<Rightarrow> SInt" where
  "upper_choice ts p j u = (case FindUpperWideningThreshold ts j u of Some t \<Rightarrow> t
     | None \<Rightarrow> if CrossedUpperWideningThreshold ts p j u then j else greatest_value u (width j))"

definition lower_choice :: "SInt list \<Rightarrow> SInt \<Rightarrow> SInt \<Rightarrow> bool \<Rightarrow> SInt" where
  "lower_choice ts p j u = (case FindLowerWideningThreshold ts j u of Some t \<Rightarrow> t
     | None \<Rightarrow> if CrossedLowerWideningThreshold ts p j u then j else least_value u (width j))"

abbreviation upper_ahead :: "bool \<Rightarrow> IntWidth \<Rightarrow> SInt list \<Rightarrow> int \<Rightarrow> nat" where
  "upper_ahead u w ts \<equiv> ahead (landmarks u w ts) (rd (\<not> u) (greatest_value u w))"

abbreviation lower_ahead :: "bool \<Rightarrow> IntWidth \<Rightarrow> SInt list \<Rightarrow> int \<Rightarrow> nat" where
  "lower_ahead u w ts b \<equiv> ahead (uminus ` landmarks u w ts) (- rd (\<not> u) (least_value u w)) (- b)"

lemma upper_choice_facts:
  assumes ts: "\<forall>t \<in> set ts. SInt_wf t" and p: "SInt_wf p" "width p = w" and j: "SInt_wf j" "width j = w"
  shows "SInt_wf (upper_choice ts p j u)" "width (upper_choice ts p j u) = w" "rd (\<not> u) j \<le> rd (\<not> u) (upper_choice ts p j u)"
    "rd (\<not> u) p < rd (\<not> u) j \<Longrightarrow> upper_ahead u w ts (rd (\<not> u) (upper_choice ts p j u)) < upper_ahead u w ts (rd (\<not> u) p)"
proof -
  let ?c = "upper_choice ts p j u"
  note f = FindUpper_spec [OF ts j, of u]
  have c: "SInt_wf ?c \<and> width ?c = w \<and> rd (\<not> u) j \<le> rd (\<not> u) ?c"
    using f j rd_least(2) [OF j] extreme_facts(1-4) [of u w] by (auto simp: upper_choice_def split: option.split)
  then show "SInt_wf ?c" "width ?c = w" "rd (\<not> u) j \<le> rd (\<not> u) ?c" by blast+
  have "rd (\<not> u) ?c \<in> landmarks u w ts \<or> (\<exists>t \<in> landmarks u w ts. rd (\<not> u) p \<le> t \<and> t < rd (\<not> u) j) \<and> (\<forall>t \<in> landmarks u w ts. t < rd (\<not> u) j) \<or>
    rd (\<not> u) ?c = rd (\<not> u) (greatest_value u w)"
  proof (cases "FindUpperWideningThreshold ts j u")
    case None
    have "\<exists>t \<in> landmarks u w ts. rd (\<not> u) p \<le> t \<and> t < rd (\<not> u) j" if "CrossedUpperWideningThreshold ts p j u"
      using that ts p j Strictly_rd by (fastforce simp: CrossedUpperWideningThreshold_def list_ex_iff landmarks_def)
    then show ?thesis using f(2) [OF None] None j by (auto simp: upper_choice_def)
  next
    case (Some t)
    then show ?thesis using f(1) [OF Some] by (simp add: upper_choice_def)
  qed
  then show "rd (\<not> u) p < rd (\<not> u) j \<Longrightarrow> upper_ahead u w ts (rd (\<not> u) ?c) < upper_ahead u w ts (rd (\<not> u) p)"
    using c rd_least(2) [of ?c w u] by (intro ahead_step [OF landmarks_finite(1)]) auto
qed

lemma lower_choice_facts:
  assumes ts: "\<forall>t \<in> set ts. SInt_wf t" and p: "SInt_wf p" "width p = w" and j: "SInt_wf j" "width j = w"
  shows "SInt_wf (lower_choice ts p j u)" "width (lower_choice ts p j u) = w" "rd (\<not> u) (lower_choice ts p j u) \<le> rd (\<not> u) j"
    "rd (\<not> u) j < rd (\<not> u) p \<Longrightarrow> lower_ahead u w ts (rd (\<not> u) (lower_choice ts p j u)) < lower_ahead u w ts (rd (\<not> u) p)"
proof -
  let ?c = "lower_choice ts p j u"
  note f = FindLower_spec [OF ts j, of u]
  have c: "SInt_wf ?c \<and> width ?c = w \<and> rd (\<not> u) ?c \<le> rd (\<not> u) j"
    using f j rd_least(1) [OF j] extreme_facts(1-4) [of u w] by (auto simp: lower_choice_def split: option.split)
  then show "SInt_wf ?c" "width ?c = w" "rd (\<not> u) ?c \<le> rd (\<not> u) j" by blast+
  have "rd (\<not> u) ?c \<in> landmarks u w ts \<or> (\<exists>t \<in> landmarks u w ts. t \<le> rd (\<not> u) p \<and> rd (\<not> u) j < t) \<and> (\<forall>t \<in> landmarks u w ts. rd (\<not> u) j < t) \<or>
    rd (\<not> u) ?c = rd (\<not> u) (least_value u w)"
  proof (cases "FindLowerWideningThreshold ts j u")
    case None
    have "\<exists>t \<in> landmarks u w ts. t \<le> rd (\<not> u) p \<and> rd (\<not> u) j < t" if "CrossedLowerWideningThreshold ts p j u"
      using that ts p j Strictly_rd by (fastforce simp: CrossedLowerWideningThreshold_def list_ex_iff landmarks_def)
    then show ?thesis using f(2) [OF None] None j by (auto simp: lower_choice_def)
  next
    case (Some t)
    then show ?thesis using f(1) [OF Some] by (simp add: lower_choice_def)
  qed
  then have "- rd (\<not> u) ?c \<in> uminus ` landmarks u w ts \<or> (\<exists>t \<in> uminus ` landmarks u w ts. - rd (\<not> u) p \<le> t \<and> t < - rd (\<not> u) j) \<and>
      (\<forall>t \<in> uminus ` landmarks u w ts. t < - rd (\<not> u) j) \<or> - rd (\<not> u) ?c = - rd (\<not> u) (least_value u w)"
    by auto
  then show "rd (\<not> u) j < rd (\<not> u) p \<Longrightarrow> lower_ahead u w ts (rd (\<not> u) ?c) < lower_ahead u w ts (rd (\<not> u) p)"
    using c rd_least(1) [of ?c w u] by (intro ahead_step [where j = "- rd (\<not> u) j", OF finite_imageI [OF landmarks_finite(1)]]) auto
qed

section \<open>Widening as a choice of bounds\<close>

definition is_interval :: "SIntDomain \<Rightarrow> IntWidth \<Rightarrow> bool \<Rightarrow> SInt \<Rightarrow> SInt \<Rightarrow> bool" where
  "is_interval d w u lo hi \<longleftrightarrow> SInt_wf lo \<and> SInt_wf hi \<and> width lo = w \<and> width hi = w \<and> rd (\<not> u) lo \<le> rd (\<not> u) hi \<and>
     SD_wf d \<and> SD_Width d = w \<and> unsignedFlag d = u \<and>
     CR_gamma (numeric d) = between u w (rd (\<not> u) lo) (rd (\<not> u) hi) \<and>
     (\<forall>\<sigma> v. SD_models \<sigma> d v \<longleftrightarrow> v \<in> between u w (rd (\<not> u) lo) (rd (\<not> u) hi))"

lemma finite_interval:
  assumes "SInt_wf a" "SInt_wf b" "width a = w" "width b = w" "rd (\<not> u) a \<le> rd (\<not> u) b"
  shows "is_interval (MakeFiniteWideningRange a b u) w u a b"
  using MakeFiniteWideningRange_facts [OF assms] assms by (simp add: is_interval_def)

lemma half_line_interval:
  assumes a: "SInt_wf a" "width a = w"
  shows "is_interval (SD_FromNumeric GE a u) w u a (greatest_value u w)" "is_interval (SD_FromNumeric LE a u) w u (least_value u w) a"
  using a rd_least [of _ w u] extreme_facts(1-4) [of u w]
  by (auto simp: is_interval_def no_symbols From_wf SD_models_iff bounds_hold_def between_def mem_From)

definition widen_bounds :: "SIntDomain \<Rightarrow> ConstantRange \<Rightarrow> SInt list \<Rightarrow> bool \<Rightarrow> SInt \<times> SInt" where
  "widen_bounds p j ts u =
     (let pl = CR_MinValue (numeric p) u; ph = CR_MaxValue (numeric p) u; jl = CR_MinValue j u; jh = CR_MaxValue j u
      in (if StrictlyLess jl pl u then lower_choice ts pl jl u else jl,
          if StrictlyGreater jh ph u then upper_choice ts ph jh u else jh))"

lemma Widen_interval:
  assumes p: "SD_wf p" "\<not> CR_IsEmptySet (numeric p)" and c: "SD_wf c" and s: "SD_Width p = SD_Width c" "unsignedFlag p = unsignedFlag c"
    and ts: "\<forall>t \<in> set ts. SInt_wf t"
  defines "w \<equiv> SD_Width c" and "u \<equiv> unsignedFlag c"
    and "j \<equiv> CR_UnionWith (numeric p) (numeric c) (PreferFromBool (unsignedFlag c))"
  obtains (top) "WidenSIntDomain p c ts = SD_Top w u"
  | (interval) "is_interval (WidenSIntDomain p c ts) w u (fst (widen_bounds p j ts u)) (snd (widen_bounds p j ts u))"
      "range_convex u (numeric p)" "CR_wf j" "\<not> CR_IsEmptySet j" "CR_Width j = w" "\<not> CR_IsFullSet (numeric p)"
      "CR_gamma (numeric p) \<subseteq> CR_gamma j" "CR_gamma (numeric c) \<subseteq> CR_gamma j"
proof (cases "CR_IsFullSet j \<or> CR_IsWrappedSet j \<or> CR_IsSignWrappedSet j \<or> CR_IsWrappedSet (numeric c) \<or> CR_IsSignWrappedSet (numeric c) \<or>
    CR_IsWrappedSet (numeric p) \<or> CR_IsSignWrappedSet (numeric p)")
  case True
  then have "WidenSIntDomain p c ts = SD_Top w u"
    using p s by (simp add: WidenSIntDomain_def Let_def SD_NumericBound_def SD_IsUnsigned_def w_def u_def j_def)
  then show thesis by (rule top)
next
  case False
  have n: "CR_wf (numeric p)" "CR_wf (numeric c)" "CR_Width (numeric c) = CR_Width (numeric p)" "CR_Width (numeric p) = w"
    using p c s by (simp_all add: SD_wf_def SD_Width_def w_def)
  have j: "CR_wf j" "CR_Width j = w" using UnionWith_wf [OF n(1-3)] UnionWith_width [OF n(1-3)] n by (simp_all add: j_def)
  have sub: "CR_gamma (numeric p) \<subseteq> CR_gamma j" "CR_gamma (numeric c) \<subseteq> CR_gamma j"
    using UnionWith_left [OF n(1-3)] UnionWith_right [OF n(1-3)] by (auto simp: j_def)
  note P = extremes [OF n(1) p(2), where u = u]
  have je: "\<not> CR_IsEmptySet j" using P(3) sub(1) mem_EmptySet by blast
  note J = extremes [OF j(1) je, where u = u]
  have fp: "\<not> CR_IsFullSet (numeric p)"
  proof
    assume "CR_IsFullSet (numeric p)"
    then have "v \<in> CR_gamma j" if "SInt_wf v" "width v = CR_Width j" for v
      using subsetD [OF sub(1), of v] mem_FullSet [of "numeric p" v] that j(2) n(4) by simp
    then have "CR_gamma j = {v. SInt_wf v \<and> width v = CR_Width j}" by (auto dest: gamma_wf gamma_width)
    then show False using False gamma_full_iff [OF j(1)] by simp
  qed
  have cv: "range_convex u (numeric p)" "range_convex u j" using False by (simp_all add: range_convex_def)
  note wd = P(1,2,4,5) [unfolded n(4)] J(1,2,4,5) [unfolded j(2)]
  define pl ph jl jh where b: "pl = CR_MinValue (numeric p) u" "ph = CR_MaxValue (numeric p) u" "jl = CR_MinValue j u" "jh = CR_MaxValue j u"
  note wd = wd [folded b] and J' = J(7,8) [folded b]
  have ord: "rd (\<not> u) jl \<le> rd (\<not> u) jh" using J'(1) J(6) by (simp add: b)
  note U = upper_choice_facts [OF ts wd(3,4) wd(7,8), of u] and L = lower_choice_facts [OF ts wd(1,2) wd(5,6), of u]
  note Ls = L(1-3) order_trans [OF L(3) ord] and Us = U(1-3) order_trans [OF ord U(3)] order_trans [OF order_trans [OF L(3) ord] U(3)]
  have code: "WidenSIntDomain p c ts =
      (if StrictlyLess jl pl u \<and> StrictlyGreater jh ph u then MakeFiniteWideningRange (lower_choice ts pl jl u) (upper_choice ts ph jh u) u
       else if StrictlyGreater jh ph u then (case FindUpperWideningThreshold ts jh u of Some t \<Rightarrow> MakeFiniteWideningRange jl t u
         | None \<Rightarrow> if CrossedUpperWideningThreshold ts ph jh u then MakeFiniteWideningRange jl jh u else SD_FromNumeric GE jl u)
       else if StrictlyLess jl pl u then (case FindLowerWideningThreshold ts jl u of Some t \<Rightarrow> MakeFiniteWideningRange t jh u
         | None \<Rightarrow> if CrossedLowerWideningThreshold ts pl jl u then MakeFiniteWideningRange jl jh u else SD_FromNumeric LE jh u)
       else SD_make j u)"
  proof -
    have jd: "CR_UnionWith (numeric p) (numeric c) (PreferFromBool u) = j" by (simp add: j_def u_def)
    have g: "(if u then SInt_UMaxValue w else SInt_SMaxValue w) = greatest_value u (width jh)"
      "(if u then SInt_UMinValue w else SInt_SMinValue w) = least_value u (width jl)"
      using wd(6,8) by (simp_all add: greatest_value_def least_value_def)
    have t: "\<not> (SD_Width p \<noteq> w \<or> unsignedFlag p \<noteq> u)" using s by (simp add: w_def u_def)
    show ?thesis
      unfolding WidenSIntDomain_def Let_def SD_NumericBound_def SD_IsUnsigned_def w_def [symmetric] u_def [symmetric] jd
        b [symmetric] g upper_choice_def lower_choice_def
      by (simp only: t p(2) False if_False)
  qed
  have "is_interval (WidenSIntDomain p c ts) w u (if StrictlyLess jl pl u then lower_choice ts pl jl u else jl)
    (if StrictlyGreater jh ph u then upper_choice ts ph jh u else jh)"
  proof (cases "StrictlyLess jl pl u"; cases "StrictlyGreater jh ph u")
    assume "StrictlyLess jl pl u" "StrictlyGreater jh ph u"
    then show ?thesis using code finite_interval [OF Ls(1) Us(1) Ls(2) Us(2) Us(5)] by simp
  next
    assume c: "StrictlyLess jl pl u" "\<not> StrictlyGreater jh ph u"
    have "WidenSIntDomain p c ts = (if FindLowerWideningThreshold ts jl u = None \<and> \<not> CrossedLowerWideningThreshold ts pl jl u
        then SD_FromNumeric LE jh u else MakeFiniteWideningRange (lower_choice ts pl jl u) jh u)"
      using code c by (auto simp: lower_choice_def split: option.split)
    then show ?thesis
      using c finite_interval [OF Ls(1) wd(7) Ls(2) wd(8) Ls(4)] half_line_interval(2) [OF wd(7,8), of u] wd(6)
      by (auto simp: lower_choice_def)
  next
    assume c: "\<not> StrictlyLess jl pl u" "StrictlyGreater jh ph u"
    have "WidenSIntDomain p c ts = (if FindUpperWideningThreshold ts jh u = None \<and> \<not> CrossedUpperWideningThreshold ts ph jh u
        then SD_FromNumeric GE jl u else MakeFiniteWideningRange jl (upper_choice ts ph jh u) u)"
      using code c by (auto simp: upper_choice_def split: option.split)
    then show ?thesis
      using c finite_interval [OF wd(5) Us(1) wd(6) Us(2) Us(4)] half_line_interval(1) [OF wd(5,6), of u] wd(8)
      by (auto simp: upper_choice_def)
  next
    assume c: "\<not> StrictlyLess jl pl u" "\<not> StrictlyGreater jh ph u"
    have "CR_gamma j = between u w (rd (\<not> u) jl) (rd (\<not> u) jh)" using convex_between [OF j(1) je cv(2)] j(2) by (simp add: b)
    then show ?thesis using c code wd ord j
      by (simp add: is_interval_def SD_make_def SD_wf_def SD_Width_def SD_models_iff bounds_hold_def)
  qed
  then have "is_interval (WidenSIntDomain p c ts) w u (fst (widen_bounds p j ts u)) (snd (widen_bounds p j ts u))"
    by (simp only: widen_bounds_def Let_def b fst_conv snd_conv)
  then show thesis using interval cv(1) j je fp sub by blast
qed

section \<open>Widening loses nothing\<close>

lemma Top_facts [simp]: "SD_wf (SD_Top w u)" "SD_Width (SD_Top w u) = w" "unsignedFlag (SD_Top w u) = u"
  "symbolics (SD_Top w u) = []" "numeric (SD_Top w u) = CR_Full w"
  by (simp_all add: SD_Top_def SD_make_def SD_wf_def SD_Width_def)

lemma widen_bounds_facts:
  fixes u
  assumes j: "CR_wf j" "\<not> CR_IsEmptySet j" "CR_Width j = w" and p: "CR_wf (numeric p)" "\<not> CR_IsEmptySet (numeric p)" "CR_Width (numeric p) = w"
    and ts: "\<forall>t \<in> set ts. SInt_wf t"
  defines "lo \<equiv> fst (widen_bounds p j ts u)" and "hi \<equiv> snd (widen_bounds p j ts u)"
    and "pl \<equiv> CR_MinValue (numeric p) u" and "ph \<equiv> CR_MaxValue (numeric p) u"
  shows "rd (\<not> u) lo \<le> rd (\<not> u) (CR_MinValue j u)" "rd (\<not> u) (CR_MaxValue j u) \<le> rd (\<not> u) hi"
    "CR_gamma (numeric p) \<subseteq> CR_gamma j \<Longrightarrow> rd (\<not> u) lo = rd (\<not> u) pl \<or> lower_ahead u w ts (rd (\<not> u) lo) < lower_ahead u w ts (rd (\<not> u) pl)"
    "CR_gamma (numeric p) \<subseteq> CR_gamma j \<Longrightarrow> rd (\<not> u) hi = rd (\<not> u) ph \<or> upper_ahead u w ts (rd (\<not> u) hi) < upper_ahead u w ts (rd (\<not> u) ph)"
proof -
  note P = extremes [OF p(1,2), where u = u] and J = extremes [OF j(1,2), where u = u]
  have wd: "SInt_wf pl" "width pl = w" "SInt_wf ph" "width ph = w" using P(1,2,4,5) p(3) by (simp_all add: pl_def ph_def)
  have jd: "SInt_wf (CR_MinValue j u)" "width (CR_MinValue j u) = w" "SInt_wf (CR_MaxValue j u)" "width (CR_MaxValue j u) = w"
    using J(1,2,4,5) j(3) by simp_all
  note U = upper_choice_facts [OF ts wd(3,4) jd(3,4), of u] and L = lower_choice_facts [OF ts wd(1,2) jd(1,2), of u]
  have lo: "lo = (if rd (\<not> u) (CR_MinValue j u) < rd (\<not> u) pl then lower_choice ts pl (CR_MinValue j u) u else CR_MinValue j u)"
    unfolding lo_def widen_bounds_def Let_def pl_def [symmetric] fst_conv using Strictly_rd(1) [OF jd(1) wd(1)] jd(2) wd(2) by simp
  have hi: "hi = (if rd (\<not> u) ph < rd (\<not> u) (CR_MaxValue j u) then upper_choice ts ph (CR_MaxValue j u) u else CR_MaxValue j u)"
    unfolding hi_def widen_bounds_def Let_def ph_def [symmetric] snd_conv using Strictly_rd(2) [OF jd(3) wd(3)] jd(4) wd(4) by simp
  show "rd (\<not> u) lo \<le> rd (\<not> u) (CR_MinValue j u)" using L(3) by (simp add: lo)
  show "rd (\<not> u) (CR_MaxValue j u) \<le> rd (\<not> u) hi" using U(3) by (simp add: hi)
  assume sub: "CR_gamma (numeric p) \<subseteq> CR_gamma j"
  have "rd (\<not> u) (CR_MinValue j u) \<le> rd (\<not> u) pl" "rd (\<not> u) ph \<le> rd (\<not> u) (CR_MaxValue j u)"
    using J(7,8) subsetD [OF sub P(3)] subsetD [OF sub P(6)] by (simp_all add: pl_def ph_def)
  then show "rd (\<not> u) lo = rd (\<not> u) pl \<or> lower_ahead u w ts (rd (\<not> u) lo) < lower_ahead u w ts (rd (\<not> u) pl)"
    "rd (\<not> u) hi = rd (\<not> u) ph \<or> upper_ahead u w ts (rd (\<not> u) hi) < upper_ahead u w ts (rd (\<not> u) ph)"
    using L(4) U(4) by (auto simp: lo hi)
qed

lemma WidenSIntDomain_sound:
  assumes p: "SD_wf p" and c: "SD_wf c" and ts: "\<forall>t \<in> set ts. SInt_wf t"
  shows "SD_wf (WidenSIntDomain p c ts)" "SD_Width (WidenSIntDomain p c ts) = SD_Width c"
    "unsignedFlag (WidenSIntDomain p c ts) = unsignedFlag c"
    "SD_models \<sigma> c v \<Longrightarrow> SD_models \<sigma> (WidenSIntDomain p c ts) v"
    "SD_Width p = SD_Width c \<Longrightarrow> unsignedFlag p = unsignedFlag c \<Longrightarrow> v \<in> CR_gamma (numeric p) \<Longrightarrow> v \<in> CR_gamma (numeric (WidenSIntDomain p c ts))"
    "v \<in> CR_gamma (numeric c) \<Longrightarrow> v \<in> CR_gamma (numeric (WidenSIntDomain p c ts))"
proof -
  let ?d = "WidenSIntDomain p c ts" and ?w = "SD_Width c" and ?u = "unsignedFlag c"
  let ?ok = "SD_wf ?d \<and> SD_Width ?d = ?w \<and> unsignedFlag ?d = ?u \<and> (SD_models \<sigma> c v \<longrightarrow> SD_models \<sigma> ?d v) \<and>
    (v \<in> CR_gamma (numeric c) \<longrightarrow> v \<in> CR_gamma (numeric ?d)) \<and>
    (SD_Width p = ?w \<longrightarrow> unsignedFlag p = ?u \<longrightarrow> v \<in> CR_gamma (numeric p) \<longrightarrow> v \<in> CR_gamma (numeric ?d))"
  have Top: "?ok" if "?d = SD_Top ?w ?u"
    using that by (auto simp: SD_models_iff bounds_hold_def SD_Width_def dest: gamma_wf gamma_width)
  have ok: "?ok"
  proof (cases "SD_Width p = ?w \<and> unsignedFlag p = ?u")
    case False
    then show ?thesis by (intro Top) (simp add: WidenSIntDomain_def Let_def SD_IsUnsigned_def)
  next
    case s: True
    show ?thesis
    proof (cases "CR_IsEmptySet (numeric p)")
      case True
      then have "?d = c" using s by (simp add: WidenSIntDomain_def Let_def SD_IsUnsigned_def SD_NumericBound_def)
      then show ?thesis using c mem_EmptySet [OF True] by simp
    next
      case ne: False
      show ?thesis
      proof (rule Widen_interval [OF p ne c conjunct1 [OF s] conjunct2 [OF s] ts])
        let ?j = "CR_UnionWith (numeric p) (numeric c) (PreferFromBool (unsignedFlag c))"
        assume i: "is_interval ?d ?w ?u (fst (widen_bounds p ?j ts ?u)) (snd (widen_bounds p ?j ts ?u))"
          and j: "CR_wf ?j" "\<not> CR_IsEmptySet ?j" "CR_Width ?j = ?w" "CR_gamma (numeric p) \<subseteq> CR_gamma ?j" "CR_gamma (numeric c) \<subseteq> CR_gamma ?j"
        have n: "CR_wf (numeric p)" "CR_Width (numeric p) = ?w" using p s by (simp_all add: SD_wf_def SD_Width_def)
        note b = widen_bounds_facts [OF j(1-3) n(1) ne n(2) ts, of ?u]
        define B where "B = between ?u ?w (rd (\<not> ?u) (fst (widen_bounds p ?j ts ?u))) (rd (\<not> ?u) (snd (widen_bounds p ?j ts ?u)))"
        have "x \<in> B" if "x \<in> CR_gamma ?j" for x
          using extremes(7,8) [OF j(1,2) that, of ?u] b(1,2) gamma_wf [OF that] gamma_width [OF that] j(3) by (simp add: between_def B_def)
        then have "CR_gamma (numeric p) \<subseteq> B" "CR_gamma (numeric c) \<subseteq> B" using j(4,5) by blast+
        moreover have "SD_wf ?d" "SD_Width ?d = ?w" "unsignedFlag ?d = ?u" "CR_gamma (numeric ?d) = B" "SD_models \<sigma> ?d v \<longleftrightarrow> v \<in> B"
          using i unfolding is_interval_def B_def by blast+
        moreover have "SD_models \<sigma> c v \<Longrightarrow> v \<in> CR_gamma (numeric c)" by (simp add: SD_models_iff)
        ultimately show ?thesis by blast
      qed (rule Top)
    qed
  qed
  then show "SD_wf ?d" "SD_Width ?d = ?w" "unsignedFlag ?d = ?u" "SD_models \<sigma> c v \<Longrightarrow> SD_models \<sigma> ?d v"
    "SD_Width p = ?w \<Longrightarrow> unsignedFlag p = ?u \<Longrightarrow> v \<in> CR_gamma (numeric p) \<Longrightarrow> v \<in> CR_gamma (numeric ?d)"
    "v \<in> CR_gamma (numeric c) \<Longrightarrow> v \<in> CR_gamma (numeric ?d)" by blast+
qed

section \<open>Widening ends\<close>

text \<open>The steps a domain can still make: none when it is everything.\<close>

definition steps_left :: "SInt list \<Rightarrow> SIntDomain \<Rightarrow> nat" where
  "steps_left ts d =
     (let u = unsignedFlag d; w = SD_Width d
      in if CR_IsFullSet (numeric d) then 0
         else if CR_IsEmptySet (numeric d) then 4 * length ts + 4
         else 1 + lower_ahead u w ts (rd (\<not> u) (CR_MinValue (numeric d) u)) + upper_ahead u w ts (rd (\<not> u) (CR_MaxValue (numeric d) u)))"

lemma steps_left_bound: "steps_left ts d \<le> 4 * length ts + 4"
  "\<not> CR_IsEmptySet (numeric d) \<Longrightarrow> steps_left ts d < 4 * length ts + 4"
proof -
  have "ahead T limit b \<le> 2 * length ts + 1" if "finite T" "card T \<le> length ts" for T limit b
    using ahead_bound [OF that(1), of limit b] that(2) by linarith
  moreover have "card (uminus ` landmarks u w ts) \<le> length ts" for u w
    using card_image_le [OF landmarks_finite(1)] landmarks_finite(2) by (rule order_trans)
  ultimately have "lower_ahead u w ts a \<le> 2 * length ts + 1" "upper_ahead u w ts a \<le> 2 * length ts + 1" for u w a
    using landmarks_finite by simp_all
  note b = this
  show "\<not> CR_IsEmptySet (numeric d) \<Longrightarrow> steps_left ts d < 4 * length ts + 4"
    using add_mono [OF b(1) b(2), of "unsignedFlag d" "SD_Width d" _ "unsignedFlag d" "SD_Width d"] by (fastforce simp: steps_left_def Let_def intro: le_less_trans)
  then show "steps_left ts d \<le> 4 * length ts + 4" by (cases "CR_IsEmptySet (numeric d)") (auto simp: steps_left_def Let_def)
qed

text \<open>A widening step that changes the values leaves fewer steps.\<close>

lemma Widen_progress:
  assumes p: "SD_wf p" and c: "SD_wf c" and s: "SD_Width p = SD_Width c" "unsignedFlag p = unsignedFlag c"
    and ts: "\<forall>t \<in> set ts. SInt_wf t"
  shows "steps_left ts (WidenSIntDomain p c ts) \<le> steps_left ts p \<and>
    (CR_gamma (numeric (WidenSIntDomain p c ts)) = CR_gamma (numeric p) \<or> steps_left ts (WidenSIntDomain p c ts) < steps_left ts p)"
proof -
  let ?d = "WidenSIntDomain p c ts" and ?w = "SD_Width c" and ?u = "unsignedFlag c"
  have n: "CR_wf (numeric p)" "CR_Width (numeric p) = ?w" using p s by (simp_all add: SD_wf_def SD_Width_def)
  show ?thesis
  proof (cases "CR_IsEmptySet (numeric p)")
    case True
    then have "?d = c" using s by (simp add: WidenSIntDomain_def Let_def SD_IsUnsigned_def SD_NumericBound_def)
    moreover have "steps_left ts p = 4 * length ts + 4" using True full_not_empty by (auto simp: steps_left_def Let_def)
    moreover have "CR_gamma (numeric c) = CR_gamma (numeric p)" if "CR_IsEmptySet (numeric c)" using that True by (auto simp: mem_EmptySet)
    ultimately show ?thesis using steps_left_bound(1) [of ts c] steps_left_bound(2) [of c ts] by (cases "CR_IsEmptySet (numeric c)") simp_all
  next
    case ne: False
    show ?thesis
    proof (rule Widen_interval [OF p ne c s ts])
      assume "?d = SD_Top ?w ?u"
      then have d: "numeric ?d = CR_Full ?w" "steps_left ts ?d = 0" by (simp_all add: steps_left_def Let_def)
      show ?thesis
      proof (cases "CR_IsFullSet (numeric p)")
        case True
        then have "CR_gamma (numeric ?d) = CR_gamma (numeric p)" unfolding d(1) using n(2) by (auto simp: mem_FullSet)
        then show ?thesis using d(2) by simp
      next
        case False
        then have "0 < steps_left ts p" using ne by (simp add: steps_left_def Let_def)
        then show ?thesis using d(2) by simp
      qed
    next
      let ?j = "CR_UnionWith (numeric p) (numeric c) (PreferFromBool (unsignedFlag c))"
      let ?lo = "fst (widen_bounds p ?j ts ?u)" and ?hi = "snd (widen_bounds p ?j ts ?u)"
      let ?pl = "CR_MinValue (numeric p) ?u" and ?ph = "CR_MaxValue (numeric p) ?u"
      assume i: "is_interval ?d ?w ?u ?lo ?hi" and cv: "range_convex ?u (numeric p)"
        and j: "CR_wf ?j" "\<not> CR_IsEmptySet ?j" "CR_Width ?j = ?w" "CR_gamma (numeric p) \<subseteq> CR_gamma ?j" and nf: "\<not> CR_IsFullSet (numeric p)"
      note b = widen_bounds_facts(3,4) [OF j(1-3) n(1) ne n(2) ts j(4), where u = "?u"]
      have i': "SInt_wf ?lo" "SInt_wf ?hi" "width ?lo = ?w" "width ?hi = ?w" "rd (\<not> ?u) ?lo \<le> rd (\<not> ?u) ?hi" "CR_wf (numeric ?d)"
        "CR_gamma (numeric ?d) = between ?u ?w (rd (\<not> ?u) ?lo) (rd (\<not> ?u) ?hi)" "SD_Width ?d = ?w" "unsignedFlag ?d = ?u"
        using i by (simp_all add: is_interval_def SD_wf_def)
      note e = extremes_between [OF i'(6,7) i'(1-5)]
      have g: "CR_gamma (numeric p) = between ?u ?w (rd (\<not> ?u) ?pl) (rd (\<not> ?u) ?ph)" using convex_between [OF n(1) ne cv] n(2) by simp
      have sp: "steps_left ts p = 1 + lower_ahead ?u ?w ts (rd (\<not> ?u) ?pl) + upper_ahead ?u ?w ts (rd (\<not> ?u) ?ph)"
        using ne nf s by (simp add: steps_left_def Let_def)
      have sd: "steps_left ts ?d \<le> 1 + lower_ahead ?u ?w ts (rd (\<not> ?u) ?lo) + upper_ahead ?u ?w ts (rd (\<not> ?u) ?hi)"
        using e i'(8,9) by (simp add: steps_left_def Let_def)
      show ?thesis
      proof (cases "rd (\<not> ?u) ?lo = rd (\<not> ?u) ?pl \<and> rd (\<not> ?u) ?hi = rd (\<not> ?u) ?ph")
        case True
        then show ?thesis using i'(7) g sp sd by simp
      next
        case False
        have "lower_ahead ?u ?w ts (rd (\<not> ?u) ?lo) \<le> lower_ahead ?u ?w ts (rd (\<not> ?u) ?pl)" using b(1) by (elim disjE) simp_all
        moreover have "upper_ahead ?u ?w ts (rd (\<not> ?u) ?hi) \<le> upper_ahead ?u ?w ts (rd (\<not> ?u) ?ph)" using b(2) by (elim disjE) simp_all
        moreover have "lower_ahead ?u ?w ts (rd (\<not> ?u) ?lo) < lower_ahead ?u ?w ts (rd (\<not> ?u) ?pl) \<or>
          upper_ahead ?u ?w ts (rd (\<not> ?u) ?hi) < upper_ahead ?u ?w ts (rd (\<not> ?u) ?ph)" using b False by blast
        ultimately show ?thesis using sp sd by linarith
      qed
    qed
  qed
qed

lemma first_stop:
  assumes "f 0 \<le> (B :: nat)" "\<And>n. P n \<or> f (Suc n) < f n"
  shows "\<exists>n \<le> B. P n"
proof (rule ccontr)
  assume a: "\<not> (\<exists>n \<le> B. P n)"
  have "n \<le> Suc B \<Longrightarrow> f n + n \<le> B" for n
  proof (induction n)
    case (Suc n)
    then have "f (Suc n) < f n" using a assms(2) [of n] by auto
    then show ?case using Suc by simp
  qed (use assms(1) in simp)
  from this [of "Suc B"] show False by simp
qed

lemma descents_bounded:
  assumes b: "f 0 \<le> (B :: nat)" and s: "\<And>n. f (Suc n) \<le> f n"
  shows "finite {n. f (Suc n) < f n} \<and> card {n. f (Suc n) < f n} \<le> B"
proof (rule finite_if_finite_subsets_card_bdd)
  have e: "{n. n < N \<and> f (Suc n) < f n} = {n \<in> {..<N}. f (Suc n) < f n}" for N by auto
  have c: "card {n \<in> {..<N}. f (Suc n) < f n} + f N \<le> f 0" for N
  proof (induction N)
    case (Suc N)
    have "{n \<in> {..<Suc N}. f (Suc n) < f n} =
      (if f (Suc N) < f N then insert N {n \<in> {..<N}. f (Suc n) < f n} else {n \<in> {..<N}. f (Suc n) < f n})"
      by (auto simp: less_Suc_eq)
    then show ?case using Suc s [of N] by (simp split: if_splits)
  qed simp
  fix G assume g: "G \<subseteq> {n. f (Suc n) < f n}" "finite G"
  obtain N where "\<forall>n \<in> G. n < N" using g(2) finite_nat_set_iff_bounded by blast
  then have "G \<subseteq> {n \<in> {..<N}. f (Suc n) < f n}" using g(1) by auto
  then have "card G \<le> card {n \<in> {..<N}. f (Suc n) < f n}" by (intro card_mono) simp_all
  then show "card G \<le> B" using c [of N] b by linarith
qed

section \<open>One value of a loop\<close>

text \<open>The body of the loop of \<^verbatim>\<open>ApplyLoopWidening\<close>: the previous range of the value, its
  current domain and, where the state holds one, its current range. The result is the range the
  state is updated with, if any.\<close>

definition WidenLoopEntry ::
  "RangeAnalysisConfig \<Rightarrow> bool \<Rightarrow> SIntRange \<Rightarrow> SIntDomain \<Rightarrow> SIntRange option \<Rightarrow> SInt list \<Rightarrow> SIntRange option" where
  "WidenLoopEntry cfg preserveDuringBodyWidening previous current currentRange thresholds =
     (if preserveDuringBodyWidening then None
      else
        let currentExact = (case currentRange of None \<Rightarrow> None | Some r \<Rightarrow> sr_exact r);
            currentCongruence = (case currentRange of None \<Rightarrow> None | Some r \<Rightarrow> sr_congruence r);
            currentBits = (case currentRange of None \<Rightarrow> None | Some r \<Rightarrow> sr_bits r);
            currentExcluded = (case currentRange of None \<Rightarrow> None | Some r \<Rightarrow> sr_excluded r);
            widened = WidenSIntDomain (sr_domain previous) current thresholds;
            widenedCongruence = MergeSIntCongruencesForUnion (sr_domain previous) (sr_exact previous) (sr_congruence previous)
              current currentExact currentCongruence;
            useful = (sr_bits previous \<noteq> None \<or> currentBits \<noteq> None);
            previousKnownBits = (if useful then GetEffectiveKnownBits (sr_domain previous) (sr_exact previous)
              (sr_congruence previous) (sr_bits previous) else sr_bits previous);
            currentKnownBits = (if useful \<and> currentRange \<noteq> None
              then GetEffectiveKnownBits current currentExact currentCongruence currentBits else currentBits);
            widenedKnownBits = MergeSIntKnownBitsForUnion (sr_domain previous) previousKnownBits current currentKnownBits;
            widenedExcluded = MergeExcludedSIntValuesForUnion (sr_domain previous) (sr_excluded previous)
              current currentExcluded widened;
            droppedSymbolics = (symbolics widened = [] \<and> symbolics current \<noteq> [])
        in if \<not> SD_IsSame widened current \<or> droppedSymbolics \<or>
              (currentRange \<noteq> None \<and> (currentCongruence \<noteq> widenedCongruence \<or> currentBits \<noteq> widenedKnownBits \<or>
                 currentExcluded \<noteq> widenedExcluded \<or> sr_fragments (the currentRange) \<noteq> None))
           then Some (SIntRange_make cfg widened None widenedCongruence widenedKnownBits widenedExcluded None)
           else None)"

lemma guarded_result: "(if P then None else if Q then Some x else None) = Some r \<Longrightarrow> r = x"
  by (simp split: if_splits)

lemma WidenLoopEntry_sound:
  assumes p: "SR_wf p" and c: "SD_wf c" "SD_models \<sigma> c v"
    and s: "SD_Width (sr_domain p) = SD_Width c" "unsignedFlag (sr_domain p) = unsignedFlag c"
    and cr: "\<And>r. cr = Some r \<Longrightarrow> SR_wf r \<and> SR_models \<sigma> r v \<and> sr_domain r = c"
    and ts: "\<forall>t \<in> set ts. SInt_wf t" and w: "WidenLoopEntry cfg pr p c cr ts = Some r"
  shows "SR_wf r" "SR_models \<sigma> r v"
proof -
  let ?p = "sr_domain p" and ?u = "unsignedFlag c" and ?w = "SD_Width c"
  define e k b x where parts: "e = (case cr of None \<Rightarrow> None | Some r \<Rightarrow> sr_exact r)" "k = (case cr of None \<Rightarrow> None | Some r \<Rightarrow> sr_congruence r)"
    "b = (case cr of None \<Rightarrow> None | Some r \<Rightarrow> sr_bits r)" "x = (case cr of None \<Rightarrow> None | Some r \<Rightarrow> sr_excluded r)"
  have v: "SInt_wf v" "v \<in> CR_gamma (numeric c)" using c(2) gamma_wf by (auto simp: SD_models_iff)
  have pw: "SD_wf ?p" "values_ok ?w (sr_exact p)" "values_ok ?w (sr_excluded p)" using p s by (simp_all add: SR_wf_def)
  have h: "values_ok ?w e" "values_ok ?w x" "exact_holds e v" "cong_holds k (rd (\<not> ?u) v)" "bits_hold ?w b (val v)" "excl_holds x v"
  proof -
    have "values_ok ?w e \<and> values_ok ?w x \<and> exact_holds e v \<and> cong_holds k (rd (\<not> ?u) v) \<and> bits_hold ?w b (val v) \<and> excl_holds x v"
    proof (cases cr)
      case None
      then show ?thesis by (simp add: parts exact_holds_def bits_hold_def excl_holds_def)
    next
      case (Some q)
      then have "SR_wf q" "SR_models \<sigma> q v" "sr_domain q = c" using cr by blast+
      then show ?thesis using Some by (simp add: parts SR_wf_def SR_models_def parts_model_def)
    qed
    then show "values_ok ?w e" "values_ok ?w x" "exact_holds e v" "cong_holds k (rd (\<not> ?u) v)" "bits_hold ?w b (val v)" "excl_holds x v"
      by blast+
  qed
  have nb: "\<not> SD_IsBottom c" using v(2) mem_EmptySet by (auto simp: SD_IsBottom_def)
  define d where "d = WidenSIntDomain ?p c ts"
  note W = WidenSIntDomain_sound [OF pw(1) c(1) ts, folded d_def]
  define ck where "ck = (if (sr_bits p \<noteq> None \<or> b \<noteq> None) \<and> cr \<noteq> None then GetEffectiveKnownBits c e k b else b)"
  define pk where "pk = (if sr_bits p \<noteq> None \<or> b \<noteq> None then GetEffectiveKnownBits ?p (sr_exact p) (sr_congruence p) (sr_bits p) else sr_bits p)"
  have r: "r = SIntRange_make cfg d None (MergeSIntCongruencesForUnion ?p (sr_exact p) (sr_congruence p) c e k)
      (MergeSIntKnownBitsForUnion ?p pk c ck) (MergeExcludedSIntValuesForUnion ?p (sr_excluded p) c x d) None"
    by (rule guarded_result [OF w [unfolded WidenLoopEntry_def Let_def, folded parts d_def, folded ck_def pk_def]])
  have ck: "ck = b \<or> ck = GetEffectiveKnownBits c e k b" by (simp add: ck_def)
  have "cong_holds (MergeSIntCongruencesForUnion ?p (sr_exact p) (sr_congruence p) c e k) (rd (\<not> SD_IsUnsigned ?p) v)"
    by (rule MergeCongruences_holds [OF pw(2) h(1)]) (use s h v nb in \<open>simp_all add: SD_IsUnsigned_def part_holds_def\<close>)
  then have cong: "cong_holds (MergeSIntCongruencesForUnion ?p (sr_exact p) (sr_congruence p) c e k) (rd (\<not> unsignedFlag d) v)"
    using W(3) s by (simp add: SD_IsUnsigned_def)
  have "bits_hold ?w ck (val v)"
    using ck h GetEffectiveKnownBits_sound [OF _ v(2), where e = e and c = k and b = b] c(1) by (auto simp: SD_wf_def)
  then have bits: "bits_hold (SD_Width d) (MergeSIntKnownBitsForUnion ?p pk c ck) (val v)"
    using MergeKnownBits_sound [of c ?p pk "val v" ck] nb s W(2) by simp
  note E = MergeExcluded_facts [OF pw(1) c(1), of "sr_excluded p" x, unfolded s(1), OF pw(3) h(2) refl]
  have ex: "values_ok (SD_Width d) (MergeExcludedSIntValuesForUnion ?p (sr_excluded p) c x d)"
    "excl_holds (MergeExcludedSIntValuesForUnion ?p (sr_excluded p) c x d) v"
    using E(1) E(2) [of \<sigma> v] c(2) h(6) W(2) by simp_all
  have ok: "parts_ok d None (MergeExcludedSIntValuesForUnion ?p (sr_excluded p) c x d) None"
    using W(1) ex(1) by (simp add: parts_ok_def)
  show "SR_wf r" unfolding r by (rule SIntRange_make_wf(1) [OF ok])
  show "SR_models \<sigma> r v" unfolding r
    by (rule SIntRange_make_sound [OF ok]) (use W(4) [OF c(2)] cong bits ex(2) in \<open>simp_all add: parts_model_def exact_holds_def ends_inside_def\<close>)
qed

text \<open>A loop: each step widens the domain of the loop head with the image that comes back.\<close>

lemma Widening_run:
  assumes x: "SD_wf (x 0)" "SD_Width (x 0) = w" "unsignedFlag (x 0) = u" and y: "\<And>n. SD_wf (y n) \<and> SD_Width (y n) = w \<and> unsignedFlag (y n) = u"
    and ts: "\<forall>t \<in> set ts. SInt_wf t" and step: "\<And>n. x (Suc n) = WidenSIntDomain (x n) (y n) ts"
  shows "SD_wf (x n)" "SD_Width (x n) = w" "unsignedFlag (x n) = u"
    "steps_left ts (x (Suc n)) \<le> steps_left ts (x n)"
    "CR_gamma (numeric (x (Suc n))) = CR_gamma (numeric (x n)) \<or> steps_left ts (x (Suc n)) < steps_left ts (x n)"
    "CR_gamma (numeric (y n)) \<subseteq> CR_gamma (numeric (x (Suc n)))"
proof -
  have ok: "SD_wf (x n) \<and> SD_Width (x n) = w \<and> unsignedFlag (x n) = u" for n
  proof (induction n)
    case (Suc n)
    then show ?case using WidenSIntDomain_sound(1-3) [OF _ _ ts, of "x n" "y n"] y [of n] step [of n] by simp
  qed (use x in simp)
  then show "SD_wf (x n)" "SD_Width (x n) = w" "unsignedFlag (x n) = u" by blast+
  show "steps_left ts (x (Suc n)) \<le> steps_left ts (x n)"
    "CR_gamma (numeric (x (Suc n))) = CR_gamma (numeric (x n)) \<or> steps_left ts (x (Suc n)) < steps_left ts (x n)"
    using Widen_progress [OF _ _ _ _ ts, of "x n" "y n"] ok [of n] y [of n] step [of n] by simp_all
  show "CR_gamma (numeric (y n)) \<subseteq> CR_gamma (numeric (x (Suc n)))"
  proof
    fix v assume v: "v \<in> CR_gamma (numeric (y n))"
    show "v \<in> CR_gamma (numeric (x (Suc n)))"
      using WidenSIntDomain_sound(6) [OF _ _ ts, of "x n" "y n" v] ok [of n] y [of n] step [of n] v by simp
  qed
qed

text \<open>The values of a loop whose images are widened again and again are found after at most
  four steps per landmark and four more.\<close>

lemma Widening_stabilises:
  assumes x: "SD_wf (x 0)" "SD_Width (x 0) = w" "unsignedFlag (x 0) = u" and y: "\<And>n. SD_wf (y n) \<and> SD_Width (y n) = w \<and> unsignedFlag (y n) = u"
    and ts: "\<forall>t \<in> set ts. SInt_wf t" and step: "\<And>n. x (Suc n) = WidenSIntDomain (x n) (y n) ts"
  shows "\<exists>n \<le> 4 * length ts + 4. CR_gamma (numeric (x (Suc n))) = CR_gamma (numeric (x n)) \<and> CR_gamma (numeric (y n)) \<subseteq> CR_gamma (numeric (x n))"
proof -
  note run = Widening_run [of x, OF x y ts step]
  obtain n where n: "n \<le> 4 * length ts + 4" "CR_gamma (numeric (x (Suc n))) = CR_gamma (numeric (x n))"
    using first_stop [of "\<lambda>n. steps_left ts (x n)" _ "\<lambda>n. CR_gamma (numeric (x (Suc n))) = CR_gamma (numeric (x n))"] steps_left_bound(1) run(5) by metis
  then show ?thesis using run(6) [of n] by auto
qed

text \<open>The values of a loop change at most four times per landmark and four times more, and stay
  the same from some step on.\<close>

lemma Widening_changes:
  assumes x: "SD_wf (x 0)" "SD_Width (x 0) = w" "unsignedFlag (x 0) = u" and y: "\<And>n. SD_wf (y n) \<and> SD_Width (y n) = w \<and> unsignedFlag (y n) = u"
    and ts: "\<forall>t \<in> set ts. SInt_wf t" and step: "\<And>n. x (Suc n) = WidenSIntDomain (x n) (y n) ts"
  defines "C \<equiv> {n. CR_gamma (numeric (x (Suc n))) \<noteq> CR_gamma (numeric (x n))}"
  shows "finite C" "card C \<le> 4 * length ts + 4"
    "\<exists>N. \<forall>n \<ge> N. CR_gamma (numeric (x n)) = CR_gamma (numeric (x N)) \<and> CR_gamma (numeric (y n)) \<subseteq> CR_gamma (numeric (x N))"
proof -
  let ?g = "\<lambda>n. CR_gamma (numeric (x n))"
  note run = Widening_run [of x, OF x y ts step]
  let ?f = "\<lambda>n. steps_left ts (x n)"
  have sub: "C \<subseteq> {n. ?f (Suc n) < ?f n}" using run(5) by (auto simp: C_def)
  have "finite {n. ?f (Suc n) < ?f n} \<and> card {n. ?f (Suc n) < ?f n} \<le> 4 * length ts + 4"
    by (rule descents_bounded [of ?f]) (use steps_left_bound(1) run(4) in simp_all)
  then show fin: "finite C" and "card C \<le> 4 * length ts + 4"
    using sub card_mono [OF _ sub] by (auto intro: finite_subset)
  obtain N where "\<forall>n \<in> C. n < N" using fin finite_nat_set_iff_bounded by blast
  then have st: "?g (Suc n) = ?g n" if "N \<le> n" for n using that by (auto simp: C_def)
  have eq: "?g n = ?g N" if "N \<le> n" for n
    using that by (induction n rule: dec_induct) (simp_all add: st)
  show "\<exists>N. \<forall>n \<ge> N. ?g n = ?g N \<and> CR_gamma (numeric (y n)) \<subseteq> ?g N"
  proof (intro exI [of _ N] allI impI conjI)
    fix n assume n: "N \<le> n"
    show "?g n = ?g N" by (rule eq [OF n])
    show "CR_gamma (numeric (y n)) \<subseteq> ?g N" using run(6) [of n] eq [of "Suc n"] n by simp
  qed
qed
end
