(* ===== verification/Transfer_Properties.thy ===== *)
theory Transfer_Properties
  imports Widening Sample_Values
begin

text \<open>
  The properties of the overflow checker, of the transfer functions on integer ranges and of
  widening, with an instance of each theorem that has hypotheses.
\<close>

section \<open>Overflow checks\<close>

text \<open>C29: A check of an arithmetic operator in the type of its operands, on two values the operator
  has an integer result for, stores that result when it fits the type, the wrapped one under
  the wrapping strategy and the nearest value of the type under the saturating one. It sets its
  flag exactly when the result leaves the type or the operation is the signed remainder of the
  least value by -1, for which it answers (overflow, 0) although 0 fits.\<close>

theorem IsIntOverflow_correct:
  assumes "kind_matches tk u w" "fits_int u w x" "fits_int u w y"
    and "(if ek = EK_NEG then Some (0 - y) else exact_result ek x y) = Some k"
  shows "\<exists>flag value. (if u then IsUIntOverflow tk ek x y ov res else IsIntOverflow tk ek x y ov res) = Some (flag, value) \<and>
     flag = (\<not> fits_int u w k \<or> ek = EK_MOD \<and> \<not> u \<and> x = type_min u w \<and> y = - 1) \<and> (fits_int u w k \<longrightarrow> value = k) \<and>
     (ov = WRAPPING \<longrightarrow> value = wrap_int u w k) \<and> (ov = SATURATING \<longrightarrow> value = clamp_int u w k)"
proof -
  have c: "(if u then IsUIntOverflow tk ek x y ov res else IsIntOverflow tk ek x y ov res) = IsOverflow u w x y ek ov"
    using assms(1-3) IsIntOverflow_at [of tk w x y ek ov res] IsUIntOverflow_at [of tk w x y ek ov res]
    by (cases u) (simp_all add: kind_matches_def)
  show ?thesis
  proof (cases "ek = EK_MOD \<and> \<not> u \<and> x = type_min u w \<and> y = - 1")
    case True
    then have k: "k = 0" using assms(4) by (simp add: signed_modulo_int_def)
    have f: "fits_int u w 0" using type_bounds [of u w] by (simp add: fits_int_iff)
    have "wrap_int u w 0 = 0" "clamp_int u w 0 = 0"
      using wrap_fits [OF f] type_bounds [of u w] by (simp_all add: clamp_int_cases)
    moreover have "IsOverflow u w x y ek ov = Some (True, 0)"
      using True by (simp add: IsOverflow_def IsOverflowAfterMod_def)
    ultimately show ?thesis using True k f unfolding c by auto
  next
    case False
    then have "checked_result u w ek x y = Some k" using assms(4) by (auto simp: checked_result_def)
    then obtain p where "IsOverflow u w x y ek ov = Some p" "reports u w ov k p"
      using checked.checked [OF assms(2,3), of ek k ov] by blast
    then show ?thesis using False unfolding c by (cases p) (auto simp: reports_def)
  qed
qed

theorem IsIntOverflow_correct_witness:
  "\<exists>flag value. IsIntOverflow TYPE_INT8 EK_ADD 100 100 SATURATING 0 = Some (flag, value) \<and> flag \<and> value = 127"
proof -
  have h: "kind_matches TYPE_INT8 False I8" "fits_int False I8 100"
    "(if EK_ADD = EK_NEG then Some (0 - 100) else exact_result EK_ADD 100 100) = Some 200" by code_simp+
  have "\<not> fits_int False I8 200" "clamp_int False I8 200 = 127" by code_simp+
  then show ?thesis using IsIntOverflow_correct [OF h(1) h(2) h(2) h(3), of SATURATING 0] by auto
qed

text \<open>C30: The check of a conversion between integer types and the check of an exponentiation answer
  under the same contract: an exact flag, and the exact, wrapped or nearest value.\<close>

theorem IsTypecastOverflow_IsExpOverflow_correct:
  assumes "fits_int tu tw x"
  shows "reports ku kw ov x (IsTypecastOverflowForInt tu tw ku kw x ov) \<and> reports False I64 ov (x ^ y) (IsExpOverflow x y ov)"
  using Typecast_reports [OF assms] Exp_reports by blast

theorem IsTypecastOverflow_IsExpOverflow_correct_witness:
  "fst (IsTypecastOverflowForInt False I16 True I8 300 WRAPPING) \<and> snd (IsTypecastOverflowForInt False I16 True I8 300 WRAPPING) = 44"
proof -
  have h: "fits_int False I16 300" "\<not> fits_int True I8 300" "wrap_int True I8 300 = 44" by code_simp+
  then show ?thesis
    using IsTypecastOverflow_IsExpOverflow_correct [OF h(1), of True I8 WRAPPING 2] by (simp add: reports_def)
qed

section \<open>Exact evaluation\<close>

text \<open>C26: The evaluation of an operator on two values returns the integer result under the overflow
  strategy (wrapping, saturating or throwing), powers by repeated squaring included, and no value when the operator or the strategy
  has none; moreover it returns no value in one case that has one, the throwing signed remainder
  of the least value by -1 (\<open>spurious_mod\<close>), whose result 0 fits.\<close>

theorem ApplyExactArithmetic_correct:
  assumes "kind_matches tk uns (width v)" "SInt_wf v" "SInt_wf x" "ek \<noteq> EK_EXP \<longrightarrow> width x = width v"
    and "IsBasicArithmeticKind ek" "known_strategy ov"
  shows "ApplyExactArithmetic ek v x tk ov uns ru =
    (if spurious_mod ek uns ov v x then None else value_of uns (width v) ov (exact_value ek uns ru v x))"
  using ApplyExactArithmetic_value [OF assms(1-3) _ assms(5,6)] assms(4) by simp

theorem ApplyExactArithmetic_correct_witness:
  "ApplyExactArithmetic EK_EXP (byte 253) (byte 5) TYPE_INT8 SATURATING False True = Some (byte 128)"
proof -
  have h: "kind_matches TYPE_INT8 False (width (byte 253))" "SInt_wf (byte 253)" "SInt_wf (byte 5)"
    "EK_EXP \<noteq> EK_EXP \<longrightarrow> width (byte 5) = width (byte 253)" "IsBasicArithmeticKind EK_EXP" "known_strategy SATURATING" by code_simp+
  have n: "\<not> spurious_mod EK_EXP False SATURATING (byte 253) (byte 5)" by code_simp
  have "value_of False (width (byte 253)) SATURATING (exact_value EK_EXP False True (byte 253) (byte 5)) = Some (byte 128)" by code_simp
  then show ?thesis using ApplyExactArithmetic_correct [OF h, of True] n by simp
qed

text \<open>C16: When the sets of exact values of both operands are known, the range of an arithmetic
  operator holds exactly the values the operator has on a pair of them.\<close>

theorem TryComputeExactArithmeticRange_exact:
  assumes "kind_matches tk uns w" "values_ok w (Some ls)" "values_ok w' (Some rs)" "ek \<noteq> EK_EXP \<longrightarrow> w' = w" "known_strategy ov"
    and "TryComputeExactArithmeticRange cfg ek (Some tk) (Some rt) ov (Some ls) (Some rs) uns = Some rng"
  shows "SR_wf rng \<and> SD_Width (sr_domain rng) = w \<and> unsignedFlag (sr_domain rng) = uns \<and>
    (SR_models \<sigma> rng z \<longleftrightarrow> (\<exists>v \<in> set ls. \<exists>x \<in> set rs. value_of uns w ov (exact_value ek uns (IsUnsignedInteger rt) v x) = Some z))"
  using TryComputeExactArithmetic_models [OF assms(1-3) _ assms(5,6)] assms(4) by blast

theorem TryComputeExactArithmeticRange_exact_witness:
  "\<exists>rng. TryComputeExactArithmeticRange defaultConfig EK_MUL (Some TYPE_UINT8) (Some TYPE_UINT8) WRAPPING
      (Some [byte 3, byte 100]) (Some [byte 2, byte 5]) True = Some rng \<and> SR_models (\<lambda>_. 0) rng (byte 244) \<and> \<not> SR_models (\<lambda>_. 0) rng (byte 9)"
proof -
  let ?c = "TryComputeExactArithmeticRange defaultConfig EK_MUL (Some TYPE_UINT8) (Some TYPE_UINT8) WRAPPING
      (Some [byte 3, byte 100]) (Some [byte 2, byte 5]) True"
  have h: "kind_matches TYPE_UINT8 True I8" "values_ok I8 (Some [byte 3, byte 100])" "values_ok I8 (Some [byte 2, byte 5])"
    "EK_MUL \<noteq> EK_EXP \<longrightarrow> I8 = I8" "known_strategy WRAPPING" "?c \<noteq> None" by code_simp+
  have v: "value_of True I8 WRAPPING (exact_value EK_MUL True (IsUnsignedInteger TYPE_UINT8) (byte 100) (byte 5)) = Some (byte 244)"
    "\<forall>v \<in> set [byte 3, byte 100]. \<forall>x \<in> set [byte 2, byte 5].
       value_of True I8 WRAPPING (exact_value EK_MUL True (IsUnsignedInteger TYPE_UINT8) v x) \<noteq> Some (byte 9)" by code_simp+
  obtain rng where c: "?c = Some rng" using h(6) by blast
  note t = TryComputeExactArithmeticRange_exact [OF h(1-5) c]
  have "SR_models (\<lambda>_. 0) rng (byte 244)" using t [of "\<lambda>_. 0" "byte 244"] v(1) by auto
  moreover have "\<not> SR_models (\<lambda>_. 0) rng (byte 9)" using t [of "\<lambda>_. 0" "byte 9"] v(2) by blast
  ultimately show ?thesis using c by blast
qed

text \<open>C27: The evaluation of two single values in the type of the operands: the division error on a
  zero divisor; otherwise, when the integer result has a value under the overflow strategy
  (wrapping, saturating or throwing), that value alone; otherwise the overflow error with the
  operator, the two values and the full range of the type. The one result that has a value and is still reported as an overflow is the
  throwing signed remainder of the least value by -1 (\<open>spurious_mod\<close>).\<close>

theorem CheckSingleValueOverflow_correct:
  assumes "SD_wf a" "SD_wf b" "SD_Width b = SD_Width a" "kind_matches tk uns (SD_Width a)" "known_strategy ov"
    and "ek \<in> {EK_ADD, EK_SUB, EK_MUL, EK_DIV, EK_MOD}" "v = CR_Lower (SD_NumericBound a)" "x = CR_Lower (SD_NumericBound b)"
    and "p = rd (\<not> uns) v" "q = rd (\<not> uns) x"
  shows "CheckSingleValueOverflow a b tk ov uns ek = Some
     (if (ek = EK_DIV \<or> ek = EK_MOD) \<and> q = 0 then (SD_Top (SD_Width a) uns, Some DivisorIsZero)
      else if spurious_mod ek uns ov v x then (SD_Top (SD_Width a) uns, Some (ArithmeticOverflow ek p q))
      else case value_of uns (SD_Width a) ov (exact_result ek p q) of
        None \<Rightarrow> (SD_Top (SD_Width a) uns, Some (ArithmeticOverflow ek p q))
      | Some z \<Rightarrow> (SD_make (CR_single z) uns, None))"
proof -
  have vx: "SInt_wf v" "SInt_wf x" "width v = SD_Width a" "width x = width v"
    using CR_wfD [of "numeric a"] CR_wfD [of "numeric b"] assms(1-3,7,8)
    by (simp_all add: SD_wf_def SD_NumericBound_def CR_Lower_def SD_Width_def)
  have k: "kind_matches tk uns (width v)" "IsBasicArithmeticKind ek" "ek \<noteq> EK_EXP"
    using assms(4,6) vx by (auto simp: IsBasicArithmeticKind_def)
  have "ApplyExactArithmetic ek v x tk ov uns False =
      (if spurious_mod ek uns ov v x then None else value_of uns (SD_Width a) ov (exact_result ek p q))"
    using ApplyExactArithmetic_value [OF k(1) vx(1,2) vx(4) k(2) assms(5), of False] k(3) vx(3)
    by (simp add: exact_value_def assms(9,10))
  then show ?thesis
    using CheckSingleValueOverflow_evaluates [OF assms(1-6), of False, folded assms(7,8), folded assms(9,10)]
    by (simp split: if_splits)
qed

theorem CheckSingleValueOverflow_correct_witness:
  "CheckSingleValueOverflow (SD_make (bytes 100 101) False) (SD_make (bytes 100 101) False) TYPE_INT8 THROWING False EK_ADD =
     Some (SD_Top I8 False, Some (ArithmeticOverflow EK_ADD 100 100))"
proof -
  let ?d = "SD_make (bytes 100 101) False"
  have h: "SD_wf ?d" "SD_Width ?d = SD_Width ?d" "kind_matches TYPE_INT8 False (SD_Width ?d)" "known_strategy THROWING"
    "EK_ADD \<in> {EK_ADD, EK_SUB, EK_MUL, EK_DIV, EK_MOD}" "byte 100 = CR_Lower (SD_NumericBound ?d)"
    "100 = rd (\<not> False) (byte 100)" by code_simp+
  have v: "value_of False (SD_Width ?d) THROWING (exact_result EK_ADD 100 100) = None"
    "\<not> spurious_mod EK_ADD False THROWING (byte 100) (byte 100)" "SD_Width ?d = I8" by code_simp+
  show ?thesis using CheckSingleValueOverflow_correct [OF h(1,1,2-6,6,7,7)] v by simp
qed

text \<open>The exceptional remainder: the error is reported although the result is 0, which the exact
  integer evaluation has as a value; under the other strategies the same check returns 0.\<close>

theorem CheckSingleValueOverflow_mod_unsound:
  "CheckSingleValueOverflow (SD_make (bytes 128 129) False) (SD_make (bytes 255 0) False) TYPE_INT8 THROWING False EK_MOD =
     Some (SD_Top I8 False, Some (ArithmeticOverflow EK_MOD (- 128) (- 1))) \<and>
   computes EK_MOD THROWING False (byte 128) (byte 255) (byte 0) \<and>
   CheckSingleValueOverflow (SD_make (bytes 128 129) False) (SD_make (bytes 255 0) False) TYPE_INT8 WRAPPING False EK_MOD =
     Some (SD_make (CR_single (byte 0)) False, None)"
  by (intro conjI; code_simp)

text \<open>The list of values that replaces a small range, or the exact values of the range, holds
  every value the range describes.\<close>

theorem GetExactValuesOrSmallRange_complete:
  assumes "SR_wf r" "SR_models \<sigma> r v" "uns = unsignedFlag (sr_domain r)" "GetExactValuesOrSmallRange cfg (Some r) uns = Some vs"
  shows "v \<in> set vs \<and> values_ok (width v) (Some vs)"
  using GetExactValuesOrSmallRange_sound [OF assms] .

theorem GetExactValuesOrSmallRange_complete_witness:
  "\<exists>vs. GetExactValuesOrSmallRange defaultConfig (Some (SIntRange_of_domain defaultConfig (SD_make (bytes 3 8) True))) True = Some vs \<and> byte 5 \<in> set vs"
proof -
  let ?d = "SD_make (bytes 3 8) True"
  let ?r = "SIntRange_of_domain defaultConfig ?d"
  have d: "SD_wf ?d" "SD_models (\<lambda>_. 0) ?d (byte 5)" "True = unsignedFlag (sr_domain ?r)"
    "GetExactValuesOrSmallRange defaultConfig (Some ?r) True \<noteq> None" by code_simp+
  then obtain vs where "GetExactValuesOrSmallRange defaultConfig (Some ?r) True = Some vs" by blast
  then show ?thesis
    using GetExactValuesOrSmallRange_complete [OF of_domain_models(2) [OF d(1,2)] of_domain_models(1) [OF d(1,2)] d(3)] by blast
qed

section \<open>Bitwise operators\<close>

text \<open>C24: When the sets of exact values of both operands are known, the range of a bitwise operator or
  a shift holds exactly the values the operator has on a pair of them.\<close>

theorem TryComputeExactBitwiseRange_exact:
  assumes "values_ok w (Some ls)" "values_ok w' (Some rs)" "\<not> IsShiftBinaryExpr ek \<longrightarrow> w' = w"
    and "TryComputeExactBitwiseRange cfg ek (Some ls) (Some rs) ru uns = Some rng"
  shows "SR_wf rng \<and> SD_Width (sr_domain rng) = w \<and> unsignedFlag (sr_domain rng) = uns \<and>
    (SR_models \<sigma> rng z \<longleftrightarrow> (\<exists>v \<in> set ls. \<exists>x \<in> set rs. bit_computes ek uns ru v x z))"
  using TryComputeExactBitwise_models [OF assms(1,2) _ assms(4)] assms(3) by blast

theorem TryComputeExactBitwiseRange_exact_witness:
  "\<exists>rng. TryComputeExactBitwiseRange defaultConfig EK_RSHIFT (Some [byte 240, byte 7]) (Some [byte 1, byte 2]) True False = Some rng \<and>
     SR_models (\<lambda>_. 0) rng (byte 252)"
proof -
  let ?c = "TryComputeExactBitwiseRange defaultConfig EK_RSHIFT (Some [byte 240, byte 7]) (Some [byte 1, byte 2]) True False"
  have h: "values_ok I8 (Some [byte 240, byte 7])" "values_ok I8 (Some [byte 1, byte 2])" "\<not> IsShiftBinaryExpr EK_RSHIFT \<longrightarrow> I8 = I8"
    "?c \<noteq> None" "bit_computes EK_RSHIFT False True (byte 240) (byte 2) (byte 252)" by code_simp+
  then obtain rng where c: "?c = Some rng" by blast
  have "byte 240 \<in> set [byte 240, byte 7]" "byte 2 \<in> set [byte 1, byte 2]" by simp_all
  then have "SR_models (\<lambda>_. 0) rng (byte 252)" using TryComputeExactBitwiseRange_exact [OF h(1-3) c, of "\<lambda>_. 0" "byte 252"] h(5) by blast
  with c show ?thesis by blast
qed

text \<open>C15: The abstract result of a bitwise operator or a shift, an interval met with the known bits of
  the result, is well-formed and describes the value of the operator on any two values the
  operands describe.\<close>

theorem TryComputeAbstractBitwiseRange_sound:
  assumes "SD_wf lhs" "v \<in> CR_gamma (numeric lhs)" "SD_wf rhs" "x \<in> CR_gamma (numeric rhs)"
    and "\<not> IsShiftBinaryExpr ek \<longrightarrow> SD_Width rhs = SD_Width lhs" "IsBitwiseBinaryExpr ek \<or> IsShiftBinaryExpr ek" "same \<longrightarrow> x = v"
    and "\<forall>r. lrng = Some r \<longrightarrow> SR_models \<sigma> r v \<and> SD_Width (sr_domain r) = SD_Width lhs"
    and "\<forall>r. rrng = Some r \<longrightarrow> SR_models \<sigma> r x \<and> SD_Width (sr_domain r) = SD_Width rhs"
    and "bit_computes ek u ru v x z" "TryComputeAbstractBitwiseRange cfg ek lrng rrng lhs rhs same ru u = Some rng"
  shows "SR_wf rng \<and> SR_models \<sigma> rng z"
  using TryComputeAbstractBitwise_sound [OF assms(1-4) _ assms(6) _ _ _ assms(10,11), of \<sigma>] assms(5,7,8,9) by blast

theorem TryComputeAbstractBitwiseRange_sound_witness:
  "\<exists>rng. TryComputeAbstractBitwiseRange defaultConfig EK_BITAND None None (SD_make (bytes 16 48) True) (SD_make (bytes 3 30) True) False True True = Some rng \<and>
     SR_models (\<lambda>_. 0) rng (byte 17)"
proof -
  let ?c = "TryComputeAbstractBitwiseRange defaultConfig EK_BITAND None None (SD_make (bytes 16 48) True) (SD_make (bytes 3 30) True) False True True"
  have m: "byte 17 \<in> CR_gamma (numeric (SD_make (bytes 16 48) True))" "byte 25 \<in> CR_gamma (numeric (SD_make (bytes 3 30) True))"
    unfolding CR_gamma_def by (simp_all only: mem_Collect_eq) code_simp+
  have h: "SD_wf (SD_make (bytes 16 48) True)" "SD_wf (SD_make (bytes 3 30) True)"
    "\<not> IsShiftBinaryExpr EK_BITAND \<longrightarrow> SD_Width (SD_make (bytes 3 30) True) = SD_Width (SD_make (bytes 16 48) True)"
    "IsBitwiseBinaryExpr EK_BITAND \<or> IsShiftBinaryExpr EK_BITAND" "bit_computes EK_BITAND True True (byte 17) (byte 25) (byte 17)"
    "?c \<noteq> None" by code_simp+
  then obtain rng where c: "?c = Some rng" by blast
  have "SR_models (\<lambda>_. 0) rng (byte 17)"
    by (rule conjunct2 [OF TryComputeAbstractBitwiseRange_sound [OF h(1) m(1) h(2) m(2) h(3,4) _ _ _ h(5) c]]) simp_all
  then show ?thesis using c by blast
qed

text \<open>C28: Negation of a domain, where the overflow strategy (wrapping, saturating or throwing) gives
  the negation a value, and complement of a range describe the negation and the complement of every value of the operand
  whose signed reading is not the least one of the width, and of that value too unless the
  operand's numeric range starts at it.\<close>

theorem ComputeNeg_ComputeBitNot_sound:
  assumes "SD_wf d" "v \<in> CR_gamma (numeric d)"
    and "sv v \<noteq> - half (SD_Width d) \<or> sv (lower (numeric d)) \<noteq> - half (SD_Width d)"
    and "kind_matches tk uns (SD_Width d)" "known_strategy ov"
    and "\<forall>r. rng = Some r \<longrightarrow> SR_models \<sigma> r v \<and> SD_Width (sr_domain r) = SD_Width d"
  shows "(\<forall>z. value_of uns (SD_Width d) ov (Some (- rd (\<not> uns) v)) = Some z \<longrightarrow>
       SD_wf (ComputeNegRange d tk ov) \<and> SD_models \<sigma> (ComputeNegRange d tk ov) z) \<and>
     SR_wf (ComputeBitNotSIntRange cfg rng d uns) \<and> SR_models \<sigma> (ComputeBitNotSIntRange cfg rng d uns) (complement v)"
proof -
  have "SD_wf (ComputeNegRange d tk ov) \<and> SD_models \<sigma> (ComputeNegRange d tk ov) z"
    if "value_of uns (SD_Width d) ov (Some (- rd (\<not> uns) v)) = Some z" for z
    using ComputeNegRange_sound [OF assms(1,2,4,5) that] assms(3) encloses_models by (auto simp: encloses_def)
  moreover have "sv (lower (numeric d)) \<noteq> - half (SD_Width d) \<or> \<not> SD_IsSingleValue d \<and> sv v \<noteq> - half (SD_Width d)"
    using assms(3) single_element [OF assms(1) _ assms(2)]
    by (auto simp: CR_GetSingleElement_def SD_NumericBound_def)
  ultimately show ?thesis using ComputeBitNotSIntRange_sound [OF assms(1,2), of rng \<sigma> cfg uns] assms(6) by blast
qed

theorem ComputeNeg_ComputeBitNot_sound_witness:
  "SR_models (\<lambda>_. 0) (ComputeBitNotSIntRange defaultConfig None (SD_make (bytes 128 10) False) False) (byte 250)"
proof -
  have m: "byte 5 \<in> CR_gamma (numeric (SD_make (bytes 128 10) False))"
    unfolding CR_gamma_def by (simp_all only: mem_Collect_eq) code_simp
  have h: "SD_wf (SD_make (bytes 128 10) False)"
    "sv (byte 5) \<noteq> - half (SD_Width (SD_make (bytes 128 10) False)) \<or>
     sv (lower (numeric (SD_make (bytes 128 10) False))) \<noteq> - half (SD_Width (SD_make (bytes 128 10) False))"
    "kind_matches TYPE_INT8 False (SD_Width (SD_make (bytes 128 10) False))" "known_strategy WRAPPING" "complement (byte 5) = byte 250" by code_simp+
  show ?thesis using ComputeNeg_ComputeBitNot_sound [OF h(1) m h(2-4), of None "\<lambda>_. 0" defaultConfig] h(5) by simp
qed

text \<open>The excluded value: in a range that starts at the least value, the complement of that value,
  127, is lost, and so is its wrapping negation, the least value itself.\<close>

theorem ComputeBitNot_misses_least:
  "SD_models (\<lambda>_. 0) (SD_make (bytes 128 10) False) (byte 128) \<and> complement (byte 128) = byte 127 \<and>
   \<not> SD_models (\<lambda>_. 0) (ComputeBitNotRange (SD_make (bytes 128 10) False) False) (byte 127) \<and>
   value_of False I8 WRAPPING (Some (- rd True (byte 128))) = Some (byte 128) \<and>
   \<not> SD_models (\<lambda>_. 0) (ComputeNegRange (SD_make (bytes 128 10) False) TYPE_INT8 WRAPPING) (byte 128)"
  by (intro conjI; code_simp)

end
