(* ===== verification/Loop_Properties.thy ===== *)
theory Loop_Properties
  imports Transfer_Properties
begin

text \<open>
  The properties of what the transfer functions infer beside the interval, and of widening, with
  an instance of each theorem that has hypotheses.
\<close>

section \<open>Congruences and fragments of a result\<close>

text \<open>C14: The congruence inferred for an arithmetic operator is canonical and holds of the value of the
  operator on any two values that satisfy the parts of the operands; a result that may wrap
  around keeps only what the modulus of the type lets through.\<close>

theorem ComputeArithmeticCongruence_keeps:
  assumes "SD_wf ld" "v \<in> CR_gamma (numeric ld)" "SD_wf rd'" "x \<in> CR_gamma (numeric rd')"
    and "unsignedFlag ld = u" "unsignedFlag rd' = u" "kind_matches tk u (SD_Width ld)"
    and "values_ok (SD_Width ld) (sr_exact lr)" "exact_holds (sr_exact lr) v" "cong_holds (sr_congruence lr) (rd (\<not> u) v)"
    and "values_ok w' (sr_exact rr)" "exact_holds (sr_exact rr) x" "cong_holds (sr_congruence rr) (rd (\<not> u) x)"
    and "computes ek ov u v x z" "c = ComputeArithmeticCongruence ek (Some lr) (Some rr) ld rd' (Some tk) ov"
  shows "cong_wf c \<and> cong_holds c (rd (\<not> u) z)"
  unfolding assms(15)
  using ComputeArithmeticCongruence_sound [OF assms(1-6) refl assms(7-14)] by (rule conjI)

definition even_range :: SIntRange where
  "even_range = \<lparr>sr_domain = SD_make (bytes 2 43) True, sr_exact = None, sr_congruence = Some \<lparr>stride = 4, residue = 2\<rparr>,
     sr_bits = None, sr_excluded = None, sr_fragments = None\<rparr>"

theorem ComputeArithmeticCongruence_keeps_witness:
  "ComputeArithmeticCongruence EK_MUL (Some even_range) (Some even_range) (sr_domain even_range) (sr_domain even_range)
     (Some TYPE_UINT8) WRAPPING = Some \<lparr>stride = 8, residue = 4\<rparr> \<and> 30 * 10 mod 256 = (44 :: int) \<and>
   cong_holds (Some \<lparr>stride = 8, residue = 4\<rparr>) 44"
proof -
  let ?d = "sr_domain even_range"
  have m: "byte 30 \<in> CR_gamma (numeric ?d)" "byte 10 \<in> CR_gamma (numeric ?d)"
    unfolding CR_gamma_def by (simp_all only: mem_Collect_eq) code_simp+
  have h: "SD_wf ?d" "unsignedFlag ?d = True" "kind_matches TYPE_UINT8 True (SD_Width ?d)"
    "values_ok (SD_Width ?d) (sr_exact even_range)" "exact_holds (sr_exact even_range) (byte 30)"
    "cong_holds (sr_congruence even_range) (rd (\<not> True) (byte 30))" "exact_holds (sr_exact even_range) (byte 10)"
    "cong_holds (sr_congruence even_range) (rd (\<not> True) (byte 10))" by code_simp+
  have z: "computes EK_MUL WRAPPING True (byte 30) (byte 10) (byte 44)" "rd (\<not> True) (byte 44) = 44" by code_simp+
  have c: "ComputeArithmeticCongruence EK_MUL (Some even_range) (Some even_range) ?d ?d (Some TYPE_UINT8) WRAPPING =
    Some \<lparr>stride = 8, residue = 4\<rparr>" by code_simp
  show ?thesis
    using ComputeArithmeticCongruence_keeps [OF h(1) m(1) h(1) m(2) h(2,2-6,4,7,8) z(1) c [symmetric]] z(2) c by simp
qed

text \<open>C25: The fragments carried over to a sum or a difference with a constant are in normal form, end
  inside the domain of the result, and one of them holds the value of the operator, provided
  that the domain of the result, which the caller may have met with a relational constraint,
  does not wrap or still holds the value of every pair of operands.\<close>

theorem ComputeAffineIntervalFragments_sound_at:
  assumes "SD_wf ld" "v \<in> CR_gamma (numeric ld)" "SD_wf rd'" "x \<in> CR_gamma (numeric rd')"
    and "unsignedFlag ld = u" "unsignedFlag rd' = u" "SD_Width ld = w" "SD_Width rd' = w" "kind_matches tk u w"
    and "\<forall>s. lr = Some s \<longrightarrow> SR_wf s \<and> SR_ends s \<and> SR_models \<sigma> s v \<and> sr_domain s = ld"
    and "\<forall>s. rr = Some s \<longrightarrow> SR_wf s \<and> SR_ends s \<and> SR_models \<sigma> s x \<and> sr_domain s = rd'"
    and "computes ek ov u v x z" "SD_wf d" "SD_Width d = w" "unsignedFlag d = u" "SD_models \<sigma> d z"
    and "hasConvexBounds d \<or>
      (\<forall>p \<in> CR_gamma (numeric ld). \<forall>q \<in> CR_gamma (numeric rd'). \<forall>t. computes ek ov u p q t \<longrightarrow> t \<in> CR_gamma (numeric d))"
    and "gs = ComputeAffineIntervalFragments ek lr rr ld rd' (Some tk) ov d"
  shows "frags_wf w u gs \<and> ends_inside d gs \<and> frags_hold u gs (rd (\<not> u) z)"
proof -
  have lr: "\<And>s. lr = Some s \<Longrightarrow> SR_wf s \<and> SR_ends s \<and> SR_models \<sigma> s v \<and> sr_domain s = ld" using assms(10) by simp
  have rr: "\<And>s. rr = Some s \<Longrightarrow> SR_wf s \<and> SR_ends s \<and> SR_models \<sigma> s x \<and> sr_domain s = rd'" using assms(11) by simp
  have all: "\<And>p q t. \<not> hasConvexBounds d \<Longrightarrow> p \<in> CR_gamma (numeric ld) \<Longrightarrow> q \<in> CR_gamma (numeric rd') \<Longrightarrow> computes ek ov u p q t \<Longrightarrow> t \<in> CR_gamma (numeric d)"
    using assms(17) by blast
  note f = ComputeAffineIntervalFragments_sound [OF assms(1-9) lr rr assms(12-16) all]
  show ?thesis unfolding assms(18) by (intro conjI f)
qed

text \<open>The values 2, 4, .., 12 and 50, .., 60, moved by 5.\<close>

definition two_intervals :: SIntRange where
  "two_intervals = \<lparr>sr_domain = SD_make (bytes 2 61) True, sr_exact = None, sr_congruence = None, sr_bits = None, sr_excluded = None,
     sr_fragments = Some [\<lparr>frag_lower = byte 2, frag_upper = byte 12, frag_stride = 2, frag_residue = 0\<rparr>,
       \<lparr>frag_lower = byte 50, frag_upper = byte 60, frag_stride = 1, frag_residue = 0\<rparr>]\<rparr>"

theorem ComputeAffineIntervalFragments_sound_at_witness:
  "\<exists>gs. ComputeAffineIntervalFragments EK_ADD (Some two_intervals) None (sr_domain two_intervals) (SD_make (bytes 5 6) True)
      (Some TYPE_UINT8) WRAPPING (SD_make (bytes 7 66) True) = Some gs \<and> length gs = 2 \<and> frags_hold True (Some gs) 15"
proof -
  let ?l = "sr_domain two_intervals" and ?r = "SD_make (bytes 5 6) True" and ?d = "SD_make (bytes 7 66) True"
  let ?c = "ComputeAffineIntervalFragments EK_ADD (Some two_intervals) None ?l ?r (Some TYPE_UINT8) WRAPPING ?d"
  have m: "byte 10 \<in> CR_gamma (numeric ?l)" "byte 5 \<in> CR_gamma (numeric ?r)" "byte 2 \<in> CR_gamma (numeric ?l)"
    "byte 12 \<in> CR_gamma (numeric ?l)" "byte 50 \<in> CR_gamma (numeric ?l)" "byte 60 \<in> CR_gamma (numeric ?l)"
    unfolding CR_gamma_def by (simp_all only: mem_Collect_eq) code_simp+
  have h: "SD_wf ?l" "SD_wf ?r" "SD_wf ?d" "unsignedFlag ?l = True" "unsignedFlag ?r = True" "unsignedFlag ?d = True" "SD_Width ?l = I8"
    "SD_Width ?r = I8" "SD_Width ?d = I8" "kind_matches TYPE_UINT8 True I8" by code_simp+
  have "frags_wf (SD_Width ?l) (unsignedFlag ?l) (sr_fragments two_intervals)" "bits_wf (SD_Width ?l) None" by code_simp+
  then have wf: "SR_wf two_intervals" using h(1) by (simp add: SR_wf_def two_intervals_def)
  have k: "SR_models (\<lambda>_. 0) two_intervals (byte 10)" "computes EK_ADD WRAPPING True (byte 10) (byte 5) (byte 15)"
    "SD_models (\<lambda>_. 0) ?d (byte 15)" "?c = Some (the ?c) \<and> length (the ?c) = 2" "rd (\<not> True) (byte 15) = 15" by code_simp+
  have e: "SR_ends two_intervals" using m by (simp add: SR_ends_def ends_inside_def ends_in_def two_intervals_def)
  have "hasConvexBounds ?d" by code_simp
  then have "hasConvexBounds ?d \<or>
     (\<forall>p \<in> CR_gamma (numeric ?l). \<forall>q \<in> CR_gamma (numeric ?r). \<forall>t. computes EK_ADD WRAPPING True p q t \<longrightarrow> t \<in> CR_gamma (numeric ?d))" ..
  note f = ComputeAffineIntervalFragments_sound_at [OF h(1) m(1) h(2) m(2) h(4,5,7,8,10) _ _ k(2) h(3,9,6) k(3) this refl, of "Some two_intervals" None]
  have "frags_hold True ?c (rd (\<not> True) (byte 15))" by (rule f [THEN conjunct2, THEN conjunct2]) (use wf k(1) e in simp_all)
  then show ?thesis using k(4,5) by metis
qed

text \<open>Counterexample outside that condition: the domain of the result is the wrapped range 204..9, as
  a caller that met the sum with a relational constraint may pass it. Of the fragments 0..20 and
  200..210, moved by 5, only 205..215 ends inside and is kept; the sum 2 + 5 = 7 is in the
  domain and in no fragment.\<close>

definition outer_intervals :: SIntRange where
  "outer_intervals = \<lparr>sr_domain = SD_make (bytes 0 211) True, sr_exact = None, sr_congruence = None, sr_bits = None, sr_excluded = None,
     sr_fragments = Some [\<lparr>frag_lower = byte 0, frag_upper = byte 20, frag_stride = 1, frag_residue = 0\<rparr>,
       \<lparr>frag_lower = byte 200, frag_upper = byte 210, frag_stride = 1, frag_residue = 0\<rparr>]\<rparr>"

theorem ComputeAffineIntervalFragments_drops_value:
  "SR_models (\<lambda>_. 0) outer_intervals (byte 2) \<and> computes EK_ADD THROWING True (byte 2) (byte 5) (byte 7) \<and>
   SD_models (\<lambda>_. 0) (SD_make (bytes 204 10) True) (byte 7) \<and>
   \<not> frags_hold True (ComputeAffineIntervalFragments EK_ADD (Some outer_intervals) None (sr_domain outer_intervals)
       (SD_make (bytes 5 6) True) (Some TYPE_UINT8) THROWING (SD_make (bytes 204 10) True)) 7"
  by (intro conjI; code_simp)

section \<open>Widening\<close>

text \<open>C11: The range that replaces a value at the head of a loop is well-formed and describes every value
  the current state gives it.\<close>

theorem WidenLoopEntry_keeps:
  assumes "SR_wf p" "SD_wf c" "SD_models \<sigma> c v" "SD_Width (sr_domain p) = SD_Width c" "unsignedFlag (sr_domain p) = unsignedFlag c"
    and "\<forall>r. cr = Some r \<longrightarrow> SR_wf r \<and> SR_models \<sigma> r v \<and> sr_domain r = c"
    and "\<forall>t \<in> set ts. SInt_wf t" "WidenLoopEntry cfg pr p c cr ts = Some r"
  shows "SR_wf r \<and> SR_models \<sigma> r v"
  using WidenLoopEntry_sound [OF assms(1-5) _ assms(7,8)] assms(6) by blast

text \<open>C12: However the values that come back to a loop head change, one of the first \<open>4 n + 5\<close> widening
  steps over \<open>n\<close> thresholds changes nothing and covers the values that come back.\<close>

theorem Widening_terminates:
  assumes "SD_wf (x 0)" "SD_Width (x 0) = w" "unsignedFlag (x 0) = u"
    and "\<forall>n. SD_wf (y n) \<and> SD_Width (y n) = w \<and> unsignedFlag (y n) = u" "\<forall>t \<in> set ts. SInt_wf t"
    and "\<forall>n. x (Suc n) = WidenSIntDomain (x n) (y n) ts"
  shows "\<exists>n \<le> 4 * length ts + 4. CR_gamma (numeric (x (Suc n))) = CR_gamma (numeric (x n)) \<and>
    CR_gamma (numeric (y n)) \<subseteq> CR_gamma (numeric (x n))"
  by (rule Widening_stabilises [where x = x and y = y]) (use assms in blast)+

text \<open>C13: The values at a loop head change in at most \<open>4 n + 4\<close> widening steps over \<open>n\<close> thresholds,
  however often the loop is visited, and from some visit on they stay the same and cover
  the values that come back.\<close>

theorem Widening_settles:
  assumes "SD_wf (x 0)" "SD_Width (x 0) = w" "unsignedFlag (x 0) = u"
    and "\<forall>n. SD_wf (y n) \<and> SD_Width (y n) = w \<and> unsignedFlag (y n) = u" "\<forall>t \<in> set ts. SInt_wf t"
    and "\<forall>n. x (Suc n) = WidenSIntDomain (x n) (y n) ts"
  shows "finite {n. CR_gamma (numeric (x (Suc n))) \<noteq> CR_gamma (numeric (x n))} \<and>
    card {n. CR_gamma (numeric (x (Suc n))) \<noteq> CR_gamma (numeric (x n))} \<le> 4 * length ts + 4 \<and>
    (\<exists>N. \<forall>n \<ge> N. CR_gamma (numeric (x n)) = CR_gamma (numeric (x N)) \<and> CR_gamma (numeric (y n)) \<subseteq> CR_gamma (numeric (x N)))"
    by (intro conjI; rule Widening_changes [where x = x and y = y]) (use assms in blast)+

text \<open>A counter that grows by one and is compared with 100: each visit widens with the successors.\<close>

primrec counter :: "nat \<Rightarrow> SIntDomain" where
  "counter 0 = SD_make (bytes 0 1) True"
| "counter (Suc n) = WidenSIntDomain (counter n) (SD_make (bytes 0 11) True) [byte 100]"

theorem Widening_terminates_witness:
  "\<exists>n \<le> 8. CR_gamma (numeric (counter (Suc n))) = CR_gamma (numeric (counter n)) \<and>
     CR_gamma (bytes 0 11) \<subseteq> CR_gamma (numeric (counter n))"
proof -
  have h: "SD_wf (counter 0)" "SD_Width (counter 0) = I8" "unsignedFlag (counter 0) = True"
    "SD_wf (SD_make (bytes 0 11) True) \<and> SD_Width (SD_make (bytes 0 11) True) = I8 \<and> unsignedFlag (SD_make (bytes 0 11) True) = True"
    "\<forall>t \<in> set [byte 100]. SInt_wf t" "numeric (SD_make (bytes 0 11) True) = bytes 0 11" by code_simp+
  show ?thesis
    using Widening_terminates [of counter, OF h(1-3) _ h(5), of "\<lambda>_. SD_make (bytes 0 11) True"] h(4,6) by simp
qed

theorem Widening_settles_witness:
  "card {n. CR_gamma (numeric (counter (Suc n))) \<noteq> CR_gamma (numeric (counter n))} \<le> 8"
proof -
  have h: "SD_wf (counter 0)" "SD_Width (counter 0) = I8" "unsignedFlag (counter 0) = True"
    "SD_wf (SD_make (bytes 0 11) True) \<and> SD_Width (SD_make (bytes 0 11) True) = I8 \<and> unsignedFlag (SD_make (bytes 0 11) True) = True"
    "\<forall>t \<in> set [byte 100]. SInt_wf t" by code_simp+
  show ?thesis
    using Widening_settles [of counter, OF h(1-3) _ h(5), of "\<lambda>_. SD_make (bytes 0 11) True"] h(4) by simp
qed

theorem WidenLoopEntry_keeps_witness:
  "\<exists>r. WidenLoopEntry defaultConfig False (SIntRange_of_domain defaultConfig (SD_make (bytes 0 1) True)) (SD_make (bytes 0 11) True) None
      [byte 100] = Some r \<and> SR_models (\<lambda>_. 0) r (byte 7)"
proof -
  let ?p = "SIntRange_of_domain defaultConfig (SD_make (bytes 0 1) True)" and ?c = "SD_make (bytes 0 11) True"
  let ?w = "WidenLoopEntry defaultConfig False ?p ?c None [byte 100]"
  have h: "SD_wf ?c" "SD_models (\<lambda>_. 0) ?c (byte 7)" "SD_Width (sr_domain ?p) = SD_Width ?c"
    "unsignedFlag (sr_domain ?p) = unsignedFlag ?c" "\<forall>t \<in> set [byte 100]. SInt_wf t" "?w \<noteq> None"
    "SD_wf (SD_make (bytes 0 1) True)" "SD_models (\<lambda>_. 0) (SD_make (bytes 0 1) True) (byte 0)" by code_simp+
  obtain r where r: "?w = Some r" using h(6) by blast
  have "SR_models (\<lambda>_. 0) r (byte 7)"
    using WidenLoopEntry_keeps [OF of_domain_models(2) [OF h(7,8)] h(1-4) _ h(5) r] by simp
  with r show ?thesis by blast
qed

end
