(* ===== verification/Block_Order.thy ===== *)
theory Block_Order
  imports Main "HOL-Library.While_Combinator"
begin

text \<open>
  The order in which the analyses visit the blocks of a function
  (\<^verbatim>\<open>TopologicalSort\<close> of \<^verbatim>\<open>src/CHIR/Utils/Utils.cpp\<close>). A block is a value of any type, a
  control flow graph the function that gives its successors. The list holds the blocks that the
  entry reaches, once each, and every block but the first has a predecessor before it.
\<close>

section \<open>The code\<close>

text \<open>The element at the top of the stack is visited further while it has successors left,
  the last one first, and is put in front of the result when it has none.\<close>

record 'b VisitState =
  res :: "'b list"
  visited :: "'b set"
  visitStack :: "('b \<times> 'b list) list"

definition visit_step :: "('b \<Rightarrow> 'b list) \<Rightarrow> 'b VisitState \<Rightarrow> 'b VisitState" where
  "visit_step successors s =
     (case visitStack s of
        [] \<Rightarrow> s
      | (bb, left) # below \<Rightarrow>
          if left \<noteq> [] then
            let lastSuc = last left; s = s\<lparr>visitStack := (bb, butlast left) # below\<rparr>
            in if lastSuc \<in> visited s then s
               else s\<lparr>visited := insert lastSuc (visited s), visitStack := (lastSuc, successors lastSuc) # visitStack s\<rparr>
          else s\<lparr>res := bb # res s, visitStack := below\<rparr>)"

definition visit_start :: "('b \<Rightarrow> 'b list) \<Rightarrow> 'b \<Rightarrow> 'b VisitState" where
  "visit_start successors entrybb =
     \<lparr>res = [], visited = {entrybb}, visitStack = [(entrybb, successors entrybb)]\<rparr>"

definition TopologicalSort :: "('b \<Rightarrow> 'b list) \<Rightarrow> 'b \<Rightarrow> 'b list option" where
  "TopologicalSort successors entrybb =
     map_option res (while_option (\<lambda>s. visitStack s \<noteq> []) (visit_step successors) (visit_start successors entrybb))"

section \<open>Reachable blocks\<close>

inductive reaches :: "('b \<Rightarrow> 'b list) \<Rightarrow> 'b \<Rightarrow> 'b \<Rightarrow> bool" for f entry where
  start: "reaches f entry entry"
| step: "reaches f entry b \<Longrightarrow> s \<in> set (f b) \<Longrightarrow> reaches f entry s"

definition finite_graph :: "('b \<Rightarrow> 'b list) \<Rightarrow> 'b \<Rightarrow> bool" where
  "finite_graph f entry \<longleftrightarrow> finite {b. reaches f entry b}"

lemma finite_graph_within:
  assumes "finite U" "entry \<in> U" "\<forall>b \<in> U. set (f b) \<subseteq> U"
  shows "finite_graph f entry"
proof -
  have "b \<in> U" if "reaches f entry b" for b using that by induction (use assms in auto)
  then have "{b. reaches f entry b} \<subseteq> U" by blast
  then show ?thesis unfolding finite_graph_def using assms(1) by (rule finite_subset)
qed

text \<open>Every block of the list but its first has a predecessor before it.\<close>

definition led_to :: "('b \<Rightarrow> 'b list) \<Rightarrow> 'b list \<Rightarrow> bool" where
  "led_to f xs \<longleftrightarrow> (\<forall>i < length xs. 0 < i \<longrightarrow> (\<exists>j < i. xs ! i \<in> set (f (xs ! j))))"

lemma led_to_insert:
  assumes l: "led_to f (xs @ ys)" and x: "y \<in> set (f x)" "x \<in> set xs"
  shows "led_to f (xs @ y # ys)"
  unfolding led_to_def
proof (intro allI impI)
  fix i assume i: "i < length (xs @ y # ys)" "0 < i"
  have old: "\<exists>j < k. (xs @ ys) ! k \<in> set (f ((xs @ ys) ! j))" if "k < length (xs @ ys)" "0 < k" for k
    using l that by (simp add: led_to_def)
  consider "i < length xs" | "i = length xs" | "length xs < i" by linarith
  then show "\<exists>j < i. (xs @ y # ys) ! i \<in> set (f ((xs @ y # ys) ! j))"
  proof cases
    case 1
    then obtain j where "j < i" "(xs @ ys) ! i \<in> set (f ((xs @ ys) ! j))" using old [of i] i by auto
    then show ?thesis using 1 by (intro exI [of _ j]) (simp add: nth_append)
  next
    case 2
    obtain j where "j < length xs" "xs ! j = x" using x(2) by (auto simp: in_set_conv_nth)
    then show ?thesis using 2 x(1) by (intro exI [of _ j]) (simp add: nth_append)
  next
    case 3
    have "0 < length xs" using x(2) by (cases xs) auto
    moreover from this have "1 \<le> length xs" by linarith
    ultimately have "i - 1 < length (xs @ ys)" "0 < i - 1" using 3 i by (simp, linarith)
    then obtain j where j: "j < i - 1" "(xs @ ys) ! (i - 1) \<in> set (f ((xs @ ys) ! j))" using old by blast
    have e: "(xs @ y # ys) ! Suc k = (xs @ ys) ! k" if "length xs \<le> k" for k
      using that by (auto simp: nth_append Suc_diff_le)
    have i': "(xs @ y # ys) ! i = (xs @ ys) ! (i - 1)" using e [of "i - 1"] 3 by simp
    show ?thesis
    proof (cases "j < length xs")
      case True
      then show ?thesis using j i' by (intro exI [of _ j]) (simp add: nth_append)
    next
      case False
      then show ?thesis using j i' e [of j] by (intro exI [of _ "Suc j"]) simp
    qed
  qed
qed

section \<open>The invariant of the traversal\<close>

definition visit_ok :: "('b \<Rightarrow> 'b list) \<Rightarrow> 'b \<Rightarrow> 'b VisitState \<Rightarrow> bool" where
  "visit_ok f entry s \<longleftrightarrow>
     (let all = rev (map fst (visitStack s)) @ res s
      in distinct all \<and> set all = visited s \<and> led_to f all \<and> all \<noteq> [] \<and> hd all = entry \<and>
         (\<forall>b \<in> visited s. reaches f entry b) \<and>
         (\<forall>b \<in> set (res s). set (f b) \<subseteq> visited s) \<and>
         (\<forall>(b, left) \<in> set (visitStack s). set left \<subseteq> set (f b) \<and> set (f b) \<subseteq> visited s \<union> set left))"

lemma visit_start_ok: "visit_ok f entry (visit_start f entry)"
  by (auto simp: visit_ok_def visit_start_def led_to_def intro: reaches.start)

lemma visit_step_ok:
  assumes s: "visit_ok f entry s" and ne: "visitStack s \<noteq> []"
  shows "visit_ok f entry (visit_step f s)"
proof -
  obtain b left below where st: "visitStack s = (b, left) # below" using ne by (cases "visitStack s") auto
  show ?thesis
  proof (cases "left = []")
    case True
    then show ?thesis using s st by (auto simp: visit_ok_def visit_step_def Let_def)
  next
    case False
    let ?l = "last left"
    have left: "set left = insert ?l (set (butlast left))" using False
      by (metis append_butlast_last_id list.simps(15) rotate1.simps(2) set_rotate1)
    show ?thesis
    proof (cases "?l \<in> visited s")
      case True
      then show ?thesis using s st False left by (auto simp: visit_ok_def visit_step_def Let_def)
    next
      case new: False
      let ?xs = "rev (map fst (visitStack s))"
      have "?l \<in> set (f b)" "b \<in> set ?xs" "reaches f entry b"
        using s st left by (auto simp: visit_ok_def Let_def)
      then have r: "reaches f entry ?l" and "led_to f (?xs @ ?l # res s)"
        using s led_to_insert [of f ?xs "res s" ?l b] by (auto simp: visit_ok_def Let_def intro: reaches.step)
      moreover have "hd (?xs @ ?l # res s) = hd (?xs @ res s)" using st by (cases "rev (map fst below)") simp_all
      ultimately show ?thesis
        using s st False new left by (auto simp: visit_ok_def visit_step_def Let_def)
    qed
  qed
qed

section \<open>The result\<close>

text \<open>Each step visits a new block or uses up a successor or an element of the stack.\<close>

definition visit_left :: "('b \<Rightarrow> 'b list) \<Rightarrow> 'b \<Rightarrow> 'b VisitState \<Rightarrow> nat" where
  "visit_left f entry s =
     (\<Sum>b \<in> {b. reaches f entry b} - visited s. length (f b) + 2) + sum_list (map (\<lambda>(b, left). length left + 1) (visitStack s))"

lemma visit_step_less:
  assumes s: "visit_ok f entry s" and ne: "visitStack s \<noteq> []" and fin: "finite_graph f entry"
  shows "visit_left f entry (visit_step f s) < visit_left f entry s"
proof -
  obtain b left below where st: "visitStack s = (b, left) # below" using ne by (cases "visitStack s") auto
  show ?thesis
  proof (cases "left = []")
    case True
    then show ?thesis using st by (simp add: visit_left_def visit_step_def)
  next
    case False
    let ?l = "last left" and ?R = "{b. reaches f entry b}"
    show ?thesis
    proof (cases "?l \<in> visited s")
      case True
      then show ?thesis using st False by (simp add: visit_left_def visit_step_def Let_def)
    next
      case new: False
      have "?l \<in> set (f b)" "reaches f entry b" using s st last_in_set [OF False] by (auto simp: visit_ok_def Let_def)
      then have r: "?l \<in> ?R - visited s" using new by (auto intro: reaches.step)
      have "(\<Sum>b \<in> ?R - visited s. length (f b) + 2) = (length (f ?l) + 2) + (\<Sum>b \<in> ?R - visited s - {?l}. length (f b) + 2)"
        using r fin by (subst sum.remove [of _ ?l]) (auto simp: finite_graph_def)
      moreover have "?R - visited s - {?l} = ?R - insert ?l (visited s)" by blast
      ultimately show ?thesis using st False new by (simp add: visit_left_def visit_step_def Let_def)
    qed
  qed
qed

lemma TopologicalSort_total:
  assumes fin: "finite_graph f entry"
  shows "\<exists>xs. TopologicalSort f entry = Some xs"
proof -
  have "\<exists>t. while_option (\<lambda>s. visitStack s \<noteq> []) (visit_step f) (visit_start f entry) = Some t"
  proof (rule measure_while_option_Some [where P = "visit_ok f entry" and f = "visit_left f entry"])
    show "visit_ok f entry (visit_step f s) \<and> visit_left f entry (visit_step f s) < visit_left f entry s"
      if "visit_ok f entry s" "visitStack s \<noteq> []" for s
      using visit_step_ok [OF that] visit_step_less [OF that fin] by (rule conjI)
  qed (rule visit_start_ok)
  then show ?thesis by (auto simp: TopologicalSort_def)
qed

lemma TopologicalSort_facts:
  assumes "TopologicalSort f entry = Some xs"
  shows "distinct xs" "set xs = {b. reaches f entry b}" "led_to f xs" "xs \<noteq> []" "hd xs = entry"
proof -
  obtain t where t: "while_option (\<lambda>s. visitStack s \<noteq> []) (visit_step f) (visit_start f entry) = Some t" "xs = res t"
    using assms by (auto simp: TopologicalSort_def)
  have ok: "visit_ok f entry t" by (rule while_option_rule [OF visit_step_ok t(1) visit_start_ok])
  have st: "visitStack t = []" using while_option_stop [OF t(1)] by simp
  show "distinct xs" "led_to f xs" "xs \<noteq> []" "hd xs = entry" using ok st t(2) by (auto simp: visit_ok_def Let_def)
  have sub: "set xs \<subseteq> {b. reaches f entry b}" and closed: "\<forall>b \<in> set xs. set (f b) \<subseteq> set xs" and e: "entry \<in> set xs"
    using ok st t(2) hd_in_set [of xs] by (auto simp: visit_ok_def Let_def)
  have "b \<in> set xs" if "reaches f entry b" for b
    using that by induction (use e closed in auto)
  then show "set xs = {b. reaches f entry b}" using sub by blast
qed

end
