(* ===== verification/Fixpoint_Engine.thy ===== *)
theory Fixpoint_Engine
  imports Block_Order
begin

text \<open>
  The data-flow engine of \<^verbatim>\<open>Engine.h\<close> over the interface of \<^verbatim>\<open>Analysis.h\<close>. An analysis is the
  record of its virtual functions; its own state, which only \<^verbatim>\<open>CheckInQueueTimes\<close> writes, is passed
  along. The entry states of the blocks are a function: the code fills its map for all blocks of
  the body before it starts. Expressions, terminators, lambdas and blocks are of any type.
\<close>

section \<open>The interface\<close>

record ('b, 'e, 't, 'l, 'd, 'q) Analysis =
  Bottom :: 'd
  IsBottom :: "'d \<Rightarrow> bool"
  Join :: "'d \<Rightarrow> 'd \<Rightarrow> bool \<times> 'd"
  InitializeFuncEntryState :: "'d \<Rightarrow> 'd"
  InitializeLambdaEntryState :: "'l \<Rightarrow> 'd \<Rightarrow> 'd"
  GetBlockLimit :: "nat option"
  LambdaOf :: "'e \<Rightarrow> 'l option"
  IsApplyToLambda :: "'e \<Rightarrow> 'l option"
  IsApplyToLambda_t :: "'t \<Rightarrow> 'l option"
  PreHandleLambdaExpression :: "'d \<Rightarrow> 'l \<Rightarrow> 'd"
  HandleVarStateCapturedByLambda :: "'d \<Rightarrow> 'l \<Rightarrow> 'd"
  PropagateExpressionEffect :: "'d \<Rightarrow> 'e \<Rightarrow> 'd"
  PropagateTerminatorEffect :: "'d \<Rightarrow> 't \<Rightarrow> 'd \<times> 'b option"
  CheckInQueueTimes :: "'q \<Rightarrow> 'b \<Rightarrow> 'd \<Rightarrow> bool \<times> 'd \<times> 'q"
  GetTerminatorStateForSuccessor :: "'d \<Rightarrow> 't \<Rightarrow> 'b \<Rightarrow> 'd"
  GetNarrowingIterationLimit :: nat
  NarrowState :: "'d \<Rightarrow> 'd \<Rightarrow> bool \<times> 'd"

text \<open>What \<^verbatim>\<open>Analysis.h\<close> gives an analysis that does not override it.\<close>

definition default_analysis ::
  "'d \<Rightarrow> ('d \<Rightarrow> bool) \<Rightarrow> ('d \<Rightarrow> 'd \<Rightarrow> bool \<times> 'd) \<Rightarrow> ('e \<Rightarrow> 'l option) \<Rightarrow> ('e \<Rightarrow> 'l option) \<Rightarrow> ('t \<Rightarrow> 'l option) \<Rightarrow>
   ('b, 'e, 't, 'l, 'd, 'q) Analysis" where
  "default_analysis bottom isBottom join lambdaOf applyTo applyTo_t =
     \<lparr>Bottom = bottom, IsBottom = isBottom, Join = join,
      InitializeFuncEntryState = (\<lambda>state. state), InitializeLambdaEntryState = (\<lambda>_ state. state), GetBlockLimit = None,
      LambdaOf = lambdaOf, IsApplyToLambda = applyTo, IsApplyToLambda_t = applyTo_t,
      PreHandleLambdaExpression = (\<lambda>state _. state), HandleVarStateCapturedByLambda = (\<lambda>state _. state),
      PropagateExpressionEffect = (\<lambda>state _. state), PropagateTerminatorEffect = (\<lambda>state _. (state, None)),
      CheckInQueueTimes = (\<lambda>q _ state. (False, state, q)), GetTerminatorStateForSuccessor = (\<lambda>state _ _. state),
      GetNarrowingIterationLimit = 0, NarrowState = (\<lambda>state _. (False, state))\<rparr>"

text \<open>A body: of each block its expressions before the terminator and the terminator, when it has
  any, and of a terminator its successors.\<close>

record ('b, 'e, 't) Body =
  GetExpressions :: "'b \<Rightarrow> ('e list \<times> 't) option"
  TerminatorSuccessors :: "'t \<Rightarrow> 'b list"

definition GetSuccessors :: "('b, 'e, 't) Body \<Rightarrow> 'b \<Rightarrow> 'b list" where
  "GetSuccessors g b = (case GetExpressions g b of Some (_, terminator) \<Rightarrow> TerminatorSuccessors g terminator | None \<Rightarrow> [])"

record ('b, 'l, 'd, 'q) EngineState =
  entryStates :: "'b \<Rightarrow> 'd"
  worklist :: "'b list"
  worklistSet :: "'b set"
  analysisState :: 'q
  lambdaEnvState :: "'l \<Rightarrow> 'd option"
  lambdaWorklist :: "'l list"

section \<open>The worklist\<close>

text \<open>One expression: a lambda is put aside with the state at its definition, any other
  expression changes the state.\<close>

definition ProcessExpression ::
  "('b, 'e, 't, 'l, 'd, 'q) Analysis \<Rightarrow> 'd \<times> ('l \<Rightarrow> 'd option) \<times> 'l list \<Rightarrow> 'e \<Rightarrow> 'd \<times> ('l \<Rightarrow> 'd option) \<times> 'l list" where
  "ProcessExpression A acc exp =
     (let (state, env, lambdas) = acc
      in case LambdaOf A exp of
           Some lambda \<Rightarrow>
             let state = PreHandleLambdaExpression A state lambda
             in (state, env(lambda \<mapsto> state), if lambda \<in> set lambdas then lambdas else lambdas @ [lambda])
         | None \<Rightarrow>
             let state = (case IsApplyToLambda A exp of
                   Some lambda \<Rightarrow> HandleVarStateCapturedByLambda A state lambda | None \<Rightarrow> state)
             in (PropagateExpressionEffect A state exp, env, lambdas))"

definition ProcessTerminator ::
  "('b, 'e, 't, 'l, 'd, 'q) Analysis \<Rightarrow> 'd \<Rightarrow> 't \<Rightarrow> 'd \<times> 'b option" where
  "ProcessTerminator A state terminator =
     PropagateTerminatorEffect A
       (case IsApplyToLambda_t A terminator of
          Some lambda \<Rightarrow> HandleVarStateCapturedByLambda A state lambda | None \<Rightarrow> state) terminator"

definition PropagateEdge ::
  "('b, 'e, 't, 'l, 'd, 'q) Analysis \<Rightarrow> 'd \<Rightarrow> 't \<Rightarrow> ('b, 'l, 'd, 'q) EngineState \<Rightarrow> 'b \<Rightarrow> ('b, 'l, 'd, 'q) EngineState" where
  "PropagateEdge A state terminator s succ =
     (let succState = GetTerminatorStateForSuccessor A state terminator succ;
          (hasChanged, joined) = Join A (entryStates s succ) succState;
          s = s\<lparr>entryStates := (entryStates s)(succ := joined)\<rparr>
      in if hasChanged \<and> succ \<notin> worklistSet s
         then s\<lparr>worklist := worklist s @ [succ], worklistSet := insert succ (worklistSet s)\<rparr> else s)"

definition ProcessBlock ::
  "('b, 'e, 't, 'l, 'd, 'q) Analysis \<Rightarrow> ('b, 'e, 't) Body \<Rightarrow> 'b \<Rightarrow> ('b, 'l, 'd, 'q) EngineState \<Rightarrow> ('b, 'l, 'd, 'q) EngineState" where
  "ProcessBlock A g bb s =
     (if IsBottom A (entryStates s bb) then s
      else case GetExpressions g bb of
             None \<Rightarrow> s
           | Some (exprs, terminator) \<Rightarrow>
               let (state, env, lambdas) = foldl (ProcessExpression A) (entryStates s bb, lambdaEnvState s, lambdaWorklist s) exprs;
                   (state, targetSucc) = ProcessTerminator A state terminator;
                   (limit, state, q) = CheckInQueueTimes A (analysisState s) bb state;
                   targetSucc = (if limit then None else targetSucc);
                   succs = (case targetSucc of Some b \<Rightarrow> [b] | None \<Rightarrow> GetSuccessors g bb)
               in foldl (PropagateEdge A state terminator)
                    (s\<lparr>analysisState := q, lambdaEnvState := env, lambdaWorklist := lambdas\<rparr>) succs)"

definition engine_step ::
  "('b, 'e, 't, 'l, 'd, 'q) Analysis \<Rightarrow> ('b, 'e, 't) Body \<Rightarrow> ('b, 'l, 'd, 'q) EngineState \<Rightarrow> ('b, 'l, 'd, 'q) EngineState" where
  "engine_step A g s =
     (case worklist s of [] \<Rightarrow> s
      | bb # rest \<Rightarrow> ProcessBlock A g bb (s\<lparr>worklist := rest, worklistSet := worklistSet s - {bb}\<rparr>))"

section \<open>Narrowing\<close>

definition NarrowExpression :: "('b, 'e, 't, 'l, 'd, 'q) Analysis \<Rightarrow> 'd \<Rightarrow> 'e \<Rightarrow> 'd" where
  "NarrowExpression A state exp =
     (case LambdaOf A exp of
        Some lambda \<Rightarrow> PreHandleLambdaExpression A state lambda
      | None \<Rightarrow> PropagateExpressionEffect A
          (case IsApplyToLambda A exp of
             Some lambda \<Rightarrow> HandleVarStateCapturedByLambda A state lambda | None \<Rightarrow> state) exp)"

definition CandidateBlock ::
  "('b, 'e, 't, 'l, 'd, 'q) Analysis \<Rightarrow> ('b, 'e, 't) Body \<Rightarrow> ('b \<Rightarrow> 'd) \<Rightarrow> ('b \<Rightarrow> 'd) \<Rightarrow> 'b \<Rightarrow> ('b \<Rightarrow> 'd)" where
  "CandidateBlock A g entries candidates block =
     (if IsBottom A (entries block) then candidates
      else case GetExpressions g block of
             None \<Rightarrow> candidates
           | Some (exprs, terminator) \<Rightarrow>
               let state = foldl (NarrowExpression A) (entries block) exprs;
                   (state, targetSuccessor) = ProcessTerminator A state terminator;
                   successors = (case targetSuccessor of Some b \<Rightarrow> [b] | None \<Rightarrow> GetSuccessors g block)
               in foldl (\<lambda>cs successor. cs(successor :=
                    snd (Join A (cs successor) (GetTerminatorStateForSuccessor A state terminator successor))))
                    candidates successors)"

definition NarrowEntry ::
  "('b, 'e, 't, 'l, 'd, 'q) Analysis \<Rightarrow> ('b \<Rightarrow> 'd) \<Rightarrow> bool \<times> ('b \<Rightarrow> 'd) \<Rightarrow> 'b \<Rightarrow> bool \<times> ('b \<Rightarrow> 'd)" where
  "NarrowEntry A candidates acc block =
     (let (changed, entries) = acc; (c, state) = NarrowState A (entries block) (candidates block)
      in (changed \<or> c, entries(block := state)))"

text \<open>Rounds of narrowing: the candidates are recomputed from the entry states, then every block
  of the body is narrowed with its candidate; it ends when nothing changes or at the limit.\<close>

fun NarrowRounds ::
  "('b, 'e, 't, 'l, 'd, 'q) Analysis \<Rightarrow> ('b, 'e, 't) Body \<Rightarrow> 'b list \<Rightarrow> 'b list \<Rightarrow> 'b \<Rightarrow> 'd \<Rightarrow> nat \<Rightarrow> ('b \<Rightarrow> 'd) \<Rightarrow> ('b \<Rightarrow> 'd)" where
  "NarrowRounds A g blocks blockOrder entryBlock entrySeed 0 entries = entries"
| "NarrowRounds A g blocks blockOrder entryBlock entrySeed (Suc n) entries =
     (let candidates = foldl (CandidateBlock A g entries) ((\<lambda>_. Bottom A)(entryBlock := entrySeed)) blockOrder;
          (changed, entries) = foldl (NarrowEntry A candidates) (False, entries) blocks
      in if changed then NarrowRounds A g blocks blockOrder entryBlock entrySeed n entries else entries)"

section \<open>One body\<close>

text \<open>The result is the state after the worklist is empty, with the narrowed entry states;
  \<open>None\<close> if a loop does not end.\<close>

definition worklist_result ::
  "('b, 'e, 't, 'l, 'd, 'q) Analysis \<Rightarrow> ('b, 'e, 't) Body \<Rightarrow> 'b list \<Rightarrow> ('b, 'l, 'd, 'q) EngineState \<Rightarrow> ('b, 'l, 'd, 'q) EngineState option" where
  "worklist_result A g order s =
     while_option (\<lambda>s. worklist s \<noteq> []) (engine_step A g) (s\<lparr>worklist := order, worklistSet := set order\<rparr>)"

definition IterateSingleUnitToFixpoint ::
  "('b, 'e, 't, 'l, 'd, 'q) Analysis \<Rightarrow> ('b, 'e, 't) Body \<Rightarrow> 'b list \<Rightarrow> 'b \<Rightarrow> ('b, 'l, 'd, 'q) EngineState \<Rightarrow> ('b, 'l, 'd, 'q) EngineState option" where
  "IterateSingleUnitToFixpoint A g blocks entryBlock s =
     (let entrySeed = entryStates s entryBlock
      in case TopologicalSort (GetSuccessors g) entryBlock of
           None \<Rightarrow> None
         | Some order \<Rightarrow>
             map_option (\<lambda>s. s\<lparr>entryStates := NarrowRounds A g blocks order entryBlock entrySeed
                 (GetNarrowingIterationLimit A) (entryStates s)\<rparr>) (worklist_result A g order s))"

section \<open>A function and its lambdas\<close>

text \<open>A function: its blocks and its entry, when it has a body, and those of each lambda. The
  lambda the analysis is at (\<^verbatim>\<open>UpdateCurrentLambda\<close>) is an argument of
  \<open>InitializeLambdaEntryState\<close>, which alone reads it. The result is the entry states of the
  function and of every lambda of the worklist.\<close>

record ('b, 'l) Unit =
  GetBody :: "('b list \<times> 'b) option"
  SKIP_ANALYSIS :: bool
  LambdaBody :: "'l \<Rightarrow> 'b list \<times> 'b"

record ('b, 'l, 'd, 'q) EngineResults =
  entrySets :: "'b \<Rightarrow> 'd"
  lambdaSets :: "('l \<times> ('b \<Rightarrow> 'd)) list"
  engine :: "('b, 'l, 'd, 'q) EngineState"

definition function_start :: "('b, 'e, 't, 'l, 'd, 'q) Analysis \<Rightarrow> 'b \<Rightarrow> 'q \<Rightarrow> ('b, 'l, 'd, 'q) EngineState" where
  "function_start A entryBlock q =
     \<lparr>entryStates = (\<lambda>_. Bottom A)(entryBlock := InitializeFuncEntryState A (Bottom A)),
      worklist = [], worklistSet = {}, analysisState = q, lambdaEnvState = (\<lambda>_. None), lambdaWorklist = []\<rparr>"

text \<open>The next lambda of the worklist; \<open>None\<close> if its state is missing (the code's \<^verbatim>\<open>at\<close> would
  throw) or its body's iteration does not end.\<close>

definition IterateLambda ::
  "('b, 'e, 't, 'l, 'd, 'q) Analysis \<Rightarrow> ('b, 'e, 't) Body \<Rightarrow> ('b, 'l) Unit \<Rightarrow> ('b, 'l, 'd, 'q) EngineResults \<Rightarrow>
   ('b, 'l, 'd, 'q) EngineResults option" where
  "IterateLambda A g func r =
     (let s = engine r; lambda = lambdaWorklist s ! length (lambdaSets r); (blocks, entryBlock) = LambdaBody func lambda
      in case lambdaEnvState s lambda of
           None \<Rightarrow> None
         | Some envState \<Rightarrow>
             let envState = HandleVarStateCapturedByLambda A envState lambda;
                 first = InitializeLambdaEntryState A lambda envState
             in map_option (\<lambda>s. r\<lparr>engine := s, lambdaSets := lambdaSets r @ [(lambda, entryStates s)]\<rparr>)
                  (IterateSingleUnitToFixpoint A g blocks entryBlock
                    (s\<lparr>entryStates := (\<lambda>_. Bottom A)(entryBlock := first)\<rparr>)))"

definition lambdas_left :: "('b, 'l, 'd, 'q) EngineResults option \<Rightarrow> bool" where
  "lambdas_left r = (case r of None \<Rightarrow> False | Some r \<Rightarrow> length (lambdaSets r) < length (lambdaWorklist (engine r)))"

definition DoesExceedBlockLimit :: "('b, 'e, 't, 'l, 'd, 'q) Analysis \<Rightarrow> 'b list \<Rightarrow> bool" where
  "DoesExceedBlockLimit A blocks = (case GetBlockLimit A of None \<Rightarrow> False | Some limit \<Rightarrow> length blocks > limit)"

text \<open>\<open>Some None\<close> is the null pointer: the function is not analysed.\<close>

definition IterateToFixpoint ::
  "('b, 'e, 't, 'l, 'd, 'q) Analysis \<Rightarrow> ('b, 'e, 't) Body \<Rightarrow> ('b, 'l) Unit \<Rightarrow> 'q \<Rightarrow> ('b, 'l, 'd, 'q) EngineResults option option" where
  "IterateToFixpoint A g func q =
     (case GetBody func of
        None \<Rightarrow> Some None
      | Some (blocks, entryBlock) \<Rightarrow>
          if DoesExceedBlockLimit A blocks \<or> SKIP_ANALYSIS func then Some None
          else case IterateSingleUnitToFixpoint A g blocks entryBlock (function_start A entryBlock q) of
                 None \<Rightarrow> None
               | Some s \<Rightarrow>
                   (case while_option lambdas_left (\<lambda>r. Option.bind r (IterateLambda A g func))
                           (Some \<lparr>entrySets = entryStates s, lambdaSets = [], engine = s\<rparr>) of
                      Some (Some r) \<Rightarrow> Some (Some r) | _ \<Rightarrow> None))"

section \<open>What a block sends to a successor\<close>

text \<open>The state of a block as it reaches the terminator's successors, and the successors chosen.\<close>

definition block_out :: "('b, 'e, 't, 'l, 'd, 'q) Analysis \<Rightarrow> ('e list \<times> 't) \<Rightarrow> 'd \<Rightarrow> 'd \<times> 'b option" where
  "block_out A body d = ProcessTerminator A (foldl (NarrowExpression A) d (fst body)) (snd body)"

definition chosen :: "('b, 'e, 't) Body \<Rightarrow> 'b \<Rightarrow> 'b option \<Rightarrow> 'b list" where
  "chosen g b t = (case t of Some x \<Rightarrow> [x] | None \<Rightarrow> GetSuccessors g b)"

lemma ProcessExpression_state:
  "fst (foldl (ProcessExpression A) (d, env, ls) es) = foldl (NarrowExpression A) d es"
proof (induction es arbitrary: d env ls)
  case (Cons e es)
  have "\<exists>env' ls'. ProcessExpression A (d, env, ls) e = (NarrowExpression A d e, env', ls')"
    by (auto simp: ProcessExpression_def NarrowExpression_def Let_def split: option.splits)
  then show ?case using Cons by auto
qed simp

text \<open>A step that processes a block: the edges it propagates along.\<close>

lemma ProcessBlock_cases:
  obtains (skip) "IsBottom A (entryStates s b) \<or> GetExpressions g b = None" "ProcessBlock A g b s = s"
  | (out) body d t limit d' q s' where "\<not> IsBottom A (entryStates s b)" "GetExpressions g b = Some body"
      "block_out A body (entryStates s b) = (d, t)" "CheckInQueueTimes A (analysisState s) b d = (limit, d', q)"
      "entryStates s' = entryStates s" "worklist s' = worklist s" "worklistSet s' = worklistSet s"
      "ProcessBlock A g b s = foldl (PropagateEdge A d' (snd body)) s' (chosen g b (if limit then None else t))"
proof (cases "IsBottom A (entryStates s b) \<or> GetExpressions g b = None")
  case True
  then show thesis by (intro skip) (auto simp: ProcessBlock_def)
next
  case False
  then obtain es tm where body: "GetExpressions g b = Some (es, tm)" "\<not> IsBottom A (entryStates s b)" by auto
  obtain d0 env ls where f: "foldl (ProcessExpression A) (entryStates s b, lambdaEnvState s, lambdaWorklist s) es = (d0, env, ls)"
    by (metis prod_cases3)
  then have d0: "d0 = foldl (NarrowExpression A) (entryStates s b) es"
    using ProcessExpression_state [of A "entryStates s b" "lambdaEnvState s" "lambdaWorklist s" es] by simp
  obtain d t where o: "ProcessTerminator A d0 tm = (d, t)" by (metis surj_pair)
  obtain limit d' q where c: "CheckInQueueTimes A (analysisState s) b d = (limit, d', q)" by (metis prod_cases3)
  show thesis
    by (rule out [of "(es, tm)" d t limit d' q "s\<lparr>analysisState := q, lambdaEnvState := env, lambdaWorklist := ls\<rparr>"])
      (use body f d0 o c in \<open>simp_all add: ProcessBlock_def block_out_def chosen_def split: if_splits\<close>)
qed

end
