(* ===== verification/Engine_Sound.thy ===== *)
theory Engine_Sound
  imports Fixpoint_Engine
begin

text \<open>
  What the engine promises of any analysis that keeps its contract. The contract is the locale
  \<open>sound_analysis\<close>: the states of a domain stand for sets of concrete states, the joins and effects
  cover them. \<open>ordered_analysis\<close> is the contract of a domain whose join makes a state reachable
  without reporting it as a change, and which the engine serves by its first pass in topological
  order.
\<close>

section \<open>The contract\<close>

text \<open>What a body's runs reach from the concrete states \<open>S\<close> at its entry.\<close>

inductive runs_to :: "('b \<Rightarrow> 'x \<Rightarrow> 'x \<Rightarrow> 'b \<Rightarrow> bool) \<Rightarrow> 'x set \<Rightarrow> 'b \<Rightarrow> 'b \<Rightarrow> 'x \<Rightarrow> bool" for run S entry where
  start: "x \<in> S \<Longrightarrow> runs_to run S entry entry x"
| step: "runs_to run S entry b x \<Longrightarrow> run b x y s \<Longrightarrow> runs_to run S entry s y"

lemma runs_to_mono: "runs_to run S entry b x \<Longrightarrow> S \<subseteq> T \<Longrightarrow> runs_to run T entry b x"
  by (induction rule: runs_to.induct) (auto intro: runs_to.intros)

text \<open>\<open>run b x y s\<close>: the block \<open>b\<close> entered in the concrete state \<open>x\<close> leaves for its successor \<open>s\<close>
  in the state \<open>y\<close>. A \<open>settled\<close> state is one from which a join that reports no change adds
  nothing.\<close>

locale sound_analysis =
  fixes A :: "('b, 'e, 't, 'l, 'd, 'q) Analysis" and g :: "('b, 'e, 't) Body" and \<gamma> :: "'d \<Rightarrow> 'x set"
    and wf :: "'d \<Rightarrow> bool" and settled :: "'d \<Rightarrow> bool" and run :: "'b \<Rightarrow> 'x \<Rightarrow> 'x \<Rightarrow> 'b \<Rightarrow> bool"
  assumes bottom_wf: "wf (Bottom A)"
    and bottom_empty: "wf d \<Longrightarrow> IsBottom A d \<Longrightarrow> \<gamma> d = {}"
    and join_wf: "wf a \<Longrightarrow> wf d \<Longrightarrow> wf (snd (Join A a d))"
    and join_left: "wf a \<Longrightarrow> wf d \<Longrightarrow> \<gamma> a \<subseteq> \<gamma> (snd (Join A a d))"
    and join_right: "wf a \<Longrightarrow> wf d \<Longrightarrow> \<gamma> d \<subseteq> \<gamma> (snd (Join A a d))"
    and join_silent: "wf a \<Longrightarrow> wf d \<Longrightarrow> settled a \<Longrightarrow> \<not> fst (Join A a d) \<Longrightarrow> \<gamma> (snd (Join A a d)) \<subseteq> \<gamma> a"
    and join_settled: "wf a \<Longrightarrow> wf d \<Longrightarrow> settled a \<Longrightarrow> settled (snd (Join A a d))"
    and out_wf: "wf d \<Longrightarrow> \<not> IsBottom A d \<Longrightarrow> GetExpressions g b = Some body \<Longrightarrow> wf (fst (block_out A body d))"
    and out_target: "wf d \<Longrightarrow> \<not> IsBottom A d \<Longrightarrow> GetExpressions g b = Some body \<Longrightarrow> snd (block_out A body d) = Some c \<Longrightarrow>
      c \<in> set (GetSuccessors g b)"
    and queue_wf: "wf d \<Longrightarrow> wf (fst (snd (CheckInQueueTimes A q b d)))"
    and queue_keeps: "wf d \<Longrightarrow> \<gamma> d \<subseteq> \<gamma> (fst (snd (CheckInQueueTimes A q b d)))"
    and edge_wf: "wf d \<Longrightarrow> wf (GetTerminatorStateForSuccessor A d t s)"
    and narrow_wf: "wf a \<Longrightarrow> wf d \<Longrightarrow> wf (snd (NarrowState A a d))"
    and narrow_keeps: "wf a \<Longrightarrow> wf d \<Longrightarrow> \<gamma> a \<inter> \<gamma> d \<subseteq> \<gamma> (snd (NarrowState A a d))"
    and run_succ: "run b x y s \<Longrightarrow> s \<in> set (GetSuccessors g b)"
    and run_out: "run b x y s \<Longrightarrow> wf d \<Longrightarrow> x \<in> \<gamma> d \<Longrightarrow> GetExpressions g b = Some body \<Longrightarrow>
      y \<in> \<gamma> (fst (block_out A body d)) \<and> s \<in> set (chosen g b (snd (block_out A body d)))"
    and run_edge: "run b x y s \<Longrightarrow> wf d \<Longrightarrow> y \<in> \<gamma> d \<Longrightarrow> GetExpressions g b = Some body \<Longrightarrow>
      y \<in> \<gamma> (GetTerminatorStateForSuccessor A d (snd body) s)"
begin

lemma run_body: "run b x y s \<Longrightarrow> GetExpressions g b \<noteq> None"
  using run_succ [of b x y s] by (cases "GetExpressions g b") (simp_all add: GetSuccessors_def)

subsection \<open>The edges of one block\<close>

lemma edge_facts:
  fixes t :: 't
  assumes s: "\<And>c. wf (entryStates s c)" and d: "wf d"
    and quiet: "c \<in> set (worklist s) \<or> settled (entryStates s c)"
    and set: "worklistSet s = set (worklist s)" "distinct (worklist s)"
  defines "s' \<equiv> PropagateEdge A d t s c"
  shows "wf (entryStates s' x)" "worklistSet s' = set (worklist s')" "distinct (worklist s')"
    and "set (worklist s) \<subseteq> set (worklist s')" "set (worklist s') \<subseteq> insert c (set (worklist s))"
    and "\<gamma> (entryStates s x) \<subseteq> \<gamma> (entryStates s' x)"
    and "x \<notin> set (worklist s') \<Longrightarrow> \<gamma> (entryStates s' x) \<subseteq> \<gamma> (entryStates s x)"
    and "settled (entryStates s x) \<Longrightarrow> settled (entryStates s' x)"
    and "\<gamma> (GetTerminatorStateForSuccessor A d t c) \<subseteq> \<gamma> (entryStates s' c)"
proof -
  let ?a = "entryStates s c" and ?e = "GetTerminatorStateForSuccessor A d t c"
  obtain h j where j: "Join A ?a ?e = (h, j)" by (cases "Join A ?a ?e")
  have e: "wf ?e" by (rule edge_wf [OF d])
  have s': "entryStates s' = (entryStates s)(c := j)" "worklistSet s' = set (worklist s')"
    "worklist s' = (if h \<and> c \<notin> set (worklist s) then worklist s @ [c] else worklist s)"
    using j set by (auto simp: s'_def PropagateEdge_def Let_def)
  show "wf (entryStates s' x)" "\<gamma> (entryStates s x) \<subseteq> \<gamma> (entryStates s' x)"
    "settled (entryStates s x) \<Longrightarrow> settled (entryStates s' x)" "\<gamma> ?e \<subseteq> \<gamma> (entryStates s' c)"
    using s join_wf [OF s e, of c] join_left [OF s e, of c] join_right [OF s e, of c] join_settled [OF s e, of c] j s'(1)
    by auto
  show "worklistSet s' = set (worklist s')" by (rule s'(2))
  show "set (worklist s) \<subseteq> set (worklist s')" "set (worklist s') \<subseteq> insert c (set (worklist s))" "distinct (worklist s')"
    using s'(3) set by auto
  show "\<gamma> (entryStates s' x) \<subseteq> \<gamma> (entryStates s x)" if "x \<notin> set (worklist s')"
  proof (cases "x = c")
    case True
    then have "\<not> h" "settled ?a" using that s'(3) quiet by (auto split: if_splits)
    then show ?thesis using True join_silent [OF s e, of c] j s'(1) by simp
  next
    case False
    then show ?thesis using s'(1) by simp
  qed
qed

text \<open>What the edges of a block leave, from \<open>s\<close> to \<open>s'\<close>.\<close>

definition grown :: "('b, 'l, 'd, 'q) EngineState \<Rightarrow> ('b, 'l, 'd, 'q) EngineState \<Rightarrow> bool" where
  "grown s s' \<longleftrightarrow>
     (\<forall>x. wf (entryStates s' x)) \<and> worklistSet s' = set (worklist s') \<and> distinct (worklist s') \<and>
     set (worklist s) \<subseteq> set (worklist s') \<and> (\<forall>x. \<gamma> (entryStates s x) \<subseteq> \<gamma> (entryStates s' x)) \<and>
     (\<forall>x. x \<notin> set (worklist s') \<longrightarrow> \<gamma> (entryStates s' x) \<subseteq> \<gamma> (entryStates s x)) \<and>
     (\<forall>x. settled (entryStates s x) \<longrightarrow> settled (entryStates s' x))"

lemma grown_trans: "grown s s' \<Longrightarrow> grown s' s'' \<Longrightarrow> grown s s''"
  unfolding grown_def by (intro conjI allI impI) blast+

lemma edges_facts:
  fixes t :: 't
  assumes d: "wf d"
  shows "\<forall>x. wf (entryStates s x) \<Longrightarrow> \<forall>c \<in> set cs. c \<in> set (worklist s) \<or> settled (entryStates s c) \<Longrightarrow>
    worklistSet s = set (worklist s) \<Longrightarrow> distinct (worklist s) \<Longrightarrow>
    grown s (foldl (PropagateEdge A d t) s cs) \<and>
    set (worklist (foldl (PropagateEdge A d t) s cs)) \<subseteq> set cs \<union> set (worklist s) \<and>
    (\<forall>c \<in> set cs. \<gamma> (GetTerminatorStateForSuccessor A d t c) \<subseteq> \<gamma> (entryStates (foldl (PropagateEdge A d t) s cs) c))"
proof (induction cs arbitrary: s)
  case Nil
  then show ?case by (simp add: grown_def)
next
  case (Cons c cs)
  let ?s = "PropagateEdge A d t s c" and ?s' = "foldl (PropagateEdge A d t) (PropagateEdge A d t s c) cs"
  have w: "wf (entryStates s x)" for x using Cons.prems(1) by blast
  have q: "c \<in> set (worklist s) \<or> settled (entryStates s c)" using Cons.prems(2) by simp
  note f = edge_facts [OF w d q Cons.prems(3,4), where t = t]
  have g: "grown s ?s" unfolding grown_def using f by (intro conjI allI impI) assumption+
  have "\<forall>x \<in> set cs. x \<in> set (worklist ?s) \<or> settled (entryStates ?s x)"
    using Cons.prems(2) f(4,8) by auto
  note ih = Cons.IH [OF _ this f(2,3)]
  have ih: "grown ?s ?s'" "set (worklist ?s') \<subseteq> set cs \<union> set (worklist ?s)"
    "\<forall>c \<in> set cs. \<gamma> (GetTerminatorStateForSuccessor A d t c) \<subseteq> \<gamma> (entryStates ?s' c)"
    using ih f(1) by simp_all
  have "\<gamma> (entryStates ?s c) \<subseteq> \<gamma> (entryStates ?s' c)" using ih(1) by (simp add: grown_def)
  then have "\<gamma> (GetTerminatorStateForSuccessor A d t c) \<subseteq> \<gamma> (entryStates ?s' c)" using f(9) by blast
  moreover have "set (worklist ?s') \<subseteq> set (c # cs) \<union> set (worklist s)" using ih(2) f(5) by auto
  ultimately show ?case using ih(3) grown_trans [OF g ih(1)] by simp
qed

subsection \<open>The invariant of the worklist\<close>

definition covers_edges :: "('b \<Rightarrow> 'd) \<Rightarrow> 'b \<Rightarrow> bool" where
  "covers_edges e b \<longleftrightarrow> (\<forall>x y c. x \<in> \<gamma> (e b) \<longrightarrow> run b x y c \<longrightarrow> y \<in> \<gamma> (e c))"

definition engine_inv :: "'b set \<Rightarrow> ('b, 'l, 'd, 'q) EngineState \<Rightarrow> bool" where
  "engine_inv R s \<longleftrightarrow>
     (\<forall>c. wf (entryStates s c)) \<and> worklistSet s = set (worklist s) \<and> distinct (worklist s) \<and> set (worklist s) \<subseteq> R \<and>
     (\<forall>c \<in> R - set (worklist s). settled (entryStates s c) \<and> covers_edges (entryStates s) c)"

lemma chosen_sub:
  assumes "wf d" "\<not> IsBottom A d" "GetExpressions g b = Some body" "block_out A body d = (d', t)"
  shows "set (chosen g b (if limit then None else t)) \<subseteq> set (GetSuccessors g b)"
  using out_target [OF assms(1-3)] assms(4) by (auto simp: chosen_def split: option.splits)

text \<open>A step keeps the invariant, and the entry states only grow.\<close>

lemma engine_step_keeps:
  assumes inv: "engine_inv R s" and w: "worklist s = b # rest" and b: "settled (entryStates s b)"
    and R: "\<And>c. c \<in> R \<Longrightarrow> set (GetSuccessors g c) \<subseteq> R"
  shows "engine_inv R (engine_step A g s) \<and> (\<forall>x. \<gamma> (entryStates s x) \<subseteq> \<gamma> (entryStates (engine_step A g s) x))"
proof -
  let ?r = "s\<lparr>worklist := rest, worklistSet := worklistSet s - {b}\<rparr>" and ?s' = "engine_step A g s"
  have r: "worklistSet ?r = set (worklist ?r)" "distinct (worklist ?r)" "set (worklist ?r) \<subseteq> R" "b \<in> R"
    and wf: "\<forall>c. wf (entryStates s c)"
    and old: "\<And>c. c \<in> R \<Longrightarrow> c \<notin> set rest \<Longrightarrow> c \<noteq> b \<Longrightarrow> settled (entryStates s c) \<and> covers_edges (entryStates s) c"
    using inv w by (auto simp: engine_inv_def)
  have s': "?s' = ProcessBlock A g b ?r" using w by (simp add: engine_step_def)
  have wfb: "wf (entryStates s b)" using wf by blast
  show ?thesis
  proof (rule ProcessBlock_cases [of A ?r b g])
    assume skip: "IsBottom A (entryStates ?r b) \<or> GetExpressions g b = None" "ProcessBlock A g b ?r = ?r"
    have "covers_edges (entryStates s) b"
      using skip(1) bottom_empty [OF wfb] unfolding covers_edges_def by (fastforce dest: run_body)
    then show ?thesis unfolding s' skip(2) engine_inv_def using r wf old b by auto
  next
    fix body d t limit d' q s1
    assume body: "\<not> IsBottom A (entryStates ?r b)" "GetExpressions g b = Some body"
      and out: "block_out A body (entryStates ?r b) = (d, t)"
      and c: "CheckInQueueTimes A (analysisState ?r) b d = (limit, d', q)"
      and s1: "entryStates s1 = entryStates ?r" "worklist s1 = worklist ?r" "worklistSet s1 = worklistSet ?r"
      and p: "ProcessBlock A g b ?r = foldl (PropagateEdge A d' (snd body)) s1 (chosen g b (if limit then None else t))"
    let ?cs = "chosen g b (if limit then None else t)"
    have nb: "\<not> IsBottom A (entryStates s b)" using body(1) by simp
    have wd: "wf d" using out_wf [OF wfb nb body(2)] out by simp
    have wd': "wf d'" "\<gamma> d \<subseteq> \<gamma> d'" using queue_wf [OF wd] queue_keeps [OF wd] c by (metis fst_conv snd_conv)+
    have sub: "set ?cs \<subseteq> set (GetSuccessors g b)" by (rule chosen_sub [OF wfb nb body(2)]) (use out in simp)
    have cs: "set ?cs \<subseteq> R" using sub R [OF r(4)] by blast
    have "c \<in> set (worklist s1) \<or> settled (entryStates s1 c)" if "c \<in> set ?cs" for c
      using old [of c] subsetD [OF cs that] b s1 by auto
    then have e: "grown s1 ?s'" "set (worklist ?s') \<subseteq> set ?cs \<union> set (worklist s1)"
      "\<forall>c \<in> set ?cs. \<gamma> (GetTerminatorStateForSuccessor A d' (snd body) c) \<subseteq> \<gamma> (entryStates ?s' c)"
      using edges_facts [OF wd'(1), of s1 ?cs "snd body"] wf r s1 unfolding s' p by simp_all
    have up: "\<gamma> (entryStates s x) \<subseteq> \<gamma> (entryStates ?s' x)" for x using e(1) s1 by (simp add: grown_def)
    have down: "\<gamma> (entryStates ?s' x) \<subseteq> \<gamma> (entryStates s x)" if "x \<notin> set (worklist ?s')" for x
      using e(1) s1 that by (simp add: grown_def)
    have cov: "covers_edges (entryStates ?s') x" if x: "x \<notin> set (worklist ?s')" and o: "x = b \<or> covers_edges (entryStates s) x" for x
      unfolding covers_edges_def
    proof (intro allI impI)
      fix z y c assume z: "z \<in> \<gamma> (entryStates ?s' x)" and rn: "run x z y c"
      have z': "z \<in> \<gamma> (entryStates s x)" using z down [OF x] by blast
      show "y \<in> \<gamma> (entryStates ?s' c)"
      proof (cases "x = b")
        case True
        have y: "y \<in> \<gamma> d" and c: "c \<in> set (chosen g b t)" using run_out [OF _ wfb _ body(2)] rn z' True out by auto
        then have "y \<in> \<gamma> (GetTerminatorStateForSuccessor A d' (snd body) c)" "c \<in> set ?cs"
          using run_edge [OF _ wd'(1) _ body(2)] rn True wd'(2) run_succ [of b z y c] by (blast, auto simp: chosen_def)
        then show ?thesis using e(3) by blast
      next
        case False
        then show ?thesis using o z' rn up unfolding covers_edges_def by blast
      qed
    qed
    have "settled (entryStates ?s' x) \<and> covers_edges (entryStates ?s') x" if x: "x \<in> R" "x \<notin> set (worklist ?s')" for x
    proof
      have "x \<notin> set rest" using x e(1) s1 by (auto simp: grown_def)
      then have o: "x = b \<or> settled (entryStates s x) \<and> covers_edges (entryStates s) x" using old x by blast
      then show "settled (entryStates ?s' x)" using e(1) s1 b by (auto simp: grown_def)
      show "covers_edges (entryStates ?s') x" using cov [OF x(2)] o by blast
    qed
    moreover have "set (worklist ?s') \<subseteq> R" using e(2) cs r(3) s1 by auto
    moreover have "\<forall>c. wf (entryStates ?s' c)" "worklistSet ?s' = set (worklist ?s')" "distinct (worklist ?s')"
      using e(1) by (simp_all add: grown_def)
    ultimately show ?thesis using up unfolding engine_inv_def by blast
  qed
qed

text \<open>The worklist until it is empty: as long as every block is settled when its turn comes, the
  entry states it leaves cover all edges.\<close>

lemma worklist_result_covers:
  assumes res: "worklist_result A g order s = Some s'"
    and order: "distinct order" "\<And>c. c \<in> set order \<Longrightarrow> set (GetSuccessors g c) \<subseteq> set order"
    and wf: "\<And>c. wf (entryStates s c)"
    and Q0: "Q (s\<lparr>worklist := order, worklistSet := set order\<rparr>)"
    and Q: "\<And>t b rest. engine_inv (set order) t \<Longrightarrow> Q t \<Longrightarrow> worklist t = b # rest \<Longrightarrow> settled (entryStates t b) \<and> Q (engine_step A g t)"
  shows "(\<forall>c. wf (entryStates s' c)) \<and> (\<forall>c \<in> set order. covers_edges (entryStates s') c) \<and>
    (\<forall>c. \<gamma> (entryStates s c) \<subseteq> \<gamma> (entryStates s' c))"
proof -
  let ?P = "\<lambda>t. engine_inv (set order) t \<and> Q t \<and> (\<forall>c. \<gamma> (entryStates s c) \<subseteq> \<gamma> (entryStates t c))"
  have "?P s'"
  proof (rule while_option_rule [where P = ?P, OF _ res [unfolded worklist_result_def]])
    show "?P (s\<lparr>worklist := order, worklistSet := set order\<rparr>)"
      using wf order(1) Q0 by (simp add: engine_inv_def)
  next
    fix t assume t: "?P t" and "worklist t \<noteq> []"
    then obtain b rest where w: "worklist t = b # rest" by (cases "worklist t") auto
    have inv: "engine_inv (set order) t" "Q t" using t by simp_all
    have q: "settled (entryStates t b)" "Q (engine_step A g t)" using Q [OF inv w] by simp_all
    have k: "engine_inv (set order) (engine_step A g t)" "\<forall>x. \<gamma> (entryStates t x) \<subseteq> \<gamma> (entryStates (engine_step A g t) x)"
      using engine_step_keeps [OF inv(1) w q(1) order(2)] by simp_all
    have "\<forall>c. \<gamma> (entryStates s c) \<subseteq> \<gamma> (entryStates (engine_step A g t) c)" using t k(2) by blast
    then show "?P (engine_step A g t)" using k(1) q(2) by simp
  qed
  moreover have "worklist s' = []" using while_option_stop [OF res [unfolded worklist_result_def]] by simp
  ultimately show ?thesis by (simp add: engine_inv_def)
qed

subsection \<open>Narrowing\<close>

text \<open>\<open>X\<close> is a set of concrete states of each block that the entry states cover; a round of
  narrowing keeps covering it if it holds the seed's states and is closed under the runs.\<close>

lemma CandidateBlock_covers:
  fixes b :: 'b
  assumes e: "\<forall>c. wf (entries c)" and cs: "\<forall>c. wf (cs c)"
  defines "cs' \<equiv> CandidateBlock A g entries cs b"
  shows "wf (cs' c) \<and> \<gamma> (cs c) \<subseteq> \<gamma> (cs' c) \<and> (\<forall>x y k. x \<in> \<gamma> (entries b) \<longrightarrow> run b x y k \<longrightarrow> y \<in> \<gamma> (cs' k))"
proof (cases "IsBottom A (entries b) \<or> GetExpressions g b = None")
  case True
  then have "cs' = cs" by (auto simp: cs'_def CandidateBlock_def)
  moreover have "x \<notin> \<gamma> (entries b) \<or> \<not> run b x y k" for x y k
    using True bottom_empty e by (auto dest: run_body)
  ultimately show ?thesis using cs by auto
next
  case False
  then obtain es tm where body: "GetExpressions g b = Some (es, tm)" by auto
  obtain d t where out: "block_out A (es, tm) (entries b) = (d, t)" by (cases "block_out A (es, tm) (entries b)")
  let ?join = "\<lambda>cs c. cs(c := snd (Join A (cs c) (GetTerminatorStateForSuccessor A d tm c)))"
  have cs': "cs' = foldl ?join cs (chosen g b t)"
    using False body out by (simp add: cs'_def CandidateBlock_def block_out_def chosen_def Let_def)
  have wd: "wf d" using out_wf [OF e [rule_format] _ body] False out by (metis fst_conv)
  have fold: "(\<forall>c. wf (foldl ?join f ks c) \<and> \<gamma> (f c) \<subseteq> \<gamma> (foldl ?join f ks c)) \<and>
      (\<forall>k \<in> set ks. \<gamma> (GetTerminatorStateForSuccessor A d tm k) \<subseteq> \<gamma> (foldl ?join f ks k))" if "\<forall>c. wf (f c)" for f ks
    using that
  proof (induction ks arbitrary: f)
    case (Cons k ks)
    let ?f = "?join f k"
    note ek = edge_wf [OF wd, of tm k]
    have fk: "wf (f k)" using Cons.prems by blast
    have w: "\<forall>c. wf (?f c)" using Cons.prems join_wf [OF fk ek] by simp
    have up: "\<gamma> (f c) \<subseteq> \<gamma> (?f c)" for c using join_left [OF fk ek] by simp
    have "\<gamma> (GetTerminatorStateForSuccessor A d tm k) \<subseteq> \<gamma> (?f k)" using join_right [OF fk ek] by simp
    then have "\<gamma> (GetTerminatorStateForSuccessor A d tm k) \<subseteq> \<gamma> (foldl ?join ?f ks k)" using Cons.IH [OF w] by blast
    moreover have "\<gamma> (f c) \<subseteq> \<gamma> (foldl ?join ?f ks c)" for c using Cons.IH [OF w] up by blast
    ultimately show ?case using Cons.IH [OF w] unfolding foldl_Cons list.set ball_simps by blast
  qed simp
  have f: "\<forall>c. wf (cs' c) \<and> \<gamma> (cs c) \<subseteq> \<gamma> (cs' c)" "\<forall>k \<in> set (chosen g b t). \<gamma> (GetTerminatorStateForSuccessor A d tm k) \<subseteq> \<gamma> (cs' k)"
    using fold [of cs "chosen g b t"] cs unfolding cs' by blast+
  have "y \<in> \<gamma> (cs' k)" if x: "x \<in> \<gamma> (entries b)" and r: "run b x y k" for x y k
  proof -
    have y: "y \<in> \<gamma> d" "k \<in> set (chosen g b t)" using run_out [OF r e [rule_format] x body] out by simp_all
    have "y \<in> \<gamma> (GetTerminatorStateForSuccessor A d tm k)" using run_edge [OF r wd y(1) body] by simp
    then show ?thesis using f(2) y(2) by blast
  qed
  then show ?thesis using f(1) by blast
qed

lemma CandidateBlocks_cover:
  fixes bs :: "'b list"
  assumes e: "\<forall>c. wf (entries c)" and cs: "\<forall>c. wf (cs c)"
  defines "cs' \<equiv> foldl (CandidateBlock A g entries) cs bs"
  shows "(\<forall>c. wf (cs' c) \<and> \<gamma> (cs c) \<subseteq> \<gamma> (cs' c)) \<and>
    (\<forall>b \<in> set bs. \<forall>x y k. x \<in> \<gamma> (entries b) \<longrightarrow> run b x y k \<longrightarrow> y \<in> \<gamma> (cs' k))"
  using cs unfolding cs'_def
proof (induction bs arbitrary: cs)
  case (Cons b bs)
  let ?c = "CandidateBlock A g entries cs b"
  note b = CandidateBlock_covers [OF e Cons.prems, of b]
  have w: "\<forall>c. wf (?c c)" and up: "\<And>c. \<gamma> (cs c) \<subseteq> \<gamma> (?c c)"
    and r: "\<And>x y k. x \<in> \<gamma> (entries b) \<Longrightarrow> run b x y k \<Longrightarrow> y \<in> \<gamma> (?c k)" using b by blast+
  show ?case using Cons.IH [OF w] up r by (simp, blast)
qed simp

lemma NarrowEntry_keeps:
  assumes c: "\<forall>b. wf (cand b)"
  shows "\<forall>b. wf (snd acc b) \<Longrightarrow> \<forall>b. wf (snd (foldl (NarrowEntry A cand) acc bs) b) \<and>
    \<gamma> (snd acc b) \<inter> \<gamma> (cand b) \<subseteq> \<gamma> (snd (foldl (NarrowEntry A cand) acc bs) b)"
proof (induction bs arbitrary: acc)
  case (Cons k bs)
  have k: "wf (snd (NarrowEntry A cand acc k) b) \<and> \<gamma> (snd acc b) \<inter> \<gamma> (cand b) \<subseteq> \<gamma> (snd (NarrowEntry A cand acc k) b)" for b
    using Cons.prems narrow_wf [OF _ c [rule_format], of "snd acc k" k] narrow_keeps [OF _ c [rule_format], of "snd acc k" k]
    by (auto simp: NarrowEntry_def Let_def split: prod.splits)
  then show ?case using Cons.IH [of "NarrowEntry A cand acc k"] by (simp, blast)
qed simp

lemma NarrowRounds_cover:
  assumes seed: "wf seed" "S \<subseteq> \<gamma> seed"
    and X: "\<And>b y. y \<in> X b \<Longrightarrow> b = entry \<and> y \<in> S \<or> (\<exists>c x. c \<in> set order \<and> x \<in> X c \<and> run c x y b)"
  shows "\<forall>b. wf (entries b) \<and> X b \<subseteq> \<gamma> (entries b) \<Longrightarrow>
    \<forall>b. wf (NarrowRounds A g blocks order entry seed n entries b) \<and> X b \<subseteq> \<gamma> (NarrowRounds A g blocks order entry seed n entries b)"
proof (induction n arbitrary: entries)
  case (Suc n)
  let ?c0 = "(\<lambda>_. Bottom A)(entry := seed)"
  let ?cand = "foldl (CandidateBlock A g entries) ?c0 order"
  let ?r = "foldl (NarrowEntry A ?cand) (False, entries) blocks"
  have e: "\<forall>c. wf (entries c)" and Xe: "\<And>b. X b \<subseteq> \<gamma> (entries b)" using Suc.prems by blast+
  have c0: "\<forall>c. wf (?c0 c)" using bottom_wf seed(1) by simp
  note c = CandidateBlocks_cover [OF e c0, where bs = order]
  have cw: "\<forall>b. wf (?cand b)" and up: "\<And>b. \<gamma> (?c0 b) \<subseteq> \<gamma> (?cand b)"
    and st: "\<And>b x y k. b \<in> set order \<Longrightarrow> x \<in> \<gamma> (entries b) \<Longrightarrow> run b x y k \<Longrightarrow> y \<in> \<gamma> (?cand k)" using c by blast+
  have Xc: "X b \<subseteq> \<gamma> (?cand b)" for b
  proof
    fix y assume y: "y \<in> X b"
    from X [OF y] show "y \<in> \<gamma> (?cand b)"
    proof (elim disjE exE conjE)
      assume "b = entry" "y \<in> S"
      then have "y \<in> \<gamma> (?c0 b)" using seed(2) y by auto
      then show ?thesis using up by blast
    next
      fix c x assume "c \<in> set order" "x \<in> X c" "run c x y b"
      then show ?thesis using st Xe by blast
    qed
  qed
  have "\<forall>b. wf (snd ?r b) \<and> \<gamma> (entries b) \<inter> \<gamma> (?cand b) \<subseteq> \<gamma> (snd ?r b)"
    using NarrowEntry_keeps [OF cw, of "(False, entries)" blocks] e by simp
  then have r: "\<forall>b. wf (snd ?r b) \<and> X b \<subseteq> \<gamma> (snd ?r b)" using Xe Xc by blast
  show ?case using r Suc.IH [OF r] by (cases ?r) (simp add: Let_def split: prod.splits)
qed simp

text \<open>The entry states of a body, once its worklist has run empty, cover what its runs reach; so
  do the narrowed ones.\<close>

lemma IterateSingleUnit_covers:
  assumes res: "IterateSingleUnitToFixpoint A g blocks entry s = Some s'"
    and wf: "\<And>c. wf (entryStates s c)"
    and Q0: "\<And>order. TopologicalSort (GetSuccessors g) entry = Some order \<Longrightarrow>
      Q order (s\<lparr>worklist := order, worklistSet := set order\<rparr>)"
    and Q: "\<And>order t b rest. TopologicalSort (GetSuccessors g) entry = Some order \<Longrightarrow> engine_inv (set order) t \<Longrightarrow> Q order t \<Longrightarrow>
      worklist t = b # rest \<Longrightarrow> settled (entryStates t b) \<and> Q order (engine_step A g t)"
    and x: "runs_to run (\<gamma> (entryStates s entry)) entry b x"
  shows "x \<in> \<gamma> (entryStates s' b)"
proof -
  let ?S = "\<gamma> (entryStates s entry)"
  obtain order t where o: "TopologicalSort (GetSuccessors g) entry = Some order"
    and t: "worklist_result A g order s = Some t"
    and s': "entryStates s' = NarrowRounds A g blocks order entry (entryStates s entry) (GetNarrowingIterationLimit A) (entryStates t)"
    using res by (auto simp: IterateSingleUnitToFixpoint_def Let_def split: option.splits)
  note f = TopologicalSort_facts [OF o]
  have closed: "set (GetSuccessors g c) \<subseteq> set order" if "c \<in> set order" for c
    using that f(2) by (auto intro: reaches.step)
  have c: "(\<forall>c. wf (entryStates t c)) \<and> (\<forall>c \<in> set order. covers_edges (entryStates t) c) \<and>
    (\<forall>c. \<gamma> (entryStates s c) \<subseteq> \<gamma> (entryStates t c))"
    by (rule worklist_result_covers [where Q = "Q order", OF t f(1) closed wf Q0 [OF o] Q [OF o]])
  have r: "b \<in> set order \<and> x \<in> \<gamma> (entryStates t b)" if "runs_to run ?S entry b x" for b x
    using that
  proof induction
    case (start x)
    have "entry \<in> set order" using f(2) by (auto intro: reaches.start)
    then show ?case using start c by blast
  next
    case (step b x y k)
    have "k \<in> set order" using run_succ [OF step(2)] closed step.IH by blast
    then show ?case using step c unfolding covers_edges_def by blast
  qed
  have X: "b = entry \<and> y \<in> ?S \<or> (\<exists>c x. c \<in> set order \<and> x \<in> {x. runs_to run ?S entry c x} \<and> run c x y b)"
    if "y \<in> {x. runs_to run ?S entry b x}" for b y
    using that r by (auto elim: runs_to.cases)
  have "\<forall>b. wf (entryStates s' b) \<and> {x. runs_to run ?S entry b x} \<subseteq> \<gamma> (entryStates s' b)"
    unfolding s'
    by (rule NarrowRounds_cover [where S = ?S and X = "\<lambda>b. {x. runs_to run ?S entry b x}", OF wf subset_refl X]) (use c r in blast)+
  then show ?thesis using x by blast
qed

end

section \<open>Domains whose join wakes a state silently\<close>

text \<open>Here the first pass in topological order sees to it that no block is processed before it
  has been reached: all successors of a block are joined, a state that is not bottom stays so.\<close>

locale ordered_analysis = sound_analysis A g \<gamma> wf "\<lambda>d. \<not> IsBottom A d" run
  for A :: "('b, 'e, 't, 'l, 'd, 'q) Analysis" and g :: "('b, 'e, 't) Body" and \<gamma> :: "'d \<Rightarrow> 'x set"
    and wf :: "'d \<Rightarrow> bool" and run :: "'b \<Rightarrow> 'x \<Rightarrow> 'x \<Rightarrow> 'b \<Rightarrow> bool" +
  assumes awake_join: "wf a \<Longrightarrow> wf d \<Longrightarrow> \<not> IsBottom A d \<Longrightarrow> \<not> IsBottom A (snd (Join A a d))"
    and awake_out: "wf d \<Longrightarrow> \<not> IsBottom A d \<Longrightarrow> GetExpressions g b = Some body \<Longrightarrow>
      \<not> IsBottom A (fst (block_out A body d)) \<and> snd (block_out A body d) = None"
    and awake_queue: "wf d \<Longrightarrow> \<not> IsBottom A d \<Longrightarrow> \<not> IsBottom A (fst (snd (CheckInQueueTimes A q b d)))"
    and awake_edge: "wf d \<Longrightarrow> \<not> IsBottom A d \<Longrightarrow> \<not> IsBottom A (GetTerminatorStateForSuccessor A d t c)"
begin

text \<open>The worklist is the rest of the first pass and what was put behind it; the blocks behind it,
  and the successors of the blocks passed, have been reached.\<close>

definition first_pass :: "'b \<Rightarrow> 'b list \<Rightarrow> ('b, 'l, 'd, 'q) EngineState \<Rightarrow> bool" where
  "first_pass entry order s \<longleftrightarrow>
     \<not> IsBottom A (entryStates s entry) \<and>
     (\<exists>k extra. k \<le> length order \<and> worklist s = drop k order @ extra \<and>
        (\<forall>c \<in> set extra. \<not> IsBottom A (entryStates s c)) \<and>
        (\<forall>j < k. \<forall>c \<in> set (GetSuccessors g (order ! j)). \<not> IsBottom A (entryStates s c)))"

lemma edges_awake:
  assumes d: "wf d" "\<not> IsBottom A d"
  shows "\<forall>c. wf (entryStates s c) \<Longrightarrow>
    (\<forall>c. \<not> IsBottom A (entryStates s c) \<longrightarrow> \<not> IsBottom A (entryStates (foldl (PropagateEdge A d t) s cs) c)) \<and>
    (\<forall>c \<in> set cs. \<not> IsBottom A (entryStates (foldl (PropagateEdge A d t) s cs) c)) \<and>
    (\<exists>more. worklist (foldl (PropagateEdge A d t) s cs) = worklist s @ more \<and> set more \<subseteq> set cs)"
proof (induction cs arbitrary: s)
  case (Cons c cs)
  let ?s = "PropagateEdge A d t s c" and ?e = "GetTerminatorStateForSuccessor A d t c"
  have e: "wf ?e" "\<not> IsBottom A ?e" using edge_wf [OF d(1)] awake_edge [OF d] by simp_all
  have fin: "entryStates ?s = (entryStates s)(c := snd (Join A (entryStates s c) ?e))"
    "worklist ?s = worklist s \<or> worklist ?s = worklist s @ [c]"
    by (auto simp: PropagateEdge_def Let_def split: prod.splits)
  have w: "\<forall>c. wf (entryStates ?s c)" using fin(1) Cons.prems join_wf [OF _ e(1)] by simp
  note ih = Cons.IH [OF w]
  have up: "\<not> IsBottom A (entryStates s x) \<or> x = c \<Longrightarrow> \<not> IsBottom A (entryStates ?s x)" for x
    using awake_join [OF _ e, of "entryStates s c"] Cons.prems fin(1) by auto
  obtain more where m: "worklist (foldl (PropagateEdge A d t) ?s cs) = worklist ?s @ more" "set more \<subseteq> set cs"
    using ih by blast
  have "\<exists>more. worklist (foldl (PropagateEdge A d t) ?s cs) = worklist s @ more \<and> set more \<subseteq> set (c # cs)"
    using fin(2) m by (auto intro: exI [of _ more] exI [of _ "c # more"])
  then show ?case using ih up by simp
qed simp

lemma first_pass_step:
  assumes o: "TopologicalSort (GetSuccessors g) entry = Some order" and inv: "engine_inv (set order) s"
    and p: "first_pass entry order s" and w: "worklist s = b # rest"
  shows "\<not> IsBottom A (entryStates s b) \<and> first_pass entry order (engine_step A g s)"
proof -
  obtain k extra where k: "k \<le> length order" "worklist s = drop k order @ extra"
    and ex: "\<forall>c \<in> set extra. \<not> IsBottom A (entryStates s c)"
    and past: "\<forall>j < k. \<forall>c \<in> set (GetSuccessors g (order ! j)). \<not> IsBottom A (entryStates s c)"
    using p by (auto simp: first_pass_def)
  note f = TopologicalSort_facts [OF o]
  have ent: "\<not> IsBottom A (entryStates s entry)" using p by (simp add: first_pass_def)
  have b: "\<not> IsBottom A (entryStates s b)"
  proof (cases "k < length order")
    case True
    then have b: "b = order ! k" using k(2) w by (simp add: Cons_nth_drop_Suc [symmetric])
    show ?thesis
    proof (cases "k = 0")
      case True
      then show ?thesis using ent b f(4,5) by (simp add: hd_conv_nth)
    next
      case False
      then obtain j where "j < k" "order ! k \<in> set (GetSuccessors g (order ! j))"
        using f(3) True by (auto simp: led_to_def)
      then show ?thesis using past b by blast
    qed
  next
    case False
    then have "b \<in> set extra" using k w by (auto simp flip: set_ConsD)
    then show ?thesis using ex by blast
  qed
  have wf: "\<forall>c. wf (entryStates s c)" "b \<in> set order" using inv w by (simp_all add: engine_inv_def)
  let ?r = "s\<lparr>worklist := rest, worklistSet := worklistSet s - {b}\<rparr>" and ?s' = "engine_step A g s"
  have s': "?s' = ProcessBlock A g b ?r" using w by (simp add: engine_step_def)
  have "(\<forall>c. \<not> IsBottom A (entryStates s c) \<longrightarrow> \<not> IsBottom A (entryStates ?s' c)) \<and>
    (\<forall>c \<in> set (GetSuccessors g b). \<not> IsBottom A (entryStates ?s' c)) \<and>
    (\<exists>more. worklist ?s' = rest @ more \<and> set more \<subseteq> set (GetSuccessors g b))"
  proof (rule ProcessBlock_cases [of A ?r b g])
    assume "IsBottom A (entryStates ?r b) \<or> GetExpressions g b = None" "ProcessBlock A g b ?r = ?r"
    then show ?thesis using b unfolding s' by (simp add: GetSuccessors_def)
  next
    fix body d t limit d' q s1
    assume body: "GetExpressions g b = Some body" and out: "block_out A body (entryStates ?r b) = (d, t)"
      and c: "CheckInQueueTimes A (analysisState ?r) b d = (limit, d', q)"
      and s1: "entryStates s1 = entryStates ?r" "worklist s1 = worklist ?r"
      and pb: "ProcessBlock A g b ?r = foldl (PropagateEdge A d' (snd body)) s1 (chosen g b (if limit then None else t))"
    have wb: "wf (entryStates s b)" using wf(1) by blast
    have d: "wf d" "\<not> IsBottom A d" "t = None"
      using out_wf [OF wb b body] awake_out [OF wb b body] out by simp_all
    have d': "wf d'" "\<not> IsBottom A d'"
      using queue_wf [OF d(1)] awake_queue [OF d(1,2)] c by (metis fst_conv snd_conv)+
    have "chosen g b (if limit then None else t) = GetSuccessors g b" using d(3) by (simp add: chosen_def)
    then show ?thesis using edges_awake [OF d', of s1 "snd body" "GetSuccessors g b"] wf s1 unfolding s' pb by simp
  qed
  then obtain more where up: "\<forall>c. \<not> IsBottom A (entryStates s c) \<longrightarrow> \<not> IsBottom A (entryStates ?s' c)"
    and sc: "\<forall>c \<in> set (GetSuccessors g b). \<not> IsBottom A (entryStates ?s' c)"
    and more: "worklist ?s' = rest @ more" "set more \<subseteq> set (GetSuccessors g b)" by blast
  have "\<exists>k extra. k \<le> length order \<and> worklist ?s' = drop k order @ extra \<and>
        (\<forall>c \<in> set extra. \<not> IsBottom A (entryStates ?s' c)) \<and>
        (\<forall>j < k. \<forall>c \<in> set (GetSuccessors g (order ! j)). \<not> IsBottom A (entryStates ?s' c))"
  proof (cases "k < length order")
    case True
    then have b: "b = order ! k" "rest = drop (Suc k) order @ extra" using k(2) w by (simp_all add: Cons_nth_drop_Suc [symmetric])
    show ?thesis
      by (rule exI [of _ "Suc k"], rule exI [of _ "extra @ more"])
        (use True b more sc up ex past in \<open>auto simp: less_Suc_eq\<close>)
  next
    case False
    then have "worklist ?s' = drop k order @ (rest @ more)" using more(1) k(1) by simp
    moreover have "set rest \<subseteq> set extra" using False k w by auto
    ultimately show ?thesis
      by (intro exI [of _ k] exI [of _ "rest @ more"]) (use k(1) more sc up ex past in auto)
  qed
  then show ?thesis using b up ent unfolding first_pass_def by blast
qed

lemma fixpoint_covers:
  assumes res: "IterateSingleUnitToFixpoint A g blocks entry s = Some s'" and wf: "\<And>c. wf (entryStates s c)"
    and x: "runs_to run (\<gamma> (entryStates s entry)) entry b x"
  shows "x \<in> \<gamma> (entryStates s' b)"
proof (cases "IsBottom A (entryStates s entry)")
  case True
  then have e: "\<gamma> (entryStates s entry) = {}" using bottom_empty [OF wf] by blast
  have False using x by induction (use e in auto)
  then show ?thesis ..
next
  case False
  show ?thesis
  proof (rule IterateSingleUnit_covers [where Q = "first_pass entry", OF res wf _ _ x])
    fix order assume "TopologicalSort (GetSuccessors g) entry = Some order"
    show "first_pass entry order (s\<lparr>worklist := order, worklistSet := set order\<rparr>)"
      unfolding first_pass_def using False by (intro conjI exI [of _ 0] exI [of _ "[]"]) simp_all
  qed (rule first_pass_step)
qed

end

end
