(* ===== verification/Engine_Total.thy ===== *)
theory Engine_Total
  imports Engine_Sound
begin

text \<open>
  Two more contracts of the engine: \<open>finite_analysis\<close>, by which the worklist runs empty and every
  lambda is done (\<^verbatim>\<open>IterateToFixpoint\<close> returns), and \<open>justified_analysis\<close>, by which the entry states
  hold nothing that no run justifies.
\<close>

section \<open>Termination\<close>

text \<open>The lambdas of the bodies are among \<open>L\<close>.\<close>

definition lambdas_within :: "('b, 'e, 't, 'l, 'd, 'q) Analysis \<Rightarrow> ('b, 'e, 't) Body \<Rightarrow> 'l set \<Rightarrow> bool" where
  "lambdas_within A g L \<longleftrightarrow>
     (\<forall>b es tm. GetExpressions g b = Some (es, tm) \<longrightarrow> (\<forall>e \<in> set es. \<forall>l. LambdaOf A e = Some l \<longrightarrow> l \<in> L))"

text \<open>A join that reports a change lowers the height of the state.\<close>

locale finite_analysis =
  fixes A :: "('b, 'e, 't, 'l, 'd, 'q) Analysis" and g :: "('b, 'e, 't) Body" and wf :: "'d \<Rightarrow> bool"
    and height :: "'d \<Rightarrow> nat"
  assumes join_wf: "wf a \<Longrightarrow> wf d \<Longrightarrow> wf (snd (Join A a d))"
    and join_height: "wf a \<Longrightarrow> wf d \<Longrightarrow> height (snd (Join A a d)) + (if fst (Join A a d) then 1 else 0) \<le> height a"
    and expression_wf: "wf d \<Longrightarrow> wf (NarrowExpression A d e)"
    and lambda_wf: "wf d \<Longrightarrow> wf (PreHandleLambdaExpression A d l)" "wf d \<Longrightarrow> wf (HandleVarStateCapturedByLambda A d l)"
    and terminator_wf: "wf d \<Longrightarrow> wf (fst (ProcessTerminator A d tm))"
    and out_target: "wf d \<Longrightarrow> \<not> IsBottom A d \<Longrightarrow> GetExpressions g b = Some body \<Longrightarrow> snd (block_out A body d) = Some c \<Longrightarrow>
      c \<in> set (GetSuccessors g b)"
    and initial_wf: "wf (Bottom A)" "wf (InitializeFuncEntryState A (Bottom A))" "wf d \<Longrightarrow> wf (InitializeLambdaEntryState A l d)"
    and queue_wf: "wf d \<Longrightarrow> wf (fst (snd (CheckInQueueTimes A q b d)))"
    and edge_wf: "wf d \<Longrightarrow> wf (GetTerminatorStateForSuccessor A d t s)"
begin

lemma expressions_wf: "wf d \<Longrightarrow> wf (foldl (NarrowExpression A) d es)"
  by (induction es arbitrary: d) (simp_all add: expression_wf)

lemma out_wf: "wf d \<Longrightarrow> wf (fst (block_out A body d))"
  by (simp add: block_out_def terminator_wf expressions_wf)

definition work_left :: "'b set \<Rightarrow> ('b, 'l, 'd, 'q) EngineState \<Rightarrow> nat" where
  "work_left R s = (\<Sum>c \<in> R. height (entryStates s c)) + length (worklist s)"

lemma edges_less:
  fixes t :: 't
  assumes d: "wf d" and R: "finite R"
  shows "\<forall>c. wf (entryStates s c) \<Longrightarrow> set cs \<subseteq> R \<Longrightarrow> set (worklist s) \<subseteq> R \<Longrightarrow>
    (\<forall>c. wf (entryStates (foldl (PropagateEdge A d t) s cs) c)) \<and> set (worklist (foldl (PropagateEdge A d t) s cs)) \<subseteq> R \<and>
    work_left R (foldl (PropagateEdge A d t) s cs) \<le> work_left R s"
proof (induction cs arbitrary: s)
  case (Cons c cs)
  let ?s = "PropagateEdge A d t s c" and ?a = "entryStates s c" and ?e = "GetTerminatorStateForSuccessor A d t c"
  have w: "wf ?a" "wf ?e" using Cons.prems edge_wf [OF d] by blast+
  obtain h j where j: "Join A ?a ?e = (h, j)" by (cases "Join A ?a ?e")
  have s: "entryStates ?s = (entryStates s)(c := j)" "set (worklist ?s) \<subseteq> insert c (set (worklist s))"
    "length (worklist ?s) \<le> length (worklist s) + (if h then 1 else 0)"
    using j by (auto simp: PropagateEdge_def Let_def)
  have c: "c \<in> R" using Cons.prems by simp
  have "(\<Sum>x \<in> R. height (entryStates ?s x)) = height j + (\<Sum>x \<in> R - {c}. height (entryStates s x))"
    using R c s(1) by (simp add: sum.remove)
  moreover have "(\<Sum>x \<in> R. height (entryStates s x)) = height ?a + (\<Sum>x \<in> R - {c}. height (entryStates s x))"
    using R c by (simp add: sum.remove)
  ultimately have l: "work_left R ?s \<le> work_left R s"
    using join_height [OF w] j s(3) by (simp add: work_left_def split: if_splits)
  have wf: "\<forall>c. wf (entryStates ?s c)" using s(1) Cons.prems join_wf [OF w] j by simp
  have "set (worklist ?s) \<subseteq> R" using s(2) c Cons.prems by auto
  then show ?case using Cons.IH [OF wf] Cons.prems l by simp
qed simp

lemma engine_step_less:
  assumes wf: "\<forall>c. wf (entryStates s c)" and sub: "set (worklist s) \<subseteq> R" and ne: "worklist s \<noteq> []"
    and R: "finite R" "\<And>c. c \<in> R \<Longrightarrow> set (GetSuccessors g c) \<subseteq> R"
  shows "(\<forall>c. wf (entryStates (engine_step A g s) c)) \<and> set (worklist (engine_step A g s)) \<subseteq> R \<and>
    work_left R (engine_step A g s) < work_left R s"
proof -
  obtain b rest where w: "worklist s = b # rest" using ne by (cases "worklist s") auto
  let ?r = "s\<lparr>worklist := rest, worklistSet := worklistSet s - {b}\<rparr>" and ?s' = "engine_step A g s"
  have s': "?s' = ProcessBlock A g b ?r" using w by (simp add: engine_step_def)
  have less: "work_left R ?r < work_left R s" using w by (simp add: work_left_def)
  show ?thesis
  proof (rule ProcessBlock_cases [of A ?r b g])
    assume "ProcessBlock A g b ?r = ?r"
    then show ?thesis using s' less wf sub w by simp
  next
    fix body d t limit d' q s1
    assume nb: "\<not> IsBottom A (entryStates ?r b)"
      and body: "GetExpressions g b = Some body" and out: "block_out A body (entryStates ?r b) = (d, t)"
      and c: "CheckInQueueTimes A (analysisState ?r) b d = (limit, d', q)"
      and s1: "entryStates s1 = entryStates ?r" "worklist s1 = worklist ?r"
      and pb: "ProcessBlock A g b ?r = foldl (PropagateEdge A d' (snd body)) s1 (chosen g b (if limit then None else t))"
    let ?cs = "chosen g b (if limit then None else t)"
    have wb: "wf (entryStates s b)" using wf by blast
    have nb: "\<not> IsBottom A (entryStates s b)" using nb by simp
    have "wf d" using out_wf [OF wb, of body] out by simp
    then have d': "wf d'" using queue_wf c by (metis fst_conv snd_conv)
    have "set ?cs \<subseteq> set (GetSuccessors g b)"
      using out_target [OF wb nb body] out by (auto simp: chosen_def split: option.splits)
    moreover have "b \<in> R" using sub w by simp
    ultimately have cs: "set ?cs \<subseteq> R" using R(2) by blast
    have "work_left R s1 = work_left R ?r" using s1 by (simp add: work_left_def)
    then show ?thesis using edges_less [OF d' R(1), of s1 ?cs "snd body"] wf s1 cs sub w less unfolding s' pb by simp
  qed
qed

text \<open>A body with finitely many reachable blocks has a result.\<close>

lemma fixpoint_total:
  fixes s :: "('b, 'l, 'd, 'q) EngineState"
  assumes fin: "finite_graph (GetSuccessors g) entry" and wf: "\<And>c. wf (entryStates s c)"
  shows "\<exists>s'. IterateSingleUnitToFixpoint A g blocks entry s = Some s'"
proof -
  obtain order where o: "TopologicalSort (GetSuccessors g) entry = Some order" using TopologicalSort_total [OF fin] by blast
  note f = TopologicalSort_facts [OF o]
  have closed: "set (GetSuccessors g c) \<subseteq> set order" if "c \<in> set order" for c
    using that f(2) by (auto intro: reaches.step)
  have "\<exists>t. worklist_result A g order s = Some t"
    unfolding worklist_result_def
  proof (rule measure_while_option_Some [where f = "work_left (set order)"
        and P = "\<lambda>s :: ('b, 'l, 'd, 'q) EngineState. (\<forall>c. wf (entryStates s c)) \<and> set (worklist s) \<subseteq> set order"])
    fix t :: "('b, 'l, 'd, 'q) EngineState"
    assume t: "(\<forall>c. wf (entryStates t c)) \<and> set (worklist t) \<subseteq> set order" "worklist t \<noteq> []"
    have "(\<forall>c. wf (entryStates (engine_step A g t) c)) \<and> set (worklist (engine_step A g t)) \<subseteq> set order \<and>
      work_left (set order) (engine_step A g t) < work_left (set order) t"
      by (rule engine_step_less) (use t closed in simp_all)
    then show "((\<forall>c. wf (entryStates (engine_step A g t) c)) \<and> set (worklist (engine_step A g t)) \<subseteq> set order) \<and>
      work_left (set order) (engine_step A g t) < work_left (set order) t" by blast
  qed (use wf in simp)
  then show ?thesis using o by (auto simp: IterateSingleUnitToFixpoint_def Let_def)
qed

text \<open>The lambdas that are put aside are those of the bodies, once each, with the state at their
  expression.\<close>

definition lambdas_ok :: "'l set \<Rightarrow> 'l list \<Rightarrow> ('l \<Rightarrow> 'd option) \<Rightarrow> bool" where
  "lambdas_ok L ls env \<longleftrightarrow>
     distinct ls \<and> set ls \<subseteq> L \<and> (\<forall>l \<in> set ls. env l \<noteq> None) \<and> (\<forall>l d. env l = Some d \<longrightarrow> wf d)"

definition lambda_inv :: "'l set \<Rightarrow> ('b, 'l, 'd, 'q) EngineState \<Rightarrow> bool" where
  "lambda_inv L s \<longleftrightarrow> lambdas_ok L (lambdaWorklist s) (lambdaEnvState s) \<and> (\<forall>c. wf (entryStates s c))"

lemma lambda_inv_cong:
  "lambdaWorklist s' = lambdaWorklist s \<Longrightarrow> lambdaEnvState s' = lambdaEnvState s \<Longrightarrow> entryStates s' = entryStates s \<Longrightarrow>
   lambda_inv L s' = lambda_inv L s"
  by (simp add: lambda_inv_def)

lemma expressions_lambdas:
  assumes L: "\<forall>e \<in> set es. \<forall>l. LambdaOf A e = Some l \<longrightarrow> l \<in> L"
  shows "wf d \<Longrightarrow> lambdas_ok L ls env \<Longrightarrow> foldl (ProcessExpression A) (d, env, ls) es = (d', env', ls') \<Longrightarrow>
    wf d' \<and> lambdas_ok L ls' env'"
  using L
proof (induction es arbitrary: d env ls)
  case (Cons e es)
  obtain d1 env1 ls1 where one: "ProcessExpression A (d, env, ls) e = (d1, env1, ls1)" by (metis prod_cases3)
  have "d1 = NarrowExpression A d e"
    using one by (auto simp: ProcessExpression_def NarrowExpression_def Let_def split: option.splits)
  then have "wf d1" using expression_wf Cons.prems(1) by simp
  moreover have "lambdas_ok L ls1 env1"
    using one Cons.prems(2,4) lambda_wf(1) [OF Cons.prems(1)]
    by (auto simp: ProcessExpression_def lambdas_ok_def Let_def split: option.splits if_splits)
  moreover have "foldl (ProcessExpression A) (d1, env1, ls1) es = (d', env', ls')" using Cons.prems(3) one by simp
  moreover have "\<forall>e \<in> set es. \<forall>l. LambdaOf A e = Some l \<longrightarrow> l \<in> L" using Cons.prems(4) by simp
  ultimately show ?case using Cons.IH by blast
qed auto

lemma edges_lambdas:
  fixes t :: 't
  assumes "wf d"
  shows "lambda_inv L s \<Longrightarrow> lambda_inv L (foldl (PropagateEdge A d t) s cs)"
proof (induction cs arbitrary: s)
  case (Cons c cs)
  have "lambda_inv L (PropagateEdge A d t s c)"
    using Cons.prems edge_wf [OF assms] join_wf
    by (auto simp: lambda_inv_def PropagateEdge_def Let_def split: prod.splits) (metis snd_conv)+
  then show ?case using Cons.IH by simp
qed simp

lemma engine_step_lambdas:
  assumes L: "lambdas_within A g L"
    and inv: "lambda_inv L s"
  shows "lambda_inv L (engine_step A g s)"
proof (cases "worklist s")
  case (Cons b rest)
  let ?r = "s\<lparr>worklist := rest, worklistSet := worklistSet s - {b}\<rparr>"
  have r: "lambda_inv L ?r" using inv by (simp add: lambda_inv_def)
  have s': "engine_step A g s = ProcessBlock A g b ?r" using Cons by (simp add: engine_step_def)
  show ?thesis
  proof (cases "IsBottom A (entryStates s b) \<or> GetExpressions g b = None")
    case True
    then show ?thesis using r s' by (auto simp: ProcessBlock_def)
  next
    case False
    then obtain es tm where body: "GetExpressions g b = Some (es, tm)" by auto
    obtain d1 env ls where f: "foldl (ProcessExpression A) (entryStates s b, lambdaEnvState s, lambdaWorklist s) es = (d1, env, ls)"
      by (metis prod_cases3)
    obtain d2 t where o: "ProcessTerminator A d1 tm = (d2, t)" by (metis surj_pair)
    obtain limit d3 q where c: "CheckInQueueTimes A (analysisState s) b d2 = (limit, d3, q)" by (metis prod_cases3)
    let ?s1 = "?r\<lparr>analysisState := q, lambdaEnvState := env, lambdaWorklist := ls\<rparr>"
    have i: "wf (entryStates s b)" "lambdas_ok L (lambdaWorklist s) (lambdaEnvState s)"
      using inv by (simp_all add: lambda_inv_def)
    have "\<forall>e \<in> set es. \<forall>l. LambdaOf A e = Some l \<longrightarrow> l \<in> L" using L body unfolding lambdas_within_def by blast
    from expressions_lambdas [OF this i f] have e: "wf d1" "lambda_inv L ?s1"
      using inv by (simp_all add: lambda_inv_def)
    have "wf d2" using terminator_wf [OF e(1), of tm] o by simp
    then have "wf d3" using queue_wf [of d2 "analysisState s" b] c by simp
    then show ?thesis
      using edges_lambdas [OF _ e(2)] False body f o c unfolding s' by (simp add: ProcessBlock_def)
  qed
qed (use inv in \<open>simp add: engine_step_def\<close>)

lemma unit_lambdas:
  fixes s :: "('b, 'l, 'd, 'q) EngineState"
  assumes L: "lambdas_within A g L"
    and inv: "lambda_inv L s" and res: "IterateSingleUnitToFixpoint A g blocks entry s = Some s'"
  shows "lambdas_ok L (lambdaWorklist s') (lambdaEnvState s')"
proof -
  obtain order and t :: "('b, 'l, 'd, 'q) EngineState" and e where
    t: "while_option (\<lambda>s. worklist s \<noteq> []) (engine_step A g) (s\<lparr>worklist := order, worklistSet := set order\<rparr>) = Some t"
    and s': "s' = t\<lparr>entryStates := e\<rparr>"
    using res by (auto simp: IterateSingleUnitToFixpoint_def worklist_result_def Let_def split: option.splits)
  have "lambda_inv L t"
  proof (rule while_option_rule [where P = "lambda_inv L", OF _ t])
    show "lambda_inv L (engine_step A g t)" if "lambda_inv L t" for t by (rule engine_step_lambdas [OF L that])
    show "lambda_inv L (s\<lparr>worklist := order, worklistSet := set order\<rparr>)" using inv by (simp add: lambda_inv_def)
  qed
  then show ?thesis using s' by (simp add: lambda_inv_def)
qed

text \<open>The whole of a function: a result for its body and for every lambda put aside.\<close>

definition results_ok :: "'l set \<Rightarrow> ('b, 'l, 'd, 'q) EngineResults option \<Rightarrow> bool" where
  "results_ok L r \<longleftrightarrow> (\<exists>r'. r = Some r' \<and> lambdas_ok L (lambdaWorklist (engine r')) (lambdaEnvState (engine r')))"

lemma IterateLambda_ok:
  assumes L: "lambdas_within A g L"
    and fin: "\<forall>l \<in> L. finite_graph (GetSuccessors g) (snd (LambdaBody func l))"
    and ok: "lambdas_ok L (lambdaWorklist (engine r)) (lambdaEnvState (engine r))"
    and left: "length (lambdaSets r) < length (lambdaWorklist (engine r))"
  shows "\<exists>r'. IterateLambda A g func r = Some r' \<and> length (lambdaSets r') = Suc (length (lambdaSets r)) \<and>
    lambdas_ok L (lambdaWorklist (engine r')) (lambdaEnvState (engine r'))"
proof -
  let ?s = "engine r" let ?l = "lambdaWorklist ?s ! length (lambdaSets r)"
  obtain blocks entry where lb: "LambdaBody func ?l = (blocks, entry)" by (metis surj_pair)
  have l: "?l \<in> set (lambdaWorklist ?s)" using left by simp
  then obtain d where d: "lambdaEnvState ?s ?l = Some d" "wf d" using ok by (auto simp: lambdas_ok_def)
  let ?first = "InitializeLambdaEntryState A ?l (HandleVarStateCapturedByLambda A d ?l)"
  let ?t = "?s\<lparr>entryStates := (\<lambda>_. Bottom A)(entry := ?first)\<rparr>"
  have w: "wf (entryStates ?t c)" for c using initial_wf lambda_wf(2) [OF d(2)] by simp
  have "?l \<in> L" using l ok by (auto simp: lambdas_ok_def)
  then have "finite_graph (GetSuccessors g) entry" using fin lb by fastforce
  then obtain s' where s': "IterateSingleUnitToFixpoint A g blocks entry ?t = Some s'" using fixpoint_total [OF _ w] by blast
  have i: "lambda_inv L ?t" using ok w by (simp add: lambda_inv_def)
  have ok': "lambdas_ok L (lambdaWorklist s') (lambdaEnvState s')" by (rule unit_lambdas [OF L i s'])
  have "IterateLambda A g func r = Some (r\<lparr>engine := s', lambdaSets := lambdaSets r @ [(?l, entryStates s')]\<rparr>)"
    using d(1) lb s' by (simp add: IterateLambda_def Let_def)
  then show ?thesis using ok' by simp
qed

lemma function_total:
  fixes q :: 'q
  assumes L: "lambdas_within A g L"
    and fin: "finite L" "\<forall>l \<in> L. finite_graph (GetSuccessors g) (snd (LambdaBody func l))"
    and body: "\<And>blocks entry. GetBody func = Some (blocks, entry) \<Longrightarrow> finite_graph (GetSuccessors g) entry"
  shows "\<exists>r. IterateToFixpoint A g func q = Some r \<and>
    (\<forall>r'. r = Some r' \<longrightarrow> \<not> lambdas_left r)"
proof (cases "GetBody func")
  case None
  then show ?thesis by (simp add: IterateToFixpoint_def)
next
  case (Some be)
  obtain blocks entry where be: "GetBody func = Some (blocks, entry)" using Some by (cases be) simp
  have init: "wf (entryStates (function_start A entry q) c)" for c using initial_wf by (simp add: function_start_def)
  then have i0: "lambda_inv L (function_start A entry q)" by (simp add: lambda_inv_def lambdas_ok_def function_start_def)
  obtain s where s: "IterateSingleUnitToFixpoint A g blocks entry (function_start A entry q) = Some s"
    using fixpoint_total [OF body [OF be] init] by blast
  let ?f = "\<lambda>r. Option.bind r (IterateLambda A g func)"
  let ?r0 = "Some \<lparr>entrySets = entryStates s, lambdaSets = [], engine = s\<rparr>"
  have r0: "results_ok L ?r0" using unit_lambdas [OF L i0 s] by (simp add: results_ok_def)
  have step: "results_ok L (?f r) \<and> card L - length (lambdaSets (the (?f r))) < card L - length (lambdaSets (the r))"
    if ok: "results_ok L r" and left: "lambdas_left r" for r
  proof -
    obtain r1 where r1: "r = Some r1" "lambdas_ok L (lambdaWorklist (engine r1)) (lambdaEnvState (engine r1))"
      using ok by (auto simp: results_ok_def)
    have lt: "length (lambdaSets r1) < length (lambdaWorklist (engine r1))" using left r1(1) by (simp add: lambdas_left_def)
    obtain r2 where r2: "IterateLambda A g func r1 = Some r2" "length (lambdaSets r2) = Suc (length (lambdaSets r1))"
      "lambdas_ok L (lambdaWorklist (engine r2)) (lambdaEnvState (engine r2))"
      using IterateLambda_ok [OF L fin(2) r1(2) lt] by blast
    have "length (lambdaWorklist (engine r1)) \<le> card L"
      using r1(2) fin(1) by (simp add: lambdas_ok_def flip: distinct_card) (metis card_mono)
    then show ?thesis using r1(1) r2 lt by (simp add: results_ok_def)
  qed
  obtain r where r: "while_option lambdas_left ?f ?r0 = Some r"
    using measure_while_option_Some [where P = "results_ok L" and b = lambdas_left and c = ?f and s = ?r0
        and f = "\<lambda>r. card L - length (lambdaSets (the r))", OF step r0] by blast
  have "results_ok L r" by (rule while_option_rule [where P = "results_ok L", OF _ r]) (use step r0 in \<open>blast+\<close>)
  then obtain r' where r': "r = Some r'" by (auto simp: results_ok_def)
  have "\<not> lambdas_left r" by (rule while_option_stop [OF r])
  then show ?thesis using be s r r' by (simp add: IterateToFixpoint_def)
qed

end

section \<open>Nothing more than what is reached\<close>

text \<open>\<open>J b d\<close>: the state \<open>d\<close> is justified at the entry of \<open>b\<close>. If effects and joins keep it, the
  entry states are justified.\<close>

locale justified_analysis =
  fixes A :: "('b, 'e, 't, 'l, 'd, 'q) Analysis" and g :: "('b, 'e, 't) Body" and J :: "'b \<Rightarrow> 'd \<Rightarrow> bool"
  assumes bottom_just: "J b (Bottom A)"
    and join_just: "J b a \<Longrightarrow> J b d \<Longrightarrow> \<not> IsBottom A d \<Longrightarrow> J b (snd (Join A a d))"
    and edge_just: "J b d \<Longrightarrow> \<not> IsBottom A d \<Longrightarrow> GetExpressions g b = Some body \<Longrightarrow> block_out A body d = (d1, t) \<Longrightarrow>
      CheckInQueueTimes A q b d1 = (limit, d2, q') \<Longrightarrow> c \<in> set (chosen g b (if limit then None else t)) \<Longrightarrow>
      J c (GetTerminatorStateForSuccessor A d2 (snd body) c) \<and> \<not> IsBottom A (GetTerminatorStateForSuccessor A d2 (snd body) c)"
    and no_narrowing: "GetNarrowingIterationLimit A = 0"
begin

lemma edges_just:
  "\<forall>c. J c (entryStates s c) \<Longrightarrow> \<forall>c \<in> set cs. J c (GetTerminatorStateForSuccessor A d t c) \<and> \<not> IsBottom A (GetTerminatorStateForSuccessor A d t c) \<Longrightarrow>
   \<forall>c. J c (entryStates (foldl (PropagateEdge A d t) s cs) c)"
proof (induction cs arbitrary: s)
  case (Cons c cs)
  have "entryStates (PropagateEdge A d t s c) = (entryStates s)(c := snd (Join A (entryStates s c) (GetTerminatorStateForSuccessor A d t c)))"
    by (auto simp: PropagateEdge_def Let_def split: prod.splits)
  then have "\<forall>x. J x (entryStates (PropagateEdge A d t s c) x)" using Cons.prems join_just by simp
  then show ?case using Cons.IH Cons.prems(2) by simp
qed simp

lemma engine_step_just:
  assumes j: "\<forall>c. J c (entryStates s c)"
  shows "\<forall>c. J c (entryStates (engine_step A g s) c)"
proof (cases "worklist s")
  case (Cons b rest)
  let ?r = "s\<lparr>worklist := rest, worklistSet := worklistSet s - {b}\<rparr>"
  have s': "engine_step A g s = ProcessBlock A g b ?r" using Cons by (simp add: engine_step_def)
  show ?thesis
  proof (rule ProcessBlock_cases [of A ?r b g])
    fix body d t limit d' q s1
    assume body: "\<not> IsBottom A (entryStates ?r b)" "GetExpressions g b = Some body"
      and out: "block_out A body (entryStates ?r b) = (d, t)"
      and c: "CheckInQueueTimes A (analysisState ?r) b d = (limit, d', q)"
      and s1: "entryStates s1 = entryStates ?r"
      and pb: "ProcessBlock A g b ?r = foldl (PropagateEdge A d' (snd body)) s1 (chosen g b (if limit then None else t))"
    have jb: "J b (entryStates ?r b)" using j by simp
    have "\<forall>k \<in> set (chosen g b (if limit then None else t)).
      J k (GetTerminatorStateForSuccessor A d' (snd body) k) \<and> \<not> IsBottom A (GetTerminatorStateForSuccessor A d' (snd body) k)"
      using edge_just [OF jb body out c] by blast
    then show ?thesis using edges_just [of s1] j s1 unfolding s' pb by simp
  qed (use j s' in simp)
qed (use j in \<open>simp add: engine_step_def\<close>)

lemma fixpoint_just:
  assumes res: "IterateSingleUnitToFixpoint A g blocks entry s = Some s'" and j: "\<forall>c. J c (entryStates s c)"
  shows "J b (entryStates s' b)"
proof -
  obtain order and t :: "('b, 'l, 'd, 'q) EngineState" where t: "while_option (\<lambda>s. worklist s \<noteq> []) (engine_step A g) (s\<lparr>worklist := order, worklistSet := set order\<rparr>) = Some t"
    and s': "entryStates s' = entryStates t"
    using res by (auto simp: IterateSingleUnitToFixpoint_def worklist_result_def no_narrowing Let_def split: option.splits)
  have "\<forall>c. J c (entryStates t c)"
    by (rule while_option_rule [where P = "\<lambda>t :: ('b, 'l, 'd, 'q) EngineState. \<forall>c. J c (entryStates t c)", OF engine_step_just t]) (use j in simp_all)
  then show ?thesis using s' by simp
qed

end

end
