(* ===== verification/Analysis_IR.thy ===== *)
theory Analysis_IR
  imports Fixpoint_Engine SIntDomain
begin

text \<open>
  What the initialisation, reaching-definition and getOrThrow analyses read of CHIR: values,
  functions and expressions. A value, a store or a load is known by its address, here a number.
  The helpers of \<^verbatim>\<open>Analysis/Utils.cpp\<close> over them, and the numbering of the allocations
  (\<^verbatim>\<open>SaveAllocateMap\<close>).
\<close>

section \<open>Values, functions, expressions\<close>

record IRType =
  typeKind :: TypeKind
  IsCStruct :: bool
  baseKind :: TypeKind

record IRValue =
  address :: nat
  IsParameter :: bool
  IsReadonly :: bool
  GetType :: IRType

datatype FuncKind =
    DEFAULT | GETTER | SETTER | LAMBDA_FUNC | CLASS_CONSTRUCTOR | PRIMAL_CLASS_CONSTRUCTOR
  | STRUCT_CONSTRUCTOR | PRIMAL_STRUCT_CONSTRUCTOR | GLOBALVAR_INIT | FINALIZER | MAIN_ENTRY
  | ANNOFACTORY_FUNC | MACRO_FUNC | DEFAULT_PARAMETER_FUNC | INSTANCEVAR_INIT

record IRFunction =
  GetFuncKind :: FuncKind
  IsStatic :: bool
  GetParams :: "IRValue list"
  GetOuterDeclaredOrExtendedDef :: "nat option"

definition IsConstructor :: "IRFunction \<Rightarrow> bool" where
  "IsConstructor func \<longleftrightarrow>
     GetFuncKind func \<in> {CLASS_CONSTRUCTOR, STRUCT_CONSTRUCTOR, PRIMAL_CLASS_CONSTRUCTOR, PRIMAL_STRUCT_CONSTRUCTOR} \<and>
     \<not> IsStatic func"

definition GetParam0 :: "IRFunction \<Rightarrow> IRValue option" where
  "GetParam0 func = (case GetParams func of [] \<Rightarrow> None | p # _ \<Rightarrow> Some p)"

text \<open>A callee: the function when it is one with a body, its attributes, and the lambda when it
  is the result of a lambda expression.\<close>

record Callee =
  FuncWithBody :: "IRFunction option"
  IsMut :: bool
  IsGetOrThrow :: bool
  DefiningLambda :: "nat option"

text \<open>A lambda expression holds its own blocks. The first argument of \<open>Store\<close>, \<open>Load\<close>, \<open>Apply\<close>
  and the terminators but \<open>AllocateWithException\<close> is the expression's address.\<close>

datatype Expression =
    Allocate IRValue bool IRType
  | AllocateWithException IRValue bool IRType
  | Store nat IRValue nat
  | StoreElementRef IRFunction IRValue "nat list" nat
  | GetElementRef IRValue IRValue
  | Load nat IRValue
  | Apply nat Callee "IRValue list" bool
  | ApplyWithException nat Callee "IRValue list"
  | Intrinsic bool "IRValue list"
  | IntrinsicWithException nat bool "IRValue list"
  | Lambda nat "Expression list list"
  | OtherExpression
  | OtherTerminator nat

text \<open>\<open>Allocate\<close>: the result, whether it has a debug expression, the allocated type.
  \<open>Store\<close>: the location, the line. \<open>StoreElementRef\<close>: the top-level function, the location, the
  path, the line. \<open>GetElementRef\<close>: the result, the location. \<open>Apply\<close>: the callee, the arguments,
  whether it is a super call. \<open>Intrinsic\<close>: whether it is \<^verbatim>\<open>INOUT_PARAM\<close>, the operands.\<close>

definition IsTerminator :: "Expression \<Rightarrow> bool" where
  "IsTerminator e = (case e of
     AllocateWithException _ _ _ \<Rightarrow> True | ApplyWithException _ _ _ \<Rightarrow> True
   | IntrinsicWithException _ _ _ \<Rightarrow> True | OtherTerminator _ \<Rightarrow> True | _ \<Rightarrow> False)"

definition LambdaExpression :: "Expression \<Rightarrow> nat option" where
  "LambdaExpression e = (case e of Lambda l _ \<Rightarrow> Some l | _ \<Rightarrow> None)"

definition IsApplyToLambdaExpr :: "Expression \<Rightarrow> nat option" where
  "IsApplyToLambdaExpr e = (case e of
     Apply _ callee _ _ \<Rightarrow> DefiningLambda callee | ApplyWithException _ callee _ \<Rightarrow> DefiningLambda callee | _ \<Rightarrow> None)"

definition IsInitialisingMemberVar :: "IRFunction \<Rightarrow> IRValue \<Rightarrow> nat list \<Rightarrow> nat option" where
  "IsInitialisingMemberVar func location paths =
     (if (IsConstructor func \<or> GetFuncKind func = INSTANCEVAR_INIT) \<and> IsParameter location then
        if Some location = GetParam0 func \<and> length paths = 1 then Some (paths ! 0) else None
      else None)"

type_synonym IRBody = "(nat, Expression, Expression) Body"

section \<open>The allocations of a function\<close>

definition emplace :: "('k \<rightharpoonup> 'v) \<Rightarrow> 'k \<Rightarrow> 'v \<Rightarrow> ('k \<rightharpoonup> 'v)" where
  "emplace m k v = (if m k = None then m(k \<mapsto> v) else m)"

text \<open>Each allocation with a debug expression gets the next index, those in the lambdas
  included.\<close>

fun SaveAllocateExpr :: "Expression \<Rightarrow> nat \<times> (IRValue \<rightharpoonup> nat) \<Rightarrow> nat \<times> (IRValue \<rightharpoonup> nat)"
  and SaveAllocateBlock :: "Expression list \<Rightarrow> nat \<times> (IRValue \<rightharpoonup> nat) \<Rightarrow> nat \<times> (IRValue \<rightharpoonup> nat)"
  and SaveAllocateMap :: "Expression list list \<Rightarrow> nat \<times> (IRValue \<rightharpoonup> nat) \<Rightarrow> nat \<times> (IRValue \<rightharpoonup> nat)"
where
  "SaveAllocateExpr (Allocate result debug _) (idx, m) = (if debug then (idx + 1, emplace m result idx) else (idx, m))"
| "SaveAllocateExpr (AllocateWithException result debug _) (idx, m) =
     (if debug then (idx + 1, emplace m result idx) else (idx, m))"
| "SaveAllocateExpr (Lambda _ blocks) acc = SaveAllocateMap blocks acc"
| "SaveAllocateExpr _ acc = acc"
| "SaveAllocateBlock [] acc = acc"
| "SaveAllocateBlock (e # es) acc = SaveAllocateBlock es (SaveAllocateExpr e acc)"
| "SaveAllocateMap [] acc = acc"
| "SaveAllocateMap (es # bs) acc = SaveAllocateMap bs (SaveAllocateBlock es acc)"

text \<open>Indices are given once, between the first and the next.\<close>

definition numbering :: "nat \<Rightarrow> nat \<times> ('v \<rightharpoonup> nat) \<Rightarrow> bool" where
  "numbering k a \<longleftrightarrow> k \<le> fst a \<and> ran (snd a) \<subseteq> {k ..< fst a} \<and> inj_on (snd a) (dom (snd a))"

lemma numbering_emplace:
  assumes "numbering k (idx, m)"
  shows "numbering k (idx + 1, emplace m v idx)"
proof (cases "m v")
  case None
  have "m x \<noteq> Some idx" for x using assms by (auto simp: numbering_def ran_def)
  then show ?thesis using assms None
    by (auto simp: numbering_def emplace_def ran_def inj_on_def dom_def split: if_splits)
next
  case (Some i)
  then show ?thesis using assms by (auto simp: numbering_def emplace_def)
qed

lemma SaveAllocate_numbering:
  "numbering k acc \<Longrightarrow> numbering k (SaveAllocateExpr e acc)"
  "numbering k acc \<Longrightarrow> numbering k (SaveAllocateBlock es acc)"
  "numbering k acc \<Longrightarrow> numbering k (SaveAllocateMap bs acc)"
  by (induction e acc and es acc and bs acc rule: SaveAllocateExpr_SaveAllocateBlock_SaveAllocateMap.induct)
    (simp_all add: numbering_emplace del: One_nat_def add_Suc_right)

lemma SaveAllocateMap_numbering: "numbering k (SaveAllocateMap bs (k, Map.empty))"
  by (rule SaveAllocate_numbering) (simp add: numbering_def)

section \<open>Variables a lambda call can write\<close>

text \<open>The captured references of a lambda and of those its body applies, directly or through
  others. The recursion visits a lambda once; \<open>fuel\<close> bounds its depth, by the number of lambdas.
  Of each lambda the table has its own captured variables (\<^verbatim>\<open>Lambda::GetCapturedVariables\<close>, without
  those of the lambdas nested in it), the lambdas applied by the expressions the visitor meets in its
  body, nested bodies included, and the lambdas defined among these expressions.\<close>

record Lambdas =
  GetCapturedVariables :: "nat \<Rightarrow> IRValue list"
  AppliedLambdas :: "nat \<Rightarrow> nat list"
  DefinedLambdas :: "nat \<Rightarrow> nat list"

definition captured_refs :: "Lambdas \<Rightarrow> nat \<Rightarrow> IRValue set" where
  "captured_refs L lambda = {var \<in> set (GetCapturedVariables L lambda). typeKind (GetType var) = TYPE_REFTYPE}"

primrec collectRecursively :: "nat \<Rightarrow> Lambdas \<Rightarrow> nat \<Rightarrow> nat set \<times> IRValue set \<Rightarrow> nat set \<times> IRValue set" where
  "collectRecursively 0 L lambda acc = acc"
| "collectRecursively (Suc fuel) L lambda acc =
     (let (visited, vars) = foldl (\<lambda>acc child. if child \<in> fst acc then acc else collectRecursively fuel L child acc)
            (insert lambda (fst acc), snd acc) (AppliedLambdas L lambda)
      in (visited, vars \<union> captured_refs L lambda))"

definition GetLambdaCapturedVarsRecursively :: "nat \<Rightarrow> Lambdas \<Rightarrow> nat \<Rightarrow> IRValue set" where
  "GetLambdaCapturedVarsRecursively fuel L lambda = snd (collectRecursively fuel L lambda ({}, {}))"

definition collected :: "Lambdas \<Rightarrow> nat set \<times> IRValue set \<Rightarrow> nat set \<times> IRValue set \<Rightarrow> bool" where
  "collected L acc acc' \<longleftrightarrow>
     fst acc \<subseteq> fst acc' \<and> snd acc \<subseteq> snd acc' \<and>
     (\<forall>l \<in> fst acc' - fst acc. set (AppliedLambdas L l) \<subseteq> fst acc' \<and> captured_refs L l \<subseteq> snd acc')"

lemma collected_refl: "collected L acc acc"
  by (simp add: collected_def)

lemma collected_trans:
  assumes "collected L a b" "collected L b c"
  shows "collected L a c"
proof -
  have "set (AppliedLambdas L l) \<subseteq> fst c \<and> captured_refs L l \<subseteq> snd c" if "l \<in> fst c - fst a" for l
  proof (cases "l \<in> fst b")
    case True
    then show ?thesis using assms that unfolding collected_def by (meson DiffI Diff_iff subset_trans)
  next
    case False
    then show ?thesis using assms(2) that by (simp add: collected_def)
  qed
  moreover have "fst a \<subseteq> fst c" "snd a \<subseteq> snd c" using assms unfolding collected_def by (meson subset_trans)+
  ultimately show ?thesis by (simp add: collected_def)
qed

lemma collectRecursively_collects:
  assumes U: "finite U" "\<And>l. l \<in> U \<Longrightarrow> set (AppliedLambdas L l) \<subseteq> U"
  shows "lambda \<in> U \<Longrightarrow> lambda \<notin> fst acc \<Longrightarrow> fst acc \<subseteq> U \<Longrightarrow> card (U - fst acc) \<le> fuel \<Longrightarrow>
    lambda \<in> fst (collectRecursively fuel L lambda acc) \<and> fst (collectRecursively fuel L lambda acc) \<subseteq> U \<and>
    collected L acc (collectRecursively fuel L lambda acc)"
proof (induction fuel arbitrary: lambda acc)
  case 0
  then have "U - fst acc = {}" using U(1) by simp
  then show ?case using 0 by blast
next
  case (Suc fuel)
  let ?step = "\<lambda>acc child. if child \<in> fst acc then acc else collectRecursively fuel L child acc"
  let ?a = "(insert lambda (fst acc), snd acc)"
  have fold: "set cs \<subseteq> U \<Longrightarrow> insert lambda (fst acc) \<subseteq> fst x \<Longrightarrow> fst x \<subseteq> U \<Longrightarrow>
    set cs \<subseteq> fst (foldl ?step x cs) \<and> fst (foldl ?step x cs) \<subseteq> U \<and> collected L x (foldl ?step x cs)" for cs x
  proof (induction cs arbitrary: x)
    case Nil
    then show ?case by (simp add: collected_refl)
  next
    case (Cons c cs)
    have "U - fst x \<subseteq> (U - fst acc) - {lambda}" using Cons.prems(2) by blast
    then have "card (U - fst x) \<le> card ((U - fst acc) - {lambda})" using U(1) by (intro card_mono) auto
    also have "\<dots> \<le> fuel" using Suc.prems U(1) by (subst card_Diff_singleton) auto
    finally have lt: "card (U - fst x) \<le> fuel" .
    have one: "c \<in> fst (?step x c)" "fst (?step x c) \<subseteq> U" "collected L x (?step x c)"
      using Suc.IH [of c x] Cons.prems lt by (simp_all add: collected_refl)
    have le: "insert lambda (fst acc) \<subseteq> fst (?step x c)" using one(3) Cons.prems(2) unfolding collected_def by (meson subset_trans)
    have cs: "set cs \<subseteq> U" using Cons.prems(1) by simp
    note i = Cons.IH [OF cs le one(2)]
    have "c \<in> fst (foldl ?step (?step x c) cs)" using i one(1) unfolding collected_def by (meson subsetD)
    then show ?case using i collected_trans [OF one(3)] by simp
  qed
  have kids: "set (AppliedLambdas L lambda) \<subseteq> U" "insert lambda (fst acc) \<subseteq> fst ?a" "fst ?a \<subseteq> U" using U(2) Suc.prems by simp_all
  obtain vis vars where x: "foldl ?step ?a (AppliedLambdas L lambda) = (vis, vars)"
    by (cases "foldl ?step ?a (AppliedLambdas L lambda)")
  have f: "set (AppliedLambdas L lambda) \<subseteq> vis" "vis \<subseteq> U" "collected L ?a (vis, vars)" using fold [OF kids] x by simp_all
  have "collectRecursively (Suc fuel) L lambda acc = (vis, vars \<union> captured_refs L lambda)" using x by simp
  moreover have "collected L acc (vis, vars \<union> captured_refs L lambda)"
  proof -
    have "set (AppliedLambdas L l) \<subseteq> vis \<and> captured_refs L l \<subseteq> vars \<union> captured_refs L lambda" if "l \<in> vis - fst acc" for l
      using f(1,3) that by (cases "l = lambda") (auto simp: collected_def)
    then show ?thesis using f(3) by (auto simp: collected_def)
  qed
  moreover have "lambda \<in> vis" using f(3) by (simp add: collected_def)
  ultimately show ?case using f(2) by simp
qed

text \<open>What the recursion finds: the captured references of every lambda the first one reaches by
  applications.\<close>

inductive applies_to :: "Lambdas \<Rightarrow> nat \<Rightarrow> nat \<Rightarrow> bool" for L lambda where
  itself: "applies_to L lambda lambda"
| via: "applies_to L lambda l \<Longrightarrow> l' \<in> set (AppliedLambdas L l) \<Longrightarrow> applies_to L lambda l'"

lemma GetLambdaCapturedVarsRecursively_complete:
  assumes U: "finite U" "\<And>l. l \<in> U \<Longrightarrow> set (AppliedLambdas L l) \<subseteq> U" "lambda \<in> U" and fuel: "card U \<le> fuel"
    and l: "applies_to L lambda l"
  shows "captured_refs L l \<subseteq> GetLambdaCapturedVarsRecursively fuel L lambda"
proof -
  let ?r = "collectRecursively fuel L lambda ({}, {})"
  have r: "lambda \<in> fst ?r" "collected L ({}, {}) ?r"
    using collectRecursively_collects [OF U(1,2) U(3), of "({}, {})" fuel] fuel by simp_all
  have "l \<in> fst ?r" using l by induction (use r in \<open>auto simp: collected_def\<close>)
  then show ?thesis using r(2) by (simp add: collected_def GetLambdaCapturedVarsRecursively_def)
qed

lemma collectRecursively_only:
  assumes V: "\<And>l. applies_to L start l \<Longrightarrow> captured_refs L l \<subseteq> V"
  shows "applies_to L start lambda \<Longrightarrow> snd acc \<subseteq> V \<Longrightarrow> snd (collectRecursively fuel L lambda acc) \<subseteq> V"
proof (induction fuel arbitrary: lambda acc)
  case (Suc fuel)
  let ?step = "\<lambda>acc child. if child \<in> fst acc then acc else collectRecursively fuel L child acc"
  have fold: "\<forall>k \<in> set cs. applies_to L start k \<Longrightarrow> snd x \<subseteq> V \<Longrightarrow> snd (foldl ?step x cs) \<subseteq> V" for cs x
  proof (induction cs arbitrary: x)
    case (Cons k cs)
    have "snd (?step x k) \<subseteq> V" using Suc.IH [of k x] Cons.prems by simp
    then show ?case using Cons.IH [of "?step x k"] Cons.prems(1) by simp
  qed simp
  have "\<forall>k \<in> set (AppliedLambdas L lambda). applies_to L start k" using Suc.prems(1) by (blast intro: applies_to.via)
  then have "snd (foldl ?step (insert lambda (fst acc), snd acc) (AppliedLambdas L lambda)) \<subseteq> V"
    by (rule fold) (use Suc.prems(2) in simp)
  then show ?case using V [OF Suc.prems(1)] by (simp add: case_prod_unfold Let_def)
qed simp

lemma GetLambdaCapturedVarsRecursively_eq:
  assumes U: "finite U" "\<And>l. l \<in> U \<Longrightarrow> set (AppliedLambdas L l) \<subseteq> U" "lambda \<in> U" and fuel: "card U \<le> fuel"
  shows "GetLambdaCapturedVarsRecursively fuel L lambda = (\<Union>l \<in> {l. applies_to L lambda l}. captured_refs L l)"
proof
  show "GetLambdaCapturedVarsRecursively fuel L lambda \<subseteq> (\<Union>l \<in> {l. applies_to L lambda l}. captured_refs L l)"
    unfolding GetLambdaCapturedVarsRecursively_def
    by (rule collectRecursively_only) (auto intro: applies_to.itself)
  show "(\<Union>l \<in> {l. applies_to L lambda l}. captured_refs L l) \<subseteq> GetLambdaCapturedVarsRecursively fuel L lambda"
    using GetLambdaCapturedVarsRecursively_complete [OF U fuel] by blast
qed

text \<open>What \<^verbatim>\<open>Analysis/Utils.h\<close> promises: the collection steps into every lambda that is defined or
  called. Nothing is missed when what is defined in a lambda the applications reach is reached by
  applications itself.\<close>

inductive steps_into :: "Lambdas \<Rightarrow> nat \<Rightarrow> nat \<Rightarrow> bool" for L lambda where
  itself: "steps_into L lambda lambda"
| into: "steps_into L lambda l \<Longrightarrow> l' \<in> set (DefinedLambdas L l) \<union> set (AppliedLambdas L l) \<Longrightarrow> steps_into L lambda l'"

lemma applies_to_steps_into: "applies_to L lambda l \<Longrightarrow> steps_into L lambda l"
  by (induction rule: applies_to.induct) (auto intro: steps_into.intros)

lemma steps_into_applies_to:
  assumes "\<And>l l'. applies_to L lambda l \<Longrightarrow> l' \<in> set (DefinedLambdas L l) \<Longrightarrow> applies_to L lambda l'"
  shows "steps_into L lambda l \<Longrightarrow> applies_to L lambda l"
  by (induction rule: steps_into.induct) (use assms in \<open>auto intro: applies_to.intros\<close>)

end
