(* ===== verification/Gen_Kill.thy ===== *)
theory Gen_Kill
  imports Engine_Total Analysis_IR
begin

text \<open>
  The gen/kill domain of \<^verbatim>\<open>GenKillAnalysis.h\<close>, and what a `maybe' analysis over it computes: a fact
  is true at a block exactly when it is true after some path from the entry. The contract is a
  locale; the initialisation analyses interpret it.
\<close>

section \<open>The domain\<close>

datatype ReachableKind = UNREACHABLE | REACHABLE

datatype AnalysisKind = MUST | MAYBE

record GenKillDomain =
  reachable :: ReachableKind
  states :: "bool list"

definition GenKillDomain_make :: "nat \<Rightarrow> GenKillDomain" where
  "GenKillDomain_make domainSize = \<lparr>reachable = UNREACHABLE, states = replicate domainSize False\<rparr>"

definition GenKillJoin ::
  "AnalysisKind \<Rightarrow> 'a GenKillDomain_scheme \<Rightarrow> 'a GenKillDomain_scheme \<Rightarrow> bool \<times> 'a GenKillDomain_scheme" where
  "GenKillJoin mustOrMaybe d rhs =
     (let old = states d; size = length old;
          new = map (\<lambda>i. if mustOrMaybe = MUST then old ! i \<and> states rhs ! i else old ! i \<or> states rhs ! i) [0 ..< size]
      in (list_ex (\<lambda>i. old ! i \<noteq> new ! i) [0 ..< size], d\<lparr>reachable := REACHABLE, states := new\<rparr>))"

definition Gen :: "nat \<Rightarrow> 'a GenKillDomain_scheme \<Rightarrow> 'a GenKillDomain_scheme" where
  "Gen index d = d\<lparr>states := (states d)[index := True]\<rparr>"

definition Kill :: "nat \<Rightarrow> 'a GenKillDomain_scheme \<Rightarrow> 'a GenKillDomain_scheme" where
  "Kill index d = d\<lparr>states := (states d)[index := False]\<rparr>"

definition GenAll :: "'a GenKillDomain_scheme \<Rightarrow> 'a GenKillDomain_scheme" where
  "GenAll d = d\<lparr>states := replicate (length (states d)) True\<rparr>"

definition KillAll :: "'a GenKillDomain_scheme \<Rightarrow> 'a GenKillDomain_scheme" where
  "KillAll d = d\<lparr>states := replicate (length (states d)) False\<rparr>"

definition PropagateFrom :: "nat \<Rightarrow> nat \<Rightarrow> 'a GenKillDomain_scheme \<Rightarrow> 'a GenKillDomain_scheme" where
  "PropagateFrom from to d = d\<lparr>states := (states d)[to := states d ! from]\<rparr>"

definition IsTrueAt :: "'a GenKillDomain_scheme \<Rightarrow> nat \<Rightarrow> bool" where
  "IsTrueAt d index = states d ! index"

lemma GenKillJoin_maybe:
  assumes "length (states rhs) = length (states d)"
  shows "states (snd (GenKillJoin MAYBE d rhs)) = map2 (\<or>) (states d) (states rhs)"
    and "fst (GenKillJoin MAYBE d rhs) \<longleftrightarrow> states (snd (GenKillJoin MAYBE d rhs)) \<noteq> states d"
    and "reachable (snd (GenKillJoin MAYBE d rhs)) = REACHABLE"
proof -
  let ?new = "map (\<lambda>i. states d ! i \<or> states rhs ! i) [0 ..< length (states d)]"
  have j: "GenKillJoin MAYBE d rhs =
      (list_ex (\<lambda>i. states d ! i \<noteq> ?new ! i) [0 ..< length (states d)], d\<lparr>reachable := REACHABLE, states := ?new\<rparr>)"
    by (simp add: GenKillJoin_def Let_def)
  have s: "states (snd (GenKillJoin MAYBE d rhs)) = ?new" by (simp add: j)
  show "states (snd (GenKillJoin MAYBE d rhs)) = map2 (\<or>) (states d) (states rhs)"
    unfolding s by (rule nth_equalityI) (simp_all add: assms)
  show "fst (GenKillJoin MAYBE d rhs) \<longleftrightarrow> states (snd (GenKillJoin MAYBE d rhs)) \<noteq> states d"
  proof -
    have "?new = states d \<longleftrightarrow> (\<forall>i < length (states d). ?new ! i = states d ! i)"
      using nth_equalityI [of ?new "states d"] by fastforce
    then show ?thesis unfolding s j fst_conv list_ex_iff by auto
  qed
  show "reachable (snd (GenKillJoin MAYBE d rhs)) = REACHABLE" by (simp add: j)
qed

section \<open>Paths\<close>

text \<open>The expressions of the blocks of a path, which the terminators do not belong to.\<close>

definition path_run :: "IRBody \<Rightarrow> nat \<Rightarrow> Expression list \<Rightarrow> Expression list \<Rightarrow> nat \<Rightarrow> bool" where
  "path_run g b x y s \<longleftrightarrow>
     (\<exists>es tm. GetExpressions g b = Some (es, tm) \<and> s \<in> set (GetSuccessors g b) \<and> y = x @ es)"

definition path_to :: "IRBody \<Rightarrow> nat \<Rightarrow> nat \<Rightarrow> Expression list \<Rightarrow> bool" where
  "path_to g entry = runs_to (path_run g) {[]} entry"

lemma path_to_reachable: "(\<exists>tr. path_to g entry b tr) \<longleftrightarrow> reaches (GetSuccessors g) entry b"
proof
  assume "\<exists>tr. path_to g entry b tr"
  then obtain tr where "runs_to (path_run g) {[]} entry b tr" by (auto simp: path_to_def)
  then show "reaches (GetSuccessors g) entry b" by induction (auto simp: path_run_def intro: reaches.intros)
next
  show "\<exists>tr. path_to g entry b tr" if "reaches (GetSuccessors g) entry b"
    using that
  proof induction
    case start
    show ?case unfolding path_to_def by (blast intro: runs_to.start)
  next
    case (step b s)
    then obtain tr where "runs_to (path_run g) {[]} entry b tr" by (auto simp: path_to_def)
    moreover obtain es tm where "GetExpressions g b = Some (es, tm)"
      using step(2) by (cases "GetExpressions g b") (auto simp: GetSuccessors_def)
    ultimately show ?case using step(2) runs_to.step [of "path_run g" "{[]}" entry b tr "tr @ es" s]
      unfolding path_to_def by (auto simp: path_run_def)
  qed
qed

section \<open>The contract\<close>

text \<open>\<open>change e i\<close>: what the expression \<open>e\<close> does to the fact \<open>i\<close>; \<open>at_start i\<close>: its value at the
  entry.\<close>

locale gen_kill_analysis =
  fixes A :: "(nat, Expression, Expression, nat, 'd, 'q) Analysis" and g :: IRBody and n :: nat
    and bits :: "'d \<Rightarrow> bool list" and change :: "Expression \<Rightarrow> nat \<Rightarrow> bool option" and at_start :: "nat \<Rightarrow> bool"
  assumes bottom: "IsBottom A (Bottom A)" "bits (Bottom A) = replicate n False"
    and start: "\<not> IsBottom A (InitializeFuncEntryState A (Bottom A))"
      "bits (InitializeFuncEntryState A (Bottom A)) = map at_start [0 ..< n]"
    and join: "length (bits a) = n \<Longrightarrow> length (bits d) = n \<Longrightarrow>
      bits (snd (Join A a d)) = map2 (\<or>) (bits a) (bits d) \<and>
      (fst (Join A a d) \<longleftrightarrow> bits (snd (Join A a d)) \<noteq> bits a) \<and> \<not> IsBottom A (snd (Join A a d))"
    and effect: "length (bits d) = n \<Longrightarrow>
      bits (PropagateExpressionEffect A d e) = map (\<lambda>i. case change e i of Some v \<Rightarrow> v | None \<Rightarrow> bits d ! i) [0 ..< n] \<and>
      IsBottom A (PropagateExpressionEffect A d e) = IsBottom A d"
    and defaults: "PreHandleLambdaExpression A = (\<lambda>d _. d)" "HandleVarStateCapturedByLambda A = (\<lambda>d _. d)"
      "PropagateTerminatorEffect A = (\<lambda>d _. (d, None))" "CheckInQueueTimes A = (\<lambda>q _ d. (False, d, q))"
      "GetTerminatorStateForSuccessor A = (\<lambda>d _ _. d)" "NarrowState A = (\<lambda>d _. (False, d))"
      "GetNarrowingIterationLimit A = 0" "InitializeLambdaEntryState A = (\<lambda>_ d. d)"
    and lambdas: "LambdaOf A e = Some l \<Longrightarrow> change e i = None"
begin

text \<open>The value of the fact \<open>i\<close> after a path.\<close>

definition change_to :: "nat \<Rightarrow> bool \<Rightarrow> Expression \<Rightarrow> bool" where
  "change_to i v e = (case change e i of Some w \<Rightarrow> w | None \<Rightarrow> v)"

definition holds_after :: "nat \<Rightarrow> Expression list \<Rightarrow> bool \<Rightarrow> bool" where
  "holds_after i es v = foldl (change_to i) v es"

lemma holds_after_snoc: "holds_after i (es @ [e]) v = change_to i (holds_after i es v) e"
  by (simp add: holds_after_def)

lemma expression_bits:
  assumes "length (bits d) = n"
  shows "bits (NarrowExpression A d e) = map (\<lambda>i. change_to i (bits d ! i) e) [0 ..< n]"
    and "IsBottom A (NarrowExpression A d e) = IsBottom A d"
proof -
  have "bits (NarrowExpression A d e) = map (\<lambda>i. change_to i (bits d ! i) e) [0 ..< n] \<and>
      IsBottom A (NarrowExpression A d e) = IsBottom A d"
  proof (cases "LambdaOf A e")
    case None
    then show ?thesis using effect [OF assms] by (simp add: NarrowExpression_def defaults change_to_def split: option.splits)
  next
    case (Some l)
    have "bits d = map ((!) (bits d)) [0 ..< n]" using assms by (metis map_nth)
    then show ?thesis using Some lambdas [OF Some] by (simp add: NarrowExpression_def defaults change_to_def)
  qed
  then show "bits (NarrowExpression A d e) = map (\<lambda>i. change_to i (bits d ! i) e) [0 ..< n]"
    "IsBottom A (NarrowExpression A d e) = IsBottom A d" by simp_all
qed

lemma expressions_bits:
  "length (bits d) = n \<Longrightarrow>
   bits (foldl (NarrowExpression A) d es) = map (\<lambda>i. holds_after i es (bits d ! i)) [0 ..< n] \<and>
   IsBottom A (foldl (NarrowExpression A) d es) = IsBottom A d"
proof (induction es arbitrary: d)
  case Nil
  then have "bits d = map ((!) (bits d)) [0 ..< n]" by (metis map_nth)
  then show ?case by (simp add: holds_after_def)
next
  case (Cons e es)
  have l: "length (bits (NarrowExpression A d e)) = n" using expression_bits(1) [OF Cons.prems] by simp
  show ?case using Cons.IH [OF l] expression_bits [OF Cons.prems] by (simp add: holds_after_def)
qed

lemma block_bits:
  assumes "length (bits d) = n" "GetExpressions g b = Some (es, tm)"
  shows "bits (fst (block_out A (es, tm) d)) = map (\<lambda>i. holds_after i es (bits d ! i)) [0 ..< n]"
    and "IsBottom A (fst (block_out A (es, tm) d)) = IsBottom A d" and "snd (block_out A (es, tm) d) = None"
proof -
  show "bits (fst (block_out A (es, tm) d)) = map (\<lambda>i. holds_after i es (bits d ! i)) [0 ..< n]"
    "IsBottom A (fst (block_out A (es, tm) d)) = IsBottom A d" "snd (block_out A (es, tm) d) = None"
    using expressions_bits [OF assms(1), of es]
    by (simp_all add: block_out_def ProcessTerminator_def defaults split: option.splits)
qed

definition paths_of :: "'d \<Rightarrow> Expression list set" where
  "paths_of d = (if IsBottom A d then {} else {tr. \<forall>i < n. holds_after i tr (at_start i) \<longrightarrow> bits d ! i})"

definition fits :: "'d \<Rightarrow> bool" where
  "fits d \<longleftrightarrow> length (bits d) = n"

lemma join_bits:
  assumes "fits a" "fits d"
  shows "fits (snd (Join A a d))" "i < n \<Longrightarrow> bits (snd (Join A a d)) ! i = (bits a ! i \<or> bits d ! i)"
    "\<not> IsBottom A (snd (Join A a d))" "\<not> fst (Join A a d) \<Longrightarrow> bits (snd (Join A a d)) = bits a"
  using join assms by (auto simp: fits_def)

lemma holds_after_append: "holds_after i (xs @ ys) v = holds_after i ys (holds_after i xs v)"
  by (simp add: holds_after_def)

sublocale cover: ordered_analysis A g paths_of fits "path_run g"
proof
  fix a d :: 'd assume f: "fits a" "fits d"
  note j = join_bits [OF f]
  show "\<not> IsBottom A (snd (Join A a d))" if "\<not> IsBottom A a" using j by simp
  show "\<not> IsBottom A (snd (Join A a d))" if "\<not> IsBottom A d" using j by simp
  show "fits (snd (Join A a d))"
    "paths_of a \<subseteq> paths_of (snd (Join A a d))" "paths_of d \<subseteq> paths_of (snd (Join A a d))"
    using j by (auto simp: paths_of_def)
  show "paths_of (snd (Join A a d)) \<subseteq> paths_of a" if "\<not> IsBottom A a" "\<not> fst (Join A a d)"
    using j that by (auto simp: paths_of_def)
next
  fix b x y s d body assume r: "path_run g b x y s" and f: "fits d" and x: "x \<in> paths_of d" and g: "GetExpressions g b = Some body"
  obtain es tm where e: "body = (es, tm)" "y = x @ es" "s \<in> set (GetSuccessors g b)"
    using r g by (auto simp: path_run_def)
  note k = block_bits [OF _ g [unfolded e(1)], of d]
  have "\<not> IsBottom A d" and xi: "\<And>i. i < n \<Longrightarrow> holds_after i x (at_start i) \<longrightarrow> bits d ! i"
    using x by (auto simp: paths_of_def split: if_splits)
  moreover have "holds_after i es (bits d ! i)" if "i < n" "holds_after i y (at_start i)" for i
  proof -
    have mono: "holds_after i zs v \<Longrightarrow> (v \<longrightarrow> w) \<Longrightarrow> holds_after i zs w" for zs v w
      by (induction zs arbitrary: v w) (auto simp: holds_after_def change_to_def split: option.splits)
    have "holds_after i es (holds_after i x (at_start i))" using that(2) e(2) by (simp add: holds_after_append)
    then show ?thesis by (rule mono) (use xi that(1) in blast)
  qed
  ultimately show "y \<in> paths_of (fst (block_out A body d)) \<and> s \<in> set (chosen g b (snd (block_out A body d)))"
    using k f e by (simp add: fits_def paths_of_def chosen_def)
next
  fix d b body assume "fits d" "\<not> IsBottom A d" "GetExpressions g b = Some body"
  then show "fits (fst (block_out A body d))" "\<not> IsBottom A (fst (block_out A body d)) \<and> snd (block_out A body d) = None"
    using block_bits [of d b "fst body" "snd body"] by (simp_all add: fits_def)
qed (use bottom in \<open>auto simp: fits_def defaults paths_of_def path_run_def block_out_def ProcessTerminator_def split: option.splits\<close>)

definition false_bits :: "'d \<Rightarrow> nat" where
  "false_bits d = card {i. i < n \<and> \<not> bits d ! i}"

sublocale fin: finite_analysis A g fits false_bits
proof
  fix a d :: 'd assume f: "fits a" "fits d"
  note j = join_bits [OF f]
  show "fits (snd (Join A a d))" using j by simp
  have sub: "{i. i < n \<and> \<not> bits (snd (Join A a d)) ! i} \<subseteq> {i. i < n \<and> \<not> bits a ! i}" using j(2) by auto
  show "false_bits (snd (Join A a d)) + (if fst (Join A a d) then 1 else 0) \<le> false_bits a"
  proof (cases "fst (Join A a d)")
    case True
    then have "bits (snd (Join A a d)) \<noteq> bits a" using join f by (simp add: fits_def)
    moreover have "length (bits (snd (Join A a d))) = n" "length (bits a) = n" using j(1) f by (simp_all add: fits_def)
    ultimately obtain i where "i < n" "bits (snd (Join A a d)) ! i \<noteq> bits a ! i"
      using nth_equalityI [of "bits (snd (Join A a d))" "bits a"] by auto
    then have "i \<in> {i. i < n \<and> \<not> bits a ! i}" "i \<notin> {i. i < n \<and> \<not> bits (snd (Join A a d)) ! i}" using j(2) by auto
    then have "{i. i < n \<and> \<not> bits (snd (Join A a d)) ! i} \<subset> {i. i < n \<and> \<not> bits a ! i}" using sub by blast
    then show ?thesis using True by (simp add: false_bits_def psubset_card_mono Suc_leI)
  next
    case False
    then show ?thesis using sub by (simp add: false_bits_def card_mono)
  qed
next
  fix d e assume "fits d"
  then show "fits (NarrowExpression A d e)" using expression_bits [of d e] by (simp add: fits_def)
next
  fix d b body c assume "fits d" "GetExpressions g b = Some body" "snd (block_out A body d) = Some c"
  then show "c \<in> set (GetSuccessors g b)" using block_bits(3) [of d b "fst body" "snd body"] by (simp add: fits_def)
qed (use bottom start in \<open>auto simp: fits_def defaults ProcessTerminator_def split: option.splits\<close>)

text \<open>A state is justified at a block if each of its facts holds after some path to it, and if a path
  leads to it when it is not bottom.\<close>

definition on_paths :: "nat \<Rightarrow> nat \<Rightarrow> 'd \<Rightarrow> bool" where
  "on_paths entry b d \<longleftrightarrow>
     fits d \<and> (\<not> IsBottom A d \<longrightarrow> (\<exists>tr. path_to g entry b tr)) \<and>
     (\<forall>i < n. bits d ! i \<longrightarrow> (\<exists>tr. path_to g entry b tr \<and> holds_after i tr (at_start i)))"

lemma holds_after_mono: "holds_after i es v \<Longrightarrow> (v \<longrightarrow> w) \<Longrightarrow> holds_after i es w"
  by (induction es arbitrary: v w) (auto simp: holds_after_def change_to_def split: option.splits)

sublocale just: justified_analysis A g "on_paths entry" for entry
proof
  fix b show "on_paths entry b (Bottom A)" using bottom by (simp add: on_paths_def fits_def)
next
  fix b a d assume j: "on_paths entry b a" "on_paths entry b d" "\<not> IsBottom A d"
  have f: "fits a" "fits d" using j by (simp_all add: on_paths_def)
  show "on_paths entry b (snd (Join A a d))" using j join_bits [OF f] by (auto simp: on_paths_def)
next
  fix b d body d1 t q limit d2 q' c
  assume j: "on_paths entry b d" and nb: "\<not> IsBottom A d" and body: "GetExpressions g b = Some body"
    and out: "block_out A body d = (d1, t)" and q: "CheckInQueueTimes A q b d1 = (limit, d2, q')"
    and c: "c \<in> set (chosen g b (if limit then None else t))"
  obtain es tm where b: "body = (es, tm)" by (cases body)
  have fd: "length (bits d) = n" using j by (simp add: on_paths_def fits_def)
  note k = block_bits [OF fd body [unfolded b]]
  have d2: "bits d2 = map (\<lambda>i. holds_after i es (bits d ! i)) [0 ..< n]" "\<not> IsBottom A d2" "t = None"
    using k out q b nb by (auto simp: defaults)
  have cs: "c \<in> set (GetSuccessors g b)" using c d2(3) by (simp add: chosen_def split: if_splits)
  have go: "path_to g entry c (tr @ es)" if "path_to g entry b tr" for tr
    using that body b cs unfolding path_to_def by (auto intro!: runs_to.step [of _ _ _ b tr] simp: path_run_def)
  obtain tr0 where tr0: "path_to g entry b tr0" using j nb by (auto simp: on_paths_def)
  have "\<exists>tr. path_to g entry c tr \<and> holds_after i tr (at_start i)" if i: "i < n" "bits d2 ! i" for i
  proof -
    have h: "holds_after i es (bits d ! i)" using i d2(1) by simp
    obtain tr where tr: "path_to g entry b tr" "bits d ! i \<longrightarrow> holds_after i tr (at_start i)"
      using j tr0 i(1) by (cases "bits d ! i") (auto simp: on_paths_def)
    have "holds_after i es (holds_after i tr (at_start i))" by (rule holds_after_mono [OF h tr(2)])
    then have "holds_after i (tr @ es) (at_start i)" by (simp add: holds_after_append)
    then show ?thesis using go [OF tr(1)] by blast
  qed
  then have "on_paths entry c d2" using d2(1) go [OF tr0] by (auto simp: on_paths_def fits_def)
  then show "on_paths entry c (GetTerminatorStateForSuccessor A d2 (snd body) c) \<and>
    \<not> IsBottom A (GetTerminatorStateForSuccessor A d2 (snd body) c)" using d2(2) by (simp add: defaults)
qed (simp add: defaults)

text \<open>A body with finitely many reachable blocks has a result.\<close>

lemma start_total:
  assumes "finite_graph (GetSuccessors g) entry"
  shows "\<exists>s'. IterateSingleUnitToFixpoint A g blocks entry (function_start A entry q) = Some s'"
  by (rule fin.fixpoint_total [OF assms]) (use bottom start in \<open>simp add: function_start_def fits_def\<close>)

text \<open>The facts at the entry of a block are those that hold after some path to it.\<close>

theorem fixpoint_exact:
  assumes res: "IterateSingleUnitToFixpoint A g blocks entry (function_start A entry q) = Some s'"
  shows "length (bits (entryStates s' b)) = n"
    and "i < n \<Longrightarrow> bits (entryStates s' b) ! i \<longleftrightarrow> (\<exists>tr. path_to g entry b tr \<and> holds_after i tr (at_start i))"
    and "IsBottom A (entryStates s' b) \<longleftrightarrow> \<not> (\<exists>tr. path_to g entry b tr)"
proof -
  let ?s = "function_start A entry q"
  have e: "entryStates ?s c = (if c = entry then InitializeFuncEntryState A (Bottom A) else Bottom A)" for c
    by (simp add: function_start_def)
  have f: "fits (entryStates ?s c)" for c using bottom start by (simp add: e fits_def)
  have "\<exists>tr. path_to g entry entry tr \<and> holds_after i tr (at_start i)" if "at_start i" for i
    using that unfolding path_to_def by (intro exI [of _ "[]"]) (simp add: holds_after_def runs_to.start)
  moreover have "path_to g entry entry []" by (simp add: path_to_def runs_to.start)
  ultimately have "\<forall>c. on_paths entry c (entryStates ?s c)" using f bottom start unfolding on_paths_def by (auto simp: e)
  from just.fixpoint_just [OF res this] have j: "on_paths entry b (entryStates s' b)" .
  then show "length (bits (entryStates s' b)) = n" by (simp add: on_paths_def fits_def)
  have c: "tr \<in> paths_of (entryStates s' b)" if "path_to g entry b tr" for tr
  proof (rule cover.fixpoint_covers [OF res f])
    have "[] \<in> paths_of (entryStates ?s entry)" using start by (simp add: e paths_of_def holds_after_def)
    then show "runs_to (path_run g) (paths_of (entryStates ?s entry)) entry b tr"
      using that unfolding path_to_def by (blast intro: runs_to_mono)
  qed
  have up: "bits (entryStates s' b) ! i" if "i < n" "path_to g entry b tr" "holds_after i tr (at_start i)" for i tr
    using c [OF that(2)] that by (simp add: paths_of_def split: if_splits)
  show "bits (entryStates s' b) ! i \<longleftrightarrow> (\<exists>tr. path_to g entry b tr \<and> holds_after i tr (at_start i))" if "i < n"
    using that j up by (auto simp: on_paths_def)
  have "\<not> IsBottom A (entryStates s' b)" if "path_to g entry b tr" for tr
    using c [OF that] by (simp add: paths_of_def split: if_splits)
  then show "IsBottom A (entryStates s' b) \<longleftrightarrow> \<not> (\<exists>tr. path_to g entry b tr)"
    using j by (auto simp: on_paths_def)
qed

end

end
