(* ===== verification/Init_Analyses.thy ===== *)
theory Init_Analyses
  imports Gen_Kill
begin

text \<open>
  The analyses that check the initialisation of variables and members
  (\<^verbatim>\<open>MaybeInitAnalysis.cpp\<close>, \<^verbatim>\<open>MaybeUninitAnalysis.cpp\<close>). The first of the facts are the members of
  the class itself, then come the allocations of the function; the last one, of a class with a
  super class, stands for the members of the super class.
\<close>

section \<open>The code\<close>

record ConstructorInitInfo =
  thisCustomDef :: "nat option"
  superClassDef :: "nat option"
  superMemberNums :: nat
  localMemberNums :: nat

record InitAnalysis =
  func :: IRFunction
  ctorInitInfo :: ConstructorInitInfo
  allocateIdxMap :: "IRValue \<rightharpoonup> nat"
  domainSize :: nat

definition InitAnalysis_make :: "IRFunction \<Rightarrow> Expression list list \<Rightarrow> ConstructorInitInfo \<Rightarrow> InitAnalysis" where
  "InitAnalysis_make f blocks info =
     (let (allocateIdx, idxMap) = SaveAllocateMap blocks (localMemberNums info, Map.empty);
          size = localMemberNums info + allocateIdx
      in \<lparr>func = f, ctorInitInfo = info, allocateIdxMap = idxMap,
          domainSize = (if superClassDef info \<noteq> None then size + 1 else size)\<rparr>)"

subsection \<open>Maybe initialised\<close>

datatype InitedMemberKind = SUPER_MEMBER | LOCAL_MEMBER | NA_MEMBER

definition IsMaybeInitedAllocation :: "InitAnalysis \<Rightarrow> 'a GenKillDomain_scheme \<Rightarrow> IRValue \<Rightarrow> bool option" where
  "IsMaybeInitedAllocation c d location = map_option (IsTrueAt d) (allocateIdxMap c location)"

text \<open>\<open>None\<close> is the abort on an index out of range.\<close>

definition IsMaybeInitedMember :: "InitAnalysis \<Rightarrow> 'a GenKillDomain_scheme \<Rightarrow> nat \<Rightarrow> InitedMemberKind option" where
  "IsMaybeInitedMember c d memberIndex =
     (let info = ctorInitInfo c
      in if memberIndex < superMemberNums info then
           Some (if IsTrueAt d (length (states d) - 1) then SUPER_MEMBER else NA_MEMBER)
         else if memberIndex < superMemberNums info + localMemberNums info then
           Some (if IsTrueAt d (memberIndex - superMemberNums info) then LOCAL_MEMBER else NA_MEMBER)
         else None)"

definition delegates :: "InitAnalysis \<Rightarrow> Callee \<Rightarrow> IRValue list \<Rightarrow> bool" where
  "delegates c callee args =
     (case FuncWithBody callee of
        None \<Rightarrow> False
      | Some calleeFunc \<Rightarrow>
          IsConstructor calleeFunc \<and> GetOuterDeclaredOrExtendedDef calleeFunc = thisCustomDef (ctorInitInfo c) \<and>
          args \<noteq> [] \<and> Some (hd args) = GetParam0 (func c))"

definition MaybeInit_HandleStoreElemRef :: "InitAnalysis \<Rightarrow> IRFunction \<Rightarrow> IRValue \<Rightarrow> nat list \<Rightarrow> GenKillDomain \<Rightarrow> GenKillDomain" where
  "MaybeInit_HandleStoreElemRef c parentFunc location paths state =
     (case IsInitialisingMemberVar parentFunc location paths of
        None \<Rightarrow> state
      | Some memberIdx \<Rightarrow>
          if memberIdx < superMemberNums (ctorInitInfo c) then state
          else Gen (memberIdx - superMemberNums (ctorInitInfo c)) state)"

definition MaybeInit_SetAllLocalMemberInited :: "InitAnalysis \<Rightarrow> GenKillDomain \<Rightarrow> GenKillDomain" where
  "MaybeInit_SetAllLocalMemberInited c state = foldl (\<lambda>d i. Gen i d) state [0 ..< localMemberNums (ctorInitInfo c)]"

definition MaybeInit_HandleApply :: "InitAnalysis \<Rightarrow> Callee \<Rightarrow> IRValue list \<Rightarrow> bool \<Rightarrow> GenKillDomain \<Rightarrow> GenKillDomain" where
  "MaybeInit_HandleApply c callee args isSuperCall state =
     (if \<not> IsConstructor (func c) then state
      else if isSuperCall then Gen (domainSize c - 1) state
      else if delegates c callee args then
        let state = MaybeInit_SetAllLocalMemberInited c state
        in if superClassDef (ctorInitInfo c) \<noteq> None then Gen (domainSize c - 1) state else state
      else state)"

definition MaybeInit_PropagateExpressionEffect :: "InitAnalysis \<Rightarrow> GenKillDomain \<Rightarrow> Expression \<Rightarrow> GenKillDomain" where
  "MaybeInit_PropagateExpressionEffect c state e =
     (case e of
        Allocate result _ _ \<Rightarrow> (case allocateIdxMap c result of Some i \<Rightarrow> Kill i state | None \<Rightarrow> state)
      | Store _ location _ \<Rightarrow> (case allocateIdxMap c location of Some i \<Rightarrow> Gen i state | None \<Rightarrow> state)
      | StoreElementRef parentFunc location paths _ \<Rightarrow> MaybeInit_HandleStoreElemRef c parentFunc location paths state
      | Apply _ callee args isSuperCall \<Rightarrow> MaybeInit_HandleApply c callee args isSuperCall state
      | _ \<Rightarrow> state)"

definition MaybeInitAnalysis :: "InitAnalysis \<Rightarrow> (nat, Expression, Expression, nat, GenKillDomain, unit) Analysis" where
  "MaybeInitAnalysis c =
     (default_analysis (GenKillDomain_make (domainSize c)) (\<lambda>d. reachable d = UNREACHABLE) (GenKillJoin MAYBE)
        LambdaExpression IsApplyToLambdaExpr IsApplyToLambdaExpr)
     \<lparr>InitializeFuncEntryState := (\<lambda>state. state\<lparr>reachable := REACHABLE\<rparr>),
      PropagateExpressionEffect := MaybeInit_PropagateExpressionEffect c\<rparr>"

subsection \<open>Maybe not initialised\<close>

text \<open>This domain also keeps, of each fact, the lines of the stores that may have initialised
  it.\<close>

record MaybeUninitDomain = GenKillDomain +
  maybeInitedPos :: "nat set list"

definition MaybeUninitDomain_make :: "nat \<Rightarrow> MaybeUninitDomain" where
  "MaybeUninitDomain_make n = GenKillDomain.extend (GenKillDomain_make n) \<lparr>maybeInitedPos = replicate n {}\<rparr>"

definition MaybeUninit_Join :: "MaybeUninitDomain \<Rightarrow> MaybeUninitDomain \<Rightarrow> bool \<times> MaybeUninitDomain" where
  "MaybeUninit_Join d rhs =
     GenKillJoin MAYBE
       (d\<lparr>maybeInitedPos := map (\<lambda>i. maybeInitedPos d ! i \<union> maybeInitedPos rhs ! i) [0 ..< length (maybeInitedPos d)]\<rparr>) rhs"

definition IsMaybeUninitedAllocation :: "InitAnalysis \<Rightarrow> MaybeUninitDomain \<Rightarrow> IRValue \<Rightarrow> bool option" where
  "IsMaybeUninitedAllocation c d location = map_option (IsTrueAt d) (allocateIdxMap c location)"

definition IsMaybeUninitedMember :: "InitAnalysis \<Rightarrow> MaybeUninitDomain \<Rightarrow> nat \<Rightarrow> InitedMemberKind option" where
  "IsMaybeUninitedMember c d memberIndex =
     (let info = ctorInitInfo c
      in if memberIndex < superMemberNums info then
           Some (if IsTrueAt d (length (states d) - 1) then SUPER_MEMBER else NA_MEMBER)
         else if memberIndex < superMemberNums info + localMemberNums info then
           Some (if IsTrueAt d (memberIndex - superMemberNums info) then LOCAL_MEMBER else NA_MEMBER)
         else None)"

definition GetMaybeUninitedLocalMembers :: "InitAnalysis \<Rightarrow> MaybeUninitDomain \<Rightarrow> nat list" where
  "GetMaybeUninitedLocalMembers c d =
     map (\<lambda>i. i + superMemberNums (ctorInitInfo c)) (filter (IsTrueAt d) [0 ..< localMemberNums (ctorInitInfo c)])"

text \<open>The positions of a location (\<open>None\<close>: the code's \<^verbatim>\<open>at\<close> throws) and of a member.\<close>

definition GetMaybeInitedPos :: "InitAnalysis \<Rightarrow> MaybeUninitDomain \<Rightarrow> IRValue \<Rightarrow> nat set option" where
  "GetMaybeInitedPos c d location = map_option ((!) (maybeInitedPos d)) (allocateIdxMap c location)"

definition GetMaybeInitedPos_member :: "InitAnalysis \<Rightarrow> MaybeUninitDomain \<Rightarrow> nat \<Rightarrow> nat set" where
  "GetMaybeInitedPos_member c d memberIndex = maybeInitedPos d ! (memberIndex - superMemberNums (ctorInitInfo c))"

definition kill_at :: "nat \<Rightarrow> nat \<Rightarrow> MaybeUninitDomain \<Rightarrow> MaybeUninitDomain" where
  "kill_at i line state =
     (let state = Kill i state in state\<lparr>maybeInitedPos := (maybeInitedPos state)[i := insert line (maybeInitedPos state ! i)]\<rparr>)"

definition MaybeUninit_HandleStoreElemRef ::
  "InitAnalysis \<Rightarrow> IRFunction \<Rightarrow> IRValue \<Rightarrow> nat list \<Rightarrow> nat \<Rightarrow> MaybeUninitDomain \<Rightarrow> MaybeUninitDomain" where
  "MaybeUninit_HandleStoreElemRef c parentFunc location paths line state =
     (case IsInitialisingMemberVar parentFunc location paths of
        None \<Rightarrow> state
      | Some memberIdx \<Rightarrow>
          if memberIdx < superMemberNums (ctorInitInfo c) then state
          else kill_at (memberIdx - superMemberNums (ctorInitInfo c)) line state)"

definition MaybeUninit_SetAllLocalMemberInited :: "InitAnalysis \<Rightarrow> MaybeUninitDomain \<Rightarrow> MaybeUninitDomain" where
  "MaybeUninit_SetAllLocalMemberInited c state = foldl (\<lambda>d i. Kill i d) state [0 ..< localMemberNums (ctorInitInfo c)]"

definition MaybeUninit_HandleApply ::
  "InitAnalysis \<Rightarrow> Callee \<Rightarrow> IRValue list \<Rightarrow> bool \<Rightarrow> MaybeUninitDomain \<Rightarrow> MaybeUninitDomain" where
  "MaybeUninit_HandleApply c callee args isSuperCall state =
     (if \<not> IsConstructor (func c) then state
      else if isSuperCall then Kill (domainSize c - 1) state
      else if delegates c callee args then
        let state = MaybeUninit_SetAllLocalMemberInited c state
        in if superClassDef (ctorInitInfo c) \<noteq> None then Kill (domainSize c - 1) state else state
      else state)"

definition MaybeUninit_PropagateExpressionEffect ::
  "InitAnalysis \<Rightarrow> MaybeUninitDomain \<Rightarrow> Expression \<Rightarrow> MaybeUninitDomain" where
  "MaybeUninit_PropagateExpressionEffect c state e =
     (case e of
        Allocate result _ _ \<Rightarrow> (case allocateIdxMap c result of Some i \<Rightarrow> Gen i state | None \<Rightarrow> state)
      | Store _ location line \<Rightarrow> (case allocateIdxMap c location of Some i \<Rightarrow> kill_at i line state | None \<Rightarrow> state)
      | StoreElementRef parentFunc location paths line \<Rightarrow>
          MaybeUninit_HandleStoreElemRef c parentFunc location paths line state
      | Apply _ callee args isSuperCall \<Rightarrow> MaybeUninit_HandleApply c callee args isSuperCall state
      | _ \<Rightarrow> state)"

definition MaybeUninitAnalysis :: "InitAnalysis \<Rightarrow> (nat, Expression, Expression, nat, MaybeUninitDomain, unit) Analysis" where
  "MaybeUninitAnalysis c =
     (default_analysis (MaybeUninitDomain_make (domainSize c)) (\<lambda>d. reachable d = UNREACHABLE) MaybeUninit_Join
        LambdaExpression IsApplyToLambdaExpr IsApplyToLambdaExpr)
     \<lparr>InitializeFuncEntryState := (\<lambda>state. GenAll (state\<lparr>reachable := REACHABLE\<rparr>)),
      PropagateExpressionEffect := MaybeUninit_PropagateExpressionEffect c\<rparr>"

section \<open>The facts\<close>

text \<open>What an expression does to a fact: initialise it (\<open>Some True\<close>), create it (\<open>Some False\<close>).\<close>

definition inits :: "InitAnalysis \<Rightarrow> Expression \<Rightarrow> nat \<Rightarrow> bool" where
  "inits c e i = (case e of
     Store _ location _ \<Rightarrow> allocateIdxMap c location = Some i
   | StoreElementRef parentFunc location paths _ \<Rightarrow>
       IsInitialisingMemberVar parentFunc location paths = Some (i + superMemberNums (ctorInitInfo c))
   | Apply _ callee args isSuperCall \<Rightarrow>
       IsConstructor (func c) \<and>
       (if isSuperCall then i = domainSize c - 1
        else delegates c callee args \<and> (i < localMemberNums (ctorInitInfo c) \<or> superClassDef (ctorInitInfo c) \<noteq> None \<and> i = domainSize c - 1))
   | _ \<Rightarrow> False)"

definition creates :: "InitAnalysis \<Rightarrow> Expression \<Rightarrow> nat \<Rightarrow> bool" where
  "creates c e i = (case e of Allocate result _ _ \<Rightarrow> allocateIdxMap c result = Some i | _ \<Rightarrow> False)"

definition init_change :: "InitAnalysis \<Rightarrow> Expression \<Rightarrow> nat \<Rightarrow> bool option" where
  "init_change c e i = (if inits c e i then Some True else if creates c e i then Some False else None)"

definition uninit_change :: "InitAnalysis \<Rightarrow> Expression \<Rightarrow> nat \<Rightarrow> bool option" where
  "uninit_change c e i = map_option Not (init_change c e i)"

lemma states_Gen: "states (Gen k d) = map (\<lambda>i. i = k \<or> states d ! i) [0 ..< length (states d)]"
  by (cases "k < length (states d)"; rule nth_equalityI) (auto simp: Gen_def nth_list_update list_update_beyond)

lemma states_Kill: "states (Kill k d) = map (\<lambda>i. i \<noteq> k \<and> states d ! i) [0 ..< length (states d)]"
  by (cases "k < length (states d)"; rule nth_equalityI) (auto simp: Kill_def nth_list_update list_update_beyond)

lemma states_kill_at: "states (kill_at k line d) = map (\<lambda>i. i \<noteq> k \<and> states d ! i) [0 ..< length (states d)]"
  by (simp add: kill_at_def Let_def states_Kill)

lemma reachable_changes [simp]:
  "reachable (Gen k d) = reachable d" "reachable (Kill k d) = reachable d" "reachable (kill_at k line u) = reachable u"
  by (simp_all add: Gen_def Kill_def kill_at_def Let_def)

lemma Gen_all:
  "states (foldl (\<lambda>d i. Gen i d) d [0 ..< m]) = map (\<lambda>i. i < m \<or> states d ! i) [0 ..< length (states d)]"
  "reachable (foldl (\<lambda>d i. Gen i d) d [0 ..< m]) = reachable d"
  by (induction m) (auto simp: states_Gen map_nth)

lemma Kill_all:
  "states (foldl (\<lambda>d i. Kill i d) d [0 ..< m]) = map (\<lambda>i. \<not> i < m \<and> states d ! i) [0 ..< length (states d)]"
  "reachable (foldl (\<lambda>d i. Kill i d) d [0 ..< m]) = reachable d"
  by (induction m) (auto simp: states_Kill map_nth)

lemma map_upt_id: "length xs = n \<Longrightarrow> map ((!) xs) [0 ..< n] = xs"
  by (metis map_nth)

text \<open>The handlers change the facts as \<open>init_change\<close> says, fact by fact.\<close>

lemma init_change_Apply:
  "init_change c (Apply k callee args isSuperCall) i =
     (if \<not> IsConstructor (func c) then None
      else if isSuperCall then (if i = domainSize c - 1 then Some True else None)
      else if delegates c callee args \<and> (i < localMemberNums (ctorInitInfo c) \<or> superClassDef (ctorInitInfo c) \<noteq> None \<and> i = domainSize c - 1)
      then Some True else None)"
  by (auto simp: init_change_def inits_def creates_def)

lemma init_change_StoreElementRef:
  "init_change c (StoreElementRef f location paths line) i =
     (if IsInitialisingMemberVar f location paths = Some (i + superMemberNums (ctorInitInfo c)) then Some True else None)"
  by (simp add: init_change_def inits_def creates_def)

lemma init_change_simps:
  "init_change c (Store k location line) i = (if allocateIdxMap c location = Some i then Some True else None)"
  "init_change c (Allocate result debug ty) i = (if allocateIdxMap c result = Some i then Some False else None)"
  by (simp_all add: init_change_def inits_def creates_def)

lemma init_change_other:
  "init_change c (AllocateWithException result debug ty) i = None" "init_change c (GetElementRef result location) i = None"
  "init_change c (Load k location) i = None" "init_change c (ApplyWithException k callee args) i = None"
  "init_change c (Intrinsic inout args) i = None" "init_change c (IntrinsicWithException k inout args) i = None"
  "init_change c (Lambda l bs) i = None" "init_change c OtherExpression i = None" "init_change c (OtherTerminator k) i = None"
  by (simp_all add: init_change_def inits_def creates_def)

text \<open>The handlers change the facts as \<open>init_change\<close> says, fact by fact.\<close>

definition changed_as :: "(nat \<Rightarrow> bool option) \<Rightarrow> 'a GenKillDomain_scheme \<Rightarrow> 'a GenKillDomain_scheme \<Rightarrow> bool" where
  "changed_as ch d d' \<longleftrightarrow>
     states d' = map (\<lambda>i. case ch i of Some v \<Rightarrow> v | None \<Rightarrow> states d ! i) [0 ..< length (states d)] \<and>
     reachable d' = reachable d"

lemma changed_as_refl: "(\<And>i. ch i = None) \<Longrightarrow> changed_as ch d d"
  by (simp add: changed_as_def map_upt_id)

lemma changed_as_Gen: "(\<And>i. ch i = (if i = k then Some True else None)) \<Longrightarrow> changed_as ch d (Gen k d)"
  by (auto simp: changed_as_def states_Gen)

lemma changed_as_Kill: "(\<And>i. ch i = (if i = k then Some False else None)) \<Longrightarrow> changed_as ch d (Kill k d)"
  by (auto simp: changed_as_def states_Kill)

lemma changed_as_kill_at: "(\<And>i. ch i = (if i = k then Some False else None)) \<Longrightarrow> changed_as ch d (kill_at k line d)"
  by (auto simp: changed_as_def states_kill_at)

lemma MaybeInit_HandleApply_changes:
  "changed_as (init_change c (Apply k callee args isSuperCall)) d (MaybeInit_HandleApply c callee args isSuperCall d)"
proof (cases "IsConstructor (func c) \<and> \<not> isSuperCall \<and> delegates c callee args")
  case True
  then show ?thesis
    by (auto simp: changed_as_def init_change_Apply MaybeInit_HandleApply_def MaybeInit_SetAllLocalMemberInited_def Let_def
        states_Gen Gen_all)
next
  case False
  then show ?thesis
    by (auto simp: MaybeInit_HandleApply_def init_change_Apply intro!: changed_as_refl changed_as_Gen)
qed

lemma MaybeUninit_HandleApply_changes:
  "changed_as (uninit_change c (Apply k callee args isSuperCall)) d (MaybeUninit_HandleApply c callee args isSuperCall d)"
proof (cases "IsConstructor (func c) \<and> \<not> isSuperCall \<and> delegates c callee args")
  case True
  then show ?thesis
    by (auto simp: changed_as_def uninit_change_def init_change_Apply MaybeUninit_HandleApply_def
        MaybeUninit_SetAllLocalMemberInited_def Let_def states_Kill Kill_all)
next
  case False
  then show ?thesis
    by (auto simp: MaybeUninit_HandleApply_def uninit_change_def init_change_Apply intro!: changed_as_refl changed_as_Kill)
qed

lemma MaybeInit_changes: "changed_as (init_change c e) d (MaybeInit_PropagateExpressionEffect c d e)"
proof (cases e)
  case (StoreElementRef f location paths line)
  then show ?thesis
    by (auto simp: MaybeInit_PropagateExpressionEffect_def MaybeInit_HandleStoreElemRef_def init_change_StoreElementRef
        split: option.splits intro!: changed_as_refl changed_as_Gen)
qed (auto simp: MaybeInit_PropagateExpressionEffect_def init_change_simps init_change_other MaybeInit_HandleApply_changes
    split: option.splits intro!: changed_as_refl changed_as_Gen changed_as_Kill)

lemma MaybeUninit_changes: "changed_as (uninit_change c e) d (MaybeUninit_PropagateExpressionEffect c d e)"
proof (cases e)
  case (StoreElementRef f location paths line)
  then show ?thesis
    by (auto simp: MaybeUninit_PropagateExpressionEffect_def MaybeUninit_HandleStoreElemRef_def uninit_change_def
        init_change_StoreElementRef split: option.splits intro!: changed_as_refl changed_as_kill_at)
qed (auto simp: MaybeUninit_PropagateExpressionEffect_def uninit_change_def init_change_simps init_change_other
    MaybeUninit_HandleApply_changes
    split: option.splits intro!: changed_as_refl changed_as_Gen changed_as_kill_at)

section \<open>What the analyses compute\<close>

lemma LambdaExpression_change: "LambdaExpression e = Some l \<Longrightarrow> init_change c e i = None"
  by (cases e) (auto simp: LambdaExpression_def init_change_def inits_def creates_def)

interpretation maybe_init: gen_kill_analysis "MaybeInitAnalysis c" g "domainSize c" states "init_change c" "\<lambda>_. False"
  for c :: InitAnalysis and g :: IRBody
proof
  fix a d :: GenKillDomain assume l: "length (states a) = domainSize c" "length (states d) = domainSize c"
  show "states (snd (Join (MaybeInitAnalysis c) a d)) = map2 (\<or>) (states a) (states d) \<and>
      (fst (Join (MaybeInitAnalysis c) a d) \<longleftrightarrow> states (snd (Join (MaybeInitAnalysis c) a d)) \<noteq> states a) \<and>
      \<not> IsBottom (MaybeInitAnalysis c) (snd (Join (MaybeInitAnalysis c) a d))"
    using GenKillJoin_maybe [of d a] l by (simp add: MaybeInitAnalysis_def default_analysis_def)
qed (use MaybeInit_changes in \<open>auto simp: changed_as_def MaybeInitAnalysis_def default_analysis_def GenKillDomain_make_def
    LambdaExpression_change intro!: nth_equalityI\<close>)

lemma MaybeUninit_Join_states:
  assumes "length (states rhs) = length (states d)"
  shows "states (snd (MaybeUninit_Join d rhs)) = map2 (\<or>) (states d) (states rhs)"
    and "fst (MaybeUninit_Join d rhs) \<longleftrightarrow> states (snd (MaybeUninit_Join d rhs)) \<noteq> states d"
    and "reachable (snd (MaybeUninit_Join d rhs)) = REACHABLE"
  using GenKillJoin_maybe [of rhs "d\<lparr>maybeInitedPos := p\<rparr>" for p] assms by (simp_all add: MaybeUninit_Join_def)

interpretation maybe_uninit: gen_kill_analysis "MaybeUninitAnalysis c" g "domainSize c" states "uninit_change c" "\<lambda>_. True"
  for c :: InitAnalysis and g :: IRBody
proof
  fix a d :: MaybeUninitDomain assume l: "length (states a) = domainSize c" "length (states d) = domainSize c"
  show "states (snd (Join (MaybeUninitAnalysis c) a d)) = map2 (\<or>) (states a) (states d) \<and>
      (fst (Join (MaybeUninitAnalysis c) a d) \<longleftrightarrow> states (snd (Join (MaybeUninitAnalysis c) a d)) \<noteq> states a) \<and>
      \<not> IsBottom (MaybeUninitAnalysis c) (snd (Join (MaybeUninitAnalysis c) a d))"
    using MaybeUninit_Join_states [of d a] l by (simp add: MaybeUninitAnalysis_def default_analysis_def)
qed (use MaybeUninit_changes in \<open>auto simp: changed_as_def MaybeUninitAnalysis_def default_analysis_def MaybeUninitDomain_make_def
    GenKillDomain_make_def GenKillDomain.defs GenAll_def LambdaExpression_change uninit_change_def intro!: nth_equalityI\<close>)

text \<open>The last thing a path does to a fact.\<close>

definition initialised :: "InitAnalysis \<Rightarrow> nat \<Rightarrow> Expression list \<Rightarrow> bool" where
  "initialised c i tr \<longleftrightarrow> (\<exists>pre e post. tr = pre @ e # post \<and> inits c e i \<and> (\<forall>e' \<in> set post. \<not> creates c e' i))"

lemma initialised_snoc:
  "initialised c i (tr @ [e]) \<longleftrightarrow> inits c e i \<or> (\<not> creates c e i \<and> initialised c i tr)"
proof
  assume "initialised c i (tr @ [e])"
  then obtain pre e' post where p: "tr @ [e] = pre @ e' # post" "inits c e' i" "\<forall>x \<in> set post. \<not> creates c x i"
    by (auto simp: initialised_def)
  show "inits c e i \<or> (\<not> creates c e i \<and> initialised c i tr)"
  proof (cases post rule: rev_cases)
    case Nil
    then show ?thesis using p by simp
  next
    case (snoc post' x)
    then have "tr = pre @ e' # post'" "x = e" using p(1) by simp_all
    then show ?thesis using p snoc by (auto simp: initialised_def)
  qed
next
  assume "inits c e i \<or> (\<not> creates c e i \<and> initialised c i tr)"
  then show "initialised c i (tr @ [e])"
  proof
    assume "inits c e i"
    then show ?thesis unfolding initialised_def by (intro exI [of _ tr] exI [of _ e] exI [of _ "[]"]) simp
  next
    assume "\<not> creates c e i \<and> initialised c i tr"
    then obtain pre e' post where "tr = pre @ e' # post" "inits c e' i" "\<forall>x \<in> set post. \<not> creates c x i" "\<not> creates c e i"
      by (auto simp: initialised_def)
    then show ?thesis unfolding initialised_def by (intro exI [of _ pre] exI [of _ e'] exI [of _ "post @ [e]"]) simp
  qed
qed

lemma maybe_init_after: "maybe_init.holds_after c i tr False \<longleftrightarrow> initialised c i tr"
proof (induction tr rule: rev_induct)
  case Nil
  then show ?case by (simp add: maybe_init.holds_after_def initialised_def)
next
  case (snoc e tr)
  have "init_change c e i = (if inits c e i then Some True else if creates c e i then Some False else None)"
    by (simp add: init_change_def)
  then show ?case using snoc by (simp add: maybe_init.holds_after_snoc maybe_init.change_to_def initialised_snoc)
qed

lemma maybe_uninit_after: "maybe_uninit.holds_after c i tr True \<longleftrightarrow> \<not> initialised c i tr"
proof (induction tr rule: rev_induct)
  case Nil
  then show ?case by (simp add: maybe_uninit.holds_after_def initialised_def)
next
  case (snoc e tr)
  have "uninit_change c e i = (if inits c e i then Some False else if creates c e i then Some True else None)"
    by (simp add: uninit_change_def init_change_def)
  then show ?case using snoc by (simp add: maybe_uninit.holds_after_snoc maybe_uninit.change_to_def initialised_snoc)
qed

lemma IsTrueAt_maybe_init:
  assumes "IterateSingleUnitToFixpoint (MaybeInitAnalysis c) g blocks entry (function_start (MaybeInitAnalysis c) entry q) = Some s'"
    and "i < domainSize c"
  shows "IsTrueAt (entryStates s' b) i \<longleftrightarrow> (\<exists>tr. path_to g entry b tr \<and> initialised c i tr)"
  using maybe_init.fixpoint_exact(2) [OF assms] by (simp add: IsTrueAt_def maybe_init_after)

lemma IsTrueAt_maybe_uninit:
  assumes "IterateSingleUnitToFixpoint (MaybeUninitAnalysis c) g blocks entry (function_start (MaybeUninitAnalysis c) entry q) = Some s'"
    and "i < domainSize c"
  shows "IsTrueAt (entryStates s' b) i \<longleftrightarrow> (\<exists>tr. path_to g entry b tr \<and> \<not> initialised c i tr)"
  using maybe_uninit.fixpoint_exact(2) [OF assms] by (simp add: IsTrueAt_def maybe_uninit_after)

section \<open>Locations and members\<close>

text \<open>On the path \<open>tr\<close> the location is stored to and not allocated again afterwards; the member is
  stored to, or a constructor of the same class is called for \<open>this\<close>.\<close>

definition stored_to :: "IRValue \<Rightarrow> Expression list \<Rightarrow> bool" where
  "stored_to location tr \<longleftrightarrow>
     (\<exists>pre k line post. tr = pre @ Store k location line # post \<and> (\<forall>debug ty. Allocate location debug ty \<notin> set post))"

definition initialises_member :: "InitAnalysis \<Rightarrow> nat \<Rightarrow> Expression \<Rightarrow> bool" where
  "initialises_member c m e = (case e of
     StoreElementRef f location paths _ \<Rightarrow> IsInitialisingMemberVar f location paths = Some m
   | Apply _ callee args isSuperCall \<Rightarrow> IsConstructor (func c) \<and> \<not> isSuperCall \<and> delegates c callee args
   | _ \<Rightarrow> False)"

text \<open>What the analyses rely on: a member that is initialised is one of the class (the code
  asserts it), a super call occurs only in a class with a super class.\<close>

definition init_expression_ok :: "ConstructorInitInfo \<Rightarrow> Expression \<Rightarrow> bool" where
  "init_expression_ok info e = (case e of
     StoreElementRef f location paths _ \<Rightarrow>
       (case IsInitialisingMemberVar f location paths of
          Some m \<Rightarrow> m < superMemberNums info + localMemberNums info | None \<Rightarrow> True)
   | Apply _ callee args isSuperCall \<Rightarrow> isSuperCall \<longrightarrow> superClassDef info \<noteq> None
   | _ \<Rightarrow> True)"

definition init_body_ok :: "ConstructorInitInfo \<Rightarrow> IRBody \<Rightarrow> bool" where
  "init_body_ok info g \<longleftrightarrow>
     (\<forall>b es tm. GetExpressions g b = Some (es, tm) \<longrightarrow> (\<forall>e \<in> set es. init_expression_ok info e))"

lemma path_expressions_ok:
  assumes "init_body_ok info g" "path_to g entry b tr" "e \<in> set tr"
  shows "init_expression_ok info e"
proof -
  have "\<forall>e \<in> set tr. init_expression_ok info e"
    using assms(2) unfolding path_to_def
    by induction (use assms(1) in \<open>fastforce simp: path_run_def init_body_ok_def\<close>)+
  then show ?thesis using assms(3) by blast
qed

lemma InitAnalysis_make_facts:
  assumes "c = InitAnalysis_make f blocks info"
  shows "func c = f" "ctorInitInfo c = info" "inj_on (allocateIdxMap c) (dom (allocateIdxMap c))"
    and "allocateIdxMap c location = Some i \<Longrightarrow> localMemberNums info \<le> i \<and>
      localMemberNums info + i + (if superClassDef info \<noteq> None then 1 else 0) < domainSize c"
    and "2 * localMemberNums info + (if superClassDef info \<noteq> None then 1 else 0) \<le> domainSize c"
proof -
  obtain idx m where s: "SaveAllocateMap blocks (localMemberNums info, Map.empty) = (idx, m)" by (metis surj_pair)
  have n: "localMemberNums info \<le> idx" "ran m \<subseteq> {localMemberNums info ..< idx}" "inj_on m (dom m)"
    using SaveAllocateMap_numbering [of "localMemberNums info" blocks] s by (simp_all add: numbering_def)
  have c: "func c = f" "ctorInitInfo c = info" "allocateIdxMap c = m"
    "domainSize c = localMemberNums info + idx + (if superClassDef info \<noteq> None then 1 else 0)"
    using assms s by (simp_all add: InitAnalysis_make_def Let_def)
  show "func c = f" "ctorInitInfo c = info" "inj_on (allocateIdxMap c) (dom (allocateIdxMap c))" using c n by simp_all
  show "localMemberNums info \<le> i \<and> localMemberNums info + i + (if superClassDef info \<noteq> None then 1 else 0) < domainSize c"
    if "allocateIdxMap c location = Some i"
    using that c n(2) by (auto simp: ran_def)
  show "2 * localMemberNums info + (if superClassDef info \<noteq> None then 1 else 0) \<le> domainSize c" using c n(1) by simp
qed

text \<open>The fact of a tracked location, and the fact of a member.\<close>

lemma initialised_location:
  assumes c: "c = InitAnalysis_make f blocks info" and i: "allocateIdxMap c location = Some i"
    and ok: "\<And>e. e \<in> set tr \<Longrightarrow> init_expression_ok info e"
  shows "initialised c i tr \<longleftrightarrow> stored_to location tr"
proof -
  note f = InitAnalysis_make_facts [OF c]
  have same: "allocateIdxMap c l = Some i \<longleftrightarrow> l = location" for l
    using i f(3) by (auto simp: inj_on_def dom_def)
  have bounds: "localMemberNums info \<le> i" "localMemberNums info + i + (if superClassDef info \<noteq> None then 1 else 0) < domainSize c"
    using f(4) [OF i] by simp_all
  have e: "inits c e i \<longleftrightarrow> (\<exists>k line. e = Store k location line)" if "e \<in> set tr" for e
  proof (cases e)
    case (StoreElementRef g loc paths line)
    then show ?thesis using ok [OF that] bounds f(2) by (auto simp: inits_def init_expression_ok_def)
  next
    case (Apply k callee args isSuperCall)
    then show ?thesis using ok [OF that] bounds f(2) by (auto simp: inits_def init_expression_ok_def split: if_splits)
  qed (auto simp: inits_def same)
  have cr: "creates c e i \<longleftrightarrow> (\<exists>debug ty. e = Allocate location debug ty)" for e
    by (cases e) (auto simp: creates_def same)
  show ?thesis
  proof
    assume "initialised c i tr"
    then obtain pre e post where p: "tr = pre @ e # post" "inits c e i" "\<forall>e' \<in> set post. \<not> creates c e' i"
      by (auto simp: initialised_def)
    then show "stored_to location tr" using e [of e] cr unfolding stored_to_def by (auto, blast)
  next
    assume "stored_to location tr"
    then obtain pre k line post where p: "tr = pre @ Store k location line # post" "\<forall>debug ty. Allocate location debug ty \<notin> set post"
      by (auto simp: stored_to_def)
    then show "initialised c i tr" using e cr unfolding initialised_def by (intro exI) (auto simp: p(1))
  qed
qed

lemma initialised_member:
  assumes c: "c = InitAnalysis_make f blocks info" and i: "i < localMemberNums info"
  shows "initialised c i tr \<longleftrightarrow> (\<exists>e \<in> set tr. initialises_member c (i + superMemberNums info) e)"
proof -
  note f = InitAnalysis_make_facts [OF c]
  have alloc: "allocateIdxMap c l \<noteq> Some i" for l using f(4) [of l i] i by auto
  have e: "inits c e i \<longleftrightarrow> initialises_member c (i + superMemberNums info) e" for e
    using alloc f(2,5) i by (cases e) (auto simp: inits_def initialises_member_def)
  have cr: "\<not> creates c e i" for e using alloc by (cases e) (auto simp: creates_def)
  have "initialised c i tr \<longleftrightarrow> (\<exists>pre e post. tr = pre @ e # post \<and> initialises_member c (i + superMemberNums info) e)"
    using cr by (simp add: initialised_def e)
  also have "\<dots> \<longleftrightarrow> (\<exists>e \<in> set tr. initialises_member c (i + superMemberNums info) e)" by (metis in_set_conv_decomp)
  finally show ?thesis .
qed

text \<open>The results at the entry of a block, by locations and members.\<close>

lemma MaybeInit_at_location:
  assumes c: "c = InitAnalysis_make f blks info" and ok: "init_body_ok info g" and l: "allocateIdxMap c location \<noteq> None"
    and res: "IterateSingleUnitToFixpoint (MaybeInitAnalysis c) g blocks entry (function_start (MaybeInitAnalysis c) entry q) = Some s'"
  shows "IsMaybeInitedAllocation c (entryStates s' b) location = Some (\<exists>tr. path_to g entry b tr \<and> stored_to location tr)"
proof -
  obtain i where i: "allocateIdxMap c location = Some i" using l by auto
  have n: "i < domainSize c" using InitAnalysis_make_facts(4) [OF c i] by simp
  have "initialised c i tr \<longleftrightarrow> stored_to location tr" if "path_to g entry b tr" for tr
    by (rule initialised_location [OF c i path_expressions_ok [OF ok that]])
  then show ?thesis using IsTrueAt_maybe_init [OF res n] i unfolding IsMaybeInitedAllocation_def by auto
qed

lemma MaybeUninit_at_location:
  assumes c: "c = InitAnalysis_make f blks info" and ok: "init_body_ok info g" and l: "allocateIdxMap c location \<noteq> None"
    and res: "IterateSingleUnitToFixpoint (MaybeUninitAnalysis c) g blocks entry (function_start (MaybeUninitAnalysis c) entry q) = Some s'"
  shows "IsMaybeUninitedAllocation c (entryStates s' b) location = Some (\<exists>tr. path_to g entry b tr \<and> \<not> stored_to location tr)"
proof -
  obtain i where i: "allocateIdxMap c location = Some i" using l by auto
  have n: "i < domainSize c" using InitAnalysis_make_facts(4) [OF c i] by simp
  have "initialised c i tr \<longleftrightarrow> stored_to location tr" if "path_to g entry b tr" for tr
    by (rule initialised_location [OF c i path_expressions_ok [OF ok that]])
  then show ?thesis using IsTrueAt_maybe_uninit [OF res n] i unfolding IsMaybeUninitedAllocation_def by auto
qed

lemma MaybeUninit_members:
  assumes c: "c = InitAnalysis_make f blks info"
    and res: "IterateSingleUnitToFixpoint (MaybeUninitAnalysis c) g blocks entry (function_start (MaybeUninitAnalysis c) entry q) = Some s'"
  shows "set (GetMaybeUninitedLocalMembers c (entryStates s' b)) =
    {m. superMemberNums info \<le> m \<and> m < superMemberNums info + localMemberNums info \<and>
      (\<exists>tr. path_to g entry b tr \<and> (\<forall>e \<in> set tr. \<not> initialises_member c m e))}"
proof -
  note f = InitAnalysis_make_facts [OF c]
  have i: "IsTrueAt (entryStates s' b) i \<longleftrightarrow>
      (\<exists>tr. path_to g entry b tr \<and> (\<forall>e \<in> set tr. \<not> initialises_member c (i + superMemberNums info) e))"
    if "i < localMemberNums info" for i
    using IsTrueAt_maybe_uninit [OF res, of i b] that f(5) initialised_member [OF c that] by auto
  have "set (GetMaybeUninitedLocalMembers c (entryStates s' b)) =
      {i + superMemberNums info | i. i < localMemberNums info \<and> IsTrueAt (entryStates s' b) i}"
    by (auto simp: GetMaybeUninitedLocalMembers_def f(2))
  also have "\<dots> = {m. superMemberNums info \<le> m \<and> m < superMemberNums info + localMemberNums info \<and>
      (\<exists>tr. path_to g entry b tr \<and> (\<forall>e \<in> set tr. \<not> initialises_member c m e))}" (is "?l = ?r")
  proof
    show "?l \<subseteq> ?r" using i by auto
    show "?r \<subseteq> ?l"
    proof
      fix m assume m: "m \<in> ?r"
      then have "m = (m - superMemberNums info) + superMemberNums info" "m - superMemberNums info < localMemberNums info" by auto
      then show "m \<in> ?l" using m i [of "m - superMemberNums info"] by fastforce
    qed
  qed
  finally show ?thesis .
qed

end
