(* ===== verification/Flat_Analyses.thy ===== *)
theory Flat_Analyses
  imports Gen_Kill
begin

text \<open>
  The flat domain of \<^verbatim>\<open>FlatSet.h\<close> and vectors of it (\<^verbatim>\<open>VectorJoin\<close> of \<^verbatim>\<open>Analysis/Utils.h\<close>), and
  the contract of an analysis over such vectors: what an element says of a path stays true along
  it. The reaching-definition and getOrThrow analyses interpret it.
\<close>

section \<open>The flat domain\<close>

datatype 'a FlatSet = FlatBottom | FlatElem 'a | FlatTop

fun FlatSet_Join :: "'a FlatSet \<Rightarrow> 'a FlatSet \<Rightarrow> bool \<times> 'a FlatSet" where
  "FlatSet_Join FlatTop rhs = (False, FlatTop)"
| "FlatSet_Join d FlatBottom = (False, d)"
| "FlatSet_Join d FlatTop = (True, FlatTop)"
| "FlatSet_Join FlatBottom rhs = (True, rhs)"
| "FlatSet_Join (FlatElem x) (FlatElem y) = (if x = y then (False, FlatElem x) else (True, FlatTop))"

definition SetToBound :: "bool \<Rightarrow> 'a FlatSet" where
  "SetToBound isTop = (if isTop then FlatTop else FlatBottom)"

definition GetElem :: "'a FlatSet \<Rightarrow> 'a option" where
  "GetElem d = (case d of FlatElem x \<Rightarrow> Some x | _ \<Rightarrow> None)"

definition VectorJoinAt :: "'a FlatSet list \<Rightarrow> bool \<times> 'a FlatSet list \<Rightarrow> nat \<Rightarrow> bool \<times> 'a FlatSet list" where
  "VectorJoinAt rhs acc i =
     (let (changed, lhs) = acc; (c, x) = FlatSet_Join (lhs ! i) (rhs ! i) in (changed \<or> c, lhs[i := x]))"

definition VectorJoin :: "'a FlatSet list \<Rightarrow> 'a FlatSet list \<Rightarrow> bool \<times> 'a FlatSet list" where
  "VectorJoin lhs rhs = foldl (VectorJoinAt rhs) (False, lhs) [0 ..< length lhs]"

lemma FlatSet_Join_changed: "fst (FlatSet_Join a b) \<longleftrightarrow> snd (FlatSet_Join a b) \<noteq> a"
  by (cases "(a, b)" rule: FlatSet_Join.cases) auto

lemma VectorJoin_prefix:
  "m \<le> length lhs \<Longrightarrow>
   length (snd (foldl (VectorJoinAt rhs) (False, lhs) [0 ..< m])) = length lhs \<and>
   (\<forall>i < length lhs. snd (foldl (VectorJoinAt rhs) (False, lhs) [0 ..< m]) ! i =
      (if i < m then snd (FlatSet_Join (lhs ! i) (rhs ! i)) else lhs ! i)) \<and>
   (fst (foldl (VectorJoinAt rhs) (False, lhs) [0 ..< m]) \<longleftrightarrow> (\<exists>i < m. fst (FlatSet_Join (lhs ! i) (rhs ! i))))"
proof (induction m)
  case (Suc m)
  obtain r xs where one: "foldl (VectorJoinAt rhs) (False, lhs) [0 ..< m] = (r, xs)" by (metis surj_pair)
  have ih: "length xs = length lhs" "\<And>i. i < length lhs \<Longrightarrow> xs ! i = (if i < m then snd (FlatSet_Join (lhs ! i) (rhs ! i)) else lhs ! i)"
    "r \<longleftrightarrow> (\<exists>i < m. fst (FlatSet_Join (lhs ! i) (rhs ! i)))"
    using Suc one by simp_all
  have x: "xs ! m = lhs ! m" using ih(2) Suc.prems by simp
  have two: "foldl (VectorJoinAt rhs) (False, lhs) [0 ..< Suc m] =
      (r \<or> fst (FlatSet_Join (lhs ! m) (rhs ! m)), xs[m := snd (FlatSet_Join (lhs ! m) (rhs ! m))])"
    using one x by (simp add: VectorJoinAt_def split: prod.splits)
  show ?case
    unfolding two fst_conv snd_conv
  proof (intro conjI allI impI)
    show "length (xs[m := snd (FlatSet_Join (lhs ! m) (rhs ! m))]) = length lhs" using ih(1) by simp
    show "xs[m := snd (FlatSet_Join (lhs ! m) (rhs ! m))] ! i =
        (if i < Suc m then snd (FlatSet_Join (lhs ! i) (rhs ! i)) else lhs ! i)" if "i < length lhs" for i
      using ih(1) ih(2) [OF that] Suc.prems by (cases "i = m") auto
    show "(r \<or> fst (FlatSet_Join (lhs ! m) (rhs ! m))) \<longleftrightarrow> (\<exists>i < Suc m. fst (FlatSet_Join (lhs ! i) (rhs ! i)))"
      using ih(3) less_Suc_eq by blast
  qed
qed simp

lemma VectorJoin_facts:
  shows "length (snd (VectorJoin lhs rhs)) = length lhs"
    and "\<And>i. i < length lhs \<Longrightarrow> snd (VectorJoin lhs rhs) ! i = snd (FlatSet_Join (lhs ! i) (rhs ! i))"
    and "fst (VectorJoin lhs rhs) \<longleftrightarrow> snd (VectorJoin lhs rhs) \<noteq> lhs"
proof -
  let ?xs = "snd (VectorJoin lhs rhs)"
  note p = VectorJoin_prefix [OF order_refl, where lhs = lhs and rhs = rhs, folded VectorJoin_def]
  show l: "length ?xs = length lhs" using p by (rule conjunct1)
  have at: "\<forall>i < length lhs. ?xs ! i = (if i < length lhs then snd (FlatSet_Join (lhs ! i) (rhs ! i)) else lhs ! i)"
    using p [THEN conjunct2] by (rule conjunct1)
  then show at: "?xs ! i = snd (FlatSet_Join (lhs ! i) (rhs ! i))" if "i < length lhs" for i using that by simp
  have f: "fst (VectorJoin lhs rhs) \<longleftrightarrow> (\<exists>i < length lhs. fst (FlatSet_Join (lhs ! i) (rhs ! i)))"
    using p [THEN conjunct2] by (rule conjunct2)
  have e: "?xs = lhs \<longleftrightarrow> (\<forall>i < length lhs. ?xs ! i = lhs ! i)" unfolding list_eq_iff_nth_eq l by blast
  show "fst (VectorJoin lhs rhs) \<longleftrightarrow> ?xs \<noteq> lhs"
    unfolding f e using at FlatSet_Join_changed [of "lhs ! i" "rhs ! i" for i] by fastforce
qed

section \<open>The contract\<close>

text \<open>The events of a path are its expressions with the terminators; the last expression of a
  block, and no other, is a terminator.\<close>

definition event_run :: "IRBody \<Rightarrow> nat \<Rightarrow> Expression list \<Rightarrow> Expression list \<Rightarrow> nat \<Rightarrow> bool" where
  "event_run g b x y s \<longleftrightarrow>
     (\<exists>es tm. GetExpressions g b = Some (es, tm) \<and> IsTerminator tm \<and> (\<forall>e \<in> set es. \<not> IsTerminator e) \<and>
        s \<in> set (GetSuccessors g b) \<and> y = x @ es @ [tm])"

definition events_to :: "IRBody \<Rightarrow> nat \<Rightarrow> nat \<Rightarrow> Expression list \<Rightarrow> bool" where
  "events_to g entry = runs_to (event_run g) {[]} entry"

text \<open>\<open>means i a tr\<close>: what the element \<open>a\<close> of the \<open>i\<close>-th place says of the path \<open>tr\<close>.\<close>

definition says :: "(nat \<Rightarrow> 'a \<Rightarrow> Expression list \<Rightarrow> bool) \<Rightarrow> nat \<Rightarrow> 'a FlatSet \<Rightarrow> Expression list \<Rightarrow> bool" where
  "says means i d tr = (case d of FlatTop \<Rightarrow> True | FlatBottom \<Rightarrow> False | FlatElem a \<Rightarrow> means i a tr)"

lemma says_Join: "says means i a tr \<or> says means i b tr \<Longrightarrow> says means i (snd (FlatSet_Join a b)) tr"
  by (cases "(a, b)" rule: FlatSet_Join.cases) (auto simp: says_def)

definition flat_height :: "'a FlatSet \<Rightarrow> nat" where
  "flat_height d = (case d of FlatBottom \<Rightarrow> 2 | FlatElem _ \<Rightarrow> 1 | FlatTop \<Rightarrow> 0)"

lemma flat_height_Join:
  "flat_height (snd (FlatSet_Join a b)) + (if fst (FlatSet_Join a b) then 1 else 0) \<le> flat_height a"
  by (cases "(a, b)" rule: FlatSet_Join.cases) (auto simp: flat_height_def)

locale flat_analysis =
  fixes A :: "(nat, Expression, Expression, nat, 'd, 'q) Analysis" and g :: IRBody and n :: nat
    and fits :: "'d \<Rightarrow> bool" and vec :: "'d \<Rightarrow> nat FlatSet list" and means :: "nat \<Rightarrow> nat \<Rightarrow> Expression list \<Rightarrow> bool"
  assumes fits_length: "fits d \<Longrightarrow> length (vec d) = n"
    and bottom: "IsBottom A (Bottom A)" "fits (Bottom A)"
    and start: "\<not> IsBottom A (InitializeFuncEntryState A (Bottom A))" "fits (InitializeFuncEntryState A (Bottom A))"
      "vec (InitializeFuncEntryState A (Bottom A)) = replicate n FlatTop"
    and join: "fits a \<Longrightarrow> fits d \<Longrightarrow>
      fits (snd (Join A a d)) \<and>
      (\<forall>i < n. vec (snd (Join A a d)) ! i = snd (FlatSet_Join (vec a ! i) (vec d ! i))) \<and>
      (fst (Join A a d) \<longleftrightarrow> vec (snd (Join A a d)) \<noteq> vec a) \<and> \<not> IsBottom A (snd (Join A a d))"
    and expression: "fits d \<Longrightarrow>
      fits (NarrowExpression A d e) \<and> IsBottom A (NarrowExpression A d e) = IsBottom A d"
    and expression_says: "\<not> IsTerminator e \<Longrightarrow> fits d \<Longrightarrow> (\<forall>i < n. says means i (vec d ! i) tr) \<Longrightarrow> i < n \<Longrightarrow>
      says means i (vec (NarrowExpression A d e) ! i) (tr @ [e])"
    and terminator: "fits d \<Longrightarrow>
      fits (fst (ProcessTerminator A d e)) \<and> IsBottom A (fst (ProcessTerminator A d e)) = IsBottom A d \<and>
      snd (ProcessTerminator A d e) = None"
    and terminator_says: "IsTerminator e \<Longrightarrow> fits d \<Longrightarrow> (\<forall>i < n. says means i (vec d ! i) tr) \<Longrightarrow> i < n \<Longrightarrow>
      says means i (vec (fst (ProcessTerminator A d e)) ! i) (tr @ [e])"
    and lambda: "fits d \<Longrightarrow> fits (PreHandleLambdaExpression A d l)"
      "fits d \<Longrightarrow> fits (HandleVarStateCapturedByLambda A d l)"
    and defaults: "CheckInQueueTimes A = (\<lambda>q _ d. (False, d, q))"
      "GetTerminatorStateForSuccessor A = (\<lambda>d _ _. d)" "NarrowState A = (\<lambda>d _. (False, d))"
      "GetNarrowingIterationLimit A = 0" "InitializeLambdaEntryState A = (\<lambda>_ d. d)"
begin

definition paths_of :: "'d \<Rightarrow> Expression list set" where
  "paths_of d = (if IsBottom A d then {} else {tr. \<forall>i < n. says means i (vec d ! i) tr})"

lemma expressions_keep:
  "fits d \<Longrightarrow>
   fits (foldl (NarrowExpression A) d es) \<and> IsBottom A (foldl (NarrowExpression A) d es) = IsBottom A d"
  by (induction es arbitrary: d) (simp_all add: expression)

lemma expressions_say:
  "\<forall>e \<in> set es. \<not> IsTerminator e \<Longrightarrow> fits d \<Longrightarrow> (\<forall>i < n. says means i (vec d ! i) tr) \<Longrightarrow>
   \<forall>i < n. says means i (vec (foldl (NarrowExpression A) d es) ! i) (tr @ es)"
proof (induction es arbitrary: d tr)
  case (Cons e es)
  have "fits (NarrowExpression A d e)" using expression [OF Cons.prems(2)] by blast
  moreover have "\<forall>i < n. says means i (vec (NarrowExpression A d e) ! i) (tr @ [e])"
    using expression_says [OF _ Cons.prems(2,3), of e] Cons.prems(1) by simp
  ultimately show ?case using Cons.prems(1) Cons.IH [of "NarrowExpression A d e" "tr @ [e]"] by simp
qed simp

lemma block_keeps:
  assumes "fits d"
  shows "fits (fst (block_out A body d))" "IsBottom A (fst (block_out A body d)) = IsBottom A d"
    "snd (block_out A body d) = None"
  using terminator [of "foldl (NarrowExpression A) d (fst body)" "snd body"] expressions_keep [OF assms, of "fst body"]
  by (simp_all add: block_out_def)

lemma block_says:
  assumes "IsTerminator tm" "\<forall>e \<in> set es. \<not> IsTerminator e" "fits d" "\<forall>i < n. says means i (vec d ! i) tr"
  shows "\<forall>i < n. says means i (vec (fst (block_out A (es, tm) d)) ! i) (tr @ es @ [tm])"
proof -
  have l: "fits (foldl (NarrowExpression A) d es)" using expressions_keep [OF assms(3)] by blast
  show ?thesis using terminator_says [OF assms(1) l expressions_say [OF assms(2-4)]] by (simp add: block_out_def)
qed

sublocale cover: ordered_analysis A g paths_of fits "event_run g"
proof
  fix a d :: 'd assume f: "fits a" "fits d"
  have j: "fits (snd (Join A a d))" "\<And>i. i < n \<Longrightarrow> vec (snd (Join A a d)) ! i = snd (FlatSet_Join (vec a ! i) (vec d ! i))"
      "fst (Join A a d) \<longleftrightarrow> vec (snd (Join A a d)) \<noteq> vec a" "\<not> IsBottom A (snd (Join A a d))"
    using join [of a d] f by simp_all
  show "\<not> IsBottom A (snd (Join A a d))" if "\<not> IsBottom A a" using j by simp
  show "\<not> IsBottom A (snd (Join A a d))" if "\<not> IsBottom A d" using j by simp
  show "fits (snd (Join A a d))" using j by simp
  show "paths_of a \<subseteq> paths_of (snd (Join A a d))" "paths_of d \<subseteq> paths_of (snd (Join A a d))"
    using j(1,4) by (auto simp: paths_of_def j(2) intro: says_Join)
  show "paths_of (snd (Join A a d)) \<subseteq> paths_of a" if "\<not> IsBottom A a" "\<not> fst (Join A a d)"
    using j that by (auto simp: paths_of_def)
next
  fix b x y s d body assume r: "event_run g b x y s" and f: "fits d" and x: "x \<in> paths_of d" and g: "GetExpressions g b = Some body"
  obtain es tm where e: "body = (es, tm)" "y = x @ es @ [tm]" "s \<in> set (GetSuccessors g b)"
      "IsTerminator tm" "\<forall>e \<in> set es. \<not> IsTerminator e"
    using r g by (auto simp: event_run_def)
  have l: "fits d" using f by simp
  have "\<not> IsBottom A d" "\<forall>i < n. says means i (vec d ! i) x" using x by (auto simp: paths_of_def split: if_splits)
  then show "y \<in> paths_of (fst (block_out A body d)) \<and> s \<in> set (chosen g b (snd (block_out A body d)))"
    using block_keeps [OF l] block_says [OF e(4,5) l] e(1-3) by (simp add: paths_of_def chosen_def)
next
  fix d b body assume "fits d" "\<not> IsBottom A d" "GetExpressions g b = Some body"
  then show "fits (fst (block_out A body d))" "\<not> IsBottom A (fst (block_out A body d)) \<and> snd (block_out A body d) = None"
    using block_keeps [of d] by simp_all
next
  fix d b body c assume "fits d" "snd (block_out A body d) = Some c"
  then show "c \<in> set (GetSuccessors g b)" using block_keeps(3) [of d body] by simp
qed (use bottom in \<open>auto simp: defaults paths_of_def event_run_def\<close>)

sublocale fin: finite_analysis A g fits "\<lambda>d. \<Sum>i < n. flat_height (vec d ! i)"
proof
  fix a d :: 'd assume f: "fits a" "fits d"
  have j: "fits (snd (Join A a d))" "\<And>i. i < n \<Longrightarrow> vec (snd (Join A a d)) ! i = snd (FlatSet_Join (vec a ! i) (vec d ! i))"
      "fst (Join A a d) \<longleftrightarrow> vec (snd (Join A a d)) \<noteq> vec a"
    using join [of a d] f by simp_all
  show "fits (snd (Join A a d))" using j by simp
  have le: "flat_height (vec (snd (Join A a d)) ! i) \<le> flat_height (vec a ! i)" if "i < n" for i
    using flat_height_Join [of "vec a ! i" "vec d ! i"] j(2) that by simp
  show "(\<Sum>i < n. flat_height (vec (snd (Join A a d)) ! i)) + (if fst (Join A a d) then 1 else 0) \<le> (\<Sum>i < n. flat_height (vec a ! i))"
  proof (cases "fst (Join A a d)")
    case True
    then obtain i where i: "i < n" "vec (snd (Join A a d)) ! i \<noteq> vec a ! i"
      using j(3) fits_length [OF j(1)] fits_length [OF f(1)] nth_equalityI [of "vec (snd (Join A a d))" "vec a"] by auto
    then have "flat_height (vec (snd (Join A a d)) ! i) < flat_height (vec a ! i)"
      using flat_height_Join [of "vec a ! i" "vec d ! i"] FlatSet_Join_changed [of "vec a ! i" "vec d ! i"] j(2) by simp
    then have "(\<Sum>i < n. flat_height (vec (snd (Join A a d)) ! i)) < (\<Sum>i < n. flat_height (vec a ! i))"
      by (intro sum_strict_mono_ex1) (use le i in auto)
    then show ?thesis using True by simp
  next
    case False
    have "(\<Sum>i < n. flat_height (vec (snd (Join A a d)) ! i)) \<le> (\<Sum>i < n. flat_height (vec a ! i))"
      by (rule sum_mono) (use le in simp)
    then show ?thesis using False by simp
  qed
next
  fix d e assume "fits d"
  then show "fits (NarrowExpression A d e)" "fits (fst (ProcessTerminator A d e))"
    using expression [of d e] terminator [of d e] by simp_all
next
  fix d b body c assume "fits d" "snd (block_out A body d) = Some c"
  then show "c \<in> set (GetSuccessors g b)" using block_keeps(3) [of d body] by simp
qed (use bottom start lambda in \<open>simp_all add: defaults\<close>)

sublocale size: justified_analysis A g "\<lambda>_. fits"
proof
  fix b d body d1 t q limit d2 q' c
  assume d: "fits d" "\<not> IsBottom A d" and out: "block_out A body d = (d1, t)"
    and q: "CheckInQueueTimes A q b d1 = (limit, d2, q')"
  have "d2 = fst (block_out A body d)" using out q by (simp add: defaults)
  then show "fits (GetTerminatorStateForSuccessor A d2 (snd body) c) \<and> \<not> IsBottom A (GetTerminatorStateForSuccessor A d2 (snd body) c)"
    using block_keeps [OF d(1), of body] d(2) by (simp add: defaults)
qed (use bottom join in \<open>simp_all add: defaults\<close>)

lemma start_fits: "fits (entryStates (function_start A entry q) c)"
  using bottom start by (simp add: function_start_def)

lemma start_total:
  assumes "finite_graph (GetSuccessors g) entry"
  shows "\<exists>s'. IterateSingleUnitToFixpoint A g blocks entry (function_start A entry q) = Some s'"
  by (rule fin.fixpoint_total [OF assms start_fits])

lemma fixpoint_fits:
  assumes res: "IterateSingleUnitToFixpoint A g blocks entry (function_start A entry q) = Some s'"
  shows "fits (entryStates s' b)"
  by (rule size.fixpoint_just [OF res]) (simp add: start_fits)

text \<open>What the entry state of a block says holds of every path to the block.\<close>

theorem fixpoint_says:
  assumes res: "IterateSingleUnitToFixpoint A g blocks entry (function_start A entry q) = Some s'"
    and tr: "events_to g entry b tr" and i: "i < n"
  shows "says means i (vec (entryStates s' b) ! i) tr"
proof -
  let ?s = "function_start A entry q"
  have e: "entryStates ?s c = (if c = entry then InitializeFuncEntryState A (Bottom A) else Bottom A)" for c
    by (simp add: function_start_def)
  have f: "fits (entryStates ?s c)" for c using bottom start by (simp add: e)
  have "tr \<in> paths_of (entryStates s' b)"
  proof (rule cover.fixpoint_covers [OF res f])
    have "[] \<in> paths_of (entryStates ?s entry)" using start by (simp add: e paths_of_def says_def)
    then show "runs_to (event_run g) (paths_of (entryStates ?s entry)) entry b tr"
      using tr unfolding events_to_def by (blast intro: runs_to_mono)
  qed
  then show ?thesis using i by (simp add: paths_of_def split: if_splits)
qed

end

end
