(* ===== verification/Reaching_Definitions.thy ===== *)
theory Reaching_Definitions
  imports Flat_Analyses
begin

text \<open>
  Which store, and which load, of a tracked allocation reaches a point
  (\<^verbatim>\<open>ReachingDefinitionAnalysis.h\<close>, \<^verbatim>\<open>ReachingDefinitionAnalysis.cpp\<close>), and which getOrThrow call
  has been made for a value (\<^verbatim>\<open>GetOrThrowResultAnalysis.cpp\<close>). The maps from values to indices are
  association lists, whose length is the size of the vectors.
\<close>

section \<open>Reaching definitions\<close>

record ReachingDefinitionDomain =
  rdKind :: ReachableKind
  reachingDefs :: "nat FlatSet list"
  reachingLoadDefs :: "nat FlatSet list"

record ReachingAnalysis =
  trackedMap :: "(IRValue \<times> nat) list"
  lambdaTable :: Lambdas
  lambdaCount :: nat

definition ReachingDefinitionDomain_make :: "ReachingAnalysis \<Rightarrow> ReachingDefinitionDomain" where
  "ReachingDefinitionDomain_make c =
     (let n = length (trackedMap c)
      in \<lparr>rdKind = UNREACHABLE, reachingDefs = replicate n (SetToBound False), reachingLoadDefs = replicate n (SetToBound False)\<rparr>)"

definition ReachingDefinitionDomain_Join ::
  "ReachingDefinitionDomain \<Rightarrow> ReachingDefinitionDomain \<Rightarrow> bool \<times> ReachingDefinitionDomain" where
  "ReachingDefinitionDomain_Join d rhs =
     (let (res1, defs) = VectorJoin (reachingDefs d) (reachingDefs rhs);
          (res2, loads) = VectorJoin (reachingLoadDefs d) (reachingLoadDefs rhs)
      in (res1 \<or> res2, \<lparr>rdKind = REACHABLE, reachingDefs = defs, reachingLoadDefs = loads\<rparr>))"

definition CheckReachingDef :: "ReachingAnalysis \<Rightarrow> ReachingDefinitionDomain \<Rightarrow> IRValue \<Rightarrow> nat option" where
  "CheckReachingDef c d location =
     (case map_of (trackedMap c) location of Some i \<Rightarrow> GetElem (reachingDefs d ! i) | None \<Rightarrow> None)"

definition CheckReachingLoadDef :: "ReachingAnalysis \<Rightarrow> ReachingDefinitionDomain \<Rightarrow> IRValue \<Rightarrow> nat option" where
  "CheckReachingLoadDef c d location =
     (case map_of (trackedMap c) location of Some i \<Rightarrow> GetElem (reachingLoadDefs d ! i) | None \<Rightarrow> None)"

subsection \<open>The tracked allocations\<close>

definition canBeTracked :: "IRType \<Rightarrow> bool" where
  "canBeTracked allocatedTy \<longleftrightarrow>
     \<not> (typeKind allocatedTy = TYPE_CLASS \<or> typeKind allocatedTy = TYPE_VARRAY \<or>
        typeKind allocatedTy = TYPE_STRUCT \<and> IsCStruct allocatedTy \<or> typeKind allocatedTy = TYPE_GENERIC)"

definition emplace_alist :: "('k \<times> 'v) list \<Rightarrow> 'k \<Rightarrow> 'v \<Rightarrow> ('k \<times> 'v) list" where
  "emplace_alist m k v = (if map_of m k = None then m @ [(k, v)] else m)"

definition TrackExpression :: "nat \<times> (IRValue \<times> nat) list \<Rightarrow> Expression \<Rightarrow> nat \<times> (IRValue \<times> nat) list" where
  "TrackExpression acc e =
     (let (allocateIdx, m) = acc;
          allocated = (case e of Allocate result _ ty \<Rightarrow> Some (result, ty) | AllocateWithException result _ ty \<Rightarrow> Some (result, ty)
                       | _ \<Rightarrow> None)
      in case allocated of
           Some (result, ty) \<Rightarrow> if canBeTracked ty then (allocateIdx + 1, emplace_alist m result allocateIdx) else acc
         | None \<Rightarrow> acc)"

definition lambda_blocks :: "Expression \<Rightarrow> Expression list list" where
  "lambda_blocks e = (case e of Lambda _ blocks \<Rightarrow> blocks | _ \<Rightarrow> [])"

text \<open>The blocks of a lambda are put behind the blocks that are left.\<close>

lemma lambda_blocks_size: "size_list (size_list size) (concat (map lambda_blocks bb)) \<le> size_list size bb"
proof (induction bb)
  case (Cons e bb)
  have "size_list (size_list size) (lambda_blocks e) \<le> size e" by (cases e) (simp_all add: lambda_blocks_def)
  then show ?case using Cons by simp
qed simp

function TrackAllocations :: "Expression list list \<Rightarrow> nat \<times> (IRValue \<times> nat) list \<Rightarrow> nat \<times> (IRValue \<times> nat) list" where
  "TrackAllocations [] acc = acc"
| "TrackAllocations (bb # rest) acc =
     TrackAllocations (rest @ concat (map lambda_blocks bb)) (foldl TrackExpression acc bb)"
  by pat_completeness auto
termination
proof (relation "measure (\<lambda>(blocks, _). size_list (size_list size) blocks)")
  fix bb rest and acc :: "nat \<times> (IRValue \<times> nat) list"
  show "((rest @ concat (map lambda_blocks bb), foldl TrackExpression acc bb), bb # rest, acc)
      \<in> measure (\<lambda>(blocks, _). size_list (size_list size) blocks)"
    using lambda_blocks_size [of bb] by simp
qed simp

definition ReachingDefinitionAnalysis_make :: "Expression list list \<Rightarrow> Lambdas \<Rightarrow> nat \<Rightarrow> ReachingAnalysis" where
  "ReachingDefinitionAnalysis_make blocks lambdas count =
     \<lparr>trackedMap = snd (TrackAllocations blocks (0, [])), lambdaTable = lambdas, lambdaCount = count\<rparr>"

subsection \<open>The effects\<close>

text \<open>The store and the load of a location are forgotten.\<close>

definition clobber :: "ReachingAnalysis \<Rightarrow> IRValue \<Rightarrow> ReachingDefinitionDomain \<Rightarrow> ReachingDefinitionDomain" where
  "clobber c location d =
     (case map_of (trackedMap c) location of
        Some i \<Rightarrow> d\<lparr>reachingDefs := (reachingDefs d)[i := SetToBound True], reachingLoadDefs := (reachingLoadDefs d)[i := SetToBound True]\<rparr>
      | None \<Rightarrow> d)"

definition is_struct_ref :: "IRValue \<Rightarrow> bool" where
  "is_struct_ref v \<longleftrightarrow> baseKind (GetType v) = TYPE_STRUCT"

definition Reaching_HandleStore :: "ReachingAnalysis \<Rightarrow> ReachingDefinitionDomain \<Rightarrow> nat \<Rightarrow> IRValue \<Rightarrow> ReachingDefinitionDomain" where
  "Reaching_HandleStore c d store target =
     (case map_of (trackedMap c) target of
        Some i \<Rightarrow> d\<lparr>reachingDefs := (reachingDefs d)[i := FlatElem store], reachingLoadDefs := (reachingLoadDefs d)[i := SetToBound True]\<rparr>
      | None \<Rightarrow> d)"

definition Reaching_HandleGetElemRef :: "ReachingAnalysis \<Rightarrow> ReachingDefinitionDomain \<Rightarrow> IRValue \<Rightarrow> IRValue \<Rightarrow> ReachingDefinitionDomain" where
  "Reaching_HandleGetElemRef c d result target =
     (if is_struct_ref target \<and> \<not> IsReadonly result then clobber c target d else d)"

definition Reaching_HandleStoreElemRef :: "ReachingAnalysis \<Rightarrow> ReachingDefinitionDomain \<Rightarrow> IRValue \<Rightarrow> ReachingDefinitionDomain" where
  "Reaching_HandleStoreElemRef c d target = (if is_struct_ref target then clobber c target d else d)"

definition Reaching_HandleLoad :: "ReachingAnalysis \<Rightarrow> ReachingDefinitionDomain \<Rightarrow> nat \<Rightarrow> IRValue \<Rightarrow> ReachingDefinitionDomain" where
  "Reaching_HandleLoad c d load target =
     (case map_of (trackedMap c) target of
        Some i \<Rightarrow> if reachingLoadDefs d ! i = FlatTop then d\<lparr>reachingLoadDefs := (reachingLoadDefs d)[i := FlatElem load]\<rparr> else d
      | None \<Rightarrow> d)"

definition Reaching_HandleApply :: "ReachingAnalysis \<Rightarrow> ReachingDefinitionDomain \<Rightarrow> Callee \<Rightarrow> IRValue list \<Rightarrow> ReachingDefinitionDomain" where
  "Reaching_HandleApply c d callee args =
     (if IsMut callee then
        case args of [] \<Rightarrow> d | structArg # _ \<Rightarrow> if is_struct_ref structArg then clobber c structArg d else d
      else d)"

definition Reaching_HandleIntrinsic :: "ReachingAnalysis \<Rightarrow> ReachingDefinitionDomain \<Rightarrow> bool \<Rightarrow> IRValue list \<Rightarrow> ReachingDefinitionDomain" where
  "Reaching_HandleIntrinsic c d isInout operands =
     (if isInout then case operands of [] \<Rightarrow> d | operand # _ \<Rightarrow> clobber c operand d else d)"

text \<open>The captured variables are a set; the order they are forgotten in does not matter, here it
  is that of the map.\<close>

definition Reaching_HandleVarStateCapturedByLambda :: "ReachingAnalysis \<Rightarrow> ReachingDefinitionDomain \<Rightarrow> nat \<Rightarrow> ReachingDefinitionDomain" where
  "Reaching_HandleVarStateCapturedByLambda c d lambda =
     foldl (\<lambda>d var. if var \<in> GetLambdaCapturedVarsRecursively (lambdaCount c) (lambdaTable c) lambda then clobber c var d else d)
       d (map fst (trackedMap c))"

definition Reaching_PropagateExpressionEffect :: "ReachingAnalysis \<Rightarrow> ReachingDefinitionDomain \<Rightarrow> Expression \<Rightarrow> ReachingDefinitionDomain" where
  "Reaching_PropagateExpressionEffect c d e =
     (case e of
        Store store location _ \<Rightarrow> Reaching_HandleStore c d store location
      | GetElementRef result location \<Rightarrow> Reaching_HandleGetElemRef c d result location
      | StoreElementRef _ location _ _ \<Rightarrow> Reaching_HandleStoreElemRef c d location
      | Apply _ callee args _ \<Rightarrow> Reaching_HandleApply c d callee args
      | Intrinsic isInout operands \<Rightarrow> Reaching_HandleIntrinsic c d isInout operands
      | Load load location \<Rightarrow> Reaching_HandleLoad c d load location
      | _ \<Rightarrow> d)"

definition Reaching_PropagateTerminatorEffect ::
  "ReachingAnalysis \<Rightarrow> ReachingDefinitionDomain \<Rightarrow> Expression \<Rightarrow> ReachingDefinitionDomain \<times> nat option" where
  "Reaching_PropagateTerminatorEffect c d e =
     (case e of
        ApplyWithException _ callee args \<Rightarrow> Reaching_HandleApply c d callee args
      | IntrinsicWithException _ isInout operands \<Rightarrow> Reaching_HandleIntrinsic c d isInout operands
      | _ \<Rightarrow> d, None)"

definition Reaching_InitializeFuncEntryState :: "ReachingAnalysis \<Rightarrow> ReachingDefinitionDomain \<Rightarrow> ReachingDefinitionDomain" where
  "Reaching_InitializeFuncEntryState c d =
     (let n = length (trackedMap c)
      in d\<lparr>rdKind := REACHABLE,
           reachingDefs := foldl (\<lambda>xs i. xs[i := SetToBound True]) (reachingDefs d) [0 ..< n],
           reachingLoadDefs := foldl (\<lambda>xs i. xs[i := SetToBound True]) (reachingLoadDefs d) [0 ..< n]\<rparr>)"

definition ReachingDefinitionAnalysis ::
  "ReachingAnalysis \<Rightarrow> (nat, Expression, Expression, nat, ReachingDefinitionDomain, unit) Analysis" where
  "ReachingDefinitionAnalysis c =
     (default_analysis (ReachingDefinitionDomain_make c) (\<lambda>d. rdKind d = UNREACHABLE) ReachingDefinitionDomain_Join
        LambdaExpression IsApplyToLambdaExpr IsApplyToLambdaExpr)
     \<lparr>InitializeFuncEntryState := Reaching_InitializeFuncEntryState c,
      HandleVarStateCapturedByLambda := Reaching_HandleVarStateCapturedByLambda c,
      PropagateExpressionEffect := Reaching_PropagateExpressionEffect c,
      PropagateTerminatorEffect := Reaching_PropagateTerminatorEffect c\<rparr>"

subsection \<open>What an expression may write\<close>

definition writes_directly :: "Expression \<Rightarrow> IRValue \<Rightarrow> bool" where
  "writes_directly e location = (case e of
     Store _ target _ \<Rightarrow> target = location
   | GetElementRef result target \<Rightarrow> target = location \<and> is_struct_ref target \<and> \<not> IsReadonly result
   | StoreElementRef _ target _ _ \<Rightarrow> target = location \<and> is_struct_ref target
   | Apply _ callee args _ \<Rightarrow> IsMut callee \<and> args \<noteq> [] \<and> hd args = location \<and> is_struct_ref location
   | ApplyWithException _ callee args \<Rightarrow> IsMut callee \<and> args \<noteq> [] \<and> hd args = location \<and> is_struct_ref location
   | Intrinsic isInout operands \<Rightarrow> isInout \<and> operands \<noteq> [] \<and> hd operands = location
   | IntrinsicWithException _ isInout operands \<Rightarrow> isInout \<and> operands \<noteq> [] \<and> hd operands = location
   | _ \<Rightarrow> False)"

definition writes :: "ReachingAnalysis \<Rightarrow> Expression \<Rightarrow> IRValue \<Rightarrow> bool" where
  "writes c e location \<longleftrightarrow>
     writes_directly e location \<or>
     (\<exists>l. IsApplyToLambdaExpr e = Some l \<and>
        location \<in> GetLambdaCapturedVarsRecursively (lambdaCount c) (lambdaTable c) l)"

text \<open>The last write to the location on the path is the store; no write follows the load.\<close>

definition last_store :: "ReachingAnalysis \<Rightarrow> IRValue \<Rightarrow> nat \<Rightarrow> Expression list \<Rightarrow> bool" where
  "last_store c location store tr \<longleftrightarrow>
     (\<exists>pre line post. tr = pre @ Store store location line # post \<and> (\<forall>e \<in> set post. \<not> writes c e location))"

definition still_loaded :: "ReachingAnalysis \<Rightarrow> IRValue \<Rightarrow> nat \<Rightarrow> Expression list \<Rightarrow> bool" where
  "still_loaded c location load tr \<longleftrightarrow>
     (\<exists>pre post. tr = pre @ Load load location # post \<and> (\<forall>e \<in> set post. \<not> writes c e location))"

subsection \<open>The effects, place by place\<close>

definition place_ok :: "(IRValue \<Rightarrow> bool) \<Rightarrow> (IRValue \<Rightarrow> bool) \<Rightarrow> (nat \<Rightarrow> IRValue \<Rightarrow> bool) \<Rightarrow> nat FlatSet \<Rightarrow> nat FlatSet \<Rightarrow> bool" where
  "place_ok here W S x x' \<longleftrightarrow>
     x' = FlatTop \<or> x' = x \<and> (\<forall>l. here l \<longrightarrow> \<not> W l) \<or> (\<exists>a l. here l \<and> S a l \<and> x' = FlatElem a)"

definition effect_ok ::
  "ReachingAnalysis \<Rightarrow> (IRValue \<Rightarrow> bool) \<Rightarrow> (nat \<Rightarrow> IRValue \<Rightarrow> bool) \<Rightarrow> (nat \<Rightarrow> IRValue \<Rightarrow> bool) \<Rightarrow>
   ReachingDefinitionDomain \<Rightarrow> ReachingDefinitionDomain \<Rightarrow> bool" where
  "effect_ok c W S L d d' \<longleftrightarrow>
     rdKind d' = rdKind d \<and> length (reachingDefs d') = length (reachingDefs d) \<and>
     length (reachingLoadDefs d') = length (reachingLoadDefs d) \<and>
     (\<forall>i < length (trackedMap c).
        place_ok (\<lambda>l. map_of (trackedMap c) l = Some i) W S (reachingDefs d ! i) (reachingDefs d' ! i) \<and>
        place_ok (\<lambda>l. map_of (trackedMap c) l = Some i) W L (reachingLoadDefs d ! i) (reachingLoadDefs d' ! i))"

abbreviation none :: "nat \<Rightarrow> IRValue \<Rightarrow> bool" where "none \<equiv> \<lambda>_ _. False"

definition sized :: "ReachingAnalysis \<Rightarrow> ReachingDefinitionDomain \<Rightarrow> bool" where
  "sized c d \<longleftrightarrow> length (reachingDefs d) = length (trackedMap c) \<and> length (reachingLoadDefs d) = length (trackedMap c)"

lemma effect_ok_sized: "effect_ok c W S L d d' \<Longrightarrow> sized c d \<Longrightarrow> sized c d'"
  by (simp add: effect_ok_def sized_def)

lemma effect_ok_refl: "(\<And>l. map_of (trackedMap c) l \<noteq> None \<Longrightarrow> \<not> W l) \<Longrightarrow> effect_ok c W S L d d"
  by (fastforce simp: effect_ok_def place_ok_def)

lemma effect_ok_weaken:
  assumes "effect_ok c W S L d d'" "\<And>l. map_of (trackedMap c) l \<noteq> None \<Longrightarrow> W' l \<Longrightarrow> W l"
    and "\<And>a l. S a l \<Longrightarrow> S' a l" "\<And>a l. L a l \<Longrightarrow> L' a l"
  shows "effect_ok c W' S' L' d d'"
proof -
  have p: "place_ok (\<lambda>l. map_of (trackedMap c) l = Some i) W' S2 x x'"
    if "place_ok (\<lambda>l. map_of (trackedMap c) l = Some i) W S1 x x'" "\<And>a l. S1 a l \<Longrightarrow> S2 a l" for i S1 S2 x x'
    using that assms(2) unfolding place_ok_def by fastforce
  show ?thesis using assms(1,3,4) p unfolding effect_ok_def by blast
qed

lemma effect_ok_eq: "effect_ok c W S L d d' \<Longrightarrow> d' = d'' \<Longrightarrow> effect_ok c W S L d d''"
  by simp

lemma effect_ok_trans:
  assumes "effect_ok c W1 none none d d1" "effect_ok c W2 S L d1 d2"
  shows "effect_ok c (\<lambda>l. W1 l \<or> W2 l) S L d d2"
proof -
  have p: "place_ok here (\<lambda>l. W1 l \<or> W2 l) S2 x x2" if "place_ok here W1 none x x1" "place_ok here W2 S2 x1 x2" for here S2 x x1 x2
    using that unfolding place_ok_def by auto
  show ?thesis using assms unfolding effect_ok_def by (auto intro: p)
qed

lemma nth_update_if: "xs[j := x] ! i = (if j = i \<and> i < length xs then x else xs ! i)"
  by (cases "j < length xs") (auto simp: nth_list_update list_update_beyond)

lemma clobber_ok: "sized c d \<Longrightarrow> effect_ok c (\<lambda>l. l = location) none none d (clobber c location d)"
  by (auto simp: effect_ok_def place_ok_def clobber_def sized_def SetToBound_def nth_update_if split: option.splits)

lemma captured_ok:
  assumes "sized c d"
  shows "effect_ok c (\<lambda>l. l \<in> GetLambdaCapturedVarsRecursively (lambdaCount c) (lambdaTable c) lambda) none none d
    (Reaching_HandleVarStateCapturedByLambda c d lambda)"
proof -
  let ?V = "GetLambdaCapturedVarsRecursively (lambdaCount c) (lambdaTable c) lambda"
  let ?f = "\<lambda>d var. if var \<in> ?V then clobber c var d else d"
  have "effect_ok c (\<lambda>l. l \<in> ?V \<and> l \<in> set vs) none none d (foldl ?f d vs)" if "sized c d" for vs d
    using that
  proof (induction vs arbitrary: d)
    case Nil
    then show ?case by (simp add: effect_ok_refl)
  next
    case (Cons v vs)
    have one: "effect_ok c (\<lambda>l. l \<in> ?V \<and> l = v) none none d (?f d v)"
      using clobber_ok [OF Cons.prems, of v] by (auto intro: effect_ok_weaken effect_ok_refl)
    have two: "effect_ok c (\<lambda>l. l \<in> ?V \<and> l \<in> set vs) none none (?f d v) (foldl ?f (?f d v) vs)"
      by (rule Cons.IH [OF effect_ok_sized [OF one Cons.prems]])
    have "effect_ok c (\<lambda>l. l \<in> ?V \<and> l = v \<or> l \<in> ?V \<and> l \<in> set vs) none none d (foldl ?f (?f d v) vs)"
      by (rule effect_ok_trans [OF one two])
    then have "effect_ok c (\<lambda>l. l \<in> ?V \<and> l \<in> set (v # vs)) none none d (foldl ?f (?f d v) vs)"
      by (rule effect_ok_weaken) auto
    then show ?case unfolding foldl_Cons .
  qed
  from this [OF assms, of "map fst (trackedMap c)"] show ?thesis
    unfolding Reaching_HandleVarStateCapturedByLambda_def
    by (rule effect_ok_weaken) (auto simp: map_of_eq_None_iff)
qed

lemma apply_ok:
  assumes "sized c d"
  shows "effect_ok c (\<lambda>l. IsMut callee \<and> args \<noteq> [] \<and> hd args = l \<and> is_struct_ref l) none none d (Reaching_HandleApply c d callee args)"
proof (cases args)
  case Nil
  then show ?thesis by (auto simp: Reaching_HandleApply_def intro: effect_ok_refl)
next
  case (Cons a as)
  then show ?thesis using clobber_ok [OF assms, of a]
    by (auto simp: Reaching_HandleApply_def intro: effect_ok_weaken effect_ok_refl)
qed

lemma intrinsic_ok:
  assumes "sized c d"
  shows "effect_ok c (\<lambda>l. isInout \<and> operands \<noteq> [] \<and> hd operands = l) none none d (Reaching_HandleIntrinsic c d isInout operands)"
proof (cases operands)
  case Nil
  then show ?thesis by (auto simp: Reaching_HandleIntrinsic_def intro: effect_ok_refl)
next
  case (Cons a as)
  then show ?thesis using clobber_ok [OF assms, of a]
    by (auto simp: Reaching_HandleIntrinsic_def intro: effect_ok_weaken effect_ok_refl)
qed

lemma store_ok:
  assumes "sized c d"
  shows "effect_ok c (\<lambda>l. target = l) (\<lambda>a l. a = store \<and> l = target) none d (Reaching_HandleStore c d store target)"
  using assms
  by (auto simp: effect_ok_def place_ok_def Reaching_HandleStore_def sized_def SetToBound_def nth_update_if split: option.splits)

lemma load_ok:
  assumes "sized c d"
  shows "effect_ok c (\<lambda>_. False) none (\<lambda>a l. a = load \<and> l = target) d (Reaching_HandleLoad c d load target)"
  using assms
  by (auto simp: effect_ok_def place_ok_def Reaching_HandleLoad_def sized_def nth_update_if split: option.splits)

text \<open>An expression with the lambda it applies, and a terminator.\<close>

abbreviation stores :: "Expression \<Rightarrow> nat \<Rightarrow> IRValue \<Rightarrow> bool" where
  "stores e \<equiv> \<lambda>a l. \<exists>line. e = Store a l line"

abbreviation loads :: "Expression \<Rightarrow> nat \<Rightarrow> IRValue \<Rightarrow> bool" where
  "loads e \<equiv> \<lambda>a l. e = Load a l"

lemma writes_alt:
  "writes c e = (\<lambda>x. (\<exists>l. IsApplyToLambdaExpr e = Some l \<and>
      x \<in> GetLambdaCapturedVarsRecursively (lambdaCount c) (lambdaTable c) l) \<or> writes_directly e x)"
  by (auto simp: writes_def fun_eq_iff)

lemma applied_ok:
  assumes "sized c d"
  shows "effect_ok c (\<lambda>location. \<exists>l. IsApplyToLambdaExpr e = Some l \<and>
      location \<in> GetLambdaCapturedVarsRecursively (lambdaCount c) (lambdaTable c) l) none none d
    (case IsApplyToLambdaExpr e of Some l \<Rightarrow> Reaching_HandleVarStateCapturedByLambda c d l | None \<Rightarrow> d)"
  using captured_ok [OF assms] by (auto split: option.splits intro: effect_ok_refl)

lemma direct_ok:
  assumes d: "sized c d" and e: "\<not> IsTerminator e"
  shows "effect_ok c (writes_directly e) (stores e) (loads e) d (Reaching_PropagateExpressionEffect c d e)"
proof (cases e)
  case (Store store location line)
  show ?thesis using store_ok [OF d, of location store]
    by (rule effect_ok_weaken [THEN effect_ok_eq]) (auto simp: Store writes_directly_def Reaching_PropagateExpressionEffect_def)
next
  case (Load load location)
  show ?thesis using load_ok [OF d, of load location]
    by (rule effect_ok_weaken [THEN effect_ok_eq]) (auto simp: Load writes_directly_def Reaching_PropagateExpressionEffect_def)
next
  case (Apply k callee args sup)
  show ?thesis using apply_ok [OF d, of callee args]
    by (rule effect_ok_weaken [THEN effect_ok_eq]) (auto simp: Apply writes_directly_def Reaching_PropagateExpressionEffect_def)
next
  case (Intrinsic io args)
  show ?thesis using intrinsic_ok [OF d, of io args]
    by (rule effect_ok_weaken [THEN effect_ok_eq]) (auto simp: Intrinsic writes_directly_def Reaching_PropagateExpressionEffect_def)
next
  case (GetElementRef result location)
  show ?thesis
  proof (cases "is_struct_ref location \<and> \<not> IsReadonly result")
    case True
    show ?thesis using clobber_ok [OF d, of location]
      by (rule effect_ok_weaken [THEN effect_ok_eq])
        (use True in \<open>auto simp: GetElementRef writes_directly_def Reaching_PropagateExpressionEffect_def Reaching_HandleGetElemRef_def\<close>)
  next
    case False
    have "Reaching_PropagateExpressionEffect c d e = d"
      using False by (auto simp: GetElementRef Reaching_PropagateExpressionEffect_def Reaching_HandleGetElemRef_def)
    then show ?thesis using False by (auto simp: GetElementRef writes_directly_def intro: effect_ok_refl)
  qed
next
  case (StoreElementRef f location path line)
  show ?thesis
  proof (cases "is_struct_ref location")
    case True
    show ?thesis using clobber_ok [OF d, of location]
      by (rule effect_ok_weaken [THEN effect_ok_eq])
        (use True in \<open>auto simp: StoreElementRef writes_directly_def Reaching_PropagateExpressionEffect_def Reaching_HandleStoreElemRef_def\<close>)
  next
    case False
    have "Reaching_PropagateExpressionEffect c d e = d"
      using False by (auto simp: StoreElementRef Reaching_PropagateExpressionEffect_def Reaching_HandleStoreElemRef_def)
    then show ?thesis using False by (auto simp: StoreElementRef writes_directly_def intro: effect_ok_refl)
  qed
qed (use e in \<open>auto simp: Reaching_PropagateExpressionEffect_def writes_directly_def IsTerminator_def intro: effect_ok_refl\<close>)

lemma Reaching_NarrowExpression:
  "LambdaExpression e = None \<Longrightarrow>
   NarrowExpression (ReachingDefinitionAnalysis c) d e =
     Reaching_PropagateExpressionEffect c
       (case IsApplyToLambdaExpr e of Some l \<Rightarrow> Reaching_HandleVarStateCapturedByLambda c d l | None \<Rightarrow> d) e"
  by (cases "IsApplyToLambdaExpr e") (simp_all add: NarrowExpression_def ReachingDefinitionAnalysis_def default_analysis_def)

lemma Reaching_ProcessTerminator:
  "ProcessTerminator (ReachingDefinitionAnalysis c) d e =
     Reaching_PropagateTerminatorEffect c
       (case IsApplyToLambdaExpr e of Some l \<Rightarrow> Reaching_HandleVarStateCapturedByLambda c d l | None \<Rightarrow> d) e"
  by (cases "IsApplyToLambdaExpr e") (simp_all add: ProcessTerminator_def ReachingDefinitionAnalysis_def default_analysis_def)

lemma expression_ok:
  assumes d: "sized c d" and e: "\<not> IsTerminator e"
  shows "effect_ok c (writes c e) (stores e) (loads e) d (NarrowExpression (ReachingDefinitionAnalysis c) d e)"
proof (cases "LambdaExpression e")
  case None
  let ?d = "case IsApplyToLambdaExpr e of Some l \<Rightarrow> Reaching_HandleVarStateCapturedByLambda c d l | None \<Rightarrow> d"
  have "effect_ok c (\<lambda>x. (\<exists>l. IsApplyToLambdaExpr e = Some l \<and>
      x \<in> GetLambdaCapturedVarsRecursively (lambdaCount c) (lambdaTable c) l) \<or> writes_directly e x) (stores e) (loads e) d
      (Reaching_PropagateExpressionEffect c ?d e)"
    by (rule effect_ok_trans [OF applied_ok [OF d] direct_ok [OF effect_ok_sized [OF applied_ok [OF d] d] e]])
  then show ?thesis unfolding writes_alt Reaching_NarrowExpression [OF None] .
next
  case (Some l)
  then obtain k bs where "e = Lambda k bs" by (cases e) (simp_all add: LambdaExpression_def)
  then show ?thesis
    by (auto simp: NarrowExpression_def ReachingDefinitionAnalysis_def default_analysis_def LambdaExpression_def
        writes_def writes_directly_def IsApplyToLambdaExpr_def intro: effect_ok_refl)
qed

lemma terminator_ok:
  assumes d: "sized c d" and e: "IsTerminator e"
  shows "effect_ok c (writes c e) (stores e) (loads e) d (fst (ProcessTerminator (ReachingDefinitionAnalysis c) d e))"
proof -
  let ?d = "case IsApplyToLambdaExpr e of Some l \<Rightarrow> Reaching_HandleVarStateCapturedByLambda c d l | None \<Rightarrow> d"
  have dir: "effect_ok c (writes_directly e) (stores e) (loads e) d' (fst (Reaching_PropagateTerminatorEffect c d' e))" if d': "sized c d'" for d'
  proof (cases e)
    case (ApplyWithException k callee args)
    show ?thesis using apply_ok [OF d', of callee args]
      by (rule effect_ok_weaken [THEN effect_ok_eq]) (auto simp: ApplyWithException writes_directly_def Reaching_PropagateTerminatorEffect_def)
  next
    case (IntrinsicWithException k io args)
    show ?thesis using intrinsic_ok [OF d', of io args]
      by (rule effect_ok_weaken [THEN effect_ok_eq]) (auto simp: IntrinsicWithException writes_directly_def Reaching_PropagateTerminatorEffect_def)
  qed (use e in \<open>auto simp: Reaching_PropagateTerminatorEffect_def writes_directly_def IsTerminator_def intro: effect_ok_refl\<close>)
  have "effect_ok c (\<lambda>x. (\<exists>l. IsApplyToLambdaExpr e = Some l \<and>
      x \<in> GetLambdaCapturedVarsRecursively (lambdaCount c) (lambdaTable c) l) \<or> writes_directly e x) (stores e) (loads e) d
      (fst (Reaching_PropagateTerminatorEffect c ?d e))"
    by (rule effect_ok_trans [OF applied_ok [OF d] dir [OF effect_ok_sized [OF applied_ok [OF d] d]]])
  then show ?thesis unfolding writes_alt Reaching_ProcessTerminator .
qed

subsection \<open>What reaches a block\<close>

text \<open>The places of the two vectors, one after the other.\<close>

definition reaching_vec :: "ReachingDefinitionDomain \<Rightarrow> nat FlatSet list" where
  "reaching_vec d = reachingDefs d @ reachingLoadDefs d"

definition reaching_means :: "ReachingAnalysis \<Rightarrow> nat \<Rightarrow> nat \<Rightarrow> Expression list \<Rightarrow> bool" where
  "reaching_means c i a tr \<longleftrightarrow>
     (if i < length (trackedMap c)
      then \<exists>l. map_of (trackedMap c) l = Some i \<and> last_store c l a tr
      else \<exists>l. map_of (trackedMap c) l = Some (i - length (trackedMap c)) \<and> still_loaded c l a tr)"

lemma last_store_snoc:
  "last_store c l a tr \<Longrightarrow> \<not> writes c e l \<Longrightarrow> last_store c l a (tr @ [e])"
  "last_store c l a (tr @ [Store a l line])"
proof -
  assume old: "last_store c l a tr" "\<not> writes c e l"
  show "last_store c l a (tr @ [e])"
  proof -
    obtain pre line post where "tr = pre @ Store a l line # post" "\<forall>e \<in> set post. \<not> writes c e l"
      using old(1) by (auto simp: last_store_def)
    then show ?thesis unfolding last_store_def
      by (intro exI [of _ pre] exI [of _ line] exI [of _ "post @ [e]"]) (use old(2) in auto)
  qed
next
  show "last_store c l a (tr @ [Store a l line])"
    unfolding last_store_def by (intro exI [of _ tr] exI [of _ line] exI [of _ "[]"]) simp
qed

lemma still_loaded_snoc:
  "still_loaded c l a tr \<Longrightarrow> \<not> writes c e l \<Longrightarrow> still_loaded c l a (tr @ [e])"
  "still_loaded c l a (tr @ [Load a l])"
proof -
  assume old: "still_loaded c l a tr" "\<not> writes c e l"
  show "still_loaded c l a (tr @ [e])"
  proof -
    obtain pre post where "tr = pre @ Load a l # post" "\<forall>e \<in> set post. \<not> writes c e l"
      using old(1) by (auto simp: still_loaded_def)
    then show ?thesis unfolding still_loaded_def
      by (intro exI [of _ pre] exI [of _ "post @ [e]"]) (use old(2) in auto)
  qed
next
  show "still_loaded c l a (tr @ [Load a l])"
    unfolding still_loaded_def by (intro exI [of _ tr] exI [of _ "[]"]) simp
qed

lemma effect_says:
  assumes eff: "effect_ok c (writes c e) (stores e) (loads e) d d'" and d: "sized c d"
    and old: "\<forall>i < 2 * length (trackedMap c). says (reaching_means c) i (reaching_vec d ! i) tr"
    and i: "i < 2 * length (trackedMap c)"
  shows "says (reaching_means c) i (reaching_vec d' ! i) (tr @ [e])"
proof (cases "i < length (trackedMap c)")
  case True
  have d': "sized c d'" by (rule effect_ok_sized [OF eff d])
  have v: "reaching_vec d ! i = reachingDefs d ! i" "reaching_vec d' ! i = reachingDefs d' ! i"
    using True d d' by (simp_all add: reaching_vec_def sized_def nth_append)
  have p: "place_ok (\<lambda>l. map_of (trackedMap c) l = Some i) (writes c e) (stores e) (reachingDefs d ! i) (reachingDefs d' ! i)"
    using eff True by (simp add: effect_ok_def)
  have o: "says (reaching_means c) i (reachingDefs d ! i) tr" using old i v(1) by auto
  from p show ?thesis
    unfolding place_ok_def v(2)
  proof (elim disjE conjE exE)
    assume "reachingDefs d' ! i = FlatTop"
    then show "says (reaching_means c) i (reachingDefs d' ! i) (tr @ [e])" by (simp add: says_def)
  next
    assume "reachingDefs d' ! i = reachingDefs d ! i" "\<forall>l. map_of (trackedMap c) l = Some i \<longrightarrow> \<not> writes c e l"
    then show "says (reaching_means c) i (reachingDefs d' ! i) (tr @ [e])"
      using o True last_store_snoc(1) by (fastforce simp: says_def reaching_means_def split: FlatSet.splits)
  next
    fix a l line assume "map_of (trackedMap c) l = Some i" "e = Store a l line" "reachingDefs d' ! i = FlatElem a"
    then show "says (reaching_means c) i (reachingDefs d' ! i) (tr @ [e])"
      using True last_store_snoc(2) by (auto simp: says_def reaching_means_def)
  qed
next
  case False
  let ?n = "length (trackedMap c)"
  have d': "sized c d'" by (rule effect_ok_sized [OF eff d])
  have k: "i - ?n < ?n" using i False by simp
  have v: "reaching_vec d ! i = reachingLoadDefs d ! (i - ?n)" "reaching_vec d' ! i = reachingLoadDefs d' ! (i - ?n)"
    using False d d' by (simp_all add: reaching_vec_def sized_def nth_append)
  have p: "place_ok (\<lambda>l. map_of (trackedMap c) l = Some (i - ?n)) (writes c e) (loads e) (reachingLoadDefs d ! (i - ?n)) (reachingLoadDefs d' ! (i - ?n))"
    using eff k by (simp add: effect_ok_def)
  have o: "says (reaching_means c) i (reachingLoadDefs d ! (i - ?n)) tr" using old i v(1) by auto
  from p show ?thesis
    unfolding place_ok_def v(2)
  proof (elim disjE conjE exE)
    assume "reachingLoadDefs d' ! (i - ?n) = FlatTop"
    then show "says (reaching_means c) i (reachingLoadDefs d' ! (i - ?n)) (tr @ [e])" by (simp add: says_def)
  next
    assume "reachingLoadDefs d' ! (i - ?n) = reachingLoadDefs d ! (i - ?n)" "\<forall>l. map_of (trackedMap c) l = Some (i - ?n) \<longrightarrow> \<not> writes c e l"
    then show "says (reaching_means c) i (reachingLoadDefs d' ! (i - ?n)) (tr @ [e])"
      using o False still_loaded_snoc(1) by (fastforce simp: says_def reaching_means_def split: FlatSet.splits)
  next
    fix a l assume "map_of (trackedMap c) l = Some (i - ?n)" "e = Load a l" "reachingLoadDefs d' ! (i - ?n) = FlatElem a"
    then show "says (reaching_means c) i (reachingLoadDefs d' ! (i - ?n)) (tr @ [e])"
      using False still_loaded_snoc(2) by (auto simp: says_def reaching_means_def)
  qed
qed

lemma set_all_places: "foldl (\<lambda>xs i. xs[i := x]) xs [0 ..< m] = replicate (min m (length xs)) x @ drop m xs"
proof (induction m)
  case (Suc m)
  show ?case
  proof (cases "m < length xs")
    case True
    then have "drop m xs = xs ! m # drop (Suc m) xs" by (rule Cons_nth_drop_Suc [symmetric])
    then show ?thesis using Suc True by (simp add: list_update_append replicate_append_same [symmetric] del: replicate_append_same)
  next
    case False
    then show ?thesis using Suc by (simp add: list_update_beyond)
  qed
qed simp

lemma Reaching_Join: "Join (ReachingDefinitionAnalysis c) = ReachingDefinitionDomain_Join"
  by (simp add: ReachingDefinitionAnalysis_def default_analysis_def)

lemma Reaching_IsBottom: "IsBottom (ReachingDefinitionAnalysis c) d \<longleftrightarrow> rdKind d = UNREACHABLE"
  by (simp add: ReachingDefinitionAnalysis_def default_analysis_def)

lemma shape: "effect_ok c W S L d d' \<Longrightarrow> sized c d \<Longrightarrow> sized c d' \<and> rdKind d' = rdKind d"
  by (simp add: effect_ok_def sized_def)

lemma expression_shape:
  assumes d: "sized c d"
  shows "sized c (NarrowExpression (ReachingDefinitionAnalysis c) d e) \<and> rdKind (NarrowExpression (ReachingDefinitionAnalysis c) d e) = rdKind d"
proof (cases "IsTerminator e")
  case True
  have "LambdaExpression e = None \<and> (\<forall>d. Reaching_PropagateExpressionEffect c d e = d)"
    using True by (cases e) (simp_all add: IsTerminator_def LambdaExpression_def Reaching_PropagateExpressionEffect_def)
  then have l: "LambdaExpression e = None" and p: "\<And>d. Reaching_PropagateExpressionEffect c d e = d" by simp_all
  show ?thesis unfolding Reaching_NarrowExpression [OF l] p by (rule shape [OF applied_ok [OF d, of e] d])
next
  case False
  show ?thesis by (rule shape [OF expression_ok [OF d False] d])
qed

lemma terminator_shape:
  assumes d: "sized c d"
  shows "sized c (fst (ProcessTerminator (ReachingDefinitionAnalysis c) d e)) \<and>
    rdKind (fst (ProcessTerminator (ReachingDefinitionAnalysis c) d e)) = rdKind d \<and>
    snd (ProcessTerminator (ReachingDefinitionAnalysis c) d e) = None"
proof (cases "IsTerminator e")
  case True
  show ?thesis using shape [OF terminator_ok [OF d True] d]
    by (simp add: Reaching_ProcessTerminator Reaching_PropagateTerminatorEffect_def)
next
  case False
  have p: "fst (Reaching_PropagateTerminatorEffect c d e) = d" for d
    using False by (cases e) (simp_all add: IsTerminator_def Reaching_PropagateTerminatorEffect_def)
  show ?thesis unfolding Reaching_ProcessTerminator p
    using shape [OF applied_ok [OF d, of e] d] by (simp add: Reaching_PropagateTerminatorEffect_def)
qed

interpretation reaching: flat_analysis "ReachingDefinitionAnalysis c" g "2 * length (trackedMap c)" "sized c" reaching_vec
  "reaching_means c" for c :: ReachingAnalysis and g :: IRBody
proof
  fix a d assume s: "sized c a" "sized c d"
  let ?j = "ReachingDefinitionDomain_Join a d"
  let ?d = "VectorJoin (reachingDefs a) (reachingDefs d)" and ?l = "VectorJoin (reachingLoadDefs a) (reachingLoadDefs d)"
  have j: "fst ?j = (fst ?d \<or> fst ?l)" "rdKind (snd ?j) = REACHABLE" "reachingDefs (snd ?j) = snd ?d" "reachingLoadDefs (snd ?j) = snd ?l"
    by (simp_all add: ReachingDefinitionDomain_Join_def Let_def split: prod.splits)
  have sz: "sized c (snd ?j)" using s j(3,4) by (simp add: sized_def VectorJoin_facts(1))
  moreover have "reaching_vec (snd ?j) ! i = snd (FlatSet_Join (reaching_vec a ! i) (reaching_vec d ! i))" if "i < 2 * length (trackedMap c)" for i
    using that s j(3,4) by (auto simp: reaching_vec_def sized_def nth_append VectorJoin_facts(1,2))
  moreover have "fst ?j \<longleftrightarrow> reaching_vec (snd ?j) \<noteq> reaching_vec a"
    using j(1,3,4) VectorJoin_facts(3) [of "reachingDefs a" "reachingDefs d"] VectorJoin_facts(3) [of "reachingLoadDefs a" "reachingLoadDefs d"]
    by (simp add: reaching_vec_def VectorJoin_facts(1))
  ultimately have "sized c (snd ?j) \<and>
      (\<forall>i < 2 * length (trackedMap c). reaching_vec (snd ?j) ! i = snd (FlatSet_Join (reaching_vec a ! i) (reaching_vec d ! i))) \<and>
      fst ?j = (reaching_vec (snd ?j) \<noteq> reaching_vec a) \<and> \<not> rdKind (snd ?j) = UNREACHABLE"
    using j(2) by simp
  then show "sized c (snd (Join (ReachingDefinitionAnalysis c) a d)) \<and>
      (\<forall>i < 2 * length (trackedMap c). reaching_vec (snd (Join (ReachingDefinitionAnalysis c) a d)) ! i =
         snd (FlatSet_Join (reaching_vec a ! i) (reaching_vec d ! i))) \<and>
      fst (Join (ReachingDefinitionAnalysis c) a d) = (reaching_vec (snd (Join (ReachingDefinitionAnalysis c) a d)) \<noteq> reaching_vec a) \<and>
      \<not> IsBottom (ReachingDefinitionAnalysis c) (snd (Join (ReachingDefinitionAnalysis c) a d))"
    unfolding Reaching_Join Reaching_IsBottom .
next
  fix d e assume d: "sized c d"
  show "sized c (NarrowExpression (ReachingDefinitionAnalysis c) d e) \<and>
    IsBottom (ReachingDefinitionAnalysis c) (NarrowExpression (ReachingDefinitionAnalysis c) d e) = IsBottom (ReachingDefinitionAnalysis c) d"
    by (simp add: Reaching_IsBottom expression_shape [OF d])
  show "sized c (fst (ProcessTerminator (ReachingDefinitionAnalysis c) d e)) \<and>
    IsBottom (ReachingDefinitionAnalysis c) (fst (ProcessTerminator (ReachingDefinitionAnalysis c) d e)) = IsBottom (ReachingDefinitionAnalysis c) d \<and>
    snd (ProcessTerminator (ReachingDefinitionAnalysis c) d e) = None"
    by (simp add: Reaching_IsBottom terminator_shape [OF d])
  show "sized c (HandleVarStateCapturedByLambda (ReachingDefinitionAnalysis c) d l)" for l
    using effect_ok_sized [OF captured_ok [OF d] d] by (simp add: ReachingDefinitionAnalysis_def default_analysis_def)
  show "sized c (PreHandleLambdaExpression (ReachingDefinitionAnalysis c) d l)" for l
    using d by (simp add: ReachingDefinitionAnalysis_def default_analysis_def)
  fix tr i assume old: "\<forall>i < 2 * length (trackedMap c). says (reaching_means c) i (reaching_vec d ! i) tr" "i < 2 * length (trackedMap c)"
  show "says (reaching_means c) i (reaching_vec (NarrowExpression (ReachingDefinitionAnalysis c) d e) ! i) (tr @ [e])" if "\<not> IsTerminator e"
    by (rule effect_says [OF expression_ok [OF d that] d old])
  show "says (reaching_means c) i (reaching_vec (fst (ProcessTerminator (ReachingDefinitionAnalysis c) d e)) ! i) (tr @ [e])" if "IsTerminator e"
    by (rule effect_says [OF terminator_ok [OF d that] d old])
qed (simp_all add: ReachingDefinitionAnalysis_def default_analysis_def sized_def reaching_vec_def ReachingDefinitionDomain_make_def
    Reaching_InitializeFuncEntryState_def Let_def set_all_places SetToBound_def mult_2 replicate_add [symmetric])

subsection \<open>The map of the tracked allocations\<close>

definition tracked_ok :: "nat \<times> (IRValue \<times> nat) list \<Rightarrow> bool" where
  "tracked_ok a \<longleftrightarrow>
     length (snd a) \<le> fst a \<and> inj_on (map_of (snd a)) (dom (map_of (snd a))) \<and>
     (\<forall>v i. map_of (snd a) v = Some i \<longrightarrow> i < fst a)"

lemma TrackExpression_ok:
  assumes "tracked_ok acc"
  shows "tracked_ok (TrackExpression acc e)"
proof -
  obtain k m where acc: "acc = (k, m)" by (cases acc)
  have add: "tracked_ok (k + 1, emplace_alist m v k)" for v
  proof (cases "map_of m v")
    case None
    have idx: "map_of m x \<noteq> Some k" for x using assms acc by (auto simp: tracked_ok_def)
    have m: "map_of (m @ [(v, k)]) = (map_of m)(v \<mapsto> k)" using None
      by (auto simp: map_add_def fun_eq_iff split: option.splits)
    have "inj_on ((map_of m)(v \<mapsto> k)) (dom ((map_of m)(v \<mapsto> k)))"
      using assms acc idx by (auto simp: tracked_ok_def inj_on_def dom_def split: if_splits)
    moreover have "x < k + 1" if "((map_of m)(v \<mapsto> k)) y = Some x" for x y
      using that assms acc by (auto simp: tracked_ok_def split: if_splits) (meson less_SucI)
    ultimately show ?thesis using None assms acc m by (simp add: tracked_ok_def emplace_alist_def)
  next
    case (Some i)
    have "x < k + 1" if "map_of m y = Some x" for x y using that assms acc by (simp add: tracked_ok_def less_SucI)
    then show ?thesis using Some assms acc by (auto simp: tracked_ok_def emplace_alist_def)
  qed
  show ?thesis using assms add acc by (auto simp: TrackExpression_def Let_def split: option.splits)
qed

lemma TrackExpressions_ok: "tracked_ok acc \<Longrightarrow> tracked_ok (foldl TrackExpression acc es)"
  by (induction es arbitrary: acc) (simp_all add: TrackExpression_ok)

lemma TrackAllocations_ok: "tracked_ok acc \<Longrightarrow> tracked_ok (TrackAllocations blocks acc)"
  by (induction blocks acc rule: TrackAllocations.induct) (simp_all add: TrackExpressions_ok)

text \<open>There are as many values as allocations: no value is the result of two.\<close>

definition results_once :: "Expression list list \<Rightarrow> bool" where
  "results_once blocks \<longleftrightarrow> fst (TrackAllocations blocks (0, [])) = length (snd (TrackAllocations blocks (0, [])))"

lemma ReachingDefinitionAnalysis_make_facts:
  assumes c: "c = ReachingDefinitionAnalysis_make blocks L count"
  shows "map_of (trackedMap c) v = Some i \<Longrightarrow> map_of (trackedMap c) w = Some i \<Longrightarrow> v = w"
    and "results_once blocks \<Longrightarrow> map_of (trackedMap c) v = Some i \<Longrightarrow> i < length (trackedMap c)"
proof -
  have "tracked_ok (TrackAllocations blocks (0, []))" by (rule TrackAllocations_ok) (simp add: tracked_ok_def)
  moreover have "trackedMap c = snd (TrackAllocations blocks (0, []))" using c by (simp add: ReachingDefinitionAnalysis_make_def)
  ultimately show "map_of (trackedMap c) v = Some i \<Longrightarrow> map_of (trackedMap c) w = Some i \<Longrightarrow> v = w"
    "results_once blocks \<Longrightarrow> map_of (trackedMap c) v = Some i \<Longrightarrow> i < length (trackedMap c)"
    by (auto simp: tracked_ok_def results_once_def inj_on_def dom_def)
qed

subsection \<open>The results\<close>

text \<open>The store that is found is the last write to the location on every path; since the load that
  is found, nothing has written to the location.\<close>

lemma CheckReachingDef_says:
  assumes c: "c = ReachingDefinitionAnalysis_make blks L count" and once: "results_once blks"
    and res: "IterateSingleUnitToFixpoint (ReachingDefinitionAnalysis c) g blocks entry
      (function_start (ReachingDefinitionAnalysis c) entry q) = Some s'"
    and found: "CheckReachingDef c (entryStates s' b) location = Some store" and tr: "events_to g entry b tr"
  shows "last_store c location store tr"
proof -
  note f = ReachingDefinitionAnalysis_make_facts [OF c]
  obtain i where i: "map_of (trackedMap c) location = Some i" "reachingDefs (entryStates s' b) ! i = FlatElem store"
    using found by (auto simp: CheckReachingDef_def GetElem_def split: option.splits FlatSet.splits)
  have k: "i < length (trackedMap c)" using f(2) once i(1) by simp
  have says: "says (reaching_means c) i (reaching_vec (entryStates s' b) ! i) tr"
    by (rule reaching.fixpoint_says [OF res tr]) (use k in simp)
  have "sized c (entryStates s' b)" using reaching.fixpoint_fits [OF res] by blast
  then have "reaching_vec (entryStates s' b) ! i = FlatElem store" using i(2) k by (simp add: reaching_vec_def sized_def nth_append)
  then obtain l where "map_of (trackedMap c) l = Some i" "last_store c l store tr"
    using says k by (auto simp: says_def reaching_means_def)
  then show ?thesis using f(1) i(1) by blast
qed

lemma CheckReachingLoadDef_says:
  assumes c: "c = ReachingDefinitionAnalysis_make blks L count" and once: "results_once blks"
    and res: "IterateSingleUnitToFixpoint (ReachingDefinitionAnalysis c) g blocks entry
      (function_start (ReachingDefinitionAnalysis c) entry q) = Some s'"
    and found: "CheckReachingLoadDef c (entryStates s' b) location = Some load" and tr: "events_to g entry b tr"
  shows "still_loaded c location load tr"
proof -
  note f = ReachingDefinitionAnalysis_make_facts [OF c]
  let ?n = "length (trackedMap c)"
  obtain i where i: "map_of (trackedMap c) location = Some i" "reachingLoadDefs (entryStates s' b) ! i = FlatElem load"
    using found by (auto simp: CheckReachingLoadDef_def GetElem_def split: option.splits FlatSet.splits)
  have k: "i < ?n" using f(2) once i(1) by simp
  have says: "says (reaching_means c) (?n + i) (reaching_vec (entryStates s' b) ! (?n + i)) tr"
    by (rule reaching.fixpoint_says [OF res tr]) (use k in simp)
  have "sized c (entryStates s' b)" using reaching.fixpoint_fits [OF res] by blast
  then have "reaching_vec (entryStates s' b) ! (?n + i) = FlatElem load" using i(2) by (simp add: reaching_vec_def sized_def nth_append)
  then obtain l where "map_of (trackedMap c) l = Some i" "still_loaded c l load tr"
    using says by (auto simp: says_def reaching_means_def)
  then show ?thesis using f(1) i(1) by blast
qed

section \<open>Results of getOrThrow\<close>

record GetOrThrowResultDomain =
  gotKind :: ReachableKind
  GetOrThrowResults :: "nat FlatSet list"

text \<open>The argument of each call gets an index, when it has none yet.\<close>

definition NumberGetOrThrow :: "nat \<times> (IRValue \<times> nat) list \<Rightarrow> Expression \<Rightarrow> nat \<times> (IRValue \<times> nat) list" where
  "NumberGetOrThrow acc e =
     (let (argIdx, m) = acc
      in case e of
           Apply _ callee (arg # _) _ \<Rightarrow>
             if IsGetOrThrow callee \<and> map_of m arg = None then (argIdx + 1, emplace_alist m arg argIdx) else acc
         | _ \<Rightarrow> acc)"

definition GetOrThrowResultAnalysis_map :: "Expression list list \<Rightarrow> (IRValue \<times> nat) list" where
  "GetOrThrowResultAnalysis_map blocks = snd (foldl (foldl NumberGetOrThrow) (0, []) blocks)"

definition GetOrThrowResultDomain_make :: "(IRValue \<times> nat) list \<Rightarrow> GetOrThrowResultDomain" where
  "GetOrThrowResultDomain_make m = \<lparr>gotKind = UNREACHABLE, GetOrThrowResults = replicate (length m) (SetToBound False)\<rparr>"

definition GetOrThrowResultDomain_Join ::
  "GetOrThrowResultDomain \<Rightarrow> GetOrThrowResultDomain \<Rightarrow> bool \<times> GetOrThrowResultDomain" where
  "GetOrThrowResultDomain_Join d rhs =
     (let (changed, results) = VectorJoin (GetOrThrowResults d) (GetOrThrowResults rhs)
      in (changed, \<lparr>gotKind = REACHABLE, GetOrThrowResults = results\<rparr>))"

definition CheckGetOrThrowResult :: "(IRValue \<times> nat) list \<Rightarrow> GetOrThrowResultDomain \<Rightarrow> IRValue \<Rightarrow> nat option" where
  "CheckGetOrThrowResult m d location =
     (case map_of m location of Some i \<Rightarrow> GetElem (GetOrThrowResults d ! i) | None \<Rightarrow> None)"

definition GetOrThrow_PropagateExpressionEffect ::
  "(IRValue \<times> nat) list \<Rightarrow> GetOrThrowResultDomain \<Rightarrow> Expression \<Rightarrow> GetOrThrowResultDomain" where
  "GetOrThrow_PropagateExpressionEffect m d e =
     (case e of
        Apply call callee (arg # _) _ \<Rightarrow>
          if IsGetOrThrow callee then
            case map_of m arg of
              Some i \<Rightarrow> if GetOrThrowResults d ! i = FlatBottom \<or> GetOrThrowResults d ! i = FlatTop
                        then d\<lparr>GetOrThrowResults := (GetOrThrowResults d)[i := FlatElem call]\<rparr> else d
            | None \<Rightarrow> d
          else d
      | _ \<Rightarrow> d)"

definition GetOrThrowResultAnalysis ::
  "(IRValue \<times> nat) list \<Rightarrow> (nat, Expression, Expression, nat, GetOrThrowResultDomain, unit) Analysis" where
  "GetOrThrowResultAnalysis m =
     (default_analysis (GetOrThrowResultDomain_make m) (\<lambda>d. gotKind d = UNREACHABLE) GetOrThrowResultDomain_Join
        LambdaExpression IsApplyToLambdaExpr IsApplyToLambdaExpr)
     \<lparr>InitializeFuncEntryState := (\<lambda>d. \<lparr>gotKind = REACHABLE, GetOrThrowResults = map (\<lambda>_. SetToBound True) (GetOrThrowResults d)\<rparr>),
      PropagateExpressionEffect := GetOrThrow_PropagateExpressionEffect m\<rparr>"

text \<open>The call has been made on the path.\<close>

definition called_on :: "IRValue \<Rightarrow> nat \<Rightarrow> Expression list \<Rightarrow> bool" where
  "called_on arg call tr \<longleftrightarrow> (\<exists>callee args sup. Apply call callee (arg # args) sup \<in> set tr \<and> IsGetOrThrow callee)"

definition got_means :: "(IRValue \<times> nat) list \<Rightarrow> nat \<Rightarrow> nat \<Rightarrow> Expression list \<Rightarrow> bool" where
  "got_means m i call tr \<longleftrightarrow> (\<exists>arg. map_of m arg = Some i \<and> called_on arg call tr)"

lemma got_means_append: "got_means m i a tr \<Longrightarrow> got_means m i a (tr @ es)"
  by (auto simp: got_means_def called_on_def)

lemma got_effect:
  fixes m d e
  defines "d' \<equiv> GetOrThrow_PropagateExpressionEffect m d e"
  assumes len: "length (GetOrThrowResults d) = length m"
  shows "length (GetOrThrowResults d') = length m" "gotKind d' = gotKind d"
    and "says (got_means m) i (GetOrThrowResults d ! i) tr \<Longrightarrow> says (got_means m) i (GetOrThrowResults d' ! i) (tr @ [e])"
proof -
  have "d' = d \<or> (\<exists>call callee arg args sup j. e = Apply call callee (arg # args) sup \<and> IsGetOrThrow callee \<and>
      map_of m arg = Some j \<and> d' = d\<lparr>GetOrThrowResults := (GetOrThrowResults d)[j := FlatElem call]\<rparr>)"
  proof (cases e)
    case (Apply call callee args sup)
    then show ?thesis unfolding d'_def GetOrThrow_PropagateExpressionEffect_def by (cases args) (auto split: option.splits)
  qed (simp_all add: d'_def GetOrThrow_PropagateExpressionEffect_def)
  then have "length (GetOrThrowResults d') = length m \<and> gotKind d' = gotKind d \<and>
    (says (got_means m) i (GetOrThrowResults d ! i) tr \<longrightarrow> says (got_means m) i (GetOrThrowResults d' ! i) (tr @ [e]))"
  proof (elim disjE exE conjE)
    assume "d' = d"
    then show ?thesis using len got_means_append [of m i _ tr "[e]"] by (auto simp: says_def split: FlatSet.splits)
  next
    fix call callee arg args sup j
    assume e: "e = Apply call callee (arg # args) sup" "IsGetOrThrow callee" and j: "map_of m arg = Some j"
      and d': "d' = d\<lparr>GetOrThrowResults := (GetOrThrowResults d)[j := FlatElem call]\<rparr>"
    have new: "got_means m j call (tr @ [e])" using e j by (fastforce simp: got_means_def called_on_def)
    have "says (got_means m) i (GetOrThrowResults d' ! i) (tr @ [e])" if "says (got_means m) i (GetOrThrowResults d ! i) tr"
      using that new got_means_append [of m i _ tr "[e]"] d' by (auto simp: says_def nth_update_if split: FlatSet.splits)
    then show ?thesis using len d' by simp
  qed
  then show "length (GetOrThrowResults d') = length m" "gotKind d' = gotKind d"
    "says (got_means m) i (GetOrThrowResults d ! i) tr \<Longrightarrow> says (got_means m) i (GetOrThrowResults d' ! i) (tr @ [e])" by simp_all
qed

lemma GetOrThrow_defaults:
  "IsBottom (GetOrThrowResultAnalysis m) d \<longleftrightarrow> gotKind d = UNREACHABLE"
  "Join (GetOrThrowResultAnalysis m) = GetOrThrowResultDomain_Join"
  "ProcessTerminator (GetOrThrowResultAnalysis m) d e = (d, None)"
  by (auto simp: GetOrThrowResultAnalysis_def default_analysis_def ProcessTerminator_def split: option.splits)

lemma GetOrThrow_NarrowExpression:
  "NarrowExpression (GetOrThrowResultAnalysis m) d e = GetOrThrow_PropagateExpressionEffect m d e"
proof (cases "LambdaExpression e = None")
  case True
  then show ?thesis by (simp add: GetOrThrowResultAnalysis_def default_analysis_def NarrowExpression_def split: option.splits)
next
  case False
  then show ?thesis
    by (cases e) (auto simp: GetOrThrowResultAnalysis_def default_analysis_def NarrowExpression_def LambdaExpression_def
        GetOrThrow_PropagateExpressionEffect_def)
qed

interpretation got: flat_analysis "GetOrThrowResultAnalysis m" g "length m" "\<lambda>d. length (GetOrThrowResults d) = length m"
  GetOrThrowResults "got_means m" for m :: "(IRValue \<times> nat) list" and g :: IRBody
proof
  fix a d :: GetOrThrowResultDomain
  assume s: "length (GetOrThrowResults a) = length m" "length (GetOrThrowResults d) = length m"
  show "length (GetOrThrowResults (snd (Join (GetOrThrowResultAnalysis m) a d))) = length m \<and>
      (\<forall>i < length m. GetOrThrowResults (snd (Join (GetOrThrowResultAnalysis m) a d)) ! i =
         snd (FlatSet_Join (GetOrThrowResults a ! i) (GetOrThrowResults d ! i))) \<and>
      fst (Join (GetOrThrowResultAnalysis m) a d) = (GetOrThrowResults (snd (Join (GetOrThrowResultAnalysis m) a d)) \<noteq> GetOrThrowResults a) \<and>
      \<not> IsBottom (GetOrThrowResultAnalysis m) (snd (Join (GetOrThrowResultAnalysis m) a d))"
    using s by (simp add: GetOrThrow_defaults GetOrThrowResultDomain_Join_def case_prod_unfold VectorJoin_facts Let_def)
next
  fix d :: GetOrThrowResultDomain and e tr i
  assume d: "length (GetOrThrowResults d) = length m" "\<forall>i < length m. says (got_means m) i (GetOrThrowResults d ! i) tr" "i < length m"
  show "says (got_means m) i (GetOrThrowResults (NarrowExpression (GetOrThrowResultAnalysis m) d e) ! i) (tr @ [e])"
    using got_effect(3) [OF d(1)] d(2,3) by (simp add: GetOrThrow_NarrowExpression)
  show "says (got_means m) i (GetOrThrowResults (fst (ProcessTerminator (GetOrThrowResultAnalysis m) d e)) ! i) (tr @ [e])"
    using d(2,3) got_means_append [of m i _ tr "[e]"] by (auto simp: GetOrThrow_defaults says_def split: FlatSet.splits)
qed (simp_all add: GetOrThrow_defaults GetOrThrow_NarrowExpression got_effect(1,2),
  simp_all add: GetOrThrowResultAnalysis_def default_analysis_def GetOrThrowResultDomain_make_def SetToBound_def map_replicate_const)

text \<open>The map gives each argument an index of its own, below its length.\<close>

lemma GetOrThrow_map_ok:
  "tracked_ok (foldl (foldl NumberGetOrThrow) (0, []) blocks) \<and>
   fst (foldl (foldl NumberGetOrThrow) (0, []) blocks) = length (snd (foldl (foldl NumberGetOrThrow) (0, []) blocks))"
proof -
  let ?P = "\<lambda>a. tracked_ok a \<and> fst a = length (snd a)"
  have one: "?P (NumberGetOrThrow acc e)" if p: "?P acc" for acc e
  proof -
    obtain k m where acc: "acc = (k, m)" by (cases acc)
    have new: "?P (k + 1, emplace_alist m arg k)" if none: "map_of m arg = None" for arg
    proof -
      have t: "TrackExpression (k, m) (Allocate arg False \<lparr>typeKind = TYPE_INT8, IsCStruct = False, baseKind = TYPE_INT8\<rparr>) =
          (k + 1, emplace_alist m arg k)"
        by (simp add: TrackExpression_def canBeTracked_def)
      have "tracked_ok (k + 1, emplace_alist m arg k)"
        unfolding t [symmetric] by (rule TrackExpression_ok [OF conjunct1 [OF p [unfolded acc]]])
      then show ?thesis using none p acc by (simp add: emplace_alist_def)
    qed
    show ?thesis
    proof (cases "NumberGetOrThrow acc e = acc")
      case True
      show ?thesis unfolding True by (rule p)
    next
      case False
      have "\<exists>arg. map_of m arg = None \<and> NumberGetOrThrow acc e = (k + 1, emplace_alist m arg k)"
        using False by (cases e) (auto simp: acc NumberGetOrThrow_def split: list.splits if_splits)
      then obtain arg where "map_of m arg = None" and n: "NumberGetOrThrow acc e = (k + 1, emplace_alist m arg k)" by blast
      show ?thesis unfolding n by (rule new) fact
    qed
  qed
  have block: "?P (foldl NumberGetOrThrow acc es)" if "?P acc" for acc es
    using that
  proof (induction es arbitrary: acc)
    case (Cons e es)
    show ?case unfolding foldl_Cons by (rule Cons.IH [OF one [OF Cons.prems]])
  qed simp
  have all: "?P (foldl (foldl NumberGetOrThrow) acc bs)" if "?P acc" for acc bs
    using that
  proof (induction bs arbitrary: acc)
    case (Cons b bs)
    show ?case unfolding foldl_Cons by (rule Cons.IH [OF block [OF Cons.prems]])
  qed simp
  have "?P (0, [])" by (simp add: tracked_ok_def)
  then show ?thesis by (rule all)
qed

text \<open>The call that is found has been made, for the value asked for, on every path.\<close>

lemma CheckGetOrThrowResult_says:
  assumes m: "m = GetOrThrowResultAnalysis_map blks"
    and res: "IterateSingleUnitToFixpoint (GetOrThrowResultAnalysis m) g blocks entry
      (function_start (GetOrThrowResultAnalysis m) entry q) = Some s'"
    and found: "CheckGetOrThrowResult m (entryStates s' b) location = Some call" and tr: "events_to g entry b tr"
  shows "called_on location call tr"
proof -
  obtain i where i: "map_of m location = Some i" "GetOrThrowResults (entryStates s' b) ! i = FlatElem call"
    using found by (auto simp: CheckGetOrThrowResult_def GetElem_def split: option.splits FlatSet.splits)
  have ok: "inj_on (map_of m) (dom (map_of m))" "i < length m"
    using GetOrThrow_map_ok [of blks] i(1) m by (auto simp: tracked_ok_def GetOrThrowResultAnalysis_map_def)
  have "says (got_means m) i (GetOrThrowResults (entryStates s' b) ! i) tr" by (rule got.fixpoint_says [OF res tr ok(2)])
  then obtain arg where arg: "map_of m arg = Some i" "called_on arg call tr"
    using i(2) by (auto simp: says_def got_means_def)
  have "arg = location" by (rule inj_onD [OF ok(1)]) (use arg(1) i(1) in auto)
  then show ?thesis using arg(2) by simp
qed

end
