(* ===== verification/Engine_Properties.thy ===== *)
theory Engine_Properties
  imports Init_Analyses Reaching_Definitions
begin

text \<open>
  The properties of the data-flow engine and of the analyses it runs, with an instance of each that
  has hypotheses: a function whose second block loops.
\<close>

section \<open>A sample function\<close>

definition int64 :: IRType where
  "int64 = \<lparr>typeKind = TYPE_INT64, IsCStruct = False, baseKind = TYPE_INT64\<rparr>"

definition local_var :: "nat \<Rightarrow> IRValue" where
  "local_var n = \<lparr>address = n, IsParameter = False, IsReadonly = False, GetType = int64\<rparr>"

definition this_param :: IRValue where
  "this_param = \<lparr>address = 0, IsParameter = True, IsReadonly = False, GetType = int64\<rparr>"

definition sample_ctor :: IRFunction where
  "sample_ctor = \<lparr>GetFuncKind = CLASS_CONSTRUCTOR, IsStatic = False, GetParams = [this_param], GetOuterDeclaredOrExtendedDef = Some 7\<rparr>"

definition sample_info :: ConstructorInitInfo where
  "sample_info = \<lparr>thisCustomDef = Some 7, superClassDef = None, superMemberNums = 0, localMemberNums = 2\<rparr>"

definition get_or_throw :: Callee where
  "get_or_throw = \<lparr>FuncWithBody = None, IsMut = False, IsGetOrThrow = True, DefiningLambda = None\<rparr>"

text \<open>The first block stores to a variable and to the member 0, the second loads the variable, the
  third stores to the member 1.\<close>

definition sample_blocks :: "Expression list list" where
  "sample_blocks =
     [[Allocate (local_var 1) True int64, Store 10 (local_var 1) 4, StoreElementRef sample_ctor this_param [0] 5,
       Apply 11 get_or_throw [local_var 2] False],
      [Load 20 (local_var 1)],
      [StoreElementRef sample_ctor this_param [1] 6]]"

definition sample_body :: IRBody where
  "sample_body =
     \<lparr>GetExpressions = (\<lambda>b. if b < 3 then Some (sample_blocks ! b, OtherTerminator b) else None),
      TerminatorSuccessors = (\<lambda>t. if t = OtherTerminator 0 then [1] else if t = OtherTerminator 1 then [1, 2] else [])\<rparr>"

lemma sample_graph: "finite_graph (GetSuccessors sample_body) 0"
  by (rule finite_graph_within [of "{0, 1, 2}"]) (auto simp: GetSuccessors_def sample_body_def)

lemma sample_no_lambda: "GetExpressions sample_body b = Some (es, tm) \<Longrightarrow> e \<in> set es \<Longrightarrow> LambdaExpression e = None"
  by (auto simp: sample_body_def sample_blocks_def LambdaExpression_def numeral_3_eq_3 less_Suc_eq split: if_splits)

definition sample_unit :: "(nat, nat) Unit" where
  "sample_unit = \<lparr>GetBody = Some ([0, 1, 2], 0), SKIP_ANALYSIS = False, LambdaBody = (\<lambda>_. ([], 0))\<rparr>"

lemma sample_init_ok: "init_body_ok sample_info sample_body"
  by (auto simp: init_body_ok_def sample_body_def sample_blocks_def init_expression_ok_def sample_info_def sample_ctor_def
      IsInitialisingMemberVar_def IsConstructor_def this_param_def GetParam0_def numeral_3_eq_3 less_Suc_eq split: if_splits)

section \<open>The engine\<close>

text \<open>C22: The order of the blocks exists and holds the blocks the entry reaches, each once, the entry
  first and every other block after one of its predecessors.\<close>

theorem TopologicalSort_correct:
  assumes "finite_graph successors entry"
  shows "\<exists>order. TopologicalSort successors entry = Some order \<and> distinct order \<and>
    set order = {b. reaches successors entry b} \<and> order \<noteq> [] \<and> hd order = entry \<and>
    (\<forall>i < length order. 0 < i \<longrightarrow> (\<exists>j < i. order ! i \<in> set (successors (order ! j))))"
proof -
  obtain order where o: "TopologicalSort successors entry = Some order" using TopologicalSort_total [OF assms] by blast
  show ?thesis using o TopologicalSort_facts [OF o] unfolding led_to_def by blast
qed

theorem TopologicalSort_correct_witness:
  "TopologicalSort (GetSuccessors sample_body) 0 = Some [0, 1, 2] \<and>
   (\<exists>order. TopologicalSort (GetSuccessors sample_body) 0 = Some order \<and> set order = {b. reaches (GetSuccessors sample_body) 0 b})"
proof
  show "TopologicalSort (GetSuccessors sample_body) 0 = Some [0, 1, 2]" by code_simp
  show "\<exists>order. TopologicalSort (GetSuccessors sample_body) 0 = Some order \<and> set order = {b. reaches (GetSuccessors sample_body) 0 b}"
    using TopologicalSort_correct [OF sample_graph] by blast
qed

lemma lambdas_done:
  "\<exists>r. X = Some r \<and> (\<forall>r'. r = Some r' \<longrightarrow> \<not> lambdas_left r) \<Longrightarrow> \<exists>r. X = Some r \<and> \<not> lambdas_left r"
  by (auto simp: lambdas_left_def split: option.splits)

text \<open>C21: Each of the four analyses returns on a function whose body and lambdas have finitely many
  blocks and whose bodies define finitely many lambdas, and then no lambda is left.\<close>

theorem IterateToFixpoint_returns:
  assumes lambdas: "\<And>b es tm e l. GetExpressions g b = Some (es, tm) \<Longrightarrow> e \<in> set es \<Longrightarrow> LambdaExpression e = Some l \<Longrightarrow> l \<in> L"
    and fin: "finite L" "\<forall>l \<in> L. finite_graph (GetSuccessors g) (snd (LambdaBody u l))"
    and body: "\<And>blocks entry. GetBody u = Some (blocks, entry) \<Longrightarrow> finite_graph (GetSuccessors g) entry"
  shows "(\<exists>r. IterateToFixpoint (MaybeInitAnalysis i) g u () = Some r \<and> \<not> lambdas_left r) \<and>
    (\<exists>r. IterateToFixpoint (MaybeUninitAnalysis i) g u () = Some r \<and> \<not> lambdas_left r) \<and>
    (\<exists>r. IterateToFixpoint (ReachingDefinitionAnalysis c) g u () = Some r \<and> \<not> lambdas_left r) \<and>
    (\<exists>r. IterateToFixpoint (GetOrThrowResultAnalysis m) g u () = Some r \<and> \<not> lambdas_left r)"
proof -
  have L: "lambdas_within (MaybeInitAnalysis i) g L" "lambdas_within (MaybeUninitAnalysis i) g L"
    "lambdas_within (ReachingDefinitionAnalysis c) g L" "lambdas_within (GetOrThrowResultAnalysis m) g L"
    using lambdas by (auto simp: lambdas_within_def MaybeInitAnalysis_def MaybeUninitAnalysis_def
        ReachingDefinitionAnalysis_def GetOrThrowResultAnalysis_def default_analysis_def)
  note total = maybe_init.fin.function_total [OF L(1) fin body] maybe_uninit.fin.function_total [OF L(2) fin body]
    reaching.fin.function_total [OF L(3) fin body] got.fin.function_total [OF L(4) fin body]
  show ?thesis by (intro conjI) (rule lambdas_done, rule total, assumption)+
qed

theorem IterateToFixpoint_returns_witness:
  "\<exists>r. IterateToFixpoint (MaybeInitAnalysis (InitAnalysis_make sample_ctor sample_blocks sample_info)) sample_body sample_unit () = Some r \<and>
    \<not> lambdas_left r"
  using IterateToFixpoint_returns [of sample_body "{}" sample_unit] sample_no_lambda sample_graph by (simp add: sample_unit_def)

section \<open>Initialisation\<close>

text \<open>The paths of the statement hold every event, terminators included, so that the last allocation
  of a location may be an \<^verbatim>\<open>AllocateWithException\<close>.\<close>

definition terminated :: "IRBody \<Rightarrow> bool" where
  "terminated g \<longleftrightarrow> (\<forall>b es tm. GetExpressions g b = Some (es, tm) \<longrightarrow> IsTerminator tm \<and> (\<forall>e \<in> set es. \<not> IsTerminator e))"

definition allocates :: "IRValue \<Rightarrow> Expression \<Rightarrow> bool" where
  "allocates location e \<longleftrightarrow> (\<exists>debug ty. e = Allocate location debug ty \<or> e = AllocateWithException location debug ty)"

definition stored_since_allocation :: "IRValue \<Rightarrow> Expression list \<Rightarrow> bool" where
  "stored_since_allocation location tr \<longleftrightarrow>
     (\<exists>pre k line post. tr = pre @ Store k location line # post \<and> (\<forall>e \<in> set post. \<not> allocates location e))"

definition allocated_by_terminator :: "IRBody \<Rightarrow> IRValue \<Rightarrow> bool" where
  "allocated_by_terminator g location \<longleftrightarrow> (\<exists>b es tm. GetExpressions g b = Some (es, tm) \<and> allocates location tm)"

abbreviation expressions_of :: "Expression list \<Rightarrow> Expression list" where
  "expressions_of tr \<equiv> filter (\<lambda>e. \<not> IsTerminator e) tr"

lemma events_expressions:
  assumes "events_to g entry b tr" "\<not> allocated_by_terminator g location"
  shows "path_to g entry b (expressions_of tr) \<and> (\<forall>e \<in> set tr. IsTerminator e \<longrightarrow> \<not> allocates location e)"
  using assms(1) unfolding events_to_def
proof induction
  case (step b x y s)
  then obtain es tm where e: "GetExpressions g b = Some (es, tm)" "IsTerminator tm" "\<forall>e \<in> set es. \<not> IsTerminator e"
      "s \<in> set (GetSuccessors g b)" "y = x @ es @ [tm]"
    by (auto simp: event_run_def)
  then have "path_run g b (expressions_of x) (expressions_of y) s" by (auto simp: path_run_def)
  then show ?case
    using step.IH e assms(2) unfolding path_to_def by (auto simp: allocated_by_terminator_def intro: runs_to.step)
qed (simp add: path_to_def runs_to.start)

lemma path_events:
  assumes "path_to g entry b tr" "terminated g"
  shows "\<exists>ev. events_to g entry b ev \<and> expressions_of ev = tr"
  using assms(1) unfolding path_to_def
proof induction
  case (start x)
  then show ?case unfolding events_to_def by (intro exI [of _ "[]"]) (simp add: runs_to.start)
next
  case (step b x y s)
  then obtain ev es tm where e: "events_to g entry b ev" "expressions_of ev = x" "GetExpressions g b = Some (es, tm)"
      "s \<in> set (GetSuccessors g b)" "y = x @ es"
    by (auto simp: path_run_def)
  then have t: "IsTerminator tm" "\<forall>e \<in> set es. \<not> IsTerminator e" using assms(2) by (auto simp: terminated_def)
  then have "event_run g b ev (ev @ es @ [tm]) s" using e by (simp add: event_run_def)
  then have "events_to g entry s (ev @ es @ [tm])" using e(1) unfolding events_to_def by (blast intro: runs_to.step)
  moreover have "expressions_of (ev @ es @ [tm]) = y" using e t by simp
  ultimately show ?case by blast
qed

lemma filter_appendE:
  assumes "filter P xs = ys @ zs"
  obtains us vs where "xs = us @ vs" "filter P us = ys" "filter P vs = zs"
proof -
  have "\<exists>us vs. xs = us @ vs \<and> filter P us = ys \<and> filter P vs = zs" using assms
  proof (induction ys arbitrary: xs)
    case Nil
    then show ?case by (intro exI [of _ "[]"] exI [of _ xs]) simp
  next
    case (Cons y ys)
    then obtain us vs where e: "xs = us @ y # vs" "\<forall>u \<in> set us. \<not> P u" "P y" "filter P vs = ys @ zs"
      by (auto dest!: filter_eq_ConsD)
    obtain us' vs' where i: "vs = us' @ vs'" "filter P us' = ys" "filter P vs' = zs" using Cons.IH [OF e(4)] by blast
    then show ?case using e by (intro exI [of _ "us @ y # us'"] exI [of _ vs']) (simp add: filter_empty_conv)
  qed
  then show thesis using that by blast
qed

lemma stored_expressions:
  assumes "\<forall>e \<in> set tr. IsTerminator e \<longrightarrow> \<not> allocates location e"
  shows "stored_since_allocation location tr \<longleftrightarrow> stored_to location (expressions_of tr)"
proof
  assume "stored_since_allocation location tr"
  then obtain pre k line post where p: "tr = pre @ Store k location line # post" "\<forall>e \<in> set post. \<not> allocates location e"
    by (auto simp: stored_since_allocation_def)
  then have "expressions_of tr = expressions_of pre @ Store k location line # expressions_of post" by (simp add: IsTerminator_def)
  then show "stored_to location (expressions_of tr)" using p(2) unfolding stored_to_def allocates_def by fastforce
next
  assume "stored_to location (expressions_of tr)"
  then obtain pre k line post where p: "expressions_of tr = pre @ Store k location line # post"
      "\<forall>debug ty. Allocate location debug ty \<notin> set post"
    by (auto simp: stored_to_def)
  obtain us vs where "tr = us @ vs" "expressions_of vs = Store k location line # post" by (rule filter_appendE [OF p(1)])
  then obtain us' vs' where t: "tr = (us @ us') @ Store k location line # vs'" "post = expressions_of vs'"
    by (auto dest: filter_eq_ConsD)
  have "\<not> allocates location e" if "e \<in> set vs'" for e
  proof (cases "IsTerminator e")
    case True
    then show ?thesis using assms t(1) that by auto
  next
    case False
    then have "e \<in> set post" using t(2) that by simp
    then show ?thesis using p(2) False by (auto simp: allocates_def IsTerminator_def)
  qed
  then show "stored_since_allocation location tr" using t(1) unfolding stored_since_allocation_def by blast
qed

lemma stored_on_paths:
  assumes "terminated g" "\<not> allocated_by_terminator g location"
  shows "(\<exists>tr. path_to g entry b tr \<and> stored_to location tr = v) \<longleftrightarrow>
    (\<exists>tr. events_to g entry b tr \<and> stored_since_allocation location tr = v)"
  using events_expressions [OF _ assms(2)] path_events [OF _ assms(1)] stored_expressions by metis

text \<open>C17: For a tracked location that no terminator allocates (no \<^verbatim>\<open>AllocateWithException\<close> has it as
  result), in a body with finitely many blocks that end with their only terminator and whose
  member stores and super calls are those the class allows (\<open>init_body_ok\<close>): the fixpoints of the two initialisation
  analyses exist, and at the entry of a block the location is maybe initialised exactly if some
  path to the block stores to it after its last allocation, maybe not initialised exactly if
  some path does not.\<close>

theorem MaybeInit_MaybeUninit_exact:
  assumes c: "c = InitAnalysis_make f blks info" and ok: "init_body_ok info g"
    and l: "allocateIdxMap c location \<noteq> None" and fin: "finite_graph (GetSuccessors g) entry"
    and tm: "terminated g" "\<not> allocated_by_terminator g location"
  shows "(\<exists>s. IterateSingleUnitToFixpoint (MaybeInitAnalysis c) g blocks entry (function_start (MaybeInitAnalysis c) entry ()) = Some s \<and>
      (\<forall>b. IsMaybeInitedAllocation c (entryStates s b) location =
        Some (\<exists>tr. events_to g entry b tr \<and> stored_since_allocation location tr))) \<and>
    (\<exists>s. IterateSingleUnitToFixpoint (MaybeUninitAnalysis c) g blocks entry (function_start (MaybeUninitAnalysis c) entry ()) = Some s \<and>
      (\<forall>b. IsMaybeUninitedAllocation c (entryStates s b) location =
        Some (\<exists>tr. events_to g entry b tr \<and> \<not> stored_since_allocation location tr)))"
  using maybe_init.start_total [OF fin, of c blocks "()"] maybe_uninit.start_total [OF fin, of c blocks "()"]
    MaybeInit_at_location [OF c ok l] MaybeUninit_at_location [OF c ok l]
  unfolding stored_on_paths [OF tm, of entry _ True, simplified, symmetric] stored_on_paths [OF tm, of entry _ False, simplified, symmetric]
  by blast

definition sample_init :: InitAnalysis where
  "sample_init = InitAnalysis_make sample_ctor sample_blocks sample_info"

lemma sample_location:
  "map_option (\<lambda>s. IsMaybeUninitedAllocation sample_init (entryStates s 1) (local_var 1))
     (IterateSingleUnitToFixpoint (MaybeUninitAnalysis sample_init) sample_body [0, 1, 2] 0
       (function_start (MaybeUninitAnalysis sample_init) 0 ())) = Some (Some False)"
  by code_simp

lemma sample_terminated: "terminated sample_body" "\<not> allocated_by_terminator sample_body location"
  by (auto simp: terminated_def allocated_by_terminator_def allocates_def sample_body_def sample_blocks_def IsTerminator_def
      numeral_3_eq_3 less_Suc_eq split: if_splits)

text \<open>No path enters the loop without the store.\<close>

theorem MaybeInit_MaybeUninit_exact_witness:
  "\<not> (\<exists>tr. events_to sample_body 0 1 tr \<and> \<not> stored_since_allocation (local_var 1) tr)"
proof -
  have l: "allocateIdxMap sample_init (local_var 1) \<noteq> None"
    by (simp add: sample_init_def InitAnalysis_make_def sample_blocks_def emplace_def Let_def)
  obtain s where s: "IterateSingleUnitToFixpoint (MaybeUninitAnalysis sample_init) sample_body [0, 1, 2] 0
      (function_start (MaybeUninitAnalysis sample_init) 0 ()) = Some s"
    and e: "IsMaybeUninitedAllocation sample_init (entryStates s 1) (local_var 1) =
      Some (\<exists>tr. events_to sample_body 0 1 tr \<and> \<not> stored_since_allocation (local_var 1) tr)"
    using MaybeInit_MaybeUninit_exact [OF sample_init_def sample_init_ok l sample_graph sample_terminated, of "[0, 1, 2]"] by blast
  show ?thesis using sample_location s e by simp
qed

text \<open>Counterexample for the locations left out: a loop allocates a variable by
  \<^verbatim>\<open>AllocateWithException\<close> at the end of its first block and stores to it in the second. The second
  block is reported as maybe initialised for it, although every path to the block ends with the
  allocation.\<close>

definition retry_blocks :: "Expression list list" where
  "retry_blocks = [[AllocateWithException (local_var 1) True int64], [Store 10 (local_var 1) 4, OtherTerminator 1]]"

definition retry_body :: IRBody where
  "retry_body =
     \<lparr>GetExpressions = (\<lambda>b. if b < 2 then Some (butlast (retry_blocks ! b), last (retry_blocks ! b)) else None),
      TerminatorSuccessors = (\<lambda>t. if t = OtherTerminator 1 then [0] else [1])\<rparr>"

definition retry_init :: InitAnalysis where
  "retry_init = InitAnalysis_make sample_ctor retry_blocks sample_info"

theorem MaybeInit_misses_allocation:
  "map_option (\<lambda>s. IsMaybeInitedAllocation retry_init (entryStates s 1) (local_var 1))
     (IterateSingleUnitToFixpoint (MaybeInitAnalysis retry_init) retry_body [0, 1] 0
       (function_start (MaybeInitAnalysis retry_init) 0 ())) = Some (Some True) \<and>
   {tr. events_to retry_body 0 1 tr} \<subseteq> {tr. \<not> stored_since_allocation (local_var 1) tr}"
proof
  show "map_option (\<lambda>s. IsMaybeInitedAllocation retry_init (entryStates s 1) (local_var 1))
     (IterateSingleUnitToFixpoint (MaybeInitAnalysis retry_init) retry_body [0, 1] 0
       (function_start (MaybeInitAnalysis retry_init) 0 ())) = Some (Some True)" by code_simp
  have no: "\<not> stored_since_allocation (local_var 1) (x @ [AllocateWithException (local_var 1) True int64])" for x
    by (auto simp: stored_since_allocation_def allocates_def append_eq_append_conv2 append_eq_Cons_conv Cons_eq_append_conv)
  have "\<exists>x. tr = x @ [AllocateWithException (local_var 1) True int64]" if "events_to retry_body 0 1 tr" for tr
    using that unfolding events_to_def
  proof (cases rule: runs_to.cases)
    case (step b x)
    then show ?thesis
      by (auto simp: event_run_def retry_body_def retry_blocks_def GetSuccessors_def numeral_2_eq_2 less_Suc_eq split: if_splits)
  qed simp
  then show "{tr. events_to retry_body 0 1 tr} \<subseteq> {tr. \<not> stored_since_allocation (local_var 1) tr}" using no by blast
qed




section \<open>Reaching definitions\<close>

text \<open>C19: The fixpoint of the reaching-definition analysis exists; a store it reports for a location at a
  block is the last write to the location on every path to the block, and nothing has written to
  the location since a load it reports.\<close>

theorem CheckReachingDef_sound:
  assumes c: "c = ReachingDefinitionAnalysis_make blks L count" and once: "results_once blks"
    and fin: "finite_graph (GetSuccessors g) entry"
  shows "\<exists>s. IterateSingleUnitToFixpoint (ReachingDefinitionAnalysis c) g blocks entry
      (function_start (ReachingDefinitionAnalysis c) entry ()) = Some s \<and>
    (\<forall>b location store tr. CheckReachingDef c (entryStates s b) location = Some store \<longrightarrow> events_to g entry b tr \<longrightarrow>
       last_store c location store tr) \<and>
    (\<forall>b location load tr. CheckReachingLoadDef c (entryStates s b) location = Some load \<longrightarrow> events_to g entry b tr \<longrightarrow>
       still_loaded c location load tr)"
  using reaching.start_total [OF fin, of c blocks "()"] CheckReachingDef_says [OF c once] CheckReachingLoadDef_says [OF c once]
  by blast

text \<open>Two lambdas that apply one another, the second defined in the first.\<close>

definition sample_table :: Lambdas where
  "sample_table = \<lparr>GetCapturedVariables = (\<lambda>l. [local_var l\<lparr>GetType := int64\<lparr>typeKind := TYPE_REFTYPE\<rparr>\<rparr>, local_var 9]),
     AppliedLambdas = (\<lambda>l. if l = 0 then [1] else if l = 1 then [0] else []),
     DefinedLambdas = (\<lambda>l. if l = 0 then [1] else [])\<rparr>"

definition sample_reaching :: ReachingAnalysis where
  "sample_reaching = ReachingDefinitionAnalysis_make sample_blocks sample_table 2"

lemma sample_reaching_found:
  "results_once sample_blocks"
  "map_option (\<lambda>s. (CheckReachingDef sample_reaching (entryStates s 2) (local_var 1),
       CheckReachingLoadDef sample_reaching (entryStates s 2) (local_var 1)))
     (IterateSingleUnitToFixpoint (ReachingDefinitionAnalysis sample_reaching) sample_body [0, 1, 2] 0
       (function_start (ReachingDefinitionAnalysis sample_reaching) 0 ())) = Some (Some 10, Some 20)"
  by code_simp+

theorem CheckReachingDef_sound_witness:
  "{tr. events_to sample_body 0 2 tr} \<subseteq>
     {tr. last_store sample_reaching (local_var 1) 10 tr \<and> still_loaded sample_reaching (local_var 1) 20 tr}"
proof -
  obtain s where s: "IterateSingleUnitToFixpoint (ReachingDefinitionAnalysis sample_reaching) sample_body [0, 1, 2] 0
      (function_start (ReachingDefinitionAnalysis sample_reaching) 0 ()) = Some s"
    and e: "\<And>tr. CheckReachingDef sample_reaching (entryStates s 2) (local_var 1) = Some 10 \<Longrightarrow> events_to sample_body 0 2 tr \<Longrightarrow>
        last_store sample_reaching (local_var 1) 10 tr"
      "\<And>tr. CheckReachingLoadDef sample_reaching (entryStates s 2) (local_var 1) = Some 20 \<Longrightarrow> events_to sample_body 0 2 tr \<Longrightarrow>
        still_loaded sample_reaching (local_var 1) 20 tr"
    using CheckReachingDef_sound [OF sample_reaching_def sample_reaching_found(1) sample_graph, of "[0, 1, 2]"] by blast
  show ?thesis using sample_reaching_found(2) s e by auto
qed

text \<open>C20: The fixpoint of the getOrThrow analysis exists, and a call it reports for a value at a block
  has been made with the value on every path to the block.\<close>

theorem CheckGetOrThrowResult_sound:
  assumes m: "m = GetOrThrowResultAnalysis_map blks" and fin: "finite_graph (GetSuccessors g) entry"
  shows "\<exists>s. IterateSingleUnitToFixpoint (GetOrThrowResultAnalysis m) g blocks entry
      (function_start (GetOrThrowResultAnalysis m) entry ()) = Some s \<and>
    (\<forall>b location call tr. CheckGetOrThrowResult m (entryStates s b) location = Some call \<longrightarrow> events_to g entry b tr \<longrightarrow>
       called_on location call tr)"
  using got.start_total [OF fin, of m blocks "()"] CheckGetOrThrowResult_says [OF m] by blast

lemma sample_got_found:
  "map_option (\<lambda>s. CheckGetOrThrowResult (GetOrThrowResultAnalysis_map sample_blocks) (entryStates s 2) (local_var 2))
     (IterateSingleUnitToFixpoint (GetOrThrowResultAnalysis (GetOrThrowResultAnalysis_map sample_blocks)) sample_body [0, 1, 2] 0
       (function_start (GetOrThrowResultAnalysis (GetOrThrowResultAnalysis_map sample_blocks)) 0 ())) = Some (Some 11)"
  by code_simp

theorem CheckGetOrThrowResult_sound_witness:
  "{tr. events_to sample_body 0 2 tr} \<subseteq> {tr. called_on (local_var 2) 11 tr}"
proof -
  let ?m = "GetOrThrowResultAnalysis_map sample_blocks"
  obtain s where s: "IterateSingleUnitToFixpoint (GetOrThrowResultAnalysis ?m) sample_body [0, 1, 2] 0
      (function_start (GetOrThrowResultAnalysis ?m) 0 ()) = Some s"
    and e: "\<And>tr. CheckGetOrThrowResult ?m (entryStates s 2) (local_var 2) = Some 11 \<Longrightarrow> events_to sample_body 0 2 tr \<Longrightarrow>
        called_on (local_var 2) 11 tr"
    using CheckGetOrThrowResult_sound [OF refl sample_graph, of sample_blocks "[0, 1, 2]"] by blast
  show ?thesis using sample_got_found s e by auto
qed

text \<open>C23: When every lambda defined in the lambdas that the first one reaches by applications is itself
  reached by applications, the variables a lambda call may write are, as the header says, the
  captured references of all lambdas that are defined or called in its body or in theirs; the
  depth of the recursion is at most the number of lambdas.\<close>

theorem GetLambdaCapturedVarsRecursively_exact:
  assumes "finite U" "\<And>l. l \<in> U \<Longrightarrow> set (AppliedLambdas L l) \<subseteq> U" "lambda \<in> U" "card U \<le> fuel"
    and "\<And>l l'. applies_to L lambda l \<Longrightarrow> l' \<in> set (DefinedLambdas L l) \<Longrightarrow> applies_to L lambda l'"
  shows "GetLambdaCapturedVarsRecursively fuel L lambda =
    {var. typeKind (GetType var) = TYPE_REFTYPE \<and> (\<exists>l. steps_into L lambda l \<and> var \<in> set (GetCapturedVariables L l))}"
proof -
  have "steps_into L lambda l \<longleftrightarrow> applies_to L lambda l" for l
  proof
    show "applies_to L lambda l" if "steps_into L lambda l" by (rule steps_into_applies_to [OF _ that]) (rule assms(5))
  qed (rule applies_to_steps_into)
  then show ?thesis using GetLambdaCapturedVarsRecursively_eq [OF assms(1-4)] by (auto simp: captured_refs_def)
qed

theorem GetLambdaCapturedVarsRecursively_exact_witness:
  "local_var 1\<lparr>GetType := int64\<lparr>typeKind := TYPE_REFTYPE\<rparr>\<rparr> \<in> GetLambdaCapturedVarsRecursively 2 sample_table 0"
proof -
  have a: "applies_to sample_table 0 1" by (rule applies_to.via [OF applies_to.itself]) (simp add: sample_table_def)
  then have d: "l' \<in> set (DefinedLambdas sample_table l) \<Longrightarrow> applies_to sample_table 0 l'" for l l'
    by (auto simp: sample_table_def split: if_splits)
  have u: "set (AppliedLambdas sample_table l) \<subseteq> {0, 1}" for l by (auto simp: sample_table_def)
  have "GetLambdaCapturedVarsRecursively 2 sample_table 0 =
      {var. typeKind (GetType var) = TYPE_REFTYPE \<and> (\<exists>l. steps_into sample_table 0 l \<and> var \<in> set (GetCapturedVariables sample_table l))}"
    by (rule GetLambdaCapturedVarsRecursively_exact [of "{0, 1}"]) (use d u in simp_all)
  moreover have "local_var 1\<lparr>GetType := int64\<lparr>typeKind := TYPE_REFTYPE\<rparr>\<rparr> \<in> set (GetCapturedVariables sample_table 1)"
    by (simp add: sample_table_def)
  ultimately show ?thesis using applies_to_steps_into [OF a] by auto
qed

text \<open>Counterexample outside that condition: a lambda that is defined in the first one and handed on,
  not called there, is skipped.\<close>

theorem GetLambdaCapturedVarsRecursively_skips_defined:
  "let L = sample_table\<lparr>AppliedLambdas := (\<lambda>l. [])\<rparr>; var = local_var 1\<lparr>GetType := int64\<lparr>typeKind := TYPE_REFTYPE\<rparr>\<rparr>
   in steps_into L 0 1 \<and> var \<in> captured_refs L 1 \<and> var \<notin> GetLambdaCapturedVarsRecursively fuel L 0"
proof -
  let ?L = "sample_table\<lparr>AppliedLambdas := (\<lambda>l. [])\<rparr>"
  have "steps_into ?L 0 1" by (rule steps_into.into [OF steps_into.itself]) (simp add: sample_table_def)
  moreover have "local_var 1\<lparr>GetType := int64\<lparr>typeKind := TYPE_REFTYPE\<rparr>\<rparr> \<in> captured_refs ?L 1"
    by (simp add: captured_refs_def sample_table_def)
  moreover have "local_var 1\<lparr>GetType := int64\<lparr>typeKind := TYPE_REFTYPE\<rparr>\<rparr> \<notin> GetLambdaCapturedVarsRecursively fuel ?L 0"
    by (cases fuel) (auto simp: GetLambdaCapturedVarsRecursively_def captured_refs_def sample_table_def local_var_def)
  ultimately show ?thesis by (simp add: Let_def)
qed

end
