(* ===== verification/Spec2Isabelle.thy ===== *)
theory Spec2Isabelle
  imports SInt_Properties Range_Properties Domain_Properties SIntRange_Properties Transfer_Properties Loop_Properties
    Engine_Properties
begin

text \<open>
  The data-flow analyses of the Cangjie compiler (\<^verbatim>\<open>src/src/CHIR/Analysis\<close>, headers in
  \<^verbatim>\<open>src/include/cangjie/CHIR/Analysis\<close>): the abstract values of the value range analysis, the
  engine that runs an analysis over a function, and the initialisation, reaching-definition and
  getOrThrow analyses.

  \<^bold>\<open>The program.\<close> The value range analysis computes, for the values of a CHIR function, what integers and
  booleans they may be, so that later passes can remove checks and branches. It is a stack of
  layers, each calling only those below it:

    \<^item> \<^verbatim>\<open>Arithmetic.h\<close>: bit counters and sign extension on 64-bit words.
    \<^item> \<^verbatim>\<open>SInt\<close>: an integer of 8, 16, 32 or 64 bits, read as signed or unsigned by the caller.
    \<^item> \<^verbatim>\<open>ConstantRange\<close>: a half-open interval of such integers that may wrap around.
    \<^item> \<^verbatim>\<open>BoolDomain\<close>, \<^verbatim>\<open>SIntDomain\<close>: an abstract boolean; a range together with bounds on the
      differences to other values, with the transfer functions of the operators under the three
      overflow strategies (wrapping, saturating, throwing).
    \<^item> \<^verbatim>\<open>SIntRange\<close> (\<^verbatim>\<open>ValueRangeAnalysis.h\<close>): the product of an integer domain with exact
      values, a congruence, known bits, excluded values and interval fragments, which
      strengthen one another when a value is made.
    \<^item> \<^verbatim>\<open>ValueRangeAnalysis.cpp\<close>: the transfer functions on those products, widening at loop
      heads, and the limits of it all, read from the environment.

  \<^verbatim>\<open>Engine.h\<close> drives any analysis that implements \<^verbatim>\<open>Analysis.h\<close>: from the entry states of the
  blocks it takes the blocks in the order of \<^verbatim>\<open>TopologicalSort\<close>, propagates the state through the
  expressions of a block, joins it into the successors and visits again those that changed, narrows
  when the analysis asks for it, then does the same for every lambda met on the way.

  \<^bold>\<open>Theories.\<close> Definitions keep the names of the code, with the prefix of their class
  (\<open>SInt_\<close>, \<open>CR_\<close>, \<open>BD_\<close>, \<open>SD_\<close>).

    \<^item> \<open>Range_Prelude\<close>: widths, \<open>2 ^ w\<close> as an opaque modulus, shared facts. \<open>Std_Algorithms\<close>: the
      algorithms of the C++ library on vectors.
    \<^item> \<open>Arith64\<close>, \<open>Bit_Counters\<close>: \<^verbatim>\<open>Arithmetic.h\<close>; the portable counters against the builtins.
    \<^item> \<open>SInt\<close>: \<^verbatim>\<open>SInt.cpp\<close>. \<open>SInt_Facts\<close> gives each operation's effect on the two readings \<open>uv\<close>
      and \<open>sv\<close>; \<open>SInt_Overflow\<close> the overflow flags and saturation.
    \<^item> \<open>ConstantRange\<close>: \<^verbatim>\<open>ConstantRange.cpp\<close>. \<open>Range_Sets\<close> gives the set \<open>\<gamma>\<close> a range stands for;
      \<open>Range_Lattice\<close>, \<open>Range_Arith\<close>, \<open>Range_Casts\<close>, \<open>Range_MulDiv\<close>, \<open>Range_SDiv\<close> and
      \<open>Range_Convex\<close> show for each operation that it covers the operation on elements.
    \<^item> \<open>BoolDomain\<close>: \<^verbatim>\<open>BoolDomain.cpp\<close>.
    \<^item> \<open>SIntDomain\<close>: \<^verbatim>\<open>SIntDomain.cpp\<close>. \<open>Domain_Compare\<close> says what a domain claims of a value in an
      environment of symbols and treats the comparisons, \<open>Domain_Merge\<close> the walk over two sorted
      maps (a locale for the functor it is given, interpreted on the two functors of the code),
      \<open>Domain_Arith\<close> the arithmetic, \<open>Domain_Casts\<close> the conversions.
    \<^item> \<open>Range_Config\<close>: the limits. \<open>SInt_Values\<close>, \<open>SInt_Congruence\<close>, \<open>SInt_KnownBits\<close>,
      \<open>SInt_Fragments\<close>: the parts of the product, each with what it says of a value and the
      soundness of its inference, meet, join and reduction.
    \<^item> \<open>SIntRange\<close>: the product, its constructor, union, loop union and narrowing.
      \<open>SIntRange_Sound\<close>, \<open>SIntRange_Join\<close>, \<open>SIntRange_Narrow\<close>: no value is lost.
    \<^item> \<open>Overflow_Check\<close>: \<^verbatim>\<open>CHIR/Checker/OverflowChecking.h\<close> and \<^verbatim>\<open>.cpp\<close>, the overflow checks of the
      operators, of conversions and of powers; a locale states the contract of a check (an exact
      flag, the exact, wrapped or nearest value), interpreted on the checks of the code.
    \<^item> \<open>Exact_Arith\<close>: operators and powers on exact values, sets of exact values, the diagnostics on
      two single values. \<open>Bitwise_Transfer\<close>, \<open>Bitwise_Ranges\<close>: negation, complement, bitwise
      operators and shifts on values, intervals and known bits. \<open>Arith_Congruence\<close>: the proof that an
      operator cannot overflow, the congruence and the interval fragments of its result.
    \<^item> \<open>Widening\<close>: the thresholds, the widening of a domain and of a value at a loop head, why nothing is
      lost, and the measure that shows that widening ends.
    \<^item> \<open>Block_Order\<close>: \<^verbatim>\<open>TopologicalSort\<close>. \<open>Fixpoint_Engine\<close>: the engine, an analysis as the record of its
      virtual functions. \<open>Engine_Sound\<close>, \<open>Engine_Total\<close>: the contracts of an analysis as locales and
      what the engine makes of them: the fixpoint covers every run, exists, holds nothing a run
      does not justify.
    \<^item> \<open>Analysis_IR\<close>: the values, functions and expressions the analyses read, the numbering of
      allocations, the variables a lambda call may write. \<open>Gen_Kill\<close>: \<^verbatim>\<open>GenKillAnalysis.h\<close> and, as a
      locale, the exactness of a `maybe' analysis. \<open>Init_Analyses\<close>: \<^verbatim>\<open>MaybeInitAnalysis.cpp\<close>,
      \<^verbatim>\<open>MaybeUninitAnalysis.cpp\<close>. \<open>Flat_Analyses\<close>: \<^verbatim>\<open>FlatSet.h\<close> and the analyses over vectors of it, as a
      locale. \<open>Reaching_Definitions\<close>: \<^verbatim>\<open>ReachingDefinitionAnalysis.cpp\<close>,
      \<^verbatim>\<open>GetOrThrowResultAnalysis.cpp\<close>.
    \<^item> \<open>SInt_Properties\<close>, \<open>Range_Properties\<close>, \<open>Domain_Properties\<close>, \<open>SIntRange_Properties\<close>,
      \<open>Transfer_Properties\<close>, \<open>Loop_Properties\<close>, \<open>Engine_Properties\<close>: the properties, each with an
      instance (\<open>Sample_Values\<close>) when it has hypotheses.

  \<^bold>\<open>Reading the statements.\<close> \<open>\<gamma> r\<close> is the set of 64-bit patterns a range holds, \<open>uv\<close> and
  \<open>sv\<close> read a pattern as an integer. The well-formedness predicates (\<open>SInt_wf\<close>, \<open>CR_wf\<close>,
  \<open>SD_wf\<close> and those of the product) are the contracts of the constructors; the lemmas show that
  every operation keeps them. The model is the build without assertions: where C++ leaves an
  operation undefined (division by zero, a shift by the whole width) the function returns an
  option, and the soundness theorems show that the analysis never takes that path on well-formed
  operands. Theorems named \<open>_unsound\<close>, \<open>_misses_\<close>, \<open>_drops_\<close>, \<open>_skips_\<close>,
  \<open>_keeps_symbolic\<close> or \<open>_inverted\<close> are counterexamples: they give the concrete input on which the code does
  not do what it is meant to, and the soundness theorem beside each has the condition that
  excludes it.

  \<^bold>\<open>Bounds.\<close> Loops of the code are structural recursion on lists, on the number of bits, or on a
  measure with a termination proof. The loops of the engine are \<open>while_option\<close>, whose result is
  \<open>None\<close> if they do not end; \<open>IterateToFixpoint_returns\<close> shows that they do on a finite graph. The
  recursion over lambdas has the number of lambdas as its fuel, which
  \<open>GetLambdaCapturedVarsRecursively_exact\<close> shows to be enough. \<^verbatim>\<open>__int128\<close> is an \<open>int\<close>: the theory
  that uses it says why the values stay in range.

  \<^bold>\<open>Not modelled.\<close> Output formatters and statistics counters. Of the CHIR graph only what the
  analyses of \<open>Analysis_IR\<close> read: blocks, expressions and values as data, the successors of a
  terminator as a function. So the parts of \<^verbatim>\<open>ValueRangeAnalysis.cpp\<close> that walk the graph are left
  out (call summaries, memory objects, branch conditions found by pattern matching), and with
  them the instance of the engine's contracts for the value range analysis; the narrowing rounds
  are modelled, the four analyses ask for none. The constant, type and call graph analyses and
  the passes are clients of the graph. The front end, code generation and driver of the compiler
  are other programs of the repository.
\<close>

end
